(* ===== verification/Prelude.thy ===== *)
theory Prelude
  imports Main "HOL-Library.AList" "HOL-Library.Sublist"
begin

text \<open>
  Shared vocabulary of the development: the collections of rewrite rules the component
  theories extend, Python's insertion-ordered dictionary as an association list, decimal
  rendering of integers, and the generic machines (an operation that keeps an invariant, an
  operation that only moves a state upwards in an order) whose run lemmas are proved once,
  inside their locales, and reused by every stateful component.
\<close>

section \<open>Collections of rules\<close>

named_theorems unit_simps \<open>scaled-integer units reduced to integer arithmetic\<close>
named_theorems event_simps \<open>event constructors and payload lookups\<close>
named_theorems machine_simps \<open>operations of the stateful components\<close>

section \<open>Results of fallible operations\<close>

text \<open>
  A Python function that may raise returns \<open>Inl\<close> of the exception or \<open>Inr\<close> of the value.
\<close>

definition is_ok :: "'e + 'a \<Rightarrow> bool" where
  "is_ok r = (case r of Inl _ \<Rightarrow> False | Inr _ \<Rightarrow> True)"

definition res_bind :: "'e + 'a \<Rightarrow> ('a \<Rightarrow> 'e + 'b) \<Rightarrow> 'e + 'b" where
  "res_bind r f = (case r of Inl e \<Rightarrow> Inl e | Inr x \<Rightarrow> f x)"

section \<open>Insertion-ordered dictionaries\<close>

text \<open>
  A Python \<open>dict\<close> iterates in insertion order; assigning to a present key keeps its position
  and \<open>pop(k, None)\<close> drops the key if it is there. \<open>AList.update\<close> and \<open>AList.delete\<close> behave
  exactly so on an association list without duplicate keys.
\<close>

type_synonym ('k, 'v) pydict = "('k \<times> 'v) list"

definition dict_get :: "('k, 'v) pydict \<Rightarrow> 'k \<Rightarrow> 'v option" where
  "dict_get d k = map_of d k"

definition dict_set :: "'k \<Rightarrow> 'v \<Rightarrow> ('k, 'v) pydict \<Rightarrow> ('k, 'v) pydict" where
  "dict_set k v d = AList.update k v d"

definition dict_pop :: "'k \<Rightarrow> ('k, 'v) pydict \<Rightarrow> ('k, 'v) pydict" where
  "dict_pop k d = AList.delete k d"

definition dict_wf :: "('k, 'v) pydict \<Rightarrow> bool" where
  "dict_wf d = distinct (map fst d)"

section \<open>Decimal rendering\<close>

definition digit_char :: "nat \<Rightarrow> char" where
  "digit_char n = char_of (48 + n)"

definition char_digit :: "char \<Rightarrow> nat" where
  "char_digit c = of_char c - 48"

definition is_digit :: "char \<Rightarrow> bool" where
  "is_digit c = (48 \<le> (of_char c :: nat) \<and> (of_char c :: nat) \<le> 57)"

fun show_nat :: "nat \<Rightarrow> string" where
  "show_nat n = (if n < 10 then [digit_char n] else show_nat (n div 10) @ [digit_char (n mod 10)])"

declare show_nat.simps [simp del]

definition read_nat :: "string \<Rightarrow> nat" where
  "read_nat s = foldl (\<lambda>acc c. 10 * acc + char_digit c) 0 s"

text \<open>Python's \<open>str\<close> of an integer.\<close>

definition show_int :: "int \<Rightarrow> string" where
  "show_int i = (if i < 0 then ''-'' @ show_nat (nat (- i)) else show_nat (nat i))"

section \<open>Lemmas on results\<close>

lemma is_ok_simps [simp]: "is_ok (Inl e) = False" "is_ok (Inr x) = True"
  by (simp_all add: is_ok_def)

lemma is_okE [elim]: "is_ok r \<Longrightarrow> (\<And>x. r = Inr x \<Longrightarrow> P) \<Longrightarrow> P"
  by (cases r) auto

lemma res_bind_simps [simp]: "res_bind (Inl e) f = Inl e" "res_bind (Inr x) f = f x"
  by (simp_all add: res_bind_def)

lemma res_bind_Inr_iff: "res_bind r f = Inr y \<longleftrightarrow> (\<exists>x. r = Inr x \<and> f x = Inr y)"
  by (cases r) auto

section \<open>The dictionary interface\<close>

locale py_dict =
  fixes get :: "'d \<Rightarrow> 'k \<Rightarrow> 'v option"
    and set_item :: "'k \<Rightarrow> 'v \<Rightarrow> 'd \<Rightarrow> 'd"
    and pop :: "'k \<Rightarrow> 'd \<Rightarrow> 'd"
    and wf :: "'d \<Rightarrow> bool"
  assumes get_set: "get (set_item k v d) k' = (if k' = k then Some v else get d k')"
    and get_pop: "get (pop k d) k' = (if k' = k then None else get d k')"
    and wf_set: "wf d \<Longrightarrow> wf (set_item k v d)"
    and wf_pop: "wf d \<Longrightarrow> wf (pop k d)"
begin

lemma get_pops: "get (fold pop ks d) k = (if k \<in> set ks then None else get d k)"
  by (induction ks arbitrary: d) (auto simp: get_pop)

lemma wf_pops: "wf d \<Longrightarrow> wf (fold pop ks d)"
  by (induction ks arbitrary: d) (auto simp: wf_pop)

lemma get_set_pop: "get (pop k (set_item k v d)) k' = get (pop k d) k'"
  by (simp add: get_set get_pop)

end

interpretation dict: py_dict dict_get dict_set dict_pop dict_wf
proof
  fix k k' :: 'a and v :: 'b and d :: "('a, 'b) pydict"
  show "dict_get (dict_set k v d) k' = (if k' = k then Some v else dict_get d k')"
    by (simp add: dict_get_def dict_set_def update_conv)
  show "dict_get (dict_pop k d) k' = (if k' = k then None else dict_get d k')"
    by (simp add: dict_get_def dict_pop_def delete_conv)
  show "dict_wf d \<Longrightarrow> dict_wf (dict_set k v d)"
    by (simp add: dict_wf_def dict_set_def distinct_update)
  show "dict_wf d \<Longrightarrow> dict_wf (dict_pop k d)"
    by (simp add: dict_wf_def dict_pop_def distinct_delete)
qed

lemma dict_wf_Nil [simp]: "dict_wf []"
  by (simp add: dict_wf_def)

lemma dict_get_Nil [simp]: "dict_get [] k = None"
  by (simp add: dict_get_def)

lemma dict_get_in_values: "dict_get d k = Some v \<Longrightarrow> (k, v) \<in> set d"
  by (simp add: dict_get_def map_of_SomeD)

lemma dict_get_of_mem: "dict_wf d \<Longrightarrow> (k, v) \<in> set d \<Longrightarrow> dict_get d k = Some v"
  by (simp add: dict_get_def dict_wf_def)

lemma dict_get_keys: "dict_get d k = None \<longleftrightarrow> k \<notin> fst ` set d"
  by (simp add: dict_get_def map_of_eq_None_iff)

lemma set_dict_pop: "set (dict_pop k d) = {p \<in> set d. fst p \<noteq> k}"
  by (auto simp: dict_pop_def AList.delete_eq)

lemma set_dict_set: "dict_wf d \<Longrightarrow> set (dict_set k v d) = insert (k, v) {p \<in> set d. fst p \<noteq> k}"
  by (induction d) (auto simp: dict_set_def dict_wf_def rev_image_eqI)

lemma dict_set_fresh: "k \<notin> fst ` set d \<Longrightarrow> dict_set k v d = d @ [(k, v)]"
  by (induction d) (auto simp: dict_set_def)

lemma dict_pop_fresh: "k \<notin> fst ` set d \<Longrightarrow> dict_pop k d = d"
  unfolding dict_pop_def AList.delete_eq by (subst filter_id_conv) force

text \<open>Totals over the values of a dictionary.\<close>

lemma sum_dict_pop:
  fixes f :: "'v \<Rightarrow> int"
  assumes "dict_wf d" and "dict_get d k = Some v"
  shows "(\<Sum>(_, x) \<leftarrow> dict_pop k d. f x) = (\<Sum>(_, x) \<leftarrow> d. f x) - f v"
  using assms
proof (induction d)
  case (Cons p d)
  then show ?case
    by (cases p) (auto simp: dict_wf_def dict_get_def dict_pop_def split: if_splits)
qed simp

lemma sum_dict_set_present:
  fixes f :: "'v \<Rightarrow> int"
  assumes "dict_wf d" and "dict_get d k = Some v"
  shows "(\<Sum>(_, x) \<leftarrow> dict_set k w d. f x) = (\<Sum>(_, x) \<leftarrow> d. f x) - f v + f w"
  using assms
proof (induction d)
  case (Cons p d)
  then show ?case
    by (cases p) (auto simp: dict_wf_def dict_get_def dict_set_def split: if_splits)
qed simp

section \<open>Lemmas on decimal rendering\<close>

lemma of_char_digit_char: "n < 10 \<Longrightarrow> (of_char (digit_char n) :: nat) = 48 + n"
  by (simp add: digit_char_def)

lemma char_digit_digit_char [simp]: "n < 10 \<Longrightarrow> char_digit (digit_char n) = n"
  by (simp add: char_digit_def of_char_digit_char)

lemma is_digit_digit_char [simp]: "n < 10 \<Longrightarrow> is_digit (digit_char n)"
  by (simp add: is_digit_def of_char_digit_char)

lemma read_nat_snoc: "read_nat (s @ [c]) = 10 * read_nat s + char_digit c"
  by (simp add: read_nat_def)

lemma read_nat_append:
  "read_nat (a @ b) = read_nat a * 10 ^ length b + read_nat b"
proof (induction b rule: rev_induct)
  case Nil
  then show ?case by (simp add: read_nat_def)
next
  case (snoc c b)
  have "read_nat ((a @ b) @ [c]) = 10 * read_nat (a @ b) + char_digit c"
    by (rule read_nat_snoc)
  with snoc show ?case by (simp add: read_nat_snoc algebra_simps)
qed

lemma read_show_nat [simp]: "read_nat (show_nat n) = n"
proof (induction n rule: show_nat.induct)
  case (1 n)
  then show ?case
    by (cases "n < 10") (simp_all add: show_nat.simps [of n] read_nat_snoc, simp add: read_nat_def)
qed

lemma show_nat_digits: "c \<in> set (show_nat n) \<Longrightarrow> is_digit c"
proof (induction n rule: show_nat.induct)
  case (1 n)
  then show ?case
    by (cases "n < 10") (auto simp: show_nat.simps [of n])
qed

lemma show_nat_nonempty [simp]: "show_nat n \<noteq> []"
  by (subst show_nat.simps) simp

lemma show_nat_inj: "show_nat m = show_nat n \<longleftrightarrow> m = n"
  by (metis read_show_nat)

lemma show_nat_length: "n < 10 ^ k \<Longrightarrow> 0 < k \<Longrightarrow> length (show_nat n) \<le> k"
proof (induction n arbitrary: k rule: show_nat.induct)
  case (1 n)
  show ?case
  proof (cases "n < 10")
    case True
    then show ?thesis using "1.prems" by (simp add: show_nat.simps [of n])
  next
    case False
    obtain j where j: "k = Suc j" using "1.prems" by (cases k) auto
    with False "1.prems" have "0 < j" by (cases j) auto
    moreover have "n div 10 < 10 ^ j" using "1.prems" j by (simp add: less_mult_imp_div_less)
    ultimately have "length (show_nat (n div 10)) \<le> j" using "1.IH" False by blast
    then show ?thesis using False j by (simp add: show_nat.simps [of n])
  qed
qed

text \<open>
  Reading a number off the front of a text: two texts that start with a rendered number
  followed by something that does not start with a digit agree on the number and on the rest.
\<close>

lemma digits_prefix_unique:
  assumes "a @ r = b @ s"
    and "\<forall>c \<in> set a. P c" and "\<forall>c \<in> set b. P c"
    and "r = [] \<or> \<not> P (hd r)" and "s = [] \<or> \<not> P (hd s)"
  shows "a = b \<and> r = s"
proof -
  have "takeWhile P (a @ r) = a"
    using assms(2,4) by (cases r) (auto simp: takeWhile_append)
  moreover have "takeWhile P (b @ s) = b"
    using assms(3,5) by (cases s) (auto simp: takeWhile_append)
  ultimately have "a = b" using assms(1) by simp
  with assms(1) show ?thesis by simp
qed

lemma minus_not_digit [simp]: "\<not> is_digit (CHR ''-'')"
  by (simp add: is_digit_def)

lemma show_int_neq_minus: "0 \<le> i \<Longrightarrow> hd (show_int i) \<noteq> CHR ''-''"
  using show_nat_digits [of "hd (show_nat (nat i))" "nat i"]
  by (auto simp: show_int_def)

lemma show_int_prefix_unique:
  assumes eq: "show_int i @ r = show_int j @ s"
    and r: "r = [] \<or> \<not> is_digit (hd r)" and s: "s = [] \<or> \<not> is_digit (hd s)"
  shows "i = j \<and> r = s"
proof -
  have hd_ne: "hd (show_nat n) \<noteq> CHR ''-''" for n
    using show_nat_digits [of "hd (show_nat n)" n] by auto
  have sign: "(i < 0) = (j < 0)"
  proof (rule ccontr)
    assume "(i < 0) \<noteq> (j < 0)"
    with eq have "hd (show_nat (nat i)) = CHR ''-'' \<or> hd (show_nat (nat j)) = CHR ''-''"
      by (auto simp: show_int_def hd_append dest: arg_cong [where f = hd] split: if_splits)
    with hd_ne show False by blast
  qed
  define m n where "m = (if i < 0 then nat (- i) else nat i)"
    and "n = (if i < 0 then nat (- j) else nat j)"
  have "show_nat m @ r = show_nat n @ s"
    using eq sign by (auto simp: show_int_def m_def n_def split: if_splits)
  then have "show_nat m = show_nat n \<and> r = s"
    using digits_prefix_unique [of "show_nat m" r "show_nat n" s is_digit] r s
    by (auto dest: show_nat_digits)
  then show ?thesis using sign by (auto simp: show_nat_inj m_def n_def split: if_splits)
qed

lemma show_int_inj: "show_int i = show_int j \<longleftrightarrow> i = j"
  using show_int_prefix_unique [of i "[]" j "[]"] by auto

section \<open>Generic machines\<close>

text \<open>
  A component whose operations all keep an invariant keeps it over every sequence of
  operations; a component whose operations all move its state upwards in a reflexive and
  transitive order is above its start after every sequence.
\<close>

locale invariant_machine =
  fixes exec :: "'s \<Rightarrow> 'op \<Rightarrow> 's"
    and inv :: "'s \<Rightarrow> bool"
  assumes exec_inv: "inv s \<Longrightarrow> inv (exec s c)"
begin

lemma run_inv: "inv s \<Longrightarrow> inv (foldl exec s cs)"
  by (induction cs arbitrary: s) (auto simp: exec_inv)

lemma run_inv_prefix: "inv s \<Longrightarrow> inv (foldl exec s (take n cs))"
  by (rule run_inv)

end

locale monotone_machine =
  fixes exec :: "'s \<Rightarrow> 'op \<Rightarrow> 's"
    and le :: "'s \<Rightarrow> 's \<Rightarrow> bool"
  assumes le_refl: "le s s"
    and le_trans: "le s t \<Longrightarrow> le t u \<Longrightarrow> le s u"
    and exec_le: "le s (exec s c)"
begin

lemma run_le: "le s (foldl exec s cs)"
  by (induction cs arbitrary: s) (auto intro: le_refl le_trans exec_le)

lemma run_le_between: "le (foldl exec s cs) (foldl exec s (cs @ ds))"
  by (simp add: run_le)

end

text \<open>Operations of an allowed kind keep an invariant.\<close>

locale guarded_machine =
  fixes exec :: "'s \<Rightarrow> 'op \<Rightarrow> 's"
    and inv :: "'s \<Rightarrow> bool"
    and admissible :: "'op \<Rightarrow> bool"
  assumes exec_inv: "inv s \<Longrightarrow> admissible c \<Longrightarrow> inv (exec s c)"
begin

lemma run_inv: "inv s \<Longrightarrow> list_all admissible cs \<Longrightarrow> inv (foldl exec s cs)"
  by (induction cs arbitrary: s) (auto simp: exec_inv)

end

text \<open>A run of a machine simulates a run of the machine it refines.\<close>

locale refining_machine =
  fixes step :: "'s \<Rightarrow> 'c \<Rightarrow> 's"
    and abs_step :: "'a \<Rightarrow> 'c \<Rightarrow> 'a"
    and stands_for :: "'s \<Rightarrow> 'a \<Rightarrow> bool"
    and permitted :: "'c \<Rightarrow> bool"
  assumes step_refines: "stands_for s a \<Longrightarrow> permitted c \<Longrightarrow> stands_for (step s c) (abs_step a c)"
begin

lemma run_refines: "stands_for s a \<Longrightarrow> list_all permitted cs \<Longrightarrow> stands_for (foldl step s cs) (foldl abs_step a cs)"
  by (induction cs arbitrary: s a) (auto simp: step_refines)

end

end
