(* ===== verification/Numeric.thy ===== *)
theory Numeric
  imports Complex_Main Prelude
begin

text \<open>
  The fixed-point core (\<open>windbreak/numeric/rounding.py\<close> and \<open>types.py\<close>): the one sanctioned
  integer division with its two conservative rounding directions, the scaled-integer unit
  types, the dynamic unit checks the Python base class performs, the exact price-times-count
  conversion and the fixed-point display text.

  Python integers are unbounded, so they are \<open>int\<close>. The base class \<open>_IntUnit\<close> is the datatype
  \<open>int_unit\<close> with a phantom parameter naming the subclass, so that mixing units is a type error
  in HOL as it is a \<open>TypeError\<close> at run time; \<open>any_unit\<close> models the untyped run-time value and
  the checks that raise.
\<close>

section \<open>Definitions\<close>

subsection \<open>Rounding\<close>

datatype num_error = ZeroDivisionError | TypeError | ValueError

datatype RoundingDirection = OVERSTATE_COST | UNDERSTATE_EQUITY

definition ceil_div :: "int \<Rightarrow> int \<Rightarrow> int" where
  "ceil_div n d = - ((- n) div d)"

definition floor_div :: "int \<Rightarrow> int \<Rightarrow> int" where
  "floor_div n d = n div d"

definition divide_int :: "int \<Rightarrow> int \<Rightarrow> RoundingDirection \<Rightarrow> num_error + int" where
  "divide_int numerator denominator rounding =
     (if denominator = 0 then Inl ZeroDivisionError
      else if rounding = OVERSTATE_COST then Inr (ceil_div numerator denominator)
      else Inr (floor_div numerator denominator))"

subsection \<open>Units\<close>

datatype 'u int_unit = IntUnit (val: int)

datatype pips_tag = Pips_Tag
datatype centis_tag = Centis_Tag
datatype micros_tag = Micros_Tag
datatype ppm_tag = Ppm_Tag

type_synonym PricePips = "pips_tag int_unit"
type_synonym ContractCentis = "centis_tag int_unit"
type_synonym MoneyMicros = "micros_tag int_unit"
type_synonym ProbabilityPpm = "ppm_tag int_unit"

instantiation int_unit :: (type) ordered_ab_group_add
begin

definition zero_int_unit :: "'a int_unit" where
  "zero_int_unit = IntUnit 0"

definition plus_int_unit :: "'a int_unit \<Rightarrow> 'a int_unit \<Rightarrow> 'a int_unit" where
  "plus_int_unit a b = IntUnit (val a + val b)"

definition minus_int_unit :: "'a int_unit \<Rightarrow> 'a int_unit \<Rightarrow> 'a int_unit" where
  "minus_int_unit a b = IntUnit (val a - val b)"

definition uminus_int_unit :: "'a int_unit \<Rightarrow> 'a int_unit" where
  "uminus_int_unit a = IntUnit (- val a)"

definition less_eq_int_unit :: "'a int_unit \<Rightarrow> 'a int_unit \<Rightarrow> bool" where
  "less_eq_int_unit a b = (val a \<le> val b)"

definition less_int_unit :: "'a int_unit \<Rightarrow> 'a int_unit \<Rightarrow> bool" where
  "less_int_unit a b = (val a < val b)"

instance
  by standard
    (auto simp: zero_int_unit_def plus_int_unit_def minus_int_unit_def uminus_int_unit_def
      less_eq_int_unit_def less_int_unit_def int_unit.expand)

end

instantiation int_unit :: (type) linorder
begin

instance
  by standard (auto simp: less_eq_int_unit_def)

end

definition scale_unit :: "'u int_unit \<Rightarrow> int \<Rightarrow> 'u int_unit" where
  "scale_unit a k = IntUnit (val a * k)"

text \<open>
  The run-time view: a value tagged with its class. \<open>py_value\<close> is what a caller may pass where
  an integer is expected: a true integer, a \<open>bool\<close> (an \<open>int\<close> subclass) or anything else.
\<close>

datatype unit_kind = PricePips_K | ContractCentis_K | MoneyMicros_K | ProbabilityPpm_K

datatype py_value = PyInt int | PyBool bool | PyOther

record any_unit =
  au_kind :: unit_kind
  au_value :: int

definition int_unit_new :: "unit_kind \<Rightarrow> py_value \<Rightarrow> num_error + any_unit" where
  "int_unit_new k v =
     (case v of PyInt i \<Rightarrow> Inr \<lparr>au_kind = k, au_value = i\<rparr> | PyBool _ \<Rightarrow> Inl TypeError
      | PyOther \<Rightarrow> Inl TypeError)"

definition require_same_unit :: "any_unit \<Rightarrow> any_unit \<Rightarrow> num_error + unit" where
  "require_same_unit a b = (if au_kind a \<noteq> au_kind b then Inl TypeError else Inr ())"

definition any_add :: "any_unit \<Rightarrow> any_unit \<Rightarrow> num_error + any_unit" where
  "any_add a b = res_bind (require_same_unit a b)
     (\<lambda>_. int_unit_new (au_kind a) (PyInt (au_value a + au_value b)))"

definition any_sub :: "any_unit \<Rightarrow> any_unit \<Rightarrow> num_error + any_unit" where
  "any_sub a b = res_bind (require_same_unit a b)
     (\<lambda>_. int_unit_new (au_kind a) (PyInt (au_value a - au_value b)))"

definition any_neg :: "any_unit \<Rightarrow> num_error + any_unit" where
  "any_neg a = int_unit_new (au_kind a) (PyInt (- au_value a))"

definition any_mul :: "any_unit \<Rightarrow> py_value \<Rightarrow> num_error + any_unit" where
  "any_mul a s =
     (case s of PyInt k \<Rightarrow> int_unit_new (au_kind a) (PyInt (au_value a * k))
      | PyBool _ \<Rightarrow> Inl TypeError | PyOther \<Rightarrow> Inl TypeError)"

definition any_lt :: "any_unit \<Rightarrow> any_unit \<Rightarrow> num_error + bool" where
  "any_lt a b = res_bind (require_same_unit a b) (\<lambda>_. Inr (au_value a < au_value b))"

definition any_le :: "any_unit \<Rightarrow> any_unit \<Rightarrow> num_error + bool" where
  "any_le a b = res_bind (require_same_unit a b) (\<lambda>_. Inr (au_value a \<le> au_value b))"

definition erase :: "unit_kind \<Rightarrow> 'u int_unit \<Rightarrow> any_unit" where
  "erase k a = \<lparr>au_kind = k, au_value = val a\<rparr>"

definition money_from_price_and_count ::
    "PricePips \<Rightarrow> ContractCentis \<Rightarrow> RoundingDirection \<Rightarrow> num_error + MoneyMicros" where
  "money_from_price_and_count price count rounding =
     res_bind (divide_int (val price * val count) 1 rounding) (\<lambda>m. Inr (IntUnit m))"

subsection \<open>Display text\<close>

definition zero_pad :: "nat \<Rightarrow> string \<Rightarrow> string" where
  "zero_pad w s = replicate (w - length s) (CHR ''0'') @ s"

definition format_fixed_point :: "int \<Rightarrow> nat \<Rightarrow> string \<Rightarrow> string \<Rightarrow> string" where
  "format_fixed_point v decimals pre suf =
     (let scale = 10 ^ decimals;
          whole = nat \<bar>v\<bar> div scale; fraction = nat \<bar>v\<bar> mod scale;
          sign = (if v < 0 then ''-'' else '''')
      in sign @ pre @ show_nat whole @ ''.'' @ zero_pad decimals (show_nat fraction) @ suf)"

definition price_str :: "PricePips \<Rightarrow> string" where
  "price_str p = format_fixed_point (val p) 4 ''$'' ''''"

definition count_str :: "ContractCentis \<Rightarrow> string" where
  "count_str c = format_fixed_point (val c) 2 '''' ''''"

definition money_str :: "MoneyMicros \<Rightarrow> string" where
  "money_str m = format_fixed_point (val m) 6 ''$'' ''''"

definition probability_str :: "ProbabilityPpm \<Rightarrow> string" where
  "probability_str p = format_fixed_point (val p) 4 '''' ''%''"

section \<open>Units reduce to integers\<close>

lemma val_simps [simp, unit_simps]:
  "val (0 :: 'u int_unit) = 0"
  "val (a + b) = val a + val b"
  "val (a - b) = val a - val b"
  "val (- a) = - val a"
  "val (scale_unit a k) = val a * k"
  by (simp_all add: zero_int_unit_def plus_int_unit_def minus_int_unit_def uminus_int_unit_def
      scale_unit_def)

lemma unit_le_iff [unit_simps]: "a \<le> b \<longleftrightarrow> val a \<le> val b"
  by (simp add: less_eq_int_unit_def)

lemma unit_less_iff [unit_simps]: "a < b \<longleftrightarrow> val a < val b"
  by (simp add: less_int_unit_def)

lemma unit_eq_iff [unit_simps]: "a = b \<longleftrightarrow> val a = val b"
  by (auto simp: int_unit.expand)

lemma val_sum_list: "val (sum_list (map f xs)) = sum_list (map (\<lambda>x. val (f x)) xs)"
  by (induction xs) simp_all

section \<open>The contract of conservative division\<close>

text \<open>
  What the money paths rely on: the upper quotient is the least integer whose product covers
  the numerator, the lower quotient the greatest one the numerator covers.
\<close>

locale conservative_division =
  fixes up :: "int \<Rightarrow> int \<Rightarrow> int" and down :: "int \<Rightarrow> int \<Rightarrow> int"
  assumes up_covers: "0 < d \<Longrightarrow> n \<le> d * up n d"
    and up_tight: "0 < d \<Longrightarrow> d * up n d < n + d"
    and down_covered: "0 < d \<Longrightarrow> d * down n d \<le> n"
    and down_tight: "0 < d \<Longrightarrow> n < d * down n d + d"
begin

lemma up_least: "0 < d \<Longrightarrow> n \<le> d * q \<Longrightarrow> up n d \<le> q"
proof (rule ccontr)
  assume d: "0 < d" and q: "n \<le> d * q" and "\<not> up n d \<le> q"
  then have "d * (q + 1) \<le> d * up n d" by (intro mult_left_mono) auto
  with up_tight [OF d, of n] q show False by (simp add: algebra_simps)
qed

lemma down_greatest: "0 < d \<Longrightarrow> d * q \<le> n \<Longrightarrow> q \<le> down n d"
proof (rule ccontr)
  assume d: "0 < d" and q: "d * q \<le> n" and "\<not> q \<le> down n d"
  then have "d * (down n d + 1) \<le> d * q" by (intro mult_left_mono) auto
  with down_tight [OF d, of n] q show False by (simp add: algebra_simps)
qed

lemma up_mono: "0 < d \<Longrightarrow> n \<le> m \<Longrightarrow> up n d \<le> up m d"
  using up_least [of d n "up m d"] up_covers [of d m] by linarith

lemma down_mono: "0 < d \<Longrightarrow> n \<le> m \<Longrightarrow> down n d \<le> down m d"
  using down_greatest [of d "down n d" m] down_covered [of d n] by linarith

lemma up_nonneg: "0 < d \<Longrightarrow> 0 \<le> n \<Longrightarrow> 0 \<le> up n d"
proof (rule ccontr)
  assume d: "0 < d" and n: "0 \<le> n" and "\<not> 0 \<le> up n d"
  then have "d * up n d < 0" by (simp add: mult_less_0_iff)
  with up_covers [OF d, of n] n show False by linarith
qed

lemma down_nonneg: "0 < d \<Longrightarrow> 0 \<le> n \<Longrightarrow> 0 \<le> down n d"
  using down_greatest [of d 0 n] by simp

lemma down_le_up: "0 < d \<Longrightarrow> down n d \<le> up n d"
proof -
  assume d: "0 < d"
  have "d * down n d \<le> d * up n d" using down_covered [OF d, of n] up_covers [OF d, of n] by linarith
  with d show ?thesis by simp
qed

lemma up_subadditive: "0 < d \<Longrightarrow> up (n + m) d \<le> up n d + up m d"
  using up_covers [of d n] up_covers [of d m] by (intro up_least) (auto simp: algebra_simps)

lemma up_superadditive: "0 < d \<Longrightarrow> up n d + up m d \<le> up (n + m) d + 1"
proof (rule ccontr)
  assume d: "0 < d" and "\<not> up n d + up m d \<le> up (n + m) d + 1"
  then have "d * (up (n + m) d + 2) \<le> d * (up n d + up m d)" by (intro mult_left_mono) auto
  with up_tight [OF d, of n] up_tight [OF d, of m] up_covers [OF d, of "n + m"]
  show False by (simp add: algebra_simps)
qed

lemma down_share_le: "0 < d \<Longrightarrow> 0 \<le> b \<Longrightarrow> p \<le> d \<Longrightarrow> down (b * p) d \<le> b"
proof -
  assume d: "0 < d" and b: "0 \<le> b" and p: "p \<le> d"
  have "d * down (b * p) d \<le> b * p" by (rule down_covered [OF d])
  also have "\<dots> \<le> d * b" using b p by (metis mult.commute mult_left_mono)
  finally show ?thesis using d by simp
qed

end

interpretation cdiv: conservative_division ceil_div floor_div
proof
  fix n d :: int assume d: "0 < d"
  show "n \<le> d * ceil_div n d"
    using pos_mod_bound [OF d, of "- n"] pos_mod_sign [OF d, of "- n"]
      minus_mod_eq_mult_div [of "- n" d] by (simp add: ceil_div_def)
  show "d * ceil_div n d < n + d"
    using pos_mod_bound [OF d, of "- n"] minus_mod_eq_mult_div [of "- n" d]
    by (simp add: ceil_div_def)
  show "d * floor_div n d \<le> n"
    using pos_mod_sign [OF d, of n] minus_mod_eq_mult_div [of n d] by (simp add: floor_div_def)
  show "n < d * floor_div n d + d"
    using pos_mod_bound [OF d, of n] minus_mod_eq_mult_div [of n d] by (simp add: floor_div_def)
qed

lemma ceil_div_dvd: "d \<noteq> 0 \<Longrightarrow> d dvd n \<Longrightarrow> ceil_div n d = n div d"
  by (auto simp: ceil_div_def elim!: dvdE) (metis minus_minus minus_mult_right nonzero_mult_div_cancel_left)

lemma divide_int_nonzero:
  "d \<noteq> 0 \<Longrightarrow> divide_int n d r = Inr (if r = OVERSTATE_COST then ceil_div n d else floor_div n d)"
  by (simp add: divide_int_def)

lemma ceil_div_minus: "ceil_div (- n) (- d) = ceil_div n d"
  by (simp add: ceil_div_def div_minus_right)

lemma money_from_price_and_count_eq:
  "money_from_price_and_count p c r = Inr (IntUnit (val p * val c))"
  by (cases r) (simp_all add: money_from_price_and_count_def divide_int_def ceil_div_def
      floor_div_def)

section \<open>Typed units implement the run-time checks\<close>

lemmas any_unit_defs = any_add_def any_sub_def any_neg_def any_mul_def any_lt_def any_le_def
  require_same_unit_def int_unit_new_def erase_def

lemma any_ops_erase:
  "any_add (erase k a) (erase k b) = Inr (erase k (a + b))"
  "any_sub (erase k a) (erase k b) = Inr (erase k (a - b))"
  "any_neg (erase k a) = Inr (erase k (- a))"
  "any_mul (erase k a) (PyInt n) = Inr (erase k (scale_unit a n))"
  "any_lt (erase k a) (erase k b) = Inr (a < b)"
  "any_le (erase k a) (erase k b) = Inr (a \<le> b)"
  by (simp_all add: any_unit_defs unit_simps)

lemma any_ops_mixed:
  assumes "k \<noteq> l"
  shows "any_add (erase k a) (erase l b) = Inl TypeError"
    and "any_sub (erase k a) (erase l b) = Inl TypeError"
    and "any_lt (erase k a) (erase l b) = Inl TypeError"
    and "any_le (erase k a) (erase l b) = Inl TypeError"
  using assms by (simp_all add: any_unit_defs)

section \<open>Display text determines the value\<close>

lemma zero_pad_length: "length s \<le> w \<Longrightarrow> length (zero_pad w s) = w"
  by (simp add: zero_pad_def)

lemma read_zeros: "read_nat (replicate n (CHR ''0'')) = 0"
  by (induction n) (simp_all add: read_nat_def char_digit_def)

lemma read_zero_pad: "read_nat (zero_pad w s) = read_nat s"
  by (simp add: zero_pad_def read_nat_append read_zeros)

lemma zero_pad_digits: "\<forall>c \<in> set s. is_digit c \<Longrightarrow> c \<in> set (zero_pad w s) \<Longrightarrow> is_digit c"
  by (auto simp: zero_pad_def is_digit_def)

lemma dot_not_digit [simp]: "\<not> is_digit (CHR ''.'')"
  by (simp add: is_digit_def)

lemma number_text_unique:
  assumes "show_nat w @ ''.'' @ zero_pad k (show_nat f) @ suf =
           show_nat w' @ ''.'' @ zero_pad k (show_nat f') @ suf"
  shows "w = w' \<and> f = f'"
proof -
  have "show_nat w = show_nat w' \<and>
        ''.'' @ zero_pad k (show_nat f) @ suf = ''.'' @ zero_pad k (show_nat f') @ suf"
    using digits_prefix_unique [OF assms, of is_digit] by (auto dest: show_nat_digits)
  then have "w = w'" and "zero_pad k (show_nat f) = zero_pad k (show_nat f')"
    by (simp_all add: show_nat_inj)
  then show ?thesis by (metis read_zero_pad read_show_nat)
qed

lemma hd_number_text: "hd (show_nat w @ r) \<noteq> CHR ''-''" "hd (show_nat w @ r) \<noteq> CHR ''$''"
  using show_nat_digits [of "hd (show_nat w)" w] by (auto simp: is_digit_def)

lemma format_fixed_point_inj:
  assumes "format_fixed_point v k pre suf = format_fixed_point v' k pre suf"
    and pre: "pre = '''' \<or> pre = ''$''"
  shows "v = v'"
proof -
  let ?t = "\<lambda>v. show_nat (nat \<bar>v\<bar> div 10 ^ k) @ ''.'' @ zero_pad k (show_nat (nat \<bar>v\<bar> mod 10 ^ k)) @ suf"
  have eq: "(if v < 0 then ''-'' else '''') @ pre @ ?t v = (if v' < 0 then ''-'' else '''') @ pre @ ?t v'"
    using assms(1) by (simp add: format_fixed_point_def Let_def)
  have sgn: "(v < 0) = (v' < 0)"
    using arg_cong [where f = hd, OF eq] pre hd_number_text
    by (auto split: if_splits) (metis hd_number_text)+
  with eq have "?t v = ?t v'" by (simp split: if_splits)
  then have "nat \<bar>v\<bar> div 10 ^ k = nat \<bar>v'\<bar> div 10 ^ k" "nat \<bar>v\<bar> mod 10 ^ k = nat \<bar>v'\<bar> mod 10 ^ k"
    using number_text_unique by blast+
  then have "nat \<bar>v\<bar> = nat \<bar>v'\<bar>" by (metis div_mult_mod_eq)
  with sgn show ?thesis by linarith
qed

section \<open>Properties\<close>

text \<open>The sanctioned division is the exact rational quotient rounded to the ceiling for
  \<open>OVERSTATE_COST\<close> and to the floor for \<open>UNDERSTATE_EQUITY\<close>, for every combination of operand
  signs, and raises \<open>ZeroDivisionError\<close> exactly on a zero denominator.\<close>

theorem divide_exact_rounding:
  "divide_int n d r =
     (if d = 0 then Inl ZeroDivisionError
      else Inr (case r of OVERSTATE_COST \<Rightarrow> \<lceil>real_of_int n / real_of_int d\<rceil>
                | UNDERSTATE_EQUITY \<Rightarrow> \<lfloor>real_of_int n / real_of_int d\<rfloor>))"
  by (cases r) (simp_all add: divide_int_def ceil_div_def floor_div_def ceiling_divide_eq_div
      floor_divide_of_int_eq)


text \<open>The display text of an amount determines the amount: two money amounts (or prices, or
  counts, or probabilities) that print alike are equal, negative values included.\<close>

theorem display_text_injective:
  "(money_str m = money_str m' \<longleftrightarrow> m = m') \<and> (price_str p = price_str p' \<longleftrightarrow> p = p')
    \<and> (count_str c = count_str c' \<longleftrightarrow> c = c') \<and> (probability_str q = probability_str q' \<longleftrightarrow> q = q')"
  unfolding money_str_def price_str_def count_str_def probability_str_def unit_eq_iff
  by (metis format_fixed_point_inj)

end
