(* ===== verification/Fees.thy ===== *)
theory Fees
  imports Numeric
begin

text \<open>
  Fee schedules and their worst-case bounds (\<open>windbreak/connector/fees.py\<close>) and the worst-case
  equity and cost arithmetic of the floor invariant (\<open>windbreak/riskkernel/floor.py\<close>).
  Arguments a caller may get wrong at run time (a \<open>bool\<close> or a non-integer where an integer is
  expected) are \<open>py_value\<close>s, so that every validation branch of the code is a branch here.
\<close>

section \<open>Definitions\<close>

definition PIPS_PER_DOLLAR :: int where "PIPS_PER_DOLLAR = 10000"
definition MIN_PRICE_PIPS :: int where "MIN_PRICE_PIPS = 0"
definition MAX_PRICE_PIPS :: int where "MAX_PRICE_PIPS = PIPS_PER_DOLLAR"
definition MICROS_PER_CENT :: int where "MICROS_PER_CENT = 10000"
definition TRADING_CENT_DENOMINATOR :: int where "TRADING_CENT_DENOMINATOR = 10 ^ 14"
definition SETTLEMENT_CENT_DENOMINATOR :: int where "SETTLEMENT_CENT_DENOMINATOR = 10 ^ 6"
definition FEE_ROUNDING :: RoundingDirection where "FEE_ROUNDING = OVERSTATE_COST"

definition require_non_bool_int :: "py_value \<Rightarrow> num_error + int" where
  "require_non_bool_int v =
     (case v of PyInt i \<Rightarrow> Inr i | PyBool _ \<Rightarrow> Inl TypeError | PyOther \<Rightarrow> Inl TypeError)"

definition require_non_negative_ppm :: "py_value \<Rightarrow> num_error + int" where
  "require_non_negative_ppm v =
     res_bind (require_non_bool_int v) (\<lambda>i. if i < 0 then Inl ValueError else Inr i)"

definition require_positive_count :: "py_value \<Rightarrow> num_error + int" where
  "require_positive_count v =
     res_bind (require_non_bool_int v) (\<lambda>i. if i \<le> 0 then Inl ValueError else Inr i)"

definition require_price_pips :: "py_value \<Rightarrow> num_error + int" where
  "require_price_pips v =
     res_bind (require_non_bool_int v)
       (\<lambda>i. if \<not> (MIN_PRICE_PIPS \<le> i \<and> i \<le> MAX_PRICE_PIPS) then Inl ValueError else Inr i)"

record FeeModel =
  schedule_id :: string
  maker_fee_ppm :: int
  taker_fee_ppm :: int
  settlement_fee_ppm :: int

definition FeeModel_new :: "string \<Rightarrow> py_value \<Rightarrow> py_value \<Rightarrow> py_value \<Rightarrow> num_error + FeeModel" where
  "FeeModel_new sid maker taker settle =
     (if sid = '''' then Inl ValueError
      else res_bind (require_non_negative_ppm maker) (\<lambda>m.
           res_bind (require_non_negative_ppm taker) (\<lambda>t.
           res_bind (require_non_negative_ppm settle) (\<lambda>s.
             Inr \<lparr>schedule_id = sid, maker_fee_ppm = m, taker_fee_ppm = t, settlement_fee_ppm = s\<rparr>))))"

definition max_trading_fee_micros :: "FeeModel \<Rightarrow> py_value \<Rightarrow> py_value \<Rightarrow> num_error + int" where
  "max_trading_fee_micros fm price_pips count_centis =
     res_bind (require_price_pips price_pips) (\<lambda>price.
     res_bind (require_positive_count count_centis) (\<lambda>count.
       let rate_ppm = max (maker_fee_ppm fm) (taker_fee_ppm fm);
           numerator = rate_ppm * count * price * (PIPS_PER_DOLLAR - price)
       in res_bind (divide_int numerator TRADING_CENT_DENOMINATOR FEE_ROUNDING)
            (\<lambda>cents. Inr (cents * MICROS_PER_CENT))))"

definition max_settlement_fee_micros :: "FeeModel \<Rightarrow> py_value \<Rightarrow> num_error + int" where
  "max_settlement_fee_micros fm count_centis =
     res_bind (require_positive_count count_centis) (\<lambda>count.
       let numerator = settlement_fee_ppm fm * count
       in res_bind (divide_int numerator SETTLEMENT_CENT_DENOMINATOR FEE_ROUNDING)
            (\<lambda>cents. Inr (cents * MICROS_PER_CENT)))"

definition fee_model_ok :: "FeeModel \<Rightarrow> bool" where
  "fee_model_ok fm =
     (schedule_id fm \<noteq> '''' \<and> 0 \<le> maker_fee_ppm fm \<and> 0 \<le> taker_fee_ppm fm \<and>
      0 \<le> settlement_fee_ppm fm)"

subsection \<open>Worst-case equity and cost\<close>

definition worst_case_equity ::
    "MoneyMicros \<Rightarrow> MoneyMicros \<Rightarrow> MoneyMicros \<Rightarrow> MoneyMicros \<Rightarrow> MoneyMicros \<Rightarrow> MoneyMicros" where
  "worst_case_equity cash terminal pending fees buffer = cash + terminal - pending - fees - buffer"

definition worst_case_cost ::
    "PricePips \<Rightarrow> ContractCentis \<Rightarrow> MoneyMicros \<Rightarrow> MoneyMicros \<Rightarrow> MoneyMicros \<Rightarrow> MoneyMicros" where
  "worst_case_cost price sz trading settlement buffer =
     projr (money_from_price_and_count price sz OVERSTATE_COST) + trading + settlement + buffer"

section \<open>Lemmas\<close>

lemmas fee_constants = PIPS_PER_DOLLAR_def MIN_PRICE_PIPS_def MAX_PRICE_PIPS_def
  MICROS_PER_CENT_def TRADING_CENT_DENOMINATOR_def SETTLEMENT_CENT_DENOMINATOR_def
  FEE_ROUNDING_def

lemmas require_defs = require_non_bool_int_def require_non_negative_ppm_def
  require_positive_count_def require_price_pips_def

lemma FeeModel_new_ok: "FeeModel_new sid a b c = Inr fm \<Longrightarrow> fee_model_ok fm"
  by (auto simp: FeeModel_new_def require_defs fee_model_ok_def res_bind_Inr_iff
      split: if_splits py_value.splits)

lemma max_trading_fee_eq:
  "max_trading_fee_micros fm (PyInt p) (PyInt c) =
     (if p < 0 \<or> 10000 < p \<or> c \<le> 0 then Inl ValueError
      else Inr (ceil_div (max (maker_fee_ppm fm) (taker_fee_ppm fm) * c * p * (10000 - p)) (10 ^ 14) * 10000))"
  by (simp add: max_trading_fee_micros_def require_defs fee_constants divide_int_def Let_def)

lemma max_settlement_fee_eq:
  "max_settlement_fee_micros fm (PyInt c) =
     (if c \<le> 0 then Inl ValueError
      else Inr (ceil_div (settlement_fee_ppm fm * c) (10 ^ 6) * 10000))"
  by (simp add: max_settlement_fee_micros_def require_defs fee_constants divide_int_def Let_def)

lemma worst_case_cost_val [simp, unit_simps]:
  "val (worst_case_cost p s t f b) = val p * val s + val t + val f + val b"
  by (simp add: worst_case_cost_def money_from_price_and_count_eq)

lemma worst_case_equity_val [simp, unit_simps]:
  "val (worst_case_equity c t p f b) = val c + val t - val p - val f - val b"
  by (simp add: worst_case_equity_def)

lemma trading_numerator_mono:
  assumes "0 \<le> r" "r \<le> r'" "0 \<le> (c::int)" "0 \<le> p" "p \<le> 10000"
  shows "r * c * p * (10000 - p) \<le> r' * c * p * (10000 - p)"
  using assms by (intro mult_right_mono) auto

section \<open>Properties\<close>

text \<open>The trading-fee bound really is an upper bound, and a tight one: for a validated fee
  schedule and any admissible price and size it is a whole, non-negative number of cents that
  covers the exact quadratic fee at the maker rate and at the taker rate (scaled here by
  \<open>10^10\<close> per micro), and it exceeds the exact worst rate by less than one cent.\<close>

theorem trading_fee_bound_covers:
  assumes "fee_model_ok fm" and "max_trading_fee_micros fm (PyInt p) (PyInt c) = Inr fee"
  shows "0 \<le> fee \<and> 10000 dvd fee
    \<and> maker_fee_ppm fm * c * p * (10000 - p) \<le> fee * 10 ^ 10
    \<and> taker_fee_ppm fm * c * p * (10000 - p) \<le> fee * 10 ^ 10
    \<and> fee * 10 ^ 10 < max (maker_fee_ppm fm) (taker_fee_ppm fm) * c * p * (10000 - p) + 10 ^ 14"
proof -
  define rate where "rate = max (maker_fee_ppm fm) (taker_fee_ppm fm)"
  define n where "n = rate * c * p * (10000 - p)"
  from assms(2) have p: "0 \<le> p" "p \<le> 10000" and c: "0 \<le> c"
    and fee: "fee = ceil_div n (10 ^ 14) * 10000"
    by (auto simp: max_trading_fee_eq rate_def n_def split: if_splits)
  from assms(1) have m: "0 \<le> maker_fee_ppm fm" and t: "0 \<le> taker_fee_ppm fm"
    by (simp_all add: fee_model_ok_def)
  have n0: "0 \<le> n" using m c p by (auto simp: n_def rate_def intro!: mult_nonneg_nonneg)
  have up: "n \<le> 10 ^ 14 * ceil_div n (10 ^ 14)" and low: "10 ^ 14 * ceil_div n (10 ^ 14) < n + 10 ^ 14"
    by (rule cdiv.up_covers, simp, rule cdiv.up_tight, simp)
  have "0 \<le> fee" using n0 cdiv.up_nonneg [of "10 ^ 14" n] fee by simp
  moreover have "maker_fee_ppm fm * c * p * (10000 - p) \<le> n"
    unfolding n_def rate_def using m c p by (intro trading_numerator_mono) auto
  moreover have "taker_fee_ppm fm * c * p * (10000 - p) \<le> n"
    unfolding n_def rate_def using t c p by (intro trading_numerator_mono) auto
  ultimately show ?thesis using up low fee unfolding n_def [symmetric] rate_def [symmetric]
    by auto
qed

theorem trading_fee_bound_covers_witness:
  "fee_model_ok \<lparr>schedule_id = ''std'', maker_fee_ppm = 17500, taker_fee_ppm = 70000, settlement_fee_ppm = 0\<rparr>
   \<and> max_trading_fee_micros \<lparr>schedule_id = ''std'', maker_fee_ppm = 17500, taker_fee_ppm = 70000, settlement_fee_ppm = 0\<rparr>
       (PyInt 4500) (PyInt 300) = Inr 60000
   \<and> (70000 :: int) * 300 * 4500 * (10000 - 4500) \<le> 60000 * 10 ^ 10"
proof -
  let ?fm = "\<lparr>schedule_id = ''std'', maker_fee_ppm = 17500, taker_fee_ppm = 70000, settlement_fee_ppm = 0\<rparr> :: FeeModel"
  have a: "fee_model_ok ?fm" by (simp add: fee_model_ok_def)
  have b: "max_trading_fee_micros ?fm (PyInt 4500) (PyInt 300) = Inr 60000"
    by (simp add: max_trading_fee_eq ceil_div_def)
  from trading_fee_bound_covers [OF a b] a b show ?thesis by simp
qed

text \<open>Splitting an order never lowers its fee bound, and each extra part raises the total by
  at most one cent: the bound on \<open>c1 + c2\<close> contracts is at most the sum of the two parts' bounds,
  which exceeds it by at most 10000 micros.\<close>

theorem trading_fee_bound_split:
  assumes "max_trading_fee_micros fm (PyInt p) (PyInt c1) = Inr f1"
    and "max_trading_fee_micros fm (PyInt p) (PyInt c2) = Inr f2"
  shows "\<exists>f. max_trading_fee_micros fm (PyInt p) (PyInt (c1 + c2)) = Inr f
    \<and> f \<le> f1 + f2 \<and> f1 + f2 \<le> f + 10000"
proof -
  let ?n = "\<lambda>c. max (maker_fee_ppm fm) (taker_fee_ppm fm) * c * p * (10000 - p)"
  have n: "?n (c1 + c2) = ?n c1 + ?n c2" by (simp add: algebra_simps)
  show ?thesis
    using assms cdiv.up_subadditive [of "10 ^ 14" "?n c1" "?n c2"]
      cdiv.up_superadditive [of "10 ^ 14" "?n c1" "?n c2"]
    by (auto simp: max_trading_fee_eq n split: if_splits)
qed

theorem trading_fee_bound_split_witness:
  "max_trading_fee_micros \<lparr>schedule_id = ''s'', maker_fee_ppm = 0, taker_fee_ppm = 70000, settlement_fee_ppm = 0\<rparr>
     (PyInt 5000) (PyInt 100) = Inr 20000
   \<and> max_trading_fee_micros \<lparr>schedule_id = ''s'', maker_fee_ppm = 0, taker_fee_ppm = 70000, settlement_fee_ppm = 0\<rparr>
     (PyInt 5000) (PyInt 200) = Inr 40000"
proof -
  let ?fm = "\<lparr>schedule_id = ''s'', maker_fee_ppm = 0, taker_fee_ppm = 70000, settlement_fee_ppm = 0\<rparr> :: FeeModel"
  have a: "max_trading_fee_micros ?fm (PyInt 5000) (PyInt 100) = Inr 20000"
    by (simp add: max_trading_fee_eq ceil_div_def)
  from trading_fee_bound_split [OF a a] a show ?thesis
    by (auto simp: max_trading_fee_eq ceil_div_def)
qed

end
