(* ===== verification/Modes.thy ===== *)
theory Modes
  imports Prelude
begin

text \<open>
  The operating-mode state machine (\<open>windbreak/riskkernel/modes.py\<close>) and the demotion triggers
  resolved on it (\<open>windbreak/riskkernel/demotion.py\<close>). The machine object is the record
  \<open>ModeStateMachine\<close>; each method takes the machine and returns the exception or the new machine,
  so a raising call leaves the caller with the machine it had.
\<close>

section \<open>Definitions\<close>

subsection \<open>Modes and the promotion ladder\<close>

datatype mode_error =
    IllegalModeTransitionError | ModeCeilingExceededError | KillReArmError
  | ModeValueError | ModeKeyError

datatype Mode = RESEARCH | PAPER | LIVE_MICRO | LIVE | PAUSED | HALT | KILLED

fun mode_name :: "Mode \<Rightarrow> string" where
  "mode_name RESEARCH = ''RESEARCH''"
| "mode_name PAPER = ''PAPER''"
| "mode_name LIVE_MICRO = ''LIVE_MICRO''"
| "mode_name LIVE = ''LIVE''"
| "mode_name PAUSED = ''PAUSED''"
| "mode_name HALT = ''HALT''"
| "mode_name KILLED = ''KILLED''"

definition REARM_CONFIRMATION_PHRASE :: string where
  "REARM_CONFIRMATION_PHRASE = ''RE-ARM AFTER KILL: I ACCEPT FULL RESPONSIBILITY''"

definition TRADING_MODES :: "Mode set" where
  "TRADING_MODES = {PAPER, LIVE_MICRO, LIVE}"

definition PROMOTION_LADDER :: "Mode list" where
  "PROMOTION_LADDER = [RESEARCH, PAPER, LIVE_MICRO, LIVE]"

definition LADDER_RANK :: "(Mode, nat) pydict" where
  "LADDER_RANK = zip PROMOTION_LADDER [0..<length PROMOTION_LADDER]"

definition SAFETY_MODES :: "Mode set" where
  "SAFETY_MODES = {PAUSED, HALT, KILLED}"

definition CONFIG_TOKENS :: "(string, Mode) pydict" where
  "CONFIG_TOKENS = [(''research'', RESEARCH), (''paper'', PAPER), (''live_micro'', LIVE_MICRO), (''live'', LIVE)]"

definition ladder_rank :: "Mode \<Rightarrow> nat option" where
  "ladder_rank m = dict_get LADDER_RANK m"

definition mode_from_config :: "string \<Rightarrow> mode_error + Mode" where
  "mode_from_config token =
     (case dict_get CONFIG_TOKENS token of None \<Rightarrow> Inl ModeValueError | Some m \<Rightarrow> Inr m)"

definition may_trade :: "Mode \<Rightarrow> bool" where
  "may_trade m = (m \<in> TRADING_MODES)"

definition may_research :: "Mode \<Rightarrow> bool" where
  "may_research m = (m \<notin> SAFETY_MODES)"

definition next_rung :: "Mode \<Rightarrow> Mode option" where
  "next_rung m =
     (case ladder_rank m of None \<Rightarrow> None
      | Some r \<Rightarrow> if length PROMOTION_LADDER \<le> r + 1 then None else Some (PROMOTION_LADDER ! (r + 1)))"

definition prev_rung :: "Mode \<Rightarrow> Mode option" where
  "prev_rung m =
     (case ladder_rank m of None \<Rightarrow> None
      | Some r \<Rightarrow> if r = 0 then None else Some (PROMOTION_LADDER ! (r - 1)))"

definition allowed_transitions :: "Mode \<Rightarrow> Mode set" where
  "allowed_transitions m =
     (if m = KILLED then {}
      else (SAFETY_MODES - {m}) \<union> (case next_rung m of None \<Rightarrow> {} | Some n \<Rightarrow> {n}))"

subsection \<open>The machine\<close>

record ModeStateMachine =
  msm_ceiling :: Mode
  msm_mode :: Mode

definition ModeStateMachine_new :: "Mode \<Rightarrow> Mode \<Rightarrow> mode_error + ModeStateMachine" where
  "ModeStateMachine_new ceiling m =
     (if ladder_rank ceiling = None then Inl ModeValueError
      else Inr \<lparr>msm_ceiling = ceiling, msm_mode = m\<rparr>)"

definition rank_index :: "Mode \<Rightarrow> mode_error + nat" where
  "rank_index m = (case ladder_rank m of None \<Rightarrow> Inl ModeKeyError | Some r \<Rightarrow> Inr r)"

definition exceeds_ceiling :: "ModeStateMachine \<Rightarrow> Mode \<Rightarrow> mode_error + bool" where
  "exceeds_ceiling sm target =
     (case ladder_rank target of None \<Rightarrow> Inr False
      | Some r \<Rightarrow> res_bind (rank_index (msm_ceiling sm)) (\<lambda>c. Inr (c < r)))"

definition mode_transition :: "ModeStateMachine \<Rightarrow> Mode \<Rightarrow> mode_error + ModeStateMachine" where
  "mode_transition sm target =
     (if target \<notin> allowed_transitions (msm_mode sm) then Inl IllegalModeTransitionError
      else res_bind (exceeds_ceiling sm target) (\<lambda>over.
        if over then Inl ModeCeilingExceededError else Inr (sm\<lparr>msm_mode := target\<rparr>)))"

definition promote_one_rung :: "ModeStateMachine \<Rightarrow> Mode \<Rightarrow> mode_error + ModeStateMachine" where
  "promote_one_rung sm effective_ceiling =
     (case next_rung (msm_mode sm) of None \<Rightarrow> Inl IllegalModeTransitionError
      | Some target \<Rightarrow>
          res_bind (rank_index target) (\<lambda>tr.
          res_bind (rank_index (msm_ceiling sm)) (\<lambda>cr.
            if cr < tr then Inl ModeCeilingExceededError
            else res_bind (rank_index effective_ceiling) (\<lambda>er.
              if er < tr then Inl ModeCeilingExceededError
              else Inr (sm\<lparr>msm_mode := target\<rparr>)))))"

definition demote_one_rung :: "ModeStateMachine \<Rightarrow> mode_error + ModeStateMachine" where
  "demote_one_rung sm =
     (case prev_rung (msm_mode sm) of None \<Rightarrow> Inl IllegalModeTransitionError
      | Some target \<Rightarrow> Inr (sm\<lparr>msm_mode := target\<rparr>))"

definition mode_rearm :: "ModeStateMachine \<Rightarrow> string \<Rightarrow> mode_error + ModeStateMachine" where
  "mode_rearm sm confirmation =
     (if msm_mode sm \<noteq> KILLED then Inl KillReArmError
      else if confirmation \<noteq> REARM_CONFIRMATION_PHRASE then Inl KillReArmError
      else Inr (sm\<lparr>msm_mode := RESEARCH\<rparr>))"

text \<open>One step of a machine: a successful call of one of its four mutating methods.\<close>

inductive mode_step :: "ModeStateMachine \<Rightarrow> ModeStateMachine \<Rightarrow> bool" where
  transition: "mode_transition sm target = Inr sm' \<Longrightarrow> mode_step sm sm'"
| promote: "promote_one_rung sm eff = Inr sm' \<Longrightarrow> mode_step sm sm'"
| demote: "demote_one_rung sm = Inr sm' \<Longrightarrow> mode_step sm sm'"
| rearm: "mode_rearm sm phrase = Inr sm' \<Longrightarrow> mode_step sm sm'"

inductive mode_reachable :: "ModeStateMachine \<Rightarrow> ModeStateMachine \<Rightarrow> bool" for start where
  here: "mode_reachable start start"
| step: "mode_reachable start sm \<Longrightarrow> mode_step sm sm' \<Longrightarrow> mode_reachable start sm'"

text \<open>The same without the re-arm: what a machine can do while nobody re-arms it.\<close>

inductive mode_step_armed :: "ModeStateMachine \<Rightarrow> ModeStateMachine \<Rightarrow> bool" where
  transition: "mode_transition sm target = Inr sm' \<Longrightarrow> mode_step_armed sm sm'"
| promote: "promote_one_rung sm eff = Inr sm' \<Longrightarrow> mode_step_armed sm sm'"
| demote: "demote_one_rung sm = Inr sm' \<Longrightarrow> mode_step_armed sm sm'"

definition mode_inv :: "ModeStateMachine \<Rightarrow> bool" where
  "mode_inv sm =
     (case ladder_rank (msm_ceiling sm) of None \<Rightarrow> False
      | Some c \<Rightarrow> (case ladder_rank (msm_mode sm) of None \<Rightarrow> True | Some r \<Rightarrow> r \<le> c))"

subsection \<open>Demotion triggers\<close>

datatype DemotionAction = PAUSE_ACTION | DEMOTE_ONE_MODE | HALT_ACTION | KILL_ACTION

datatype DemotionTrigger =
    DAILY_LOSS_BREACH | DRAWDOWN_BREACH | BALANCE_POSITION_MISMATCH | FLOOR_CHECK_FAILURE
  | SCHEMA_ANOMALY | JURISDICTION_UNKNOWN | ROLLING_BRIER_DEGRADATION
  | LIVE_PAPER_SLIPPAGE_DIVERGENCE | CLOCK_SKEW | STALE_HEARTBEAT | FEE_MODEL_UNAVAILABLE
  | CANARY_DRIFT_UNACKNOWLEDGED | TOKEN_REPLAY_ATTEMPT | BACKUP_FAILURES_BEYOND_LIMIT
  | DISK_BELOW_THRESHOLD | MANUAL_KILL

fun TRIGGER_ACTIONS :: "DemotionTrigger \<Rightarrow> DemotionAction" where
  "TRIGGER_ACTIONS DAILY_LOSS_BREACH = PAUSE_ACTION"
| "TRIGGER_ACTIONS DRAWDOWN_BREACH = DEMOTE_ONE_MODE"
| "TRIGGER_ACTIONS ROLLING_BRIER_DEGRADATION = DEMOTE_ONE_MODE"
| "TRIGGER_ACTIONS LIVE_PAPER_SLIPPAGE_DIVERGENCE = DEMOTE_ONE_MODE"
| "TRIGGER_ACTIONS CANARY_DRIFT_UNACKNOWLEDGED = DEMOTE_ONE_MODE"
| "TRIGGER_ACTIONS BALANCE_POSITION_MISMATCH = HALT_ACTION"
| "TRIGGER_ACTIONS FLOOR_CHECK_FAILURE = HALT_ACTION"
| "TRIGGER_ACTIONS SCHEMA_ANOMALY = HALT_ACTION"
| "TRIGGER_ACTIONS JURISDICTION_UNKNOWN = HALT_ACTION"
| "TRIGGER_ACTIONS CLOCK_SKEW = HALT_ACTION"
| "TRIGGER_ACTIONS STALE_HEARTBEAT = HALT_ACTION"
| "TRIGGER_ACTIONS FEE_MODEL_UNAVAILABLE = HALT_ACTION"
| "TRIGGER_ACTIONS TOKEN_REPLAY_ATTEMPT = HALT_ACTION"
| "TRIGGER_ACTIONS BACKUP_FAILURES_BEYOND_LIMIT = HALT_ACTION"
| "TRIGGER_ACTIONS DISK_BELOW_THRESHOLD = HALT_ACTION"
| "TRIGGER_ACTIONS MANUAL_KILL = KILL_ACTION"

definition SAFETY_ACTION_TARGET :: "(DemotionAction, Mode) pydict" where
  "SAFETY_ACTION_TARGET = [(PAUSE_ACTION, PAUSED), (HALT_ACTION, HALT), (KILL_ACTION, KILLED)]"

definition resolve_safety_action :: "DemotionAction \<Rightarrow> Mode \<Rightarrow> mode_error + Mode option" where
  "resolve_safety_action action current =
     (if current = KILLED then Inr None
      else case dict_get SAFETY_ACTION_TARGET action of None \<Rightarrow> Inl ModeKeyError
           | Some target \<Rightarrow> if current = target then Inr None else Inr (Some target))"

definition resolve_demote_one_mode :: "Mode \<Rightarrow> Mode option" where
  "resolve_demote_one_mode current = (if current = RESEARCH then Some PAUSED else prev_rung current)"

definition resolve_demotion :: "Mode \<Rightarrow> DemotionTrigger \<Rightarrow> mode_error + Mode option" where
  "resolve_demotion current trigger =
     (let action = TRIGGER_ACTIONS trigger
      in if action = DEMOTE_ONE_MODE then Inr (resolve_demote_one_mode current)
         else resolve_safety_action action current)"

text \<open>\<open>RiskKernel._apply_demotion\<close>: a safety destination is an ordinary transition, a ladder
  destination a one-rung demotion.\<close>

definition apply_demotion :: "ModeStateMachine \<Rightarrow> Mode \<Rightarrow> mode_error + ModeStateMachine" where
  "apply_demotion sm destination =
     (if destination \<in> SAFETY_MODES then mode_transition sm destination else demote_one_rung sm)"

section \<open>Lemmas\<close>

lemma ladder_rank_simps [simp]:
  "ladder_rank RESEARCH = Some 0" "ladder_rank PAPER = Some 1" "ladder_rank LIVE_MICRO = Some 2"
  "ladder_rank LIVE = Some 3" "ladder_rank PAUSED = None" "ladder_rank HALT = None"
  "ladder_rank KILLED = None"
  by (simp_all add: ladder_rank_def LADDER_RANK_def PROMOTION_LADDER_def dict_get_def upt_rec)

lemma next_rung_simps [simp]:
  "next_rung RESEARCH = Some PAPER" "next_rung PAPER = Some LIVE_MICRO"
  "next_rung LIVE_MICRO = Some LIVE" "next_rung LIVE = None" "next_rung PAUSED = None"
  "next_rung HALT = None" "next_rung KILLED = None"
  by (simp_all add: next_rung_def PROMOTION_LADDER_def)

lemma prev_rung_simps [simp]:
  "prev_rung RESEARCH = None" "prev_rung PAPER = Some RESEARCH" "prev_rung LIVE_MICRO = Some PAPER"
  "prev_rung LIVE = Some LIVE_MICRO" "prev_rung PAUSED = None" "prev_rung HALT = None"
  "prev_rung KILLED = None"
  by (simp_all add: prev_rung_def PROMOTION_LADDER_def)

lemma rank_index_simps [simp]:
  "rank_index RESEARCH = Inr 0" "rank_index PAPER = Inr 1" "rank_index LIVE_MICRO = Inr 2"
  "rank_index LIVE = Inr 3" "rank_index PAUSED = Inl ModeKeyError" "rank_index HALT = Inl ModeKeyError"
  "rank_index KILLED = Inl ModeKeyError"
  by (simp_all add: rank_index_def)

lemma allowed_transitions_simps [simp]:
  "allowed_transitions RESEARCH = {PAPER, PAUSED, HALT, KILLED}"
  "allowed_transitions PAPER = {LIVE_MICRO, PAUSED, HALT, KILLED}"
  "allowed_transitions LIVE_MICRO = {LIVE, PAUSED, HALT, KILLED}"
  "allowed_transitions LIVE = {PAUSED, HALT, KILLED}"
  "allowed_transitions PAUSED = {HALT, KILLED}"
  "allowed_transitions HALT = {PAUSED, KILLED}"
  "allowed_transitions KILLED = {}"
  by (auto simp: allowed_transitions_def SAFETY_MODES_def)

lemma mode_sets [simp]:
  "RESEARCH \<notin> SAFETY_MODES" "PAPER \<notin> SAFETY_MODES" "LIVE_MICRO \<notin> SAFETY_MODES" "LIVE \<notin> SAFETY_MODES"
  "PAUSED \<in> SAFETY_MODES" "HALT \<in> SAFETY_MODES" "KILLED \<in> SAFETY_MODES"
  by (simp_all add: SAFETY_MODES_def)

lemma may_trade_simps [simp]:
  "\<not> may_trade RESEARCH" "may_trade PAPER" "may_trade LIVE_MICRO" "may_trade LIVE"
  "\<not> may_trade PAUSED" "\<not> may_trade HALT" "\<not> may_trade KILLED"
  by (simp_all add: may_trade_def TRADING_MODES_def)

lemmas mode_op_defs = mode_transition_def exceeds_ceiling_def promote_one_rung_def
  demote_one_rung_def mode_rearm_def

text \<open>Every successful call changes the mode only.\<close>

lemma mode_transition_Inr:
  assumes "mode_transition sm t = Inr sm'"
  shows "sm' = sm\<lparr>msm_mode := t\<rparr> \<and> t \<in> allowed_transitions (msm_mode sm)"
  using assms by (auto simp: mode_transition_def res_bind_Inr_iff split: if_splits)

lemma promote_one_rung_Inr:
  assumes "promote_one_rung sm e = Inr sm'"
  shows "\<exists>t. next_rung (msm_mode sm) = Some t \<and> sm' = sm\<lparr>msm_mode := t\<rparr>"
  using assms by (auto simp: promote_one_rung_def res_bind_Inr_iff split: option.splits if_splits)

lemma demote_one_rung_Inr:
  assumes "demote_one_rung sm = Inr sm'"
  shows "\<exists>t. prev_rung (msm_mode sm) = Some t \<and> sm' = sm\<lparr>msm_mode := t\<rparr>"
  using assms by (auto simp: demote_one_rung_def split: option.splits)

lemma mode_rearm_Inr:
  "mode_rearm sm ph = Inr sm' \<longleftrightarrow>
     msm_mode sm = KILLED \<and> ph = REARM_CONFIRMATION_PHRASE \<and> sm' = sm\<lparr>msm_mode := RESEARCH\<rparr>"
  by (auto simp: mode_rearm_def)

lemma mode_transition_safety:
  "t \<in> SAFETY_MODES \<Longrightarrow> mode_transition sm t =
     (if t \<in> allowed_transitions (msm_mode sm) then Inr (sm\<lparr>msm_mode := t\<rparr>)
      else Inl IllegalModeTransitionError)"
  by (auto simp: mode_transition_def exceeds_ceiling_def SAFETY_MODES_def)

inductive_simps mode_step_iff: "mode_step sm sm'"
inductive_cases mode_stepE: "mode_step sm sm'"
inductive_cases mode_step_armedE: "mode_step_armed sm sm'"

lemma mode_step_ceiling: "mode_step sm sm' \<Longrightarrow> msm_ceiling sm' = msm_ceiling sm"
  by (auto elim!: mode_stepE dest: mode_transition_Inr promote_one_rung_Inr demote_one_rung_Inr
      simp: mode_rearm_Inr)

lemma mode_inv_rank:
  "mode_inv sm \<longleftrightarrow> (\<exists>c. ladder_rank (msm_ceiling sm) = Some c \<and>
     (\<forall>r. ladder_rank (msm_mode sm) = Some r \<longrightarrow> r \<le> c))"
  by (auto simp: mode_inv_def split: option.splits)

lemma transition_inv: "mode_transition sm t = Inr sm' \<Longrightarrow> mode_inv sm \<Longrightarrow> mode_inv sm'"
  by (auto simp: mode_transition_def exceeds_ceiling_def rank_index_def mode_inv_rank
      res_bind_Inr_iff split: option.splits if_splits)

lemma promote_inv: "promote_one_rung sm e = Inr sm' \<Longrightarrow> mode_inv sm \<Longrightarrow> mode_inv sm'"
  by (auto simp: promote_one_rung_def rank_index_def mode_inv_rank res_bind_Inr_iff
      split: option.splits if_splits)

lemma demote_inv: "demote_one_rung sm = Inr sm' \<Longrightarrow> mode_inv sm \<Longrightarrow> mode_inv sm'"
  by (cases "msm_mode sm") (auto simp: demote_one_rung_def mode_inv_rank)

lemma rearm_inv: "mode_rearm sm ph = Inr sm' \<Longrightarrow> mode_inv sm \<Longrightarrow> mode_inv sm'"
  by (auto simp: mode_rearm_Inr mode_inv_rank)

lemma mode_step_inv: "mode_step sm sm' \<Longrightarrow> mode_inv sm \<Longrightarrow> mode_inv sm'"
  by (auto elim!: mode_stepE intro: transition_inv promote_inv demote_inv rearm_inv)

lemma mode_reachable_inv: "mode_reachable s sm \<Longrightarrow> mode_inv s \<Longrightarrow> mode_inv sm"
  by (induction rule: mode_reachable.induct) (auto intro: mode_step_inv)

lemma mode_reachable_ceiling: "mode_reachable s sm \<Longrightarrow> msm_ceiling sm = msm_ceiling s"
  by (induction rule: mode_reachable.induct) (auto dest: mode_step_ceiling)

lemma armed_step_safety:
  assumes "mode_step_armed sm sm'" and "msm_mode sm \<in> SAFETY_MODES"
  shows "msm_mode sm' \<in> SAFETY_MODES"
  using assms by (cases "msm_mode sm")
    (auto elim!: mode_step_armedE dest!: mode_transition_Inr promote_one_rung_Inr demote_one_rung_Inr)

lemma armed_steps_safety:
  "mode_step_armed\<^sup>*\<^sup>* sm sm' \<Longrightarrow> msm_mode sm \<in> SAFETY_MODES \<Longrightarrow> msm_mode sm' \<in> SAFETY_MODES"
  by (induction rule: rtranclp_induct) (auto intro: armed_step_safety)

section \<open>Properties\<close>

text \<open>Mode-ceiling safety: take a machine built with any ladder ceiling and started in
  \<open>RESEARCH\<close>. After any sequence of successful transitions, promotions (under any dynamic
  ceiling), demotions and re-arms, the ceiling is unchanged and the current mode, when it is on
  the ladder, ranks at or below it.\<close>

theorem ceiling_never_exceeded:
  assumes "ModeStateMachine_new ceiling RESEARCH = Inr sm" and "mode_reachable sm sm'"
    and "ladder_rank (msm_mode sm') = Some r"
  shows "\<exists>c. ladder_rank ceiling = Some c \<and> r \<le> c"
proof -
  from assms(1) have sm: "msm_ceiling sm = ceiling" "mode_inv sm"
    by (auto simp: ModeStateMachine_new_def mode_inv_rank split: if_splits)
  from mode_reachable_inv [OF assms(2) sm(2)] mode_reachable_ceiling [OF assms(2)] sm(1) assms(3)
  show ?thesis by (auto simp: mode_inv_rank)
qed

theorem ceiling_never_exceeded_witness:
  "\<exists>c. ladder_rank PAPER = Some c \<and> (1 :: nat) \<le> c"
proof -
  let ?s = "\<lparr>msm_ceiling = PAPER, msm_mode = RESEARCH\<rparr>"
  have a: "ModeStateMachine_new PAPER RESEARCH = Inr ?s" by (simp add: ModeStateMachine_new_def)
  have "promote_one_rung ?s LIVE = Inr (?s\<lparr>msm_mode := PAPER\<rparr>)"
    by (simp add: promote_one_rung_def)
  then have b: "mode_reachable ?s (?s\<lparr>msm_mode := PAPER\<rparr>)"
    by (blast intro: mode_reachable.intros mode_step.promote)
  from ceiling_never_exceeded [OF a b, of 1] show ?thesis by simp
qed

text \<open>The safety modes are absorbing: from \<open>PAUSED\<close>, \<open>HALT\<close> or \<open>KILLED\<close> no sequence of
  transitions, promotions and demotions reaches a mode in which an order may be routed or
  research money spent; and a \<open>KILLED\<close> machine accepts no call at all except a re-arm with the
  exact phrase, which leads to \<open>RESEARCH\<close>, where it may not trade.\<close>

theorem safety_modes_absorbing:
  "(msm_mode sm \<in> SAFETY_MODES \<longrightarrow> mode_step_armed\<^sup>*\<^sup>* sm sm' \<longrightarrow>
      \<not> may_trade (msm_mode sm') \<and> \<not> may_research (msm_mode sm'))
   \<and> (msm_mode sm = KILLED \<longrightarrow> mode_step sm sm' \<longrightarrow>
      mode_rearm sm REARM_CONFIRMATION_PHRASE = Inr sm' \<and> msm_mode sm' = RESEARCH
      \<and> \<not> may_trade (msm_mode sm'))"
proof (intro conjI impI)
  assume "msm_mode sm \<in> SAFETY_MODES" and "mode_step_armed\<^sup>*\<^sup>* sm sm'"
  then have "msm_mode sm' \<in> SAFETY_MODES" by (rule armed_steps_safety [rotated])
  then show "\<not> may_trade (msm_mode sm')" "\<not> may_research (msm_mode sm')"
    by (auto simp: may_research_def SAFETY_MODES_def)
next
  assume k: "msm_mode sm = KILLED" and st: "mode_step sm sm'"
  then have "\<exists>ph. mode_rearm sm ph = Inr sm'"
    by (auto elim!: mode_stepE dest!: mode_transition_Inr promote_one_rung_Inr demote_one_rung_Inr)
  then show "mode_rearm sm REARM_CONFIRMATION_PHRASE = Inr sm'" "msm_mode sm' = RESEARCH"
    "\<not> may_trade (msm_mode sm')"
    by (auto simp: mode_rearm_Inr)
qed

theorem safety_modes_absorbing_witness:
  "msm_mode \<lparr>msm_ceiling = LIVE, msm_mode = PAUSED\<rparr> \<in> SAFETY_MODES
   \<and> mode_step_armed\<^sup>*\<^sup>* \<lparr>msm_ceiling = LIVE, msm_mode = PAUSED\<rparr> \<lparr>msm_ceiling = LIVE, msm_mode = HALT\<rparr>
   \<and> \<not> may_research HALT"
proof -
  let ?p = "\<lparr>msm_ceiling = LIVE, msm_mode = PAUSED\<rparr>" and ?h = "\<lparr>msm_ceiling = LIVE, msm_mode = HALT\<rparr>"
  have "mode_transition ?p HALT = Inr ?h" by (simp add: mode_transition_safety)
  then have st: "mode_step_armed\<^sup>*\<^sup>* ?p ?h" by (blast intro: mode_step_armed.transition)
  then show ?thesis using safety_modes_absorbing [of ?p ?h] by simp
qed

text \<open>Demotion is total and never an escalation: from every mode every trigger resolves
  without an error, the primitive chosen to apply the resolved destination succeeds and lands
  exactly there, and the destination is a safety mode or ranks strictly below the current mode;
  a killed machine is never moved.\<close>

theorem demotion_total_and_downward:
  "\<exists>dest. resolve_demotion (msm_mode sm) trigger = Inr dest \<and>
     (case dest of
        None \<Rightarrow> True
      | Some d \<Rightarrow> msm_mode sm \<noteq> KILLED \<and> apply_demotion sm d = Inr (sm\<lparr>msm_mode := d\<rparr>) \<and>
          (d \<in> SAFETY_MODES \<or> (\<exists>r r'. ladder_rank d = Some r \<and> ladder_rank (msm_mode sm) = Some r' \<and> r < r')))"
proof -
  have acts: "TRIGGER_ACTIONS trigger \<in> {PAUSE_ACTION, DEMOTE_ONE_MODE, HALT_ACTION, KILL_ACTION}"
    by (cases "TRIGGER_ACTIONS trigger") auto
  show ?thesis
    using acts
    by (cases "msm_mode sm")
      (auto simp: resolve_demotion_def resolve_demote_one_mode_def resolve_safety_action_def
        SAFETY_ACTION_TARGET_def dict_get_def apply_demotion_def mode_transition_safety
        demote_one_rung_def Let_def)
qed

end
