(* ===== verification/Events.thy ===== *)
theory Events
  imports Prelude "HOL-Library.Char_ord" "HOL-Library.List_Lexorder" "HOL-Library.Multiset"
begin

text \<open>
  Ledger events and their canonical serialization (\<open>windbreak/ledger/events.py\<close>), the directive
  delivery vocabulary (\<open>windbreak/ledger/directives.py\<close>) and the in-memory event writer
  (\<open>InMemoryKernelLedgerWriter\<close> of \<open>windbreak/riskkernel/process.py\<close>). JSON values are the
  datatype \<open>json\<close>; \<open>json.dumps(..., sort_keys=True, separators=(",", ":"))\<close> is \<open>canonical_json\<close>,
  with the default ASCII escaping written out. A \<open>char\<close> stands for a code point below 256.
\<close>

section \<open>Definitions\<close>

subsection \<open>JSON\<close>

datatype json =
    JInt int
  | JStr string
  | JBool bool
  | JNull
  | JList "json list"
  | JObj "(string \<times> json) list"

definition hex_digit :: "nat \<Rightarrow> char" where
  "hex_digit n = (if n < 10 then char_of (48 + n) else char_of (87 + n))"

definition json_escape :: "char \<Rightarrow> string" where
  "json_escape c =
     (if c = CHR 0x22 then [CHR 0x5C, CHR 0x22]
      else if c = CHR 0x5C then [CHR 0x5C, CHR 0x5C]
      else if c = CHR 0x0A then [CHR 0x5C, CHR ''n'']
      else if c = CHR 0x0D then [CHR 0x5C, CHR ''r'']
      else if c = CHR 0x09 then [CHR 0x5C, CHR ''t'']
      else if c = CHR 0x0C then [CHR 0x5C, CHR ''f'']
      else if c = CHR 0x08 then [CHR 0x5C, CHR ''b'']
      else if 32 \<le> (of_char c :: nat) \<and> (of_char c :: nat) \<le> 126 then [c]
      else [CHR 0x5C, CHR ''u'', CHR ''0'', CHR ''0'', hex_digit (of_char c div 16), hex_digit (of_char c mod 16)])"

definition json_string :: "string \<Rightarrow> string" where
  "json_string s = [CHR 0x22] @ concat (map json_escape s) @ [CHR 0x22]"

fun json_join :: "string list \<Rightarrow> string" where
  "json_join [] = []"
| "json_join (x # xs) = x @ concat (map (\<lambda>y. '','' @ y) xs)"

fun json_dumps :: "json \<Rightarrow> string" where
  "json_dumps (JInt i) = show_int i"
| "json_dumps (JStr s) = json_string s"
| "json_dumps (JBool b) = (if b then ''true'' else ''false'')"
| "json_dumps JNull = ''null''"
| "json_dumps (JList xs) = ''['' @ json_join (map json_dumps xs) @ '']''"
| "json_dumps (JObj kvs) =
     ''{'' @ json_join (map (\<lambda>(k, v). json_string k @ '':'' @ json_dumps v) kvs) @ ''}''"

fun json_canon :: "json \<Rightarrow> json" where
  "json_canon (JList xs) = JList (map json_canon xs)"
| "json_canon (JObj kvs) = JObj (sort_key fst (map (\<lambda>(k, v). (k, json_canon v)) kvs))"
| "json_canon j = j"

definition canonical_json :: "(string \<times> json) list \<Rightarrow> string" where
  "canonical_json obj = json_dumps (json_canon (JObj obj))"

subsection \<open>Events\<close>

type_synonym payload = "(string, json) pydict"

record Event =
  event_type :: string
  component :: string
  payload_schema_version :: int
  payload :: payload

definition envelope_json :: "Event \<Rightarrow> string" where
  "envelope_json e =
     canonical_json [(''component'', JStr (component e)), (''data'', JObj (payload e)),
       (''schema_version'', JInt (payload_schema_version e))]"

definition SCHEMA_VERSION :: int where "SCHEMA_VERSION = 1"
definition ALERT_EMITTED_SCHEMA_VERSION :: int where "ALERT_EMITTED_SCHEMA_VERSION = 2"
definition CANCEL_ALL_DIRECTIVE_SCHEMA_VERSION :: int where "CANCEL_ALL_DIRECTIVE_SCHEMA_VERSION = 2"

definition derive_typed_event :: "string \<Rightarrow> string \<Rightarrow> payload \<Rightarrow> int \<Rightarrow> Event" where
  "derive_typed_event cls cmp pl version =
     \<lparr>event_type = cls, component = cmp, payload_schema_version = version, payload = pl\<rparr>"

definition ModeHeartbeat :: "string \<Rightarrow> string \<Rightarrow> int \<Rightarrow> Event" where
  "ModeHeartbeat cmp mode_str beat =
     derive_typed_event ''ModeHeartbeat'' cmp [(''mode'', JStr mode_str), (''beat'', JInt beat)] SCHEMA_VERSION"

definition AlertEmitted :: "string \<Rightarrow> string \<Rightarrow> string \<Rightarrow> json list \<Rightarrow> bool \<Rightarrow> Event" where
  "AlertEmitted cmp severity message deliveries reported =
     derive_typed_event ''AlertEmitted'' cmp
       [(''severity'', JStr severity), (''message'', JStr message), (''deliveries'', JList deliveries),
        (''delivery_reported'', JBool reported)] ALERT_EMITTED_SCHEMA_VERSION"

definition PromotionEvaluated ::
    "string \<Rightarrow> string \<Rightarrow> string \<Rightarrow> bool \<Rightarrow> bool \<Rightarrow> payload \<Rightarrow> json list \<Rightarrow> Event" where
  "PromotionEvaluated cmp source target approved bypassed evidence results =
     derive_typed_event ''PromotionEvaluated'' cmp
       [(''source_mode'', JStr source), (''target_mode'', JStr target), (''approved'', JBool approved),
        (''override_bypassed'', JBool bypassed), (''evidence'', JObj evidence), (''results'', JList results)]
       SCHEMA_VERSION"

definition SignificanceOverrideApplied :: "string \<Rightarrow> string \<Rightarrow> string \<Rightarrow> Event" where
  "SignificanceOverrideApplied cmp ack ceiling =
     derive_typed_event ''SignificanceOverrideApplied'' cmp
       [(''operator_ack'', JStr ack), (''ceiling'', JStr ceiling)] SCHEMA_VERSION"

definition DemotionTriggerFired :: "string \<Rightarrow> string \<Rightarrow> string \<Rightarrow> string \<Rightarrow> string \<Rightarrow> bool \<Rightarrow> Event" where
  "DemotionTriggerFired cmp trigger action from_mode to_mode transitioned =
     derive_typed_event ''DemotionTriggerFired'' cmp
       [(''trigger'', JStr trigger), (''action'', JStr action), (''from_mode'', JStr from_mode),
        (''to_mode'', JStr to_mode), (''transitioned'', JBool transitioned)] SCHEMA_VERSION"

definition KillEngaged :: "string \<Rightarrow> string \<Rightarrow> int \<Rightarrow> int \<Rightarrow> Event" where
  "KillEngaged cmp trigger kill_sequence epoch =
     derive_typed_event ''KillEngaged'' cmp
       [(''trigger'', JStr trigger), (''kill_sequence'', JInt kill_sequence), (''epoch'', JInt epoch)]
       SCHEMA_VERSION"

definition CancelAllDirective :: "string \<Rightarrow> string \<Rightarrow> payload \<Rightarrow> bool \<Rightarrow> Event" where
  "CancelAllDirective cmp scope delivery reported =
     derive_typed_event ''CancelAllDirective'' cmp
       [(''scope'', JStr scope), (''delivery'', JObj delivery), (''delivery_reported'', JBool reported)]
       CANCEL_ALL_DIRECTIVE_SCHEMA_VERSION"

definition KillReArmed :: "string \<Rightarrow> int \<Rightarrow> Event" where
  "KillReArmed cmp kill_sequence =
     derive_typed_event ''KillReArmed'' cmp [(''kill_sequence'', JInt kill_sequence)] SCHEMA_VERSION"

definition PromotionBlocked :: "string \<Rightarrow> string \<Rightarrow> string \<Rightarrow> string \<Rightarrow> Event" where
  "PromotionBlocked cmp source target reason =
     derive_typed_event ''PromotionBlocked'' cmp
       [(''source_mode'', JStr source), (''target_mode'', JStr target), (''reason'', JStr reason)]
       SCHEMA_VERSION"

text \<open>The in-memory writer: the log in recording order.\<close>

type_synonym event_log = "Event list"

definition log_record :: "Event \<Rightarrow> event_log \<Rightarrow> event_log" where
  "log_record e log = log @ [e]"

subsection \<open>Directive deliveries\<close>

datatype DirectiveOutcome = DELIVERED | PARTIAL | REFUSED | ERRORED

fun outcome_value :: "DirectiveOutcome \<Rightarrow> string" where
  "outcome_value DELIVERED = ''delivered''"
| "outcome_value PARTIAL = ''partial''"
| "outcome_value REFUSED = ''refused''"
| "outcome_value ERRORED = ''errored''"

record DirectiveDelivery =
  dd_cancelled :: int
  dd_failed :: int
  dd_errored :: bool

definition fully_delivered :: "DirectiveDelivery \<Rightarrow> bool" where
  "fully_delivered d = (\<not> dd_errored d \<and> dd_failed d = 0)"

definition directive_outcome :: "DirectiveDelivery \<Rightarrow> DirectiveOutcome" where
  "directive_outcome d =
     (if dd_errored d then ERRORED else if dd_failed d = 0 then DELIVERED
      else if dd_cancelled d = 0 then REFUSED else PARTIAL)"

definition delivery_as_payload :: "DirectiveDelivery \<Rightarrow> payload" where
  "delivery_as_payload d =
     [(''cancelled'', JInt (dd_cancelled d)), (''failed'', JInt (dd_failed d)),
      (''outcome'', JStr (outcome_value (directive_outcome d)))]"

definition ledger_directive_delivery :: "DirectiveDelivery option \<Rightarrow> payload" where
  "ledger_directive_delivery d = (case d of None \<Rightarrow> [] | Some x \<Rightarrow> delivery_as_payload x)"

section \<open>Lemmas on the encoding\<close>

definition unhex :: "char \<Rightarrow> nat" where
  "unhex c = (if (of_char c :: nat) < 58 then of_char c - 48 else of_char c - 87)"

lemma unhex_hex_digit [simp]: "n < 16 \<Longrightarrow> unhex (hex_digit n) = n"
  by (simp add: unhex_def hex_digit_def)

lemma char_div_mod: "char_of (16 * (of_char c div 16) + of_char c mod (16 :: nat)) = c"
  by (metis char_of_char div_mult_mod_eq mult.commute)

lemma of_char_nibble: "(of_char c :: nat) div 16 < 16"
  using nat_of_char_less_256 [of c] by (simp add: less_mult_imp_div_less)

text \<open>Reading one escaped character off the front of a text.\<close>

fun unescape :: "string \<Rightarrow> (char \<times> string) option" where
  "unescape [] = None"
| "unescape (c # r) =
     (if c \<noteq> CHR 0x5C then Some (c, r)
      else case r of [] \<Rightarrow> None
        | d # r' \<Rightarrow>
            if d = CHR ''n'' then Some (CHR 0x0A, r') else if d = CHR ''r'' then Some (CHR 0x0D, r')
            else if d = CHR ''t'' then Some (CHR 0x09, r') else if d = CHR ''f'' then Some (CHR 0x0C, r')
            else if d = CHR ''b'' then Some (CHR 0x08, r')
            else if d = CHR ''u'' then
              Some (char_of (16 * unhex (r' ! 2) + unhex (r' ! 3)), drop 4 r')
            else Some (d, r'))"

lemma unescape_escape: "unescape (json_escape c @ r) = Some (c, r)"
proof -
  let ?n = "of_char c :: nat"
  have u: "unescape ([CHR 0x5C, CHR ''u'', CHR ''0'', CHR ''0'', hex_digit (?n div 16), hex_digit (?n mod 16)] @ r)
      = Some (c, r)"
    using of_char_nibble [of c] char_div_mod [of c] by (simp add: numeral_2_eq_2 numeral_3_eq_3)
  consider (special) "c \<in> {CHR 0x22, CHR 0x5C, CHR 0x0A, CHR 0x0D, CHR 0x09, CHR 0x0C, CHR 0x08}"
    | (plain) "c \<notin> {CHR 0x22, CHR 0x5C, CHR 0x0A, CHR 0x0D, CHR 0x09, CHR 0x0C, CHR 0x08}" "32 \<le> ?n \<and> ?n \<le> 126"
    | (other) "c \<notin> {CHR 0x22, CHR 0x5C, CHR 0x0A, CHR 0x0D, CHR 0x09, CHR 0x0C, CHR 0x08}" "\<not> (32 \<le> ?n \<and> ?n \<le> 126)"
    by blast
  then show ?thesis
  proof cases
    case special
    then show ?thesis by (elim insertE) (simp_all add: json_escape_def)
  next
    case plain
    then have "json_escape c = [c]" by (simp add: json_escape_def)
    with plain show ?thesis by simp
  next
    case other
    then have "json_escape c = [CHR 0x5C, CHR ''u'', CHR ''0'', CHR ''0'', hex_digit (?n div 16), hex_digit (?n mod 16)]"
      by (simp only: json_escape_def insert_iff de_Morgan_disj if_False if_True)
    with u show ?thesis by simp
  qed
qed

lemma escape_nonempty: "json_escape c \<noteq> []"
  by (simp add: json_escape_def)

lemma hd_escape: "hd (json_escape c) \<noteq> CHR 0x22"
  by (auto simp: json_escape_def)

lemma escape_prefix_free: "json_escape c @ r = json_escape d @ s \<Longrightarrow> c = d \<and> r = s"
  by (metis unescape_escape option.inject prod.inject)

lemma escaped_text_unique:
  "concat (map json_escape s) @ CHR 0x22 # r = concat (map json_escape t) @ CHR 0x22 # r' \<Longrightarrow>
   s = t \<and> r = r'"
proof (induction s arbitrary: t)
  case Nil
  show ?case
  proof (cases t)
    case Nil
    with Nil.prems show ?thesis by simp
  next
    case (Cons d t')
    then show ?thesis
      using arg_cong [where f = hd, OF Nil.prems] hd_escape [of d]
      by (simp add: escape_nonempty hd_append)
  qed
next
  case (Cons c s)
  show ?case
  proof (cases t)
    case Nil
    then show ?thesis
      using arg_cong [where f = hd, OF Cons.prems] hd_escape [of c]
      by (simp add: escape_nonempty hd_append)
  next
    case (Cons d t')
    with Cons.prems have "c = d \<and> concat (map json_escape s) @ CHR 0x22 # r = concat (map json_escape t') @ CHR 0x22 # r'"
      by (auto dest: escape_prefix_free)
    with Cons.IH [of t'] Cons show ?thesis by simp
  qed
qed

lemma json_string_unique: "json_string s @ r = json_string t @ r' \<Longrightarrow> s = t \<and> r = r'"
  using escaped_text_unique [of s r t r'] by (simp add: json_string_def)

text \<open>A rendered value ends at a comma, a closing bracket or the end of the text.\<close>

definition json_end :: "string \<Rightarrow> bool" where
  "json_end r = (r = [] \<or> hd r \<in> {CHR '','', CHR '']'', CHR ''}''})"

lemma json_end_not_digit: "json_end r \<Longrightarrow> r = [] \<or> \<not> is_digit (hd r)"
  by (auto simp: json_end_def is_digit_def)

lemma hd_show_int: "hd (show_int i) = CHR ''-'' \<or> is_digit (hd (show_int i))"
  using show_nat_digits [OF hd_in_set [OF show_nat_nonempty]] by (auto simp: show_int_def)

lemma show_int_nonempty [simp]: "show_int i \<noteq> []"
  by (simp add: show_int_def)

definition json_kind :: "char \<Rightarrow> nat" where
  "json_kind c = (if c = CHR ''-'' \<or> is_digit c then 0 else if c = CHR 0x22 then 1
     else if c = CHR ''t'' then 2 else if c = CHR ''f'' then 3 else if c = CHR ''n'' then 4
     else if c = CHR ''['' then 5 else if c = CHR ''{'' then 6 else 7)"

lemma json_dumps_nonempty [simp]: "json_dumps j \<noteq> []"
  by (cases j) (auto simp: json_string_def)

lemma json_kind_dumps:
  "json_kind (hd (json_dumps j @ r)) =
     (case j of JInt _ \<Rightarrow> 0 | JStr _ \<Rightarrow> 1 | JBool b \<Rightarrow> if b then 2 else 3 | JNull \<Rightarrow> 4
      | JList _ \<Rightarrow> 5 | JObj _ \<Rightarrow> 6)"
proof (cases j)
  case (JInt i)
  then show ?thesis using hd_show_int [of i] by (simp add: json_kind_def)
qed (simp_all add: json_string_def json_kind_def is_digit_def)

lemma json_end_kind: "json_end r \<Longrightarrow> r \<noteq> [] \<Longrightarrow> json_kind (hd r) = 7"
  by (auto simp: json_end_def is_digit_def json_kind_def)

text \<open>Sequences of rendered elements, closed by a bracket.\<close>

lemma elements_unique:
  assumes "\<And>x y r s. x \<in> set xs \<Longrightarrow> f x @ r = f y @ s \<Longrightarrow> json_end r \<Longrightarrow> json_end s \<Longrightarrow> x = y \<and> r = s"
    and "e \<in> {CHR '']'', CHR ''}''}"
    and "concat (map (\<lambda>y. '','' @ y) (map f xs)) @ e # r = concat (map (\<lambda>y. '','' @ y) (map f ys)) @ e # s"
  shows "xs = ys \<and> r = s"
  using assms(1,3)
proof (induction xs arbitrary: ys)
  case Nil
  then show ?case using assms(2) by (cases ys) auto
next
  case (Cons x xs)
  obtain y ys' where ys: "ys = y # ys'" using Cons.prems(2) assms(2) by (cases ys) auto
  have tl_end: "json_end (concat (map (\<lambda>y. '','' @ y) (map f zs)) @ e # t)" for zs t
    using assms(2) by (cases zs) (auto simp: json_end_def)
  have eq: "f x @ (concat (map (\<lambda>y. '','' @ y) (map f xs)) @ e # r)
      = f y @ (concat (map (\<lambda>y. '','' @ y) (map f ys')) @ e # s)"
    using Cons.prems(2) ys by simp
  from Cons.prems(1) [OF list.set_intros(1) eq tl_end tl_end]
  show ?case using Cons.IH [of ys'] Cons.prems(1) ys by auto
qed

lemma joined_unique:
  assumes "\<And>x y r s. x \<in> set xs \<Longrightarrow> f x @ r = f y @ s \<Longrightarrow> json_end r \<Longrightarrow> json_end s \<Longrightarrow> x = y \<and> r = s"
    and e: "e \<in> {CHR '']'', CHR ''}''}"
    and ne: "\<And>x t. json_kind (hd (f x @ t)) \<noteq> 7" and ne': "\<And>x. f x \<noteq> []"
    and eq: "json_join (map f xs) @ e # r = json_join (map f ys) @ e # s"
  shows "xs = ys \<and> r = s"
proof -
  have e7: "json_kind (hd (e # t)) = 7" for t
  proof -
    have "e = CHR '']'' \<or> e = CHR ''}''" using e by simp
    then show ?thesis by (elim disjE) (simp_all add: is_digit_def json_kind_def)
  qed
  have tl_end: "json_end (concat (map (\<lambda>y. '','' @ y) (map f zs)) @ e # t)" for zs t
    using e by (cases zs) (auto simp: json_end_def)
  show ?thesis
  proof (cases xs)
    case Nil
    show ?thesis
    proof (cases ys)
      case Nil
      with \<open>xs = []\<close> eq show ?thesis by simp
    next
      case (Cons y ys')
      with \<open>xs = []\<close> eq have "e # r = f y @ concat (map (\<lambda>y. '','' @ y) (map f ys')) @ e # s"
        by (simp add: o_def)
      from arg_cong [OF this, of hd] show ?thesis using e7 [of r] ne by metis
    qed
  next
    case xs: (Cons x xs')
    show ?thesis
    proof (cases ys)
      case Nil
      with xs eq have "f x @ concat (map (\<lambda>y. '','' @ y) (map f xs')) @ e # r = e # s"
        by (simp add: o_def)
      from arg_cong [OF this, of hd] show ?thesis using e7 [of s] ne by metis
    next
      case (Cons y ys')
      with xs eq have eq': "f x @ (concat (map (\<lambda>y. '','' @ y) (map f xs')) @ e # r)
          = f y @ (concat (map (\<lambda>y. '','' @ y) (map f ys')) @ e # s)"
        by (simp add: o_def)
      have "x \<in> set xs" using xs by simp
      from assms(1) [OF this eq' tl_end tl_end]
      have "x = y" and tl: "concat (map (\<lambda>y. '','' @ y) (map f xs')) @ e # r
          = concat (map (\<lambda>y. '','' @ y) (map f ys')) @ e # s"
        by auto
      moreover have "xs' = ys' \<and> r = s"
        by (rule elements_unique [OF assms(1) e tl]) (simp_all add: xs)
      ultimately show ?thesis using xs Cons by simp
    qed
  qed
qed

lemma member_unique:
  assumes "\<And>b r s. json_dumps v @ r = json_dumps b @ s \<Longrightarrow> json_end r \<Longrightarrow> json_end s \<Longrightarrow> v = b \<and> r = s"
    and "(\<lambda>(k, v). json_string k @ '':'' @ json_dumps v) (k, v) @ r
       = (\<lambda>(k, v). json_string k @ '':'' @ json_dumps v) q @ s"
    and "json_end r" "json_end s"
  shows "(k, v) = q \<and> r = s"
proof -
  obtain k' v' where q: "q = (k', v')" by (cases q)
  have "json_string k @ ('':'' @ json_dumps v @ r) = json_string k' @ ('':'' @ json_dumps v' @ s)"
    using assms(2) unfolding q by simp
  from json_string_unique [OF this] have k: "k = k'" and "json_dumps v @ r = json_dumps v' @ s"
    by simp_all
  from assms(1) [OF this(2) assms(3,4)] k q show ?thesis by simp
qed

lemma json_dumps_unique:
  "json_dumps a @ r = json_dumps b @ s \<Longrightarrow> json_end r \<Longrightarrow> json_end s \<Longrightarrow> a = b \<and> r = s"
proof (induction a arbitrary: b r s)
  case (JInt i)
  then obtain j where "b = JInt j"
    using json_kind_dumps [of "JInt i" r] json_kind_dumps [of b s] by (cases b) (auto split: if_splits)
  with JInt show ?case using show_int_prefix_unique [of i r j s] json_end_not_digit by auto
next
  case (JStr t)
  then obtain u where "b = JStr u"
    using json_kind_dumps [of "JStr t" r] json_kind_dumps [of b s] by (cases b) (auto split: if_splits)
  with JStr show ?case using json_string_unique [of t r u s] by auto
next
  case (JBool t)
  then have "b = JBool t"
    using json_kind_dumps [of "JBool t" r] json_kind_dumps [of b s] by (cases b) (auto split: if_splits)
  with JBool show ?case by simp
next
  case JNull
  then have "b = JNull"
    using json_kind_dumps [of JNull r] json_kind_dumps [of b s] by (cases b) (auto split: if_splits)
  with JNull show ?case by simp
next
  case (JList xs)
  then obtain ys where b: "b = JList ys"
    using json_kind_dumps [of "JList xs" r] json_kind_dumps [of b s] by (cases b) (auto split: if_splits)
  have ne: "json_kind (hd (json_dumps x @ t)) \<noteq> 7" for x t
    by (simp only: json_kind_dumps) (auto split: json.splits)
  have "json_join (map json_dumps xs) @ CHR '']'' # r = json_join (map json_dumps ys) @ CHR '']'' # s"
    using JList.prems(1) b by simp
  then have "xs = ys \<and> r = s"
    by (intro joined_unique [OF JList.IH _ ne json_dumps_nonempty]) simp_all
  with b show ?case by simp
next
  case (JObj kvs)
  let ?f = "\<lambda>(k, v). json_string k @ '':'' @ json_dumps v"
  obtain lws where b: "b = JObj lws"
    using JObj.prems json_kind_dumps [of "JObj kvs" r] json_kind_dumps [of b s]
    by (cases b) (auto split: if_splits)
  have ne: "json_kind (hd (?f x @ t)) \<noteq> 7" for x t
    by (cases x) (simp add: json_string_def is_digit_def json_kind_def)
  have ne': "?f x \<noteq> []" for x by (cases x) (simp add: json_string_def)
  have mem: "x = y \<and> r = s" if x: "x \<in> set kvs" and eq: "?f x @ r = ?f y @ s"
    and ends: "json_end r" "json_end s" for x y r s
  proof -
    obtain k v where kv: "x = (k, v)" by (cases x)
    have "v \<in> Basic_BNFs.snds x" using kv by simp
    note IH = JObj.IH [OF x this]
    from member_unique [OF IH _ ends] eq kv show ?thesis by blast
  qed
  have "json_join (map ?f kvs) @ CHR ''}'' # r = json_join (map ?f lws) @ CHR ''}'' # s"
    using JObj.prems(1) b by simp
  then have "kvs = lws \<and> r = s"
    by (intro joined_unique [OF mem _ ne ne']) simp_all
  with b show ?case by simp
qed

lemma json_dumps_inj: "json_dumps a = json_dumps b \<Longrightarrow> a = b"
  using json_dumps_unique [of a "[]" b "[]"] by (simp add: json_end_def)

lemma canonical_json_canon:
  "canonical_json a = canonical_json b \<Longrightarrow> json_canon (JObj a) = json_canon (JObj b)"
  unfolding canonical_json_def by (rule json_dumps_inj)

lemma sort_key_fst_perm:
  fixes xs ys :: "(string \<times> 'a) list"
  assumes "mset xs = mset ys" and "distinct (map fst xs)"
  shows "sort_key fst xs = sort_key fst ys"
proof -
  have ps: "set xs = set ys" using assms(1) by (metis set_mset_mset)
  have d: "distinct (map fst ys)" using assms by (metis distinct_count_atmost_1 mset_map set_map set_mset_mset)
  have inj: "inj_on fst (set (sort_key fst xs) \<union> set (sort_key fst ys))"
    using assms(2) ps by (simp add: distinct_map)
  have dd: "distinct (sort_key fst xs)" "distinct (sort_key fst ys)"
    using assms(2) d by (auto simp: distinct_map)
  show ?thesis
    by (rule map_sorted_distinct_set_unique [OF inj])
      (use ps dd in \<open>auto simp: distinct_map inj_on_subset [OF inj]\<close>)
qed

lemma sort_key_fst_set:
  fixes xs ys :: "(string \<times> 'a) list"
  assumes "sort_key fst xs = sort_key fst ys"
  shows "set xs = set ys"
  using assms by (metis set_sort)

lemma map_of_eq_set:
  assumes "distinct (map fst a)" and "distinct (map fst b)"
  shows "set a = set b \<longleftrightarrow> map_of a = map_of b"
  using assms by (metis map_of_eqI map_of_inject_set)

lemma canonical_json_eq_iff:
  assumes "dict_wf a" and "dict_wf b"
  shows "canonical_json a = canonical_json b \<longleftrightarrow>
    (\<forall>k. map_option json_canon (dict_get a k) = map_option json_canon (dict_get b k))"
proof -
  let ?g = "\<lambda>kvs. map (\<lambda>(k, v). (k, json_canon v)) kvs"
  have fst_g: "map fst (?g c) = map fst c" for c by (induction c) auto
  have d: "distinct (map fst (?g a))" "distinct (map fst (?g b))"
    using assms by (simp_all only: fst_g dict_wf_def)
  have get: "map_of (?g c) k = map_option json_canon (dict_get c k)" for c k
    by (simp add: map_of_map dict_get_def)
  have "canonical_json a = canonical_json b \<longleftrightarrow> sort_key fst (?g a) = sort_key fst (?g b)"
    using canonical_json_canon [of a b] by (auto simp: canonical_json_def)
  also have "\<dots> \<longleftrightarrow> set (?g a) = set (?g b)"
    using sort_key_fst_set [of "?g a" "?g b"] sort_key_fst_perm [of "?g a" "?g b"] d
    by (metis distinct_map set_eq_iff_mset_eq_distinct)
  also have "\<dots> \<longleftrightarrow> map_of (?g a) = map_of (?g b)" by (rule map_of_eq_set [OF d])
  finally show ?thesis by (simp only: fun_eq_iff get)
qed

text \<open>
  The canonical text of a payload identifies it: two dicts have the same canonical JSON exactly
  when every key maps to the same value in both, nested dicts again compared without regard to the
  order of their keys. Insertion order never shows in the text, and no two different payloads share
  one text.
\<close>

theorem canonical_json_identifies:
  assumes "dict_wf a" and "dict_wf b"
  shows "canonical_json a = canonical_json b \<longleftrightarrow>
    (\<forall>k. map_option json_canon (dict_get a k) = map_option json_canon (dict_get b k))"
  by (rule canonical_json_eq_iff [OF assms])

theorem canonical_json_identifies_witness:
  "canonical_json [(''b'', JInt 1), (''a'', JNull)] = canonical_json [(''a'', JNull), (''b'', JInt 1)]
   \<and> canonical_json [(''a'', JStr ''1'')] \<noteq> canonical_json [(''a'', JInt 1)]"
  using canonical_json_identifies [of "[(''b'', JInt 1), (''a'', JNull)]" "[(''a'', JNull), (''b'', JInt 1)]"]
    canonical_json_identifies [of "[(''a'', JStr ''1'')]" "[(''a'', JInt 1)]"]
  by (auto simp: dict_wf_def dict_get_def)

section \<open>Lemmas on events\<close>

lemmas typed_event_defs = ModeHeartbeat_def AlertEmitted_def PromotionEvaluated_def
  SignificanceOverrideApplied_def DemotionTriggerFired_def KillEngaged_def CancelAllDirective_def
  KillReArmed_def PromotionBlocked_def derive_typed_event_def

lemma event_type_simps [simp, event_simps]:
  "event_type (ModeHeartbeat c m b) = ''ModeHeartbeat''"
  "event_type (AlertEmitted c s m d r) = ''AlertEmitted''"
  "event_type (PromotionEvaluated c s t a b' ev rs) = ''PromotionEvaluated''"
  "event_type (SignificanceOverrideApplied c a' f) = ''SignificanceOverrideApplied''"
  "event_type (DemotionTriggerFired c t a' f g b') = ''DemotionTriggerFired''"
  "event_type (KillEngaged c t k e) = ''KillEngaged''"
  "event_type (CancelAllDirective c s pl r) = ''CancelAllDirective''"
  "event_type (KillReArmed c k) = ''KillReArmed''"
  "event_type (PromotionBlocked c s t a') = ''PromotionBlocked''"
  by (simp_all add: typed_event_defs)

lemma kill_sequence_payload [simp, event_simps]:
  "dict_get (payload (KillEngaged c t k e)) ''kill_sequence'' = Some (JInt k)"
  "dict_get (payload (KillReArmed c k)) ''kill_sequence'' = Some (JInt k)"
  by (simp_all add: typed_event_defs dict_get_def)

lemma log_record_prefix [simp]: "prefix log (log_record e log)"
  by (simp add: log_record_def)

end
