(* ===== verification/Checks.thy ===== *)
theory Checks
  imports Fees Modes
begin

text \<open>
  The pre-trade veto checks of the risk kernel: the evaluation context
  (\<open>windbreak/riskkernel/context.py\<close>), the verification snapshot it carries
  (\<open>windbreak/riskkernel/verification.py\<close>) and the 24 checks with their fail-closed evaluation
  (\<open>windbreak/riskkernel/checks.py\<close>). A check is a named function of the intent and the context
  returning either the text of the exception it raises (\<open>Inl\<close>) or its verdict (\<open>Inr\<close>). The
  24 shipped checks are total functions of the context: each exception the source catches inside a
  check is a case of that check here.
\<close>

section \<open>Definitions\<close>

subsection \<open>Evaluation context\<close>

datatype ExchangeTradingStatus = EXCHANGE_OPEN | EXCHANGE_PAUSED | EXCHANGE_CLOSED

datatype JurisdictionStatus = ELIGIBLE | INELIGIBLE

datatype ProductType = FULLY_COLLATERALIZED_BINARY

datatype VerificationOutcome = CLEAN | DRIFT_WITHIN_TOLERANCE | BREACH

record VerificationSnapshot =
  vs_outcome :: VerificationOutcome
  balance_ok :: bool
  position_ok :: bool
  open_order_ok :: bool
  verified_at_epoch_s :: int
  vs_exchange_verified_available_cash :: MoneyMicros
  cash_drift :: MoneyMicros
  semantics_fully_known :: bool

record FeeBounds =
  max_trading_fee :: "MoneyMicros option"
  max_settlement_fee :: "MoneyMicros option"

record AccountState =
  exchange_verified_available_cash :: MoneyMicros
  guaranteed_terminal_value_of_positions :: MoneyMicros
  pending_kernel_reservations :: MoneyMicros
  unresolved_fee_upper_bounds :: MoneyMicros
  reconciliation_uncertainty_buffer :: MoneyMicros
  equity_start_of_day :: MoneyMicros
  equity_high_water_mark :: MoneyMicros
  sampled_equity :: MoneyMicros
  realized_loss_today :: MoneyMicros
  market_exposure :: MoneyMicros
  event_exposure :: MoneyMicros
  bucket_exposure :: MoneyMicros
  total_exposure :: MoneyMicros
  orders_last_hour :: int
  notional_today :: MoneyMicros

record MarketView =
  quote_snapshot_epoch_s :: "int option"
  forecast_epoch_s :: "int option"
  visible_depth :: "ContractCentis option"
  exchange_clock_epoch_s :: "int option"
  open_position :: "ContractCentis option"
  exchange_status :: "ExchangeTradingStatus option"
  exchange_status_epoch_s :: "int option"
  jurisdiction_status :: "JurisdictionStatus option"
  product_type :: "ProductType option"

record RiskLimits =
  limits_floor :: MoneyMicros
  instrument_whitelist :: "string set"
  micro_cap :: MoneyMicros
  min_open_price :: PricePips
  max_open_price :: PricePips
  max_participation_ppm :: int
  max_pos_market_pct_ppm :: int
  max_pos_event_pct_ppm :: int
  max_pos_bucket_pct_ppm :: int
  max_pos_total_pct_ppm :: int
  daily_loss_limit_pct_ppm :: int
  max_drawdown_pct_ppm :: int
  max_orders_per_hour :: int
  max_notional_per_day :: MoneyMicros
  quote_ttl_seconds :: int
  forecast_ttl_seconds :: int
  clock_skew_max_seconds :: int
  rounding_buffer :: MoneyMicros
  verification_ttl_seconds :: int
  require_human_ack_above_micros :: "MoneyMicros option"
  exchange_status_ttl_seconds :: int
  pipeline_heartbeat_ttl_seconds :: int

record EvaluationContext =
  ctx_mode :: Mode
  limits :: RiskLimits
  account :: AccountState
  market :: MarketView
  fees :: FeeBounds
  now_epoch_s :: int
  used_intent_ids :: "string set"
  used_idempotency_keys :: "string set"
  verification :: "VerificationSnapshot option"
  acknowledged_intent_ids :: "string set"
  pipeline_heartbeat_epoch_s :: "int option"

subsection \<open>Intents, verdicts and shared helpers\<close>

record OrderIntent =
  intent_id :: string
  market_ticker :: string
  intent_outcome :: string
  action :: string
  price :: PricePips
  order_size :: ContractCentis
  max_notional :: MoneyMicros
  implied_probability :: ProbabilityPpm
  idempotency_key :: string

record CheckResult =
  cr_vetoed :: bool
  reason :: string

record Decision =
  dec_vetoed :: bool
  reasons :: "string list"
  ledgered :: bool

record Check =
  check_name :: string
  check_call :: "OrderIntent \<Rightarrow> EvaluationContext \<Rightarrow> string + CheckResult"

definition PPM_DENOMINATOR :: int where "PPM_DENOMINATOR = 1000000"
definition OPENING_ACTIONS :: "string set" where "OPENING_ACTIONS = {''buy''}"
definition CLOSING_ACTIONS :: "string set" where "CLOSING_ACTIONS = {''sell_to_close''}"
definition UNPROVABLE_REASON :: string where "UNPROVABLE_REASON = ''unprovable''"
definition LIVE_TRADING_MODES :: "Mode set" where "LIVE_TRADING_MODES = {LIVE_MICRO, LIVE}"
definition SEMANTICS_UNKNOWN_REASON :: string where
  "SEMANTICS_UNKNOWN_REASON = ''balance semantics not fully known in live mode''"
definition HUMAN_ACK_REQUIRED_REASON :: string where
  "HUMAN_ACK_REQUIRED_REASON = ''human acknowledgement required''"
definition TRADABLE_EXCHANGE_STATUSES :: "ExchangeTradingStatus set" where
  "TRADABLE_EXCHANGE_STATUSES = {EXCHANGE_OPEN}"
definition TRADABLE_PRODUCT_TYPES :: "ProductType set" where
  "TRADABLE_PRODUCT_TYPES = {FULLY_COLLATERALIZED_BINARY}"

datatype cost_error = UnprovableCostError

definition approve :: CheckResult where
  "approve = \<lparr>cr_vetoed = False, reason = ''ok''\<rparr>"

definition veto :: "string \<Rightarrow> CheckResult" where
  "veto r = \<lparr>cr_vetoed = True, reason = r\<rparr>"

definition ppm_of :: "int \<Rightarrow> int \<Rightarrow> int" where
  "ppm_of base ppm = projr (divide_int (base * ppm) PPM_DENOMINATOR UNDERSTATE_EQUITY)"

definition equity_of :: "AccountState \<Rightarrow> MoneyMicros" where
  "equity_of a =
     worst_case_equity (exchange_verified_available_cash a) (guaranteed_terminal_value_of_positions a)
       (pending_kernel_reservations a) (unresolved_fee_upper_bounds a)
       (reconciliation_uncertainty_buffer a)"

definition is_derisking_close :: "OrderIntent \<Rightarrow> EvaluationContext \<Rightarrow> bool" where
  "is_derisking_close intent ctx =
     (action intent \<in> CLOSING_ACTIONS \<and>
      (case open_position (market ctx) of None \<Rightarrow> False | Some pos \<Rightarrow> order_size intent \<le> pos))"

definition order_cost :: "OrderIntent \<Rightarrow> EvaluationContext \<Rightarrow> cost_error + MoneyMicros" where
  "order_cost intent ctx =
     (case (max_trading_fee (fees ctx), max_settlement_fee (fees ctx)) of
        (Some trading, Some settlement) \<Rightarrow>
          Inr (worst_case_cost (price intent) (order_size intent) trading settlement
                 (rounding_buffer (limits ctx)))
      | _ \<Rightarrow> Inl UnprovableCostError)"

definition is_stale :: "int option \<Rightarrow> int \<Rightarrow> int \<Rightarrow> bool" where
  "is_stale timestamp now ttl =
     (case timestamp of None \<Rightarrow> True | Some t \<Rightarrow> (if t > now then True else now - t > ttl))"

subsection \<open>The checks\<close>

type_synonym check_fn = "OrderIntent \<Rightarrow> EvaluationContext \<Rightarrow> CheckResult"

definition InstrumentWhitelist :: check_fn where
  "InstrumentWhitelist intent ctx =
     (if market_ticker intent \<in> instrument_whitelist (limits ctx) then approve
      else veto (''ticker '' @ market_ticker intent @ '' not on whitelist''))"

definition JurisdictionProductEligibility :: check_fn where
  "JurisdictionProductEligibility intent ctx =
     (if jurisdiction_status (market ctx) = None then veto ''jurisdiction eligibility unknown or missing''
      else if jurisdiction_status (market ctx) \<noteq> Some ELIGIBLE then veto ''market not jurisdiction-eligible''
      else if product_type (market ctx) \<notin> Some ` TRADABLE_PRODUCT_TYPES
        then veto ''product not provably a fully collateralized binary''
      else approve)"

definition ModePermissionCeiling :: check_fn where
  "ModePermissionCeiling intent ctx =
     (if \<not> may_trade (ctx_mode ctx) then veto (''mode '' @ mode_name (ctx_mode ctx) @ '' may not trade'')
      else if ctx_mode ctx \<noteq> LIVE_MICRO then approve
      else if is_derisking_close intent ctx then approve
      else case order_cost intent ctx of
          Inl UnprovableCostError \<Rightarrow> veto UNPROVABLE_REASON
        | Inr cost \<Rightarrow>
            (let projected_exposure =
                   total_exposure (account ctx) + pending_kernel_reservations (account ctx) + cost
             in if projected_exposure > micro_cap (limits ctx)
                then veto ''live-micro exposure ceiling exceeded'' else approve))"

definition floor_cost ::
    "OrderIntent \<Rightarrow> EvaluationContext \<Rightarrow> MoneyMicros \<Rightarrow> MoneyMicros \<Rightarrow> MoneyMicros option" where
  "floor_cost intent ctx trading settlement =
     (if action intent \<in> OPENING_ACTIONS then
        Some (worst_case_cost (price intent) (order_size intent) trading settlement
                (rounding_buffer (limits ctx)))
      else if action intent \<in> CLOSING_ACTIONS then
        Some (trading + settlement + rounding_buffer (limits ctx))
      else None)"

definition FloorInvariant :: check_fn where
  "FloorInvariant intent ctx =
     (case (max_trading_fee (fees ctx), max_settlement_fee (fees ctx)) of
        (Some trading, Some settlement) \<Rightarrow>
          (case floor_cost intent ctx trading settlement of
             None \<Rightarrow> veto UNPROVABLE_REASON
           | Some cost \<Rightarrow>
               (let equity = equity_of (account ctx)
                in if equity - cost \<ge> limits_floor (limits ctx) then approve
                   else veto ''worst-case equity below floor''))
      | _ \<Rightarrow> veto UNPROVABLE_REASON)"

definition FeeUpperBoundPresent :: check_fn where
  "FeeUpperBoundPresent intent ctx =
     (if max_trading_fee (fees ctx) = None then veto ''no trading-fee upper bound'' else approve)"

definition SettlementFeeUpperBound :: check_fn where
  "SettlementFeeUpperBound intent ctx =
     (if max_settlement_fee (fees ctx) = None then veto ''no settlement-fee upper bound'' else approve)"

definition ConcentrationLimits :: check_fn where
  "ConcentrationLimits intent ctx =
     (if is_derisking_close intent ctx then approve
      else case order_cost intent ctx of
          Inl UnprovableCostError \<Rightarrow> veto UNPROVABLE_REASON
        | Inr cost \<Rightarrow>
            (let equity = val (equity_of (account ctx)); a = account ctx; l = limits ctx;
                 dimensions =
                   [(market_exposure a, max_pos_market_pct_ppm l), (event_exposure a, max_pos_event_pct_ppm l),
                    (bucket_exposure a, max_pos_bucket_pct_ppm l), (total_exposure a, max_pos_total_pct_ppm l)]
             in if list_ex (\<lambda>(exposure, cap_ppm). val exposure + val cost > ppm_of equity cap_ppm) dimensions
                then veto ''concentration limit exceeded'' else approve))"

definition DailyLossLimit :: check_fn where
  "DailyLossLimit intent ctx =
     (let threshold = ppm_of (val (equity_start_of_day (account ctx))) (daily_loss_limit_pct_ppm (limits ctx))
      in if val (realized_loss_today (account ctx)) \<ge> threshold then veto ''daily loss limit reached''
         else approve)"

definition TrailingDrawdownLimit :: check_fn where
  "TrailingDrawdownLimit intent ctx =
     (let mark = val (equity_high_water_mark (account ctx));
          drawdown = mark - val (sampled_equity (account ctx));
          threshold = ppm_of mark (max_drawdown_pct_ppm (limits ctx))
      in if drawdown \<ge> threshold then veto ''trailing drawdown limit reached'' else approve)"

definition VelocityLimits :: check_fn where
  "VelocityLimits intent ctx =
     (if orders_last_hour (account ctx) + 1 > max_orders_per_hour (limits ctx)
      then veto ''hourly order cap exceeded''
      else if is_derisking_close intent ctx then approve
      else case order_cost intent ctx of
          Inl UnprovableCostError \<Rightarrow> veto UNPROVABLE_REASON
        | Inr cost \<Rightarrow>
            (if notional_today (account ctx) + cost > max_notional_per_day (limits ctx)
             then veto ''daily notional cap exceeded'' else approve))"

definition QuoteFreshness :: check_fn where
  "QuoteFreshness intent ctx =
     (if is_stale (quote_snapshot_epoch_s (market ctx)) (now_epoch_s ctx) (quote_ttl_seconds (limits ctx))
      then veto ''quote is stale or missing'' else approve)"

definition ForecastFreshness :: check_fn where
  "ForecastFreshness intent ctx =
     (if is_stale (forecast_epoch_s (market ctx)) (now_epoch_s ctx) (forecast_ttl_seconds (limits ctx))
      then veto ''forecast is stale or missing'' else approve)"

definition PriceBandCompliance :: check_fn where
  "PriceBandCompliance intent ctx =
     (if action intent \<in> CLOSING_ACTIONS then approve
      else if action intent \<notin> OPENING_ACTIONS then veto UNPROVABLE_REASON
      else if min_open_price (limits ctx) \<le> price intent \<and> price intent \<le> max_open_price (limits ctx)
        then approve
      else veto ''price outside open band'')"

definition ParticipationCapCompliance :: check_fn where
  "ParticipationCapCompliance intent ctx =
     (case visible_depth (market ctx) of
        None \<Rightarrow> veto ''visible depth unknown''
      | Some depth \<Rightarrow>
          (if val (order_size intent) > ppm_of (val depth) (max_participation_ppm (limits ctx))
           then veto ''participation cap exceeded'' else approve))"

definition ClockSkewLimit :: check_fn where
  "ClockSkewLimit intent ctx =
     (case exchange_clock_epoch_s (market ctx) of
        None \<Rightarrow> veto ''exchange clock unknown''
      | Some exchange_clock \<Rightarrow>
          (let skew = \<bar>now_epoch_s ctx - exchange_clock\<bar>
           in if skew > clock_skew_max_seconds (limits ctx) then veto ''clock skew exceeds limit''
              else approve))"

definition ExchangeStatusOk :: check_fn where
  "ExchangeStatusOk intent ctx =
     (if exchange_status (market ctx) = None \<or>
         is_stale (exchange_status_epoch_s (market ctx)) (now_epoch_s ctx)
           (exchange_status_ttl_seconds (limits ctx))
      then veto ''exchange status stale or missing''
      else if exchange_status (market ctx) \<notin> Some ` TRADABLE_EXCHANGE_STATUSES
        then veto ''exchange not open for trading''
      else approve)"

definition PipelineHeartbeatOk :: check_fn where
  "PipelineHeartbeatOk intent ctx =
     (if is_stale (pipeline_heartbeat_epoch_s ctx) (now_epoch_s ctx)
           (pipeline_heartbeat_ttl_seconds (limits ctx))
      then veto ''pipeline heartbeat stale or missing'' else approve)"

definition HumanAckSatisfied :: check_fn where
  "HumanAckSatisfied intent ctx =
     (case require_human_ack_above_micros (limits ctx) of
        None \<Rightarrow> approve
      | Some threshold \<Rightarrow>
          (if ctx_mode ctx \<notin> LIVE_TRADING_MODES then approve
           else case order_cost intent ctx of
               Inl UnprovableCostError \<Rightarrow> veto UNPROVABLE_REASON
             | Inr cost \<Rightarrow>
                 (if cost > threshold \<and> intent_id intent \<notin> acknowledged_intent_ids ctx
                  then veto HUMAN_ACK_REQUIRED_REASON else approve)))"

definition ApprovalTokenUniqueness :: check_fn where
  "ApprovalTokenUniqueness intent ctx =
     (if intent_id intent \<in> used_intent_ids ctx
      then veto ''approval token already issued for intent id'' else approve)"

definition IdempotencyKeyUniqueness :: check_fn where
  "IdempotencyKeyUniqueness intent ctx =
     (if idempotency_key intent \<in> used_idempotency_keys ctx
      then veto ''idempotency key already used'' else approve)"

definition ReduceOnlyProvable :: check_fn where
  "ReduceOnlyProvable intent ctx =
     (if action intent \<in> OPENING_ACTIONS then approve
      else if action intent \<notin> CLOSING_ACTIONS then veto UNPROVABLE_REASON
      else if is_derisking_close intent ctx then approve
      else veto ''close is not provably reduce-only'')"

definition ReconciliationCheck ::
    "(VerificationSnapshot \<Rightarrow> bool) \<Rightarrow> string \<Rightarrow> string \<Rightarrow> bool \<Rightarrow> check_fn" where
  "ReconciliationCheck ok_attr stale_reason mismatch_reason gate_semantics intent ctx =
     (case verification ctx of
        None \<Rightarrow> veto stale_reason
      | Some snapshot \<Rightarrow>
          (if is_stale (Some (verified_at_epoch_s snapshot)) (now_epoch_s ctx)
                (verification_ttl_seconds (limits ctx))
           then veto stale_reason
           else if \<not> ok_attr snapshot then veto mismatch_reason
           else if gate_semantics \<and> \<not> semantics_fully_known snapshot \<and> ctx_mode ctx \<in> LIVE_TRADING_MODES
             then veto SEMANTICS_UNKNOWN_REASON
           else approve))"

subsection \<open>The pinned sequence\<close>

definition total_check :: "string \<Rightarrow> check_fn \<Rightarrow> Check" where
  "total_check nm f = \<lparr>check_name = nm, check_call = \<lambda>intent ctx. Inr (f intent ctx)\<rparr>"

definition RECONCILIATION_CHECKS :: "Check list" where
  "RECONCILIATION_CHECKS =
     [total_check ''balance_reconciliation''
        (ReconciliationCheck balance_ok ''balance verification stale or missing''
           ''balance reconciliation mismatch'' True),
      total_check ''position_reconciliation''
        (ReconciliationCheck position_ok ''position verification stale or missing''
           ''position reconciliation mismatch'' False),
      total_check ''open_order_reconciliation''
        (ReconciliationCheck open_order_ok ''open-order verification stale or missing''
           ''open-order reconciliation mismatch'' False)]"

definition SPEC_10_3_CHECK_NAMES :: "string list" where
  "SPEC_10_3_CHECK_NAMES =
     [''instrument_whitelist'', ''jurisdiction_product_eligibility'', ''mode_permission_ceiling'',
      ''floor_invariant'', ''balance_reconciliation'', ''position_reconciliation'',
      ''open_order_reconciliation'', ''fee_upper_bound_present'', ''settlement_fee_upper_bound'',
      ''concentration_limits'', ''daily_loss_limit'', ''trailing_drawdown_limit'', ''velocity_limits'',
      ''quote_freshness'', ''forecast_freshness'', ''price_band_compliance'',
      ''participation_cap_compliance'', ''human_ack_satisfied'', ''approval_token_uniqueness'',
      ''idempotency_key_uniqueness'', ''clock_skew_limit'', ''exchange_status_ok'',
      ''pipeline_heartbeat_ok'', ''reduce_only_provable'']"

definition REAL_CHECKS :: "Check list" where
  "REAL_CHECKS =
     [total_check ''instrument_whitelist'' InstrumentWhitelist,
      total_check ''jurisdiction_product_eligibility'' JurisdictionProductEligibility,
      total_check ''mode_permission_ceiling'' ModePermissionCeiling,
      total_check ''floor_invariant'' FloorInvariant] @
     RECONCILIATION_CHECKS @
     [total_check ''fee_upper_bound_present'' FeeUpperBoundPresent,
      total_check ''settlement_fee_upper_bound'' SettlementFeeUpperBound,
      total_check ''concentration_limits'' ConcentrationLimits,
      total_check ''daily_loss_limit'' DailyLossLimit,
      total_check ''trailing_drawdown_limit'' TrailingDrawdownLimit,
      total_check ''velocity_limits'' VelocityLimits,
      total_check ''quote_freshness'' QuoteFreshness,
      total_check ''forecast_freshness'' ForecastFreshness,
      total_check ''price_band_compliance'' PriceBandCompliance,
      total_check ''participation_cap_compliance'' ParticipationCapCompliance,
      total_check ''human_ack_satisfied'' HumanAckSatisfied,
      total_check ''approval_token_uniqueness'' ApprovalTokenUniqueness,
      total_check ''idempotency_key_uniqueness'' IdempotencyKeyUniqueness,
      total_check ''clock_skew_limit'' ClockSkewLimit,
      total_check ''exchange_status_ok'' ExchangeStatusOk,
      total_check ''pipeline_heartbeat_ok'' PipelineHeartbeatOk,
      total_check ''reduce_only_provable'' ReduceOnlyProvable]"

definition CHECK_BY_NAME :: "(string, Check) pydict" where
  "CHECK_BY_NAME = foldl (\<lambda>d c. dict_set (check_name c) c d) [] REAL_CHECKS"

definition DEFAULT_CHECKS :: "Check list" where
  "DEFAULT_CHECKS = map (\<lambda>nm. the (dict_get CHECK_BY_NAME nm)) SPEC_10_3_CHECK_NAMES"

definition run_check :: "Check \<Rightarrow> OrderIntent \<Rightarrow> EvaluationContext \<Rightarrow> string option" where
  "run_check check intent ctx =
     (case check_call check intent ctx of
        Inl exc \<Rightarrow> Some (check_name check @ '': error: '' @ exc)
      | Inr result \<Rightarrow> (if cr_vetoed result then Some (reason result) else None))"

definition evaluate_intent :: "OrderIntent \<Rightarrow> EvaluationContext \<Rightarrow> Check list \<Rightarrow> Decision" where
  "evaluate_intent intent ctx checks =
     (let rs = foldl (\<lambda>acc check. case run_check check intent ctx of None \<Rightarrow> acc | Some r \<Rightarrow> acc @ [r])
                 [] checks
      in \<lparr>dec_vetoed = (rs \<noteq> []), reasons = rs, ledgered = False\<rparr>)"

text \<open>The verdict of the shipped sequence as a predicate.\<close>

definition approves :: "OrderIntent \<Rightarrow> EvaluationContext \<Rightarrow> bool" where
  "approves i c = (\<not> dec_vetoed (evaluate_intent i c DEFAULT_CHECKS))"

text \<open>
  Reading a verdict: whether both fee bounds are on record, and the full cost of an order as
  \<open>price * size + trading fee + settlement fee + rounding buffer\<close> when they are.
\<close>

definition fees_bounded :: "EvaluationContext \<Rightarrow> bool" where
  "fees_bounded c = (max_trading_fee (fees c) \<noteq> None \<and> max_settlement_fee (fees c) \<noteq> None)"

definition order_cost_val :: "OrderIntent \<Rightarrow> EvaluationContext \<Rightarrow> int" where
  "order_cost_val i c =
     val (price i) * val (order_size i) + val (the (max_trading_fee (fees c)))
       + val (the (max_settlement_fee (fees c))) + val (rounding_buffer (limits c))"

text \<open>An intent and a context in which every check approves.\<close>

definition sample_intent :: OrderIntent where
  "sample_intent = \<lparr>intent_id = ''i1'', market_ticker = ''T'', intent_outcome = ''yes'', action = ''buy'',
     price = IntUnit 4500, order_size = IntUnit 300, max_notional = IntUnit 1350000,
     implied_probability = IntUnit 520000, idempotency_key = ''k1''\<rparr>"

definition sample_limits :: RiskLimits where
  "sample_limits = \<lparr>limits_floor = IntUnit 50000000, instrument_whitelist = {''T''}, micro_cap = IntUnit 20000000,
     min_open_price = IntUnit 500, max_open_price = IntUnit 9500, max_participation_ppm = 250000,
     max_pos_market_pct_ppm = 50000, max_pos_event_pct_ppm = 100000, max_pos_bucket_pct_ppm = 200000,
     max_pos_total_pct_ppm = 500000, daily_loss_limit_pct_ppm = 50000, max_drawdown_pct_ppm = 100000,
     max_orders_per_hour = 10, max_notional_per_day = IntUnit 30000000, quote_ttl_seconds = 30,
     forecast_ttl_seconds = 3600, clock_skew_max_seconds = 5, rounding_buffer = IntUnit 10000,
     verification_ttl_seconds = 60, require_human_ack_above_micros = Some (IntUnit 5000000),
     exchange_status_ttl_seconds = 60, pipeline_heartbeat_ttl_seconds = 60\<rparr>"

definition sample_account :: AccountState where
  "sample_account = \<lparr>exchange_verified_available_cash = IntUnit 100000000,
     guaranteed_terminal_value_of_positions = IntUnit 0, pending_kernel_reservations = IntUnit 0,
     unresolved_fee_upper_bounds = IntUnit 0, reconciliation_uncertainty_buffer = IntUnit 0,
     equity_start_of_day = IntUnit 100000000, equity_high_water_mark = IntUnit 100000000,
     sampled_equity = IntUnit 99000000, realized_loss_today = IntUnit 1000000, market_exposure = IntUnit 0,
     event_exposure = IntUnit 0, bucket_exposure = IntUnit 0, total_exposure = IntUnit 0,
     orders_last_hour = 0, notional_today = IntUnit 0\<rparr>"

definition sample_snapshot :: VerificationSnapshot where
  "sample_snapshot = \<lparr>vs_outcome = CLEAN, balance_ok = True, position_ok = True, open_order_ok = True,
     verified_at_epoch_s = 990, vs_exchange_verified_available_cash = IntUnit 100000000,
     cash_drift = IntUnit 0, semantics_fully_known = True\<rparr>"

definition sample_context :: EvaluationContext where
  "sample_context = \<lparr>ctx_mode = LIVE, limits = sample_limits, account = sample_account,
     market = \<lparr>quote_snapshot_epoch_s = Some 995, forecast_epoch_s = Some 900,
       visible_depth = Some (IntUnit 2000), exchange_clock_epoch_s = Some 1001,
       open_position = Some (IntUnit 300), exchange_status = Some EXCHANGE_OPEN,
       exchange_status_epoch_s = Some 990, jurisdiction_status = Some ELIGIBLE,
       product_type = Some FULLY_COLLATERALIZED_BINARY\<rparr>,
     fees = \<lparr>max_trading_fee = Some (IntUnit 60000), max_settlement_fee = Some (IntUnit 0)\<rparr>,
     now_epoch_s = 1000, used_intent_ids = {}, used_idempotency_keys = {},
     verification = Some sample_snapshot, acknowledged_intent_ids = {},
     pipeline_heartbeat_epoch_s = Some 999\<rparr>"

section \<open>Lemmas\<close>

subsection \<open>Assembly and evaluation\<close>

lemma real_check_names: "map check_name REAL_CHECKS = SPEC_10_3_CHECK_NAMES"
  by (simp add: REAL_CHECKS_def RECONCILIATION_CHECKS_def SPEC_10_3_CHECK_NAMES_def total_check_def)

lemma spec_names_distinct: "distinct SPEC_10_3_CHECK_NAMES"
  by (simp add: SPEC_10_3_CHECK_NAMES_def)

lemma dict_by_name:
  "distinct (map fst d @ map f cs) \<Longrightarrow>
   foldl (\<lambda>d c. dict_set (f c) c d) d cs = d @ map (\<lambda>c. (f c, c)) cs"
proof (induction cs arbitrary: d)
  case (Cons c cs)
  then have "dict_set (f c) c d = d @ [(f c, c)]" by (intro dict_set_fresh) auto
  with Cons.IH [of "d @ [(f c, c)]"] Cons.prems show ?case by auto
qed simp

lemma map_of_by_name:
  "distinct (map f cs) \<Longrightarrow> c \<in> set cs \<Longrightarrow> map_of (map (\<lambda>c. (f c, c)) cs) (f c) = Some c"
  by (induction cs) (auto simp: image_iff)

lemma default_checks_eq: "DEFAULT_CHECKS = REAL_CHECKS"
proof -
  have d: "distinct (map check_name REAL_CHECKS)" using spec_names_distinct by (simp only: real_check_names)
  then have "CHECK_BY_NAME = map (\<lambda>c. (check_name c, c)) REAL_CHECKS"
    by (simp add: CHECK_BY_NAME_def dict_by_name del: append_Nil)
  then have "DEFAULT_CHECKS = map (\<lambda>c. the (map_of (map (\<lambda>c. (check_name c, c)) REAL_CHECKS) (check_name c))) REAL_CHECKS"
    by (simp add: DEFAULT_CHECKS_def real_check_names [symmetric] dict_get_def o_def)
  also have "\<dots> = map id REAL_CHECKS" using d by (intro map_cong) (simp_all add: map_of_by_name)
  finally show ?thesis by simp
qed

lemma evaluate_reasons:
  "reasons (evaluate_intent i c cs) = List.map_filter (\<lambda>k. run_check k i c) cs"
proof -
  have "foldl (\<lambda>acc k. case run_check k i c of None \<Rightarrow> acc | Some r \<Rightarrow> acc @ [r]) acc cs
      = acc @ List.map_filter (\<lambda>k. run_check k i c) cs" for acc
    by (induction cs arbitrary: acc) (auto simp: map_filter_simps split: option.splits)
  from this [of "[]"] show ?thesis by (simp add: evaluate_intent_def Let_def)
qed

lemma evaluate_vetoed_iff:
  "dec_vetoed (evaluate_intent i c cs) \<longleftrightarrow> (\<exists>k \<in> set cs. run_check k i c \<noteq> None)"
proof -
  have "dec_vetoed (evaluate_intent i c cs) \<longleftrightarrow> reasons (evaluate_intent i c cs) \<noteq> []"
    by (simp add: evaluate_intent_def Let_def)
  also have "\<dots> \<longleftrightarrow> (\<exists>k \<in> set cs. run_check k i c \<noteq> None)"
    unfolding evaluate_reasons by (auto simp: map_filter_def filter_empty_conv)
  finally show ?thesis .
qed

lemma run_total_check [simp]:
  "run_check (total_check nm f) i c = None \<longleftrightarrow> \<not> cr_vetoed (f i c)"
  by (simp add: run_check_def total_check_def)

lemma approves_list: "approves i c \<longleftrightarrow> list_all (\<lambda>k. run_check k i c = None) REAL_CHECKS"
  by (simp add: approves_def evaluate_vetoed_iff default_checks_eq list_all_iff)

subsection \<open>When each check approves\<close>

lemma cr_vetoed_simps [simp]: "\<not> cr_vetoed approve" "cr_vetoed (veto r)"
  "reason (veto r) = r"
  by (simp_all add: approve_def veto_def)

lemma ppm_of_eq: "ppm_of base ppm = (base * ppm) div 1000000"
  by (simp add: ppm_of_def divide_int_def PPM_DENOMINATOR_def floor_div_def)

lemma le_ppm_of: "x \<le> ppm_of base ppm \<longleftrightarrow> x * 1000000 \<le> base * ppm"
proof -
  have "x \<le> n div 1000000 \<longleftrightarrow> x * 1000000 \<le> n" for n :: int
    using div_mult_mod_eq [of n 1000000] pos_mod_bound [of 1000000 n] pos_mod_sign [of 1000000 n] by linarith
  then show ?thesis by (simp add: ppm_of_eq)
qed

lemma order_cost_Inr:
  "order_cost i c = Inr cost \<longleftrightarrow>
   (\<exists>t s. max_trading_fee (fees c) = Some t \<and> max_settlement_fee (fees c) = Some s \<and>
      cost = worst_case_cost (price i) (order_size i) t s (rounding_buffer (limits c)))"
  by (auto simp: order_cost_def split: option.splits)

lemma not_stale_iff:
  "\<not> is_stale ts now ttl \<longleftrightarrow> (\<exists>t. ts = Some t \<and> t \<le> now \<and> now - t \<le> ttl)"
  by (auto simp: is_stale_def split: option.splits)

text \<open>
  The exact condition under which each check approves.
\<close>

lemma order_cost_cases:
  obtains "order_cost i c = Inl UnprovableCostError"
      "max_trading_fee (fees c) = None \<or> max_settlement_fee (fees c) = None"
    | cost where "order_cost i c = Inr cost" "max_trading_fee (fees c) \<noteq> None"
      "max_settlement_fee (fees c) \<noteq> None" "val cost = order_cost_val i c"
  by (cases "max_trading_fee (fees c)"; cases "max_settlement_fee (fees c)")
    (auto simp: order_cost_def order_cost_val_def)

lemma evidence_checks:
  "\<not> cr_vetoed (InstrumentWhitelist i c) \<longleftrightarrow> market_ticker i \<in> instrument_whitelist (limits c)"
  "\<not> cr_vetoed (JurisdictionProductEligibility i c) \<longleftrightarrow>
     jurisdiction_status (market c) = Some ELIGIBLE \<and>
     product_type (market c) = Some FULLY_COLLATERALIZED_BINARY"
  "\<not> cr_vetoed (QuoteFreshness i c) \<longleftrightarrow>
     \<not> is_stale (quote_snapshot_epoch_s (market c)) (now_epoch_s c) (quote_ttl_seconds (limits c))"
  "\<not> cr_vetoed (ForecastFreshness i c) \<longleftrightarrow>
     \<not> is_stale (forecast_epoch_s (market c)) (now_epoch_s c) (forecast_ttl_seconds (limits c))"
  "\<not> cr_vetoed (PipelineHeartbeatOk i c) \<longleftrightarrow>
     \<not> is_stale (pipeline_heartbeat_epoch_s c) (now_epoch_s c) (pipeline_heartbeat_ttl_seconds (limits c))"
  "\<not> cr_vetoed (ExchangeStatusOk i c) \<longleftrightarrow>
     exchange_status (market c) = Some EXCHANGE_OPEN \<and>
     \<not> is_stale (exchange_status_epoch_s (market c)) (now_epoch_s c) (exchange_status_ttl_seconds (limits c))"
  "\<not> cr_vetoed (ClockSkewLimit i c) \<longleftrightarrow>
     (\<exists>t. exchange_clock_epoch_s (market c) = Some t \<and>
        \<bar>now_epoch_s c - t\<bar> \<le> clock_skew_max_seconds (limits c))"
  "\<not> cr_vetoed (FeeUpperBoundPresent i c) \<longleftrightarrow> max_trading_fee (fees c) \<noteq> None"
  "\<not> cr_vetoed (SettlementFeeUpperBound i c) \<longleftrightarrow> max_settlement_fee (fees c) \<noteq> None"
  "\<not> cr_vetoed (ReconciliationCheck ok sr mr g i c) \<longleftrightarrow>
     (\<exists>v. verification c = Some v \<and>
        \<not> is_stale (Some (verified_at_epoch_s v)) (now_epoch_s c) (verification_ttl_seconds (limits c)) \<and>
        ok v \<and> (g \<longrightarrow> semantics_fully_known v \<or> ctx_mode c \<notin> LIVE_TRADING_MODES))"
  by (auto simp: InstrumentWhitelist_def JurisdictionProductEligibility_def QuoteFreshness_def
      ForecastFreshness_def PipelineHeartbeatOk_def ExchangeStatusOk_def ClockSkewLimit_def Let_def
      FeeUpperBoundPresent_def SettlementFeeUpperBound_def ReconciliationCheck_def
      TRADABLE_PRODUCT_TYPES_def TRADABLE_EXCHANGE_STATUSES_def split: option.splits if_splits)

lemma uniqueness_checks:
  "\<not> cr_vetoed (ApprovalTokenUniqueness i c) \<longleftrightarrow> intent_id i \<notin> used_intent_ids c"
  "\<not> cr_vetoed (IdempotencyKeyUniqueness i c) \<longleftrightarrow> idempotency_key i \<notin> used_idempotency_keys c"
  by (simp_all add: ApprovalTokenUniqueness_def IdempotencyKeyUniqueness_def)

lemma action_checks:
  "\<not> cr_vetoed (ReduceOnlyProvable i c) \<longleftrightarrow> action i = ''buy'' \<or> is_derisking_close i c"
  "\<not> cr_vetoed (PriceBandCompliance i c) \<longleftrightarrow>
     action i = ''sell_to_close'' \<or>
     action i = ''buy'' \<and> min_open_price (limits c) \<le> price i \<and> price i \<le> max_open_price (limits c)"
  "\<not> cr_vetoed (ParticipationCapCompliance i c) \<longleftrightarrow>
     (\<exists>d. visible_depth (market c) = Some d \<and>
        val (order_size i) * 1000000 \<le> val d * max_participation_ppm (limits c))"
  unfolding le_ppm_of [symmetric]
  by (auto simp: ReduceOnlyProvable_def PriceBandCompliance_def ParticipationCapCompliance_def
      is_derisking_close_def OPENING_ACTIONS_def CLOSING_ACTIONS_def not_less split: option.splits)

lemma loss_checks:
  "\<not> cr_vetoed (DailyLossLimit i c) \<longleftrightarrow>
     (val (realized_loss_today (account c)) + 1) * 1000000
       \<le> val (equity_start_of_day (account c)) * daily_loss_limit_pct_ppm (limits c)"
  "\<not> cr_vetoed (TrailingDrawdownLimit i c) \<longleftrightarrow>
     (val (equity_high_water_mark (account c)) - val (sampled_equity (account c)) + 1) * 1000000
       \<le> val (equity_high_water_mark (account c)) * max_drawdown_pct_ppm (limits c)"
  unfolding le_ppm_of [symmetric] add1_zle_eq
  by (simp_all add: DailyLossLimit_def TrailingDrawdownLimit_def Let_def)

lemma mode_check:
  "\<not> cr_vetoed (ModePermissionCeiling i c) \<longleftrightarrow>
     may_trade (ctx_mode c) \<and>
     (ctx_mode c = LIVE_MICRO \<and> \<not> is_derisking_close i c \<longrightarrow>
        fees_bounded c \<and>
        val (total_exposure (account c)) + val (pending_kernel_reservations (account c)) + order_cost_val i c
          \<le> val (micro_cap (limits c)))"
  by (cases rule: order_cost_cases [of i c])
    (auto simp: ModePermissionCeiling_def fees_bounded_def Let_def unit_less_iff not_less)

lemma concentration_check:
  "\<not> cr_vetoed (ConcentrationLimits i c) \<longleftrightarrow>
     is_derisking_close i c \<or>
     fees_bounded c \<and>
     (\<forall>(e, cap) \<in> {(market_exposure (account c), max_pos_market_pct_ppm (limits c)),
         (event_exposure (account c), max_pos_event_pct_ppm (limits c)),
         (bucket_exposure (account c), max_pos_bucket_pct_ppm (limits c)),
         (total_exposure (account c), max_pos_total_pct_ppm (limits c))}.
       (val e + order_cost_val i c) * 1000000 \<le> val (equity_of (account c)) * cap)"
  unfolding le_ppm_of [symmetric]
  by (cases rule: order_cost_cases [of i c])
    (auto simp: ConcentrationLimits_def fees_bounded_def Let_def not_less)

lemma velocity_check:
  "\<not> cr_vetoed (VelocityLimits i c) \<longleftrightarrow>
     orders_last_hour (account c) < max_orders_per_hour (limits c) \<and>
     (is_derisking_close i c \<or>
      fees_bounded c \<and>
      val (notional_today (account c)) + order_cost_val i c \<le> val (max_notional_per_day (limits c)))"
  by (cases rule: order_cost_cases [of i c])
    (auto simp: VelocityLimits_def fees_bounded_def unit_less_iff not_less)

lemma human_ack_check:
  "\<not> cr_vetoed (HumanAckSatisfied i c) \<longleftrightarrow>
     (\<forall>t. require_human_ack_above_micros (limits c) = Some t \<and> ctx_mode c \<in> LIVE_TRADING_MODES \<longrightarrow>
        fees_bounded c \<and> (order_cost_val i c \<le> val t \<or> intent_id i \<in> acknowledged_intent_ids c))"
  by (cases rule: order_cost_cases [of i c])
    (auto simp: HumanAckSatisfied_def fees_bounded_def unit_less_iff not_less split: option.splits)

lemma floor_check:
  "\<not> cr_vetoed (FloorInvariant i c) \<longleftrightarrow>
     fees_bounded c \<and>
     (action i = ''buy'' \<and>
        val (limits_floor (limits c)) \<le> val (equity_of (account c)) - order_cost_val i c \<or>
      action i = ''sell_to_close'' \<and>
        val (limits_floor (limits c)) \<le> val (equity_of (account c))
          - (order_cost_val i c - val (price i) * val (order_size i)))"
  by (cases "max_trading_fee (fees c)"; cases "max_settlement_fee (fees c)")
    (auto simp: FloorInvariant_def floor_cost_def fees_bounded_def order_cost_val_def Let_def
      OPENING_ACTIONS_def CLOSING_ACTIONS_def unit_le_iff)

lemmas check_approves = evidence_checks uniqueness_checks action_checks loss_checks mode_check
  concentration_check velocity_check human_ack_check floor_check

lemma approves_iff:
  "approves i c \<longleftrightarrow>
     \<not> cr_vetoed (InstrumentWhitelist i c) \<and> \<not> cr_vetoed (JurisdictionProductEligibility i c) \<and>
     \<not> cr_vetoed (ModePermissionCeiling i c) \<and> \<not> cr_vetoed (FloorInvariant i c) \<and>
     (\<exists>v. verification c = Some v \<and>
        \<not> is_stale (Some (verified_at_epoch_s v)) (now_epoch_s c) (verification_ttl_seconds (limits c)) \<and>
        balance_ok v \<and> position_ok v \<and> open_order_ok v \<and>
        (semantics_fully_known v \<or> ctx_mode c \<notin> LIVE_TRADING_MODES)) \<and>
     fees_bounded c \<and> \<not> cr_vetoed (ConcentrationLimits i c) \<and> \<not> cr_vetoed (DailyLossLimit i c) \<and>
     \<not> cr_vetoed (TrailingDrawdownLimit i c) \<and> \<not> cr_vetoed (VelocityLimits i c) \<and>
     \<not> cr_vetoed (QuoteFreshness i c) \<and> \<not> cr_vetoed (ForecastFreshness i c) \<and>
     \<not> cr_vetoed (PriceBandCompliance i c) \<and> \<not> cr_vetoed (ParticipationCapCompliance i c) \<and>
     \<not> cr_vetoed (HumanAckSatisfied i c) \<and> \<not> cr_vetoed (ApprovalTokenUniqueness i c) \<and>
     \<not> cr_vetoed (IdempotencyKeyUniqueness i c) \<and> \<not> cr_vetoed (ClockSkewLimit i c) \<and>
     \<not> cr_vetoed (ExchangeStatusOk i c) \<and> \<not> cr_vetoed (PipelineHeartbeatOk i c) \<and>
     \<not> cr_vetoed (ReduceOnlyProvable i c)"
proof -
  have fb: "fees_bounded c \<longleftrightarrow>
      \<not> cr_vetoed (FeeUpperBoundPresent i c) \<and> \<not> cr_vetoed (SettlementFeeUpperBound i c)"
    by (simp add: fees_bounded_def evidence_checks)
  let ?R = "\<lambda>ok sr mr g. \<not> cr_vetoed (ReconciliationCheck ok sr mr g i c)"
  have recon: "(\<exists>v. verification c = Some v \<and>
        \<not> is_stale (Some (verified_at_epoch_s v)) (now_epoch_s c) (verification_ttl_seconds (limits c)) \<and>
        balance_ok v \<and> position_ok v \<and> open_order_ok v \<and>
        (semantics_fully_known v \<or> ctx_mode c \<notin> LIVE_TRADING_MODES)) \<longleftrightarrow>
      ?R balance_ok sr1 mr1 True \<and> ?R position_ok sr2 mr2 False \<and> ?R open_order_ok sr3 mr3 False"
    for sr1 mr1 sr2 mr2 sr3 mr3
    unfolding evidence_checks(10) by (cases "verification c") auto
  show ?thesis
    unfolding approves_list REAL_CHECKS_def RECONCILIATION_CHECKS_def fb
      recon [of "''balance verification stale or missing''" "''balance reconciliation mismatch''"
        "''position verification stale or missing''" "''position reconciliation mismatch''"
        "''open-order verification stale or missing''" "''open-order reconciliation mismatch''"]
    by simp
qed

lemma sample_approved: "approves sample_intent sample_context"
  by (simp add: approves_iff check_approves fees_bounded_def not_stale_iff sample_intent_def
      sample_context_def sample_limits_def sample_account_def sample_snapshot_def may_trade_def
      TRADING_MODES_def LIVE_TRADING_MODES_def order_cost_val_def equity_of_def is_derisking_close_def
      CLOSING_ACTIONS_def unit_le_iff)

section \<open>What a caller may rely on\<close>

text \<open>
  The contract of the veto sequence as the approval pipeline uses it: an approved intent has an id and
  an idempotency key not seen before, provable fees, a known action, and leaves worst-case equity at
  or above the floor.
\<close>

locale pretrade_gate =
  fixes gate :: "OrderIntent \<Rightarrow> EvaluationContext \<Rightarrow> bool"
  assumes fresh_id: "gate i c \<Longrightarrow> intent_id i \<notin> used_intent_ids c"
    and fresh_key: "gate i c \<Longrightarrow> idempotency_key i \<notin> used_idempotency_keys c"
    and bounded: "gate i c \<Longrightarrow> fees_bounded c"
    and known_action: "gate i c \<Longrightarrow> action i = ''buy'' \<or> is_derisking_close i c"
    and open_floor: "gate i c \<Longrightarrow> action i = ''buy'' \<Longrightarrow>
      val (limits_floor (limits c)) \<le> val (equity_of (account c)) - order_cost_val i c"
begin

lemma cost_provable:
  assumes "gate i c"
  obtains cost where "order_cost i c = Inr cost" and "val cost = order_cost_val i c"
  using bounded [OF assms] by (cases rule: order_cost_cases [of i c]) (auto simp: fees_bounded_def)

lemma unknown_action_refused:
  "action i \<noteq> ''buy'' \<Longrightarrow> action i \<noteq> ''sell_to_close'' \<Longrightarrow> \<not> gate i c"
  using known_action [of i c] by (auto simp: is_derisking_close_def CLOSING_ACTIONS_def)

lemma used_refused:
  "intent_id i \<in> used_intent_ids c \<or> idempotency_key i \<in> used_idempotency_keys c \<Longrightarrow> \<not> gate i c"
  using fresh_id fresh_key by blast

end

interpretation gate: pretrade_gate approves
  by unfold_locales (simp_all add: approves_iff check_approves)

section \<open>Properties\<close>

text \<open>C3. The floor holds for everything that is approved: a buy leaves cash plus guaranteed terminal
  value, less reservations, unresolved fees and the reconciliation buffer, at or above the floor even
  after its full notional, both fee bounds and the rounding buffer are paid; any other approved intent
  is a close no larger than the open position and clears the floor after its fees and the buffer.\<close>

theorem approved_respects_floor:
  assumes "approves i c"
  shows "\<exists>t s. max_trading_fee (fees c) = Some t \<and> max_settlement_fee (fees c) = Some s \<and>
    (let a = account c;
         equity = val (exchange_verified_available_cash a) + val (guaranteed_terminal_value_of_positions a)
           - val (pending_kernel_reservations a) - val (unresolved_fee_upper_bounds a)
           - val (reconciliation_uncertainty_buffer a);
         charges = val t + val s + val (rounding_buffer (limits c))
     in action i = ''buy'' \<and>
          val (limits_floor (limits c)) \<le> equity - (val (price i) * val (order_size i) + charges) \<or>
        action i = ''sell_to_close'' \<and> val (limits_floor (limits c)) \<le> equity - charges \<and>
          (\<exists>pos. open_position (market c) = Some pos \<and> val (order_size i) \<le> val pos))"
proof -
  from assms have f: "fees_bounded c" "\<not> cr_vetoed (FloorInvariant i c)"
    "\<not> cr_vetoed (ReduceOnlyProvable i c)"
    by (simp_all add: approves_iff)
  from f(1) obtain t s where ts: "max_trading_fee (fees c) = Some t" "max_settlement_fee (fees c) = Some s"
    by (auto simp: fees_bounded_def)
  from f(2,3) ts show ?thesis
    by (auto simp: floor_check action_checks order_cost_val_def equity_of_def Let_def
        is_derisking_close_def CLOSING_ACTIONS_def unit_le_iff split: option.splits)
qed

theorem approved_respects_floor_witness:
  "(50000000 :: int) \<le> 100000000 - (4500 * 300 + (60000 + 10000)) \<and> approves sample_intent sample_context"
  using approved_respects_floor [OF sample_approved] sample_approved
  by (simp add: sample_intent_def sample_context_def sample_limits_def sample_account_def)

text \<open>C19. Every exposure-increasing approval stays within every cap, without rounding: each of the
  market, event, bucket and total exposures plus the order's full cost is at most its
  parts-per-million share of worst-case equity, the day's notional and the hour's order count stay
  within their limits, the size is within its share of visible depth, and in LIVE_MICRO the exposure
  together with the capital already reserved stays under the micro cap.\<close>

theorem approved_within_caps:
  assumes "approves i c" and "\<not> is_derisking_close i c"
  shows "(let a = account c; l = limits c; equity = val (equity_of a); cost = order_cost_val i c in
      action i = ''buy'' \<and> val (min_open_price l) \<le> val (price i) \<and> val (price i) \<le> val (max_open_price l)
    \<and> (val (market_exposure a) + cost) * 1000000 \<le> equity * max_pos_market_pct_ppm l
    \<and> (val (event_exposure a) + cost) * 1000000 \<le> equity * max_pos_event_pct_ppm l
    \<and> (val (bucket_exposure a) + cost) * 1000000 \<le> equity * max_pos_bucket_pct_ppm l
    \<and> (val (total_exposure a) + cost) * 1000000 \<le> equity * max_pos_total_pct_ppm l
    \<and> orders_last_hour a < max_orders_per_hour l
    \<and> val (notional_today a) + cost \<le> val (max_notional_per_day l)
    \<and> (\<exists>d. visible_depth (market c) = Some d \<and>
         val (order_size i) * 1000000 \<le> val d * max_participation_ppm l)
    \<and> (ctx_mode c = LIVE_MICRO \<longrightarrow>
         val (total_exposure a) + val (pending_kernel_reservations a) + cost \<le> val (micro_cap l)))"
proof -
  have "action i = ''buy''" using gate.known_action [OF assms(1)] assms(2) by simp
  moreover from assms(1) have "\<not> cr_vetoed (ConcentrationLimits i c)" "\<not> cr_vetoed (VelocityLimits i c)"
    "\<not> cr_vetoed (ParticipationCapCompliance i c)" "\<not> cr_vetoed (ModePermissionCeiling i c)"
    "\<not> cr_vetoed (PriceBandCompliance i c)"
    by (simp_all add: approves_iff)
  ultimately show ?thesis
    using assms(2) unfolding Let_def action_checks concentration_check velocity_check mode_check
    by (simp add: unit_le_iff)
qed

theorem approved_within_caps_witness:
  "approves sample_intent sample_context \<and> \<not> is_derisking_close sample_intent sample_context
   \<and> order_cost_val sample_intent sample_context = 1420000"
proof -
  have n: "\<not> is_derisking_close sample_intent sample_context"
    by (simp add: is_derisking_close_def sample_intent_def CLOSING_ACTIONS_def)
  from approved_within_caps [OF sample_approved n] show ?thesis
    using n sample_approved by (simp add: order_cost_val_def sample_intent_def sample_context_def sample_limits_def)
qed

text \<open>C30. Nothing is approved on missing, stale, future-dated or disqualifying evidence: the mode may
  trade, the market is whitelisted, eligible and a fully collateralized binary, the exchange is open,
  the quote, the forecast, the exchange status, the pipeline heartbeat and the verification snapshot
  each lie between now and their age limit, the snapshot reconciles all three dimensions (with known
  balance semantics in the live modes), the clocks agree within the limit, and the day's loss and the
  trailing drawdown are strictly below their shares.\<close>

theorem approved_on_fresh_evidence:
  assumes "approves i c"
  shows "let m = market c; l = limits c; now = now_epoch_s c;
      fresh = (\<lambda>ts ttl. \<exists>t. ts = Some t \<and> t \<le> now \<and> now \<le> t + ttl) in
    ctx_mode c \<in> {PAPER, LIVE_MICRO, LIVE}
    \<and> market_ticker i \<in> instrument_whitelist l
    \<and> jurisdiction_status m = Some ELIGIBLE \<and> product_type m = Some FULLY_COLLATERALIZED_BINARY
    \<and> exchange_status m = Some EXCHANGE_OPEN
    \<and> fresh (exchange_status_epoch_s m) (exchange_status_ttl_seconds l)
    \<and> fresh (quote_snapshot_epoch_s m) (quote_ttl_seconds l)
    \<and> fresh (forecast_epoch_s m) (forecast_ttl_seconds l)
    \<and> fresh (pipeline_heartbeat_epoch_s c) (pipeline_heartbeat_ttl_seconds l)
    \<and> (\<exists>v. verification c = Some v \<and> fresh (Some (verified_at_epoch_s v)) (verification_ttl_seconds l)
         \<and> balance_ok v \<and> position_ok v \<and> open_order_ok v
         \<and> (ctx_mode c = PAPER \<or> semantics_fully_known v))
    \<and> (\<exists>t. exchange_clock_epoch_s m = Some t \<and> \<bar>now - t\<bar> \<le> clock_skew_max_seconds l)
    \<and> val (realized_loss_today (account c)) * 1000000
        < val (equity_start_of_day (account c)) * daily_loss_limit_pct_ppm l
    \<and> (val (equity_high_water_mark (account c)) - val (sampled_equity (account c))) * 1000000
        < val (equity_high_water_mark (account c)) * max_drawdown_pct_ppm l"
proof -
  have fresh: "\<not> is_stale ts n ttl \<longleftrightarrow> (\<exists>t. ts = Some t \<and> t \<le> n \<and> n \<le> t + ttl)" for ts n ttl
    by (auto simp: not_stale_iff)
  from assms show ?thesis
    unfolding approves_iff evidence_checks loss_checks mode_check fresh Let_def
    by (auto simp: may_trade_def TRADING_MODES_def LIVE_TRADING_MODES_def)
qed

theorem approved_on_fresh_evidence_witness:
  "approves sample_intent sample_context \<and> ctx_mode sample_context \<in> {PAPER, LIVE_MICRO, LIVE}"
  using approved_on_fresh_evidence [OF sample_approved] sample_approved by (simp add: Let_def)

text \<open>Evaluation fails closed for any sequence of checks, also one that raises: the verdict is a
  veto exactly when some check raises or vetoes, and the reasons of a sequence are those of its parts
  in order, so a raising check contributes its own reason and never suppresses the checks around it.\<close>

theorem evaluation_fail_closed:
  "dec_vetoed (evaluate_intent i c (pre @ k # post)) =
     (dec_vetoed (evaluate_intent i c pre) \<or> dec_vetoed (evaluate_intent i c post) \<or>
      (case check_call k i c of Inl exc \<Rightarrow> True | Inr r \<Rightarrow> cr_vetoed r))
   \<and> reasons (evaluate_intent i c (pre @ k # post)) =
     reasons (evaluate_intent i c pre) @
     (case check_call k i c of Inl exc \<Rightarrow> [check_name k @ '': error: '' @ exc]
      | Inr r \<Rightarrow> if cr_vetoed r then [reason r] else []) @
     reasons (evaluate_intent i c post)
   \<and> \<not> dec_vetoed (evaluate_intent i c [])"
  by (auto simp: evaluate_vetoed_iff evaluate_reasons run_check_def map_filter_def split: sum.splits if_splits)

text \<open>The exposure caps never block a provable de-risking close: for a close within the open
  position the whole verdict, reasons included, is the same whatever the four exposures, the day's
  notional, the micro cap, the four concentration caps and the daily notional cap are.\<close>

theorem derisking_close_ignores_caps:
  assumes "is_derisking_close i c"
  shows "evaluate_intent i
      (c\<lparr>account := (account c)\<lparr>market_exposure := e1, event_exposure := e2, bucket_exposure := e3,
           total_exposure := e4, notional_today := e5\<rparr>,
         limits := (limits c)\<lparr>micro_cap := m, max_pos_market_pct_ppm := p1, max_pos_event_pct_ppm := p2,
           max_pos_bucket_pct_ppm := p3, max_pos_total_pct_ppm := p4, max_notional_per_day := n\<rparr>\<rparr>)
      DEFAULT_CHECKS = evaluate_intent i c DEFAULT_CHECKS"
    (is "evaluate_intent i ?c' _ = _")
proof -
  have d: "is_derisking_close i ?c'" using assms by (simp add: is_derisking_close_def)
  have cost: "order_cost i ?c' = order_cost i c" by (simp add: order_cost_def split: option.split)
  have eq: "equity_of (account ?c') = equity_of (account c)" by (simp add: equity_of_def)
  have caps: "ModePermissionCeiling i ?c' = ModePermissionCeiling i c"
    "ConcentrationLimits i ?c' = ConcentrationLimits i c" "VelocityLimits i ?c' = VelocityLimits i c"
    "ReduceOnlyProvable i ?c' = ReduceOnlyProvable i c" "HumanAckSatisfied i ?c' = HumanAckSatisfied i c"
    using assms d cost
    by (simp_all add: ModePermissionCeiling_def ConcentrationLimits_def VelocityLimits_def
        ReduceOnlyProvable_def HumanAckSatisfied_def split: option.split sum.split cost_error.split)
  have fl: "FloorInvariant i ?c' = FloorInvariant i c"
    using eq by (simp add: FloorInvariant_def floor_cost_def split: option.split)
  have recon: "ReconciliationCheck ok sr mr g i ?c' = ReconciliationCheck ok sr mr g i c" for ok sr mr g
    by (simp add: ReconciliationCheck_def split: option.split)
  have others: "InstrumentWhitelist i ?c' = InstrumentWhitelist i c"
    "JurisdictionProductEligibility i ?c' = JurisdictionProductEligibility i c"
    "FeeUpperBoundPresent i ?c' = FeeUpperBoundPresent i c" "QuoteFreshness i ?c' = QuoteFreshness i c"
    "SettlementFeeUpperBound i ?c' = SettlementFeeUpperBound i c" "DailyLossLimit i ?c' = DailyLossLimit i c"
    "TrailingDrawdownLimit i ?c' = TrailingDrawdownLimit i c" "ForecastFreshness i ?c' = ForecastFreshness i c"
    "PriceBandCompliance i ?c' = PriceBandCompliance i c" "ClockSkewLimit i ?c' = ClockSkewLimit i c"
    "ParticipationCapCompliance i ?c' = ParticipationCapCompliance i c"
    "ApprovalTokenUniqueness i ?c' = ApprovalTokenUniqueness i c" "ExchangeStatusOk i ?c' = ExchangeStatusOk i c"
    "IdempotencyKeyUniqueness i ?c' = IdempotencyKeyUniqueness i c"
    "PipelineHeartbeatOk i ?c' = PipelineHeartbeatOk i c"
    by (simp_all add: InstrumentWhitelist_def JurisdictionProductEligibility_def FeeUpperBoundPresent_def
        SettlementFeeUpperBound_def DailyLossLimit_def TrailingDrawdownLimit_def QuoteFreshness_def
        ForecastFreshness_def PriceBandCompliance_def ParticipationCapCompliance_def
        ApprovalTokenUniqueness_def IdempotencyKeyUniqueness_def ClockSkewLimit_def
        ExchangeStatusOk_def PipelineHeartbeatOk_def split: option.split)
  have "run_check k i ?c' = run_check k i c" if "k \<in> set REAL_CHECKS" for k
    using that unfolding REAL_CHECKS_def RECONCILIATION_CHECKS_def
    by (auto simp only: set_simps set_append Un_iff insert_iff empty_iff run_check_def total_check_def
        Check.simps caps fl recon others)
  then have "foldl (\<lambda>acc k. case run_check k i ?c' of None \<Rightarrow> acc | Some r \<Rightarrow> acc @ [r]) [] REAL_CHECKS
      = foldl (\<lambda>acc k. case run_check k i c of None \<Rightarrow> acc | Some r \<Rightarrow> acc @ [r]) [] REAL_CHECKS"
    by (intro foldl_cong) simp_all
  then show ?thesis by (simp only: evaluate_intent_def default_checks_eq)
qed

theorem derisking_close_ignores_caps_witness:
  "evaluate_intent (sample_intent\<lparr>action := ''sell_to_close''\<rparr>)
     (sample_context\<lparr>account := sample_account\<lparr>market_exposure := IntUnit 90000000, event_exposure := IntUnit 90000000,
           bucket_exposure := IntUnit 90000000, total_exposure := IntUnit 90000000, notional_today := IntUnit 90000000\<rparr>,
         limits := sample_limits\<lparr>micro_cap := IntUnit 0, max_pos_market_pct_ppm := 0, max_pos_event_pct_ppm := 0,
           max_pos_bucket_pct_ppm := 0, max_pos_total_pct_ppm := 0, max_notional_per_day := IntUnit 0\<rparr>\<rparr>)
     DEFAULT_CHECKS
   = evaluate_intent (sample_intent\<lparr>action := ''sell_to_close''\<rparr>) sample_context DEFAULT_CHECKS"
proof -
  have "is_derisking_close (sample_intent\<lparr>action := ''sell_to_close''\<rparr>) sample_context"
    by (simp add: is_derisking_close_def sample_intent_def sample_context_def CLOSING_ACTIONS_def unit_le_iff)
  from derisking_close_ignores_caps [OF this] show ?thesis by (simp add: sample_context_def)
qed

end
