(* ===== verification/Tokens.thy ===== *)
theory Tokens
  imports Checks Events
begin

text \<open>
  Approval tokens: the shared claims, their canonical encoding, the single-use registry and
  \<open>verify_token\<close> (\<open>windbreak/tokens/verify.py\<close>), the kernel-side signing handle and issuer
  (\<open>windbreak/riskkernel/signing.py\<close>, \<open>windbreak/riskkernel/tokens.py\<close>) and the gateway-side
  \<open>verify_and_consume\<close> (\<open>windbreak/order_gateway/tokens.py\<close>). Byte strings are \<open>string\<close>s, one
  character per byte. The HMAC-SHA256 tag is a function argument \<open>hmac\<close> of key and message, and no
  theorem assumes anything of it. Verification passes the registry state through and returns it.
\<close>

section \<open>Definitions\<close>

subsection \<open>Hexadecimal text\<close>

text \<open>\<open>bytes.hex()\<close> and \<open>bytes.fromhex\<close>: lower-case digits out; either case in, with ASCII
  whitespace skipped between bytes and the failing position reported.\<close>

definition hex_of_byte :: "char \<Rightarrow> string" where
  "hex_of_byte c = [hex_digit (of_char c div 16), hex_digit (of_char c mod 16)]"

definition bytes_hex :: "string \<Rightarrow> string" where
  "bytes_hex bs = concat (map hex_of_byte bs)"

definition hex_val :: "char \<Rightarrow> nat option" where
  "hex_val c =
     (let n = of_char c :: nat in
      if 48 \<le> n \<and> n \<le> 57 then Some (n - 48)
      else if 97 \<le> n \<and> n \<le> 102 then Some (n - 87)
      else if 65 \<le> n \<and> n \<le> 70 then Some (n - 55)
      else None)"

definition ascii_space :: "char \<Rightarrow> bool" where
  "ascii_space c = ((of_char c :: nat) = 32 \<or> 9 \<le> (of_char c :: nat) \<and> (of_char c :: nat) \<le> 13)"

fun fromhex_at :: "nat \<Rightarrow> string \<Rightarrow> nat + string" where
  "fromhex_at pos [] = Inr []"
| "fromhex_at pos (c # cs) =
     (if ascii_space c then fromhex_at (pos + 1) cs
      else case hex_val c of
          None \<Rightarrow> Inl pos
        | Some hi \<Rightarrow>
            (case cs of
               [] \<Rightarrow> Inl (pos + 1)
             | d # ds \<Rightarrow>
                 (case hex_val d of
                    None \<Rightarrow> Inl (pos + 1)
                  | Some lo \<Rightarrow>
                      res_bind (fromhex_at (pos + 2) ds) (\<lambda>bs. Inr (char_of (16 * hi + lo) # bs)))))"

definition bytes_fromhex :: "string \<Rightarrow> string + string" where
  "bytes_fromhex s =
     (case (if list_ex (\<lambda>c. (of_char c :: nat) > 127) s
            then Inl (length (takeWhile (\<lambda>c. (of_char c :: nat) \<le> 127) s)) else fromhex_at 0 s) of
        Inl pos \<Rightarrow> Inl (''non-hexadecimal number found in fromhex() arg at position '' @ show_nat pos)
      | Inr bs \<Rightarrow> Inr bs)"

subsection \<open>Claims and tokens\<close>

record ApprovalTokenClaims =
  cl_intent_id :: string
  cl_market_ticker :: string
  cl_outcome :: string
  cl_action :: string
  limit_price_pips :: PricePips
  count_centis :: ContractCentis
  max_fee_micros :: MoneyMicros
  expires_at :: int
  cl_idempotency_key :: string
  config_hash :: string
  kernel_sequence_number :: int

definition DOMAIN_PREFIX :: string where
  "DOMAIN_PREFIX = ''windbreak.approval-token.v1'' @ [CHR 0x00]"

definition TOKEN_SCHEMA_VERSION :: int where "TOKEN_SCHEMA_VERSION = 1"

definition claims_payload :: "ApprovalTokenClaims \<Rightarrow> payload" where
  "claims_payload cl =
     [(''token_schema_version'', JInt TOKEN_SCHEMA_VERSION),
      (''intent_id'', JStr (cl_intent_id cl)),
      (''market_ticker'', JStr (cl_market_ticker cl)),
      (''outcome'', JStr (cl_outcome cl)),
      (''action'', JStr (cl_action cl)),
      (''limit_price_pips'', JInt (val (limit_price_pips cl))),
      (''count_centis'', JInt (val (count_centis cl))),
      (''max_fee_micros'', JInt (val (max_fee_micros cl))),
      (''expires_at'', JInt (expires_at cl)),
      (''idempotency_key'', JStr (cl_idempotency_key cl)),
      (''config_hash'', JStr (config_hash cl)),
      (''kernel_sequence_number'', JInt (kernel_sequence_number cl))]"

definition canonical_claims_bytes :: "ApprovalTokenClaims \<Rightarrow> string" where
  "canonical_claims_bytes cl = DOMAIN_PREFIX @ canonical_json (claims_payload cl)"

record SignedApprovalToken =
  claims :: ApprovalTokenClaims
  signature_hex :: string

record VerificationResult =
  vr_valid :: bool
  vr_reason :: string

type_synonym hmac_fn = "string \<Rightarrow> string \<Rightarrow> string"

subsection \<open>Signing\<close>

definition MIN_KEY_BYTES :: nat where "MIN_KEY_BYTES = 32"

record SigningKeyHandle = signing_key :: string

definition SigningKeyHandle_new :: "string \<Rightarrow> string + SigningKeyHandle" where
  "SigningKeyHandle_new key_material =
     (if length key_material < MIN_KEY_BYTES
      then Inl (''signing key must be at least 32 bytes, got '' @ show_nat (length key_material))
      else Inr \<lparr>signing_key = key_material\<rparr>)"

definition SigningKeyHandle_from_env ::
    "(string, string) pydict \<Rightarrow> string \<Rightarrow> string + SigningKeyHandle" where
  "SigningKeyHandle_from_env environ var =
     (case dict_get environ var of
        None \<Rightarrow> Inl (''missing environment variable '' @ var)
      | Some raw \<Rightarrow>
          (case bytes_fromhex raw of
             Inl _ \<Rightarrow> Inl (var @ '' is not valid hex'')
           | Inr key_material \<Rightarrow> SigningKeyHandle_new key_material))"

definition sign :: "hmac_fn \<Rightarrow> SigningKeyHandle \<Rightarrow> string \<Rightarrow> string" where
  "sign hmac h message = hmac (signing_key h) message"

definition DEFAULT_TOKEN_TTL_SECONDS :: int where "DEFAULT_TOKEN_TTL_SECONDS = 60"

definition issue :: "hmac_fn \<Rightarrow> SigningKeyHandle \<Rightarrow> ApprovalTokenClaims \<Rightarrow> SignedApprovalToken" where
  "issue hmac h cl =
     \<lparr>claims = cl, signature_hex = bytes_hex (sign hmac h (canonical_claims_bytes cl))\<rparr>"

subsection \<open>Verification\<close>

type_synonym 'r consume_fn = "string \<Rightarrow> 'r \<Rightarrow> bool \<times> 'r"

text \<open>\<open>InMemorySingleUseRegistry\<close>: the set of consumed signatures.\<close>

definition registry_consume :: "string set consume_fn" where
  "registry_consume token_signature_hex consumed =
     (if token_signature_hex \<in> consumed then (False, consumed)
      else (True, insert token_signature_hex consumed))"

definition verify_token ::
    "hmac_fn \<Rightarrow> 'r consume_fn \<Rightarrow> SignedApprovalToken \<Rightarrow> string \<Rightarrow> int \<Rightarrow> 'r \<Rightarrow> VerificationResult \<times> 'r" where
  "verify_token hmac consume token key now registry =
     (let expected = hmac key (canonical_claims_bytes (claims token)) in
      case bytes_fromhex (signature_hex token) of
        Inl exc \<Rightarrow> (\<lparr>vr_valid = False, vr_reason = ''verification error: '' @ exc\<rparr>, registry)
      | Inr provided \<Rightarrow>
          (if expected \<noteq> provided then (\<lparr>vr_valid = False, vr_reason = ''signature mismatch''\<rparr>, registry)
           else if now \<ge> expires_at (claims token)
             then (\<lparr>vr_valid = False, vr_reason = ''token expired''\<rparr>, registry)
           else case consume (bytes_hex provided) registry of
               (fresh, registry') \<Rightarrow>
                 (if \<not> fresh then (\<lparr>vr_valid = False, vr_reason = ''token already consumed''\<rparr>, registry')
                  else (\<lparr>vr_valid = True, vr_reason = ''ok''\<rparr>, registry'))))"

datatype VerifyResult = VR_OK | INTENT_MISMATCH | BAD_SIGNATURE | VR_EXPIRED | REPLAYED | VR_REJECTED

definition REASON_TO_RESULT :: "(string, VerifyResult) pydict" where
  "REASON_TO_RESULT =
     [(''signature mismatch'', BAD_SIGNATURE), (''token expired'', VR_EXPIRED),
      (''token already consumed'', REPLAYED)]"

definition intent_matches_claims :: "OrderIntent \<Rightarrow> ApprovalTokenClaims \<Rightarrow> bool" where
  "intent_matches_claims intent cl =
     (intent_id intent = cl_intent_id cl \<and> market_ticker intent = cl_market_ticker cl \<and>
      intent_outcome intent = cl_outcome cl \<and> action intent = cl_action cl \<and>
      val (price intent) = val (limit_price_pips cl) \<and> val (order_size intent) = val (count_centis cl) \<and>
      idempotency_key intent = cl_idempotency_key cl)"

definition verify_and_consume ::
    "hmac_fn \<Rightarrow> 'r consume_fn \<Rightarrow> SignedApprovalToken \<Rightarrow> OrderIntent \<Rightarrow> string \<Rightarrow> int \<Rightarrow> 'r \<Rightarrow> VerifyResult \<times> 'r" where
  "verify_and_consume hmac consume token intent key now registry =
     (if \<not> intent_matches_claims intent (claims token) then (INTENT_MISMATCH, registry)
      else case verify_token hmac consume token key now registry of
        (result, registry') \<Rightarrow>
          (if vr_valid result then (VR_OK, registry')
           else (case dict_get REASON_TO_RESULT (vr_reason result) of
                   None \<Rightarrow> VR_REJECTED | Some r \<Rightarrow> r, registry')))"

text \<open>A gateway handling a sequence of presentations, each a token, an intent and a clock reading.\<close>

fun present_all ::
    "hmac_fn \<Rightarrow> 'r consume_fn \<Rightarrow> string \<Rightarrow> (SignedApprovalToken \<times> OrderIntent \<times> int) list \<Rightarrow> 'r \<Rightarrow>
     VerifyResult list \<times> 'r" where
  "present_all hmac consume key [] registry = ([], registry)"
| "present_all hmac consume key ((token, intent, now) # rest) registry =
     (let (r, registry') = verify_and_consume hmac consume token intent key now registry;
          (rs, registry'') = present_all hmac consume key rest registry'
      in (r # rs, registry''))"

text \<open>The tokens accepted in a run, in order.\<close>

fun accepted_tokens ::
    "(SignedApprovalToken \<times> OrderIntent \<times> int) list \<Rightarrow> VerifyResult list \<Rightarrow> SignedApprovalToken list" where
  "accepted_tokens ((token, intent, now) # ps) (r # rs) =
     (if r = VR_OK then token # accepted_tokens ps rs else accepted_tokens ps rs)"
| "accepted_tokens _ _ = []"

section \<open>Lemmas on hexadecimal text\<close>

lemma hex_val_hex_digit [simp]: "n < 16 \<Longrightarrow> hex_val (hex_digit n) = Some n"
  by (auto simp: hex_val_def hex_digit_def Let_def)

lemma hex_digit_not_space [simp]: "n < 16 \<Longrightarrow> \<not> ascii_space (hex_digit n)"
  by (auto simp: ascii_space_def hex_digit_def)

lemma hex_digit_ascii: "n < 16 \<Longrightarrow> (of_char (hex_digit n) :: nat) \<le> 127"
  by (auto simp: hex_digit_def)

lemma fromhex_at_hex: "fromhex_at pos (bytes_hex bs) = Inr bs"
proof (induction bs arbitrary: pos)
  case (Cons b bs)
  then show ?case
    using of_char_nibble [of b] char_div_mod [of b]
    by (simp add: bytes_hex_def hex_of_byte_def)
qed (simp add: bytes_hex_def)

lemma bytes_hex_ascii: "\<not> list_ex (\<lambda>c. (of_char c :: nat) > 127) (bytes_hex bs)"
proof (induction bs)
  case (Cons b bs)
  then show ?case
    using of_char_nibble [of b] hex_digit_ascii [of "of_char b div 16"] hex_digit_ascii [of "of_char b mod 16"]
    by (simp add: bytes_hex_def hex_of_byte_def)
qed (simp add: bytes_hex_def)

lemma fromhex_hex [simp]: "bytes_fromhex (bytes_hex bs) = Inr bs"
  using bytes_hex_ascii [of bs] by (simp add: bytes_fromhex_def fromhex_at_hex)

lemma bytes_hex_inj: "bytes_hex a = bytes_hex b \<longleftrightarrow> a = b"
  by (metis fromhex_hex sum.inject(2))

section \<open>Lemmas on claims\<close>

lemma claims_payload_wf: "dict_wf (claims_payload cl)"
  by (simp add: dict_wf_def claims_payload_def)

lemma claims_payload_get:
  "dict_get (claims_payload cl) ''intent_id'' = Some (JStr (cl_intent_id cl))"
  "dict_get (claims_payload cl) ''market_ticker'' = Some (JStr (cl_market_ticker cl))"
  "dict_get (claims_payload cl) ''outcome'' = Some (JStr (cl_outcome cl))"
  "dict_get (claims_payload cl) ''action'' = Some (JStr (cl_action cl))"
  "dict_get (claims_payload cl) ''limit_price_pips'' = Some (JInt (val (limit_price_pips cl)))"
  "dict_get (claims_payload cl) ''count_centis'' = Some (JInt (val (count_centis cl)))"
  "dict_get (claims_payload cl) ''max_fee_micros'' = Some (JInt (val (max_fee_micros cl)))"
  "dict_get (claims_payload cl) ''expires_at'' = Some (JInt (expires_at cl))"
  "dict_get (claims_payload cl) ''idempotency_key'' = Some (JStr (cl_idempotency_key cl))"
  "dict_get (claims_payload cl) ''config_hash'' = Some (JStr (config_hash cl))"
  "dict_get (claims_payload cl) ''kernel_sequence_number'' = Some (JInt (kernel_sequence_number cl))"
  by (simp_all add: dict_get_def claims_payload_def)

lemma canonical_claims_bytes_inj: "canonical_claims_bytes a = canonical_claims_bytes b \<longleftrightarrow> a = b"
proof
  assume "canonical_claims_bytes a = canonical_claims_bytes b"
  then have "canonical_json (claims_payload a) = canonical_json (claims_payload b)"
    by (simp add: canonical_claims_bytes_def)
  then have get: "map_option json_canon (dict_get (claims_payload a) k)
      = map_option json_canon (dict_get (claims_payload b) k)" for k
    by (simp add: canonical_json_eq_iff [OF claims_payload_wf claims_payload_wf])
  show "a = b"
    using get [of "''intent_id''"] get [of "''market_ticker''"] get [of "''outcome''"] get [of "''action''"]
      get [of "''limit_price_pips''"] get [of "''count_centis''"] get [of "''max_fee_micros''"]
      get [of "''expires_at''"] get [of "''idempotency_key''"] get [of "''config_hash''"]
      get [of "''kernel_sequence_number''"]
    unfolding claims_payload_get by (simp add: unit_eq_iff ApprovalTokenClaims.equality)
qed simp

section \<open>The single-use registry interface\<close>

locale single_use_registry =
  fixes consume :: "'r consume_fn" and used :: "'r \<Rightarrow> string set"
  assumes consume_new: "s \<notin> used r \<Longrightarrow> fst (consume s r) \<and> used (snd (consume s r)) = insert s (used r)"
    and consume_old: "s \<in> used r \<Longrightarrow> consume s r = (False, r)"
begin

lemma consume_cases:
  obtains "s \<in> used r" "consume s r = (False, r)"
    | r' where "s \<notin> used r" "consume s r = (True, r')" "used r' = insert s (used r)"
  using consume_new [of s r] consume_old [of s r] by (cases "s \<in> used r"; cases "consume s r") auto

lemma verify_token_valid_iff:
  "vr_valid (fst (verify_token hmac consume t key now r)) \<longleftrightarrow>
     bytes_fromhex (signature_hex t) = Inr (hmac key (canonical_claims_bytes (claims t))) \<and>
     now < expires_at (claims t) \<and> bytes_hex (hmac key (canonical_claims_bytes (claims t))) \<notin> used r"
  by (cases rule: consume_cases [of "bytes_hex (hmac key (canonical_claims_bytes (claims t)))" r])
    (auto simp: verify_token_def Let_def split: sum.splits)

lemma verify_token_used:
  "used (snd (verify_token hmac consume t key now r)) =
     (if vr_valid (fst (verify_token hmac consume t key now r))
      then insert (bytes_hex (hmac key (canonical_claims_bytes (claims t)))) (used r) else used r)"
  by (cases rule: consume_cases [of "bytes_hex (hmac key (canonical_claims_bytes (claims t)))" r])
    (auto simp: verify_token_def Let_def split: sum.splits)

lemma verify_token_invalid_keeps:
  "\<not> vr_valid (fst (verify_token hmac consume t key now r)) \<Longrightarrow> snd (verify_token hmac consume t key now r) = r"
  by (cases rule: consume_cases [of "bytes_hex (hmac key (canonical_claims_bytes (claims t)))" r])
    (auto simp: verify_token_def Let_def split: sum.splits if_splits)

lemma dict_reason_not_ok: "dict_get REASON_TO_RESULT rs \<noteq> Some VR_OK"
  by (simp add: REASON_TO_RESULT_def dict_get_def)

lemma verify_and_consume_ok_iff:
  "fst (verify_and_consume hmac consume t i key now r) = VR_OK \<longleftrightarrow>
     intent_matches_claims i (claims t) \<and>
     bytes_fromhex (signature_hex t) = Inr (hmac key (canonical_claims_bytes (claims t))) \<and>
     now < expires_at (claims t) \<and> bytes_hex (hmac key (canonical_claims_bytes (claims t))) \<notin> used r"
  using verify_token_valid_iff [of hmac t key now r] dict_reason_not_ok
  by (auto simp: verify_and_consume_def split: prod.splits option.splits)

lemma verify_and_consume_used:
  "used (snd (verify_and_consume hmac consume t i key now r)) =
     (if fst (verify_and_consume hmac consume t i key now r) = VR_OK
      then insert (bytes_hex (hmac key (canonical_claims_bytes (claims t)))) (used r) else used r)"
  using verify_token_used [of hmac t key now r] dict_reason_not_ok
  by (auto simp: verify_and_consume_def split: prod.splits option.splits)

lemma verify_and_consume_not_ok_keeps:
  "fst (verify_and_consume hmac consume t i key now r) \<noteq> VR_OK \<Longrightarrow>
   snd (verify_and_consume hmac consume t i key now r) = r"
  using verify_token_invalid_keeps [of hmac t key now r]
  by (auto simp: verify_and_consume_def split: prod.splits if_splits)

lemma present_all_single_use:
  "distinct (map (\<lambda>t. hmac key (canonical_claims_bytes (claims t)))
      (accepted_tokens ps (fst (present_all hmac consume key ps r))))
   \<and> (\<forall>t \<in> set (accepted_tokens ps (fst (present_all hmac consume key ps r))).
        bytes_hex (hmac key (canonical_claims_bytes (claims t))) \<notin> used r)"
proof (induction ps arbitrary: r)
  case (Cons p ps)
  obtain t i now where p: "p = (t, i, now)" by (cases p)
  define v where "v = verify_and_consume hmac consume t i key now r"
  note IH = Cons.IH [of "snd v"]
  have pa: "fst (present_all hmac consume key (p # ps) r) = fst v # fst (present_all hmac consume key ps (snd v))"
    by (simp add: p v_def split: prod.splits)
  show ?case
  proof (cases "fst v = VR_OK")
    case True
    then have "bytes_hex (hmac key (canonical_claims_bytes (claims t))) \<notin> used r"
      and "used (snd v) = insert (bytes_hex (hmac key (canonical_claims_bytes (claims t)))) (used r)"
      using verify_and_consume_ok_iff [of hmac t i key now r] verify_and_consume_used [of hmac t i key now r]
      by (simp_all add: v_def)
    with IH True show ?thesis unfolding pa by (auto simp: p bytes_hex_inj)
  next
    case False
    then have "snd v = r" using verify_and_consume_not_ok_keeps [of hmac t i key now r] by (simp add: v_def)
    with IH False show ?thesis unfolding pa by (simp add: p)
  qed
qed simp

end

interpretation mem_registry: single_use_registry registry_consume id
  by unfold_locales (simp_all add: registry_consume_def)

section \<open>Properties\<close>

text \<open>The bytes a token is signed over determine all eleven claims: two claim sets encode to the
  same bytes only when they are equal, whatever characters their strings contain.\<close>

theorem claims_encoding_injective: "canonical_claims_bytes a = canonical_claims_bytes b \<longleftrightarrow> a = b"
  by (rule canonical_claims_bytes_inj)

text \<open>The exact acceptance condition at the gateway, for any tag function: a presentation is
  accepted if and only if the intent agrees with the claims in all seven compared fields, the signature
  decodes to the tag of the encoded claims, the token is not expired and its tag was not consumed
  before; acceptance consumes the tag, and every other outcome leaves the registry as it was.\<close>

theorem gateway_acceptance_exact:
  "(fst (verify_and_consume hmac registry_consume t i key now r) = VR_OK) =
     (intent_id i = cl_intent_id (claims t) \<and> market_ticker i = cl_market_ticker (claims t) \<and>
      intent_outcome i = cl_outcome (claims t) \<and> action i = cl_action (claims t) \<and>
      price i = limit_price_pips (claims t) \<and> order_size i = count_centis (claims t) \<and>
      idempotency_key i = cl_idempotency_key (claims t) \<and>
      bytes_fromhex (signature_hex t) = Inr (hmac key (canonical_claims_bytes (claims t))) \<and>
      now < expires_at (claims t) \<and> bytes_hex (hmac key (canonical_claims_bytes (claims t))) \<notin> r)
   \<and> snd (verify_and_consume hmac registry_consume t i key now r) =
     (if fst (verify_and_consume hmac registry_consume t i key now r) = VR_OK
      then insert (bytes_hex (hmac key (canonical_claims_bytes (claims t)))) r else r)"
  using mem_registry.verify_and_consume_ok_iff [of hmac t i key now r]
    mem_registry.verify_and_consume_used [of hmac t i key now r]
  by (simp add: intent_matches_claims_def unit_eq_iff)

text \<open>Single use over any run of the gateway: among the accepted presentations of any sequence of
  tokens, intents and clock readings, no tag and hence no set of claims occurs twice, also when a
  signature is re-spelled in upper case or with whitespace.\<close>

theorem gateway_single_use:
  "distinct (map (\<lambda>t. hmac key (canonical_claims_bytes (claims t)))
      (accepted_tokens ps (fst (present_all hmac registry_consume key ps r))))
   \<and> distinct (map claims (accepted_tokens ps (fst (present_all hmac registry_consume key ps r))))"
proof -
  let ?l = "accepted_tokens ps (fst (present_all hmac registry_consume key ps r))"
  have d: "distinct (map (\<lambda>t. hmac key (canonical_claims_bytes (claims t))) ?l)"
    using mem_registry.present_all_single_use [of hmac key ps r] by blast
  then have "distinct (map (\<lambda>c. hmac key (canonical_claims_bytes c)) (map claims ?l))" by (simp add: o_def)
  then have "distinct (map claims ?l)" by (simp only: distinct_map)
  with d show ?thesis by blast
qed

text \<open>Issue and verify round trip: a token minted by the kernel's issuer is accepted by the
  gateway under the same key before its expiry, for the intent it was minted for, the first time; any
  later presentation of it, at any time and with any intent, is refused.\<close>

theorem issued_token_accepted_once:
  assumes "SigningKeyHandle_new key = Inr h" and "intent_matches_claims i cl" and "now < expires_at cl"
    and "bytes_hex (hmac key (canonical_claims_bytes cl)) \<notin> r"
  shows "fst (verify_and_consume hmac registry_consume (issue hmac h cl) i key now r) = VR_OK \<and>
    fst (verify_and_consume hmac registry_consume (issue hmac h cl) i' key now'
      (snd (verify_and_consume hmac registry_consume (issue hmac h cl) i key now r))) \<noteq> VR_OK"
proof -
  have k: "signing_key h = key" using assms(1) by (auto simp: SigningKeyHandle_new_def split: if_splits)
  show ?thesis
    using assms(2-4) k mem_registry.verify_and_consume_used [of hmac "issue hmac h cl" i key now r]
    by (simp add: mem_registry.verify_and_consume_ok_iff issue_def sign_def)
qed

theorem issued_token_accepted_once_witness:
  "fst (verify_and_consume (\<lambda>k m. k) registry_consume
     (issue (\<lambda>k m. k) \<lparr>signing_key = replicate 32 CHR ''k''\<rparr>
        \<lparr>cl_intent_id = ''i1'', cl_market_ticker = ''T'', cl_outcome = ''yes'', cl_action = ''buy'',
         limit_price_pips = IntUnit 4500, count_centis = IntUnit 300, max_fee_micros = IntUnit 60000,
         expires_at = 1060, cl_idempotency_key = ''k1'', config_hash = ''c'', kernel_sequence_number = 1\<rparr>)
     sample_intent (replicate 32 CHR ''k'') 1000 {}) = VR_OK"
proof -
  let ?cl = "\<lparr>cl_intent_id = ''i1'', cl_market_ticker = ''T'', cl_outcome = ''yes'', cl_action = ''buy'',
         limit_price_pips = IntUnit 4500, count_centis = IntUnit 300, max_fee_micros = IntUnit 60000,
         expires_at = 1060, cl_idempotency_key = ''k1'', config_hash = ''c'', kernel_sequence_number = 1\<rparr>"
  have "SigningKeyHandle_new (replicate 32 CHR ''k'') = Inr \<lparr>signing_key = replicate 32 CHR ''k''\<rparr>"
    by (simp add: SigningKeyHandle_new_def MIN_KEY_BYTES_def)
  moreover have "intent_matches_claims sample_intent ?cl"
    by (simp add: intent_matches_claims_def sample_intent_def)
  ultimately show ?thesis
    using issued_token_accepted_once [of "replicate 32 CHR ''k''" _ sample_intent ?cl 1000 "\<lambda>k m. k" "{}"]
    by auto
qed

end
