(* ===== verification/Reservations.thy ===== *)
theory Reservations
  imports Tokens
begin

text \<open>
  Capital reservations and the approval pipeline (\<open>windbreak/riskkernel/reservations.py\<close>). The ledger
  is a record of the active reservations (a dict in insertion order), the ids and keys ever seen, the
  sequence counter and the events written through its writer, in order. Its lock serialises every
  operation, so an operation is a function of the ledger; \<open>approve\<close> holds the lock from the stamping
  of the context to the issue of the token and is one function here.
\<close>

section \<open>Definitions\<close>

subsection \<open>The reservation ledger\<close>

record Reservation =
  res_intent_id :: string
  amount :: MoneyMicros
  res_idempotency_key :: string
  res_expires_at :: int
  sequence_number :: int

record ReservationLedger =
  active :: "(string, Reservation) pydict"
  seen_intent_ids :: "string set"
  seen_idempotency_keys :: "string set"
  sequence :: int
  res_log :: event_log

datatype reservation_error =
    DuplicateReservationError string
  | AdjustValueError string
  | UncaughtUnprovableCostError

definition RISKKERNEL_COMPONENT :: string where "RISKKERNEL_COMPONENT = ''riskkernel''"
definition RES_PAYLOAD_SCHEMA_VERSION :: int where "RES_PAYLOAD_SCHEMA_VERSION = 1"
definition RESERVATION_CREATED_EVENT :: string where "RESERVATION_CREATED_EVENT = ''ReservationCreated''"
definition RESERVATION_RELEASED_EVENT :: string where "RESERVATION_RELEASED_EVENT = ''ReservationReleased''"
definition RESERVATION_ADJUSTED_EVENT :: string where "RESERVATION_ADJUSTED_EVENT = ''ReservationAdjusted''"
definition APPROVAL_ISSUED_EVENT :: string where "APPROVAL_ISSUED_EVENT = ''ApprovalTokenIssued''"

definition ReservationLedger_new :: "event_log \<Rightarrow> ReservationLedger" where
  "ReservationLedger_new evs =
     \<lparr>active = [], seen_intent_ids = {}, seen_idempotency_keys = {}, sequence = 0, res_log = evs\<rparr>"

definition res_record :: "string \<Rightarrow> payload \<Rightarrow> ReservationLedger \<Rightarrow> ReservationLedger" where
  "res_record etype pl led =
     led\<lparr>res_log := log_record \<lparr>event_type = etype, component = RISKKERNEL_COMPONENT,
            payload_schema_version = RES_PAYLOAD_SCHEMA_VERSION, payload = pl\<rparr> (res_log led)\<rparr>"

definition reserve ::
    "string \<Rightarrow> MoneyMicros \<Rightarrow> string \<Rightarrow> int \<Rightarrow> ReservationLedger \<Rightarrow>
     reservation_error + (Reservation \<times> ReservationLedger)" where
  "reserve iid amt key expiry led =
     (if iid \<in> seen_intent_ids led
      then Inl (DuplicateReservationError (''intent id already reserved: '' @ iid))
      else if key \<in> seen_idempotency_keys led
        then Inl (DuplicateReservationError (''idempotency key already reserved: '' @ key))
      else
        (let n = sequence led + 1;
             reservation = \<lparr>res_intent_id = iid, amount = amt, res_idempotency_key = key,
                            res_expires_at = expiry, sequence_number = n\<rparr>;
             led' = led\<lparr>sequence := n, active := dict_set iid reservation (active led),
                        seen_intent_ids := insert iid (seen_intent_ids led),
                        seen_idempotency_keys := insert key (seen_idempotency_keys led)\<rparr>
         in Inr (reservation,
              res_record RESERVATION_CREATED_EVENT
                [(''intent_id'', JStr iid), (''amount'', JInt (val amt)), (''idempotency_key'', JStr key),
                 (''expires_at'', JInt expiry), (''sequence_number'', JInt (sequence_number reservation))] led')))"

definition release_locked :: "string \<Rightarrow> string \<Rightarrow> ReservationLedger \<Rightarrow> ReservationLedger" where
  "release_locked iid rsn led =
     res_record RESERVATION_RELEASED_EVENT [(''intent_id'', JStr iid), (''reason'', JStr rsn)]
       (led\<lparr>active := dict_pop iid (active led)\<rparr>)"

definition release :: "string \<Rightarrow> string \<Rightarrow> ReservationLedger \<Rightarrow> ReservationLedger" where
  "release iid rsn led = release_locked iid rsn led"

definition release_all_active :: "string \<Rightarrow> ReservationLedger \<Rightarrow> ReservationLedger" where
  "release_all_active rsn led = fold (\<lambda>iid l. release_locked iid rsn l) (map fst (active led)) led"

definition adjust :: "string \<Rightarrow> MoneyMicros \<Rightarrow> ReservationLedger \<Rightarrow> reservation_error + ReservationLedger" where
  "adjust iid remaining led =
     (case dict_get (active led) iid of
        None \<Rightarrow> Inl (AdjustValueError (''no active reservation for '' @ iid))
      | Some reservation \<Rightarrow>
          (if \<not> (0 < val remaining \<and> val remaining < val (amount reservation))
           then Inl (AdjustValueError (''adjust for '' @ iid @ '' must strictly decrease '' @
                  show_int (val (amount reservation)) @ '' to a positive amount, got '' @
                  show_int (val remaining)))
           else Inr (res_record RESERVATION_ADJUSTED_EVENT
                  [(''intent_id'', JStr iid), (''remaining_amount'', JInt (val remaining))]
                  (led\<lparr>active := dict_set iid (reservation\<lparr>amount := remaining\<rparr>) (active led)\<rparr>))))"

definition expire_due :: "int \<Rightarrow> ReservationLedger \<Rightarrow> ReservationLedger" where
  "expire_due now led =
     (let due = map res_intent_id (filter (\<lambda>r. res_expires_at r \<le> now) (map snd (active led)))
      in fold (\<lambda>iid l. release_locked iid ''expired'' l) due led)"

definition total_reserved :: "ReservationLedger \<Rightarrow> MoneyMicros" where
  "total_reserved led = IntUnit (\<Sum>(_, r) \<leftarrow> active led. val (amount r))"

subsection \<open>The approval pipeline\<close>

record ApprovalOutcome =
  decision :: Decision
  token :: "SignedApprovalToken option"

record ApprovalPipeline =
  issuer_handle :: SigningKeyHandle
  ttl_seconds :: int
  pipeline_config_hash :: string

definition effective_context :: "ReservationLedger \<Rightarrow> EvaluationContext \<Rightarrow> EvaluationContext" where
  "effective_context led ctx =
     ctx\<lparr>account := (account ctx)\<lparr>pending_kernel_reservations := total_reserved led\<rparr>,
         used_intent_ids := seen_intent_ids led,
         used_idempotency_keys := seen_idempotency_keys led\<rparr>"

definition reserve_and_issue ::
    "hmac_fn \<Rightarrow> ApprovalPipeline \<Rightarrow> OrderIntent \<Rightarrow> EvaluationContext \<Rightarrow> Decision \<Rightarrow> ReservationLedger \<Rightarrow>
     reservation_error + (ApprovalOutcome \<times> ReservationLedger)" where
  "reserve_and_issue hmac pl intent ctx dec led =
     (case order_cost intent ctx of
        Inl UnprovableCostError \<Rightarrow> Inl UncaughtUnprovableCostError
      | Inr amt \<Rightarrow>
          (let notional = projr (money_from_price_and_count (price intent) (order_size intent) OVERSTATE_COST);
               max_fee = amt - notional - rounding_buffer (limits ctx);
               expiry = now_epoch_s ctx + ttl_seconds pl
           in res_bind (reserve (intent_id intent) amt (idempotency_key intent) expiry led)
                (\<lambda>(reservation, led').
                   let cl = \<lparr>cl_intent_id = intent_id intent, cl_market_ticker = market_ticker intent,
                             cl_outcome = intent_outcome intent, cl_action = action intent,
                             limit_price_pips = price intent, count_centis = order_size intent,
                             max_fee_micros = max_fee, expires_at = expiry,
                             cl_idempotency_key = idempotency_key intent,
                             config_hash = pipeline_config_hash pl,
                             kernel_sequence_number = sequence_number reservation\<rparr>;
                       tok = issue hmac (issuer_handle pl) cl
                   in Inr (\<lparr>decision = dec, token = Some tok\<rparr>,
                        res_record APPROVAL_ISSUED_EVENT
                          [(''intent_id'', JStr (intent_id intent)),
                           (''sequence_number'', JInt (sequence_number reservation)),
                           (''expires_at'', JInt expiry)] led'))))"

definition approve_intent ::
    "hmac_fn \<Rightarrow> ApprovalPipeline \<Rightarrow> OrderIntent \<Rightarrow> EvaluationContext \<Rightarrow> ReservationLedger \<Rightarrow>
     reservation_error + (ApprovalOutcome \<times> ReservationLedger)" where
  "approve_intent hmac pl intent ctx led =
     (let effective = effective_context led ctx;
          dec = evaluate_intent intent effective DEFAULT_CHECKS
      in if dec_vetoed dec then Inr (\<lparr>decision = dec, token = None\<rparr>, led)
         else reserve_and_issue hmac pl intent effective dec led)"

text \<open>One command of a run against the ledger; an operation that raises leaves the ledger as it was.\<close>

datatype ledger_cmd =
    Reserve string MoneyMicros string int
  | Release string string
  | ReleaseAllActive string
  | Adjust string MoneyMicros
  | ExpireDue int
  | Approve OrderIntent EvaluationContext

fun ledger_exec :: "hmac_fn \<Rightarrow> ApprovalPipeline \<Rightarrow> ReservationLedger \<Rightarrow> ledger_cmd \<Rightarrow> ReservationLedger" where
  "ledger_exec hmac pl led (Reserve iid amt key expiry) =
     (case reserve iid amt key expiry led of Inl _ \<Rightarrow> led | Inr (_, led') \<Rightarrow> led')"
| "ledger_exec hmac pl led (Release iid rsn) = release iid rsn led"
| "ledger_exec hmac pl led (ReleaseAllActive rsn) = release_all_active rsn led"
| "ledger_exec hmac pl led (Adjust iid amt) = (case adjust iid amt led of Inl _ \<Rightarrow> led | Inr led' \<Rightarrow> led')"
| "ledger_exec hmac pl led (ExpireDue now) = expire_due now led"
| "ledger_exec hmac pl led (Approve intent ctx) =
     (case approve_intent hmac pl intent ctx led of Inl _ \<Rightarrow> led | Inr (_, led') \<Rightarrow> led')"

text \<open>The ledger's well-formedness: reservations are filed under their own id, remembered, numbered
  within the counter and never share a number.\<close>

definition ledger_inv :: "ReservationLedger \<Rightarrow> bool" where
  "ledger_inv led =
     (dict_wf (active led) \<and>
      (\<forall>(k, r) \<in> set (active led).
         res_intent_id r = k \<and> k \<in> seen_intent_ids led \<and>
         res_idempotency_key r \<in> seen_idempotency_keys led \<and>
         1 \<le> sequence_number r \<and> sequence_number r \<le> sequence led) \<and>
      inj_on sequence_number (snd ` set (active led)) \<and> 0 \<le> sequence led)"

text \<open>What every operation may only grow: the ids and keys seen, the counter and the log.\<close>

definition ledger_le :: "ReservationLedger \<Rightarrow> ReservationLedger \<Rightarrow> bool" where
  "ledger_le a b =
     (seen_intent_ids a \<subseteq> seen_intent_ids b \<and> seen_idempotency_keys a \<subseteq> seen_idempotency_keys b \<and>
      sequence a \<le> sequence b \<and> prefix (res_log a) (res_log b))"

text \<open>The tokens issued in a run of commands, in order.\<close>

fun issued_tokens ::
    "hmac_fn \<Rightarrow> ApprovalPipeline \<Rightarrow> ReservationLedger \<Rightarrow> ledger_cmd list \<Rightarrow> SignedApprovalToken list" where
  "issued_tokens hmac pl led [] = []"
| "issued_tokens hmac pl led (c # cs) =
     (case c of
        Approve intent ctx \<Rightarrow>
          (case approve_intent hmac pl intent ctx led of
             Inr (out, _) \<Rightarrow> (case token out of Some t \<Rightarrow> [t] | None \<Rightarrow> [])
           | Inl _ \<Rightarrow> [])
      | _ \<Rightarrow> []) @ issued_tokens hmac pl (ledger_exec hmac pl led c) cs"

text \<open>Worst-case equity before reservations are taken off.\<close>

definition unreserved_equity :: "AccountState \<Rightarrow> int" where
  "unreserved_equity a =
     val (exchange_verified_available_cash a) + val (guaranteed_terminal_value_of_positions a)
       - val (unresolved_fee_upper_bounds a) - val (reconciliation_uncertainty_buffer a)"

definition amounts_nonneg :: "ReservationLedger \<Rightarrow> bool" where
  "amounts_nonneg led = (\<forall>(k, r) \<in> set (active led). 0 \<le> val (amount r))"

text \<open>Commands of a run in which capital is taken only by approved buys whose context has at most
  \<open>headroom\<close> between worst-case equity and the floor.\<close>

fun cmd_within :: "int \<Rightarrow> ledger_cmd \<Rightarrow> bool" where
  "cmd_within headroom (Approve intent ctx) =
     (action intent = ''buy'' \<and> 0 \<le> order_cost_val intent ctx \<and>
      unreserved_equity (account ctx) - val (limits_floor (limits ctx)) \<le> headroom)"
| "cmd_within headroom (Reserve _ _ _ _) = False"
| "cmd_within headroom _ = True"

text \<open>The claims an approval signs, with the fee cap read off the two fee bounds.\<close>

definition approval_claims :: "ApprovalPipeline \<Rightarrow> OrderIntent \<Rightarrow> EvaluationContext \<Rightarrow> int \<Rightarrow> ApprovalTokenClaims" where
  "approval_claims pl i c n =
     \<lparr>cl_intent_id = intent_id i, cl_market_ticker = market_ticker i, cl_outcome = intent_outcome i,
      cl_action = action i, limit_price_pips = price i, count_centis = order_size i,
      max_fee_micros = the (max_trading_fee (fees c)) + the (max_settlement_fee (fees c)),
      expires_at = now_epoch_s c + ttl_seconds pl, cl_idempotency_key = idempotency_key i,
      config_hash = pipeline_config_hash pl, kernel_sequence_number = n\<rparr>"

definition sample_pipeline :: ApprovalPipeline where
  "sample_pipeline = \<lparr>issuer_handle = \<lparr>signing_key = replicate 32 CHR ''k''\<rparr>, ttl_seconds = 60,
     pipeline_config_hash = ''c''\<rparr>"

section \<open>Lemmas\<close>

lemma res_record_simps [simp]:
  "active (res_record e p l) = active l" "seen_intent_ids (res_record e p l) = seen_intent_ids l"
  "seen_idempotency_keys (res_record e p l) = seen_idempotency_keys l"
  "sequence (res_record e p l) = sequence l" "prefix (res_log l) (res_log (res_record e p l))"
  by (simp_all add: res_record_def)

lemma total_reserved_record [simp]: "total_reserved (res_record e p l) = total_reserved l"
  by (simp add: total_reserved_def)

lemma release_locked_simps [simp]:
  "active (release_locked k r l) = dict_pop k (active l)"
  "seen_intent_ids (release_locked k r l) = seen_intent_ids l"
  "seen_idempotency_keys (release_locked k r l) = seen_idempotency_keys l"
  "sequence (release_locked k r l) = sequence l" "prefix (res_log l) (res_log (release_locked k r l))"
  by (simp_all add: release_locked_def res_record_def)

lemma fold_release_active: "active (fold (\<lambda>k l. release_locked k r l) ks l) = fold dict_pop ks (active l)"
  by (induction ks arbitrary: l) simp_all

lemma release_le: "ledger_le l (release_locked k r l)"
  by (simp add: ledger_le_def)

lemma ledger_le_refl: "ledger_le l l"
  by (simp add: ledger_le_def)

lemma ledger_le_trans: "ledger_le a b \<Longrightarrow> ledger_le b c \<Longrightarrow> ledger_le a c"
  by (auto simp: ledger_le_def intro: prefix_order.trans)

lemma fold_release_le: "ledger_le l (fold (\<lambda>k l. release_locked k r l) ks l)"
  by (induction ks arbitrary: l) (auto intro: ledger_le_refl ledger_le_trans release_le)

lemma reserve_Inr_iff:
  "reserve iid amt key expiry led = Inr (r, led') \<longleftrightarrow>
     iid \<notin> seen_intent_ids led \<and> key \<notin> seen_idempotency_keys led \<and>
     r = \<lparr>res_intent_id = iid, amount = amt, res_idempotency_key = key, res_expires_at = expiry,
          sequence_number = sequence led + 1\<rparr> \<and>
     led' = res_record RESERVATION_CREATED_EVENT
       [(''intent_id'', JStr iid), (''amount'', JInt (val amt)), (''idempotency_key'', JStr key),
        (''expires_at'', JInt expiry), (''sequence_number'', JInt (sequence led + 1))]
       (led\<lparr>sequence := sequence led + 1, active := dict_set iid r (active led),
            seen_intent_ids := insert iid (seen_intent_ids led),
            seen_idempotency_keys := insert key (seen_idempotency_keys led)\<rparr>)"
  by (auto simp: reserve_def Let_def)

subsection \<open>The invariant\<close>

lemma ledger_inv_record [simp]: "ledger_inv (res_record e p l) = ledger_inv l"
  by (simp add: ledger_inv_def)

lemma ledger_inv_shrink:
  assumes "ledger_inv l" and "dict_wf (active l')" and "set (active l') \<subseteq> set (active l)"
    and "seen_intent_ids l' = seen_intent_ids l" and "seen_idempotency_keys l' = seen_idempotency_keys l"
    and "sequence l' = sequence l"
  shows "ledger_inv l'"
proof -
  have "inj_on sequence_number (snd ` set (active l'))"
    using assms(1,3) by (auto simp: ledger_inv_def intro: inj_on_subset)
  with assms show ?thesis by (auto simp: ledger_inv_def)
qed

lemma ledger_inv_release: "ledger_inv l \<Longrightarrow> ledger_inv (release_locked k r l)"
  by (rule ledger_inv_shrink) (auto simp: set_dict_pop ledger_inv_def dict.wf_pop)

lemma ledger_inv_releases: "ledger_inv l \<Longrightarrow> ledger_inv (fold (\<lambda>k l. release_locked k r l) ks l)"
  by (induction ks arbitrary: l) (auto intro: ledger_inv_release)

lemma ledger_inv_reserve:
  assumes "ledger_inv led" and "reserve iid amt key expiry led = Inr (r, led')"
  shows "ledger_inv led'"
proof -
  from assms(2) have fresh: "iid \<notin> seen_intent_ids led"
    and r: "r = \<lparr>res_intent_id = iid, amount = amt, res_idempotency_key = key, res_expires_at = expiry,
          sequence_number = sequence led + 1\<rparr>"
    and led': "active led' = dict_set iid r (active led)" "sequence led' = sequence led + 1"
      "seen_intent_ids led' = insert iid (seen_intent_ids led)"
      "seen_idempotency_keys led' = insert key (seen_idempotency_keys led)"
    unfolding reserve_Inr_iff by simp_all
  have filed: "res_intent_id x = k \<and> k \<in> seen_intent_ids led \<and> res_idempotency_key x \<in> seen_idempotency_keys led \<and>
      1 \<le> sequence_number x \<and> sequence_number x \<le> sequence led" if "(k, x) \<in> set (active led)" for k x
    using assms(1) that by (auto simp: ledger_inv_def)
  have pos: "0 \<le> sequence led" using assms(1) by (simp add: ledger_inv_def)
  from assms(1) have old: "\<forall>x \<in> snd ` set (active led). sequence_number x \<le> sequence led"
    and inj: "inj_on sequence_number (snd ` set (active led))" and wf: "dict_wf (active led)"
    by (auto simp: ledger_inv_def)
  have "iid \<notin> fst ` set (active led)" using assms(1) fresh by (force simp: ledger_inv_def)
  then have act: "active led' = active led @ [(iid, r)]" using led'(1) by (simp add: dict_set_fresh)
  have "inj_on sequence_number (snd ` set (active led'))"
    using inj old by (auto simp: act r)
  moreover have "dict_wf (active led')" using wf led'(1) by (simp add: dict.wf_set)
  moreover have "\<forall>(k, x) \<in> set (active led').
      res_intent_id x = k \<and> k \<in> seen_intent_ids led' \<and> res_idempotency_key x \<in> seen_idempotency_keys led' \<and>
      1 \<le> sequence_number x \<and> sequence_number x \<le> sequence led'"
    using pos by (auto simp: act r led' dest!: filed)
  ultimately show ?thesis using pos led'(2) by (simp add: ledger_inv_def)
qed

lemma ledger_inv_adjust:
  assumes "ledger_inv led" and "adjust iid amt led = Inr led'"
  shows "ledger_inv led'"
proof -
  from assms(2) obtain x where x: "dict_get (active led) iid = Some x"
    and act: "active led' = dict_set iid (x\<lparr>amount := amt\<rparr>) (active led)"
    and rest: "sequence led' = sequence led" "seen_intent_ids led' = seen_intent_ids led"
      "seen_idempotency_keys led' = seen_idempotency_keys led"
    by (auto simp: adjust_def split: option.splits if_splits)
  have wf: "dict_wf (active led)" using assms(1) by (simp add: ledger_inv_def)
  have mem: "(iid, x) \<in> set (active led)" using x by (rule dict_get_in_values)
  have set': "set (active led') = insert (iid, x\<lparr>amount := amt\<rparr>) {p \<in> set (active led). fst p \<noteq> iid}"
    unfolding act by (rule set_dict_set [OF wf])
  have inj: "inj_on sequence_number (snd ` set (active led))" using assms(1) by (simp add: ledger_inv_def)
  have other: "sequence_number y \<noteq> sequence_number x" if "(k, y) \<in> set (active led)" "k \<noteq> iid" for k y
  proof
    assume "sequence_number y = sequence_number x"
    moreover have "y \<in> snd ` set (active led)" "x \<in> snd ` set (active led)" using that(1) mem by force+
    ultimately have "y = x" using inj by (auto dest: inj_onD)
    moreover have "res_intent_id y = k" "res_intent_id x = iid"
      using assms(1) that(1) mem by (auto simp: ledger_inv_def)
    ultimately show False using that(2) by simp
  qed
  have "inj_on sequence_number (snd ` {p \<in> set (active led). fst p \<noteq> iid})"
    using inj by (rule inj_on_subset) auto
  then have "inj_on sequence_number (snd ` set (active led'))"
    unfolding set' image_insert inj_on_insert using other by (fastforce simp: image_iff)
  moreover have "dict_wf (active led')" unfolding act using wf by (simp add: dict.wf_set)
  ultimately show ?thesis using assms(1) rest mem unfolding ledger_inv_def set' by auto
qed

subsection \<open>What an approval does\<close>

lemma effective_simps [simp]:
  "limits (effective_context l c) = limits c" "fees (effective_context l c) = fees c"
  "now_epoch_s (effective_context l c) = now_epoch_s c" "ctx_mode (effective_context l c) = ctx_mode c"
  "used_intent_ids (effective_context l c) = seen_intent_ids l" "market (effective_context l c) = market c"
  "used_idempotency_keys (effective_context l c) = seen_idempotency_keys l"
  by (simp_all add: effective_context_def)

lemma effective_cost [simp]:
  "order_cost i (effective_context l c) = order_cost i c"
  "order_cost_val i (effective_context l c) = order_cost_val i c"
  by (simp_all add: order_cost_def order_cost_val_def split: option.split)

lemma effective_equity:
  "val (equity_of (account (effective_context l c))) = unreserved_equity (account c) - val (total_reserved l)"
  by (simp add: effective_context_def equity_of_def unreserved_equity_def)

lemma approve_cases:
  obtains (vetoed) out where "\<not> approves i (effective_context led c)"
      "approve_intent hmac pl i c led = Inr (out, led)" "token out = None"
      "decision out = evaluate_intent i (effective_context led c) DEFAULT_CHECKS"
    | (issued) out cost r led1 e p where "approves i (effective_context led c)"
      "approve_intent hmac pl i c led = Inr (out, res_record e p led1)"
      "reserve (intent_id i) cost (idempotency_key i) (now_epoch_s c + ttl_seconds pl) led = Inr (r, led1)"
      "token out = Some (issue hmac (issuer_handle pl) (approval_claims pl i c (sequence led + 1)))"
      "val cost = order_cost_val i c"
      "decision out = evaluate_intent i (effective_context led c) DEFAULT_CHECKS"
proof (cases "approves i (effective_context led c)")
  case False
  then show thesis
    using vetoed [of "\<lparr>decision = evaluate_intent i (effective_context led c) DEFAULT_CHECKS, token = None\<rparr>"]
    by (simp add: approve_intent_def approves_def Let_def)
next
  case True
  from gate.cost_provable [OF True] obtain cost where
    cost: "order_cost i c = Inr cost" "val cost = order_cost_val i c" by auto
  from cost(1) obtain t s where ts: "max_trading_fee (fees c) = Some t" "max_settlement_fee (fees c) = Some s"
    by (auto simp: order_cost_Inr)
  define led1 where "led1 = snd (projr (reserve (intent_id i) cost (idempotency_key i) (now_epoch_s c + ttl_seconds pl) led))"
  define r where "r = fst (projr (reserve (intent_id i) cost (idempotency_key i) (now_epoch_s c + ttl_seconds pl) led))"
  have res: "reserve (intent_id i) cost (idempotency_key i) (now_epoch_s c + ttl_seconds pl) led = Inr (r, led1)"
    using gate.fresh_id [OF True] gate.fresh_key [OF True] by (simp add: reserve_def Let_def r_def led1_def)
  then have seq: "sequence_number r = sequence led + 1" by (simp add: reserve_Inr_iff)
  have fee: "cost - projr (money_from_price_and_count (price i) (order_size i) OVERSTATE_COST)
      - rounding_buffer (limits c) = t + s"
    using cost ts by (simp add: unit_eq_iff money_from_price_and_count_eq order_cost_val_def)
  let ?out = "\<lparr>decision = evaluate_intent i (effective_context led c) DEFAULT_CHECKS,
      token = Some (issue hmac (issuer_handle pl) (approval_claims pl i c (sequence led + 1)))\<rparr>"
  have "approve_intent hmac pl i c led = Inr (?out,
      res_record APPROVAL_ISSUED_EVENT
        [(''intent_id'', JStr (intent_id i)), (''sequence_number'', JInt (sequence_number r)),
         (''expires_at'', JInt (now_epoch_s c + ttl_seconds pl))] led1)"
    using True cost ts res seq fee
    by (simp add: approve_intent_def approves_def Let_def reserve_and_issue_def approval_claims_def)
  from issued [OF True this res] cost(2) show thesis by simp
qed

lemma approve_vetoed:
  "\<not> approves i (effective_context led c) \<Longrightarrow>
   approve_intent hmac pl i c led =
     Inr (\<lparr>decision = evaluate_intent i (effective_context led c) DEFAULT_CHECKS, token = None\<rparr>, led)"
  by (simp add: approve_intent_def approves_def Let_def)

subsection \<open>Totals\<close>

lemma reserve_total:
  assumes "ledger_inv led" and "reserve iid amt key expiry led = Inr (r, led')"
  shows "val (total_reserved led') = val (total_reserved led) + val amt"
proof -
  from assms(2) have fresh: "iid \<notin> seen_intent_ids led"
    and act: "active led' = dict_set iid r (active led)" and r: "amount r = amt"
    unfolding reserve_Inr_iff by simp_all
  have "iid \<notin> fst ` set (active led)" using assms(1) fresh by (force simp: ledger_inv_def)
  then show ?thesis using act r by (simp add: total_reserved_def dict_set_fresh)
qed

lemma release_total:
  assumes "ledger_inv led" and "dict_get (active led) k = Some r"
  shows "val (total_reserved (release_locked k rsn led)) = val (total_reserved led) - val (amount r)"
  using assms sum_dict_pop [of "active led" k r "\<lambda>r. val (amount r)"]
  by (simp add: total_reserved_def ledger_inv_def)

lemma release_absent_total:
  assumes "dict_get (active led) k = None"
  shows "total_reserved (release_locked k rsn led) = total_reserved led"
  using assms by (simp add: total_reserved_def dict_get_keys dict_pop_fresh)

lemma adjust_total:
  assumes "ledger_inv led" and "adjust k amt led = Inr led'"
  shows "\<exists>r. dict_get (active led) k = Some r \<and> 0 < val amt \<and> val amt < val (amount r) \<and>
    val (total_reserved led') = val (total_reserved led) - val (amount r) + val amt"
proof -
  from assms(2) obtain r where r: "dict_get (active led) k = Some r" "0 < val amt" "val amt < val (amount r)"
    and act: "active led' = dict_set k (r\<lparr>amount := amt\<rparr>) (active led)"
    by (auto simp: adjust_def split: option.splits if_splits)
  with assms(1) sum_dict_set_present [of "active led" k r "\<lambda>r. val (amount r)" "r\<lparr>amount := amt\<rparr>"]
  show ?thesis by (auto simp: total_reserved_def ledger_inv_def)
qed

lemma fold_release_total_le:
  "ledger_inv led \<Longrightarrow> amounts_nonneg led \<Longrightarrow>
   val (total_reserved (fold (\<lambda>k l. release_locked k rsn l) ks led)) \<le> val (total_reserved led)
   \<and> amounts_nonneg (fold (\<lambda>k l. release_locked k rsn l) ks led)"
proof (induction ks arbitrary: led)
  case (Cons k ks)
  let ?l = "release_locked k rsn led"
  have inv: "ledger_inv ?l" using Cons.prems(1) by (rule ledger_inv_release)
  have nn: "amounts_nonneg ?l" using Cons.prems(2) by (auto simp: amounts_nonneg_def set_dict_pop)
  have "val (total_reserved ?l) \<le> val (total_reserved led)"
  proof (cases "dict_get (active led) k")
    case None
    then show ?thesis by (simp add: release_absent_total)
  next
    case (Some r)
    then have "0 \<le> val (amount r)"
      using Cons.prems(2) dict_get_in_values [OF Some] by (auto simp: amounts_nonneg_def)
    with release_total [OF Cons.prems(1) Some] show ?thesis by simp
  qed
  with Cons.IH [OF inv nn] show ?case by simp
qed simp

subsection \<open>Runs of commands\<close>

lemma exec_inv: "ledger_inv led \<Longrightarrow> ledger_inv (ledger_exec hmac pl led cmd)"
proof (cases cmd)
  case (Approve i c)
  assume "ledger_inv led"
  then show ?thesis
    by (cases rule: approve_cases [of i led c hmac pl]) (auto simp: Approve intro: ledger_inv_reserve)
qed (auto simp: release_def release_all_active_def expire_due_def Let_def
    intro: ledger_inv_release ledger_inv_releases ledger_inv_reserve ledger_inv_adjust
    split: sum.splits prod.splits)

lemma reserve_le: "reserve iid amt key expiry led = Inr (r, led') \<Longrightarrow> ledger_le led led'"
  by (auto simp: reserve_Inr_iff ledger_le_def res_record_def)

lemma record_le: "ledger_le led (res_record e p led)"
  by (simp add: ledger_le_def)

lemma exec_le: "ledger_le led (ledger_exec hmac pl led cmd)"
proof (cases cmd)
  case (Approve i c)
  then show ?thesis
    by (cases rule: approve_cases [of i led c hmac pl])
      (auto simp: ledger_le_refl intro: ledger_le_trans [OF reserve_le record_le])
next
  case (Adjust k amt)
  then show ?thesis
    by (auto simp: adjust_def ledger_le_def res_record_def split: option.splits sum.splits)
qed (auto simp: release_def release_all_active_def expire_due_def Let_def ledger_le_refl
    intro: release_le fold_release_le reserve_le split: sum.splits prod.splits)

interpretation res_machine: invariant_machine "ledger_exec hmac pl" ledger_inv for hmac pl
  by unfold_locales (rule exec_inv)

interpretation res_growth: monotone_machine "ledger_exec hmac pl" ledger_le for hmac pl
  by unfold_locales (auto intro: ledger_le_refl ledger_le_trans exec_le)

lemma ledger_inv_new [simp]: "ledger_inv (ReservationLedger_new evs)"
  by (simp add: ledger_inv_def ReservationLedger_new_def)

lemma issued_tokens_fresh:
  "let ts = map claims (issued_tokens hmac pl led cmds) in
     (\<forall>cl \<in> set ts. cl_intent_id cl \<notin> seen_intent_ids led \<and> cl_idempotency_key cl \<notin> seen_idempotency_keys led
        \<and> sequence led < kernel_sequence_number cl)
   \<and> distinct (map cl_intent_id ts) \<and> distinct (map cl_idempotency_key ts)
   \<and> sorted_wrt (<) (map kernel_sequence_number ts)"
proof (induction cmds arbitrary: led)
  case (Cons cmd cmds)
  let ?led' = "ledger_exec hmac pl led cmd"
  note IH = Cons.IH [of ?led', unfolded Let_def]
  have le: "ledger_le led ?led'" by (rule exec_le)
  show ?case
  proof (cases "\<exists>i c. cmd = Approve i c \<and> approves i (effective_context led c)")
    case True
    then obtain i c where cmd: "cmd = Approve i c" and ok: "approves i (effective_context led c)" by blast
    from approve_cases [of i led c hmac pl] ok obtain out cost r led1 e p where
      ap: "approve_intent hmac pl i c led = Inr (out, res_record e p led1)"
      and res: "reserve (intent_id i) cost (idempotency_key i) (now_epoch_s c + ttl_seconds pl) led = Inr (r, led1)"
      and tok: "token out = Some (issue hmac (issuer_handle pl) (approval_claims pl i c (sequence led + 1)))"
      by metis
    from res have led1: "?led' = res_record e p led1" "seen_intent_ids led1 = insert (intent_id i) (seen_intent_ids led)"
      "seen_idempotency_keys led1 = insert (idempotency_key i) (seen_idempotency_keys led)"
      "sequence led1 = sequence led + 1"
      using ap cmd by (auto simp: reserve_Inr_iff)
    have fresh: "intent_id i \<notin> seen_intent_ids led" "idempotency_key i \<notin> seen_idempotency_keys led"
      using gate.fresh_id [OF ok] gate.fresh_key [OF ok] by simp_all
    show ?thesis
      using IH fresh unfolding Let_def
      by (force simp: cmd ap tok issue_def approval_claims_def led1)
  next
    case False
    then have "issued_tokens hmac pl led (cmd # cmds) = issued_tokens hmac pl ?led' cmds"
      by (cases cmd) (simp_all add: approve_vetoed)
    with IH le show ?thesis unfolding Let_def ledger_le_def by force
  qed
qed simp

lemma approved_buy_total:
  assumes "ledger_inv led" and "approves i (effective_context led c)" and "action i = ''buy''"
    and "approve_intent hmac pl i c led = Inr (out, led')"
  shows "val (limits_floor (limits c)) \<le> unreserved_equity (account c) - val (total_reserved led')"
    and "val (total_reserved led') = val (total_reserved led) + order_cost_val i c"
proof -
  from approve_cases [of i led c hmac pl] assms(2) obtain out' cost r led1 e p where
    ap: "approve_intent hmac pl i c led = Inr (out', res_record e p led1)"
    and res: "reserve (intent_id i) cost (idempotency_key i) (now_epoch_s c + ttl_seconds pl) led = Inr (r, led1)"
    and cost: "val cost = order_cost_val i c"
    by metis
  show t: "val (total_reserved led') = val (total_reserved led) + order_cost_val i c"
    using reserve_total [OF assms(1) res] ap assms(4) cost by simp
  show "val (limits_floor (limits c)) \<le> unreserved_equity (account c) - val (total_reserved led')"
    using gate.open_floor [OF assms(2,3)] t by (simp add: effective_equity)
qed

lemma exec_within:
  assumes "cmd_within h cmd" and "0 \<le> h" and inv: "ledger_inv led" and nn: "amounts_nonneg led"
    and le: "val (total_reserved led) \<le> h"
  shows "amounts_nonneg (ledger_exec hmac pl led cmd) \<and> val (total_reserved (ledger_exec hmac pl led cmd)) \<le> h"
proof (cases cmd)
  case (Approve i c)
  show ?thesis
  proof (cases "approves i (effective_context led c)")
    case True
    from approve_cases [of i led c hmac pl] True obtain out cost r led1 e p where
      ap: "approve_intent hmac pl i c led = Inr (out, res_record e p led1)"
      and res: "reserve (intent_id i) cost (idempotency_key i) (now_epoch_s c + ttl_seconds pl) led = Inr (r, led1)"
      and cost: "val cost = order_cost_val i c"
      by metis
    have "dict_wf (active led)" using inv by (simp add: ledger_inv_def)
    then have "amounts_nonneg led1"
      using res nn cost assms(1) Approve by (auto simp: reserve_Inr_iff amounts_nonneg_def set_dict_set)
    then have "amounts_nonneg (res_record e p led1)" by (simp add: amounts_nonneg_def)
    with approved_buy_total [OF inv True _ ap] assms(1) Approve ap show ?thesis by simp
  next
    case False
    with nn le show ?thesis by (simp add: Approve approve_vetoed)
  qed
next
  case (Adjust k amt)
  show ?thesis
  proof (cases "adjust k amt led")
    case (Inr led')
    from adjust_total [OF inv Inr] obtain r where amt: "0 < val amt"
      "val (total_reserved led') \<le> val (total_reserved led)" by auto
    have "dict_wf (active led)" using inv by (simp add: ledger_inv_def)
    then have "amounts_nonneg led'"
      using Inr nn amt(1) by (auto simp: adjust_def amounts_nonneg_def set_dict_set split: option.splits if_splits)
    with amt le Inr show ?thesis by (simp add: Adjust)
  qed (use nn le in \<open>simp add: Adjust\<close>)
next
  case (Release k rsn)
  with fold_release_total_le [OF inv nn, of rsn "[k]"] le show ?thesis by (simp add: release_def)
next
  case (ReleaseAllActive rsn)
  with fold_release_total_le [OF inv nn, of rsn "map fst (active led)"] le show ?thesis
    by (simp add: release_all_active_def)
next
  case (ExpireDue now)
  with fold_release_total_le [OF inv nn, of "''expired''"
      "map res_intent_id (filter (\<lambda>r. res_expires_at r \<le> now) (map snd (active led)))"] le
  show ?thesis by (simp add: expire_due_def)
qed (use assms(1) in simp)

lemma run_within:
  assumes "list_all (cmd_within h) cmds" and "0 \<le> h" and "ledger_inv led" and "amounts_nonneg led"
    and "val (total_reserved led) \<le> h"
  shows "val (total_reserved (foldl (ledger_exec hmac pl) led cmds)) \<le> h"
  using assms(1,3-5)
proof (induction cmds arbitrary: led)
  case (Cons cmd cmds)
  then show ?case
    using exec_within [of h cmd led hmac pl] exec_inv [of led hmac pl cmd] assms(2) by simp
qed simp

lemma expire_due_get:
  assumes "ledger_inv led"
  shows "dict_get (active (expire_due now led)) k =
    (case dict_get (active led) k of
       None \<Rightarrow> None | Some r \<Rightarrow> if res_expires_at r \<le> now then None else Some r)"
proof -
  let ?due = "map res_intent_id (filter (\<lambda>r. res_expires_at r \<le> now) (map snd (active led)))"
  have wf: "dict_wf (active led)" and ids: "\<And>j r. (j, r) \<in> set (active led) \<Longrightarrow> res_intent_id r = j"
    using assms by (auto simp: ledger_inv_def)
  have due: "k \<in> set ?due \<longleftrightarrow> (\<exists>r. dict_get (active led) k = Some r \<and> res_expires_at r \<le> now)"
  proof
    assume "k \<in> set ?due"
    then obtain j r where jr: "(j, r) \<in> set (active led)" "res_expires_at r \<le> now" "k = res_intent_id r" by auto
    with ids [OF jr(1)] dict_get_of_mem [OF wf jr(1)]
    show "\<exists>r. dict_get (active led) k = Some r \<and> res_expires_at r \<le> now" by auto
  next
    assume "\<exists>r. dict_get (active led) k = Some r \<and> res_expires_at r \<le> now"
    then obtain r where r: "(k, r) \<in> set (active led)" "res_expires_at r \<le> now"
      using dict_get_in_values by fast
    then have "r \<in> set (filter (\<lambda>r. res_expires_at r \<le> now) (map snd (active led)))" by force
    with ids [OF r(1)] show "k \<in> set ?due" by (metis list.set_map rev_image_eqI)
  qed
  have "dict_get (active (expire_due now led)) k = (if k \<in> set ?due then None else dict_get (active led) k)"
    by (simp only: expire_due_def Let_def fold_release_active dict.get_pops)
  with due show ?thesis by (auto split: option.splits)
qed

section \<open>Properties\<close>

text \<open>Approval is total and atomic: the pipeline never raises; a vetoed intent gets no token and
  leaves the ledger exactly as it was, and an approved one gets a token and adds exactly its worst-case
  cost to the reserved capital, uses up its id and idempotency key and the next sequence number. The
  token's claims restate the intent, cap the fees at the two bounds together and expire
  \<open>ttl_seconds\<close> after the context's clock.\<close>

theorem approval_total_and_atomic:
  assumes "ledger_inv led"
  shows "\<exists>out led'. approve_intent hmac pl i c led = Inr (out, led') \<and>
    (if approves i (effective_context led c)
     then (\<exists>t. token out = Some t \<and> claims t = approval_claims pl i c (sequence led + 1)) \<and>
       val (total_reserved led') = val (total_reserved led) + order_cost_val i c \<and>
       seen_intent_ids led' = insert (intent_id i) (seen_intent_ids led) \<and>
       seen_idempotency_keys led' = insert (idempotency_key i) (seen_idempotency_keys led) \<and>
       sequence led' = sequence led + 1
     else token out = None \<and> led' = led)"
proof (cases rule: approve_cases [of i led c hmac pl])
  case (vetoed out)
  then show ?thesis by auto
next
  case (issued out cost r led1 e p)
  from issued(3) have "seen_intent_ids led1 = insert (intent_id i) (seen_intent_ids led)"
    "seen_idempotency_keys led1 = insert (idempotency_key i) (seen_idempotency_keys led)"
    "sequence led1 = sequence led + 1"
    by (simp_all add: reserve_Inr_iff)
  with issued reserve_total [OF assms issued(3)] show ?thesis by (auto simp: issue_def)
qed

theorem approval_total_and_atomic_witness:
  "\<exists>out led'. approve_intent (\<lambda>k m. m) sample_pipeline sample_intent sample_context (ReservationLedger_new []) = Inr (out, led')
     \<and> token out \<noteq> None \<and> val (total_reserved led') = 1420000"
proof -
  have eff: "effective_context (ReservationLedger_new []) sample_context = sample_context"
    by (simp add: effective_context_def ReservationLedger_new_def total_reserved_def sample_context_def
        sample_account_def)
  have cost: "order_cost_val sample_intent sample_context = 1420000"
    by (simp add: order_cost_val_def sample_intent_def sample_context_def sample_limits_def)
  have t0: "val (total_reserved (ReservationLedger_new [])) = 0"
    by (simp add: total_reserved_def ReservationLedger_new_def)
  from approval_total_and_atomic [OF ledger_inv_new, of "\<lambda>k m. m" sample_pipeline sample_intent sample_context "[]"]
  show ?thesis using sample_approved by (auto simp: eff cost t0)
qed

text \<open>C2. Approvals one after another can never jointly break the floor: after every approved buy the
  total capital reserved, this order's included, still leaves worst-case equity at or above the floor
  of the context it was approved in.\<close>

theorem approved_buys_jointly_respect_floor:
  assumes "ledger_inv led" and "approve_intent hmac pl i c led = Inr (out, led')"
    and "token out \<noteq> None" and "action i = ''buy''"
  shows "val (limits_floor (limits c)) \<le> unreserved_equity (account c) - val (total_reserved led')"
proof -
  have "approves i (effective_context led c)"
    by (rule ccontr) (use assms(2,3) approve_vetoed [of i led c hmac pl] in auto)
  from approved_buy_total(1) [OF assms(1) this assms(4,2)] show ?thesis .
qed

theorem approved_buys_jointly_respect_floor_witness:
  "\<exists>out led'. approve_intent (\<lambda>k m. m) sample_pipeline sample_intent sample_context (ReservationLedger_new []) = Inr (out, led')
     \<and> 50000000 \<le> 100000000 - val (total_reserved led')"
proof -
  have eff: "effective_context (ReservationLedger_new []) sample_context = sample_context"
    by (simp add: effective_context_def ReservationLedger_new_def total_reserved_def sample_context_def
        sample_account_def)
  from approve_cases [of sample_intent "ReservationLedger_new []" sample_context "\<lambda>k m. m" sample_pipeline] sample_approved eff
  obtain out led' where a: "approve_intent (\<lambda>k m. m) sample_pipeline sample_intent sample_context (ReservationLedger_new []) = Inr (out, led')"
    and t: "token out \<noteq> None" by (metis option.distinct(1))
  from approved_buys_jointly_respect_floor [OF ledger_inv_new a t] a show ?thesis
    by (auto simp: sample_intent_def sample_context_def sample_limits_def sample_account_def unreserved_equity_def)
qed

text \<open>C14. Reserved capital is bounded over whole runs: starting from an empty ledger, whatever
  approvals of buys, releases, adjustments and expiries happen in whatever order, the capital reserved
  at the end never exceeds the headroom between worst-case equity and the floor.\<close>

theorem reserved_capital_bounded:
  assumes "list_all (cmd_within h) cmds" and "0 \<le> h"
  shows "val (total_reserved (foldl (ledger_exec hmac pl) (ReservationLedger_new evs) cmds)) \<le> h"
  by (rule run_within [OF assms])
    (use assms(2) in \<open>simp_all add: amounts_nonneg_def ReservationLedger_new_def total_reserved_def ledger_inv_def\<close>)

theorem reserved_capital_bounded_witness:
  "val (total_reserved (foldl (ledger_exec (\<lambda>k m. m) sample_pipeline) (ReservationLedger_new [])
      [Approve sample_intent sample_context, ExpireDue 1030, Adjust ''i1'' (IntUnit 7), Release ''i1'' ''done''])) \<le> 50000000"
  by (rule reserved_capital_bounded)
    (simp_all add: order_cost_val_def sample_intent_def sample_context_def sample_limits_def
      sample_account_def unreserved_equity_def)

text \<open>No token is ever reissued: in any run of commands from an empty ledger, also after releases
  and expiries, the issued tokens have pairwise different intent ids, pairwise different idempotency
  keys and strictly increasing kernel sequence numbers.\<close>

theorem tokens_never_reissued:
  "let ts = map claims (issued_tokens hmac pl (ReservationLedger_new evs) cmds) in
     distinct (map cl_intent_id ts) \<and> distinct (map cl_idempotency_key ts) \<and>
     sorted_wrt (<) (map kernel_sequence_number ts)"
  using issued_tokens_fresh [of hmac pl "ReservationLedger_new evs" cmds] by (simp add: Let_def)

text \<open>The ledger stays well formed and only ever grows in memory: in every run from an empty ledger
  each active reservation is filed under its own id, remembered forever and numbered uniquely, and
  continuing the run never forgets an id or key, lowers the counter or rewrites the event log.\<close>

theorem ledger_wellformed_and_append_only:
  "ledger_inv (foldl (ledger_exec hmac pl) (ReservationLedger_new evs) cmds) \<and>
   ledger_le (foldl (ledger_exec hmac pl) (ReservationLedger_new evs) cmds)
     (foldl (ledger_exec hmac pl) (ReservationLedger_new evs) (cmds @ later))"
  using res_machine.run_inv [OF ledger_inv_new] res_growth.run_le_between by blast

text \<open>Expiry is exact: after \<open>expire_due now\<close> an id has an active reservation if and only if it
  had one that expires strictly later, and that reservation is unchanged.\<close>

theorem expire_due_exact:
  assumes "ledger_inv led"
  shows "dict_get (active (expire_due now led)) k = Some r \<longleftrightarrow>
    dict_get (active led) k = Some r \<and> now < res_expires_at r"
  using expire_due_get [OF assms, of now k] by (auto split: option.splits if_splits)

theorem expire_due_exact_witness:
  "dict_get (active (expire_due 10 (snd (projr (reserve ''a'' (IntUnit 5) ''k'' 11 (ReservationLedger_new [])))))) ''a''
     = Some \<lparr>res_intent_id = ''a'', amount = IntUnit 5, res_idempotency_key = ''k'', res_expires_at = 11,
          sequence_number = 1\<rparr>"
proof -
  let ?l = "snd (projr (reserve ''a'' (IntUnit 5) ''k'' 11 (ReservationLedger_new [])))"
  have inv: "ledger_inv ?l"
    by (rule ledger_inv_reserve [OF ledger_inv_new, of "''a''" "IntUnit 5" "''k''" 11 "[]"
          "fst (projr (reserve ''a'' (IntUnit 5) ''k'' 11 (ReservationLedger_new [])))"])
      (simp add: reserve_def ReservationLedger_new_def Let_def)
  have "dict_get (active ?l) ''a'' = Some \<lparr>res_intent_id = ''a'', amount = IntUnit 5, res_idempotency_key = ''k'',
      res_expires_at = 11, sequence_number = 1\<rparr>"
    by (simp add: reserve_def ReservationLedger_new_def Let_def dict.get_set)
  then show ?thesis by (simp add: expire_due_exact [OF inv])
qed

section \<open>A cap the pipeline does not share between approvals\<close>

text \<open>
  The floor and the LIVE_MICRO ceiling see earlier approvals through the reserved capital, but the
  concentration caps compare only the caller's exposure figures, which are computed from held
  positions. Two orders for one market, each within the market cap and approved one after the other
  from the same context, together hold nearly twice the cap.
\<close>

definition deep_context :: EvaluationContext where
  "deep_context = sample_context\<lparr>market := (market sample_context)\<lparr>visible_depth := Some (IntUnit 10000)\<rparr>\<rparr>"

definition large_intent :: "string \<Rightarrow> string \<Rightarrow> OrderIntent" where
  "large_intent iid key = sample_intent\<lparr>intent_id := iid, idempotency_key := key, order_size := IntUnit 1000\<rparr>"

lemma large_intent_approved:
  assumes "intent_id i \<notin> seen_intent_ids led" "idempotency_key i \<notin> seen_idempotency_keys led"
    and "i = large_intent iid key" and "val (total_reserved led) \<in> {0, 4570000}"
  shows "approves i (effective_context led deep_context)"
  using assms(1,2,4)
  by (auto simp: approves_iff check_approves fees_bounded_def not_stale_iff assms(3) large_intent_def sample_intent_def
      deep_context_def sample_context_def sample_limits_def sample_account_def sample_snapshot_def may_trade_def
      TRADING_MODES_def LIVE_TRADING_MODES_def order_cost_val_def equity_of_def is_derisking_close_def
      CLOSING_ACTIONS_def unit_le_iff effective_context_def)

lemma concentration_cap_not_joint:
  "\<exists>out1 l1 out2 l2.
     approve_intent hmac pl (large_intent ''a'' ''ka'') deep_context (ReservationLedger_new []) = Inr (out1, l1) \<and>
     approve_intent hmac pl (large_intent ''b'' ''kb'') deep_context l1 = Inr (out2, l2) \<and>
     token out1 \<noteq> None \<and> token out2 \<noteq> None \<and>
     ppm_of (unreserved_equity (account deep_context)) (max_pos_market_pct_ppm (limits deep_context))
       < val (market_exposure (account deep_context)) + val (total_reserved l2)"
proof -
  let ?l0 = "ReservationLedger_new []" and ?a = "large_intent ''a'' ''ka''" and ?b = "large_intent ''b'' ''kb''"
  have ids: "intent_id ?a = ''a''" "idempotency_key ?a = ''ka''" "intent_id ?b = ''b''" "idempotency_key ?b = ''kb''"
    by (simp_all add: large_intent_def)
  have cost: "order_cost_val ?a deep_context = 4570000" "order_cost_val ?b deep_context = 4570000"
    by (simp_all add: order_cost_val_def large_intent_def sample_intent_def deep_context_def sample_context_def
        sample_limits_def)
  have ok1: "approves ?a (effective_context ?l0 deep_context)"
    by (rule large_intent_approved [OF _ _ refl]) (simp_all add: ReservationLedger_new_def total_reserved_def)
  obtain out1 cost1 r1 m1 e1 p1 where a1: "approve_intent hmac pl ?a deep_context ?l0 = Inr (out1, res_record e1 p1 m1)"
    and r1: "reserve ''a'' cost1 ''ka'' (now_epoch_s deep_context + ttl_seconds pl) ?l0 = Inr (r1, m1)"
    and t1: "token out1 \<noteq> None" and c1: "val cost1 = 4570000"
    using approve_cases [of ?a ?l0 deep_context hmac pl] ok1 by (metis ids(1,2) cost(1) option.distinct(1))
  let ?l1 = "res_record e1 p1 m1"
  have inv1: "ledger_inv ?l1" using ledger_inv_reserve [OF ledger_inv_new r1] by simp
  have tot1: "val (total_reserved ?l1) = 4570000"
    using reserve_total [OF ledger_inv_new r1] c1 by (simp add: ReservationLedger_new_def total_reserved_def)
  have seen1: "seen_intent_ids ?l1 = {''a''}" "seen_idempotency_keys ?l1 = {''ka''}"
    using r1 by (simp_all add: reserve_Inr_iff ReservationLedger_new_def)
  have ok2: "approves ?b (effective_context ?l1 deep_context)"
    by (rule large_intent_approved [OF _ _ refl]) (simp_all only: seen1 ids tot1, simp_all)
  obtain out2 l2 where a2: "approve_intent hmac pl ?b deep_context ?l1 = Inr (out2, l2)" and t2: "token out2 \<noteq> None"
    using approve_cases [of ?b ?l1 deep_context hmac pl] ok2 by (metis option.distinct(1))
  have "action ?b = ''buy''" by (simp add: large_intent_def sample_intent_def)
  from approved_buy_total(2) [OF inv1 ok2 this a2] have "val (total_reserved l2) = 9140000"
    using tot1 cost(2) by simp
  with a1 a2 t1 t2 show ?thesis
    by (auto simp: ppm_of_eq unreserved_equity_def deep_context_def sample_context_def sample_account_def sample_limits_def)
qed

end
