(* ===== verification/HumanAck.thy ===== *)
theory HumanAck
  imports Reservations
begin

text \<open>
  Human acknowledgements: the pending-acknowledgement queue
  (\<open>windbreak/riskkernel/human_ack.py\<close>), the pipeline that turns a veto for a missing acknowledgement
  into a hold, and the drop-box watcher that grants (\<open>windbreak/riskkernel/ack_flow.py\<close>). The random
  approval id of \<open>secrets.token_hex\<close> is an argument of \<open>request_ack\<close> and \<open>submit\<close>; the releaser is
  the reservation ledger. The drop-box directory is the list of its entries with a flag for regular
  files, or \<open>None\<close> when it does not exist.
\<close>

section \<open>Definitions\<close>

subsection \<open>The queue\<close>

definition DEFAULT_HUMAN_ACK_TTL_SECONDS :: int where "DEFAULT_HUMAN_ACK_TTL_SECONDS = 3600"
definition LAPSED_RELEASE_REASON :: string where "LAPSED_RELEASE_REASON = ''human-ack lapsed''"
definition ACK_REQUESTED_EVENT :: string where "ACK_REQUESTED_EVENT = ''HumanAckRequested''"
definition ACK_GRANTED_EVENT :: string where "ACK_GRANTED_EVENT = ''HumanAckGranted''"
definition ACK_LAPSED_EVENT :: string where "ACK_LAPSED_EVENT = ''HumanAckLapsed''"

datatype ack_error = AckLapsedError string | UnknownApprovalError string | DuplicateAckRequestError string

datatype AckStatus = ACK_PENDING | ACK_GRANTED | ACK_LAPSED

record PendingHumanAck =
  approval_id :: string
  ack_intent_id :: string
  ack_worst_case_cost :: MoneyMicros
  requested_at :: int
  ack_expires_at :: int

record AckRecord =
  pending :: PendingHumanAck
  status :: AckStatus

record HumanAckQueue =
  ack_ttl_seconds :: int
  ack_records :: "(string, AckRecord) pydict"
  ack_log :: event_log

definition HumanAckQueue_new :: "int \<Rightarrow> event_log \<Rightarrow> HumanAckQueue" where
  "HumanAckQueue_new ttl evs = \<lparr>ack_ttl_seconds = ttl, ack_records = [], ack_log = evs\<rparr>"

definition ack_record_event :: "string \<Rightarrow> payload \<Rightarrow> HumanAckQueue \<Rightarrow> HumanAckQueue" where
  "ack_record_event etype pl q =
     q\<lparr>ack_log := log_record \<lparr>event_type = etype, component = RISKKERNEL_COMPONENT,
         payload_schema_version = RES_PAYLOAD_SCHEMA_VERSION, payload = pl\<rparr> (ack_log q)\<rparr>"

definition has_pending_intent :: "string \<Rightarrow> HumanAckQueue \<Rightarrow> bool" where
  "has_pending_intent iid q =
     list_ex (\<lambda>(_, r). status r = ACK_PENDING \<and> ack_intent_id (pending r) = iid) (ack_records q)"

definition request_ack ::
    "string \<Rightarrow> string \<Rightarrow> MoneyMicros \<Rightarrow> int \<Rightarrow> HumanAckQueue \<Rightarrow> ack_error + (PendingHumanAck \<times> HumanAckQueue)" where
  "request_ack aid iid cost now q =
     (if has_pending_intent iid q
      then Inl (DuplicateAckRequestError (''intent already has a pending acknowledgement: '' @ iid))
      else
        (let expiry = now + ack_ttl_seconds q;
             p = \<lparr>approval_id = aid, ack_intent_id = iid, ack_worst_case_cost = cost, requested_at = now,
                  ack_expires_at = expiry\<rparr>
         in Inr (p, ack_record_event ACK_REQUESTED_EVENT
                [(''approval_id'', JStr aid), (''intent_id'', JStr iid),
                 (''worst_case_cost_micros'', JInt (val cost)), (''requested_at'', JInt now),
                 (''expires_at'', JInt expiry)]
                (q\<lparr>ack_records := dict_set aid \<lparr>pending = p, status = ACK_PENDING\<rparr> (ack_records q)\<rparr>))))"

definition grant :: "string \<Rightarrow> int \<Rightarrow> HumanAckQueue \<Rightarrow> ack_error + HumanAckQueue" where
  "grant aid now q =
     (case dict_get (ack_records q) aid of
        None \<Rightarrow> Inl (UnknownApprovalError (''unknown approval id: '' @ aid))
      | Some r \<Rightarrow>
          (if status r \<noteq> ACK_PENDING \<or> now \<ge> ack_expires_at (pending r)
           then Inl (AckLapsedError (''acknowledgement has lapsed: '' @ aid))
           else Inr (ack_record_event ACK_GRANTED_EVENT
                  [(''approval_id'', JStr aid), (''intent_id'', JStr (ack_intent_id (pending r))),
                   (''granted_at'', JInt now)]
                  (q\<lparr>ack_records := dict_set aid (r\<lparr>status := ACK_GRANTED\<rparr>) (ack_records q)\<rparr>))))"

definition lapse_one ::
    "int \<Rightarrow> string \<times> AckRecord \<Rightarrow> HumanAckQueue \<times> ReservationLedger \<Rightarrow> HumanAckQueue \<times> ReservationLedger" where
  "lapse_one now entry st =
     (case (entry, st) of ((aid, r), (q, led)) \<Rightarrow>
        (if status r = ACK_PENDING \<and> now \<ge> ack_expires_at (pending r)
         then (ack_record_event ACK_LAPSED_EVENT
                 [(''approval_id'', JStr aid), (''intent_id'', JStr (ack_intent_id (pending r))),
                  (''expired_at'', JInt now)]
                 (q\<lparr>ack_records := dict_set aid (r\<lparr>status := ACK_LAPSED\<rparr>) (ack_records q)\<rparr>),
               release (ack_intent_id (pending r)) LAPSED_RELEASE_REASON led)
         else (q, led)))"

definition ack_expire_due :: "int \<Rightarrow> HumanAckQueue \<Rightarrow> ReservationLedger \<Rightarrow> HumanAckQueue \<times> ReservationLedger" where
  "ack_expire_due now q led = fold (lapse_one now) (ack_records q) (q, led)"

definition pending_acks :: "HumanAckQueue \<Rightarrow> PendingHumanAck list" where
  "pending_acks q = map pending (filter (\<lambda>r. status r = ACK_PENDING) (map snd (ack_records q)))"

definition granted_intent_ids :: "HumanAckQueue \<Rightarrow> string set" where
  "granted_intent_ids q =
     set (map (\<lambda>r. ack_intent_id (pending r)) (filter (\<lambda>r. status r = ACK_GRANTED) (map snd (ack_records q))))"

subsection \<open>The ack-gated pipeline\<close>

record AckGatedOutcome =
  ag_token :: "SignedApprovalToken option"
  ag_decision :: Decision
  held :: bool
  pending_ack :: "PendingHumanAck option"

datatype submit_error = SubmitReservation reservation_error | SubmitAck ack_error | SubmitUnprovable

definition stamp_acknowledged :: "HumanAckQueue \<Rightarrow> EvaluationContext \<Rightarrow> EvaluationContext" where
  "stamp_acknowledged q ctx = ctx\<lparr>acknowledged_intent_ids := granted_intent_ids q\<rparr>"

definition request_or_existing_hold ::
    "string \<Rightarrow> OrderIntent \<Rightarrow> EvaluationContext \<Rightarrow> HumanAckQueue \<Rightarrow> submit_error + (PendingHumanAck \<times> HumanAckQueue)" where
  "request_or_existing_hold aid intent effective q =
     (case List.find (\<lambda>p. ack_intent_id p = intent_id intent) (pending_acks q) of
        Some p \<Rightarrow> Inr (p, q)
      | None \<Rightarrow>
          (case order_cost intent effective of
             Inl _ \<Rightarrow> Inl SubmitUnprovable
           | Inr cost \<Rightarrow>
               (case request_ack aid (intent_id intent) cost (now_epoch_s effective) q of
                  Inl e \<Rightarrow> Inl (SubmitAck e)
                | Inr pq \<Rightarrow> Inr pq)))"

definition submit ::
    "hmac_fn \<Rightarrow> ApprovalPipeline \<Rightarrow> string \<Rightarrow> OrderIntent \<Rightarrow> EvaluationContext \<Rightarrow> HumanAckQueue \<Rightarrow>
     ReservationLedger \<Rightarrow> submit_error + (AckGatedOutcome \<times> HumanAckQueue \<times> ReservationLedger)" where
  "submit hmac pl aid intent ctx q led =
     (let effective = stamp_acknowledged q ctx in
      case approve_intent hmac pl intent effective led of
        Inl e \<Rightarrow> Inl (SubmitReservation e)
      | Inr (out, led') \<Rightarrow>
          (let dec = decision out in
           if \<not> dec_vetoed dec
           then Inr (\<lparr>ag_token = token out, ag_decision = dec, held = False, pending_ack = None\<rparr>, q, led')
           else if reasons dec = [HUMAN_ACK_REQUIRED_REASON] then
             (case request_or_existing_hold aid intent effective q of
                Inl e \<Rightarrow> Inl e
              | Inr (p, q') \<Rightarrow>
                  Inr (\<lparr>ag_token = None, ag_decision = dec, held = True, pending_ack = Some p\<rparr>, q', led'))
           else Inr (\<lparr>ag_token = None, ag_decision = dec, held = False, pending_ack = None\<rparr>, q, led')))"

subsection \<open>The drop-box watcher\<close>

type_synonym ack_dir = "(string \<times> bool) list option"

definition grant_and_consume ::
    "int \<Rightarrow> string \<Rightarrow> ack_dir \<times> HumanAckQueue \<Rightarrow> ack_dir \<times> HumanAckQueue" where
  "grant_and_consume now name st =
     (case st of (d, q) \<Rightarrow>
        (map_option (filter (\<lambda>(n, _). n \<noteq> name)) d,
         case grant name now q of Inl _ \<Rightarrow> q | Inr q' \<Rightarrow> q'))"

definition ack_poll_once :: "int \<Rightarrow> ack_dir \<Rightarrow> HumanAckQueue \<Rightarrow> ack_dir \<times> HumanAckQueue" where
  "ack_poll_once now d q =
     (case d of
        None \<Rightarrow> (None, q)
      | Some entries \<Rightarrow>
          fold (\<lambda>(name, is_file) st. if is_file then grant_and_consume now name st else st)
            (sort_key fst entries) (d, q))"

abbreviation human_check :: Check where
  "human_check \<equiv> total_check ''human_ack_satisfied'' HumanAckSatisfied"

text \<open>Granting one name: a rejected name changes nothing.\<close>

definition grant_named :: "int \<Rightarrow> string \<Rightarrow> HumanAckQueue \<Rightarrow> HumanAckQueue" where
  "grant_named now name q = (case grant name now q of Inl _ \<Rightarrow> q | Inr q' \<Rightarrow> q')"

text \<open>Well-formedness: records are filed under their approval id and no intent has two pending
  requests.\<close>

definition ack_inv :: "HumanAckQueue \<Rightarrow> bool" where
  "ack_inv q =
     (dict_wf (ack_records q) \<and> (\<forall>(k, r) \<in> set (ack_records q). approval_id (pending r) = k) \<and>
      (\<forall>(k, r) \<in> set (ack_records q). \<forall>(k', r') \<in> set (ack_records q).
         status r = ACK_PENDING \<and> status r' = ACK_PENDING \<and>
         ack_intent_id (pending r) = ack_intent_id (pending r') \<longrightarrow> k = k'))"

text \<open>A live context at a given time with a given acknowledgement threshold.\<close>

definition ack_context :: "int \<Rightarrow> int \<Rightarrow> EvaluationContext" where
  "ack_context t threshold = sample_context
     \<lparr>now_epoch_s := t, limits := sample_limits\<lparr>require_human_ack_above_micros := Some (IntUnit threshold)\<rparr>,
      market := (market sample_context)\<lparr>quote_snapshot_epoch_s := Some t, forecast_epoch_s := Some t,
        exchange_clock_epoch_s := Some t, exchange_status_epoch_s := Some t\<rparr>,
      verification := Some (sample_snapshot\<lparr>verified_at_epoch_s := t\<rparr>),
      pipeline_heartbeat_epoch_s := Some t\<rparr>"

section \<open>Lemmas\<close>

subsection \<open>When the missing acknowledgement is the only veto\<close>

lemma map_filter_single:
  assumes "distinct xs" and "h \<in> set xs" and "\<And>k. k \<in> set xs \<Longrightarrow> k \<noteq> h \<Longrightarrow> f k \<noteq> Some r"
  shows "List.map_filter f xs = [r] \<longleftrightarrow> f h = Some r \<and> (\<forall>k \<in> set xs - {h}. f k = None)"
proof
  assume eq: "List.map_filter f xs = [r]"
  have "f k = None" if "k \<in> set xs" "k \<noteq> h" for k
  proof (rule ccontr)
    assume "f k \<noteq> None"
    then obtain y where y: "f k = Some y" by blast
    with that(1) have "y \<in> set (List.map_filter f xs)" by (force simp: map_filter_def)
    with eq y assms(3) [OF that] show False by simp
  qed
  moreover have "f h = Some r"
  proof -
    have "r \<in> set (List.map_filter f xs)" using eq by simp
    then obtain k where "k \<in> set xs" "f k = Some r" by (auto simp: map_filter_def)
    with assms(3) show ?thesis by metis
  qed
  ultimately show "f h = Some r \<and> (\<forall>k \<in> set xs - {h}. f k = None)" by blast
next
  assume asm: "f h = Some r \<and> (\<forall>k \<in> set xs - {h}. f k = None)"
  obtain pre post where xs: "xs = pre @ h # post" using assms(2) by (meson split_list)
  with assms(1) have "h \<notin> set pre" "h \<notin> set post" by auto
  with asm xs have "\<forall>k \<in> set pre. f k = None" "\<forall>k \<in> set post. f k = None" by auto
  then have "filter (\<lambda>k. f k \<noteq> None) pre = []" "filter (\<lambda>k. f k \<noteq> None) post = []"
    by (simp_all only: filter_empty_conv) simp_all
  with asm xs show "List.map_filter f xs = [r]" by (simp add: map_filter_def)
qed

lemma human_check_mem: "human_check \<in> set REAL_CHECKS"
  by (simp add: REAL_CHECKS_def)

lemma real_checks_distinct: "distinct REAL_CHECKS"
  using spec_names_distinct unfolding real_check_names [symmetric] distinct_map by blast

lemma other_reasons:
  "reason (InstrumentWhitelist i c) \<noteq> HUMAN_ACK_REQUIRED_REASON"
  "reason (JurisdictionProductEligibility i c) \<noteq> HUMAN_ACK_REQUIRED_REASON"
  "reason (ModePermissionCeiling i c) \<noteq> HUMAN_ACK_REQUIRED_REASON"
  "reason (FloorInvariant i c) \<noteq> HUMAN_ACK_REQUIRED_REASON"
  "reason (FeeUpperBoundPresent i c) \<noteq> HUMAN_ACK_REQUIRED_REASON"
  "reason (SettlementFeeUpperBound i c) \<noteq> HUMAN_ACK_REQUIRED_REASON"
  "reason (ConcentrationLimits i c) \<noteq> HUMAN_ACK_REQUIRED_REASON"
  "reason (DailyLossLimit i c) \<noteq> HUMAN_ACK_REQUIRED_REASON"
  "reason (TrailingDrawdownLimit i c) \<noteq> HUMAN_ACK_REQUIRED_REASON"
  "reason (VelocityLimits i c) \<noteq> HUMAN_ACK_REQUIRED_REASON"
  "reason (QuoteFreshness i c) \<noteq> HUMAN_ACK_REQUIRED_REASON"
  "reason (ForecastFreshness i c) \<noteq> HUMAN_ACK_REQUIRED_REASON"
  "reason (PriceBandCompliance i c) \<noteq> HUMAN_ACK_REQUIRED_REASON"
  "reason (ParticipationCapCompliance i c) \<noteq> HUMAN_ACK_REQUIRED_REASON"
  "reason (ApprovalTokenUniqueness i c) \<noteq> HUMAN_ACK_REQUIRED_REASON"
  "reason (IdempotencyKeyUniqueness i c) \<noteq> HUMAN_ACK_REQUIRED_REASON"
  "reason (ClockSkewLimit i c) \<noteq> HUMAN_ACK_REQUIRED_REASON"
  "reason (ExchangeStatusOk i c) \<noteq> HUMAN_ACK_REQUIRED_REASON"
  "reason (PipelineHeartbeatOk i c) \<noteq> HUMAN_ACK_REQUIRED_REASON"
  "reason (ReduceOnlyProvable i c) \<noteq> HUMAN_ACK_REQUIRED_REASON"
  by (simp_all add: HUMAN_ACK_REQUIRED_REASON_def InstrumentWhitelist_def JurisdictionProductEligibility_def
      ModePermissionCeiling_def FloorInvariant_def FeeUpperBoundPresent_def SettlementFeeUpperBound_def
      ConcentrationLimits_def DailyLossLimit_def TrailingDrawdownLimit_def VelocityLimits_def
      QuoteFreshness_def ForecastFreshness_def PriceBandCompliance_def ParticipationCapCompliance_def
      ApprovalTokenUniqueness_def IdempotencyKeyUniqueness_def ClockSkewLimit_def ExchangeStatusOk_def
      PipelineHeartbeatOk_def ReduceOnlyProvable_def approve_def veto_def UNPROVABLE_REASON_def Let_def
      split: option.splits sum.splits cost_error.splits)

lemma recon_reason:
  "sr \<noteq> HUMAN_ACK_REQUIRED_REASON \<Longrightarrow> mr \<noteq> HUMAN_ACK_REQUIRED_REASON \<Longrightarrow>
   reason (ReconciliationCheck ok sr mr g i c) \<noteq> HUMAN_ACK_REQUIRED_REASON"
  by (simp add: ReconciliationCheck_def HUMAN_ACK_REQUIRED_REASON_def SEMANTICS_UNKNOWN_REASON_def
      approve_def veto_def split: option.split)

lemma other_checks_silent:
  assumes "k \<in> set REAL_CHECKS" and "k \<noteq> human_check"
  shows "run_check k i c \<noteq> Some HUMAN_ACK_REQUIRED_REASON"
proof -
  have s: "''balance verification stale or missing'' \<noteq> HUMAN_ACK_REQUIRED_REASON"
    "''balance reconciliation mismatch'' \<noteq> HUMAN_ACK_REQUIRED_REASON"
    "''position verification stale or missing'' \<noteq> HUMAN_ACK_REQUIRED_REASON"
    "''position reconciliation mismatch'' \<noteq> HUMAN_ACK_REQUIRED_REASON"
    "''open-order verification stale or missing'' \<noteq> HUMAN_ACK_REQUIRED_REASON"
    "''open-order reconciliation mismatch'' \<noteq> HUMAN_ACK_REQUIRED_REASON"
    by (simp_all add: HUMAN_ACK_REQUIRED_REASON_def)
  have tot: "run_check (total_check nm f) i c \<noteq> Some HUMAN_ACK_REQUIRED_REASON"
    if "reason (f i c) \<noteq> HUMAN_ACK_REQUIRED_REASON" for nm f
    using that by (simp add: run_check_def total_check_def)
  have "list_all (\<lambda>k. k = human_check \<or> run_check k i c \<noteq> Some HUMAN_ACK_REQUIRED_REASON) REAL_CHECKS"
    unfolding REAL_CHECKS_def RECONCILIATION_CHECKS_def
    by (simp add: tot other_reasons recon_reason s)
  with assms show ?thesis by (auto simp: list_all_iff)
qed

lemma sole_ack_reason_iff:
  "reasons (evaluate_intent i c DEFAULT_CHECKS) = [HUMAN_ACK_REQUIRED_REASON] \<longleftrightarrow>
     run_check human_check i c = Some HUMAN_ACK_REQUIRED_REASON \<and>
     (\<forall>k \<in> set REAL_CHECKS - {human_check}. run_check k i c = None)"
  unfolding evaluate_reasons default_checks_eq
  by (rule map_filter_single [OF real_checks_distinct human_check_mem]) (rule other_checks_silent)

lemma approves_except_human:
  "approves i c \<longleftrightarrow>
     run_check human_check i c = None \<and> (\<forall>k \<in> set REAL_CHECKS - {human_check}. run_check k i c = None)"
  unfolding approves_list list_all_iff using human_check_mem by blast

lemma ack_ids_unused [simp]:
  "order_cost i (c\<lparr>acknowledged_intent_ids := S\<rparr>) = order_cost i c"
  "is_derisking_close i (c\<lparr>acknowledged_intent_ids := S\<rparr>) = is_derisking_close i c"
  by (simp_all add: order_cost_def is_derisking_close_def split: option.split)

lemma other_checks_ignore_ack:
  assumes "k \<in> set REAL_CHECKS" and "k \<noteq> human_check"
  shows "run_check k i (c\<lparr>acknowledged_intent_ids := S\<rparr>) = run_check k i c"
proof -
  let ?c = "c\<lparr>acknowledged_intent_ids := S\<rparr>"
  have same: "InstrumentWhitelist i ?c = InstrumentWhitelist i c"
    "JurisdictionProductEligibility i ?c = JurisdictionProductEligibility i c"
    "ModePermissionCeiling i ?c = ModePermissionCeiling i c" "FloorInvariant i ?c = FloorInvariant i c"
    "FeeUpperBoundPresent i ?c = FeeUpperBoundPresent i c" "QuoteFreshness i ?c = QuoteFreshness i c"
    "SettlementFeeUpperBound i ?c = SettlementFeeUpperBound i c" "DailyLossLimit i ?c = DailyLossLimit i c"
    "TrailingDrawdownLimit i ?c = TrailingDrawdownLimit i c" "ForecastFreshness i ?c = ForecastFreshness i c"
    "PriceBandCompliance i ?c = PriceBandCompliance i c" "ClockSkewLimit i ?c = ClockSkewLimit i c"
    "ParticipationCapCompliance i ?c = ParticipationCapCompliance i c"
    "ConcentrationLimits i ?c = ConcentrationLimits i c" "VelocityLimits i ?c = VelocityLimits i c"
    "ApprovalTokenUniqueness i ?c = ApprovalTokenUniqueness i c" "ExchangeStatusOk i ?c = ExchangeStatusOk i c"
    "IdempotencyKeyUniqueness i ?c = IdempotencyKeyUniqueness i c"
    "PipelineHeartbeatOk i ?c = PipelineHeartbeatOk i c" "ReduceOnlyProvable i ?c = ReduceOnlyProvable i c"
    by (simp_all add: InstrumentWhitelist_def JurisdictionProductEligibility_def ModePermissionCeiling_def
        FloorInvariant_def floor_cost_def FeeUpperBoundPresent_def SettlementFeeUpperBound_def
        DailyLossLimit_def TrailingDrawdownLimit_def QuoteFreshness_def ForecastFreshness_def
        PriceBandCompliance_def ParticipationCapCompliance_def ConcentrationLimits_def VelocityLimits_def
        ApprovalTokenUniqueness_def IdempotencyKeyUniqueness_def ClockSkewLimit_def ExchangeStatusOk_def
        PipelineHeartbeatOk_def ReduceOnlyProvable_def Let_def
        split: option.split sum.split cost_error.split)
  have recon: "ReconciliationCheck ok sr mr g i ?c = ReconciliationCheck ok sr mr g i c" for ok sr mr g
    by (simp add: ReconciliationCheck_def split: option.split)
  have tot: "run_check (total_check nm f) i ?c = run_check (total_check nm f) i c" if "f i ?c = f i c" for nm f
    using that by (simp add: run_check_def total_check_def)
  have "list_all (\<lambda>k. k = human_check \<or> run_check k i ?c = run_check k i c) REAL_CHECKS"
    unfolding REAL_CHECKS_def RECONCILIATION_CHECKS_def by (simp add: tot same recon)
  with assms show ?thesis by (auto simp: list_all_iff)
qed

lemma sole_ack_reason_approves:
  "reasons (evaluate_intent i c DEFAULT_CHECKS) = [HUMAN_ACK_REQUIRED_REASON] \<longleftrightarrow>
   \<not> approves i c \<and> approves i (c\<lparr>acknowledged_intent_ids := insert (intent_id i) (acknowledged_intent_ids c)\<rparr>)"
proof -
  let ?c = "c\<lparr>acknowledged_intent_ids := insert (intent_id i) (acknowledged_intent_ids c)\<rparr>"
  have human: "run_check human_check i c = Some HUMAN_ACK_REQUIRED_REASON \<longleftrightarrow>
      run_check human_check i c \<noteq> None \<and> run_check human_check i ?c = None"
    by (cases rule: order_cost_cases [of i c])
      (auto simp: run_check_def total_check_def HumanAckSatisfied_def UNPROVABLE_REASON_def
        HUMAN_ACK_REQUIRED_REASON_def approve_def veto_def split: option.splits if_splits)
  have others: "(\<forall>k \<in> set REAL_CHECKS - {human_check}. run_check k i ?c = None) \<longleftrightarrow>
      (\<forall>k \<in> set REAL_CHECKS - {human_check}. run_check k i c = None)"
    using other_checks_ignore_ack by auto
  show ?thesis unfolding sole_ack_reason_iff approves_except_human human others by argo
qed

subsection \<open>The queue\<close>

lemma ack_record_event_simps [simp]:
  "ack_records (ack_record_event e p q) = ack_records q"
  "ack_ttl_seconds (ack_record_event e p q) = ack_ttl_seconds q"
  "pending_acks (ack_record_event e p q) = pending_acks q"
  "granted_intent_ids (ack_record_event e p q) = granted_intent_ids q"
  "ack_inv (ack_record_event e p q) = ack_inv q"
  by (simp_all add: ack_record_event_def pending_acks_def granted_intent_ids_def ack_inv_def)

lemma has_pending_iff: "has_pending_intent iid q \<longleftrightarrow> iid \<in> ack_intent_id ` set (pending_acks q)"
  by (force simp: has_pending_intent_def pending_acks_def list_ex_iff)

lemma find_pending_None:
  "List.find (\<lambda>p. ack_intent_id p = iid) (pending_acks q) = None \<longleftrightarrow> \<not> has_pending_intent iid q"
  by (auto simp: has_pending_iff find_None_iff)

lemma submit_returns: "is_ok (submit hmac pl aid i c q led)"
proof -
  let ?e = "stamp_acknowledged q c"
  show ?thesis
  proof (cases rule: approve_cases [of i led ?e hmac pl])
    case (vetoed out)
    have cost: "order_cost i ?e \<noteq> Inl UnprovableCostError" if "reasons (decision out) = [HUMAN_ACK_REQUIRED_REASON]"
    proof -
      from that vetoed(4) have "approves i ((effective_context led ?e)\<lparr>acknowledged_intent_ids :=
          insert (intent_id i) (acknowledged_intent_ids (effective_context led ?e))\<rparr>)"
        by (simp add: sole_ack_reason_approves)
      from gate.bounded [OF this] show ?thesis by (auto simp: fees_bounded_def order_cost_def)
    qed
    then show ?thesis
      using vetoed find_pending_None [of "intent_id i" q]
      by (auto simp: submit_def Let_def request_or_existing_hold_def request_ack_def
          split: option.split sum.split cost_error.splits)
        (metis cost_error.exhaust)+
  next
    case (issued out cost r led1 e p)
    then have "\<not> dec_vetoed (decision out)" by (simp add: approves_def)
    with issued show ?thesis by (simp add: submit_def Let_def)
  qed
qed

lemma mem_pending: "p \<in> set (pending_acks q) \<longleftrightarrow> (\<exists>k r. (k, r) \<in> set (ack_records q) \<and> status r = ACK_PENDING \<and> pending r = p)"
  by (force simp: pending_acks_def)

lemma mem_granted: "iid \<in> granted_intent_ids q \<longleftrightarrow>
    (\<exists>k r. (k, r) \<in> set (ack_records q) \<and> status r = ACK_GRANTED \<and> ack_intent_id (pending r) = iid)"
  by (force simp: granted_intent_ids_def)

lemma ack_inv_request:
  assumes "ack_inv q" and "request_ack aid iid cost now q = Inr (p, q')"
    and fresh: "dict_get (ack_records q) aid = None"
  shows "ack_inv q'" and "granted_intent_ids q' = granted_intent_ids q"
    and "set (pending_acks q') = insert p (set (pending_acks q))"
proof -
  from assms(2) have np: "\<not> has_pending_intent iid q"
    and p: "p = \<lparr>approval_id = aid, ack_intent_id = iid, ack_worst_case_cost = cost, requested_at = now,
      ack_expires_at = now + ack_ttl_seconds q\<rparr>"
    and recs: "ack_records q' = dict_set aid \<lparr>pending = p, status = ACK_PENDING\<rparr> (ack_records q)"
    by (auto simp: request_ack_def Let_def split: if_splits)
  have recs': "ack_records q' = ack_records q @ [(aid, \<lparr>pending = p, status = ACK_PENDING\<rparr>)]"
    using fresh unfolding recs dict_get_keys by (rule dict_set_fresh)
  have np': "ack_intent_id (pending r) \<noteq> iid" if "(k, r) \<in> set (ack_records q)" "status r = ACK_PENDING" for k r
    using np that by (auto simp: has_pending_intent_def list_ex_iff)
  have "dict_wf (ack_records q')" using assms(1) by (simp add: recs dict.wf_set ack_inv_def)
  moreover have "\<forall>(k, r) \<in> set (ack_records q'). approval_id (pending r) = k"
    using assms(1) by (auto simp: recs' p ack_inv_def)
  moreover have "\<forall>(k, r) \<in> set (ack_records q'). \<forall>(k', r') \<in> set (ack_records q').
       status r = ACK_PENDING \<and> status r' = ACK_PENDING \<and>
       ack_intent_id (pending r) = ack_intent_id (pending r') \<longrightarrow> k = k'"
    using assms(1) np' by (fastforce simp: recs' p ack_inv_def)
  ultimately show "ack_inv q'" by (simp add: ack_inv_def)
  show "granted_intent_ids q' = granted_intent_ids q" by (simp add: granted_intent_ids_def recs')
  show "set (pending_acks q') = insert p (set (pending_acks q))" by (auto simp: pending_acks_def recs')
qed

lemma ex_pair_insert: "(\<exists>k x. (k, x) \<in> insert (a, b) S \<and> P k x) \<longleftrightarrow> P a b \<or> (\<exists>k x. (k, x) \<in> S \<and> P k x)"
  by blast

text \<open>Settling one request, by a grant or a lapse.\<close>

lemma settle:
  assumes "ack_inv q" and "dict_get (ack_records q) aid = Some r" and "status r = ACK_PENDING" and "s \<noteq> ACK_PENDING"
    and recs: "ack_records q' = dict_set aid (r\<lparr>status := s\<rparr>) (ack_records q)"
  shows "ack_inv q'" and "set (pending_acks q') = set (pending_acks q) - {pending r}"
    and "granted_intent_ids q' =
      (if s = ACK_GRANTED then insert (ack_intent_id (pending r)) (granted_intent_ids q) else granted_intent_ids q)"
proof -
  have wf: "dict_wf (ack_records q)" using assms(1) by (simp add: ack_inv_def)
  have mem: "(aid, r) \<in> set (ack_records q)" using assms(2) by (rule dict_get_in_values)
  have set': "set (ack_records q') = insert (aid, r\<lparr>status := s\<rparr>) {x \<in> set (ack_records q). fst x \<noteq> aid}"
    unfolding recs by (rule set_dict_set [OF wf])
  have only: "x = r" if "(aid, x) \<in> set (ack_records q)" for x
    using dict_get_of_mem [OF wf that] assms(2) by simp
  have ids: "approval_id (pending x) = k" if "(k, x) \<in> set (ack_records q)" for k x
    using assms(1) that by (auto simp: ack_inv_def)
  show "set (pending_acks q') = set (pending_acks q) - {pending r}"
  proof (intro set_eqI iffI)
    fix p assume "p \<in> set (pending_acks q')"
    then obtain k x where kx: "(k, x) \<in> set (ack_records q)" "k \<noteq> aid" "status x = ACK_PENDING" "pending x = p"
      using assms(4) by (auto simp: mem_pending set')
    then have "p \<noteq> pending r" using ids [OF kx(1)] ids [OF mem] by auto
    with kx show "p \<in> set (pending_acks q) - {pending r}" by (auto simp: mem_pending)
  next
    fix p assume "p \<in> set (pending_acks q) - {pending r}"
    then obtain k x where "(k, x) \<in> set (ack_records q)" "status x = ACK_PENDING" "pending x = p" "x \<noteq> r"
      by (auto simp: mem_pending)
    then show "p \<in> set (pending_acks q')" using only by (auto simp: mem_pending set')
  qed
  show "granted_intent_ids q' =
      (if s = ACK_GRANTED then insert (ack_intent_id (pending r)) (granted_intent_ids q) else granted_intent_ids q)"
  proof (intro set_eqI)
    fix iid
    have "iid \<in> granted_intent_ids q' \<longleftrightarrow> s = ACK_GRANTED \<and> iid = ack_intent_id (pending r) \<or>
        (\<exists>k x. (k, x) \<in> set (ack_records q) \<and> k \<noteq> aid \<and> status x = ACK_GRANTED \<and> ack_intent_id (pending x) = iid)"
      unfolding mem_granted set' ex_pair_insert by auto
    also have "(\<exists>k x. (k, x) \<in> set (ack_records q) \<and> k \<noteq> aid \<and> status x = ACK_GRANTED \<and> ack_intent_id (pending x) = iid)
        \<longleftrightarrow> iid \<in> granted_intent_ids q"
      using only assms(3) by (fastforce simp: mem_granted)
    finally show "iid \<in> granted_intent_ids q' \<longleftrightarrow> iid \<in> (if s = ACK_GRANTED
        then insert (ack_intent_id (pending r)) (granted_intent_ids q) else granted_intent_ids q)" by auto
  qed
  have "dict_wf (ack_records q')" unfolding recs using wf by (rule dict.wf_set)
  moreover have "\<forall>(k, x) \<in> set (ack_records q'). approval_id (pending x) = k"
    using ids ids [OF mem] by (auto simp: set')
  moreover have "\<forall>(k, x) \<in> set (ack_records q'). \<forall>(k', x') \<in> set (ack_records q').
       status x = ACK_PENDING \<and> status x' = ACK_PENDING \<and>
       ack_intent_id (pending x) = ack_intent_id (pending x') \<longrightarrow> k = k'"
    using assms(1,4) unfolding ack_inv_def set' by fastforce
  ultimately show "ack_inv q'" by (simp add: ack_inv_def)
qed

lemma grant_Inr:
  "grant aid now q = Inr q' \<longleftrightarrow> (\<exists>r. dict_get (ack_records q) aid = Some r \<and> status r = ACK_PENDING \<and>
     now < ack_expires_at (pending r) \<and>
     q' = ack_record_event ACK_GRANTED_EVENT
       [(''approval_id'', JStr aid), (''intent_id'', JStr (ack_intent_id (pending r))), (''granted_at'', JInt now)]
       (q\<lparr>ack_records := dict_set aid (r\<lparr>status := ACK_GRANTED\<rparr>) (ack_records q)\<rparr>))"
  by (auto simp: grant_def split: option.splits if_splits)

lemma pending_get:
  assumes "ack_inv q" and "p \<in> set (pending_acks q)"
  obtains r where "dict_get (ack_records q) (approval_id p) = Some r" "status r = ACK_PENDING" "pending r = p"
proof -
  from assms(2) obtain k r where kr: "(k, r) \<in> set (ack_records q)" "status r = ACK_PENDING" "pending r = p"
    by (auto simp: mem_pending)
  with assms(1) have "k = approval_id p" and "dict_wf (ack_records q)" by (auto simp: ack_inv_def)
  with kr dict_get_of_mem that show thesis by metis
qed

lemma get_pending:
  assumes "ack_inv q" and "dict_get (ack_records q) k = Some r" and "status r = ACK_PENDING"
  shows "pending r \<in> set (pending_acks q)" and "approval_id (pending r) = k"
proof -
  have m: "(k, r) \<in> set (ack_records q)" using assms(2) by (rule dict_get_in_values)
  then show "pending r \<in> set (pending_acks q)" using assms(3) by (auto simp: mem_pending)
  show "approval_id (pending r) = k" using assms(1) m by (auto simp: ack_inv_def)
qed

lemma grant_effect:
  assumes "ack_inv q" and "grant aid now q = Inr q'"
  obtains p where "p \<in> set (pending_acks q)" "approval_id p = aid" "now < ack_expires_at p" "ack_inv q'"
    "set (pending_acks q') = set (pending_acks q) - {p}"
    "granted_intent_ids q' = insert (ack_intent_id p) (granted_intent_ids q)"
proof -
  from assms(2) obtain r where r: "dict_get (ack_records q) aid = Some r" "status r = ACK_PENDING"
    "now < ack_expires_at (pending r)"
    and recs: "ack_records q' = dict_set aid (r\<lparr>status := ACK_GRANTED\<rparr>) (ack_records q)"
    by (auto simp: grant_Inr)
  note st = settle [OF assms(1) r(1,2) _ recs]
  show thesis
    by (rule that [of "pending r"]) (use get_pending [OF assms(1) r(1,2)] r(3) st in simp_all)
qed

lemma grant_live:
  assumes "ack_inv q" and "p \<in> set (pending_acks q)" and "now < ack_expires_at p"
  shows "is_ok (grant (approval_id p) now q)"
  using pending_get [OF assms(1,2)] assms(3) by (metis grant_Inr is_ok_simps(2))

subsection \<open>Expiry of acknowledgements\<close>

lemma lapse_fold:
  assumes "ack_inv q" and "distinct (map fst es)"
    and "\<And>k r. (k, r) \<in> set es \<Longrightarrow> dict_get (ack_records q) k = Some r"
    and "fold (lapse_one now) es (q, led) = (q', led')"
  shows "ack_inv q' \<and> granted_intent_ids q' = granted_intent_ids q \<and>
    set (pending_acks q') = set (pending_acks q)
      - {p. \<exists>(k, r) \<in> set es. pending r = p \<and> status r = ACK_PENDING \<and> ack_expires_at p \<le> now} \<and>
    active led' = fold dict_pop (map (\<lambda>(k, r). ack_intent_id (pending r))
      (filter (\<lambda>(k, r). status r = ACK_PENDING \<and> ack_expires_at (pending r) \<le> now) es)) (active led)"
  using assms
proof (induction es arbitrary: q led)
  case (Cons e es)
  obtain k r where e: "e = (k, r)" by (cases e)
  have get: "dict_get (ack_records q) k = Some r" using Cons.prems(3) e by simp
  obtain q1 led1 where one: "lapse_one now e (q, led) = (q1, led1)" by (cases "lapse_one now e (q, led)")
  have rest: "fold (lapse_one now) es (q1, led1) = (q', led')" using Cons.prems(4) one by simp
  show ?case
  proof (cases "status r = ACK_PENDING \<and> ack_expires_at (pending r) \<le> now")
    case True
    have recs: "ack_records q1 = dict_set k (r\<lparr>status := ACK_LAPSED\<rparr>) (ack_records q)"
      and led1: "active led1 = dict_pop (ack_intent_id (pending r)) (active led)"
      using one True e by (auto simp: lapse_one_def release_def)
    note st = settle [OF Cons.prems(1) get conjunct1 [OF True] _ recs]
    have "dict_get (ack_records q1) k' = Some r'" if "(k', r') \<in> set es" for k' r'
      using Cons.prems(2,3) that e by (force simp: recs dict.get_set)
    from Cons.IH [OF st(1) _ this rest] Cons.prems(2) e st True led1 show ?thesis by auto
  next
    case False
    then have "q1 = q" "led1 = led" using one e by (auto simp: lapse_one_def)
    with rest have rest': "fold (lapse_one now) es (q, led) = (q', led')" by simp
    have "dict_get (ack_records q) k' = Some r'" if "(k', r') \<in> set es" for k' r'
      using Cons.prems(3) that by simp
    from Cons.IH [OF Cons.prems(1) _ this rest'] Cons.prems(2) e False show ?thesis by auto
  qed
qed simp

lemma ack_expire_effect:
  assumes "ack_inv q" and "ack_expire_due now q led = (q', led')"
  shows "ack_inv q'" and "granted_intent_ids q' = granted_intent_ids q"
    and "set (pending_acks q') = {p \<in> set (pending_acks q). now < ack_expires_at p}"
    and "dict_get (active led') iid =
      (if \<exists>p \<in> set (pending_acks q). ack_intent_id p = iid \<and> ack_expires_at p \<le> now
       then None else dict_get (active led) iid)"
proof -
  have wf: "dict_wf (ack_records q)" using assms(1) by (simp add: ack_inv_def)
  note lf = lapse_fold [OF assms(1) _ dict_get_of_mem [OF wf], of "ack_records q" now led q' led',
      simplified assms(2) [unfolded ack_expire_due_def]]
  have d: "distinct (map fst (ack_records q))" using wf by (simp add: dict_wf_def)
  from lf d show "ack_inv q'" "granted_intent_ids q' = granted_intent_ids q" by simp_all
  have due: "(\<exists>(k, r) \<in> set (ack_records q). pending r = p \<and> status r = ACK_PENDING \<and> ack_expires_at p \<le> now)
      \<longleftrightarrow> p \<in> set (pending_acks q) \<and> ack_expires_at p \<le> now" for p
    unfolding mem_pending by blast
  from lf d have "set (pending_acks q') = set (pending_acks q)
      - {p. \<exists>(k, r) \<in> set (ack_records q). pending r = p \<and> status r = ACK_PENDING \<and> ack_expires_at p \<le> now}"
    by simp
  moreover have "A - {p. p \<in> A \<and> ack_expires_at p \<le> now} = {p \<in> A. now < ack_expires_at p}" for A :: "PendingHumanAck set"
    by auto
  ultimately show "set (pending_acks q') = {p \<in> set (pending_acks q). now < ack_expires_at p}"
    by (simp only: due)
  let ?ids = "map (\<lambda>(k, r). ack_intent_id (pending r))
      (filter (\<lambda>(k, r). status r = ACK_PENDING \<and> ack_expires_at (pending r) \<le> now) (ack_records q))"
  have "active led' = fold dict_pop ?ids (active led)" using lf d by simp
  moreover have "iid \<in> set ?ids \<longleftrightarrow> (\<exists>p \<in> set (pending_acks q). ack_intent_id p = iid \<and> ack_expires_at p \<le> now)"
  proof -
    let ?due = "\<exists>k r. (k, r) \<in> set (ack_records q) \<and> status r = ACK_PENDING \<and>
        ack_expires_at (pending r) \<le> now \<and> ack_intent_id (pending r) = iid"
    have "iid \<in> set ?ids \<longleftrightarrow> ?due"
      by (simp only: set_map set_filter image_iff Bex_def mem_Collect_eq split_paired_Ex prod.case) metis
    also have "?due \<longleftrightarrow> (\<exists>p \<in> set (pending_acks q). ack_intent_id p = iid \<and> ack_expires_at p \<le> now)"
      unfolding Bex_def mem_pending by blast
    finally show ?thesis .
  qed
  ultimately show "dict_get (active led') iid =
      (if \<exists>p \<in> set (pending_acks q). ack_intent_id p = iid \<and> ack_expires_at p \<le> now
       then None else dict_get (active led) iid)"
    by (simp only: dict.get_pops)
qed

subsection \<open>The drop-box\<close>

lemma grant_named_effect:
  assumes inv: "ack_inv q"
  shows "ack_inv (grant_named now name q)"
    and "set (pending_acks (grant_named now name q)) =
      {p \<in> set (pending_acks q). \<not> (approval_id p = name \<and> now < ack_expires_at p)}"
    and "granted_intent_ids (grant_named now name q) = granted_intent_ids q \<union>
      ack_intent_id ` {p \<in> set (pending_acks q). approval_id p = name \<and> now < ack_expires_at p}"
proof -
  have "ack_inv (grant_named now name q) \<and> set (pending_acks (grant_named now name q)) =
      {p \<in> set (pending_acks q). \<not> (approval_id p = name \<and> now < ack_expires_at p)} \<and>
      granted_intent_ids (grant_named now name q) = granted_intent_ids q \<union>
      ack_intent_id ` {p \<in> set (pending_acks q). approval_id p = name \<and> now < ack_expires_at p}"
  proof (cases "grant name now q")
    case (Inl e)
    have no: "\<not> (approval_id p = name \<and> now < ack_expires_at p)" if "p \<in> set (pending_acks q)" for p
      using grant_live [OF inv that, of now] Inl by auto
    then have "{p \<in> set (pending_acks q). approval_id p = name \<and> now < ack_expires_at p} = {}"
      "{p \<in> set (pending_acks q). \<not> (approval_id p = name \<and> now < ack_expires_at p)} = set (pending_acks q)"
      by blast+
    with Inl inv show ?thesis by (simp only: grant_named_def sum.case image_empty Un_empty_right simp_thms)
  next
    case (Inr q1)
    from grant_effect [OF inv Inr] obtain p where p: "p \<in> set (pending_acks q)" "approval_id p = name"
      "now < ack_expires_at p" "ack_inv q1" "set (pending_acks q1) = set (pending_acks q) - {p}"
      "granted_intent_ids q1 = insert (ack_intent_id p) (granted_intent_ids q)" by blast
    have uniq: "x = p" if x: "x \<in> set (pending_acks q)" "approval_id x = name" for x
      using pending_get [OF inv x(1)] pending_get [OF inv p(1)] x(2) p(2) by (metis option.inject)
    have "{x \<in> set (pending_acks q). approval_id x = name \<and> now < ack_expires_at x} = {p}"
      "{x \<in> set (pending_acks q). \<not> (approval_id x = name \<and> now < ack_expires_at x)} = set (pending_acks q) - {p}"
      using p(1-3) uniq by blast+
    with p(4-6) Inr show ?thesis by (simp add: grant_named_def)
  qed
  then show "ack_inv (grant_named now name q)"
    and "set (pending_acks (grant_named now name q)) =
      {p \<in> set (pending_acks q). \<not> (approval_id p = name \<and> now < ack_expires_at p)}"
    and "granted_intent_ids (grant_named now name q) = granted_intent_ids q \<union>
      ack_intent_id ` {p \<in> set (pending_acks q). approval_id p = name \<and> now < ack_expires_at p}"
    by blast+
qed

lemma grant_fold_split:
  "fold (grant_and_consume now) names (d, q) =
     (map_option (filter (\<lambda>(n, _). n \<notin> set names)) d, fold (grant_named now) names q)"
proof (induction names arbitrary: d q)
  case Nil
  show ?case by (cases d) simp_all
next
  case (Cons name names)
  have "filter (\<lambda>(n, _). n \<notin> set names) (filter (\<lambda>(n, _). n \<noteq> name) es)
      = filter (\<lambda>(n, _). n \<notin> set (name # names)) es" for es :: "(string \<times> bool) list"
    by (simp add: case_prod_beta' conj_commute)
  with Cons.IH show ?case
    by (simp add: grant_and_consume_def grant_named_def [symmetric] option.map_comp o_def)
qed

lemma grant_named_fold:
  assumes "ack_inv q"
  shows "ack_inv (fold (grant_named now) names q)
    \<and> set (pending_acks (fold (grant_named now) names q)) =
      {p \<in> set (pending_acks q). \<not> (approval_id p \<in> set names \<and> now < ack_expires_at p)}
    \<and> granted_intent_ids (fold (grant_named now) names q) = granted_intent_ids q \<union>
      ack_intent_id ` {p \<in> set (pending_acks q). approval_id p \<in> set names \<and> now < ack_expires_at p}"
  using assms
proof (induction names arbitrary: q)
  case (Cons name names)
  note eff = grant_named_effect [OF Cons.prems, of now name]
  note IH = Cons.IH [OF eff(1)]
  let ?P = "\<lambda>S. {p \<in> set (pending_acks q). approval_id p \<in> S \<and> now < ack_expires_at p}"
  have "ack_intent_id ` ?P (set (name # names)) = ack_intent_id ` ?P {name} \<union>
      ack_intent_id ` {p \<in> {p \<in> set (pending_acks q). \<not> (approval_id p = name \<and> now < ack_expires_at p)}.
        approval_id p \<in> set names \<and> now < ack_expires_at p}"
    unfolding image_Un [symmetric] by (rule arg_cong [where f = "image ack_intent_id"]) auto
  with IH eff(2,3) show ?case by (simp add: Un_assoc) blast
qed simp

lemma ack_poll_fold:
  "ack_poll_once now (Some entries) q =
     fold (grant_and_consume now) (map fst (filter snd (sort_key fst entries))) (Some entries, q)"
proof -
  have "fold (\<lambda>(name, is_file) st. if is_file then grant_and_consume now name st else st) es st
      = fold (grant_and_consume now) (map fst (filter snd es)) st" for es st
    by (induction es arbitrary: st) auto
  then show ?thesis by (simp add: ack_poll_once_def)
qed

subsection \<open>Holding an intent\<close>

lemma submit_held_pending:
  assumes "submit hmac pl aid i c q led = Inr (out, q', led')" and "held out"
  shows "\<exists>p. pending_ack out = Some p \<and> led' = led \<and>
    \<not> approves i (effective_context led (stamp_acknowledged q c)) \<and>
    reasons (evaluate_intent i (effective_context led (stamp_acknowledged q c)) DEFAULT_CHECKS) = [HUMAN_ACK_REQUIRED_REASON] \<and>
    request_or_existing_hold aid i (stamp_acknowledged q c) q = Inr (p, q')"
proof (cases rule: approve_cases [of i led "stamp_acknowledged q c" hmac pl])
  case (vetoed o')
  with assms show ?thesis by (auto simp: submit_def Let_def split: if_splits sum.splits prod.splits)
next
  case (issued o' cost r led1 ev p)
  then have "\<not> dec_vetoed (decision o')" by (simp add: approves_def)
  with issued assms show ?thesis by (auto simp: submit_def Let_def)
qed

lemma hold_effect:
  assumes "ack_inv q" and fresh: "dict_get (ack_records q) aid = None"
    and "submit hmac pl aid i c q led = Inr (out, q', led')" and "held out" and "pending_ack out = Some p"
  shows "ack_inv q'" and "p \<in> set (pending_acks q')" and "ack_intent_id p = intent_id i"
    and "granted_intent_ids q' = granted_intent_ids q" and "led' = led"
    and "approves i ((effective_context led (stamp_acknowledged q c))
      \<lparr>acknowledged_intent_ids := insert (intent_id i) (granted_intent_ids q)\<rparr>)"
proof -
  from submit_held_pending [OF assms(3,4)] assms(5) have led: "led' = led"
    and rs: "reasons (evaluate_intent i (effective_context led (stamp_acknowledged q c)) DEFAULT_CHECKS) = [HUMAN_ACK_REQUIRED_REASON]"
    and hold: "request_or_existing_hold aid i (stamp_acknowledged q c) q = Inr (p, q')" by auto
  show "led' = led" by (rule led)
  have "acknowledged_intent_ids (effective_context led (stamp_acknowledged q c)) = granted_intent_ids q"
    by (simp add: effective_context_def stamp_acknowledged_def)
  with rs show "approves i ((effective_context led (stamp_acknowledged q c))
      \<lparr>acknowledged_intent_ids := insert (intent_id i) (granted_intent_ids q)\<rparr>)"
    by (simp add: sole_ack_reason_approves)
  have "ack_inv q' \<and> p \<in> set (pending_acks q') \<and> ack_intent_id p = intent_id i \<and> granted_intent_ids q' = granted_intent_ids q"
  proof (cases "List.find (\<lambda>p. ack_intent_id p = intent_id i) (pending_acks q)")
    case (Some p')
    with hold have "p' = p" "q' = q" by (auto simp: request_or_existing_hold_def)
    moreover from Some have "p' \<in> set (pending_acks q) \<and> ack_intent_id p' = intent_id i"
      by (auto simp: find_Some_iff)
    ultimately show ?thesis using assms(1) by simp
  next
    case None
    with hold obtain cost where r: "request_ack aid (intent_id i) cost (now_epoch_s (stamp_acknowledged q c)) q = Inr (p, q')"
      by (auto simp: request_or_existing_hold_def split: sum.splits)
    then have "ack_intent_id p = intent_id i" by (auto simp: request_ack_def Let_def split: if_splits)
    with ack_inv_request [OF assms(1) r fresh] show ?thesis by simp
  qed
  then show "ack_inv q'" and "p \<in> set (pending_acks q')" and "ack_intent_id p = intent_id i"
    and "granted_intent_ids q' = granted_intent_ids q" by simp_all
qed

lemma ack_context_approves_except:
  assumes "intent_id sample_intent \<notin> seen_intent_ids led" "idempotency_key sample_intent \<notin> seen_idempotency_keys led"
    and "val (total_reserved led) = 0" and "1420000 \<le> thr \<or> ''i1'' \<in> S"
  shows "approves sample_intent ((effective_context led (ack_context t thr))\<lparr>acknowledged_intent_ids := S\<rparr>)"
  using assms
  by (auto simp: approves_iff check_approves fees_bounded_def not_stale_iff sample_intent_def ack_context_def
      sample_context_def sample_limits_def sample_account_def sample_snapshot_def may_trade_def
      TRADING_MODES_def LIVE_TRADING_MODES_def order_cost_val_def equity_of_def is_derisking_close_def
      CLOSING_ACTIONS_def unit_le_iff effective_context_def)

lemma effective_stamp:
  "effective_context led (stamp_acknowledged q c) = (effective_context led c)\<lparr>acknowledged_intent_ids := granted_intent_ids q\<rparr>"
  by (simp add: effective_context_def stamp_acknowledged_def)

lemma ack_context_approved:
  "approves sample_intent (effective_context (ReservationLedger_new []) (stamp_acknowledged q (ack_context t 5000000)))"
  unfolding effective_stamp
  by (rule ack_context_approves_except) (simp_all add: ReservationLedger_new_def total_reserved_def)

lemma sample_held:
  "\<exists>out q' led'. submit hmac pl ''a1'' sample_intent (ack_context 1000 1000000) (HumanAckQueue_new 3600 [])
     (ReservationLedger_new []) = Inr (out, q', led') \<and> held out"
proof -
  let ?q0 = "HumanAckQueue_new 3600 []" and ?l0 = "ReservationLedger_new []" and ?c = "ack_context 1000 1000000"
  let ?e = "effective_context ?l0 (stamp_acknowledged ?q0 ?c)"
  have g: "granted_intent_ids ?q0 = {}" by (simp add: granted_intent_ids_def HumanAckQueue_new_def)
  have "cr_vetoed (HumanAckSatisfied sample_intent ?e)"
    unfolding effective_stamp g
    by (simp add: HumanAckSatisfied_def order_cost_def ack_context_def sample_limits_def effective_context_def
        LIVE_TRADING_MODES_def sample_context_def sample_intent_def unit_less_iff)
  then have "\<not> approves sample_intent ?e" by (simp add: approves_iff)
  moreover have "approves sample_intent (?e\<lparr>acknowledged_intent_ids := insert (intent_id sample_intent) {}\<rparr>)"
    unfolding effective_stamp using ack_context_approves_except [of ?l0 1000000 "{''i1''}" 1000]
    by (simp add: ReservationLedger_new_def total_reserved_def sample_intent_def)
  ultimately have rs: "reasons (evaluate_intent sample_intent ?e DEFAULT_CHECKS) = [HUMAN_ACK_REQUIRED_REASON]"
    and nv: "\<not> approves sample_intent ?e"
    by (simp_all add: sole_ack_reason_approves effective_stamp g)
  obtain out q' led' where s: "submit hmac pl ''a1'' sample_intent ?c ?q0 ?l0 = Inr (out, q', led')"
    using submit_returns [of hmac pl "''a1''" sample_intent ?c ?q0 ?l0] by (metis is_okE prod_cases3)
  have "held out"
    using s rs nv approve_vetoed [OF nv, of hmac pl]
    by (auto simp: submit_def Let_def approves_def split: sum.splits prod.splits)
  with s show ?thesis by blast
qed

lemma sample_hold_expiry:
  assumes "submit hmac pl aid i (ack_context 1000 thr) (HumanAckQueue_new 3600 []) led = Inr (out, q', led')"
    and "held out" and "pending_ack out = Some p"
  shows "ack_expires_at p = 4600"
  using submit_held_pending [OF assms(1,2)] assms(3)
  by (auto simp: request_or_existing_hold_def request_ack_def Let_def pending_acks_def has_pending_intent_def
      HumanAckQueue_new_def stamp_acknowledged_def ack_context_def split: sum.splits)

section \<open>Properties\<close>

text \<open>Submission never raises, and an intent is held exactly when the missing acknowledgement is the
  only obstacle: it is not approved as things stand, and would be with its own id acknowledged and
  nothing else changed. A token is returned exactly when every check approves; a held or vetoed intent
  leaves the reservation ledger untouched.\<close>

theorem held_exactly_when_only_ack_missing:
  "\<exists>out q' led'. submit hmac pl aid i c q led = Inr (out, q', led') \<and>
     (let e = effective_context led (stamp_acknowledged q c) in
      held out = (\<not> approves i e \<and>
        approves i (e\<lparr>acknowledged_intent_ids := insert (intent_id i) (granted_intent_ids q)\<rparr>)) \<and>
      (ag_token out \<noteq> None) = approves i e \<and> (approves i e \<or> led' = led))"
proof -
  let ?s = "stamp_acknowledged q c"
  let ?e = "effective_context led ?s"
  have ids: "acknowledged_intent_ids ?e = granted_intent_ids q"
    by (simp add: effective_context_def stamp_acknowledged_def)
  obtain out q' led' where sub: "submit hmac pl aid i c q led = Inr (out, q', led')"
    using submit_returns [of hmac pl aid i c q led] by (metis is_okE prod_cases3)
  show ?thesis
  proof (cases rule: approve_cases [of i led ?s hmac pl])
    case (vetoed o')
    then have "dec_vetoed (decision o')" by (simp add: approves_def)
    with vetoed sub sole_ack_reason_approves [of i ?e] ids show ?thesis
      by (auto simp: submit_def Let_def split: if_splits sum.splits prod.splits)
  next
    case (issued o' cost r led1 ev p)
    then have "\<not> dec_vetoed (decision o')" by (simp add: approves_def)
    with issued sub show ?thesis by (auto simp: submit_def Let_def)
  qed
qed

text \<open>Lapsing is exact: after \<open>expire_due now\<close> the pending requests are those that expire strictly
  later, every granted acknowledgement is kept, and a reservation is dropped exactly for the intents of
  the lapsed requests.\<close>

theorem ack_expiry_exact:
  assumes "ack_inv q" and "ack_expire_due now q led = (q', led')"
  shows "ack_inv q' \<and> granted_intent_ids q' = granted_intent_ids q
    \<and> set (pending_acks q') = {p \<in> set (pending_acks q). now < ack_expires_at p}
    \<and> dict_get (active led') iid =
      (if \<exists>p \<in> set (pending_acks q). ack_intent_id p = iid \<and> ack_expires_at p \<le> now
       then None else dict_get (active led) iid)"
  using ack_expire_effect [OF assms] by blast

theorem ack_expiry_exact_witness:
  "\<exists>p q. request_ack ''a1'' ''i1'' (IntUnit 9) 1000 (HumanAckQueue_new 3600 []) = Inr (p, q) \<and>
     ack_expires_at p = 4600 \<and>
     set (pending_acks (fst (ack_expire_due 5000 q (ReservationLedger_new [])))) = {}"
proof -
  let ?q0 = "HumanAckQueue_new 3600 []"
  obtain p q where r: "request_ack ''a1'' ''i1'' (IntUnit 9) 1000 ?q0 = Inr (p, q)" and e: "ack_expires_at p = 4600"
    by (auto simp: request_ack_def Let_def has_pending_intent_def HumanAckQueue_new_def)
  have i0: "ack_inv ?q0" by (simp add: ack_inv_def HumanAckQueue_new_def)
  have f0: "dict_get (ack_records ?q0) ''a1'' = None" by (simp add: HumanAckQueue_new_def)
  have p0: "pending_acks ?q0 = []" by (simp add: pending_acks_def HumanAckQueue_new_def)
  obtain q' led' where x: "ack_expire_due 5000 q (ReservationLedger_new []) = (q', led')" by fastforce
  note rq = ack_inv_request [OF i0 r f0]
  from ack_expiry_exact [OF rq(1) x] rq(3) e p0 have "set (pending_acks q') = {}" by auto
  with r e x show ?thesis by (metis fst_conv)
qed

text \<open>One poll of the drop-box grants exactly the pending, unexpired requests named by a regular
  file and no others, whatever else the directory contains, and consumes every name it looked at: only
  entries whose name is not a file's name remain. A missing directory changes nothing.\<close>

theorem drop_box_grants_exactly_named:
  assumes "ack_inv q" and "ack_poll_once now d q = (d', q')"
  shows "let names = (case d of None \<Rightarrow> {} | Some es \<Rightarrow> fst ` {e \<in> set es. snd e}) in
    granted_intent_ids q' = granted_intent_ids q \<union>
      ack_intent_id ` {p \<in> set (pending_acks q). approval_id p \<in> names \<and> now < ack_expires_at p}
    \<and> set (pending_acks q') = {p \<in> set (pending_acks q). \<not> (approval_id p \<in> names \<and> now < ack_expires_at p)}
    \<and> d' = map_option (filter (\<lambda>(n, _). n \<notin> names)) d \<and> ack_inv q'"
proof (cases d)
  case None
  with assms show ?thesis by (auto simp: ack_poll_once_def)
next
  case (Some es)
  have "set (map fst (filter snd (sort_key fst es))) = fst ` {e \<in> set es. snd e}" by auto
  moreover have "d' = map_option (filter (\<lambda>(n, _). n \<notin> set (map fst (filter snd (sort_key fst es))))) (Some es)"
    "q' = fold (grant_named now) (map fst (filter snd (sort_key fst es))) q"
    using assms(2) unfolding Some ack_poll_fold grant_fold_split by simp_all
  ultimately show ?thesis
    using grant_named_fold [OF assms(1), of now "map fst (filter snd (sort_key fst es))"] Some
    by (simp only: Let_def option.case)
qed

theorem drop_box_grants_exactly_named_witness:
  "fst (ack_poll_once 7 (Some [(''zz'', True), (''sub'', False)]) (HumanAckQueue_new 3600 [])) = Some [(''sub'', False)]"
proof -
  have "ack_inv (HumanAckQueue_new 3600 [])" by (simp add: ack_inv_def HumanAckQueue_new_def)
  note x = drop_box_grants_exactly_named [OF this prod.collapse [symmetric], where now = 7 and d = "Some [(''zz'', True), (''sub'', False)]"]
  have n: "fst ` {e \<in> set [(''zz'', True), (''sub'', False)]. snd e} = {''zz''}" by force
  from x have "fst (ack_poll_once 7 (Some [(''zz'', True), (''sub'', False)]) (HumanAckQueue_new 3600 []))
      = map_option (filter (\<lambda>(k, _). k \<notin> {''zz''})) (Some [(''zz'', True), (''sub'', False)])"
    unfolding Let_def option.case n by blast
  then show ?thesis by simp
qed

text \<open>A hold is resolved by its grant: once the operator grants the approval id of a held intent
  before it lapses, the grant succeeds and resubmitting the same intent in the same context returns a
  token.\<close>

theorem grant_resolves_hold:
  assumes "ack_inv q" and "dict_get (ack_records q) aid = None"
    and sub: "submit hmac pl aid i c q led = Inr (out, q', led')" and "held out"
    and "pending_ack out = Some p" and "t < ack_expires_at p"
  shows "\<exists>q'' out2 q3 led3. grant (approval_id p) t q' = Inr q'' \<and>
    submit hmac pl aid2 i c q'' led' = Inr (out2, q3, led3) \<and> ag_token out2 \<noteq> None"
proof -
  note hx = hold_effect [OF assms(1,2) sub assms(4,5)]
  from grant_live [OF hx(1,2) assms(6)] obtain q'' where g: "grant (approval_id p) t q' = Inr q''" by blast
  obtain p' where p': "p' \<in> set (pending_acks q')" "approval_id p' = approval_id p"
    "granted_intent_ids q'' = insert (ack_intent_id p') (granted_intent_ids q')"
    by (rule grant_effect [OF hx(1) g])
  have "p' = p" using pending_get [OF hx(1) p'(1)] pending_get [OF hx(1,2)] p'(2) by (metis option.inject)
  with p'(3) hx(3,4) have gr: "granted_intent_ids q'' = insert (intent_id i) (granted_intent_ids q)" by simp
  have "effective_context led' (stamp_acknowledged q'' c) = (effective_context led (stamp_acknowledged q c))
      \<lparr>acknowledged_intent_ids := insert (intent_id i) (granted_intent_ids q)\<rparr>"
    using hx(5) by (simp add: effective_context_def stamp_acknowledged_def gr)
  with hx(6) have ok: "approves i (effective_context led' (stamp_acknowledged q'' c))" by simp
  show ?thesis
  proof (cases rule: approve_cases [of i led' "stamp_acknowledged q'' c" hmac pl])
    case (issued o' cost r led1 ev pp)
    then have "\<not> dec_vetoed (decision o')" by (simp add: approves_def)
    with issued g show ?thesis by (auto simp: submit_def Let_def)
  qed (use ok in simp)
qed

theorem grant_resolves_hold_witness:
  "\<exists>p q' led' q'' out2 q3 led3.
     submit (\<lambda>k m. m) sample_pipeline ''a1'' sample_intent (ack_context 1000 1000000) (HumanAckQueue_new 3600 [])
       (ReservationLedger_new []) = Inr (p, q', led') \<and> held p \<and>
     submit (\<lambda>k m. m) sample_pipeline ''a2'' sample_intent (ack_context 1000 1000000) q'' led' = Inr (out2, q3, led3) \<and>
     ag_token out2 \<noteq> None"
proof -
  let ?q0 = "HumanAckQueue_new 3600 []" and ?l0 = "ReservationLedger_new []"
  have i0: "ack_inv ?q0" by (simp add: ack_inv_def HumanAckQueue_new_def)
  have f0: "dict_get (ack_records ?q0) ''a1'' = None" by (simp add: HumanAckQueue_new_def)
  obtain out q' led' where s: "submit (\<lambda>k m. m) sample_pipeline ''a1'' sample_intent (ack_context 1000 1000000) ?q0 ?l0
      = Inr (out, q', led')" and h: "held out" using sample_held by blast
  obtain p where p: "pending_ack out = Some p" using submit_held_pending [OF s h] by blast
  from sample_hold_expiry [OF s h p] have "1200 < ack_expires_at p" by simp
  from grant_resolves_hold [OF i0 f0 s h p this, of "''a2''"] s h show ?thesis by blast
qed

section \<open>A lapse can free capital behind a live token\<close>

text \<open>
  A request opened for an intent stays pending when the intent is later approved without it (here
  because the threshold was raised). Its lapse then releases the reservation of that approval although
  neither the reservation nor the token has expired: at 4600 the token of the second submission is
  valid until 4650 but no capital is reserved for it.
\<close>

lemma lapse_frees_live_reservation:
  "\<exists>out1 q1 l1 out2 q2 l2 tok q3 l3.
     submit (\<lambda>k m. m) sample_pipeline ''a1'' sample_intent (ack_context 1000 1000000) (HumanAckQueue_new 3600 [])
       (ReservationLedger_new []) = Inr (out1, q1, l1) \<and>
     submit (\<lambda>k m. m) sample_pipeline ''a2'' sample_intent (ack_context 4590 5000000) q1 l1 = Inr (out2, q2, l2) \<and>
     ag_token out2 = Some tok \<and> expires_at (claims tok) = 4650 \<and>
     ack_expire_due 4600 q2 l2 = (q3, l3) \<and> dict_get (active l2) ''i1'' \<noteq> None \<and> dict_get (active l3) ''i1'' = None"
proof -
  let ?q0 = "HumanAckQueue_new 3600 []" and ?l0 = "ReservationLedger_new []"
  have i0: "ack_inv ?q0" by (simp add: ack_inv_def HumanAckQueue_new_def)
  have f0: "dict_get (ack_records ?q0) ''a1'' = None" by (simp add: HumanAckQueue_new_def)
  obtain out1 q1 l1 where s1: "submit (\<lambda>k m. m) sample_pipeline ''a1'' sample_intent (ack_context 1000 1000000) ?q0 ?l0
      = Inr (out1, q1, l1)" and h: "held out1" using sample_held by blast
  obtain p where p: "pending_ack out1 = Some p" using submit_held_pending [OF s1 h] by blast
  note hx = hold_effect [OF i0 f0 s1 h p]
  note ex = sample_hold_expiry [OF s1 h p]
  have ok: "approves sample_intent (effective_context l1 (stamp_acknowledged q1 (ack_context 4590 5000000)))"
    unfolding hx(5) by (rule ack_context_approved)
  show ?thesis
  proof (cases rule: approve_cases [of sample_intent l1 "stamp_acknowledged q1 (ack_context 4590 5000000)" "\<lambda>k m. m" sample_pipeline])
    case (issued o' cost r led1 ev pp)
    then have nv: "\<not> dec_vetoed (decision o')" by (simp add: approves_def)
    let ?l2 = "res_record ev pp led1"
    obtain q3 l3 where x: "ack_expire_due 4600 q1 ?l2 = (q3, l3)" by fastforce
    have iid: "intent_id sample_intent = ''i1''" by (simp add: sample_intent_def)
    have a2: "dict_get (active ?l2) ''i1'' \<noteq> None"
      using issued(3) iid by (auto simp: reserve_Inr_iff dict.get_set)
    have "dict_get (active l3) ''i1'' = None"
      using ack_expire_effect(4) [OF hx(1) x, of "''i1''"] hx(2,3) ex iid by auto
    with s1 issued nv x a2 show ?thesis
      by (auto simp: submit_def Let_def issue_def approval_claims_def stamp_acknowledged_def ack_context_def sample_pipeline_def)
  qed (use ok in simp)
qed

end
