(* ===== verification/Kill.thy ===== *)
theory Kill
  imports Reservations
begin

text \<open>
  The kill switch and its triggers (\<open>windbreak/riskkernel/kill.py\<close>). The switch is a record of the
  mode machine it drives, the events it has written, the optional reservation ledger, the kill counter
  and whether a state directory is wired; the directory holds the presence of the KILL file and the
  REARM file, whose content is \<open>Inl\<close> when reading it fails. The alert dispatcher and the directive sink
  are functions of a \<open>kill_env\<close>: what the dispatcher reports for a message, and what the sink reports
  for a directive or that it raises. The clock reading and the dashboard nonce are arguments.
\<close>

section \<open>Definitions\<close>

subsection \<open>Constants, messages and replay\<close>

definition KILL_FILENAME :: string where "KILL_FILENAME = ''KILL''"
definition REARM_FILENAME :: string where "REARM_FILENAME = ''REARM''"
definition CANCEL_ALL_SCOPE :: string where "CANCEL_ALL_SCOPE = ''all_open_orders''"
definition RELEASE_REASON :: string where "RELEASE_REASON = ''kill_switch_engaged''"
definition HALT_KILL_MESSAGE :: string where
  "HALT_KILL_MESSAGE = ''kill switch engaged; trading halted, positions held''"
definition HALT_KILL_SEVERITY :: string where "HALT_KILL_SEVERITY = ''critical''"
definition NO_KILL_SEQUENCE :: int where "NO_KILL_SEQUENCE = 0"
definition KILL_ENGAGED_EVENT_TYPE :: string where "KILL_ENGAGED_EVENT_TYPE = ''KillEngaged''"
definition KILL_REARMED_EVENT_TYPE :: string where "KILL_REARMED_EVENT_TYPE = ''KillReArmed''"

definition cancel_all_undelivered_notice :: "DirectiveDelivery \<Rightarrow> string" where
  "cancel_all_undelivered_notice d =
     ''resting-order cancellation NOT confirmed at the venue'' @
     '' (outcome='' @ outcome_value (directive_outcome d) @ '', cancelled='' @ show_int (dd_cancelled d) @
     '', failed='' @ show_int (dd_failed d) @ '')''"

definition halt_kill_message :: "DirectiveDelivery option \<Rightarrow> string" where
  "halt_kill_message delivery =
     (case delivery of
        None \<Rightarrow> HALT_KILL_MESSAGE
      | Some d \<Rightarrow>
          (if fully_delivered d then HALT_KILL_MESSAGE
           else HALT_KILL_MESSAGE @ ''; '' @ cancel_all_undelivered_notice d))"

record ReplayedKillState =
  last_kill_sequence :: int
  rk_killed :: bool

datatype replay_error = PayloadKeyError string

definition payload_int :: "string \<Rightarrow> Event \<Rightarrow> replay_error + int" where
  "payload_int k e = (case dict_get (payload e) k of Some (JInt n) \<Rightarrow> Inr n | _ \<Rightarrow> Inl (PayloadKeyError k))"

definition absorb_kill_event :: "ReplayedKillState \<Rightarrow> Event \<Rightarrow> replay_error + ReplayedKillState" where
  "absorb_kill_event st e =
     (if event_type e = KILL_ENGAGED_EVENT_TYPE then
        res_bind (payload_int ''kill_sequence'' e)
          (\<lambda>n. Inr \<lparr>last_kill_sequence = n, rk_killed = True\<rparr>)
      else if event_type e = KILL_REARMED_EVENT_TYPE then
        res_bind (payload_int ''kill_sequence'' e)
          (\<lambda>n. Inr (if n = last_kill_sequence st then st\<lparr>rk_killed := False\<rparr> else st))
      else Inr st)"

fun absorb_kill_events :: "ReplayedKillState \<Rightarrow> event_log \<Rightarrow> replay_error + ReplayedKillState" where
  "absorb_kill_events st [] = Inr st"
| "absorb_kill_events st (e # es) = res_bind (absorb_kill_event st e) (\<lambda>st'. absorb_kill_events st' es)"

definition kill_state_in :: "event_log \<Rightarrow> replay_error + ReplayedKillState" where
  "kill_state_in events =
     absorb_kill_events \<lparr>last_kill_sequence = NO_KILL_SEQUENCE, rk_killed = False\<rparr> events"

subsection \<open>The switch\<close>

datatype KillTrigger = CLI | KILL_FILE | DASHBOARD | AUTO_RECONCILIATION

fun trigger_name :: "KillTrigger \<Rightarrow> string" where
  "trigger_name CLI = ''CLI''"
| "trigger_name KILL_FILE = ''KILL_FILE''"
| "trigger_name DASHBOARD = ''DASHBOARD''"
| "trigger_name AUTO_RECONCILIATION = ''AUTO_RECONCILIATION''"

record kill_env =
  dispatch :: "string \<Rightarrow> json list option"
  directive_sink :: "(Event \<Rightarrow> string + DirectiveDelivery option) option"

record KillSwitch =
  ks_machine :: ModeStateMachine
  ks_log :: event_log
  ks_reservations :: "ReservationLedger option"
  ks_sequence :: int
  ks_state_dir :: bool

record StateDir =
  kill_file :: bool
  rearm_file :: "(unit + string) option"

definition KillSwitch_new :: "ModeStateMachine \<Rightarrow> event_log \<Rightarrow> ReservationLedger option \<Rightarrow> bool \<Rightarrow> KillSwitch" where
  "KillSwitch_new m evs reservations dir =
     \<lparr>ks_machine = m, ks_log = evs, ks_reservations = reservations, ks_sequence = NO_KILL_SEQUENCE,
      ks_state_dir = dir\<rparr>"

definition KillSwitch_from_events ::
    "event_log \<Rightarrow> ModeStateMachine \<Rightarrow> event_log \<Rightarrow> ReservationLedger option \<Rightarrow> bool \<Rightarrow> replay_error + KillSwitch" where
  "KillSwitch_from_events events m evs reservations dir =
     res_bind (kill_state_in events)
       (\<lambda>st. Inr ((KillSwitch_new m evs reservations dir)\<lparr>ks_sequence := last_kill_sequence st\<rparr>))"

definition ks_record :: "Event \<Rightarrow> KillSwitch \<Rightarrow> KillSwitch" where
  "ks_record e s = s\<lparr>ks_log := log_record e (ks_log s)\<rparr>"

definition deliver :: "kill_env \<Rightarrow> Event \<Rightarrow> DirectiveDelivery option" where
  "deliver env directive =
     (case directive_sink env of
        None \<Rightarrow> None
      | Some sink \<Rightarrow>
          (case sink directive of
             Inl exc \<Rightarrow> Some \<lparr>dd_cancelled = 0, dd_failed = 0, dd_errored = True\<rparr>
           | Inr report \<Rightarrow> report))"

definition emit_cancel_all :: "kill_env \<Rightarrow> KillSwitch \<Rightarrow> DirectiveDelivery option \<times> KillSwitch" where
  "emit_cancel_all env s =
     (let directive = CancelAllDirective RISKKERNEL_COMPONENT CANCEL_ALL_SCOPE [] False;
          delivery = deliver env directive
      in (delivery,
          ks_record (CancelAllDirective RISKKERNEL_COMPONENT CANCEL_ALL_SCOPE
            (ledger_directive_delivery delivery) (delivery \<noteq> None)) s))"

definition release_reservations :: "KillSwitch \<Rightarrow> KillSwitch" where
  "release_reservations s =
     s\<lparr>ks_reservations := map_option (release_all_active RELEASE_REASON) (ks_reservations s)\<rparr>"

definition write_kill_file :: "KillSwitch \<Rightarrow> StateDir \<Rightarrow> StateDir" where
  "write_kill_file s d = (if ks_state_dir s then d\<lparr>kill_file := True\<rparr> else d)"

definition kill ::
    "kill_env \<Rightarrow> KillTrigger \<Rightarrow> int \<Rightarrow> KillSwitch \<Rightarrow> StateDir \<Rightarrow> mode_error + (KillSwitch \<times> StateDir)" where
  "kill env trigger clock s d =
     (if msm_mode (ks_machine s) = KILLED then Inr (s, d)
      else res_bind (mode_transition (ks_machine s) KILLED) (\<lambda>m.
        let s1 = s\<lparr>ks_machine := m, ks_sequence := ks_sequence s + 1\<rparr>;
            s2 = ks_record (KillEngaged RISKKERNEL_COMPONENT (trigger_name trigger) (ks_sequence s1) clock) s1;
            (delivery, s3) = emit_cancel_all env s2;
            s4 = release_reservations s3;
            message = halt_kill_message delivery;
            report = dispatch env message;
            d' = write_kill_file s4 d;
            s5 = ks_record (AlertEmitted RISKKERNEL_COMPONENT HALT_KILL_SEVERITY message
                   (case report of None \<Rightarrow> [] | Some rows \<Rightarrow> rows) (report \<noteq> None)) s4
        in Inr (s5, d')))"

definition expected_rearm_phrase :: "int \<Rightarrow> string" where
  "expected_rearm_phrase n = ''RE-ARM KILL '' @ show_int n @ '': I ACCEPT FULL RESPONSIBILITY''"

definition kill_rearm :: "string \<Rightarrow> KillSwitch \<Rightarrow> mode_error + KillSwitch" where
  "kill_rearm confirmation s =
     (if msm_mode (ks_machine s) \<noteq> KILLED then Inl KillReArmError
      else if confirmation \<noteq> expected_rearm_phrase (ks_sequence s) then Inl KillReArmError
      else res_bind (mode_rearm (ks_machine s) REARM_CONFIRMATION_PHRASE) (\<lambda>m1.
           res_bind (mode_transition m1 PAUSED) (\<lambda>m2.
             Inr (ks_record (KillReArmed RISKKERNEL_COMPONENT (ks_sequence s)) (s\<lparr>ks_machine := m2\<rparr>)))))"

subsection \<open>The triggers\<close>

definition attempt_rearm :: "unit + string \<Rightarrow> KillSwitch \<Rightarrow> bool \<times> KillSwitch" where
  "attempt_rearm content s =
     (case content of
        Inl _ \<Rightarrow> (False, s)
      | Inr phrase \<Rightarrow> (case kill_rearm phrase s of Inl _ \<Rightarrow> (False, s) | Inr s' \<Rightarrow> (True, s')))"

definition consume_rearm_file :: "KillSwitch \<Rightarrow> StateDir \<Rightarrow> KillSwitch \<times> StateDir" where
  "consume_rearm_file s d =
     (case rearm_file d of
        None \<Rightarrow> (s, d)
      | Some content \<Rightarrow>
          (let (rearmed, s') = attempt_rearm content s;
               d1 = d\<lparr>rearm_file := None\<rparr>
           in (s', if rearmed then d1\<lparr>kill_file := False\<rparr> else d1)))"

definition kill_poll_once ::
    "kill_env \<Rightarrow> int \<Rightarrow> KillSwitch \<Rightarrow> StateDir \<Rightarrow> mode_error + (KillSwitch \<times> StateDir)" where
  "kill_poll_once env clock s d =
     (if msm_mode (ks_machine s) \<noteq> KILLED then
        (if kill_file d then kill env KILL_FILE clock s d else Inr (s, d))
      else Inr (consume_rearm_file s d))"

record ReconciliationMismatchMonitor =
  threshold :: int
  consecutive_breaches :: int

definition observe ::
    "kill_env \<Rightarrow> int \<Rightarrow> VerificationOutcome \<Rightarrow> ReconciliationMismatchMonitor \<Rightarrow> KillSwitch \<Rightarrow> StateDir \<Rightarrow>
     mode_error + (ReconciliationMismatchMonitor \<times> KillSwitch \<times> StateDir)" where
  "observe env clock oc mon s d =
     (if oc \<noteq> BREACH then Inr (mon\<lparr>consecutive_breaches := 0\<rparr>, s, d)
      else
        (let mon' = mon\<lparr>consecutive_breaches := consecutive_breaches mon + 1\<rparr>
         in if consecutive_breaches mon' \<ge> threshold mon'
            then res_bind (kill env AUTO_RECONCILIATION clock s d) (\<lambda>(s', d'). Inr (mon', s', d'))
            else Inr (mon', s, d)))"

datatype dashboard_error = DashboardChallengeError | DashboardModeError mode_error

record DashboardKillStub = pending_token :: "string option"

definition request_challenge :: "string \<Rightarrow> DashboardKillStub \<Rightarrow> string \<times> DashboardKillStub" where
  "request_challenge nonce st = (nonce, st\<lparr>pending_token := Some nonce\<rparr>)"

definition dashboard_confirm ::
    "kill_env \<Rightarrow> int \<Rightarrow> string \<Rightarrow> DashboardKillStub \<Rightarrow> KillSwitch \<Rightarrow> StateDir \<Rightarrow>
     dashboard_error + (DashboardKillStub \<times> KillSwitch \<times> StateDir)" where
  "dashboard_confirm env clock tok st s d =
     (if pending_token st \<noteq> Some tok then Inl DashboardChallengeError
      else case kill env DASHBOARD clock s d of
          Inl e \<Rightarrow> Inl (DashboardModeError e)
        | Inr (s', d') \<Rightarrow> Inr (st\<lparr>pending_token := None\<rparr>, s', d'))"

subsection \<open>Runs\<close>

text \<open>
  What can happen to a switch: its own operations, a transition of the shared mode machine by another
  part of the kernel to any mode but KILLED, and events of other types written to the same ledger.
\<close>

datatype kill_cmd =
    KillNow KillTrigger int
  | Rearm string
  | PollFiles int
  | Transition Mode
  | ForeignEvent Event

type_synonym kill_state = "KillSwitch \<times> StateDir"

fun kill_exec :: "kill_env \<Rightarrow> kill_state \<Rightarrow> kill_cmd \<Rightarrow> kill_state" where
  "kill_exec env (s, d) (KillNow trigger clock) =
     (case kill env trigger clock s d of Inl _ \<Rightarrow> (s, d) | Inr st \<Rightarrow> st)"
| "kill_exec env (s, d) (Rearm phrase) =
     (case kill_rearm phrase s of Inl _ \<Rightarrow> (s, d) | Inr s' \<Rightarrow> (s', d))"
| "kill_exec env (s, d) (PollFiles clock) =
     (case kill_poll_once env clock s d of Inl _ \<Rightarrow> (s, d) | Inr st \<Rightarrow> st)"
| "kill_exec env (s, d) (Transition m) =
     (if m = KILLED then (s, d)
      else case mode_transition (ks_machine s) m of Inl _ \<Rightarrow> (s, d) | Inr m' \<Rightarrow> (s\<lparr>ks_machine := m'\<rparr>, d))"
| "kill_exec env (s, d) (ForeignEvent e) =
     (if event_type e \<in> {KILL_ENGAGED_EVENT_TYPE, KILL_REARMED_EVENT_TYPE} then (s, d) else (ks_record e s, d))"

text \<open>The durable state agrees with the live one.\<close>

definition replay_agrees :: "kill_state \<Rightarrow> bool" where
  "replay_agrees st =
     (kill_state_in (ks_log (fst st)) =
        Inr \<lparr>last_kill_sequence = ks_sequence (fst st), rk_killed = (msm_mode (ks_machine (fst st)) = KILLED)\<rparr>)"

text \<open>The kill counter and the log only grow.\<close>

definition kill_le :: "kill_state \<Rightarrow> kill_state \<Rightarrow> bool" where
  "kill_le a b = (ks_sequence (fst a) \<le> ks_sequence (fst b) \<and> prefix (ks_log (fst a)) (ks_log (fst b)))"

fun observe_all ::
    "kill_env \<Rightarrow> int \<Rightarrow> VerificationOutcome list \<Rightarrow> ReconciliationMismatchMonitor \<Rightarrow> KillSwitch \<Rightarrow> StateDir \<Rightarrow>
     mode_error + (ReconciliationMismatchMonitor \<times> KillSwitch \<times> StateDir)" where
  "observe_all env clock [] mon s d = Inr (mon, s, d)"
| "observe_all env clock (oc # ocs) mon s d =
     res_bind (observe env clock oc mon s d) (\<lambda>(mon', s', d'). observe_all env clock ocs mon' s' d')"

text \<open>The events one kill writes.\<close>

definition kill_events :: "kill_env \<Rightarrow> KillTrigger \<Rightarrow> int \<Rightarrow> int \<Rightarrow> Event list" where
  "kill_events env trigger clock n =
     (let delivery = deliver env (CancelAllDirective RISKKERNEL_COMPONENT CANCEL_ALL_SCOPE [] False);
          report = dispatch env (halt_kill_message delivery)
      in [KillEngaged RISKKERNEL_COMPONENT (trigger_name trigger) n clock,
          CancelAllDirective RISKKERNEL_COMPONENT CANCEL_ALL_SCOPE (ledger_directive_delivery delivery) (delivery \<noteq> None),
          AlertEmitted RISKKERNEL_COMPONENT HALT_KILL_SEVERITY (halt_kill_message delivery)
            (case report of None \<Rightarrow> [] | Some rows \<Rightarrow> rows) (report \<noteq> None)])"

text \<open>Whether a run of outcomes, entered with \<open>c\<close> consecutive breaches, reaches the threshold.\<close>

fun trips :: "int \<Rightarrow> int \<Rightarrow> VerificationOutcome list \<Rightarrow> bool" where
  "trips thr c [] = False"
| "trips thr c (oc # ocs) =
     (if oc = BREACH then c + 1 \<ge> thr \<or> trips thr (c + 1) ocs else trips thr 0 ocs)"

text \<open>A switch in PAPER mode with one active reservation, and a venue that refuses the cancellation.\<close>

definition sample_switch :: KillSwitch where
  "sample_switch = KillSwitch_new \<lparr>msm_ceiling = LIVE, msm_mode = PAPER\<rparr> []
     (Some (snd (projr (reserve ''i1'' (IntUnit 5) ''k1'' 60 (ReservationLedger_new []))))) True"

definition sample_env :: kill_env where
  "sample_env = \<lparr>dispatch = (\<lambda>m. None),
     directive_sink = Some (\<lambda>e. Inr (Some \<lparr>dd_cancelled = 0, dd_failed = 2, dd_errored = False\<rparr>))\<rparr>"

section \<open>Lemmas\<close>

subsection \<open>Effects\<close>

lemma kill_transition: "msm_mode m \<noteq> KILLED \<Longrightarrow> mode_transition m KILLED = Inr (m\<lparr>msm_mode := KILLED\<rparr>)"
  by (cases "msm_mode m") (simp_all add: mode_transition_safety)

lemma kill_eq:
  "kill env trigger clock s d = Inr
     (if msm_mode (ks_machine s) = KILLED then (s, d)
      else (\<lparr>ks_machine = (ks_machine s)\<lparr>msm_mode := KILLED\<rparr>,
             ks_log = ks_log s @ kill_events env trigger clock (ks_sequence s + 1),
             ks_reservations = map_option (release_all_active RELEASE_REASON) (ks_reservations s),
             ks_sequence = ks_sequence s + 1, ks_state_dir = ks_state_dir s\<rparr>,
            if ks_state_dir s then d\<lparr>kill_file := True\<rparr> else d))"
  by (simp add: kill_def kill_transition emit_cancel_all_def release_reservations_def write_kill_file_def
      ks_record_def log_record_def kill_events_def Let_def)

lemma rearm_eq:
  "kill_rearm phrase s =
     (if msm_mode (ks_machine s) = KILLED \<and> phrase = expected_rearm_phrase (ks_sequence s)
      then Inr (s\<lparr>ks_machine := (ks_machine s)\<lparr>msm_mode := PAUSED\<rparr>,
                 ks_log := ks_log s @ [KillReArmed RISKKERNEL_COMPONENT (ks_sequence s)]\<rparr>)
      else Inl KillReArmError)"
  by (simp add: kill_rearm_def mode_rearm_def mode_transition_safety ks_record_def log_record_def)

lemma expected_phrase_inj: "expected_rearm_phrase m = expected_rearm_phrase n \<longleftrightarrow> m = n"
proof
  assume "expected_rearm_phrase m = expected_rearm_phrase n"
  then have "show_int m @ '': I ACCEPT FULL RESPONSIBILITY'' = show_int n @ '': I ACCEPT FULL RESPONSIBILITY''"
    by (simp add: expected_rearm_phrase_def)
  then show "m = n" by (simp add: show_int_inj)
qed simp

lemma release_all_active_empty: "dict_wf (active led) \<Longrightarrow> active (release_all_active r led) = []"
proof -
  assume "dict_wf (active led)"
  have "dict_get (fold dict_pop (map fst (active led)) (active led)) k = None" for k
    unfolding dict.get_pops by (auto simp: dict_get_keys)
  moreover have "d = []" if "\<And>k. dict_get d k = None" for d :: "(string, Reservation) pydict"
  proof -
    have "k \<notin> fst ` set d" for k using that [of k] by (simp add: dict_get_keys)
    then have "fst ` set d = {}" by (simp only: all_not_in_conv [symmetric]) simp
    then show ?thesis by simp
  qed
  ultimately show ?thesis by (simp add: release_all_active_def fold_release_active)
qed

lemma fold_release_seen:
  "seen_intent_ids (fold (\<lambda>k l. release_locked k r l) ks led) = seen_intent_ids led"
  "seen_idempotency_keys (fold (\<lambda>k l. release_locked k r l) ks led) = seen_idempotency_keys led"
  by (induction ks arbitrary: led) simp_all

subsection \<open>Replay\<close>

lemma absorb_append:
  "absorb_kill_events st (xs @ ys) = res_bind (absorb_kill_events st xs) (\<lambda>st'. absorb_kill_events st' ys)"
proof (induction xs arbitrary: st)
  case (Cons x xs)
  then show ?case by (cases "absorb_kill_event st x") simp_all
qed simp

lemma kill_state_append:
  "kill_state_in xs = Inr st \<Longrightarrow> kill_state_in (xs @ ys) = absorb_kill_events st ys"
  by (simp add: kill_state_in_def absorb_append)

lemma absorb_foreign:
  "event_type e \<noteq> KILL_ENGAGED_EVENT_TYPE \<Longrightarrow> event_type e \<noteq> KILL_REARMED_EVENT_TYPE \<Longrightarrow> absorb_kill_event st e = Inr st"
  by (simp add: absorb_kill_event_def)

lemma absorb_engaged: "absorb_kill_event st (KillEngaged c t n e) = Inr \<lparr>last_kill_sequence = n, rk_killed = True\<rparr>"
  by (simp add: absorb_kill_event_def KILL_ENGAGED_EVENT_TYPE_def payload_int_def)

lemma absorb_rearmed:
  "absorb_kill_event st (KillReArmed c n) = Inr (if n = last_kill_sequence st then st\<lparr>rk_killed := False\<rparr> else st)"
  by (simp add: absorb_kill_event_def KILL_ENGAGED_EVENT_TYPE_def KILL_REARMED_EVENT_TYPE_def payload_int_def)

lemma absorb_kill_surface:
  "absorb_kill_events st (kill_events env trigger clock n) = Inr \<lparr>last_kill_sequence = n, rk_killed = True\<rparr>"
  by (simp add: kill_events_def Let_def absorb_engaged absorb_foreign KILL_ENGAGED_EVENT_TYPE_def
      KILL_REARMED_EVENT_TYPE_def)

lemma kill_agrees:
  "replay_agrees (s, d) \<Longrightarrow> kill env trigger clock s d = Inr st \<Longrightarrow> replay_agrees st"
  by (auto simp: kill_eq replay_agrees_def kill_state_append absorb_kill_surface split: if_splits)

lemma rearm_agrees:
  "replay_agrees (s, d) \<Longrightarrow> kill_rearm phrase s = Inr s' \<Longrightarrow> replay_agrees (s', d')"
  by (auto simp: rearm_eq replay_agrees_def kill_state_append absorb_rearmed split: if_splits)

lemma consume_agrees:
  "replay_agrees (s, d) \<Longrightarrow> replay_agrees (consume_rearm_file s d)"
  by (auto simp: consume_rearm_file_def attempt_rearm_def Let_def intro: rearm_agrees
      split: option.splits sum.splits)
    (auto simp: replay_agrees_def)

lemma exec_agrees: "replay_agrees st \<Longrightarrow> replay_agrees (kill_exec env st cmd)"
proof (cases st)
  case (Pair s d)
  assume agrees: "replay_agrees st"
  show ?thesis
  proof (cases cmd)
    case (KillNow trigger clock)
    with agrees Pair show ?thesis by (auto intro: kill_agrees split: sum.splits)
  next
    case (Rearm phrase)
    with agrees Pair show ?thesis by (auto intro: rearm_agrees split: sum.splits)
  next
    case (PollFiles clock)
    with agrees Pair show ?thesis
      by (auto simp: kill_poll_once_def intro: kill_agrees consume_agrees split: sum.splits if_splits)
  next
    case (Transition m)
    have "msm_mode (ks_machine s) \<noteq> KILLED" if "mode_transition (ks_machine s) m = Inr m'" for m'
      using mode_transition_Inr [OF that] by auto
    with agrees Pair Transition show ?thesis
      by (auto simp: replay_agrees_def dest: mode_transition_Inr split: sum.splits)
  next
    case (ForeignEvent e)
    with agrees Pair show ?thesis
      by (auto simp: replay_agrees_def ks_record_def log_record_def kill_state_append absorb_foreign)
  qed
qed

lemma kill_le_step: "kill_le st (kill_exec env st cmd)"
proof (cases st)
  case (Pair s d)
  have "kill_le (s, d) (consume_rearm_file s d)"
    by (auto simp: kill_le_def consume_rearm_file_def attempt_rearm_def rearm_eq Let_def split: option.splits sum.splits)
  then show ?thesis
    by (cases cmd) (auto simp: Pair kill_le_def kill_eq rearm_eq kill_poll_once_def ks_record_def log_record_def
        split: sum.splits)
qed

interpretation kill_replay: invariant_machine "kill_exec env" replay_agrees for env
  by unfold_locales (rule exec_agrees)

interpretation kill_growth: monotone_machine "kill_exec env" kill_le for env
  by unfold_locales (simp add: kill_le_def, fastforce simp: kill_le_def intro: prefix_order.trans, rule kill_le_step)

subsection \<open>The mismatch monitor\<close>

lemma observe_all_trips:
  assumes "threshold mon = thr" and "msm_mode (ks_machine s) \<noteq> KILLED"
  shows "\<exists>mon' s' d'. observe_all env clock ocs mon s d = Inr (mon', s', d') \<and>
    (msm_mode (ks_machine s') = KILLED) = trips thr (consecutive_breaches mon) ocs \<and>
    (msm_mode (ks_machine s') = KILLED \<or> s' = s)"
proof -
  have killed: "\<exists>mon' s' d'. observe_all env clock ocs mon s d = Inr (mon', s', d') \<and> msm_mode (ks_machine s') = KILLED"
    if "msm_mode (ks_machine s) = KILLED" for ocs mon s d
    using that by (induction ocs arbitrary: mon s d) (auto simp: observe_def kill_eq Let_def)
  show ?thesis
    using assms
  proof (induction ocs arbitrary: mon)
    case (Cons oc ocs)
    show ?case
    proof (cases "oc = BREACH \<and> thr \<le> consecutive_breaches mon + 1")
      case True
      let ?mon = "mon\<lparr>consecutive_breaches := consecutive_breaches mon + 1\<rparr>"
      obtain s1 d1 where k: "kill env AUTO_RECONCILIATION clock s d = Inr (s1, d1)" "msm_mode (ks_machine s1) = KILLED"
        using Cons.prems(2) by (simp add: kill_eq)
      then have "observe env clock oc mon s d = Inr (?mon, s1, d1)"
        using True Cons.prems(1) by (simp add: observe_def Let_def)
      with killed [OF k(2), of ocs ?mon d1] True show ?thesis by auto
    next
      case False
      let ?mon = "mon\<lparr>consecutive_breaches := if oc = BREACH then consecutive_breaches mon + 1 else 0\<rparr>"
      have "observe env clock oc mon s d = Inr (?mon, s, d)"
        using False Cons.prems(1) by (auto simp: observe_def Let_def)
      with Cons.IH [of ?mon] Cons.prems False show ?thesis by (auto split: if_splits)
    qed
  qed auto
qed

lemma replicate_prefix:
  assumes "m \<le> n"
  shows "\<exists>q. replicate n x @ p = replicate m x @ q"
  using assms by (metis append_assoc le_add_diff_inverse replicate_add)

lemma trips_run:
  assumes "0 \<le> c" and "c < thr"
  shows "trips thr c ocs \<longleftrightarrow>
    (\<exists>post. ocs = replicate (nat (thr - c)) BREACH @ post) \<or>
    (\<exists>pre post. ocs = pre @ replicate (nat thr) BREACH @ post)"
  using assms
proof (induction ocs arbitrary: c)
  case Nil
  then show ?case by auto
next
  case (Cons oc ocs)
  let ?n = "nat thr"
  have later: "(\<exists>pre post. oc # ocs = pre @ replicate ?n BREACH @ post) \<longleftrightarrow>
      (\<exists>post. oc # ocs = replicate ?n BREACH @ post) \<or> (\<exists>pre post. ocs = pre @ replicate ?n BREACH @ post)"
    by (auto simp: Cons_eq_append_conv)
  have n: "?n = Suc (nat (thr - 1))" using Cons.prems by simp
  have c: "nat (thr - c) = Suc (nat (thr - (c + 1)))" using Cons.prems by simp
  show ?case
  proof (cases "oc = BREACH")
    case False
    then have "\<not> (\<exists>post. oc # ocs = replicate ?n BREACH @ post)" "\<not> (\<exists>post. oc # ocs = replicate (nat (thr - c)) BREACH @ post)"
      by (auto simp: n c)
    moreover have "(\<exists>post. ocs = replicate ?n BREACH @ post) \<Longrightarrow> (\<exists>pre post. ocs = pre @ replicate ?n BREACH @ post)"
      by (metis append_Nil)
    ultimately show ?thesis using Cons.IH [of 0] Cons.prems False later by auto
  next
    case True
    have first: "(\<exists>post. oc # ocs = replicate ?n BREACH @ post) \<Longrightarrow> (\<exists>post. oc # ocs = replicate (nat (thr - c)) BREACH @ post)"
      using replicate_prefix [of "nat (thr - c)" ?n BREACH] Cons.prems by (metis diff_ge_0_iff_ge diff_le_self int_nat_eq nat_mono diff_le_eq le_add_same_cancel1)
    show ?thesis
    proof (cases "c + 1 \<ge> thr")
      case True': True
      then have "nat (thr - c) = 1" using Cons.prems by simp
      with True True' show ?thesis by auto
    next
      case False
      with Cons.IH [of "c + 1"] Cons.prems True c later first show ?thesis by auto
    qed
  qed
qed

section \<open>Properties\<close>

text \<open>The ledger is an exact record of the kill state: start a fresh switch in any mode but KILLED,
  over a ledger without kill events, and let anything happen to it in any order (kills from any
  trigger, re-arm attempts, file polls, mode transitions by the rest of the kernel, events of other
  types). Replaying the ledger then never fails and returns the switch's own counter and whether the
  machine is KILLED.\<close>

theorem kill_state_replayable:
  assumes "msm_mode m \<noteq> KILLED" and "kill_state_in evs = Inr \<lparr>last_kill_sequence = 0, rk_killed = False\<rparr>"
  shows "let st = foldl (kill_exec env) (KillSwitch_new m evs res dir, d) cmds in
    kill_state_in (ks_log (fst st)) = Inr \<lparr>last_kill_sequence = ks_sequence (fst st),
      rk_killed = (msm_mode (ks_machine (fst st)) = KILLED)\<rparr>"
proof -
  have "replay_agrees (KillSwitch_new m evs res dir, d)"
    using assms by (simp add: replay_agrees_def KillSwitch_new_def NO_KILL_SEQUENCE_def)
  from kill_replay.run_inv [OF this, of env cmds] show ?thesis by (simp add: replay_agrees_def Let_def)
qed

theorem kill_state_replayable_witness:
  "kill_state_in (ks_log (fst (foldl (kill_exec sample_env)
     (KillSwitch_new \<lparr>msm_ceiling = LIVE, msm_mode = PAPER\<rparr> [] None True, \<lparr>kill_file = False, rearm_file = None\<rparr>)
     [KillNow CLI 7]))) = Inr \<lparr>last_kill_sequence = 1, rk_killed = True\<rparr>"
proof -
  have "kill_state_in [] = Inr \<lparr>last_kill_sequence = 0, rk_killed = False\<rparr>"
    by (simp add: kill_state_in_def NO_KILL_SEQUENCE_def)
  from kill_state_replayable [OF _ this, of "\<lparr>msm_ceiling = LIVE, msm_mode = PAPER\<rparr>" sample_env None True
      "\<lparr>kill_file = False, rearm_file = None\<rparr>" "[KillNow CLI 7]"]
  show ?thesis by (simp add: Let_def kill_eq KillSwitch_new_def NO_KILL_SEQUENCE_def)
qed

text \<open>A kill always succeeds and its effects are exact: from any other mode the machine is KILLED,
  exactly three events are appended (the kill with the next sequence number, the cancel-all with what
  the venue reported, the alert), every active reservation is released while all ids and keys stay
  remembered (the reservation ledger being a well-formed dict), and the KILL file is present when a
  state directory is wired. From KILLED it changes nothing at all.\<close>

theorem kill_effects_exact:
  assumes "\<And>led. ks_reservations s = Some led \<Longrightarrow> dict_wf (active led)"
  shows "\<exists>s' d'. kill env trigger clock s d = Inr (s', d') \<and> msm_mode (ks_machine s') = KILLED \<and>
     (if msm_mode (ks_machine s) = KILLED then s' = s \<and> d' = d
      else ks_sequence s' = ks_sequence s + 1 \<and>
        ks_log s' = ks_log s @ kill_events env trigger clock (ks_sequence s + 1) \<and>
        kill_file d' = (ks_state_dir s \<or> kill_file d) \<and>
        (case ks_reservations s of None \<Rightarrow> ks_reservations s' = None
         | Some led \<Rightarrow> \<exists>led'. ks_reservations s' = Some led' \<and> active led' = [] \<and>
             seen_intent_ids led' = seen_intent_ids led \<and>
             seen_idempotency_keys led' = seen_idempotency_keys led))"
  using assms
  by (auto simp: kill_eq release_all_active_empty split: option.split)
    (auto simp: release_all_active_def fold_release_seen)

theorem kill_effects_exact_witness:
  "\<exists>s' d'. kill sample_env CLI 7 sample_switch \<lparr>kill_file = False, rearm_file = None\<rparr> = Inr (s', d') \<and> kill_file d' \<and>
     (\<exists>led'. ks_reservations s' = Some led' \<and> active led' = [] \<and> seen_intent_ids led' = {''i1''})"
proof -
  have r: "ks_reservations sample_switch = Some led \<Longrightarrow> dict_wf (active led)" for led
    by (auto simp: sample_switch_def KillSwitch_new_def reserve_def ReservationLedger_new_def dict_wf_def dict_set_def Let_def)
  have v: "msm_mode (ks_machine sample_switch) = PAPER" "ks_state_dir sample_switch"
    "\<exists>led. ks_reservations sample_switch = Some led \<and> seen_intent_ids led = {''i1''}"
    by (simp_all add: sample_switch_def KillSwitch_new_def reserve_def ReservationLedger_new_def Let_def)
  from kill_effects_exact [of sample_switch sample_env CLI 7 "\<lparr>kill_file = False, rearm_file = None\<rparr>", OF r] v
  show ?thesis by auto
qed

text \<open>Only the exact phrase for the active kill re-arms, and never into a trading mode: a re-arm
  succeeds if and only if the machine is KILLED and the phrase is the one for the current sequence
  number, it lands in PAUSED and ledgers exactly one event; the phrase of any other kill is refused.\<close>

theorem rearm_only_for_active_kill:
  "(is_ok (kill_rearm phrase s)) = (msm_mode (ks_machine s) = KILLED \<and> phrase = expected_rearm_phrase (ks_sequence s))
   \<and> (kill_rearm phrase s = Inl KillReArmError \<or>
      kill_rearm phrase s = Inr (s\<lparr>ks_machine := (ks_machine s)\<lparr>msm_mode := PAUSED\<rparr>,
        ks_log := ks_log s @ [KillReArmed RISKKERNEL_COMPONENT (ks_sequence s)]\<rparr>))
   \<and> (n = ks_sequence s \<or> kill_rearm (expected_rearm_phrase n) s = Inl KillReArmError)"
  by (auto simp: rearm_eq expected_phrase_inj)

text \<open>The reconciliation monitor kills exactly on a sustained run: over any sequence of outcomes,
  starting from no breaches and a machine that is not KILLED, the machine ends up KILLED if and only if
  the sequence contains \<open>threshold\<close> consecutive breaches; otherwise the switch is untouched.\<close>

theorem auto_kill_exactly_on_sustained_breach:
  assumes "1 \<le> thr" and "msm_mode (ks_machine s) \<noteq> KILLED"
  shows "\<exists>mon' s' d'.
    observe_all env clock ocs \<lparr>threshold = thr, consecutive_breaches = 0\<rparr> s d = Inr (mon', s', d') \<and>
    (msm_mode (ks_machine s') = KILLED) = (\<exists>pre post. ocs = pre @ replicate (nat thr) BREACH @ post) \<and>
    (msm_mode (ks_machine s') = KILLED \<or> s' = s)"
proof -
  have "trips thr 0 ocs \<longleftrightarrow> (\<exists>pre post. ocs = pre @ replicate (nat thr) BREACH @ post)"
  proof -
    have "(\<exists>post. ocs = replicate (nat thr) BREACH @ post) \<Longrightarrow> (\<exists>pre post. ocs = pre @ replicate (nat thr) BREACH @ post)"
      by (metis append_Nil)
    with trips_run [of 0 thr ocs] assms(1) show ?thesis by simp blast
  qed
  with observe_all_trips [of "\<lparr>threshold = thr, consecutive_breaches = 0\<rparr>" thr s env clock ocs d] assms(2)
  show ?thesis by simp
qed

theorem auto_kill_exactly_on_sustained_breach_witness:
  "\<exists>mon' s' d'. observe_all sample_env 5 [BREACH, CLEAN, BREACH, BREACH] \<lparr>threshold = 2, consecutive_breaches = 0\<rparr>
     sample_switch \<lparr>kill_file = False, rearm_file = None\<rparr> = Inr (mon', s', d') \<and> msm_mode (ks_machine s') = KILLED"
proof -
  have m: "msm_mode (ks_machine sample_switch) \<noteq> KILLED" by (simp add: sample_switch_def KillSwitch_new_def)
  have "[BREACH, CLEAN, BREACH, BREACH] = [BREACH, CLEAN] @ replicate (nat 2) BREACH @ []"
    by (simp add: numeral_2_eq_2)
  with auto_kill_exactly_on_sustained_breach [OF _ m, of 2 sample_env 5 "[BREACH, CLEAN, BREACH, BREACH]"
      "\<lparr>kill_file = False, rearm_file = None\<rparr>"] show ?thesis by fastforce
qed

text \<open>The file protocol fails toward dead: while the machine is KILLED a poll consumes the REARM
  file whatever it contains, and leaves KILLED only if the file reads as the exact phrase of the active
  kill, in which case the KILL file is cleared as well and the mode is PAUSED; otherwise the switch and
  the KILL file are untouched.\<close>

theorem rearm_file_fails_toward_dead:
  assumes "msm_mode (ks_machine s) = KILLED"
  shows "\<exists>s' d'. kill_poll_once env clock s d = Inr (s', d') \<and> rearm_file d' = None \<and>
    (if rearm_file d = Some (Inr (expected_rearm_phrase (ks_sequence s)))
     then msm_mode (ks_machine s') = PAUSED \<and> \<not> kill_file d'
     else s' = s \<and> kill_file d' = kill_file d)"
proof (cases "rearm_file d")
  case None
  with assms show ?thesis by (simp add: kill_poll_once_def consume_rearm_file_def)
next
  case (Some content)
  with assms show ?thesis
    by (cases content) (auto simp: kill_poll_once_def consume_rearm_file_def attempt_rearm_def rearm_eq)
qed

theorem rearm_file_fails_toward_dead_witness:
  "\<exists>s' d'. kill_poll_once sample_env 9
     (sample_switch\<lparr>ks_machine := \<lparr>msm_ceiling = LIVE, msm_mode = KILLED\<rparr>, ks_sequence := 3\<rparr>)
     \<lparr>kill_file = True, rearm_file = Some (Inr (expected_rearm_phrase 2))\<rparr> = Inr (s', d') \<and>
     msm_mode (ks_machine s') = KILLED \<and> kill_file d'"
  using rearm_file_fails_toward_dead [of "sample_switch\<lparr>ks_machine := \<lparr>msm_ceiling = LIVE, msm_mode = KILLED\<rparr>, ks_sequence := 3\<rparr>"
      sample_env 9 "\<lparr>kill_file = True, rearm_file = Some (Inr (expected_rearm_phrase 2))\<rparr>"]
  by (auto simp: expected_phrase_inj)

end
