(* ===== verification/Governance.thy ===== *)
theory Governance
  imports Kill
begin

text \<open>
  Governance of the equity floor (\<open>windbreak/riskkernel/governance.py\<close>): immediate raises, two-step
  lowerings behind a cool-off and a nonce, the profit ratchet, and replay from the ledger. The state
  holds the mode machine it demotes, the events written and the alerts dispatched, in order. The random
  nonce and the clock readings are arguments. A refused operation may still write an event, so an
  operation returns its result or error together with the new state.
\<close>

section \<open>Definitions\<close>

definition DEFAULT_FLOOR_LOWER_COOL_OFF_SECONDS :: int where "DEFAULT_FLOOR_LOWER_COOL_OFF_SECONDS = 172800"
definition FLOOR_RAISED_EVENT :: string where "FLOOR_RAISED_EVENT = ''FloorRaised''"
definition FLOOR_LOWER_REQUESTED_EVENT :: string where "FLOOR_LOWER_REQUESTED_EVENT = ''FloorLowerRequested''"
definition FLOOR_LOWER_REFUSED_EVENT :: string where "FLOOR_LOWER_REFUSED_EVENT = ''FloorLowerRefused''"
definition FLOOR_LOWER_CONFIRMED_EVENT :: string where "FLOOR_LOWER_CONFIRMED_EVENT = ''FloorLowerConfirmed''"
definition FLOOR_RATCHET_APPLIED_EVENT :: string where "FLOOR_RATCHET_APPLIED_EVENT = ''FloorRatchetApplied''"
definition EQUITY_HIGH_WATER_MARK_ADVANCED_EVENT :: string where
  "EQUITY_HIGH_WATER_MARK_ADVANCED_EVENT = ''EquityHighWaterMarkAdvanced''"
definition REFUSED_FORBIDDEN_ORIGIN :: string where "REFUSED_FORBIDDEN_ORIGIN = ''forbidden_origin''"
definition REFUSED_COOL_OFF_ACTIVE :: string where "REFUSED_COOL_OFF_ACTIVE = ''cool_off_active''"
definition REFUSED_NONCE_MISMATCH :: string where "REFUSED_NONCE_MISMATCH = ''nonce_mismatch''"
definition LIVE_MODES :: "Mode list" where "LIVE_MODES = [LIVE, LIVE_MICRO]"

datatype ChangeOrigin = ORIGIN_CLI | ORIGIN_DASHBOARD

fun origin_name :: "ChangeOrigin \<Rightarrow> string" where
  "origin_name ORIGIN_CLI = ''CLI''"
| "origin_name ORIGIN_DASHBOARD = ''DASHBOARD''"

datatype governance_error =
    RaiseValueError
  | ForbiddenOriginError
  | CoolOffActiveError
  | NonceMismatchError
  | LoweringAlreadyPendingError
  | NoPendingLowerError
  | GovernanceModeError mode_error

record PendingFloorLower =
  nonce :: string
  ready_at :: int
  target_floor_micros :: MoneyMicros

datatype gov_alert = FLOOR_CHANGE_REQUEST string | PROFIT_SWEEP_ADVISORY string

record FloorGovernance =
  gov_floor :: MoneyMicros
  ratchet_ppm :: int
  profit_sweep_threshold :: MoneyMicros
  gov_machine :: ModeStateMachine
  cool_off_seconds :: int
  high_water_mark :: MoneyMicros
  pending_lower :: "PendingFloorLower option"
  gov_log :: event_log
  gov_alerts :: "gov_alert list"

definition FloorGovernance_new ::
    "MoneyMicros \<Rightarrow> int \<Rightarrow> MoneyMicros \<Rightarrow> ModeStateMachine \<Rightarrow> event_log \<Rightarrow> int \<Rightarrow> FloorGovernance" where
  "FloorGovernance_new initial_floor ppm sweep m evs cool_off =
     \<lparr>gov_floor = initial_floor, ratchet_ppm = ppm, profit_sweep_threshold = sweep, gov_machine = m,
      cool_off_seconds = cool_off, high_water_mark = IntUnit 0, pending_lower = None, gov_log = evs,
      gov_alerts = []\<rparr>"

definition gov_record :: "string \<Rightarrow> payload \<Rightarrow> FloorGovernance \<Rightarrow> FloorGovernance" where
  "gov_record etype pl g =
     g\<lparr>gov_log := log_record \<lparr>event_type = etype, component = RISKKERNEL_COMPONENT,
         payload_schema_version = RES_PAYLOAD_SCHEMA_VERSION, payload = pl\<rparr> (gov_log g)\<rparr>"

definition record_refused :: "string \<Rightarrow> payload \<Rightarrow> FloorGovernance \<Rightarrow> FloorGovernance" where
  "record_refused rsn extra g = gov_record FLOOR_LOWER_REFUSED_EVENT ((''reason'', JStr rsn) # extra) g"

definition gov_dispatch :: "gov_alert \<Rightarrow> FloorGovernance \<Rightarrow> FloorGovernance" where
  "gov_dispatch a g = g\<lparr>gov_alerts := gov_alerts g @ [a]\<rparr>"

definition raise_floor ::
    "MoneyMicros \<Rightarrow> ChangeOrigin \<Rightarrow> FloorGovernance \<Rightarrow> (governance_error + unit) \<times> FloorGovernance" where
  "raise_floor new_floor origin g =
     (if new_floor \<le> gov_floor g then (Inl RaiseValueError, g)
      else (Inr (),
        gov_record FLOOR_RAISED_EVENT
          [(''previous_floor_micros'', JInt (val (gov_floor g))), (''new_floor_micros'', JInt (val new_floor)),
           (''origin'', JStr (origin_name origin))]
          (g\<lparr>gov_floor := new_floor\<rparr>)))"

definition request_lower ::
    "MoneyMicros \<Rightarrow> ChangeOrigin \<Rightarrow> string \<Rightarrow> int \<Rightarrow> FloorGovernance \<Rightarrow>
     (governance_error + PendingFloorLower) \<times> FloorGovernance" where
  "request_lower new_floor origin token_hex clock g =
     (if origin \<noteq> ORIGIN_CLI then
        (Inl ForbiddenOriginError,
         record_refused REFUSED_FORBIDDEN_ORIGIN
           [(''target_floor_micros'', JInt (val new_floor)), (''origin'', JStr (origin_name origin))] g)
      else if pending_lower g \<noteq> None then (Inl LoweringAlreadyPendingError, g)
      else
        (let ready = clock + cool_off_seconds g;
             p = \<lparr>nonce = token_hex, ready_at = ready, target_floor_micros = new_floor\<rparr>;
             g1 = gov_record FLOOR_LOWER_REQUESTED_EVENT
               [(''nonce'', JStr token_hex), (''target_floor_micros'', JInt (val new_floor)),
                (''requested_at'', JInt clock), (''ready_at'', JInt ready),
                (''origin'', JStr (origin_name origin))] (g\<lparr>pending_lower := Some p\<rparr>);
             g2 = gov_dispatch (FLOOR_CHANGE_REQUEST (''floor lowering to '' @ money_str new_floor @
                    '' requested; confirmable at '' @ show_int ready)) g1
         in (Inr p, g2)))"

text \<open>The loop that steps down out of the live modes, one rung at a time.\<close>

function (sequential) demote_out_of_live :: "ModeStateMachine \<Rightarrow> mode_error + ModeStateMachine" where
  "demote_out_of_live m =
     (if msm_mode m \<in> set LIVE_MODES then
        (case demote_one_rung m of Inl e \<Rightarrow> Inl e | Inr m' \<Rightarrow> demote_out_of_live m')
      else Inr m)"
  by pat_completeness auto
termination
  by (relation "measure (\<lambda>m. case ladder_rank (msm_mode m) of None \<Rightarrow> 0 | Some r \<Rightarrow> r)")
    (auto simp: LIVE_MODES_def demote_one_rung_def)

declare demote_out_of_live.simps [simp del]

definition reject_unless_confirmable ::
    "string \<Rightarrow> int \<Rightarrow> PendingFloorLower \<Rightarrow> FloorGovernance \<Rightarrow> (governance_error + unit) \<times> FloorGovernance" where
  "reject_unless_confirmable token_hex clock p g =
     (if clock < ready_at p then
        (Inl CoolOffActiveError,
         record_refused REFUSED_COOL_OFF_ACTIVE [(''nonce'', JStr (nonce p)), (''ready_at'', JInt (ready_at p))] g)
      else if token_hex \<noteq> nonce p then
        (Inl NonceMismatchError,
         record_refused REFUSED_NONCE_MISMATCH [(''reason_detail'', JStr ''nonce'')] g)
      else (Inr (), g))"

definition apply_confirmed_lower ::
    "PendingFloorLower \<Rightarrow> FloorGovernance \<Rightarrow> (governance_error + unit) \<times> FloorGovernance" where
  "apply_confirmed_lower p g =
     (let previous = gov_floor g;
          g1 = g\<lparr>gov_floor := target_floor_micros p\<rparr>
      in case demote_out_of_live (gov_machine g1) of
           Inl e \<Rightarrow> (Inl (GovernanceModeError e), g1)
         | Inr m \<Rightarrow>
             (let g2 = g1\<lparr>gov_machine := m\<rparr>;
                  demoted_to = mode_name (msm_mode m);
                  g3 = gov_dispatch (FLOOR_CHANGE_REQUEST (''floor lowered to '' @ money_str (gov_floor g2) @
                         ''; mode is '' @ demoted_to)) g2;
                  g4 = gov_record FLOOR_LOWER_CONFIRMED_EVENT
                    [(''previous_floor_micros'', JInt (val previous)),
                     (''new_floor_micros'', JInt (val (gov_floor g3))), (''demoted_to'', JStr demoted_to)] g3
              in (Inr (), g4\<lparr>pending_lower := None\<rparr>)))"

definition confirm_lower ::
    "string \<Rightarrow> int \<Rightarrow> FloorGovernance \<Rightarrow> (governance_error + unit) \<times> FloorGovernance" where
  "confirm_lower token_hex clock g =
     (case pending_lower g of
        None \<Rightarrow> (Inl NoPendingLowerError, g)
      | Some p \<Rightarrow>
          (case reject_unless_confirmable token_hex clock p g of
             (Inl e, g') \<Rightarrow> (Inl e, g')
           | (Inr _, g') \<Rightarrow> apply_confirmed_lower p g'))"

definition maybe_advise_profit_sweep :: "MoneyMicros \<Rightarrow> FloorGovernance \<Rightarrow> FloorGovernance" where
  "maybe_advise_profit_sweep gain g =
     (if gain > profit_sweep_threshold g then
        gov_dispatch (PROFIT_SWEEP_ADVISORY (''profit of '' @ money_str gain @
          '' since the high-water mark exceeds the sweep threshold '' @ money_str (profit_sweep_threshold g))) g
      else g)"

definition maybe_ratchet :: "MoneyMicros \<Rightarrow> FloorGovernance \<Rightarrow> FloorGovernance" where
  "maybe_ratchet gain g =
     (let increment = ppm_of (val gain) (ratchet_ppm g) in
      if increment \<le> 0 then g
      else
        (let previous = gov_floor g;
             g1 = g\<lparr>gov_floor := gov_floor g + IntUnit increment\<rparr>
         in gov_record FLOOR_RATCHET_APPLIED_EVENT
              [(''previous_floor_micros'', JInt (val previous)), (''new_floor_micros'', JInt (val (gov_floor g1))),
               (''gain_micros'', JInt (val gain)), (''increment_micros'', JInt increment)] g1))"

definition record_mark_advance :: "MoneyMicros \<Rightarrow> MoneyMicros \<Rightarrow> FloorGovernance \<Rightarrow> FloorGovernance" where
  "record_mark_advance previous new_mark g =
     gov_record EQUITY_HIGH_WATER_MARK_ADVANCED_EVENT
       [(''previous_mark_micros'', JInt (val previous)), (''new_mark_micros'', JInt (val new_mark))] g"

definition observe_equity :: "MoneyMicros \<Rightarrow> FloorGovernance \<Rightarrow> FloorGovernance" where
  "observe_equity equity g =
     (if equity \<le> high_water_mark g then g
      else
        (let gain = equity - high_water_mark g;
             g1 = maybe_ratchet gain (maybe_advise_profit_sweep gain g);
             g2 = record_mark_advance (high_water_mark g1) equity g1
         in g2\<lparr>high_water_mark := equity\<rparr>))"

subsection \<open>Replay\<close>

definition payload_money :: "Event \<Rightarrow> string \<Rightarrow> replay_error + MoneyMicros" where
  "payload_money e k = res_bind (payload_int k e) (\<lambda>n. Inr (IntUnit n))"

definition payload_string :: "string \<Rightarrow> Event \<Rightarrow> replay_error + string" where
  "payload_string k e = (case dict_get (payload e) k of Some (JStr t) \<Rightarrow> Inr t | _ \<Rightarrow> Inl (PayloadKeyError k))"

definition pending_from_payload :: "Event \<Rightarrow> replay_error + PendingFloorLower" where
  "pending_from_payload e =
     res_bind (payload_string ''nonce'' e) (\<lambda>n.
     res_bind (payload_int ''ready_at'' e) (\<lambda>r.
     res_bind (payload_money e ''target_floor_micros'') (\<lambda>t.
       Inr \<lparr>nonce = n, ready_at = r, target_floor_micros = t\<rparr>)))"

definition absorb_replayed_event :: "FloorGovernance \<Rightarrow> Event \<Rightarrow> replay_error + FloorGovernance" where
  "absorb_replayed_event g e =
     (if event_type e = FLOOR_RAISED_EVENT \<or> event_type e = FLOOR_RATCHET_APPLIED_EVENT then
        res_bind (payload_money e ''new_floor_micros'') (\<lambda>f. Inr (g\<lparr>gov_floor := f\<rparr>))
      else if event_type e = EQUITY_HIGH_WATER_MARK_ADVANCED_EVENT then
        res_bind (payload_money e ''new_mark_micros'') (\<lambda>m. Inr (g\<lparr>high_water_mark := m\<rparr>))
      else if event_type e = FLOOR_LOWER_REQUESTED_EVENT then
        res_bind (pending_from_payload e) (\<lambda>p. Inr (g\<lparr>pending_lower := Some p\<rparr>))
      else if event_type e = FLOOR_LOWER_CONFIRMED_EVENT then
        res_bind (payload_money e ''new_floor_micros'') (\<lambda>f. Inr (g\<lparr>gov_floor := f, pending_lower := None\<rparr>))
      else Inr g)"

fun absorb_replayed_events :: "FloorGovernance \<Rightarrow> event_log \<Rightarrow> replay_error + FloorGovernance" where
  "absorb_replayed_events g [] = Inr g"
| "absorb_replayed_events g (e # es) = res_bind (absorb_replayed_event g e) (\<lambda>g'. absorb_replayed_events g' es)"

definition FloorGovernance_from_events ::
    "event_log \<Rightarrow> int \<Rightarrow> MoneyMicros \<Rightarrow> ModeStateMachine \<Rightarrow> event_log \<Rightarrow> int \<Rightarrow> replay_error + FloorGovernance" where
  "FloorGovernance_from_events events ppm sweep m evs cool_off =
     absorb_replayed_events (FloorGovernance_new (IntUnit 0) ppm sweep m evs cool_off) events"

subsection \<open>Runs\<close>

datatype gov_cmd =
    RaiseFloor MoneyMicros ChangeOrigin
  | RequestLower MoneyMicros ChangeOrigin string int
  | ConfirmLower string int
  | ObserveEquity MoneyMicros

fun gov_exec :: "FloorGovernance \<Rightarrow> gov_cmd \<Rightarrow> FloorGovernance" where
  "gov_exec g (RaiseFloor f origin) = snd (raise_floor f origin g)"
| "gov_exec g (RequestLower f origin token_hex clock) = snd (request_lower f origin token_hex clock g)"
| "gov_exec g (ConfirmLower token_hex clock) = snd (confirm_lower token_hex clock g)"
| "gov_exec g (ObserveEquity e) = observe_equity e g"

text \<open>What replay recovers.\<close>

definition durable :: "FloorGovernance \<Rightarrow> MoneyMicros \<times> MoneyMicros \<times> PendingFloorLower option" where
  "durable g = (gov_floor g, high_water_mark g, pending_lower g)"

definition gov_replay_agrees :: "FloorGovernance \<Rightarrow> FloorGovernance \<Rightarrow> bool" where
  "gov_replay_agrees base g =
     (\<exists>g'. absorb_replayed_events base (gov_log g) = Inr g' \<and> durable g' = durable g)"

text \<open>The configuration, which no operation changes, and the log, which only grows.\<close>

definition gov_le :: "FloorGovernance \<Rightarrow> FloorGovernance \<Rightarrow> bool" where
  "gov_le a b =
     (cool_off_seconds a = cool_off_seconds b \<and> ratchet_ppm a = ratchet_ppm b \<and>
      high_water_mark a \<le> high_water_mark b \<and> prefix (gov_log a) (gov_log b))"

definition sample_governance :: FloorGovernance where
  "sample_governance = FloorGovernance_new (IntUnit 0) 100000 (IntUnit 1000000)
     \<lparr>msm_ceiling = LIVE, msm_mode = LIVE\<rparr> [] DEFAULT_FLOOR_LOWER_COOL_OFF_SECONDS"

section \<open>Lemmas\<close>

lemmas gov_event_names = FLOOR_RAISED_EVENT_def FLOOR_LOWER_REQUESTED_EVENT_def FLOOR_LOWER_REFUSED_EVENT_def
  FLOOR_LOWER_CONFIRMED_EVENT_def FLOOR_RATCHET_APPLIED_EVENT_def EQUITY_HIGH_WATER_MARK_ADVANCED_EVENT_def

lemma demote_result:
  "demote_out_of_live m = Inr (if msm_mode m \<in> {LIVE, LIVE_MICRO} then m\<lparr>msm_mode := PAPER\<rparr> else m)"
proof -
  have out: "demote_out_of_live m = Inr m" if "msm_mode m \<notin> {LIVE, LIVE_MICRO}" for m
    using that by (subst demote_out_of_live.simps) (simp add: LIVE_MODES_def)
  have micro: "demote_out_of_live m = Inr (m\<lparr>msm_mode := PAPER\<rparr>)" if "msm_mode m = LIVE_MICRO" for m
    using that out [of "m\<lparr>msm_mode := PAPER\<rparr>"]
    by (subst demote_out_of_live.simps) (simp add: LIVE_MODES_def demote_one_rung_def)
  have live: "demote_out_of_live m = Inr (m\<lparr>msm_mode := PAPER\<rparr>)" if "msm_mode m = LIVE" for m
    using that micro [of "m\<lparr>msm_mode := LIVE_MICRO\<rparr>"]
    by (subst demote_out_of_live.simps) (simp add: LIVE_MODES_def demote_one_rung_def)
  show ?thesis using out micro live by auto
qed

lemma gov_record_simps [simp]:
  "gov_floor (gov_record e p g) = gov_floor g" "high_water_mark (gov_record e p g) = high_water_mark g"
  "pending_lower (gov_record e p g) = pending_lower g" "gov_machine (gov_record e p g) = gov_machine g"
  "ratchet_ppm (gov_record e p g) = ratchet_ppm g" "cool_off_seconds (gov_record e p g) = cool_off_seconds g"
  "profit_sweep_threshold (gov_record e p g) = profit_sweep_threshold g"
  "gov_log (gov_record e p g) = gov_log g @ [\<lparr>event_type = e, component = RISKKERNEL_COMPONENT,
     payload_schema_version = RES_PAYLOAD_SCHEMA_VERSION, payload = p\<rparr>]"
  by (simp_all add: gov_record_def log_record_def)

lemma gov_dispatch_simps [simp]:
  "gov_floor (gov_dispatch a g) = gov_floor g" "high_water_mark (gov_dispatch a g) = high_water_mark g"
  "pending_lower (gov_dispatch a g) = pending_lower g" "gov_machine (gov_dispatch a g) = gov_machine g"
  "ratchet_ppm (gov_dispatch a g) = ratchet_ppm g" "cool_off_seconds (gov_dispatch a g) = cool_off_seconds g"
  "profit_sweep_threshold (gov_dispatch a g) = profit_sweep_threshold g" "gov_log (gov_dispatch a g) = gov_log g"
  by (simp_all add: gov_dispatch_def)

subsection \<open>Effects\<close>

lemma confirm_lower_eq:
  "confirm_lower n clock g =
     (case pending_lower g of
        None \<Rightarrow> (Inl NoPendingLowerError, g)
      | Some p \<Rightarrow>
          if clock < ready_at p then
            (Inl CoolOffActiveError,
             record_refused REFUSED_COOL_OFF_ACTIVE [(''nonce'', JStr (nonce p)), (''ready_at'', JInt (ready_at p))] g)
          else if n \<noteq> nonce p then
            (Inl NonceMismatchError, record_refused REFUSED_NONCE_MISMATCH [(''reason_detail'', JStr ''nonce'')] g)
          else apply_confirmed_lower p g)"
  by (simp add: confirm_lower_def reject_unless_confirmable_def split: option.split)

lemma apply_confirmed:
  "fst (apply_confirmed_lower p g) = Inr ()"
  "gov_floor (snd (apply_confirmed_lower p g)) = target_floor_micros p"
  "pending_lower (snd (apply_confirmed_lower p g)) = None"
  "high_water_mark (snd (apply_confirmed_lower p g)) = high_water_mark g"
  "cool_off_seconds (snd (apply_confirmed_lower p g)) = cool_off_seconds g"
  "ratchet_ppm (snd (apply_confirmed_lower p g)) = ratchet_ppm g"
  "gov_machine (snd (apply_confirmed_lower p g)) =
     (if msm_mode (gov_machine g) \<in> {LIVE, LIVE_MICRO} then (gov_machine g)\<lparr>msm_mode := PAPER\<rparr> else gov_machine g)"
  "\<exists>d. gov_log (snd (apply_confirmed_lower p g)) = gov_log g @
     [\<lparr>event_type = FLOOR_LOWER_CONFIRMED_EVENT, component = RISKKERNEL_COMPONENT,
       payload_schema_version = RES_PAYLOAD_SCHEMA_VERSION,
       payload = [(''previous_floor_micros'', JInt (val (gov_floor g))),
         (''new_floor_micros'', JInt (val (target_floor_micros p))), (''demoted_to'', JStr d)]\<rparr>]"
  by (simp_all add: apply_confirmed_lower_def demote_result Let_def)

lemma refused_simps [simp]:
  "durable (record_refused r x g) = durable g" "gov_floor (record_refused r x g) = gov_floor g"
  "pending_lower (record_refused r x g) = pending_lower g" "gov_machine (record_refused r x g) = gov_machine g"
  "cool_off_seconds (record_refused r x g) = cool_off_seconds g" "ratchet_ppm (record_refused r x g) = ratchet_ppm g"
  "high_water_mark (record_refused r x g) = high_water_mark g"
  by (simp_all add: record_refused_def durable_def)

lemma observe_floor:
  "gov_floor (observe_equity e g) = (if e \<le> high_water_mark g then gov_floor g
     else gov_floor g + IntUnit (max 0 (ppm_of (val e - val (high_water_mark g)) (ratchet_ppm g))))"
  "high_water_mark (observe_equity e g) = max (high_water_mark g) e"
  "pending_lower (observe_equity e g) = pending_lower g" "gov_machine (observe_equity e g) = gov_machine g"
  "cool_off_seconds (observe_equity e g) = cool_off_seconds g" "ratchet_ppm (observe_equity e g) = ratchet_ppm g"
  by (auto simp: observe_equity_def maybe_ratchet_def maybe_advise_profit_sweep_def record_mark_advance_def Let_def
      unit_eq_iff max_def)

subsection \<open>Replay\<close>

lemma absorb_replayed_append:
  "absorb_replayed_events g (xs @ ys) = res_bind (absorb_replayed_events g xs) (\<lambda>g'. absorb_replayed_events g' ys)"
proof (induction xs arbitrary: g)
  case (Cons x xs)
  then show ?case by (cases "absorb_replayed_event g x") simp_all
qed simp

lemma agrees_extend:
  assumes "gov_replay_agrees base g" and "gov_log g' = gov_log g @ es"
    and "\<And>h. durable h = durable g \<Longrightarrow> \<exists>h'. absorb_replayed_events h es = Inr h' \<and> durable h' = durable g'"
  shows "gov_replay_agrees base g'"
  using assms by (fastforce simp: gov_replay_agrees_def absorb_replayed_append)

lemma refused_agrees: "gov_replay_agrees base g \<Longrightarrow> gov_replay_agrees base (record_refused r x g)"
  by (rule agrees_extend [of base g, where es = "[_]"])
    (auto simp: record_refused_def absorb_replayed_event_def gov_event_names durable_def)

lemma raise_agrees: "gov_replay_agrees base g \<Longrightarrow> gov_replay_agrees base (snd (raise_floor f origin g))"
proof (cases "f \<le> gov_floor g")
  case False
  assume "gov_replay_agrees base g"
  then show ?thesis
    by (rule agrees_extend [where es = "[_]"])
      (use False in \<open>auto simp: raise_floor_def absorb_replayed_event_def gov_event_names durable_def
        payload_money_def payload_int_def dict_get_def unit_eq_iff\<close>)
qed (simp add: raise_floor_def)

lemma request_agrees: "gov_replay_agrees base g \<Longrightarrow> gov_replay_agrees base (snd (request_lower f origin n clock g))"
proof (cases "origin = ORIGIN_CLI \<and> pending_lower g = None")
  case True
  assume "gov_replay_agrees base g"
  then show ?thesis
    by (rule agrees_extend [where es = "[_]"])
      (use True in \<open>auto simp: request_lower_def Let_def absorb_replayed_event_def gov_event_names durable_def
        pending_from_payload_def payload_string_def payload_money_def payload_int_def dict_get_def unit_eq_iff\<close>)
qed (auto simp: request_lower_def intro: refused_agrees)

lemma confirm_agrees: "gov_replay_agrees base g \<Longrightarrow> gov_replay_agrees base (snd (confirm_lower n clock g))"
proof -
  assume agrees: "gov_replay_agrees base g"
  have "gov_replay_agrees base (snd (apply_confirmed_lower p g))" for p
  proof -
    from apply_confirmed(8) [of p g] obtain d where l: "gov_log (snd (apply_confirmed_lower p g)) = gov_log g @
      [\<lparr>event_type = FLOOR_LOWER_CONFIRMED_EVENT, component = RISKKERNEL_COMPONENT,
        payload_schema_version = RES_PAYLOAD_SCHEMA_VERSION,
        payload = [(''previous_floor_micros'', JInt (val (gov_floor g))),
          (''new_floor_micros'', JInt (val (target_floor_micros p))), (''demoted_to'', JStr d)]\<rparr>]" by blast
    show ?thesis
      by (rule agrees_extend [OF agrees l])
        (auto simp: absorb_replayed_event_def gov_event_names durable_def payload_money_def payload_int_def
          dict_get_def apply_confirmed(2-4) unit_eq_iff)
  qed
  with agrees show ?thesis by (auto simp: confirm_lower_eq intro: refused_agrees split: option.split)
qed

lemma advise_agrees: "gov_replay_agrees base (maybe_advise_profit_sweep gain g) = gov_replay_agrees base g"
  by (simp add: maybe_advise_profit_sweep_def gov_replay_agrees_def durable_def)

lemma ratchet_agrees: "gov_replay_agrees base g \<Longrightarrow> gov_replay_agrees base (maybe_ratchet gain g)"
proof (cases "ppm_of (val gain) (ratchet_ppm g) \<le> 0")
  case False
  assume "gov_replay_agrees base g"
  then show ?thesis
    by (rule agrees_extend [where es = "[_]"])
      (use False in \<open>auto simp: maybe_ratchet_def Let_def absorb_replayed_event_def gov_event_names durable_def
        payload_money_def payload_int_def dict_get_def unit_eq_iff\<close>)
qed (simp add: maybe_ratchet_def)

lemma mark_agrees:
  "gov_replay_agrees base g \<Longrightarrow> gov_replay_agrees base ((record_mark_advance old e g)\<lparr>high_water_mark := e\<rparr>)"
  by (rule agrees_extend [of base g, where es = "[_]"])
    (auto simp: record_mark_advance_def absorb_replayed_event_def gov_event_names durable_def
      payload_money_def payload_int_def dict_get_def unit_eq_iff)

lemma observe_agrees: "gov_replay_agrees base g \<Longrightarrow> gov_replay_agrees base (observe_equity e g)"
  by (simp add: observe_equity_def Let_def mark_agrees ratchet_agrees advise_agrees)

interpretation gov_replay: invariant_machine gov_exec "gov_replay_agrees base" for base
proof
  fix g c assume "gov_replay_agrees base g"
  then show "gov_replay_agrees base (gov_exec g c)"
    by (cases c) (auto intro: raise_agrees request_agrees confirm_agrees observe_agrees)
qed

subsection \<open>Growth\<close>

lemma gov_exec_le: "gov_le g (gov_exec g c)"
proof (cases c)
  case (ConfirmLower n clock)
  have "prefix (gov_log g) (gov_log (snd (apply_confirmed_lower p g)))" for p
    using apply_confirmed(8) [of p g] by (metis prefixI)
  then show ?thesis
    by (auto simp: ConfirmLower gov_le_def confirm_lower_eq apply_confirmed record_refused_def split: option.split)
next
  case (ObserveEquity e)
  then show ?thesis
    by (auto simp: gov_le_def observe_floor)
      (auto simp: observe_equity_def maybe_ratchet_def maybe_advise_profit_sweep_def record_mark_advance_def Let_def)
qed (auto simp: gov_le_def raise_floor_def request_lower_def record_refused_def Let_def)

interpretation gov_growth: monotone_machine gov_exec gov_le
  by unfold_locales (simp add: gov_le_def, fastforce simp: gov_le_def intro: prefix_order.trans order_trans, rule gov_exec_le)

lemma floor_decrease:
  assumes "gov_floor (gov_exec g c) < gov_floor g"
  shows "\<exists>n clock p. c = ConfirmLower n clock \<and> pending_lower g = Some p \<and> n = nonce p \<and> ready_at p \<le> clock \<and>
    gov_floor (gov_exec g c) = target_floor_micros p"
proof (cases c)
  case (ObserveEquity e)
  then have "gov_floor g \<le> gov_floor (gov_exec g c)" by (auto simp: observe_floor unit_le_iff)
  with assms show ?thesis by simp
next
  case (ConfirmLower n clock)
  with assms show ?thesis
    by (cases "pending_lower g") (auto simp: confirm_lower_eq apply_confirmed split: if_splits)
qed (use assms in \<open>auto simp: raise_floor_def request_lower_def Let_def split: if_splits\<close>)

lemma request_pending:
  "pending_lower (snd (request_lower f origin n clock g)) =
     (if origin = ORIGIN_CLI \<and> pending_lower g = None
      then Some \<lparr>nonce = n, ready_at = clock + cool_off_seconds g, target_floor_micros = f\<rparr> else pending_lower g)"
  by (simp add: request_lower_def Let_def)

text \<open>A pending lowering stems from a request made from the CLI earlier in the run.\<close>

lemma pending_origin:
  assumes "pending_lower g0 = None" and "pending_lower (foldl gov_exec g0 cmds) = Some p"
  shows "\<exists>i < length cmds. \<exists>t0. cmds ! i = RequestLower (target_floor_micros p) ORIGIN_CLI (nonce p) t0 \<and>
    ready_at p = t0 + cool_off_seconds g0"
  using assms(2)
proof (induction cmds arbitrary: p rule: rev_induct)
  case Nil
  with assms(1) show ?case by simp
next
  case (snoc c cmds)
  let ?g = "foldl gov_exec g0 cmds"
  have cool: "cool_off_seconds ?g = cool_off_seconds g0"
    using gov_growth.run_le [of g0 cmds] by (simp add: gov_le_def)
  have "pending_lower ?g = Some p \<or>
      (\<exists>t0. c = RequestLower (target_floor_micros p) ORIGIN_CLI (nonce p) t0 \<and> ready_at p = t0 + cool_off_seconds g0)"
  proof (cases c)
    case (RequestLower f origin n clock)
    with snoc.prems show ?thesis by (auto simp: request_pending cool split: if_splits)
  next
    case (ConfirmLower n clock)
    with snoc.prems show ?thesis
      by (auto simp: confirm_lower_eq apply_confirmed split: option.splits if_splits)
  qed (use snoc.prems in \<open>auto simp: raise_floor_def observe_floor split: if_splits\<close>)
  then show ?case
  proof
    assume "pending_lower ?g = Some p"
    from snoc.IH [OF this] show ?thesis by (auto simp: nth_append intro: less_SucI)
  next
    assume "\<exists>t0. c = RequestLower (target_floor_micros p) ORIGIN_CLI (nonce p) t0 \<and> ready_at p = t0 + cool_off_seconds g0"
    then show ?thesis by (auto simp: nth_append intro!: exI [of _ "length cmds"])
  qed
qed

subsection \<open>The ratchet\<close>

lemma ppm_share_bounds: "1000000 * ppm_of a r \<le> a * r" "a * r < 1000000 * ppm_of a r + 1000000"
  unfolding ppm_of_eq
  using div_mult_mod_eq [of "a * r" 1000000] pos_mod_bound [of 1000000 "a * r"] pos_mod_sign [of 1000000 "a * r"]
  by linarith+

lemma ratchet_run:
  assumes "0 \<le> ratchet_ppm g"
  shows "let g' = foldl (\<lambda>g e. observe_equity e g) g es in
    ratchet_ppm g' = ratchet_ppm g \<and> val (gov_floor g) \<le> val (gov_floor g') \<and>
    high_water_mark g' = foldl max (high_water_mark g) es \<and>
    1000000 * (val (gov_floor g') - val (gov_floor g))
      \<le> (val (high_water_mark g') - val (high_water_mark g)) * ratchet_ppm g"
  using assms
proof (induction es arbitrary: g)
  case (Cons e es)
  let ?g = "observe_equity e g"
  have r: "ratchet_ppm ?g = ratchet_ppm g" by (simp add: observe_floor)
  have step: "val (gov_floor g) \<le> val (gov_floor ?g) \<and> 1000000 * (val (gov_floor ?g) - val (gov_floor g))
      \<le> (val (high_water_mark ?g) - val (high_water_mark g)) * ratchet_ppm g"
  proof (cases "e \<le> high_water_mark g")
    case True
    then show ?thesis by (simp add: observe_floor max_def)
  next
    case False
    then have gain: "0 < val e - val (high_water_mark g)" by (simp add: unit_le_iff)
    let ?inc = "ppm_of (val e - val (high_water_mark g)) (ratchet_ppm g)"
    have "0 \<le> (val e - val (high_water_mark g)) * ratchet_ppm g" using gain Cons.prems by simp
    then have "1000000 * max 0 ?inc \<le> (val e - val (high_water_mark g)) * ratchet_ppm g"
      using ppm_share_bounds(1) [of "val e - val (high_water_mark g)" "ratchet_ppm g"] by (simp add: max_def)
    moreover have "max (high_water_mark g) e = e" using False by (intro max.absorb2) simp
    ultimately show ?thesis using False by (simp add: observe_floor)
  qed
  have "0 \<le> ratchet_ppm ?g" using Cons.prems r by simp
  note IH = Cons.IH [OF this, unfolded Let_def]
  let ?g' = "foldl (\<lambda>g e. observe_equity e g) ?g es"
  have mark: "high_water_mark ?g' = foldl max (high_water_mark g) (e # es)" using IH by (simp add: observe_floor(2))
  have "1000000 * (val (gov_floor ?g') - val (gov_floor ?g))
      \<le> (val (high_water_mark ?g') - val (high_water_mark ?g)) * ratchet_ppm g" using IH unfolding r by blast
  with step have "1000000 * (val (gov_floor ?g') - val (gov_floor g))
      \<le> (val (high_water_mark ?g') - val (high_water_mark g)) * ratchet_ppm g"
    by (simp only: left_diff_distrib right_diff_distrib) linarith
  moreover have "ratchet_ppm ?g' = ratchet_ppm g" "val (gov_floor g) \<le> val (gov_floor ?g')" using IH step r by auto
  ultimately show ?case unfolding Let_def foldl.simps(2) using mark [unfolded foldl.simps(2)] by blast
qed simp

section \<open>Properties\<close>

text \<open>The floor comes down only the long way: in any run of raises, requests, confirmations and equity
  observations from a governance with nothing pending, a step that leaves the floor lower is a
  confirmation carrying the nonce of a request made from the CLI earlier in the run, at least the whole
  cool-off before by the clock readings, and the new floor is exactly the one then requested.\<close>

theorem floor_lowered_only_after_cool_off:
  assumes "pending_lower g0 = None"
    and "gov_floor (foldl gov_exec g0 (cmds @ [c])) < gov_floor (foldl gov_exec g0 cmds)"
  shows "\<exists>i < length cmds. \<exists>target n requested_at confirmed_at.
    cmds ! i = RequestLower target ORIGIN_CLI n requested_at \<and> c = ConfirmLower n confirmed_at \<and>
    requested_at + cool_off_seconds g0 \<le> confirmed_at \<and>
    gov_floor (foldl gov_exec g0 (cmds @ [c])) = target"
proof -
  from floor_decrease [of "foldl gov_exec g0 cmds" c] assms(2) obtain n clock p where
    c: "c = ConfirmLower n clock" "pending_lower (foldl gov_exec g0 cmds) = Some p" "n = nonce p"
      "ready_at p \<le> clock" "gov_floor (gov_exec (foldl gov_exec g0 cmds) c) = target_floor_micros p"
    by auto
  from pending_origin [OF assms(1) c(2)] c show ?thesis by auto
qed

theorem floor_lowered_only_after_cool_off_witness:
  "gov_floor (foldl gov_exec sample_governance ([RaiseFloor (IntUnit 90) ORIGIN_DASHBOARD, RequestLower (IntUnit 50) ORIGIN_CLI ''n'' 10]
       @ [ConfirmLower ''n'' 172810])) = IntUnit 50
   \<and> (\<exists>i < 2. \<exists>t0. [RaiseFloor (IntUnit 90) ORIGIN_DASHBOARD, RequestLower (IntUnit 50) ORIGIN_CLI ''n'' 10] ! i
        = RequestLower (IntUnit 50) ORIGIN_CLI ''n'' t0)"
proof -
  let ?cmds = "[RaiseFloor (IntUnit 90) ORIGIN_DASHBOARD, RequestLower (IntUnit 50) ORIGIN_CLI ''n'' 10]"
  have p: "pending_lower sample_governance = None" by (simp add: sample_governance_def FloorGovernance_new_def)
  have f: "gov_floor (foldl gov_exec sample_governance (?cmds @ [ConfirmLower ''n'' 172810])) = IntUnit 50"
    "gov_floor (foldl gov_exec sample_governance ?cmds) = IntUnit 90"
    by (simp_all add: sample_governance_def FloorGovernance_new_def raise_floor_def request_lower_def Let_def
        confirm_lower_eq apply_confirmed unit_le_iff DEFAULT_FLOOR_LOWER_COOL_OFF_SECONDS_def)
  have "gov_floor (foldl gov_exec sample_governance (?cmds @ [ConfirmLower ''n'' 172810]))
      < gov_floor (foldl gov_exec sample_governance ?cmds)" unfolding f by (simp add: unit_less_iff)
  from floor_lowered_only_after_cool_off [OF p this] f show ?thesis by force
qed

text \<open>A confirmed lowering always takes trading out of the live modes: the demotion loop terminates
  without error, a live mode ends in PAPER and every other mode is left alone, the request is used up
  (a second confirmation fails) and the high-water mark is kept.\<close>

theorem confirmed_lowering_leaves_live:
  assumes "pending_lower g = Some p" and "ready_at p \<le> clock"
  shows "fst (confirm_lower (nonce p) clock g) = Inr () \<and>
    msm_mode (gov_machine (snd (confirm_lower (nonce p) clock g))) =
      (if msm_mode (gov_machine g) \<in> {LIVE, LIVE_MICRO} then PAPER else msm_mode (gov_machine g)) \<and>
    gov_floor (snd (confirm_lower (nonce p) clock g)) = target_floor_micros p \<and>
    high_water_mark (snd (confirm_lower (nonce p) clock g)) = high_water_mark g \<and>
    fst (confirm_lower n clock' (snd (confirm_lower (nonce p) clock g))) = Inl NoPendingLowerError"
  using assms by (simp add: confirm_lower_eq apply_confirmed)

theorem confirmed_lowering_leaves_live_witness:
  "msm_mode (gov_machine (snd (confirm_lower ''n'' 172810
     (snd (request_lower (IntUnit 50) ORIGIN_CLI ''n'' 10 sample_governance))))) = PAPER"
proof -
  let ?g = "snd (request_lower (IntUnit 50) ORIGIN_CLI ''n'' 10 sample_governance)"
  have p: "pending_lower ?g = Some \<lparr>nonce = ''n'', ready_at = 172810, target_floor_micros = IntUnit 50\<rparr>"
    by (simp add: request_lower_def sample_governance_def FloorGovernance_new_def Let_def
        DEFAULT_FLOOR_LOWER_COOL_OFF_SECONDS_def)
  have m: "msm_mode (gov_machine ?g) = LIVE"
    by (simp add: request_lower_def sample_governance_def FloorGovernance_new_def Let_def)
  from confirmed_lowering_leaves_live [OF p, of 172810] m show ?thesis by simp
qed

text \<open>Replay is exact: for a governance whose floor starts at zero over an empty ledger, replaying
  the events of any run (refusals included) restores the floor, the high-water mark and the pending
  lowering exactly as they were.\<close>

theorem governance_replay_exact:
  "\<exists>g'. FloorGovernance_from_events
      (gov_log (foldl gov_exec (FloorGovernance_new (IntUnit 0) ppm sweep m [] cool) cmds)) ppm' sweep' m' evs cool' = Inr g' \<and>
    durable g' = durable (foldl gov_exec (FloorGovernance_new (IntUnit 0) ppm sweep m [] cool) cmds)"
proof -
  have "gov_replay_agrees (FloorGovernance_new (IntUnit 0) ppm' sweep' m' evs cool')
      (FloorGovernance_new (IntUnit 0) ppm sweep m [] cool)"
    by (simp add: gov_replay_agrees_def FloorGovernance_new_def durable_def)
  from gov_replay.run_inv [OF this, of cmds] show ?thesis
    by (simp add: gov_replay_agrees_def FloorGovernance_from_events_def)
qed

text \<open>The ratchet is monotone and never over-collects: over any sequence of equity observations the
  high-water mark becomes the running maximum, the floor never moves down, and its total rise is at
  most the configured share of the total rise of the mark, however the gains are split up.\<close>

theorem ratchet_bounded_by_share:
  assumes "0 \<le> ratchet_ppm g"
  shows "let g' = foldl (\<lambda>g e. observe_equity e g) g es in
    high_water_mark g' = foldl max (high_water_mark g) es \<and> val (gov_floor g) \<le> val (gov_floor g') \<and>
    1000000 * (val (gov_floor g') - val (gov_floor g))
      \<le> (val (high_water_mark g') - val (high_water_mark g)) * ratchet_ppm g"
  using ratchet_run [OF assms, of es] unfolding Let_def by blast

theorem ratchet_bounded_by_share_witness:
  "val (gov_floor (foldl (\<lambda>g e. observe_equity e g) sample_governance [IntUnit 50, IntUnit 30, IntUnit 75])) \<le> 7"
proof -
  have r: "0 \<le> ratchet_ppm sample_governance" by (simp add: sample_governance_def FloorGovernance_new_def)
  let ?g = "foldl (\<lambda>g e. observe_equity e g) sample_governance [IntUnit 50, IntUnit 30, IntUnit 75]"
  have start: "val (gov_floor sample_governance) = 0" "high_water_mark sample_governance = IntUnit 0"
    "ratchet_ppm sample_governance = 100000"
    by (simp_all add: sample_governance_def FloorGovernance_new_def)
  have mark: "foldl max (IntUnit 0) [IntUnit 50, IntUnit 30, IntUnit 75 :: MoneyMicros] = IntUnit 75"
    by (simp add: max_def unit_le_iff)
  note b = ratchet_bounded_by_share [OF r, of "[IntUnit 50, IntUnit 30, IntUnit 75]", unfolded Let_def start mark]
  have "high_water_mark ?g = IntUnit 75" using b by (rule conjunct1)
  with b have "1000000 * (val (gov_floor ?g) - 0) \<le> (val (IntUnit 75 :: MoneyMicros) - val (IntUnit 0 :: MoneyMicros)) * 100000"
    by metis
  then show ?thesis by (simp del: foldl.simps)
qed

section \<open>The initial floor is not in the ledger\<close>

text \<open>
  A governance configured with a positive initial floor and not changed since replays with floor zero:
  the initial floor is never recorded and replay starts from zero.
\<close>

lemma initial_floor_not_replayed:
  "FloorGovernance_from_events (gov_log (FloorGovernance_new (IntUnit f) ppm sweep m [] cool)) ppm sweep m [] cool
     = Inr (FloorGovernance_new (IntUnit 0) ppm sweep m [] cool)"
  by (simp add: FloorGovernance_from_events_def FloorGovernance_new_def)

end
