(* ===== verification/Json.thy ===== *)
theory Json
  imports Tokens
begin

text \<open>
  \<open>json.loads\<close> as the readers of the ledger and of the write-ahead log use it: the whole grammar of
  the standard library's decoder (insignificant whitespace, escapes, nested arrays and objects, the
  last of two equal keys winning, trailing text refused). Texts are lists of \<open>char\<close>, so a \<open>\\u\<close>
  escape of a code point above 255 and a literal with a fraction, an exponent or a non-finite float
  have no value here; they are reported as \<open>WideChar\<close> and \<open>FloatLiteral\<close>, apart from the decoder's
  own \<open>JSONDecodeError\<close>. The recursion is bounded by a fuel of twice the length of the text and
  one more step, which \<open>loads_fuel_enough\<close> shows is never used up.
\<close>

section \<open>Definitions\<close>

datatype json_error = JSONDecodeError | FloatLiteral | WideChar | OutOfFuel

definition json_space :: "char \<Rightarrow> bool" where
  "json_space c = (c \<in> {CHR '' '', CHR 0x09, CHR 0x0A, CHR 0x0D})"

abbreviation skip_space :: "string \<Rightarrow> string" where
  "skip_space \<equiv> dropWhile json_space"

definition hex4 :: "char \<Rightarrow> char \<Rightarrow> char \<Rightarrow> char \<Rightarrow> nat option" where
  "hex4 a b c d = (case (hex_val a, hex_val b, hex_val c, hex_val d) of
     (Some w, Some x, Some y, Some z) \<Rightarrow> Some (4096 * w + 256 * x + 16 * y + z) | _ \<Rightarrow> None)"

definition simple_escape :: "char \<Rightarrow> char option" where
  "simple_escape d =
     (if d \<in> {CHR 0x22, CHR 0x5C, CHR ''/''} then Some d
      else if d = CHR ''n'' then Some (CHR 0x0A) else if d = CHR ''r'' then Some (CHR 0x0D)
      else if d = CHR ''t'' then Some (CHR 0x09) else if d = CHR ''f'' then Some (CHR 0x0C)
      else if d = CHR ''b'' then Some (CHR 0x08) else None)"

definition push_char :: "char \<Rightarrow> json_error + (string \<times> string) \<Rightarrow> json_error + (string \<times> string)" where
  "push_char c res = res_bind res (\<lambda>(s, r). Inr (c # s, r))"

text \<open>The body of a string, after its opening quote.\<close>

fun scan_string :: "string \<Rightarrow> json_error + (string \<times> string)" where
  "scan_string [] = Inl JSONDecodeError"
| "scan_string (c # r) =
     (if c = CHR 0x22 then Inr ([], r)
      else if c \<noteq> CHR 0x5C then
        (if (of_char c :: nat) < 32 then Inl JSONDecodeError else push_char c (scan_string r))
      else case r of
          [] \<Rightarrow> Inl JSONDecodeError
        | d # r1 \<Rightarrow>
            (if d \<noteq> CHR ''u'' then
               (case simple_escape d of None \<Rightarrow> Inl JSONDecodeError | Some e \<Rightarrow> push_char e (scan_string r1))
             else case r1 of
                 h1 # h2 # h3 # h4 # r2 \<Rightarrow>
                   (case hex4 h1 h2 h3 h4 of
                      None \<Rightarrow> Inl JSONDecodeError
                    | Some n \<Rightarrow> if n < 256 then push_char (char_of n) (scan_string r2) else Inl WideChar)
               | _ \<Rightarrow> Inl JSONDecodeError))"

text \<open>A number: the integer part, and whether a fraction or an exponent follows it.\<close>

definition float_tail :: "string \<Rightarrow> bool" where
  "float_tail r =
     (case r of
        [] \<Rightarrow> False
      | c # r1 \<Rightarrow>
          if c = CHR ''.'' then (case r1 of [] \<Rightarrow> False | d # _ \<Rightarrow> is_digit d)
          else if c = CHR ''e'' \<or> c = CHR ''E'' then
            (case r1 of
               [] \<Rightarrow> False
             | d # r2 \<Rightarrow> if d = CHR ''+'' \<or> d = CHR ''-'' then (case r2 of [] \<Rightarrow> False | e # _ \<Rightarrow> is_digit e)
                 else is_digit d)
          else False)"

definition scan_digits :: "string \<Rightarrow> (string \<times> string) option" where
  "scan_digits s =
     (case s of
        [] \<Rightarrow> None
      | c # r \<Rightarrow> if c = CHR ''0'' then Some ([c], r)
          else if is_digit c then Some (takeWhile is_digit s, dropWhile is_digit s) else None)"

definition scan_number :: "int \<Rightarrow> string \<Rightarrow> json_error + (json \<times> string)" where
  "scan_number sg s =
     (case scan_digits s of
        None \<Rightarrow> Inl JSONDecodeError
      | Some (ds, r) \<Rightarrow> if float_tail r then Inl FloatLiteral else Inr (JInt (sg * int (read_nat ds)), r))"

definition strip_prefix :: "string \<Rightarrow> string \<Rightarrow> string option" where
  "strip_prefix p s = (if take (length p) s = p then Some (drop (length p) s) else None)"

definition scan_literal :: "string \<Rightarrow> json_error + (json \<times> string)" where
  "scan_literal s =
     (case strip_prefix ''null'' s of Some r \<Rightarrow> Inr (JNull, r) | None \<Rightarrow>
      case strip_prefix ''true'' s of Some r \<Rightarrow> Inr (JBool True, r) | None \<Rightarrow>
      case strip_prefix ''false'' s of Some r \<Rightarrow> Inr (JBool False, r) | None \<Rightarrow>
      if strip_prefix ''NaN'' s \<noteq> None \<or> strip_prefix ''Infinity'' s \<noteq> None \<or> strip_prefix ''-Infinity'' s \<noteq> None
      then Inl FloatLiteral
      else if s \<noteq> [] \<and> hd s = CHR ''-'' then scan_number (- 1) (tl s) else scan_number 1 s)"

text \<open>The next character that is not whitespace, and what follows it.\<close>

definition token_at :: "string \<Rightarrow> char option" where
  "token_at s = (case skip_space s of [] \<Rightarrow> None | c # _ \<Rightarrow> Some c)"

definition after_token :: "string \<Rightarrow> string" where
  "after_token s = tl (skip_space s)"

text \<open>A dict built by assigning the members in order.\<close>

definition dict_of_pairs :: "('k \<times> 'v) list \<Rightarrow> ('k, 'v) pydict" where
  "dict_of_pairs ps = foldl (\<lambda>d (k, v). dict_set k v d) [] ps"

fun scan_once :: "nat \<Rightarrow> string \<Rightarrow> json_error + (json \<times> string)"
  and scan_elements :: "nat \<Rightarrow> string \<Rightarrow> json_error + (json list \<times> string)"
  and scan_members :: "nat \<Rightarrow> string \<Rightarrow> json_error + ((string \<times> json) list \<times> string)"
where
  "scan_once 0 s = Inl OutOfFuel"
| "scan_once (Suc n) s =
     (case s of
        [] \<Rightarrow> Inl JSONDecodeError
      | c # r \<Rightarrow>
          if c = CHR 0x22 then res_bind (scan_string r) (\<lambda>(t, r'). Inr (JStr t, r'))
          else if c = CHR ''['' then
            (if token_at r = Some (CHR '']'') then Inr (JList [], after_token r)
             else res_bind (scan_elements n (skip_space r)) (\<lambda>(xs, r'). Inr (JList xs, r')))
          else if c = CHR ''{'' then
            (if token_at r = Some (CHR ''}'') then Inr (JObj [], after_token r)
             else res_bind (scan_members n (skip_space r)) (\<lambda>(kvs, r'). Inr (JObj (dict_of_pairs kvs), r')))
          else scan_literal s)"
| "scan_elements 0 s = Inl OutOfFuel"
| "scan_elements (Suc n) s =
     res_bind (scan_once n s) (\<lambda>(x, r).
       if token_at r = Some (CHR '']'') then Inr ([x], after_token r)
       else if token_at r = Some (CHR '','') then
         res_bind (scan_elements n (skip_space (after_token r))) (\<lambda>(xs, r'). Inr (x # xs, r'))
       else Inl JSONDecodeError)"
| "scan_members 0 s = Inl OutOfFuel"
| "scan_members (Suc n) s =
     (if s = [] \<or> hd s \<noteq> CHR 0x22 then Inl JSONDecodeError
      else res_bind (scan_string (tl s)) (\<lambda>(k, r).
        if token_at r \<noteq> Some (CHR '':'') then Inl JSONDecodeError
        else res_bind (scan_once n (skip_space (after_token r))) (\<lambda>(v, r').
          if token_at r' = Some (CHR ''}'') then Inr ([(k, v)], after_token r')
          else if token_at r' = Some (CHR '','') then
            res_bind (scan_members n (skip_space (after_token r'))) (\<lambda>(kvs, r''). Inr ((k, v) # kvs, r''))
          else Inl JSONDecodeError)))"

definition json_loads :: "string \<Rightarrow> json_error + json" where
  "json_loads s =
     res_bind (scan_once (2 * length s + 1) (skip_space s)) (\<lambda>(j, r).
       if skip_space r = [] then Inr j else Inl JSONDecodeError)"

text \<open>JSON values whose objects are dicts at every level.\<close>

fun json_wf :: "json \<Rightarrow> bool" where
  "json_wf (JList xs) = list_all json_wf xs"
| "json_wf (JObj kvs) = (dict_wf kvs \<and> list_all (\<lambda>(_, v). json_wf v) kvs)"
| "json_wf _ = True"

section \<open>Lemmas\<close>

lemma push_char_Inr [simp]: "push_char c (Inr (s, r)) = Inr (c # s, r)"
  by (simp add: push_char_def)

lemma scan_string_escape:
  assumes "scan_string r = Inr (t, r')"
  shows "scan_string (json_escape c @ r) = Inr (c # t, r')"
proof -
  let ?n = "of_char c :: nat"
  have h: "hex4 CHR ''0'' CHR ''0'' (hex_digit (?n div 16)) (hex_digit (?n mod 16)) = Some ?n"
    using of_char_nibble [of c] by (simp add: hex4_def hex_val_def [of "CHR ''0''"])
  have u: "scan_string ([CHR 0x5C, CHR ''u'', CHR ''0'', CHR ''0'', hex_digit (?n div 16), hex_digit (?n mod 16)] @ r)
      = Inr (c # t, r')"
    using h assms nat_of_char_less_256 [of c] by simp
  consider (special) "c \<in> {CHR 0x22, CHR 0x5C, CHR 0x0A, CHR 0x0D, CHR 0x09, CHR 0x0C, CHR 0x08}"
    | (plain) "c \<notin> {CHR 0x22, CHR 0x5C, CHR 0x0A, CHR 0x0D, CHR 0x09, CHR 0x0C, CHR 0x08}" "32 \<le> ?n \<and> ?n \<le> 126"
    | (other) "c \<notin> {CHR 0x22, CHR 0x5C, CHR 0x0A, CHR 0x0D, CHR 0x09, CHR 0x0C, CHR 0x08}" "\<not> (32 \<le> ?n \<and> ?n \<le> 126)"
    by blast
  then show ?thesis
  proof cases
    case special
    with assms show ?thesis by (elim insertE) (simp_all add: json_escape_def simple_escape_def)
  next
    case plain
    then have "json_escape c = [c]" by (simp add: json_escape_def)
    with plain assms show ?thesis by simp
  next
    case other
    then have "json_escape c = [CHR 0x5C, CHR ''u'', CHR ''0'', CHR ''0'', hex_digit (?n div 16), hex_digit (?n mod 16)]"
      by (simp only: json_escape_def insert_iff de_Morgan_disj if_False if_True)
    with u show ?thesis by simp
  qed
qed

lemma scan_string_round_trip:
  "scan_string (concat (map json_escape s) @ CHR 0x22 # r) = Inr (s, r)"
  by (induction s) (simp_all del: scan_string.simps add: scan_string_escape, simp)

lemma digit_char_0 [simp]: "digit_char 0 = CHR ''0''"
  by code_simp

lemma show_nat_hd_0: "hd (show_nat n) = CHR ''0'' \<longleftrightarrow> n = 0"
proof (induction n rule: show_nat.induct)
  case (1 n)
  have d: "digit_char k = CHR ''0'' \<longleftrightarrow> k = 0" if "k < 10" for k
    using that of_char_digit_char [of k] of_char_digit_char [of 0]
    by (metis add_left_cancel digit_char_0 zero_less_numeral)
  show ?case
  proof (cases "n < 10")
    case True
    then show ?thesis by (simp add: show_nat.simps [of n] d)
  next
    case False
    with 1 have "hd (show_nat (n div 10)) = CHR ''0'' \<longleftrightarrow> n div 10 = 0" by blast
    with False show ?thesis by (simp add: show_nat.simps [of n])
  qed
qed

lemma scan_digits_show:
  assumes "r = [] \<or> \<not> is_digit (hd r)"
  shows "scan_digits (show_nat n @ r) = Some (show_nat n, r)"
proof (cases "n = 0")
  case True
  then show ?thesis by (simp add: scan_digits_def show_nat.simps [of 0])
next
  case False
  obtain c t where ct: "show_nat n = c # t" by (cases "show_nat n") auto
  have all: "list_all is_digit (show_nat n)" by (auto simp: list_all_iff dest: show_nat_digits)
  have "c \<noteq> CHR ''0''" using show_nat_hd_0 [of n] False ct by simp
  moreover have "is_digit c" using all ct by simp
  moreover have "takeWhile is_digit (show_nat n @ r) = show_nat n"
    "dropWhile is_digit (show_nat n @ r) = r"
    using assms all by (cases r; auto simp: list_all_iff takeWhile_append dropWhile_append)+
  ultimately show ?thesis by (simp add: scan_digits_def ct)
qed

lemma json_end_float: "json_end r \<Longrightarrow> \<not> float_tail r"
  by (cases r) (auto simp: json_end_def float_tail_def)

lemma json_end_space: "json_end r \<Longrightarrow> skip_space r = r"
  by (cases r) (auto simp: json_end_def json_space_def)

lemma scan_number_show:
  assumes "json_end r"
  shows "scan_number sg (show_nat n @ r) = Inr (JInt (sg * int n), r)"
  using scan_digits_show [OF json_end_not_digit [OF assms], of n] json_end_float [OF assms]
  by (simp add: scan_number_def)

lemma strip_prefix_hd: "s \<noteq> [] \<Longrightarrow> p \<noteq> [] \<Longrightarrow> hd s \<noteq> hd p \<Longrightarrow> strip_prefix p s = None"
  by (cases s; cases p) (auto simp: strip_prefix_def)

lemma scan_literal_digit:
  assumes "is_digit (hd s)" "s \<noteq> []"
  shows "scan_literal s = scan_number 1 s"
proof -
  have h: "hd s \<notin> {CHR ''n'', CHR ''t'', CHR ''f'', CHR ''N'', CHR ''I'', CHR ''-''}"
    using assms(1) by (auto simp: is_digit_def)
  then show ?thesis using assms(2) by (simp add: scan_literal_def strip_prefix_hd)
qed

lemma scan_literal_minus:
  assumes "is_digit (hd s)" "s \<noteq> []"
  shows "scan_literal (CHR ''-'' # s) = scan_number (- 1) s"
proof -
  have "hd s \<noteq> CHR ''I''" using assms(1) by (auto simp: is_digit_def)
  then have "strip_prefix ''-Infinity'' (CHR ''-'' # s) = None"
    using assms(2) by (cases s) (simp_all add: strip_prefix_def)
  then show ?thesis by (simp add: scan_literal_def strip_prefix_hd)
qed

lemma scan_literal_show:
  assumes "json_end r"
  shows "scan_literal (show_int i @ r) = Inr (JInt i, r)"
proof -
  have d: "is_digit (hd (show_nat n @ r))" for n
    using show_nat_digits [OF hd_in_set [OF show_nat_nonempty], of n] by simp
  show ?thesis
  proof (cases "i < 0")
    case True
    have "scan_literal (show_int i @ r) = scan_number (- 1) (show_nat (nat (- i)) @ r)"
      unfolding show_int_def using True scan_literal_minus [OF d] by simp
    then show ?thesis using True scan_number_show [OF assms] by simp
  next
    case False
    have "scan_literal (show_int i @ r) = scan_number 1 (show_nat (nat i) @ r)"
      unfolding show_int_def using False scan_literal_digit [OF d] by simp
    then show ?thesis using False scan_number_show [OF assms] by simp
  qed
qed

subsection \<open>Reading back what was written\<close>

lemma skip_space_kind: "json_kind (hd s) \<noteq> 7 \<Longrightarrow> skip_space s = s"
  by (cases s) (auto simp: json_space_def json_kind_def is_digit_def)

lemma skip_space_dumps [simp]: "skip_space (json_dumps j @ r) = json_dumps j @ r"
proof -
  have "json_kind (hd (json_dumps j @ r)) \<noteq> 7" unfolding json_kind_dumps by (simp split: json.split)
  then show ?thesis by (rule skip_space_kind)
qed

lemma skip_space_string [simp]: "skip_space (json_string k @ r) = json_string k @ r"
  using skip_space_dumps [of "JStr k" r] by simp

lemma next_token_Cons: "\<not> json_space c \<Longrightarrow> token_at (c # r) = Some c" "\<not> json_space c \<Longrightarrow> after_token (c # r) = r"
  by (simp_all add: token_at_def after_token_def)

lemma punctuation_not_space [simp]:
  "\<not> json_space CHR '',''" "\<not> json_space CHR '']''" "\<not> json_space CHR ''}''" "\<not> json_space CHR '':''"
  by (simp_all add: json_space_def)

lemma json_join_Cons_Cons: "json_join (x # y # ys) = x @ '','' @ json_join (y # ys)"
  by simp

lemma json_end_punctuation [simp]: "json_end (CHR '','' # r)" "json_end (CHR '']'' # r)" "json_end (CHR ''}'' # r)"
  by (simp_all add: json_end_def)

abbreviation reads_back :: "json \<Rightarrow> bool" where
  "reads_back x \<equiv> (\<forall>n r. json_end r \<longrightarrow> length (json_dumps x) \<le> n \<longrightarrow> scan_once n (json_dumps x @ r) = Inr (x, r))"

lemma scan_elements_join:
  assumes "xs \<noteq> []" "\<forall>x \<in> set xs. reads_back x" "length (json_join (map json_dumps xs)) + 1 \<le> n"
  shows "scan_elements n (json_join (map json_dumps xs) @ CHR '']'' # r) = Inr (xs, r)"
  using assms
proof (induction xs arbitrary: n)
  case (Cons x xs)
  from Cons.prems(3) obtain m where n: "n = Suc m" by (cases n) auto
  show ?case
  proof (cases xs)
    case Nil
    with Cons.prems have "scan_once m (json_dumps x @ CHR '']'' # r) = Inr (x, CHR '']'' # r)" by (simp add: n)
    with Nil show ?thesis by (simp add: n next_token_Cons)
  next
    case (Cons y ys)
    let ?t = "json_join (map json_dumps xs) @ CHR '']'' # r"
    have split: "json_join (map json_dumps (x # xs)) = json_dumps x @ '','' @ json_join (map json_dumps xs)"
      using Cons json_join_Cons_Cons by simp
    have len: "length (json_dumps x) + 1 + length (json_join (map json_dumps xs)) \<le> m"
      using Cons.prems(3) unfolding split n by simp
    have 1: "scan_once m (json_dumps x @ CHR '','' # ?t) = Inr (x, CHR '','' # ?t)"
      using Cons.prems(2) len by simp
    have "skip_space ?t = ?t" using Cons by simp
    moreover have "scan_elements m ?t = Inr (xs, r)"
      using Cons.IH [of m] Cons.prems(2) len Cons by simp
    ultimately show ?thesis unfolding split n using 1 by (simp add: next_token_Cons)
  qed
qed simp

lemma scan_members_join:
  assumes "kvs \<noteq> []" "\<forall>(k, v) \<in> set kvs. reads_back v"
    and "length (json_join (map (\<lambda>(k, v). json_string k @ '':'' @ json_dumps v) kvs)) + 1 \<le> n"
  shows "scan_members n (json_join (map (\<lambda>(k, v). json_string k @ '':'' @ json_dumps v) kvs) @ CHR ''}'' # r) = Inr (kvs, r)"
  using assms
proof (induction kvs arbitrary: n)
  case (Cons p kvs)
  let ?f = "\<lambda>(k, v). json_string k @ '':'' @ json_dumps v"
  obtain k v where p: "p = (k, v)" by (cases p)
  from Cons.prems(3) obtain m where n: "n = Suc m" by (cases n) auto
  have key: "scan_members (Suc m) (json_string k @ '':'' @ json_dumps v @ t) =
      (case scan_once m (json_dumps v @ t) of Inl e \<Rightarrow> Inl e
       | Inr (v, r') \<Rightarrow>
          if token_at r' = Some (CHR ''}'') then Inr ([(k, v)], after_token r')
          else if token_at r' = Some (CHR '','') then
            res_bind (scan_members m (skip_space (after_token r'))) (\<lambda>(kvs, r''). Inr ((k, v) # kvs, r''))
          else Inl JSONDecodeError)" for t
    by (simp add: json_string_def scan_string_round_trip next_token_Cons res_bind_def split: sum.split)
  show ?case
  proof (cases kvs)
    case Nil
    with Cons.prems p have "scan_once m (json_dumps v @ CHR ''}'' # r) = Inr (v, CHR ''}'' # r)" by (simp add: n)
    with Nil p show ?thesis using key [of "CHR ''}'' # r"] by (simp add: n next_token_Cons del: scan_members.simps)
  next
    case (Cons q kvs')
    let ?t = "json_join (map ?f kvs) @ CHR ''}'' # r"
    have split: "json_join (map ?f (p # kvs)) = json_string k @ '':'' @ json_dumps v @ '','' @ json_join (map ?f kvs)"
      using Cons p json_join_Cons_Cons by simp
    have len: "length (json_dumps v) + 1 + length (json_join (map ?f kvs)) \<le> m"
      using Cons.prems(3) unfolding split n by simp
    have 1: "scan_once m (json_dumps v @ CHR '','' # ?t) = Inr (v, CHR '','' # ?t)"
      using Cons.prems(2) len p by simp
    have "skip_space ?t = ?t" using Cons by (cases q) simp
    moreover have "scan_members m ?t = Inr (kvs, r)"
      using Cons.IH [of m] Cons.prems(2) len Cons by simp
    ultimately show ?thesis unfolding split n using 1 p key [of "CHR '','' # ?t"] by (simp add: next_token_Cons del: scan_members.simps)
  qed
qed simp

lemma dict_of_pairs_wf:
  assumes "dict_wf kvs"
  shows "dict_of_pairs kvs = kvs"
proof -
  have "foldl (\<lambda>d (k, v). dict_set k v d) d kvs = d @ kvs" if "dict_wf (d @ kvs)" for d
    using that
  proof (induction kvs arbitrary: d)
    case (Cons p kvs)
    obtain k v where p: "p = (k, v)" by (cases p)
    have "dict_set k v d = d @ [(k, v)]"
      by (rule dict_set_fresh) (use Cons.prems p in \<open>auto simp: dict_wf_def\<close>)
    with Cons.IH [of "d @ [(k, v)]"] Cons.prems p show ?case by simp
  qed simp
  with assms show ?thesis by (simp add: dict_of_pairs_def)
qed

lemma scan_dumps: "json_wf j \<Longrightarrow> reads_back j"
proof (induction j)
  case (JInt i)
  have h: "hd (show_int i) \<noteq> CHR 0x22" "hd (show_int i) \<noteq> CHR ''[''" "hd (show_int i) \<noteq> CHR ''{''"
    using hd_show_int [of i] by (auto simp: is_digit_def)
  show ?case
  proof (intro allI impI)
    fix n r assume r: "json_end r" and n: "length (json_dumps (JInt i)) \<le> n"
    obtain c t where ct: "show_int i = c # t" by (cases "show_int i") auto
    from n ct obtain m where "n = Suc m" by (cases n) auto
    then show "scan_once n (json_dumps (JInt i) @ r) = Inr (JInt i, r)"
      using h ct scan_literal_show [OF r, of i] by simp
  qed
next
  case (JStr s)
  show ?case
  proof (intro allI impI)
    fix n r assume "length (json_dumps (JStr s)) \<le> n"
    then obtain m where "n = Suc m" by (cases n) (auto simp: json_string_def)
    then show "scan_once n (json_dumps (JStr s) @ r) = Inr (JStr s, r)"
      by (simp add: json_string_def scan_string_round_trip)
  qed
next
  case (JBool b)
  show ?case by (cases b; intro allI impI, case_tac n) (auto simp: scan_literal_def strip_prefix_def)
next
  case JNull
  show ?case by (intro allI impI, case_tac n) (auto simp: scan_literal_def strip_prefix_def)
next
  case (JList xs)
  show ?case
  proof (intro allI impI)
    fix n r assume n: "length (json_dumps (JList xs)) \<le> n"
    then obtain m where m: "n = Suc m" by (cases n) auto
    show "scan_once n (json_dumps (JList xs) @ r) = Inr (JList xs, r)"
    proof (cases "xs = []")
      case True
      then show ?thesis by (simp add: m next_token_Cons)
    next
      case False
      let ?t = "json_join (map json_dumps xs) @ CHR '']'' # r"
      have all: "\<forall>x \<in> set xs. reads_back x" using JList by (auto simp: list_all_iff)
      from scan_elements_join [OF False all, of m r] n
      have e: "scan_elements m ?t = Inr (xs, r)" by (simp add: m)
      obtain x ys where xs: "xs = x # ys" using False by (cases xs) auto
      have sk: "skip_space ?t = ?t" by (simp add: xs)
      obtain c t where ct: "json_dumps x = c # t" using json_dumps_nonempty [of x] by (cases "json_dumps x") auto
      have "json_kind c \<noteq> 7" using json_kind_dumps [of x "[]"] ct by (auto split: json.splits)
      then have "c \<noteq> CHR '']''" by (auto simp: json_kind_def is_digit_def)
      moreover have "token_at ?t = Some c" unfolding token_at_def sk by (simp add: xs ct)
      ultimately show ?thesis using e sk by (auto simp: m)
    qed
  qed
next
  case (JObj kvs)
  let ?f = "\<lambda>(k, v). json_string k @ '':'' @ json_dumps v"
  show ?case
  proof (intro allI impI)
    fix n r assume n: "length (json_dumps (JObj kvs)) \<le> n"
    then obtain m where m: "n = Suc m" by (cases n) auto
    have wf: "dict_wf kvs" using JObj.prems by simp
    show "scan_once n (json_dumps (JObj kvs) @ r) = Inr (JObj kvs, r)"
    proof (cases "kvs = []")
      case True
      then show ?thesis by (simp add: m next_token_Cons)
    next
      case False
      let ?t = "json_join (map ?f kvs) @ CHR ''}'' # r"
      have all: "\<forall>(k, v) \<in> set kvs. reads_back v" using JObj by (fastforce simp: list_all_iff)
      from scan_members_join [OF False all, of m r] n
      have e: "scan_members m ?t = Inr (kvs, r)" by (simp add: m)
      obtain k v ys where kvs: "kvs = (k, v) # ys" using False by (cases kvs) auto
      have sk: "skip_space ?t = ?t" by (simp add: kvs)
      have "token_at ?t = Some (CHR 0x22)" unfolding token_at_def sk by (simp add: kvs json_string_def)
      then show ?thesis using e sk by (auto simp: m dict_of_pairs_wf [OF wf])
    qed
  qed
qed

lemma loads_dumps:
  assumes "json_wf j"
  shows "json_loads (json_dumps j) = Inr j"
proof -
  have "scan_once (2 * length (json_dumps j) + 1) (json_dumps j @ []) = Inr (j, [])"
    using scan_dumps [OF assms] by (simp del: scan_once.simps add: json_end_def)
  moreover have "skip_space (json_dumps j) = json_dumps j" using skip_space_dumps [of j "[]"] by simp
  ultimately show ?thesis unfolding json_loads_def by (simp del: scan_once.simps)
qed

lemma distinct_map_sort_key: "distinct (map f (sort_key g xs)) = distinct (map f xs)"
  by (rule mset_eq_imp_distinct_iff) (simp add: mset_map)

lemma json_wf_canon: "json_wf j \<Longrightarrow> json_wf (json_canon j)"
proof (induction j)
  case (JObj kvs)
  let ?g = "map (\<lambda>(k, v). (k, json_canon v)) kvs"
  have "distinct (map fst ?g)"
    using JObj.prems by (simp add: dict_wf_def case_prod_unfold o_def)
  then have "distinct (map fst (sort_key fst ?g))" by (simp only: distinct_map_sort_key)
  moreover have "json_wf v" if "(k, v) \<in> set ?g" for k v
  proof -
    from that obtain w where w: "(k, w) \<in> set kvs" "v = json_canon w" by auto
    then have "json_wf w" using JObj.prems by (auto simp: list_all_iff)
    with JObj.IH [OF w(1), of w] w(2) show ?thesis by simp
  qed
  ultimately show ?case by (fastforce simp: dict_wf_def list_all_iff)
qed (auto simp: list_all_iff)

lemma loads_canonical: "json_wf (JObj d) \<Longrightarrow> json_loads (canonical_json d) = Inr (json_canon (JObj d))"
  unfolding canonical_json_def by (intro loads_dumps json_wf_canon)

lemma dict_get_sort_key:
  assumes "dict_wf d"
  shows "dict_get (sort_key fst d) k = dict_get d k"
proof -
  have "distinct (map fst (sort_key fst d))" using assms by (simp only: distinct_map_sort_key dict_wf_def)
  moreover have "set (sort_key fst d) = set d" by simp
  ultimately have "map_of (sort_key fst d) = map_of d"
    using assms by (simp only: dict_wf_def map_of_eq_set [symmetric])
  then show ?thesis by (simp only: dict_get_def)
qed

lemma dict_get_canon:
  assumes "dict_wf d"
  shows "dict_get (sort_key fst (map (\<lambda>(k, v). (k, json_canon v)) d)) k = map_option json_canon (dict_get d k)"
proof -
  have "dict_wf (map (\<lambda>(k, v). (k, json_canon v)) d)"
    using assms by (simp add: dict_wf_def case_prod_unfold o_def)
  then show ?thesis by (simp add: dict_get_sort_key) (simp add: dict_get_def map_of_map)
qed

lemma loads_canonical_obj:
  assumes "json_wf (JObj obj)"
  obtains d where "json_loads (canonical_json obj) = Inr (JObj d)"
    "\<And>k. dict_get d k = map_option json_canon (dict_get obj k)" "fst ` set d = fst ` set obj"
proof -
  let ?d = "sort_key fst (map (\<lambda>(k, v). (k, json_canon v)) obj)"
  have "json_loads (canonical_json obj) = Inr (JObj ?d)"
    using loads_canonical [OF assms] by (simp only: json_canon.simps)
  moreover have "dict_get ?d k = map_option json_canon (dict_get obj k)" for k
    by (rule dict_get_canon) (use assms in simp)
  moreover have "fst ` set ?d = fst ` set obj" by force
  ultimately show thesis by (rule that)
qed

text \<open>The text of a value is printable ASCII: it has no line break of any kind in it.\<close>

definition printable :: "char \<Rightarrow> bool" where
  "printable c = (32 \<le> (of_char c :: nat) \<and> (of_char c :: nat) \<le> 126)"

lemma printable_escape: "c \<in> set (json_escape d) \<Longrightarrow> printable c"
proof -
  have h: "printable (hex_digit n)" if "n < 16" for n using that by (auto simp: printable_def hex_digit_def)
  show "c \<in> set (json_escape d) \<Longrightarrow> printable c"
    using h [of "of_char d div 16"] h [of "of_char d mod 16"] of_char_nibble [of d]
    by (auto simp: json_escape_def printable_def split: if_splits)
qed

lemma printable_string: "c \<in> set (json_string s) \<Longrightarrow> printable c"
  by (auto simp: json_string_def dest: printable_escape) (simp_all add: printable_def)

lemma printable_join: "c \<in> set (json_join xs) \<Longrightarrow> c = CHR '','' \<or> (\<exists>x \<in> set xs. c \<in> set x)"
  by (cases xs) (auto split: if_splits)

lemma printable_punctuation [simp]:
  "printable CHR '',''" "printable CHR '':''" "printable CHR ''[''" "printable CHR '']''" "printable CHR ''{''" "printable CHR ''}''"
  by (simp_all add: printable_def)

lemma printable_dumps: "c \<in> set (json_dumps j) \<Longrightarrow> printable c"
proof (induction j)
  case (JInt i)
  then show ?case by (auto simp: show_int_def printable_def is_digit_def dest!: show_nat_digits split: if_splits)
next
  case (JObj kvs)
  then show ?case by (fastforce dest!: printable_join dest: printable_string)
next
  case (JList xs)
  then show ?case by (fastforce dest!: printable_join)
next
  case (JStr s)
  then show ?case by (simp add: printable_string)
qed (auto simp: printable_def split: if_splits)

subsection \<open>The fuel is enough\<close>

lemma scan_string_length: "scan_string s = Inr (t, r) \<Longrightarrow> length r < length s"
proof (induction s arbitrary: t r rule: scan_string.induct)
  case (2 c s)
  then show ?case
    by (fastforce simp: push_char_def res_bind_Inr_iff split: if_splits option.splits list.splits)
qed simp

lemma scan_digits_length: "scan_digits s = Some (ds, r) \<Longrightarrow> length r < length s"
  by (cases s) (auto simp: scan_digits_def length_dropWhile_le le_imp_less_Suc split: if_splits)

lemma scan_number_length: "scan_number sg s = Inr (j, r) \<Longrightarrow> length r < length s"
  by (auto simp: scan_number_def dest: scan_digits_length split: option.splits if_splits)

lemma strip_prefix_length: "strip_prefix p s = Some r \<Longrightarrow> p \<noteq> [] \<Longrightarrow> length r < length s"
  by (auto simp: strip_prefix_def split: if_splits)
    (metis Suc_pred diff_less length_0_conv length_greater_0_conv length_take min.absorb2 take_eq_Nil)

lemma scan_literal_length: "scan_literal s = Inr (j, r) \<Longrightarrow> length r < length s"
  by (auto simp: scan_literal_def dest: strip_prefix_length scan_number_length split: option.splits if_splits)

lemma skip_space_length: "length (skip_space s) \<le> length s"
  by (rule length_dropWhile_le)

lemma after_token_length: "token_at s = Some c \<Longrightarrow> length (after_token s) < length s"
  using skip_space_length [of s] by (auto simp: token_at_def after_token_def split: list.splits)

lemma after_token_le: "length (after_token s) \<le> length s"
  using skip_space_length [of s] by (simp add: after_token_def)

lemma scan_once_length:
  assumes "\<And>s xs r. scan_elements n s = Inr (xs, r) \<Longrightarrow> length r < length s"
    and "\<And>s kvs r. scan_members n s = Inr (kvs, r) \<Longrightarrow> length r < length s"
    and "scan_once (Suc n) s = Inr (j, r)"
  shows "length r < length s"
proof (cases s)
  case (Cons c t)
  have sk: "length (skip_space t) \<le> length t" "length (after_token t) \<le> length t"
    by (rule skip_space_length, rule after_token_le)
  show ?thesis
  proof (cases "c = CHR 0x22 \<or> c = CHR ''['' \<or> c = CHR ''{''")
    case True
    with assms(3) Cons sk show ?thesis
      by (auto simp: res_bind_Inr_iff dest!: scan_string_length assms(1,2) split: if_splits)
  next
    case False
    with assms(3) Cons show ?thesis by (auto dest: scan_literal_length)
  qed
qed (use assms(3) in simp)

lemma scan_elements_length:
  assumes "\<And>s j r. scan_once n s = Inr (j, r) \<Longrightarrow> length r < length s"
    and "\<And>s xs r. scan_elements n s = Inr (xs, r) \<Longrightarrow> length r < length s"
    and "scan_elements (Suc n) s = Inr (xs, r)"
  shows "length r < length s"
proof -
  from assms(3) obtain x r1 where x: "scan_once n s = Inr (x, r1)"
    and rest: "r = after_token r1 \<or> (\<exists>ys. scan_elements n (skip_space (after_token r1)) = Inr (ys, r))"
    by (auto simp: res_bind_Inr_iff split: if_splits)
  have "length r \<le> length r1"
    using rest assms(2) skip_space_length [of "after_token r1"] after_token_le [of r1] by fastforce
  then show ?thesis using assms(1) [OF x] by simp
qed

lemma scan_members_length:
  assumes "\<And>s j r. scan_once n s = Inr (j, r) \<Longrightarrow> length r < length s"
    and "\<And>s kvs r. scan_members n s = Inr (kvs, r) \<Longrightarrow> length r < length s"
    and "scan_members (Suc n) s = Inr (kvs, r)"
  shows "length r < length s"
proof -
  from assms(3) obtain k r1 v r2 where x: "s \<noteq> []" "scan_string (tl s) = Inr (k, r1)"
      "scan_once n (skip_space (after_token r1)) = Inr (v, r2)"
    and rest: "r = after_token r2 \<or> (\<exists>ys. scan_members n (skip_space (after_token r2)) = Inr (ys, r))"
    by (auto simp: res_bind_Inr_iff split: if_splits)
  have "length r \<le> length r2"
    using rest assms(2) skip_space_length [of "after_token r2"] after_token_le [of r2] by fastforce
  moreover have "length r2 < length r1"
    using assms(1) [OF x(3)] skip_space_length [of "after_token r1"] after_token_le [of r1] by simp
  moreover have "length r1 < length s" using scan_string_length [OF x(2)] x(1) by simp
  ultimately show ?thesis by simp
qed

lemma scan_length:
  "(\<forall>s j r. scan_once n s = Inr (j, r) \<longrightarrow> length r < length s) \<and>
   (\<forall>s xs r. scan_elements n s = Inr (xs, r) \<longrightarrow> length r < length s) \<and>
   (\<forall>s kvs r. scan_members n s = Inr (kvs, r) \<longrightarrow> length r < length s)"
proof (induction n)
  case (Suc n)
  show ?case
    using scan_once_length [of n] scan_elements_length [of n] scan_members_length [of n] Suc by blast
qed simp

lemma res_bind_Inl_iff: "res_bind r f = Inl e \<longleftrightarrow> r = Inl e \<or> (\<exists>x. r = Inr x \<and> f x = Inl e)"
  by (cases r) auto

lemma push_char_fuel: "r \<noteq> Inl OutOfFuel \<Longrightarrow> push_char c r \<noteq> Inl OutOfFuel"
  by (auto simp: push_char_def res_bind_Inl_iff)

lemma scan_string_fuel [simp]: "scan_string s \<noteq> Inl OutOfFuel"
proof (induction s rule: scan_string.induct)
  case (2 c s)
  then show ?case by (simp add: push_char_fuel split: option.split list.split)
qed simp

lemma scan_literal_fuel [simp]: "scan_literal s \<noteq> Inl OutOfFuel"
  by (auto simp: scan_literal_def scan_number_def split: option.splits if_splits)

lemma scan_fuel:
  "(\<forall>s. 2 * length s < n \<longrightarrow> scan_once n s \<noteq> Inl OutOfFuel) \<and>
   (\<forall>s. 2 * length s + 1 < n \<longrightarrow> scan_elements n s \<noteq> Inl OutOfFuel) \<and>
   (\<forall>s. 2 * length s + 1 < n \<longrightarrow> scan_members n s \<noteq> Inl OutOfFuel)"
proof (induction n)
  case (Suc n)
  have "scan_once (Suc n) s \<noteq> Inl OutOfFuel" if len: "2 * length s < Suc n" for s
  proof (cases s)
    case (Cons c t)
    have "2 * length (skip_space t) + 1 < n" using skip_space_length [of t] len Cons by simp
    with Suc have "scan_elements n (skip_space t) \<noteq> Inl OutOfFuel" "scan_members n (skip_space t) \<noteq> Inl OutOfFuel" by blast+
    with Cons show ?thesis by (auto simp: res_bind_Inl_iff)
  qed simp
  moreover have "scan_elements (Suc n) s \<noteq> Inl OutOfFuel" if len: "2 * length s + 1 < Suc n" for s
  proof
    assume "scan_elements (Suc n) s = Inl OutOfFuel"
    moreover have "scan_once n s \<noteq> Inl OutOfFuel" using Suc len by simp
    ultimately obtain x r where x: "scan_once n s = Inr (x, r)"
      "scan_elements n (skip_space (after_token r)) = Inl OutOfFuel"
      by (auto simp: res_bind_Inl_iff split: if_splits)
    have "length r < length s" using scan_length [of n] x(1) by blast
    then have "2 * length (skip_space (after_token r)) + 1 < n"
      using skip_space_length [of "after_token r"] after_token_le [of r] len by linarith
    with Suc x(2) show False by blast
  qed
  moreover have "scan_members (Suc n) s \<noteq> Inl OutOfFuel" if len: "2 * length s + 1 < Suc n" for s
  proof
    assume "scan_members (Suc n) s = Inl OutOfFuel"
    then obtain k r where k: "s \<noteq> []" "scan_string (tl s) = Inr (k, r)"
      and rest: "scan_once n (skip_space (after_token r)) = Inl OutOfFuel
        \<or> (\<exists>v r'. scan_once n (skip_space (after_token r)) = Inr (v, r')
             \<and> scan_members n (skip_space (after_token r')) = Inl OutOfFuel)"
      by (auto simp: res_bind_Inl_iff split: if_splits)
    have l: "length (skip_space (after_token r)) < length s"
      using scan_string_length [OF k(2)] skip_space_length [of "after_token r"] after_token_le [of r] k(1) by simp
    then have "scan_once n (skip_space (after_token r)) \<noteq> Inl OutOfFuel" using Suc len by simp
    with rest obtain v r' where v: "scan_once n (skip_space (after_token r)) = Inr (v, r')"
      "scan_members n (skip_space (after_token r')) = Inl OutOfFuel" by blast
    have "length r' < length (skip_space (after_token r))" using scan_length [of n] v(1) by blast
    then have "2 * length (skip_space (after_token r')) + 1 < n"
      using skip_space_length [of "after_token r'"] after_token_le [of r'] l len by linarith
    with Suc v(2) show False by blast
  qed
  ultimately show ?case by blast
qed simp

lemma loads_fuel_enough: "json_loads s \<noteq> Inl OutOfFuel"
proof -
  have "2 * length (skip_space s) < 2 * length s + 1" using length_dropWhile_le [of json_space s] by linarith
  with scan_fuel [of "2 * length s + 1"] have "scan_once (2 * length s + 1) (skip_space s) \<noteq> Inl OutOfFuel" by blast
  then show ?thesis by (auto simp: json_loads_def res_bind_Inl_iff simp del: scan_once.simps split: if_splits)
qed

end
