(* ===== verification/LedgerStore.thy ===== *)
theory LedgerStore
  imports Json
begin

text \<open>
  The hash-chained ledger store (\<open>windbreak/ledger/store.py\<close>). The table is the list of its rows in
  insertion order; every read orders them by \<open>sequence_number\<close>, the primary key. \<open>append\<close> is one
  transaction: a failure of any of its statements is the argument \<open>fault\<close>, and leaves the table as it
  was. The digest is a parameter \<open>sha\<close>: every theorem holds for each function in its place, and where
  tampering could go unnoticed only by a collision, the colliding texts are named. The open sequence
  (journal mode, busy timeout, retries) is not modelled: it does not touch rows.
\<close>

section \<open>The interface of a durable log\<close>

text \<open>
  What a client that replays events after a restart relies on: commands keep the store good, and
  loading returns what was stored, in order.
\<close>

locale durable_log =
  fixes exec :: "'db \<Rightarrow> 'c \<Rightarrow> 'db"
    and load :: "'db \<Rightarrow> 'err + Event list"
    and good :: "'db \<Rightarrow> bool"
    and admissible :: "'c \<Rightarrow> bool"
    and stored :: "'c \<Rightarrow> Event list"
  assumes exec_good: "good db \<Longrightarrow> admissible c \<Longrightarrow> good (exec db c)"
    and exec_load: "good db \<Longrightarrow> admissible c \<Longrightarrow> load db = Inr es \<Longrightarrow> load (exec db c) = Inr (es @ stored c)"
begin

lemma run_load:
  "good db \<Longrightarrow> load db = Inr es \<Longrightarrow> list_all admissible cs \<Longrightarrow>
   good (foldl exec db cs) \<and> load (foldl exec db cs) = Inr (es @ concat (map stored cs))"
  by (induction cs arbitrary: db es) (auto simp: exec_good exec_load)

end

section \<open>Definitions\<close>

type_synonym digest_fn = "string \<Rightarrow> string"

definition GENESIS_PREV_HASH :: string where "GENESIS_PREV_HASH = replicate 64 CHR ''0''"

definition compute_event_hash :: "digest_fn \<Rightarrow> int \<Rightarrow> string \<Rightarrow> string \<Rightarrow> string \<Rightarrow> string \<Rightarrow> string" where
  "compute_event_hash sha seq etype created_at payload_json prev_hash =
     sha (show_int seq @ etype @ created_at @ payload_json @ prev_hash)"

record LedgerRecord =
  lr_sequence_number :: int
  lr_event_type :: string
  lr_created_at :: string
  lr_component :: string
  lr_payload_json :: string
  lr_payload_schema_version :: int
  lr_prev_hash :: string
  lr_event_hash :: string

record ChainHead =
  ch_sequence_number :: int
  ch_event_hash :: string

type_synonym table = "LedgerRecord list"

definition read_all :: "table \<Rightarrow> LedgerRecord list" where
  "read_all db = sort_key lr_sequence_number db"

definition head :: "table \<Rightarrow> ChainHead option" where
  "head db = (if read_all db = [] then None
     else Some \<lparr>ch_sequence_number = lr_sequence_number (last (read_all db)),
                ch_event_hash = lr_event_hash (last (read_all db))\<rparr>)"

definition append_event :: "digest_fn \<Rightarrow> 'x option \<Rightarrow> string \<Rightarrow> Event \<Rightarrow> table \<Rightarrow> ('x + int) \<times> table" where
  "append_event sha fault created_at e db =
     (let payload_json = envelope_json e in
      case fault of
        Some exc \<Rightarrow> (Inl exc, db)
      | None \<Rightarrow>
          (let (seq, prev) = (case head db of None \<Rightarrow> (1, GENESIS_PREV_HASH)
                 | Some h \<Rightarrow> (ch_sequence_number h + 1, ch_event_hash h));
               event_hash = compute_event_hash sha seq (event_type e) created_at payload_json prev
           in (Inr seq, db @ [\<lparr>lr_sequence_number = seq, lr_event_type = event_type e, lr_created_at = created_at,
                 lr_component = component e, lr_payload_json = payload_json,
                 lr_payload_schema_version = payload_schema_version e, lr_prev_hash = prev,
                 lr_event_hash = event_hash\<rparr>])))"

definition latest_of_type :: "string \<Rightarrow> table \<Rightarrow> LedgerRecord option" where
  "latest_of_type t db = find (\<lambda>r. lr_event_type r = t) (rev (read_all db))"

definition latest_record_of_types :: "string list \<Rightarrow> table \<Rightarrow> LedgerRecord option" where
  "latest_record_of_types types db =
     foldl (\<lambda>latest t. case latest_of_type t db of
              None \<Rightarrow> latest
            | Some r \<Rightarrow> (case latest of None \<Rightarrow> Some r
                | Some l \<Rightarrow> if lr_sequence_number r > lr_sequence_number l then Some r else latest))
       None (sorted_list_of_set (set types))"

definition iter_records_of_type_reversed :: "string \<Rightarrow> table \<Rightarrow> LedgerRecord list" where
  "iter_records_of_type_reversed t db = filter (\<lambda>r. lr_event_type r = t) (rev (read_all db))"

text \<open>\<open>ChainIntegrityError\<close> carries the expected position; an envelope with a float literal or a code
  point above 255 is \<open>OutsideModel\<close>.\<close>

datatype chain_error = ChainIntegrityError int | OutsideModel int

text \<open>Python's \<open>==\<close> between a column and a decoded value.\<close>

definition str_eq_json :: "string \<Rightarrow> json \<Rightarrow> bool" where
  "str_eq_json s j = (j = JStr s)"

definition int_eq_json :: "int \<Rightarrow> json \<Rightarrow> bool" where
  "int_eq_json i j = (j = JInt i \<or> j = JBool True \<and> i = 1 \<or> j = JBool False \<and> i = 0)"

definition verify_envelope :: "LedgerRecord \<Rightarrow> int \<Rightarrow> chain_error + unit" where
  "verify_envelope r expected_seq =
     (case json_loads (lr_payload_json r) of
        Inl e \<Rightarrow> Inl (if e = JSONDecodeError then ChainIntegrityError expected_seq else OutsideModel expected_seq)
      | Inr (JObj envelope) \<Rightarrow>
          (case (dict_get envelope ''component'', dict_get envelope ''schema_version'') of
             (Some c, Some v) \<Rightarrow>
               (if str_eq_json (lr_component r) c \<and> int_eq_json (lr_payload_schema_version r) v then Inr ()
                else Inl (ChainIntegrityError expected_seq))
           | _ \<Rightarrow> Inl (ChainIntegrityError expected_seq))
      | Inr _ \<Rightarrow> Inl (ChainIntegrityError expected_seq))"

definition verify_row :: "digest_fn \<Rightarrow> LedgerRecord \<Rightarrow> int \<Rightarrow> string \<Rightarrow> chain_error + unit" where
  "verify_row sha r expected_seq expected_prev_hash =
     (if lr_sequence_number r \<noteq> expected_seq then Inl (ChainIntegrityError expected_seq)
      else if compute_event_hash sha (lr_sequence_number r) (lr_event_type r) (lr_created_at r) (lr_payload_json r)
                (lr_prev_hash r) \<noteq> lr_event_hash r then Inl (ChainIntegrityError expected_seq)
      else if lr_prev_hash r \<noteq> expected_prev_hash then Inl (ChainIntegrityError expected_seq)
      else verify_envelope r expected_seq)"

fun verify_rows :: "digest_fn \<Rightarrow> LedgerRecord list \<Rightarrow> int \<Rightarrow> string \<Rightarrow> chain_error + unit" where
  "verify_rows sha [] expected_seq expected_prev_hash = Inr ()"
| "verify_rows sha (r # rs) expected_seq expected_prev_hash =
     res_bind (verify_row sha r expected_seq expected_prev_hash)
       (\<lambda>_. verify_rows sha rs (expected_seq + 1) (lr_event_hash r))"

definition verify_chain :: "digest_fn \<Rightarrow> table \<Rightarrow> chain_error + unit" where
  "verify_chain sha db = verify_rows sha (read_all db) 1 GENESIS_PREV_HASH"

text \<open>Rebuilding events: the \<open>ValueError\<close> names the row; an envelope whose values are not of the types
  the code casts them to has no \<open>Event\<close> of the model.\<close>

datatype rebuild_error = MalformedEnvelope int | UntypedEnvelope int

definition event_from_record :: "LedgerRecord \<Rightarrow> rebuild_error + Event" where
  "event_from_record r =
     (case json_loads (lr_payload_json r) of
        Inl e \<Rightarrow> Inl (if e = JSONDecodeError then MalformedEnvelope (lr_sequence_number r)
                      else UntypedEnvelope (lr_sequence_number r))
      | Inr (JObj envelope) \<Rightarrow>
          (case (dict_get envelope ''component'', dict_get envelope ''data'', dict_get envelope ''schema_version'') of
             (Some (JStr c), Some (JObj d), Some (JInt v)) \<Rightarrow>
               Inr \<lparr>event_type = lr_event_type r, component = c, payload_schema_version = v, payload = d\<rparr>
           | (Some _, Some _, Some _) \<Rightarrow> Inl (UntypedEnvelope (lr_sequence_number r))
           | _ \<Rightarrow> Inl (MalformedEnvelope (lr_sequence_number r)))
      | Inr _ \<Rightarrow> Inl (MalformedEnvelope (lr_sequence_number r)))"

fun events_from_records :: "LedgerRecord list \<Rightarrow> rebuild_error + Event list" where
  "events_from_records [] = Inr []"
| "events_from_records (r # rs) =
     res_bind (event_from_record r) (\<lambda>e. res_bind (events_from_records rs) (\<lambda>es. Inr (e # es)))"

text \<open>A run of appends, each with its fault, its clock reading and its event.\<close>

type_synonym append_cmd = "string option \<times> string \<times> Event"

definition append_cmd :: "digest_fn \<Rightarrow> table \<Rightarrow> append_cmd \<Rightarrow> table" where
  "append_cmd sha db c = (case c of (fault, created_at, e) \<Rightarrow> snd (append_event sha fault created_at e db))"

definition canon_event :: "Event \<Rightarrow> Event" where
  "canon_event e = e\<lparr>payload := sort_key fst (map (\<lambda>(k, v). (k, json_canon v)) (payload e))\<rparr>"

definition stored_events :: "append_cmd \<Rightarrow> Event list" where
  "stored_events c = (case c of (None, _, e) \<Rightarrow> [canon_event e] | (Some _, _, _) \<Rightarrow> [])"

definition storable :: "append_cmd \<Rightarrow> bool" where
  "storable c = json_wf (JObj (payload (snd (snd c))))"

definition store_ok :: "digest_fn \<Rightarrow> table \<Rightarrow> bool" where
  "store_ok sha db = (verify_chain sha db = Inr () \<and> read_all db = db)"

text \<open>What a row's digest is taken over.\<close>

definition row_text :: "LedgerRecord \<Rightarrow> string" where
  "row_text r = show_int (lr_sequence_number r) @ lr_event_type r @ lr_created_at r @ lr_payload_json r @ lr_prev_hash r"

definition collides :: "digest_fn \<Rightarrow> string \<Rightarrow> string \<Rightarrow> bool" where
  "collides sha x y = (x \<noteq> y \<and> sha x = sha y)"

text \<open>Two rows that agree in position, links and hash, and in the run of text made of type, time and
  envelope.\<close>

definition same_text :: "LedgerRecord \<Rightarrow> LedgerRecord \<Rightarrow> bool" where
  "same_text r s = (lr_sequence_number r = lr_sequence_number s \<and> lr_prev_hash r = lr_prev_hash s \<and>
     lr_event_hash r = lr_event_hash s \<and>
     lr_event_type r @ lr_created_at r @ lr_payload_json r = lr_event_type s @ lr_created_at s @ lr_payload_json s)"

text \<open>A row changed in one column.\<close>

datatype column_update =
    SetSequenceNumber int | SetEventType string | SetCreatedAt string | SetComponent string
  | SetPayloadJson string | SetSchemaVersion int | SetPrevHash string | SetEventHash string

fun set_column :: "column_update \<Rightarrow> LedgerRecord \<Rightarrow> LedgerRecord" where
  "set_column (SetSequenceNumber n) r = r\<lparr>lr_sequence_number := n\<rparr>"
| "set_column (SetEventType s) r = r\<lparr>lr_event_type := s\<rparr>"
| "set_column (SetCreatedAt s) r = r\<lparr>lr_created_at := s\<rparr>"
| "set_column (SetComponent s) r = r\<lparr>lr_component := s\<rparr>"
| "set_column (SetPayloadJson s) r = r\<lparr>lr_payload_json := s\<rparr>"
| "set_column (SetSchemaVersion n) r = r\<lparr>lr_payload_schema_version := n\<rparr>"
| "set_column (SetPrevHash s) r = r\<lparr>lr_prev_hash := s\<rparr>"
| "set_column (SetEventHash s) r = r\<lparr>lr_event_hash := s\<rparr>"

section \<open>Lemmas\<close>

subsection \<open>Verification row by row\<close>

lemma verify_row_ok_iff:
  "verify_row sha r n p = Inr () \<longleftrightarrow>
     lr_sequence_number r = n \<and> sha (row_text r) = lr_event_hash r \<and> lr_prev_hash r = p \<and>
     verify_envelope r n = Inr ()"
  by (auto simp: verify_row_def compute_event_hash_def row_text_def)

lemma verify_rows_Cons_ok:
  "verify_rows sha (r # rs) n p = Inr () \<longleftrightarrow>
     verify_row sha r n p = Inr () \<and> verify_rows sha rs (n + 1) (lr_event_hash r) = Inr ()"
  by (auto simp: res_bind_Inr_iff)

lemma verify_rows_append:
  "verify_rows sha (xs @ ys) n p = Inr () \<longleftrightarrow>
     verify_rows sha xs n p = Inr () \<and>
     verify_rows sha ys (n + int (length xs)) (if xs = [] then p else lr_event_hash (last xs)) = Inr ()"
proof (induction xs arbitrary: n p)
  case (Cons x xs)
  show ?case using Cons.IH [of "n + 1" "lr_event_hash x"]
    by (auto simp: res_bind_Inr_iff add.assoc add.commute [of 1])
qed simp

lemma verify_rows_seq:
  "verify_rows sha rs n p = Inr () \<Longrightarrow> map lr_sequence_number rs = map (\<lambda>i. n + int i) [0..<length rs]"
proof (induction rs arbitrary: n p)
  case (Cons r rs)
  then have "map lr_sequence_number rs = map (\<lambda>i. n + 1 + int i) [0..<length rs]" "lr_sequence_number r = n"
    by (auto simp: res_bind_Inr_iff verify_row_ok_iff)
  then show ?case by (simp add: upt_conv_Cons map_Suc_upt [symmetric] o_def del: upt_Suc)
qed simp

lemma verify_rows_sorted: "verify_rows sha rs n p = Inr () \<Longrightarrow> sorted_wrt (<) (map lr_sequence_number rs)"
  by (drule verify_rows_seq) (simp add: sorted_wrt_map sorted_wrt_upt sorted_wrt_mono_rel [OF _ sorted_wrt_upt])

lemma read_all_verified:
  assumes "verify_rows sha db n p = Inr ()"
  shows "read_all db = db"
  unfolding read_all_def
  by (rule sort_key_id_if_sorted)
    (use verify_rows_sorted [OF assms] in \<open>auto intro: sorted_wrt_mono_rel simp: strict_sorted_iff\<close>)

lemma read_all_idem [simp]: "read_all (read_all db) = read_all db"
  unfolding read_all_def by (rule sort_key_id_if_sorted) simp

lemma read_all_Nil [simp]: "read_all [] = []"
  by (simp add: read_all_def)

lemma read_all_eq_Nil [simp]: "read_all db = [] \<longleftrightarrow> db = []"
  by (metis length_0_conv length_sort read_all_def)

lemma sorted_takeWhile:
  "sorted_wrt (\<lambda>r s. lr_sequence_number s < lr_sequence_number r) xs \<Longrightarrow>
     takeWhile (\<lambda>r. \<not> lr_sequence_number r \<le> c) xs = filter (\<lambda>r. \<not> lr_sequence_number r \<le> c) xs"
proof (induction xs)
  case (Cons x xs)
  then have "lr_sequence_number x \<le> c \<Longrightarrow> filter (\<lambda>r. \<not> lr_sequence_number r \<le> c) xs = []"
    by (fastforce simp: filter_empty_conv)
  with Cons show ?case by simp
qed simp

subsection \<open>Envelopes\<close>

lemma envelope_loads:
  assumes "json_wf (JObj (payload e))"
  obtains d where "json_loads (envelope_json e) = Inr (JObj d)"
    "dict_get d ''component'' = Some (JStr (component e))"
    "dict_get d ''data'' = Some (JObj (payload (canon_event e)))"
    "dict_get d ''schema_version'' = Some (JInt (payload_schema_version e))"
proof -
  let ?env = "[(''component'', JStr (component e)), (''data'', JObj (payload e)),
       (''schema_version'', JInt (payload_schema_version e))]"
  have "json_wf (JObj ?env)" using assms by (simp add: dict_wf_def)
  then obtain d where "json_loads (envelope_json e) = Inr (JObj d)"
    and get: "\<And>k. dict_get d k = map_option json_canon (dict_get ?env k)"
    unfolding envelope_json_def by (rule loads_canonical_obj) blast
  then show thesis by (intro that [of d]) (simp_all only: get, simp_all add: dict_get_def canon_event_def)
qed

lemma appended_row:
  assumes "json_wf (JObj (payload e))" and "lr_payload_json r = envelope_json e" and "lr_component r = component e"
    and "lr_payload_schema_version r = payload_schema_version e"
  shows "verify_envelope r n = Inr ()"
    and "lr_event_type r = event_type e \<Longrightarrow> event_from_record r = Inr (canon_event e)"
proof -
  obtain d where d: "json_loads (envelope_json e) = Inr (JObj d)"
    "dict_get d ''component'' = Some (JStr (component e))"
    "dict_get d ''data'' = Some (JObj (payload (canon_event e)))"
    "dict_get d ''schema_version'' = Some (JInt (payload_schema_version e))"
    by (rule envelope_loads [OF assms(1)])
  show "verify_envelope r n = Inr ()"
    using d assms(2-4) by (simp add: verify_envelope_def str_eq_json_def int_eq_json_def)
  show "lr_event_type r = event_type e \<Longrightarrow> event_from_record r = Inr (canon_event e)"
    using d assms(2) by (simp add: event_from_record_def canon_event_def)
qed

subsection \<open>Appending\<close>

lemma append_ok:
  assumes "verify_rows sha db 1 GENESIS_PREV_HASH = Inr ()" and "json_wf (JObj (payload e))"
  obtains r where "append_event sha None t e db = (Inr (int (length db) + 1), db @ [r])"
    "verify_rows sha (db @ [r]) 1 GENESIS_PREV_HASH = Inr ()" "event_from_record r = Inr (canon_event e)"
    "lr_created_at r = t"
proof -
  have ra: "read_all db = db" by (rule read_all_verified [OF assms(1)])
  define prev where "prev = (if db = [] then GENESIS_PREV_HASH else lr_event_hash (last db))"
  define n where "n = int (length db) + 1"
  have "lr_sequence_number (last db) = int (length db)" if "db \<noteq> []"
    using verify_rows_seq [OF assms(1)] that
    by (metis (no_types, lifting) add.commute diff_less int_ops(4) last_conv_nth length_greater_0_conv length_map nth_map
        nth_upt plus_int_code(1) zero_less_one of_nat_Suc Suc_pred' add_0 length_upt diff_zero)
  then have h: "(case head db of None \<Rightarrow> (1, GENESIS_PREV_HASH) | Some h \<Rightarrow> (ch_sequence_number h + 1, ch_event_hash h))
      = (n, prev)"
    by (auto simp: head_def ra prev_def n_def)
  define r where "r = \<lparr>lr_sequence_number = n, lr_event_type = event_type e, lr_created_at = t,
                 lr_component = component e, lr_payload_json = envelope_json e,
                 lr_payload_schema_version = payload_schema_version e, lr_prev_hash = prev,
                 lr_event_hash = compute_event_hash sha n (event_type e) t (envelope_json e) prev\<rparr>"
  have "append_event sha None t e db = (Inr n, db @ [r])"
    unfolding append_event_def h by (simp add: r_def Let_def)
  moreover have "verify_row sha r n prev = Inr ()"
    using appended_row(1) [OF assms(2), of r n]
    by (simp add: verify_row_ok_iff r_def row_text_def compute_event_hash_def)
  moreover have "event_from_record r = Inr (canon_event e)"
    using appended_row(2) [OF assms(2), of r] by (simp add: r_def)
  ultimately show thesis
    using assms(1) by (intro that [of r]) (simp_all add: verify_rows_append prev_def n_def r_def add.commute)
qed

lemma append_cmd_fault: "append_cmd sha db (Some x, t, e) = db"
  by (simp add: append_cmd_def append_event_def)

lemma store_ok_rows: "store_ok sha db \<longleftrightarrow> verify_rows sha db 1 GENESIS_PREV_HASH = Inr ()"
  using read_all_verified by (auto simp: store_ok_def verify_chain_def)

lemma appended:
  assumes "store_ok sha db" and "json_wf (JObj (payload e))"
  obtains r n where "append_event sha (None :: string option) t e db = (Inr n, db @ [r])" "store_ok sha (db @ [r])"
    "lr_payload_json r = envelope_json e" "lr_event_type r = event_type e"
proof -
  obtain r where r: "append_event sha (None :: string option) t e db = (Inr (int (length db) + 1), db @ [r])"
    "verify_rows sha (db @ [r]) 1 GENESIS_PREV_HASH = Inr ()"
    by (rule append_ok [OF assms(1) [unfolded store_ok_rows] assms(2)])
  have "lr_payload_json r = envelope_json e \<and> lr_event_type r = event_type e"
    using r(1) by (auto simp: append_event_def Let_def split: prod.splits)
  with that r show thesis by (simp add: store_ok_rows)
qed

lemma events_from_append:
  "events_from_records rs = Inr es \<Longrightarrow> event_from_record r = Inr e \<Longrightarrow> events_from_records (rs @ [r]) = Inr (es @ [e])"
  by (induction rs arbitrary: es) (auto simp: res_bind_Inr_iff)

interpretation store: durable_log "append_cmd sha" "\<lambda>db. events_from_records (read_all db)" "store_ok sha" storable stored_events
  for sha
proof
  fix db c es
  assume ok: "store_ok sha db" and st: "storable c"
  obtain f t e where c: "c = (f, t, e)" by (cases c)
  have ra: "read_all db = db" using ok by (simp add: store_ok_def)
  have "store_ok sha (append_cmd sha db c) \<and>
    (events_from_records (read_all db) = Inr es \<longrightarrow>
     events_from_records (read_all (append_cmd sha db c)) = Inr (es @ stored_events c))"
  proof (cases f)
    case None
    obtain r where r: "append_event sha f t e db = (Inr (int (length db) + 1), db @ [r])"
      "verify_rows sha (db @ [r]) 1 GENESIS_PREV_HASH = Inr ()" "event_from_record r = Inr (canon_event e)"
      using append_ok [of sha db e t] ok st c None by (auto simp: store_ok_rows storable_def)
    have "read_all (db @ [r]) = db @ [r]" by (rule read_all_verified [OF r(2)])
    with r c None show ?thesis
      by (auto simp: append_cmd_def store_ok_rows stored_events_def ra intro: events_from_append)
  next
    case (Some x)
    with ok c show ?thesis by (auto simp: append_cmd_fault stored_events_def)
  qed
  then show "store_ok sha (append_cmd sha db c)"
    and "events_from_records (read_all db) = Inr es \<Longrightarrow>
      events_from_records (read_all (append_cmd sha db c)) = Inr (es @ stored_events c)"
    by auto
qed

interpretation store_growth: monotone_machine "append_cmd sha" prefix for sha
  by unfold_locales (auto simp: append_cmd_def append_event_def Let_def split: prod.split option.split intro: prefix_order.trans)

lemma store_ok_Nil [simp]: "store_ok sha []" "events_from_records (read_all []) = Inr []"
  by (simp_all add: store_ok_rows read_all_def)

subsection \<open>Tampering\<close>

lemma row_text_eq:
  assumes "row_text r = row_text s" and "length (lr_prev_hash r) = length (lr_prev_hash s)"
    and "lr_sequence_number r = lr_sequence_number s" and "lr_event_hash r = lr_event_hash s"
  shows "same_text r s"
proof -
  let ?A = "\<lambda>r. show_int (lr_sequence_number r) @ lr_event_type r @ lr_created_at r @ lr_payload_json r"
  have "?A r @ lr_prev_hash r = ?A s @ lr_prev_hash s" using assms(1) by (simp add: row_text_def)
  then have "?A r = ?A s \<and> lr_prev_hash r = lr_prev_hash s"
    using append_eq_append_conv [of "?A r" "?A s" "lr_prev_hash r" "lr_prev_hash s"] assms(2) by blast
  then show ?thesis using assms(3,4) by (simp add: same_text_def)
qed

lemma verified_prev_length:
  assumes "verify_rows sha rs n p = Inr ()" and "\<And>x. length (sha x) = 64" and "length p = 64" and "r \<in> set rs"
  shows "length (lr_prev_hash r) = 64"
  using assms(1,3,4)
proof (induction rs arbitrary: n p)
  case (Cons x rs)
  then have "length (lr_event_hash x) = 64" by (auto simp: res_bind_Inr_iff verify_row_ok_iff dest!: sym [of "sha _"] simp: assms(2))
  with Cons show ?case by (auto simp: res_bind_Inr_iff verify_row_ok_iff)
qed simp

lemma same_head_same_rows:
  assumes "verify_rows sha a n p = Inr ()" and "verify_rows sha b n p = Inr ()" and len: "\<And>x. length (sha x) = 64" "length p = 64"
    and "length a = length b" and "a \<noteq> [] \<Longrightarrow> lr_event_hash (last a) = lr_event_hash (last b)"
    and "\<And>x y. x \<in> set a \<Longrightarrow> y \<in> set b \<Longrightarrow> \<not> collides sha (row_text x) (row_text y)"
  shows "list_all2 same_text a b"
  using assms(1,2,5,6,7)
proof (induction a arbitrary: b rule: rev_induct)
  case (snoc x a)
  from snoc.prems(3) obtain b' y where b: "b = b' @ [y]" by (cases b rule: rev_cases) auto
  let ?n = "n + int (length a)" and ?p = "\<lambda>rs. if rs = [] then p else lr_event_hash (last rs)"
  have x: "verify_rows sha a n p = Inr ()" "verify_row sha x ?n (?p a) = Inr ()"
    using snoc.prems(1) by (auto simp: verify_rows_append res_bind_Inr_iff)
  have y: "verify_rows sha b' n p = Inr ()" "verify_row sha y ?n (?p b') = Inr ()"
    using snoc.prems(2,3) b by (auto simp: verify_rows_append res_bind_Inr_iff)
  have h: "lr_event_hash x = lr_event_hash y" using snoc.prems(4) b by simp
  then have "row_text x = row_text y"
    using x(2) y(2) snoc.prems(5) [of x y] b by (auto simp: verify_row_ok_iff collides_def)
  moreover have "length (lr_prev_hash x) = 64" "length (lr_prev_hash y) = 64"
    using verified_prev_length [OF snoc.prems(1) len] verified_prev_length [OF snoc.prems(2) len] b by auto
  ultimately have st: "same_text x y" using x(2) y(2) h by (intro row_text_eq) (auto simp: verify_row_ok_iff)
  then have "?p a = ?p b'" using x(2) y(2) by (auto simp: verify_row_ok_iff same_text_def)
  then have "list_all2 same_text a b'"
    using x(1) y(1) snoc.prems(3,5) b by (intro snoc.IH) auto
  with st b show ?case by (simp add: list_all2_appendI)
qed simp

lemma verify_envelope_ok_iff:
  "verify_envelope r n = Inr () \<longleftrightarrow>
     (\<exists>d c v. json_loads (lr_payload_json r) = Inr (JObj d) \<and> dict_get d ''component'' = Some c \<and>
        dict_get d ''schema_version'' = Some v \<and> str_eq_json (lr_component r) c \<and>
        int_eq_json (lr_payload_schema_version r) v)"
  by (cases "json_loads (lr_payload_json r)") (auto simp: verify_envelope_def split: json.split option.split)

lemma envelope_columns:
  assumes "verify_envelope r n = Inr ()" and "verify_envelope s m = Inr ()" and "lr_payload_json r = lr_payload_json s"
  shows "lr_component r = lr_component s \<and> lr_payload_schema_version r = lr_payload_schema_version s"
proof -
  obtain d c v where d: "json_loads (lr_payload_json r) = Inr (JObj d)" "dict_get d ''component'' = Some c"
    "dict_get d ''schema_version'' = Some v" "str_eq_json (lr_component r) c" "int_eq_json (lr_payload_schema_version r) v"
    using assms(1) unfolding verify_envelope_ok_iff by blast
  then have "str_eq_json (lr_component s) c" "int_eq_json (lr_payload_schema_version s) v"
    using assms(2,3) unfolding verify_envelope_ok_iff by auto
  with d(4,5) show ?thesis by (auto simp: str_eq_json_def int_eq_json_def)
qed

lemma one_column_row:
  assumes "verify_row sha r n p = Inr ()" and "verify_row sha (set_column u r) n p = Inr ()" and "set_column u r \<noteq> r"
  shows "collides sha (row_text r) (row_text (set_column u r))"
proof (cases u)
  case (SetComponent c)
  with assms envelope_columns [of r n "set_column u r"] show ?thesis by (auto simp: verify_row_ok_iff)
next
  case (SetSchemaVersion v)
  with assms envelope_columns [of r n "set_column u r"] show ?thesis by (auto simp: verify_row_ok_iff)
qed (use assms in \<open>auto simp: verify_row_ok_iff row_text_def collides_def\<close>)

lemma update_keeps_order:
  assumes "read_all db = db" and "i < length db" and "lr_sequence_number r = lr_sequence_number (db ! i)"
  shows "read_all (db[i := r]) = db[i := r]"
proof -
  have "map lr_sequence_number (db[i := r]) = map lr_sequence_number db"
    using assms(2,3) by (simp add: map_update list_update_same_conv)
  moreover have "sorted (map lr_sequence_number db)" by (metis assms(1) read_all_def sorted_sort_key)
  ultimately show ?thesis unfolding read_all_def by (intro sort_key_id_if_sorted) simp
qed

lemma verified_sequence_numbers:
  "verify_chain sha db = Inr () \<Longrightarrow> mset (map lr_sequence_number db) = mset (map (\<lambda>i. 1 + int i) [0..<length db])"
  unfolding verify_chain_def by (drule verify_rows_seq) (metis length_sort mset_map mset_sort read_all_def)

lemma sequence_number_pinned:
  assumes "verify_chain sha db = Inr ()" and "verify_chain sha (db[i := r]) = Inr ()" and "i < length db"
  shows "lr_sequence_number r = lr_sequence_number (db ! i)"
proof -
  let ?f = "map lr_sequence_number db"
  have "mset (?f[i := lr_sequence_number r]) = mset ?f"
    using verified_sequence_numbers [OF assms(1)] verified_sequence_numbers [OF assms(2)] by (simp add: map_update)
  then have "add_mset (lr_sequence_number r) (mset ?f - {#?f ! i#}) = add_mset (?f ! i) (mset ?f - {#?f ! i#})"
    using assms(3) by (simp add: mset_update)
  then have "lr_sequence_number r = ?f ! i" by (metis add_mset_add_single add_left_cancel single_eq_single)
  then show ?thesis using assms(3) by simp
qed

lemma one_column_table:
  assumes "store_ok sha db" and "i < length db" and "set_column u (db ! i) \<noteq> db ! i"
    and "verify_chain sha (db[i := set_column u (db ! i)]) = Inr ()"
  shows "collides sha (row_text (db ! i)) (row_text (set_column u (db ! i)))"
proof -
  let ?r = "set_column u (db ! i)"
  have ok: "verify_chain sha db = Inr ()" "read_all db = db" using assms(1) by (simp_all add: store_ok_def)
  have "lr_sequence_number ?r = lr_sequence_number (db ! i)" by (rule sequence_number_pinned [OF ok(1) assms(4,2)])
  then have ra: "read_all (db[i := ?r]) = db[i := ?r]" by (rule update_keeps_order [OF ok(2) assms(2)])
  have split: "db = take i db @ db ! i # drop (Suc i) db" "db[i := ?r] = take i db @ ?r # drop (Suc i) db"
    using assms(2) by (simp_all add: id_take_nth_drop upd_conv_take_nth_drop)
  let ?n = "1 + int (length (take i db))"
    and ?p = "if take i db = [] then GENESIS_PREV_HASH else lr_event_hash (last (take i db))"
  have "verify_rows sha (take i db @ db ! i # drop (Suc i) db) 1 GENESIS_PREV_HASH = Inr ()"
    using ok split(1) by (simp add: verify_chain_def)
  then have 1: "verify_row sha (db ! i) ?n ?p = Inr ()" by (simp only: verify_rows_append verify_rows_Cons_ok)
  have "verify_rows sha (take i db @ ?r # drop (Suc i) db) 1 GENESIS_PREV_HASH = Inr ()"
    using assms(4) ra split(2) by (simp add: verify_chain_def)
  then have 2: "verify_row sha ?r ?n ?p = Inr ()" by (simp only: verify_rows_append verify_rows_Cons_ok)
  show ?thesis by (rule one_column_row [OF 1 2 assms(3)])
qed

subsection \<open>Indexed reads\<close>

definition newer :: "LedgerRecord option \<Rightarrow> LedgerRecord option \<Rightarrow> LedgerRecord option" where
  "newer latest r = (case r of None \<Rightarrow> latest
     | Some x \<Rightarrow> (case latest of None \<Rightarrow> Some x
         | Some l \<Rightarrow> if lr_sequence_number x > lr_sequence_number l then Some x else latest))"

lemma find_mem: "find P xs = Some x \<Longrightarrow> x \<in> set xs"
  by (induction xs) (auto split: if_splits)

lemma newer_find:
  assumes "sorted_wrt (\<lambda>r s. lr_sequence_number s < lr_sequence_number r) ys"
  shows "newer (find P ys) (find Q ys) = find (\<lambda>r. P r \<or> Q r) ys"
  using assms
proof (induction ys)
  case (Cons y ys)
  have lt: "lr_sequence_number r < lr_sequence_number y" if "find R ys = Some r" for R r
    using find_mem [OF that] Cons.prems by simp
  show ?case
  proof (cases "P y \<or> Q y")
    case True
    then show ?thesis
      using lt [of P] lt [of Q] by (auto simp: newer_def split: option.split dest: less_imp_not_less)
  next
    case False
    then show ?thesis using Cons by simp
  qed
qed (simp add: newer_def)

lemma read_all_rev_sorted:
  assumes "verify_chain sha db = Inr ()"
  shows "sorted_wrt (\<lambda>r s. lr_sequence_number s < lr_sequence_number r) (rev (read_all db))"
  using verify_rows_sorted [OF assms [unfolded verify_chain_def]] by (simp add: sorted_wrt_rev sorted_wrt_map)

lemma latest_fold:
  assumes "sorted_wrt (\<lambda>r s. lr_sequence_number s < lr_sequence_number r) (rev (read_all db))"
  shows "foldl (\<lambda>latest t. newer latest (latest_of_type t db)) None ts
    = find (\<lambda>r. lr_event_type r \<in> set ts) (rev (read_all db))"
proof (induction ts rule: rev_induct)
  case Nil
  have "find (\<lambda>r. False) xs = None" for xs :: table by (induction xs) simp_all
  then show ?case by simp
next
  case (snoc t ts)
  have "lr_event_type r \<in> set (ts @ [t]) \<longleftrightarrow> lr_event_type r \<in> set ts \<or> lr_event_type r = t"
    for r :: LedgerRecord by auto
  with snoc newer_find [OF assms, of "\<lambda>r. lr_event_type r \<in> set ts" "\<lambda>r. lr_event_type r = t"]
  show ?case by (simp only: foldl_append foldl.simps latest_of_type_def)
qed

lemma latest_lookup:
  assumes "verify_chain sha db = Inr ()"
  shows "latest_record_of_types types db = find (\<lambda>r. lr_event_type r \<in> set types) (rev (read_all db))"
proof -
  have "latest_record_of_types types db
      = foldl (\<lambda>latest t. newer latest (latest_of_type t db)) None (sorted_list_of_set (set types))"
    unfolding latest_record_of_types_def newer_def ..
  then show ?thesis by (simp add: latest_fold [OF read_all_rev_sorted [OF assms]])
qed

subsection \<open>A shift between columns\<close>

lemma shifted_row:
  assumes "lr_event_type r = t @ u"
  shows "verify_row sha (r\<lparr>lr_event_type := t, lr_created_at := u @ lr_created_at r\<rparr>) n p = Inr ()
    \<longleftrightarrow> verify_row sha r n p = Inr ()"
proof -
  have "row_text (r\<lparr>lr_event_type := t, lr_created_at := u @ lr_created_at r\<rparr>) = row_text r"
    by (simp add: row_text_def assms)
  then show ?thesis by (simp add: verify_row_ok_iff verify_envelope_ok_iff)
qed

lemma shifted_rows:
  assumes "i < length db" and "lr_event_type (db ! i) = t @ u"
  shows "verify_rows sha (db[i := (db ! i)\<lparr>lr_event_type := t, lr_created_at := u @ lr_created_at (db ! i)\<rparr>]) n p = Inr ()
    \<longleftrightarrow> verify_rows sha db n p = Inr ()"
proof -
  let ?r = "(db ! i)\<lparr>lr_event_type := t, lr_created_at := u @ lr_created_at (db ! i)\<rparr>"
  have split: "db = take i db @ db ! i # drop (Suc i) db" "db[i := ?r] = take i db @ ?r # drop (Suc i) db"
    using assms(1) by (simp_all add: id_take_nth_drop upd_conv_take_nth_drop)
  have "verify_rows sha (take i db @ ?r # drop (Suc i) db) n p = Inr ()
      \<longleftrightarrow> verify_rows sha (take i db @ db ! i # drop (Suc i) db) n p = Inr ()"
    unfolding verify_rows_append verify_rows_Cons_ok shifted_row [OF assms(2)] by simp
  then show ?thesis unfolding split(2) using split(1) by simp
qed

section \<open>A shift between two columns goes unnoticed\<close>

text \<open>
  The digest is taken over the columns written one after another with nothing between them, so moving
  the end of the event type to the front of the time changes two columns and neither a hash nor the
  head: the table still verifies, for every digest.
\<close>

lemma column_shift_undetected:
  assumes "verify_chain sha db = Inr ()" and "read_all db = db" and "i < length db" and "lr_event_type (db ! i) = t @ u"
  defines "db' \<equiv> db[i := (db ! i)\<lparr>lr_event_type := t, lr_created_at := u @ lr_created_at (db ! i)\<rparr>]"
  shows "verify_chain sha db' = Inr () \<and> head db' = head db"
proof -
  have ra: "read_all db' = db'" unfolding db'_def by (rule update_keeps_order [OF assms(2,3)]) simp
  have "verify_chain sha db' = Inr ()"
    using assms(1,2) ra shifted_rows [OF assms(3,4), of sha] by (simp add: verify_chain_def db'_def)
  moreover have "lr_sequence_number (last db') = lr_sequence_number (last db) \<and> lr_event_hash (last db') = lr_event_hash (last db)"
  proof -
    have "last db' = (if i = length db - 1 then (db ! i)\<lparr>lr_event_type := t, lr_created_at := u @ lr_created_at (db ! i)\<rparr> else last db)"
      using assms(3) unfolding db'_def by (intro last_list_update) auto
    moreover have "i = length db - 1 \<Longrightarrow> last db = db ! i" using assms(3) by (metis last_conv_nth length_0_conv not_less_zero)
    ultimately show ?thesis by simp
  qed
  moreover have "db \<noteq> []" "db' \<noteq> []" using assms(3) by (auto simp: db'_def)
  ultimately show ?thesis by (simp add: head_def ra assms(2))
qed

section \<open>Properties\<close>

text \<open>C17. Whatever is appended, in whatever order and with whatever failures in between, the chain
  verifies, the rows are numbered from one without a gap in the order of their insertion, and rebuilding
  the events from the rows returns exactly the events whose append succeeded, in order, payloads as
  equal dicts.\<close>

theorem store_round_trip:
  assumes "list_all storable cmds"
  shows "let db = foldl (append_cmd sha) [] cmds in
    verify_chain sha db = Inr () \<and> read_all db = db \<and>
    map lr_sequence_number db = map (\<lambda>i. 1 + int i) [0..<length db] \<and>
    events_from_records (read_all db) = Inr (concat (map stored_events cmds))"
proof -
  let ?db = "foldl (append_cmd sha) [] cmds"
  have r: "store_ok sha ?db" "events_from_records (read_all ?db) = Inr (concat (map stored_events cmds))"
    using store.run_load [of sha "[]" "[]" cmds] assms by simp_all
  have "map lr_sequence_number ?db = map (\<lambda>i. 1 + int i) [0..<length ?db]"
    by (rule verify_rows_seq [OF r(1) [unfolded store_ok_rows]])
  with r show ?thesis by (simp add: Let_def store_ok_def)
qed

theorem store_round_trip_witness:
  "events_from_records (read_all (foldl (append_cmd (\<lambda>s. s)) []
     [(None, ''t1'', KillReArmed ''riskkernel'' 1), (Some ''disk full'', ''t2'', KillReArmed ''riskkernel'' 2),
      (None, ''t3'', KillReArmed ''riskkernel'' 3)]))
   = Inr [KillReArmed ''riskkernel'' 1, KillReArmed ''riskkernel'' 3]"
proof -
  let ?cmds = "[(None, ''t1'', KillReArmed ''riskkernel'' 1), (Some ''disk full'', ''t2'', KillReArmed ''riskkernel'' 2),
      (None, ''t3'', KillReArmed ''riskkernel'' 3)] :: append_cmd list"
  have s: "list_all storable ?cmds" by (simp add: storable_def typed_event_defs dict_wf_def)
  have "concat (map stored_events ?cmds) = [KillReArmed ''riskkernel'' 1, KillReArmed ''riskkernel'' 3]"
    by (simp add: stored_events_def canon_event_def typed_event_defs)
  then show ?thesis using store_round_trip [OF s, of "\<lambda>s. s"] unfolding Let_def by metis
qed



text \<open>The head pins the history: two verified tables with the same head have the same number of rows,
  and row by row the same position, link, hash and the same concatenation of type, time and envelope,
  unless the digest collides on the texts of two rows, one of each table.\<close>

theorem head_pins_history:
  assumes "verify_chain sha a = Inr ()" and "verify_chain sha b = Inr ()" and "head a = head b"
    and "\<And>x. length (sha x) = 64"
  shows "list_all2 same_text (read_all a) (read_all b) \<or> 
    (\<exists>r \<in> set (read_all a). \<exists>s \<in> set (read_all b). collides sha (row_text r) (row_text s))"
proof (cases "read_all a = [] \<or> read_all b = []")
  case True
  then show ?thesis using assms(3) by (auto simp: head_def split: if_splits)
next
  case False
  let ?a = "read_all a" and ?b = "read_all b"
  have h: "lr_sequence_number (last ?a) = lr_sequence_number (last ?b)" "lr_event_hash (last ?a) = lr_event_hash (last ?b)"
    using assms(3) False by (auto simp: head_def split: if_splits)
  have seq: "lr_sequence_number (last rs) = int (length rs)"
    if v: "verify_rows sha rs 1 GENESIS_PREV_HASH = Inr ()" and ne: "rs \<noteq> []" for rs
  proof -
    obtain m where m: "length rs = Suc m" using ne by (cases rs) auto
    then show ?thesis
      using arg_cong [OF verify_rows_seq [OF v], of "\<lambda>l. l ! m"] ne by (simp add: last_conv_nth del: upt_Suc)
  qed
  have len: "length ?a = length ?b"
    using h(1) seq [of ?a] seq [of ?b] assms(1,2) False by (simp add: verify_chain_def)
  show ?thesis
    using same_head_same_rows [of sha ?a 1 GENESIS_PREV_HASH ?b] assms len h(2)
    by (auto simp: verify_chain_def GENESIS_PREV_HASH_def)
qed

definition pad64 :: digest_fn where "pad64 s = take 64 (s @ replicate 64 CHR ''0'')"

theorem head_pins_history_witness:
  "let a = snd (append_event pad64 (None :: string option) ''t1'' (KillReArmed ''riskkernel'' 1) []);
       b = a[0 := (a ! 0)\<lparr>lr_event_type := '''', lr_created_at := lr_event_type (a ! 0) @ lr_created_at (a ! 0)\<rparr>]
   in a ! 0 \<noteq> b ! 0 \<and> list_all2 same_text (read_all a) (read_all b)"
proof -
  let ?sha = pad64 and ?e = "KillReArmed ''riskkernel'' 1"
  have w: "json_wf (JObj (payload ?e))" by (simp add: typed_event_defs dict_wf_def)
  have v: "verify_rows ?sha [] 1 GENESIS_PREV_HASH = Inr ()" by simp
  obtain r where a: "append_event ?sha (None :: string option) ''t1'' ?e [] = (Inr (int (length ([] :: table)) + 1), [] @ [r])"
    and r: "verify_rows ?sha ([] @ [r]) 1 GENESIS_PREV_HASH = Inr ()" "event_from_record r = Inr (canon_event ?e)"
      "lr_created_at r = ''t1''" by (rule append_ok [OF v w])
  let ?r = "r\<lparr>lr_event_type := '''', lr_created_at := lr_event_type r @ lr_created_at r\<rparr>"
  have ok: "verify_chain ?sha [r] = Inr ()" "read_all [r] = [r]" "read_all [?r] = [?r]"
    using r(1) by (simp_all add: verify_chain_def read_all_def del: verify_rows.simps)
  have sh: "verify_chain ?sha [?r] = Inr () \<and> head [?r] = head [r]"
    using column_shift_undetected [OF ok(1,2), of 0 "[]" "lr_event_type r"] by simp
  have "row_text ?r = row_text r" by (simp add: row_text_def)
  then have "list_all2 same_text [r] [?r]"
    using head_pins_history [OF ok(1), of "[?r]"] sh ok by (simp add: collides_def pad64_def)
  moreover have "lr_event_type r \<noteq> []"
    using r(2) by (auto simp: event_from_record_def canon_event_def typed_event_defs res_bind_Inr_iff split: sum.splits json.splits option.splits)
  then have "r \<noteq> ?r" by (metis LedgerRecord.select_convs(2) LedgerRecord.surjective LedgerRecord.update_convs(2,3))
  ultimately show ?thesis using ok by (simp add: a Let_def)
qed

text \<open>The indexed lookup is the full scan: on a verified table \<open>latest_record_of_types\<close> returns the
  newest row whose type is among the requested ones, whatever their order and multiplicity, and the
  reverse walk of one type starts with the same row as a lookup of that type alone.\<close>

theorem indexed_lookup_is_scan:
  assumes "verify_chain sha db = Inr ()"
  shows "latest_record_of_types types db = find (\<lambda>r. lr_event_type r \<in> set types) (rev (read_all db)) \<and>
    latest_record_of_types [t] db =
      (case iter_records_of_type_reversed t db of [] \<Rightarrow> None | r # _ \<Rightarrow> Some r)"
proof -
  have "find (\<lambda>r. lr_event_type r = t) rs = (case filter (\<lambda>r. lr_event_type r = t) rs of [] \<Rightarrow> None | r # _ \<Rightarrow> Some r)" for rs
    by (induction rs) simp_all
  then show ?thesis using latest_lookup [OF assms] by (simp add: iter_records_of_type_reversed_def)
qed

theorem indexed_lookup_is_scan_witness:
  "latest_record_of_types [''KillReArmed''] [] = None"
proof -
  have "verify_chain (\<lambda>s. s) [] = Inr ()" by (simp add: verify_chain_def read_all_def)
  from indexed_lookup_is_scan [OF this, of "[''KillReArmed'']" "''KillReArmed''"] show ?thesis by (simp add: read_all_def)
qed

end
