(* ===== verification/JsonPrefix.thy ===== *)
theory JsonPrefix
  imports Json
begin

text \<open>
  What the decoder says about a text that was cut: a proper prefix of the text of an object is not JSON.
  A journal line that a crash tore is recognised by this.
\<close>

section \<open>Truncated texts\<close>

text \<open>
  Reading a longer text gives the same result, once the shorter one was read up to a delimiter or is a
  string, an array or an object; a literal outside the model is met in the longer text as well.
\<close>

definition delimited :: "string \<Rightarrow> bool" where
  "delimited r = (r \<noteq> [] \<and> \<not> is_digit (hd r) \<and> hd r \<notin> {CHR ''.'', CHR ''e'', CHR ''E''})"

text \<open>The five shapes a string body can start with.\<close>

lemma scan_string_shape:
  obtains (empty) "s = []" | (quote) r where "s = CHR 0x22 # r" | (plain) c r where "s = c # r" "c \<noteq> CHR 0x22" "c \<noteq> CHR 0x5C"
    | (lone) "s = [CHR 0x5C]" | (simple) d r where "s = CHR 0x5C # d # r" "d \<noteq> CHR ''u''"
    | (short) r where "s = CHR 0x5C # CHR ''u'' # r" "length r < 4"
    | (unicode) a b c d r where "s = CHR 0x5C # CHR ''u'' # a # b # c # d # r"
proof (cases s)
  case (Cons c r)
  show thesis
  proof (cases "c = CHR 0x22")
    case False
    show thesis
    proof (cases "c = CHR 0x5C")
      case True
      show thesis
      proof (cases r)
        case (Cons d r')
        show thesis
        proof (cases "d = CHR ''u''")
          case u: True
          show thesis
          proof (cases "length r' < 4")
            case False
            then obtain a r1 where 1: "r' = a # r1" by (cases r') auto
            with False obtain b r2 where 2: "r1 = b # r2" by (cases r1) auto
            with False 1 obtain c' r3 where 3: "r2 = c' # r3" by (cases r2) auto
            with False 1 2 obtain d' r4 where "r3 = d' # r4" by (cases r3) auto
            with True u \<open>s = c # r\<close> Cons 1 2 3 show thesis by (intro unicode) simp
          qed (use True u \<open>s = c # r\<close> Cons short in simp)
        qed (use True \<open>s = c # r\<close> Cons simple in simp)
      qed (use True \<open>s = c # r\<close> lone in simp)
    qed (use False Cons plain in simp)
  qed (use Cons quote in simp)
qed (rule empty)

lemma scan_string_simps:
  "scan_string (CHR 0x22 # r) = Inr ([], r)"
  "c \<noteq> CHR 0x22 \<Longrightarrow> c \<noteq> CHR 0x5C \<Longrightarrow>
     scan_string (c # r) = (if (of_char c :: nat) < 32 then Inl JSONDecodeError else push_char c (scan_string r))"
  "d \<noteq> CHR ''u'' \<Longrightarrow> scan_string (CHR 0x5C # d # r) =
     (case simple_escape d of None \<Rightarrow> Inl JSONDecodeError | Some e \<Rightarrow> push_char e (scan_string r))"
  "scan_string (CHR 0x5C # CHR ''u'' # h1 # h2 # h3 # h4 # r) =
     (case hex4 h1 h2 h3 h4 of None \<Rightarrow> Inl JSONDecodeError
      | Some n \<Rightarrow> if n < 256 then push_char (char_of n) (scan_string r) else Inl WideChar)"
  by simp_all

lemma scan_string_short: "length r < 4 \<Longrightarrow> scan_string (CHR 0x5C # CHR ''u'' # r) = Inl JSONDecodeError"
  by (auto split: list.split)

lemma push_char_extend: "push_char c m = Inr (t, r) \<Longrightarrow> (\<And>t. m = Inr (t, r) \<Longrightarrow> m' = Inr (t, r @ q)) \<Longrightarrow> push_char c m' = Inr (t, r @ q)"
  by (auto simp: push_char_def res_bind_Inr_iff)

lemma scan_string_extend: "scan_string s = Inr (t, r) \<Longrightarrow> scan_string (s @ q) = Inr (t, r @ q)"
proof (induction "length s" arbitrary: s t r rule: less_induct)
  case less
  show ?case
  proof (cases s rule: scan_string_shape)
    case (plain c u)
    with less.prems have "push_char c (scan_string u) = Inr (t, r)" by (simp add: scan_string_simps split: if_splits)
    then have "push_char c (scan_string (u @ q)) = Inr (t, r @ q)"
      by (rule push_char_extend) (use less.hyps [of u] plain in simp)
    with plain less.prems show ?thesis by (simp add: scan_string_simps split: if_splits)
  next
    case (simple d u)
    with less.prems obtain e where e: "simple_escape d = Some e" "push_char e (scan_string u) = Inr (t, r)"
      by (auto simp: scan_string_simps split: option.splits)
    have "push_char e (scan_string (u @ q)) = Inr (t, r @ q)"
      by (rule push_char_extend [OF e(2)]) (use less.hyps [of u] simple in simp)
    with simple e(1) show ?thesis by (simp add: scan_string_simps)
  next
    case (unicode a b c d u)
    with less.prems obtain n where e: "hex4 a b c d = Some n" "n < 256" "push_char (char_of n) (scan_string u) = Inr (t, r)"
      by (auto simp: scan_string_simps split: option.splits if_splits)
    have "push_char (char_of n) (scan_string (u @ q)) = Inr (t, r @ q)"
      by (rule push_char_extend [OF e(3)]) (use less.hyps [of u] unicode in simp)
    with unicode e(1,2) show ?thesis by (simp add: scan_string_simps)
  qed (use less.prems in \<open>simp_all add: scan_string_simps scan_string_short del: scan_string.simps(2)\<close>, simp)
qed

lemma push_char_extend_Inl: "push_char c m = Inl e \<Longrightarrow> (m = Inl e \<Longrightarrow> P \<and> m' = Inl e) \<Longrightarrow> P \<and> push_char c m' = Inl e"
  by (auto simp: push_char_def res_bind_Inl_iff)

lemma scan_string_extend_Inl:
  "scan_string s = Inl e \<Longrightarrow> e \<noteq> JSONDecodeError \<Longrightarrow> e = WideChar \<and> scan_string (s @ q) = Inl e"
proof (induction "length s" arbitrary: s rule: less_induct)
  case less
  show ?case
  proof (cases s rule: scan_string_shape)
    case (plain c u)
    with less.prems have "push_char c (scan_string u) = Inl e" by (auto simp: scan_string_simps split: if_splits)
    then have "e = WideChar \<and> push_char c (scan_string (u @ q)) = Inl e"
      by (rule push_char_extend_Inl) (use less.hyps [of u] less.prems plain in simp)
    with plain less.prems show ?thesis by (auto simp: scan_string_simps split: if_splits)
  next
    case (simple d u)
    with less.prems obtain x where x: "simple_escape d = Some x" "push_char x (scan_string u) = Inl e"
      by (auto simp: scan_string_simps split: option.splits)
    have "e = WideChar \<and> push_char x (scan_string (u @ q)) = Inl e"
      by (rule push_char_extend_Inl [OF x(2)]) (use less.hyps [of u] less.prems simple in simp)
    with simple x(1) show ?thesis by (simp add: scan_string_simps)
  next
    case (unicode a b c d u)
    with less.prems obtain n where n: "hex4 a b c d = Some n" by (auto simp: scan_string_simps split: option.splits)
    show ?thesis
    proof (cases "n < 256")
      case True
      with less.prems n unicode have "push_char (char_of n) (scan_string u) = Inl e" by (simp add: scan_string_simps)
      then have "e = WideChar \<and> push_char (char_of n) (scan_string (u @ q)) = Inl e"
        by (rule push_char_extend_Inl) (use less.hyps [of u] less.prems unicode in simp)
      with unicode n True show ?thesis by (simp add: scan_string_simps)
    next
      case False
      with less.prems n unicode show ?thesis by (simp add: scan_string_simps)
    qed
  qed (use less.prems in \<open>simp_all add: scan_string_simps scan_string_short del: scan_string.simps(2)\<close>, simp)
qed

lemma delimited_float: "delimited r \<Longrightarrow> \<not> float_tail (r @ q)"
  by (cases r) (auto simp: delimited_def float_tail_def)

lemma float_tail_extend: "float_tail r \<Longrightarrow> float_tail (r @ q)"
  by (auto simp: float_tail_def split: list.splits if_splits)

lemma scan_digits_extend:
  "scan_digits s = Some (ds, r) \<Longrightarrow> r \<noteq> [] \<Longrightarrow> \<not> is_digit (hd r) \<Longrightarrow> scan_digits (s @ q) = Some (ds, r @ q)"
proof (cases s)
  case (Cons c t)
  assume a: "scan_digits s = Some (ds, r)" "r \<noteq> []" "\<not> is_digit (hd r)"
  show ?thesis
  proof (cases "c = CHR ''0''")
    case True
    with a Cons show ?thesis by (auto simp: scan_digits_def)
  next
    case False
    with a Cons have d: "is_digit c" "ds = takeWhile is_digit s" "r = dropWhile is_digit s"
      by (auto simp: scan_digits_def split: if_splits)
    then have "\<exists>x \<in> set s. \<not> is_digit x" using a(2) by (metis dropWhile_eq_Nil_conv)
    then have "takeWhile is_digit (s @ q) = ds" "dropWhile is_digit (s @ q) = r @ q"
      using d by (auto simp: takeWhile_append1 dropWhile_append1)
    with d Cons False show ?thesis by (simp add: scan_digits_def)
  qed
qed (simp add: scan_digits_def)

lemma scan_number_extend:
  "scan_number sg s = Inr (j, r) \<Longrightarrow> delimited r \<Longrightarrow> scan_number sg (s @ q) = Inr (j, r @ q)"
  using scan_digits_extend [of s _ r q] delimited_float [of r q]
  by (auto simp: scan_number_def delimited_def split: option.splits if_splits)

lemma strip_prefix_Some: "strip_prefix p s = Some r \<longleftrightarrow> s = p @ r"
  by (auto simp: strip_prefix_def) (metis append_take_drop_id)

lemma scan_number_digit: "scan_number sg s = Inr x \<or> scan_number sg s = Inl FloatLiteral \<Longrightarrow> s \<noteq> [] \<and> is_digit (hd s)"
  by (cases s) (auto simp: scan_number_def scan_digits_def is_digit_def split: option.splits if_splits)

lemma scan_number_float_extend:
  assumes "scan_number sg s = Inl FloatLiteral"
  shows "scan_number sg (s @ q) = Inl FloatLiteral"
proof -
  from assms obtain ds r where d: "scan_digits s = Some (ds, r)" "float_tail r"
    by (auto simp: scan_number_def split: option.splits if_splits)
  have "r \<noteq> [] \<and> \<not> is_digit (hd r)" using d(2) by (cases r) (auto simp: float_tail_def is_digit_def split: if_splits)
  with d scan_digits_extend [of s ds r q] float_tail_extend [of r q] show ?thesis by (simp add: scan_number_def)
qed

lemma scan_literal_words:
  "scan_literal (''null'' @ u) = Inr (JNull, u)" "scan_literal (''true'' @ u) = Inr (JBool True, u)"
  "scan_literal (''false'' @ u) = Inr (JBool False, u)" "scan_literal (''NaN'' @ u) = Inl FloatLiteral"
  "scan_literal (''Infinity'' @ u) = Inl FloatLiteral" "scan_literal (''-Infinity'' @ u) = Inl FloatLiteral"
  by (simp_all add: scan_literal_def strip_prefix_def)

definition value_words :: "string set" where "value_words = {''null'', ''true'', ''false''}"
definition float_words :: "string set" where "float_words = {''NaN'', ''Infinity'', ''-Infinity''}"

lemma scan_literal_word: "w \<in> value_words \<Longrightarrow> \<exists>j. \<forall>u. scan_literal (w @ u) = Inr (j, u)"
  unfolding value_words_def using scan_literal_words(1-3) by (elim insertE) (simp_all only:, blast+)

lemma scan_literal_special: "w \<in> float_words \<Longrightarrow> scan_literal (w @ u) = Inl FloatLiteral"
  unfolding float_words_def using scan_literal_words(4-6) by (elim insertE) (simp_all only:, blast+)

lemma scan_literal_number:
  assumes "\<And>w. w \<in> value_words \<union> float_words \<Longrightarrow> strip_prefix w s = None"
  shows "scan_literal s = (if s \<noteq> [] \<and> hd s = CHR ''-'' then scan_number (- 1) (tl s) else scan_number 1 s)"
proof -
  have "strip_prefix ''null'' s = None" "strip_prefix ''true'' s = None" "strip_prefix ''false'' s = None"
    "strip_prefix ''NaN'' s = None" "strip_prefix ''Infinity'' s = None" "strip_prefix ''-Infinity'' s = None"
    by (rule assms, simp add: value_words_def float_words_def)+
  then show ?thesis unfolding scan_literal_def by (simp only: option.case not_True_eq_False if_False simp_thms)
qed

lemma scan_literal_shape:
  assumes "scan_literal s = Inr (j, r) \<or> scan_literal s = Inl FloatLiteral"
  obtains (word) w where "w \<in> value_words" "s = w @ r" "scan_literal s = Inr (j, r)"
    | (special) w u where "w \<in> float_words" "s = w @ u" "scan_literal s = Inl FloatLiteral"
    | (digits) "s \<noteq> []" "is_digit (hd s)" "scan_literal s = scan_number 1 s"
    | (minus) u where "s = CHR ''-'' # u" "u \<noteq> []" "is_digit (hd u)" "scan_literal s = scan_number (- 1) u"
proof (cases "\<exists>w u. w \<in> value_words \<union> float_words \<and> s = w @ u")
  case True
  then obtain w u where w: "w \<in> value_words \<union> float_words" "s = w @ u" by blast
  show thesis
  proof (cases "w \<in> value_words")
    case True
    then have "\<exists>j. scan_literal s = Inr (j, u)" using w(2) scan_literal_word by blast
    with assms have "scan_literal s = Inr (j, r)" "u = r" by auto
    then show thesis using word [OF True] w(2) by simp
  next
    case False
    then have "w \<in> float_words" using w(1) by simp
    then show thesis using special [of w u] w(2) scan_literal_special [of w u] by simp
  qed
next
  case False
  then have none: "strip_prefix w s = None" if "w \<in> value_words \<union> float_words" for w
    using that strip_prefix_Some [of w s] by (cases "strip_prefix w s") blast+
  have eq: "scan_literal s = (if s \<noteq> [] \<and> hd s = CHR ''-'' then scan_number (- 1) (tl s) else scan_number 1 s)"
    by (rule scan_literal_number [OF none])
  show thesis
  proof (cases "s \<noteq> [] \<and> hd s = CHR ''-''")
    case True
    then have 1: "scan_literal s = scan_number (- 1) (tl s)" using eq by simp
    then have "tl s \<noteq> [] \<and> is_digit (hd (tl s))" using assms scan_number_digit [of "- 1" "tl s" "(j, r)"] by simp
    moreover have "s = CHR ''-'' # tl s" using True by (cases s) auto
    ultimately show thesis using 1 minus [of "tl s"] by blast
  next
    case False
    then have 1: "scan_literal s = scan_number 1 s" using eq by auto
    then have "s \<noteq> [] \<and> is_digit (hd s)" using assms scan_number_digit [of 1 s "(j, r)"] by simp
    with 1 show thesis using digits by blast
  qed
qed

lemma scan_literal_extend:
  assumes "scan_literal s = Inr (j, r)" and "delimited r"
  shows "scan_literal (s @ q) = Inr (j, r @ q)"
  using disjI1 [OF assms(1)]
proof (cases rule: scan_literal_shape [where s = s])
  case (word w)
  obtain k where "\<And>u. scan_literal (w @ u) = Inr (k, u)" using scan_literal_word [OF word(1)] by blast
  with word assms(1) show ?thesis by simp
next
  case digits
  with assms show ?thesis using scan_literal_digit [of "s @ q"] scan_number_extend [of 1 s j r q] by simp
next
  case (minus u)
  with assms show ?thesis using scan_literal_minus [of "u @ q"] scan_number_extend [of "- 1" u j r q] by simp
qed (use assms in simp)

lemma scan_literal_float_extend:
  assumes "scan_literal s = Inl FloatLiteral"
  shows "scan_literal (s @ q) = Inl FloatLiteral"
  using disjI2 [OF assms]
proof (cases rule: scan_literal_shape [where s = s])
  case (special w u)
  then show ?thesis using scan_literal_special [of w "u @ q"] by simp
next
  case digits
  with assms show ?thesis using scan_literal_digit [of "s @ q"] scan_number_float_extend [of 1 s q] by simp
next
  case (minus u)
  with assms show ?thesis using scan_literal_minus [of "u @ q"] scan_number_float_extend [of "- 1" u q] by simp
qed (use assms in simp)

lemma scan_literal_Inl: "scan_literal s = Inl e \<Longrightarrow> e = JSONDecodeError \<or> e = FloatLiteral"
  by (auto simp: scan_literal_def scan_number_def split: option.splits if_splits)


definition self_delimiting :: "string \<Rightarrow> bool" where
  "self_delimiting s = (s \<noteq> [] \<and> hd s \<in> {CHR 0x22, CHR ''['', CHR ''{''})"

lemma delimiting_chars:
  "json_space c \<Longrightarrow> delimited (c # r)" "delimited (CHR '','' # r)" "delimited (CHR '']'' # r)" "delimited (CHR ''}'' # r)"
  unfolding json_space_def by (elim insertE emptyE; simp add: delimited_def is_digit_def)
    (simp_all add: delimited_def is_digit_def)

lemma token_delimited:
  assumes "token_at r = Some c" and "c = CHR '','' \<or> c = CHR '']'' \<or> c = CHR ''}''"
  shows "delimited r"
proof (cases r)
  case (Cons d u)
  show ?thesis
  proof (cases "json_space d")
    case False
    with Cons assms(1) have "d = c" by (simp add: token_at_def)
    with Cons assms(2) delimiting_chars(2-4) show ?thesis by blast
  qed (use Cons delimiting_chars(1) in simp)
qed (use assms in \<open>simp add: token_at_def\<close>)

lemma skip_space_extend: "skip_space s \<noteq> [] \<Longrightarrow> skip_space (s @ q) = skip_space s @ q"
  by (induction s) auto

lemma token_none_space: "token_at s = None \<longleftrightarrow> skip_space s = []"
  unfolding token_at_def by (simp del: dropWhile_eq_Nil_conv split: list.split)

lemma token_extend:
  assumes "token_at s = Some c"
  shows "token_at (s @ q) = Some c" "after_token (s @ q) = after_token s @ q"
proof -
  from assms obtain u where u: "skip_space s = c # u" by (auto simp: token_at_def split: list.splits)
  then have "skip_space (s @ q) = (c # u) @ q" using skip_space_extend [of s q] by simp
  then have v: "skip_space (s @ q) = c # u @ q" by simp
  show "token_at (s @ q) = Some c" unfolding token_at_def v by simp
  show "after_token (s @ q) = after_token s @ q" unfolding after_token_def u v by simp
qed

lemma scan_empty: "scan_once n [] = Inl (if n = 0 then OutOfFuel else JSONDecodeError)"
  "scan_elements n [] \<noteq> Inr x" "scan_elements n [] \<noteq> Inl FloatLiteral" "scan_elements n [] \<noteq> Inl WideChar"
  "scan_members n [] \<noteq> Inr y" "scan_members n [] \<noteq> Inl FloatLiteral" "scan_members n [] \<noteq> Inl WideChar"
proof -
  show 1: "scan_once n [] = Inl (if n = 0 then OutOfFuel else JSONDecodeError)" for n by (cases n) simp_all
  show "scan_elements n [] \<noteq> Inr x" "scan_elements n [] \<noteq> Inl FloatLiteral" "scan_elements n [] \<noteq> Inl WideChar"
    by (cases n; simp add: 1)+
  show "scan_members n [] \<noteq> Inr y" "scan_members n [] \<noteq> Inl FloatLiteral" "scan_members n [] \<noteq> Inl WideChar"
    by (cases n; simp)+
qed

text \<open>What a result on the shorter text says about the longer one.\<close>

definition kept :: "string \<Rightarrow> json_error + ('a \<times> string) \<Rightarrow> json_error + ('a \<times> string) \<Rightarrow> bool" where
  "kept q m m' = (case m of
     Inr (x, r) \<Rightarrow> m' = Inr (x, r @ q)
   | Inl e \<Rightarrow> e = JSONDecodeError \<or> e = OutOfFuel \<or> m' = Inl e)"

lemma kept_simps [simp]:
  "kept q (Inr (x, r)) m' \<longleftrightarrow> m' = Inr (x, r @ q)" "kept q (Inl JSONDecodeError) m'" "kept q (Inl OutOfFuel) m'"
  by (simp_all add: kept_def)

lemma kept_map:
  assumes "kept q m m'"
  shows "kept q (res_bind m (\<lambda>(x, r). Inr (f x, r))) (res_bind m' (\<lambda>(x, r). Inr (f x, r)))"
  using assms by (cases m) (auto simp: kept_def)

lemma kept_bind:
  assumes "kept q m m'" and "\<And>x r. m = Inr (x, r) \<Longrightarrow> kept q (f (x, r)) (f (x, r @ q))"
  shows "kept q (res_bind m f) (res_bind m' f)"
proof (cases m)
  case (Inl e)
  with assms(1) show ?thesis by (auto simp: kept_def)
next
  case (Inr p)
  with assms show ?thesis by (cases p) simp
qed

lemma kept_fails: "(\<And>m. kept q a m) \<Longrightarrow> kept q (res_bind a f) m'"
  by (cases a) (auto simp: kept_def)

lemma kept_string: "kept q (scan_string s) (scan_string (s @ q))"
  using scan_string_extend [of s _ _ q] scan_string_extend_Inl [of s _ q] by (cases "scan_string s") (auto simp: kept_def)

lemma scan_elements_empty: "kept q (scan_elements n []) m"
  using scan_empty(2-4) [of n] by (cases "scan_elements n []") (auto simp: kept_def, metis json_error.exhaust)

lemma scan_members_empty: "kept q (scan_members n []) m"
  using scan_empty(5-7) [of n] by (cases "scan_members n []") (auto simp: kept_def, metis json_error.exhaust)

lemma kept_skip_space:
  assumes "\<And>s. kept q (f s) (f (s @ q))" and "\<And>m. kept q (f []) m"
  shows "kept q (f (skip_space s)) (f (skip_space (s @ q)))"
proof (cases "skip_space s = []")
  case True
  then show ?thesis using assms(2) by metis
next
  case False
  then show ?thesis using assms(1) [of "skip_space s"] skip_space_extend [of s q] by metis
qed

definition kept_value :: "string \<Rightarrow> nat \<Rightarrow> string \<Rightarrow> bool" where
  "kept_value q n s = (case scan_once n s of
     Inr (j, r) \<Rightarrow> (delimited r \<or> self_delimiting s \<longrightarrow> scan_once n (s @ q) = Inr (j, r @ q))
   | Inl e \<Rightarrow> e = JSONDecodeError \<or> e = OutOfFuel \<or> scan_once n (s @ q) = Inl e)"

lemma kept_value_Cons:
  assumes "\<And>s. kept q (scan_elements n s) (scan_elements n (s @ q))"
    and "\<And>s. kept q (scan_members n s) (scan_members n (s @ q))"
  shows "kept_value q (Suc n) s"
proof (cases s)
  case (Cons c r)
  have el: "kept q (scan_elements n (skip_space r)) (scan_elements n (skip_space (r @ q)))"
    by (rule kept_skip_space [OF assms(1) scan_elements_empty])
  have me: "kept q (scan_members n (skip_space r)) (scan_members n (skip_space (r @ q)))"
    by (rule kept_skip_space [OF assms(2) scan_members_empty])
  have sd: "kept_value q (Suc n) s" if "kept q (scan_once (Suc n) s) (scan_once (Suc n) (s @ q))"
    using that by (cases "scan_once (Suc n) s") (auto simp: kept_value_def kept_def simp del: scan_once.simps)
  consider (str) "c = CHR 0x22" | (arr) "c = CHR ''[''" | (obj) "c = CHR ''{''"
    | (lit) "c \<noteq> CHR 0x22" "c \<noteq> CHR ''[''" "c \<noteq> CHR ''{''" by blast
  then show ?thesis
  proof cases
    case str
    show ?thesis by (rule sd) (use Cons str kept_map [OF kept_string [of q r], of JStr] in simp)
  next
    case arr
    show ?thesis
    proof (rule sd, cases "token_at r")
      case None
      then have "skip_space r = []" by (simp only: token_none_space)
      with None arr Cons show "kept q (scan_once (Suc n) s) (scan_once (Suc n) (s @ q))"
        by (simp add: kept_fails [OF scan_elements_empty] del: dropWhile_eq_Nil_conv)
    next
      case (Some d)
      with arr Cons token_extend [OF Some, of q] show "kept q (scan_once (Suc n) s) (scan_once (Suc n) (s @ q))"
        using kept_map [OF el, where f = JList] by simp
    qed
  next
    case obj
    show ?thesis
    proof (rule sd, cases "token_at r")
      case None
      then have "skip_space r = []" by (simp only: token_none_space)
      with None obj Cons show "kept q (scan_once (Suc n) s) (scan_once (Suc n) (s @ q))"
        by (simp add: kept_fails [OF scan_members_empty] del: dropWhile_eq_Nil_conv)
    next
      case (Some d)
      with obj Cons token_extend [OF Some, of q] show "kept q (scan_once (Suc n) s) (scan_once (Suc n) (s @ q))"
        using kept_map [OF me, where f = "\<lambda>kvs. JObj (dict_of_pairs kvs)"] by simp
    qed
  next
    case lit
    then have "scan_once (Suc n) s = scan_literal s" "scan_once (Suc n) (s @ q) = scan_literal (s @ q)" "\<not> self_delimiting s"
      using Cons by (simp_all add: self_delimiting_def)
    then show ?thesis
      using scan_literal_extend [of s _ _ q] scan_literal_float_extend [of s q] scan_literal_Inl [of s]
      by (cases "scan_literal s") (auto simp: kept_value_def simp del: scan_once.simps)
  qed
qed (simp add: kept_value_def)

text \<open>A value followed by a closing or separating token.\<close>

lemma kept_value_then:
  assumes "kept_value q n s"
    and "\<And>x r. scan_once n s = Inr (x, r) \<Longrightarrow> \<not> delimited r \<Longrightarrow> f (x, r) = Inl JSONDecodeError"
    and "\<And>x r. scan_once n s = Inr (x, r) \<Longrightarrow> delimited r \<Longrightarrow> kept q (f (x, r)) (f (x, r @ q))"
  shows "kept q (res_bind (scan_once n s) f) (res_bind (scan_once n (s @ q)) f)"
proof (cases "scan_once n s")
  case (Inl e)
  with assms(1) show ?thesis by (auto simp: kept_value_def kept_def)
next
  case (Inr p)
  obtain x r where p: "p = (x, r)" by (cases p)
  show ?thesis
  proof (cases "delimited r")
    case True
    with assms(1) Inr p have "scan_once n (s @ q) = Inr (x, r @ q)" by (simp add: kept_value_def)
    with assms(3) Inr p True show ?thesis by simp
  next
    case False
    with assms(2) Inr p show ?thesis by simp
  qed
qed

lemma kept_close:
  fixes a :: 'a and h :: "'b \<Rightarrow> 'a" and g :: "string \<Rightarrow> json_error + ('b \<times> string)"
  assumes "\<And>s. kept q (g s) (g (s @ q))" and "\<And>m. kept q (g []) m" and "c \<in> {CHR '']'', CHR ''}''}"
  defines "f \<equiv> \<lambda>r. if token_at r = Some c then Inr (a, after_token r)
      else if token_at r = Some (CHR '','') then res_bind (g (skip_space (after_token r))) (\<lambda>(xs, r'). Inr (h xs, r'))
      else Inl JSONDecodeError"
  shows "\<not> delimited r \<Longrightarrow> f r = Inl JSONDecodeError" and "kept q (f r) (f (r @ q))"
proof -
  show "\<not> delimited r \<Longrightarrow> f r = Inl JSONDecodeError"
    using token_delimited [of r] assms(3) unfolding f_def by (auto simp del: char.inject)
  show "kept q (f r) (f (r @ q))"
  proof (cases "token_at r")
    case (Some d)
    then show ?thesis
      using token_extend [OF Some, of q] kept_map [OF kept_skip_space [OF assms(1,2), of "after_token r"], of h]
      unfolding f_def by simp
  qed (simp add: f_def)
qed

lemma scan_kept:
  "kept_value q n s \<and> kept q (scan_elements n s) (scan_elements n (s @ q)) \<and> kept q (scan_members n s) (scan_members n (s @ q))"
proof (induction n arbitrary: s)
  case 0
  show ?case by (simp add: kept_value_def)
next
  case (Suc n)
  note IH = Suc.IH [THEN conjunct1] Suc.IH [THEN conjunct2, THEN conjunct1] Suc.IH [THEN conjunct2, THEN conjunct2]
  have "kept_value q (Suc n) s" by (rule kept_value_Cons [OF IH(2,3)])
  moreover have "kept q (scan_elements (Suc n) s) (scan_elements (Suc n) (s @ q))"
    unfolding scan_elements.simps
    by (rule kept_value_then [OF IH(1)]; unfold prod.case; rule kept_close [OF IH(2) scan_elements_empty]; simp)
  moreover have "kept q (scan_members (Suc n) s) (scan_members (Suc n) (s @ q))"
  proof (cases s)
    case (Cons c t)
    have v: "kept q (res_bind (scan_once n u) (\<lambda>(v, r'). if token_at r' = Some (CHR ''}'') then Inr ([(k, v)], after_token r')
          else if token_at r' = Some (CHR '','') then
            res_bind (scan_members n (skip_space (after_token r'))) (\<lambda>(kvs, r''). Inr ((k, v) # kvs, r''))
          else Inl JSONDecodeError))
        (res_bind (scan_once n (u @ q)) (\<lambda>(v, r'). if token_at r' = Some (CHR ''}'') then Inr ([(k, v)], after_token r')
          else if token_at r' = Some (CHR '','') then
            res_bind (scan_members n (skip_space (after_token r'))) (\<lambda>(kvs, r''). Inr ((k, v) # kvs, r''))
          else Inl JSONDecodeError))" (is "kept q (?g u k) (?g (u @ q) k)") for u k
      by (rule kept_value_then [OF IH(1)]; unfold prod.case; rule kept_close [OF IH(3) scan_members_empty]; simp)
    have e: "kept q (?g [] k) m" for k m by (simp add: scan_empty(1))
    have "kept q (if token_at r \<noteq> Some (CHR '':'') then Inl JSONDecodeError else ?g (skip_space (after_token r)) k)
        (if token_at (r @ q) \<noteq> Some (CHR '':'') then Inl JSONDecodeError else ?g (skip_space (after_token (r @ q))) k)" for r k
    proof (cases "token_at r = Some (CHR '':'')")
      case True
      then show ?thesis
        using token_extend [OF True, of q] kept_skip_space [where f = "\<lambda>u. ?g u k", OF v e, of "after_token r"] by simp
    qed simp
    then show ?thesis
      unfolding scan_members.simps using Cons by (auto intro!: kept_bind [OF kept_string])
  qed simp
  ultimately show ?case by blast
qed

text \<open>More fuel never changes a result.\<close>

definition settled :: "json_error + 'a \<Rightarrow> json_error + 'a \<Rightarrow> bool" where
  "settled m m' = (m = Inl OutOfFuel \<or> m' = m)"

lemma settled_simps [simp]: "settled m m" "settled (Inl OutOfFuel) m"
  by (simp_all add: settled_def)

lemma settled_bind:
  "settled m m' \<Longrightarrow> (\<And>x r. settled (f (x, r)) (g (x, r))) \<Longrightarrow> settled (res_bind m f) (res_bind m' g)"
  by (cases m) (auto simp: settled_def)

lemma scan_fuel_step:
  "settled (scan_once n s) (scan_once (Suc n) s) \<and> settled (scan_elements n s) (scan_elements (Suc n) s) \<and>
   settled (scan_members n s) (scan_members (Suc n) s)"
proof (induction n arbitrary: s)
  case 0
  show ?case by simp
next
  case (Suc n)
  note IH = Suc.IH [THEN conjunct1] Suc.IH [THEN conjunct2, THEN conjunct1] Suc.IH [THEN conjunct2, THEN conjunct2]
  have "settled (scan_once (Suc n) s) (scan_once (Suc (Suc n)) s)"
    unfolding scan_once.simps(2)
    by (auto intro!: settled_bind IH simp del: scan_elements.simps scan_members.simps split: list.split)
  moreover have "settled (scan_elements (Suc n) s) (scan_elements (Suc (Suc n)) s)"
    unfolding scan_elements.simps(2) [of "Suc n" s] scan_elements.simps(2) [of n s]
    by (auto intro!: settled_bind IH simp del: scan_elements.simps scan_members.simps scan_once.simps)
  moreover have "settled (scan_members (Suc n) s) (scan_members (Suc (Suc n)) s)"
    unfolding scan_members.simps(2) [of "Suc n" s] scan_members.simps(2) [of n s]
    by (auto intro!: settled_bind IH simp del: scan_elements.simps scan_members.simps scan_once.simps)
  ultimately show ?case by blast
qed

lemma scan_fuel_mono: "n \<le> m \<Longrightarrow> settled (scan_once n s) (scan_once m s)"
proof (induction rule: dec_induct)
  case (step k)
  then show ?case using scan_fuel_step [of k s] by (auto simp: settled_def simp del: scan_once.simps)
qed simp

text \<open>A proper prefix of the text of an object is no JSON text.\<close>

lemma loads_truncated:
  assumes "json_wf (JObj d)" and "json_dumps (JObj d) = p @ q" and "p \<noteq> []" and "q \<noteq> []"
  shows "json_loads p = Inl JSONDecodeError"
proof -
  let ?n = "2 * length p + 1" and ?m = "2 * length (p @ q) + 1"
  have hd: "hd p = CHR ''{''" using assms(2,3) by (cases p) simp_all
  have sp: "skip_space p = p" using hd assms(3) by (cases p) (simp_all add: json_space_def)
  have sd: "self_delimiting p" using hd assms(3) by (simp add: self_delimiting_def)
  have full: "scan_once ?m (p @ q) = Inr (JObj d, [])"
    using scan_dumps [OF assms(1), rule_format, of "[]" ?m] assms(2)
    by (simp del: scan_once.simps json_dumps.simps add: json_end_def)
  have m: "settled (scan_once ?n p) (scan_once ?m p)" by (rule scan_fuel_mono) simp
  have "scan_once ?m p \<noteq> Inr x" for x
    using scan_kept [of q ?m p] full sd assms(4)
    by (cases x) (auto simp: kept_value_def simp del: scan_once.simps)
  then have "scan_once ?n p \<noteq> Inr x" for x using m unfolding settled_def by (metis sum.distinct(1))
  moreover have "scan_once ?n p = Inl e \<Longrightarrow> e = JSONDecodeError \<or> e = OutOfFuel" for e
    using m scan_kept [of q ?m p] full by (auto simp: settled_def kept_value_def simp del: scan_once.simps)
  moreover have "json_loads p \<noteq> Inl OutOfFuel" by (rule loads_fuel_enough)
  ultimately show ?thesis
    unfolding json_loads_def sp by (cases "scan_once ?n p") (auto simp del: scan_once.simps)
qed

end
