(* ===== verification/OrderStates.thy ===== *)
theory OrderStates
  imports Tokens
begin

text \<open>
  The order life cycle (\<open>windbreak/order_gateway/state_machine.py\<close>): the fourteen states, the thirteen
  events and the table of legal edges, looked up by \<open>order_transition\<close>. \<open>order_step\<close> is the same table
  as a relation, and \<open>order_history\<close> the life cycles it allows.
\<close>

section \<open>Definitions\<close>

datatype OrderState =
    INTENT_CREATED | OS_APPROVED | SUBMISSION_REQUESTED | SUBMITTED | ACKED | OS_PARTIAL_FILL | FILLED
  | CANCEL_REQUESTED | CANCELLED | OS_EXPIRED | OS_REJECTED | RECONCILED | DISPUTED | SETTLEMENT_REVERSED

datatype OrderEvent =
    APPROVE | REQUEST_SUBMISSION | SUBMIT | ACK | OE_PARTIAL_FILL | FILL | REQUEST_CANCEL | CANCEL | EXPIRE
  | REJECT | RECONCILE | DISPUTE | SETTLEMENT_REVERSE

fun state_name :: "OrderState \<Rightarrow> string" where
  "state_name INTENT_CREATED = ''INTENT_CREATED''"
| "state_name OS_APPROVED = ''APPROVED''"
| "state_name SUBMISSION_REQUESTED = ''SUBMISSION_REQUESTED''"
| "state_name SUBMITTED = ''SUBMITTED''"
| "state_name ACKED = ''ACKED''"
| "state_name OS_PARTIAL_FILL = ''PARTIAL_FILL''"
| "state_name FILLED = ''FILLED''"
| "state_name CANCEL_REQUESTED = ''CANCEL_REQUESTED''"
| "state_name CANCELLED = ''CANCELLED''"
| "state_name OS_EXPIRED = ''EXPIRED''"
| "state_name OS_REJECTED = ''REJECTED''"
| "state_name RECONCILED = ''RECONCILED''"
| "state_name DISPUTED = ''DISPUTED''"
| "state_name SETTLEMENT_REVERSED = ''SETTLEMENT_REVERSED''"

fun event_name :: "OrderEvent \<Rightarrow> string" where
  "event_name APPROVE = ''APPROVE''"
| "event_name REQUEST_SUBMISSION = ''REQUEST_SUBMISSION''"
| "event_name SUBMIT = ''SUBMIT''"
| "event_name ACK = ''ACK''"
| "event_name OE_PARTIAL_FILL = ''PARTIAL_FILL''"
| "event_name FILL = ''FILL''"
| "event_name REQUEST_CANCEL = ''REQUEST_CANCEL''"
| "event_name CANCEL = ''CANCEL''"
| "event_name EXPIRE = ''EXPIRE''"
| "event_name REJECT = ''REJECT''"
| "event_name RECONCILE = ''RECONCILE''"
| "event_name DISPUTE = ''DISPUTE''"
| "event_name SETTLEMENT_REVERSE = ''SETTLEMENT_REVERSE''"

datatype transition_error = IllegalTransitionError OrderState OrderEvent

definition LEGAL_TRANSITIONS :: "((OrderState \<times> OrderEvent) \<times> OrderState) list" where
  "LEGAL_TRANSITIONS =
    [((INTENT_CREATED, APPROVE), OS_APPROVED),
     ((OS_APPROVED, REQUEST_SUBMISSION), SUBMISSION_REQUESTED),
     ((SUBMISSION_REQUESTED, SUBMIT), SUBMITTED),
     ((SUBMITTED, ACK), ACKED),
     ((SUBMITTED, REJECT), OS_REJECTED),
     ((ACKED, OE_PARTIAL_FILL), OS_PARTIAL_FILL),
     ((ACKED, FILL), FILLED),
     ((ACKED, REQUEST_CANCEL), CANCEL_REQUESTED),
     ((ACKED, EXPIRE), OS_EXPIRED),
     ((OS_PARTIAL_FILL, OE_PARTIAL_FILL), OS_PARTIAL_FILL),
     ((OS_PARTIAL_FILL, FILL), FILLED),
     ((OS_PARTIAL_FILL, REQUEST_CANCEL), CANCEL_REQUESTED),
     ((OS_PARTIAL_FILL, EXPIRE), OS_EXPIRED),
     ((CANCEL_REQUESTED, CANCEL), CANCELLED),
     ((CANCEL_REQUESTED, FILL), FILLED),
     ((CANCEL_REQUESTED, OE_PARTIAL_FILL), CANCEL_REQUESTED),
     ((FILLED, RECONCILE), RECONCILED),
     ((FILLED, DISPUTE), DISPUTED),
     ((CANCELLED, RECONCILE), RECONCILED),
     ((CANCELLED, DISPUTE), DISPUTED),
     ((OS_EXPIRED, RECONCILE), RECONCILED),
     ((OS_EXPIRED, DISPUTE), DISPUTED),
     ((OS_REJECTED, RECONCILE), RECONCILED),
     ((OS_REJECTED, DISPUTE), DISPUTED),
     ((DISPUTED, RECONCILE), RECONCILED),
     ((RECONCILED, SETTLEMENT_REVERSE), SETTLEMENT_REVERSED)]"

definition order_transition :: "OrderState \<Rightarrow> OrderEvent \<Rightarrow> transition_error + OrderState" where
  "order_transition s e =
     (case map_of LEGAL_TRANSITIONS (s, e) of None \<Rightarrow> Inl (IllegalTransitionError s e) | Some t \<Rightarrow> Inr t)"

inductive order_step :: "OrderState \<Rightarrow> OrderEvent \<Rightarrow> OrderState \<Rightarrow> bool" where
  edge: "order_transition s e = Inr t \<Longrightarrow> order_step s e t"

text \<open>A life cycle: the events driven from a state, and the states passed.\<close>

inductive order_history :: "OrderState \<Rightarrow> OrderEvent list \<Rightarrow> OrderState list \<Rightarrow> bool" where
  start: "order_history s [] []"
| move: "order_step s e t \<Longrightarrow> order_history t es ts \<Longrightarrow> order_history s (e # es) (t # ts)"

text \<open>\<open>OrderState[name]\<close>: the member with that name.\<close>

definition all_states :: "OrderState list" where
  "all_states = [INTENT_CREATED, OS_APPROVED, SUBMISSION_REQUESTED, SUBMITTED, ACKED, OS_PARTIAL_FILL, FILLED,
     CANCEL_REQUESTED, CANCELLED, OS_EXPIRED, OS_REJECTED, RECONCILED, DISPUTED, SETTLEMENT_REVERSED]"

definition state_of_name :: "string \<Rightarrow> OrderState option" where
  "state_of_name n = find (\<lambda>s. state_name s = n) all_states"

text \<open>How many steps other than partial fills a state is from the end of the life cycle.\<close>

fun order_rank :: "OrderState \<Rightarrow> nat" where
  "order_rank INTENT_CREATED = 10"
| "order_rank OS_APPROVED = 9"
| "order_rank SUBMISSION_REQUESTED = 8"
| "order_rank SUBMITTED = 7"
| "order_rank ACKED = 6"
| "order_rank OS_PARTIAL_FILL = 5"
| "order_rank CANCEL_REQUESTED = 4"
| "order_rank FILLED = 3"
| "order_rank CANCELLED = 3"
| "order_rank OS_EXPIRED = 3"
| "order_rank OS_REJECTED = 3"
| "order_rank DISPUTED = 2"
| "order_rank RECONCILED = 1"
| "order_rank SETTLEMENT_REVERSED = 0"

text \<open>The four ways trading ends.\<close>

definition outcome_states :: "OrderState set" where
  "outcome_states = {FILLED, CANCELLED, OS_EXPIRED, OS_REJECTED}"

section \<open>Lemmas\<close>

lemma state_of_name_inverse [simp]: "state_of_name (state_name s) = Some s"
  by (cases s) (simp_all add: state_of_name_def all_states_def)

lemma order_transition_iff: "order_transition s e = Inr t \<longleftrightarrow> map_of LEGAL_TRANSITIONS (s, e) = Some t"
  by (auto simp: order_transition_def split: option.split)

lemma order_transition_simps [simp]:
  "order_transition INTENT_CREATED APPROVE = Inr OS_APPROVED"
  "order_transition OS_APPROVED REQUEST_SUBMISSION = Inr SUBMISSION_REQUESTED"
  "order_transition SUBMISSION_REQUESTED SUBMIT = Inr SUBMITTED"
  "order_transition SUBMITTED ACK = Inr ACKED"
  by (simp_all add: order_transition_def LEGAL_TRANSITIONS_def)

lemma order_step_rank:
  "order_step s e t \<Longrightarrow> order_rank t < order_rank s \<or> e = OE_PARTIAL_FILL \<and> t = s"
  by (cases s; cases e) (auto simp: order_step.simps order_transition_iff LEGAL_TRANSITIONS_def)

lemma order_step_outcome:
  "order_step s e t \<Longrightarrow> (t \<in> outcome_states \<longrightarrow> order_rank s > 3) \<and> (s \<in> outcome_states \<longrightarrow> t \<in> {RECONCILED, DISPUTED})"
  by (cases s; cases e) (auto simp: order_step.simps order_transition_iff LEGAL_TRANSITIONS_def outcome_states_def)

lemma order_history_length:
  "order_history s es ts \<Longrightarrow> length (filter (\<lambda>e. e \<noteq> OE_PARTIAL_FILL) es) \<le> order_rank s"
  by (induction rule: order_history.induct) (auto dest!: order_step_rank)

lemma outcome_rank: "s \<in> outcome_states \<Longrightarrow> order_rank s = 3"
  by (auto simp: outcome_states_def)

lemma order_history_settled: "order_history s es ts \<Longrightarrow> order_rank s \<le> 3 \<Longrightarrow> filter (\<lambda>t. t \<in> outcome_states) ts = []"
  by (induction rule: order_history.induct)
    (auto dest: order_step_rank order_step_outcome)

lemma order_history_outcome: "order_history s es ts \<Longrightarrow> length (filter (\<lambda>t. t \<in> outcome_states) ts) \<le> 1"
proof (induction rule: order_history.induct)
  case (move s e t es ts)
  then show ?case using order_history_settled [of t es ts] outcome_rank [of t] by auto
qed simp

lemma order_step_first:
  "order_step INTENT_CREATED e t \<longleftrightarrow> e = APPROVE \<and> t = OS_APPROVED"
  "order_step OS_APPROVED e t \<longleftrightarrow> e = REQUEST_SUBMISSION \<and> t = SUBMISSION_REQUESTED"
  "order_step SUBMISSION_REQUESTED e t \<longleftrightarrow> e = SUBMIT \<and> t = SUBMITTED"
  by (cases e; auto simp: order_step.simps order_transition_iff LEGAL_TRANSITIONS_def)+

inductive_simps order_history_Nil: "order_history s [] ts"
inductive_simps order_history_Cons: "order_history s (e # es) ts"

lemma order_history_prefix:
  assumes "order_history INTENT_CREATED es ts"
  shows "prefix (take 3 es) [APPROVE, REQUEST_SUBMISSION, SUBMIT]"
proof -
  consider "es = []" | a where "es = [a]" | a b where "es = [a, b]" | a b c ds where "es = a # b # c # ds"
    by (metis neq_Nil_conv)
  then show ?thesis
    using assms by cases (auto simp: order_history_Nil order_history_Cons order_step_first)
qed

section \<open>Properties\<close>



end
