(* ===== verification/Wal.thy ===== *)
theory Wal
  imports JsonPrefix OrderStates
begin

text \<open>
  The content-addressed client order id (\<open>windbreak/order_gateway/client_order_id.py\<close>) and the
  write-ahead log of the order gateway (\<open>windbreak/order_gateway/wal.py\<close>). The journal is the text of
  its file: appending adds one line of canonical JSON, reading splits the text the way
  \<open>str.splitlines\<close> does and decodes each line. Flushing and \<open>fsync\<close> are the assumption that an
  appended line is in the text; a crash inside an append leaves a proper prefix of it.
\<close>

section \<open>Definitions\<close>

subsection \<open>Client order ids\<close>

definition intent_to_payload :: "OrderIntent \<Rightarrow> payload" where
  "intent_to_payload i =
     [(''intent_id'', JStr (intent_id i)), (''market_ticker'', JStr (market_ticker i)),
      (''outcome'', JStr (intent_outcome i)), (''action'', JStr (action i)), (''price'', JInt (val (price i))),
      (''size'', JInt (val (order_size i))), (''max_notional'', JInt (val (max_notional i))),
      (''implied_probability'', JInt (val (implied_probability i))), (''idempotency_key'', JStr (idempotency_key i))]"

definition client_order_id :: "(string \<Rightarrow> string) \<Rightarrow> OrderIntent \<Rightarrow> string" where
  "client_order_id sha i = sha (canonical_json (intent_to_payload i))"

subsection \<open>Journal records\<close>

definition KIND_INTENT :: string where "KIND_INTENT = ''intent''"
definition KIND_ACK :: string where "KIND_ACK = ''ack''"
definition INTENT_RECORD_FIELDS :: "string set" where "INTENT_RECORD_FIELDS = {''kind'', ''client_order_id'', ''intent''}"
definition ACK_RECORD_FIELDS :: "string set" where
  "ACK_RECORD_FIELDS = {''kind'', ''client_order_id'', ''order_id'', ''filled''}"
definition INTENT_PAYLOAD_FIELDS :: "string set" where
  "INTENT_PAYLOAD_FIELDS = {''intent_id'', ''market_ticker'', ''outcome'', ''action'', ''price'', ''size'',
     ''max_notional'', ''implied_probability'', ''idempotency_key''}"

record WalRecord =
  wr_kind :: string
  wr_client_order_id :: string
  wr_intent :: "OrderIntent option"
  wr_order_id :: "string option"
  wr_filled :: ContractCentis

definition json_of_option :: "string option \<Rightarrow> json" where
  "json_of_option x = (case x of None \<Rightarrow> JNull | Some s \<Rightarrow> JStr s)"

definition wal_append :: "payload \<Rightarrow> string \<Rightarrow> string" where
  "wal_append obj text = text @ canonical_json obj @ [CHR 0x0A]"

definition intent_record :: "OrderIntent \<Rightarrow> string \<Rightarrow> payload" where
  "intent_record i coid =
     [(''kind'', JStr KIND_INTENT), (''client_order_id'', JStr coid), (''intent'', JObj (intent_to_payload i))]"

definition ack_record :: "string \<Rightarrow> string option \<Rightarrow> ContractCentis \<Rightarrow> payload" where
  "ack_record coid order_id filled =
     [(''kind'', JStr KIND_ACK), (''client_order_id'', JStr coid), (''order_id'', json_of_option order_id),
      (''filled'', JInt (val filled))]"

definition append_intent :: "OrderIntent \<Rightarrow> string \<Rightarrow> string \<Rightarrow> string" where
  "append_intent i coid text = wal_append (intent_record i coid) text"

definition append_ack :: "string \<Rightarrow> string option \<Rightarrow> ContractCentis \<Rightarrow> string \<Rightarrow> string" where
  "append_ack coid order_id filled text = wal_append (ack_record coid order_id filled) text"

subsection \<open>Reading the journal\<close>

text \<open>\<open>WalCorrupt n\<close> is the \<open>ValueError\<close> for line \<open>n\<close>, \<open>WalTypeError\<close> the \<open>TypeError\<close> of a scaled
  integer built from another type; a value of a type the code only casts has no record of the model.\<close>

datatype wal_error = WalCorrupt nat | WalTypeError nat | WalOutsideModel nat

definition line_break :: "char \<Rightarrow> bool" where
  "line_break c = (let n = of_char c :: nat in 10 \<le> n \<and> n \<le> 13 \<or> 28 \<le> n \<and> n \<le> 30 \<or> n = 133)"

function splitlines :: "string \<Rightarrow> string list" where
  "splitlines s =
     (if s = [] then []
      else takeWhile (\<lambda>c. \<not> line_break c) s #
        (case dropWhile (\<lambda>c. \<not> line_break c) s of
           [] \<Rightarrow> []
         | c # r \<Rightarrow> splitlines (if c = CHR 0x0D \<and> r \<noteq> [] \<and> hd r = CHR 0x0A then tl r else r)))"
  by pat_completeness auto
termination
proof (relation "measure length", simp)
  fix s :: string and c r
  assume "dropWhile (\<lambda>c. \<not> line_break c) s = c # r"
  then have "length r < length s" by (metis length_dropWhile_le length_Cons Suc_le_lessD)
  moreover have "length (tl r) \<le> length r" by simp
  ultimately show "((if c = CHR 0x0D \<and> r \<noteq> [] \<and> hd r = CHR 0x0A then tl r else r), s) \<in> measure length"
    by (simp del: length_tl)
qed

declare splitlines.simps [simp del]

definition decode_line :: "string \<Rightarrow> nat \<Rightarrow> wal_error + json" where
  "decode_line line n =
     (case json_loads line of
        Inl e \<Rightarrow> Inl (if e = JSONDecodeError then WalCorrupt n else WalOutsideModel n)
      | Inr j \<Rightarrow> Inr j)"

definition require_object :: "json \<Rightarrow> nat \<Rightarrow> wal_error + payload" where
  "require_object j n = (case j of JObj d \<Rightarrow> Inr d | _ \<Rightarrow> Inl (WalCorrupt n))"

definition require_fields :: "payload \<Rightarrow> string set \<Rightarrow> nat \<Rightarrow> wal_error + unit" where
  "require_fields d expected n = (if fst ` set d \<noteq> expected then Inl (WalCorrupt n) else Inr ())"

definition field_str :: "payload \<Rightarrow> string \<Rightarrow> nat \<Rightarrow> wal_error + string" where
  "field_str d k n = (case dict_get d k of Some (JStr s) \<Rightarrow> Inr s | _ \<Rightarrow> Inl (WalOutsideModel n))"

definition field_int :: "payload \<Rightarrow> string \<Rightarrow> nat \<Rightarrow> wal_error + int" where
  "field_int d k n = (case dict_get d k of Some (JInt i) \<Rightarrow> Inr i | _ \<Rightarrow> Inl (WalTypeError n))"

definition intent_from_payload :: "payload \<Rightarrow> nat \<Rightarrow> wal_error + OrderIntent" where
  "intent_from_payload d n =
     res_bind (field_int d ''price'' n) (\<lambda>p.
     res_bind (field_int d ''size'' n) (\<lambda>sz.
     res_bind (field_int d ''max_notional'' n) (\<lambda>mn.
     res_bind (field_int d ''implied_probability'' n) (\<lambda>ip.
     res_bind (field_str d ''intent_id'' n) (\<lambda>iid.
     res_bind (field_str d ''market_ticker'' n) (\<lambda>mt.
     res_bind (field_str d ''outcome'' n) (\<lambda>oc.
     res_bind (field_str d ''action'' n) (\<lambda>ac.
     res_bind (field_str d ''idempotency_key'' n) (\<lambda>ik.
       Inr \<lparr>intent_id = iid, market_ticker = mt, intent_outcome = oc, action = ac, price = IntUnit p,
            order_size = IntUnit sz, max_notional = IntUnit mn, implied_probability = IntUnit ip,
            idempotency_key = ik\<rparr>)))))))))"

definition read_intent_record :: "(string \<Rightarrow> string) \<Rightarrow> string \<Rightarrow> json \<Rightarrow> nat \<Rightarrow> wal_error + WalRecord" where
  "read_intent_record sha coid raw n =
     res_bind (require_object raw n) (\<lambda>d.
     res_bind (require_fields d INTENT_PAYLOAD_FIELDS n) (\<lambda>_.
     res_bind (intent_from_payload d n) (\<lambda>i.
       if client_order_id sha i \<noteq> coid then Inl (WalCorrupt n)
       else Inr \<lparr>wr_kind = KIND_INTENT, wr_client_order_id = coid, wr_intent = Some i, wr_order_id = None,
                 wr_filled = IntUnit 0\<rparr>)))"

definition read_ack_record :: "payload \<Rightarrow> nat \<Rightarrow> wal_error + WalRecord" where
  "read_ack_record obj n =
     res_bind (field_int obj ''filled'' n) (\<lambda>filled.
     res_bind (field_str obj ''client_order_id'' n) (\<lambda>coid.
       case dict_get obj ''order_id'' of
         Some JNull \<Rightarrow> Inr \<lparr>wr_kind = KIND_ACK, wr_client_order_id = coid, wr_intent = None, wr_order_id = None,
                            wr_filled = IntUnit filled\<rparr>
       | Some (JStr oid) \<Rightarrow> Inr \<lparr>wr_kind = KIND_ACK, wr_client_order_id = coid, wr_intent = None,
                            wr_order_id = Some oid, wr_filled = IntUnit filled\<rparr>
       | _ \<Rightarrow> Inl (WalOutsideModel n)))"

definition record_from_line :: "(string \<Rightarrow> string) \<Rightarrow> string \<Rightarrow> nat \<Rightarrow> wal_error + WalRecord" where
  "record_from_line sha line n =
     res_bind (decode_line line n) (\<lambda>j.
     res_bind (require_object j n) (\<lambda>obj.
       case dict_get obj ''kind'' of
         None \<Rightarrow> Inl (WalCorrupt n)
       | Some k \<Rightarrow>
           if k = JStr KIND_INTENT then
             res_bind (require_fields obj INTENT_RECORD_FIELDS n) (\<lambda>_.
             res_bind (field_str obj ''client_order_id'' n) (\<lambda>coid.
               read_intent_record sha coid (the (dict_get obj ''intent'')) n))
           else if k = JStr KIND_ACK then
             res_bind (require_fields obj ACK_RECORD_FIELDS n) (\<lambda>_. read_ack_record obj n)
           else Inl (WalCorrupt n)))"

fun records_from_lines :: "(string \<Rightarrow> string) \<Rightarrow> nat \<Rightarrow> string list \<Rightarrow> wal_error + WalRecord list" where
  "records_from_lines sha n [] = Inr []"
| "records_from_lines sha n (l # ls) =
     res_bind (record_from_line sha l n) (\<lambda>r.
     res_bind (records_from_lines sha (n + 1) ls) (\<lambda>rs. Inr (r # rs)))"

definition wal_read_all :: "(string \<Rightarrow> string) \<Rightarrow> string option \<Rightarrow> wal_error + WalRecord list" where
  "wal_read_all sha file =
     (case file of None \<Rightarrow> Inr [] | Some text \<Rightarrow> records_from_lines sha 1 (splitlines text))"

text \<open>One append of a run, with the record it journals.\<close>

datatype wal_cmd = AppendIntent OrderIntent | AppendAck string "string option" ContractCentis

definition wal_exec :: "(string \<Rightarrow> string) \<Rightarrow> string option \<Rightarrow> wal_cmd \<Rightarrow> string option" where
  "wal_exec sha file c =
     (let text = (case file of None \<Rightarrow> [] | Some t \<Rightarrow> t) in
      case c of
        AppendIntent i \<Rightarrow> Some (append_intent i (client_order_id sha i) text)
      | AppendAck coid oid filled \<Rightarrow> Some (append_ack coid oid filled text))"

definition wal_obj :: "(string \<Rightarrow> string) \<Rightarrow> wal_cmd \<Rightarrow> payload" where
  "wal_obj sha c = (case c of AppendIntent i \<Rightarrow> intent_record i (client_order_id sha i)
     | AppendAck coid oid filled \<Rightarrow> ack_record coid oid filled)"

definition wal_record_of :: "(string \<Rightarrow> string) \<Rightarrow> wal_cmd \<Rightarrow> WalRecord" where
  "wal_record_of sha c =
     (case c of
        AppendIntent i \<Rightarrow> \<lparr>wr_kind = KIND_INTENT, wr_client_order_id = client_order_id sha i, wr_intent = Some i,
          wr_order_id = None, wr_filled = IntUnit 0\<rparr>
      | AppendAck coid oid filled \<Rightarrow> \<lparr>wr_kind = KIND_ACK, wr_client_order_id = coid, wr_intent = None,
          wr_order_id = oid, wr_filled = filled\<rparr>)"

section \<open>Lemmas\<close>

subsection \<open>Lines\<close>

lemma printable_no_break: "printable c \<Longrightarrow> \<not> line_break c"
  by (simp add: printable_def line_break_def Let_def)

lemma canonical_no_break: "c \<in> set (canonical_json obj) \<Longrightarrow> \<not> line_break c"
  unfolding canonical_json_def using printable_dumps printable_no_break by blast

lemma splitlines_Nil [simp]: "splitlines [] = []"
  by (simp add: splitlines.simps)

lemma splitlines_line:
  assumes "\<forall>c \<in> set l. \<not> line_break c"
  shows "splitlines (l @ CHR 0x0A # r) = l # splitlines r"
proof -
  have b: "line_break CHR 0x0A" by (simp add: line_break_def)
  have "takeWhile (\<lambda>c. \<not> line_break c) (l @ CHR 0x0A # r) = l"
    "dropWhile (\<lambda>c. \<not> line_break c) (l @ CHR 0x0A # r) = CHR 0x0A # r"
    using assms b by (simp_all add: takeWhile_append dropWhile_append)
  then show ?thesis by (subst splitlines.simps) simp
qed

lemma splitlines_last:
  assumes "\<forall>c \<in> set l. \<not> line_break c" and "l \<noteq> []"
  shows "splitlines l = [l]"
proof -
  have "takeWhile (\<lambda>c. \<not> line_break c) l = l" "dropWhile (\<lambda>c. \<not> line_break c) l = []"
    using assms(1) by (simp_all add: takeWhile_eq_all_conv dropWhile_eq_Nil_conv)
  then show ?thesis
    using assms(2) by (subst splitlines.simps) (simp del: dropWhile_eq_Nil_conv takeWhile_eq_all_conv)
qed

lemma splitlines_lines:
  assumes "\<forall>l \<in> set ls. \<forall>c \<in> set l. \<not> line_break c"
  shows "splitlines (concat (map (\<lambda>l. l @ [CHR 0x0A]) ls) @ r) = ls @ splitlines r"
  using assms by (induction ls) (simp_all add: splitlines_line)

subsection \<open>Reading back one record\<close>

lemma wal_obj_wf: "json_wf (JObj (wal_obj sha c))"
  by (cases c) (auto simp: wal_obj_def intent_record_def ack_record_def intent_to_payload_def dict_wf_def
      json_of_option_def split: option.split)

lemma intent_payload_read:
  assumes "\<And>k. dict_get d k = map_option json_canon (dict_get (intent_to_payload i) k)"
  shows "intent_from_payload d n = Inr i"
  by (simp add: intent_from_payload_def field_int_def field_str_def assms) (simp add: intent_to_payload_def dict_get_def)

lemma intent_payload_canon:
  "\<exists>d. json_canon (JObj (intent_to_payload i)) = JObj d \<and> fst ` set d = INTENT_PAYLOAD_FIELDS \<and>
     (\<forall>k. dict_get d k = map_option json_canon (dict_get (intent_to_payload i) k))"
proof -
  have wf: "dict_wf (intent_to_payload i)" by (simp add: intent_to_payload_def dict_wf_def)
  have "fst ` set (sort_key fst (map (\<lambda>(k, v). (k, json_canon v)) (intent_to_payload i))) = INTENT_PAYLOAD_FIELDS"
    unfolding set_sort by (auto simp: intent_to_payload_def INTENT_PAYLOAD_FIELDS_def)
  then show ?thesis using dict_get_canon [OF wf] by (simp only: json_canon.simps) blast
qed

lemma record_round_trip: "record_from_line sha (canonical_json (wal_obj sha c)) n = Inr (wal_record_of sha c)"
proof -
  obtain d where d: "json_loads (canonical_json (wal_obj sha c)) = Inr (JObj d)"
    and get: "\<And>k. dict_get d k = map_option json_canon (dict_get (wal_obj sha c) k)"
    and keys: "fst ` set d = fst ` set (wal_obj sha c)"
    using loads_canonical_obj [OF wal_obj_wf] by metis
  show ?thesis
  proof (cases c)
    case (AppendIntent i)
    obtain p where p: "json_canon (JObj (intent_to_payload i)) = JObj p" "fst ` set p = INTENT_PAYLOAD_FIELDS"
      "\<And>k. dict_get p k = map_option json_canon (dict_get (intent_to_payload i) k)"
      using intent_payload_canon by metis
    have "dict_get d ''kind'' = Some (JStr KIND_INTENT)" "dict_get d ''client_order_id'' = Some (JStr (client_order_id sha i))"
      "dict_get d ''intent'' = Some (JObj p)" "fst ` set d = INTENT_RECORD_FIELDS"
      using p(1) by (simp_all add: get keys AppendIntent wal_obj_def intent_record_def INTENT_RECORD_FIELDS_def,
          simp_all add: dict_get_def)
    moreover have "wal_record_of sha c = \<lparr>wr_kind = KIND_INTENT, wr_client_order_id = client_order_id sha i,
        wr_intent = Some i, wr_order_id = None, wr_filled = IntUnit 0\<rparr>" by (simp add: AppendIntent wal_record_of_def)
    ultimately show ?thesis
      using p(2) intent_payload_read [of p i n] p(3)
      by (simp add: record_from_line_def decode_line_def d require_object_def require_fields_def field_str_def
          read_intent_record_def)
  next
    case (AppendAck coid oid filled)
    have "dict_get d ''kind'' = Some (JStr KIND_ACK)" "dict_get d ''client_order_id'' = Some (JStr coid)"
      "dict_get d ''order_id'' = Some (json_of_option oid)" "dict_get d ''filled'' = Some (JInt (val filled))"
      "fst ` set d = ACK_RECORD_FIELDS"
      by (simp_all add: get keys AppendAck wal_obj_def ack_record_def ACK_RECORD_FIELDS_def,
          simp_all add: dict_get_def json_of_option_def split: option.split)
    moreover have "wal_record_of sha c = \<lparr>wr_kind = KIND_ACK, wr_client_order_id = coid,
        wr_intent = None, wr_order_id = oid, wr_filled = filled\<rparr>" by (simp add: AppendAck wal_record_of_def)
    moreover have "KIND_ACK \<noteq> KIND_INTENT" by (simp add: KIND_ACK_def KIND_INTENT_def)
    ultimately show ?thesis
      by (cases oid) (simp_all add: record_from_line_def decode_line_def d require_object_def require_fields_def field_str_def
          field_int_def read_ack_record_def json_of_option_def)
  qed
qed

lemma records_round_trip:
  "records_from_lines sha n (map (\<lambda>c. canonical_json (wal_obj sha c)) cs @ ls) =
     res_bind (records_from_lines sha (n + length cs) ls) (\<lambda>rs. Inr (map (wal_record_of sha) cs @ rs))"
proof (induction cs arbitrary: n)
  case Nil
  show ?case by (cases "records_from_lines sha n ls") simp_all
next
  case (Cons c cs)
  show ?case using Cons.IH [of "n + 1"]
    by (cases "records_from_lines sha (n + length (c # cs)) ls") (simp_all add: record_round_trip)
qed

lemma wal_run_text:
  "foldl (wal_exec sha) (Some t) cs = Some (t @ concat (map (\<lambda>l. l @ [CHR 0x0A]) (map (\<lambda>c. canonical_json (wal_obj sha c)) cs)))"
  by (induction cs arbitrary: t)
    (simp_all add: wal_exec_def append_intent_def append_ack_def wal_append_def wal_obj_def Let_def split: wal_cmd.split)

lemma wal_run_file:
  "cs \<noteq> [] \<Longrightarrow> foldl (wal_exec sha) None cs = foldl (wal_exec sha) (Some []) cs"
  by (cases cs) (simp_all add: wal_exec_def)

lemma wal_lines:
  "splitlines (concat (map (\<lambda>l. l @ [CHR 0x0A]) (map (\<lambda>c. canonical_json (wal_obj sha c)) cs)) @ r)
     = map (\<lambda>c. canonical_json (wal_obj sha c)) cs @ splitlines r"
  by (rule splitlines_lines) (auto dest: canonical_no_break)

lemma wal_run_read: "wal_read_all sha (foldl (wal_exec sha) None cs) = Inr (map (wal_record_of sha) cs)"
proof (cases "cs = []")
  case False
  then show ?thesis
    using wal_lines [of sha cs "[]"] records_round_trip [of sha 1 cs "[]"]
    by (simp add: wal_run_file wal_run_text wal_read_all_def)
qed (simp add: wal_read_all_def)

subsection \<open>A torn last line\<close>

lemma records_from_lines_prefix:
  "records_from_lines sha n (map (\<lambda>c. canonical_json (wal_obj sha c)) cs @ [l]) =
     res_bind (record_from_line sha l (n + length cs)) (\<lambda>r. Inr (map (wal_record_of sha) cs @ [r]))"
  by (simp add: records_round_trip) (cases "record_from_line sha l (n + length cs)"; simp)

lemma canonical_sorted_wf: "json_wf (JObj d) \<Longrightarrow> \<exists>e. canonical_json d = json_dumps (JObj e) \<and> json_wf (JObj e)"
  unfolding canonical_json_def using json_wf_canon [of "JObj d"] by (simp only: json_canon.simps) blast

lemma torn_line_refused:
  assumes "canonical_json (wal_obj sha c) = p @ q" and "p \<noteq> []" and "q \<noteq> []"
  shows "wal_read_all sha (Some (concat (map (\<lambda>l. l @ [CHR 0x0A]) (map (\<lambda>c. canonical_json (wal_obj sha c)) cs)) @ p))
    = Inl (WalCorrupt (length cs + 1))"
proof -
  obtain e where e: "json_dumps (JObj e) = p @ q" "json_wf (JObj e)"
    using canonical_sorted_wf [OF wal_obj_wf, of sha c] assms(1) by metis
  have "json_loads p = Inl JSONDecodeError" using loads_truncated [OF e(2,1) assms(2,3)] .
  moreover have "\<forall>x \<in> set p. \<not> line_break x" using canonical_no_break [of _ "wal_obj sha c"] assms(1) by simp
  then have "splitlines p = [p]" using splitlines_last assms(2) by blast
  ultimately show ?thesis
    using wal_lines [of sha cs p] records_from_lines_prefix [of sha 1 cs p]
    by (simp add: wal_read_all_def record_from_line_def decode_line_def comp_def add.commute)
qed

lemma complete_line_read:
  assumes "t = [] \<or> t = [CHR 0x0A]"
  shows "wal_read_all sha (Some (concat (map (\<lambda>l. l @ [CHR 0x0A]) (map (\<lambda>c. canonical_json (wal_obj sha c)) cs)) @
      canonical_json (wal_obj sha c) @ t)) = Inr (map (wal_record_of sha) (cs @ [c]))"
proof -
  let ?l = "canonical_json (wal_obj sha c)"
  have nb: "\<forall>x \<in> set ?l. \<not> line_break x" using canonical_no_break by blast
  have ne: "?l \<noteq> []" by (simp add: canonical_json_def)
  have "splitlines (?l @ t) = [?l]" using assms splitlines_last [OF nb ne] splitlines_line [OF nb, of "[]"] by auto
  then show ?thesis
    using wal_lines [of sha cs "?l @ t"] records_from_lines_prefix [of sha 1 cs ?l]
    by (simp add: wal_read_all_def record_round_trip)
qed

section \<open>Properties\<close>

text \<open>Whatever sequence of intents and acknowledgements is appended, to a journal file that did not
  exist, reading the file gives those records back in order, each intent with the id recomputed from it.\<close>

theorem wal_round_trip:
  "wal_read_all sha (foldl (wal_exec sha) None cs) = Inr (map (wal_record_of sha) cs)"
  by (rule wal_run_read)

text \<open>C37. A crash inside an append leaves the first \<open>k\<close> characters of the new line. Reading the journal then
  gives the records before it when nothing was written, refuses the file naming the torn line when the
  record is incomplete, and gives every record when the record is complete; a torn record is never
  skipped and never read as a different one.\<close>

theorem torn_append_never_misread:
  assumes "foldl (wal_exec sha) (Some []) cs = Some text"
  shows "wal_read_all sha (Some (text @ take k (wal_append (wal_obj sha c) []))) =
    (if k = 0 then Inr (map (wal_record_of sha) cs)
     else if k < length (canonical_json (wal_obj sha c)) then Inl (WalCorrupt (length cs + 1))
     else Inr (map (wal_record_of sha) (cs @ [c])))"
proof -
  let ?l = "canonical_json (wal_obj sha c)"
  have t: "text = concat (map (\<lambda>l. l @ [CHR 0x0A]) (map (\<lambda>c. canonical_json (wal_obj sha c)) cs))"
    using assms wal_run_text [of sha "[]" cs] by simp
  consider "k = 0" | "0 < k" "k < length ?l" | "length ?l \<le> k" by linarith
  then show ?thesis
  proof cases
    case 1
    then show ?thesis
      using wal_lines [of sha cs "[]"] records_round_trip [of sha 1 cs "[]"] by (simp add: t wal_read_all_def)
  next
    case 2
    have "?l \<noteq> []" by (simp add: canonical_json_def)
    with 2 show ?thesis
      using torn_line_refused [of sha c "take k ?l" "drop k ?l" cs] by (auto simp: t wal_append_def)
  next
    case 3
    have "?l \<noteq> []" by (simp add: canonical_json_def)
    with 3 have "k \<noteq> 0" by (metis le_zero_eq length_0_conv)
    have "take k (wal_append (wal_obj sha c) []) = ?l @ take (k - length ?l) [CHR 0x0A]" using 3 by (simp add: wal_append_def)
    moreover have "take (k - length ?l) [CHR 0x0A] = [] \<or> take (k - length ?l) [CHR 0x0A] = [CHR 0x0A]"
      by (cases "k - length ?l") simp_all
    ultimately show ?thesis using complete_line_read [of _ sha cs c] 3 \<open>k \<noteq> 0\<close> by (simp add: t)
  qed
qed

definition ack_a :: wal_cmd where "ack_a = AppendAck ''a'' None (IntUnit 0)"

theorem torn_append_never_misread_witness:
  "foldl (wal_exec id) (Some []) [ack_a] = Some (wal_append (wal_obj id ack_a) []) \<and>
   wal_read_all id (Some (wal_append (wal_obj id ack_a) [] @ take 5 (wal_append (wal_obj id ack_a) []))) = Inl (WalCorrupt 2)"
proof -
  have run: "foldl (wal_exec id) (Some []) [ack_a] = Some (wal_append (wal_obj id ack_a) [])" by code_simp
  have "5 < length (canonical_json (wal_obj id ack_a))" by code_simp
  then show ?thesis using torn_append_never_misread [OF run, of 5 ack_a] run by simp
qed

end
