(* ===== verification/Venue.thy ===== *)
theory Venue
  imports Numeric
begin

text \<open>
  What a venue reports (\<open>windbreak/connector/models.py\<close>, \<open>semantics.py\<close>): markets, order books,
  balances and what they mean, positions, open orders and fills. Instants are microseconds since the epoch, so that a difference of instants is
  a difference of integers; the code refuses a datetime without an offset at the boundary, which is why
  an instant has no other shape here.
\<close>

section \<open>Definitions\<close>

subsection \<open>Markets\<close>

definition MARKET_TYPES :: "string set" where "MARKET_TYPES = {''fully_collateralized_binary''}"

definition JURISDICTION_STATUSES :: "string set" where
  "JURISDICTION_STATUSES = {''eligible'', ''ineligible'', ''unknown''}"

definition require_market_type :: "string \<Rightarrow> num_error + unit" where
  "require_market_type v = (if v \<notin> MARKET_TYPES then Inl ValueError else Inr ())"

definition require_jurisdiction :: "string \<Rightarrow> num_error + unit" where
  "require_jurisdiction v = (if v \<notin> JURISDICTION_STATUSES then Inl ValueError else Inr ())"

definition require_positive_unit_int :: "py_value \<Rightarrow> num_error + int" where
  "require_positive_unit_int v =
     (case v of PyInt i \<Rightarrow> (if i \<le> 0 then Inl ValueError else Inr i) | PyBool _ \<Rightarrow> Inl TypeError | PyOther \<Rightarrow> Inl TypeError)"

definition require_nonnegative_unit_int :: "py_value \<Rightarrow> num_error + int" where
  "require_nonnegative_unit_int v =
     (case v of PyInt i \<Rightarrow> (if i < 0 then Inl ValueError else Inr i) | PyBool _ \<Rightarrow> Inl TypeError | PyOther \<Rightarrow> Inl TypeError)"

record NormalizedMarket =
  nm_exchange :: string
  nm_ticker :: string
  nm_event_ticker :: string
  nm_title :: string
  nm_resolution_criteria :: string
  nm_category :: string
  nm_close_time :: int
  nm_expected_resolution_time :: "int option"
  nm_market_type :: string
  nm_price_tick_pips :: int
  nm_min_order_contract_centis :: int
  nm_fractional_trading_enabled :: bool
  nm_mutually_exclusive_group_id :: "string option"
  nm_jurisdiction_status :: string
  nm_raw_exchange_payload_hash :: string
  nm_volume_24h_micros :: int

text \<open>The validation a market goes through on construction, with the three integers as they were passed.\<close>

definition NormalizedMarket_new ::
    "py_value \<Rightarrow> py_value \<Rightarrow> py_value \<Rightarrow> NormalizedMarket \<Rightarrow> num_error + NormalizedMarket" where
  "NormalizedMarket_new tick min_order volume m =
     res_bind (require_market_type (nm_market_type m)) (\<lambda>_.
     res_bind (require_jurisdiction (nm_jurisdiction_status m)) (\<lambda>_.
     res_bind (require_positive_unit_int tick) (\<lambda>t.
     res_bind (require_positive_unit_int min_order) (\<lambda>mo.
     res_bind (require_nonnegative_unit_int volume) (\<lambda>v.
       if nm_raw_exchange_payload_hash m = '''' then Inl ValueError
       else Inr (m\<lparr>nm_price_tick_pips := t, nm_min_order_contract_centis := mo, nm_volume_24h_micros := v\<rparr>))))))"

subsection \<open>Books, balances, orders\<close>

record OrderBookLevel =
  lvl_price :: PricePips
  lvl_quantity :: ContractCentis

record OrderBookSnapshot =
  ob_ticker :: string
  yes_bids :: "OrderBookLevel list"
  yes_asks :: "OrderBookLevel list"
  ob_fetched_at :: int

record ExchangeStatus =
  es_status :: string
  es_fetched_at :: int

record BalanceSnapshot =
  bal_total :: MoneyMicros
  bal_available :: MoneyMicros
  bal_fetched_at :: int

record Position =
  pos_ticker :: string
  pos_quantity :: ContractCentis
  pos_average_price :: PricePips

record OpenOrder =
  oo_id :: string
  oo_ticker :: string
  oo_side :: string
  oo_price :: PricePips
  oo_quantity :: ContractCentis

record Fill =
  fill_id :: string
  fill_ticker :: string
  fill_side :: string
  fill_price :: PricePips
  fill_quantity :: ContractCentis
  fill_ts :: int
  fill_order_id :: "string option"

text \<open>What the paper exchange is asked to place (\<open>connector/paper.py\<close>).\<close>

record PaperOrderIntent =
  po_ticker :: string
  po_side :: string
  po_price :: PricePips
  po_quantity :: ContractCentis

subsection \<open>Balance semantics\<close>

text \<open>The eight questions of \<open>connector/semantics.py\<close>; every enumeration has its own unknown member.\<close>

datatype OrderCollateralInTotal = TOTAL_INCLUDED | TOTAL_EXCLUDED | TOTAL_UNKNOWN
datatype OrderCollateralInAvailable = DEDUCTED_FROM_AVAILABLE | INCLUDED_IN_AVAILABLE | AVAILABLE_UNKNOWN
datatype FeeDebitTiming = AT_EXECUTION | AT_SETTLEMENT | FEE_TIMING_UNKNOWN
datatype FeeRounding = UP_TO_NEXT_CENT | FEE_EXACT | FEE_ROUNDING_UNKNOWN
datatype PartialFillRepresentation = PER_FILL_RECORDS | AGGREGATED | PARTIAL_FILL_UNKNOWN
datatype CancelCollateralRelease = RELEASE_IMMEDIATE | RELEASE_DELAYED | RELEASE_UNKNOWN
datatype UnsettledProceeds = EXCLUDED_UNTIL_CREDITED | INCLUDED_IMMEDIATELY | PROCEEDS_UNKNOWN
datatype HaltedMarketBehavior = NEW_ORDERS_REJECTED | NEW_ORDERS_ACCEPTED | HALTED_UNKNOWN

record BalanceSemantics =
  open_order_collateral_in_total :: OrderCollateralInTotal
  open_order_collateral_in_available :: OrderCollateralInAvailable
  fee_debit_timing :: FeeDebitTiming
  fee_rounding :: FeeRounding
  partial_fill_representation :: PartialFillRepresentation
  cancel_collateral_release :: CancelCollateralRelease
  unsettled_proceeds :: UnsettledProceeds
  halted_market_behavior :: HaltedMarketBehavior

definition is_fully_known :: "BalanceSemantics \<Rightarrow> bool" where
  "is_fully_known s =
     (open_order_collateral_in_total s \<noteq> TOTAL_UNKNOWN \<and> open_order_collateral_in_available s \<noteq> AVAILABLE_UNKNOWN \<and>
      fee_debit_timing s \<noteq> FEE_TIMING_UNKNOWN \<and> fee_rounding s \<noteq> FEE_ROUNDING_UNKNOWN \<and>
      partial_fill_representation s \<noteq> PARTIAL_FILL_UNKNOWN \<and> cancel_collateral_release s \<noteq> RELEASE_UNKNOWN \<and>
      unsettled_proceeds s \<noteq> PROCEEDS_UNKNOWN \<and> halted_market_behavior s \<noteq> HALTED_UNKNOWN)"

section \<open>Lemmas\<close>

lemma NormalizedMarket_new_ok:
  "NormalizedMarket_new t mo v m = Inr m' \<Longrightarrow>
     nm_market_type m' = ''fully_collateralized_binary'' \<and> nm_jurisdiction_status m' \<in> JURISDICTION_STATUSES \<and>
     0 < nm_price_tick_pips m' \<and> 0 < nm_min_order_contract_centis m' \<and> 0 \<le> nm_volume_24h_micros m' \<and>
     nm_raw_exchange_payload_hash m' \<noteq> ''''"
  by (auto simp: NormalizedMarket_new_def require_market_type_def require_jurisdiction_def MARKET_TYPES_def
      require_positive_unit_int_def require_nonnegative_unit_int_def res_bind_Inr_iff split: if_splits py_value.splits)

end
