(* ===== verification/Gateway.thy ===== *)
theory Gateway
  imports LedgerStore Wal Venue
begin

text \<open>
  The order gateway (\<open>windbreak/order_gateway/gateway.py\<close>) with its reduce-only arithmetic
  (\<open>reduce_only.py\<close>), its recovery helpers (\<open>recovery.py\<close>) and its ledger writer
  (\<open>ledger_writer.py\<close>). An operation takes the gateway to a result or an exception, and a gateway:
  what was done before an exception stays done. What the operation reads (exchange status, positions,
  clock) and how the submitter answers are its environment; every durable write may succeed, be lost,
  or be made although the call raises, as the environment's \<open>fault\<close> says for that very write.
  \<open>gw_venue\<close> and \<open>gw_cancelled\<close> are not attributes of the code: they list the orders that reached the
  venue and the cancels it accepted in this process, so that the theorems can speak about them.
\<close>

section \<open>Definitions\<close>

subsection \<open>Events\<close>

definition OrderTransitionLedgered :: "string \<Rightarrow> string \<Rightarrow> string \<Rightarrow> string \<Rightarrow> string \<Rightarrow> Event" where
  "OrderTransitionLedgered cmp coid from_state ev to_state =
     derive_typed_event ''OrderTransitionLedgered'' cmp
       [(''client_order_id'', JStr coid), (''from_state'', JStr from_state), (''event'', JStr ev),
        (''to_state'', JStr to_state)] SCHEMA_VERSION"

definition SubmissionRefused :: "string \<Rightarrow> string \<Rightarrow> string \<Rightarrow> Event" where
  "SubmissionRefused cmp coid rsn =
     derive_typed_event ''SubmissionRefused'' cmp
       [(''client_order_id'', JStr coid), (''reason'', JStr rsn)] SCHEMA_VERSION"

definition ReduceOnlyRefused :: "string \<Rightarrow> string \<Rightarrow> string \<Rightarrow> int \<Rightarrow> int \<Rightarrow> int \<Rightarrow> string \<Rightarrow> Event" where
  "ReduceOnlyRefused cmp coid ticker held inflight requested rsn =
     derive_typed_event ''ReduceOnlyRefused'' cmp
       [(''client_order_id'', JStr coid), (''ticker'', JStr ticker), (''held_centis'', JInt held),
        (''inflight_closing_centis'', JInt inflight), (''requested_close_centis'', JInt requested),
        (''reason'', JStr rsn)] SCHEMA_VERSION"

definition ReduceOnlyViolation :: "string \<Rightarrow> string \<Rightarrow> string \<Rightarrow> int \<Rightarrow> int \<Rightarrow> int \<Rightarrow> Event" where
  "ReduceOnlyViolation cmp coid ticker held filled net =
     derive_typed_event ''ReduceOnlyViolation'' cmp
       [(''client_order_id'', JStr coid), (''ticker'', JStr ticker), (''held_centis'', JInt held),
        (''filled_centis'', JInt filled), (''net_centis'', JInt net)] SCHEMA_VERSION"

definition ReconciliationHalted :: "string \<Rightarrow> string \<Rightarrow> string \<Rightarrow> string \<Rightarrow> string \<Rightarrow> string \<Rightarrow> Event" where
  "ReconciliationHalted cmp rsn ticker venue_order_id coid detail =
     derive_typed_event ''ReconciliationHalted'' cmp
       [(''reason'', JStr rsn), (''ticker'', JStr ticker), (''venue_order_id'', JStr venue_order_id),
        (''client_order_id'', JStr coid), (''detail'', JStr detail)] SCHEMA_VERSION"

definition ReconciliationHealed :: "string \<Rightarrow> string \<Rightarrow> string \<Rightarrow> string \<Rightarrow> Event" where
  "ReconciliationHealed cmp coid act detail =
     derive_typed_event ''ReconciliationHealed'' cmp
       [(''client_order_id'', JStr coid), (''action'', JStr act), (''detail'', JStr detail)] SCHEMA_VERSION"

definition RecoveryCompleted :: "string \<Rightarrow> int \<Rightarrow> bool \<Rightarrow> Event" where
  "RecoveryCompleted cmp reconciled halted =
     derive_typed_event ''RecoveryCompleted'' cmp
       [(''orders_reconciled'', JInt reconciled), (''halted'', JBool halted)] SCHEMA_VERSION"

definition MarketFreeze :: "string \<Rightarrow> string \<Rightarrow> string \<Rightarrow> int \<Rightarrow> int \<Rightarrow> int \<Rightarrow> int \<Rightarrow> int \<Rightarrow> Event" where
  "MarketFreeze cmp ticker trigger baseline observed threshold tick epoch =
     derive_typed_event ''MarketFreeze'' cmp
       [(''ticker'', JStr ticker), (''trigger'', JStr trigger), (''baseline_price_pips'', JInt baseline),
        (''observed_price_pips'', JInt observed), (''threshold_ticks'', JInt threshold),
        (''price_tick_pips'', JInt tick), (''epoch'', JInt epoch)] SCHEMA_VERSION"

definition ReturnToScreener :: "string \<Rightarrow> string \<Rightarrow> string \<Rightarrow> int \<Rightarrow> Event" where
  "ReturnToScreener cmp ticker rsn epoch =
     derive_typed_event ''ReturnToScreener'' cmp
       [(''ticker'', JStr ticker), (''reason'', JStr rsn), (''epoch'', JInt epoch)] SCHEMA_VERSION"

subsection \<open>Reduce-only arithmetic\<close>

record PositionSnapshot =
  ps_ticker :: string
  held_centis :: int
  inflight_closing_centis :: int
  requested_close_centis :: int

definition held_for_ticker :: "Position list \<Rightarrow> string \<Rightarrow> int" where
  "held_for_ticker positions ticker =
     (\<Sum>p \<leftarrow> filter (\<lambda>p. pos_ticker p = ticker) positions. val (pos_quantity p))"

definition closeable_centis :: "int \<Rightarrow> int \<Rightarrow> int" where
  "closeable_centis held inflight = max (held - inflight) 0"

definition is_close_admissible :: "int \<Rightarrow> int \<Rightarrow> int \<Rightarrow> bool" where
  "is_close_admissible requested held inflight = (requested \<le> closeable_centis held inflight)"

definition is_net_short_after_fill :: "int \<Rightarrow> int \<Rightarrow> bool" where
  "is_net_short_after_fill held filled = (held - filled < 0)"

subsection \<open>Recovery data\<close>

definition GW_COMPONENT :: string where "GW_COMPONENT = ''order_gateway''"
definition CLOSING_ACTIONS :: "string set" where "CLOSING_ACTIONS = {''sell_to_close''}"
definition HALT_EVENT_TYPES :: "string set" where
  "HALT_EVENT_TYPES = {''ReduceOnlyViolation'', ''ReconciliationHalted''}"
definition ORDER_TRANSITION :: string where "ORDER_TRANSITION = ''OrderTransitionLedgered''"

definition HALT_DETAIL :: "(string, string) pydict" where
  "HALT_DETAIL =
     [(''foreign_open_order'', ''resting order on the venue has no durable ledger or write-ahead trace''),
      (''ambiguous_match'', ''resting order matches an in-flight intent whose completing write-ahead ack was never durably written; cannot correlate safely'')]"

record RecoveryReport =
  orders_reconciled :: int
  rr_halted :: bool

record TrackedOrder =
  to_client_order_id :: string
  to_order_id :: string
  to_ticker :: string
  to_side :: string
  to_price_pips :: int
  to_size_centis :: int
  to_action :: string
  to_filled_centis :: int

record RestingOrderMeta =
  created_epoch_s :: int
  baseline_price_pips :: int

definition is_closing_action :: "string \<Rightarrow> bool" where
  "is_closing_action act = (act \<in> CLOSING_ACTIONS)"

text \<open>A row of the wrong shape raises; one with values the model does not have is \<open>FoldOutside\<close>.\<close>

datatype fold_error = FoldRaised | FoldOutside

definition transition_of_record :: "LedgerRecord \<Rightarrow> fold_error + (string \<times> OrderState)" where
  "transition_of_record r =
     (case json_loads (lr_payload_json r) of
        Inl e \<Rightarrow> Inl (if e = JSONDecodeError then FoldRaised else FoldOutside)
      | Inr (JObj envelope) \<Rightarrow>
          (case dict_get envelope ''data'' of
             Some (JObj d) \<Rightarrow>
               (case (dict_get d ''client_order_id'', dict_get d ''to_state'') of
                  (Some (JStr coid), Some (JStr st)) \<Rightarrow>
                    (case state_of_name st of None \<Rightarrow> Inl FoldRaised | Some s \<Rightarrow> Inr (coid, s))
                | (Some _, Some _) \<Rightarrow> Inl FoldOutside
                | _ \<Rightarrow> Inl FoldRaised)
           | _ \<Rightarrow> Inl FoldRaised)
      | Inr _ \<Rightarrow> Inl FoldRaised)"

fun fold_ledger_states_from :: "(string, OrderState) pydict \<Rightarrow> LedgerRecord list \<Rightarrow> fold_error + (string, OrderState) pydict" where
  "fold_ledger_states_from states [] = Inr states"
| "fold_ledger_states_from states (r # rs) =
     (if lr_event_type r \<noteq> ORDER_TRANSITION then fold_ledger_states_from states rs
      else res_bind (transition_of_record r) (\<lambda>(coid, s). fold_ledger_states_from (dict_set coid s states) rs))"

definition fold_ledger_states :: "LedgerRecord list \<Rightarrow> fold_error + (string, OrderState) pydict" where
  "fold_ledger_states records = fold_ledger_states_from [] records"

definition ledger_shows_halt :: "LedgerRecord list \<Rightarrow> bool" where
  "ledger_shows_halt records = list_ex (\<lambda>r. lr_event_type r \<in> HALT_EVENT_TYPES) records"

definition pending_intents :: "WalRecord list \<Rightarrow> OrderIntent list" where
  "pending_intents records =
     (let acked = map wr_client_order_id (filter (\<lambda>r. wr_kind r = KIND_ACK) records) in
      List.map_filter (\<lambda>r. if wr_kind r = KIND_INTENT \<and> wr_client_order_id r \<notin> set acked then wr_intent r else None) records)"

definition intent_matches_order :: "OrderIntent list \<Rightarrow> OpenOrder \<Rightarrow> bool" where
  "intent_matches_order intents ord =
     list_ex (\<lambda>i. market_ticker i = oo_ticker ord \<and> intent_outcome i = oo_side ord \<and>
       val (price i) = val (oo_price ord)) intents"

fun build_unaccounted_halt :: "OpenOrder list \<Rightarrow> string set \<Rightarrow> OrderIntent list \<Rightarrow> Event option" where
  "build_unaccounted_halt [] tracked_ids intents = None"
| "build_unaccounted_halt (ord # rest) tracked_ids intents =
     (if oo_id ord \<in> tracked_ids then build_unaccounted_halt rest tracked_ids intents
      else (let rsn = (if intent_matches_order intents ord then ''ambiguous_match'' else ''foreign_open_order'') in
            Some (ReconciliationHalted GW_COMPONENT rsn (oo_ticker ord) (oo_id ord) ''''
                    (the (dict_get HALT_DETAIL rsn)))))"

definition matched_fill_centis :: "Fill list \<Rightarrow> string \<Rightarrow> string \<Rightarrow> int \<Rightarrow> int" where
  "matched_fill_centis fills ticker side price_pips =
     (\<Sum>f \<leftarrow> filter (\<lambda>f. fill_ticker f = ticker \<and> fill_side f = side \<and> val (fill_price f) = price_pips) fills.
        val (fill_quantity f))"

subsection \<open>The gateway\<close>

record SubmissionAck =
  ack_order_id :: "string option"
  ack_filled :: ContractCentis

datatype SubmitOutcome =
    SO_ACKED | IDEMPOTENT_REPLAY | REFUSED_EXCHANGE_STATUS | REFUSED_REDUCE_ONLY | REFUSED_RECOVERY_PENDING
  | REJECTED_TOKEN

record GatewayResult =
  gr_verify_result :: "VerifyResult option"
  gr_state :: OrderState
  gr_ack :: "SubmissionAck option"
  gr_outcome :: SubmitOutcome
  gr_refusal_reason :: "string option"
  gr_client_order_id :: string
  gr_position_snapshot :: "PositionSnapshot option"

datatype gateway_error =
    GatewayHaltedError | LedgerWriteRaised | WalWriteRaised | SubmitRaised | UnroutableOutcome
  | GwIllegalTransition transition_error | LedgerFold fold_error | WalRead wal_error

record OrderGateway =
  gw_registry :: "string set"
  gw_acks :: "(string, SubmissionAck) pydict"
  gw_tracked :: "(string, TrackedOrder) pydict"
  gw_resting_meta :: "(string, RestingOrderMeta) pydict"
  gw_inflight_closing :: "(string, ContractCentis) pydict"
  gw_halted :: bool
  gw_accepting_approvals :: bool
  gw_log :: event_log
  gw_wal :: "string option"
  gw_venue :: "(OrderIntent \<times> SignedApprovalToken) list"
  gw_cancelled :: "string list"

text \<open>What was passed to the constructor: the key and the digests it is used with, and which of the
  optional seams are wired.\<close>

record gateway_config =
  cfg_hmac :: hmac_fn
  cfg_sha :: digest_fn
  cfg_key :: string
  cfg_status_source :: bool
  cfg_position_source :: bool
  cfg_wal :: bool
  cfg_ledger_reader :: bool
  cfg_reconciliation_source :: bool

datatype durable_write = WalWrite wal_cmd | LedgerWrite Event
datatype write_outcome = Written | Lost | WrittenThenRaised
type_synonym faults = "durable_write \<Rightarrow> write_outcome"

text \<open>A submission returns a receipt, or raises, with the order at the venue or without.\<close>

datatype submit_outcome = SubmitReturned SubmissionAck | SubmitFailed bool

record gateway_env =
  env_status :: "string option"
  env_positions :: "Position list"
  env_positions_after :: "Position list"
  env_now :: int
  env_placed_now :: int
  env_submit :: "OrderIntent \<Rightarrow> SignedApprovalToken \<Rightarrow> submit_outcome"
  env_submit_reduce_only :: "(OrderIntent \<Rightarrow> SignedApprovalToken \<Rightarrow> submit_outcome) option"
  env_fault :: faults

type_synonym 'a gw = "OrderGateway \<Rightarrow> (gateway_error + 'a) \<times> OrderGateway"

definition gw_return :: "'a \<Rightarrow> 'a gw" where
  "gw_return x g = (Inr x, g)"

definition gw_raise :: "gateway_error \<Rightarrow> 'a gw" where
  "gw_raise e g = (Inl e, g)"

definition gw_bind :: "'a gw \<Rightarrow> ('a \<Rightarrow> 'b gw) \<Rightarrow> 'b gw" where
  "gw_bind m f g = (case m g of (Inl e, g') \<Rightarrow> (Inl e, g') | (Inr x, g') \<Rightarrow> f x g')"

definition gw_modify :: "(OrderGateway \<Rightarrow> OrderGateway) \<Rightarrow> unit gw" where
  "gw_modify u g = (Inr (), u g)"

definition durable :: "write_outcome \<Rightarrow> gateway_error \<Rightarrow> (OrderGateway \<Rightarrow> OrderGateway) \<Rightarrow> unit gw" where
  "durable outcome err u g =
     (case outcome of Written \<Rightarrow> (Inr (), u g) | Lost \<Rightarrow> (Inl err, g) | WrittenThenRaised \<Rightarrow> (Inl err, u g))"

definition ledger_record :: "faults \<Rightarrow> Event \<Rightarrow> unit gw" where
  "ledger_record fault e = durable (fault (LedgerWrite e)) LedgerWriteRaised (\<lambda>g. g\<lparr>gw_log := log_record e (gw_log g)\<rparr>)"

definition wal_record :: "gateway_config \<Rightarrow> faults \<Rightarrow> wal_cmd \<Rightarrow> unit gw" where
  "wal_record cfg fault c =
     durable (fault (WalWrite c)) WalWriteRaised (\<lambda>g. g\<lparr>gw_wal := wal_exec (cfg_sha cfg) (gw_wal g) c\<rparr>)"

definition apply_and_ledger :: "faults \<Rightarrow> OrderState \<Rightarrow> OrderEvent \<Rightarrow> string \<Rightarrow> OrderState gw" where
  "apply_and_ledger fault st ev coid =
     (case order_transition st ev of
        Inl e \<Rightarrow> gw_raise (GwIllegalTransition e)
      | Inr target \<Rightarrow>
          gw_bind (ledger_record fault
             (OrderTransitionLedgered GW_COMPONENT coid (state_name st) (event_name ev) (state_name target)))
           (\<lambda>_. gw_return target))"

definition recovery_wired :: "gateway_config \<Rightarrow> bool" where
  "recovery_wired cfg = (cfg_wal cfg \<or> cfg_ledger_reader cfg \<or> cfg_reconciliation_source cfg)"

text \<open>A new gateway object over the durable state it finds.\<close>

definition OrderGateway_new :: "gateway_config \<Rightarrow> event_log \<Rightarrow> string option \<Rightarrow> (OrderIntent \<times> SignedApprovalToken) list \<Rightarrow> OrderGateway" where
  "OrderGateway_new cfg ledger wal venue =
     \<lparr>gw_registry = {}, gw_acks = [], gw_tracked = [], gw_resting_meta = [], gw_inflight_closing = [],
      gw_halted = False, gw_accepting_approvals = \<not> recovery_wired cfg, gw_log = ledger, gw_wal = wal, gw_venue = venue, gw_cancelled = []\<rparr>"

definition refusal :: "SubmitOutcome \<Rightarrow> string \<Rightarrow> string \<Rightarrow> PositionSnapshot option \<Rightarrow> GatewayResult" where
  "refusal outcome rsn coid snapshot =
     \<lparr>gr_verify_result = None, gr_state = INTENT_CREATED, gr_ack = None, gr_outcome = outcome,
      gr_refusal_reason = Some rsn, gr_client_order_id = coid, gr_position_snapshot = snapshot\<rparr>"

definition refuse_status :: "gateway_env \<Rightarrow> string \<Rightarrow> string option \<Rightarrow> GatewayResult gw" where
  "refuse_status env coid status =
     (let rsn = (case status of Some s \<Rightarrow> s | None \<Rightarrow> ''unknown'') in
      gw_bind (ledger_record (env_fault env) (SubmissionRefused GW_COMPONENT coid rsn))
        (\<lambda>_. gw_return (refusal REFUSED_EXCHANGE_STATUS rsn coid None)))"

definition refuse_recovery_pending :: "gateway_env \<Rightarrow> string \<Rightarrow> GatewayResult gw" where
  "refuse_recovery_pending env coid =
     gw_bind (ledger_record (env_fault env) (SubmissionRefused GW_COMPONENT coid ''recovery_pending''))
       (\<lambda>_. gw_return (refusal REFUSED_RECOVERY_PENDING ''recovery_pending'' coid None))"

definition inflight_for :: "OrderGateway \<Rightarrow> string \<Rightarrow> int" where
  "inflight_for g ticker = (case dict_get (gw_inflight_closing g) ticker of Some c \<Rightarrow> val c | None \<Rightarrow> 0)"

definition refuse_reduce_only :: "gateway_env \<Rightarrow> string \<Rightarrow> PositionSnapshot \<Rightarrow> GatewayResult gw" where
  "refuse_reduce_only env coid snapshot =
     gw_bind (ledger_record (env_fault env)
        (ReduceOnlyRefused GW_COMPONENT coid (ps_ticker snapshot) (held_centis snapshot)
           (inflight_closing_centis snapshot) (requested_close_centis snapshot) ''reduce_only''))
       (\<lambda>_. gw_return (refusal REFUSED_REDUCE_ONLY ''reduce_only'' coid (Some snapshot)))"

definition reduce_only_gate :: "gateway_config \<Rightarrow> gateway_env \<Rightarrow> OrderIntent \<Rightarrow> string \<Rightarrow> GatewayResult option gw" where
  "reduce_only_gate cfg env i coid g =
     (if \<not> cfg_position_source cfg \<or> \<not> is_closing_action (action i) then (Inr None, g)
      else (let held = held_for_ticker (env_positions env) (market_ticker i);
                inflight = inflight_for g (market_ticker i) in
            if is_close_admissible (val (order_size i)) held inflight then (Inr None, g)
            else gw_bind (refuse_reduce_only env coid
                   \<lparr>ps_ticker = market_ticker i, held_centis = held, inflight_closing_centis = inflight,
                    requested_close_centis = val (order_size i)\<rparr>) (\<lambda>r. gw_return (Some r)) g))"

definition gate_before_verify :: "gateway_config \<Rightarrow> gateway_env \<Rightarrow> OrderIntent \<Rightarrow> string \<Rightarrow> GatewayResult option gw" where
  "gate_before_verify cfg env i coid g =
     (if \<not> gw_accepting_approvals g then gw_bind (refuse_recovery_pending env coid) (\<lambda>r. gw_return (Some r)) g
      else if cfg_status_source cfg \<and> dict_get (gw_acks g) coid = None \<and> env_status env \<noteq> Some ''open''
      then gw_bind (refuse_status env coid (env_status env)) (\<lambda>r. gw_return (Some r)) g
      else if dict_get (gw_acks g) coid = None then reduce_only_gate cfg env i coid g
      else (Inr None, g))"

definition outcome_to_side :: "string \<Rightarrow> gateway_error + string" where
  "outcome_to_side outcome =
     (if outcome = ''yes'' then Inr ''yes'' else if outcome = ''no'' then Inr ''no'' else Inl UnroutableOutcome)"

definition place :: "gateway_env \<Rightarrow> OrderIntent \<Rightarrow> SignedApprovalToken \<Rightarrow> bool \<Rightarrow> SubmissionAck gw" where
  "place env i tok closing g =
     (let submit = (case env_submit_reduce_only env of
            Some f \<Rightarrow> (if closing then f else env_submit env) | None \<Rightarrow> env_submit env) in
      case submit i tok of
        SubmitReturned ack \<Rightarrow> (Inr ack, g\<lparr>gw_venue := gw_venue g @ [(i, tok)]\<rparr>)
      | SubmitFailed reached \<Rightarrow> (Inl SubmitRaised, if reached then g\<lparr>gw_venue := gw_venue g @ [(i, tok)]\<rparr> else g))"

definition halt_on_violation :: "gateway_env \<Rightarrow> OrderIntent \<Rightarrow> string \<Rightarrow> SubmissionAck \<Rightarrow> int \<Rightarrow> unit gw" where
  "halt_on_violation env i coid ack held =
     gw_bind (ledger_record (env_fault env)
        (ReduceOnlyViolation GW_COMPONENT coid (market_ticker i) held (val (ack_filled ack)) (held - val (ack_filled ack))))
       (\<lambda>_. gw_bind (gw_modify (\<lambda>g. g\<lparr>gw_halted := True\<rparr>)) (\<lambda>_. gw_raise GatewayHaltedError))"

definition add_inflight :: "string \<Rightarrow> int \<Rightarrow> OrderGateway \<Rightarrow> OrderGateway" where
  "add_inflight ticker sz g =
     g\<lparr>gw_inflight_closing := dict_set ticker (IntUnit (inflight_for g ticker + sz)) (gw_inflight_closing g)\<rparr>"

definition record_close_fill :: "gateway_config \<Rightarrow> gateway_env \<Rightarrow> OrderIntent \<Rightarrow> string \<Rightarrow> SubmissionAck \<Rightarrow> unit gw" where
  "record_close_fill cfg env i coid ack =
     gw_bind (gw_modify (add_inflight (market_ticker i) (val (order_size i)))) (\<lambda>_.
       if \<not> cfg_position_source cfg then gw_return ()
       else (let held = held_for_ticker (env_positions_after env) (market_ticker i) in
             if is_net_short_after_fill held (val (ack_filled ack)) then halt_on_violation env i coid ack held
             else gw_return ()))"

definition replay :: "string \<Rightarrow> SubmissionAck \<Rightarrow> GatewayResult" where
  "replay coid ack =
     \<lparr>gr_verify_result = Some VR_OK, gr_state = ACKED, gr_ack = Some ack, gr_outcome = IDEMPOTENT_REPLAY,
      gr_refusal_reason = None, gr_client_order_id = coid, gr_position_snapshot = None\<rparr>"

definition wal_append_intent :: "gateway_config \<Rightarrow> faults \<Rightarrow> OrderIntent \<Rightarrow> unit gw" where
  "wal_append_intent cfg fault i = (if cfg_wal cfg then wal_record cfg fault (AppendIntent i) else gw_return ())"

definition wal_append_ack :: "gateway_config \<Rightarrow> faults \<Rightarrow> string \<Rightarrow> SubmissionAck \<Rightarrow> unit gw" where
  "wal_append_ack cfg fault coid ack =
     (if cfg_wal cfg then wal_record cfg fault (AppendAck coid (ack_order_id ack) (ack_filled ack)) else gw_return ())"

definition tracked_of :: "string \<Rightarrow> string \<Rightarrow> string \<Rightarrow> OrderIntent \<Rightarrow> int \<Rightarrow> TrackedOrder" where
  "tracked_of coid order_id side i filled =
     \<lparr>to_client_order_id = coid, to_order_id = order_id, to_ticker = market_ticker i, to_side = side,
      to_price_pips = val (price i), to_size_centis = val (order_size i), to_action = action i,
      to_filled_centis = filled\<rparr>"

definition track :: "string \<Rightarrow> TrackedOrder \<Rightarrow> int \<Rightarrow> OrderIntent \<Rightarrow> OrderGateway \<Rightarrow> OrderGateway" where
  "track order_id t now i g =
     g\<lparr>gw_tracked := dict_set order_id t (gw_tracked g),
       gw_resting_meta := dict_set order_id \<lparr>created_epoch_s = now, baseline_price_pips = val (price i)\<rparr> (gw_resting_meta g)\<rparr>"

definition track_if_resting :: "gateway_env \<Rightarrow> string \<Rightarrow> OrderIntent \<Rightarrow> SubmissionAck \<Rightarrow> unit gw" where
  "track_if_resting env coid i ack =
     (case ack_order_id ack of
        None \<Rightarrow> gw_return ()
      | Some oid \<Rightarrow>
          (case outcome_to_side (intent_outcome i) of
             Inl e \<Rightarrow> gw_raise e
           | Inr side \<Rightarrow> gw_modify (track oid (tracked_of coid oid side i (val (ack_filled ack))) (env_placed_now env) i)))"

definition submit_new :: "gateway_config \<Rightarrow> gateway_env \<Rightarrow> OrderIntent \<Rightarrow> SignedApprovalToken \<Rightarrow> string \<Rightarrow> GatewayResult gw" where
  "submit_new cfg env i tok coid =
     gw_bind (wal_append_intent cfg (env_fault env) i) (\<lambda>_.
     gw_bind (apply_and_ledger (env_fault env) INTENT_CREATED APPROVE coid) (\<lambda>st1.
     gw_bind (apply_and_ledger (env_fault env) st1 REQUEST_SUBMISSION coid) (\<lambda>st2.
     let closing = is_closing_action (action i) in
     gw_bind (place env i tok closing) (\<lambda>ack.
     gw_bind (wal_append_ack cfg (env_fault env) coid ack) (\<lambda>_.
     gw_bind (gw_modify (\<lambda>g. g\<lparr>gw_acks := dict_set coid ack (gw_acks g)\<rparr>)) (\<lambda>_.
     gw_bind (track_if_resting env coid i ack) (\<lambda>_.
     gw_bind (apply_and_ledger (env_fault env) st2 SUBMIT coid) (\<lambda>st3.
     gw_bind (apply_and_ledger (env_fault env) st3 ACK coid) (\<lambda>st4.
     gw_bind (if closing then record_close_fill cfg env i coid ack else gw_return ()) (\<lambda>_.
       gw_return \<lparr>gr_verify_result = Some VR_OK, gr_state = st4, gr_ack = Some ack, gr_outcome = SO_ACKED,
         gr_refusal_reason = None, gr_client_order_id = coid, gr_position_snapshot = None\<rparr>))))))))))"

definition process_intent :: "gateway_config \<Rightarrow> gateway_env \<Rightarrow> OrderIntent \<Rightarrow> SignedApprovalToken \<Rightarrow> GatewayResult gw" where
  "process_intent cfg env i tok g =
     (if gw_halted g then (Inl GatewayHaltedError, g)
      else (let coid = client_order_id (cfg_sha cfg) i in
        gw_bind (gate_before_verify cfg env i coid) (\<lambda>refused g'.
          case refused of
            Some r \<Rightarrow> (Inr r, g')
          | None \<Rightarrow>
              (let (vr, reg) = verify_and_consume (cfg_hmac cfg) registry_consume tok i (cfg_key cfg) (env_now env) (gw_registry g');
                   g'' = g'\<lparr>gw_registry := reg\<rparr> in
               if vr \<noteq> VR_OK then
                 (Inr \<lparr>gr_verify_result = Some vr, gr_state = INTENT_CREATED, gr_ack = None, gr_outcome = REJECTED_TOKEN,
                    gr_refusal_reason = None, gr_client_order_id = coid, gr_position_snapshot = None\<rparr>, g'')
               else (case dict_get (gw_acks g'') coid of
                       Some ack \<Rightarrow> (Inr (replay coid ack), g'')
                     | None \<Rightarrow> submit_new cfg env i tok coid g''))) g))"

text \<open>\<open>PaperSubmitter.submit\<close>, over the exchange's \<open>place_order\<close>: the fills it emitted and the id of the
  order it rested.\<close>

definition paper_submit ::
    "(PaperOrderIntent \<Rightarrow> (Fill list \<times> OpenOrder option) option) \<Rightarrow> OrderIntent \<Rightarrow> SignedApprovalToken \<Rightarrow> submit_outcome" where
  "paper_submit place_order i tok =
     (case outcome_to_side (intent_outcome i) of
        Inl _ \<Rightarrow> SubmitFailed False
      | Inr side \<Rightarrow>
          (case place_order \<lparr>po_ticker = market_ticker i, po_side = side, po_price = price i, po_quantity = order_size i\<rparr> of
             None \<Rightarrow> SubmitFailed False
           | Some (fills, resting) \<Rightarrow>
               SubmitReturned \<lparr>ack_order_id = map_option oo_id resting,
                 ack_filled = IntUnit (\<Sum>f \<leftarrow> fills. val (fill_quantity f))\<rparr>))"

subsection \<open>Halting, retiring and recovery\<close>

definition mark_halted :: "OrderGateway \<Rightarrow> OrderGateway" where
  "mark_halted g = g\<lparr>gw_halted := True, gw_accepting_approvals := False\<rparr>"

definition retire_inflight :: "string \<Rightarrow> int \<Rightarrow> OrderGateway \<Rightarrow> OrderGateway" where
  "retire_inflight ticker sz g =
     (let remaining = max (inflight_for g ticker - sz) 0 in
      g\<lparr>gw_inflight_closing :=
         (if remaining > 0 then dict_set ticker (IntUnit remaining) (gw_inflight_closing g)
          else dict_pop ticker (gw_inflight_closing g))\<rparr>)"

definition retire_tracked_order :: "TrackedOrder \<Rightarrow> OrderGateway \<Rightarrow> OrderGateway" where
  "retire_tracked_order t g =
     (let g' = g\<lparr>gw_tracked := dict_pop (to_order_id t) (gw_tracked g),
                 gw_resting_meta := dict_pop (to_order_id t) (gw_resting_meta g)\<rparr> in
      if is_closing_action (to_action t) then retire_inflight (to_ticker t) (to_size_centis t) g' else g')"

definition tracked_orders :: "OrderGateway \<Rightarrow> TrackedOrder list" where
  "tracked_orders g = map snd (gw_tracked g)"

definition resting_meta :: "string \<Rightarrow> OrderGateway \<Rightarrow> RestingOrderMeta option" where
  "resting_meta order_id g = dict_get (gw_resting_meta g) order_id"

record recovery_env =
  rec_records :: "LedgerRecord list"
  rec_open_orders :: "OpenOrder list"
  rec_now :: int
  rec_fault :: faults

definition complete_ledger_to_acked :: "faults \<Rightarrow> string \<Rightarrow> OrderState option \<Rightarrow> unit gw" where
  "complete_ledger_to_acked fault coid st =
     (if st = Some SUBMISSION_REQUESTED then
        gw_bind (apply_and_ledger fault SUBMISSION_REQUESTED SUBMIT coid) (\<lambda>submitted.
        gw_bind (apply_and_ledger fault submitted ACK coid) (\<lambda>_. gw_return ()))
      else if st = Some SUBMITTED then
        gw_bind (apply_and_ledger fault SUBMITTED ACK coid) (\<lambda>_. gw_return ())
      else gw_return ())"

definition track_recovered_order :: "recovery_env \<Rightarrow> string \<Rightarrow> string \<Rightarrow> OrderIntent \<Rightarrow> int \<Rightarrow> unit gw" where
  "track_recovered_order env coid oid i filled =
     (case outcome_to_side (intent_outcome i) of
        Inl e \<Rightarrow> gw_raise e
      | Inr side \<Rightarrow>
          gw_bind (gw_modify (track oid (tracked_of coid oid side i filled) (rec_now env) i)) (\<lambda>_.
            if is_closing_action (action i) then gw_modify (add_inflight (market_ticker i) (val (order_size i)))
            else gw_return ()))"

definition rehydrate_ack ::
    "recovery_env \<Rightarrow> (string, OrderIntent) pydict \<Rightarrow> string set \<Rightarrow> (string, OrderState) pydict \<Rightarrow> WalRecord \<Rightarrow> unit gw" where
  "rehydrate_ack env intents open_ids states r =
     (let coid = wr_client_order_id r in
      gw_bind (gw_modify (\<lambda>g. g\<lparr>gw_acks := dict_set coid \<lparr>ack_order_id = wr_order_id r, ack_filled = wr_filled r\<rparr> (gw_acks g)\<rparr>)) (\<lambda>_.
      gw_bind (complete_ledger_to_acked (rec_fault env) coid (dict_get states coid)) (\<lambda>_.
        case (wr_order_id r, dict_get intents coid) of
          (Some oid, Some i) \<Rightarrow> (if oid \<in> open_ids then track_recovered_order env coid oid i (val (wr_filled r)) else gw_return ())
        | _ \<Rightarrow> gw_return ())))"

fun rehydrate_acks ::
    "recovery_env \<Rightarrow> (string, OrderIntent) pydict \<Rightarrow> string set \<Rightarrow> (string, OrderState) pydict \<Rightarrow> WalRecord list \<Rightarrow> int gw" where
  "rehydrate_acks env intents open_ids states [] = gw_return 0"
| "rehydrate_acks env intents open_ids states (r # rs) =
     (\<lambda>g. if wr_kind r \<noteq> KIND_ACK \<or> dict_get (gw_acks g) (wr_client_order_id r) \<noteq> None
          then rehydrate_acks env intents open_ids states rs g
          else gw_bind (rehydrate_ack env intents open_ids states r) (\<lambda>_.
               gw_bind (rehydrate_acks env intents open_ids states rs) (\<lambda>n. gw_return (n + 1))) g)"

definition journalled_intents :: "WalRecord list \<Rightarrow> (string, OrderIntent) pydict" where
  "journalled_intents records =
     foldl (\<lambda>d r. if wr_kind r = KIND_INTENT then (case wr_intent r of Some i \<Rightarrow> dict_set (wr_client_order_id r) i d | None \<Rightarrow> d) else d)
       [] records"

definition rehydrate_from_wal :: "recovery_env \<Rightarrow> LedgerRecord list \<Rightarrow> WalRecord list \<Rightarrow> OpenOrder list \<Rightarrow> int gw" where
  "rehydrate_from_wal env records wal_records open_orders =
     (case fold_ledger_states records of
        Inl e \<Rightarrow> gw_raise (LedgerFold e)
      | Inr states \<Rightarrow> rehydrate_acks env (journalled_intents wal_records) (oo_id ` set open_orders) states wal_records)"

definition recover :: "gateway_config \<Rightarrow> recovery_env \<Rightarrow> RecoveryReport gw" where
  "recover cfg env g =
     (if \<not> recovery_wired cfg then (Inr \<lparr>orders_reconciled = 0, rr_halted = False\<rparr>, g)
      else (let records = (if cfg_ledger_reader cfg then rec_records env else []) in
        if ledger_shows_halt records then (Inr \<lparr>orders_reconciled = 0, rr_halted = True\<rparr>, mark_halted g)
        else (case (if cfg_wal cfg then wal_read_all (cfg_sha cfg) (gw_wal g) else Inr []) of
            Inl e \<Rightarrow> (Inl (WalRead e), g)
          | Inr wal_records \<Rightarrow>
              (let open_orders = (if cfg_reconciliation_source cfg then rec_open_orders env else []) in
               gw_bind (rehydrate_from_wal env records wal_records open_orders) (\<lambda>reconciled g'.
                 case build_unaccounted_halt open_orders (fst ` set (gw_tracked g')) (pending_intents wal_records) of
                   Some e \<Rightarrow>
                     gw_bind (ledger_record (rec_fault env) e) (\<lambda>_.
                     gw_bind (gw_modify mark_halted) (\<lambda>_.
                       gw_return \<lparr>orders_reconciled = reconciled, rr_halted = True\<rparr>)) g'
                 | None \<Rightarrow>
                     gw_bind (ledger_record (rec_fault env) (RecoveryCompleted GW_COMPONENT reconciled False)) (\<lambda>_.
                     gw_bind (gw_modify (\<lambda>g. g\<lparr>gw_accepting_approvals := True\<rparr>)) (\<lambda>_.
                       gw_return \<lparr>orders_reconciled = reconciled, rr_halted = False\<rparr>)) g') g))))"

end
