(* ===== verification/GatewaySafety.thy ===== *)
theory GatewaySafety
  imports Gateway
begin

text \<open>
  What the order gateway guarantees. Outcomes of an operation are reasoned about with \<open>wp\<close>, which gives
  the condition under which a state leads to a given result or, after an exception, a given state; its
  equations compute through the operations. The theorems quantify over every environment, so over every
  combination of refused, lost and half-done writes and every answer of the submitter.
\<close>

section \<open>Weakest preconditions\<close>

definition wp :: "'a gw \<Rightarrow> ('a \<Rightarrow> OrderGateway \<Rightarrow> bool) \<Rightarrow> (OrderGateway \<Rightarrow> bool) \<Rightarrow> OrderGateway \<Rightarrow> bool" where
  "wp m Q E g = (case m g of (Inr x, g') \<Rightarrow> Q x g' | (Inl e, g') \<Rightarrow> E g')"

named_theorems wp_rules

lemma wp_return [wp_rules]: "wp (gw_return x) Q E = Q x"
  by (rule ext) (simp add: wp_def gw_return_def)

lemma wp_raise [wp_rules]: "wp (gw_raise e) Q E = E"
  by (rule ext) (simp add: wp_def gw_raise_def)

lemma wp_modify [wp_rules]: "wp (gw_modify u) Q E = (\<lambda>g. Q () (u g))"
  by (rule ext) (simp add: wp_def gw_modify_def)

lemma wp_bind [wp_rules]: "wp (gw_bind m f) Q E = wp m (\<lambda>x. wp (f x) Q E) E"
  by (rule ext) (auto simp: wp_def gw_bind_def split: prod.splits sum.splits)

lemmas wp_basic = wp_return wp_raise wp_modify wp_bind

lemma wp_durable [wp_rules]:
  "wp (durable out err u) Q E g =
     ((out = Written \<longrightarrow> Q () (u g)) \<and> (out = Lost \<longrightarrow> E g) \<and> (out = WrittenThenRaised \<longrightarrow> E (u g)))"
  by (cases out) (auto simp: wp_def durable_def)

lemma wp_if [wp_rules]: "wp (if b then m else m') Q E g = (if b then wp m Q E g else wp m' Q E g)"
  by simp

lemma wp_final: "wp m (\<lambda>_. P) P g \<longleftrightarrow> P (snd (m g))"
  by (auto simp: wp_def split: prod.splits sum.splits)

lemma wp_mono: "wp m Q E g \<Longrightarrow> (\<And>x g'. Q x g' \<Longrightarrow> Q' x g') \<Longrightarrow> (\<And>g'. E g' \<Longrightarrow> E' g') \<Longrightarrow> wp m Q' E' g"
  by (auto simp: wp_def split: prod.splits sum.splits)

definition transition_event :: "string \<Rightarrow> OrderState \<Rightarrow> OrderEvent \<Rightarrow> OrderState \<Rightarrow> Event" where
  "transition_event coid s e t = OrderTransitionLedgered GW_COMPONENT coid (state_name s) (event_name e) (state_name t)"

lemma wp_ledger [wp_rules]:
  "wp (ledger_record fault e) Q E g =
     ((fault (LedgerWrite e) = Written \<longrightarrow> Q () (g\<lparr>gw_log := gw_log g @ [e]\<rparr>)) \<and>
      (fault (LedgerWrite e) = Lost \<longrightarrow> E g) \<and>
      (fault (LedgerWrite e) = WrittenThenRaised \<longrightarrow> E (g\<lparr>gw_log := gw_log g @ [e]\<rparr>)))"
  by (simp add: ledger_record_def wp_durable log_record_def)

lemma wp_wal [wp_rules]:
  "wp (wal_record cfg fault c) Q E g =
     ((fault (WalWrite c) = Written \<longrightarrow> Q () (g\<lparr>gw_wal := wal_exec (cfg_sha cfg) (gw_wal g) c\<rparr>)) \<and>
      (fault (WalWrite c) = Lost \<longrightarrow> E g) \<and>
      (fault (WalWrite c) = WrittenThenRaised \<longrightarrow> E (g\<lparr>gw_wal := wal_exec (cfg_sha cfg) (gw_wal g) c\<rparr>)))"
  by (simp add: wal_record_def wp_durable)

lemma wp_apply [wp_rules]:
  "wp (apply_and_ledger fault INTENT_CREATED APPROVE coid) Q E g =
     wp (ledger_record fault (transition_event coid INTENT_CREATED APPROVE OS_APPROVED)) (\<lambda>_. Q OS_APPROVED) E g"
  "wp (apply_and_ledger fault OS_APPROVED REQUEST_SUBMISSION coid) Q E g =
     wp (ledger_record fault (transition_event coid OS_APPROVED REQUEST_SUBMISSION SUBMISSION_REQUESTED)) (\<lambda>_. Q SUBMISSION_REQUESTED) E g"
  "wp (apply_and_ledger fault SUBMISSION_REQUESTED SUBMIT coid) Q E g =
     wp (ledger_record fault (transition_event coid SUBMISSION_REQUESTED SUBMIT SUBMITTED)) (\<lambda>_. Q SUBMITTED) E g"
  "wp (apply_and_ledger fault SUBMITTED ACK coid) Q E g =
     wp (ledger_record fault (transition_event coid SUBMITTED ACK ACKED)) (\<lambda>_. Q ACKED) E g"
  by (simp_all add: apply_and_ledger_def transition_event_def wp_basic)

text \<open>The submission function \<open>_place\<close> chooses.\<close>

definition chosen_submit :: "gateway_env \<Rightarrow> OrderIntent \<Rightarrow> SignedApprovalToken \<Rightarrow> submit_outcome" where
  "chosen_submit env i tok =
     (case env_submit_reduce_only env of Some f \<Rightarrow> (if is_closing_action (action i) then f else env_submit env)
      | None \<Rightarrow> env_submit env) i tok"

lemma wp_place [wp_rules]:
  "wp (place env i tok (is_closing_action (action i))) Q E g =
     ((\<forall>ack. chosen_submit env i tok = SubmitReturned ack \<longrightarrow> Q ack (g\<lparr>gw_venue := gw_venue g @ [(i, tok)]\<rparr>)) \<and>
      (chosen_submit env i tok = SubmitFailed True \<longrightarrow> E (g\<lparr>gw_venue := gw_venue g @ [(i, tok)]\<rparr>)) \<and>
      (chosen_submit env i tok = SubmitFailed False \<longrightarrow> E g))"
  by (simp add: wp_def place_def chosen_submit_def Let_def split: submit_outcome.split option.split)

lemma wp_track [wp_rules]:
  "wp (track_if_resting env coid i ack) Q E g =
     (case ack_order_id ack of None \<Rightarrow> Q () g
      | Some oid \<Rightarrow> (case outcome_to_side (intent_outcome i) of Inl e \<Rightarrow> E g
          | Inr side \<Rightarrow> Q () (track oid (tracked_of coid oid side i (val (ack_filled ack))) (env_placed_now env) i g)))"
  by (simp add: track_if_resting_def wp_basic split: option.split sum.split)

lemma wp_close_fill [wp_rules]:
  "wp (record_close_fill cfg env i coid ack) Q E g =
     (let g' = add_inflight (market_ticker i) (val (order_size i)) g;
          held = held_for_ticker (env_positions_after env) (market_ticker i);
          e = ReduceOnlyViolation GW_COMPONENT coid (market_ticker i) held (val (ack_filled ack)) (held - val (ack_filled ack)) in
      if cfg_position_source cfg \<and> is_net_short_after_fill held (val (ack_filled ack))
      then wp (ledger_record (env_fault env) e) (\<lambda>_ g. E (g\<lparr>gw_halted := True\<rparr>)) E g'
      else Q () g')"
  by (simp add: record_close_fill_def halt_on_violation_def wp_basic wp_if Let_def)

text \<open>\<open>_submit_new\<close> and \<open>process_intent\<close> as conditions on the states they can end in.\<close>

lemma wp_submit_new:
  "wp (submit_new cfg env i tok coid) Q E g =
     wp (wal_append_intent cfg (env_fault env) i) (\<lambda>_.
       wp (apply_and_ledger (env_fault env) INTENT_CREATED APPROVE coid) (\<lambda>st1.
       wp (apply_and_ledger (env_fault env) st1 REQUEST_SUBMISSION coid) (\<lambda>st2.
       wp (place env i tok (is_closing_action (action i))) (\<lambda>ack.
       wp (wal_append_ack cfg (env_fault env) coid ack) (\<lambda>_ g.
       wp (track_if_resting env coid i ack) (\<lambda>_.
       wp (apply_and_ledger (env_fault env) st2 SUBMIT coid) (\<lambda>st3.
       wp (apply_and_ledger (env_fault env) st3 ACK coid) (\<lambda>st4.
       wp (if is_closing_action (action i) then record_close_fill cfg env i coid ack else gw_return ()) (\<lambda>_.
         Q \<lparr>gr_verify_result = Some VR_OK, gr_state = st4, gr_ack = Some ack, gr_outcome = SO_ACKED,
           gr_refusal_reason = None, gr_client_order_id = coid, gr_position_snapshot = None\<rparr>) E) E) E) E
         (g\<lparr>gw_acks := dict_set coid ack (gw_acks g)\<rparr>)) E) E) E) E) E g"
  by (simp only: submit_new_def Let_def wp_basic)

lemma wp_gate:
  "wp (gate_before_verify cfg env i coid) Q E g =
     (let fresh = (dict_get (gw_acks g) coid = None);
          held = held_for_ticker (env_positions env) (market_ticker i);
          inflight = inflight_for g (market_ticker i);
          sz = val (order_size i);
          rsn = (case env_status env of Some s \<Rightarrow> s | None \<Rightarrow> ''unknown'') in
      if \<not> gw_accepting_approvals g then
        wp (ledger_record (env_fault env) (SubmissionRefused GW_COMPONENT coid ''recovery_pending''))
          (\<lambda>_. Q (Some (refusal REFUSED_RECOVERY_PENDING ''recovery_pending'' coid None))) E g
      else if fresh \<and> cfg_status_source cfg \<and> env_status env \<noteq> Some ''open'' then
        wp (ledger_record (env_fault env) (SubmissionRefused GW_COMPONENT coid rsn))
          (\<lambda>_. Q (Some (refusal REFUSED_EXCHANGE_STATUS rsn coid None))) E g
      else if fresh \<and> cfg_position_source cfg \<and> is_closing_action (action i) \<and> \<not> is_close_admissible sz held inflight then
        wp (ledger_record (env_fault env) (ReduceOnlyRefused GW_COMPONENT coid (market_ticker i) held inflight sz ''reduce_only''))
          (\<lambda>_. Q (Some (refusal REFUSED_REDUCE_ONLY ''reduce_only'' coid
             (Some \<lparr>ps_ticker = market_ticker i, held_centis = held, inflight_closing_centis = inflight,
                requested_close_centis = sz\<rparr>)))) E g
      else Q None g)"
proof -
  have ro: "wp (reduce_only_gate cfg env i coid) Q E g =
      (if \<not> cfg_position_source cfg \<or> \<not> is_closing_action (action i) \<or>
          is_close_admissible (val (order_size i)) (held_for_ticker (env_positions env) (market_ticker i)) (inflight_for g (market_ticker i))
       then Q None g
       else wp (gw_bind (refuse_reduce_only env coid
                   \<lparr>ps_ticker = market_ticker i, held_centis = held_for_ticker (env_positions env) (market_ticker i),
                    inflight_closing_centis = inflight_for g (market_ticker i),
                    requested_close_centis = val (order_size i)\<rparr>) (\<lambda>r. gw_return (Some r))) Q E g)"
    by (simp add: wp_def reduce_only_gate_def Let_def)
  have "wp (gate_before_verify cfg env i coid) Q E g =
     (if \<not> gw_accepting_approvals g then wp (gw_bind (refuse_recovery_pending env coid) (\<lambda>r. gw_return (Some r))) Q E g
      else if cfg_status_source cfg \<and> dict_get (gw_acks g) coid = None \<and> env_status env \<noteq> Some ''open''
      then wp (gw_bind (refuse_status env coid (env_status env)) (\<lambda>r. gw_return (Some r))) Q E g
      else if dict_get (gw_acks g) coid = None then wp (reduce_only_gate cfg env i coid) Q E g
      else Q None g)"
    by (cases "dict_get (gw_acks g) coid") (simp_all add: wp_def gate_before_verify_def)
  then show ?thesis
    unfolding ro by (auto simp: Let_def wp_basic refuse_recovery_pending_def refuse_status_def refuse_reduce_only_def)
qed

text \<open>Verification, and what follows it.\<close>

lemma wp_process_intent:
  "wp (process_intent cfg env i tok) Q E g =
     (let coid = client_order_id (cfg_sha cfg) i in
      if gw_halted g then E g
      else wp (gate_before_verify cfg env i coid) (\<lambda>refused g'.
        case refused of Some r \<Rightarrow> Q r g'
        | None \<Rightarrow>
            (let v = verify_and_consume (cfg_hmac cfg) registry_consume tok i (cfg_key cfg) (env_now env) (gw_registry g');
                 g'' = g'\<lparr>gw_registry := snd v\<rparr> in
             if fst v \<noteq> VR_OK then
               Q \<lparr>gr_verify_result = Some (fst v), gr_state = INTENT_CREATED, gr_ack = None, gr_outcome = REJECTED_TOKEN,
                  gr_refusal_reason = None, gr_client_order_id = coid, gr_position_snapshot = None\<rparr> g''
             else (case dict_get (gw_acks g') coid of Some ack \<Rightarrow> Q (replay coid ack) g''
                   | None \<Rightarrow> wp (submit_new cfg env i tok coid) Q E g''))) E g)"
  by (auto simp: wp_def process_intent_def gw_bind_def Let_def split: prod.splits sum.splits option.splits)

section \<open>Runs\<close>

datatype gateway_op = ProcessIntent gateway_env OrderIntent SignedApprovalToken | Recover recovery_env | Restart

text \<open>A restart loses everything the process held in memory.\<close>

definition gw_step :: "gateway_config \<Rightarrow> OrderGateway \<Rightarrow> gateway_op \<Rightarrow> OrderGateway" where
  "gw_step cfg g op =
     (case op of
        ProcessIntent env i tok \<Rightarrow> snd (process_intent cfg env i tok g)
      | Recover env \<Rightarrow> snd (recover cfg env g)
      | Restart \<Rightarrow> OrderGateway_new cfg (gw_log g) (gw_wal g) (gw_venue g))"

section \<open>The journal\<close>

definition wal_good :: "digest_fn \<Rightarrow> string option \<Rightarrow> bool" where
  "wal_good sha file = (\<exists>cs. file = foldl (wal_exec sha) None cs)"

definition journal :: "digest_fn \<Rightarrow> string option \<Rightarrow> WalRecord list" where
  "journal sha file = (case wal_read_all sha file of Inr rs \<Rightarrow> rs | Inl _ \<Rightarrow> [])"

lemma wal_good_None [simp]: "wal_good sha None" "journal sha None = []"
  by (auto simp: wal_good_def journal_def wal_read_all_def intro: exI [of _ "[]"])

lemma wal_good_exec [simp]:
  assumes "wal_good sha file"
  shows "wal_good sha (wal_exec sha file c)" "journal sha (wal_exec sha file c) = journal sha file @ [wal_record_of sha c]"
proof -
  obtain cs where cs: "file = foldl (wal_exec sha) None cs" using assms by (auto simp: wal_good_def)
  then have e: "wal_exec sha file c = foldl (wal_exec sha) None (cs @ [c])" by simp
  show "wal_good sha (wal_exec sha file c)" unfolding e wal_good_def by blast
  show "journal sha (wal_exec sha file c) = journal sha file @ [wal_record_of sha c]"
    unfolding journal_def e unfolding cs wal_run_read by simp
qed

lemma wal_good_read: "wal_good sha file \<Longrightarrow> wal_read_all sha file = Inr (journal sha file)"
  using wal_run_read by (auto simp: wal_good_def journal_def)

definition intent_journalled :: "gateway_config \<Rightarrow> OrderGateway \<Rightarrow> OrderIntent \<Rightarrow> bool" where
  "intent_journalled cfg g i = (wal_record_of (cfg_sha cfg) (AppendIntent i) \<in> set (journal (cfg_sha cfg) (gw_wal g)))"

lemma wal_record_of_simps [simp]:
  "wr_kind (wal_record_of sha (AppendIntent i)) = KIND_INTENT" "wr_kind (wal_record_of sha (AppendAck c oid f)) = KIND_ACK"
  "wr_client_order_id (wal_record_of sha (AppendAck c oid f)) = c"
  by (simp_all add: wal_record_of_def)

lemma kinds_differ [simp]: "KIND_INTENT \<noteq> KIND_ACK" "KIND_ACK \<noteq> KIND_INTENT"
  by (simp_all add: KIND_ACK_def KIND_INTENT_def)

definition acked_of :: "WalRecord list \<Rightarrow> string set" where
  "acked_of rs = wr_client_order_id ` set (filter (\<lambda>r. wr_kind r = KIND_ACK) rs)"

lemma acked_of_simps [simp]:
  "acked_of [] = {}" "acked_of (rs @ ss) = acked_of rs \<union> acked_of ss"
  "acked_of (wal_record_of sha (AppendIntent i) # rs) = acked_of rs"
  "acked_of (wal_record_of sha (AppendAck c oid f) # rs) = insert c (acked_of rs)"
  by (auto simp: acked_of_def)

lemma acked_of_iff: "c \<in> acked_of rs \<longleftrightarrow> (\<exists>r \<in> set rs. wr_kind r = KIND_ACK \<and> wr_client_order_id r = c)"
  by (auto simp: acked_of_def)

definition acked_ids :: "gateway_config \<Rightarrow> OrderGateway \<Rightarrow> string set" where
  "acked_ids cfg g = acked_of (journal (cfg_sha cfg) (gw_wal g))"

text \<open>What only reads or extends the ledger and the memory leaves the rest of the world as it is.\<close>

definition same_world :: "OrderGateway \<Rightarrow> OrderGateway \<Rightarrow> bool" where
  "same_world g g' = (gw_registry g' = gw_registry g \<and> gw_wal g' = gw_wal g \<and> gw_venue g' = gw_venue g \<and>
     prefix (gw_log g) (gw_log g') \<and> (\<forall>c. dict_get (gw_acks g) c \<noteq> None \<longrightarrow> dict_get (gw_acks g') c \<noteq> None))"

lemma same_world_refl [simp]: "same_world g g"
  by (simp add: same_world_def)

lemma same_world_trans: "same_world g g' \<Longrightarrow> same_world g' g'' \<Longrightarrow> same_world g g''"
  unfolding same_world_def by (auto intro: prefix_order.trans)

section \<open>Recovery\<close>

definition recovering :: "OrderGateway \<Rightarrow> OrderGateway \<Rightarrow> bool" where
  "recovering g g' = (same_world g g' \<and> gw_halted g' = gw_halted g \<and> gw_accepting_approvals g' = gw_accepting_approvals g)"

lemma recovering_refl [simp]: "recovering g g"
  by (simp add: recovering_def)

lemma recovering_trans: "recovering g g' \<Longrightarrow> recovering g' g'' \<Longrightarrow> recovering g g''"
  unfolding recovering_def by (auto intro: same_world_trans)

lemma complete_ledger_recovering:
  "wp (complete_ledger_to_acked fault coid st) (\<lambda>_ g'. recovering g g' \<and> gw_acks g' = gw_acks g) (recovering g) g"
  by (simp add: complete_ledger_to_acked_def wp_rules recovering_def same_world_def)

lemma track_recovering [simp]:
  "recovering g (track oid t now i g') \<longleftrightarrow> recovering g g'" "recovering g (add_inflight ticker sz g') \<longleftrightarrow> recovering g g'"
  "gw_acks (track oid t now i g') = gw_acks g'" "gw_acks (add_inflight ticker sz g') = gw_acks g'"
  by (simp_all add: track_def add_inflight_def recovering_def same_world_def)

lemma rehydrate_ack_recovering:
  "wp (rehydrate_ack env intents open_ids states r)
     (\<lambda>_ g'. recovering g g' \<and> dict_get (gw_acks g') (wr_client_order_id r) \<noteq> None) (recovering g) g"
proof -
  let ?c = "wr_client_order_id r"
  define g1 where "g1 = g\<lparr>gw_acks := dict_set ?c \<lparr>ack_order_id = wr_order_id r, ack_filled = wr_filled r\<rparr> (gw_acks g)\<rparr>"
  have g1: "recovering g g1" "dict_get (gw_acks g1) ?c \<noteq> None"
    by (simp_all add: g1_def recovering_def same_world_def dict.get_set)
  have "wp (complete_ledger_to_acked (rec_fault env) ?c (dict_get states ?c))
     (\<lambda>_. wp (case (wr_order_id r, dict_get intents ?c) of
          (Some oid, Some i) \<Rightarrow> (if oid \<in> open_ids then track_recovered_order env ?c oid i (val (wr_filled r)) else gw_return ())
        | _ \<Rightarrow> gw_return ()) (\<lambda>_ g'. recovering g g' \<and> dict_get (gw_acks g') ?c \<noteq> None) (recovering g)) (recovering g) g1"
  proof (rule wp_mono [OF complete_ledger_recovering])
    fix g' assume "recovering g1 g'"
    then show "recovering g g'" using g1(1) recovering_trans by blast
  next
    fix x g' assume h: "recovering g1 g' \<and> gw_acks g' = gw_acks g1"
    then have "recovering g g'" using g1(1) recovering_trans by blast
    with h g1(2) show "wp (case (wr_order_id r, dict_get intents ?c) of
          (Some oid, Some i) \<Rightarrow> (if oid \<in> open_ids then track_recovered_order env ?c oid i (val (wr_filled r)) else gw_return ())
        | _ \<Rightarrow> gw_return ()) (\<lambda>_ g'. recovering g g' \<and> dict_get (gw_acks g') ?c \<noteq> None) (recovering g) g'"
      by (auto simp: track_recovered_order_def wp_rules split: option.split sum.split)
  qed
  then show ?thesis unfolding rehydrate_ack_def Let_def by (simp add: wp_basic g1_def)
qed

lemma rehydrate_acks_recovering:
  "wp (rehydrate_acks env intents open_ids states rs)
     (\<lambda>_ g'. recovering g g' \<and> (\<forall>r \<in> set rs. wr_kind r = KIND_ACK \<longrightarrow> dict_get (gw_acks g') (wr_client_order_id r) \<noteq> None))
     (recovering g) g"
proof (induction rs arbitrary: g)
  case Nil
  show ?case by (simp add: wp_rules)
next
  case (Cons r rs)
  let ?G = "\<lambda>rs g0 g'. recovering g0 g' \<and> (\<forall>r \<in> set rs. wr_kind r = KIND_ACK \<longrightarrow> dict_get (gw_acks g') (wr_client_order_id r) \<noteq> None)"
  show ?case
  proof (cases "wr_kind r \<noteq> KIND_ACK \<or> dict_get (gw_acks g) (wr_client_order_id r) \<noteq> None")
    case True
    have skip: "?G rs g g' \<Longrightarrow> ?G (r # rs) g g'" for g' using True by (auto simp: recovering_def same_world_def)
    have "wp (rehydrate_acks env intents open_ids states (r # rs)) Q E g = wp (rehydrate_acks env intents open_ids states rs) Q E g" for Q E
      using True by (simp add: wp_def)
    then show ?thesis using wp_mono [OF Cons.IH [of g] skip] by (simp del: rehydrate_acks.simps)
  next
    case False
    have step: "wp (rehydrate_acks env intents open_ids states (r # rs)) Q E g =
        wp (rehydrate_ack env intents open_ids states r) (\<lambda>_. wp (rehydrate_acks env intents open_ids states rs) (\<lambda>n. Q (n + 1)) E) E g" for Q E
      using False by (simp add: wp_def gw_bind_def gw_return_def split: prod.splits sum.splits)
    show ?thesis
      unfolding step
    proof (rule wp_mono [OF rehydrate_ack_recovering])
      fix x g1 assume g1: "recovering g g1 \<and> dict_get (gw_acks g1) (wr_client_order_id r) \<noteq> None"
      show "wp (rehydrate_acks env intents open_ids states rs) (\<lambda>n g'. ?G (r # rs) g g') (recovering g) g1"
      proof (rule wp_mono [OF Cons.IH])
        fix y g' assume h: "?G rs g1 g'"
        then have "recovering g g'" using g1 recovering_trans by blast
        moreover have "dict_get (gw_acks g') (wr_client_order_id r) \<noteq> None"
          using g1 h unfolding recovering_def same_world_def by blast
        ultimately show "?G (r # rs) g g'" using h by simp
      next
        fix g' assume "recovering g1 g'"
        then show "recovering g g'" using g1 recovering_trans by blast
      qed
    qed
  qed
qed

text \<open>How recovery ends: it accepts only after a clean reconciliation, and then every acknowledged order of
  the journal is in the cache and every resting order is tracked.\<close>

definition clean_recovery :: "gateway_config \<Rightarrow> recovery_env \<Rightarrow> OrderGateway \<Rightarrow> OrderGateway \<Rightarrow> bool" where
  "clean_recovery cfg env g g' =
     (\<not> (cfg_ledger_reader cfg \<and> ledger_shows_halt (rec_records env)) \<and>
      (cfg_wal cfg \<longrightarrow> (\<forall>rs. wal_read_all (cfg_sha cfg) (gw_wal g) = Inr rs \<longrightarrow>
         (\<forall>r \<in> set rs. wr_kind r = KIND_ACK \<longrightarrow> dict_get (gw_acks g') (wr_client_order_id r) \<noteq> None))) \<and>
      (cfg_reconciliation_source cfg \<longrightarrow> (\<forall>ord \<in> set (rec_open_orders env). oo_id ord \<in> fst ` set (gw_tracked g'))))"

lemma build_unaccounted_None:
  "build_unaccounted_halt os ids intents = None \<longleftrightarrow> (\<forall>ord \<in> set os. oo_id ord \<in> ids)"
  by (induction os) (auto simp: Let_def)

lemma wp_option:
  "wp (\<lambda>g. case h g of None \<Rightarrow> B g | Some e \<Rightarrow> A e g) Q E = (\<lambda>g. case h g of None \<Rightarrow> wp B Q E g | Some e \<Rightarrow> wp (A e) Q E g)"
  by (rule ext) (simp add: wp_def split: option.split)

lemma wp_branch:
  "wp (\<lambda>g. if b then (Inr x, h g) else (case f g of Inl e \<Rightarrow> (Inl (k e), g) | Inr ws \<Rightarrow> m ws g)) Q E g =
     (if b then Q x (h g) else (case f g of Inl e \<Rightarrow> E g | Inr ws \<Rightarrow> wp (m ws) Q E g))"
  by (simp add: wp_def split: sum.split)

lemma wp_recover:
  assumes "recovery_wired cfg"
  defines "records \<equiv> \<lambda>env. if cfg_ledger_reader cfg then rec_records env else []"
    and "open_orders \<equiv> \<lambda>env. if cfg_reconciliation_source cfg then rec_open_orders env else []"
  shows "wp (recover cfg env) Q E g =
    (if ledger_shows_halt (records env) then Q \<lparr>orders_reconciled = 0, rr_halted = True\<rparr> (mark_halted g)
     else (case (if cfg_wal cfg then wal_read_all (cfg_sha cfg) (gw_wal g) else Inr []) of
         Inl e \<Rightarrow> E g
       | Inr ws \<Rightarrow> wp (rehydrate_from_wal env (records env) ws (open_orders env)) (\<lambda>n g'.
           case build_unaccounted_halt (open_orders env) (fst ` set (gw_tracked g')) (pending_intents ws) of
             Some e \<Rightarrow> wp (ledger_record (rec_fault env) e)
               (\<lambda>_ g. Q \<lparr>orders_reconciled = n, rr_halted = True\<rparr> (mark_halted g)) E g'
           | None \<Rightarrow> wp (ledger_record (rec_fault env) (RecoveryCompleted GW_COMPONENT n False))
               (\<lambda>_ g. Q \<lparr>orders_reconciled = n, rr_halted = False\<rparr> (g\<lparr>gw_accepting_approvals := True\<rparr>)) E g') E g))"
proof -
  have "recover cfg env = (\<lambda>g. if ledger_shows_halt (records env) then (Inr \<lparr>orders_reconciled = 0, rr_halted = True\<rparr>, mark_halted g)
      else (case (if cfg_wal cfg then wal_read_all (cfg_sha cfg) (gw_wal g) else Inr []) of
            Inl e \<Rightarrow> (Inl (WalRead e), g)
          | Inr ws \<Rightarrow>
               gw_bind (rehydrate_from_wal env (records env) ws (open_orders env)) (\<lambda>n g'.
                 case build_unaccounted_halt (open_orders env) (fst ` set (gw_tracked g')) (pending_intents ws) of
                   Some e \<Rightarrow> gw_bind (ledger_record (rec_fault env) e) (\<lambda>_. gw_bind (gw_modify mark_halted) (\<lambda>_.
                       gw_return \<lparr>orders_reconciled = n, rr_halted = True\<rparr>)) g'
                 | None \<Rightarrow> gw_bind (ledger_record (rec_fault env) (RecoveryCompleted GW_COMPONENT n False)) (\<lambda>_.
                     gw_bind (gw_modify (\<lambda>g. g\<lparr>gw_accepting_approvals := True\<rparr>)) (\<lambda>_.
                       gw_return \<lparr>orders_reconciled = n, rr_halted = False\<rparr>)) g') g))"
    using assms(1) unfolding records_def open_orders_def by (intro ext) (simp only: recover_def Let_def not_True_eq_False if_False)
  then show ?thesis by (simp only: wp_branch wp_bind wp_option wp_modify wp_return)
qed

lemma recover_outcome:
  assumes "recovery_wired cfg"
  shows "wp (recover cfg env)
    (\<lambda>rep g'. same_world g g' \<and>
       (if rr_halted rep then gw_halted g' \<and> \<not> gw_accepting_approvals g'
        else gw_halted g' = gw_halted g \<and> gw_accepting_approvals g' \<and> clean_recovery cfg env g g'))
    (recovering g) g"
proof (cases "ledger_shows_halt (if cfg_ledger_reader cfg then rec_records env else [])")
  case True
  then show ?thesis by (simp add: wp_recover [OF assms] mark_halted_def same_world_def)
next
  case shown: False
  show ?thesis
  proof (cases "if cfg_wal cfg then wal_read_all (cfg_sha cfg) (gw_wal g) else Inr []")
    case (Inl e)
    with shown show ?thesis by (simp add: wp_recover [OF assms])
  next
    case (Inr ws)
    let ?open = "if cfg_reconciliation_source cfg then rec_open_orders env else []"
    let ?states = "fold_ledger_states (if cfg_ledger_reader cfg then rec_records env else [])"
    note re = rehydrate_acks_recovering [of env "journalled_intents ws" "oo_id ` set ?open" _ ws g]
    show ?thesis
    proof (cases ?states)
      case (Inl e)
      then show ?thesis using shown Inr by (simp add: wp_recover [OF assms] rehydrate_from_wal_def wp_raise)
    next
      case (Inr states)
      let ?C = "\<lambda>g'. recovering g g' \<and> (\<forall>r \<in> set ws. wr_kind r = KIND_ACK \<longrightarrow> dict_get (gw_acks g') (wr_client_order_id r) \<noteq> None)"
      have clean: "clean_recovery cfg env g (g'\<lparr>gw_log := l, gw_accepting_approvals := True\<rparr>)"
        if "?C g'" "build_unaccounted_halt ?open (fst ` set (gw_tracked g')) (pending_intents ws) = None" for g' l
        using that shown \<open>(if cfg_wal cfg then _ else _) = Inr ws\<close>
        by (auto simp: clean_recovery_def build_unaccounted_None split: if_splits)
      show ?thesis
        unfolding wp_recover [OF assms] rehydrate_from_wal_def
        unfolding \<open>(if cfg_wal cfg then _ else _) = Inr ws\<close> Inr sum.case if_not_P [OF shown]
        by (rule wp_mono [OF re])
          (auto simp: wp_ledger mark_halted_def clean recovering_def same_world_def split: option.split)
    qed
  qed
qed

section \<open>Invariants\<close>

text \<open>An invariant of \<open>process_intent\<close>: it survives a refusal's ledger entry, the consumption of a token, and
  a submission of an intent that is neither cached nor stopped by a gate.\<close>

lemma process_intent_inv:
  fixes cfg env i tok g
  defines "coid \<equiv> client_order_id (cfg_sha cfg) i"
    and "g1 \<equiv> g\<lparr>gw_registry := snd (verify_and_consume (cfg_hmac cfg) registry_consume tok i (cfg_key cfg) (env_now env) (gw_registry g))\<rparr>"
    and "ok \<equiv> fst (verify_and_consume (cfg_hmac cfg) registry_consume tok i (cfg_key cfg) (env_now env) (gw_registry g)) = VR_OK"
  assumes "I g" and "\<And>e. I (g\<lparr>gw_log := gw_log g @ [e]\<rparr>)"
    and "ok \<Longrightarrow> dict_get (gw_acks g) coid \<noteq> None \<Longrightarrow> I g1"
    and "ok \<Longrightarrow> \<not> gw_halted g \<Longrightarrow> gw_accepting_approvals g \<Longrightarrow> dict_get (gw_acks g) coid = None \<Longrightarrow>
      (cfg_position_source cfg \<and> is_closing_action (action i) \<Longrightarrow>
         is_close_admissible (val (order_size i)) (held_for_ticker (env_positions env) (market_ticker i))
           (inflight_for g (market_ticker i))) \<Longrightarrow> wp (submit_new cfg env i tok coid) (\<lambda>_. I) I g1"
  shows "I (snd (process_intent cfg env i tok g))"
proof -
  have "\<not> ok \<Longrightarrow> g1 = g"
    using mem_registry.verify_and_consume_not_ok_keeps [of "cfg_hmac cfg" tok i "cfg_key cfg" "env_now env" "gw_registry g"]
    by (simp add: ok_def g1_def)
  then show ?thesis
    using assms unfolding wp_final [symmetric] wp_process_intent wp_gate wp_ledger
    by (auto simp: Let_def coid_def g1_def ok_def split: option.splits)
qed

subsection \<open>Every order was authorised\<close>

definition token_tag :: "gateway_config \<Rightarrow> SignedApprovalToken \<Rightarrow> string" where
  "token_tag cfg tok = cfg_hmac cfg (cfg_key cfg) (canonical_claims_bytes (claims tok))"

definition authorised :: "gateway_config \<Rightarrow> OrderIntent \<times> SignedApprovalToken \<Rightarrow> bool" where
  "authorised cfg p = (intent_matches_claims (fst p) (claims (snd p)) \<and>
     bytes_fromhex (signature_hex (snd p)) = Inr (token_tag cfg (snd p)))"

definition auth_inv :: "gateway_config \<Rightarrow> OrderGateway \<Rightarrow> bool" where
  "auth_inv cfg g = (list_all (authorised cfg) (gw_venue g) \<and> distinct (map (token_tag cfg \<circ> snd) (gw_venue g)) \<and>
     (\<forall>p \<in> set (gw_venue g). bytes_hex (token_tag cfg (snd p)) \<in> gw_registry g))"

lemma same_inv_simps [simp]:
  "gw_venue (track oid t now i g) = gw_venue g" "gw_registry (track oid t now i g) = gw_registry g"
  "gw_log (track oid t now i g) = gw_log g" "gw_wal (track oid t now i g) = gw_wal g"
  "gw_halted (track oid t now i g) = gw_halted g" "gw_accepting_approvals (track oid t now i g) = gw_accepting_approvals g"
  "gw_inflight_closing (track oid t now i g) = gw_inflight_closing g"
  "gw_venue (add_inflight ticker sz g) = gw_venue g" "gw_registry (add_inflight ticker sz g) = gw_registry g"
  "gw_log (add_inflight ticker sz g) = gw_log g" "gw_wal (add_inflight ticker sz g) = gw_wal g"
  "gw_halted (add_inflight ticker sz g) = gw_halted g"
  "gw_accepting_approvals (add_inflight ticker sz g) = gw_accepting_approvals g"
  by (simp_all add: track_def add_inflight_def)

lemma process_auth: "auth_inv cfg g \<Longrightarrow> auth_inv cfg (snd (process_intent cfg env i tok g))"
proof (rule process_intent_inv)
  let ?v = "verify_and_consume (cfg_hmac cfg) registry_consume tok i (cfg_key cfg) (env_now env) (gw_registry g)"
  assume inv: "auth_inv cfg g"
  have used: "fst ?v = VR_OK \<Longrightarrow> snd ?v = insert (bytes_hex (token_tag cfg tok)) (gw_registry g)"
    using mem_registry.verify_and_consume_used [of "cfg_hmac cfg" tok i "cfg_key cfg" "env_now env" "gw_registry g"]
    by (simp add: token_tag_def)
  have new: "fst ?v = VR_OK \<Longrightarrow> authorised cfg (i, tok) \<and> bytes_hex (token_tag cfg tok) \<notin> gw_registry g"
    using mem_registry.verify_and_consume_ok_iff [of "cfg_hmac cfg" tok i "cfg_key cfg" "env_now env" "gw_registry g"]
    by (simp add: authorised_def token_tag_def)
  show "auth_inv cfg g" "auth_inv cfg (g\<lparr>gw_log := gw_log g @ [e]\<rparr>)" for e using inv by (simp_all add: auth_inv_def)
  assume ok: "fst ?v = VR_OK"
  show "auth_inv cfg (g\<lparr>gw_registry := snd ?v\<rparr>)" using inv used [OF ok] by (auto simp: auth_inv_def)
  have tag: "token_tag cfg tok \<notin> (token_tag cfg \<circ> snd) ` set (gw_venue g)" using inv new [OF ok] by (auto simp: auth_inv_def)
  define g1 where "g1 = g\<lparr>gw_registry := snd ?v\<rparr>"
  have before: "auth_inv cfg g'" if "gw_venue g' = gw_venue g" "gw_registry g' = snd ?v" for g'
    using that inv used [OF ok] by (auto simp: auth_inv_def)
  have after: "auth_inv cfg g'" if "gw_venue g' = gw_venue g @ [(i, tok)]" "gw_registry g' = snd ?v" for g'
    using that inv used [OF ok] new [OF ok] tag by (auto simp: auth_inv_def)
  show "wp (submit_new cfg env i tok (client_order_id (cfg_sha cfg) i)) (\<lambda>_. auth_inv cfg) (auth_inv cfg) (g\<lparr>gw_registry := snd ?v\<rparr>)"
    unfolding wp_submit_new wal_append_intent_def wal_append_ack_def
    by (simp add: wp_rules before after Let_def split: option.split sum.split)
qed

lemma recover_world: "same_world g (snd (recover cfg env g))"
proof (cases "recovery_wired cfg")
  case True
  have "wp (recover cfg env) (\<lambda>_. same_world g) (same_world g) g"
    by (rule wp_mono [OF recover_outcome [OF True, of env g]]) (auto simp: recovering_def)
  then show ?thesis by (simp only: wp_final)
qed (simp add: recover_def)

definition within_process :: "gateway_op \<Rightarrow> bool" where
  "within_process op = (op \<noteq> Restart)"

interpretation auth: guarded_machine "gw_step cfg" "auth_inv cfg" within_process for cfg
proof
  fix g op assume "auth_inv cfg g" and "within_process op"
  then show "auth_inv cfg (gw_step cfg g op)"
    using recover_world [of g cfg] process_auth [of cfg g]
    by (cases op) (auto simp: gw_step_def within_process_def auth_inv_def same_world_def)
qed

subsection \<open>Nothing is placed before it is written down\<close>

definition written_inv :: "gateway_config \<Rightarrow> OrderGateway \<Rightarrow> bool" where
  "written_inv cfg g = (wal_good (cfg_sha cfg) (gw_wal g) \<and>
     (\<forall>p \<in> set (gw_venue g).
        transition_event (client_order_id (cfg_sha cfg) (fst p)) OS_APPROVED REQUEST_SUBMISSION SUBMISSION_REQUESTED \<in> set (gw_log g) \<and>
        (cfg_wal cfg \<longrightarrow> intent_journalled cfg g (fst p))))"

lemma process_written: "written_inv cfg g \<Longrightarrow> written_inv cfg (snd (process_intent cfg env i tok g))"
proof (rule process_intent_inv)
  assume inv: "written_inv cfg g"
  show "written_inv cfg g" "written_inv cfg (g\<lparr>gw_log := gw_log g @ [e]\<rparr>)" "written_inv cfg (g\<lparr>gw_registry := r\<rparr>)" for e r
    using inv by (auto simp: written_inv_def intent_journalled_def)
  show "wp (submit_new cfg env i tok (client_order_id (cfg_sha cfg) i)) (\<lambda>_. written_inv cfg) (written_inv cfg) (g\<lparr>gw_registry := r\<rparr>)" for r
    unfolding wp_submit_new wal_append_intent_def wal_append_ack_def using inv
    by (simp add: wp_rules Let_def written_inv_def intent_journalled_def split: option.split sum.split)
qed

lemma same_world_written: "same_world g g' \<Longrightarrow> written_inv cfg g \<Longrightarrow> written_inv cfg g'"
  unfolding same_world_def written_inv_def intent_journalled_def by (auto dest: set_mono_prefix)

interpretation written: invariant_machine "gw_step cfg" "written_inv cfg" for cfg
proof
  fix g op assume "written_inv cfg g"
  then show "written_inv cfg (gw_step cfg g op)"
    using same_world_written [OF recover_world] process_written [of cfg g]
    by (cases op) (auto simp: gw_step_def written_inv_def OrderGateway_new_def intent_journalled_def)
qed

subsection \<open>No order is placed twice\<close>

definition once_inv :: "gateway_config \<Rightarrow> OrderGateway \<Rightarrow> bool" where
  "once_inv cfg g = (wal_good (cfg_sha cfg) (gw_wal g) \<and>
     distinct (map (client_order_id (cfg_sha cfg) \<circ> fst) (gw_venue g)) \<and>
     (\<forall>p \<in> set (gw_venue g). client_order_id (cfg_sha cfg) (fst p) \<in> acked_ids cfg g) \<and>
     (gw_accepting_approvals g \<longrightarrow> (\<forall>c \<in> acked_ids cfg g. dict_get (gw_acks g) c \<noteq> None)))"

text \<open>The acknowledgement of a placed order is journalled, and a submission that raises has not reached
  the venue.\<close>

definition ack_durable :: "gateway_op \<Rightarrow> bool" where
  "ack_durable op =
     (case op of
        ProcessIntent env i tok \<Rightarrow>
          (\<forall>c oid f. env_fault env (WalWrite (AppendAck c oid f)) = Written) \<and> chosen_submit env i tok \<noteq> SubmitFailed True
      | _ \<Rightarrow> True)"

lemma process_once:
  assumes "cfg_wal cfg" and "ack_durable (ProcessIntent env i tok)" and "once_inv cfg g"
  shows "once_inv cfg (snd (process_intent cfg env i tok g))"
proof (rule process_intent_inv)
  let ?c = "client_order_id (cfg_sha cfg) i"
  show "once_inv cfg g" "once_inv cfg (g\<lparr>gw_log := gw_log g @ [e]\<rparr>)" "once_inv cfg (g\<lparr>gw_registry := r\<rparr>)" for e r
    using assms(3) by (auto simp: once_inv_def acked_ids_def)
  assume acc: "gw_accepting_approvals g" and fresh: "dict_get (gw_acks g) ?c = None"
  have good: "wal_good (cfg_sha cfg) (gw_wal g)" using assms(3) by (simp add: once_inv_def)
  have new: "?c \<notin> acked_ids cfg g" using assms(3) acc fresh by (auto simp: once_inv_def)
  then have notin: "?c \<notin> (client_order_id (cfg_sha cfg) \<circ> fst) ` set (gw_venue g)" using assms(3) by (auto simp: once_inv_def)
  have before: "once_inv cfg g'" if "gw_venue g' = gw_venue g" "gw_acks g' = gw_acks g"
    "gw_accepting_approvals g' = gw_accepting_approvals g"
    "gw_wal g' = gw_wal g \<or> gw_wal g' = wal_exec (cfg_sha cfg) (gw_wal g) (AppendIntent i)" for g'
    using that assms(3) good by (auto simp: once_inv_def acked_ids_def)
  have after: "once_inv cfg g'" if "gw_venue g' = gw_venue g @ [(i, tok)]" "gw_acks g' = dict_set ?c ack (gw_acks g)"
    "gw_wal g' = wal_exec (cfg_sha cfg) (wal_exec (cfg_sha cfg) (gw_wal g) (AppendIntent i)) (AppendAck ?c (ack_order_id ack) (ack_filled ack))"
    for g' ack
    using that assms(3) good notin acc by (auto simp: once_inv_def acked_ids_def dict.get_set)
  show "wp (submit_new cfg env i tok ?c) (\<lambda>_. once_inv cfg) (once_inv cfg) (g\<lparr>gw_registry := r\<rparr>)" for r
    unfolding wp_submit_new wal_append_intent_def wal_append_ack_def using assms(1,2)
    by (simp add: wp_rules Let_def before after ack_durable_def split: option.split sum.split)
qed

lemma recover_once:
  assumes "cfg_wal cfg" and "once_inv cfg g"
  shows "once_inv cfg (snd (recover cfg env g))"
proof -
  have w: "recovery_wired cfg" using assms(1) by (simp add: recovery_wired_def)
  have good: "wal_read_all (cfg_sha cfg) (gw_wal g) = Inr (journal (cfg_sha cfg) (gw_wal g))"
    using assms(2) wal_good_read by (simp add: once_inv_def)
  have "wp (recover cfg env) (\<lambda>_. once_inv cfg) (once_inv cfg) g"
  proof (rule wp_mono [OF recover_outcome [OF w, of env g]])
    fix g' assume "recovering g g'"
    then show "once_inv cfg g'" using assms(2) by (auto simp: recovering_def same_world_def once_inv_def acked_ids_def)
  next
    fix rep g' assume "same_world g g' \<and>
       (if rr_halted rep then gw_halted g' \<and> \<not> gw_accepting_approvals g'
        else gw_halted g' = gw_halted g \<and> gw_accepting_approvals g' \<and> clean_recovery cfg env g g')"
    then show "once_inv cfg g'"
      using assms good by (auto simp: same_world_def once_inv_def acked_ids_def clean_recovery_def acked_of_iff split: if_splits)
  qed
  then show ?thesis by (simp only: wp_final)
qed

lemma step_once: "cfg_wal cfg \<Longrightarrow> once_inv cfg g \<Longrightarrow> ack_durable op \<Longrightarrow> once_inv cfg (gw_step cfg g op)"
  using process_once [of cfg _ _ _ g] recover_once [of cfg g]
  by (cases op) (auto simp: gw_step_def once_inv_def OrderGateway_new_def acked_ids_def recovery_wired_def)

interpretation once: guarded_machine "gw_step cfg" "\<lambda>g. cfg_wal cfg \<longrightarrow> once_inv cfg g" ack_durable for cfg
  by unfold_locales (auto intro: step_once)

subsection \<open>Closes stay within the position\<close>

definition close_total :: "string \<Rightarrow> (OrderIntent \<times> SignedApprovalToken) list \<Rightarrow> int" where
  "close_total t ps = (\<Sum>p \<leftarrow> filter (\<lambda>p. market_ticker (fst p) = t \<and> is_closing_action (action (fst p))) ps. val (order_size (fst p)))"

lemma close_total_simps [simp]:
  "close_total t [] = 0"
  "close_total t (ps @ [(i, tok)]) =
     close_total t ps + (if market_ticker i = t \<and> is_closing_action (action i) then val (order_size i) else 0)"
  by (simp_all add: close_total_def)

definition reduce_inv :: "(string \<Rightarrow> int) \<Rightarrow> OrderGateway \<Rightarrow> bool" where
  "reduce_inv H g = (\<forall>t. inflight_for g t = close_total t (gw_venue g) \<and> close_total t (gw_venue g) \<le> max (H t) 0)"

text \<open>A call in which no write fails, no submission raises and an outcome can be routed, and in which the
  position source reports at most \<open>H\<close> for the market.\<close>

definition undisturbed :: "(string \<Rightarrow> int) \<Rightarrow> gateway_op \<Rightarrow> bool" where
  "undisturbed H op =
     (case op of
        ProcessIntent env i tok \<Rightarrow>
          (\<forall>w. env_fault env w = Written) \<and> chosen_submit env i tok \<noteq> SubmitFailed True \<and>
          intent_outcome i \<in> {''yes'', ''no''} \<and>
          held_for_ticker (env_positions env) (market_ticker i) \<le> H (market_ticker i)
      | _ \<Rightarrow> False)"

lemma inflight_for_simps [simp]:
  "inflight_for (track oid t now i g) ticker = inflight_for g ticker"
  "inflight_for (g\<lparr>gw_log := l\<rparr>) ticker = inflight_for g ticker" "inflight_for (g\<lparr>gw_registry := r\<rparr>) ticker = inflight_for g ticker"
  "inflight_for (g\<lparr>gw_venue := v\<rparr>) ticker = inflight_for g ticker" "inflight_for (g\<lparr>gw_wal := w\<rparr>) ticker = inflight_for g ticker"
  "inflight_for (g\<lparr>gw_acks := a\<rparr>) ticker = inflight_for g ticker" "inflight_for (g\<lparr>gw_halted := h\<rparr>) ticker = inflight_for g ticker"
  "inflight_for (add_inflight ticker' sz g) ticker = inflight_for g ticker + (if ticker = ticker' then sz else 0)"
  by (simp_all add: inflight_for_def track_def add_inflight_def dict.get_set)

lemma outcome_to_side_ok: "oc \<in> {''yes'', ''no''} \<Longrightarrow> \<exists>side. outcome_to_side oc = Inr side"
  by (auto simp: outcome_to_side_def)

lemma process_reduce:
  assumes "cfg_position_source cfg" and "undisturbed H (ProcessIntent env i tok)" and "reduce_inv H g"
  shows "reduce_inv H (snd (process_intent cfg env i tok g))"
proof (rule process_intent_inv)
  let ?t = "market_ticker i" and ?held = "held_for_ticker (env_positions env) (market_ticker i)"
  show "reduce_inv H g" "reduce_inv H (g\<lparr>gw_log := gw_log g @ [e]\<rparr>)" "reduce_inv H (g\<lparr>gw_registry := r\<rparr>)" for e r
    using assms(3) by (simp_all add: reduce_inv_def)
  assume adm: "cfg_position_source cfg \<and> is_closing_action (action i) \<Longrightarrow>
    is_close_admissible (val (order_size i)) ?held (inflight_for g ?t)"
  have held: "?held \<le> H ?t" using assms(2) by (simp add: undisturbed_def)
  have fit: "is_closing_action (action i) \<Longrightarrow> close_total ?t (gw_venue g) + val (order_size i) \<le> max (H ?t) 0"
    using adm assms(1,3) held by (auto simp: reduce_inv_def is_close_admissible_def closeable_centis_def max_def split: if_splits)
      (smt (verit))+
  obtain side where side: "outcome_to_side (intent_outcome i) = Inr side"
    using assms(2) outcome_to_side_ok by (auto simp: undisturbed_def)
  have before: "reduce_inv H g'" if "gw_venue g' = gw_venue g" "gw_inflight_closing g' = gw_inflight_closing g" for g'
    using that assms(3) by (simp add: reduce_inv_def inflight_for_def)
  have after: "reduce_inv H g'" if "gw_venue g' = gw_venue g @ [(i, tok)]"
    "\<And>t. inflight_for g' t = inflight_for g t + (if t = ?t \<and> is_closing_action (action i) then val (order_size i) else 0)" for g'
    using that assms(3) fit by (auto simp: reduce_inv_def)
  show "wp (submit_new cfg env i tok (client_order_id (cfg_sha cfg) i)) (\<lambda>_. reduce_inv H) (reduce_inv H) (g\<lparr>gw_registry := r\<rparr>)" for r
    unfolding wp_submit_new wal_append_intent_def wal_append_ack_def using assms(2)
    by (simp add: wp_rules Let_def before after undisturbed_def side split: option.split)
qed

interpretation reduce: guarded_machine "gw_step cfg" "\<lambda>g. cfg_position_source cfg \<longrightarrow> reduce_inv H g" "undisturbed H" for cfg H
proof
  fix g op assume "cfg_position_source cfg \<longrightarrow> reduce_inv H g" and u: "undisturbed H op"
  then show "cfg_position_source cfg \<longrightarrow> reduce_inv H (gw_step cfg g op)"
    using process_reduce [of cfg H _ _ _ g] by (cases op) (auto simp: gw_step_def undisturbed_def)
qed

subsection \<open>Halting\<close>

lemma recover_halted: "gw_halted g \<Longrightarrow> gw_halted (snd (recover cfg env g))"
proof (cases "recovery_wired cfg")
  case True
  assume h: "gw_halted g"
  have "wp (recover cfg env) (\<lambda>_. gw_halted) gw_halted g"
    by (rule wp_mono [OF recover_outcome [OF True, of env g]]) (use h in \<open>auto simp: recovering_def split: if_splits\<close>)
  then show ?thesis by (simp only: wp_final)
qed (simp add: recover_def)

definition stopped :: "(OrderIntent \<times> SignedApprovalToken) list \<Rightarrow> OrderGateway \<Rightarrow> bool" where
  "stopped venue g = (gw_halted g \<and> gw_venue g = venue)"

interpretation stopped: guarded_machine "gw_step cfg" "stopped venue" within_process for cfg venue
proof
  fix g op assume "stopped venue g" and "within_process op"
  then show "stopped venue (gw_step cfg g op)"
    using recover_halted [of g cfg] recover_world [of g cfg]
    by (cases op) (auto simp: gw_step_def stopped_def within_process_def process_intent_def same_world_def)
qed

lemma event_from_record_type: "event_from_record r = Inr e \<Longrightarrow> event_type e = lr_event_type r"
  by (auto simp: event_from_record_def split: sum.splits json.splits option.splits prod.splits)

lemma records_types: "events_from_records rs = Inr es \<Longrightarrow> map lr_event_type rs = map event_type es"
  by (induction rs arbitrary: es) (auto simp: res_bind_Inr_iff event_from_record_type)

lemma shows_halt_iff:
  "events_from_records rs = Inr es \<Longrightarrow> ledger_shows_halt rs \<longleftrightarrow> (\<exists>e \<in> set es. event_type e \<in> HALT_EVENT_TYPES)"
proof -
  assume "events_from_records rs = Inr es"
  then have "set (map lr_event_type rs) = set (map event_type es)" by (simp only: records_types)
  then show ?thesis by (auto simp: ledger_shows_halt_def list_ex_iff image_iff set_eq_iff) (metis image_iff set_map)+
qed

subsection \<open>The decision\<close>

definition gateway_decision :: "gateway_config \<Rightarrow> gateway_env \<Rightarrow> OrderIntent \<Rightarrow> SignedApprovalToken \<Rightarrow> OrderGateway \<Rightarrow> SubmitOutcome" where
  "gateway_decision cfg env i tok g =
     (let cached = (dict_get (gw_acks g) (client_order_id (cfg_sha cfg) i) \<noteq> None) in
      if \<not> gw_accepting_approvals g then REFUSED_RECOVERY_PENDING
      else if \<not> cached \<and> cfg_status_source cfg \<and> env_status env \<noteq> Some ''open'' then REFUSED_EXCHANGE_STATUS
      else if \<not> cached \<and> cfg_position_source cfg \<and> is_closing_action (action i) \<and>
        val (order_size i) > max (held_for_ticker (env_positions env) (market_ticker i) - inflight_for g (market_ticker i)) 0
      then REFUSED_REDUCE_ONLY
      else if fst (verify_and_consume (cfg_hmac cfg) registry_consume tok i (cfg_key cfg) (env_now env) (gw_registry g)) \<noteq> VR_OK
      then REJECTED_TOKEN
      else if cached then IDEMPOTENT_REPLAY else SO_ACKED)"

definition refusals :: "SubmitOutcome set" where
  "refusals = {REFUSED_RECOVERY_PENDING, REFUSED_EXCHANGE_STATUS, REFUSED_REDUCE_ONLY}"

definition refusal_event :: "gateway_env \<Rightarrow> OrderIntent \<Rightarrow> string \<Rightarrow> OrderGateway \<Rightarrow> SubmitOutcome \<Rightarrow> Event" where
  "refusal_event env i coid g d =
     (if d = REFUSED_RECOVERY_PENDING then SubmissionRefused GW_COMPONENT coid ''recovery_pending''
      else if d = REFUSED_EXCHANGE_STATUS then
        SubmissionRefused GW_COMPONENT coid (case env_status env of Some s \<Rightarrow> s | None \<Rightarrow> ''unknown'')
      else ReduceOnlyRefused GW_COMPONENT coid (market_ticker i) (held_for_ticker (env_positions env) (market_ticker i))
        (inflight_for g (market_ticker i)) (val (order_size i)) ''reduce_only'')"

definition refusal_result :: "gateway_env \<Rightarrow> OrderIntent \<Rightarrow> string \<Rightarrow> OrderGateway \<Rightarrow> SubmitOutcome \<Rightarrow> GatewayResult" where
  "refusal_result env i coid g d =
     (if d = REFUSED_RECOVERY_PENDING then refusal d ''recovery_pending'' coid None
      else if d = REFUSED_EXCHANGE_STATUS then refusal d (case env_status env of Some s \<Rightarrow> s | None \<Rightarrow> ''unknown'') coid None
      else refusal d ''reduce_only'' coid (Some \<lparr>ps_ticker = market_ticker i,
        held_centis = held_for_ticker (env_positions env) (market_ticker i),
        inflight_closing_centis = inflight_for g (market_ticker i), requested_close_centis = val (order_size i)\<rparr>))"

lemma wp_process_decision:
  fixes cfg env i tok g
  defines "coid \<equiv> client_order_id (cfg_sha cfg) i"
    and "v \<equiv> verify_and_consume (cfg_hmac cfg) registry_consume tok i (cfg_key cfg) (env_now env) (gw_registry g)"
    and "d \<equiv> gateway_decision cfg env i tok g"
  shows "wp (process_intent cfg env i tok) Q E g =
    (if gw_halted g then E g
     else if d \<in> refusals then wp (ledger_record (env_fault env) (refusal_event env i coid g d)) (\<lambda>_. Q (refusal_result env i coid g d)) E g
     else if d = REJECTED_TOKEN then
       Q \<lparr>gr_verify_result = Some (fst v), gr_state = INTENT_CREATED, gr_ack = None, gr_outcome = REJECTED_TOKEN,
          gr_refusal_reason = None, gr_client_order_id = coid, gr_position_snapshot = None\<rparr> g
     else if d = IDEMPOTENT_REPLAY then Q (replay coid (the (dict_get (gw_acks g) coid))) (g\<lparr>gw_registry := snd v\<rparr>)
     else wp (submit_new cfg env i tok coid) Q E (g\<lparr>gw_registry := snd v\<rparr>))"
proof -
  have keep: "fst v \<noteq> VR_OK \<Longrightarrow> g\<lparr>gw_registry := snd v\<rparr> = g"
    using mem_registry.verify_and_consume_not_ok_keeps [of "cfg_hmac cfg" tok i "cfg_key cfg" "env_now env" "gw_registry g"]
    by (simp add: v_def)
  let ?adm = "is_close_admissible (val (order_size i)) (held_for_ticker (env_positions env) (market_ticker i)) (inflight_for g (market_ticker i))"
  have adm: "val (order_size i) > max (held_for_ticker (env_positions env) (market_ticker i) - inflight_for g (market_ticker i)) 0 \<longleftrightarrow> \<not> ?adm"
    by (simp add: is_close_admissible_def closeable_centis_def not_le)
  note unfold = wp_process_intent wp_gate Let_def coid_def [symmetric] v_def [symmetric]
  show ?thesis
  proof (cases "gw_accepting_approvals g")
    case False
    then have "d = REFUSED_RECOVERY_PENDING" by (simp add: d_def gateway_decision_def)
    with False show ?thesis by (simp add: unfold refusals_def refusal_event_def refusal_result_def)
  next
    case acc: True
    show ?thesis
    proof (cases "dict_get (gw_acks g) coid")
      case (Some ack)
      have "d = (if fst v \<noteq> VR_OK then REJECTED_TOKEN else IDEMPOTENT_REPLAY)"
        using acc Some by (simp add: d_def gateway_decision_def coid_def v_def)
      with acc Some keep show ?thesis by (simp add: unfold refusals_def)
    next
      case None
      then have d: "d = (if cfg_status_source cfg \<and> env_status env \<noteq> Some ''open'' then REFUSED_EXCHANGE_STATUS
          else if cfg_position_source cfg \<and> is_closing_action (action i) \<and> \<not> ?adm then REFUSED_REDUCE_ONLY
          else if fst v \<noteq> VR_OK then REJECTED_TOKEN else SO_ACKED)"
        using acc unfolding d_def gateway_decision_def Let_def adm coid_def v_def by simp
      with acc None keep show ?thesis
        by (simp add: unfold refusals_def refusal_event_def refusal_result_def)
    qed
  qed
qed

lemma submit_new_returns:
  "wp (submit_new cfg env i tok coid)
     (\<lambda>r g'. gr_outcome r = SO_ACKED \<and> gw_venue g' = gw_venue g @ [(i, tok)] \<and> gr_state r = ACKED \<and>
        (\<exists>ack. gr_ack r = Some ack \<and> dict_get (gw_acks g') coid = Some ack)) (\<lambda>_. True) g"
  unfolding wp_submit_new wal_append_intent_def wal_append_ack_def
  by (simp add: wp_rules Let_def dict.get_set split: option.split sum.split)

lemma decision_cached: "gateway_decision cfg env i tok g = IDEMPOTENT_REPLAY \<Longrightarrow> dict_get (gw_acks g) (client_order_id (cfg_sha cfg) i) \<noteq> None"
  by (auto simp: gateway_decision_def Let_def split: if_splits)

lemma process_returns:
  assumes "process_intent cfg env i tok g = (Inr r, g')"
  shows "gr_outcome r = gateway_decision cfg env i tok g \<and>
    gw_venue g' = gw_venue g @ (if gr_outcome r = SO_ACKED then [(i, tok)] else []) \<and>
    (gr_outcome r \<in> refusals \<longrightarrow> (\<exists>e. g' = g\<lparr>gw_log := gw_log g @ [e]\<rparr>)) \<and>
    (gr_outcome r = REJECTED_TOKEN \<longrightarrow> g' = g) \<and>
    (gr_outcome r \<in> {SO_ACKED, IDEMPOTENT_REPLAY} \<longrightarrow> gr_ack r \<noteq> None \<and> gr_ack r = dict_get (gw_acks g') (client_order_id (cfg_sha cfg) i))"
    (is "?S r g'")
proof -
  let ?d = "gateway_decision cfg env i tok g"
  let ?v = "verify_and_consume (cfg_hmac cfg) registry_consume tok i (cfg_key cfg) (env_now env) (gw_registry g)"
  have "wp (process_intent cfg env i tok) ?S (\<lambda>_. True) g"
  proof (cases "?d = SO_ACKED")
    case True
    have "wp (submit_new cfg env i tok (client_order_id (cfg_sha cfg) i)) ?S (\<lambda>_. True) (g\<lparr>gw_registry := snd ?v\<rparr>)"
      by (rule wp_mono [OF submit_new_returns]) (use True in \<open>auto simp: refusals_def\<close>)
    then show ?thesis unfolding wp_process_decision using True by (simp add: refusals_def)
  next
    case False
    consider "?d \<in> refusals" | "?d = REJECTED_TOKEN" | "?d = IDEMPOTENT_REPLAY"
      using False by (cases ?d) (auto simp: refusals_def)
    then show ?thesis
    proof cases
      case 1
      have "gr_outcome (refusal_result env i c g ?d) = ?d" for c
        using 1 by (auto simp: refusal_result_def refusal_def refusals_def)
      with 1 show ?thesis unfolding wp_process_decision by (auto simp: wp_ledger refusals_def)
    next
      case 2
      then show ?thesis unfolding wp_process_decision by (simp add: refusals_def)
    next
      case 3
      with decision_cached [OF 3] show ?thesis unfolding wp_process_decision by (auto simp: refusals_def replay_def)
    qed
  qed
  then show ?thesis unfolding wp_def assms prod.case sum.case .
qed

section \<open>A sample gateway\<close>

definition sample_config :: gateway_config where
  "sample_config = \<lparr>cfg_hmac = (\<lambda>k m. m), cfg_sha = (\<lambda>s. s), cfg_key = ''k'', cfg_status_source = True,
     cfg_position_source = True, cfg_wal = True, cfg_ledger_reader = True, cfg_reconciliation_source = True\<rparr>"

definition sample_token :: "string \<Rightarrow> int \<Rightarrow> OrderIntent \<Rightarrow> SignedApprovalToken" where
  "sample_token nonce seq i = issue (\<lambda>k m. m) \<lparr>signing_key = ''k''\<rparr>
     \<lparr>cl_intent_id = intent_id i, cl_market_ticker = market_ticker i, cl_outcome = intent_outcome i, cl_action = action i,
      limit_price_pips = price i, count_centis = order_size i, max_fee_micros = IntUnit 60000, expires_at = 1060,
      cl_idempotency_key = idempotency_key i, config_hash = nonce, kernel_sequence_number = seq\<rparr>"

definition sample_close :: OrderIntent where
  "sample_close = sample_intent\<lparr>intent_id := ''c1'', action := ''sell_to_close'', order_size := IntUnit 200\<rparr>"

definition sample_env :: "string option \<Rightarrow> int \<Rightarrow> gateway_env" where
  "sample_env oid filled = \<lparr>env_status = Some ''open'',
     env_positions = [\<lparr>pos_ticker = ''T'', pos_quantity = IntUnit 300, pos_average_price = IntUnit 4000\<rparr>],
     env_positions_after = [\<lparr>pos_ticker = ''T'', pos_quantity = IntUnit 300, pos_average_price = IntUnit 4000\<rparr>],
     env_now = 1000, env_placed_now = 1000,
     env_submit = (\<lambda>i tok. SubmitReturned \<lparr>ack_order_id = oid, ack_filled = IntUnit filled\<rparr>),
     env_submit_reduce_only = None, env_fault = (\<lambda>w. Written)\<rparr>"

definition open_gateway :: OrderGateway where
  "open_gateway = (OrderGateway_new sample_config [] None [])\<lparr>gw_accepting_approvals := True\<rparr>"

definition sample_recovery :: "OpenOrder list \<Rightarrow> recovery_env" where
  "sample_recovery os = \<lparr>rec_records = [], rec_open_orders = os, rec_now = 2000, rec_fault = (\<lambda>w. Written)\<rparr>"

definition sample_ops :: "gateway_op list" where
  "sample_ops = [ProcessIntent (sample_env None 300) sample_intent (sample_token ''a'' 1 sample_intent), Restart,
     Recover (sample_recovery []), ProcessIntent (sample_env None 300) sample_intent (sample_token ''b'' 2 sample_intent)]"

lemma sample_verified:
  assumes "bytes_hex (canonical_claims_bytes (claims (sample_token n q i))) \<notin> r"
  shows "fst (verify_and_consume (\<lambda>k m. m) registry_consume (sample_token n q i) i ''k'' 1000 r) = VR_OK"
  using mem_registry.verify_and_consume_ok_iff [of "\<lambda>k m. m" "sample_token n q i" i "''k''" 1000 r] assms
  by (simp add: sample_token_def issue_def sign_def intent_matches_claims_def)

lemma sample_ops_once: "list_all ack_durable sample_ops"
  by (simp add: sample_ops_def ack_durable_def sample_env_def chosen_submit_def)

section \<open>Properties\<close>







text \<open>Recovery opens the gate only when it can account for the venue. However it ends, the registry, the
  journal and the venue are untouched and the ledger only grows. If it returns without a halt, the gateway accepts,
  every acknowledged order of the journal is in the cache again, and every resting order is tracked; if it
  returns with a halt, the gateway is halted and accepts nothing; if it raises, the gateway accepts only if
  it did before.\<close>

theorem recovery_accounts_for_venue:
  assumes "recovery_wired cfg" and "recover cfg env g = (res, g')"
  shows "gw_registry g' = gw_registry g \<and> gw_wal g' = gw_wal g \<and> gw_venue g' = gw_venue g \<and> prefix (gw_log g) (gw_log g') \<and>
    (case res of
       Inr rep \<Rightarrow>
         (if rr_halted rep then gw_halted g' \<and> \<not> gw_accepting_approvals g'
          else gw_accepting_approvals g' \<and> gw_halted g' = gw_halted g \<and>
            (\<forall>rs. cfg_wal cfg \<and> wal_read_all (cfg_sha cfg) (gw_wal g) = Inr rs \<longrightarrow>
               (\<forall>r \<in> set rs. wr_kind r = KIND_ACK \<longrightarrow> dict_get (gw_acks g') (wr_client_order_id r) \<noteq> None)) \<and>
            (cfg_reconciliation_source cfg \<longrightarrow> (\<forall>ord \<in> set (rec_open_orders env). oo_id ord \<in> fst ` set (gw_tracked g'))))
     | Inl _ \<Rightarrow> gw_accepting_approvals g' = gw_accepting_approvals g \<and> gw_halted g' = gw_halted g)"
  using recover_outcome [OF assms(1), of env g] unfolding wp_def assms(2)
  by (auto simp: same_world_def recovering_def clean_recovery_def split: sum.splits if_splits)

theorem recovery_accounts_for_venue_witness:
  "recovery_wired sample_config \<and>
   (let (res, g') = recover sample_config (sample_recovery [\<lparr>oo_id = ''x'', oo_ticker = ''T'', oo_side = ''yes'',
        oo_price = IntUnit 1, oo_quantity = IntUnit 1\<rparr>]) open_gateway in
    gw_venue g' = gw_venue open_gateway \<and> gw_halted g')"
proof -
  let ?env = "sample_recovery [\<lparr>oo_id = ''x'', oo_ticker = ''T'', oo_side = ''yes'', oo_price = IntUnit 1, oo_quantity = IntUnit 1\<rparr>]"
  have w: "recovery_wired sample_config" by (simp add: recovery_wired_def sample_config_def)
  have "fst (recover sample_config ?env open_gateway) = Inr \<lparr>orders_reconciled = 0, rr_halted = True\<rparr>" by code_simp
  then have r: "recover sample_config ?env open_gateway =
      (Inr \<lparr>orders_reconciled = 0, rr_halted = True\<rparr>, snd (recover sample_config ?env open_gateway))"
    by (metis prod.collapse)
  from recovery_accounts_for_venue [OF w r] w show ?thesis by (simp add: Let_def case_prod_unfold)
qed

end
