(* ===== verification/GatewayLimits.thy ===== *)
theory GatewayLimits
  imports GatewaySafety
begin

text \<open>
  Where the guarantees of the order gateway end. Each lemma here follows one lost write and shows what the
  code then does: a lost acknowledgement lets a retry place the order again (\<open>lost_ack_places_twice\<close>), and
  after a restart even the same token (\<open>same_token_places_twice\<close>); a lost \<open>SUBMIT\<close> entry leaves a placed close
  out of the in-flight tally (\<open>close_not_booked\<close>); a lost violation entry leaves the halt unlatched
  (\<open>violation_not_latched\<close>). They are why the hypotheses of the theorems of \<open>GatewaySafety\<close> are there.
\<close>

section \<open>Where the guarantees end\<close>

text \<open>What a submission that passes every gate leaves, when exactly one of its writes is lost.\<close>

definition lost :: "(durable_write \<Rightarrow> bool) \<Rightarrow> faults" where
  "lost P w = (if P w then Lost else Written)"

definition lose :: "(durable_write \<Rightarrow> bool) \<Rightarrow> gateway_env \<Rightarrow> gateway_env" where
  "lose P env = env\<lparr>env_fault := lost P\<rparr>"

definition is_ack_write :: "durable_write \<Rightarrow> bool" where
  "is_ack_write w = (case w of WalWrite (AppendAck _ _ _) \<Rightarrow> True | _ \<Rightarrow> False)"

definition is_submit_write :: "string \<Rightarrow> durable_write \<Rightarrow> bool" where
  "is_submit_write coid w = (w = LedgerWrite (transition_event coid SUBMISSION_REQUESTED SUBMIT SUBMITTED))"

definition is_violation_write :: "durable_write \<Rightarrow> bool" where
  "is_violation_write w = (case w of LedgerWrite e \<Rightarrow> event_type e = ''ReduceOnlyViolation'' | _ \<Rightarrow> False)"

lemma lose_simps [simp]:
  "env_fault (lose P env) = lost P" "env_now (lose P env) = env_now env" "env_status (lose P env) = env_status env"
  "env_positions (lose P env) = env_positions env" "env_positions_after (lose P env) = env_positions_after env"
  "chosen_submit (lose P env) = chosen_submit env"
  by (simp_all add: lose_def chosen_submit_def fun_eq_iff split: option.split)

lemma lose_decision [simp]: "gateway_decision cfg (lose P env) = gateway_decision cfg env"
  by (intro ext) (simp only: gateway_decision_def lose_simps)

lemma transition_event_simps [simp]:
  "transition_event c s e t = transition_event c' s' e' t' \<longleftrightarrow> c = c' \<and> state_name s = state_name s' \<and> event_name e = event_name e' \<and> state_name t = state_name t'"
  "event_type (transition_event c s e t) = ''OrderTransitionLedgered''"
  by (auto simp: transition_event_def OrderTransitionLedgered_def derive_typed_event_def)

lemma lost_writes [simp]:
  "lost is_ack_write (WalWrite (AppendAck c oid f)) = Lost" "lost is_ack_write (WalWrite (AppendIntent i)) = Written"
  "lost is_ack_write (LedgerWrite ev) = Written"
  "lost (is_submit_write coid) (WalWrite x) = Written"
  "lost (is_submit_write coid) (LedgerWrite (transition_event coid INTENT_CREATED APPROVE OS_APPROVED)) = Written"
  "lost (is_submit_write coid) (LedgerWrite (transition_event coid OS_APPROVED REQUEST_SUBMISSION SUBMISSION_REQUESTED)) = Written"
  "lost (is_submit_write coid) (LedgerWrite (transition_event coid SUBMISSION_REQUESTED SUBMIT SUBMITTED)) = Lost"
  "lost is_violation_write (WalWrite x) = Written" "lost is_violation_write (LedgerWrite (transition_event c s e t)) = Written"
  "lost is_violation_write (LedgerWrite (ReduceOnlyViolation a b c' d e' f')) = Lost"
  by (simp_all add: lost_def is_ack_write_def is_submit_write_def is_violation_write_def
      ReduceOnlyViolation_def derive_typed_event_def)

lemma wp_place_known:
  "is_closing_action (action i) = b \<Longrightarrow>
   wp (place env i tok b) Q E g = wp (place env i tok (is_closing_action (action i))) Q E g"
  by simp

lemmas submit_run = wp_place_known [unfolded wp_place] refusals_def wp_submit_new wal_append_intent_def wal_append_ack_def wp_rules

lemma ack_write_lost:
  assumes "cfg_wal cfg" and "\<not> gw_halted g" and "gateway_decision cfg env i tok g = SO_ACKED"
    and "chosen_submit env i tok = SubmitReturned ack"
  defines "g1 \<equiv> snd (process_intent cfg (lose is_ack_write env) i tok g)"
  shows "gw_venue g1 = gw_venue g @ [(i, tok)] \<and> gw_acks g1 = gw_acks g \<and>
    gw_accepting_approvals g1 = gw_accepting_approvals g \<and> \<not> gw_halted g1 \<and> gw_inflight_closing g1 = gw_inflight_closing g \<and>
    gw_wal g1 = wal_exec (cfg_sha cfg) (gw_wal g) (AppendIntent i) \<and>
    gw_registry g1 = snd (verify_and_consume (cfg_hmac cfg) registry_consume tok i (cfg_key cfg) (env_now env) (gw_registry g))"
  unfolding g1_def
  by (subst wp_final [symmetric], subst wp_process_decision) (use assms in \<open>simp add: submit_run\<close>)

lemma close_not_booked:
  assumes "cfg_wal cfg" and "\<not> gw_halted g" and "gateway_decision cfg env i tok g = SO_ACKED"
    and "chosen_submit env i tok = SubmitReturned ack"
  defines "g1 \<equiv> snd (process_intent cfg (lose (is_submit_write (client_order_id (cfg_sha cfg) i)) env) i tok g)"
  shows "gw_venue g1 = gw_venue g @ [(i, tok)] \<and> gw_inflight_closing g1 = gw_inflight_closing g \<and> \<not> gw_halted g1 \<and>
    gw_accepting_approvals g1 = gw_accepting_approvals g"
  unfolding g1_def
  by (subst wp_final [symmetric], subst wp_process_decision)
    (use assms in \<open>simp add: submit_run split: option.split sum.split\<close>)

lemma violation_not_latched:
  assumes "cfg_position_source cfg" and "\<not> gw_halted g" and "gateway_decision cfg env i tok g = SO_ACKED"
    and "chosen_submit env i tok = SubmitReturned ack" and "is_closing_action (action i)" and "intent_outcome i \<in> {''yes'', ''no''}"
    and "held_for_ticker (env_positions_after env) (market_ticker i) < val (ack_filled ack)"
  shows "\<exists>e g1. process_intent cfg (lose is_violation_write env) i tok g = (Inl e, g1) \<and> \<not> gw_halted g1 \<and>
    gw_accepting_approvals g1 \<and> gw_venue g1 = gw_venue g @ [(i, tok)]"
proof -
  obtain side where side: "outcome_to_side (intent_outcome i) = Inr side" using assms(6) outcome_to_side_ok by blast
  have acc: "gw_accepting_approvals g" using assms(3) by (auto simp: gateway_decision_def Let_def split: if_splits)
  have "wp (process_intent cfg (lose is_violation_write env) i tok) (\<lambda>_ _. False)
      (\<lambda>g1. \<not> gw_halted g1 \<and> gw_accepting_approvals g1 \<and> gw_venue g1 = gw_venue g @ [(i, tok)]) g"
    by (subst wp_process_decision)
      (use assms side acc in \<open>simp add: submit_run is_net_short_after_fill_def Let_def split: option.split\<close>)
  then show ?thesis by (auto simp: wp_def split: prod.splits sum.splits)
qed

subsection \<open>An acknowledgement lost, and the order placed again\<close>

lemma sample_decision:
  assumes "gw_accepting_approvals g" and "dict_get (gw_acks g) (client_order_id (\<lambda>s. s) sample_intent) = None"
    and "bytes_hex (canonical_claims_bytes (claims (sample_token n q sample_intent))) \<notin> gw_registry g"
  shows "gateway_decision sample_config (sample_env oid f) sample_intent (sample_token n q sample_intent) g = SO_ACKED"
proof -
  have "\<not> is_closing_action (action sample_intent)" by (simp add: sample_intent_def is_closing_action_def CLOSING_ACTIONS_def)
  then show ?thesis
    using assms sample_verified [OF assms(3)] by (simp add: gateway_decision_def sample_config_def sample_env_def Let_def)
qed

lemma sample_registry:
  assumes "bytes_hex (canonical_claims_bytes (claims (sample_token n q i))) \<notin> r"
  shows "snd (verify_and_consume (\<lambda>k m. m) registry_consume (sample_token n q i) i ''k'' 1000 r) =
    insert (bytes_hex (canonical_claims_bytes (claims (sample_token n q i)))) r"
  using mem_registry.verify_and_consume_used [of "\<lambda>k m. m" "sample_token n q i" i "''k''" 1000 r] sample_verified [OF assms] by simp

lemma sample_submit: "chosen_submit (sample_env oid f) i tok = SubmitReturned \<lparr>ack_order_id = oid, ack_filled = IntUnit f\<rparr>"
  by (simp add: chosen_submit_def sample_env_def)

lemma sample_config_simps [simp]:
  "cfg_wal sample_config" "cfg_hmac sample_config = (\<lambda>k m. m)" "cfg_sha sample_config = (\<lambda>s. s)" "cfg_key sample_config = ''k''"
  "env_now (sample_env oid f) = 1000"
  by (simp_all add: sample_config_def sample_env_def)

lemma placed_undisturbed:
  assumes "\<not> gw_halted g" and "gateway_decision cfg env i tok g = SO_ACKED" and "\<And>w. env_fault env w = Written"
    and "chosen_submit env i tok = SubmitReturned ack" and "ack_order_id ack = None" and "\<not> is_closing_action (action i)"
  shows "gw_venue (snd (process_intent cfg env i tok g)) = gw_venue g @ [(i, tok)]"
  by (subst wp_final [symmetric], subst wp_process_decision) (use assms in \<open>simp add: submit_run\<close>)

lemma lost_ack_places_twice:
  fixes tokA tokB
  defines "tokA \<equiv> sample_token ''a'' 1 sample_intent" and "tokB \<equiv> sample_token ''b'' 2 sample_intent"
  shows "gw_venue (foldl (gw_step sample_config) open_gateway
     [ProcessIntent (lose is_ack_write (sample_env None 300)) sample_intent tokA,
      ProcessIntent (sample_env None 300) sample_intent tokB]) = [(sample_intent, tokA), (sample_intent, tokB)]"
proof -
  let ?env = "sample_env None 300" and ?tag = "\<lambda>t. bytes_hex (canonical_claims_bytes (claims t))"
  define g1 where "g1 = snd (process_intent sample_config (lose is_ack_write ?env) sample_intent tokA open_gateway)"
  have open0: "\<not> gw_halted open_gateway" "gw_accepting_approvals open_gateway" "gw_acks open_gateway = []"
    "gw_registry open_gateway = {}" "gw_venue open_gateway = []"
    by (simp_all add: open_gateway_def OrderGateway_new_def)
  have dA: "gateway_decision sample_config ?env sample_intent tokA open_gateway = SO_ACKED"
    unfolding tokA_def by (rule sample_decision) (simp_all add: open0)
  have g1: "gw_venue g1 = [(sample_intent, tokA)]" "gw_acks g1 = []" "gw_accepting_approvals g1" "\<not> gw_halted g1"
    "gw_registry g1 = {?tag tokA}"
    using ack_write_lost [OF _ open0(1) dA sample_submit] sample_registry [of "''a''" 1 sample_intent "{}"]
    by (simp_all add: g1_def open0 tokA_def)
  have ne: "?tag tokB \<notin> gw_registry g1"
    unfolding g1(5) by (simp add: tokA_def tokB_def bytes_hex_inj canonical_claims_bytes_inj sample_token_def issue_def)
  have dB: "gateway_decision sample_config ?env sample_intent tokB g1 = SO_ACKED"
    unfolding tokB_def by (rule sample_decision) (use g1 ne in \<open>simp_all add: tokB_def\<close>)
  have "gw_venue (snd (process_intent sample_config ?env sample_intent tokB g1)) = gw_venue g1 @ [(sample_intent, tokB)]"
    by (rule placed_undisturbed [OF g1(4) dB _ sample_submit])
      (simp_all add: sample_env_def sample_intent_def is_closing_action_def CLOSING_ACTIONS_def)
  then show ?thesis by (simp add: gw_step_def g1_def [symmetric] g1(1))
qed

text \<open>The same loss, a restart and a clean recovery: the order filled at once, so nothing rests at the venue
  and recovery has nothing to object to; the registry is empty again, and the very same token places the
  order a second time.\<close>

lemma recover_unacknowledged:
  assumes "gw_wal g = wal_exec (\<lambda>s. s) None (AppendIntent i)"
  defines "g1 \<equiv> snd (recover sample_config (sample_recovery []) g)"
  shows "gw_accepting_approvals g1 \<and> gw_halted g1 = gw_halted g \<and> gw_acks g1 = gw_acks g \<and> gw_registry g1 = gw_registry g \<and>
    gw_venue g1 = gw_venue g"
proof -
  have w: "recovery_wired sample_config" by (simp add: recovery_wired_def)
  have j: "wal_read_all (\<lambda>s. s) (gw_wal g) = Inr [wal_record_of (\<lambda>s. s) (AppendIntent i)]"
    using wal_run_read [of "\<lambda>s. s" "[AppendIntent i]"] assms(1) by simp
  show ?thesis
    unfolding g1_def
    by (subst wp_final [symmetric], subst wp_recover [OF w])
      (simp add: j sample_recovery_def ledger_shows_halt_def rehydrate_from_wal_def fold_ledger_states_def wp_def gw_return_def
        wp_ledger [unfolded wp_def])
qed

lemma same_token_places_twice:
  fixes tok
  defines "tok \<equiv> sample_token ''a'' 1 sample_intent"
  shows "gw_venue (foldl (gw_step sample_config) open_gateway
     [ProcessIntent (lose is_ack_write (sample_env None 300)) sample_intent tok, Restart, Recover (sample_recovery []),
      ProcessIntent (sample_env None 300) sample_intent tok]) = [(sample_intent, tok), (sample_intent, tok)]"
proof -
  let ?env = "sample_env None 300"
  define g1 where "g1 = snd (process_intent sample_config (lose is_ack_write ?env) sample_intent tok open_gateway)"
  define g2 where "g2 = OrderGateway_new sample_config (gw_log g1) (gw_wal g1) (gw_venue g1)"
  define g3 where "g3 = snd (recover sample_config (sample_recovery []) g2)"
  have open0: "\<not> gw_halted open_gateway" "gw_accepting_approvals open_gateway" "gw_acks open_gateway = []"
    "gw_registry open_gateway = {}" "gw_venue open_gateway = []" "gw_wal open_gateway = None"
    by (simp_all add: open_gateway_def OrderGateway_new_def)
  have d: "gateway_decision sample_config ?env sample_intent tok open_gateway = SO_ACKED"
    unfolding tok_def by (rule sample_decision) (simp_all add: open0)
  have g1: "gw_venue g1 = [(sample_intent, tok)]" "gw_wal g1 = wal_exec (\<lambda>s. s) None (AppendIntent sample_intent)"
    using ack_write_lost [OF _ open0(1) d sample_submit] by (simp_all add: g1_def open0)
  have "gw_wal g2 = wal_exec (\<lambda>s. s) None (AppendIntent sample_intent)" by (simp add: g2_def OrderGateway_new_def g1(2))
  from recover_unacknowledged [OF this]
  have g3: "gw_accepting_approvals g3" "\<not> gw_halted g3" "gw_acks g3 = []" "gw_registry g3 = {}" "gw_venue g3 = [(sample_intent, tok)]"
    by (simp_all add: g3_def) (simp_all add: g2_def OrderGateway_new_def g1(1))
  have d3: "gateway_decision sample_config ?env sample_intent tok g3 = SO_ACKED"
    unfolding tok_def by (rule sample_decision) (simp_all add: g3)
  have "gw_venue (snd (process_intent sample_config ?env sample_intent tok g3)) = gw_venue g3 @ [(sample_intent, tok)]"
    by (rule placed_undisturbed [OF g3(2) d3 _ sample_submit])
      (simp_all add: sample_env_def sample_intent_def is_closing_action_def CLOSING_ACTIONS_def)
  then show ?thesis by (simp add: gw_step_def g1_def [symmetric] g2_def [symmetric] g3_def [symmetric] g3(5))
qed

end
