(* ===== verification/Reconcile.thy ===== *)
theory Reconcile
  imports GatewaySafety Kill
begin

text \<open>
  The workers around a running order gateway: the reconciler
  (\<open>windbreak/order_gateway/reconciler.py\<close>), the adverse-selection sweeper
  (\<open>windbreak/order_gateway/sweeper.py\<close>) and the consumer of the kill switch's cancel-all directive
  (\<open>windbreak/order_gateway/cancel_all.py\<close>). One cycle of a worker is an operation on the gateway; the
  bounded loops around the cycles only wait and repeat.
\<close>

section \<open>Definitions\<close>

subsection \<open>Reconciler\<close>

definition RC_HALT_DETAIL :: "(string, string) pydict" where
  "RC_HALT_DETAIL =
     [(''foreign_open_order'', ''resting order on the venue was never placed through the Gateway''),
      (''vanished_order_no_fill'', ''tracked resting order vanished from the venue with no corroborating fill'')]"

record ReconcileOutcome =
  ro_halted :: bool
  ro_healed :: int
  ro_halt_reason :: "string option"

record reconcile_env =
  rc_open_orders :: "OpenOrder list"
  rc_fills :: "Fill list"
  rc_records :: "LedgerRecord list"
  rc_fault :: faults

definition first_foreign :: "OpenOrder list \<Rightarrow> string set \<Rightarrow> OpenOrder option" where
  "first_foreign open_orders tracked_ids = find (\<lambda>ord. oo_id ord \<notin> tracked_ids) open_orders"

definition reconcile_halt :: "reconcile_env \<Rightarrow> string \<Rightarrow> string \<Rightarrow> string \<Rightarrow> string \<Rightarrow> ReconcileOutcome gw" where
  "reconcile_halt env rsn ticker order_id coid =
     gw_bind (ledger_record (rc_fault env)
        (ReconciliationHalted GW_COMPONENT rsn ticker order_id coid (the (dict_get RC_HALT_DETAIL rsn)))) (\<lambda>_.
     gw_bind (gw_modify mark_halted) (\<lambda>_.
       gw_return \<lparr>ro_halted = True, ro_healed = 0, ro_halt_reason = Some rsn\<rparr>))"

definition heal :: "reconcile_env \<Rightarrow> (string, OrderState) pydict \<Rightarrow> TrackedOrder \<Rightarrow> unit gw" where
  "heal env states t =
     (let coid = to_client_order_id t;
          st = (case dict_get states coid of Some s \<Rightarrow> s | None \<Rightarrow> ACKED) in
      gw_bind (apply_and_ledger (rc_fault env) st FILL coid) (\<lambda>_.
      gw_bind (ledger_record (rc_fault env)
        (ReconciliationHealed GW_COMPONENT coid ''fill_confirmed'' ''matched an out-of-band fill on a tracked resting order'')) (\<lambda>_.
        gw_modify (retire_tracked_order t))))"

definition new_fill_centis :: "Fill list \<Rightarrow> TrackedOrder \<Rightarrow> int" where
  "new_fill_centis fills t = matched_fill_centis fills (to_ticker t) (to_side t) (to_price_pips t) - to_filled_centis t"

fun reconcile_orders :: "reconcile_env \<Rightarrow> (string, OrderState) pydict \<Rightarrow> TrackedOrder list \<Rightarrow> int \<Rightarrow> ReconcileOutcome gw" where
  "reconcile_orders env states [] healed = gw_return \<lparr>ro_halted = False, ro_healed = healed, ro_halt_reason = None\<rparr>"
| "reconcile_orders env states (t # ts) healed =
     (if to_order_id t \<in> oo_id ` set (rc_open_orders env) then reconcile_orders env states ts healed
      else if new_fill_centis (rc_fills env) t \<le> 0 then
        reconcile_halt env ''vanished_order_no_fill'' (to_ticker t) (to_order_id t) (to_client_order_id t)
      else gw_bind (heal env states t) (\<lambda>_. reconcile_orders env states ts (healed + 1)))"

definition run_once :: "reconcile_env \<Rightarrow> ReconcileOutcome gw" where
  "run_once env g =
     (let tracked = tracked_orders g in
      case first_foreign (rc_open_orders env) (to_order_id ` set tracked) of
        Some ord \<Rightarrow> reconcile_halt env ''foreign_open_order'' (oo_ticker ord) (oo_id ord) '''' g
      | None \<Rightarrow>
          (case fold_ledger_states (rc_records env) of
             Inl e \<Rightarrow> (Inl (LedgerFold e), g)
           | Inr states \<Rightarrow> reconcile_orders env states tracked 0 g))"

subsection \<open>Sweeper\<close>

definition FREEZE_TRIGGER :: string where "FREEZE_TRIGGER = ''cancel_on_move''"
definition SCREENER_REASON :: string where "SCREENER_REASON = ''market_freeze''"

record SweepPolicy =
  ttl_seconds :: int
  move_ticks :: int

record SweepOutcome =
  so_cancelled :: int
  so_filled_during_cancel :: int
  so_skipped_unresolved :: int
  so_frozen_tickers :: "string list"

record CycleView =
  view_states :: "(string, OrderState) pydict"
  view_open_ids :: "string set"
  view_fills :: "Fill list"

record MoveBreach =
  mb_baseline_price_pips :: int
  mb_observed_price_pips :: int
  mb_price_tick_pips :: int

record SweepCounts =
  sc_cancelled :: int
  sc_filled_during_cancel :: int
  sc_skipped_unresolved :: int

text \<open>\<open>sw_cancel\<close> tells for an order id whether the venue accepts the cancel or the call raises.\<close>

record sweep_env =
  sw_policy :: SweepPolicy
  sw_now :: int
  sw_records :: "LedgerRecord list"
  sw_open_orders :: "OpenOrder list"
  sw_fills :: "Fill list"
  sw_order_book :: "string \<Rightarrow> OrderBookSnapshot"
  sw_price_tick :: "string \<Rightarrow> int"
  sw_cancel :: "string \<Rightarrow> bool"
  sw_fault :: faults

definition observed_price :: "sweep_env \<Rightarrow> TrackedOrder \<Rightarrow> int option" where
  "observed_price env t =
     (let book = sw_order_book env (to_ticker t);
          levels = (if to_side t = ''yes'' then yes_bids book else yes_asks book) in
      case levels of [] \<Rightarrow> None | l # _ \<Rightarrow> Some (val (lvl_price l)))"

definition move_breach :: "sweep_env \<Rightarrow> OrderGateway \<Rightarrow> TrackedOrder \<Rightarrow> MoveBreach option" where
  "move_breach env g t =
     (case resting_meta (to_order_id t) g of
        None \<Rightarrow> None
      | Some meta \<Rightarrow>
          (case observed_price env t of
             None \<Rightarrow> None
           | Some observed \<Rightarrow>
               (let tick = sw_price_tick env (to_ticker t);
                    threshold = move_ticks (sw_policy env) * tick in
                if \<bar>observed - baseline_price_pips meta\<bar> > threshold
                then Some \<lparr>mb_baseline_price_pips = baseline_price_pips meta, mb_observed_price_pips = observed,
                           mb_price_tick_pips = tick\<rparr>
                else None)))"

definition detect_frozen :: "sweep_env \<Rightarrow> OrderGateway \<Rightarrow> TrackedOrder list \<Rightarrow> (string, MoveBreach) pydict" where
  "detect_frozen env g tracked =
     foldl (\<lambda>frozen t. if dict_get frozen (to_ticker t) \<noteq> None then frozen
              else (case move_breach env g t of None \<Rightarrow> frozen | Some b \<Rightarrow> dict_set (to_ticker t) b frozen)) [] tracked"

definition is_ttl_stale :: "sweep_env \<Rightarrow> RestingOrderMeta \<Rightarrow> bool" where
  "is_ttl_stale env meta = (sw_now env - created_epoch_s meta \<ge> ttl_seconds (sw_policy env))"

definition cancel_order :: "sweep_env \<Rightarrow> string \<Rightarrow> unit gw" where
  "cancel_order env order_id =
     (if sw_cancel env order_id then gw_modify (\<lambda>g. g\<lparr>gw_cancelled := gw_cancelled g @ [order_id]\<rparr>) else gw_raise SubmitRaised)"

definition resolve_stale :: "sweep_env \<Rightarrow> CycleView \<Rightarrow> TrackedOrder \<Rightarrow> SweepCounts \<Rightarrow> SweepCounts gw" where
  "resolve_stale env view t counts =
     (let coid = to_client_order_id t;
          st = (case dict_get (view_states view) coid of Some s \<Rightarrow> s | None \<Rightarrow> ACKED) in
      gw_bind (if st \<noteq> CANCEL_REQUESTED then apply_and_ledger (sw_fault env) st REQUEST_CANCEL coid else gw_return st) (\<lambda>st'.
        if to_order_id t \<in> view_open_ids view then
          gw_bind (cancel_order env (to_order_id t)) (\<lambda>_.
          gw_bind (apply_and_ledger (sw_fault env) st' CANCEL coid) (\<lambda>_.
          gw_bind (gw_modify (retire_tracked_order t)) (\<lambda>_.
            gw_return (counts\<lparr>sc_cancelled := sc_cancelled counts + 1\<rparr>))))
        else if new_fill_centis (view_fills view) t > 0 then
          gw_bind (apply_and_ledger (sw_fault env) st' FILL coid) (\<lambda>_.
          gw_bind (gw_modify (retire_tracked_order t)) (\<lambda>_.
            gw_return (counts\<lparr>sc_filled_during_cancel := sc_filled_during_cancel counts + 1\<rparr>)))
        else gw_return (counts\<lparr>sc_skipped_unresolved := sc_skipped_unresolved counts + 1\<rparr>)))"

fun resolve_all :: "sweep_env \<Rightarrow> CycleView \<Rightarrow> TrackedOrder list \<Rightarrow> SweepCounts \<Rightarrow> SweepCounts gw" where
  "resolve_all env view [] counts = gw_return counts"
| "resolve_all env view (t # ts) counts = gw_bind (resolve_stale env view t counts) (\<lambda>c. resolve_all env view ts c)"

definition freeze_ticker :: "sweep_env \<Rightarrow> CycleView \<Rightarrow> TrackedOrder list \<Rightarrow> string \<Rightarrow> MoveBreach \<Rightarrow> SweepCounts \<Rightarrow> SweepCounts gw" where
  "freeze_ticker env view tracked ticker b counts =
     gw_bind (ledger_record (sw_fault env)
        (MarketFreeze GW_COMPONENT ticker FREEZE_TRIGGER (mb_baseline_price_pips b) (mb_observed_price_pips b)
           (move_ticks (sw_policy env)) (mb_price_tick_pips b) (sw_now env))) (\<lambda>_.
     gw_bind (resolve_all env view (filter (\<lambda>t. to_ticker t = ticker) tracked) counts) (\<lambda>c.
     gw_bind (ledger_record (sw_fault env) (ReturnToScreener GW_COMPONENT ticker SCREENER_REASON (sw_now env))) (\<lambda>_.
       gw_return c)))"

fun freeze_all :: "sweep_env \<Rightarrow> CycleView \<Rightarrow> TrackedOrder list \<Rightarrow> (string \<times> MoveBreach) list \<Rightarrow> SweepCounts \<Rightarrow> SweepCounts gw" where
  "freeze_all env view tracked [] counts = gw_return counts"
| "freeze_all env view tracked ((ticker, b) # rest) counts =
     gw_bind (freeze_ticker env view tracked ticker b counts) (\<lambda>c. freeze_all env view tracked rest c)"

text \<open>The remaining orders, each looked at when the loop reaches it.\<close>

fun expire_all :: "sweep_env \<Rightarrow> CycleView \<Rightarrow> (string, MoveBreach) pydict \<Rightarrow> TrackedOrder list \<Rightarrow> SweepCounts \<Rightarrow> SweepCounts gw" where
  "expire_all env view frozen [] counts = gw_return counts"
| "expire_all env view frozen (t # ts) counts = (\<lambda>g.
     if dict_get frozen (to_ticker t) \<noteq> None then expire_all env view frozen ts counts g
     else (case resting_meta (to_order_id t) g of
         None \<Rightarrow> expire_all env view frozen ts counts g
       | Some meta \<Rightarrow>
           (if \<not> is_ttl_stale env meta then expire_all env view frozen ts counts g
            else gw_bind (resolve_stale env view t counts) (\<lambda>c. expire_all env view frozen ts c) g)))"

definition sweep_once :: "sweep_env \<Rightarrow> SweepOutcome gw" where
  "sweep_once env g =
     (case fold_ledger_states (sw_records env) of
        Inl e \<Rightarrow> (Inl (LedgerFold e), g)
      | Inr states \<Rightarrow>
          (let view = \<lparr>view_states = states, view_open_ids = oo_id ` set (sw_open_orders env), view_fills = sw_fills env\<rparr>;
               tracked = tracked_orders g;
               frozen = detect_frozen env g tracked in
           gw_bind (freeze_all env view tracked frozen \<lparr>sc_cancelled = 0, sc_filled_during_cancel = 0, sc_skipped_unresolved = 0\<rparr>) (\<lambda>c.
           gw_bind (expire_all env view frozen tracked c) (\<lambda>c'.
             gw_return \<lparr>so_cancelled = sc_cancelled c', so_filled_during_cancel = sc_filled_during_cancel c',
               so_skipped_unresolved = sc_skipped_unresolved c', so_frozen_tickers = map fst frozen\<rparr>)) g))"

subsection \<open>Cancel-all\<close>

text \<open>\<open>resting\<close> is what \<open>get_open_orders\<close> returned, or nothing when it raised; \<open>accepts\<close> tells which cancels
  the venue accepts.\<close>

definition cancel_all_submit :: "OpenOrder list option \<Rightarrow> (string \<Rightarrow> bool) \<Rightarrow> Event \<Rightarrow> DirectiveDelivery" where
  "cancel_all_submit resting accepts directive =
     (case resting of
        None \<Rightarrow> \<lparr>dd_cancelled = 0, dd_failed = 0, dd_errored = True\<rparr>
      | Some orders \<Rightarrow>
          (let cancelled = int (length (filter (\<lambda>ord. accepts (oo_id ord)) orders)) in
           \<lparr>dd_cancelled = cancelled, dd_failed = int (length orders) - cancelled, dd_errored = False\<rparr>))"

section \<open>Lemmas\<close>

lemma wp_apply_any:
  "wp (apply_and_ledger fault st ev coid) Q E g =
     (case order_transition st ev of Inl e \<Rightarrow> E g
      | Inr t \<Rightarrow> wp (ledger_record fault (transition_event coid st ev t)) (\<lambda>_. Q t) E g)"
  by (simp add: apply_and_ledger_def transition_event_def wp_basic split: sum.split)

text \<open>What a worker leaves alone.\<close>

definition worked :: "OrderGateway \<Rightarrow> OrderGateway \<Rightarrow> bool" where
  "worked g g' = (gw_registry g' = gw_registry g \<and> gw_wal g' = gw_wal g \<and> gw_venue g' = gw_venue g \<and> gw_acks g' = gw_acks g \<and>
     gw_halted g' = gw_halted g \<and> gw_accepting_approvals g' = gw_accepting_approvals g \<and> prefix (gw_log g) (gw_log g'))"

lemma worked_refl [simp]: "worked g g"
  by (simp add: worked_def)

lemma worked_trans: "worked g g' \<Longrightarrow> worked g' g'' \<Longrightarrow> worked g g''"
  unfolding worked_def by (auto intro: prefix_order.trans)

lemma retire_simps [simp]:
  "gw_tracked (retire_tracked_order t g) = dict_pop (to_order_id t) (gw_tracked g)"
  "gw_resting_meta (retire_tracked_order t g) = dict_pop (to_order_id t) (gw_resting_meta g)"
  "gw_cancelled (retire_tracked_order t g) = gw_cancelled g" "gw_registry (retire_tracked_order t g) = gw_registry g"
  "gw_wal (retire_tracked_order t g) = gw_wal g" "gw_venue (retire_tracked_order t g) = gw_venue g"
  "gw_acks (retire_tracked_order t g) = gw_acks g" "gw_halted (retire_tracked_order t g) = gw_halted g"
  "gw_accepting_approvals (retire_tracked_order t g) = gw_accepting_approvals g" "gw_log (retire_tracked_order t g) = gw_log g"
  by (simp_all add: retire_tracked_order_def retire_inflight_def Let_def)

lemma worked_log [simp]: "worked g g' \<Longrightarrow> worked g (g'\<lparr>gw_log := gw_log g' @ es\<rparr>)"
  by (auto simp: worked_def)

lemma worked_cancelled [simp]: "worked g (g'\<lparr>gw_cancelled := c\<rparr>) = worked g g'"
  by (simp add: worked_def)

definition tracked_wf :: "OrderGateway \<Rightarrow> bool" where
  "tracked_wf g = (dict_wf (gw_tracked g) \<and> (\<forall>(k, t) \<in> set (gw_tracked g). to_order_id t = k))"

lemma dict_pop_filter: "dict_pop k d = filter (\<lambda>p. fst p \<noteq> k) d"
  by (auto simp: dict_pop_def AList.delete_eq case_prod_unfold intro: filter_cong)

lemma fold_pop_filter: "fold dict_pop ks d = filter (\<lambda>p. fst p \<notin> set ks) d"
  by (induction ks arbitrary: d) (auto simp: dict_pop_filter conj_commute intro: filter_cong)

lemma tracked_pops:
  assumes "tracked_wf g"
  shows "fold dict_pop (map to_order_id (filter P (tracked_orders g))) (gw_tracked g) = filter (\<lambda>p. \<not> P (snd p)) (gw_tracked g)"
  unfolding fold_pop_filter
proof (rule filter_cong [OF refl])
  fix p assume p: "p \<in> set (gw_tracked g)"
  have k: "to_order_id (snd q) = fst q" if "q \<in> set (gw_tracked g)" for q using assms that by (auto simp: tracked_wf_def)
  have "snd q = snd p" if "q \<in> set (gw_tracked g)" "fst q = fst p" for q
    using assms p that by (cases p; cases q) (auto simp: tracked_wf_def dict_wf_def dest: eq_key_imp_eq_value)
  then have one: "\<And>q. q \<in> set (gw_tracked g) \<Longrightarrow> to_order_id (snd q) = fst p \<Longrightarrow> snd q = snd p" using k by metis
  have "fst p \<in> set (map to_order_id (filter P (tracked_orders g))) \<longleftrightarrow>
      (\<exists>q \<in> set (gw_tracked g). P (snd q) \<and> to_order_id (snd q) = fst p)" unfolding tracked_orders_def by (force simp: image_iff)
  also have "\<dots> \<longleftrightarrow> P (snd p)" using one p k [OF p] by metis
  finally show "fst p \<notin> set (map to_order_id (filter P (tracked_orders g))) \<longleftrightarrow> \<not> P (snd p)" by blast
qed

subsection \<open>Reconciler\<close>

lemma heal_wp:
  "wp (heal env states t) (\<lambda>_ g'. worked g g' \<and> gw_tracked g' = dict_pop (to_order_id t) (gw_tracked g)) (worked g) g"
  by (simp add: heal_def Let_def wp_bind wp_modify wp_apply_any wp_ledger worked_def split: sum.split)

definition gone :: "reconcile_env \<Rightarrow> TrackedOrder \<Rightarrow> bool" where
  "gone env t = (to_order_id t \<notin> oo_id ` set (rc_open_orders env))"

definition halt_recorded :: "OrderGateway \<Rightarrow> OrderGateway \<Rightarrow> string \<Rightarrow> bool" where
  "halt_recorded g g' rsn = (gw_halted g' \<and> \<not> gw_accepting_approvals g' \<and> gw_venue g' = gw_venue g \<and> gw_acks g' = gw_acks g \<and>
     gw_log g' \<noteq> [] \<and> event_type (last (gw_log g')) = ''ReconciliationHalted'' \<and>
     dict_get (payload (last (gw_log g'))) ''reason'' = Some (JStr rsn))"

lemma reconcile_halt_wp:
  "worked g0 g \<Longrightarrow> wp (reconcile_halt env rsn ticker oid coid)
     (\<lambda>out g'. ro_halted out \<and> ro_halt_reason out = Some rsn \<and> halt_recorded g0 g' rsn) (worked g0) g"
  by (simp add: reconcile_halt_def wp_basic wp_ledger halt_recorded_def mark_halted_def worked_def ReconciliationHalted_def
      derive_typed_event_def dict_get_def)

definition reconciled :: "reconcile_env \<Rightarrow> TrackedOrder list \<Rightarrow> int \<Rightarrow> OrderGateway \<Rightarrow> ReconcileOutcome \<Rightarrow> OrderGateway \<Rightarrow> bool" where
  "reconciled env ts n g out g' =
     (if ro_halted out then
        ro_halt_reason out = Some ''vanished_order_no_fill'' \<and> halt_recorded g g' ''vanished_order_no_fill'' \<and>
        (\<exists>t \<in> set ts. gone env t \<and> new_fill_centis (rc_fills env) t \<le> 0)
      else worked g g' \<and> gw_tracked g' = fold dict_pop (map to_order_id (filter (gone env) ts)) (gw_tracked g) \<and>
        ro_healed out = n + int (length (filter (gone env) ts)) \<and>
        (\<forall>t \<in> set ts. gone env t \<longrightarrow> new_fill_centis (rc_fills env) t > 0))"

lemma halt_recorded_worked: "worked g g1 \<Longrightarrow> halt_recorded g1 g' rsn \<Longrightarrow> halt_recorded g g' rsn"
  by (simp add: worked_def halt_recorded_def)

lemma reconcile_orders_wp:
  "wp (reconcile_orders env states ts n) (reconciled env ts n g) (worked g) g"
proof (induction ts arbitrary: n g)
  case Nil
  show ?case by (simp add: wp_return reconciled_def)
next
  case (Cons t ts)
  show ?case
  proof (cases "gone env t")
    case False
    have "wp (reconcile_orders env states ts n) (reconciled env (t # ts) n g) (worked g) g"
      by (rule wp_mono [OF Cons.IH]) (use False in \<open>auto simp: reconciled_def split: if_splits\<close>)
    with False show ?thesis by (simp add: gone_def)
  next
    case True
    show ?thesis
    proof (cases "new_fill_centis (rc_fills env) t \<le> 0")
      case le: True
      have "wp (reconcile_halt env ''vanished_order_no_fill'' (to_ticker t) (to_order_id t) (to_client_order_id t))
          (reconciled env (t # ts) n g) (worked g) g"
        by (rule wp_mono [OF reconcile_halt_wp [OF worked_refl]]) (use True le in \<open>auto simp: reconciled_def\<close>)
      with True le show ?thesis by (simp add: gone_def)
    next
      case False
      have "wp (heal env states t) (\<lambda>_. wp (reconcile_orders env states ts (n + 1)) (reconciled env (t # ts) n g) (worked g)) (worked g) g"
      proof (rule wp_mono [OF heal_wp])
        fix x g1 assume g1: "worked g g1 \<and> gw_tracked g1 = dict_pop (to_order_id t) (gw_tracked g)"
        show "wp (reconcile_orders env states ts (n + 1)) (reconciled env (t # ts) n g) (worked g) g1"
        proof (rule wp_mono [OF Cons.IH])
          fix out g' assume "reconciled env ts (n + 1) g1 out g'"
          with g1 True False show "reconciled env (t # ts) n g out g'"
            by (auto simp: reconciled_def intro: worked_trans halt_recorded_worked split: if_splits)
        qed (use g1 worked_trans in blast)
      qed simp
      with True False show ?thesis by (simp add: gone_def wp_bind)
    qed
  qed
qed

subsection \<open>Sweeper\<close>

text \<open>What happens to one stale order.\<close>

definition leaves :: "CycleView \<Rightarrow> TrackedOrder \<Rightarrow> bool" where
  "leaves view t = (to_order_id t \<in> view_open_ids view \<or> new_fill_centis (view_fills view) t > 0)"

definition tally :: "CycleView \<Rightarrow> TrackedOrder list \<Rightarrow> SweepCounts \<Rightarrow> SweepCounts" where
  "tally view ts c =
     \<lparr>sc_cancelled = sc_cancelled c + int (length (filter (\<lambda>t. to_order_id t \<in> view_open_ids view) ts)),
      sc_filled_during_cancel = sc_filled_during_cancel c +
        int (length (filter (\<lambda>t. to_order_id t \<notin> view_open_ids view \<and> new_fill_centis (view_fills view) t > 0) ts)),
      sc_skipped_unresolved = sc_skipped_unresolved c + int (length (filter (\<lambda>t. \<not> leaves view t) ts))\<rparr>"

definition swept :: "CycleView \<Rightarrow> TrackedOrder list \<Rightarrow> OrderGateway \<Rightarrow> OrderGateway \<Rightarrow> bool" where
  "swept view ts g g' = (worked g g' \<and>
     gw_tracked g' = fold dict_pop (map to_order_id (filter (leaves view) ts)) (gw_tracked g) \<and>
     gw_resting_meta g' = fold dict_pop (map to_order_id (filter (leaves view) ts)) (gw_resting_meta g) \<and>
     gw_cancelled g' = gw_cancelled g @ map to_order_id (filter (\<lambda>t. to_order_id t \<in> view_open_ids view) ts))"

lemma swept_Nil [simp]: "swept view [] g g" "tally view [] c = c"
  by (simp_all add: swept_def tally_def)

lemma swept_append: "swept view ts g g1 \<Longrightarrow> swept view us g1 g2 \<Longrightarrow> swept view (ts @ us) g g2"
  unfolding swept_def by (auto intro: worked_trans)

lemma tally_append: "tally view us (tally view ts c) = tally view (ts @ us) c"
  by (simp add: tally_def)

lemma swept_log: "swept view ts g g' \<Longrightarrow> swept view ts g (g'\<lparr>gw_log := gw_log g' @ es\<rparr>)"
  by (simp add: swept_def)

lemma swept_after_log: "swept view ts (g\<lparr>gw_log := gw_log g @ es\<rparr>) g' \<Longrightarrow> swept view ts g g'"
  by (auto simp: swept_def worked_def intro: append_prefixD)

lemma resolve_stale_wp:
  "wp (resolve_stale env view t c) (\<lambda>c' g'. c' = tally view [t] c \<and> swept view [t] g g') (worked g) g"
  unfolding resolve_stale_def cancel_order_def Let_def
  by (simp add: wp_bind wp_return wp_modify wp_raise wp_if wp_apply_any wp_ledger swept_def tally_def leaves_def worked_def split: sum.split)

lemma resolve_all_wp:
  "wp (resolve_all env view ts c) (\<lambda>c' g'. c' = tally view ts c \<and> swept view ts g g') (worked g) g"
proof (induction ts arbitrary: c g)
  case Nil
  show ?case by (simp add: wp_return)
next
  case (Cons t ts)
  have "wp (resolve_stale env view t c) (\<lambda>c1. wp (resolve_all env view ts c1)
      (\<lambda>c' g'. c' = tally view (t # ts) c \<and> swept view (t # ts) g g') (worked g)) (worked g) g"
  proof (rule wp_mono [OF resolve_stale_wp])
    fix c1 g1 assume h: "c1 = tally view [t] c \<and> swept view [t] g g1"
    show "wp (resolve_all env view ts c1) (\<lambda>c' g'. c' = tally view (t # ts) c \<and> swept view (t # ts) g g') (worked g) g1"
    proof (rule wp_mono [OF Cons.IH])
      fix c' g' assume "c' = tally view ts c1 \<and> swept view ts g1 g'"
      then show "c' = tally view (t # ts) c \<and> swept view (t # ts) g g'"
        using h swept_append [of view "[t]" g g1 ts g'] tally_append [of view ts "[t]" c] by simp
    next
      fix g' assume "worked g1 g'"
      then show "worked g g'" using h worked_trans unfolding swept_def by blast
    qed
  qed simp
  then show ?case by (simp add: wp_bind)
qed

lemma freeze_ticker_wp:
  "wp (freeze_ticker env view tracked ticker b c)
     (\<lambda>c' g'. c' = tally view (filter (\<lambda>t. to_ticker t = ticker) tracked) c \<and>
        swept view (filter (\<lambda>t. to_ticker t = ticker) tracked) g g') (worked g) g"
proof -
  let ?ts = "filter (\<lambda>t. to_ticker t = ticker) tracked"
  have r: "wp (resolve_all env view ?ts c)
      (\<lambda>c' g'. (\<forall>es. c' = tally view ?ts c \<and> swept view ?ts g (g'\<lparr>gw_log := gw_log g' @ es\<rparr>)) \<and> worked g g')
      (worked g) (g\<lparr>gw_log := gw_log g @ [e]\<rparr>)" for e
  proof (rule wp_mono [OF resolve_all_wp])
    fix c' g' assume "c' = tally view ?ts c \<and> swept view ?ts (g\<lparr>gw_log := gw_log g @ [e]\<rparr>) g'"
    then have "c' = tally view ?ts c" "swept view ?ts g g'" using swept_after_log by blast+
    then show "(\<forall>es. c' = tally view ?ts c \<and> swept view ?ts g (g'\<lparr>gw_log := gw_log g' @ es\<rparr>)) \<and> worked g g'"
      using swept_log unfolding swept_def by blast
  next
    fix g' assume "worked (g\<lparr>gw_log := gw_log g @ [e]\<rparr>) g'"
    then show "worked g g'" by (auto simp: worked_def intro: append_prefixD)
  qed
  have "wp (resolve_all env view ?ts c)
      (\<lambda>c1. wp (ledger_record f x) (\<lambda>_ g'. c1 = tally view ?ts c \<and> swept view ?ts g g') (worked g)) (worked g)
      (g\<lparr>gw_log := gw_log g @ [e]\<rparr>)" for e f x
    by (rule wp_mono [OF r]) (auto simp: wp_ledger)
  then show ?thesis unfolding freeze_ticker_def by (simp add: wp_bind wp_return wp_ledger [where Q = "\<lambda>_. wp _ _ _"])
qed

lemma freeze_all_wp:
  "wp (freeze_all env view tracked fs c)
     (\<lambda>c' g'. c' = tally view (concat (map (\<lambda>(k, b). filter (\<lambda>t. to_ticker t = k) tracked) fs)) c \<and>
        swept view (concat (map (\<lambda>(k, b). filter (\<lambda>t. to_ticker t = k) tracked) fs)) g g') (worked g) g"
proof (induction fs arbitrary: c g)
  case Nil
  show ?case by (simp add: wp_return)
next
  case (Cons f fs)
  obtain k b where f: "f = (k, b)" by (cases f)
  let ?L = "\<lambda>fs. concat (map (\<lambda>(k, b). filter (\<lambda>t. to_ticker t = k) tracked) fs)"
  let ?ts = "filter (\<lambda>t. to_ticker t = k) tracked"
  have "wp (freeze_ticker env view tracked k b c) (\<lambda>c1. wp (freeze_all env view tracked fs c1)
      (\<lambda>c' g'. c' = tally view (?L (f # fs)) c \<and> swept view (?L (f # fs)) g g') (worked g)) (worked g) g"
  proof (rule wp_mono [OF freeze_ticker_wp])
    fix c1 g1 assume h: "c1 = tally view ?ts c \<and> swept view ?ts g g1"
    show "wp (freeze_all env view tracked fs c1) (\<lambda>c' g'. c' = tally view (?L (f # fs)) c \<and> swept view (?L (f # fs)) g g') (worked g) g1"
    proof (rule wp_mono [OF Cons.IH])
      fix c' g' assume "c' = tally view (?L fs) c1 \<and> swept view (?L fs) g1 g'"
      then show "c' = tally view (?L (f # fs)) c \<and> swept view (?L (f # fs)) g g'"
        using h swept_append [of view ?ts g g1 "?L fs" g'] tally_append [of view "?L fs" ?ts c] by (simp add: f)
    next
      fix g' assume "worked g1 g'"
      then show "worked g g'" using h worked_trans unfolding swept_def by blast
    qed
  qed simp
  then show ?case by (simp add: wp_bind f)
qed

definition expired :: "sweep_env \<Rightarrow> OrderGateway \<Rightarrow> TrackedOrder \<Rightarrow> bool" where
  "expired env g t = (case resting_meta (to_order_id t) g of None \<Rightarrow> False | Some meta \<Rightarrow> is_ttl_stale env meta)"

lemma expire_all_wp:
  assumes "distinct (map to_order_id ts)"
  shows "wp (expire_all env view frozen ts c)
     (\<lambda>c' g'. c' = tally view (filter (\<lambda>t. dict_get frozen (to_ticker t) = None \<and> expired env g t) ts) c \<and>
        swept view (filter (\<lambda>t. dict_get frozen (to_ticker t) = None \<and> expired env g t) ts) g g') (worked g) g"
  using assms
proof (induction ts arbitrary: c g)
  case Nil
  show ?case by (simp add: wp_return)
next
  case (Cons t ts)
  let ?D = "\<lambda>g t. dict_get frozen (to_ticker t) = None \<and> expired env g t"
  show ?case
  proof (cases "?D g t")
    case False
    have "wp (expire_all env view frozen (t # ts) c) Q E g = wp (expire_all env view frozen ts c) Q E g" for Q E
      using False by (auto simp: wp_def expired_def split: option.split)
    moreover have "filter (?D g) (t # ts) = filter (?D g) ts" using False by (simp only: filter.simps if_False)
    ultimately show ?thesis using Cons.IH [of c g] Cons.prems by (simp del: expire_all.simps filter.simps)
  next
    case True
    have step: "wp (expire_all env view frozen (t # ts) c) Q E g =
        wp (resolve_stale env view t c) (\<lambda>c1. wp (expire_all env view frozen ts c1) Q E) E g" for Q E
      using True by (auto simp: expired_def wp_def gw_bind_def split: option.splits prod.splits sum.splits)
    show ?thesis
      unfolding step
    proof (rule wp_mono [OF resolve_stale_wp])
      fix c1 g1 assume h: "c1 = tally view [t] c \<and> swept view [t] g g1"
      have "expired env g1 u = expired env g u" if "u \<in> set ts" for u
      proof -
        have "to_order_id u \<noteq> to_order_id t" using that Cons.prems by (metis distinct.simps(2) image_eqI list.simps(9) set_map)
        then show ?thesis using h by (simp add: swept_def expired_def resting_meta_def dict.get_pop)
      qed
      then have D: "filter (?D g1) ts = filter (?D g) ts" by (intro filter_cong) auto
      show "wp (expire_all env view frozen ts c1) (\<lambda>c' g'. c' = tally view (filter (?D g) (t # ts)) c \<and>
          swept view (filter (?D g) (t # ts)) g g') (worked g) g1"
      proof (rule wp_mono [OF Cons.IH])
        fix c' g' assume "c' = tally view (filter (?D g1) ts) c1 \<and> swept view (filter (?D g1) ts) g1 g'"
        then show "c' = tally view (filter (?D g) (t # ts)) c \<and> swept view (filter (?D g) (t # ts)) g g'"
          using h True swept_append [of view "[t]" g g1 "filter (?D g) ts" g'] tally_append [of view "filter (?D g) ts" "[t]" c]
          unfolding D by simp
      next
        fix g' assume "worked g1 g'"
        then show "worked g g'" using h worked_trans unfolding swept_def by blast
      qed (use Cons.prems in simp)
    qed simp
  qed
qed

text \<open>The frozen tickers are those with a breaching order, each once.\<close>

lemma detect_frozen_fold:
  fixes env g
  assumes "dict_wf d"
  defines "f \<equiv> \<lambda>frozen t. if dict_get frozen (to_ticker t) \<noteq> None then frozen
              else (case move_breach env g t of None \<Rightarrow> frozen | Some b \<Rightarrow> dict_set (to_ticker t) b frozen)"
  shows "dict_wf (foldl f d ts) \<and>
    (dict_get (foldl f d ts) k \<noteq> None \<longleftrightarrow> dict_get d k \<noteq> None \<or> (\<exists>t \<in> set ts. to_ticker t = k \<and> move_breach env g t \<noteq> None))"
  using assms(1)
proof (induction ts arbitrary: d)
  case (Cons t ts)
  have wf: "dict_wf (f d t)" using Cons.prems by (auto simp: f_def dict.wf_set split: option.split)
  have "dict_get (f d t) k \<noteq> None \<longleftrightarrow> dict_get d k \<noteq> None \<or> to_ticker t = k \<and> move_breach env g t \<noteq> None"
    by (auto simp: f_def dict.get_set split: option.split if_splits)
  with Cons.IH [OF wf] show ?case by auto
qed simp

lemma detect_frozen_keys:
  "distinct (map fst (detect_frozen env g ts))"
  "dict_get (detect_frozen env g ts) k \<noteq> None \<longleftrightarrow> (\<exists>t \<in> set ts. to_ticker t = k \<and> move_breach env g t \<noteq> None)"
  using detect_frozen_fold [of "[]" env g ts k] unfolding detect_frozen_def by (simp_all add: dict_wf_def)

lemma mset_by_key:
  assumes "distinct ks"
  shows "mset (concat (map (\<lambda>k. filter (\<lambda>t. f t = k) xs) ks)) = mset (filter (\<lambda>t. f t \<in> set ks) xs)"
  using assms
proof (induction ks)
  case (Cons k ks)
  have "mset (filter (\<lambda>t. f t = k) xs) + mset (filter (\<lambda>t. f t \<in> set ks) xs) = mset (filter (\<lambda>t. f t \<in> set (k # ks)) xs)"
    using Cons.prems by (induction xs) auto
  with Cons show ?case by simp
qed simp

lemma mset_count: "mset xs = mset ys \<Longrightarrow> length (filter P xs) = length (filter P ys)"
  by (metis mset_filter size_mset)

definition due :: "sweep_env \<Rightarrow> OrderGateway \<Rightarrow> TrackedOrder \<Rightarrow> bool" where
  "due env g t = ((\<exists>u \<in> set (tracked_orders g). to_ticker u = to_ticker t \<and> move_breach env g u \<noteq> None) \<or> expired env g t)"

definition cycle_view :: "sweep_env \<Rightarrow> (string, OrderState) pydict \<Rightarrow> CycleView" where
  "cycle_view env states = \<lparr>view_states = states, view_open_ids = oo_id ` set (sw_open_orders env), view_fills = sw_fills env\<rparr>"

lemma tracked_ids_distinct: "tracked_wf g \<Longrightarrow> distinct (map to_order_id (tracked_orders g))"
proof -
  assume wf: "tracked_wf g"
  have "map to_order_id (tracked_orders g) = map fst (gw_tracked g)"
    using wf unfolding tracked_orders_def tracked_wf_def by (induction "gw_tracked g") (auto simp: case_prod_unfold)
  with wf show ?thesis by (simp add: tracked_wf_def dict_wf_def)
qed

lemma sweep_order:
  fixes env g g1 view
  defines "frozen \<equiv> detect_frozen env g (tracked_orders g)"
  defines "F \<equiv> concat (map (\<lambda>(k, b). filter (\<lambda>t. to_ticker t = k) (tracked_orders g)) frozen)"
    and "E \<equiv> filter (\<lambda>t. dict_get frozen (to_ticker t) = None \<and> expired env g1 t) (tracked_orders g)"
  assumes "tracked_wf g" and "swept view F g g1"
  shows "mset (F @ E) = mset (filter (due env g) (tracked_orders g))"
proof -
  let ?ts = "tracked_orders g"
  have key: "dict_get frozen k \<noteq> None \<longleftrightarrow> (\<exists>t \<in> set ?ts. to_ticker t = k \<and> move_breach env g t \<noteq> None)" for k
    unfolding frozen_def by (rule detect_frozen_keys(2))
  have F: "mset F = mset (filter (\<lambda>t. to_ticker t \<in> set (map fst frozen)) ?ts)"
    using mset_by_key [OF detect_frozen_keys(1) [of env g ?ts], of to_ticker ?ts]
    unfolding F_def frozen_def by (simp add: case_prod_unfold comp_def)
  have "set_mset (mset F) = {t \<in> set ?ts. dict_get frozen (to_ticker t) \<noteq> None}"
    unfolding F by (simp add: dict_get_keys)
  then have setF: "set F = {t \<in> set ?ts. dict_get frozen (to_ticker t) \<noteq> None}" by simp
  have same: "expired env g1 t = expired env g t" if t: "t \<in> set ?ts" "dict_get frozen (to_ticker t) = None" for t
  proof -
    have "to_order_id t \<noteq> to_order_id u" if "u \<in> set F" for u
      using tracked_ids_distinct [OF assms(4)] t that unfolding setF by (auto simp: distinct_map inj_on_def)
    then have "to_order_id t \<notin> set (map to_order_id (filter (leaves view) F))" by auto
    then have "dict_get (gw_resting_meta g1) (to_order_id t) = dict_get (gw_resting_meta g) (to_order_id t)"
      using assms(5) unfolding swept_def by (simp add: dict.get_pops)
    then show ?thesis by (simp add: expired_def resting_meta_def)
  qed
  then have E: "E = filter (\<lambda>t. dict_get frozen (to_ticker t) = None \<and> expired env g t) ?ts"
    unfolding E_def by (intro filter_cong) auto
  have D: "due env g t \<longleftrightarrow> dict_get frozen (to_ticker t) \<noteq> None \<or> expired env g t" for t
    unfolding due_def key by blast
  have part: "mset (filter (\<lambda>t. P t) xs) + mset (filter (\<lambda>t. \<not> P t \<and> Q t) xs) = mset (filter (\<lambda>t. P t \<or> Q t) xs)" for P Q and xs :: "TrackedOrder list"
    by (induction xs) auto
  have "mset (F @ E) = mset (filter (\<lambda>t. dict_get frozen (to_ticker t) \<noteq> None) ?ts) +
      mset (filter (\<lambda>t. \<not> dict_get frozen (to_ticker t) \<noteq> None \<and> expired env g t) ?ts)"
    by (simp add: F E dict_get_keys)
  also have "\<dots> = mset (filter (due env g) ?ts)" unfolding part D [symmetric] by simp
  finally show ?thesis .
qed

definition sweep_result :: "CycleView \<Rightarrow> (TrackedOrder \<Rightarrow> bool) \<Rightarrow> OrderGateway \<Rightarrow> SweepOutcome \<Rightarrow> OrderGateway \<Rightarrow> bool" where
  "sweep_result view D g out g' =
     (let ts = filter D (tracked_orders g) in
      worked g g' \<and>
      gw_tracked g' = filter (\<lambda>p. \<not> (D (snd p) \<and> leaves view (snd p))) (gw_tracked g) \<and>
      mset (gw_cancelled g') = mset (gw_cancelled g) + mset (map to_order_id (filter (\<lambda>t. to_order_id t \<in> view_open_ids view) ts)) \<and>
      so_cancelled out = int (length (filter (\<lambda>t. to_order_id t \<in> view_open_ids view) ts)) \<and>
      so_filled_during_cancel out =
        int (length (filter (\<lambda>t. to_order_id t \<notin> view_open_ids view \<and> new_fill_centis (view_fills view) t > 0) ts)) \<and>
      so_skipped_unresolved out = int (length (filter (\<lambda>t. \<not> leaves view t) ts)))"

lemma swept_result:
  assumes "tracked_wf g" and "swept view L g g'" and "mset L = mset (filter D (tracked_orders g))"
    and "tally view L \<lparr>sc_cancelled = 0, sc_filled_during_cancel = 0, sc_skipped_unresolved = 0\<rparr> = c"
    and "so_cancelled out = sc_cancelled c" "so_filled_during_cancel out = sc_filled_during_cancel c"
      "so_skipped_unresolved out = sc_skipped_unresolved c"
  shows "sweep_result view D g out g'"
proof -
  let ?ts = "filter D (tracked_orders g)"
  have n: "length (filter P L) = length (filter P ?ts)" for P using mset_count [OF assms(3)] .
  have "set (map to_order_id (filter (leaves view) L)) = set (map to_order_id (filter (\<lambda>t. D t \<and> leaves view t) (tracked_orders g)))"
    using arg_cong [where f = set_mset, OF assms(3)] by auto
  then have "gw_tracked g' = fold dict_pop (map to_order_id (filter (\<lambda>t. D t \<and> leaves view t) (tracked_orders g))) (gw_tracked g)"
    using assms(2) unfolding swept_def fold_pop_filter by metis
  then have "gw_tracked g' = filter (\<lambda>p. \<not> (D (snd p) \<and> leaves view (snd p))) (gw_tracked g)"
    unfolding tracked_pops [OF assms(1)] .
  moreover have "mset (map to_order_id (filter P L)) = mset (map to_order_id (filter P ?ts))" for P
    using assms(3) by (metis mset_filter mset_map)
  ultimately show ?thesis
    using assms(2,4-7) n unfolding sweep_result_def Let_def swept_def tally_def by auto
qed

lemma sweep_once_wp:
  assumes "tracked_wf g" and "fold_ledger_states (sw_records env) = Inr states"
  shows "wp (sweep_once env) (\<lambda>out g'. sweep_result (cycle_view env states) (due env g) g out g' \<and>
      (\<forall>k. k \<in> set (so_frozen_tickers out) \<longleftrightarrow> (\<exists>t \<in> set (tracked_orders g). to_ticker t = k \<and> move_breach env g t \<noteq> None)))
    (worked g) g"
proof -
  let ?view = "cycle_view env states" and ?ts = "tracked_orders g"
  let ?c0 = "\<lparr>sc_cancelled = 0, sc_filled_during_cancel = 0, sc_skipped_unresolved = 0\<rparr>"
  define frozen where "frozen = detect_frozen env g ?ts"
  define F where "F = concat (map (\<lambda>(k, b). filter (\<lambda>t. to_ticker t = k) ?ts) frozen)"
  let ?R = "\<lambda>out g'. sweep_result ?view (due env g) g out g' \<and>
      (\<forall>k. k \<in> set (so_frozen_tickers out) \<longleftrightarrow> (\<exists>t \<in> set ?ts. to_ticker t = k \<and> move_breach env g t \<noteq> None))"
  let ?out = "\<lambda>c. \<lparr>so_cancelled = sc_cancelled c, so_filled_during_cancel = sc_filled_during_cancel c,
               so_skipped_unresolved = sc_skipped_unresolved c, so_frozen_tickers = map fst frozen\<rparr>"
  have split: "wp (sweep_once env) Q E g = wp (freeze_all env ?view ?ts frozen ?c0) (\<lambda>c. wp (expire_all env ?view frozen ?ts c) (\<lambda>c'. Q (?out c')) E) E g" for Q E
    by (simp add: wp_def sweep_once_def assms(2) cycle_view_def frozen_def gw_bind_def gw_return_def Let_def split: prod.splits sum.splits)
  have keys: "k \<in> set (map fst frozen) \<longleftrightarrow> (\<exists>t \<in> set ?ts. to_ticker t = k \<and> move_breach env g t \<noteq> None)" for k
    using detect_frozen_keys(2) [of env g ?ts k] unfolding frozen_def by (simp add: dict_get_keys)
  show ?thesis
    unfolding split
  proof (rule wp_mono [OF freeze_all_wp], fold F_def)
    fix c g1 assume c: "c = tally ?view F ?c0 \<and> swept ?view F g g1"
    let ?E = "filter (\<lambda>t. dict_get frozen (to_ticker t) = None \<and> expired env g1 t) ?ts"
    show "wp (expire_all env ?view frozen ?ts c) (\<lambda>c'. ?R (?out c')) (worked g) g1"
    proof (rule wp_mono [OF expire_all_wp [OF tracked_ids_distinct [OF assms(1)]]])
      fix c' g' assume h: "c' = tally ?view ?E c \<and> swept ?view ?E g1 g'"
      have "swept ?view (F @ ?E) g g'" using c h swept_append by blast
      moreover have "mset (F @ ?E) = mset (filter (due env g) ?ts)"
        using sweep_order [OF assms(1), of ?view env g1] c unfolding F_def frozen_def by blast
      moreover have "tally ?view (F @ ?E) ?c0 = c'" using c h tally_append by simp
      ultimately have "sweep_result ?view (due env g) g (?out c') g'" by (rule swept_result [OF assms(1)]) simp_all
      then show "?R (?out c') g'" using keys by simp
    next
      fix g' assume "worked g1 g'"
      then show "worked g g'" using c worked_trans unfolding swept_def by blast
    qed
  qed simp
qed

section \<open>The desk: gateway and workers together\<close>

datatype desk_op = GatewayCall gateway_op | ReconcileCycle reconcile_env | SweepCycle sweep_env

definition desk_step :: "gateway_config \<Rightarrow> OrderGateway \<Rightarrow> desk_op \<Rightarrow> OrderGateway" where
  "desk_step cfg g op =
     (case op of
        GatewayCall c \<Rightarrow> gw_step cfg g c
      | ReconcileCycle env \<Rightarrow> snd (run_once env g)
      | SweepCycle env \<Rightarrow> snd (sweep_once env g))"

definition cycle_keeps :: "OrderGateway \<Rightarrow> OrderGateway \<Rightarrow> bool" where
  "cycle_keeps g g' = (same_world g g' \<and> gw_acks g' = gw_acks g \<and> (gw_halted g \<longrightarrow> gw_halted g') \<and>
     (gw_accepting_approvals g' \<longrightarrow> gw_accepting_approvals g))"

lemma tracked_wf_pop: "tracked_wf g \<Longrightarrow> gw_tracked g' = dict_pop k (gw_tracked g) \<Longrightarrow> tracked_wf g'"
  unfolding tracked_wf_def by (simp add: dict.wf_pop set_dict_pop)

text \<open>Every cycle, however it ends, keeps what the guarantees of the gateway rest on.\<close>

definition desk_keeps :: "OrderGateway \<Rightarrow> OrderGateway \<Rightarrow> bool" where
  "desk_keeps g g' = (cycle_keeps g g' \<and> tracked_wf g')"

lemma desk_keeps_updates:
  assumes "desk_keeps g g'"
  shows "desk_keeps g (g'\<lparr>gw_log := gw_log g' @ [e]\<rparr>)" "desk_keeps g (retire_tracked_order t g')"
    "desk_keeps g (g'\<lparr>gw_cancelled := c\<rparr>)" "desk_keeps g (mark_halted g')"
  using assms tracked_wf_pop [of g' "retire_tracked_order t g'" "to_order_id t"]
  by (auto simp: desk_keeps_def cycle_keeps_def same_world_def tracked_wf_def mark_halted_def)

lemma ledger_keeps: "desk_keeps g0 g \<Longrightarrow> wp (ledger_record fault e) (\<lambda>_. desk_keeps g0) (desk_keeps g0) g"
  by (simp add: wp_ledger desk_keeps_updates)

lemma apply_keeps: "desk_keeps g0 g \<Longrightarrow> wp (apply_and_ledger fault st ev coid) (\<lambda>_. desk_keeps g0) (desk_keeps g0) g"
  using ledger_keeps by (simp add: wp_apply_any split: sum.split)

lemma bind_keeps:
  "wp m (\<lambda>_. desk_keeps g0) (desk_keeps g0) g \<Longrightarrow>
   (\<And>x g'. desk_keeps g0 g' \<Longrightarrow> wp (f x) (\<lambda>_. desk_keeps g0) (desk_keeps g0) g') \<Longrightarrow>
   wp (gw_bind m f) (\<lambda>_. desk_keeps g0) (desk_keeps g0) g"
  unfolding wp_bind by (erule wp_mono) blast+

lemma modify_keeps: "desk_keeps g0 (u g) \<Longrightarrow> wp (gw_modify u) (\<lambda>_. desk_keeps g0) (desk_keeps g0) g"
  "desk_keeps g0 g \<Longrightarrow> wp (gw_return x) (\<lambda>_. desk_keeps g0) (desk_keeps g0) g"
  "desk_keeps g0 g \<Longrightarrow> wp (gw_raise e) (\<lambda>_. desk_keeps g0) (desk_keeps g0) g"
  by (simp_all add: wp_modify wp_return wp_raise)

lemmas keeps = bind_keeps ledger_keeps apply_keeps modify_keeps desk_keeps_updates

lemma heal_keeps: "desk_keeps g0 g \<Longrightarrow> wp (heal env states t) (\<lambda>_. desk_keeps g0) (desk_keeps g0) g"
  unfolding heal_def Let_def by (intro keeps)

lemma reconcile_orders_keeps:
  "desk_keeps g0 g \<Longrightarrow> wp (reconcile_orders env states ts n) (\<lambda>_. desk_keeps g0) (desk_keeps g0) g"
proof (induction ts arbitrary: n g)
  case (Cons t ts)
  have "wp (reconcile_halt env r tk oid c) (\<lambda>_. desk_keeps g0) (desk_keeps g0) g" for r tk oid c
    unfolding reconcile_halt_def using Cons.prems by (intro keeps)
  moreover have "wp (gw_bind (heal env states t) (\<lambda>_. reconcile_orders env states ts (n + 1))) (\<lambda>_. desk_keeps g0) (desk_keeps g0) g"
    by (intro bind_keeps heal_keeps Cons)
  ultimately show ?case using Cons by (simp add: wp_if)
qed (simp add: wp_return)

lemma run_once_keeps: "tracked_wf g \<Longrightarrow> desk_keeps g (snd (run_once env g))"
proof -
  assume "tracked_wf g"
  then have k: "desk_keeps g g" by (simp add: desk_keeps_def cycle_keeps_def)
  have "wp (reconcile_halt env r tk oid c) (\<lambda>_. desk_keeps g) (desk_keeps g) g" for r tk oid c
    unfolding reconcile_halt_def using k by (intro keeps)
  with reconcile_orders_keeps [OF k, of env _ "tracked_orders g" 0] k show ?thesis
    unfolding wp_final by (simp add: run_once_def Let_def split: option.split sum.split)
qed

lemma resolve_stale_keeps: "desk_keeps g0 g \<Longrightarrow> wp (resolve_stale env view t c) (\<lambda>_. desk_keeps g0) (desk_keeps g0) g"
  unfolding resolve_stale_def cancel_order_def Let_def wp_if
  by (intro bind_keeps; (simp only: wp_if split: if_split)?; auto intro!: keeps simp del: retire_simps)

lemma resolve_all_keeps: "desk_keeps g0 g \<Longrightarrow> wp (resolve_all env view ts c) (\<lambda>_. desk_keeps g0) (desk_keeps g0) g"
  by (induction ts arbitrary: c g) (auto intro: keeps resolve_stale_keeps)

lemma freeze_all_keeps: "desk_keeps g0 g \<Longrightarrow> wp (freeze_all env view ts fs c) (\<lambda>_. desk_keeps g0) (desk_keeps g0) g"
proof (induction fs arbitrary: c g)
  case (Cons f fs)
  obtain k b where f: "f = (k, b)" by (cases f)
  have "wp (freeze_ticker env view ts k b c) (\<lambda>_. desk_keeps g0) (desk_keeps g0) g"
    unfolding freeze_ticker_def using Cons.prems by (intro keeps resolve_all_keeps)
  then show ?case unfolding f freeze_all.simps by (intro bind_keeps Cons.IH)
qed (simp add: wp_return)

lemma expire_all_keeps: "desk_keeps g0 g \<Longrightarrow> wp (expire_all env view frozen ts c) (\<lambda>_. desk_keeps g0) (desk_keeps g0) g"
proof (induction ts arbitrary: c g)
  case (Cons t ts)
  have skip: "wp (expire_all env view frozen ts c) (\<lambda>_. desk_keeps g0) (desk_keeps g0) g" using Cons by blast
  have "wp (gw_bind (resolve_stale env view t c) (\<lambda>c. expire_all env view frozen ts c)) (\<lambda>_. desk_keeps g0) (desk_keeps g0) g"
    by (intro bind_keeps resolve_stale_keeps Cons)
  with skip show ?case unfolding wp_def by (simp split: option.split)
qed (simp add: wp_return)

lemma sweep_once_keeps: "tracked_wf g \<Longrightarrow> desk_keeps g (snd (sweep_once env g))"
proof -
  assume "tracked_wf g"
  then have k: "desk_keeps g g" by (simp add: desk_keeps_def cycle_keeps_def)
  have "wp (gw_bind (freeze_all env view ts fs c) (\<lambda>c. gw_bind (expire_all env view fs' ts c) (\<lambda>c'. gw_return (h c'))))
      (\<lambda>_. desk_keeps g) (desk_keeps g) g" for view ts fs fs' c and h :: "SweepCounts \<Rightarrow> SweepOutcome"
    using k by (intro keeps freeze_all_keeps expire_all_keeps)
  then show ?thesis
    unfolding wp_final using k by (simp add: sweep_once_def Let_def split: sum.split)
qed

lemma tracked_wf_track: "tracked_wf g \<Longrightarrow> tracked_wf (track oid (tracked_of coid oid side i f) now i g)"
  by (auto simp: tracked_wf_def track_def tracked_of_def dict.wf_set set_dict_set)

lemma tracked_wf_updates [simp]:
  "tracked_wf (g\<lparr>gw_log := l\<rparr>) = tracked_wf g" "tracked_wf (g\<lparr>gw_registry := r\<rparr>) = tracked_wf g" "tracked_wf (g\<lparr>gw_wal := w\<rparr>) = tracked_wf g"
  "tracked_wf (g\<lparr>gw_venue := v\<rparr>) = tracked_wf g" "tracked_wf (g\<lparr>gw_acks := a\<rparr>) = tracked_wf g" "tracked_wf (g\<lparr>gw_halted := h\<rparr>) = tracked_wf g"
  "tracked_wf (g\<lparr>gw_accepting_approvals := b\<rparr>) = tracked_wf g" "tracked_wf (add_inflight tk sz g) = tracked_wf g"
  "tracked_wf (mark_halted g) = tracked_wf g" "tracked_wf (OrderGateway_new cfg ledger wal venue)"
  by (simp_all add: tracked_wf_def add_inflight_def mark_halted_def OrderGateway_new_def)

lemma process_tracked: "tracked_wf g \<Longrightarrow> tracked_wf (snd (process_intent cfg env i tok g))"
proof (rule process_intent_inv)
  assume "tracked_wf g"
  then show "wp (submit_new cfg env i tok (client_order_id (cfg_sha cfg) i)) (\<lambda>_. tracked_wf) tracked_wf (g\<lparr>gw_registry := r\<rparr>)" for r
    unfolding wp_submit_new wal_append_intent_def wal_append_ack_def
    by (simp add: wp_rules Let_def tracked_wf_track split: option.split sum.split)
qed simp_all

lemma rehydrate_ack_tracked:
  "tracked_wf g \<Longrightarrow> wp (rehydrate_ack env intents ids states r) (\<lambda>_. tracked_wf) tracked_wf g"
  unfolding rehydrate_ack_def complete_ledger_to_acked_def track_recovered_order_def Let_def
  by (simp add: wp_rules tracked_wf_track split: option.split sum.split)

lemma rehydrate_acks_tracked:
  "tracked_wf g \<Longrightarrow> wp (rehydrate_acks env intents ids states rs) (\<lambda>_. tracked_wf) tracked_wf g"
proof (induction rs arbitrary: g)
  case (Cons r rs)
  have "wp (gw_bind (rehydrate_ack env intents ids states r) (\<lambda>_. gw_bind (rehydrate_acks env intents ids states rs) (\<lambda>n. gw_return (n + 1))))
      (\<lambda>_. tracked_wf) tracked_wf g"
    unfolding wp_bind wp_return by (rule wp_mono [OF rehydrate_ack_tracked [OF Cons.prems]]) (use Cons.IH in blast)+
  with Cons show ?case unfolding wp_def by simp
qed (simp add: wp_return)

lemma recover_tracked: "tracked_wf g \<Longrightarrow> tracked_wf (snd (recover cfg env g))"
proof (cases "recovery_wired cfg")
  case True
  assume wf: "tracked_wf g"
  have r: "wp (rehydrate_from_wal env records ws os) (\<lambda>_. tracked_wf) tracked_wf g" for records ws os
    unfolding rehydrate_from_wal_def using wf by (simp add: wp_raise rehydrate_acks_tracked split: sum.split)
  show ?thesis
    unfolding wp_final [symmetric] wp_recover [OF True]
    using wf by (auto simp: wp_ledger split: sum.split option.split intro!: wp_mono [OF r])
qed (simp add: recover_def)

text \<open>An invariant of the gateway that no cycle can disturb is an invariant of the desk.\<close>

lemma desk_lift:
  assumes "\<And>g c. I g \<Longrightarrow> ok c \<Longrightarrow> I (gw_step cfg g c)" and "\<And>g g'. I g \<Longrightarrow> cycle_keeps g g' \<Longrightarrow> I g'"
    and "tracked_wf g \<and> I g" and "case op of GatewayCall c \<Rightarrow> ok c | _ \<Rightarrow> True"
  shows "tracked_wf (desk_step cfg g op) \<and> I (desk_step cfg g op)"
proof (cases op)
  case (GatewayCall c)
  have "tracked_wf (gw_step cfg g c)"
    using assms(3) process_tracked recover_tracked by (cases c) (simp_all add: gw_step_def)
  with GatewayCall assms show ?thesis by (simp add: desk_step_def)
next
  case (ReconcileCycle env)
  with run_once_keeps [of g env] assms(2) [of g "snd (run_once env g)"] assms(3) show ?thesis
    by (simp add: desk_step_def desk_keeps_def)
next
  case (SweepCycle env)
  with sweep_once_keeps [of g env] assms(2) [of g "snd (sweep_once env g)"] assms(3) show ?thesis
    by (simp add: desk_step_def desk_keeps_def)
qed

definition desk_ok :: "(gateway_op \<Rightarrow> bool) \<Rightarrow> desk_op \<Rightarrow> bool" where
  "desk_ok ok op = (case op of GatewayCall c \<Rightarrow> ok c | _ \<Rightarrow> True)"

lemma cycle_invs:
  assumes "cycle_keeps g g'"
  shows "once_inv cfg g \<Longrightarrow> once_inv cfg g'" "auth_inv cfg g \<Longrightarrow> auth_inv cfg g'" "written_inv cfg g \<Longrightarrow> written_inv cfg g'"
    "stopped venue g \<Longrightarrow> stopped venue g'"
proof -
  show "written_inv cfg g \<Longrightarrow> written_inv cfg g'" using assms same_world_written unfolding cycle_keeps_def by blast
  show "once_inv cfg g \<Longrightarrow> once_inv cfg g'" "auth_inv cfg g \<Longrightarrow> auth_inv cfg g'" "stopped venue g \<Longrightarrow> stopped venue g'"
    using assms by (auto simp: cycle_keeps_def same_world_def once_inv_def auth_inv_def stopped_def acked_ids_def)
qed

interpretation desk_once: guarded_machine "desk_step cfg" "\<lambda>g. tracked_wf g \<and> (cfg_wal cfg \<longrightarrow> once_inv cfg g)" "desk_ok ack_durable" for cfg
proof
  fix g op assume "tracked_wf g \<and> (cfg_wal cfg \<longrightarrow> once_inv cfg g)" "desk_ok ack_durable op"
  then show "tracked_wf (desk_step cfg g op) \<and> (cfg_wal cfg \<longrightarrow> once_inv cfg (desk_step cfg g op))"
    unfolding desk_ok_def using once.exec_inv cycle_invs(1) by (intro desk_lift [where ok = ack_durable]) blast+
qed

interpretation desk_auth: guarded_machine "desk_step cfg" "\<lambda>g. tracked_wf g \<and> auth_inv cfg g" "desk_ok within_process" for cfg
proof
  fix g op assume "tracked_wf g \<and> auth_inv cfg g" "desk_ok within_process op"
  then show "tracked_wf (desk_step cfg g op) \<and> auth_inv cfg (desk_step cfg g op)"
    unfolding desk_ok_def using auth.exec_inv cycle_invs(2) by (intro desk_lift [where ok = within_process]) blast+
qed

interpretation desk_written: invariant_machine "desk_step cfg" "\<lambda>g. tracked_wf g \<and> written_inv cfg g" for cfg
proof
  fix g op assume "tracked_wf g \<and> written_inv cfg g"
  then show "tracked_wf (desk_step cfg g op) \<and> written_inv cfg (desk_step cfg g op)"
    using written.exec_inv cycle_invs(3)
    by (intro desk_lift [where ok = "\<lambda>_. True" and I = "written_inv cfg"]) (blast, blast, blast, simp split: desk_op.split)
qed

interpretation desk_stopped: guarded_machine "desk_step cfg" "\<lambda>g. tracked_wf g \<and> stopped venue g" "desk_ok within_process" for cfg venue
proof
  fix g op assume "tracked_wf g \<and> stopped venue g" "desk_ok within_process op"
  then show "tracked_wf (desk_step cfg g op) \<and> stopped venue (desk_step cfg g op)"
    unfolding desk_ok_def using stopped.exec_inv cycle_invs(4) by (intro desk_lift [where ok = within_process]) blast+
qed

section \<open>Properties\<close>

definition sample_desk :: "desk_op list" where
  "sample_desk = map GatewayCall sample_ops @ [ReconcileCycle \<lparr>rc_open_orders = [], rc_fills = [], rc_records = [], rc_fault = (\<lambda>w. Written)\<rparr>]"

text \<open>C1. No order is placed twice, over any sequence of calls, reconciler and sweeper cycles, restarts and
  recoveries. With a journal wired, whatever writes to the ledger or of intents to the journal are lost or
  raise after being made, however the exchange and the position source answer, and wherever the process
  restarts, no two orders at the venue have the same client order id, as long as the acknowledgement of a
  placed order is journalled and a submission that raises has not placed anything.\<close>

theorem no_double_submission:
  assumes "cfg_wal cfg" and "list_all (desk_ok ack_durable) ops"
  shows "distinct (map (\<lambda>(i, tok). client_order_id (cfg_sha cfg) i)
    (gw_venue (foldl (desk_step cfg) (OrderGateway_new cfg ledger None []) ops)))"
proof -
  have "tracked_wf (OrderGateway_new cfg ledger None []) \<and> (cfg_wal cfg \<longrightarrow> once_inv cfg (OrderGateway_new cfg ledger None []))"
    by (simp add: once_inv_def OrderGateway_new_def acked_ids_def tracked_wf_def)
  from desk_once.run_inv [OF this assms(2)] assms(1) show ?thesis by (simp add: once_inv_def comp_def case_prod_unfold)
qed

theorem no_double_submission_witness:
  "list_all (desk_ok ack_durable) sample_desk \<and> cfg_wal sample_config \<and>
   distinct (map (\<lambda>(i, tok). client_order_id (cfg_sha sample_config) i)
     (gw_venue (foldl (desk_step sample_config) (OrderGateway_new sample_config [] None []) sample_desk)))"
proof -
  have w: "cfg_wal sample_config" by (simp add: sample_config_def)
  have l: "list_all (desk_ok ack_durable) sample_desk"
    using sample_ops_once by (simp add: sample_desk_def desk_ok_def list_all_iff)
  from no_double_submission [OF w l] w l show ?thesis by blast
qed



text \<open>C10. Write before act: at every moment of every run of calls, cycles, restarts and recoveries, with any
  faults, each order at the venue has its move to \<open>SUBMISSION_REQUESTED\<close> in the ledger and, where a journal is
  wired, its intent in the journal, readable.\<close>

theorem placed_only_after_written:
  "let g = foldl (desk_step cfg) (OrderGateway_new cfg ledger None []) ops in
    \<forall>(i, tok) \<in> set (gw_venue g).
      OrderTransitionLedgered GW_COMPONENT (client_order_id (cfg_sha cfg) i) (state_name OS_APPROVED)
        (event_name REQUEST_SUBMISSION) (state_name SUBMISSION_REQUESTED) \<in> set (gw_log g) \<and>
      (cfg_wal cfg \<longrightarrow> (\<exists>rs. wal_read_all (cfg_sha cfg) (gw_wal g) = Inr rs \<and>
         wal_record_of (cfg_sha cfg) (AppendIntent i) \<in> set rs))"
proof -
  have "tracked_wf (OrderGateway_new cfg ledger None []) \<and> written_inv cfg (OrderGateway_new cfg ledger None [])"
    by (simp add: written_inv_def OrderGateway_new_def tracked_wf_def)
  from desk_written.run_inv [OF this, of ops] show ?thesis
    using wal_good_read unfolding Let_def written_inv_def intent_journalled_def transition_event_def by fastforce
qed

theorem placed_only_after_written_witness:
  "list_all (\<lambda>(i, tok).
      OrderTransitionLedgered GW_COMPONENT (client_order_id (cfg_sha sample_config) i) (state_name OS_APPROVED)
        (event_name REQUEST_SUBMISSION) (state_name SUBMISSION_REQUESTED)
      \<in> set (gw_log (foldl (desk_step sample_config) (OrderGateway_new sample_config [] None []) sample_desk)))
    (gw_venue (foldl (desk_step sample_config) (OrderGateway_new sample_config [] None []) sample_desk))"
  using placed_only_after_written [of sample_config "[]" sample_desk] unfolding Let_def list_all_iff by blast

text \<open>C15. A halt is final within the process: once halted, whatever is processed, however often recovery runs
  and whatever the workers do, the gateway stays halted and nothing more reaches the venue.\<close>

theorem halt_is_final:
  assumes "gw_halted g" and "tracked_wf g" and "list_all (desk_ok within_process) ops"
  shows "gw_halted (foldl (desk_step cfg) g ops) \<and> gw_venue (foldl (desk_step cfg) g ops) = gw_venue g"
  using desk_stopped.run_inv [of g "gw_venue g" ops cfg] assms by (simp add: stopped_def)

theorem halt_is_final_witness:
  "gw_halted (foldl (desk_step sample_config) (mark_halted open_gateway) [hd sample_desk]) \<and>
   gw_venue (foldl (desk_step sample_config) (mark_halted open_gateway) [hd sample_desk]) = []"
  using halt_is_final [of "mark_halted open_gateway" "[hd sample_desk]" sample_config]
  by (simp add: mark_halted_def desk_ok_def within_process_def sample_desk_def sample_ops_def open_gateway_def OrderGateway_new_def
      tracked_wf_def)

text \<open>One reconciler cycle that returns. Without a halt, every resting order of the venue was tracked, every
  tracked order missing from the venue has a fill beyond the quantity already counted, exactly the missing
  ones were healed and are no longer tracked, and the gateway goes on. With a halt, there was an order resting
  that nobody tracked or a tracked one missing without a new fill, the reason is the last ledger entry, and
  the gateway is halted and accepts nothing.\<close>

theorem reconcile_cycle_exact:
  assumes "tracked_wf g" and "run_once env g = (Inr out, g')"
  shows "if ro_halted out
    then halt_recorded g g' (the (ro_halt_reason out)) \<and>
      ((\<exists>ord \<in> set (rc_open_orders env). oo_id ord \<notin> to_order_id ` set (tracked_orders g)) \<or>
       (\<exists>t \<in> set (tracked_orders g). gone env t \<and> new_fill_centis (rc_fills env) t \<le> 0))
    else (\<forall>ord \<in> set (rc_open_orders env). oo_id ord \<in> to_order_id ` set (tracked_orders g)) \<and>
      (\<forall>t \<in> set (tracked_orders g). gone env t \<longrightarrow> new_fill_centis (rc_fills env) t > 0) \<and>
      gw_tracked g' = filter (\<lambda>p. \<not> gone env (snd p)) (gw_tracked g) \<and>
      ro_healed out = int (length (filter (gone env) (tracked_orders g))) \<and> worked g g'"
proof -
  let ?ts = "tracked_orders g"
  show ?thesis
  proof (cases "first_foreign (rc_open_orders env) (to_order_id ` set ?ts)")
    case (Some ord)
    then have "ord \<in> set (rc_open_orders env)" "oo_id ord \<notin> to_order_id ` set ?ts"
      by (auto simp: first_foreign_def find_Some_iff)
    moreover have "wp (run_once env) (\<lambda>out g'. ro_halted out \<and> ro_halt_reason out = Some ''foreign_open_order'' \<and>
        halt_recorded g g' ''foreign_open_order'') (worked g) g"
      using reconcile_halt_wp [OF worked_refl [of g], of env "''foreign_open_order''" "oo_ticker ord" "oo_id ord" "[]"] Some
      by (simp add: wp_def run_once_def Let_def)
    ultimately show ?thesis using assms(2) by (auto simp: wp_def)
  next
    case None
    then have known: "\<forall>ord \<in> set (rc_open_orders env). oo_id ord \<in> to_order_id ` set ?ts"
      by (auto simp: first_foreign_def find_None_iff)
    obtain states where st: "fold_ledger_states (rc_records env) = Inr states"
      using assms(2) None by (auto simp: run_once_def Let_def split: sum.splits)
    have "wp (run_once env) (reconciled env ?ts 0 g) (worked g) g"
      using reconcile_orders_wp [of env states ?ts 0 g] None st by (simp add: wp_def run_once_def Let_def)
    then have "reconciled env ?ts 0 g out g'" using assms(2) by (simp add: wp_def)
    then show ?thesis
      using known unfolding reconciled_def tracked_pops [OF assms(1)] by (auto split: if_splits)
  qed
qed

definition tracked_gateway :: OrderGateway where
  "tracked_gateway = track ''o1'' (tracked_of ''c1'' ''o1'' ''yes'' sample_close 0) 1000 sample_close open_gateway"

definition sample_cycle :: reconcile_env where
  "sample_cycle = \<lparr>rc_open_orders = [], rc_fills = [\<lparr>fill_id = ''f'', fill_ticker = ''T'', fill_side = ''yes'',
      fill_price = IntUnit 4500, fill_quantity = IntUnit 200, fill_ts = 0, fill_order_id = None\<rparr>], rc_records = [],
      rc_fault = (\<lambda>w. Written)\<rparr>"

lemma tracked_gateway_wf: "tracked_wf tracked_gateway"
  unfolding tracked_gateway_def by (rule tracked_wf_track) (simp add: open_gateway_def)

theorem reconcile_cycle_exact_witness:
  "\<exists>out g'. run_once sample_cycle tracked_gateway = (Inr out, g') \<and> ro_healed out = 1 \<and> gw_tracked g' = []"
proof -
  have "fst (run_once sample_cycle tracked_gateway) = Inr \<lparr>ro_halted = False, ro_healed = 1, ro_halt_reason = None\<rparr>" by code_simp
  then obtain g' where r: "run_once sample_cycle tracked_gateway = (Inr \<lparr>ro_halted = False, ro_healed = 1, ro_halt_reason = None\<rparr>, g')"
    by (metis prod.collapse)
  have "filter (\<lambda>p. \<not> gone sample_cycle (snd p)) (gw_tracked tracked_gateway) = []" by code_simp
  with reconcile_cycle_exact [OF tracked_gateway_wf r] r show ?thesis by simp
qed

text \<open>One sweep that returns. The frozen tickers are those with an order whose side-matched top of book moved
  by more than the threshold from its baseline. Exactly the orders on a frozen ticker or past their time to live
  are due; of these, the ones still resting are cancelled at the venue, the ones gone with a new fill are
  recorded as filled, both kinds are no longer tracked, the ones gone without one stay tracked for the
  reconciler, and every other order stays tracked. The counts add up to the number of due orders.\<close>

theorem sweep_cycle_exact:
  assumes "tracked_wf g" and "sweep_once env g = (Inr out, g')"
  shows "\<exists>view. view_open_ids view = oo_id ` set (sw_open_orders env) \<and> view_fills view = sw_fills env \<and>
    sweep_result view (due env g) g out g' \<and>
    so_cancelled out + so_filled_during_cancel out + so_skipped_unresolved out =
      int (length (filter (due env g) (tracked_orders g))) \<and>
    (\<forall>k. k \<in> set (so_frozen_tickers out) \<longleftrightarrow>
      (\<exists>t \<in> set (tracked_orders g). to_ticker t = k \<and> move_breach env g t \<noteq> None))"
proof -
  obtain states where st: "fold_ledger_states (sw_records env) = Inr states"
    using assms(2) by (auto simp: sweep_once_def split: sum.splits)
  let ?view = "cycle_view env states"
  have R: "sweep_result ?view (due env g) g out g'"
    "\<forall>k. k \<in> set (so_frozen_tickers out) \<longleftrightarrow> (\<exists>t \<in> set (tracked_orders g). to_ticker t = k \<and> move_breach env g t \<noteq> None)"
    using sweep_once_wp [OF assms(1) st] assms(2) by (simp_all add: wp_def)
  have "length (filter (\<lambda>t. to_order_id t \<in> view_open_ids ?view) ts) +
      length (filter (\<lambda>t. to_order_id t \<notin> view_open_ids ?view \<and> new_fill_centis (view_fills ?view) t > 0) ts) +
      length (filter (\<lambda>t. \<not> leaves ?view t) ts) = length ts" for ts
    by (induction ts) (auto simp: leaves_def)
  from this [of "filter (due env g) (tracked_orders g)"]
  have "so_cancelled out + so_filled_during_cancel out + so_skipped_unresolved out =
      int (length (filter (due env g) (tracked_orders g)))"
    using R(1) unfolding sweep_result_def Let_def by linarith
  with R show ?thesis by (intro exI [of _ ?view]) (simp add: cycle_view_def)
qed

definition sample_sweep :: sweep_env where
  "sample_sweep = \<lparr>sw_policy = \<lparr>ttl_seconds = 900, move_ticks = 2\<rparr>, sw_now = 1900, sw_records = [],
     sw_open_orders = [\<lparr>oo_id = ''o1'', oo_ticker = ''T'', oo_side = ''yes'', oo_price = IntUnit 4500, oo_quantity = IntUnit 200\<rparr>],
     sw_fills = [], sw_order_book = (\<lambda>t. \<lparr>ob_ticker = t, yes_bids = [], yes_asks = [], ob_fetched_at = 0\<rparr>), sw_price_tick = (\<lambda>t. 100),
     sw_cancel = (\<lambda>x. True), sw_fault = (\<lambda>w. Written)\<rparr>"

theorem sweep_cycle_exact_witness:
  "\<exists>out g'. sweep_once sample_sweep tracked_gateway = (Inr out, g') \<and> so_cancelled out = 1 \<and>
     so_cancelled out + so_filled_during_cancel out + so_skipped_unresolved out =
       int (length (filter (due sample_sweep tracked_gateway) (tracked_orders tracked_gateway)))"
proof -
  let ?out = "\<lparr>so_cancelled = 1, so_filled_during_cancel = 0, so_skipped_unresolved = 0, so_frozen_tickers = []\<rparr>"
  have "fst (sweep_once sample_sweep tracked_gateway) = Inr ?out" by code_simp
  then obtain g' where r: "sweep_once sample_sweep tracked_gateway = (Inr ?out, g')" by (metis prod.collapse)
  have "so_cancelled ?out = 1" by simp
  with sweep_cycle_exact [OF tracked_gateway_wf r] r show ?thesis by blast
qed

text \<open>The cancel-all report tells the truth: it counts every resting order once, as cancelled or as failed; it is
  fully delivered exactly when the venue could be asked and accepted every cancel; and an unanswered question
  is reported as errored, never as nothing to cancel.\<close>

theorem cancel_all_report_exact:
  "fully_delivered (cancel_all_submit resting accepts d) = (\<exists>os. resting = Some os \<and> (\<forall>ord \<in> set os. accepts (oo_id ord))) \<and>
   (directive_outcome (cancel_all_submit resting accepts d) = ERRORED) = (resting = None) \<and>
   (\<forall>os. resting = Some os \<longrightarrow>
      dd_cancelled (cancel_all_submit resting accepts d) + dd_failed (cancel_all_submit resting accepts d) = int (length os) \<and>
      dd_cancelled (cancel_all_submit resting accepts d) = int (length (filter (\<lambda>ord. accepts (oo_id ord)) os)))"
proof (cases resting)
  case (Some os)
  have "length (filter P xs) = length xs \<longleftrightarrow> (\<forall>x \<in> set xs. P x)" for P and xs :: "OpenOrder list"
    by (metis filter_True length_filter_less less_irrefl)
  from this [of "\<lambda>ord. accepts (oo_id ord)" os] Some show ?thesis
    by (simp add: cancel_all_submit_def fully_delivered_def directive_outcome_def Let_def) fastforce
qed (simp add: cancel_all_submit_def fully_delivered_def directive_outcome_def)

theorem cancel_all_report_exact_witness:
  "fully_delivered (cancel_all_submit (Some (sw_open_orders sample_sweep)) (\<lambda>x. True) (CancelAllDirective ''k'' ''all_open_orders'' [] False))"
  using cancel_all_report_exact [of "Some (sw_open_orders sample_sweep)" "\<lambda>x. True" "CancelAllDirective ''k'' ''all_open_orders'' [] False"]
  by simp

section \<open>An order whose submission was never ledgered\<close>

text \<open>When the \<open>SUBMIT\<close> entry of a resting order was lost, the ledger's last state for it stays
  \<open>SUBMISSION_REQUESTED\<close>. Then neither worker can move it on: healing it and cancelling it both raise an
  illegal transition before anything is done, in every cycle, and the orders behind it are never reached.\<close>

lemma unledgered_order_blocks_workers:
  assumes "dict_get states (to_client_order_id t) = Some SUBMISSION_REQUESTED" and "view_states view = states"
  shows "heal env states t g = (Inl (GwIllegalTransition (IllegalTransitionError SUBMISSION_REQUESTED FILL)), g)"
    and "resolve_stale env' view t c g = (Inl (GwIllegalTransition (IllegalTransitionError SUBMISSION_REQUESTED REQUEST_CANCEL)), g)"
    and "resolve_all env' view (t # ts) c g = (Inl (GwIllegalTransition (IllegalTransitionError SUBMISSION_REQUESTED REQUEST_CANCEL)), g)"
proof -
  have tr: "order_transition SUBMISSION_REQUESTED FILL = Inl (IllegalTransitionError SUBMISSION_REQUESTED FILL)"
    "order_transition SUBMISSION_REQUESTED REQUEST_CANCEL = Inl (IllegalTransitionError SUBMISSION_REQUESTED REQUEST_CANCEL)"
    by (simp_all add: order_transition_def LEGAL_TRANSITIONS_def)
  show "heal env states t g = (Inl (GwIllegalTransition (IllegalTransitionError SUBMISSION_REQUESTED FILL)), g)"
    using assms by (simp add: heal_def apply_and_ledger_def tr gw_bind_def gw_raise_def)
  have "apply_and_ledger f SUBMISSION_REQUESTED REQUEST_CANCEL coid g =
      (Inl (GwIllegalTransition (IllegalTransitionError SUBMISSION_REQUESTED REQUEST_CANCEL)), g)" for f coid
    by (simp add: apply_and_ledger_def tr gw_raise_def)
  then show r: "resolve_stale env' view t c g = (Inl (GwIllegalTransition (IllegalTransitionError SUBMISSION_REQUESTED REQUEST_CANCEL)), g)"
    using assms by (simp add: resolve_stale_def Let_def gw_bind_def)
  then show "resolve_all env' view (t # ts) c g = (Inl (GwIllegalTransition (IllegalTransitionError SUBMISSION_REQUESTED REQUEST_CANCEL)), g)"
    by (simp add: gw_bind_def)
qed

end
