(* ===== verification/Alerts.thy ===== *)
theory Alerts
  imports Events
begin

text \<open>
  The alert catalogue and its fan-out (\<open>windbreak/alerts/registry.py\<close>, \<open>delivery.py\<close>, \<open>dispatch.py\<close>, and the
  failure classification of \<open>sinks.py\<close>). A sink is a name and the way its \<open>send\<close> ends for an alert; the network
  transports behind it are not modelled, nor are log lines.
\<close>

section \<open>Definitions\<close>

datatype AlertSeverity = SEV_INFO | SEV_WARNING | SEV_CRITICAL

datatype AlertType =
    MODE_CHANGE | HALT_KILL | VETO | RECONCILIATION_MISMATCH | SCHEMA_ANOMALY | FLOOR_CHANGE_REQUEST | DAILY_LOSS_PAUSE
  | DRAWDOWN_DEMOTION | FEE_MODEL_UNAVAILABLE | JURISDICTION_UNKNOWN | CANARY_DRIFT | PROFIT_SWEEP_ADVISORY
  | BACKUP_FAILURE | DISK_HALT | GATE_COMPUTATION_MISMATCH

fun severity_value :: "AlertSeverity \<Rightarrow> string" where
  "severity_value SEV_INFO = ''info''"
| "severity_value SEV_WARNING = ''warning''"
| "severity_value SEV_CRITICAL = ''critical''"

fun to_log_level :: "AlertSeverity \<Rightarrow> int" where
  "to_log_level SEV_INFO = 20"
| "to_log_level SEV_WARNING = 30"
| "to_log_level SEV_CRITICAL = 50"

fun alert_type_value :: "AlertType \<Rightarrow> string" where
  "alert_type_value MODE_CHANGE = ''mode change''"
| "alert_type_value HALT_KILL = ''halt/kill''"
| "alert_type_value VETO = ''veto''"
| "alert_type_value RECONCILIATION_MISMATCH = ''reconciliation mismatch''"
| "alert_type_value SCHEMA_ANOMALY = ''schema anomaly''"
| "alert_type_value FLOOR_CHANGE_REQUEST = ''floor-change request''"
| "alert_type_value DAILY_LOSS_PAUSE = ''daily-loss pause''"
| "alert_type_value DRAWDOWN_DEMOTION = ''drawdown demotion''"
| "alert_type_value FEE_MODEL_UNAVAILABLE = ''fee model unavailable''"
| "alert_type_value JURISDICTION_UNKNOWN = ''jurisdiction unknown''"
| "alert_type_value CANARY_DRIFT = ''canary drift''"
| "alert_type_value PROFIT_SWEEP_ADVISORY = ''profit-sweep advisory''"
| "alert_type_value BACKUP_FAILURE = ''backup failure''"
| "alert_type_value DISK_HALT = ''disk halt''"
| "alert_type_value GATE_COMPUTATION_MISMATCH = ''gate computation mismatch''"

text \<open>The registry's severities; the descriptions are prose for operators.\<close>

fun registered_severity :: "AlertType \<Rightarrow> AlertSeverity" where
  "registered_severity MODE_CHANGE = SEV_WARNING"
| "registered_severity HALT_KILL = SEV_CRITICAL"
| "registered_severity VETO = SEV_WARNING"
| "registered_severity RECONCILIATION_MISMATCH = SEV_CRITICAL"
| "registered_severity SCHEMA_ANOMALY = SEV_WARNING"
| "registered_severity FLOOR_CHANGE_REQUEST = SEV_INFO"
| "registered_severity DAILY_LOSS_PAUSE = SEV_CRITICAL"
| "registered_severity DRAWDOWN_DEMOTION = SEV_CRITICAL"
| "registered_severity FEE_MODEL_UNAVAILABLE = SEV_WARNING"
| "registered_severity JURISDICTION_UNKNOWN = SEV_WARNING"
| "registered_severity CANARY_DRIFT = SEV_WARNING"
| "registered_severity PROFIT_SWEEP_ADVISORY = SEV_INFO"
| "registered_severity BACKUP_FAILURE = SEV_WARNING"
| "registered_severity DISK_HALT = SEV_CRITICAL"
| "registered_severity GATE_COMPUTATION_MISMATCH = SEV_CRITICAL"

datatype DeliveryOutcome = SINK_DELIVERED | SINK_REFUSED | SINK_TIMED_OUT | SINK_ERRORED

fun delivery_value :: "DeliveryOutcome \<Rightarrow> string" where
  "delivery_value SINK_DELIVERED = ''delivered''"
| "delivery_value SINK_REFUSED = ''refused''"
| "delivery_value SINK_TIMED_OUT = ''timed_out''"
| "delivery_value SINK_ERRORED = ''errored''"

text \<open>How a \<open>send\<close> raises: with the sink's own error and outcome, or with an exception of the transport.\<close>

datatype send_failure =
  SinkSendError string DeliveryOutcome | RaisedTimeoutError string | RaisedConnectionRefusedError string | RaisedOther string

fun failure_text :: "send_failure \<Rightarrow> string" where
  "failure_text (SinkSendError s _) = s"
| "failure_text (RaisedTimeoutError s) = s"
| "failure_text (RaisedConnectionRefusedError s) = s"
| "failure_text (RaisedOther s) = s"

fun classify_transport_failure :: "send_failure \<Rightarrow> DeliveryOutcome" where
  "classify_transport_failure (RaisedTimeoutError _) = SINK_TIMED_OUT"
| "classify_transport_failure (RaisedConnectionRefusedError _) = SINK_REFUSED"
| "classify_transport_failure _ = SINK_ERRORED"

fun failure_outcome :: "send_failure \<Rightarrow> DeliveryOutcome" where
  "failure_outcome (SinkSendError _ outcome) = outcome"
| "failure_outcome e = classify_transport_failure e"

record AlertSink =
  sink_name :: string
  sink_send :: "AlertType \<Rightarrow> AlertSeverity \<Rightarrow> string \<Rightarrow> send_failure option"

record SinkOutcome =
  so_sink :: string
  so_outcome :: DeliveryOutcome
  so_detail :: "string option"
  so_fallback :: bool

definition so_ok :: "SinkOutcome \<Rightarrow> bool" where
  "so_ok o' = (so_outcome o' = SINK_DELIVERED)"

definition UNREGISTERED_SINK :: string where "UNREGISTERED_SINK = ''unregistered''"

record SinkDelivery =
  sd_sink :: string
  sd_outcome :: DeliveryOutcome
  sd_fallback :: bool

text \<open>The names the sinks module defines are found by introspection; they are a parameter.\<close>

definition SinkDelivery_new :: "string set \<Rightarrow> SinkOutcome \<Rightarrow> SinkDelivery" where
  "SinkDelivery_new registered o' =
     \<lparr>sd_sink = (if so_sink o' \<in> registered then so_sink o' else UNREGISTERED_SINK), sd_outcome = so_outcome o', sd_fallback = so_fallback o'\<rparr>"

definition sink_as_payload :: "SinkDelivery \<Rightarrow> payload" where
  "sink_as_payload d =
     [(''sink'', JStr (sd_sink d)), (''outcome'', JStr (delivery_value (sd_outcome d))), (''fallback'', JBool (sd_fallback d))]"

record EmittedAlert =
  ea_alert_type :: AlertType
  ea_severity :: AlertSeverity
  ea_message :: string
  ea_outcomes :: "SinkOutcome list"
  ea_ts :: string

definition deliveries :: "string set \<Rightarrow> EmittedAlert \<Rightarrow> SinkDelivery list" where
  "deliveries registered e = map (SinkDelivery_new registered) (ea_outcomes e)"

definition ledger_deliveries :: "string set \<Rightarrow> EmittedAlert option \<Rightarrow> payload list" where
  "ledger_deliveries registered report =
     (case report of None \<Rightarrow> [] | Some e \<Rightarrow> map sink_as_payload (deliveries registered e))"

definition attempt :: "AlertSink \<Rightarrow> AlertType \<Rightarrow> AlertSeverity \<Rightarrow> string \<Rightarrow> bool \<Rightarrow> SinkOutcome" where
  "attempt sink alert_type severity message fallback =
     (case sink_send sink alert_type severity message of
        Some exc \<Rightarrow> \<lparr>so_sink = sink_name sink, so_outcome = failure_outcome exc, so_detail = Some (failure_text exc), so_fallback = fallback\<rparr>
      | None \<Rightarrow> \<lparr>so_sink = sink_name sink, so_outcome = SINK_DELIVERED, so_detail = None, so_fallback = fallback\<rparr>)"

record AlertDispatcher =
  ad_sinks :: "AlertSink list"
  ad_fallback :: AlertSink
  ad_recorded :: "EmittedAlert list"

text \<open>The writer that keeps emitted alerts may refuse one (\<open>kept = False\<close>); the dispatch returns either way.\<close>

definition alert_dispatch :: "bool \<Rightarrow> string \<Rightarrow> AlertType \<Rightarrow> string \<Rightarrow> AlertDispatcher \<Rightarrow> EmittedAlert \<times> AlertDispatcher" where
  "alert_dispatch kept now alert_type message d =
     (let severity = registered_severity alert_type;
          outcomes = map (\<lambda>s. attempt s alert_type severity message False) (ad_sinks d);
          outcomes' = (if list_ex so_ok outcomes then outcomes
                       else outcomes @ [attempt (ad_fallback d) alert_type severity message True]);
          e = \<lparr>ea_alert_type = alert_type, ea_severity = severity, ea_message = message, ea_outcomes = outcomes', ea_ts = now\<rparr> in
      (e, if kept then d\<lparr>ad_recorded := ad_recorded d @ [e]\<rparr> else d))"

section \<open>Properties\<close>

definition accepted_by :: "AlertType \<Rightarrow> string \<Rightarrow> AlertSink \<Rightarrow> bool" where
  "accepted_by alert_type message s =
     (case sink_send s alert_type (registered_severity alert_type) message of
        None \<Rightarrow> True | Some exc \<Rightarrow> failure_outcome exc = SINK_DELIVERED)"

lemma attempt_simps [simp]:
  "so_sink (attempt s t (registered_severity t) m fb) = sink_name s" "so_fallback (attempt s t sev m fb) = fb"
  "so_ok (attempt s t (registered_severity t) m fb) = accepted_by t m s"
  by (simp_all add: attempt_def so_ok_def accepted_by_def split: option.splits)

text \<open>An alert reaches everyone it can: every configured sink is tried exactly once, in order, whatever the
  others did; the fallback is tried exactly when none of them accepted, so the alert goes unheard only if all of
  them and the fallback refused it; and a payload row of the ledger has exactly three keys and names a registered
  sink or nobody, never the text of a failure.\<close>

theorem alert_reaches_every_sink:
  "(case fst (alert_dispatch kept now alert_type message d) of e \<Rightarrow>
     map so_sink (filter (\<lambda>o'. \<not> so_fallback o') (ea_outcomes e)) = map sink_name (ad_sinks d) \<and>
     map so_sink (filter so_fallback (ea_outcomes e)) =
       (if list_ex (accepted_by alert_type message) (ad_sinks d) then [] else [sink_name (ad_fallback d)]) \<and>
     list_ex so_ok (ea_outcomes e) = list_ex (accepted_by alert_type message) (ad_sinks d @ [ad_fallback d]) \<and>
     list_all (\<lambda>p. map fst p = [''sink'', ''outcome'', ''fallback''] \<and>
         (\<exists>name. dict_get p ''sink'' = Some (JStr name) \<and> name \<in> insert UNREGISTERED_SINK registered))
       (ledger_deliveries registered (Some e)))"
proof -
  let ?os = "map (\<lambda>s. attempt s alert_type (registered_severity alert_type) message False) (ad_sinks d)"
  have ok: "list_ex so_ok ?os = list_ex (accepted_by alert_type message) (ad_sinks d)"
    by (simp add: list_ex_iff)
  have "filter (\<lambda>o'. \<not> so_fallback o') ?os = ?os" "filter so_fallback ?os = []"
    by (simp_all add: filter_id_conv filter_empty_conv)
  then show ?thesis
    by (simp add: alert_dispatch_def Let_def ok comp_def list_all_iff ledger_deliveries_def deliveries_def SinkDelivery_new_def
        sink_as_payload_def dict_get_def)
qed

end
