(* ===== verification/Verification.thy ===== *)
theory Verification
  imports Alerts Kill Venue LedgerStore
begin

text \<open>
  The kernel's read-only verification cycle (\<open>windbreak/riskkernel/verification.py\<close>): the baseline projected from the
  ledger's history and the venue, its advance by booked entries, and the cycle that grades the venue against it.
  The venue is a view whose reads succeed or raise; the seam the booked entries come through is a
  parameter, \<open>drain\<close>. Alerts are kept in the order they are dispatched.
\<close>

section \<open>Definitions\<close>

definition VF_COMPONENT :: string where "VF_COMPONENT = ''riskkernel''"
definition VF_PAYLOAD_SCHEMA_VERSION :: int where "VF_PAYLOAD_SCHEMA_VERSION = 1"
definition UNKNOWN_JURISDICTION :: string where "UNKNOWN_JURISDICTION = ''unknown''"
definition MISMATCH_MESSAGE :: string where "MISMATCH_MESSAGE = ''exchange verification mismatch beyond tolerance''"
definition UNREADABLE_MESSAGE :: string where "UNREADABLE_MESSAGE = ''exchange verification could not observe the venue''"
definition POSITIONS_SNAPSHOT_EVENT_TYPE :: string where "POSITIONS_SNAPSHOT_EVENT_TYPE = ''PositionsSnapshotRecorded''"
definition CASH_PAYLOAD_KEY :: string where "CASH_PAYLOAD_KEY = ''exchange_verified_available_cash''"
definition POSITIONS_PAYLOAD_KEY :: string where "POSITIONS_PAYLOAD_KEY = ''positions''"
definition ROW_TICKER_KEY :: string where "ROW_TICKER_KEY = ''ticker''"
definition ROW_QUANTITY_CENTIS_KEY :: string where "ROW_QUANTITY_CENTIS_KEY = ''quantity_centis''"
definition FILL_ACCOUNTED_EVENT_TYPE :: string where "FILL_ACCOUNTED_EVENT_TYPE = ''FillAccounted''"
definition FILL_CASH_DELTA_KEY :: string where "FILL_CASH_DELTA_KEY = ''cash_delta_micros''"
definition FILL_POSITION_DELTA_KEY :: string where "FILL_POSITION_DELTA_KEY = ''position_delta_centis''"
definition RESTING_ORDER_ACCOUNTED_EVENT_TYPE :: string where "RESTING_ORDER_ACCOUNTED_EVENT_TYPE = ''RestingOrderAccounted''"
definition VENUE_ORDER_ID_KEY :: string where "VENUE_ORDER_ID_KEY = ''venue_order_id''"
definition RESTING_QUANTITY_KEY :: string where "RESTING_QUANTITY_KEY = ''resting_quantity_centis''"
definition RESERVED_COLLATERAL_KEY :: string where "RESERVED_COLLATERAL_KEY = ''reserved_collateral_micros''"
definition NO_RESERVATION :: int where "NO_RESERVATION = 0"

record LedgerExpectations =
  expected_available_cash :: MoneyMicros
  expected_positions :: "(string, ContractCentis) pydict"
  expected_open_order_ids :: "string set"

record VerificationTolerances =
  balance_tolerance :: MoneyMicros
  position_tolerance :: ContractCentis

fun event_type_by_outcome :: "VerificationOutcome \<Rightarrow> string" where
  "event_type_by_outcome CLEAN = ''VerificationPassed''"
| "event_type_by_outcome DRIFT_WITHIN_TOLERANCE = ''VerificationDrift''"
| "event_type_by_outcome BREACH = ''VerificationMismatch''"

definition CASH_SEED_EVENT_TYPES :: "string set" where
  "CASH_SEED_EVENT_TYPES = {event_type_by_outcome CLEAN, event_type_by_outcome DRIFT_WITHIN_TOLERANCE}"

text \<open>A read that raises carries the text of its exception.\<close>

record venue_view =
  vv_market :: "string \<Rightarrow> string + NormalizedMarket"
  vv_balances :: "string + BalanceSnapshot"
  vv_semantics :: "string + BalanceSemantics"
  vv_positions :: "string + Position list"
  vv_open_orders :: "string + OpenOrder list"

datatype vf_error = VenueRaised string | KillReplayRaised replay_error | FeedRaised rebuild_error | VfNumeric num_error

definition venue :: "string + 'a \<Rightarrow> vf_error + 'a" where
  "venue r = map_sum VenueRaised id r"

subsection \<open>Seeding the baseline\<close>

definition own_component_events :: "Event list \<Rightarrow> Event list" where
  "own_component_events events = filter (\<lambda>e. component e = VF_COMPONENT) events"

fun is_scaled_int :: "json \<Rightarrow> bool" where
  "is_scaled_int (JInt _) = True"
| "is_scaled_int _ = False"

definition seed_cash :: "Event list \<Rightarrow> venue_view \<Rightarrow> vf_error + MoneyMicros" where
  "seed_cash events v =
     (case foldl (\<lambda>seed e. if event_type e \<in> CASH_SEED_EVENT_TYPES
                           then (case dict_get (payload e) CASH_PAYLOAD_KEY of Some (JInt cash) \<Rightarrow> Some (IntUnit cash) | _ \<Rightarrow> seed)
                           else seed) None (own_component_events events) of
        Some seed \<Rightarrow> Inr seed
      | None \<Rightarrow> res_bind (venue (vv_balances v)) (\<lambda>b. Inr (bal_available b)))"

definition row_to_position :: "(string, ContractCentis) pydict \<Rightarrow> json \<Rightarrow> (string, ContractCentis) pydict" where
  "row_to_position positions row =
     (case row of
        JObj kvs \<Rightarrow> (case (dict_get kvs ROW_TICKER_KEY, dict_get kvs ROW_QUANTITY_CENTIS_KEY) of
            (Some (JStr ticker), Some (JInt quantity)) \<Rightarrow> dict_set ticker (IntUnit quantity) positions
          | _ \<Rightarrow> positions)
      | _ \<Rightarrow> positions)"

definition rows_to_positions :: "json \<Rightarrow> (string, ContractCentis) pydict" where
  "rows_to_positions rows = (case rows of JList rs \<Rightarrow> foldl row_to_position [] rs | _ \<Rightarrow> [])"

definition positions_dict :: "Position list \<Rightarrow> (string, ContractCentis) pydict" where
  "positions_dict ps = foldl (\<lambda>d p. dict_set (pos_ticker p) (pos_quantity p) d) [] ps"

text \<open>A missing key and a null both leave \<open>rows\<close> at \<open>None\<close>.\<close>

definition seed_positions :: "Event list \<Rightarrow> venue_view \<Rightarrow> vf_error + (string, ContractCentis) pydict" where
  "seed_positions events v =
     (case foldl (\<lambda>rows e. if event_type e = POSITIONS_SNAPSHOT_EVENT_TYPE
                           then (case dict_get (payload e) POSITIONS_PAYLOAD_KEY of Some JNull \<Rightarrow> None | x \<Rightarrow> x)
                           else rows) None (own_component_events events) of
        None \<Rightarrow> res_bind (venue (vv_positions v)) (\<lambda>ps. Inr (positions_dict ps))
      | Some rows \<Rightarrow> Inr (rows_to_positions rows))"

record RestingOrder =
  total_centis :: int
  consumed_centis :: int
  reserved_micros :: int
  released_micros :: int

definition seed_open_orders :: "Event list \<Rightarrow> venue_view \<Rightarrow> vf_error + (string, RestingOrder) pydict" where
  "seed_open_orders events v =
     res_bind (map_sum KillReplayRaised id (kill_state_in events)) (\<lambda>k.
       if rk_killed k then Inr []
       else res_bind (venue (vv_open_orders v)) (\<lambda>ords.
         Inr (foldl (\<lambda>d ord. dict_set (oo_id ord) \<lparr>total_centis = val (oo_quantity ord), consumed_centis = 0,
                       reserved_micros = NO_RESERVATION, released_micros = 0\<rparr> d) [] ords)))"

subsection \<open>Booked entries\<close>

record FillEntry =
  fe_ticker :: string
  fe_cash_delta :: MoneyMicros
  fe_position_delta :: ContractCentis
  fe_venue_order_id :: string

record RestingEntry =
  re_venue_order_id :: string
  re_quantity_centis :: int
  re_reserved_micros :: int

definition payload_get :: "Event \<Rightarrow> string \<Rightarrow> json \<Rightarrow> json" where
  "payload_get e key dflt = (case dict_get (payload e) key of None \<Rightarrow> dflt | Some j \<Rightarrow> j)"

definition resting_entry :: "Event \<Rightarrow> RestingEntry option" where
  "resting_entry e =
     (case (payload_get e VENUE_ORDER_ID_KEY JNull, payload_get e RESTING_QUANTITY_KEY JNull,
            payload_get e RESERVED_COLLATERAL_KEY (JInt NO_RESERVATION)) of
        (JStr oid, JInt quantity, JInt reserved) \<Rightarrow>
          (if oid \<noteq> [] \<and> quantity > 0 \<and> reserved \<ge> NO_RESERVATION
           then Some \<lparr>re_venue_order_id = oid, re_quantity_centis = quantity, re_reserved_micros = reserved\<rparr> else None)
      | _ \<Rightarrow> None)"

definition fill_entry :: "Event \<Rightarrow> FillEntry option" where
  "fill_entry e =
     (case (payload_get e ROW_TICKER_KEY JNull, payload_get e FILL_CASH_DELTA_KEY JNull, payload_get e FILL_POSITION_DELTA_KEY JNull,
            payload_get e VENUE_ORDER_ID_KEY (JStr [])) of
        (JStr ticker, JInt cash, JInt position, JStr oid) \<Rightarrow>
          Some \<lparr>fe_ticker = ticker, fe_cash_delta = IntUnit cash, fe_position_delta = IntUnit position, fe_venue_order_id = oid\<rparr>
      | _ \<Rightarrow> None)"

definition quantity_of :: "(string, ContractCentis) pydict \<Rightarrow> string \<Rightarrow> int" where
  "quantity_of d ticker = (case dict_get d ticker of None \<Rightarrow> 0 | Some q \<Rightarrow> val q)"

definition advanced :: "LedgerExpectations \<Rightarrow> FillEntry \<Rightarrow> (string, RestingOrder) pydict \<Rightarrow> int \<Rightarrow> LedgerExpectations" where
  "advanced exps entry open_orders released =
     \<lparr>expected_available_cash = IntUnit (val (expected_available_cash exps) + val (fe_cash_delta entry) + released),
       expected_positions = dict_set (fe_ticker entry) (IntUnit (quantity_of (expected_positions exps) (fe_ticker entry) + val (fe_position_delta entry))) (expected_positions exps),
       expected_open_order_ids = fst ` set open_orders\<rparr>"

definition with_arrival :: "LedgerExpectations \<Rightarrow> (string, RestingOrder) pydict \<Rightarrow> int \<Rightarrow> LedgerExpectations" where
  "with_arrival exps open_orders reserved =
     \<lparr>expected_available_cash = IntUnit (val (expected_available_cash exps) - reserved),
      expected_positions = expected_positions exps, expected_open_order_ids = fst ` set open_orders\<rparr>"

definition released_by :: "RestingOrder \<Rightarrow> int \<Rightarrow> vf_error + int" where
  "released_by ord consumed =
     (if reserved_micros ord = NO_RESERVATION then Inr 0
      else res_bind (map_sum VfNumeric id (divide_int (reserved_micros ord * consumed) (total_centis ord) UNDERSTATE_EQUITY))
        (\<lambda>to_date. Inr (to_date - released_micros ord)))"

subsection \<open>The expectation source\<close>

record 'f LedgerExpectationSource =
  es_fill_accounting :: "'f option"
  es_unaccountable :: bool
  es_open_orders :: "(string, RestingOrder) pydict"
  es_expectations :: LedgerExpectations

definition LedgerExpectationSource_new ::
    "Event list \<Rightarrow> venue_view \<Rightarrow> 'f option \<Rightarrow> vf_error + 'f LedgerExpectationSource" where
  "LedgerExpectationSource_new history v feed =
     res_bind (seed_open_orders history v) (\<lambda>open_orders.
     res_bind (seed_cash history v) (\<lambda>cash.
     res_bind (seed_positions history v) (\<lambda>positions.
       Inr \<lparr>es_fill_accounting = feed, es_unaccountable = False, es_open_orders = open_orders,
            es_expectations = \<lparr>expected_available_cash = cash, expected_positions = positions,
              expected_open_order_ids = fst ` set open_orders\<rparr>\<rparr>)))"

definition consume :: "FillEntry \<Rightarrow> 'f LedgerExpectationSource \<Rightarrow> (vf_error + int option) \<times> 'f LedgerExpectationSource" where
  "consume entry src =
     (if fe_venue_order_id entry = [] then (Inr (Some 0), src)
      else (case dict_get (es_open_orders src) (fe_venue_order_id entry) of
          None \<Rightarrow> (Inr None, src)
        | Some ord \<Rightarrow>
            (let consumed = min (consumed_centis ord + \<bar>val (fe_position_delta entry)\<bar>) (total_centis ord) in
             case released_by ord consumed of
               Inl e \<Rightarrow> (Inl e, src)
             | Inr released \<Rightarrow>
                 (let ord' = ord\<lparr>consumed_centis := consumed, released_micros := released_micros ord + released\<rparr> in
                  (Inr (Some released),
                   src\<lparr>es_open_orders := (if consumed \<ge> total_centis ord then dict_pop (fe_venue_order_id entry) (es_open_orders src)
                                          else dict_set (fe_venue_order_id entry) ord' (es_open_orders src))\<rparr>)))))"

definition vf_advance ::
    "Event \<Rightarrow> 'f LedgerExpectationSource \<Rightarrow> (vf_error + LedgerExpectations option) \<times> 'f LedgerExpectationSource" where
  "vf_advance e src =
     (if event_type e = FILL_ACCOUNTED_EVENT_TYPE then
        (case fill_entry e of
           None \<Rightarrow> (Inr None, src)
         | Some entry \<Rightarrow>
             (case consume entry src of
                (Inl x, src1) \<Rightarrow> (Inl x, src1)
              | (Inr None, src1) \<Rightarrow> (Inr None, src1)
              | (Inr (Some released), src1) \<Rightarrow>
                  (Inr (Some (advanced (es_expectations src1) entry (es_open_orders src1) released)), src1)))
      else if event_type e = RESTING_ORDER_ACCOUNTED_EVENT_TYPE then
        (case resting_entry e of
           None \<Rightarrow> (Inr None, src)
         | Some arrival \<Rightarrow>
             (if dict_get (es_open_orders src) (re_venue_order_id arrival) \<noteq> None then (Inr None, src)
              else (let open_orders = dict_set (re_venue_order_id arrival)
                          \<lparr>total_centis = re_quantity_centis arrival, consumed_centis = 0,
                           reserved_micros = re_reserved_micros arrival, released_micros = 0\<rparr> (es_open_orders src) in
                    (Inr (Some (with_arrival (es_expectations src) open_orders (re_reserved_micros arrival))),
                     src\<lparr>es_open_orders := open_orders\<rparr>))))
      else (Inr None, src))"

fun advance_all :: "Event list \<Rightarrow> 'f LedgerExpectationSource \<Rightarrow> (vf_error + unit) \<times> 'f LedgerExpectationSource" where
  "advance_all [] src = (Inr (), src)"
| "advance_all (e # es) src =
     (case vf_advance e src of
        (Inl x, src1) \<Rightarrow> (Inl x, src1)
      | (Inr None, src1) \<Rightarrow> (Inr (), src1\<lparr>es_unaccountable := True\<rparr>)
      | (Inr (Some exps), src1) \<Rightarrow> advance_all es (src1\<lparr>es_expectations := exps\<rparr>))"

definition get_expectations ::
    "('f \<Rightarrow> (rebuild_error + Event list) \<times> 'f) \<Rightarrow> 'f LedgerExpectationSource \<Rightarrow> (vf_error + LedgerExpectations) \<times> 'f LedgerExpectationSource" where
  "get_expectations drain src =
     (case es_fill_accounting src of
        None \<Rightarrow> (Inr (es_expectations src), src)
      | Some feed \<Rightarrow>
          (if es_unaccountable src then (Inr (es_expectations src), src)
           else (case drain feed of
               (Inl x, feed') \<Rightarrow> (Inl (FeedRaised x), src\<lparr>es_fill_accounting := Some feed'\<rparr>)
             | (Inr es, feed') \<Rightarrow>
                 (case advance_all es (src\<lparr>es_fill_accounting := Some feed'\<rparr>) of
                    (Inl x, src1) \<Rightarrow> (Inl x, src1)
                  | (Inr _, src1) \<Rightarrow> (Inr (es_expectations src1), src1)))))"

subsection \<open>The cycle\<close>

definition classify :: "bool \<Rightarrow> bool \<Rightarrow> bool \<Rightarrow> bool \<Rightarrow> VerificationOutcome" where
  "classify balance position open_order drift_present =
     (if \<not> (balance \<and> position \<and> open_order) then BREACH
      else if drift_present then DRIFT_WITHIN_TOLERANCE else CLEAN)"

definition vf_cash_drift :: "MoneyMicros \<Rightarrow> LedgerExpectations \<Rightarrow> MoneyMicros" where
  "vf_cash_drift observed exps = IntUnit \<bar>val observed - val (expected_available_cash exps)\<bar>"

definition position_drift :: "Position list \<Rightarrow> LedgerExpectations \<Rightarrow> int" where
  "position_drift positions exps =
     (let observed = positions_dict positions; expected = expected_positions exps;
          diffs = map (\<lambda>t. \<bar>quantity_of observed t - quantity_of expected t\<bar>) (remdups (map fst observed @ map fst expected)) in
      case diffs of [] \<Rightarrow> 0 | d # ds \<Rightarrow> fold max ds d)"

definition open_orders_match :: "OpenOrder list \<Rightarrow> LedgerExpectations \<Rightarrow> bool" where
  "open_orders_match open_orders exps = (oo_id ` set open_orders = expected_open_order_ids exps)"

fun outcome_name :: "VerificationOutcome \<Rightarrow> string" where
  "outcome_name CLEAN = ''CLEAN''"
| "outcome_name DRIFT_WITHIN_TOLERANCE = ''DRIFT_WITHIN_TOLERANCE''"
| "outcome_name BREACH = ''BREACH''"

definition vf_payload :: "VerificationSnapshot \<Rightarrow> payload" where
  "vf_payload s =
     [(''outcome'', JStr (outcome_name (vs_outcome s))), (''balance_ok'', JBool (balance_ok s)),
      (''position_ok'', JBool (position_ok s)), (''open_order_ok'', JBool (open_order_ok s)),
      (''verified_at_epoch_s'', JInt (verified_at_epoch_s s)),
      (''exchange_verified_available_cash'', JInt (val (vs_exchange_verified_available_cash s))),
      (''cash_drift'', JInt (val (cash_drift s))), (''semantics_fully_known'', JBool (semantics_fully_known s))]"

record 'f ReadOnlyVerifier =
  rv_source :: "'f LedgerExpectationSource"
  rv_tolerances :: VerificationTolerances
  rv_events :: event_log
  rv_alerts :: "(AlertType \<times> string) list"

definition snapshot_event :: "VerificationSnapshot \<Rightarrow> Event" where
  "snapshot_event s = \<lparr>event_type = event_type_by_outcome (vs_outcome s), component = VF_COMPONENT,
     payload_schema_version = VF_PAYLOAD_SCHEMA_VERSION, payload = vf_payload s\<rparr>"

definition vf_record :: "VerificationSnapshot \<Rightarrow> 'f ReadOnlyVerifier \<Rightarrow> 'f ReadOnlyVerifier" where
  "vf_record s rv = rv\<lparr>rv_events := log_record (snapshot_event s) (rv_events rv)\<rparr>"

definition vf_dispatch :: "AlertType \<Rightarrow> string \<Rightarrow> 'f ReadOnlyVerifier \<Rightarrow> 'f ReadOnlyVerifier" where
  "vf_dispatch t message rv = rv\<lparr>rv_alerts := rv_alerts rv @ [(t, message)]\<rparr>"

fun alert_tickers :: "venue_view \<Rightarrow> string list \<Rightarrow> 'f ReadOnlyVerifier \<Rightarrow> (vf_error + unit) \<times> 'f ReadOnlyVerifier" where
  "alert_tickers v [] rv = (Inr (), rv)"
| "alert_tickers v (t # ts) rv =
     (case venue (vv_market v t) of
        Inl e \<Rightarrow> (Inl e, rv)
      | Inr m \<Rightarrow> alert_tickers v ts
          (if nm_jurisdiction_status m = UNKNOWN_JURISDICTION
           then vf_dispatch AlertType.JURISDICTION_UNKNOWN (''held market '' @ t @ '' has unknown jurisdiction status'') rv else rv))"

definition alert_unknown_jurisdictions ::
    "venue_view \<Rightarrow> Position list \<Rightarrow> OpenOrder list \<Rightarrow> 'f ReadOnlyVerifier \<Rightarrow> (vf_error + unit) \<times> 'f ReadOnlyVerifier" where
  "alert_unknown_jurisdictions v positions open_orders rv =
     alert_tickers v (sort (remdups (map pos_ticker positions @ map oo_ticker open_orders))) rv"

definition dispatch_alerts ::
    "venue_view \<Rightarrow> Position list \<Rightarrow> OpenOrder list \<Rightarrow> VerificationOutcome \<Rightarrow> 'f ReadOnlyVerifier \<Rightarrow>
     (vf_error + unit) \<times> 'f ReadOnlyVerifier" where
  "dispatch_alerts v positions open_orders outcome rv =
     (case alert_unknown_jurisdictions v positions open_orders rv of
        (Inl e, rv1) \<Rightarrow> (Inl e, rv1)
      | (Inr _, rv1) \<Rightarrow> (Inr (), if outcome = BREACH then vf_dispatch AlertType.RECONCILIATION_MISMATCH MISMATCH_MESSAGE rv1 else rv1))"

definition unobservable_venue_breach ::
    "int \<Rightarrow> LedgerExpectations \<Rightarrow> string \<Rightarrow> 'f ReadOnlyVerifier \<Rightarrow> VerificationSnapshot \<times> 'f ReadOnlyVerifier" where
  "unobservable_venue_breach now exps exc rv =
     (let s = \<lparr>vs_outcome = BREACH, balance_ok = False, position_ok = False, open_order_ok = False, verified_at_epoch_s = now,
               vs_exchange_verified_available_cash = IntUnit 0, cash_drift = vf_cash_drift (IntUnit 0) exps,
               semantics_fully_known = False\<rparr> in
      (s, vf_dispatch AlertType.RECONCILIATION_MISMATCH (UNREADABLE_MESSAGE @ '': '' @ exc) (vf_record s rv)))"

definition run_cycle ::
    "('f \<Rightarrow> (rebuild_error + Event list) \<times> 'f) \<Rightarrow> venue_view \<Rightarrow> int \<Rightarrow> 'f ReadOnlyVerifier \<Rightarrow>
     (vf_error + VerificationSnapshot) \<times> 'f ReadOnlyVerifier" where
  "run_cycle drain v now rv =
     (case get_expectations drain (rv_source rv) of
        (Inl e, src) \<Rightarrow> (Inl e, rv\<lparr>rv_source := src\<rparr>)
      | (Inr exps, src) \<Rightarrow>
          (let rv1 = rv\<lparr>rv_source := src\<rparr> in
           case res_bind (vv_positions v) (\<lambda>ps. res_bind (vv_open_orders v) (\<lambda>ords.
                  res_bind (vv_balances v) (\<lambda>b. res_bind (vv_semantics v) (\<lambda>sem. Inr (ps, ords, bal_available b, is_fully_known sem))))) of
             Inl exc \<Rightarrow> (let (s, rv2) = unobservable_venue_breach now exps exc rv1 in (Inr s, rv2))
           | Inr (ps, ords, cash, known) \<Rightarrow>
               (let drift = vf_cash_drift cash exps;
                    pdrift = position_drift ps exps;
                    oo_ok = open_orders_match ords exps;
                    b_ok = val drift \<le> val (balance_tolerance (rv_tolerances rv));
                    p_ok = pdrift \<le> val (position_tolerance (rv_tolerances rv));
                    outcome = classify b_ok p_ok oo_ok (val drift > 0 \<or> pdrift > 0);
                    s = \<lparr>vs_outcome = outcome, balance_ok = b_ok, position_ok = p_ok, open_order_ok = oo_ok, verified_at_epoch_s = now,
                         vs_exchange_verified_available_cash = cash, cash_drift = drift, semantics_fully_known = known\<rparr> in
                case dispatch_alerts v ps ords outcome (vf_record s rv1) of
                  (Inl e, rv2) \<Rightarrow> (Inl e, rv2)
                | (Inr _, rv2) \<Rightarrow> (Inr s, rv2))))"

section \<open>Interfaces\<close>

text \<open>What the expectation needs of the seam its entries come through: a drain returns everything that was put on the seam
  since the last one, in order, and nothing is returned twice. An item may show as no entry at all.\<close>

locale accounting_feed =
  fixes drain :: "'f \<Rightarrow> (rebuild_error + Event list) \<times> 'f"
    and pending :: "'f \<Rightarrow> Event list"
    and put :: "'i \<Rightarrow> 'f \<Rightarrow> 'f"
    and shown :: "'i \<Rightarrow> Event list"
    and feed_ok :: "'f \<Rightarrow> bool"
    and item_ok :: "'i \<Rightarrow> bool"
  assumes drain_all: "feed_ok f \<Longrightarrow> fst (drain f) = Inr (pending f)"
    and drained: "feed_ok f \<Longrightarrow> feed_ok (snd (drain f)) \<and> pending (snd (drain f)) = []"
    and put_ok: "feed_ok f \<Longrightarrow> item_ok i \<Longrightarrow> feed_ok (put i f)"
    and put_pending: "feed_ok f \<Longrightarrow> item_ok i \<Longrightarrow> pending (put i f) = pending f @ shown i"

section \<open>Lemmas\<close>

subsection \<open>The books\<close>

definition resting_ok :: "RestingOrder \<Rightarrow> bool" where
  "resting_ok ord =
     (0 \<le> consumed_centis ord \<and> 0 \<le> reserved_micros ord \<and>
      (if reserved_micros ord = 0 then released_micros ord = 0
       else 0 < total_centis ord \<and> released_micros ord = reserved_micros ord * consumed_centis ord div total_centis ord))"

definition books_ok :: "'f LedgerExpectationSource \<Rightarrow> bool" where
  "books_ok src = (dict_wf (es_open_orders src) \<and> list_all (\<lambda>(_, ord). resting_ok ord) (es_open_orders src))"

lemma books_okD: "books_ok src \<Longrightarrow> dict_get (es_open_orders src) oid = Some ord \<Longrightarrow> resting_ok ord"
  by (auto simp: books_ok_def list_all_iff dest!: dict_get_in_values)

lemma released_by_ok:
  assumes "resting_ok ord"
  shows "released_by ord consumed =
    Inr (if reserved_micros ord = 0 then 0 else reserved_micros ord * consumed div total_centis ord - released_micros ord)"
  using assms by (auto simp: released_by_def NO_RESERVATION_def resting_ok_def divide_int_nonzero floor_div_def)

lemma resting_ok_consume:
  assumes "resting_ok ord" and "consumed_centis ord \<le> consumed"
  shows "resting_ok (ord\<lparr>consumed_centis := consumed, released_micros := released_micros ord +
     (if reserved_micros ord = 0 then 0 else reserved_micros ord * consumed div total_centis ord - released_micros ord)\<rparr>)"
  using assms by (auto simp: resting_ok_def)

lemma books_ok_set:
  assumes "books_ok src" and "resting_ok ord"
  shows "books_ok (src\<lparr>es_open_orders := dict_set oid ord (es_open_orders src)\<rparr>)"
  using assms by (auto simp: books_ok_def dict.wf_set list_all_iff set_dict_set)

lemma books_ok_pop: "books_ok src \<Longrightarrow> books_ok (src\<lparr>es_open_orders := dict_pop oid (es_open_orders src)\<rparr>)"
  by (auto simp: books_ok_def dict.wf_pop list_all_iff set_dict_pop)

text \<open>Well-formed books never raise.\<close>

lemma consume_ok:
  assumes "books_ok src"
  shows "\<exists>r. fst (consume entry src) = Inr r \<and> books_ok (snd (consume entry src))"
proof -
  consider "fe_venue_order_id entry = []" | "dict_get (es_open_orders src) (fe_venue_order_id entry) = None" "fe_venue_order_id entry \<noteq> []"
    | (named) ord where "dict_get (es_open_orders src) (fe_venue_order_id entry) = Some ord" "fe_venue_order_id entry \<noteq> []" by fastforce
  then show ?thesis
  proof cases
    case named
    have ro: "resting_ok ord" by (rule books_okD [OF assms named(1)])
    let ?c = "min (consumed_centis ord + \<bar>val (fe_position_delta entry)\<bar>) (total_centis ord)"
    show ?thesis
    proof (cases "total_centis ord \<le> ?c")
      case True
      then show ?thesis using named books_ok_pop [OF assms] by (auto simp: consume_def Let_def released_by_ok [OF ro])
    next
      case False
      then have "consumed_centis ord \<le> ?c" by linarith
      from books_ok_set [OF assms resting_ok_consume [OF ro this]] False named show ?thesis
        by (auto simp: consume_def Let_def released_by_ok [OF ro])
    qed
  qed (use assms in \<open>auto simp: consume_def\<close>)
qed

lemma vf_advance_ok:
  assumes "books_ok src"
  shows "\<exists>r. fst (vf_advance e src) = Inr r \<and> books_ok (snd (vf_advance e src))"
proof -
  have arrival: "resting_ok \<lparr>total_centis = re_quantity_centis a, consumed_centis = 0, reserved_micros = re_reserved_micros a, released_micros = 0\<rparr>"
    if "resting_entry e = Some a" for a
    using that by (auto simp: resting_entry_def resting_ok_def NO_RESERVATION_def split: json.splits if_splits)
  show ?thesis
  proof (cases "event_type e = FILL_ACCOUNTED_EVENT_TYPE")
    case True
    show ?thesis
    proof (cases "fill_entry e")
      case None
      then show ?thesis using True assms by (simp add: vf_advance_def)
    next
      case (Some entry)
      from consume_ok [OF assms, of entry] True Some show ?thesis
        by (auto simp: vf_advance_def split: prod.splits option.splits)
    qed
  next
    case False
    show ?thesis
    proof (cases "resting_entry e")
      case None
      then show ?thesis using False assms by (simp add: vf_advance_def)
    next
      case (Some a)
      from books_ok_set [OF assms arrival [OF Some], of "re_venue_order_id a"] assms False Some show ?thesis
        by (simp add: vf_advance_def Let_def)
    qed
  qed
qed

lemma books_ok_fields [simp]:
  "books_ok (src\<lparr>es_expectations := x\<rparr>) = books_ok src" "books_ok (src\<lparr>es_unaccountable := u\<rparr>) = books_ok src"
  "books_ok (src\<lparr>es_fill_accounting := f\<rparr>) = books_ok src"
  by (simp_all add: books_ok_def)

lemma advance_all_ok:
  assumes "books_ok src"
  shows "fst (advance_all es src) = Inr () \<and> books_ok (snd (advance_all es src))"
  using assms
proof (induction es arbitrary: src)
  case (Cons e es)
  from vf_advance_ok [OF Cons.prems, of e] obtain r src1 where r: "vf_advance e src = (Inr r, src1)" "books_ok src1"
    by (metis prod.collapse)
  then show ?case using Cons.IH [of "src1\<lparr>es_expectations := the r\<rparr>"] by (cases r) simp_all
qed simp

subsection \<open>When the seam is read does not matter\<close>

lemma consume_feed:
  "consume entry (src\<lparr>es_fill_accounting := x\<rparr>) = map_prod id (\<lambda>s. s\<lparr>es_fill_accounting := x\<rparr>) (consume entry src)"
  by (auto simp: consume_def released_by_def Let_def split: option.splits sum.splits)

lemma vf_advance_feed:
  "vf_advance e (src\<lparr>es_fill_accounting := x\<rparr>) = map_prod id (\<lambda>s. s\<lparr>es_fill_accounting := x\<rparr>) (vf_advance e src)"
  by (auto simp: vf_advance_def consume_feed Let_def split: option.splits sum.splits prod.splits)

lemma advance_all_feed:
  "advance_all es (src\<lparr>es_fill_accounting := x\<rparr>) = map_prod id (\<lambda>s. s\<lparr>es_fill_accounting := x\<rparr>) (advance_all es src)"
proof (induction es arbitrary: src)
  case (Cons e es)
  have swap: "s\<lparr>es_fill_accounting := x, es_expectations := y\<rparr> = s\<lparr>es_expectations := y, es_fill_accounting := x\<rparr>"
    "s\<lparr>es_fill_accounting := x, es_unaccountable := u\<rparr> = s\<lparr>es_unaccountable := u, es_fill_accounting := x\<rparr>" for s y u
    by simp_all
  show ?case
    by (cases "vf_advance e src" rule: prod.exhaust; cases "fst (vf_advance e src)")
      (auto simp: vf_advance_feed swap Cons.IH split: option.splits)
qed simp

definition settle :: "Event list \<Rightarrow> 'f LedgerExpectationSource \<Rightarrow> 'f LedgerExpectationSource" where
  "settle es src = (if es_unaccountable src then src else snd (advance_all es src))"

lemma settle_Nil [simp]: "settle [] src = src"
  by (simp add: settle_def)

lemma consume_latch: "es_unaccountable (snd (consume entry src)) = es_unaccountable src"
  by (auto simp: consume_def Let_def split: option.splits sum.splits)

lemma vf_advance_latch: "es_unaccountable (snd (vf_advance e src)) = es_unaccountable src"
proof -
  have "es_unaccountable src1 = es_unaccountable src" if "consume entry src = (r, src1)" for entry r src1
    using consume_latch [of entry src] that by simp
  then show ?thesis by (auto simp: vf_advance_def Let_def split: option.splits sum.splits prod.splits)
qed

lemma settle_append:
  assumes "books_ok src"
  shows "settle (es @ fs) src = settle fs (settle es src)"
  using assms
proof (induction es arbitrary: src)
  case (Cons e es)
  show ?case
  proof (cases "es_unaccountable src")
    case True
    then show ?thesis by (simp add: settle_def)
  next
    case False
    from vf_advance_ok [OF Cons.prems, of e] obtain r src1 where r: "vf_advance e src = (Inr r, src1)" "books_ok src1" by (metis prod.collapse)
    show ?thesis
    proof (cases r)
      case None
      then show ?thesis using False r by (simp add: settle_def)
    next
      case (Some exps)
      have "\<not> es_unaccountable (src1\<lparr>es_expectations := exps\<rparr>)" using vf_advance_latch [of e src] r False by simp
      then show ?thesis using False r Some Cons.IH [of "src1\<lparr>es_expectations := exps\<rparr>"] by (simp add: settle_def)
    qed
  qed
qed simp

lemma settle_ok: "books_ok src \<Longrightarrow> books_ok (settle es src)"
  using advance_all_ok by (auto simp: settle_def)

lemma settle_feed: "settle es (src\<lparr>es_fill_accounting := x\<rparr>) = (settle es src)\<lparr>es_fill_accounting := x\<rparr>"
  by (simp add: settle_def advance_all_feed)

datatype 'i feed_step = Put 'i | Read

fun feed_run ::
    "('f \<Rightarrow> (rebuild_error + Event list) \<times> 'f) \<Rightarrow> ('i \<Rightarrow> 'f \<Rightarrow> 'f) \<Rightarrow> 'i feed_step list \<Rightarrow> 'f LedgerExpectationSource \<Rightarrow> 'f LedgerExpectationSource" where
  "feed_run drain put [] src = src"
| "feed_run drain put (Put i # ss) src =
     feed_run drain put ss (src\<lparr>es_fill_accounting := map_option (put i) (es_fill_accounting src)\<rparr>)"
| "feed_run drain put (Read # ss) src = feed_run drain put ss (snd (get_expectations drain src))"

fun put_items :: "'i feed_step list \<Rightarrow> 'i list" where
  "put_items [] = []"
| "put_items (Put i # ss) = i # put_items ss"
| "put_items (Read # ss) = put_items ss"

context accounting_feed
begin

lemma read_settles:
  assumes "es_fill_accounting src = Some f" and "feed_ok f" and "books_ok src"
  shows "fst (get_expectations drain src) = Inr (es_expectations (settle (pending f) src))"
    "\<exists>f'. snd (get_expectations drain src) = (settle (pending f) src)\<lparr>es_fill_accounting := Some f'\<rparr> \<and> feed_ok f' \<and>
       (es_unaccountable src \<or> pending f' = [])"
proof -
  obtain f' where d: "drain f = (Inr (pending f), f')" using drain_all [OF assms(2)] by (cases "drain f") simp
  have f': "feed_ok f'" "pending f' = []" using drained [OF assms(2)] d by simp_all
  have noop: "src\<lparr>es_fill_accounting := Some f\<rparr> = src" using assms(1) by simp
  obtain src1 where a: "advance_all (pending f) src = (Inr (), src1)"
    using advance_all_ok [OF assms(3), of "pending f"] by (cases "advance_all (pending f) src") simp
  show "fst (get_expectations drain src) = Inr (es_expectations (settle (pending f) src))"
    using assms(1) d a by (simp add: get_expectations_def settle_def advance_all_feed)
  show "\<exists>f'. snd (get_expectations drain src) = (settle (pending f) src)\<lparr>es_fill_accounting := Some f'\<rparr> \<and> feed_ok f' \<and>
       (es_unaccountable src \<or> pending f' = [])"
  proof (cases "es_unaccountable src")
    case True
    then show ?thesis using assms(1,2) noop by (intro exI [of _ f]) (simp add: get_expectations_def settle_def)
  next
    case False
    then show ?thesis using assms(1) d a f' by (intro exI [of _ f']) (simp add: get_expectations_def settle_def advance_all_feed)
  qed
qed

lemma settle_latched: "es_unaccountable src \<Longrightarrow> settle es src = src"
  by (simp add: settle_def)

lemma schedule_settles:
  assumes "es_fill_accounting src = Some f" and "feed_ok f" and "books_ok src" and "list_all item_ok (put_items ss)"
  shows "\<exists>f'. es_fill_accounting (feed_run drain put ss src) = Some f' \<and> feed_ok f' \<and> books_ok (feed_run drain put ss src) \<and>
    (settle (pending f') (feed_run drain put ss src))\<lparr>es_fill_accounting := None\<rparr> =
    (settle (pending f @ concat (map shown (put_items ss))) src)\<lparr>es_fill_accounting := None\<rparr>"
  using assms
proof (induction ss arbitrary: src f)
  case (Cons s ss)
  show ?case
  proof (cases s)
    case (Put i)
    let ?src = "src\<lparr>es_fill_accounting := Some (put i f)\<rparr>"
    have i: "item_ok i" "list_all item_ok (put_items ss)" using Cons.prems(4) Put by simp_all
    have "feed_ok (put i f)" "books_ok ?src" using put_ok [OF Cons.prems(2) i(1)] Cons.prems(3) by simp_all
    from Cons.IH [OF _ this i(2)] show ?thesis
      using Put Cons.prems(1) put_pending [OF Cons.prems(2) i(1)] by (simp add: settle_feed)
  next
    case Read
    from read_settles(2) [OF Cons.prems(1-3)] obtain f' where
      f': "snd (get_expectations drain src) = (settle (pending f) src)\<lparr>es_fill_accounting := Some f'\<rparr>" "feed_ok f'"
        "es_unaccountable src \<or> pending f' = []" by blast
    let ?src = "(settle (pending f) src)\<lparr>es_fill_accounting := Some f'\<rparr>"
    have ok: "books_ok ?src" using settle_ok [OF Cons.prems(3)] by simp
    have "settle (pending f' @ xs) (settle (pending f) src) = settle (pending f @ xs) src" for xs
      using f'(3) settle_append [OF Cons.prems(3)] by (auto simp: settle_latched)
    then show ?thesis using Cons.IH [OF _ f'(2) ok] Cons.prems(4) Read f'(1) by (simp add: settle_feed)
  qed
qed auto

lemma reads_are_one_fold:
  assumes "es_fill_accounting src = Some f" and "feed_ok f" and "pending f = []" and "books_ok src" and "list_all item_ok (put_items ss)"
  shows "fst (get_expectations drain (feed_run drain put ss src)) =
    Inr (es_expectations (settle (concat (map shown (put_items ss))) src))"
proof -
  from schedule_settles [OF assms(1,2,4,5)] obtain f' where f': "es_fill_accounting (feed_run drain put ss src) = Some f'" "feed_ok f'"
    "books_ok (feed_run drain put ss src)"
    "(settle (pending f') (feed_run drain put ss src))\<lparr>es_fill_accounting := None\<rparr> =
     (settle (concat (map shown (put_items ss))) src)\<lparr>es_fill_accounting := None\<rparr>" using assms(3) by auto
  from arg_cong [OF f'(4), of es_expectations] read_settles(1) [OF f'(1-3)] show ?thesis by simp
qed

end

subsection \<open>Grading\<close>

lemma fold_max_le: "fold max ds (d::int) \<le> b \<longleftrightarrow> d \<le> b \<and> (\<forall>x \<in> set ds. x \<le> b)"
  by (induction ds arbitrary: d) auto

lemma position_drift_le:
  assumes "0 \<le> b"
  shows "position_drift ps exps \<le> b \<longleftrightarrow> (\<forall>t. \<bar>quantity_of (positions_dict ps) t - quantity_of (expected_positions exps) t\<bar> \<le> b)"
proof -
  let ?ts = "remdups (map fst (positions_dict ps) @ map fst (expected_positions exps))"
  let ?diff = "\<lambda>t. \<bar>quantity_of (positions_dict ps) t - quantity_of (expected_positions exps) t\<bar>"
  have "position_drift ps exps \<le> b \<longleftrightarrow> (\<forall>t \<in> set ?ts. ?diff t \<le> b)"
  proof -
    have "(case ds of [] \<Rightarrow> 0 | d # ds \<Rightarrow> fold max ds d) \<le> b \<longleftrightarrow> (\<forall>x \<in> set ds. x \<le> b)" for ds
      using assms by (cases ds) (simp_all add: fold_max_le)
    then show ?thesis unfolding position_drift_def Let_def by (simp only: set_map ball_simps)
  qed
  moreover have "?diff t = 0" if "t \<notin> set ?ts" for t
    using that by (auto simp: quantity_of_def dict_get_keys [THEN iffD2] split: option.splits)
  ultimately show ?thesis using assms by (metis (no_types, lifting))
qed

lemma venue_Inl: "venue r = Inl e \<Longrightarrow> \<exists>x. e = VenueRaised x"
  by (cases r) (auto simp: venue_def)

lemma alert_tickers_keeps:
  "rv_events (snd (alert_tickers v ts rv)) = rv_events rv \<and>
   (\<exists>as. rv_alerts (snd (alert_tickers v ts rv)) = rv_alerts rv @ as \<and> (\<forall>a \<in> set as. fst a = AlertType.JURISDICTION_UNKNOWN))"
proof (induction ts arbitrary: rv)
  case (Cons t ts)
  show ?case
  proof (cases "vv_market v t")
    case (Inr m)
    let ?rv = "if nm_jurisdiction_status m = UNKNOWN_JURISDICTION
           then vf_dispatch AlertType.JURISDICTION_UNKNOWN (''held market '' @ t @ '' has unknown jurisdiction status'') rv else rv"
    from Cons.IH [of ?rv] Inr show ?thesis by (auto simp: venue_def vf_dispatch_def)
  qed (simp add: venue_def)
qed simp

lemma readable_cycle:
  assumes "get_expectations drain (rv_source rv) = (Inr exps, src)"
    and "0 \<le> val (balance_tolerance (rv_tolerances rv))" and "0 \<le> val (position_tolerance (rv_tolerances rv))"
    and read: "vv_positions v = Inr ps" "vv_open_orders v = Inr ords" "vv_balances v = Inr b" "vv_semantics v = Inr sem"
  shows "\<exists>s. vs_outcome s = (if val (balance_tolerance (rv_tolerances rv)) < \<bar>val (bal_available b) - val (expected_available_cash exps)\<bar> \<or>
              (\<exists>t. val (position_tolerance (rv_tolerances rv)) <
                 \<bar>quantity_of (positions_dict ps) t - quantity_of (expected_positions exps) t\<bar>) \<or>
              oo_id ` set ords \<noteq> expected_open_order_ids exps then BREACH
            else if val (bal_available b) = val (expected_available_cash exps) \<and>
              (\<forall>t. quantity_of (positions_dict ps) t = quantity_of (expected_positions exps) t) then CLEAN
            else DRIFT_WITHIN_TOLERANCE) \<and>
          rv_events (snd (run_cycle drain v now rv)) = rv_events rv @ [snapshot_event s] \<and>
          (fst (run_cycle drain v now rv) = Inr s \<or> (\<exists>x. fst (run_cycle drain v now rv) = Inl (VenueRaised x)))"
proof -
  let ?tol = "val (balance_tolerance (rv_tolerances rv))" and ?ptol = "val (position_tolerance (rv_tolerances rv))"
  let ?drift = "\<bar>val (bal_available b) - val (expected_available_cash exps)\<bar>"
  let ?out = "classify (?drift \<le> ?tol) (position_drift ps exps \<le> ?ptol) (open_orders_match ords exps) (?drift > 0 \<or> position_drift ps exps > 0)"
  define s where "s = \<lparr>vs_outcome = ?out, balance_ok = ?drift \<le> ?tol, position_ok = position_drift ps exps \<le> ?ptol,
      open_order_ok = open_orders_match ords exps, verified_at_epoch_s = now, vs_exchange_verified_available_cash = bal_available b,
      cash_drift = IntUnit ?drift, semantics_fully_known = is_fully_known sem\<rparr>"
  let ?rv = "vf_record s (rv\<lparr>rv_source := src\<rparr>)"
  have run: "run_cycle drain v now rv = (case dispatch_alerts v ps ords ?out ?rv of (Inl e, rv2) \<Rightarrow> (Inl e, rv2) | (Inr _, rv2) \<Rightarrow> (Inr s, rv2))"
    unfolding run_cycle_def assms(1) read s_def by (simp add: vf_cash_drift_def Let_def cong: prod.case_cong sum.case_cong)
  have keeps: "rv_events (snd (dispatch_alerts v ps ords ?out ?rv)) = rv_events rv @ [snapshot_event s]"
    using alert_tickers_keeps [of v "sort (remdups (map pos_ticker ps @ map oo_ticker ords))" ?rv]
    by (auto simp: dispatch_alerts_def alert_unknown_jurisdictions_def vf_record_def vf_dispatch_def log_record_def split: prod.splits sum.splits)
  have raised: "\<exists>x. e = VenueRaised x" if "alert_tickers v ts rv' = (Inl e, rv'')" for ts rv' e rv''
    using that by (induction ts arbitrary: rv') (auto split: sum.splits dest: venue_Inl)
  have "fst (run_cycle drain v now rv) = Inr s \<or> (\<exists>x. fst (run_cycle drain v now rv) = Inl (VenueRaised x))"
    unfolding run dispatch_alerts_def alert_unknown_jurisdictions_def
    by (auto split: prod.splits sum.splits dest: raised)
  moreover have "rv_events (snd (run_cycle drain v now rv)) = rv_events rv @ [snapshot_event s]"
    using keeps unfolding run by (auto split: prod.splits sum.splits)
  moreover have "vs_outcome s = (if ?tol < ?drift \<or> (\<exists>t. ?ptol < \<bar>quantity_of (positions_dict ps) t - quantity_of (expected_positions exps) t\<bar>) \<or>
      oo_id ` set ords \<noteq> expected_open_order_ids exps then BREACH
      else if val (bal_available b) = val (expected_available_cash exps) \<and>
        (\<forall>t. quantity_of (positions_dict ps) t = quantity_of (expected_positions exps) t) then CLEAN else DRIFT_WITHIN_TOLERANCE)"
  proof -
    have "position_drift ps exps \<le> 0 \<longleftrightarrow> (\<forall>t. quantity_of (positions_dict ps) t = quantity_of (expected_positions exps) t)"
      using position_drift_le [of 0 ps exps] by simp
    then show ?thesis
      unfolding s_def VerificationSnapshot.simps classify_def open_orders_match_def position_drift_le [OF assms(3)] not_le [symmetric]
      by (auto simp: not_le)
  qed
  ultimately show ?thesis by (intro exI [of _ s] conjI)
qed

subsection \<open>Releases\<close>

fun consume_all :: "FillEntry list \<Rightarrow> 'f LedgerExpectationSource \<Rightarrow> int list option \<times> 'f LedgerExpectationSource" where
  "consume_all [] src = (Some [], src)"
| "consume_all (e # es) src =
     (case consume e src of
        (Inr (Some r), src1) \<Rightarrow> (case consume_all es src1 of (rs, src2) \<Rightarrow> (map_option ((#) r) rs, src2))
      | (_, src1) \<Rightarrow> (None, src1))"

definition drawn :: "FillEntry list \<Rightarrow> int" where
  "drawn es = (\<Sum>e \<leftarrow> es. \<bar>val (fe_position_delta e)\<bar>)"

lemma drawn_nonneg: "0 \<le> drawn es"
  by (induction es) (simp_all add: drawn_def)

lemma consume_all_exact:
  assumes "dict_get (es_open_orders src) oid = Some \<lparr>total_centis = n, consumed_centis = c, reserved_micros = r, released_micros = r * c div n\<rparr>"
    and "0 \<le> r" and "0 \<le> c" and "c < n" and "oid \<noteq> []" and "list_all (\<lambda>e. fe_venue_order_id e = oid) es"
    and "es \<noteq> [] \<Longrightarrow> c + drawn (butlast es) < n"
  shows "\<exists>rs. fst (consume_all es src) = Some rs \<and> sum_list rs = r * min (c + drawn es) n div n - r * c div n \<and> list_all ((\<le>) 0) rs \<and>
    (dict_get (es_open_orders (snd (consume_all es src))) oid = None) = (n \<le> c + drawn es)"
  using assms
proof (induction es arbitrary: src c)
  case Nil
  then show ?case by (simp add: drawn_def)
next
  case (Cons e es)
  let ?q = "\<bar>val (fe_position_delta e)\<bar>"
  let ?ord = "\<lparr>total_centis = n, consumed_centis = c, reserved_micros = r, released_micros = r * c div n\<rparr>"
  let ?c = "min (c + ?q) n"
  have oid: "fe_venue_order_id e = oid" using Cons.prems(6) by simp
  have n: "0 < n" using Cons.prems(3,4) by linarith
  have ro: "resting_ok ?ord" using Cons.prems(2,3) n by (simp add: resting_ok_def)
  have rel: "released_by ?ord ?c = Inr (r * ?c div n - r * c div n)"
    using released_by_ok [OF ro, of ?c] by auto
  have le: "r * c div n \<le> r * ?c div n"
    using Cons.prems(2,4) n by (intro zdiv_mono1 mult_left_mono) simp_all
  show ?case
  proof (cases "n \<le> c + ?q")
    case True
    have "es = []"
    proof (rule ccontr)
      assume "es \<noteq> []"
      then have "drawn (butlast (e # es)) = ?q + drawn (butlast es)" by (simp add: drawn_def)
      with Cons.prems(7) drawn_nonneg [of "butlast es"] True show False by simp
    qed
    with True Cons.prems(1,5) rel oid le show ?thesis
      by (simp add: consume_def Let_def drawn_def dict.get_pop min_absorb2)
  next
    case False
    let ?src = "src\<lparr>es_open_orders := dict_set oid (?ord\<lparr>consumed_centis := ?c, released_micros := r * ?c div n\<rparr>) (es_open_orders src)\<rparr>"
    have step: "consume e src = (Inr (Some (r * ?c div n - r * c div n)), ?src)"
      using False Cons.prems(1,5) rel oid by (simp add: consume_def Let_def)
    have get: "dict_get (es_open_orders ?src) oid = Some \<lparr>total_centis = n, consumed_centis = ?c, reserved_micros = r, released_micros = r * ?c div n\<rparr>"
      by (simp add: dict.get_set)
    have c: "?c = c + ?q" using False by simp
    have "es \<noteq> [] \<Longrightarrow> ?c + drawn (butlast es) < n" using Cons.prems(7) c by (simp add: drawn_def)
    from Cons.IH [OF get Cons.prems(2) _ _ Cons.prems(5) _ this] Cons.prems(3,6) False obtain rs where rs:
      "fst (consume_all es ?src) = Some rs" "sum_list rs = r * min (?c + drawn es) n div n - r * ?c div n" "list_all ((\<le>) 0) rs"
      "(dict_get (es_open_orders (snd (consume_all es ?src))) oid = None) = (n \<le> ?c + drawn es)" by auto
    have dr: "c + drawn (e # es) = ?c + drawn es" unfolding c by (simp add: drawn_def)
    have "consume_all (e # es) src = (Some ((r * ?c div n - r * c div n) # rs), snd (consume_all es ?src))"
      using step rs(1) by (simp add: split_beta)
    then show ?thesis unfolding dr using rs le by simp
  qed
qed

section \<open>Properties\<close>

text \<open>C20. The grade is exact. A cycle that can read the venue is a breach exactly if available cash is off by more than its
  tolerance, some market's position is off by more than its tolerance or the open orders are not the expected
  ones (no tolerance); it is clean exactly if all three agree exactly; otherwise it is drift. A cycle that cannot
  read it is a breach of all three, with the text of the failure in the alert. Either way exactly one event is
  recorded, named after the outcome, whatever the alerting then does.\<close>

theorem cycle_grades_exactly:
  assumes "get_expectations drain (rv_source rv) = (Inr exps, src)"
    and "0 \<le> val (balance_tolerance (rv_tolerances rv))" and "0 \<le> val (position_tolerance (rv_tolerances rv))"
  shows "case (vv_positions v, vv_open_orders v, vv_balances v, vv_semantics v) of
      (Inr ps, Inr ords, Inr b, Inr sem) \<Rightarrow>
        (\<exists>s. vs_outcome s = (if val (balance_tolerance (rv_tolerances rv)) < \<bar>val (bal_available b) - val (expected_available_cash exps)\<bar> \<or>
              (\<exists>t. val (position_tolerance (rv_tolerances rv)) <
                 \<bar>quantity_of (positions_dict ps) t - quantity_of (expected_positions exps) t\<bar>) \<or>
              oo_id ` set ords \<noteq> expected_open_order_ids exps then BREACH
            else if val (bal_available b) = val (expected_available_cash exps) \<and>
              (\<forall>t. quantity_of (positions_dict ps) t = quantity_of (expected_positions exps) t) then CLEAN
            else DRIFT_WITHIN_TOLERANCE) \<and>
          rv_events (snd (run_cycle drain v now rv)) = rv_events rv @ [snapshot_event s] \<and>
          (fst (run_cycle drain v now rv) = Inr s \<or> (\<exists>x. fst (run_cycle drain v now rv) = Inl (VenueRaised x))))
    | _ \<Rightarrow> (\<exists>s exc. fst (run_cycle drain v now rv) = Inr s \<and> vs_outcome s = BREACH \<and> \<not> balance_ok s \<and> \<not> position_ok s \<and> \<not> open_order_ok s \<and>
          rv_events (snd (run_cycle drain v now rv)) = rv_events rv @ [snapshot_event s] \<and>
          rv_alerts (snd (run_cycle drain v now rv)) =
            rv_alerts rv @ [(AlertType.RECONCILIATION_MISMATCH, UNREADABLE_MESSAGE @ '': '' @ exc)])"
proof (cases "\<exists>ps ords b sem. vv_positions v = Inr ps \<and> vv_open_orders v = Inr ords \<and> vv_balances v = Inr b \<and> vv_semantics v = Inr sem")
  case False
  then obtain exc where "res_bind (vv_positions v) (\<lambda>ps. res_bind (vv_open_orders v) (\<lambda>ords.
      res_bind (vv_balances v) (\<lambda>b. res_bind (vv_semantics v) (\<lambda>sem. Inr (ps, ords, bal_available b, is_fully_known sem))))) = Inl exc"
    by (cases "vv_positions v"; cases "vv_open_orders v"; cases "vv_balances v"; cases "vv_semantics v") auto
  with assms(1) have "\<exists>s exc. fst (run_cycle drain v now rv) = Inr s \<and> vs_outcome s = BREACH \<and> \<not> balance_ok s \<and> \<not> position_ok s \<and> \<not> open_order_ok s \<and>
          rv_events (snd (run_cycle drain v now rv)) = rv_events rv @ [snapshot_event s] \<and>
          rv_alerts (snd (run_cycle drain v now rv)) =
            rv_alerts rv @ [(AlertType.RECONCILIATION_MISMATCH, UNREADABLE_MESSAGE @ '': '' @ exc)]"
    by (auto simp: run_cycle_def unobservable_venue_breach_def vf_record_def vf_dispatch_def log_record_def Let_def)
  with False show ?thesis by (auto split: sum.splits)
next
  case True
  then obtain ps ords b sem where read: "vv_positions v = Inr ps" "vv_open_orders v = Inr ords" "vv_balances v = Inr b" "vv_semantics v = Inr sem" by blast
  from readable_cycle [OF assms read] show ?thesis unfolding read prod.case sum.case .
qed

definition sample_exps :: LedgerExpectations where
  "sample_exps = \<lparr>expected_available_cash = IntUnit 1000, expected_positions = [(''KX'', IntUnit 50)], expected_open_order_ids = {''o1''}\<rparr>"

definition sample_verifier :: "unit ReadOnlyVerifier" where
  "sample_verifier = \<lparr>rv_source = \<lparr>es_fill_accounting = None, es_unaccountable = False,
       es_open_orders = [(''o1'', \<lparr>total_centis = 300, consumed_centis = 0, reserved_micros = 1000, released_micros = 0\<rparr>)],
       es_expectations = sample_exps\<rparr>,
     rv_tolerances = \<lparr>balance_tolerance = IntUnit 10, position_tolerance = IntUnit 0\<rparr>, rv_events = [], rv_alerts = []\<rparr>"

definition sample_semantics_known :: BalanceSemantics where
  "sample_semantics_known = \<lparr>open_order_collateral_in_total = TOTAL_INCLUDED, open_order_collateral_in_available = DEDUCTED_FROM_AVAILABLE,
     fee_debit_timing = AT_EXECUTION, fee_rounding = FEE_EXACT, partial_fill_representation = PER_FILL_RECORDS,
     cancel_collateral_release = RELEASE_IMMEDIATE, unsettled_proceeds = EXCLUDED_UNTIL_CREDITED, halted_market_behavior = NEW_ORDERS_REJECTED\<rparr>"

definition sample_view :: "OpenOrder list \<Rightarrow> venue_view" where
  "sample_view ords = \<lparr>vv_market = (\<lambda>_. Inl ''no market''), vv_balances = Inr \<lparr>bal_total = IntUnit 2000, bal_available = IntUnit 995, bal_fetched_at = 0\<rparr>,
     vv_semantics = Inr sample_semantics_known,
     vv_positions = Inr [\<lparr>pos_ticker = ''KX'', pos_quantity = IntUnit 50, pos_average_price = IntUnit 4000\<rparr>], vv_open_orders = Inr ords\<rparr>"

theorem cycle_grades_exactly_witness:
  "\<exists>s. vs_outcome s = BREACH \<and> rv_events (snd (run_cycle (\<lambda>f. (Inr [], f)) (sample_view []) 7 sample_verifier)) = [snapshot_event s]"
proof -
  have "get_expectations (\<lambda>f. (Inr [], f)) (rv_source sample_verifier) = (Inr sample_exps, rv_source sample_verifier)"
    by (simp add: get_expectations_def sample_verifier_def)
  from cycle_grades_exactly [OF this, of "sample_view []" 7]
  have "\<exists>s. vs_outcome s = (if (10::int) < 5 \<or> (\<exists>t. (0::int) < \<bar>quantity_of (positions_dict [\<lparr>pos_ticker = ''KX'', pos_quantity = IntUnit 50, pos_average_price = IntUnit 4000\<rparr>]) t -
        quantity_of (expected_positions sample_exps) t\<bar>) \<or> oo_id ` set [] \<noteq> expected_open_order_ids sample_exps then BREACH
      else if (995::int) = 1000 \<and> (\<forall>t. quantity_of (positions_dict [\<lparr>pos_ticker = ''KX'', pos_quantity = IntUnit 50, pos_average_price = IntUnit 4000\<rparr>]) t =
        quantity_of (expected_positions sample_exps) t) then CLEAN else DRIFT_WITHIN_TOLERANCE) \<and>
      rv_events (snd (run_cycle (\<lambda>f. (Inr [], f)) (sample_view []) 7 sample_verifier)) = rv_events sample_verifier @ [snapshot_event s]"
    by (fastforce simp: sample_view_def sample_verifier_def sample_exps_def)
  moreover have "oo_id ` set [] \<noteq> expected_open_order_ids sample_exps" "rv_events sample_verifier = []"
    by (simp_all add: sample_exps_def sample_verifier_def)
  ultimately show ?thesis by auto
qed

text \<open>A reservation is given back exactly. Drawing a resting order down by any sequence of fills releases,
  altogether, the share of its reservation that the quantity consumed is of its size, rounded down once and not once per
  fill; never a negative amount; and once the order is used up exactly the whole reservation, at which
  point the order is off the books, and not before.\<close>

theorem reservation_released_exactly:
  assumes "dict_get (es_open_orders src) oid = Some \<lparr>total_centis = n, consumed_centis = 0, reserved_micros = r, released_micros = 0\<rparr>"
    and "0 \<le> r" and "0 < n" and "oid \<noteq> []" and "list_all (\<lambda>e. fe_venue_order_id e = oid) es" and "drawn (butlast es) < n"
  shows "\<exists>rs. fst (consume_all es src) = Some rs \<and> sum_list rs = r * min (drawn es) n div n \<and> list_all ((\<le>) 0) rs \<and>
    (dict_get (es_open_orders (snd (consume_all es src))) oid = None) = (n \<le> drawn es) \<and> (n \<le> drawn es \<longrightarrow> sum_list rs = r)"
  using consume_all_exact [of src oid n 0 r es] assms by (fastforce simp: min_absorb2)

theorem reservation_released_exactly_witness:
  "\<exists>rs. fst (consume_all (map (\<lambda>q. \<lparr>fe_ticker = ''KX'', fe_cash_delta = IntUnit 0, fe_position_delta = IntUnit q, fe_venue_order_id = ''o1''\<rparr>) [100, 100, -100])
      (rv_source sample_verifier)) = Some rs \<and> rs = [333, 333, 334] \<and> sum_list rs = 1000"
proof -
  let ?es = "map (\<lambda>q. \<lparr>fe_ticker = ''KX'', fe_cash_delta = IntUnit 0, fe_position_delta = IntUnit q, fe_venue_order_id = ''o1''\<rparr>) [100, 100, -100]"
  have v: "fst (consume_all ?es (rv_source sample_verifier)) = Some [333, 333, 334]" by code_simp
  have "list_all (\<lambda>e. fe_venue_order_id e = ''o1'') ?es" "drawn (butlast ?es) < 300" "(300::int) \<le> drawn ?es" by code_simp+
  with reservation_released_exactly [of "rv_source sample_verifier" "''o1''" 300 1000 ?es] v show ?thesis
    by (auto simp: sample_verifier_def dict_get_def)
qed

end
