(* ===== verification/Fills.thy ===== *)
theory Fills
  imports Fees Venue "HOL-Library.Multiset"
begin

text \<open>
  The pessimistic paper-fill primitives (\<open>windbreak/connector/fills.py\<close>): the participation cap, the walk
  of a taker order over the book, the trade-through rule for resting orders and the allocation of one
  step's trade volume to the orders that compete for it.
\<close>

section \<open>Definitions\<close>

definition FILL_PPM_DENOMINATOR :: int where "FILL_PPM_DENOMINATOR = 1000000"
definition DEFAULT_FEE_HAIRCUT_PPM :: int where "DEFAULT_FEE_HAIRCUT_PPM = 250000"
definition DEFAULT_MAX_PARTICIPATION_PPM :: int where "DEFAULT_MAX_PARTICIPATION_PPM = 250000"
definition MONEY_ROUNDING :: RoundingDirection where "MONEY_ROUNDING = OVERSTATE_COST"
definition SIZE_ROUNDING :: RoundingDirection where "SIZE_ROUNDING = UNDERSTATE_EQUITY"

fun rounding_name :: "RoundingDirection \<Rightarrow> string" where
  "rounding_name OVERSTATE_COST = ''OVERSTATE_COST''"
| "rounding_name UNDERSTATE_EQUITY = ''UNDERSTATE_EQUITY''"

fun join_with :: "string \<Rightarrow> string list \<Rightarrow> string" where
  "join_with sep [] = ''''"
| "join_with sep [s] = s"
| "join_with sep (s # t # ss) = s @ sep @ join_with sep (t # ss)"

definition MODEL_CANON :: string where
  "MODEL_CANON = join_with '';''
     [''windbreak.paper-fill-model'', ''spec=S17.4'',
      ''default_fee_haircut_ppm='' @ show_int DEFAULT_FEE_HAIRCUT_PPM,
      ''default_max_participation_ppm='' @ show_int DEFAULT_MAX_PARTICIPATION_PPM,
      ''ppm_denominator='' @ show_int FILL_PPM_DENOMINATOR,
      ''money_rounding='' @ rounding_name MONEY_ROUNDING,
      ''size_rounding='' @ rounding_name SIZE_ROUNDING,
      ''taker=walk-eligible-levels-best-first-capped-by-participation'',
      ''resting=trade-through-only-touch-never-fills-capped-by-participation'']"

definition PAPER_FILL_MODEL_VERSION :: "(string \<Rightarrow> string) \<Rightarrow> string" where
  "PAPER_FILL_MODEL_VERSION sha = sha MODEL_CANON"

record TradePrint =
  tp_price :: PricePips
  tp_quantity :: ContractCentis
  tp_ts :: int

record TakerFillResult =
  tf_consumed :: "OrderBookLevel list"
  tf_filled :: ContractCentis
  tf_book_cost :: MoneyMicros
  tf_fee :: MoneyMicros
  tf_haircut :: MoneyMicros
  tf_total_cost :: MoneyMicros

definition participation_cap :: "ContractCentis \<Rightarrow> int \<Rightarrow> ContractCentis" where
  "participation_cap depth max_participation_ppm =
     IntUnit (projr (divide_int (val depth * max_participation_ppm) FILL_PPM_DENOMINATOR SIZE_ROUNDING))"

definition eligible_levels :: "OrderBookLevel list \<Rightarrow> PricePips \<Rightarrow> OrderBookLevel list" where
  "eligible_levels levels limit = filter (\<lambda>l. lvl_price l \<le> limit) levels"

fun consume_levels :: "OrderBookLevel list \<Rightarrow> int \<Rightarrow> FeeModel \<Rightarrow> num_error + (OrderBookLevel list \<times> int \<times> int)" where
  "consume_levels [] remaining fm = Inr ([], 0, 0)"
| "consume_levels (l # ls) remaining fm =
     (if remaining \<le> 0 then Inr ([], 0, 0)
      else if val (lvl_quantity l) \<le> 0 then consume_levels ls remaining fm
      else (let take = min remaining (val (lvl_quantity l)) in
        res_bind (money_from_price_and_count (lvl_price l) (IntUnit take) MONEY_ROUNDING) (\<lambda>cost.
        res_bind (max_trading_fee_micros fm (PyInt (val (lvl_price l))) (PyInt take)) (\<lambda>fee.
        res_bind (consume_levels ls (remaining - take) fm) (\<lambda>(consumed, book_cost, fees).
          Inr (\<lparr>lvl_price = lvl_price l, lvl_quantity = IntUnit take\<rparr> # consumed, val cost + book_cost, fee + fees))))))"

definition walk_taker_fill ::
    "OrderBookLevel list \<Rightarrow> PricePips \<Rightarrow> ContractCentis \<Rightarrow> FeeModel \<Rightarrow> int \<Rightarrow> int \<Rightarrow> num_error + TakerFillResult" where
  "walk_taker_fill levels limit requested fm haircut_ppm max_participation_ppm =
     (let eligible = eligible_levels levels limit;
          eligible_depth = IntUnit (\<Sum>l \<leftarrow> eligible. val (lvl_quantity l));
          allowed = participation_cap eligible_depth max_participation_ppm;
          filled = min (val requested) (val allowed) in
      res_bind (consume_levels eligible filled fm) (\<lambda>(consumed, book_cost, fee).
      res_bind (divide_int (fee * haircut_ppm) FILL_PPM_DENOMINATOR MONEY_ROUNDING) (\<lambda>haircut.
        Inr \<lparr>tf_consumed = consumed, tf_filled = IntUnit filled, tf_book_cost = IntUnit book_cost,
             tf_fee = IntUnit fee, tf_haircut = IntUnit haircut, tf_total_cost = IntUnit (book_cost + fee + haircut)\<rparr>)))"

subsection \<open>Resting orders\<close>

definition resting_fill_quantity ::
    "PricePips \<Rightarrow> ContractCentis \<Rightarrow> TradePrint list \<Rightarrow> ContractCentis \<Rightarrow> int \<Rightarrow> ContractCentis" where
  "resting_fill_quantity limit remaining prints depth_at_or_better max_participation_ppm =
     (let through_volume = (\<Sum>p \<leftarrow> filter (\<lambda>p. tp_price p < limit) prints. val (tp_quantity p));
          cap = participation_cap depth_at_or_better max_participation_ppm in
      IntUnit (min (min (val remaining) (val cap)) through_volume))"

record RestingFillRequest =
  rq_limit :: PricePips
  rq_remaining :: ContractCentis
  rq_depth_at_or_better :: ContractCentis

text \<open>The loop over the indices, highest price first; Python's reversed sort keeps equal keys in order.\<close>

fun consume_at :: "nat list \<Rightarrow> PricePips \<Rightarrow> int \<Rightarrow> TradePrint list \<Rightarrow> TradePrint list" where
  "consume_at [] limit remaining pool = pool"
| "consume_at (i # is) limit remaining pool =
     (if remaining \<le> 0 then pool
      else if tp_price (pool ! i) \<ge> limit \<or> val (tp_quantity (pool ! i)) \<le> 0 then consume_at is limit remaining pool
      else (let take = min remaining (val (tp_quantity (pool ! i))) in
        consume_at is limit (remaining - take)
          (pool[i := (pool ! i)\<lparr>tp_quantity := IntUnit (val (tp_quantity (pool ! i)) - take)\<rparr>])))"

definition consume_through_prints :: "TradePrint list \<Rightarrow> PricePips \<Rightarrow> int \<Rightarrow> TradePrint list" where
  "consume_through_prints prints limit amount =
     consume_at (sort_key (\<lambda>i. - val (tp_price (prints ! i))) [0..<length prints]) limit amount prints"

fun allocate_at ::
    "nat list \<Rightarrow> RestingFillRequest list \<Rightarrow> int \<Rightarrow> TradePrint list \<Rightarrow> ContractCentis list \<Rightarrow> ContractCentis list" where
  "allocate_at [] requests ppm pool fills = fills"
| "allocate_at (i # is) requests ppm pool fills =
     (let r = requests ! i;
          fill = resting_fill_quantity (rq_limit r) (rq_remaining r) pool (rq_depth_at_or_better r) ppm in
      allocate_at is requests ppm (consume_through_prints pool (rq_limit r) (val fill)) (fills[i := fill]))"

definition allocate_resting_fills :: "RestingFillRequest list \<Rightarrow> TradePrint list \<Rightarrow> int \<Rightarrow> ContractCentis list" where
  "allocate_resting_fills requests prints ppm =
     allocate_at (sort_key (\<lambda>i. - val (rq_limit (requests ! i))) [0..<length requests]) requests ppm prints
       (replicate (length requests) (IntUnit 0))"

definition trade_through_fill_ts :: "PricePips \<Rightarrow> TradePrint list \<Rightarrow> num_error + int" where
  "trade_through_fill_ts limit prints =
     (case map tp_ts (filter (\<lambda>p. tp_price p < limit) prints) of
        [] \<Rightarrow> Inl ValueError
      | t # ts \<Rightarrow> Inr (fold max ts t))"


section \<open>Lemmas\<close>

subsection \<open>The taker walk\<close>

definition slice_of :: "OrderBookLevel \<Rightarrow> OrderBookLevel \<Rightarrow> bool" where
  "slice_of x l = (lvl_price x = lvl_price l \<and> 0 < val (lvl_quantity x) \<and> val (lvl_quantity x) \<le> val (lvl_quantity l))"

definition level_total :: "OrderBookLevel list \<Rightarrow> int" where
  "level_total ls = (\<Sum>l \<leftarrow> ls. val (lvl_quantity l))"

definition level_cost :: "OrderBookLevel list \<Rightarrow> int" where
  "level_cost ls = (\<Sum>l \<leftarrow> ls. val (lvl_price l) * val (lvl_quantity l))"

definition level_fee :: "FeeModel \<Rightarrow> OrderBookLevel list \<Rightarrow> int" where
  "level_fee fm ls = (\<Sum>l \<leftarrow> ls. projr (max_trading_fee_micros fm (PyInt (val (lvl_price l))) (PyInt (val (lvl_quantity l)))))"

lemma level_simps [simp]:
  "level_total [] = 0" "level_total (l # ls) = val (lvl_quantity l) + level_total ls"
  "level_cost [] = 0" "level_cost (l # ls) = val (lvl_price l) * val (lvl_quantity l) + level_cost ls"
  "level_fee fm [] = 0"
  "level_fee fm (l # ls) = projr (max_trading_fee_micros fm (PyInt (val (lvl_price l))) (PyInt (val (lvl_quantity l)))) + level_fee fm ls"
  by (simp_all add: level_total_def level_cost_def level_fee_def)

lemma participation_cap_val: "val (participation_cap d ppm) = floor_div (val d * ppm) 1000000"
  by (simp add: participation_cap_def divide_int_def FILL_PPM_DENOMINATOR_def SIZE_ROUNDING_def)

lemma consume_levels_ok:
  assumes "consume_levels ls r fm = Inr (c, b, f)"
  shows "b = level_cost c \<and> f = level_fee fm c \<and> level_total c = min (max 0 r) (level_total (filter (\<lambda>l. 0 < val (lvl_quantity l)) ls)) \<and>
    (\<exists>ls'. subseq ls' ls \<and> list_all2 slice_of c ls')"
  using assms
proof (induction ls arbitrary: r c b f)
  case Nil
  then show ?case by auto
next
  case (Cons l ls)
  have nn: "0 \<le> level_total (filter (\<lambda>l. 0 < val (lvl_quantity l)) ls)" for ls by (induction ls) auto
  let ?q = "val (lvl_quantity l)"
  consider "r \<le> 0" | "0 < r" "?q \<le> 0" | "0 < r" "0 < ?q" by linarith
  then show ?case
  proof cases
    case 1
    have "subseq [] (l # ls)" by simp
    with Cons.prems 1 nn [of "l # ls"] show ?thesis by (auto simp del: subseq_Cons')
  next
    case 2
    with Cons.prems have "consume_levels ls r fm = Inr (c, b, f)" by simp
    from Cons.IH [OF this] 2 show ?thesis by (auto intro: list_emb_Cons)
  next
    case 3
    let ?t = "min r ?q"
    from Cons.prems 3 obtain fee c' b' f' where
      fee: "max_trading_fee_micros fm (PyInt (val (lvl_price l))) (PyInt ?t) = Inr fee" and
      rest: "consume_levels ls (r - ?t) fm = Inr (c', b', f')" and
      eq: "c = \<lparr>lvl_price = lvl_price l, lvl_quantity = IntUnit ?t\<rparr> # c'"
        "b = val (lvl_price l) * ?t + b'" "f = fee + f'"
      by (auto simp: Let_def money_from_price_and_count_eq res_bind_Inr_iff)
    from Cons.IH [OF rest] obtain ls' where ih: "b' = level_cost c'" "f' = level_fee fm c'"
      "level_total c' = min (max 0 (r - ?t)) (level_total (filter (\<lambda>l. 0 < val (lvl_quantity l)) ls))"
      "subseq ls' ls" "list_all2 slice_of c' ls'" by blast
    have "subseq (l # ls') (l # ls)" using ih(4) by simp
    moreover have "list_all2 slice_of c (l # ls')" using ih(5) eq 3 by (simp add: slice_of_def)
    ultimately show ?thesis using ih(1-3) eq fee 3 nn [of ls] by (auto simp: min_def max_def)
  qed
qed

lemma level_total_positive: "level_total ls \<le> level_total (filter (\<lambda>l. 0 < val (lvl_quantity l)) ls)"
  by (induction ls) auto

lemma level_cost_limit:
  assumes "\<forall>l \<in> set ls. lvl_price l \<le> limit \<and> 0 < val (lvl_quantity l)"
  shows "level_cost ls \<le> val limit * level_total ls"
  using assms
proof (induction ls)
  case (Cons l ls)
  then have "val (lvl_price l) * val (lvl_quantity l) \<le> val limit * val (lvl_quantity l)"
    by (intro mult_right_mono) (auto simp: unit_le_iff)
  moreover have "level_cost ls \<le> val limit * level_total ls" using Cons by simp
  ultimately show ?case unfolding level_simps distrib_left by linarith
qed simp

subsection \<open>The pool of trade prints\<close>

definition volume_below :: "PricePips \<Rightarrow> TradePrint list \<Rightarrow> int" where
  "volume_below p pool = (\<Sum>t \<leftarrow> pool. if tp_price t < p then val (tp_quantity t) else 0)"

definition prints_ok :: "TradePrint list \<Rightarrow> bool" where
  "prints_ok pool = (\<forall>t \<in> set pool. 0 \<le> val (tp_quantity t))"

lemma volume_below_filter: "(\<Sum>t \<leftarrow> filter (\<lambda>t. tp_price t < p) pool. val (tp_quantity t)) = volume_below p pool"
  unfolding volume_below_def by (induction pool) auto

lemma sum_list_map_update:
  fixes w :: "'a \<Rightarrow> int"
  shows "i < length xs \<Longrightarrow> (\<Sum>x \<leftarrow> xs[i := y]. w x) = (\<Sum>x \<leftarrow> xs. w x) - w (xs ! i) + w y"
proof (induction xs arbitrary: i)
  case (Cons x xs)
  then show ?case by (cases i) auto
qed simp

lemma volume_below_nonneg: "prints_ok pool \<Longrightarrow> 0 \<le> volume_below p pool"
  unfolding volume_below_def prints_ok_def by (intro sum_list_nonneg) auto

lemma prints_ok_take:
  assumes "prints_ok pool" and "i < length pool" and "0 \<le> k" and "k \<le> val (tp_quantity (pool ! i))"
  shows "prints_ok (pool[i := (pool ! i)\<lparr>tp_quantity := IntUnit (val (tp_quantity (pool ! i)) - k)\<rparr>])"
  using assms by (auto simp: prints_ok_def dest!: set_update_subset_insert [THEN subsetD])

lemma volume_below_take:
  assumes "i < length pool"
  shows "volume_below p (pool[i := (pool ! i)\<lparr>tp_quantity := IntUnit (val (tp_quantity (pool ! i)) - k)\<rparr>]) =
    volume_below p pool - (if tp_price (pool ! i) < p then k else 0)"
  using assms by (simp add: volume_below_def sum_list_map_update)

text \<open>Whatever the order of the indices, the walk only takes volume away, and never from a touch.\<close>

lemma consume_at_shrinks:
  assumes "prints_ok pool" and "set is \<subseteq> {..<length pool}"
  shows "prints_ok (consume_at is limit a pool) \<and> length (consume_at is limit a pool) = length pool \<and>
    volume_below p (consume_at is limit a pool) \<le> volume_below p pool"
  using assms
proof (induction "is" limit a pool rule: consume_at.induct)
  case (2 i is' limit a pool)
  let ?q = "val (tp_quantity (pool ! i))" and ?t = "min a (val (tp_quantity (pool ! i)))"
  let ?pool = "pool[i := (pool ! i)\<lparr>tp_quantity := IntUnit (?q - ?t)\<rparr>]"
  show ?case
  proof (cases "a \<le> 0 \<or> tp_price (pool ! i) \<ge> limit \<or> ?q \<le> 0")
    case True
    then show ?thesis using 2 by (auto simp: Let_def)
  next
    case False
    then have ok: "prints_ok ?pool" "set is' \<subseteq> {..<length ?pool}" using "2.prems" by (auto intro: prints_ok_take)
    have "volume_below p ?pool \<le> volume_below p pool" using False "2.prems" by (simp add: volume_below_take)
    with "2.IH"(2) [OF _ _ refl ok] False show ?thesis by (auto simp: Let_def)
  qed
qed simp

text \<open>What is in reach at the indices still to come is what the walk can take.\<close>

definition reach :: "nat list \<Rightarrow> PricePips \<Rightarrow> TradePrint list \<Rightarrow> int" where
  "reach is p pool = (\<Sum>i \<leftarrow> is. if tp_price (pool ! i) < p then val (tp_quantity (pool ! i)) else 0)"

lemma reach_update: "i \<notin> set is \<Longrightarrow> reach is p (pool[i := t]) = reach is p pool"
proof -
  assume "i \<notin> set is"
  then have "\<And>x. x \<in> set is \<Longrightarrow> pool[i := t] ! x = pool ! x" by (metis nth_list_update_neq)
  then show ?thesis unfolding reach_def by (intro arg_cong [where f = sum_list] map_cong refl) simp
qed

lemma reach_Cons:
  "reach (i # is) p pool = (if tp_price (pool ! i) < p then val (tp_quantity (pool ! i)) else 0) + reach is p pool"
  by (simp add: reach_def)

lemma reach_nonneg: "prints_ok pool \<Longrightarrow> set is \<subseteq> {..<length pool} \<Longrightarrow> 0 \<le> reach is p pool"
  unfolding reach_def prints_ok_def by (intro sum_list_nonneg) (auto simp: lessThan_def subset_iff)

lemma consume_at_exact:
  assumes "prints_ok pool" and "set is \<subseteq> {..<length pool}" and "distinct is"
    and "0 \<le> a" and "a \<le> reach is limit pool" and "limit \<le> p"
  shows "volume_below p (consume_at is limit a pool) = volume_below p pool - a"
  using assms
proof (induction "is" limit a pool rule: consume_at.induct)
  case (1 limit a pool)
  then show ?case by (simp add: reach_def)
next
  case (2 i is' limit a pool)
  let ?q = "val (tp_quantity (pool ! i))" and ?t = "min a (val (tp_quantity (pool ! i)))"
  let ?pool = "pool[i := (pool ! i)\<lparr>tp_quantity := IntUnit (?q - ?t)\<rparr>]"
  have q: "0 \<le> ?q" using "2.prems"(1,2) by (auto simp: prints_ok_def)
  consider "a \<le> 0" | "0 < a" "tp_price (pool ! i) \<ge> limit \<or> ?q \<le> 0" | "0 < a" "tp_price (pool ! i) < limit" "0 < ?q"
    by force
  then show ?case
  proof cases
    case 1
    then show ?thesis using "2.prems"(4) by simp
  next
    case 2
    then have "reach (i # is') limit pool = reach is' limit pool" using q by (auto simp: reach_Cons unit_less_iff unit_le_iff)
    with 2 "2.IH"(1) "2.prems" show ?thesis by auto
  next
    case 3
    have n: "i \<notin> set is'" "i < length pool" using "2.prems"(2,3) by auto
    have "a - ?t \<le> reach is' limit ?pool"
      using "2.prems"(2,5) 3 n reach_nonneg [OF "2.prems"(1), of is' limit] by (simp add: reach_update reach_Cons min_def)
    moreover have "prints_ok ?pool" using "2.prems"(1) 3 n by (intro prints_ok_take) auto
    ultimately have "volume_below p (consume_at is' limit (a - ?t) ?pool) = volume_below p ?pool - (a - ?t)"
      using "2.prems" 3 by (intro "2.IH"(2)) (auto simp: not_le)
    moreover have "tp_price (pool ! i) < p" using 3(2) "2.prems"(6) by simp
    moreover have "\<not> limit \<le> tp_price (pool ! i)" using 3(2) by (simp add: not_le)
    ultimately show ?thesis using 3 n(2) by (simp add: Let_def volume_below_take)
  qed
qed

lemma sum_list_mset_eq:
  fixes f :: "'a \<Rightarrow> int"
  assumes "mset xs = mset ys"
  shows "sum_list (map f xs) = sum_list (map f ys)"
proof -
  have "mset (map f xs) = mset (map f ys)" using assms by simp
  then show ?thesis by (metis sum_mset_sum_list)
qed

lemma reach_all: "reach (sort_key k [0..<length pool]) p pool = volume_below p pool"
proof -
  have "reach (sort_key k [0..<length pool]) p pool = reach [0..<length pool] p pool"
    unfolding reach_def by (rule sum_list_mset_eq) simp
  also have "map (\<lambda>i. if tp_price (pool ! i) < p then val (tp_quantity (pool ! i)) else 0) [0..<length pool] =
      map (\<lambda>t. if tp_price t < p then val (tp_quantity t) else 0) pool"
    by (rule nth_equalityI) auto
  then have "reach [0..<length pool] p pool = volume_below p pool" unfolding reach_def volume_below_def by simp
  finally show ?thesis .
qed

lemma consume_through:
  assumes "prints_ok pool"
  shows "prints_ok (consume_through_prints pool limit a)" "volume_below p (consume_through_prints pool limit a) \<le> volume_below p pool"
    "0 \<le> a \<Longrightarrow> a \<le> volume_below limit pool \<Longrightarrow> limit \<le> p \<Longrightarrow>
       volume_below p (consume_through_prints pool limit a) = volume_below p pool - a"
proof -
  let ?is = "sort_key (\<lambda>i. - val (tp_price (pool ! i))) [0..<length pool]"
  have i: "set ?is \<subseteq> {..<length pool}" "distinct ?is" by auto
  show "prints_ok (consume_through_prints pool limit a)" "volume_below p (consume_through_prints pool limit a) \<le> volume_below p pool"
    using consume_at_shrinks [OF assms i(1)] by (auto simp: consume_through_prints_def)
  show "volume_below p (consume_through_prints pool limit a) = volume_below p pool - a"
    if "0 \<le> a" "a \<le> volume_below limit pool" "limit \<le> p"
    unfolding consume_through_prints_def
    using that by (intro consume_at_exact assms i) (simp_all add: reach_all)
qed

subsection \<open>Allocation\<close>

definition fills_at_or_below :: "PricePips \<Rightarrow> nat list \<Rightarrow> RestingFillRequest list \<Rightarrow> ContractCentis list \<Rightarrow> int" where
  "fills_at_or_below p is requests fills = (\<Sum>i \<leftarrow> is. if rq_limit (requests ! i) \<le> p then val (fills ! i) else 0)"

definition fill_within :: "int \<Rightarrow> RestingFillRequest \<Rightarrow> ContractCentis \<Rightarrow> bool" where
  "fill_within ppm r f = (0 \<le> val f \<and> val f \<le> val (rq_remaining r) \<and> val f * 1000000 \<le> val (rq_depth_at_or_better r) * ppm)"

lemma resting_fill_bounds:
  assumes "prints_ok pool" and "0 \<le> val (rq_remaining r)" and "0 \<le> val (rq_depth_at_or_better r)" and "0 \<le> ppm"
  defines "f \<equiv> resting_fill_quantity (rq_limit r) (rq_remaining r) pool (rq_depth_at_or_better r) ppm"
  shows "fill_within ppm r f" and "val f \<le> volume_below (rq_limit r) pool"
proof -
  have "0 \<le> val (participation_cap (rq_depth_at_or_better r) ppm)"
    using assms(3,4) by (simp add: participation_cap_val cdiv.down_nonneg)
  moreover have "1000000 * val (participation_cap (rq_depth_at_or_better r) ppm) \<le> val (rq_depth_at_or_better r) * ppm"
    using cdiv.down_covered [of 1000000 "val (rq_depth_at_or_better r) * ppm"] by (simp add: participation_cap_val)
  moreover have f: "val f = min (min (val (rq_remaining r)) (val (participation_cap (rq_depth_at_or_better r) ppm))) (volume_below (rq_limit r) pool)"
    by (simp add: f_def resting_fill_quantity_def Let_def volume_below_filter)
  ultimately show "fill_within ppm r f"
    using assms(2) volume_below_nonneg [OF assms(1), of "rq_limit r"] unfolding fill_within_def by linarith
  show "val f \<le> volume_below (rq_limit r) pool"
    by (simp add: f_def resting_fill_quantity_def Let_def volume_below_filter)
qed

lemma allocate_at_bounds:
  assumes "prints_ok pool" and "distinct is" and "set is \<subseteq> {..<length requests}" and "length fills = length requests"
    and "\<forall>r \<in> set requests. 0 \<le> val (rq_remaining r) \<and> 0 \<le> val (rq_depth_at_or_better r)" and "0 \<le> ppm"
  shows "length (allocate_at is requests ppm pool fills) = length requests \<and>
    (\<forall>j < length requests. j \<notin> set is \<longrightarrow> allocate_at is requests ppm pool fills ! j = fills ! j) \<and>
    (\<forall>j \<in> set is. fill_within ppm (requests ! j) (allocate_at is requests ppm pool fills ! j)) \<and>
    fills_at_or_below p is requests (allocate_at is requests ppm pool fills) \<le> volume_below p pool"
  using assms
proof (induction "is" requests ppm pool fills rule: allocate_at.induct)
  case (1 requests ppm pool fills)
  then show ?case by (simp add: fills_at_or_below_def volume_below_nonneg)
next
  case (2 i is' requests ppm pool fills)
  let ?r = "requests ! i"
  let ?f = "resting_fill_quantity (rq_limit ?r) (rq_remaining ?r) pool (rq_depth_at_or_better ?r) ppm"
  let ?pool = "consume_through_prints pool (rq_limit ?r) (val ?f)"
  let ?res = "allocate_at is' requests ppm ?pool (fills[i := ?f])"
  have r: "i < length requests" "?r \<in> set requests" "i \<notin> set is'" using "2.prems"(2,3) by auto
  have f: "fill_within ppm ?r ?f" "val ?f \<le> volume_below (rq_limit ?r) pool"
    using resting_fill_bounds [of pool ?r ppm] "2.prems" r by auto
  have ih: "length ?res = length requests"
    "\<forall>j < length requests. j \<notin> set is' \<longrightarrow> ?res ! j = fills[i := ?f] ! j"
    "\<forall>j \<in> set is'. fill_within ppm (requests ! j) (?res ! j)"
    "fills_at_or_below p is' requests ?res \<le> volume_below p ?pool"
    using "2.IH" [OF refl refl] consume_through(1) "2.prems" by auto
  have i: "?res ! i = ?f" using ih(2) r "2.prems"(4) by simp
  have "volume_below p ?pool \<le> volume_below p pool - (if rq_limit ?r \<le> p then val ?f else 0)"
    using consume_through(2,3) [OF "2.prems"(1)] f by (auto simp: fill_within_def)
  with ih(4) have "fills_at_or_below p (i # is') requests ?res \<le> volume_below p pool"
    using i by (auto simp: fills_at_or_below_def)
  with ih(1-3) i f(1) r show ?case by (auto simp: Let_def)
qed

text \<open>Without any assumption on the tape: no order gets more than it has left, and one that gets anything has a
  print beyond its limit.\<close>

lemma consume_at_prices: "map tp_price (consume_at is limit a pool) = map tp_price pool"
proof (induction "is" limit a pool rule: consume_at.induct)
  case (2 i is' limit a pool)
  have "map tp_price (pool[i := (pool ! i)\<lparr>tp_quantity := q\<rparr>]) = map tp_price pool" for q
    by (cases "i < length pool") (simp_all add: map_update list_update_same_conv list_update_beyond)
  with 2 show ?case by (auto simp: Let_def)
qed simp

lemma resting_fill_reaches:
  "val (resting_fill_quantity limit remaining pool depth ppm) \<le> val remaining"
  "0 < val (resting_fill_quantity limit remaining pool depth ppm) \<Longrightarrow> \<exists>p \<in> set (map tp_price pool). p < limit"
proof -
  show "val (resting_fill_quantity limit remaining pool depth ppm) \<le> val remaining"
    by (simp add: resting_fill_quantity_def Let_def)
  assume "0 < val (resting_fill_quantity limit remaining pool depth ppm)"
  then have "filter (\<lambda>p. tp_price p < limit) pool \<noteq> []" by (auto simp: resting_fill_quantity_def Let_def)
  then show "\<exists>p \<in> set (map tp_price pool). p < limit" by (auto simp: filter_empty_conv)
qed

lemma allocate_at_reaches:
  assumes "distinct is" and "set is \<subseteq> {..<length requests}" and "length fills = length requests"
    and "map tp_price pool = map tp_price prints"
  shows "length (allocate_at is requests ppm pool fills) = length requests \<and>
    (\<forall>j < length requests. j \<notin> set is \<longrightarrow> allocate_at is requests ppm pool fills ! j = fills ! j) \<and>
    (\<forall>j \<in> set is. val (allocate_at is requests ppm pool fills ! j) \<le> val (rq_remaining (requests ! j)) \<and>
      (0 < val (allocate_at is requests ppm pool fills ! j) \<longrightarrow> (\<exists>p \<in> set prints. tp_price p < rq_limit (requests ! j))))"
  using assms
proof (induction "is" requests ppm pool fills rule: allocate_at.induct)
  case (2 i is' requests ppm pool fills)
  let ?r = "requests ! i"
  let ?f = "resting_fill_quantity (rq_limit ?r) (rq_remaining ?r) pool (rq_depth_at_or_better ?r) ppm"
  let ?pool = "consume_through_prints pool (rq_limit ?r) (val ?f)"
  let ?res = "allocate_at is' requests ppm ?pool (fills[i := ?f])"
  have p: "map tp_price ?pool = map tp_price prints"
    using "2.prems"(4) by (simp add: consume_through_prints_def consume_at_prices)
  have ih: "length ?res = length requests" "\<forall>j < length requests. j \<notin> set is' \<longrightarrow> ?res ! j = fills[i := ?f] ! j"
    "\<forall>j \<in> set is'. val (?res ! j) \<le> val (rq_remaining (requests ! j)) \<and>
      (0 < val (?res ! j) \<longrightarrow> (\<exists>p \<in> set prints. tp_price p < rq_limit (requests ! j)))"
    using "2.IH" [OF refl refl _ _ _ p] "2.prems" by auto
  have "?res ! i = ?f" using ih(2) "2.prems" by simp
  moreover have "val ?f \<le> val (rq_remaining ?r) \<and> (0 < val ?f \<longrightarrow> (\<exists>p \<in> set prints. tp_price p < rq_limit ?r))"
    using resting_fill_reaches(1) resting_fill_reaches(2) [of "rq_limit ?r" "rq_remaining ?r" pool] "2.prems"(4) by (metis image_iff image_set)
  ultimately show ?case using ih "2.prems" by (auto simp: Let_def nth_list_update_neq)
qed simp

lemma allocate_reaches:
  "length (allocate_resting_fills requests prints ppm) = length requests"
  "j < length requests \<Longrightarrow> val (allocate_resting_fills requests prints ppm ! j) \<le> val (rq_remaining (requests ! j))"
  "j < length requests \<Longrightarrow> 0 < val (allocate_resting_fills requests prints ppm ! j) \<Longrightarrow>
     \<exists>p \<in> set prints. tp_price p < rq_limit (requests ! j)"
  using allocate_at_reaches [of "sort_key (\<lambda>i. - val (rq_limit (requests ! i))) [0..<length requests]" requests
      "replicate (length requests) (IntUnit 0)" prints prints ppm]
  unfolding allocate_resting_fills_def by (auto simp: atLeast0LessThan)

lemma walk_taker_fill_Inr:
  assumes "walk_taker_fill levels limit requested fm haircut_ppm ppm = Inr r"
  obtains c b f where
    "consume_levels (eligible_levels levels limit)
      (min (val requested) (floor_div (level_total (eligible_levels levels limit) * ppm) 1000000)) fm = Inr (c, b, f)"
    "tf_consumed r = c" "val (tf_filled r) = min (val requested) (floor_div (level_total (eligible_levels levels limit) * ppm) 1000000)"
    "val (tf_book_cost r) = b" "val (tf_fee r) = f" "val (tf_haircut r) = ceil_div (f * haircut_ppm) 1000000"
    "val (tf_total_cost r) = b + f + ceil_div (f * haircut_ppm) 1000000"
  using assms unfolding walk_taker_fill_def Let_def
  by (auto simp: participation_cap_val level_total_def res_bind_Inr_iff divide_int_def FILL_PPM_DENOMINATOR_def MONEY_ROUNDING_def)

lemma walk_consumed:
  assumes "walk_taker_fill levels limit requested fm haircut_ppm ppm = Inr r"
    and "0 \<le> ppm" and "ppm \<le> 1000000" and "0 \<le> level_total (eligible_levels levels limit)"
  shows "level_total (tf_consumed r) = max 0 (val (tf_filled r))"
    and "\<exists>ls. subseq ls levels \<and> list_all (\<lambda>l. lvl_price l \<le> limit) ls \<and> list_all2 slice_of (tf_consumed r) ls"
    and "\<forall>l \<in> set (tf_consumed r). lvl_price l \<le> limit \<and> 0 < val (lvl_quantity l)"
    and "0 \<le> val requested \<Longrightarrow> 0 \<le> val (tf_filled r)"
proof -
  let ?e = "eligible_levels levels limit"
  let ?n = "min (val requested) (floor_div (level_total ?e * ppm) 1000000)"
  obtain c b f where c: "consume_levels ?e ?n fm = Inr (c, b, f)" and r: "tf_consumed r = c" "val (tf_filled r) = ?n"
    by (rule walk_taker_fill_Inr [OF assms(1)])
  from consume_levels_ok [OF c] obtain ls where
    k: "level_total c = min (max 0 ?n) (level_total (filter (\<lambda>l. 0 < val (lvl_quantity l)) ?e))"
    and ls: "subseq ls ?e" "list_all2 slice_of c ls" by blast
  have "floor_div (level_total ?e * ppm) 1000000 \<le> level_total ?e"
    using cdiv.down_share_le [of 1000000 "level_total ?e" ppm] assms(3,4) by simp
  then show "level_total (tf_consumed r) = max 0 (val (tf_filled r))"
    unfolding r using k level_total_positive [of ?e] assms(4) by simp
  obtain N where "ls = nths ?e N" using ls(1) subseq_conv_nths by blast
  then have lim: "\<forall>l \<in> set ls. lvl_price l \<le> limit" by (auto simp: eligible_levels_def dest: in_set_nthsD)
  have "subseq ls levels" using ls(1) by (rule subseq_order.trans) (simp add: eligible_levels_def)
  with lim ls(2) show "\<exists>ls. subseq ls levels \<and> list_all (\<lambda>l. lvl_price l \<le> limit) ls \<and> list_all2 slice_of (tf_consumed r) ls"
    unfolding r list_all_iff by blast
  show "\<forall>l \<in> set (tf_consumed r). lvl_price l \<le> limit \<and> 0 < val (lvl_quantity l)"
    unfolding r using ls(2) lim by (fastforce simp: list_all2_conv_all_nth slice_of_def in_set_conv_nth [of _ c] dest: nth_mem)
  show "0 \<le> val (tf_filled r)" if "0 \<le> val requested"
    unfolding r using that assms(2,4) by (simp add: floor_div_def pos_imp_zdiv_nonneg_iff)
qed

section \<open>Properties\<close>

text \<open>The taker walk never flatters: it fills at most what was asked for and at most the participation share
  of the depth within the limit, takes every level of the book at most once, in book order, at the level's
  own price, within its size and within the limit, and its total is exactly the price of every slice, plus
  the fee bound of every slice, plus the haircut on the fee rounded up by less than one micro.\<close>

theorem taker_fill_pessimistic:
  assumes "walk_taker_fill levels limit requested fm haircut_ppm ppm = Inr r"
    and "0 \<le> ppm" and "ppm \<le> 1000000" and "0 \<le> level_total (eligible_levels levels limit)"
  shows "val (tf_filled r) \<le> val requested \<and>
    val (tf_filled r) * 1000000 \<le> level_total (eligible_levels levels limit) * ppm \<and>
    level_total (tf_consumed r) = max 0 (val (tf_filled r)) \<and>
    (\<exists>ls. subseq ls levels \<and> list_all (\<lambda>l. lvl_price l \<le> limit) ls \<and> list_all2 slice_of (tf_consumed r) ls) \<and>
    val (tf_book_cost r) = level_cost (tf_consumed r) \<and>
    val (tf_book_cost r) \<le> val limit * max 0 (val (tf_filled r)) \<and>
    val (tf_fee r) = level_fee fm (tf_consumed r) \<and>
    val (tf_total_cost r) = val (tf_book_cost r) + val (tf_fee r) + val (tf_haircut r) \<and>
    val (tf_fee r) * haircut_ppm \<le> 1000000 * val (tf_haircut r) \<and>
    1000000 * val (tf_haircut r) < val (tf_fee r) * haircut_ppm + 1000000"
proof -
  let ?e = "eligible_levels levels limit"
  let ?n = "min (val requested) (floor_div (level_total ?e * ppm) 1000000)"
  obtain c b f where c: "consume_levels ?e ?n fm = Inr (c, b, f)" and
    r: "tf_consumed r = c" "val (tf_filled r) = ?n" "val (tf_book_cost r) = b" "val (tf_fee r) = f"
      "val (tf_haircut r) = ceil_div (f * haircut_ppm) 1000000"
      "val (tf_total_cost r) = b + f + ceil_div (f * haircut_ppm) 1000000"
    by (rule walk_taker_fill_Inr [OF assms(1)])
  have k: "b = level_cost c" "f = level_fee fm c" using consume_levels_ok [OF c] by blast+
  note walk = walk_consumed [OF assms]
  have "1000000 * floor_div (level_total ?e * ppm) 1000000 \<le> level_total ?e * ppm" by (rule cdiv.down_covered) simp
  moreover have "?n \<le> floor_div (level_total ?e * ppm) 1000000" by simp
  ultimately have cap: "?n * 1000000 \<le> level_total ?e * ppm" by linarith
  have "level_cost c \<le> val limit * max 0 ?n" using level_cost_limit walk(1,3) unfolding r by metis
  moreover have "f * haircut_ppm \<le> 1000000 * ceil_div (f * haircut_ppm) 1000000"
    "1000000 * ceil_div (f * haircut_ppm) 1000000 < f * haircut_ppm + 1000000"
    using cdiv.up_covers [of 1000000 "f * haircut_ppm"] cdiv.up_tight [of 1000000 "f * haircut_ppm"] by simp_all
  ultimately show ?thesis using k cap walk(1,2) unfolding r by simp
qed

definition sample_fees :: FeeModel where
  "sample_fees = \<lparr>schedule_id = ''standard'', maker_fee_ppm = 0, taker_fee_ppm = 70000, settlement_fee_ppm = 0\<rparr>"

definition sample_asks :: "OrderBookLevel list" where
  "sample_asks = [\<lparr>lvl_price = IntUnit 4000, lvl_quantity = IntUnit 200\<rparr>, \<lparr>lvl_price = IntUnit 4500, lvl_quantity = IntUnit 1200\<rparr>,
     \<lparr>lvl_price = IntUnit 6000, lvl_quantity = IntUnit 500\<rparr>]"

theorem taker_fill_pessimistic_witness:
  "\<exists>r. walk_taker_fill sample_asks (IntUnit 5000) (IntUnit 1000) sample_fees 250000 250000 = Inr r \<and>
     val (tf_filled r) = 350 \<and> level_total (tf_consumed r) = 350 \<and> val (tf_book_cost r) \<le> 5000 * 350"
proof -
  have "is_ok (walk_taker_fill sample_asks (IntUnit 5000) (IntUnit 1000) sample_fees 250000 250000) \<and>
      val (tf_filled (projr (walk_taker_fill sample_asks (IntUnit 5000) (IntUnit 1000) sample_fees 250000 250000))) = 350" by code_simp
  then obtain r where r: "walk_taker_fill sample_asks (IntUnit 5000) (IntUnit 1000) sample_fees 250000 250000 = Inr r"
    "val (tf_filled r) = 350" by (auto elim!: is_okE)
  have "0 \<le> level_total (eligible_levels sample_asks (IntUnit 5000))" by code_simp
  with taker_fill_pessimistic [OF r(1)] r show ?thesis by simp
qed

text \<open>One trade fills nobody twice: for every price, all resting orders limited at or below it together get
  at most the volume that was printed strictly below it, whatever orders compete; and every order gets at
  most what it has left and at most its own participation share.\<close>

theorem allocation_within_tape:
  assumes "prints_ok prints" and "\<forall>r \<in> set requests. 0 \<le> val (rq_remaining r) \<and> 0 \<le> val (rq_depth_at_or_better r)"
    and "0 \<le> ppm"
  shows "list_all2 (fill_within ppm) requests (allocate_resting_fills requests prints ppm) \<and>
    (\<Sum>(r, f) \<leftarrow> zip requests (allocate_resting_fills requests prints ppm). if rq_limit r \<le> p then val f else 0)
      \<le> volume_below p prints"
proof -
  let ?is = "sort_key (\<lambda>i. - val (rq_limit (requests ! i))) [0..<length requests]"
  let ?res = "allocate_resting_fills requests prints ppm"
  have b: "length ?res = length requests" "\<forall>j \<in> set ?is. fill_within ppm (requests ! j) (?res ! j)"
    "fills_at_or_below p ?is requests ?res \<le> volume_below p prints"
    using allocate_at_bounds [OF assms(1) _ _ _ assms(2,3), of ?is "replicate (length requests) (IntUnit 0)" p]
    unfolding allocate_resting_fills_def by (simp_all add: atLeast0LessThan)
  have "fills_at_or_below p ?is requests ?res = fills_at_or_below p [0..<length requests] requests ?res"
    unfolding fills_at_or_below_def by (rule sum_list_mset_eq) simp
  also have "\<dots> = (\<Sum>(r, f) \<leftarrow> zip requests ?res. if rq_limit r \<le> p then val f else 0)"
    unfolding fills_at_or_below_def using b(1) by (intro arg_cong [where f = sum_list] nth_equalityI) (simp_all add: split_beta)
  finally show ?thesis using b by (auto simp: list_all2_conv_all_nth)
qed

definition sample_requests :: "RestingFillRequest list" where
  "sample_requests = [\<lparr>rq_limit = IntUnit 4500, rq_remaining = IntUnit 300, rq_depth_at_or_better = IntUnit 4000\<rparr>,
     \<lparr>rq_limit = IntUnit 4800, rq_remaining = IntUnit 500, rq_depth_at_or_better = IntUnit 4000\<rparr>]"

definition sample_prints :: "TradePrint list" where
  "sample_prints = [\<lparr>tp_price = IntUnit 4400, tp_quantity = IntUnit 400, tp_ts = 10\<rparr>,
     \<lparr>tp_price = IntUnit 4700, tp_quantity = IntUnit 200, tp_ts = 20\<rparr>]"

theorem allocation_within_tape_witness:
  "allocate_resting_fills sample_requests sample_prints 250000 = [IntUnit 100, IntUnit 500] \<and>
   (\<Sum>(r, f) \<leftarrow> zip sample_requests (allocate_resting_fills sample_requests sample_prints 250000).
      if rq_limit r \<le> IntUnit 4800 then val f else 0) \<le> volume_below (IntUnit 4800) sample_prints"
proof -
  have ok: "prints_ok sample_prints" by code_simp
  have rq: "\<forall>r \<in> set sample_requests. 0 \<le> val (rq_remaining r) \<and> 0 \<le> val (rq_depth_at_or_better r)" by code_simp
  have v: "allocate_resting_fills sample_requests sample_prints 250000 = [IntUnit 100, IntUnit 500]" by code_simp
  from allocation_within_tape [OF ok rq, of 250000 "IntUnit 4800"] v show ?thesis by simp
qed

end
