(* ===== verification/Paper.thy ===== *)
theory Paper
  imports Fills "HOL-Library.List_Lexorder" "HOL-Library.Char_ord" "HOL-Library.Product_Lexorder"
begin

text \<open>
  The paper exchange (\<open>windbreak/connector/paper.py\<close>): a replay of recorded books and trade prints that
  fills orders pessimistically and keeps the account. Operations take the exchange to a result or an
  exception, and an exchange; what was done before an exception stays done. The observation clock is an
  argument. Loading the JSON fixtures is not modelled.
\<close>

section \<open>Definitions\<close>

definition DEFAULT_FEE_KEY :: string where "DEFAULT_FEE_KEY = ''default''"
definition COMPLEMENT_PIPS :: int where "COMPLEMENT_PIPS = 10000"
definition PX_MONEY_ROUNDING :: RoundingDirection where "PX_MONEY_ROUNDING = OVERSTATE_COST"
definition PX_PRICE_ROUNDING :: RoundingDirection where "PX_PRICE_ROUNDING = UNDERSTATE_EQUITY"

datatype paper_error =
    UnknownMarketError string | TwoSidedPositionError string | ReplayExhausted string | SemanticsRefused string
  | PaperNumeric num_error | PaperKeyError | PaperIndexError

definition num :: "num_error + 'a \<Rightarrow> paper_error + 'a" where
  "num r = map_sum PaperNumeric (\<lambda>x. x) r"

text \<open>What the simulator implements, question by question; the first one answered differently is refused.\<close>

definition SEMANTICS_REQUIREMENTS :: "(string \<times> (BalanceSemantics \<Rightarrow> bool)) list" where
  "SEMANTICS_REQUIREMENTS =
     [(''partial_fill_representation'', \<lambda>s. partial_fill_representation s = PER_FILL_RECORDS),
      (''open_order_collateral_in_available'', \<lambda>s. open_order_collateral_in_available s = DEDUCTED_FROM_AVAILABLE),
      (''open_order_collateral_in_total'', \<lambda>s. open_order_collateral_in_total s = TOTAL_INCLUDED),
      (''cancel_collateral_release'', \<lambda>s. cancel_collateral_release s = RELEASE_IMMEDIATE)]"

definition require_implemented_semantics :: "BalanceSemantics \<Rightarrow> paper_error + unit" where
  "require_implemented_semantics s =
     (case find (\<lambda>(_, ok). \<not> ok s) SEMANTICS_REQUIREMENTS of None \<Rightarrow> Inr () | Some (name, _) \<Rightarrow> Inl (SemanticsRefused name))"

record SideTotals =
  quantity_centis :: int
  notional_micros :: int

definition position_row :: "string \<Rightarrow> string \<Rightarrow> SideTotals \<Rightarrow> paper_error + Position" where
  "position_row ticker side totals =
     res_bind (num (divide_int (notional_micros totals) (quantity_centis totals) PX_PRICE_ROUNDING)) (\<lambda>average.
       Inr (if side = ''yes''
            then \<lparr>pos_ticker = ticker, pos_quantity = IntUnit (quantity_centis totals), pos_average_price = IntUnit average\<rparr>
            else \<lparr>pos_ticker = ticker, pos_quantity = IntUnit (- quantity_centis totals),
                  pos_average_price = IntUnit (COMPLEMENT_PIPS - average)\<rparr>))"

record SessionStep =
  st_book :: OrderBookSnapshot
  st_trades :: "TradePrint list"

record PaperPlacement =
  pl_fills :: "Fill list"
  pl_resting_order :: "OpenOrder option"

subsection \<open>Re-dating a recording\<close>

definition recorded_book_instants :: "(string, SessionStep list) pydict \<Rightarrow> int list" where
  "recorded_book_instants sessions = concat (map (\<lambda>(_, steps). map (\<lambda>s. ob_fetched_at (st_book s)) steps) sessions)"

definition recording_origin :: "(string, SessionStep list) pydict \<Rightarrow> int option" where
  "recording_origin sessions =
     (case recorded_book_instants sessions of [] \<Rightarrow> None | t # ts \<Rightarrow> Some (fold min ts t))"

definition recording_end :: "(string, SessionStep list) pydict \<Rightarrow> int option" where
  "recording_end sessions =
     (case recorded_book_instants sessions of [] \<Rightarrow> None | t # ts \<Rightarrow> Some (fold max ts t))"

definition shift_step :: "SessionStep \<Rightarrow> int \<Rightarrow> SessionStep" where
  "shift_step step offset =
     \<lparr>st_book = (st_book step)\<lparr>ob_fetched_at := ob_fetched_at (st_book step) + offset\<rparr>,
      st_trades = map (\<lambda>t. t\<lparr>tp_ts := tp_ts t + offset\<rparr>) (st_trades step)\<rparr>"

definition replay_offset :: "(string, SessionStep list) pydict \<Rightarrow> int option \<Rightarrow> int option" where
  "replay_offset sessions anchor =
     (case anchor of None \<Rightarrow> None
      | Some a \<Rightarrow> (case recording_origin sessions of None \<Rightarrow> None | Some origin \<Rightarrow> Some (a - origin)))"

definition anchor_sessions :: "(string, SessionStep list) pydict \<Rightarrow> int option \<Rightarrow> (string, SessionStep list) pydict" where
  "anchor_sessions sessions offset =
     (case offset of None \<Rightarrow> sessions | Some d \<Rightarrow> map (\<lambda>(t, steps). (t, map (\<lambda>s. shift_step s d) steps)) sessions)"

definition anchor_markets :: "(string, NormalizedMarket) pydict \<Rightarrow> int option \<Rightarrow> (string, NormalizedMarket) pydict" where
  "anchor_markets markets offset =
     (case offset of None \<Rightarrow> markets
      | Some d \<Rightarrow> map (\<lambda>(t, m). (t, m\<lparr>nm_close_time := nm_close_time m + d,
            nm_expected_resolution_time := map_option (\<lambda>e. e + d) (nm_expected_resolution_time m)\<rparr>)) markets)"

subsection \<open>The exchange\<close>

record PaperExchange =
  px_markets :: "(string, NormalizedMarket) pydict"
  px_sessions :: "(string, SessionStep list) pydict"
  px_exchange_status :: ExchangeStatus
  px_exchange_time :: int
  px_substantiated_until :: "int option"
  px_balances :: BalanceSnapshot
  px_balance_semantics :: BalanceSemantics
  px_fee_models :: "(string, FeeModel) pydict"
  px_haircut_ppm :: int
  px_max_participation_ppm :: int
  px_cursor :: "(string, nat) pydict"
  px_resting :: "OpenOrder list"
  px_rested :: "OpenOrder list"
  px_fills :: "Fill list"
  px_order_seq :: nat
  px_fill_seq :: nat

definition PaperExchange_new ::
    "(string, NormalizedMarket) pydict \<Rightarrow> (string, SessionStep list) pydict \<Rightarrow> ExchangeStatus \<Rightarrow> int \<Rightarrow> BalanceSnapshot \<Rightarrow>
     BalanceSemantics \<Rightarrow> (string, FeeModel) pydict \<Rightarrow> int \<Rightarrow> int \<Rightarrow> int option \<Rightarrow> paper_error + PaperExchange" where
  "PaperExchange_new markets sessions status exchange_time balances semantics fee_models haircut participation anchor =
     res_bind (require_implemented_semantics semantics) (\<lambda>_.
       let offset = replay_offset sessions anchor;
           sessions' = anchor_sessions sessions offset in
       Inr \<lparr>px_markets = anchor_markets markets offset, px_sessions = sessions', px_exchange_status = status,
            px_exchange_time = (case offset of None \<Rightarrow> exchange_time | Some d \<Rightarrow> exchange_time + d),
            px_substantiated_until = (if anchor = None then None else recording_end sessions'),
            px_balances = balances, px_balance_semantics = semantics, px_fee_models = fee_models,
            px_haircut_ppm = haircut, px_max_participation_ppm = participation,
            px_cursor = map (\<lambda>(t, _). (t, 0)) sessions,
            px_resting = [], px_rested = [], px_fills = [], px_order_seq = 0, px_fill_seq = 0\<rparr>)"

definition current_step :: "PaperExchange \<Rightarrow> string \<Rightarrow> paper_error + SessionStep" where
  "current_step px ticker =
     (case dict_get (px_sessions px) ticker of
        None \<Rightarrow> Inl (UnknownMarketError ticker)
      | Some steps \<Rightarrow>
          (case dict_get (px_cursor px) ticker of
             None \<Rightarrow> Inl PaperKeyError
           | Some cursor \<Rightarrow> (if steps = [] then Inl PaperIndexError else Inr (steps ! min cursor (length steps - 1)))))"

definition list_markets :: "PaperExchange \<Rightarrow> NormalizedMarket list" where
  "list_markets px = map snd (px_markets px)"

definition get_market :: "PaperExchange \<Rightarrow> string \<Rightarrow> paper_error + NormalizedMarket" where
  "get_market px ticker = (case dict_get (px_markets px) ticker of None \<Rightarrow> Inl (UnknownMarketError ticker) | Some m \<Rightarrow> Inr m)"

definition get_order_book :: "PaperExchange \<Rightarrow> string \<Rightarrow> paper_error + OrderBookSnapshot" where
  "get_order_book px ticker = res_bind (current_step px ticker) (\<lambda>step. Inr (st_book step))"

definition get_exchange_status :: "PaperExchange \<Rightarrow> int \<Rightarrow> ExchangeStatus" where
  "get_exchange_status px now = (px_exchange_status px)\<lparr>es_fetched_at := now\<rparr>"

definition replay_exhaustion_reason :: "PaperExchange \<Rightarrow> int \<Rightarrow> string option" where
  "replay_exhaustion_reason px now =
     (if list_all (\<lambda>(t, cursor). cursor \<ge> length (the (dict_get (px_sessions px) t))) (px_cursor px)
      then Some ''the replay has consumed every step of its recording''
      else (case px_substantiated_until px of
              None \<Rightarrow> None
            | Some e \<Rightarrow> (if now > e then Some ''the run has outlived its recording'' else None)))"

definition get_exchange_time :: "PaperExchange \<Rightarrow> int \<Rightarrow> paper_error + int" where
  "get_exchange_time px now =
     (case replay_exhaustion_reason px now of Some why \<Rightarrow> Inl (ReplayExhausted why) | None \<Rightarrow> Inr (px_exchange_time px))"

definition get_fee_model :: "PaperExchange \<Rightarrow> string \<Rightarrow> paper_error + FeeModel" where
  "get_fee_model px key =
     (case dict_get (px_fee_models px) DEFAULT_FEE_KEY of
        None \<Rightarrow> Inl PaperKeyError
      | Some d \<Rightarrow> Inr (case dict_get (px_fee_models px) key of None \<Rightarrow> d | Some m \<Rightarrow> m))"

subsection \<open>The account\<close>

definition order_cash_micros :: "PaperExchange \<Rightarrow> string \<Rightarrow> PricePips \<Rightarrow> ContractCentis \<Rightarrow> paper_error + int" where
  "order_cash_micros px ticker price quantity =
     res_bind (num (money_from_price_and_count price quantity PX_MONEY_ROUNDING)) (\<lambda>book_cost.
     res_bind (get_fee_model px ticker) (\<lambda>fm.
     res_bind (num (max_trading_fee_micros fm (PyInt (val price)) (PyInt (val quantity)))) (\<lambda>fee.
       Inr (val book_cost + fee))))"

definition fill_cash_micros :: "PaperExchange \<Rightarrow> Fill \<Rightarrow> paper_error + MoneyMicros" where
  "fill_cash_micros px f = map_sum id IntUnit (order_cash_micros px (fill_ticker f) (fill_price f) (fill_quantity f))"

definition resting_collateral_micros :: "PaperExchange \<Rightarrow> OpenOrder \<Rightarrow> paper_error + MoneyMicros" where
  "resting_collateral_micros px ord = map_sum id IntUnit (order_cash_micros px (oo_ticker ord) (oo_price ord) (oo_quantity ord))"

fun sum_results :: "(paper_error + int) list \<Rightarrow> paper_error + int" where
  "sum_results [] = Inr 0"
| "sum_results (r # rs) = res_bind r (\<lambda>x. res_bind (sum_results rs) (\<lambda>y. Inr (x + y)))"

definition cash_spent_micros :: "PaperExchange \<Rightarrow> paper_error + int" where
  "cash_spent_micros px =
     sum_results (map (\<lambda>f. order_cash_micros px (fill_ticker f) (fill_price f) (fill_quantity f)) (px_fills px))"

definition reserved_micros :: "PaperExchange \<Rightarrow> paper_error + int" where
  "reserved_micros px = sum_results (map (\<lambda>ord. map_sum id val (resting_collateral_micros px ord)) (px_resting px))"

definition get_balances :: "PaperExchange \<Rightarrow> int \<Rightarrow> paper_error + BalanceSnapshot" where
  "get_balances px now =
     res_bind (cash_spent_micros px) (\<lambda>spent.
     res_bind (reserved_micros px) (\<lambda>reserved.
       Inr \<lparr>bal_total = IntUnit (val (bal_total (px_balances px)) - spent),
            bal_available = IntUnit (val (bal_available (px_balances px)) - spent - reserved), bal_fetched_at = now\<rparr>))"

definition add_fill :: "(string \<times> string, SideTotals) pydict \<Rightarrow> Fill \<Rightarrow> (string \<times> string, SideTotals) pydict" where
  "add_fill totals f =
     (let key = (fill_ticker f, fill_side f);
          entry = (case dict_get totals key of Some e \<Rightarrow> e | None \<Rightarrow> \<lparr>quantity_centis = 0, notional_micros = 0\<rparr>);
          cost = val (projr (money_from_price_and_count (fill_price f) (fill_quantity f) PX_MONEY_ROUNDING)) in
      dict_set key \<lparr>quantity_centis = quantity_centis entry + val (fill_quantity f),
                    notional_micros = notional_micros entry + cost\<rparr> totals)"

definition fill_totals :: "PaperExchange \<Rightarrow> (string \<times> string, SideTotals) pydict" where
  "fill_totals px = foldl add_fill [] (px_fills px)"

fun position_rows :: "string list \<Rightarrow> ((string \<times> string) \<times> SideTotals) list \<Rightarrow> paper_error + Position list" where
  "position_rows seen [] = Inr []"
| "position_rows seen (((ticker, side), totals) # rest) =
     (if ticker \<in> set seen then Inl (TwoSidedPositionError ticker)
      else res_bind (position_row ticker side totals) (\<lambda>row.
           res_bind (position_rows (ticker # seen) rest) (\<lambda>rows. Inr (row # rows))))"

definition get_positions :: "PaperExchange \<Rightarrow> paper_error + Position list" where
  "get_positions px = position_rows [] (sort_key fst (fill_totals px))"

definition get_open_orders :: "PaperExchange \<Rightarrow> OpenOrder list" where
  "get_open_orders px = px_resting px"

definition get_fills :: "PaperExchange \<Rightarrow> int \<Rightarrow> Fill list" where
  "get_fills px since = filter (\<lambda>f. fill_ts f > since) (px_fills px)"

definition get_rested_orders :: "PaperExchange \<Rightarrow> OpenOrder list" where
  "get_rested_orders px = px_rested px"

definition emit_fill ::
    "string \<Rightarrow> string \<Rightarrow> PricePips \<Rightarrow> ContractCentis \<Rightarrow> int \<Rightarrow> string option \<Rightarrow> PaperExchange \<Rightarrow> Fill \<times> PaperExchange" where
  "emit_fill ticker side price quantity ts order_id px =
     (let n = px_fill_seq px + 1;
          f = \<lparr>fill_id = ''paper-fill-'' @ show_nat n, fill_ticker = ticker, fill_side = side, fill_price = price,
               fill_quantity = quantity, fill_ts = ts, fill_order_id = order_id\<rparr> in
      (f, px\<lparr>px_fill_seq := n, px_fills := px_fills px @ [f]\<rparr>))"

subsection \<open>Placing and cancelling\<close>

definition taker_levels :: "PaperOrderIntent \<Rightarrow> OrderBookSnapshot \<Rightarrow> OrderBookLevel list" where
  "taker_levels intent book =
     (if po_side intent = ''yes'' then yes_asks book
      else map (\<lambda>l. \<lparr>lvl_price = IntUnit (COMPLEMENT_PIPS - val (lvl_price l)), lvl_quantity = lvl_quantity l\<rparr>) (yes_bids book))"

fun emit_taker_fills :: "PaperOrderIntent \<Rightarrow> OrderBookLevel list \<Rightarrow> OrderBookSnapshot \<Rightarrow> PaperExchange \<Rightarrow> Fill list \<times> PaperExchange" where
  "emit_taker_fills intent [] book px = ([], px)"
| "emit_taker_fills intent (l # ls) book px =
     (let (f, px1) = emit_fill (po_ticker intent) (po_side intent) (lvl_price l) (lvl_quantity l) (ob_fetched_at book) None px;
          (fs, px2) = emit_taker_fills intent ls book px1 in
      (f # fs, px2))"

definition rest_remainder :: "PaperOrderIntent \<Rightarrow> int \<Rightarrow> PaperExchange \<Rightarrow> OpenOrder option \<times> PaperExchange" where
  "rest_remainder intent remainder px =
     (if remainder \<le> 0 then (None, px)
      else (let n = px_order_seq px + 1;
                ord = \<lparr>oo_id = ''paper-order-'' @ show_nat n, oo_ticker = po_ticker intent, oo_side = po_side intent,
                       oo_price = po_price intent, oo_quantity = IntUnit remainder\<rparr> in
            (Some ord, px\<lparr>px_order_seq := n, px_resting := px_resting px @ [ord], px_rested := px_rested px @ [ord]\<rparr>)))"

definition place_order :: "PaperOrderIntent \<Rightarrow> PaperExchange \<Rightarrow> (paper_error + PaperPlacement) \<times> PaperExchange" where
  "place_order intent px =
     (case res_bind (current_step px (po_ticker intent)) (\<lambda>step.
             res_bind (get_fee_model px (po_ticker intent)) (\<lambda>fm.
             res_bind (num (walk_taker_fill (taker_levels intent (st_book step)) (po_price intent) (po_quantity intent) fm
                (px_haircut_ppm px) (px_max_participation_ppm px))) (\<lambda>result. Inr (step, result)))) of
        Inl e \<Rightarrow> (Inl e, px)
      | Inr (step, result) \<Rightarrow>
          (let (fills, px1) = emit_taker_fills intent (tf_consumed result) (st_book step) px;
               (resting, px2) = rest_remainder intent (val (po_quantity intent) - val (tf_filled result)) px1 in
           (Inr \<lparr>pl_fills = fills, pl_resting_order = resting\<rparr>, px2)))"

definition px_cancel_order :: "string \<Rightarrow> PaperExchange \<Rightarrow> PaperExchange" where
  "px_cancel_order order_id px = px\<lparr>px_resting := filter (\<lambda>ord. oo_id ord \<noteq> order_id) (px_resting px)\<rparr>"

subsection \<open>Advancing the replay\<close>

definition yes_resting_inputs :: "OpenOrder \<Rightarrow> SessionStep \<Rightarrow> PricePips \<times> TradePrint list \<times> ContractCentis" where
  "yes_resting_inputs ord step =
     (oo_price ord, st_trades step,
      IntUnit (\<Sum>l \<leftarrow> filter (\<lambda>l. lvl_price l \<ge> oo_price ord) (yes_bids (st_book step)). val (lvl_quantity l)))"

definition no_resting_inputs :: "OpenOrder \<Rightarrow> SessionStep \<Rightarrow> PricePips \<times> TradePrint list \<times> ContractCentis" where
  "no_resting_inputs ord step =
     (oo_price ord, map (\<lambda>t. t\<lparr>tp_price := IntUnit (COMPLEMENT_PIPS - val (tp_price t))\<rparr>) (st_trades step),
      IntUnit (\<Sum>l \<leftarrow> filter (\<lambda>l. COMPLEMENT_PIPS - val (lvl_price l) \<ge> val (oo_price ord)) (yes_asks (st_book step)).
        val (lvl_quantity l)))"

definition resting_fill_inputs :: "OpenOrder \<Rightarrow> SessionStep \<Rightarrow> PricePips \<times> TradePrint list \<times> ContractCentis" where
  "resting_fill_inputs ord step =
     (if oo_side ord = ''yes'' then yes_resting_inputs ord step else no_resting_inputs ord step)"

definition allocate_side :: "PaperExchange \<Rightarrow> string \<Rightarrow> SessionStep \<Rightarrow> string \<Rightarrow> (string \<times> ContractCentis) list" where
  "allocate_side px ticker step side =
     (let side_orders = filter (\<lambda>ord. oo_ticker ord = ticker \<and> oo_side ord = side) (px_resting px) in
      case side_orders of
        [] \<Rightarrow> []
      | first # _ \<Rightarrow>
          (let requests = map (\<lambda>ord. case resting_fill_inputs ord step of (limit, _, depth) \<Rightarrow>
                   \<lparr>rq_limit = limit, rq_remaining = oo_quantity ord, rq_depth_at_or_better = depth\<rparr>) side_orders;
               allocated = allocate_resting_fills requests (fst (snd (resting_fill_inputs first step))) (px_max_participation_ppm px) in
           zip (map oo_id side_orders) allocated))"

definition px_allocate_resting_fills :: "PaperExchange \<Rightarrow> string \<Rightarrow> SessionStep \<Rightarrow> (string, ContractCentis) pydict" where
  "px_allocate_resting_fills px ticker step =
     foldl (\<lambda>d (oid, c). dict_set oid c d) [] (allocate_side px ticker step ''yes'' @ allocate_side px ticker step ''no'')"

definition apply_resting_fill ::
    "OpenOrder \<Rightarrow> SessionStep \<Rightarrow> ContractCentis \<Rightarrow> PaperExchange \<Rightarrow> (paper_error + OpenOrder option) \<times> PaperExchange" where
  "apply_resting_fill ord step filled px =
     (if val filled \<le> 0 then (Inr (Some ord), px)
      else (case resting_fill_inputs ord step of (limit, prints, _) \<Rightarrow>
        (case num (trade_through_fill_ts limit prints) of
           Inl e \<Rightarrow> (Inl e, px)
         | Inr ts \<Rightarrow>
             (let (_, px1) = emit_fill (oo_ticker ord) (oo_side ord) (oo_price ord) filled ts (Some (oo_id ord)) px;
                  remaining = val (oo_quantity ord) - val filled in
              (Inr (if remaining \<le> 0 then None else Some (ord\<lparr>oo_quantity := IntUnit remaining\<rparr>)), px1)))))"

fun apply_resting_fills ::
    "string \<Rightarrow> SessionStep \<Rightarrow> (string, ContractCentis) pydict \<Rightarrow> OpenOrder list \<Rightarrow> PaperExchange \<Rightarrow>
     (paper_error + OpenOrder list) \<times> PaperExchange" where
  "apply_resting_fills ticker step filled [] px = (Inr [], px)"
| "apply_resting_fills ticker step filled (ord # ords) px =
     (if oo_ticker ord \<noteq> ticker then
        (case apply_resting_fills ticker step filled ords px of
           (Inl e, px1) \<Rightarrow> (Inl e, px1) | (Inr survivors, px1) \<Rightarrow> (Inr (ord # survivors), px1))
      else (case dict_get filled (oo_id ord) of
          None \<Rightarrow> (Inl PaperKeyError, px)
        | Some c \<Rightarrow>
            (case apply_resting_fill ord step c px of
               (Inl e, px1) \<Rightarrow> (Inl e, px1)
             | (Inr survivor, px1) \<Rightarrow>
                 (case apply_resting_fills ticker step filled ords px1 of
                    (Inl e, px2) \<Rightarrow> (Inl e, px2)
                  | (Inr survivors, px2) \<Rightarrow> (Inr (case survivor of None \<Rightarrow> survivors | Some s \<Rightarrow> s # survivors), px2)))))"

definition process_resting_fills :: "string \<Rightarrow> SessionStep \<Rightarrow> PaperExchange \<Rightarrow> (paper_error + unit) \<times> PaperExchange" where
  "process_resting_fills ticker step px =
     (case apply_resting_fills ticker step (px_allocate_resting_fills px ticker step) (px_resting px) px of
        (Inl e, px1) \<Rightarrow> (Inl e, px1)
      | (Inr survivors, px1) \<Rightarrow> (Inr (), px1\<lparr>px_resting := survivors\<rparr>))"

fun advance_sessions :: "(string \<times> SessionStep list) list \<Rightarrow> bool \<Rightarrow> PaperExchange \<Rightarrow> (paper_error + bool) \<times> PaperExchange" where
  "advance_sessions [] any_next px = (Inr any_next, px)"
| "advance_sessions ((ticker, steps) # rest) any_next px =
     (case dict_get (px_cursor px) ticker of
        None \<Rightarrow> (Inl PaperKeyError, px)
      | Some index \<Rightarrow>
          (if index \<ge> length steps then advance_sessions rest any_next px
           else (case process_resting_fills ticker (steps ! index) px of
               (Inl e, px1) \<Rightarrow> (Inl e, px1)
             | (Inr _, px1) \<Rightarrow>
                 advance_sessions rest (any_next \<or> index + 1 < length steps)
                   (px1\<lparr>px_cursor := dict_set ticker (index + 1) (px_cursor px1)\<rparr>))))"

definition advance :: "PaperExchange \<Rightarrow> (paper_error + bool) \<times> PaperExchange" where
  "advance px = advance_sessions (px_sessions px) False px"

end
