(* ===== verification/PaperAccount.thy ===== *)
theory PaperAccount
  imports Paper
begin

text \<open>
  The paper exchange's account: what rests is exactly what came to rest less what was cancelled and less what
  filled, through placements, cancels and replay steps, none of which raises on a well-formed exchange.
\<close>

subsection \<open>The shape of the account\<close>

definition order_name :: "nat \<Rightarrow> string" where "order_name n = ''paper-order-'' @ show_nat n"
definition fill_name :: "nat \<Rightarrow> string" where "fill_name n = ''paper-fill-'' @ show_nat n"

definition filled_against :: "Fill list \<Rightarrow> string \<Rightarrow> int" where
  "filled_against fills oid = (\<Sum>f \<leftarrow> filter (\<lambda>f. fill_order_id f = Some oid) fills. val (fill_quantity f))"

definition left_of :: "Fill list \<Rightarrow> OpenOrder \<Rightarrow> OpenOrder" where
  "left_of fills ord = ord\<lparr>oo_quantity := IntUnit (val (oo_quantity ord) - filled_against fills (oo_id ord))\<rparr>"

definition still_resting :: "OpenOrder list \<Rightarrow> Fill list \<Rightarrow> OpenOrder list" where
  "still_resting rested fills = filter (\<lambda>ord. 0 < val (oo_quantity ord)) (map (left_of fills) rested)"

definition fill_of :: "Fill \<Rightarrow> OpenOrder \<Rightarrow> bool" where
  "fill_of f ord = (fill_order_id f = Some (oo_id ord) \<and> fill_ticker f = oo_ticker ord \<and> fill_side f = oo_side ord \<and>
     fill_price f = oo_price ord)"

text \<open>\<open>C\<close> are the ids of the orders that were cancelled. What rests is what came to rest, less what was cancelled
  and less what filled.\<close>

definition account_ok :: "string set \<Rightarrow> nat \<Rightarrow> nat \<Rightarrow> OpenOrder list \<Rightarrow> Fill list \<Rightarrow> OpenOrder list \<Rightarrow> bool" where
  "account_ok C orders fills_made rested fills resting =
     (map oo_id rested = map order_name [1..<Suc orders] \<and>
      map fill_id fills = map fill_name [1..<Suc fills_made] \<and>
      (\<forall>ord \<in> set rested. 0 < val (oo_quantity ord) \<and> oo_side ord \<in> {''yes'', ''no''} \<and>
         filled_against fills (oo_id ord) \<le> val (oo_quantity ord)) \<and>
      (\<forall>f \<in> set fills. 0 < val (fill_quantity f) \<and> fill_side f \<in> {''yes'', ''no''} \<and>
         (fill_order_id f = None \<or> (\<exists>ord \<in> set rested. fill_of f ord))) \<and>
      C \<subseteq> oo_id ` set rested \<and>
      resting = filter (\<lambda>ord. oo_id ord \<notin> C) (still_resting rested fills))"

definition px_ok :: "string set \<Rightarrow> PaperExchange \<Rightarrow> bool" where
  "px_ok C px = account_ok C (px_order_seq px) (px_fill_seq px) (px_rested px) (px_fills px) (px_resting px)"

lemma order_name_inj [simp]: "order_name m = order_name n \<longleftrightarrow> m = n"
  by (simp add: order_name_def show_nat_inj)

lemma fill_name_inj [simp]: "fill_name m = fill_name n \<longleftrightarrow> m = n"
  by (simp add: fill_name_def show_nat_inj)

lemma distinct_names: "distinct (map order_name ns) \<longleftrightarrow> distinct ns" "distinct (map fill_name ns) \<longleftrightarrow> distinct ns"
  by (induction ns) auto

lemma px_ok_distinct: "px_ok C px \<Longrightarrow> distinct (map oo_id (px_rested px))" "px_ok C px \<Longrightarrow> distinct (map fill_id (px_fills px))"
  unfolding px_ok_def account_ok_def by (metis distinct_names distinct_upt)+

lemma left_of_simps [simp]:
  "oo_id (left_of fills ord) = oo_id ord" "oo_ticker (left_of fills ord) = oo_ticker ord"
  "oo_side (left_of fills ord) = oo_side ord" "oo_price (left_of fills ord) = oo_price ord"
  "val (oo_quantity (left_of fills ord)) = val (oo_quantity ord) - filled_against fills (oo_id ord)"
  by (simp_all add: left_of_def)

lemma filled_against_append [simp]: "filled_against (fs @ gs) oid = filled_against fs oid + filled_against gs oid"
  by (simp add: filled_against_def)

lemma filled_against_none: "\<forall>f \<in> set fs. fill_order_id f \<noteq> Some oid \<Longrightarrow> filled_against fs oid = 0"
  by (simp add: filled_against_def)

lemma still_resting_mem: "ord \<in> set (still_resting rested fills) \<Longrightarrow> \<exists>o' \<in> set rested. ord = left_of fills o' \<and> 0 < val (oo_quantity ord)"
  by (auto simp: still_resting_def)

lemma distinct_still_resting: "distinct (map oo_id rested) \<Longrightarrow> distinct (map oo_id (still_resting rested fills))"
  unfolding still_resting_def by (intro distinct_map_filter) (simp add: comp_def)

lemma still_resting_append: "still_resting (xs @ ys) fills = still_resting xs fills @ still_resting ys fills"
  by (simp add: still_resting_def)

lemma still_resting_cong:
  "(\<And>ord. ord \<in> set rested \<Longrightarrow> filled_against fs (oo_id ord) = filled_against gs (oo_id ord)) \<Longrightarrow>
     still_resting rested fs = still_resting rested gs"
  unfolding still_resting_def by (intro arg_cong [where f = "filter _"] map_cong refl) (simp add: left_of_def)

lemma px_ok_resting:
  assumes "px_ok C px"
  shows "distinct (map oo_id (px_resting px))"
    "ord \<in> set (px_resting px) \<Longrightarrow> 0 < val (oo_quantity ord) \<and> oo_side ord \<in> {''yes'', ''no''} \<and> oo_id ord \<notin> C \<and>
       (\<exists>o' \<in> set (px_rested px). ord = left_of (px_fills px) o')"
proof -
  have r: "px_resting px = filter (\<lambda>ord. oo_id ord \<notin> C) (still_resting (px_rested px) (px_fills px))"
    using assms by (simp add: px_ok_def account_ok_def)
  show "distinct (map oo_id (px_resting px))"
    unfolding r by (intro distinct_map_filter distinct_still_resting px_ok_distinct(1) [OF assms])
  show "ord \<in> set (px_resting px) \<Longrightarrow> 0 < val (oo_quantity ord) \<and> oo_side ord \<in> {''yes'', ''no''} \<and> oo_id ord \<notin> C \<and>
       (\<exists>o' \<in> set (px_rested px). ord = left_of (px_fills px) o')"
    using assms unfolding r by (auto simp: px_ok_def account_ok_def dest!: still_resting_mem)
qed

lemma px_ok_fill:
  assumes "px_ok C px" and "f \<in> set (px_fills px)"
  shows "0 < val (fill_quantity f)" "fill_order_id f = None \<or> (\<exists>ord \<in> set (px_rested px). fill_of f ord)"
  using assms unfolding px_ok_def account_ok_def by blast+

lemma names_extend: "map name [1..<Suc (n + k)] = map name [1..<Suc n] @ map name [Suc n..<Suc (n + k)]"
  using upt_add_eq_append [of 1 "Suc n" k] by (simp del: upt_Suc)

lemma px_ok_names:
  assumes "px_ok C px"
  shows "map oo_id (px_rested px) = map order_name [1..<Suc (px_order_seq px)]"
    "map fill_id (px_fills px) = map fill_name [1..<Suc (px_fill_seq px)]"
  using assms unfolding px_ok_def account_ok_def by blast+

subsection \<open>Placing\<close>

fun taker_fills :: "nat \<Rightarrow> PaperOrderIntent \<Rightarrow> OrderBookSnapshot \<Rightarrow> OrderBookLevel list \<Rightarrow> Fill list" where
  "taker_fills n intent book [] = []"
| "taker_fills n intent book (l # ls) =
     \<lparr>fill_id = fill_name (n + 1), fill_ticker = po_ticker intent, fill_side = po_side intent, fill_price = lvl_price l,
      fill_quantity = lvl_quantity l, fill_ts = ob_fetched_at book, fill_order_id = None\<rparr> # taker_fills (n + 1) intent book ls"

lemma emit_taker_fills_eq:
  "emit_taker_fills intent ls book px =
     (taker_fills (px_fill_seq px) intent book ls,
      px\<lparr>px_fill_seq := px_fill_seq px + length ls, px_fills := px_fills px @ taker_fills (px_fill_seq px) intent book ls\<rparr>)"
  by (induction ls arbitrary: px) (simp_all add: emit_fill_def fill_name_def Let_def)

lemma taker_fills_props:
  "map fill_id (taker_fills n intent book ls) = map fill_name [Suc n..<Suc (n + length ls)]"
  "map fill_quantity (taker_fills n intent book ls) = map lvl_quantity ls"
  "f \<in> set (taker_fills n intent book ls) \<Longrightarrow> fill_order_id f = None \<and> fill_side f = po_side intent \<and>
     fill_ticker f = po_ticker intent \<and> (\<exists>l \<in> set ls. fill_price f = lvl_price l \<and> fill_quantity f = lvl_quantity l)"
  "length (taker_fills n intent book ls) = length ls"
  by (induction ls arbitrary: n) (auto simp: upt_conv_Cons simp del: upt_Suc)

definition placement :: "PaperOrderIntent \<Rightarrow> SessionStep \<Rightarrow> TakerFillResult \<Rightarrow> PaperExchange \<Rightarrow> bool" where
  "placement intent step result px =
     (current_step px (po_ticker intent) = Inr step \<and>
      (\<exists>fm. get_fee_model px (po_ticker intent) = Inr fm \<and>
        walk_taker_fill (taker_levels intent (st_book step)) (po_price intent) (po_quantity intent) fm
          (px_haircut_ppm px) (px_max_participation_ppm px) = Inr result))"

definition rested_order :: "PaperOrderIntent \<Rightarrow> TakerFillResult \<Rightarrow> PaperExchange \<Rightarrow> OpenOrder list" where
  "rested_order intent result px =
     (let remainder = val (po_quantity intent) - val (tf_filled result) in
      if remainder \<le> 0 then []
      else [\<lparr>oo_id = order_name (px_order_seq px + 1), oo_ticker = po_ticker intent, oo_side = po_side intent,
             oo_price = po_price intent, oo_quantity = IntUnit remainder\<rparr>])"

lemma num_Inr_iff: "num r = Inr x \<longleftrightarrow> r = Inr x"
  by (cases r) (simp_all add: num_def)

lemma place_order_cases:
  obtains (raised) e where "place_order intent px = (Inl e, px)"
  | (placed) step result pl where "placement intent step result px"
    "place_order intent px = (Inr pl,
       px\<lparr>px_fill_seq := px_fill_seq px + length (tf_consumed result),
          px_fills := px_fills px @ taker_fills (px_fill_seq px) intent (st_book step) (tf_consumed result),
          px_order_seq := px_order_seq px + length (rested_order intent result px),
          px_resting := px_resting px @ rested_order intent result px,
          px_rested := px_rested px @ rested_order intent result px\<rparr>)"
    "pl_fills pl = taker_fills (px_fill_seq px) intent (st_book step) (tf_consumed result)"
    "pl_resting_order pl = (case rested_order intent result px of [] \<Rightarrow> None | ord # _ \<Rightarrow> Some ord)"
proof (cases "res_bind (current_step px (po_ticker intent)) (\<lambda>step.
             res_bind (get_fee_model px (po_ticker intent)) (\<lambda>fm.
             res_bind (num (walk_taker_fill (taker_levels intent (st_book step)) (po_price intent) (po_quantity intent) fm
                (px_haircut_ppm px) (px_max_participation_ppm px))) (\<lambda>result. Inr (step, result))))")
  case (Inl e)
  then show ?thesis by (intro raised [of e]) (simp add: place_order_def)
next
  case (Inr b)
  obtain step result where b: "b = (step, result)" by (cases b)
  then have pl: "placement intent step result px" using Inr by (auto simp: placement_def res_bind_Inr_iff num_Inr_iff)
  let ?pl = "\<lparr>pl_fills = taker_fills (px_fill_seq px) intent (st_book step) (tf_consumed result),
      pl_resting_order = (case rested_order intent result px of [] \<Rightarrow> None | ord # _ \<Rightarrow> Some ord)\<rparr>"
  show ?thesis
    by (rule placed [OF pl, of ?pl])
      (use Inr b in \<open>simp_all add: place_order_def emit_taker_fills_eq rest_remainder_def rested_order_def order_name_def Let_def\<close>)
qed

lemma placed_consumed:
  assumes "placement intent step result px"
  shows "\<forall>l \<in> set (tf_consumed result). 0 < val (lvl_quantity l)"
proof -
  from assms obtain c b f fm n where c: "tf_consumed result = c"
    "consume_levels (eligible_levels (taker_levels intent (st_book step)) (po_price intent)) n fm = Inr (c, b, f)"
    by (auto simp: placement_def walk_taker_fill_def Let_def res_bind_Inr_iff)
  from consume_levels_ok [OF c(2)] obtain ls where "list_all2 slice_of c ls" by blast
  then show ?thesis using c(1) by (auto simp: list_all2_conv_all_nth slice_of_def in_set_conv_nth)
qed

lemma place_ok:
  assumes "px_ok C px" and "po_side intent \<in> {''yes'', ''no''}"
  shows "px_ok C (snd (place_order intent px))"
proof (cases rule: place_order_cases [of intent px])
  case (raised e)
  with assms(1) show ?thesis by simp
next
  case (placed step result pl)
  let ?new = "rested_order intent result px" and ?fs = "taker_fills (px_fill_seq px) intent (st_book step) (tf_consumed result)"
  have fresh: "order_name (px_order_seq px + 1) \<notin> oo_id ` set (px_rested px)"
  proof
    assume "order_name (px_order_seq px + 1) \<in> oo_id ` set (px_rested px)"
    then have "order_name (px_order_seq px + 1) \<in> set (map order_name [1..<Suc (px_order_seq px)])"
      by (metis px_ok_names(1) [OF assms(1)] set_map)
    then show False by auto
  qed
  have old_none: "filled_against (px_fills px) (order_name (px_order_seq px + 1)) = 0"
  proof (rule filled_against_none, intro ballI notI)
    fix f assume "f \<in> set (px_fills px)" "fill_order_id f = Some (order_name (px_order_seq px + 1))"
    with px_ok_fill [OF assms(1)] obtain ord where "ord \<in> set (px_rested px)" "oo_id ord = order_name (px_order_seq px + 1)"
      unfolding fill_of_def by fastforce
    with fresh show False by force
  qed
  have same: "filled_against ?fs oid = 0" for oid
    by (rule filled_against_none) (simp add: taker_fills_props(3))
  have nofill: "filled_against (px_fills px @ ?fs) (order_name (px_order_seq px + 1)) = 0"
    by (simp only: filled_against_append same old_none)
  have new: "?new = [] \<or> (\<exists>q. 0 < q \<and> ?new = [\<lparr>oo_id = order_name (px_order_seq px + 1), oo_ticker = po_ticker intent,
      oo_side = po_side intent, oo_price = po_price intent, oo_quantity = IntUnit q\<rparr>])"
    by (auto simp: rested_order_def Let_def)
  have rest: "filter (\<lambda>ord. oo_id ord \<notin> C) (still_resting (px_rested px @ ?new) (px_fills px @ ?fs)) = px_resting px @ ?new"
  proof -
    have "still_resting (px_rested px) (px_fills px @ ?fs) = still_resting (px_rested px) (px_fills px)"
      by (rule still_resting_cong) (simp add: same)
    moreover have "order_name (px_order_seq px + 1) \<notin> C" using fresh assms(1) by (auto simp: px_ok_def account_ok_def)
    then have "filter (\<lambda>ord. oo_id ord \<notin> C) (still_resting ?new (px_fills px @ ?fs)) = ?new"
      using new nofill by (auto simp: still_resting_def left_of_def)
    moreover have "px_resting px = filter (\<lambda>ord. oo_id ord \<notin> C) (still_resting (px_rested px) (px_fills px))"
      using assms(1) by (simp add: px_ok_def account_ok_def)
    ultimately show ?thesis by (simp add: still_resting_append)
  qed
  have pos: "\<forall>f \<in> set ?fs. 0 < val (fill_quantity f) \<and> fill_order_id f = None \<and> fill_side f = po_side intent"
    using placed_consumed [OF placed(1)] taker_fills_props(3) by fastforce
  have ids: "map oo_id (px_rested px @ ?new) = map order_name [1..<Suc (px_order_seq px + length ?new)]"
    using assms(1) new by (auto simp: px_ok_def account_ok_def)
  have fids: "map fill_id (px_fills px @ ?fs) = map fill_name [1..<Suc (px_fill_seq px + length (tf_consumed result))]"
    by (simp only: map_append taker_fills_props(1) names_extend px_ok_names(2) [OF assms(1)])
  have q: "\<forall>ord \<in> set ?new. 0 < val (oo_quantity ord) \<and> oo_side ord \<in> {''yes'', ''no''} \<and>
      filled_against (px_fills px @ ?fs) (oo_id ord) \<le> val (oo_quantity ord)"
    using new nofill assms(2) by auto
  have C: "C \<subseteq> oo_id ` set (px_rested px @ ?new)" using assms(1) by (auto simp: px_ok_def account_ok_def)
  have old: "\<forall>ord \<in> set (px_rested px). 0 < val (oo_quantity ord) \<and> oo_side ord \<in> {''yes'', ''no''} \<and>
      filled_against (px_fills px @ ?fs) (oo_id ord) \<le> val (oo_quantity ord)"
    using assms(1) by (simp add: px_ok_def account_ok_def same)
  have fl: "\<forall>f \<in> set (px_fills px @ ?fs). 0 < val (fill_quantity f) \<and> fill_side f \<in> {''yes'', ''no''} \<and>
      (fill_order_id f = None \<or> (\<exists>ord \<in> set (px_rested px @ ?new). fill_of f ord))"
  proof
    fix f assume "f \<in> set (px_fills px @ ?fs)"
    then consider "f \<in> set (px_fills px)" | "f \<in> set ?fs" by auto
    then show "0 < val (fill_quantity f) \<and> fill_side f \<in> {''yes'', ''no''} \<and>
      (fill_order_id f = None \<or> (\<exists>ord \<in> set (px_rested px @ ?new). fill_of f ord))"
    proof cases
      case 1
      with assms(1) show ?thesis unfolding px_ok_def account_ok_def by (metis UnCI set_append)
    qed (use pos assms(2) in auto)
  qed
  have all: "\<forall>ord \<in> set (px_rested px @ ?new). 0 < val (oo_quantity ord) \<and> oo_side ord \<in> {''yes'', ''no''} \<and>
      filled_against (px_fills px @ ?fs) (oo_id ord) \<le> val (oo_quantity ord)" using q old by (simp only: set_append ball_Un)
  have "account_ok C (px_order_seq px + length ?new) (px_fill_seq px + length (tf_consumed result)) (px_rested px @ ?new)
      (px_fills px @ ?fs) (px_resting px @ ?new)"
    unfolding account_ok_def by (intro conjI ids fids all fl C rest [symmetric])
  then show ?thesis by (simp add: px_ok_def placed(2))
qed

subsection \<open>Cancelling\<close>

lemma cancel_ok:
  assumes "px_ok C px"
  shows "px_ok (C \<union> ({oid} \<inter> oo_id ` set (px_rested px))) (px_cancel_order oid px)"
proof -
  have r: "px_resting px = filter (\<lambda>ord. oo_id ord \<notin> C) (still_resting (px_rested px) (px_fills px))"
    using assms by (simp add: px_ok_def account_ok_def)
  have "filter (\<lambda>ord. oo_id ord \<noteq> oid) (px_resting px) =
      filter (\<lambda>ord. oo_id ord \<notin> C \<union> ({oid} \<inter> oo_id ` set (px_rested px))) (still_resting (px_rested px) (px_fills px))"
    unfolding r filter_filter by (rule filter_cong) (auto dest!: still_resting_mem)
  then show ?thesis using assms by (simp add: px_cancel_order_def px_ok_def account_ok_def)
qed

subsection \<open>Filling what rests\<close>

text \<open>What the allocation says of a resting order: the key is there, the fill is within what the order has
  left, and a fill has a print to date it.\<close>

definition payable :: "SessionStep \<Rightarrow> (string, ContractCentis) pydict \<Rightarrow> OpenOrder \<Rightarrow> bool" where
  "payable step filled ord =
     (\<exists>c. dict_get filled (oo_id ord) = Some c \<and> val c \<le> val (oo_quantity ord) \<and>
        (0 < val c \<longrightarrow> (\<exists>ts. trade_through_fill_ts (oo_price ord) (fst (snd (resting_fill_inputs ord step))) = Inr ts)))"

definition resting_share :: "string \<Rightarrow> (string, ContractCentis) pydict \<Rightarrow> OpenOrder \<Rightarrow> int" where
  "resting_share ticker filled ord =
     (if oo_ticker ord = ticker then max 0 (val (the (dict_get filled (oo_id ord)))) else 0)"

lemma resting_fill_limit: "fst (resting_fill_inputs ord step) = oo_price ord"
  by (simp add: resting_fill_inputs_def yes_resting_inputs_def no_resting_inputs_def)

lemma filled_against_Cons: "filled_against (f # fs) oid = (if fill_order_id f = Some oid then val (fill_quantity f) else 0) + filled_against fs oid"
  by (simp add: filled_against_def)

lemma still_resting_Cons:
  "still_resting (ord # ords) fs = (if 0 < val (oo_quantity ord) - filled_against fs (oo_id ord) then [left_of fs ord] else []) @ still_resting ords fs"
  by (simp add: still_resting_def)

lemma left_of_none: "filled_against fs (oo_id ord) = 0 \<Longrightarrow> left_of fs ord = ord"
  by (simp add: left_of_def)

definition new_fills :: "nat \<Rightarrow> OpenOrder list \<Rightarrow> Fill list \<Rightarrow> bool" where
  "new_fills n ords gs =
     (map fill_id gs = map fill_name [Suc n..<Suc (n + length gs)] \<and>
      (\<forall>g \<in> set gs. 0 < val (fill_quantity g) \<and> (\<exists>ord \<in> set ords. fill_of g ord)))"

lemma new_fills_Cons:
  assumes "new_fills (Suc n) ords gs" and "fill_id g = fill_name (Suc n)" and "0 < val (fill_quantity g)" and "fill_of g ord"
  shows "new_fills n (ord # ords) (g # gs)"
  using assms by (simp add: new_fills_def upt_conv_Cons del: upt_Suc)

lemma new_fills_skip: "new_fills n ords gs \<Longrightarrow> new_fills n (ord # ords) gs"
  by (simp add: new_fills_def)

lemma new_fills_other:
  assumes "new_fills n ords gs" and "oid \<notin> oo_id ` set ords"
  shows "filled_against gs oid = 0"
proof (rule filled_against_none, intro ballI notI)
  fix g assume "g \<in> set gs" "fill_order_id g = Some oid"
  with assms(1) obtain ord where "ord \<in> set ords" "oid = oo_id ord" unfolding new_fills_def fill_of_def by fastforce
  with assms(2) show False by simp
qed

lemma apply_resting_fill_cases:
  assumes "payable step filled ord" and "dict_get filled (oo_id ord) = Some c" and "0 < val (oo_quantity ord)"
  shows "val c \<le> 0 \<and> apply_resting_fill ord step c px = (Inr (Some ord), px) \<or>
    0 < val c \<and> val c \<le> val (oo_quantity ord) \<and> (\<exists>g. fill_id g = fill_name (Suc (px_fill_seq px)) \<and> val (fill_quantity g) = val c \<and> fill_of g ord \<and>
      apply_resting_fill ord step c px =
        (Inr (if val (oo_quantity ord) \<le> val c then None else Some (ord\<lparr>oo_quantity := IntUnit (val (oo_quantity ord) - val c)\<rparr>)),
         px\<lparr>px_fill_seq := Suc (px_fill_seq px), px_fills := px_fills px @ [g]\<rparr>))"
proof (cases "val c \<le> 0")
  case True
  then show ?thesis by (simp add: apply_resting_fill_def)
next
  case False
  with assms(1,2) obtain ts where ts: "trade_through_fill_ts (oo_price ord) (fst (snd (resting_fill_inputs ord step))) = Inr ts"
    "val c \<le> val (oo_quantity ord)" by (auto simp: payable_def)
  obtain prints depth where inp: "resting_fill_inputs ord step = (oo_price ord, prints, depth)"
    using resting_fill_limit [of ord step] by (cases "resting_fill_inputs ord step") auto
  let ?g = "\<lparr>fill_id = fill_name (Suc (px_fill_seq px)), fill_ticker = oo_ticker ord, fill_side = oo_side ord, fill_price = oo_price ord,
      fill_quantity = c, fill_ts = ts, fill_order_id = Some (oo_id ord)\<rparr>"
  have "apply_resting_fill ord step c px =
      (Inr (if val (oo_quantity ord) \<le> val c then None else Some (ord\<lparr>oo_quantity := IntUnit (val (oo_quantity ord) - val c)\<rparr>)),
         px\<lparr>px_fill_seq := Suc (px_fill_seq px), px_fills := px_fills px @ [?g]\<rparr>)"
    using False ts inp by (simp add: apply_resting_fill_def num_def emit_fill_def Let_def fill_name_def)
  moreover have "fill_of ?g ord" by (simp add: fill_of_def)
  ultimately show ?thesis using False ts(2) by (intro disjI2 conjI exI [of _ ?g]) simp_all
qed

lemma apply_resting_fills_ok:
  assumes "\<forall>ord \<in> set ords. 0 < val (oo_quantity ord) \<and> (oo_ticker ord = ticker \<longrightarrow> payable step filled ord)"
    and "distinct (map oo_id ords)"
  shows "\<exists>gs. apply_resting_fills ticker step filled ords px =
      (Inr (still_resting ords gs), px\<lparr>px_fill_seq := px_fill_seq px + length gs, px_fills := px_fills px @ gs\<rparr>) \<and>
    new_fills (px_fill_seq px) ords gs \<and>
    (\<forall>ord \<in> set ords. filled_against gs (oo_id ord) = resting_share ticker filled ord)"
  using assms
proof (induction ords arbitrary: px)
  case Nil
  then show ?case by (intro exI [of _ "[]"]) (simp add: still_resting_def new_fills_def)
next
  case (Cons ord ords)
  have fresh: "oo_id ord \<notin> oo_id ` set ords" using Cons.prems(2) by simp
  have pos: "0 < val (oo_quantity ord)" using Cons.prems(1) by simp
  obtain gs px' where px': "px' = px" and gs: "apply_resting_fills ticker step filled ords px =
      (Inr (still_resting ords gs), px\<lparr>px_fill_seq := px_fill_seq px + length gs, px_fills := px_fills px @ gs\<rparr>)"
    "new_fills (px_fill_seq px) ords gs" "\<forall>ord \<in> set ords. filled_against gs (oo_id ord) = resting_share ticker filled ord"
    using Cons.IH [of px] Cons.prems by auto
  have other: "filled_against gs (oo_id ord) = 0" by (rule new_fills_other [OF gs(2) fresh])
  then have sr: "still_resting (ord # ords) gs = ord # still_resting ords gs"
    using pos by (simp add: still_resting_Cons left_of_none)
  show ?case
  proof (cases "oo_ticker ord = ticker")
    case False
    then show ?thesis
      using gs other sr new_fills_skip [OF gs(2)] by (intro exI [of _ gs]) (simp add: resting_share_def)
  next
    case True
    with Cons.prems(1) have pay: "payable step filled ord" by simp
    then obtain c where c: "dict_get filled (oo_id ord) = Some c" by (auto simp: payable_def)
    from apply_resting_fill_cases [OF pay c pos, of px]
    consider (none) "val c \<le> 0" "apply_resting_fill ord step c px = (Inr (Some ord), px)"
      | (some) g where "0 < val c" "val c \<le> val (oo_quantity ord)" "fill_id g = fill_name (Suc (px_fill_seq px))" "val (fill_quantity g) = val c" "fill_of g ord"
        "apply_resting_fill ord step c px =
        (Inr (if val (oo_quantity ord) \<le> val c then None else Some (ord\<lparr>oo_quantity := IntUnit (val (oo_quantity ord) - val c)\<rparr>)),
         px\<lparr>px_fill_seq := Suc (px_fill_seq px), px_fills := px_fills px @ [g]\<rparr>)" by blast
    then show ?thesis
    proof cases
      case none
      then show ?thesis
        using gs other sr new_fills_skip [OF gs(2)] True c by (intro exI [of _ gs]) (simp add: resting_share_def)
    next
      case some
      let ?px = "px\<lparr>px_fill_seq := Suc (px_fill_seq px), px_fills := px_fills px @ [g]\<rparr>"
      obtain hs where hs: "apply_resting_fills ticker step filled ords ?px =
          (Inr (still_resting ords hs), ?px\<lparr>px_fill_seq := px_fill_seq ?px + length hs, px_fills := px_fills ?px @ hs\<rparr>)"
        "new_fills (px_fill_seq ?px) ords hs" "\<forall>ord \<in> set ords. filled_against hs (oo_id ord) = resting_share ticker filled ord"
        using Cons.IH [of ?px] Cons.prems by auto
      have gid: "fill_order_id g = Some (oo_id ord)" using some(5) by (simp add: fill_of_def)
      have hother: "filled_against hs (oo_id ord) = 0" by (rule new_fills_other [OF hs(2) fresh])
      have "filled_against (g # hs) (oo_id o') = filled_against hs (oo_id o')" if "o' \<in> set ords" for o'
        using gid fresh that by (auto simp: filled_against_Cons)
      then have tl: "still_resting ords (g # hs) = still_resting ords hs" "\<forall>o' \<in> set ords. filled_against (g # hs) (oo_id o') = resting_share ticker filled o'"
        using hs(3) by (auto intro!: still_resting_cong)
      have hd': "filled_against (g # hs) (oo_id ord) = val c" using gid hother some(4) by (simp add: filled_against_Cons)
      have nf: "new_fills (px_fill_seq px) (ord # ords) (g # hs)"
        by (rule new_fills_Cons) (use hs(2) some in simp_all)
      have "apply_resting_fills ticker step filled (ord # ords) px =
          (Inr (still_resting (ord # ords) (g # hs)), px\<lparr>px_fill_seq := px_fill_seq px + length (g # hs), px_fills := px_fills px @ g # hs\<rparr>)"
        using True c some(6) hs(1) tl(1) hd' by (simp add: still_resting_Cons left_of_def)
      with nf tl(2) hd' True c some(1) show ?thesis by (intro exI [of _ "g # hs"]) (simp add: resting_share_def)
    qed
  qed
qed

lemma foldl_dict_set: "distinct (map fst (d @ xs)) \<Longrightarrow> foldl (\<lambda>d (k, v). dict_set k v d) d xs = d @ xs"
proof (induction xs arbitrary: d)
  case (Cons x xs)
  obtain k v where x: "x = (k, v)" by (cases x)
  with Cons.prems have "k \<notin> fst ` set d" by auto
  then show ?case using Cons.IH [of "d @ [x]"] Cons.prems x by (simp add: dict_set_fresh)
qed simp

lemma zip_nth_mem: "j < length xs \<Longrightarrow> j < length ys \<Longrightarrow> (xs ! j, ys ! j) \<in> set (zip xs ys)"
  by (auto simp: set_zip)

lemma distinct_filters:
  "distinct (map f xs) \<Longrightarrow> (\<And>x. P x \<Longrightarrow> \<not> Q x) \<Longrightarrow> f ` set (filter P xs) \<inter> f ` set (filter Q xs) = {}"
  by (auto simp: distinct_map dest: inj_onD)

definition side_orders :: "PaperExchange \<Rightarrow> string \<Rightarrow> string \<Rightarrow> OpenOrder list" where
  "side_orders px ticker side = filter (\<lambda>ord. oo_ticker ord = ticker \<and> oo_side ord = side) (px_resting px)"

lemma resting_fill_prints: "oo_side ord = oo_side o' \<Longrightarrow> fst (snd (resting_fill_inputs ord step)) = fst (snd (resting_fill_inputs o' step))"
  by (simp add: resting_fill_inputs_def yes_resting_inputs_def no_resting_inputs_def)

lemma trade_through_dated: "p \<in> set prints \<Longrightarrow> tp_price p < limit \<Longrightarrow> \<exists>ts. trade_through_fill_ts limit prints = Inr ts"
  by (auto simp: trade_through_fill_ts_def filter_empty_conv split: list.splits)

lemma allocate_side_props:
  "map fst (allocate_side px ticker step side) = map oo_id (side_orders px ticker side)"
  "ord \<in> set (side_orders px ticker side) \<Longrightarrow> \<exists>c. (oo_id ord, c) \<in> set (allocate_side px ticker step side) \<and> val c \<le> val (oo_quantity ord) \<and>
     (0 < val c \<longrightarrow> (\<exists>ts. trade_through_fill_ts (oo_price ord) (fst (snd (resting_fill_inputs ord step))) = Inr ts))"
proof -
  let ?so = "side_orders px ticker side"
  let ?rqs = "map (\<lambda>ord. case resting_fill_inputs ord step of (limit, _, depth) \<Rightarrow>
      \<lparr>rq_limit = limit, rq_remaining = oo_quantity ord, rq_depth_at_or_better = depth\<rparr>) ?so"
  let ?prints = "fst (snd (resting_fill_inputs (hd ?so) step))"
  let ?al = "allocate_resting_fills ?rqs ?prints (px_max_participation_ppm px)"
  have al: "allocate_side px ticker step side = zip (map oo_id ?so) ?al"
    by (cases ?so) (simp_all add: allocate_side_def side_orders_def Let_def)
  have len: "length ?al = length ?so" by (simp add: allocate_reaches(1))
  then show "map fst (allocate_side px ticker step side) = map oo_id ?so" by (simp add: al)
  assume "ord \<in> set ?so"
  then obtain j where j: "j < length ?so" "?so ! j = ord" by (auto simp: in_set_conv_nth)
  obtain pr dep where inp: "resting_fill_inputs ord step = (oo_price ord, pr, dep)"
    using resting_fill_limit [of ord step] by (cases "resting_fill_inputs ord step") auto
  have rq: "?rqs ! j = \<lparr>rq_limit = oo_price ord, rq_remaining = oo_quantity ord, rq_depth_at_or_better = dep\<rparr>"
    using j inp by simp
  have sides: "\<forall>o' \<in> set ?so. oo_side o' = side" by (simp add: side_orders_def)
  have "hd ?so \<in> set ?so" using j(1) by (cases ?so) simp_all
  then have prints: "?prints = fst (snd (resting_fill_inputs ord step))"
    using \<open>ord \<in> set ?so\<close> sides by (intro resting_fill_prints) simp
  have jr: "j < length ?rqs" using j by simp
  have "(oo_id ord, ?al ! j) \<in> set (zip (map oo_id ?so) ?al)"
    using zip_nth_mem [of j "map oo_id ?so" ?al] j len by simp
  moreover have "val (?al ! j) \<le> val (oo_quantity ord)"
    using allocate_reaches(2) [OF jr] unfolding rq by simp
  moreover have "0 < val (?al ! j) \<longrightarrow> (\<exists>ts. trade_through_fill_ts (oo_price ord) (fst (snd (resting_fill_inputs ord step))) = Inr ts)"
    using allocate_reaches(3) [OF jr, of ?prints "px_max_participation_ppm px"] unfolding rq prints
    by (auto intro: trade_through_dated)
  ultimately show "\<exists>c. (oo_id ord, c) \<in> set (allocate_side px ticker step side) \<and> val c \<le> val (oo_quantity ord) \<and>
     (0 < val c \<longrightarrow> (\<exists>ts. trade_through_fill_ts (oo_price ord) (fst (snd (resting_fill_inputs ord step))) = Inr ts))"
    unfolding al by blast
qed

lemma allocation_payable:
  assumes "distinct (map oo_id (px_resting px))" and "ord \<in> set (px_resting px)" and "oo_ticker ord = ticker"
    and "oo_side ord \<in> {''yes'', ''no''}"
  shows "payable step (px_allocate_resting_fills px ticker step) ord"
proof -
  let ?xs = "allocate_side px ticker step ''yes'' @ allocate_side px ticker step ''no''"
  have d: "distinct (map oo_id (side_orders px ticker side))" for side
    unfolding side_orders_def by (intro distinct_map_filter assms(1))
  have disj: "oo_id ` set (side_orders px ticker ''yes'') \<inter> oo_id ` set (side_orders px ticker ''no'') = {}"
    unfolding side_orders_def by (rule distinct_filters [OF assms(1)]) simp
  have keys: "distinct (map fst ?xs)" unfolding map_append allocate_side_props(1) using d disj by (simp add: image_Un)
  then have eq: "px_allocate_resting_fills px ticker step = ?xs"
    unfolding px_allocate_resting_fills_def using foldl_dict_set [of "[]" ?xs] by simp
  have "ord \<in> set (side_orders px ticker (oo_side ord))" using assms by (simp add: side_orders_def)
  from allocate_side_props(2) [OF this, of step] obtain c where c: "(oo_id ord, c) \<in> set (allocate_side px ticker step (oo_side ord))"
    "val c \<le> val (oo_quantity ord)"
    "0 < val c \<longrightarrow> (\<exists>ts. trade_through_fill_ts (oo_price ord) (fst (snd (resting_fill_inputs ord step))) = Inr ts)" by blast
  from c(1) assms(4) have "(oo_id ord, c) \<in> set ?xs" by auto
  then have "dict_get ?xs (oo_id ord) = Some c" by (intro dict_get_of_mem) (simp_all only: dict_wf_def keys)
  with c(2,3) show ?thesis unfolding payable_def eq by blast
qed

lemma process_ok:
  assumes "px_ok C px"
  shows "\<exists>gs. process_resting_fills ticker step px = (Inr (), px\<lparr>px_fill_seq := px_fill_seq px + length gs,
      px_fills := px_fills px @ gs, px_resting := still_resting (px_resting px) gs\<rparr>) \<and>
    px_ok C (px\<lparr>px_fill_seq := px_fill_seq px + length gs, px_fills := px_fills px @ gs, px_resting := still_resting (px_resting px) gs\<rparr>)"
proof -
  let ?d = "px_allocate_resting_fills px ticker step" and ?R = "px_resting px" and ?O = "px_rested px" and ?F = "px_fills px"
  note R = px_ok_resting [OF assms]
  have pre: "\<forall>ord \<in> set ?R. 0 < val (oo_quantity ord) \<and> (oo_ticker ord = ticker \<longrightarrow> payable step ?d ord)"
    using R(2) allocation_payable [OF R(1)] by blast
  from apply_resting_fills_ok [OF pre R(1), of px] obtain gs where gs:
    "apply_resting_fills ticker step ?d ?R px = (Inr (still_resting ?R gs), px\<lparr>px_fill_seq := px_fill_seq px + length gs, px_fills := ?F @ gs\<rparr>)"
    "new_fills (px_fill_seq px) ?R gs" "\<forall>ord \<in> set ?R. filled_against gs (oo_id ord) = resting_share ticker ?d ord" by blast
  have acc: "account_ok C (px_order_seq px) (px_fill_seq px) ?O ?F ?R" using assms by (simp add: px_ok_def)
  have Req: "?R = filter (\<lambda>ord. oo_id ord \<notin> C) (still_resting ?O ?F)" using acc unfolding account_ok_def by blast
  have share: "filled_against gs (oo_id ord) \<le> val (oo_quantity ord) \<and> 0 \<le> filled_against gs (oo_id ord)" if "ord \<in> set ?R" for ord
    using gs(3) pre that by (fastforce simp: resting_share_def payable_def)
  have none: "filled_against gs oid = 0" if "oid \<notin> oo_id ` set ?R" for oid by (rule new_fills_other [OF gs(2) that])
  have bound: "filled_against (?F @ gs) (oo_id ord) \<le> val (oo_quantity ord)" if o: "ord \<in> set ?O" for ord
  proof (cases "oo_id ord \<in> oo_id ` set ?R")
    case True
    then obtain r where r: "r \<in> set ?R" "oo_id r = oo_id ord" by auto
    with R(2) [OF r(1)] obtain o' where o': "o' \<in> set ?O" "r = left_of ?F o'" by blast
    have "o' = ord" using px_ok_distinct(1) [OF assms] o o' r(2) by (metis distinct_map inj_onD left_of_simps(1))
    with share [OF r(1)] o' show ?thesis by simp
  next
    case False
    with none o acc show ?thesis by (simp add: account_ok_def)
  qed
  have fo: "\<exists>ord \<in> set ?O. fill_of g ord" if "g \<in> set gs" for g
  proof -
    from gs(2) that obtain r where r: "r \<in> set ?R" "fill_of g r" unfolding new_fills_def by blast
    with R(2) [OF r(1)] show ?thesis by (fastforce simp: fill_of_def)
  qed
  have rest: "still_resting ?R gs = filter (\<lambda>ord. oo_id ord \<notin> C) (still_resting ?O (?F @ gs))"
  proof -
    have two: "left_of gs (left_of ?F ord) = left_of (?F @ gs) ord" for ord by (simp add: left_of_def)
    have "0 < val (oo_quantity ord) - filled_against ?F (oo_id ord)" if "ord \<in> set ?O" "oo_id ord \<notin> C"
      "0 < val (oo_quantity ord) - filled_against (?F @ gs) (oo_id ord)" for ord
    proof (rule ccontr)
      assume n: "\<not> ?thesis"
      have "oo_id ord \<notin> oo_id ` set ?R"
      proof
        assume "oo_id ord \<in> oo_id ` set ?R"
        then obtain r where r: "r \<in> set ?R" "oo_id r = oo_id ord" by auto
        with R(2) [OF r(1)] obtain o' where o': "o' \<in> set ?O" "r = left_of ?F o'" by blast
        have "o' = ord" using px_ok_distinct(1) [OF assms] that(1) o' r(2) by (metis distinct_map inj_onD left_of_simps(1))
        with R(2) [OF r(1)] o' n show False by simp
      qed
      with none n that(3) show False by simp
    qed
    then show ?thesis unfolding Req still_resting_def filter_map comp_def filter_filter map_map two left_of_simps
      by (intro arg_cong [where f = "map _"] filter_cong refl) (auto simp: two)
  qed
  have "account_ok C (px_order_seq px) (px_fill_seq px + length gs) ?O (?F @ gs) (still_resting ?R gs)"
    unfolding account_ok_def
  proof (intro conjI)
    show "map fill_id (?F @ gs) = map fill_name [1..<Suc (px_fill_seq px + length gs)]"
      using gs(2) by (simp only: map_append new_fills_def names_extend px_ok_names(2) [OF assms])
    show "\<forall>f \<in> set (?F @ gs). 0 < val (fill_quantity f) \<and> fill_side f \<in> {''yes'', ''no''} \<and>
         (fill_order_id f = None \<or> (\<exists>ord \<in> set ?O. fill_of f ord))"
    proof
      fix f assume "f \<in> set (?F @ gs)"
      then consider "f \<in> set ?F" | "f \<in> set gs" by auto
      then show "0 < val (fill_quantity f) \<and> fill_side f \<in> {''yes'', ''no''} \<and> (fill_order_id f = None \<or> (\<exists>ord \<in> set ?O. fill_of f ord))"
      proof cases
        case 1
        with acc show ?thesis unfolding account_ok_def by blast
      next
        case 2
        then obtain ord where o: "ord \<in> set ?O" "fill_of f ord" using fo by blast
        then have "fill_side f \<in> {''yes'', ''no''}" using acc unfolding account_ok_def fill_of_def by metis
        with 2 o gs(2) show ?thesis unfolding new_fills_def by blast
      qed
    qed
  qed (use acc bound rest in \<open>auto simp: account_ok_def\<close>)
  then show ?thesis by (intro exI [of _ gs]) (simp add: process_resting_fills_def gs(1) px_ok_def)
qed

subsection \<open>Advancing\<close>

definition cursors_ok :: "nat \<Rightarrow> PaperExchange \<Rightarrow> bool" where
  "cursors_ok k px =
     (dict_wf (px_sessions px) \<and> fst ` set (px_cursor px) \<subseteq> fst ` set (px_sessions px) \<and> dict_wf (px_cursor px) \<and>
      (\<forall>(t, steps) \<in> set (px_sessions px). dict_get (px_cursor px) t = Some (min k (length steps))))"

text \<open>Half-way through an advance the sessions already visited stand one step further.\<close>

definition half_advanced :: "nat \<Rightarrow> (string \<times> SessionStep list) list \<Rightarrow> PaperExchange \<Rightarrow> bool" where
  "half_advanced k todo px =
     (dict_wf (px_sessions px) \<and> fst ` set (px_cursor px) \<subseteq> fst ` set (px_sessions px) \<and> dict_wf (px_cursor px) \<and>
      set todo \<subseteq> set (px_sessions px) \<and>
      (\<forall>(t, steps) \<in> set (px_sessions px). dict_get (px_cursor px) t =
         Some (min (if (t, steps) \<in> set todo then k else Suc k) (length steps))))"

lemma half_advanced_skip:
  assumes "half_advanced k ((t, steps) # todo) px" and "length steps \<le> k"
  shows "half_advanced k todo px"
  using assms unfolding half_advanced_def by (fastforce simp: min_def)

lemma half_advanced_step:
  assumes "half_advanced k ((t, steps) # todo) px" and "k < length steps" and "distinct (map fst ((t, steps) # todo))"
    and "px_sessions px' = px_sessions px" and "px_cursor px' = dict_set t (Suc k) (px_cursor px)"
  shows "half_advanced k todo px'"
proof -
  have wf: "dict_wf (px_sessions px)" "dict_wf (px_cursor px)" "(t, steps) \<in> set (px_sessions px)" "set todo \<subseteq> set (px_sessions px)"
    "fst ` set (px_cursor px) \<subseteq> fst ` set (px_sessions px)"
    using assms(1) by (auto simp: half_advanced_def)
  have "dict_get (px_cursor px') t' = Some (min (if (t', steps') \<in> set todo then k else Suc k) (length steps'))"
    if m: "(t', steps') \<in> set (px_sessions px)" for t' steps'
  proof (cases "t' = t")
    case True
    then have "steps' = steps" using dict_get_of_mem [OF wf(1,3)] dict_get_of_mem [OF wf(1) m] by simp
    moreover have "(t, steps) \<notin> set todo" using assms(3) by force
    ultimately show ?thesis using True assms(2,5) by (simp add: dict.get_set)
  next
    case False
    with m assms(1) show ?thesis by (auto simp: half_advanced_def assms(5) dict.get_set)
  qed
  moreover have "fst ` set (px_cursor px') \<subseteq> fst ` set (px_sessions px)"
    unfolding assms(5) set_dict_set [OF wf(2)] using wf(3,5) by (auto intro: rev_image_eqI)
  ultimately show ?thesis using wf by (auto simp: half_advanced_def assms(4,5) dict.wf_set)
qed

lemma advance_sessions_ok:
  assumes "px_ok C px" and "half_advanced k todo px" and "distinct (map fst todo)"
  shows "\<exists>b px'. advance_sessions todo any_next px = (Inr b, px') \<and> px_ok C px' \<and> half_advanced k [] px' \<and>
    px_rested px' = px_rested px \<and> px_sessions px' = px_sessions px \<and> b = (any_next \<or> (\<exists>(t, steps) \<in> set todo. Suc k < length steps))"
  using assms
proof (induction todo any_next px rule: advance_sessions.induct)
  case (1 any_next px)
  then show ?case by simp
next
  case (2 t steps todo any_next px)
  have cur: "dict_get (px_cursor px) t = Some (min k (length steps))"
    using "2.prems"(2) by (auto simp: half_advanced_def)
  show ?case
  proof (cases "length steps \<le> k")
    case True
    with "2.IH"(1) [OF cur] "2.prems" half_advanced_skip cur show ?thesis by auto
  next
    case False
    then have idx: "min k (length steps) = k" by simp
    from process_ok [OF "2.prems"(1), of t "steps ! k"] obtain gs where
      gs: "process_resting_fills t (steps ! k) px = (Inr (), px\<lparr>px_fill_seq := px_fill_seq px + length gs,
        px_fills := px_fills px @ gs, px_resting := still_resting (px_resting px) gs\<rparr>)"
      "px_ok C (px\<lparr>px_fill_seq := px_fill_seq px + length gs, px_fills := px_fills px @ gs, px_resting := still_resting (px_resting px) gs\<rparr>)" by blast
    define px1 where "px1 = px\<lparr>px_fill_seq := px_fill_seq px + length gs, px_fills := px_fills px @ gs, px_resting := still_resting (px_resting px) gs\<rparr>"
    define px2 where "px2 = px1\<lparr>px_cursor := dict_set t (k + 1) (px_cursor px1)\<rparr>"
    have p: "process_resting_fills t (steps ! k) px = (Inr (), px1)" using gs(1) by (simp add: px1_def)
    have ok: "px_ok C px2" using gs(2) by (simp add: px2_def px1_def px_ok_def)
    have f: "px_rested px2 = px_rested px" "px_sessions px2 = px_sessions px" "px_cursor px2 = dict_set t (Suc k) (px_cursor px)"
      by (simp_all add: px2_def px1_def)
    have half: "half_advanced k todo px2" by (rule half_advanced_step [OF "2.prems"(2) _ "2.prems"(3) f(2,3)]) (use False in simp)
    have d: "distinct (map fst todo)" using "2.prems"(3) by simp
    have step: "advance_sessions ((t, steps) # todo) any_next px = advance_sessions todo (any_next \<or> Suc k < length steps) px2"
      using False p cur by (simp add: idx px2_def)
    have p': "process_resting_fills t (steps ! min k (length steps)) px = (Inr (), px1)" using p by (simp add: idx)
    have "\<exists>b px'. advance_sessions todo (any_next \<or> Suc k < length steps) px2 = (Inr b, px') \<and> px_ok C px' \<and> half_advanced k [] px' \<and>
      px_rested px' = px_rested px2 \<and> px_sessions px' = px_sessions px2 \<and>
      b = ((any_next \<or> Suc k < length steps) \<or> (\<exists>(t, steps) \<in> set todo. Suc k < length steps))"
      using "2.IH"(2) [OF cur _ p' [symmetric] refl] ok half d False by (simp add: idx px2_def)
    with step f show ?thesis by auto
  qed
qed

lemma advance_ok:
  assumes "px_ok C px" and "cursors_ok k px"
  shows "\<exists>px'. advance px = (Inr (\<exists>(t, steps) \<in> set (px_sessions px). Suc k < length steps), px') \<and> px_ok C px' \<and> cursors_ok (Suc k) px' \<and>
    px_rested px' = px_rested px \<and> px_sessions px' = px_sessions px"
proof -
  have h: "half_advanced k (px_sessions px) px" "distinct (map fst (px_sessions px))"
    using assms(2) by (auto simp: half_advanced_def cursors_ok_def dict_wf_def)
  from advance_sessions_ok [OF assms(1) h, of False] obtain px' where
    "advance px = (Inr (\<exists>(t, steps) \<in> set (px_sessions px). Suc k < length steps), px')" "px_ok C px'" "half_advanced k [] px'"
    "px_rested px' = px_rested px" "px_sessions px' = px_sessions px" by (auto simp: advance_def)
  then show ?thesis by (intro exI [of _ px']) (simp add: cursors_ok_def half_advanced_def)
qed

subsection \<open>Runs\<close>

datatype px_cmd = Place PaperOrderIntent | Cancel string | Advance

fun px_step :: "px_cmd \<Rightarrow> PaperExchange \<Rightarrow> PaperExchange" where
  "px_step (Place intent) px = snd (place_order intent px)"
| "px_step (Cancel oid) px = px_cancel_order oid px"
| "px_step Advance px = snd (advance px)"

definition px_run :: "px_cmd list \<Rightarrow> PaperExchange \<Rightarrow> PaperExchange" where
  "px_run cmds px = fold px_step cmds px"

definition sided :: "px_cmd \<Rightarrow> bool" where
  "sided c = (case c of Place intent \<Rightarrow> po_side intent = ''yes'' \<or> po_side intent = ''no'' | _ \<Rightarrow> True)"

definition advances :: "px_cmd list \<Rightarrow> nat" where
  "advances cmds = length (filter (\<lambda>c. c = Advance) cmds)"

text \<open>What every command leaves behind: the account, the cursors and the set of cancelled orders.\<close>

definition px_inv :: "px_cmd list \<Rightarrow> (string, SessionStep list) pydict \<Rightarrow> PaperExchange \<Rightarrow> bool" where
  "px_inv cmds sessions px =
     (\<exists>C. px_ok C px \<and> C \<subseteq> {oid. Cancel oid \<in> set cmds} \<and> cursors_ok (advances cmds) px \<and> px_sessions px = sessions)"

lemma place_keeps:
  "px_sessions (snd (place_order intent px)) = px_sessions px" "px_cursor (snd (place_order intent px)) = px_cursor px"
  by (cases rule: place_order_cases [of intent px]; simp)+

lemma px_inv_step:
  assumes "px_inv cmds sessions px" and "sided c"
  shows "px_inv (cmds @ [c]) sessions (px_step c px)"
proof -
  from assms(1) obtain C where C: "px_ok C px" "C \<subseteq> {oid. Cancel oid \<in> set cmds}" "cursors_ok (advances cmds) px" "px_sessions px = sessions"
    by (auto simp: px_inv_def)
  show ?thesis
  proof (cases c)
    case (Place intent)
    then have "px_ok C (px_step c px)" using place_ok [OF C(1), of intent] assms(2) by (simp add: sided_def)
    with C Place show ?thesis by (auto simp: px_inv_def cursors_ok_def place_keeps advances_def)
  next
    case (Cancel oid)
    from cancel_ok [OF C(1), of oid] C Cancel show ?thesis
      unfolding px_inv_def by (intro exI [of _ "C \<union> ({oid} \<inter> oo_id ` set (px_rested px))"])
        (auto simp: px_cancel_order_def cursors_ok_def advances_def)
  next
    case Advance
    from advance_ok [OF C(1,3)] obtain px' where "snd (advance px) = px'" "px_ok C px'" "cursors_ok (Suc (advances cmds)) px'"
      "px_sessions px' = px_sessions px" by auto
    with C Advance show ?thesis by (auto simp: px_inv_def advances_def)
  qed
qed

lemma px_inv_run:
  assumes "px_inv done sessions px" and "list_all sided cmds"
  shows "px_inv (done @ cmds) sessions (px_run cmds px)"
  using assms
proof (induction cmds arbitrary: "done" px)
  case (Cons c cmds)
  then show ?case using Cons.IH [of "done @ [c]" "px_step c px"] px_inv_step by (simp add: px_run_def)
qed (simp add: px_run_def)

lemma px_inv_new:
  assumes "PaperExchange_new markets sessions status time balances semantics fee_models haircut ppm anchor = Inr px"
    and "dict_wf sessions"
  shows "px_inv [] (px_sessions px) px" "px_substantiated_until px = None \<longleftrightarrow> anchor = None \<or> recorded_book_instants (px_sessions px) = []"
proof -
  let ?s = "anchor_sessions sessions (replay_offset sessions anchor)"
  have px: "px_sessions px = ?s" "px_cursor px = map (\<lambda>(t, _). (t, 0)) sessions" "px_resting px = []" "px_rested px = []" "px_fills px = []"
    "px_order_seq px = 0" "px_fill_seq px = 0" "px_substantiated_until px = (if anchor = None then None else recording_end ?s)"
    using assms(1) by (auto simp: PaperExchange_new_def res_bind_Inr_iff Let_def)
  have k: "map fst ?s = map fst sessions"
    by (auto simp: anchor_sessions_def split: option.splits)
  have c: "map fst (px_cursor px) = map fst sessions" by (simp add: px(2) case_prod_unfold)
  have wf: "dict_wf (px_cursor px)" using assms(2) c by (simp add: dict_wf_def)
  have g: "dict_get (px_cursor px) t = Some 0" if "(t, steps) \<in> set ?s" for t steps
  proof -
    from that k have "t \<in> set (map fst sessions)" by (metis fst_conv image_eqI image_set)
    then show ?thesis using wf by (intro dict_get_of_mem) (auto simp: px(2))
  qed
  have "cursors_ok 0 px" using assms(2) k c g wf unfolding cursors_ok_def px(1)
    by (auto simp: dict_wf_def) (metis fst_conv image_eqI image_set)
  moreover have "px_ok {} px" by (simp add: px_ok_def account_ok_def px still_resting_def)
  ultimately show "px_inv [] (px_sessions px) px" by (auto simp: px_inv_def advances_def)
  show "px_substantiated_until px = None \<longleftrightarrow> anchor = None \<or> recorded_book_instants (px_sessions px) = []"
    by (auto simp: px recording_end_def split: list.splits)
qed

subsection \<open>Positions\<close>

definition side_quantity :: "Fill list \<Rightarrow> string \<times> string \<Rightarrow> int" where
  "side_quantity fills key = (\<Sum>f \<leftarrow> filter (\<lambda>f. (fill_ticker f, fill_side f) = key) fills. val (fill_quantity f))"

definition total_of :: "(string \<times> string, SideTotals) pydict \<Rightarrow> string \<times> string \<Rightarrow> int" where
  "total_of d key = (case dict_get d key of None \<Rightarrow> 0 | Some e \<Rightarrow> quantity_centis e)"

definition signed_quantity :: "Fill list \<Rightarrow> string \<Rightarrow> int" where
  "signed_quantity fills ticker =
     (\<Sum>f \<leftarrow> filter (\<lambda>f. fill_ticker f = ticker) fills. if fill_side f = ''yes'' then val (fill_quantity f) else - val (fill_quantity f))"

lemma add_fill_props:
  assumes "dict_wf d"
  shows "dict_wf (add_fill d f)" "fst ` set (add_fill d f) = insert (fill_ticker f, fill_side f) (fst ` set d)"
    "total_of (add_fill d f) key = total_of d key + side_quantity [f] key"
proof -
  show "dict_wf (add_fill d f)" using assms by (simp add: add_fill_def Let_def dict.wf_set)
  show "fst ` set (add_fill d f) = insert (fill_ticker f, fill_side f) (fst ` set d)"
    using assms by (force simp: add_fill_def Let_def set_dict_set)
  show "total_of (add_fill d f) key = total_of d key + side_quantity [f] key"
    by (simp add: add_fill_def Let_def total_of_def side_quantity_def dict.get_set split: option.splits)
qed

lemma fold_add_fill:
  assumes "dict_wf d"
  shows "dict_wf (foldl add_fill d fs) \<and> fst ` set (foldl add_fill d fs) = fst ` set d \<union> (\<lambda>f. (fill_ticker f, fill_side f)) ` set fs \<and>
    total_of (foldl add_fill d fs) key = total_of d key + side_quantity fs key"
  using assms
proof (induction fs arbitrary: d)
  case (Cons f fs)
  from Cons.IH [OF add_fill_props(1) [OF Cons.prems], of f] add_fill_props [OF Cons.prems, of f] show ?case
    by (auto simp: side_quantity_def)
qed (simp add: side_quantity_def)

lemma fill_totals_props:
  "dict_wf (fill_totals px)" "fst ` set (fill_totals px) = (\<lambda>f. (fill_ticker f, fill_side f)) ` set (px_fills px)"
  "(key, tot) \<in> set (fill_totals px) \<Longrightarrow> quantity_centis tot = side_quantity (px_fills px) key"
proof -
  note f = fold_add_fill [OF dict_wf_Nil, of "px_fills px"]
  show "dict_wf (fill_totals px)" "fst ` set (fill_totals px) = (\<lambda>f. (fill_ticker f, fill_side f)) ` set (px_fills px)"
    using f by (simp_all add: fill_totals_def)
  assume "(key, tot) \<in> set (fill_totals px)"
  then have "dict_get (fill_totals px) key = Some tot" using f by (simp add: fill_totals_def dict_get_of_mem)
  with f [of key] show "quantity_centis tot = side_quantity (px_fills px) key" by (simp add: fill_totals_def total_of_def)
qed

lemma position_row_ok:
  "0 < quantity_centis tot \<Longrightarrow> \<exists>row. position_row ticker side tot = Inr row \<and> pos_ticker row = ticker \<and>
     val (pos_quantity row) = (if side = ''yes'' then quantity_centis tot else - quantity_centis tot)"
  by (auto simp: position_row_def num_def divide_int_def PX_PRICE_ROUNDING_def)

lemma position_rows_ok:
  assumes "\<forall>(key, tot) \<in> set rows. 0 < quantity_centis tot" and "distinct (map fst rows)"
  shows "case position_rows seen rows of
      Inl e \<Rightarrow> \<exists>t s. e = TwoSidedPositionError t \<and> (t, s) \<in> fst ` set rows \<and> (t \<in> set seen \<or> (\<exists>s'. s' \<noteq> s \<and> (t, s') \<in> fst ` set rows))
    | Inr ps \<Rightarrow> distinct (map (fst \<circ> fst) rows) \<and> set seen \<inter> (fst \<circ> fst) ` set rows = {} \<and>
        list_all2 (\<lambda>((ticker, side), tot) p. pos_ticker p = ticker \<and>
          val (pos_quantity p) = (if side = ''yes'' then quantity_centis tot else - quantity_centis tot)) rows ps"
  using assms
proof (induction seen rows rule: position_rows.induct)
  case (2 seen ticker side tot rest)
  from "2.prems" obtain row where row: "position_row ticker side tot = Inr row" "pos_ticker row = ticker"
    "val (pos_quantity row) = (if side = ''yes'' then quantity_centis tot else - quantity_centis tot)"
    using position_row_ok [of tot ticker side] by auto
  show ?case
  proof (cases "ticker \<in> set seen")
    case False
    have ih: "case position_rows (ticker # seen) rest of
      Inl e \<Rightarrow> \<exists>t s. e = TwoSidedPositionError t \<and> (t, s) \<in> fst ` set rest \<and>
        (t \<in> set (ticker # seen) \<or> (\<exists>s'. s' \<noteq> s \<and> (t, s') \<in> fst ` set rest))
    | Inr ps \<Rightarrow> distinct (map (fst \<circ> fst) rest) \<and> set (ticker # seen) \<inter> (fst \<circ> fst) ` set rest = {} \<and>
        list_all2 (\<lambda>((ticker, side), tot) p. pos_ticker p = ticker \<and>
          val (pos_quantity p) = (if side = ''yes'' then quantity_centis tot else - quantity_centis tot)) rest ps"
      using "2.IH" False row(1) "2.prems" by simp
    show ?thesis
    proof (cases "position_rows (ticker # seen) rest")
      case (Inl e)
      with ih obtain t s where t: "e = TwoSidedPositionError t" "(t, s) \<in> fst ` set rest"
        "t \<in> set (ticker # seen) \<or> (\<exists>s'. s' \<noteq> s \<and> (t, s') \<in> fst ` set rest)" by auto
      have "(ticker, side) \<notin> fst ` set rest" using "2.prems"(2) by simp
      then have "t = ticker \<longrightarrow> s \<noteq> side" using t(2) by auto
      with t(2,3) have "(t, s) \<in> fst ` set (((ticker, side), tot) # rest) \<and>
          (t \<in> set seen \<or> (\<exists>s'. s' \<noteq> s \<and> (t, s') \<in> fst ` set (((ticker, side), tot) # rest)))" by auto
      moreover have "position_rows seen (((ticker, side), tot) # rest) = Inl e" using Inl False row(1) by simp
      ultimately show ?thesis using t(1) by (simp only: sum.case) blast
    next
      case (Inr ps)
      with ih False row show ?thesis by auto
    qed
  next
    case True
    then show ?thesis by auto
  qed
qed simp

lemma one_sided_signed:
  assumes "\<forall>f \<in> set fills. fill_ticker f = t \<longrightarrow> fill_side f = side"
  shows "signed_quantity fills t = (if side = ''yes'' then side_quantity fills (t, side) else - side_quantity fills (t, side))"
  using assms by (induction fills) (auto simp: signed_quantity_def side_quantity_def)

lemma side_quantity_pos:
  assumes "\<forall>f \<in> set fills. 0 < val (fill_quantity f)" and "key \<in> (\<lambda>f. (fill_ticker f, fill_side f)) ` set fills"
  shows "0 < side_quantity fills key"
proof -
  from assms(2) obtain f where "f \<in> set fills" "(fill_ticker f, fill_side f) = key" by auto
  then have "val (fill_quantity f) \<in> set (map (\<lambda>f. val (fill_quantity f)) (filter (\<lambda>f. (fill_ticker f, fill_side f) = key) fills))" by auto
  moreover have "\<forall>x \<in> set (map (\<lambda>f. val (fill_quantity f)) (filter (\<lambda>f. (fill_ticker f, fill_side f) = key) fills)). 0 \<le> x"
    using assms(1) by auto
  ultimately have "val (fill_quantity f) \<le> side_quantity fills key"
    unfolding side_quantity_def using member_le_sum_list by blast
  with assms(1) \<open>f \<in> set fills\<close> show ?thesis by fastforce
qed

lemma distinct_same_key: "distinct (map f xs) \<Longrightarrow> x \<in> set xs \<Longrightarrow> y \<in> set xs \<Longrightarrow> f x = f y \<Longrightarrow> x = y"
  by (meson distinct_map inj_onD)

lemma get_positions_ok:
  assumes "\<forall>f \<in> set (px_fills px). 0 < val (fill_quantity f)"
  shows "case get_positions px of
      Inl e \<Rightarrow> \<exists>t. e = TwoSidedPositionError t \<and>
        (\<exists>f g. f \<in> set (px_fills px) \<and> g \<in> set (px_fills px) \<and> fill_ticker f = t \<and> fill_ticker g = t \<and> fill_side f \<noteq> fill_side g)
    | Inr ps \<Rightarrow> distinct (map pos_ticker ps) \<and> pos_ticker ` set ps = fill_ticker ` set (px_fills px) \<and>
        (\<forall>p \<in> set ps. val (pos_quantity p) = signed_quantity (px_fills px) (pos_ticker p))"
proof -
  let ?rows = "sort_key fst (fill_totals px)" and ?key = "\<lambda>f. (fill_ticker f, fill_side f)"
  note props = fill_totals_props [where px = px]
  have rows: "\<forall>(key, tot) \<in> set ?rows. 0 < quantity_centis tot"
  proof (clarify, unfold set_sort)
    fix t s tot assume m: "((t, s), tot) \<in> set (fill_totals px)"
    then have "(t, s) \<in> ?key ` set (px_fills px)" unfolding props(2) [symmetric] by (rule rev_image_eqI) simp
    then show "0 < quantity_centis tot" using side_quantity_pos [OF assms] props(3) [OF m] by simp
  qed
  have dist: "distinct (map fst ?rows)"
    using props(1) unfolding dict_wf_def by (metis distinct_map distinct_sort set_sort)
  have keys: "fst ` set ?rows = ?key ` set (px_fills px)" using props(2) by simp
  note main = position_rows_ok [OF rows dist, of "[]"]
  show ?thesis
  proof (cases "get_positions px")
    case (Inl e)
    with main obtain t s s' where "e = TwoSidedPositionError t" "(t, s) \<in> fst ` set ?rows" "s' \<noteq> s" "(t, s') \<in> fst ` set ?rows"
      by (auto simp: get_positions_def)
    then show ?thesis unfolding keys Inl by fastforce
  next
    case (Inr ps)
    with main have m: "distinct (map (fst \<circ> fst) ?rows)" "list_all2 (\<lambda>((ticker, side), tot) p. pos_ticker p = ticker \<and>
          val (pos_quantity p) = (if side = ''yes'' then quantity_centis tot else - quantity_centis tot)) ?rows ps"
      by (simp_all add: get_positions_def)
    have tick: "map pos_ticker ps = map (fst \<circ> fst) ?rows"
      using m(2) by (auto simp: list_all2_conv_all_nth split_beta intro!: nth_equalityI)
    have "val (pos_quantity p) = signed_quantity (px_fills px) (pos_ticker p)" if p: "p \<in> set ps" for p
    proof -
      from p obtain i where i: "i < length ps" "ps ! i = p" by (auto simp: in_set_conv_nth)
      obtain t s tot where row: "?rows ! i = ((t, s), tot)" by (metis surj_pair)
      have r: "((t, s), tot) \<in> set ?rows" "pos_ticker p = t"
        "val (pos_quantity p) = (if s = ''yes'' then quantity_centis tot else - quantity_centis tot)"
        using list_all2_nthD2 [OF m(2) i(1)] list_all2_lengthD [OF m(2)] i row nth_mem [of i ?rows] by auto
      have "fill_side f = s" if f: "f \<in> set (px_fills px)" "fill_ticker f = t" for f
      proof -
        from f have "(t, fill_side f) \<in> fst ` set ?rows" unfolding keys by auto
        then obtain tot' where "((t, fill_side f), tot') \<in> set ?rows" by auto
        from distinct_same_key [OF m(1) this r(1)] show ?thesis by simp
      qed
      then have "signed_quantity (px_fills px) t =
          (if s = ''yes'' then side_quantity (px_fills px) (t, s) else - side_quantity (px_fills px) (t, s))"
        by (intro one_sided_signed) simp
      moreover have "quantity_centis tot = side_quantity (px_fills px) (t, s)" using props(3) r(1) by simp
      ultimately show ?thesis using r by simp
    qed
    moreover have "pos_ticker ` set ps = fill_ticker ` set (px_fills px)"
    proof -
      have "pos_ticker ` set ps = fst ` fst ` set ?rows" using arg_cong [OF tick, of set] by (simp add: image_image)
      then show ?thesis unfolding keys by (simp add: image_image)
    qed
    moreover have "distinct (map pos_ticker ps)" using tick m(1) by simp
    ultimately show ?thesis using Inr by simp
  qed
qed

subsection \<open>Cash\<close>

lemma sum_results_append:
  "sum_results (xs @ ys) = res_bind (sum_results xs) (\<lambda>a. res_bind (sum_results ys) (\<lambda>b. Inr (a + b)))"
proof (induction xs)
  case Nil
  then show ?case by (cases "sum_results ys") simp_all
next
  case (Cons r rs)
  then show ?case by (cases r; cases "sum_results rs"; cases "sum_results ys") simp_all
qed

definition fills_cash :: "PaperExchange \<Rightarrow> Fill list \<Rightarrow> paper_error + int" where
  "fills_cash px fills = sum_results (map (\<lambda>f. order_cash_micros px (fill_ticker f) (fill_price f) (fill_quantity f)) fills)"

definition held_cash :: "PaperExchange \<Rightarrow> OpenOrder list \<Rightarrow> paper_error + int" where
  "held_cash px ords = sum_results (map (\<lambda>ord. order_cash_micros px (oo_ticker ord) (oo_price ord) (oo_quantity ord)) ords)"

lemma get_balances_eq:
  "get_balances px now = res_bind (fills_cash px (px_fills px)) (\<lambda>spent. res_bind (held_cash px (px_resting px)) (\<lambda>held.
     Inr \<lparr>bal_total = IntUnit (val (bal_total (px_balances px)) - spent),
          bal_available = IntUnit (val (bal_available (px_balances px)) - spent - held), bal_fetched_at = now\<rparr>))"
proof -
  have "map_sum id val (resting_collateral_micros px ord) = order_cash_micros px (oo_ticker ord) (oo_price ord) (oo_quantity ord)" for ord
    by (cases "order_cash_micros px (oo_ticker ord) (oo_price ord) (oo_quantity ord)") (simp_all add: resting_collateral_micros_def)
  then show ?thesis
    unfolding get_balances_def cash_spent_micros_def reserved_micros_def fills_cash_def held_cash_def by simp
qed

lemma cash_cong:
  assumes "px_fee_models px' = px_fee_models px"
  shows "fills_cash px' fs = fills_cash px fs" "held_cash px' ords = held_cash px ords"
proof -
  have "get_fee_model px' = get_fee_model px" by (intro ext) (simp only: get_fee_model_def assms)
  then have "order_cash_micros px' = order_cash_micros px" by (intro ext) (simp add: order_cash_micros_def)
  then show "fills_cash px' fs = fills_cash px fs" "held_cash px' ords = held_cash px ords"
    by (simp_all add: fills_cash_def held_cash_def)
qed

lemma balances_after:
  assumes "get_balances px now = Inr b" and "px_fills px' = px_fills px @ fs" and "px_resting px' = px_resting px @ os"
    and "px_fee_models px' = px_fee_models px" and "px_balances px' = px_balances px"
  shows "get_balances px' now = res_bind (fills_cash px fs) (\<lambda>spent. res_bind (held_cash px os) (\<lambda>held.
    Inr (b\<lparr>bal_total := IntUnit (val (bal_total b) - spent), bal_available := IntUnit (val (bal_available b) - spent - held)\<rparr>)))"
proof -
  from assms(1) obtain s h where sh: "fills_cash px (px_fills px) = Inr s" "held_cash px (px_resting px) = Inr h"
    "b = \<lparr>bal_total = IntUnit (val (bal_total (px_balances px)) - s),
      bal_available = IntUnit (val (bal_available (px_balances px)) - s - h), bal_fetched_at = now\<rparr>"
    by (auto simp: get_balances_eq res_bind_Inr_iff)
  have "fills_cash px (px_fills px @ fs) = res_bind (fills_cash px fs) (\<lambda>y. Inr (s + y))"
    using sh(1) by (simp add: fills_cash_def sum_results_append)
  moreover have "held_cash px (px_resting px @ os) = res_bind (held_cash px os) (\<lambda>y. Inr (h + y))"
    using sh(2) by (simp add: held_cash_def sum_results_append)
  ultimately show ?thesis
    unfolding get_balances_eq assms(2,3,5) cash_cong [OF assms(4)] sh(3)
    by (cases "fills_cash px fs"; cases "held_cash px os") (simp_all add: algebra_simps)
qed

lemma some_longer: "(\<exists>(t, steps) \<in> set xs. n < length steps) = (\<not> list_all (\<lambda>(t, steps). length steps \<le> n) xs)"
  by (induction xs) auto

subsection \<open>A sample run\<close>

text \<open>An order that fills 350 of 1000 at once, then 200 of what rests.\<close>

definition sample_semantics :: BalanceSemantics where
  "sample_semantics = \<lparr>open_order_collateral_in_total = TOTAL_INCLUDED, open_order_collateral_in_available = DEDUCTED_FROM_AVAILABLE,
     fee_debit_timing = AT_EXECUTION, fee_rounding = FEE_EXACT, partial_fill_representation = PER_FILL_RECORDS,
     cancel_collateral_release = RELEASE_IMMEDIATE, unsettled_proceeds = EXCLUDED_UNTIL_CREDITED, halted_market_behavior = NEW_ORDERS_REJECTED\<rparr>"

definition sample_step :: SessionStep where
  "sample_step = \<lparr>st_book = \<lparr>ob_ticker = ''KX'', yes_bids = [\<lparr>lvl_price = IntUnit 5000, lvl_quantity = IntUnit 800\<rparr>], yes_asks = sample_asks,
       ob_fetched_at = 5\<rparr>, st_trades = sample_prints\<rparr>"

definition sample_exchange :: "paper_error + PaperExchange" where
  "sample_exchange = PaperExchange_new [] [(''KX'', [sample_step])] \<lparr>es_status = ''open'', es_fetched_at = 0\<rparr> 0
     \<lparr>bal_total = IntUnit 100000000, bal_available = IntUnit 100000000, bal_fetched_at = 0\<rparr> sample_semantics
     [(DEFAULT_FEE_KEY, sample_fees)] 250000 250000 None"

definition sample_order :: PaperOrderIntent where
  "sample_order = \<lparr>po_ticker = ''KX'', po_side = ''yes'', po_price = IntUnit 5000, po_quantity = IntUnit 1000\<rparr>"

definition sample_cmds :: "px_cmd list" where
  "sample_cmds = [Place sample_order, Advance]"

lemma sample_started:
  "sample_exchange = Inr (projr sample_exchange)" "list_all sided sample_cmds" "dict_wf [(''KX'', [sample_step])]"
proof -
  have "is_ok sample_exchange" by code_simp
  then show "sample_exchange = Inr (projr sample_exchange)" by (metis is_okE sum.sel(2))
  show "list_all sided sample_cmds" "dict_wf [(''KX'', [sample_step])]" by code_simp+
qed

section \<open>Properties\<close>

text \<open>C16. The account stays exact through any sequence of placements, cancels and replay steps: order and fill ids
  never repeat, no order is ever filled beyond its size, an order that was not cancelled is open exactly while something of
  it is left and then with exactly what its fills left of it, nothing else is open, and the next replay step
  does not raise.\<close>

theorem paper_account_exact:
  assumes "PaperExchange_new markets sessions status time balances semantics fee_models haircut ppm anchor = Inr px0"
    and "dict_wf sessions" and "list_all sided cmds" and "px = px_run cmds px0"
  shows "distinct (map oo_id (get_rested_orders px)) \<and> distinct (map fill_id (px_fills px)) \<and> distinct (map oo_id (get_open_orders px)) \<and>
    list_all (\<lambda>ord. filled_against (px_fills px) (oo_id ord) \<le> val (oo_quantity ord) \<and>
      (Cancel (oo_id ord) \<in> set cmds \<or>
       (left_of (px_fills px) ord \<in> set (get_open_orders px)) = (filled_against (px_fills px) (oo_id ord) < val (oo_quantity ord))))
      (get_rested_orders px) \<and>
    set (get_open_orders px) \<subseteq> left_of (px_fills px) ` set (get_rested_orders px) \<and>
    is_ok (fst (advance px))"
proof -
  from px_inv_run [OF px_inv_new(1) [OF assms(1,2)] assms(3)] obtain C where
    C: "px_ok C px" "C \<subseteq> {oid. Cancel oid \<in> set cmds}" "cursors_ok (advances cmds) px"
    unfolding px_inv_def assms(4) by auto
  have acc: "account_ok C (px_order_seq px) (px_fill_seq px) (px_rested px) (px_fills px) (px_resting px)"
    using C(1) by (simp add: px_ok_def)
  have open_eq: "px_resting px = filter (\<lambda>ord. oo_id ord \<notin> C) (still_resting (px_rested px) (px_fills px))"
    using acc unfolding account_ok_def by blast
  have "left_of (px_fills px) ord \<in> set (px_resting px) \<longleftrightarrow> filled_against (px_fills px) (oo_id ord) < val (oo_quantity ord)"
    if "ord \<in> set (px_rested px)" "oo_id ord \<notin> C" for ord
  proof -
    have "left_of (px_fills px) ord \<in> set (px_resting px) \<longleftrightarrow> 0 < val (oo_quantity (left_of (px_fills px) ord))"
      unfolding open_eq still_resting_def using that by auto
    then show ?thesis by simp
  qed
  moreover have "filled_against (px_fills px) (oo_id ord) \<le> val (oo_quantity ord)" if "ord \<in> set (px_rested px)" for ord
    using acc that by (simp add: account_ok_def)
  moreover have "set (px_resting px) \<subseteq> left_of (px_fills px) ` set (px_rested px)"
    unfolding open_eq still_resting_def by auto
  moreover obtain px' where "advance px = (Inr (\<exists>(t, steps) \<in> set (px_sessions px). Suc (advances cmds) < length steps), px')"
    using advance_ok [OF C(1,3)] by blast
  ultimately show ?thesis
    using px_ok_distinct [OF C(1)] px_ok_resting(1) [OF C(1)] C(2)
    unfolding get_rested_orders_def get_open_orders_def list_all_iff by auto
qed

theorem paper_account_exact_witness:
  "map oo_quantity (get_open_orders (px_run sample_cmds (projr sample_exchange))) = [IntUnit 450] \<and>
   filled_against (px_fills (px_run sample_cmds (projr sample_exchange))) ''paper-order-1'' = 200 \<and>
   is_ok (fst (advance (px_run sample_cmds (projr sample_exchange))))"
proof -
  have "map oo_quantity (get_open_orders (px_run sample_cmds (projr sample_exchange))) = [IntUnit 450]"
    "filled_against (px_fills (px_run sample_cmds (projr sample_exchange))) ''paper-order-1'' = 200" by code_simp+
  then show ?thesis
    using paper_account_exact [OF sample_started(1) [unfolded sample_exchange_def] sample_started(3,2) refl]
    unfolding sample_exchange_def by blast
qed

text \<open>C39. A replay ends: after as many steps as its longest session every cursor has consumed its recording, so the
  exchange refuses to tell the time, whatever was placed or cancelled in between; before that, a replay whose
  clock is not anchored tells it.\<close>

theorem replay_runs_out:
  assumes "PaperExchange_new markets sessions status time balances semantics fee_models haircut ppm anchor = Inr px0"
    and "dict_wf sessions" and "list_all sided cmds" and "px = px_run cmds px0"
  shows "(list_all (\<lambda>(t, steps). length steps \<le> advances cmds) (px_sessions px) \<longrightarrow>
      (\<exists>why. get_exchange_time px now = Inl (ReplayExhausted why))) \<and>
    (\<not> list_all (\<lambda>(t, steps). length steps \<le> advances cmds) (px_sessions px) \<and> px_substantiated_until px = None \<longrightarrow>
      get_exchange_time px now = Inr (px_exchange_time px)) \<and>
    fst (advance px) = Inr (\<not> list_all (\<lambda>(t, steps). length steps \<le> Suc (advances cmds)) (px_sessions px))"
proof -
  from px_inv_run [OF px_inv_new(1) [OF assms(1,2)] assms(3)] obtain C where
    C: "px_ok C px" "cursors_ok (advances cmds) px" unfolding px_inv_def assms(4) by auto
  have cur: "dict_wf (px_cursor px)" "dict_wf (px_sessions px)" "fst ` set (px_cursor px) \<subseteq> fst ` set (px_sessions px)"
    "\<And>t steps. (t, steps) \<in> set (px_sessions px) \<Longrightarrow> dict_get (px_cursor px) t = Some (min (advances cmds) (length steps))"
    using C(2) by (auto simp: cursors_ok_def)
  have "list_all (\<lambda>(t, cursor). cursor \<ge> length (the (dict_get (px_sessions px) t))) (px_cursor px) \<longleftrightarrow>
      list_all (\<lambda>(t, steps). length steps \<le> advances cmds) (px_sessions px)" (is "?l = ?r")
  proof
    assume l: ?l
    show ?r unfolding list_all_iff
    proof clarify
      fix t steps assume m: "(t, steps) \<in> set (px_sessions px)"
      have "(t, min (advances cmds) (length steps)) \<in> set (px_cursor px)" using cur(4) [OF m] by (rule dict_get_in_values)
      with l have "length (the (dict_get (px_sessions px) t)) \<le> min (advances cmds) (length steps)" by (auto simp: list_all_iff)
      with dict_get_of_mem [OF cur(2) m] show "length steps \<le> advances cmds" by simp
    qed
  next
    assume r: ?r
    show ?l unfolding list_all_iff
    proof clarify
      fix t c assume m: "(t, c) \<in> set (px_cursor px)"
      with cur(3) obtain steps where s: "(t, steps) \<in> set (px_sessions px)" by force
      with cur(4) [OF s] dict_get_of_mem [OF cur(1) m] have "c = min (advances cmds) (length steps)" by simp
      with r s dict_get_of_mem [OF cur(2) s] show "length (the (dict_get (px_sessions px) t)) \<le> c" by (auto simp: list_all_iff)
    qed
  qed
  moreover have "fst (advance px) = Inr (\<not> list_all (\<lambda>(t, steps). length steps \<le> Suc (advances cmds)) (px_sessions px))"
    using advance_ok [OF C] unfolding some_longer by auto
  ultimately show ?thesis unfolding get_exchange_time_def replay_exhaustion_reason_def by simp
qed

theorem replay_runs_out_witness:
  "get_exchange_time (projr sample_exchange) 7 = Inr 0 \<and>
   (\<exists>why. get_exchange_time (px_run sample_cmds (projr sample_exchange)) 7 = Inl (ReplayExhausted why)) \<and>
   fst (advance (projr sample_exchange)) = Inr False"
proof -
  note start = sample_started(1) [unfolded sample_exchange_def] sample_started(3)
  have "list_all (\<lambda>(t, steps). length steps \<le> advances sample_cmds) (px_sessions (px_run sample_cmds (projr sample_exchange)))" by code_simp
  then have "\<exists>why. get_exchange_time (px_run sample_cmds (projr sample_exchange)) 7 = Inl (ReplayExhausted why)"
    using replay_runs_out [OF start sample_started(2) refl] unfolding sample_exchange_def by blast
  moreover have "\<not> list_all (\<lambda>(t, steps). length steps \<le> advances []) (px_sessions (projr sample_exchange))"
    "px_substantiated_until (projr sample_exchange) = None" "px_exchange_time (projr sample_exchange) = 0"
    "list_all (\<lambda>(t, steps). length steps \<le> Suc (advances [])) (px_sessions (projr sample_exchange))" by code_simp+
  then have "get_exchange_time (projr sample_exchange) 7 = Inr 0" "fst (advance (projr sample_exchange)) = Inr False"
    using replay_runs_out [OF start, of "[]" "projr sample_exchange" 7] unfolding sample_exchange_def px_run_def by simp_all
  ultimately show ?thesis by blast
qed

text \<open>A placement accounts for every contract asked for: what it fills on the spot, at prices within its limit, and what it
  rests add up to the order; total cash falls by exactly the cost and fee bound of the new fills, available
  cash by that and the collateral of what rests; the new fills and the new order are appended to the history.\<close>

theorem placement_accounts:
  assumes "place_order intent px = (Inr pl, px')" and "get_balances px now = Inr b"
    and "0 \<le> val (po_quantity intent)" and "0 \<le> px_max_participation_ppm px" and "px_max_participation_ppm px \<le> 1000000"
    and "current_step px (po_ticker intent) = Inr step"
    and "0 \<le> level_total (eligible_levels (taker_levels intent (st_book step)) (po_price intent))"
  shows "(\<Sum>f \<leftarrow> pl_fills pl. val (fill_quantity f)) + (case pl_resting_order pl of None \<Rightarrow> 0 | Some ord \<Rightarrow> val (oo_quantity ord))
      = val (po_quantity intent) \<and>
    list_all (\<lambda>f. fill_price f \<le> po_price intent \<and> 0 < val (fill_quantity f)) (pl_fills pl) \<and>
    px_fills px' = px_fills px @ pl_fills pl \<and>
    px_rested px' = px_rested px @ (case pl_resting_order pl of None \<Rightarrow> [] | Some ord \<Rightarrow> [ord]) \<and>
    get_balances px' now =
      res_bind (fills_cash px (pl_fills pl)) (\<lambda>spent.
      res_bind (held_cash px (case pl_resting_order pl of None \<Rightarrow> [] | Some ord \<Rightarrow> [ord])) (\<lambda>held.
        Inr (b\<lparr>bal_total := IntUnit (val (bal_total b) - spent), bal_available := IntUnit (val (bal_available b) - spent - held)\<rparr>)))"
proof (cases rule: place_order_cases [of intent px])
  case (raised e)
  with assms(1) show ?thesis by simp
next
  case (placed step' result pl')
  let ?fs = "taker_fills (px_fill_seq px) intent (st_book step') (tf_consumed result)"
  have eqs: "pl' = pl" "step' = step" using placed(1,2) assms(1,6) by (auto simp: placement_def)
  obtain fm where walk: "walk_taker_fill (taker_levels intent (st_book step)) (po_price intent) (po_quantity intent) fm
      (px_haircut_ppm px) (px_max_participation_ppm px) = Inr result" using placed(1) eqs by (auto simp: placement_def)
  note t = walk_consumed [OF walk assms(4,5,7)]
  have rest: "(case pl_resting_order pl of None \<Rightarrow> [] | Some ord \<Rightarrow> [ord]) = rested_order intent result px"
    using placed(4) eqs by (auto simp: rested_order_def Let_def)
  have sum: "(\<Sum>f \<leftarrow> ?fs. val (fill_quantity f)) = val (tf_filled result)"
    using arg_cong [OF taker_fills_props(2), of "map val"] t(1) t(4) [OF assms(3)] by (simp add: level_total_def comp_def)
  have "val (tf_filled result) \<le> val (po_quantity intent)" by (rule walk_taker_fill_Inr [OF walk]) simp
  then have "(case pl_resting_order pl of None \<Rightarrow> 0 | Some ord \<Rightarrow> val (oo_quantity ord)) = val (po_quantity intent) - val (tf_filled result)"
    using placed(4) eqs by (auto simp: rested_order_def Let_def)
  moreover have "list_all (\<lambda>f. fill_price f \<le> po_price intent \<and> 0 < val (fill_quantity f)) ?fs"
    unfolding list_all_iff using taker_fills_props(3) t(3) by fastforce
  moreover have px': "px' = snd (place_order intent px)" using assms(1) by simp
  then have st: "px_fills px' = px_fills px @ ?fs" "px_resting px' = px_resting px @ rested_order intent result px"
    "px_rested px' = px_rested px @ rested_order intent result px" "px_fee_models px' = px_fee_models px" "px_balances px' = px_balances px"
    using placed(2) eqs by simp_all
  moreover have "get_balances px' now = res_bind (fills_cash px ?fs) (\<lambda>spent. res_bind (held_cash px (rested_order intent result px)) (\<lambda>held.
        Inr (b\<lparr>bal_total := IntUnit (val (bal_total b) - spent), bal_available := IntUnit (val (bal_available b) - spent - held)\<rparr>)))"
    by (rule balances_after [OF assms(2) st(1,2,4,5)])
  ultimately show ?thesis using sum placed(3) eqs rest by simp
qed

theorem placement_accounts_witness:
  "\<exists>pl px'. place_order sample_order (projr sample_exchange) = (Inr pl, px') \<and>
     (\<Sum>f \<leftarrow> pl_fills pl. val (fill_quantity f)) + (case pl_resting_order pl of None \<Rightarrow> 0 | Some ord \<Rightarrow> val (oo_quantity ord)) = 1000"
proof -
  let ?px = "projr sample_exchange" and ?p = "place_order sample_order (projr sample_exchange)"
  have ok: "is_ok (fst ?p)" "is_ok (get_balances ?px 3)" "0 \<le> px_max_participation_ppm ?px" "px_max_participation_ppm ?px \<le> 1000000"
    "0 \<le> val (po_quantity sample_order)" "current_step ?px (po_ticker sample_order) = Inr sample_step"
    "0 \<le> level_total (eligible_levels (taker_levels sample_order (st_book sample_step)) (po_price sample_order))"
    "val (po_quantity sample_order) = 1000" by code_simp+
  from ok(1) obtain pl where pl: "fst ?p = Inr pl" by (rule is_okE)
  then have p: "?p = (Inr pl, snd ?p)" by (metis prod.collapse)
  from ok(2) obtain b where b: "get_balances ?px 3 = Inr b" by (rule is_okE)
  from placement_accounts [OF p b ok(5,3,4,6,7)] ok(8) p show ?thesis by auto
qed

text \<open>Positions are the net of the fills: unless some market was filled on both sides, in which case exactly one
  such market is reported as an error, there is one row per filled market and its signed size is what was filled on yes less what was
  filled on no.\<close>

theorem positions_net_fills:
  assumes "PaperExchange_new markets sessions status time balances semantics fee_models haircut ppm anchor = Inr px0"
    and "dict_wf sessions" and "list_all sided cmds" and "px = px_run cmds px0"
  shows "case get_positions px of
      Inl e \<Rightarrow> \<exists>f g. f \<in> set (px_fills px) \<and> g \<in> set (px_fills px) \<and> fill_ticker f = fill_ticker g \<and>
        fill_side f = ''yes'' \<and> fill_side g = ''no'' \<and> e = TwoSidedPositionError (fill_ticker f)
    | Inr rows \<Rightarrow> distinct (map pos_ticker rows) \<and> pos_ticker ` set rows = fill_ticker ` set (px_fills px) \<and>
        list_all (\<lambda>row. val (pos_quantity row) = signed_quantity (px_fills px) (pos_ticker row)) rows"
proof -
  from px_inv_run [OF px_inv_new(1) [OF assms(1,2)] assms(3)] obtain C where C: "px_ok C px" unfolding px_inv_def assms(4) by auto
  have pos: "\<forall>f \<in> set (px_fills px). 0 < val (fill_quantity f)" using px_ok_fill(1) [OF C] by blast
  have sides: "fill_side f = ''yes'' \<or> fill_side f = ''no''" if "f \<in> set (px_fills px)" for f
    using C that unfolding px_ok_def account_ok_def by blast
  note main = get_positions_ok [OF pos]
  show ?thesis
  proof (cases "get_positions px")
    case (Inl e)
    with main obtain f g where fg: "f \<in> set (px_fills px)" "g \<in> set (px_fills px)" "fill_ticker f = fill_ticker g"
      "fill_side f \<noteq> fill_side g" "e = TwoSidedPositionError (fill_ticker f)" by fastforce
    from sides [OF fg(1)] sides [OF fg(2)] fg(4) have
      "fill_side f = ''yes'' \<and> fill_side g = ''no'' \<or> fill_side g = ''yes'' \<and> fill_side f = ''no''" by (elim disjE) simp_all
    with fg show ?thesis unfolding Inl sum.case by metis
  next
    case (Inr rows)
    with main show ?thesis by (simp add: list_all_iff)
  qed
qed

theorem positions_net_fills_witness:
  "map pos_ticker (projr (get_positions (px_run sample_cmds (projr sample_exchange)))) = [''KX''] \<and>
   map pos_quantity (projr (get_positions (px_run sample_cmds (projr sample_exchange)))) = [IntUnit 550] \<and>
   signed_quantity (px_fills (px_run sample_cmds (projr sample_exchange))) ''KX'' = 550"
proof -
  let ?px = "px_run sample_cmds (projr sample_exchange)"
  note start = sample_started(1) [unfolded sample_exchange_def] sample_started(3)
  have v: "is_ok (get_positions ?px)" "map pos_ticker (projr (get_positions ?px)) = [''KX'']"
    "map pos_quantity (projr (get_positions ?px)) = [IntUnit 550]" by code_simp+
  from v(1) obtain rows where rows: "get_positions ?px = Inr rows" by (rule is_okE)
  have "list_all (\<lambda>row. val (pos_quantity row) = signed_quantity (px_fills ?px) (pos_ticker row)) rows"
    using positions_net_fills [OF start sample_started(2) refl] rows unfolding sample_exchange_def by simp
  with v rows show ?thesis by (cases rows) auto
qed

end
