(* ===== verification/FillAccounting.thy ===== *)
theory FillAccounting
  imports Verification PaperAccount LedgerStore
begin

text \<open>
  Booking a venue's executions and order arrivals into the ledger, and reading them back for the kernel
  (\<open>windbreak/scheduler/fill_accounting.py\<close>, with the two entry types of \<open>windbreak/ledger/events.py\<close>), and what
  the paper exchange, the bookkeeper, the ledger, the feed and the kernel's verification do together. The ledger writer is a
  parameter of the bookkeeper; the clock's readings are arguments.
\<close>

section \<open>Definitions\<close>

definition FILL_ACCOUNTED_SCHEMA_VERSION :: int where "FILL_ACCOUNTED_SCHEMA_VERSION = 2"
definition RESTING_ORDER_ACCOUNTED_SCHEMA_VERSION :: int where "RESTING_ORDER_ACCOUNTED_SCHEMA_VERSION = 2"

definition FillAccounted :: "string \<Rightarrow> string \<Rightarrow> string \<Rightarrow> int \<Rightarrow> int \<Rightarrow> string \<Rightarrow> Event" where
  "FillAccounted cmp fid ticker cash_delta position_delta oid =
     derive_typed_event ''FillAccounted'' cmp
       [(''fill_id'', JStr fid), (''ticker'', JStr ticker), (''cash_delta_micros'', JInt cash_delta),
        (''position_delta_centis'', JInt position_delta), (''venue_order_id'', JStr oid)] FILL_ACCOUNTED_SCHEMA_VERSION"

definition RestingOrderAccounted :: "string \<Rightarrow> string \<Rightarrow> string \<Rightarrow> int \<Rightarrow> int \<Rightarrow> Event" where
  "RestingOrderAccounted cmp oid ticker quantity reserved =
     derive_typed_event ''RestingOrderAccounted'' cmp
       [(''venue_order_id'', JStr oid), (''ticker'', JStr ticker), (''resting_quantity_centis'', JInt quantity),
        (''reserved_collateral_micros'', JInt reserved)] RESTING_ORDER_ACCOUNTED_SCHEMA_VERSION"

definition ACCOUNTING_EVENT_TYPES :: "string list" where
  "ACCOUNTING_EVENT_TYPES = [RESTING_ORDER_ACCOUNTED_EVENT_TYPE, FILL_ACCOUNTED_EVENT_TYPE]"

definition EPOCH_FLOOR :: int where "EPOCH_FLOOR = 0"

text \<open>What the bookkeeper reads of a venue; \<open>get_fills\<close> is read from the epoch on.\<close>

record 'e FillSource =
  fs_get_fills :: "int \<Rightarrow> Fill list"
  fs_fill_cash_micros :: "Fill \<Rightarrow> 'e + MoneyMicros"
  fs_get_rested_orders :: "OpenOrder list"
  fs_resting_collateral_micros :: "OpenOrder \<Rightarrow> 'e + MoneyMicros"

definition paper_source :: "PaperExchange \<Rightarrow> paper_error FillSource" where
  "paper_source px = \<lparr>fs_get_fills = get_fills px, fs_fill_cash_micros = fill_cash_micros px,
     fs_get_rested_orders = get_rested_orders px, fs_resting_collateral_micros = resting_collateral_micros px\<rparr>"

definition position_delta_centis :: "Fill \<Rightarrow> int" where
  "position_delta_centis f = (if fill_side f = ''yes'' then val (fill_quantity f) else - val (fill_quantity f))"

subsection \<open>The bookkeeper\<close>

record LedgerFillBookkeeper =
  bk_component :: string
  bk_booked :: "string set"
  bk_booked_orders :: "string set"

type_synonym ('e, 'w) book_writer = "Event \<Rightarrow> 'w \<Rightarrow> ('e + int) \<times> 'w"

fun book_arrivals ::
    "('e, 'w) book_writer \<Rightarrow> 'e FillSource \<Rightarrow> OpenOrder list \<Rightarrow> LedgerFillBookkeeper \<Rightarrow> 'w \<Rightarrow> ('e + int) \<times> LedgerFillBookkeeper \<times> 'w" where
  "book_arrivals write src [] bk w = (Inr 0, bk, w)"
| "book_arrivals write src (ord # ords) bk w =
     (if oo_id ord \<in> bk_booked_orders bk then book_arrivals write src ords bk w
      else (case fs_resting_collateral_micros src ord of
          Inl e \<Rightarrow> (Inl e, bk, w)
        | Inr reserved \<Rightarrow>
            (case write (RestingOrderAccounted (bk_component bk) (oo_id ord) (oo_ticker ord) (val (oo_quantity ord)) (val reserved)) w of
               (Inl e, w1) \<Rightarrow> (Inl e, bk, w1)
             | (Inr _, w1) \<Rightarrow>
                 (case book_arrivals write src ords (bk\<lparr>bk_booked_orders := insert (oo_id ord) (bk_booked_orders bk)\<rparr>) w1 of
                    (n, bk2, w2) \<Rightarrow> (map_sum id (\<lambda>n. n + 1) n, bk2, w2)))))"

fun book_fills ::
    "('e, 'w) book_writer \<Rightarrow> 'e FillSource \<Rightarrow> Fill list \<Rightarrow> LedgerFillBookkeeper \<Rightarrow> 'w \<Rightarrow> ('e + int) \<times> LedgerFillBookkeeper \<times> 'w" where
  "book_fills write src [] bk w = (Inr 0, bk, w)"
| "book_fills write src (f # fs) bk w =
     (if fill_id f \<in> bk_booked bk then book_fills write src fs bk w
      else (case fs_fill_cash_micros src f of
          Inl e \<Rightarrow> (Inl e, bk, w)
        | Inr cash \<Rightarrow>
            (case write (FillAccounted (bk_component bk) (fill_id f) (fill_ticker f) (- val cash) (position_delta_centis f)
                    (case fill_order_id f of None \<Rightarrow> [] | Some oid \<Rightarrow> oid)) w of
               (Inl e, w1) \<Rightarrow> (Inl e, bk, w1)
             | (Inr _, w1) \<Rightarrow>
                 (case book_fills write src fs (bk\<lparr>bk_booked := insert (fill_id f) (bk_booked bk)\<rparr>) w1 of
                    (n, bk2, w2) \<Rightarrow> (map_sum id (\<lambda>n. n + 1) n, bk2, w2)))))"

definition book_new :: "('e, 'w) book_writer \<Rightarrow> 'e FillSource \<Rightarrow> LedgerFillBookkeeper \<Rightarrow> 'w \<Rightarrow> ('e + int) \<times> LedgerFillBookkeeper \<times> 'w" where
  "book_new write src bk w =
     (case book_arrivals write src (fs_get_rested_orders src) bk w of
        (Inl e, bk1, w1) \<Rightarrow> (Inl e, bk1, w1)
      | (Inr n, bk1, w1) \<Rightarrow>
          (case book_fills write src (fs_get_fills src EPOCH_FLOOR) bk1 w1 of
             (m, bk2, w2) \<Rightarrow> (map_sum id (\<lambda>m. n + m) m, bk2, w2)))"

subsection \<open>The feed\<close>

record LedgerFillAccountingFeed =
  ff_component :: string
  ff_cursor :: int

definition fresh_of_type :: "table \<Rightarrow> int \<Rightarrow> string \<Rightarrow> LedgerRecord list" where
  "fresh_of_type db cursor t = takeWhile (\<lambda>r. \<not> lr_sequence_number r \<le> cursor) (iter_records_of_type_reversed t db)"

definition feed_drain :: "table \<Rightarrow> LedgerFillAccountingFeed \<Rightarrow> (rebuild_error + Event list) \<times> LedgerFillAccountingFeed" where
  "feed_drain db feed =
     (let fresh = concat (map (fresh_of_type db (ff_cursor feed)) ACCOUNTING_EVENT_TYPES) in
      if fresh = [] then (Inr [], feed)
      else (let sorted = sort_key lr_sequence_number fresh in
        (events_from_records (filter (\<lambda>r. lr_component r = ff_component feed) sorted),
         feed\<lparr>ff_cursor := lr_sequence_number (last sorted)\<rparr>)))"

section \<open>Lemmas\<close>

subsection \<open>The feed on the ledger\<close>

definition accounting_row :: "LedgerFillAccountingFeed \<Rightarrow> LedgerRecord \<Rightarrow> bool" where
  "accounting_row feed r = (ff_cursor feed < lr_sequence_number r \<and> lr_event_type r \<in> set ACCOUNTING_EVENT_TYPES)"

lemma two_types:
  "a \<noteq> b \<Longrightarrow> mset (filter (\<lambda>r. lr_event_type r = a \<and> P r) db) + mset (filter (\<lambda>r. lr_event_type r = b \<and> P r) db) =
     mset (filter (\<lambda>r. P r \<and> lr_event_type r \<in> {a, b}) db)"
  by (induction db) auto

lemma fresh_rows:
  assumes "store_ok sha db"
  shows "sort_key lr_sequence_number (concat (map (fresh_of_type db (ff_cursor feed)) ACCOUNTING_EVENT_TYPES)) =
    filter (accounting_row feed) db"
proof -
  have ra: "read_all db = db" and vr: "verify_rows sha db 1 GENESIS_PREV_HASH = Inr ()"
    using assms read_all_verified by (auto simp: store_ok_rows)
  have desc: "sorted_wrt (\<lambda>r s. lr_sequence_number s < lr_sequence_number r) (rev db)"
    using verify_rows_sorted [OF vr] by (simp add: sorted_wrt_rev sorted_wrt_map)
  have f: "fresh_of_type db (ff_cursor feed) t = rev (filter (\<lambda>r. lr_event_type r = t \<and> ff_cursor feed < lr_sequence_number r) db)" for t
    unfolding fresh_of_type_def iter_records_of_type_reversed_def ra
    by (subst sorted_takeWhile [OF sorted_wrt_filter [OF desc]]) (simp add: rev_filter not_le conj_commute)
  have types: "RESTING_ORDER_ACCOUNTED_EVENT_TYPE \<noteq> FILL_ACCOUNTED_EVENT_TYPE"
    by (simp add: RESTING_ORDER_ACCOUNTED_EVENT_TYPE_def FILL_ACCOUNTED_EVENT_TYPE_def)
  have m: "mset (concat (map (fresh_of_type db (ff_cursor feed)) ACCOUNTING_EVENT_TYPES)) = mset (filter (accounting_row feed) db)"
    using two_types [OF types, of "\<lambda>r. ff_cursor feed < lr_sequence_number r" db]
    by (simp add: ACCOUNTING_EVENT_TYPES_def f accounting_row_def conj_commute)
  have asc: "sorted_wrt (<) (map lr_sequence_number (filter (accounting_row feed) db))"
    using sorted_wrt_filter [of _ db] verify_rows_sorted [OF vr] by (simp add: sorted_wrt_map)
  then have "inj_on lr_sequence_number (set (filter (accounting_row feed) db))"
    by (metis distinct_map strict_sorted_iff)
  then show ?thesis
    using m asc mset_eq_setD [OF m] by (intro sort_key_inj_key_eq) (simp_all add: strict_sorted_iff)
qed


text \<open>The seam of the kernel: the ledger's table and the feed's place in it. An item is an append, with its clock
  reading; the feed shows the accounting entries of its own component.\<close>

type_synonym ledger_seam = "table \<times> LedgerFillAccountingFeed"

definition seam_drain :: "ledger_seam \<Rightarrow> (rebuild_error + Event list) \<times> ledger_seam" where
  "seam_drain s = (case feed_drain (fst s) (snd s) of (r, feed) \<Rightarrow> (r, (fst s, feed)))"

definition seam_put :: "digest_fn \<Rightarrow> string \<times> Event \<Rightarrow> ledger_seam \<Rightarrow> ledger_seam" where
  "seam_put sha i s = (snd (append_event sha (None :: string option) (fst i) (snd i) (fst s)), snd s)"

definition seam_shown :: "string \<Rightarrow> string \<times> Event \<Rightarrow> Event list" where
  "seam_shown cmp i = (if component (snd i) = cmp \<and> event_type (snd i) \<in> set ACCOUNTING_EVENT_TYPES then [canon_event (snd i)] else [])"

definition seam_rows :: "ledger_seam \<Rightarrow> LedgerRecord list" where
  "seam_rows s = filter (\<lambda>r. accounting_row (snd s) r \<and> lr_component r = ff_component (snd s)) (fst s)"

definition seam_pending :: "ledger_seam \<Rightarrow> Event list" where
  "seam_pending s = projr (events_from_records (seam_rows s))"

definition seam_ok :: "digest_fn \<Rightarrow> string \<Rightarrow> ledger_seam \<Rightarrow> bool" where
  "seam_ok sha cmp s = (store_ok sha (fst s) \<and> is_ok (events_from_records (seam_rows s)) \<and> ff_component (snd s) = cmp \<and>
     ff_cursor (snd s) \<le> int (length (fst s)))"

lemma drain_rows:
  assumes "store_ok sha db"
  shows "feed_drain db feed =
    (if filter (accounting_row feed) db = [] then (Inr [], feed)
     else (events_from_records (seam_rows (db, feed)), feed\<lparr>ff_cursor := lr_sequence_number (last (filter (accounting_row feed) db))\<rparr>))"
proof -
  have "concat (map (fresh_of_type db (ff_cursor feed)) ACCOUNTING_EVENT_TYPES) = [] \<longleftrightarrow> filter (accounting_row feed) db = []"
    unfolding fresh_rows [OF assms, symmetric] by (metis length_0_conv length_sort)
  then show ?thesis unfolding feed_drain_def Let_def fresh_rows [OF assms] seam_rows_def
    by (simp add: filter_filter conj_commute)
qed

lemma appended_fields:
  assumes "append_event sha (None :: string option) t e db = (n, db @ [r])"
  shows "lr_component r = component e" "lr_event_type r = event_type e" "n = Inr (lr_sequence_number r)"
  using assms by (auto simp: append_event_def Let_def split: prod.splits)

context accounting_feed
begin

lemma puts:
  assumes "feed_ok f" and "list_all item_ok is"
  shows "feed_ok (fold put is f) \<and> pending (fold put is f) = pending f @ concat (map shown is)"
  using assms by (induction "is" arbitrary: f) (simp_all add: put_ok put_pending)

end

lemma last_ge: "sorted (map f xs) \<Longrightarrow> x \<in> set xs \<Longrightarrow> f x \<le> f (last xs)"
  by (induction xs) auto

interpretation seam: accounting_feed seam_drain seam_pending "seam_put sha" "seam_shown cmp" "seam_ok sha cmp"
  "\<lambda>i. json_wf (JObj (payload (snd i)))" for sha cmp
proof
  fix s :: ledger_seam assume ok: "seam_ok sha cmp s"
  obtain db feed where s: "s = (db, feed)" by (cases s)
  have st: "store_ok sha db" using ok s by (simp add: seam_ok_def)
  have vr: "verify_rows sha db 1 GENESIS_PREV_HASH = Inr ()" using st by (simp add: store_ok_rows)
  note d = drain_rows [OF st, of feed]
  have none: "seam_rows (db, feed) = []" if "filter (accounting_row feed) db = []"
    using that unfolding seam_rows_def filter_empty_conv by auto
  have "is_ok (events_from_records (seam_rows (db, feed)))" using ok s by (simp add: seam_ok_def)
  then obtain es where es: "events_from_records (seam_rows (db, feed)) = Inr es" by (rule is_okE)
  show "fst (seam_drain s) = Inr (seam_pending s)"
    using es d none by (auto simp: seam_drain_def seam_pending_def s split: prod.splits if_splits)
  show "seam_ok sha cmp (snd (seam_drain s)) \<and> seam_pending (snd (seam_drain s)) = []"
  proof (cases "filter (accounting_row feed) db = []")
    case True
    then show ?thesis using ok none d by (simp add: seam_drain_def s seam_pending_def)
  next
    case False
    let ?feed = "feed\<lparr>ff_cursor := lr_sequence_number (last (filter (accounting_row feed) db))\<rparr>"
    have snd: "snd (seam_drain s) = (db, ?feed)" using False d by (simp add: seam_drain_def s)
    have asc: "sorted_wrt (<) (map lr_sequence_number (filter (accounting_row feed) db))"
      using sorted_wrt_filter [of _ db] verify_rows_sorted [OF vr] by (simp add: sorted_wrt_map)
    have last: "lr_sequence_number r \<le> ff_cursor ?feed" if "r \<in> set (filter (accounting_row feed) db)" for r
      using last_ge [of lr_sequence_number "filter (accounting_row feed) db" r] asc that by (simp add: strict_sorted_iff)
    have rows: "seam_rows (db, ?feed) = []"
    proof -
      have "ff_cursor feed < ff_cursor ?feed" using last_in_set [OF False] by (simp add: accounting_row_def)
      then have "\<not> accounting_row ?feed r" if "r \<in> set db" for r
        using last [of r] that by (auto simp: accounting_row_def)
      then show ?thesis by (auto simp: seam_rows_def filter_empty_conv)
    qed
    have "last (filter (accounting_row feed) db) \<in> set db" using last_in_set [OF False] by auto
    then have "lr_sequence_number (last (filter (accounting_row feed) db)) \<in> set (map lr_sequence_number db)" by simp
    then have "ff_cursor ?feed \<le> int (length db)" unfolding verify_rows_seq [OF vr] by auto
    then show ?thesis unfolding snd using rows ok s st by (simp add: seam_ok_def seam_pending_def)
  qed
next
  fix s :: ledger_seam and i :: "string \<times> Event"
  assume ok: "seam_ok sha cmp s" and i: "json_wf (JObj (payload (snd i)))"
  obtain db feed where s: "s = (db, feed)" by (cases s)
  obtain t e where te: "i = (t, e)" by (cases i)
  have st: "store_ok sha db" using ok s by (simp add: seam_ok_def)
  obtain r where r: "append_event sha (None :: string option) t e db = (Inr (int (length db) + 1), db @ [r])"
    "verify_rows sha (db @ [r]) 1 GENESIS_PREV_HASH = Inr ()" "event_from_record r = Inr (canon_event e)"
    using append_ok [of sha db e t] st i te by (auto simp: store_ok_rows)
  have put: "seam_put sha i s = (db @ [r], feed)" by (simp add: seam_put_def s te r(1))
  have row: "accounting_row feed r = (event_type e \<in> set ACCOUNTING_EVENT_TYPES)" "lr_component r = component e"
    using appended_fields [OF r(1)] ok s by (auto simp: accounting_row_def seam_ok_def)
  have rows: "seam_rows (db @ [r], feed) = seam_rows (db, feed) @ (if seam_shown cmp i = [] then [] else [r])"
    using row ok s by (simp add: seam_rows_def seam_shown_def te seam_ok_def)
  have "is_ok (events_from_records (seam_rows (db, feed)))" using ok s by (simp add: seam_ok_def)
  then obtain es where es: "events_from_records (seam_rows (db, feed)) = Inr es" by (rule is_okE)
  have ev: "events_from_records (seam_rows (db @ [r], feed)) = Inr (es @ seam_shown cmp i)"
    using events_from_append [OF es r(3)] es unfolding rows by (auto simp: seam_shown_def te)
  show "seam_ok sha cmp (seam_put sha i s)"
    using ok ev r(2) s unfolding put by (simp add: seam_ok_def store_ok_rows)
  show "seam_pending (seam_put sha i s) = seam_pending s @ seam_shown cmp i"
    using ev es s unfolding put by (simp add: seam_pending_def)
qed

subsection \<open>Entries as the kernel reads them\<close>

definition arrival_event :: "string \<Rightarrow> (OpenOrder \<Rightarrow> int) \<Rightarrow> OpenOrder \<Rightarrow> Event" where
  "arrival_event cmp col ord = RestingOrderAccounted cmp (oo_id ord) (oo_ticker ord) (val (oo_quantity ord)) (col ord)"

definition fill_event :: "string \<Rightarrow> (Fill \<Rightarrow> int) \<Rightarrow> Fill \<Rightarrow> Event" where
  "fill_event cmp cash f = FillAccounted cmp (fill_id f) (fill_ticker f) (- cash f) (position_delta_centis f)
     (case fill_order_id f of None \<Rightarrow> [] | Some oid \<Rightarrow> oid)"

lemma payload_get_canon:
  assumes "dict_wf (payload e)"
  shows "payload_get (canon_event e) k dflt = (case dict_get (payload e) k of None \<Rightarrow> dflt | Some j \<Rightarrow> json_canon j)"
  using assms by (simp add: payload_get_def canon_event_def dict_get_canon split: option.splits)

lemma canon_event_type [simp]: "event_type (canon_event e) = event_type e" "component (canon_event e) = component e"
  by (simp_all add: canon_event_def)

lemma arrival_event_props:
  "json_wf (JObj (payload (arrival_event cmp col ord)))" "dict_wf (payload (arrival_event cmp col ord))"
  "event_type (arrival_event cmp col ord) = RESTING_ORDER_ACCOUNTED_EVENT_TYPE" "component (arrival_event cmp col ord) = cmp"
  by (simp_all add: arrival_event_def RestingOrderAccounted_def derive_typed_event_def RESTING_ORDER_ACCOUNTED_EVENT_TYPE_def dict_wf_def)

lemma fill_event_props:
  "json_wf (JObj (payload (fill_event cmp cash f)))" "dict_wf (payload (fill_event cmp cash f))"
  "event_type (fill_event cmp cash f) = FILL_ACCOUNTED_EVENT_TYPE" "component (fill_event cmp cash f) = cmp"
  by (simp_all add: fill_event_def FillAccounted_def derive_typed_event_def FILL_ACCOUNTED_EVENT_TYPE_def dict_wf_def)

lemma read_arrival:
  assumes "oo_id ord \<noteq> []" and "0 < val (oo_quantity ord)" and "0 \<le> col ord"
  shows "resting_entry (canon_event (arrival_event cmp col ord)) =
    Some \<lparr>re_venue_order_id = oo_id ord, re_quantity_centis = val (oo_quantity ord), re_reserved_micros = col ord\<rparr>"
  using assms unfolding resting_entry_def payload_get_canon [OF arrival_event_props(2)]
  by (simp add: arrival_event_def RestingOrderAccounted_def derive_typed_event_def VENUE_ORDER_ID_KEY_def RESTING_QUANTITY_KEY_def
      RESERVED_COLLATERAL_KEY_def NO_RESERVATION_def dict_get_def)

lemma read_fill:
  "fill_entry (canon_event (fill_event cmp cash f)) =
    Some \<lparr>fe_ticker = fill_ticker f, fe_cash_delta = IntUnit (- cash f), fe_position_delta = IntUnit (position_delta_centis f),
      fe_venue_order_id = (case fill_order_id f of None \<Rightarrow> [] | Some oid \<Rightarrow> oid)\<rparr>"
  unfolding fill_entry_def payload_get_canon [OF fill_event_props(2)]
  by (simp add: fill_event_def FillAccounted_def derive_typed_event_def VENUE_ORDER_ID_KEY_def ROW_TICKER_KEY_def FILL_CASH_DELTA_KEY_def
      FILL_POSITION_DELTA_KEY_def dict_get_def)

subsection \<open>The expectation follows the account\<close>

definition entry_of :: "(OpenOrder \<Rightarrow> int) \<Rightarrow> Fill list \<Rightarrow> OpenOrder \<Rightarrow> RestingOrder" where
  "entry_of col F ord = \<lparr>total_centis = val (oo_quantity ord), consumed_centis = filled_against F (oo_id ord), reserved_micros = col ord,
     released_micros = col ord * filled_against F (oo_id ord) div val (oo_quantity ord)\<rparr>"

definition withheld :: "(OpenOrder \<Rightarrow> int) \<Rightarrow> Fill list \<Rightarrow> OpenOrder \<Rightarrow> int" where
  "withheld col F ord = col ord - col ord * filled_against F (oo_id ord) div val (oo_quantity ord)"

definition acct :: "(OpenOrder \<Rightarrow> int) \<Rightarrow> OpenOrder list \<Rightarrow> Fill list \<Rightarrow> bool" where
  "acct col R F =
     (distinct (map oo_id R) \<and>
      (\<forall>ord \<in> set R. 0 < val (oo_quantity ord) \<and> oo_id ord \<noteq> [] \<and> 0 \<le> col ord \<and> filled_against F (oo_id ord) \<le> val (oo_quantity ord)) \<and>
      (\<forall>f \<in> set F. 0 < val (fill_quantity f) \<and> (case fill_order_id f of None \<Rightarrow> True | Some oid \<Rightarrow> oid \<in> oo_id ` set R)))"

definition tracked ::
    "int \<Rightarrow> (OpenOrder \<Rightarrow> int) \<Rightarrow> (Fill \<Rightarrow> int) \<Rightarrow> OpenOrder list \<Rightarrow> Fill list \<Rightarrow> 'f LedgerExpectationSource \<Rightarrow> bool" where
  "tracked c0 col cash R F src =
     (\<not> es_unaccountable src \<and> dict_wf (es_open_orders src) \<and>
      val (expected_available_cash (es_expectations src)) = c0 - (\<Sum>f \<leftarrow> F. cash f) - (\<Sum>ord \<leftarrow> R. withheld col F ord) \<and>
      (\<forall>t. quantity_of (expected_positions (es_expectations src)) t = signed_quantity F t) \<and>
      (\<forall>oid r. dict_get (es_open_orders src) oid = Some r \<longleftrightarrow>
         (\<exists>ord \<in> set R. oo_id ord = oid \<and> filled_against F oid < val (oo_quantity ord) \<and> r = entry_of col F ord)) \<and>
      expected_open_order_ids (es_expectations src) = fst ` set (es_open_orders src))"

lemma settle_one:
  assumes "\<not> es_unaccountable src" and "vf_advance e src = (Inr (Some exps), src1)"
  shows "settle [e] src = src1\<lparr>es_expectations := exps\<rparr>"
  using assms by (simp add: settle_def)

lemma track_arrival:
  assumes "tracked c0 col cash R F src" and "acct col R F" and "acct col (R @ [ord]) F"
  shows "tracked c0 col cash (R @ [ord]) F (settle [canon_event (arrival_event cmp col ord)] src)"
proof -
  let ?oid = "oo_id ord"
  have o: "0 < val (oo_quantity ord)" "?oid \<noteq> []" "0 \<le> col ord" "?oid \<notin> oo_id ` set R"
    using assms(3) by (auto simp: acct_def)
  have none: "filled_against F ?oid = 0"
  proof (rule filled_against_none, intro ballI notI)
    fix f assume "f \<in> set F" "fill_order_id f = Some ?oid"
    with assms(2) have "?oid \<in> oo_id ` set R" by (fastforce simp: acct_def)
    with o(4) show False by simp
  qed
  have fresh: "dict_get (es_open_orders src) ?oid = None"
  proof (rule ccontr)
    assume "dict_get (es_open_orders src) ?oid \<noteq> None"
    then obtain r where "dict_get (es_open_orders src) ?oid = Some r" by blast
    with assms(1) obtain o' where "o' \<in> set R" "oo_id o' = ?oid" unfolding tracked_def by metis
    with o(4) show False by (metis image_eqI)
  qed
  have types: "RESTING_ORDER_ACCOUNTED_EVENT_TYPE \<noteq> FILL_ACCOUNTED_EVENT_TYPE"
    by (simp add: RESTING_ORDER_ACCOUNTED_EVENT_TYPE_def FILL_ACCOUNTED_EVENT_TYPE_def)
  define oo where "oo = dict_set ?oid (entry_of col F ord) (es_open_orders src)"
  have rec: "entry_of col F ord = \<lparr>total_centis = val (oo_quantity ord), consumed_centis = 0, reserved_micros = col ord, released_micros = 0\<rparr>"
    by (simp add: entry_of_def none)
  have latch: "\<not> es_unaccountable src" using assms(1) by (simp add: tracked_def)
  have adv: "vf_advance (canon_event (arrival_event cmp col ord)) src =
      (Inr (Some (with_arrival (es_expectations src) oo (col ord))), src\<lparr>es_open_orders := oo\<rparr>)"
    using read_arrival [of ord col, OF o(2,1,3)] fresh types by (simp add: vf_advance_def arrival_event_props Let_def oo_def rec)
  have get: "dict_get oo oid = (if oid = ?oid then Some (entry_of col F ord) else dict_get (es_open_orders src) oid)" for oid
    by (simp add: oo_def dict.get_set)
  have w: "withheld col F ord = col ord" by (simp add: withheld_def none)
  have look: "dict_get oo oid = Some r \<longleftrightarrow>
      (\<exists>o' \<in> set (R @ [ord]). oo_id o' = oid \<and> filled_against F oid < val (oo_quantity o') \<and> r = entry_of col F o')" for oid r
  proof (cases "oid = ?oid")
    case True
    have "\<not> (\<exists>o' \<in> set R. oo_id o' = oid \<and> P o')" for P using o(4) True by (metis image_eqI)
    then show ?thesis using get True o(1) none by auto
  next
    case False
    have "dict_get (es_open_orders src) oid = Some r \<longleftrightarrow>
        (\<exists>o' \<in> set R. oo_id o' = oid \<and> filled_against F oid < val (oo_quantity o') \<and> r = entry_of col F o')"
      using assms(1) unfolding tracked_def by blast
    then show ?thesis using get False by auto
  qed
  show ?thesis
    unfolding settle_one [OF latch adv]
    using assms(1) look w by (simp add: tracked_def with_arrival_def oo_def dict.wf_set)
qed


lemma signed_quantity_snoc:
  "signed_quantity (F @ [f]) t = signed_quantity F t + (if fill_ticker f = t then position_delta_centis f else 0)"
  by (simp add: signed_quantity_def position_delta_centis_def)

lemma sum_list_one_changed:
  assumes "distinct (map k xs)" and "x \<in> set xs" and "\<And>y. y \<in> set xs \<Longrightarrow> k y \<noteq> k x \<Longrightarrow> g y = h y"
  shows "sum_list (map g xs) = sum_list (map h xs) + (g x - h x :: int)"
  using assms
proof (induction xs)
  case (Cons y ys)
  show ?case
  proof (cases "y = x")
    case True
    have "k z \<noteq> k x" if "z \<in> set ys" for z using Cons.prems(1) True that by (metis distinct.simps(2) image_eqI image_set list.simps(9))
    then have "map g ys = map h ys" using Cons.prems(3) by (intro map_cong refl) simp
    with True show ?thesis by (simp del: map_eq_conv)
  next
    case False
    then have "x \<in> set ys" "k y \<noteq> k x" using Cons.prems(1,2) by auto
    with Cons show ?thesis by simp
  qed
qed simp

lemma track_taker_fill:
  assumes "tracked c0 col cash R F src" and "fill_order_id f = None"
  shows "tracked c0 col cash R (F @ [f]) (settle [canon_event (fill_event cmp cash f)] src)"
proof -
  have latch: "\<not> es_unaccountable src" using assms(1) by (simp add: tracked_def)
  have zero: "filled_against [f] oid = 0" for oid using assms(2) by (simp add: filled_against_def)
  then have e: "entry_of col (F @ [f]) = entry_of col F" "withheld col (F @ [f]) = withheld col F"
    by (auto simp: entry_of_def withheld_def zero)
  have adv: "vf_advance (canon_event (fill_event cmp cash f)) src = (Inr (Some (advanced (es_expectations src)
      \<lparr>fe_ticker = fill_ticker f, fe_cash_delta = IntUnit (- cash f), fe_position_delta = IntUnit (position_delta_centis f), fe_venue_order_id = []\<rparr>
      (es_open_orders src) 0)), src)"
    by (simp add: vf_advance_def fill_event_props read_fill assms(2) consume_def)
  show ?thesis
    unfolding settle_one [OF latch adv]
    using assms(1) by (simp add: tracked_def advanced_def e zero signed_quantity_snoc quantity_of_def dict.get_set)
qed

lemma track_resting_fill:
  assumes "tracked c0 col cash R F src" and "acct col R F" and "acct col R (F @ [f])"
    and "fill_order_id f = Some oid" and "\<bar>position_delta_centis f\<bar> = val (fill_quantity f)"
  shows "tracked c0 col cash R (F @ [f]) (settle [canon_event (fill_event cmp cash f)] src)"
proof -
  let ?F = "F @ [f]"
  have latch: "\<not> es_unaccountable src" using assms(1) by (simp add: tracked_def)
  have q: "0 < val (fill_quantity f)" "oid \<in> oo_id ` set R" using assms(3,4) by (auto simp: acct_def)
  then obtain ord where ord: "ord \<in> set R" "oo_id ord = oid" by auto
  have fa: "filled_against [f] x = (if x = oid then val (fill_quantity f) else 0)" for x
    using assms(4) by (simp add: filled_against_def)
  have bound: "filled_against F oid + val (fill_quantity f) \<le> val (oo_quantity ord)" "oid \<noteq> []" "0 \<le> col ord"
    using assms(3) ord fa by (fastforce simp: acct_def)+
  have uniq: "o' = ord" if "o' \<in> set R" "oo_id o' = oid" for o'
    using distinct_same_key [of oo_id R o' ord] assms(2) that ord by (simp add: acct_def)
  have iff: "dict_get (es_open_orders src) x = Some r \<longleftrightarrow>
      (\<exists>o' \<in> set R. oo_id o' = x \<and> filled_against F x < val (oo_quantity o') \<and> r = entry_of col F o')" for x r
    using assms(1) unfolding tracked_def by blast
  have now: "dict_get (es_open_orders src) oid = Some (entry_of col F ord)"
    unfolding iff using ord bound(1) q(1) by (intro bexI [of _ ord]) auto
  have tot: "total_centis (entry_of col F ord) = val (oo_quantity ord)" by (simp add: entry_of_def)
  have nonneg: "0 \<le> filled_against F oid"
    using assms(2) unfolding filled_against_def acct_def by (intro sum_list_nonneg) auto
  have ro: "resting_ok (entry_of col F ord)"
    using bound q(1) nonneg ord by (auto simp: resting_ok_def entry_of_def)
  let ?c = "filled_against ?F oid"
  have c: "min (consumed_centis (entry_of col F ord) + \<bar>position_delta_centis f\<bar>) (val (oo_quantity ord)) = ?c"
    using bound(1) assms(5) ord(2) by (simp add: entry_of_def fa)
  define rel where "rel = withheld col F ord - withheld col ?F ord"
  have rel: "released_by (entry_of col F ord) ?c = Inr rel"
    unfolding released_by_ok [OF ro] rel_def withheld_def using ord(2) by (simp add: entry_of_def)
  define oo where "oo = (if ?c \<ge> val (oo_quantity ord) then dict_pop oid (es_open_orders src)
      else dict_set oid (entry_of col ?F ord) (es_open_orders src))"
  have upd: "(entry_of col F ord)\<lparr>consumed_centis := ?c, released_micros := released_micros (entry_of col F ord) + rel\<rparr> = entry_of col ?F ord"
    using ord(2) by (simp add: entry_of_def rel_def withheld_def)
  have cons: "consume \<lparr>fe_ticker = fill_ticker f, fe_cash_delta = IntUnit (- cash f), fe_position_delta = IntUnit (position_delta_centis f),
      fe_venue_order_id = oid\<rparr> src = (Inr (Some rel), src\<lparr>es_open_orders := oo\<rparr>)"
    using bound(2) now rel upd by (simp add: consume_def Let_def tot c oo_def)
  have adv: "vf_advance (canon_event (fill_event cmp cash f)) src = (Inr (Some (advanced (es_expectations src)
      \<lparr>fe_ticker = fill_ticker f, fe_cash_delta = IntUnit (- cash f), fe_position_delta = IntUnit (position_delta_centis f), fe_venue_order_id = oid\<rparr>
      oo rel)), src\<lparr>es_open_orders := oo\<rparr>)"
    by (simp add: vf_advance_def fill_event_props read_fill assms(4) cons)
  have same: "entry_of col ?F o' = entry_of col F o'" "withheld col ?F o' = withheld col F o'" if "oo_id o' \<noteq> oid" for o'
    using that by (simp_all add: entry_of_def withheld_def fa)
  have sum: "(\<Sum>ord \<leftarrow> R. withheld col ?F ord) = (\<Sum>ord \<leftarrow> R. withheld col F ord) - rel"
    using sum_list_one_changed [of oo_id R ord "withheld col ?F" "withheld col F"] assms(2) ord same by (simp add: acct_def rel_def)
  have get: "dict_get oo x = (if x = oid then (if ?c \<ge> val (oo_quantity ord) then None else Some (entry_of col ?F ord))
      else dict_get (es_open_orders src) x)" for x
    by (simp add: oo_def dict.get_set dict.get_pop)
  have look: "dict_get oo x = Some r \<longleftrightarrow>
      (\<exists>o' \<in> set R. oo_id o' = x \<and> filled_against ?F x < val (oo_quantity o') \<and> r = entry_of col ?F o')" for x r
  proof (cases "x = oid")
    case True
    have ex: "(\<exists>o' \<in> set R. oo_id o' = oid \<and> P o') \<longleftrightarrow> P ord" for P using uniq ord by blast
    show ?thesis unfolding True ex get by (auto simp: not_le)
  next
    case False
    then have d: "dict_get oo x = dict_get (es_open_orders src) x" using get by simp
    have f: "filled_against ?F x = filled_against F x" using False fa by simp
    have e: "r = entry_of col ?F o' \<longleftrightarrow> r = entry_of col F o'" if "oo_id o' = x" for o' using same(1) that False by simp
    show ?thesis unfolding d iff f using e by blast
  qed
  have wf: "dict_wf oo" using assms(1) by (simp add: tracked_def oo_def dict.wf_set dict.wf_pop)
  show ?thesis
    unfolding settle_one [OF latch adv]
    using assms(1) look sum wf by (simp add: tracked_def advanced_def signed_quantity_snoc quantity_of_def dict.get_set)
qed

subsection \<open>The venue's history only grows\<close>

definition grows :: "PaperExchange \<Rightarrow> PaperExchange \<Rightarrow> bool" where
  "grows px px' = (prefix (px_fills px) (px_fills px') \<and> prefix (px_rested px) (px_rested px') \<and>
     px_fee_models px' = px_fee_models px \<and> px_balances px' = px_balances px)"

lemma grows_refl [simp]: "grows px px"
  by (simp add: grows_def)

lemma grows_trans: "grows px px1 \<Longrightarrow> grows px1 px2 \<Longrightarrow> grows px px2"
  by (auto simp: grows_def intro: prefix_order.trans)

lemma grows_resting: "grows px (px1\<lparr>px_resting := r\<rparr>) = grows px px1" "grows px (px1\<lparr>px_cursor := c\<rparr>) = grows px px1"
  by (simp_all add: grows_def)

lemma grows_apply_one: "grows px (snd (apply_resting_fill ord step c px))"
  by (auto simp: apply_resting_fill_def emit_fill_def Let_def grows_def split: prod.splits sum.splits)

lemma grows_apply: "grows px (snd (apply_resting_fills ticker step d ords px))"
proof (induction ords arbitrary: px)
  case (Cons ord ords)
  show ?case
  proof (cases "oo_ticker ord = ticker")
    case False
    then show ?thesis using Cons.IH [of px] by (auto split: prod.splits sum.splits)
  next
    case True
    show ?thesis
    proof (cases "dict_get d (oo_id ord)")
      case (Some c)
      obtain r px1 where a: "apply_resting_fill ord step c px = (r, px1)" by (cases "apply_resting_fill ord step c px")
      have "grows px px1" using grows_apply_one [of px ord step c] a by simp
      with grows_trans [OF this Cons.IH [of px1]] True Some a show ?thesis
        by (auto split: prod.splits sum.splits)
    qed (use True in simp)
  qed
qed simp

lemma grows_process: "grows px (snd (process_resting_fills ticker step px))"
  using grows_apply [of px ticker step "px_allocate_resting_fills px ticker step" "px_resting px"]
  by (auto simp: process_resting_fills_def grows_resting split: prod.splits sum.splits)

lemma grows_advance: "grows px (snd (advance_sessions ss b px))"
proof (induction ss b px rule: advance_sessions.induct)
  case (2 t steps ss b px)
  show ?case
  proof (cases "dict_get (px_cursor px) t")
    case (Some k)
    show ?thesis
    proof (cases "length steps \<le> k")
      case True
      then show ?thesis using Some "2.IH"(1) [OF Some True] by simp
    next
      case False
      obtain r px1 where p: "process_resting_fills t (steps ! k) px = (r, px1)" by (cases "process_resting_fills t (steps ! k) px")
      have g: "grows px px1" using grows_process [of px t "steps ! k"] p by simp
      show ?thesis
      proof (cases r)
        case (Inr u)
        have "grows px1 (snd (advance_sessions ss (b \<or> k + 1 < length steps) (px1\<lparr>px_cursor := dict_set t (k + 1) (px_cursor px1)\<rparr>)))"
          using "2.IH"(2) [OF Some False p [symmetric] Inr] by (simp add: grows_def)
        with grows_trans [OF g this] Some False p Inr show ?thesis by simp
      qed (use Some False p g in simp)
    qed
  qed simp
qed simp

lemma grows_step: "grows px (px_step c px)"
proof (cases c)
  case (Place intent)
  then show ?thesis by (cases rule: place_order_cases [of intent px]) (simp_all add: grows_def)
qed (simp_all add: grows_resting px_cancel_order_def advance_def grows_advance)

subsection \<open>Booking\<close>

definition col_of :: "PaperExchange \<Rightarrow> OpenOrder \<Rightarrow> int" where
  "col_of px ord = projr (order_cash_micros px (oo_ticker ord) (oo_price ord) (oo_quantity ord))"

definition cash_of :: "PaperExchange \<Rightarrow> Fill \<Rightarrow> int" where
  "cash_of px f = projr (order_cash_micros px (fill_ticker f) (fill_price f) (fill_quantity f))"

definition seam_write :: "digest_fn \<Rightarrow> string \<Rightarrow> (paper_error, ledger_seam) book_writer" where
  "seam_write sha now e s = (case append_event sha None now e (fst s) of (r, db) \<Rightarrow> (r, (db, snd s)))"

lemma seam_write_put: "\<exists>n. seam_write sha now e s = (Inr n, seam_put sha (now, e) s)"
  by (auto simp: seam_write_def seam_put_def append_event_def Let_def split: prod.splits)

lemma head_key_fresh: "distinct (map f (x # xs)) \<Longrightarrow> y \<in> set xs \<Longrightarrow> f y \<noteq> f x"
  by (metis distinct.simps(2) image_eqI image_set list.simps(9))

lemma book_arrivals_puts:
  assumes "book_arrivals (seam_write sha now) (paper_source px) ords bk w = (Inr n, bk', w')" and "distinct (map oo_id ords)"
    and "new = filter (\<lambda>ord. oo_id ord \<notin> bk_booked_orders bk) ords"
  shows "w' = fold (seam_put sha) (map (\<lambda>ord. (now, arrival_event (bk_component bk) (col_of px) ord)) new) w \<and>
    bk' = bk\<lparr>bk_booked_orders := bk_booked_orders bk \<union> oo_id ` set new\<rparr> \<and> n = int (length new) \<and>
    (\<forall>ord \<in> set new. is_ok (order_cash_micros px (oo_ticker ord) (oo_price ord) (oo_quantity ord)))"
  using assms
proof (induction ords arbitrary: bk w n new)
  case (Cons ord ords)
  show ?case
  proof (cases "oo_id ord \<in> bk_booked_orders bk")
    case True
    then show ?thesis using Cons by simp
  next
    case False
    let ?oc = "order_cash_micros px (oo_ticker ord) (oo_price ord) (oo_quantity ord)"
    let ?e = "arrival_event (bk_component bk) (col_of px) ord"
    let ?bk = "bk\<lparr>bk_booked_orders := insert (oo_id ord) (bk_booked_orders bk)\<rparr>"
    from Cons.prems(1) False obtain c where c: "?oc = Inr c"
      by (cases ?oc) (simp_all add: paper_source_def resting_collateral_micros_def)
    obtain k where wr: "seam_write sha now ?e w = (Inr k, seam_put sha (now, ?e) w)" using seam_write_put by blast
    have ev: "RestingOrderAccounted (bk_component bk) (oo_id ord) (oo_ticker ord) (val (oo_quantity ord)) c = ?e"
      by (simp add: arrival_event_def col_of_def c)
    from Cons.prems(1) False obtain m where
      "book_arrivals (seam_write sha now) (paper_source px) ords ?bk (seam_put sha (now, ?e) w) = (Inr m, bk', w')" "n = m + 1"
      using wr by (auto simp: paper_source_def resting_collateral_micros_def c ev split: prod.splits sum.splits)
        (metis map_sum.simps sum.exhaust sum.sel(2) old.sum.inject(2) sum.distinct(1))
    moreover have "filter (\<lambda>ord'. oo_id ord' \<notin> bk_booked_orders ?bk) ords = filter (\<lambda>ord'. oo_id ord' \<notin> bk_booked_orders bk) ords"
      using head_key_fresh [OF Cons.prems(2)] by (intro filter_cong) simp_all
    ultimately show ?thesis
      using Cons.IH [of ?bk "seam_put sha (now, ?e) w" m "filter (\<lambda>ord'. oo_id ord' \<notin> bk_booked_orders ?bk) ords"] Cons.prems(2,3) False c
      by auto
  qed
qed simp


lemma book_fills_puts:
  assumes "book_fills (seam_write sha now) (paper_source px) fs bk w = (Inr n, bk', w')" and "distinct (map fill_id fs)"
    and "new = filter (\<lambda>f. fill_id f \<notin> bk_booked bk) fs"
  shows "w' = fold (seam_put sha) (map (\<lambda>f. (now, fill_event (bk_component bk) (cash_of px) f)) new) w \<and>
    bk' = bk\<lparr>bk_booked := bk_booked bk \<union> fill_id ` set new\<rparr> \<and> n = int (length new)"
  using assms
proof (induction fs arbitrary: bk w n new)
  case (Cons f fs)
  show ?case
  proof (cases "fill_id f \<in> bk_booked bk")
    case True
    then show ?thesis using Cons by simp
  next
    case False
    let ?oc = "order_cash_micros px (fill_ticker f) (fill_price f) (fill_quantity f)"
    let ?e = "fill_event (bk_component bk) (cash_of px) f"
    let ?bk = "bk\<lparr>bk_booked := insert (fill_id f) (bk_booked bk)\<rparr>"
    from Cons.prems(1) False obtain c where c: "?oc = Inr c"
      by (cases ?oc) (simp_all add: paper_source_def fill_cash_micros_def)
    obtain k where wr: "seam_write sha now ?e w = (Inr k, seam_put sha (now, ?e) w)" using seam_write_put by blast
    have ev: "FillAccounted (bk_component bk) (fill_id f) (fill_ticker f) (- c) (position_delta_centis f)
        (case fill_order_id f of None \<Rightarrow> [] | Some oid \<Rightarrow> oid) = ?e"
      by (simp add: fill_event_def cash_of_def c)
    from Cons.prems(1) False obtain m where
      "book_fills (seam_write sha now) (paper_source px) fs ?bk (seam_put sha (now, ?e) w) = (Inr m, bk', w')" "n = m + 1"
      using wr by (auto simp: paper_source_def fill_cash_micros_def c ev split: prod.splits sum.splits)
        (metis map_sum.simps sum.exhaust sum.sel(2) old.sum.inject(2) sum.distinct(1))
    moreover have "filter (\<lambda>f'. fill_id f' \<notin> bk_booked ?bk) fs = filter (\<lambda>f'. fill_id f' \<notin> bk_booked bk) fs"
      using head_key_fresh [OF Cons.prems(2)] by (intro filter_cong) simp_all
    ultimately show ?thesis
      using Cons.IH [of ?bk "seam_put sha (now, ?e) w" m "filter (\<lambda>f'. fill_id f' \<notin> bk_booked ?bk) fs"] Cons.prems(2,3) False
      by auto
  qed
qed simp

subsection \<open>The system\<close>

text \<open>The paper exchange, the bookkeeper, the shared ledger with the feed on it, and the kernel's expectation. A
  system step trades, books what is new, lets somebody else append to the ledger, or lets the kernel read its
  expectation.\<close>

record paper_system =
  sy_px :: PaperExchange
  sy_bk :: LedgerFillBookkeeper
  sy_src :: "ledger_seam LedgerExpectationSource"

datatype sys_cmd = Trade px_cmd | BookNow string | Foreign string Event | ReadExpectation

fun sys_step :: "digest_fn \<Rightarrow> sys_cmd \<Rightarrow> paper_system \<Rightarrow> paper_error + paper_system" where
  "sys_step sha (Trade c) sy = Inr (sy\<lparr>sy_px := px_step c (sy_px sy)\<rparr>)"
| "sys_step sha (BookNow now) sy =
     (case es_fill_accounting (sy_src sy) of
        None \<Rightarrow> Inr sy
      | Some seam \<Rightarrow>
          (case book_new (seam_write sha now) (paper_source (sy_px sy)) (sy_bk sy) seam of
             (Inl e, _, _) \<Rightarrow> Inl e
           | (Inr n, bk, seam') \<Rightarrow> Inr (sy\<lparr>sy_bk := bk, sy_src := (sy_src sy)\<lparr>es_fill_accounting := Some seam'\<rparr>\<rparr>)))"
| "sys_step sha (Foreign now e) sy =
     Inr (sy\<lparr>sy_src := (sy_src sy)\<lparr>es_fill_accounting := map_option (seam_put sha (now, e)) (es_fill_accounting (sy_src sy))\<rparr>\<rparr>)"
| "sys_step sha ReadExpectation sy = Inr (sy\<lparr>sy_src := snd (get_expectations seam_drain (sy_src sy))\<rparr>)"

fun sys_run :: "digest_fn \<Rightarrow> sys_cmd list \<Rightarrow> paper_system \<Rightarrow> paper_error + paper_system" where
  "sys_run sha [] sy = Inr sy"
| "sys_run sha (c # cs) sy = res_bind (sys_step sha c sy) (sys_run sha cs)"

fun sys_cmd_ok :: "string \<Rightarrow> sys_cmd \<Rightarrow> bool" where
  "sys_cmd_ok cmp (Trade c) = (sided c \<and> (case c of Cancel _ \<Rightarrow> False | _ \<Rightarrow> True))"
| "sys_cmd_ok cmp (Foreign now e) = (json_wf (JObj (payload e)) \<and> seam_shown cmp (now, e) = [])"
| "sys_cmd_ok cmp _ = True"

definition sys_inv :: "digest_fn \<Rightarrow> string \<Rightarrow> PaperExchange \<Rightarrow> nat \<Rightarrow> OpenOrder list \<Rightarrow> Fill list \<Rightarrow> paper_system \<Rightarrow> bool" where
  "sys_inv sha cmp px0 k R F sy =
     (px_ok {} (sy_px sy) \<and> cursors_ok k (sy_px sy) \<and> px_fee_models (sy_px sy) = px_fee_models px0 \<and> px_balances (sy_px sy) = px_balances px0 \<and>
      bk_component (sy_bk sy) = cmp \<and> bk_booked_orders (sy_bk sy) = oo_id ` set R \<and> bk_booked (sy_bk sy) = fill_id ` set F \<and>
      prefix R (px_rested (sy_px sy)) \<and> prefix F (px_fills (sy_px sy)) \<and> acct (col_of px0) R F \<and>
      (\<exists>seam. es_fill_accounting (sy_src sy) = Some seam \<and> seam_ok sha cmp seam \<and> books_ok (sy_src sy) \<and>
         tracked (val (bal_available (px_balances px0))) (col_of px0) (cash_of px0) R F (settle (seam_pending seam) (sy_src sy))))"


lemma tracked_feed [simp]: "tracked c0 col cash R F (src\<lparr>es_fill_accounting := x\<rparr>) = tracked c0 col cash R F src"
  by (simp add: tracked_def)

lemma filled_against_mono: "\<forall>f \<in> set gs. 0 < val (fill_quantity f) \<Longrightarrow> 0 \<le> filled_against gs oid"
  unfolding filled_against_def by (intro sum_list_nonneg) auto

lemma track_arrivals:
  assumes "tracked c0 col cash R F src" and "books_ok src" and "acct col R F" and "acct col (R @ xs) F"
  shows "tracked c0 col cash (R @ xs) F (settle (map (\<lambda>ord. canon_event (arrival_event cmp col ord)) xs) src)"
  using assms
proof (induction xs arbitrary: R src)
  case (Cons x xs)
  let ?e = "canon_event (arrival_event cmp col x)"
  have a: "acct col (R @ [x]) F" using Cons.prems(3,4) by (auto simp: acct_def split: option.splits)
  have "tracked c0 col cash (R @ [x]) F (settle [?e] src)" by (rule track_arrival [OF Cons.prems(1,3) a])
  moreover have "acct col ((R @ [x]) @ xs) F" using Cons.prems(4) by simp
  ultimately have "tracked c0 col cash ((R @ [x]) @ xs) F (settle (map (\<lambda>ord. canon_event (arrival_event cmp col ord)) xs) (settle [?e] src))"
    by (intro Cons.IH settle_ok Cons.prems(2) a)
  then show ?case unfolding settle_append [OF Cons.prems(2), symmetric] by simp
qed simp

lemma track_fills:
  assumes "tracked c0 col cash R F src" and "books_ok src" and "acct col R F" and "acct col R (F @ ys)"
  shows "tracked c0 col cash R (F @ ys) (settle (map (\<lambda>f. canon_event (fill_event cmp cash f)) ys) src)"
  using assms
proof (induction ys arbitrary: F src)
  case (Cons y ys)
  let ?e = "canon_event (fill_event cmp cash y)"
  have pos: "\<forall>f \<in> set (y # ys). 0 < val (fill_quantity f)" using Cons.prems(4) by (auto simp: acct_def)
  have le: "filled_against (F @ [y]) oid \<le> filled_against (F @ y # ys) oid" for oid
    using filled_against_mono [of ys oid] pos by (simp add: filled_against_def)
  have "filled_against (F @ [y]) (oo_id ord) \<le> val (oo_quantity ord)" if "ord \<in> set R" for ord
  proof -
    have "filled_against (F @ y # ys) (oo_id ord) \<le> val (oo_quantity ord)" using Cons.prems(4) that unfolding acct_def by blast
    with le [of "oo_id ord"] show ?thesis by linarith
  qed
  then have a: "acct col R (F @ [y])" using Cons.prems(4) by (simp add: acct_def)
  have "tracked c0 col cash R (F @ [y]) (settle [?e] src)"
  proof (cases "fill_order_id y")
    case None
    then show ?thesis by (rule track_taker_fill [OF Cons.prems(1)])
  next
    case (Some oid)
    then show ?thesis using pos by (intro track_resting_fill [OF Cons.prems(1,3) a Some]) (simp add: position_delta_centis_def)
  qed
  moreover have "acct col R ((F @ [y]) @ ys)" using Cons.prems(4) by simp
  ultimately have "tracked c0 col cash R ((F @ [y]) @ ys) (settle (map (\<lambda>f. canon_event (fill_event cmp cash f)) ys) (settle [?e] src))"
    by (intro Cons.IH settle_ok Cons.prems(2) a)
  then show ?case unfolding settle_append [OF Cons.prems(2), symmetric] by simp
qed simp

lemma order_cash_shape:
  assumes "list_all (\<lambda>(_, fm). fee_model_ok fm) (px_fee_models px)" and "order_cash_micros px t p q = Inr c"
  shows "\<exists>K. 0 \<le> K \<and> 0 \<le> val p \<and> 0 < val q \<and> c = val p * val q + ceil_div (K * val q) (10 ^ 14) * 10000 \<and>
    (\<forall>q'. 0 < val q' \<longrightarrow> order_cash_micros px t p q' = Inr (val p * val q' + ceil_div (K * val q') (10 ^ 14) * 10000))"
proof -
  from assms(2) obtain fm where fm: "get_fee_model px t = Inr fm"
    by (auto simp: order_cash_micros_def res_bind_Inr_iff)
  then have "fee_model_ok fm"
    using assms(1) by (auto simp: get_fee_model_def list_all_iff split: option.splits dest!: dict_get_in_values)
  then have rate: "0 \<le> max (maker_fee_ppm fm) (taker_fee_ppm fm)" by (simp add: fee_model_ok_def max_def)
  let ?K = "max (maker_fee_ppm fm) (taker_fee_ppm fm) * val p * (10000 - val p)"
  have eq: "order_cash_micros px t p q' = (if val p < 0 \<or> 10000 < val p \<or> val q' \<le> 0 then Inl (PaperNumeric ValueError)
      else Inr (val p * val q' + ceil_div (?K * val q') (10 ^ 14) * 10000))" for q'
    by (simp add: order_cash_micros_def money_from_price_and_count_eq num_def fm max_trading_fee_eq mult.commute mult.left_commute mult.assoc)
  from assms(2) eq [of q] have p: "0 \<le> val p" "val p \<le> 10000" "0 < val q" by (auto split: if_splits)
  then have "0 \<le> ?K" using rate by (intro mult_nonneg_nonneg) simp_all
  with p assms(2) eq show ?thesis by (intro exI [of _ ?K]) auto
qed

lemma order_cash_nonneg:
  assumes "list_all (\<lambda>(_, fm). fee_model_ok fm) (px_fee_models px)" and "order_cash_micros px t p q = Inr c"
  shows "0 \<le> c"
proof -
  from order_cash_shape [OF assms] obtain K where K: "0 \<le> K" "0 \<le> val p" "0 < val q" "c = val p * val q + ceil_div (K * val q) (10 ^ 14) * 10000" by blast
  have "0 \<le> ceil_div (K * val q) (10 ^ 14)" using K by (intro cdiv.up_nonneg) simp_all
  with K show ?thesis by simp
qed

subsection \<open>Every step keeps the kernel's expectation on the account\<close>

lemma sys_invE:
  assumes "sys_inv sha cmp px0 k R F sy"
  obtains seam where "es_fill_accounting (sy_src sy) = Some seam" "seam_ok sha cmp seam" "books_ok (sy_src sy)"
    "tracked (val (bal_available (px_balances px0))) (col_of px0) (cash_of px0) R F (settle (seam_pending seam) (sy_src sy))"
  using assms unfolding sys_inv_def by blast

lemma px_ok_acct:
  assumes "px_ok {} px" and "\<forall>ord \<in> set (px_rested px). 0 \<le> col ord" and "prefix F (px_fills px)"
    and "\<forall>f \<in> set F. case fill_order_id f of None \<Rightarrow> True | Some oid \<Rightarrow> oid \<in> oo_id ` set (px_rested px)"
  shows "acct col (px_rested px) F"
proof -
  have pos: "0 < val (fill_quantity f)" if "f \<in> set (px_fills px)" for f by (rule px_ok_fill(1) [OF assms(1) that])
  obtain ys where ys: "px_fills px = F @ ys" using assms(3) by (auto simp: prefix_def)
  have le: "filled_against F oid \<le> filled_against (px_fills px) oid" for oid
    using filled_against_mono [of ys oid] pos ys by simp
  have "filled_against F (oo_id ord) \<le> val (oo_quantity ord) \<and> 0 < val (oo_quantity ord)" if "ord \<in> set (px_rested px)" for ord
  proof -
    have "filled_against (px_fills px) (oo_id ord) \<le> val (oo_quantity ord) \<and> 0 < val (oo_quantity ord)"
      using assms(1) that by (simp add: px_ok_def account_ok_def)
    with le [of "oo_id ord"] show ?thesis by linarith
  qed
  moreover have "oo_id ord \<noteq> []" if o: "ord \<in> set (px_rested px)" for ord
  proof -
    have "oo_id ord \<in> set (map oo_id (px_rested px))" using o by simp
    then show ?thesis unfolding px_ok_names(1) [OF assms(1)] by (auto simp: order_name_def)
  qed
  ultimately show ?thesis
    unfolding acct_def using px_ok_distinct(1) [OF assms(1)] assms(2,4) pos ys by auto
qed

lemma filter_new:
  "distinct (map f (xs @ ys)) \<Longrightarrow> filter (\<lambda>x. f x \<notin> f ` set xs) (xs @ ys) = ys"
  by (auto simp: filter_empty_conv filter_id_conv)

lemma sys_inv_trade:
  assumes "sys_inv sha cmp px0 k R F sy" and "sys_cmd_ok cmp (Trade c)"
  shows "\<exists>k'. sys_inv sha cmp px0 k' R F (sy\<lparr>sy_px := px_step c (sy_px sy)\<rparr>)"
proof -
  let ?px = "sy_px sy" and ?px' = "px_step c (sy_px sy)"
  have px: "px_ok {} ?px" "cursors_ok k ?px" using assms(1) by (simp_all add: sys_inv_def)
  have "\<exists>k'. px_ok {} ?px' \<and> cursors_ok k' ?px'"
  proof (cases c)
    case (Place intent)
    then have "px_ok {} ?px'" using place_ok [OF px(1), of intent] assms(2) by (simp add: sided_def)
    with px(2) Place show ?thesis by (intro exI [of _ k]) (simp add: cursors_ok_def place_keeps)
  next
    case (Cancel oid)
    with assms(2) show ?thesis by simp
  next
    case Advance
    with advance_ok [OF px] show ?thesis by auto
  qed
  then obtain k' where k': "px_ok {} ?px'" "cursors_ok k' ?px'" by blast
  have g: "prefix (px_fills ?px) (px_fills ?px')" "prefix (px_rested ?px) (px_rested ?px')"
    "px_fee_models ?px' = px_fee_models ?px" "px_balances ?px' = px_balances ?px"
    using grows_step [of ?px c] by (simp_all add: grows_def)
  show ?thesis
    using assms(1) k' g by (intro exI [of _ k']) (auto simp: sys_inv_def intro: prefix_order.trans)
qed

lemma sys_inv_foreign:
  assumes "sys_inv sha cmp px0 k R F sy" and "sys_cmd_ok cmp (Foreign now e)" and "sys_step sha (Foreign now e) sy = Inr sy'"
  shows "sys_inv sha cmp px0 k R F sy'"
proof -
  obtain seam where s: "es_fill_accounting (sy_src sy) = Some seam" "seam_ok sha cmp seam" "books_ok (sy_src sy)"
    "tracked (val (bal_available (px_balances px0))) (col_of px0) (cash_of px0) R F (settle (seam_pending seam) (sy_src sy))"
    by (rule sys_invE [OF assms(1)])
  let ?seam = "seam_put sha (now, e) seam"
  have i: "json_wf (JObj (payload (snd (now, e))))" "seam_shown cmp (now, e) = []" using assms(2) by simp_all
  have "seam_ok sha cmp ?seam" "seam_pending ?seam = seam_pending seam"
    using seam.put_ok [OF s(2) i(1)] seam.put_pending [OF s(2) i(1)] i(2) by simp_all
  then show ?thesis using assms(1,3) s by (auto simp: sys_inv_def settle_feed simp del: split_paired_Ex)
qed

lemma sys_inv_read:
  assumes "sys_inv sha cmp px0 k R F sy" and "sys_step sha ReadExpectation sy = Inr sy'"
  shows "sys_inv sha cmp px0 k R F sy'"
proof -
  obtain seam where s: "es_fill_accounting (sy_src sy) = Some seam" "seam_ok sha cmp seam" "books_ok (sy_src sy)"
    "tracked (val (bal_available (px_balances px0))) (col_of px0) (cash_of px0) R F (settle (seam_pending seam) (sy_src sy))"
    by (rule sys_invE [OF assms(1)])
  have live: "\<not> es_unaccountable (sy_src sy)" using s(4) by (auto simp: tracked_def settle_def split: if_splits)
  from seam.read_settles(2) [OF s(1-3)] live obtain f' where
    f': "snd (get_expectations seam_drain (sy_src sy)) = (settle (seam_pending seam) (sy_src sy))\<lparr>es_fill_accounting := Some f'\<rparr>"
      "seam_ok sha cmp f'" "seam_pending f' = []" by blast
  have sy': "sy' = sy\<lparr>sy_src := (settle (seam_pending seam) (sy_src sy))\<lparr>es_fill_accounting := Some f'\<rparr>\<rparr>"
    using assms(2) f'(1) by simp
  show ?thesis
    unfolding sy' using assms(1) s settle_ok [OF s(3)] f'(2,3) by (simp add: sys_inv_def)
qed

lemma sys_inv_book:
  assumes "sys_inv sha cmp px0 k R F sy" and "sys_step sha (BookNow now) sy = Inr sy'"
    and "list_all (\<lambda>(_, fm). fee_model_ok fm) (px_fee_models px0)" and "list_all (\<lambda>f. EPOCH_FLOOR < fill_ts f) (px_fills (sy_px sy))"
  shows "sys_inv sha cmp px0 k (px_rested (sy_px sy)) (px_fills (sy_px sy)) sy' \<and> sy_px sy' = sy_px sy"
proof -
  let ?px = "sy_px sy" and ?col = "col_of px0" and ?cash = "cash_of px0"
  obtain seam where s: "es_fill_accounting (sy_src sy) = Some seam" "seam_ok sha cmp seam" "books_ok (sy_src sy)"
    "tracked (val (bal_available (px_balances px0))) ?col ?cash R F (settle (seam_pending seam) (sy_src sy))"
    by (rule sys_invE [OF assms(1)])
  have px: "px_ok {} ?px" "px_fee_models ?px = px_fee_models px0" "acct ?col R F"
    and bk: "bk_component (sy_bk sy) = cmp" "bk_booked_orders (sy_bk sy) = oo_id ` set R" "bk_booked (sy_bk sy) = fill_id ` set F"
    and pre: "prefix F (px_fills ?px)"
    using assms(1) by (simp_all add: sys_inv_def)
  obtain xs ys where xs: "px_rested ?px = R @ xs" and ys: "px_fills ?px = F @ ys"
    using assms(1) by (auto simp: sys_inv_def prefix_def)
  have "get_fee_model ?px = get_fee_model px0" by (intro ext) (simp only: get_fee_model_def px(2))
  then have oc: "order_cash_micros ?px = order_cash_micros px0" by (intro ext) (simp add: order_cash_micros_def)
  then have col: "col_of ?px = ?col" "cash_of ?px = ?cash" by (auto simp: col_of_def cash_of_def)
  have fills: "get_fills ?px EPOCH_FLOOR = px_fills ?px"
    using assms(4) by (simp add: get_fills_def filter_id_conv list_all_iff)
  obtain r1 bk1 w1 where a0: "book_arrivals (seam_write sha now) (paper_source ?px) (px_rested ?px) (sy_bk sy) seam = (r1, bk1, w1)"
    by (rule prod_cases3)
  obtain r2 bk2 w2 where b0: "book_fills (seam_write sha now) (paper_source ?px) (px_fills ?px) bk1 w1 = (r2, bk2, w2)"
    by (rule prod_cases3)
  have src: "fs_get_rested_orders (paper_source ?px) = px_rested ?px" "fs_get_fills (paper_source ?px) EPOCH_FLOOR = px_fills ?px"
    using fills by (simp_all add: paper_source_def get_rested_orders_def)
  have run: "(case book_new (seam_write sha now) (paper_source ?px) (sy_bk sy) seam of
             (Inl e, _, _) \<Rightarrow> Inl e
           | (Inr n, bk, seam') \<Rightarrow> Inr (sy\<lparr>sy_bk := bk, sy_src := (sy_src sy)\<lparr>es_fill_accounting := Some seam'\<rparr>\<rparr>)) = Inr sy'"
    using assms(2) s(1) by simp
  obtain n where n: "r1 = Inr n" using run unfolding book_new_def src a0 by (cases r1) simp_all
  obtain m where m: "r2 = Inr m" using run unfolding book_new_def src a0 n prod.case sum.case b0 by (cases r2) simp_all
  note a = a0 [unfolded n] and b = b0 [unfolded m]
  have sy': "sy' = sy\<lparr>sy_bk := bk2, sy_src := (sy_src sy)\<lparr>es_fill_accounting := Some w2\<rparr>\<rparr>"
    using run unfolding book_new_def src a prod.case sum.case b by simp
  have dist: "distinct (map oo_id (R @ xs))" "distinct (map fill_id (F @ ys))"
    using px_ok_distinct [OF px(1)] xs ys by simp_all
  have newx: "xs = filter (\<lambda>ord. oo_id ord \<notin> bk_booked_orders (sy_bk sy)) (px_rested ?px)"
    unfolding bk(2) xs filter_new [OF dist(1)] ..
  note A = book_arrivals_puts [OF a _ newx, unfolded xs, OF dist(1)]
  have bk1: "bk_booked bk1 = fill_id ` set F" "bk_component bk1 = cmp" using A bk by simp_all
  have newy: "ys = filter (\<lambda>f. fill_id f \<notin> bk_booked bk1) (px_fills ?px)"
    unfolding bk1(1) ys filter_new [OF dist(2)] ..
  note B = book_fills_puts [OF b _ newy, unfolded ys, OF dist(2)]
  let ?is = "map (\<lambda>ord. (now, arrival_event cmp ?col ord)) xs @ map (\<lambda>f. (now, fill_event cmp ?cash f)) ys"
  have w2: "w2 = fold (seam_put sha) ?is seam" using A B bk bk1 col by simp
  have ok: "list_all (\<lambda>i. json_wf (JObj (payload (snd i)))) ?is"
    unfolding list_all_iff by (auto simp del: json_wf.simps intro: arrival_event_props fill_event_props)
  have shown: "concat (map (seam_shown cmp) ?is) = map (\<lambda>ord. canon_event (arrival_event cmp ?col ord)) xs @ map (\<lambda>f. canon_event (fill_event cmp ?cash f)) ys"
  proof -
    have "seam_shown cmp (now, arrival_event cmp ?col ord) = [canon_event (arrival_event cmp ?col ord)]" for ord
      by (simp add: seam_shown_def arrival_event_props ACCOUNTING_EVENT_TYPES_def)
    moreover have "seam_shown cmp (now, fill_event cmp ?cash f) = [canon_event (fill_event cmp ?cash f)]" for f
      by (simp add: seam_shown_def fill_event_props ACCOUNTING_EVENT_TYPES_def)
    ultimately show ?thesis by (simp add: comp_def)
  qed
  have w: "seam_ok sha cmp w2" "seam_pending w2 = seam_pending seam @ map (\<lambda>ord. canon_event (arrival_event cmp ?col ord)) xs @
      map (\<lambda>f. canon_event (fill_event cmp ?cash f)) ys"
    using seam.puts [OF s(2) ok] unfolding w2 shown by simp_all
  have nonneg: "\<forall>ord \<in> set (px_rested ?px). 0 \<le> ?col ord"
  proof
    fix ord assume "ord \<in> set (px_rested ?px)"
    then consider "ord \<in> set R" | "ord \<in> set xs" using xs by auto
    then show "0 \<le> ?col ord"
    proof cases
      case 1
      with px(3) show ?thesis by (simp add: acct_def)
    next
      case 2
      then have "is_ok (order_cash_micros px0 (oo_ticker ord) (oo_price ord) (oo_quantity ord))" using A oc by simp
      then obtain c where c: "order_cash_micros px0 (oo_ticker ord) (oo_price ord) (oo_quantity ord) = Inr c" by (rule is_okE)
      from order_cash_nonneg [OF assms(3) c] c show ?thesis by (simp add: col_of_def)
    qed
  qed
  have named: "case fill_order_id f of None \<Rightarrow> True | Some oid \<Rightarrow> oid \<in> oo_id ` set (px_rested ?px)" if "f \<in> set (px_fills ?px)" for f
    using px_ok_fill(2) [OF px(1) that] by (auto simp: fill_of_def)
  have acF: "acct ?col (R @ xs) F"
    unfolding xs [symmetric] by (rule px_ok_acct [OF px(1) nonneg pre]) (use named ys in simp)
  have acFY: "acct ?col (R @ xs) (F @ ys)"
    unfolding xs [symmetric] ys [symmetric] by (rule px_ok_acct [OF px(1) nonneg]) (use named in simp_all)
  let ?src = "settle (seam_pending seam) (sy_src sy)"
  have bo: "books_ok ?src" by (rule settle_ok [OF s(3)])
  have t1: "tracked (val (bal_available (px_balances px0))) ?col ?cash (R @ xs) F (settle (map (\<lambda>ord. canon_event (arrival_event cmp ?col ord)) xs) ?src)"
    by (rule track_arrivals [OF s(4) bo px(3) acF])
  have t2: "tracked (val (bal_available (px_balances px0))) ?col ?cash (R @ xs) (F @ ys)
      (settle (map (\<lambda>f. canon_event (fill_event cmp ?cash f)) ys) (settle (map (\<lambda>ord. canon_event (arrival_event cmp ?col ord)) xs) ?src))"
    by (rule track_fills [OF t1 settle_ok [OF bo] acF acFY])
  then have t: "tracked (val (bal_available (px_balances px0))) ?col ?cash (R @ xs) (F @ ys) (settle (seam_pending w2) (sy_src sy))"
    unfolding w(2) settle_append [OF s(3)] settle_append [OF bo] .
  have "sys_inv sha cmp px0 k (R @ xs) (F @ ys) sy'"
    using assms(1) A B w(1) s(3) t acFY xs ys bk bk1 unfolding sys_inv_def sy' by (simp add: image_Un settle_feed)
  then show ?thesis using xs ys sy' by simp
qed

lemma sys_run_grows: "sys_run sha cmds sy = Inr sy' \<Longrightarrow> grows (sy_px sy) (sy_px sy')"
proof (induction cmds arbitrary: sy)
  case (Cons c cmds)
  from Cons.prems obtain sy1 where s: "sys_step sha c sy = Inr sy1" "sys_run sha cmds sy1 = Inr sy'" by (auto simp: res_bind_Inr_iff)
  have "grows (sy_px sy) (sy_px sy1)"
    using s(1) grows_step by (cases c) (auto split: option.splits prod.splits sum.splits)
  from grows_trans [OF this Cons.IH [OF s(2)]] show ?case .
qed simp

lemma sys_inv_run:
  assumes "sys_inv sha cmp px0 k R F sy" and "list_all (sys_cmd_ok cmp) cmds" and "sys_run sha cmds sy = Inr sy'"
    and "list_all (\<lambda>(_, fm). fee_model_ok fm) (px_fee_models px0)" and "list_all (\<lambda>f. EPOCH_FLOOR < fill_ts f) (px_fills (sy_px sy'))"
  shows "\<exists>k R F. sys_inv sha cmp px0 k R F sy'"
  using assms
proof (induction cmds arbitrary: sy k R F)
  case Nil
  then show ?case by auto
next
  case (Cons c cmds)
  from Cons.prems(3) obtain sy1 where s: "sys_step sha c sy = Inr sy1" "sys_run sha cmds sy1 = Inr sy'" by (auto simp: res_bind_Inr_iff)
  have "\<exists>k R F. sys_inv sha cmp px0 k R F sy1"
  proof (cases c)
    case (Trade t)
    with sys_inv_trade [OF Cons.prems(1), of t] Cons.prems(2) s(1) show ?thesis by auto
  next
    case (BookNow now)
    have "grows (sy_px sy) (sy_px sy')" by (rule sys_run_grows [OF Cons.prems(3)])
    then have "list_all (\<lambda>f. EPOCH_FLOOR < fill_ts f) (px_fills (sy_px sy))"
      using Cons.prems(5) by (auto simp: grows_def prefix_def)
    with sys_inv_book [OF Cons.prems(1) s(1) [unfolded BookNow] Cons.prems(4)] show ?thesis by blast
  next
    case (Foreign now e)
    then have "sys_cmd_ok cmp (Foreign now e)" using Cons.prems(2) by simp
    from sys_inv_foreign [OF Cons.prems(1) this s(1) [unfolded Foreign]] show ?thesis by blast
  next
    case ReadExpectation
    from sys_inv_read [OF Cons.prems(1) s(1) [unfolded ReadExpectation]] show ?thesis by blast
  qed
  then obtain k R F where "sys_inv sha cmp px0 k R F sy1" by blast
  from Cons.IH [OF this _ s(2) Cons.prems(4,5)] Cons.prems(2) show ?case by simp
qed

lemma sys_run_snoc: "sys_run sha (cmds @ [c]) sy = res_bind (sys_run sha cmds sy) (sys_step sha c)"
proof (induction cmds arbitrary: sy)
  case Nil
  then show ?case by (cases "sys_step sha c sy") simp_all
next
  case (Cons x xs)
  then show ?case by (cases "sys_step sha x sy") simp_all
qed

text \<open>The exchange as the verifier sees it; \<open>say\<close> is the text of an exception.\<close>

definition paper_view :: "(paper_error \<Rightarrow> string) \<Rightarrow> PaperExchange \<Rightarrow> int \<Rightarrow> venue_view" where
  "paper_view say px now = \<lparr>vv_market = (\<lambda>t. map_sum say id (get_market px t)), vv_balances = map_sum say id (get_balances px now),
     vv_semantics = Inr (px_balance_semantics px), vv_positions = map_sum say id (get_positions px), vv_open_orders = Inr (get_open_orders px)\<rparr>"

lemma sys_inv_start:
  assumes "PaperExchange_new markets sessions status time balances semantics fee_models haircut ppm anchor = Inr px0"
    and "dict_wf sessions" and "store_ok sha db" and "own_component_events history = []"
    and "LedgerExpectationSource_new history (paper_view say px0 now) (Some (db, \<lparr>ff_component = cmp, ff_cursor = int (length db)\<rparr>)) = Inr src"
  shows "\<exists>k. sys_inv sha cmp px0 k [] [] \<lparr>sy_px = px0, sy_bk = \<lparr>bk_component = cmp, bk_booked = {}, bk_booked_orders = {}\<rparr>, sy_src = src\<rparr>"
proof -
  from px_inv_new(1) [OF assms(1,2)] have ok: "px_ok {} px0" "cursors_ok 0 px0" by (auto simp: px_inv_def advances_def)
  have px0: "px_fills px0 = []" "px_resting px0 = []"
    using assms(1) by (auto simp: PaperExchange_new_def res_bind_Inr_iff Let_def)
  have bal: "get_balances px0 now = Inr \<lparr>bal_total = IntUnit (val (bal_total (px_balances px0))), bal_available = IntUnit (val (bal_available (px_balances px0))), bal_fetched_at = now\<rparr>"
    by (simp add: get_balances_eq fills_cash_def held_cash_def px0)
  have pos: "get_positions px0 = Inr []" by (simp add: get_positions_def fill_totals_def px0)
  let ?feed = "\<lparr>ff_component = cmp, ff_cursor = int (length db)\<rparr>"
  have src: "src = \<lparr>es_fill_accounting = Some (db, ?feed), es_unaccountable = False, es_open_orders = [],
      es_expectations = \<lparr>expected_available_cash = IntUnit (val (bal_available (px_balances px0))), expected_positions = [], expected_open_order_ids = {}\<rparr>\<rparr>"
    using assms(5) unfolding LedgerExpectationSource_new_def seed_open_orders_def seed_cash_def seed_positions_def assms(4)
    by (auto simp: paper_view_def venue_def bal pos positions_dict_def get_open_orders_def px0 res_bind_Inr_iff split: if_splits)
  have vr: "verify_rows sha db 1 GENESIS_PREV_HASH = Inr ()" using assms(3) by (simp add: store_ok_rows)
  have "lr_sequence_number r \<le> int (length db)" if "r \<in> set db" for r
  proof -
    have "lr_sequence_number r \<in> set (map lr_sequence_number db)" using that by simp
    then show ?thesis unfolding verify_rows_seq [OF vr] by auto
  qed
  then have rows: "seam_rows (db, ?feed) = []" by (auto simp: seam_rows_def filter_empty_conv accounting_row_def not_less)
  then have "seam_ok sha cmp (db, ?feed)" "seam_pending (db, ?feed) = []" using assms(3) by (simp_all add: seam_ok_def seam_pending_def)
  moreover have "books_ok src" by (simp add: books_ok_def src)
  moreover have "tracked (val (bal_available (px_balances px0))) (col_of px0) (cash_of px0) [] [] src"
    by (simp add: tracked_def src quantity_of_def signed_quantity_def)
  moreover have "acct (col_of px0) [] []" by (simp add: acct_def)
  ultimately show ?thesis using ok by (intro exI [of _ 0]) (simp add: sys_inv_def src)
qed

subsection \<open>How far the reservation can be off\<close>

lemma rounding_gap:
  fixes K n l :: int
  assumes "0 \<le> K" and "0 < l" and "l \<le> n"
  shows "\<bar>ceil_div (K * l) (10 ^ 14) * 10000 - ceil_div (ceil_div (K * n) (10 ^ 14) * 10000 * l) n\<bar> \<le> 10000"
proof -
  let ?a = "ceil_div (K * l) (10 ^ 14)" and ?b = "ceil_div (K * n) (10 ^ 14)"
  let ?h = "ceil_div (?b * 10000 * l) n"
  have n: "0 < n" using assms by linarith
  have a: "K * l \<le> 10 ^ 14 * ?a" "10 ^ 14 * ?a < K * l + 10 ^ 14" by (rule cdiv.up_covers, simp, rule cdiv.up_tight, simp)
  have b: "K * n \<le> 10 ^ 14 * ?b" "10 ^ 14 * ?b < K * n + 10 ^ 14" by (rule cdiv.up_covers, simp, rule cdiv.up_tight, simp)
  have h: "?b * 10000 * l \<le> n * ?h" "n * ?h < ?b * 10000 * l + n" by (rule cdiv.up_covers, rule n, rule cdiv.up_tight, rule n)
  have up: "(?a - 1) * n \<le> ?b * l"
  proof -
    have "10 ^ 14 * ((?a - 1) * n) \<le> 10 ^ 14 * (?b * l)"
    proof -
      have "(10 ^ 14 * (?a - 1)) * n \<le> (K * l) * n" using a(2) n by (intro mult_right_mono) (simp_all add: algebra_simps)
      also have "(K * l) * n = (K * n) * l" by simp
      also have "\<dots> \<le> (10 ^ 14 * ?b) * l" using b(1) assms(2) by (intro mult_right_mono) simp_all
      finally show ?thesis by (simp add: algebra_simps)
    qed
    then show ?thesis by simp
  qed
  have low: "?b * l \<le> (?a + 1) * n"
  proof -
    have "10 ^ 14 * ((?b - 1) * l) \<le> 10 ^ 14 * (?a * n)"
    proof -
      have "(10 ^ 14 * (?b - 1)) * l \<le> (K * n) * l" using b(2) assms(2) by (intro mult_right_mono) (simp_all add: algebra_simps)
      also have "(K * n) * l = (K * l) * n" by simp
      also have "\<dots> \<le> (10 ^ 14 * ?a) * n" using a(1) n by (intro mult_right_mono) simp_all
      finally show ?thesis by (simp add: algebra_simps)
    qed
    then have "(?b - 1) * l \<le> ?a * n" by simp
    with assms(3) show ?thesis by (simp add: algebra_simps)
  qed
  have "n * (10000 * ?a - 10000) \<le> n * ?h" using up h(1) by (simp add: algebra_simps)
  then have 1: "10000 * ?a - 10000 \<le> ?h" using n by simp
  have "n * ?h < n * (10000 * ?a + 10000 + 1)" using low h(2) by (simp add: algebra_simps)
  then have 2: "?h < 10000 * ?a + 10000 + 1" using n mult_less_cancel_left_pos by blast
  from 1 2 show ?thesis by linarith
qed

lemma withheld_ceil: "0 < n \<Longrightarrow> c - c * f div n = ceil_div (c * (n - f)) (n::int)"
proof -
  assume n: "0 < n"
  have "c * (n - f) = c * n + - (c * f)" by (simp add: algebra_simps)
  then have "ceil_div (c * (n - f)) n = - (((c * f) + (- c) * n) div n)" by (simp add: ceil_div_def algebra_simps)
  also have "\<dots> = - ((c * f) div n + - c)" using n by (subst div_mult_self1) simp_all
  finally show ?thesis by simp
qed

lemma sum_results_Inr:
  "sum_results rs = Inr s \<Longrightarrow> s = (\<Sum>r \<leftarrow> rs. projr r) \<and> (\<forall>r \<in> set rs. is_ok r)"
proof (induction rs arbitrary: s)
  case (Cons r rs)
  then show ?case by (cases r; cases "sum_results rs") auto
qed simp

definition partly_filled :: "PaperExchange \<Rightarrow> OpenOrder \<Rightarrow> bool" where
  "partly_filled px ord = (0 < filled_against (px_fills px) (oo_id ord) \<and> filled_against (px_fills px) (oo_id ord) < val (oo_quantity ord))"

lemma sum_list_filter_if: "(\<Sum>x \<leftarrow> filter P xs. f x) = (\<Sum>x \<leftarrow> xs. if P x then f x else (0::int))"
  by (induction xs) auto

lemma sum_gap_le:
  fixes f g :: "'a \<Rightarrow> int"
  assumes "\<And>x. x \<in> set xs \<Longrightarrow> \<bar>f x - g x\<bar> \<le> (if P x then B else 0)"
  shows "\<bar>(\<Sum>x \<leftarrow> xs. f x) - (\<Sum>x \<leftarrow> xs. g x)\<bar> \<le> B * int (length (filter P xs))"
  using assms
proof (induction xs)
  case (Cons x xs)
  have "\<bar>f x - g x\<bar> \<le> (if P x then B else 0)" "\<bar>(\<Sum>x \<leftarrow> xs. f x) - (\<Sum>x \<leftarrow> xs. g x)\<bar> \<le> B * int (length (filter P xs))"
    using Cons by simp_all
  then show ?case by (cases "P x") (simp_all add: algebra_simps)
qed simp

lemma order_gap:
  assumes "list_all (\<lambda>(_, fm). fee_model_ok fm) (px_fee_models px)" and "0 \<le> f" and "f < val (oo_quantity ord)"
    and "is_ok (order_cash_micros px (oo_ticker ord) (oo_price ord) (IntUnit (val (oo_quantity ord) - f)))"
  shows "\<bar>col_of px ord - col_of px ord * f div val (oo_quantity ord) -
      projr (order_cash_micros px (oo_ticker ord) (oo_price ord) (IntUnit (val (oo_quantity ord) - f)))\<bar> \<le> (if 0 < f then 10000 else 0)"
proof -
  let ?n = "val (oo_quantity ord)" and ?l = "val (oo_quantity ord) - f"
  have n: "0 < ?n" using assms(2,3) by linarith
  from assms(4) obtain c where c: "order_cash_micros px (oo_ticker ord) (oo_price ord) (IntUnit ?l) = Inr c" by (rule is_okE)
  from order_cash_shape [OF assms(1) c] obtain K where K: "0 \<le> K" "0 \<le> val (oo_price ord)"
    "c = val (oo_price ord) * ?l + ceil_div (K * ?l) (10 ^ 14) * 10000"
    "order_cash_micros px (oo_ticker ord) (oo_price ord) (oo_quantity ord) = Inr (val (oo_price ord) * ?n + ceil_div (K * ?n) (10 ^ 14) * 10000)"
    using n by auto
  let ?F = "ceil_div (K * ?n) (10 ^ 14) * 10000"
  have col: "col_of px ord = val (oo_price ord) * ?n + ?F" using K(4) by (simp add: col_of_def)
  have "col_of px ord - col_of px ord * f div ?n = ceil_div (?F * ?l + (val (oo_price ord) * ?l) * ?n) ?n"
    unfolding withheld_ceil [OF n] col by (simp add: algebra_simps)
  also have "\<dots> = ceil_div (?F * ?l) ?n + val (oo_price ord) * ?l"
  proof -
    have "- (?F * ?l + (val (oo_price ord) * ?l) * ?n) = - (?F * ?l) + (- (val (oo_price ord) * ?l)) * ?n" by simp
    then show ?thesis using n unfolding ceil_div_def by (simp only: div_mult_self1)
  qed
  finally have w: "col_of px ord - col_of px ord * f div ?n - c = ceil_div (?F * ?l) ?n - ceil_div (K * ?l) (10 ^ 14) * 10000"
    using K(3) by simp
  show ?thesis
  proof (cases "0 < f")
    case True
    have "\<bar>ceil_div (K * ?l) (10 ^ 14) * 10000 - ceil_div (?F * ?l) ?n\<bar> \<le> 10000"
      using K(1) assms(2,3) by (intro rounding_gap) simp_all
    with w c True show ?thesis by simp
  next
    case False
    then have f: "f = 0" using assms(2) by simp
    have "ceil_div (?F * ?n) ?n = ?F" using n by (simp add: ceil_div_def)
    with w c f show ?thesis by simp
  qed
qed

lemma followed_cash:
  assumes "sys_inv sha cmp px0 k (px_rested (sy_px sy)) (px_fills (sy_px sy)) sy"
    and "list_all (\<lambda>(_, fm). fee_model_ok fm) (px_fee_models px0)" and "get_balances (sy_px sy) now = Inr b"
    and "es_fill_accounting (sy_src sy) = Some seam"
  shows "\<bar>val (bal_available b) - val (expected_available_cash (es_expectations (settle (seam_pending seam) (sy_src sy))))\<bar>
    \<le> 10000 * int (length (filter (partly_filled (sy_px sy)) (px_rested (sy_px sy))))"
proof -
  let ?px = "sy_px sy" and ?R = "px_rested (sy_px sy)" and ?F = "px_fills (sy_px sy)"
  have inv: "px_ok {} ?px" "px_fee_models ?px = px_fee_models px0" "px_balances ?px = px_balances px0" "acct (col_of px0) ?R ?F"
    using assms(1) by (simp_all add: sys_inv_def)
  have t: "tracked (val (bal_available (px_balances px0))) (col_of px0) (cash_of px0) ?R ?F (settle (seam_pending seam) (sy_src sy))"
    using sys_invE [OF assms(1)] assms(4) by (metis option.inject)
  have "get_fee_model ?px = get_fee_model px0" by (intro ext) (simp only: get_fee_model_def inv(2))
  then have oc: "order_cash_micros ?px = order_cash_micros px0" by (intro ext) (simp add: order_cash_micros_def)
  from assms(3) obtain s h where sh: "fills_cash ?px ?F = Inr s" "held_cash ?px (px_resting ?px) = Inr h"
    "val (bal_available b) = val (bal_available (px_balances px0)) - s - h"
    by (auto simp: get_balances_eq res_bind_Inr_iff inv(3))
  have s: "s = (\<Sum>f \<leftarrow> ?F. cash_of px0 f)"
    using sum_results_Inr [OF sh(1) [unfolded fills_cash_def]] by (simp add: comp_def cash_of_def oc)
  let ?live = "\<lambda>ord. 0 < val (oo_quantity (left_of ?F ord))"
  let ?hold = "\<lambda>ord. projr (order_cash_micros px0 (oo_ticker ord) (oo_price ord) (IntUnit (val (oo_quantity ord) - filled_against ?F (oo_id ord))))"
  have rest: "px_resting ?px = map (left_of ?F) (filter ?live ?R)"
    using inv(1) by (simp add: px_ok_def account_ok_def still_resting_def filter_map comp_def)
  have h: "h = (\<Sum>ord \<leftarrow> filter ?live ?R. ?hold ord)"
    and okh: "\<forall>ord \<in> set (filter ?live ?R). is_ok (order_cash_micros px0 (oo_ticker ord) (oo_price ord)
      (IntUnit (val (oo_quantity ord) - filled_against ?F (oo_id ord))))"
    using sum_results_Inr [OF sh(2) [unfolded held_cash_def]] unfolding rest by (simp_all add: comp_def oc left_of_def)
  have pos: "\<forall>f \<in> set ?F. 0 < val (fill_quantity f)" using inv(4) by (simp add: acct_def)
  have "\<bar>(\<Sum>ord \<leftarrow> ?R. withheld (col_of px0) ?F ord) - (\<Sum>ord \<leftarrow> ?R. if ?live ord then ?hold ord else 0)\<bar>
      \<le> 10000 * int (length (filter (partly_filled ?px) ?R))"
  proof (rule sum_gap_le)
    fix ord assume o: "ord \<in> set ?R"
    let ?f = "filled_against ?F (oo_id ord)"
    have bounds: "0 \<le> ?f" "?f \<le> val (oo_quantity ord)" "0 < val (oo_quantity ord)"
      using filled_against_mono [OF pos] inv(4) o by (simp_all add: acct_def)
    show "\<bar>withheld (col_of px0) ?F ord - (if ?live ord then ?hold ord else 0)\<bar> \<le> (if partly_filled ?px ord then 10000 else 0)"
    proof (cases "?live ord")
      case True
      then have l: "?f < val (oo_quantity ord)" by simp
      have "is_ok (order_cash_micros px0 (oo_ticker ord) (oo_price ord) (IntUnit (val (oo_quantity ord) - ?f)))" using okh o True by simp
      from order_gap [OF assms(2) bounds(1) l this] show ?thesis
        using l by (simp add: withheld_def partly_filled_def)
    next
      case False
      then have "?f = val (oo_quantity ord)" using bounds(2) by simp
      then show ?thesis using bounds(3) by (simp add: withheld_def partly_filled_def)
    qed
  qed
  then show ?thesis
    using t sh(3) s h unfolding tracked_def sum_list_filter_if by linarith
qed

lemma followed_positions:
  assumes "tracked c0 col cash R (px_fills px) src" and "px_ok {} px" and "get_positions px = Inr ps"
  shows "quantity_of (positions_dict ps) t = quantity_of (expected_positions (es_expectations src)) t"
proof -
  have pos: "\<forall>f \<in> set (px_fills px). 0 < val (fill_quantity f)" using px_ok_fill(1) [OF assms(2)] by blast
  have P: "distinct (map pos_ticker ps)" "pos_ticker ` set ps = fill_ticker ` set (px_fills px)"
    "\<forall>p \<in> set ps. val (pos_quantity p) = signed_quantity (px_fills px) (pos_ticker p)"
    using get_positions_ok [OF pos] unfolding assms(3) sum.case by blast+
  have fold: "positions_dict ps = map (\<lambda>p. (pos_ticker p, pos_quantity p)) ps"
  proof -
    have "foldl (\<lambda>d p. dict_set (pos_ticker p) (pos_quantity p) d) d ps = foldl (\<lambda>d (k, v). dict_set k v d) d (map (\<lambda>p. (pos_ticker p, pos_quantity p)) ps)" for d
      by (induction ps arbitrary: d) simp_all
    then show ?thesis unfolding positions_dict_def using foldl_dict_set [of "[]" "map (\<lambda>p. (pos_ticker p, pos_quantity p)) ps"] P(1)
      by (simp add: comp_def)
  qed
  have wf: "dict_wf (positions_dict ps)" using P(1) by (simp add: fold dict_wf_def comp_def)
  have "quantity_of (positions_dict ps) t = signed_quantity (px_fills px) t"
  proof (cases "t \<in> pos_ticker ` set ps")
    case True
    then obtain p where p: "p \<in> set ps" "pos_ticker p = t" by auto
    then have "dict_get (positions_dict ps) t = Some (pos_quantity p)" by (intro dict_get_of_mem [OF wf]) (auto simp: fold)
    with P(3) p show ?thesis by (simp add: quantity_of_def)
  next
    case False
    then have "dict_get (positions_dict ps) t = None" unfolding dict_get_keys by (auto simp: fold)
    moreover have "filter (\<lambda>f. fill_ticker f = t) (px_fills px) = []" using False P(2) by (auto simp: filter_empty_conv)
    then have "signed_quantity (px_fills px) t = 0" by (simp add: signed_quantity_def)
    ultimately show ?thesis by (simp add: quantity_of_def)
  qed
  then show ?thesis using assms(1) by (simp add: tracked_def)
qed

lemma followed_orders:
  assumes "tracked c0 col cash (px_rested px) (px_fills px) src" and "px_ok {} px"
  shows "expected_open_order_ids (es_expectations src) = oo_id ` set (get_open_orders px)"
proof -
  have iff: "dict_get (es_open_orders src) oid = Some r \<longleftrightarrow>
      (\<exists>ord \<in> set (px_rested px). oo_id ord = oid \<and> filled_against (px_fills px) oid < val (oo_quantity ord) \<and> r = entry_of col (px_fills px) ord)" for oid r
    using assms(1) unfolding tracked_def by blast
  have "oid \<in> fst ` set (es_open_orders src) \<longleftrightarrow>
      (\<exists>ord \<in> set (px_rested px). oo_id ord = oid \<and> filled_against (px_fills px) oid < val (oo_quantity ord))" for oid
  proof -
    have "oid \<in> fst ` set (es_open_orders src) \<longleftrightarrow> (\<exists>r. dict_get (es_open_orders src) oid = Some r)"
      using dict_get_keys [of "es_open_orders src" oid] by auto
    then show ?thesis unfolding iff by blast
  qed
  moreover have "px_resting px = still_resting (px_rested px) (px_fills px)"
    using assms(2) by (simp add: px_ok_def account_ok_def)
  then have "oid \<in> oo_id ` set (get_open_orders px) \<longleftrightarrow>
      (\<exists>ord \<in> set (px_rested px). oo_id ord = oid \<and> filled_against (px_fills px) oid < val (oo_quantity ord))" for oid
    by (auto simp: get_open_orders_def still_resting_def image_iff)
  ultimately have "fst ` set (es_open_orders src) = oo_id ` set (get_open_orders px)" by blast
  then show ?thesis using assms(1) unfolding tracked_def by metis
qed

text \<open>Booking fails only where a price or the writer does.\<close>

lemma booking_total:
  assumes "\<And>ord. ord \<in> set (px_rested (sy_px sy)) \<Longrightarrow> is_ok (resting_collateral_micros (sy_px sy) ord)"
    and "\<And>f. f \<in> set (px_fills (sy_px sy)) \<Longrightarrow> is_ok (fill_cash_micros (sy_px sy) f)"
  shows "\<exists>sy'. sys_step sha (BookNow now) sy = Inr sy' \<and> sy_px sy' = sy_px sy"
proof -
  have w: "\<exists>n. seam_write sha now e s = (Inr n, seam_put sha (now, e) s)" for e s by (rule seam_write_put)
  have a: "\<exists>n bk' w'. book_arrivals (seam_write sha now) (paper_source (sy_px sy)) ords bk s = (Inr n, bk', w')"
    if "set ords \<subseteq> set (px_rested (sy_px sy))" for ords bk s
    using that
  proof (induction ords arbitrary: bk s)
    case (Cons ord ords)
    from assms(1) [of ord] Cons.prems obtain c where c: "resting_collateral_micros (sy_px sy) ord = Inr c" by (auto elim: is_okE)
    let ?e = "RestingOrderAccounted (bk_component bk) (oo_id ord) (oo_ticker ord) (val (oo_quantity ord)) (val c)"
    obtain n where n: "seam_write sha now ?e s = (Inr n, seam_put sha (now, ?e) s)" using w by blast
    obtain m bk' w' where "book_arrivals (seam_write sha now) (paper_source (sy_px sy)) ords
        (bk\<lparr>bk_booked_orders := insert (oo_id ord) (bk_booked_orders bk)\<rparr>) (seam_put sha (now, ?e) s) = (Inr m, bk', w')"
      using Cons.IH Cons.prems by (metis set_subset_Cons subset_trans)
    moreover have "\<exists>n bk' w'. book_arrivals (seam_write sha now) (paper_source (sy_px sy)) ords bk s = (Inr n, bk', w')"
      using Cons.IH Cons.prems by (metis set_subset_Cons subset_trans)
    ultimately show ?case using n c by (simp add: paper_source_def)
  qed simp
  have f: "\<exists>n bk' w'. book_fills (seam_write sha now) (paper_source (sy_px sy)) fs bk s = (Inr n, bk', w')"
    if "set fs \<subseteq> set (px_fills (sy_px sy))" for fs bk s
    using that
  proof (induction fs arbitrary: bk s)
    case (Cons f fs)
    from assms(2) [of f] Cons.prems obtain c where c: "fill_cash_micros (sy_px sy) f = Inr c" by (auto elim: is_okE)
    let ?e = "FillAccounted (bk_component bk) (fill_id f) (fill_ticker f) (- val c) (position_delta_centis f)
        (case fill_order_id f of None \<Rightarrow> [] | Some oid \<Rightarrow> oid)"
    obtain n where n: "seam_write sha now ?e s = (Inr n, seam_put sha (now, ?e) s)" using w by blast
    obtain m bk' w' where "book_fills (seam_write sha now) (paper_source (sy_px sy)) fs
        (bk\<lparr>bk_booked := insert (fill_id f) (bk_booked bk)\<rparr>) (seam_put sha (now, ?e) s) = (Inr m, bk', w')"
      using Cons.IH Cons.prems by (metis set_subset_Cons subset_trans)
    moreover have "\<exists>n bk' w'. book_fills (seam_write sha now) (paper_source (sy_px sy)) fs bk s = (Inr n, bk', w')"
      using Cons.IH Cons.prems by (metis set_subset_Cons subset_trans)
    ultimately show ?case using n c by (simp add: paper_source_def)
  qed simp
  show ?thesis
  proof (cases "es_fill_accounting (sy_src sy)")
    case (Some seam)
    obtain n bk1 w1 where 1: "book_arrivals (seam_write sha now) (paper_source (sy_px sy)) (px_rested (sy_px sy)) (sy_bk sy) seam = (Inr n, bk1, w1)"
      using a [OF subset_refl] by blast
    have "set (get_fills (sy_px sy) EPOCH_FLOOR) \<subseteq> set (px_fills (sy_px sy))" by (auto simp: get_fills_def)
    then obtain m bk2 w2 where 2: "book_fills (seam_write sha now) (paper_source (sy_px sy)) (get_fills (sy_px sy) EPOCH_FLOOR) bk1 w1 = (Inr m, bk2, w2)"
      using f by blast
    have "fs_get_rested_orders (paper_source (sy_px sy)) = px_rested (sy_px sy)" "fs_get_fills (paper_source (sy_px sy)) EPOCH_FLOOR = get_fills (sy_px sy) EPOCH_FLOOR"
      by (simp_all add: paper_source_def get_rested_orders_def)
    with Some 1 2 show ?thesis by (simp add: book_new_def)
  qed simp
qed

subsection \<open>A sample system\<close>

definition sample_source :: "vf_error + ledger_seam LedgerExpectationSource" where
  "sample_source = LedgerExpectationSource_new [] (paper_view (\<lambda>_. []) (projr sample_exchange) 0)
     (Some ([], \<lparr>ff_component = ''loop'', ff_cursor = int (length ([] :: table))\<rparr>))"

definition sample_system :: paper_system where
  "sample_system = \<lparr>sy_px = projr sample_exchange, sy_bk = \<lparr>bk_component = ''loop'', bk_booked = {}, bk_booked_orders = {}\<rparr>, sy_src = projr sample_source\<rparr>"

lemma sample_system_runs:
  "\<exists>sy. sys_run sha ([Trade (Place sample_order), BookNow ''t0'', Trade Advance] @ [BookNow ''t1'']) sample_system = Inr sy \<and>
     sy_px sy = px_run sample_cmds (projr sample_exchange)"
proof -
  let ?sy1 = "sample_system\<lparr>sy_px := px_step (Place sample_order) (projr sample_exchange)\<rparr>"
  have "list_all (\<lambda>ord. is_ok (resting_collateral_micros (px_step (Place sample_order) (projr sample_exchange)) ord))
      (px_rested (px_step (Place sample_order) (projr sample_exchange)))"
    "list_all (\<lambda>f. is_ok (fill_cash_micros (px_step (Place sample_order) (projr sample_exchange)) f))
      (px_fills (px_step (Place sample_order) (projr sample_exchange)))" by code_simp+
  then obtain sy2 where sy2: "sys_step sha (BookNow ''t0'') ?sy1 = Inr sy2" "sy_px sy2 = px_step (Place sample_order) (projr sample_exchange)"
    using booking_total [of ?sy1 sha "''t0''"] by (auto simp: list_all_iff)
  let ?px = "px_run sample_cmds (projr sample_exchange)"
  let ?sy3 = "sy2\<lparr>sy_px := px_step Advance (sy_px sy2)\<rparr>"
  have px: "px_step Advance (sy_px sy2) = ?px" by (simp only: sy2(2) px_run_def sample_cmds_def fold_simps)
  have "list_all (\<lambda>ord. is_ok (resting_collateral_micros ?px ord)) (px_rested ?px)"
    "list_all (\<lambda>f. is_ok (fill_cash_micros ?px f)) (px_fills ?px)" by code_simp+
  then obtain sy where sy: "sys_step sha (BookNow ''t1'') ?sy3 = Inr sy" "sy_px sy = ?px"
    using booking_total [of ?sy3 sha "''t1''"] px by (auto simp: list_all_iff simp del: px_step.simps)
  have "sys_step sha (Trade (Place sample_order)) sample_system = Inr ?sy1" "sys_step sha (Trade Advance) sy2 = Inr ?sy3"
    by (simp_all add: sample_system_def)
  then show ?thesis
    using sy sy2(1) by (simp only: append.simps sys_run.simps res_bind_simps) blast
qed

lemma vf_advance_None: "vf_advance e src = (Inr None, src1) \<Longrightarrow> src1 = src"
  by (auto simp: vf_advance_def consume_def Let_def split: if_splits option.splits prod.splits sum.splits)

lemma settle_bad:
  assumes "vf_advance e src = (Inr None, src1)"
  shows "es_expectations (settle (e # es) src) = es_expectations src"
  using assms vf_advance_None [OF assms] by (simp add: settle_def)

lemma reservation_gap_sample:
  "let px = px_run sample_cmds (projr sample_exchange); ord = hd (px_rested px) in
     withheld (col_of px) (px_fills px) ord - col_of px (left_of (px_fills px) ord) = 3077"
  by code_simp

section \<open>Properties\<close>

text \<open>C8. The kernel's verification follows the account it watches. Start a paper exchange, a bookkeeper, the ledger's feed and
  the kernel's expectation together; then trade, book, read the expectation and let others write to the ledger in any order, as
  long as nothing is cancelled, and book last. A cycle that can read the venue then agrees with it exactly on
  every position and every open order, and on available cash up to one cent for every resting order that is partly
  filled: the cycle is clean if there is none, and no breach if the balance tolerance allows a cent for each.\<close>

theorem verification_follows_account:
  assumes "PaperExchange_new markets sessions status time balances semantics fee_models haircut ppm anchor = Inr px0"
    and "dict_wf sessions" and "list_all (\<lambda>(_, fm). fee_model_ok fm) fee_models"
    and "store_ok sha db" and "own_component_events history = []"
    and "LedgerExpectationSource_new history (paper_view say px0 t0) (Some (db, \<lparr>ff_component = cmp, ff_cursor = int (length db)\<rparr>)) = Inr src"
    and "list_all (sys_cmd_ok cmp) cmds"
    and "sys_run sha (cmds @ [BookNow t1]) \<lparr>sy_px = px0, sy_bk = \<lparr>bk_component = cmp, bk_booked = {}, bk_booked_orders = {}\<rparr>, sy_src = src\<rparr> = Inr sy"
    and "list_all (\<lambda>f. EPOCH_FLOOR < fill_ts f) (px_fills (sy_px sy))"
    and "get_positions (sy_px sy) = Inr ps" and "get_balances (sy_px sy) now = Inr b"
    and "rv_source rv = sy_src sy" and "0 \<le> val (position_tolerance (rv_tolerances rv))"
    and "10000 * int (length (filter (partly_filled (sy_px sy)) (px_rested (sy_px sy)))) \<le> val (balance_tolerance (rv_tolerances rv))"
  shows "\<exists>exps s. fst (get_expectations seam_drain (rv_source rv)) = Inr exps \<and>
      rv_events (snd (run_cycle seam_drain (paper_view say (sy_px sy) now) epoch rv)) = rv_events rv @ [snapshot_event s] \<and>
      (\<forall>t. quantity_of (positions_dict ps) t = quantity_of (expected_positions exps) t) \<and>
      expected_open_order_ids exps = oo_id ` set (get_open_orders (sy_px sy)) \<and>
      \<bar>val (bal_available b) - val (expected_available_cash exps)\<bar>
        \<le> 10000 * int (length (filter (partly_filled (sy_px sy)) (px_rested (sy_px sy)))) \<and>
      vs_outcome s = (if val (bal_available b) = val (expected_available_cash exps) then CLEAN else DRIFT_WITHIN_TOLERANCE)"
proof -
  let ?sy0 = "\<lparr>sy_px = px0, sy_bk = \<lparr>bk_component = cmp, bk_booked = {}, bk_booked_orders = {}\<rparr>, sy_src = src\<rparr>"
  have fees: "list_all (\<lambda>(_, fm). fee_model_ok fm) (px_fee_models px0)"
    using assms(1,3) by (auto simp: PaperExchange_new_def res_bind_Inr_iff Let_def)
  from assms(8) obtain sy1 where run: "sys_run sha cmds ?sy0 = Inr sy1" "sys_step sha (BookNow t1) sy1 = Inr sy"
    unfolding sys_run_snoc by (auto simp: res_bind_Inr_iff simp del: sys_step.simps)
  from sys_inv_start [OF assms(1,2,4,5,6)] obtain k where start: "sys_inv sha cmp px0 k [] [] ?sy0" by blast
  have same: "sy_px sy = sy_px sy1" using run(2) by (auto split: option.splits prod.splits sum.splits)
  from sys_inv_run [OF start assms(7) run(1) fees] assms(9) same obtain k' R F where inv1: "sys_inv sha cmp px0 k' R F sy1" by auto
  from sys_inv_book [OF inv1 run(2) fees] assms(9) same
  have inv: "sys_inv sha cmp px0 k' (px_rested (sy_px sy)) (px_fills (sy_px sy)) sy" by simp
  obtain seam where s: "es_fill_accounting (sy_src sy) = Some seam" "seam_ok sha cmp seam" "books_ok (sy_src sy)"
    "tracked (val (bal_available (px_balances px0))) (col_of px0) (cash_of px0) (px_rested (sy_px sy)) (px_fills (sy_px sy))
      (settle (seam_pending seam) (sy_src sy))"
    by (rule sys_invE [OF inv])
  have px: "px_ok {} (sy_px sy)" using inv by (simp add: sys_inv_def)
  let ?exps = "es_expectations (settle (seam_pending seam) (sy_src sy))"
  have get: "get_expectations seam_drain (rv_source rv) = (Inr ?exps, snd (get_expectations seam_drain (rv_source rv)))"
    unfolding assms(12) using seam.read_settles(1) [OF s(1-3)] by (metis prod.collapse)
  have pos: "quantity_of (positions_dict ps) t = quantity_of (expected_positions ?exps) t" for t
    by (rule followed_positions [OF s(4) px assms(10)])
  have ords: "expected_open_order_ids ?exps = oo_id ` set (get_open_orders (sy_px sy))"
    by (rule followed_orders [OF s(4) px])
  have cash: "\<bar>val (bal_available b) - val (expected_available_cash ?exps)\<bar>
      \<le> 10000 * int (length (filter (partly_filled (sy_px sy)) (px_rested (sy_px sy))))"
    by (rule followed_cash [OF inv fees assms(11) s(1)])
  have tol: "0 \<le> val (balance_tolerance (rv_tolerances rv))" using assms(14) by linarith
  have view: "vv_positions (paper_view say (sy_px sy) now) = Inr ps" "vv_open_orders (paper_view say (sy_px sy) now) = Inr (get_open_orders (sy_px sy))"
    "vv_balances (paper_view say (sy_px sy) now) = Inr b" "vv_semantics (paper_view say (sy_px sy) now) = Inr (px_balance_semantics (sy_px sy))"
    using assms(10,11) by (simp_all add: paper_view_def)
  from readable_cycle [OF get tol assms(13) view, of epoch] obtain sn where sn:
    "rv_events (snd (run_cycle seam_drain (paper_view say (sy_px sy) now) epoch rv)) = rv_events rv @ [snapshot_event sn]"
    "vs_outcome sn = (if val (balance_tolerance (rv_tolerances rv)) < \<bar>val (bal_available b) - val (expected_available_cash ?exps)\<bar> \<or>
              (\<exists>t. val (position_tolerance (rv_tolerances rv)) <
                 \<bar>quantity_of (positions_dict ps) t - quantity_of (expected_positions ?exps) t\<bar>) \<or>
              oo_id ` set (get_open_orders (sy_px sy)) \<noteq> expected_open_order_ids ?exps then BREACH
            else if val (bal_available b) = val (expected_available_cash ?exps) \<and>
              (\<forall>t. quantity_of (positions_dict ps) t = quantity_of (expected_positions ?exps) t) then CLEAN
            else DRIFT_WITHIN_TOLERANCE)" by blast
  have "vs_outcome sn = (if val (bal_available b) = val (expected_available_cash ?exps) then CLEAN else DRIFT_WITHIN_TOLERANCE)"
    unfolding sn(2) using pos ords cash assms(13,14) by simp
  with pos ords cash sn(1) get show ?thesis by (intro exI [of _ ?exps] exI [of _ sn] conjI) (metis fst_conv, simp_all)
qed

theorem verification_follows_account_witness:
  "\<exists>sy exps b. sys_run (\<lambda>s. []) ([Trade (Place sample_order), BookNow ''t0'', Trade Advance] @ [BookNow ''t1'']) sample_system = Inr sy \<and>
     fst (get_expectations seam_drain (sy_src sy)) = Inr exps \<and> get_balances (sy_px sy) 9 = Inr b \<and>
     quantity_of (expected_positions exps) ''KX'' = 550 \<and> expected_open_order_ids exps = {''paper-order-1''} \<and>
     \<bar>val (bal_available b) - val (expected_available_cash exps)\<bar> \<le> 10000"
proof -
  let ?px = "px_run sample_cmds (projr sample_exchange)" and ?script = "[Trade (Place sample_order), BookNow ''t0'', Trade Advance]"
  from sample_system_runs [of "\<lambda>s. []"] obtain sy where
    sy: "sys_run (\<lambda>s. []) (?script @ [BookNow ''t1'']) sample_system = Inr sy" "sy_px sy = ?px" by blast
  have v: "list_all (\<lambda>f. EPOCH_FLOOR < fill_ts f) (px_fills ?px)" "is_ok (get_positions ?px)" "is_ok (get_balances ?px 9)"
    "length (filter (partly_filled ?px) (px_rested ?px)) = 1" "map oo_id (get_open_orders ?px) = [''paper-order-1'']"
    "quantity_of (positions_dict (projr (get_positions ?px))) ''KX'' = 550" "is_ok sample_source" by code_simp+
  from v(2,3,7) obtain ps b src where ps: "get_positions ?px = Inr ps" "get_balances ?px 9 = Inr b" and src: "sample_source = Inr src"
    by (metis is_okE)
  obtain px0 where px0: "sample_exchange = Inr px0" using sample_started(1) by blast
  let ?rv = "\<lparr>rv_source = sy_src sy, rv_tolerances = \<lparr>balance_tolerance = IntUnit 10000, position_tolerance = IntUnit 0\<rparr>, rv_events = [], rv_alerts = []\<rparr>"
  have pre: "list_all (\<lambda>(_, fm). fee_model_ok fm) [(DEFAULT_FEE_KEY, sample_fees)]" "own_component_events [] = []"
    "list_all (sys_cmd_ok ''loop'') ?script" "store_ok (\<lambda>s. []) []"
    by (simp_all add: fee_model_ok_def sample_fees_def own_component_events_def sided_def sample_order_def)
  have src0: "LedgerExpectationSource_new [] (paper_view (\<lambda>_. []) px0 0) (Some ([], \<lparr>ff_component = ''loop'', ff_cursor = int (length ([] :: table))\<rparr>)) = Inr src"
    using src unfolding sample_source_def px0 by simp
  have run: "sys_run (\<lambda>s. []) (?script @ [BookNow ''t1'']) \<lparr>sy_px = px0, sy_bk = \<lparr>bk_component = ''loop'', bk_booked = {}, bk_booked_orders = {}\<rparr>, sy_src = src\<rparr> = Inr sy"
    using sy(1) unfolding sample_system_def px0 src by simp
  have facts: "list_all (\<lambda>f. EPOCH_FLOOR < fill_ts f) (px_fills (sy_px sy))" "get_positions (sy_px sy) = Inr ps" "get_balances (sy_px sy) 9 = Inr b"
    "rv_source ?rv = sy_src sy" "0 \<le> val (position_tolerance (rv_tolerances ?rv))"
    "10000 * int (length (filter (partly_filled (sy_px sy)) (px_rested (sy_px sy)))) \<le> val (balance_tolerance (rv_tolerances ?rv))"
    unfolding sy(2) v(4) using v(1) ps by simp_all
  from verification_follows_account [OF px0 [unfolded sample_exchange_def] sample_started(3) pre(1,4,2) src0 pre(3) run facts]
  obtain exps where e: "fst (get_expectations seam_drain (sy_src sy)) = Inr exps"
    "\<forall>t. quantity_of (positions_dict ps) t = quantity_of (expected_positions exps) t"
    "expected_open_order_ids exps = oo_id ` set (get_open_orders ?px)"
    "\<bar>val (bal_available b) - val (expected_available_cash exps)\<bar> \<le> 10000 * int 1"
    unfolding facts(4) sy(2) v(4) by blast
  have "oo_id ` set (get_open_orders ?px) = {''paper-order-1''}" using arg_cong [OF v(5), of set] by simp
  moreover have "quantity_of (positions_dict ps) ''KX'' = 550" using v(6) ps(1) by simp
  ultimately show ?thesis using e sy ps by (intro exI [of _ sy] exI [of _ exps] exI [of _ b]) simp
qed

text \<open>C32. When the kernel reads does not matter: whatever reads lie between, and whatever else is appended to the
  ledger, the expectation read at the end is the one got by folding the account's own entries, in ledger order, in one
  go; nothing is folded twice and nothing is missed.\<close>

theorem reading_schedule_irrelevant:
  assumes "es_fill_accounting src = Some s" and "seam_ok sha cmp s" and "seam_pending s = []" and "books_ok src"
    and "list_all (\<lambda>i. json_wf (JObj (payload (snd i)))) (put_items ss)"
  shows "fst (get_expectations seam_drain (feed_run seam_drain (seam_put sha) ss src)) =
    Inr (es_expectations (settle (concat (map (seam_shown cmp) (put_items ss))) src))"
  by (rule seam.reads_are_one_fold [OF assms])

definition sample_order_booked :: OpenOrder where
  "sample_order_booked = \<lparr>oo_id = ''o9'', oo_ticker = ''KX'', oo_side = ''yes'', oo_price = IntUnit 5000, oo_quantity = IntUnit 100\<rparr>"

definition sample_books :: "ledger_seam LedgerExpectationSource" where
  "sample_books = \<lparr>es_fill_accounting = Some ([], \<lparr>ff_component = ''loop'', ff_cursor = 0\<rparr>), es_unaccountable = False, es_open_orders = [],
     es_expectations = \<lparr>expected_available_cash = IntUnit 9000, expected_positions = [], expected_open_order_ids = {}\<rparr>\<rparr>"

lemma sample_books_ok:
  "es_fill_accounting sample_books = Some ([], \<lparr>ff_component = ''loop'', ff_cursor = 0\<rparr>)"
  "seam_ok sha ''loop'' ([], \<lparr>ff_component = ''loop'', ff_cursor = 0\<rparr>)" "seam_pending ([], \<lparr>ff_component = ''loop'', ff_cursor = 0\<rparr>) = []"
  "books_ok sample_books"
  by (simp_all add: sample_books_def seam_ok_def seam_pending_def seam_rows_def books_ok_def)

theorem reading_schedule_irrelevant_witness:
  "fst (get_expectations seam_drain (feed_run seam_drain (seam_put (\<lambda>s. []))
      [Put (''t0'', arrival_event ''loop'' (\<lambda>_. 700) sample_order_booked), Read, Put (''t1'', arrival_event ''else'' (\<lambda>_. 700) sample_order_booked), Read] sample_books)) =
   fst (get_expectations seam_drain (feed_run seam_drain (seam_put (\<lambda>s. []))
      [Put (''t0'', arrival_event ''loop'' (\<lambda>_. 700) sample_order_booked)] sample_books))"
proof -
  let ?i = "(''t0'', arrival_event ''loop'' (\<lambda>_. 700) sample_order_booked)" and ?j = "(''t1'', arrival_event ''else'' (\<lambda>_. 700) sample_order_booked)"
  have shown: "concat (map (seam_shown ''loop'') (put_items [Put ?i, Read, Put ?j, Read])) = concat (map (seam_shown ''loop'') (put_items [Put ?i]))"
    by (simp add: seam_shown_def arrival_event_props)
  have ok: "list_all (\<lambda>i. json_wf (JObj (payload (snd i)))) (put_items [Put ?i, Read, Put ?j, Read])"
    "list_all (\<lambda>i. json_wf (JObj (payload (snd i)))) (put_items [Put ?i])"
    using arrival_event_props(1) by simp_all
  show ?thesis
    unfolding reading_schedule_irrelevant [OF sample_books_ok ok(1)] reading_schedule_irrelevant [OF sample_books_ok ok(2)] shown ..
qed

text \<open>C31. A gap in the books fails closed. Once an entry of the account cannot be accounted for - it is malformed,
  fills an order nobody booked, or repeats an arrival - the expectation stays where the entries before it left it,
  whatever is booked and read afterwards.\<close>

theorem gap_freezes_expectation:
  assumes "es_fill_accounting src = Some s" and "seam_ok sha cmp s" and "seam_pending s = []" and "books_ok src"
    and "list_all (\<lambda>i. json_wf (JObj (payload (snd i)))) (put_items (ss @ Put (now, e) # ss'))"
    and "component e = cmp" and "event_type e \<in> set ACCOUNTING_EVENT_TYPES"
    and "fst (vf_advance (canon_event e) (settle (concat (map (seam_shown cmp) (put_items ss))) src)) = Inr None"
  shows "fst (get_expectations seam_drain (feed_run seam_drain (seam_put sha) (ss @ Put (now, e) # ss') src)) =
    fst (get_expectations seam_drain (feed_run seam_drain (seam_put sha) ss src))"
proof -
  let ?before = "concat (map (seam_shown cmp) (put_items ss))"
  have app: "put_items (xs @ ys) = put_items xs @ put_items ys" for xs ys :: "(string \<times> Event) feed_step list"
    by (induction xs rule: put_items.induct) simp_all
  have ok: "list_all (\<lambda>i. json_wf (JObj (payload (snd i)))) (put_items ss)" using assms(5) by (simp add: app)
  have sh: "concat (map (seam_shown cmp) (put_items (ss @ Put (now, e) # ss'))) =
      ?before @ canon_event e # concat (map (seam_shown cmp) (put_items ss'))"
    using assms(6,7) by (simp add: app seam_shown_def)
  obtain src1 where bad: "vf_advance (canon_event e) (settle ?before src) = (Inr None, src1)"
    using assms(8) by (cases "vf_advance (canon_event e) (settle ?before src)") simp
  show ?thesis
    unfolding seam.reads_are_one_fold [OF assms(1-5)] seam.reads_are_one_fold [OF assms(1-4) ok] sh
      settle_append [OF assms(4)] settle_bad [OF bad] ..
qed

theorem gap_freezes_expectation_witness:
  "fst (get_expectations seam_drain (feed_run seam_drain (seam_put (\<lambda>s. []))
      [Put (''t0'', arrival_event ''loop'' (\<lambda>_. 700) sample_order_booked), Read, Put (''t1'', arrival_event ''loop'' (\<lambda>_. 700) sample_order_booked), Read] sample_books)) =
   fst (get_expectations seam_drain (feed_run seam_drain (seam_put (\<lambda>s. []))
      [Put (''t0'', arrival_event ''loop'' (\<lambda>_. 700) sample_order_booked), Read] sample_books))"
proof -
  let ?e = "arrival_event ''loop'' (\<lambda>_. 700) sample_order_booked"
  have types: "RESTING_ORDER_ACCOUNTED_EVENT_TYPE \<noteq> FILL_ACCOUNTED_EVENT_TYPE"
    by (simp add: RESTING_ORDER_ACCOUNTED_EVENT_TYPE_def FILL_ACCOUNTED_EVENT_TYPE_def)
  have entry: "resting_entry (canon_event ?e) = Some \<lparr>re_venue_order_id = ''o9'', re_quantity_centis = 100, re_reserved_micros = 700\<rparr>"
    using read_arrival [of sample_order_booked "\<lambda>_. 700" "''loop''"] by (simp add: sample_order_booked_def)
  have shown: "concat (map (seam_shown ''loop'') (put_items [Put (''t0'', ?e), Read])) = [canon_event ?e]"
    by (simp add: seam_shown_def arrival_event_props ACCOUNTING_EVENT_TYPES_def)
  have bad: "fst (vf_advance (canon_event ?e) (settle (concat (map (seam_shown ''loop'') (put_items [Put (''t0'', ?e), Read]))) sample_books)) = Inr None"
    unfolding shown settle_def using entry types
    by (simp add: vf_advance_def arrival_event_props sample_books_def Let_def dict.get_set)
  have ok: "list_all (\<lambda>i. json_wf (JObj (payload (snd i)))) (put_items ([Put (''t0'', ?e), Read] @ Put (''t1'', ?e) # [Read]))"
    using arrival_event_props(1) by simp
  have t: "component ?e = ''loop''" "event_type ?e \<in> set ACCOUNTING_EVENT_TYPES"
    by (simp_all add: arrival_event_props ACCOUNTING_EVENT_TYPES_def)
  from gap_freezes_expectation [OF sample_books_ok ok t bad, of "\<lambda>s. []"] show ?thesis by simp
qed

end
