(* ===== verification/Selector.thy ===== *)
theory Selector
  imports Venue Checks Events
begin

text \<open>
  The selector (\<open>windbreak/selector\<close>): a pure function from a forecast, a book, fee and slippage models, the
  account's exposures and the risk configuration to at most one sized order intent and the reasons for the verdict.
  Of \<open>ForecastRecord\<close> (\<open>windbreak/forecast/records.py\<close>) and \<open>RiskConfig\<close>
  (\<open>windbreak/config/schema.py\<close>) the records are modelled, not how they are produced. Instants are microseconds
  since the epoch, rendered in UTC, the offset the code's own clocks carry. SHA-256 is a parameter.
\<close>

section \<open>Rendered time\<close>

text \<open>\<open>str\<close> of a \<open>timedelta\<close> and \<open>isoformat\<close> of a UTC \<open>datetime\<close>, as the standard library renders them.\<close>

definition pad2 :: "int \<Rightarrow> string" where "pad2 i = zero_pad 2 (show_int i)"

definition clock_str :: "string \<Rightarrow> int \<Rightarrow> string" where
  "clock_str hours t =
     (let seconds = t div 1000000; micros = t mod 1000000 in
      hours @ '':'' @ pad2 (seconds div 60 mod 60) @ '':'' @ pad2 (seconds mod 60) @
      (if micros = 0 then [] else ''.'' @ zero_pad 6 (show_int micros)))"

definition timedelta_str :: "int \<Rightarrow> string" where
  "timedelta_str d =
     (let days = d div 86400000000; rest = d mod 86400000000 in
      (if days = 0 then [] else show_int days @ '' day'' @ (if \<bar>days\<bar> = 1 then [] else ''s'') @ '', '') @
      clock_str (show_int (rest div 3600000000)) rest)"

definition civil_date :: "int \<Rightarrow> int \<times> int \<times> int" where
  "civil_date days =
     (let z = days + 719468; era = z div 146097; doe = z mod 146097;
          yoe = (doe - doe div 1460 + doe div 36524 - doe div 146096) div 365;
          doy = doe - (365 * yoe + yoe div 4 - yoe div 100);
          mp = (5 * doy + 2) div 153;
          d = doy - (153 * mp + 2) div 5 + 1;
          m = (if mp < 10 then mp + 3 else mp - 9) in
      (yoe + era * 400 + (if m \<le> 2 then 1 else 0), m, d))"

definition isoformat :: "int \<Rightarrow> string" where
  "isoformat t =
     (case civil_date (t div 86400000000) of (y, m, d) \<Rightarrow>
        zero_pad 4 (show_int y) @ ''-'' @ pad2 m @ ''-'' @ pad2 d @ ''T'' @
        clock_str (pad2 (t mod 86400000000 div 3600000000)) (t mod 86400000000) @ ''+00:00'')"

section \<open>Inputs\<close>

subsection \<open>Forecasts and the risk configuration\<close>

record ModelVote =
  mv_provider :: string
  mv_model_version :: string
  mv_declared_training_cutoff :: string
  mv_probability_ppm :: int
  mv_response_fingerprint :: string

record Citation =
  ci_url :: string
  ci_content_hash :: string
  ci_quoted_text :: string
  ci_publication_date :: "int option"
  ci_source_type :: string

record ForecastRecord =
  fr_forecast_id :: string
  fr_market_ticker :: string
  fr_normalized_question_hash :: string
  fr_probability_ppm :: int
  fr_ci_low_ppm :: int
  fr_ci_high_ppm :: int
  fr_model_votes :: "ModelVote list"
  fr_vote_dispersion_ppm :: int
  fr_rationale_markdown :: string
  fr_citations :: "Citation list"
  fr_source_quality_notes :: "string list"
  fr_research_cost_micros :: int
  fr_triage_stage :: string
  fr_created_at :: int
  fr_forecast_horizon_hours :: int
  fr_market_price_baseline_pips :: int
  fr_baseline_quote_snapshot_id :: string
  fr_coherence_group_sum_ppm :: "int option"
  fr_coherence_flag :: bool
  fr_abstention_reason :: "string option"
  fr_eligible_for_live :: bool

record RiskConfig =
  rk_min_net_edge_ppm :: int
  rk_annualized_hurdle_ppm :: int
  rk_idle_cash_apr_ppm :: int
  rk_kelly_fraction_ppm :: int
  rk_dispersion_zero_ceiling_ppm :: int
  rk_min_open_price_pips :: int
  rk_max_open_price_pips :: int
  rk_max_participation_ppm :: int
  rk_max_pos_market_pct_ppm :: int
  rk_max_pos_event_pct_ppm :: int
  rk_max_pos_bucket_pct_ppm :: int
  rk_daily_loss_limit_pct_ppm :: int
  rk_max_drawdown_pct_ppm :: int
  rk_max_orders_per_hour :: int
  rk_max_notional_per_day_micros :: int
  rk_quote_ttl_seconds :: int
  rk_approval_ttl_seconds :: int
  rk_resting_order_ttl_seconds :: int
  rk_cancel_on_move_ticks :: int
  rk_clock_skew_max_seconds :: int
  rk_require_human_ack_above_micros :: "int option"
  rk_kill_after_consecutive_mismatches :: int
  rk_verification_balance_tolerance_micros :: int
  rk_verification_position_tolerance_centis :: int
  rk_max_pos_total_pct_ppm :: int

definition RiskConfig_default :: RiskConfig where
  "RiskConfig_default = \<lparr>rk_min_net_edge_ppm = 30000, rk_annualized_hurdle_ppm = 200000, rk_idle_cash_apr_ppm = 40000,
     rk_kelly_fraction_ppm = 100000, rk_dispersion_zero_ceiling_ppm = 200000, rk_min_open_price_pips = 500,
     rk_max_open_price_pips = 9500, rk_max_participation_ppm = 250000, rk_max_pos_market_pct_ppm = 20000,
     rk_max_pos_event_pct_ppm = 40000, rk_max_pos_bucket_pct_ppm = 100000, rk_daily_loss_limit_pct_ppm = 20000,
     rk_max_drawdown_pct_ppm = 100000, rk_max_orders_per_hour = 20, rk_max_notional_per_day_micros = 500000000,
     rk_quote_ttl_seconds = 10, rk_approval_ttl_seconds = 60, rk_resting_order_ttl_seconds = 900,
     rk_cancel_on_move_ticks = 2, rk_clock_skew_max_seconds = 2, rk_require_human_ack_above_micros = None,
     rk_kill_after_consecutive_mismatches = 3, rk_verification_balance_tolerance_micros = 0,
     rk_verification_position_tolerance_centis = 0, rk_max_pos_total_pct_ppm = 1000000\<rparr>"

subsection \<open>Correlation buckets\<close>

definition VALID_SOURCES :: "string set" where "VALID_SOURCES = {''llm'', ''human''}"
definition GEOPOLITICS_PREFIX :: string where "GEOPOLITICS_PREFIX = ''geopolitics-''"
definition SEED_BUCKETS :: "string set" where
  "SEED_BUCKETS = {''us-election'', ''fed-policy'', ''inflation'', ''weather'', ''ai-regulation'', ''company-specific'', ''legal-case''}"

definition is_valid_bucket_id :: "string \<Rightarrow> bool" where
  "is_valid_bucket_id b =
     (if b \<in> SEED_BUCKETS then True
      else if \<not> prefix GEOPOLITICS_PREFIX b then False
      else 0 < length (drop (length GEOPOLITICS_PREFIX) b))"

record CorrelationTag =
  ct_bucket_id :: string
  ct_source :: string
  ct_tagged_at :: int

definition CorrelationTag_new :: "CorrelationTag \<Rightarrow> num_error + CorrelationTag" where
  "CorrelationTag_new tag =
     (if ct_source tag \<notin> VALID_SOURCES then Inl ValueError
      else if \<not> is_valid_bucket_id (ct_bucket_id tag) then Inl ValueError
      else Inr tag)"

definition effective_buckets :: "CorrelationTag list \<Rightarrow> string list" where
  "effective_buckets tags =
     (let human_tags = filter (\<lambda>t. ct_source t = ''human'') tags;
          chosen = (if human_tags \<noteq> [] then human_tags else tags) in
      sort (remdups (map ct_bucket_id chosen)))"

record BucketExposureEntry =
  be_market_ticker :: string
  be_exposure_micros :: MoneyMicros
  be_tags :: "CorrelationTag list"

definition bucket_total :: "BucketExposureEntry list \<Rightarrow> string \<Rightarrow> int" where
  "bucket_total peers b = (\<Sum>p \<leftarrow> filter (\<lambda>p. b \<in> set (effective_buckets (be_tags p))) peers. val (be_exposure_micros p))"

definition aggregate_bucket_exposure :: "string list \<Rightarrow> BucketExposureEntry list \<Rightarrow> int \<times> string option" where
  "aggregate_bucket_exposure target_buckets peers =
     foldl (\<lambda>(best_total, best_bucket) b.
        if bucket_total peers b > best_total then (bucket_total peers b, Some b) else (best_total, best_bucket))
      (0, None) (sort target_buckets)"

subsection \<open>The bundle\<close>

record FeeModelInput =
  fi_model :: FeeModel
  fi_as_of :: int

record SlippageModelInput =
  sl_model_id :: string
  sl_per_contract_buffer_ppm :: int

record RiskConfigInput =
  rc_config :: RiskConfig
  rc_config_hash :: string

record PositionReadModelInput =
  pm_snapshot_id :: string
  pm_equity_micros :: MoneyMicros
  pm_above_floor_capital_micros :: MoneyMicros
  pm_total_deploy_cap_micros :: MoneyMicros
  pm_market_exposure :: MoneyMicros
  pm_event_exposure :: MoneyMicros
  pm_bucket_exposure :: MoneyMicros
  pm_total_exposure :: MoneyMicros
  pm_notional_today :: MoneyMicros

record SelectorInputs =
  si_forecast :: ForecastRecord
  si_calibration_map_version :: string
  si_order_book :: OrderBookSnapshot
  si_fee_model :: FeeModelInput
  si_slippage_model :: SlippageModelInput
  si_positions :: PositionReadModelInput
  si_risk_config :: RiskConfigInput
  si_correlation_tags :: "CorrelationTag list"
  si_bucket_peers :: "BucketExposureEntry list"

record SelectorOrderIntent = OrderIntent +
  execution_style :: string
  resting_ttl_seconds :: "int option"
  cancel_on_move_ticks :: "int option"

definition SelectorOrderIntent_new :: "SelectorOrderIntent \<Rightarrow> num_error + SelectorOrderIntent" where
  "SelectorOrderIntent_new i =
     (let both_present = (resting_ttl_seconds i \<noteq> None \<and> cancel_on_move_ticks i \<noteq> None);
          both_absent = (resting_ttl_seconds i = None \<and> cancel_on_move_ticks i = None) in
      if execution_style i = ''rest_inside_spread'' \<and> \<not> both_present then Inl ValueError
      else if execution_style i = ''cross'' \<and> \<not> both_absent then Inl ValueError
      else Inr i)"

record SelectorDecision =
  sd_intents :: "SelectorOrderIntent list"
  sd_reasons :: "string list"
  sd_forecast_id :: string
  sd_market_ticker :: string
  sd_calibration_map_version :: string

section \<open>The executable edge\<close>

definition PPM_PER_PIP :: int where "PPM_PER_PIP = 100"
definition PPM_SCALE :: int where "PPM_SCALE = 1000000"
definition HOURS_PER_YEAR :: int where "HOURS_PER_YEAR = 8760"
definition COST_ROUNDING :: RoundingDirection where "COST_ROUNDING = OVERSTATE_COST"
definition RETURN_ROUNDING :: RoundingDirection where "RETURN_ROUNDING = UNDERSTATE_EQUITY"

record InsufficientDepth =
  id_required_centis :: int
  id_available_centis :: int

definition insufficient_reason :: "InsufficientDepth \<Rightarrow> string" where
  "insufficient_reason r = ''insufficient_book_depth: required='' @ show_int (id_required_centis r) @
     '' available='' @ show_int (id_available_centis r)"

record NonAnnualizable =
  na_executable_price_ppm :: int
  na_forecast_horizon_hours :: int

definition non_annualizable_reason :: "NonAnnualizable \<Rightarrow> string" where
  "non_annualizable_reason r = ''non_annualizable: executable_price_ppm='' @ show_int (na_executable_price_ppm r) @
     '' horizon_hours='' @ show_int (na_forecast_horizon_hours r)"

record EdgeFigures =
  gross_edge_ppm :: int
  fee_adjusted_edge_ppm :: int
  net_edge_ppm :: int
  annualized_expected_return_ppm :: int
  executable_price_ppm :: int
  executable_price_pips :: PricePips
  executable_cost_micros :: MoneyMicros
  marginal_price_pips :: PricePips

datatype edge_result = Figures EdgeFigures | Shallow InsufficientDepth | NoReturn NonAnnualizable

text \<open>The loop of the walk: what is left to fill, the cost so far and the last level reached.\<close>

fun walk_levels :: "OrderBookLevel list \<Rightarrow> int \<Rightarrow> int \<Rightarrow> PricePips option \<Rightarrow> int \<times> int \<times> PricePips option" where
  "walk_levels [] remaining total_cost marginal = (remaining, total_cost, marginal)"
| "walk_levels (l # ls) remaining total_cost marginal =
     (if remaining \<le> 0 then (remaining, total_cost, marginal)
      else (let taken = min remaining (val (lvl_quantity l)) in
        walk_levels ls (remaining - taken) (total_cost + val (lvl_price l) * taken) (Some (lvl_price l))))"

definition walk_book_cost :: "OrderBookLevel list \<Rightarrow> int \<Rightarrow> (int \<times> PricePips) option" where
  "walk_book_cost asks size_centis =
     (case walk_levels asks size_centis 0 None of
        (remaining, total_cost, marginal) \<Rightarrow>
          (if remaining > 0 then None else map_option (\<lambda>m. (total_cost, m)) marginal))"

definition per_contract_ppm :: "int \<Rightarrow> int \<Rightarrow> num_error + int" where
  "per_contract_ppm total_micros size_centis = divide_int (total_micros * PPM_PER_PIP) size_centis COST_ROUNDING"

definition fee_micros :: "FeeModelInput \<Rightarrow> int \<Rightarrow> int \<Rightarrow> num_error + int" where
  "fee_micros fi price_pips size_centis =
     res_bind (max_trading_fee_micros (fi_model fi) (PyInt price_pips) (PyInt size_centis)) (\<lambda>trading.
     res_bind (max_settlement_fee_micros (fi_model fi) (PyInt size_centis)) (\<lambda>settlement.
       Inr (trading + settlement)))"

definition is_annualizable :: "int \<Rightarrow> int \<Rightarrow> bool" where
  "is_annualizable price_ppm horizon_hours = (price_ppm > 0 \<and> horizon_hours > 0)"

definition annualize :: "int \<Rightarrow> int \<Rightarrow> int \<Rightarrow> num_error + int" where
  "annualize net_edge price_ppm horizon_hours =
     divide_int (net_edge * PPM_SCALE * HOURS_PER_YEAR) (price_ppm * horizon_hours) RETURN_ROUNDING"

definition compute_executable_edge ::
    "OrderBookSnapshot \<Rightarrow> ContractCentis \<Rightarrow> ForecastRecord \<Rightarrow> FeeModelInput \<Rightarrow> SlippageModelInput \<Rightarrow> num_error + edge_result" where
  "compute_executable_edge book sz forecast fee_model slippage =
     (case walk_book_cost (yes_asks book) (val sz) of
        None \<Rightarrow> Inr (Shallow \<lparr>id_required_centis = val sz,
                  id_available_centis = (\<Sum>l \<leftarrow> yes_asks book. val (lvl_quantity l))\<rparr>)
      | Some (total_cost, marginal) \<Rightarrow>
          res_bind (divide_int total_cost (val sz) COST_ROUNDING) (\<lambda>price_pips.
          res_bind (per_contract_ppm total_cost (val sz)) (\<lambda>price_ppm.
            if \<not> is_annualizable price_ppm (fr_forecast_horizon_hours forecast)
            then Inr (NoReturn \<lparr>na_executable_price_ppm = price_ppm, na_forecast_horizon_hours = fr_forecast_horizon_hours forecast\<rparr>)
            else (let gross = fr_probability_ppm forecast - price_ppm in
              res_bind (fee_micros fee_model price_pips (val sz)) (\<lambda>fee.
              res_bind (per_contract_ppm fee (val sz)) (\<lambda>fee_ppm.
              let fee_adjusted = gross - fee_ppm;
                  net = fee_adjusted - sl_per_contract_buffer_ppm slippage in
              res_bind (annualize net price_ppm (fr_forecast_horizon_hours forecast)) (\<lambda>annualized.
                Inr (Figures \<lparr>gross_edge_ppm = gross, fee_adjusted_edge_ppm = fee_adjusted, net_edge_ppm = net,
                       annualized_expected_return_ppm = annualized, executable_price_ppm = price_ppm,
                       executable_price_pips = IntUnit price_pips, executable_cost_micros = IntUnit total_cost,
                       marginal_price_pips = marginal\<rparr>))))))))"

section \<open>Entry conditions\<close>

definition FEE_MODEL_TTL :: int where "FEE_MODEL_TTL = 24 * 3600 * 1000000"
definition SCREENER_SEAM_DETAIL :: string where
  "SCREENER_SEAM_DETAIL = ''enforced upstream by the screener (market metadata not in inputs)''"

record EntryCheck =
  ec_name :: string
  ec_passed :: bool
  ec_detail :: string

definition bool_str :: "bool \<Rightarrow> string" where "bool_str b = (if b then ''True'' else ''False'')"

definition reference_instant :: "SelectorInputs \<Rightarrow> int" where
  "reference_instant inp =
     max (max (ob_fetched_at (si_order_book inp)) (fr_created_at (si_forecast inp))) (fi_as_of (si_fee_model inp))"

definition net_edge_min :: "SelectorInputs \<Rightarrow> EdgeFigures \<Rightarrow> EntryCheck" where
  "net_edge_min inp fig =
     (let floor = rk_min_net_edge_ppm (rc_config (si_risk_config inp)); net = net_edge_ppm fig in
      \<lparr>ec_name = ''net_edge_min'', ec_passed = net \<ge> floor,
       ec_detail = ''net_edge_ppm='' @ show_int net @ '' min_net_edge_ppm='' @ show_int floor\<rparr>)"

definition annualized_hurdle :: "SelectorInputs \<Rightarrow> EdgeFigures \<Rightarrow> EntryCheck" where
  "annualized_hurdle inp fig =
     (let risk = rc_config (si_risk_config inp);
          hurdle = rk_annualized_hurdle_ppm risk + rk_idle_cash_apr_ppm risk;
          annualized = annualized_expected_return_ppm fig in
      \<lparr>ec_name = ''annualized_hurdle'', ec_passed = annualized \<ge> hurdle,
       ec_detail = ''annualized_ppm='' @ show_int annualized @ '' hurdle_ppm='' @ show_int hurdle\<rparr>)"

definition ci_straddles_executable_price :: "SelectorInputs \<Rightarrow> EdgeFigures \<Rightarrow> EntryCheck" where
  "ci_straddles_executable_price inp fig =
     (let forecast = si_forecast inp; price_ppm = executable_price_ppm fig;
          straddles = (fr_ci_low_ppm forecast \<le> price_ppm \<and> price_ppm \<le> fr_ci_high_ppm forecast) in
      \<lparr>ec_name = ''ci_straddles_executable_price'', ec_passed = (\<not> straddles),
       ec_detail = ''ci=['' @ show_int (fr_ci_low_ppm forecast) @ '','' @ show_int (fr_ci_high_ppm forecast) @
         ''] executable_price_ppm='' @ show_int price_ppm\<rparr>)"

definition quote_snapshot_fresh :: "SelectorInputs \<Rightarrow> int \<Rightarrow> EntryCheck" where
  "quote_snapshot_fresh inp reference =
     (let age = reference - ob_fetched_at (si_order_book inp);
          ttl = rk_quote_ttl_seconds (rc_config (si_risk_config inp)) * 1000000 in
      \<lparr>ec_name = ''quote_snapshot_fresh'', ec_passed = age \<le> ttl,
       ec_detail = ''age='' @ timedelta_str age @ '' quote_ttl='' @ timedelta_str ttl\<rparr>)"

definition forecast_fresh :: "SelectorInputs \<Rightarrow> int \<Rightarrow> EntryCheck" where
  "forecast_fresh inp reference =
     (let forecast = si_forecast inp;
          deadline = fr_created_at forecast + fr_forecast_horizon_hours forecast * 3600 * 1000000 in
      \<lparr>ec_name = ''forecast_fresh'', ec_passed = reference \<le> deadline,
       ec_detail = ''reference='' @ isoformat reference @ '' deadline='' @ isoformat deadline\<rparr>)"

definition fee_model_current :: "SelectorInputs \<Rightarrow> int \<Rightarrow> EntryCheck" where
  "fee_model_current inp reference =
     (let age = reference - fi_as_of (si_fee_model inp) in
      \<lparr>ec_name = ''fee_model_current'', ec_passed = age \<le> FEE_MODEL_TTL,
       ec_detail = ''age='' @ timedelta_str age @ '' fee_model_ttl='' @ timedelta_str FEE_MODEL_TTL\<rparr>)"

definition market_coherent :: "SelectorInputs \<Rightarrow> EntryCheck" where
  "market_coherent inp =
     (let flagged = fr_coherence_flag (si_forecast inp) in
      \<lparr>ec_name = ''market_coherent'', ec_passed = (\<not> flagged), ec_detail = ''coherence_flag='' @ bool_str flagged\<rparr>)"

definition citation_support :: "SelectorInputs \<Rightarrow> EntryCheck" where
  "citation_support inp =
     (let count = length (fr_citations (si_forecast inp)) in
      \<lparr>ec_name = ''citation_support'', ec_passed = count > 0, ec_detail = ''citation_count='' @ show_nat count\<rparr>)"

definition jurisdiction_eligible :: EntryCheck where
  "jurisdiction_eligible = \<lparr>ec_name = ''jurisdiction_eligible'', ec_passed = True, ec_detail = SCREENER_SEAM_DETAIL\<rparr>"

definition category_eligible :: EntryCheck where
  "category_eligible = \<lparr>ec_name = ''category_eligible'', ec_passed = True, ec_detail = SCREENER_SEAM_DETAIL\<rparr>"

definition price_within_bands :: "SelectorInputs \<Rightarrow> EdgeFigures \<Rightarrow> EntryCheck" where
  "price_within_bands inp fig =
     (let risk = rc_config (si_risk_config inp); price = val (executable_price_pips fig);
          band = ''band=['' @ show_int (rk_min_open_price_pips risk) @ '','' @ show_int (rk_max_open_price_pips risk) @ '']'' in
      if price < rk_min_open_price_pips risk then
        \<lparr>ec_name = ''price_within_bands'', ec_passed = False,
         ec_detail = ''price_below_min_open_band executable_price_pips='' @ show_int price @ '' '' @ band\<rparr>
      else if price > rk_max_open_price_pips risk then
        \<lparr>ec_name = ''price_within_bands'', ec_passed = False,
         ec_detail = ''price_above_max_open_band executable_price_pips='' @ show_int price @ '' '' @ band\<rparr>
      else \<lparr>ec_name = ''price_within_bands'', ec_passed = True,
         ec_detail = ''executable_price_pips='' @ show_int price @ '' '' @ band\<rparr>)"

definition forecast_live_eligible :: "SelectorInputs \<Rightarrow> EntryCheck" where
  "forecast_live_eligible inp =
     (let eligible = fr_eligible_for_live (si_forecast inp) in
      \<lparr>ec_name = ''forecast_live_eligible'', ec_passed = eligible, ec_detail = ''eligible_for_live='' @ bool_str eligible\<rparr>)"

definition evaluate_entry_conditions :: "SelectorInputs \<Rightarrow> EdgeFigures \<Rightarrow> EntryCheck list" where
  "evaluate_entry_conditions inp fig =
     (let reference = reference_instant inp in
      [net_edge_min inp fig, annualized_hurdle inp fig, ci_straddles_executable_price inp fig,
       quote_snapshot_fresh inp reference, forecast_fresh inp reference, fee_model_current inp reference,
       market_coherent inp, citation_support inp, jurisdiction_eligible, category_eligible,
       price_within_bands inp fig, forecast_live_eligible inp])"

section \<open>Sizing\<close>

definition SZ_PPM_ONE :: int where "SZ_PPM_ONE = 1000000"
definition KELLY_DENOMINATOR_SCALE :: int where "KELLY_DENOMINATOR_SCALE = 10 ^ 12"
definition CENTIS_PER_CONTRACT :: int where "CENTIS_PER_CONTRACT = 100"
definition EXCHANGE_MIN_ORDER_CENTIS :: int where "EXCHANGE_MIN_ORDER_CENTIS = 100"
definition EXCHANGE_MIN_CAP_NAME :: string where "EXCHANGE_MIN_CAP_NAME = ''exchange_min_order''"
definition SZ_ROUNDING :: RoundingDirection where "SZ_ROUNDING = UNDERSTATE_EQUITY"

definition dispersion_scale :: "int \<Rightarrow> int \<Rightarrow> num_error + int" where
  "dispersion_scale dispersion zero_ceiling =
     (if dispersion < 0 then Inr SZ_PPM_ONE
      else if zero_ceiling \<le> 0 then Inr (if dispersion \<le> 0 then SZ_PPM_ONE else 0)
      else if dispersion \<ge> zero_ceiling then Inr 0
      else divide_int ((zero_ceiling - dispersion) * SZ_PPM_ONE) zero_ceiling SZ_ROUNDING)"

definition kelly_size :: "int \<Rightarrow> int \<Rightarrow> int \<Rightarrow> int \<Rightarrow> int \<Rightarrow> MoneyMicros \<Rightarrow> num_error + ContractCentis" where
  "kelly_size net_edge min_net_edge price_ppm kelly_fraction_ppm dispersion_scale_ppm capital =
     (if net_edge \<le> 0 \<or> net_edge < min_net_edge then Inr (IntUnit 0)
      else if price_ppm \<le> 0 \<or> price_ppm \<ge> SZ_PPM_ONE then Inr (IntUnit 0)
      else (let stake_numerator = val capital * net_edge * kelly_fraction_ppm * dispersion_scale_ppm;
                stake_denominator = (SZ_PPM_ONE - price_ppm) * KELLY_DENOMINATOR_SCALE in
        res_bind (divide_int stake_numerator stake_denominator SZ_ROUNDING) (\<lambda>stake_micros.
        res_bind (divide_int (stake_micros * CENTIS_PER_CONTRACT) price_ppm SZ_ROUNDING) (\<lambda>size_centis.
          Inr (IntUnit size_centis)))))"

record CapClipResult =
  cc_size :: ContractCentis
  cc_binding_cap :: "string option"

definition pct_ceiling_micros :: "int \<Rightarrow> int \<Rightarrow> int" where
  "pct_ceiling_micros equity_micros pct_ppm = projr (divide_int (equity_micros * pct_ppm) SZ_PPM_ONE SZ_ROUNDING)"

definition headroom_cap_centis :: "int \<Rightarrow> int \<Rightarrow> int \<Rightarrow> num_error + int" where
  "headroom_cap_centis ceiling_micros used_micros price_ppm =
     divide_int (max 0 (ceiling_micros - used_micros) * CENTIS_PER_CONTRACT) price_ppm SZ_ROUNDING"

definition notional_cap_limits ::
    "PositionReadModelInput \<Rightarrow> RiskConfig \<Rightarrow> int \<Rightarrow> string \<Rightarrow> num_error + (string \<times> int) list" where
  "notional_cap_limits positions risk price_ppm bucket_cap_name =
     (let equity = val (pm_equity_micros positions);
          pct = (\<lambda>pct_ppm exposure. headroom_cap_centis (pct_ceiling_micros equity pct_ppm) exposure price_ppm) in
      res_bind (pct (rk_max_pos_market_pct_ppm risk) (val (pm_market_exposure positions))) (\<lambda>market.
      res_bind (pct (rk_max_pos_event_pct_ppm risk) (val (pm_event_exposure positions))) (\<lambda>event.
      res_bind (pct (rk_max_pos_bucket_pct_ppm risk) (val (pm_bucket_exposure positions))) (\<lambda>bucket.
      res_bind (headroom_cap_centis (val (pm_total_deploy_cap_micros positions)) (val (pm_total_exposure positions)) price_ppm) (\<lambda>total.
      res_bind (headroom_cap_centis (rk_max_notional_per_day_micros risk) (val (pm_notional_today positions)) price_ppm) (\<lambda>daily.
        Inr [(''per_market'', market), (''per_event'', event), (bucket_cap_name, bucket), (''total_deployed'', total),
             (''daily_notional'', daily)]))))))"

definition floor_lot :: "int \<Rightarrow> int" where
  "floor_lot size_centis = size_centis - (size_centis mod EXCHANGE_MIN_ORDER_CENTIS)"

fun depth_from :: "int \<Rightarrow> OrderBookLevel list \<Rightarrow> int \<Rightarrow> int" where
  "depth_from cumulative [] fill = cumulative"
| "depth_from cumulative (l # ls) fill =
     (let cumulative' = cumulative + val (lvl_quantity l) in
      if cumulative' \<ge> fill then cumulative' else depth_from cumulative' ls fill)"

definition depth_through_fill :: "OrderBookLevel list \<Rightarrow> int \<Rightarrow> int" where
  "depth_through_fill asks fill_centis = depth_from 0 asks fill_centis"

definition participation_share :: "int \<Rightarrow> int \<Rightarrow> bool \<Rightarrow> int" where
  "participation_share ppm depth lot =
     (let cap = projr (divide_int (ppm * depth) SZ_PPM_ONE SZ_ROUNDING) in if lot then floor_lot cap else cap)"

text \<open>One pass for each level of the list the loop runs over.\<close>

fun participation_passes :: "OrderBookLevel list \<Rightarrow> OrderBookLevel list \<Rightarrow> int \<Rightarrow> bool \<Rightarrow> int \<Rightarrow> int" where
  "participation_passes [] asks ppm lot current = current"
| "participation_passes (_ # ls) asks ppm lot current =
     (let cap = participation_share ppm (depth_through_fill asks current) lot in
      if current \<le> cap then current else participation_passes ls asks ppm lot cap)"

definition participation_fixed_point :: "int \<Rightarrow> OrderBookLevel list \<Rightarrow> int \<Rightarrow> bool \<Rightarrow> int" where
  "participation_fixed_point size_centis asks ppm lot =
     (let total_depth = (\<Sum>l \<leftarrow> asks. val (lvl_quantity l));
          clamp = projr (divide_int (ppm * total_depth) SZ_PPM_ONE SZ_ROUNDING);
          current = min size_centis clamp in
      participation_passes asks asks ppm lot (if lot then floor_lot current else current))"

definition binding_cap_name :: "int \<Rightarrow> (string \<times> int) list \<Rightarrow> int \<Rightarrow> string option" where
  "binding_cap_name raw_centis ordered_limits clipped_minimum =
     (if raw_centis \<le> clipped_minimum then None
      else map_option fst (find (\<lambda>(name, limit). limit = clipped_minimum) ordered_limits))"

definition clip_to_caps ::
    "ContractCentis \<Rightarrow> int \<Rightarrow> OrderBookSnapshot \<Rightarrow> RiskConfig \<Rightarrow> PositionReadModelInput \<Rightarrow> string \<Rightarrow> num_error + CapClipResult" where
  "clip_to_caps raw price_ppm book risk positions bucket_cap_name =
     (let ppm = rk_max_participation_ppm risk in
      res_bind (notional_cap_limits positions risk price_ppm bucket_cap_name) (\<lambda>notional_limits.
      let after_notional = foldl min (val raw) (map snd notional_limits);
          ordered_limits = notional_limits @ [(''participation'', participation_fixed_point after_notional (yes_asks book) ppm False)];
          clipped_minimum = foldl min (val raw) (map snd ordered_limits);
          binding_cap = binding_cap_name (val raw) ordered_limits clipped_minimum;
          final_centis = participation_fixed_point after_notional (yes_asks book) ppm True in
      if final_centis < EXCHANGE_MIN_ORDER_CENTIS then
        Inr \<lparr>cc_size = IntUnit 0,
             cc_binding_cap = Some (case binding_cap of None \<Rightarrow> EXCHANGE_MIN_CAP_NAME | Some name \<Rightarrow> name)\<rparr>
      else Inr \<lparr>cc_size = IntUnit final_centis, cc_binding_cap = binding_cap\<rparr>))"

section \<open>Execution style\<close>

definition WIDE_SPREAD_MIN_PIPS :: int where "WIDE_SPREAD_MIN_PIPS = 300"
definition REST_IMPROVEMENT_PIPS :: int where "REST_IMPROVEMENT_PIPS = 100"

record ExecutionStyleDecision =
  xs_style :: string
  xs_resting_price_pips :: "PricePips option"
  xs_resting_ttl_seconds :: "int option"
  xs_cancel_on_move_ticks :: "int option"

definition cross_decision :: ExecutionStyleDecision where
  "cross_decision = \<lparr>xs_style = ''cross'', xs_resting_price_pips = None, xs_resting_ttl_seconds = None, xs_cancel_on_move_ticks = None\<rparr>"

definition spread_pips :: "PricePips \<Rightarrow> PricePips \<Rightarrow> int" where
  "spread_pips best_bid best_ask = val best_ask - val best_bid"

definition net_edge_at_price_ppm :: "SelectorInputs \<Rightarrow> PricePips \<Rightarrow> ContractCentis \<Rightarrow> num_error + int" where
  "net_edge_at_price_ppm inp rest_price sz =
     res_bind (fee_micros (si_fee_model inp) (val rest_price) (val sz)) (\<lambda>fee.
     res_bind (per_contract_ppm fee (val sz)) (\<lambda>fee_ppm.
       Inr (fr_probability_ppm (si_forecast inp) - val rest_price * PPM_PER_PIP - fee_ppm
            - sl_per_contract_buffer_ppm (si_slippage_model inp))))"

definition decide_execution_style :: "SelectorInputs \<Rightarrow> ContractCentis \<Rightarrow> num_error + ExecutionStyleDecision" where
  "decide_execution_style inp sz =
     (case (yes_bids (si_order_book inp), yes_asks (si_order_book inp)) of
        (bid # _, ask # _) \<Rightarrow>
          (let best_bid = lvl_price bid; best_ask = lvl_price ask; risk = rc_config (si_risk_config inp);
               rest_price = (IntUnit (val best_bid + REST_IMPROVEMENT_PIPS) :: PricePips) in
           if spread_pips best_bid best_ask < WIDE_SPREAD_MIN_PIPS then Inr cross_decision
           else if val rest_price < rk_min_open_price_pips risk \<or> val rest_price > rk_max_open_price_pips risk then Inr cross_decision
           else res_bind (net_edge_at_price_ppm inp rest_price sz) (\<lambda>net.
             if net < rk_min_net_edge_ppm risk then Inr cross_decision
             else Inr \<lparr>xs_style = ''rest_inside_spread'', xs_resting_price_pips = Some rest_price,
                       xs_resting_ttl_seconds = Some (rk_resting_order_ttl_seconds risk),
                       xs_cancel_on_move_ticks = Some (rk_cancel_on_move_ticks risk)\<rparr>))
      | _ \<Rightarrow> Inr cross_decision)"

section \<open>Closes\<close>

datatype CloseTrigger = KILL_PATH | KERNEL_DERISK | OPERATOR_COMMAND

fun close_trigger_value :: "CloseTrigger \<Rightarrow> string" where
  "close_trigger_value KILL_PATH = ''kill_path''"
| "close_trigger_value KERNEL_DERISK = ''kernel_derisk''"
| "close_trigger_value OPERATOR_COMMAND = ''operator_command''"

definition ACTION_SELL_TO_CLOSE :: string where "ACTION_SELL_TO_CLOSE = ''sell_to_close''"
definition OUTCOME_YES :: string where "OUTCOME_YES = ''yes''"

definition close_fields :: "CloseTrigger \<Rightarrow> string \<Rightarrow> int \<Rightarrow> int \<Rightarrow> payload" where
  "close_fields trigger ticker price_pips size_centis =
     [(''trigger'', JStr (close_trigger_value trigger)), (''market_ticker'', JStr ticker), (''outcome'', JStr OUTCOME_YES),
      (''action'', JStr ACTION_SELL_TO_CLOSE), (''price'', JInt price_pips), (''size'', JInt size_centis)]"

definition close_idempotency_key :: "(string \<Rightarrow> string) \<Rightarrow> CloseTrigger \<Rightarrow> string \<Rightarrow> int \<Rightarrow> int \<Rightarrow> string" where
  "close_idempotency_key sha trigger ticker price_pips size_centis =
     sha (canonical_json (close_fields trigger ticker price_pips size_centis))"

definition build_close_intent ::
    "(string \<Rightarrow> string) \<Rightarrow> CloseTrigger \<Rightarrow> Position \<Rightarrow> PricePips \<Rightarrow> ContractCentis option \<Rightarrow> num_error + SelectorOrderIntent" where
  "build_close_intent sha trigger position close_price sz =
     (if val (pos_quantity position) \<le> 0 then Inl ValueError
      else if (case sz of None \<Rightarrow> False | Some c \<Rightarrow> val c \<le> 0) then Inl ValueError
      else (let requested = (case sz of None \<Rightarrow> pos_quantity position | Some c \<Rightarrow> c);
                emitted = min (val requested) (val (pos_quantity position)) in
        SelectorOrderIntent_new
          \<lparr>intent_id = pos_ticker position @ '':'' @ OUTCOME_YES @ '':'' @ ACTION_SELL_TO_CLOSE @ '':'' @ close_trigger_value trigger,
           market_ticker = pos_ticker position, intent_outcome = OUTCOME_YES, action = ACTION_SELL_TO_CLOSE, price = close_price,
           order_size = IntUnit emitted, max_notional = IntUnit (val close_price * emitted),
           implied_probability = IntUnit (val close_price * PPM_PER_PIP),
           idempotency_key = close_idempotency_key sha trigger (pos_ticker position) (val close_price) emitted,
           execution_style = ''cross'', resting_ttl_seconds = None, cancel_on_move_ticks = None\<rparr>))"

section \<open>Selection\<close>

definition PROBE_SIZE_CENTIS :: ContractCentis where "PROBE_SIZE_CENTIS = IntUnit 100"
definition ACTION_BUY :: string where "ACTION_BUY = ''buy''"
definition SIZED_SUFFIX :: string where "SIZED_SUFFIX = ''sized''"

definition render_check :: "EntryCheck \<Rightarrow> string" where
  "render_check c = (if ec_passed c then ''pass:'' @ ec_name c else ''fail:'' @ ec_name c @ '': '' @ ec_detail c)"

definition intent_fields :: "string \<Rightarrow> string \<Rightarrow> int \<Rightarrow> int \<Rightarrow> payload" where
  "intent_fields forecast_id ticker price_pips size_centis =
     [(''forecast_id'', JStr forecast_id), (''market_ticker'', JStr ticker), (''outcome'', JStr OUTCOME_YES),
      (''action'', JStr ACTION_BUY), (''price'', JInt price_pips), (''size'', JInt size_centis)]"

definition open_idempotency_key :: "(string \<Rightarrow> string) \<Rightarrow> string \<Rightarrow> string \<Rightarrow> int \<Rightarrow> int \<Rightarrow> string" where
  "open_idempotency_key sha forecast_id ticker price_pips size_centis =
     sha (canonical_json (intent_fields forecast_id ticker price_pips size_centis))"

definition price_and_notional ::
    "SelectorInputs \<Rightarrow> EdgeFigures \<Rightarrow> ContractCentis \<Rightarrow> ExecutionStyleDecision \<Rightarrow> num_error + (PricePips \<times> MoneyMicros)" where
  "price_and_notional inp fig sz style =
     (case xs_resting_price_pips style of
        Some rest_price \<Rightarrow>
          res_bind (fee_micros (si_fee_model inp) (val rest_price) (val sz)) (\<lambda>fee.
            Inr (rest_price, IntUnit (val rest_price * val sz + fee)))
      | None \<Rightarrow>
          res_bind (fee_micros (si_fee_model inp) (val (executable_price_pips fig)) (val sz)) (\<lambda>fee.
            Inr (marginal_price_pips fig, IntUnit (val (executable_cost_micros fig) + fee))))"

definition build_intent ::
    "(string \<Rightarrow> string) \<Rightarrow> SelectorInputs \<Rightarrow> EdgeFigures \<Rightarrow> ContractCentis \<Rightarrow> ExecutionStyleDecision \<Rightarrow> num_error + SelectorOrderIntent" where
  "build_intent sha inp fig sz style =
     (let forecast = si_forecast inp in
      res_bind (price_and_notional inp fig sz style) (\<lambda>(p, notional).
        SelectorOrderIntent_new
          \<lparr>intent_id = fr_forecast_id forecast @ '':'' @ OUTCOME_YES @ '':'' @ ACTION_BUY @ '':'' @ SIZED_SUFFIX,
           market_ticker = fr_market_ticker forecast, intent_outcome = OUTCOME_YES, action = ACTION_BUY, price = p,
           order_size = sz, max_notional = notional, implied_probability = IntUnit (fr_probability_ppm forecast),
           idempotency_key = open_idempotency_key sha (fr_forecast_id forecast) (fr_market_ticker forecast) (val p) (val sz),
           execution_style = xs_style style, resting_ttl_seconds = xs_resting_ttl_seconds style,
           cancel_on_move_ticks = xs_cancel_on_move_ticks style\<rparr>))"

definition sel_decision :: "SelectorInputs \<Rightarrow> SelectorOrderIntent list \<Rightarrow> string list \<Rightarrow> SelectorDecision" where
  "sel_decision inp intents why =
     \<lparr>sd_intents = intents, sd_reasons = why, sd_forecast_id = fr_forecast_id (si_forecast inp),
      sd_market_ticker = fr_market_ticker (si_forecast inp), sd_calibration_map_version = si_calibration_map_version inp\<rparr>"

definition sizing_reason :: "ContractCentis \<Rightarrow> int \<Rightarrow> CapClipResult \<Rightarrow> string" where
  "sizing_reason raw g_ppm clip =
     ''sizing: raw_centis='' @ show_int (val raw) @ '' g_ppm='' @ show_int g_ppm @ '' binding_cap='' @
     (case cc_binding_cap clip of None \<Rightarrow> ''none'' | Some name \<Rightarrow> if name = [] then ''none'' else name) @
     '' final_centis='' @ show_int (val (cc_size clip))"

definition cap_reference_price_ppm :: "OrderBookSnapshot \<Rightarrow> int" where
  "cap_reference_price_ppm book = val (lvl_price (last (yes_asks book))) * PPM_PER_PIP"

definition size_and_emit :: "(string \<Rightarrow> string) \<Rightarrow> SelectorInputs \<Rightarrow> EdgeFigures \<Rightarrow> string list \<Rightarrow> num_error + SelectorDecision" where
  "size_and_emit sha inp fig why =
     (let risk = rc_config (si_risk_config inp);
          (bucket_used, binding_bucket) = aggregate_bucket_exposure (effective_buckets (si_correlation_tags inp)) (si_bucket_peers inp);
          bucket_cap_name = (case binding_bucket of None \<Rightarrow> ''per_bucket'' | Some b \<Rightarrow> ''per_bucket:'' @ b);
          positions = (si_positions inp)\<lparr>pm_bucket_exposure := IntUnit bucket_used\<rparr> in
      res_bind (dispersion_scale (fr_vote_dispersion_ppm (si_forecast inp)) (rk_dispersion_zero_ceiling_ppm risk)) (\<lambda>g_ppm.
      res_bind (kelly_size (net_edge_ppm fig) (rk_min_net_edge_ppm risk) (executable_price_ppm fig) (rk_kelly_fraction_ppm risk)
          g_ppm (pm_above_floor_capital_micros (si_positions inp))) (\<lambda>raw.
      res_bind (clip_to_caps raw (cap_reference_price_ppm (si_order_book inp)) (si_order_book inp) risk positions bucket_cap_name) (\<lambda>clip.
      if val (cc_size clip) = 0 then Inr (sel_decision inp [] (why @ [sizing_reason raw g_ppm clip]))
      else res_bind (compute_executable_edge (si_order_book inp) (cc_size clip) (si_forecast inp) (si_fee_model inp) (si_slippage_model inp)) (\<lambda>final.
        case final of
          Shallow r \<Rightarrow> Inr (sel_decision inp [] (why @ [insufficient_reason r]))
        | NoReturn r \<Rightarrow> Inr (sel_decision inp [] (why @ [non_annualizable_reason r]))
        | Figures final_fig \<Rightarrow>
            (if net_edge_ppm final_fig < rk_min_net_edge_ppm risk then
               Inr (sel_decision inp [] (why @ [''fail:net_edge_at_final_size: net_edge_ppm='' @ show_int (net_edge_ppm final_fig) @
                 '' min_net_edge_ppm='' @ show_int (rk_min_net_edge_ppm risk)]))
             else res_bind (decide_execution_style inp (cc_size clip)) (\<lambda>style.
               res_bind (build_intent sha inp final_fig (cc_size clip) style) (\<lambda>intent.
                 Inr (sel_decision inp [intent] (why @ [sizing_reason raw g_ppm clip]))))))))))"

definition select :: "(string \<Rightarrow> string) \<Rightarrow> SelectorInputs \<Rightarrow> num_error + SelectorDecision" where
  "select sha inp =
     res_bind (compute_executable_edge (si_order_book inp) PROBE_SIZE_CENTIS (si_forecast inp) (si_fee_model inp) (si_slippage_model inp)) (\<lambda>r.
     case r of
       Shallow d \<Rightarrow> Inr (sel_decision inp [] [insufficient_reason d])
     | NoReturn d \<Rightarrow> Inr (sel_decision inp [] [non_annualizable_reason d])
     | Figures fig \<Rightarrow>
         (let checks = evaluate_entry_conditions inp fig; why = map render_check checks in
          if \<not> list_all ec_passed checks then Inr (sel_decision inp [] why)
          else size_and_emit sha inp fig why))"

subsection \<open>Serialization\<close>

definition json_of_int_option :: "int option \<Rightarrow> json" where
  "json_of_int_option x = (case x of None \<Rightarrow> JNull | Some i \<Rightarrow> JInt i)"

definition sel_intent_to_payload :: "SelectorOrderIntent \<Rightarrow> payload" where
  "sel_intent_to_payload i =
     [(''intent_id'', JStr (intent_id i)), (''market_ticker'', JStr (market_ticker i)), (''outcome'', JStr (intent_outcome i)),
      (''action'', JStr (action i)), (''price'', JInt (val (price i))), (''size'', JInt (val (order_size i))),
      (''max_notional'', JInt (val (max_notional i))), (''implied_probability'', JInt (val (implied_probability i))),
      (''idempotency_key'', JStr (idempotency_key i)), (''execution_style'', JStr (execution_style i)),
      (''resting_ttl_seconds'', json_of_int_option (resting_ttl_seconds i)),
      (''cancel_on_move_ticks'', json_of_int_option (cancel_on_move_ticks i))]"

definition decision_payload :: "SelectorDecision \<Rightarrow> payload" where
  "decision_payload d =
     [(''intents'', JList (map (\<lambda>i. JObj (sel_intent_to_payload i)) (sd_intents d))), (''reasons'', JList (map JStr (sd_reasons d))),
      (''forecast_id'', JStr (sd_forecast_id d)), (''market_ticker'', JStr (sd_market_ticker d)),
      (''calibration_map_version'', JStr (sd_calibration_map_version d))]"

definition serialize_decision :: "SelectorDecision \<Rightarrow> string" where
  "serialize_decision d = canonical_json (decision_payload d)"

end
