(* ===== verification/SelectorSafety.thy ===== *)
theory SelectorSafety
  imports Selector Gateway
begin

text \<open>
  What the selector guarantees: the participation cap is the greatest size its own rule admits, an emitted intent
  stays within every cap and pays for itself, closes are reduce-only, and the texts the selector hashes and ledgers
  identify what they stand for.
\<close>

section \<open>Lemmas\<close>

lemmas selector_constants = PPM_PER_PIP_def PPM_SCALE_def HOURS_PER_YEAR_def COST_ROUNDING_def RETURN_ROUNDING_def
  SZ_PPM_ONE_def KELLY_DENOMINATOR_SCALE_def CENTIS_PER_CONTRACT_def EXCHANGE_MIN_ORDER_CENTIS_def SZ_ROUNDING_def

subsection \<open>The participation cap\<close>

lemma floor_lot_eq: "floor_lot x = 100 * (x div 100)"
  by (simp add: floor_lot_def EXCHANGE_MIN_ORDER_CENTIS_def minus_mod_eq_mult_div)

lemma floor_lot_mono: "x \<le> y \<Longrightarrow> floor_lot x \<le> floor_lot y"
  by (simp add: floor_lot_eq zdiv_mono1)

lemma floor_lot_le: "floor_lot x \<le> x"
  by (simp add: floor_lot_def EXCHANGE_MIN_ORDER_CENTIS_def)

lemma floor_lot_greatest: "100 dvd s \<Longrightarrow> s \<le> x \<Longrightarrow> s \<le> floor_lot x"
  unfolding floor_lot_eq using zdiv_mono1 [of s x 100] by auto

lemma participation_share_eq:
  "participation_share ppm depth lot = (if lot then floor_lot (floor_div (ppm * depth) 1000000) else floor_div (ppm * depth) 1000000)"
  by (simp add: participation_share_def divide_int_def selector_constants)

lemma participation_share_mono:
  assumes "0 \<le> ppm" and "d \<le> d'"
  shows "participation_share ppm d lot \<le> participation_share ppm d' lot"
proof -
  have "floor_div (ppm * d) 1000000 \<le> floor_div (ppm * d') 1000000"
    using assms by (intro cdiv.down_mono mult_left_mono) simp_all
  then show ?thesis by (simp add: participation_share_eq floor_lot_mono)
qed

lemma participation_share_bound:
  "1000000 * participation_share ppm d lot \<le> ppm * d"
  using cdiv.down_covered [of 1000000 "ppm * d"] floor_lot_le [of "floor_div (ppm * d) 1000000"]
  by (simp add: participation_share_eq)

text \<open>Which level a fill reaches; the depth it is measured against depends on nothing else.\<close>

fun marginal_index :: "int \<Rightarrow> OrderBookLevel list \<Rightarrow> int \<Rightarrow> nat" where
  "marginal_index c [] fill = 0"
| "marginal_index c (l # ls) fill =
     (if c + val (lvl_quantity l) \<ge> fill then 0 else Suc (marginal_index (c + val (lvl_quantity l)) ls fill))"

definition resting_depth :: "OrderBookLevel list \<Rightarrow> int" where
  "resting_depth ls = (\<Sum>l \<leftarrow> ls. val (lvl_quantity l))"

lemma depth_from_index: "depth_from c ls fill = c + resting_depth (take (Suc (marginal_index c ls fill)) ls)"
  by (induction ls arbitrary: c) (simp_all add: Let_def resting_depth_def)

lemma marginal_index_mono: "fill \<le> fill' \<Longrightarrow> marginal_index c ls fill \<le> marginal_index c ls fill'"
  by (induction ls arbitrary: c) auto

lemma marginal_index_length: "marginal_index c ls fill \<le> length ls"
  by (induction ls arbitrary: c) (auto simp: le_SucI)

definition books_depth :: "OrderBookLevel list \<Rightarrow> bool" where
  "books_depth ls = list_all (\<lambda>l. 0 \<le> val (lvl_quantity l)) ls"

lemma resting_depth_nonneg: "books_depth ls \<Longrightarrow> 0 \<le> resting_depth ls"
  unfolding resting_depth_def by (rule sum_list_nonneg) (auto simp: books_depth_def list_all_iff)

lemma resting_depth_take_mono: "books_depth ls \<Longrightarrow> m \<le> n \<Longrightarrow> resting_depth (take m ls) \<le> resting_depth (take n ls)"
proof -
  assume ls: "books_depth ls" and m: "m \<le> n"
  have "take n ls = take m ls @ take (n - m) (drop m ls)" using m by (metis le_add_diff_inverse take_add)
  moreover have "books_depth (take (n - m) (drop m ls))"
    using ls by (auto simp: books_depth_def list_all_iff dest!: in_set_takeD in_set_dropD)
  ultimately show ?thesis using resting_depth_nonneg by (fastforce simp: resting_depth_def)
qed

lemma depth_mono:
  assumes "books_depth asks" and "s \<le> s'"
  shows "depth_through_fill asks s \<le> depth_through_fill asks s'"
  unfolding depth_through_fill_def depth_from_index
  using assms by (simp add: resting_depth_take_mono marginal_index_mono)

lemma depth_total: "books_depth asks \<Longrightarrow> depth_through_fill asks s \<le> resting_depth asks"
  unfolding depth_through_fill_def depth_from_index
  using resting_depth_take_mono [of asks "Suc (marginal_index 0 asks s)" "length asks + Suc (marginal_index 0 asks s)"] by simp

lemma books_depth_take: "books_depth asks \<Longrightarrow> books_depth (take n asks)"
  by (auto simp: books_depth_def list_all_iff dest: in_set_takeD)

lemma depth_nonneg: "books_depth asks \<Longrightarrow> 0 \<le> depth_through_fill asks s"
  unfolding depth_through_fill_def depth_from_index by (simp add: resting_depth_nonneg books_depth_take)

text \<open>The passes are enough: a pass that does not settle moves the marginal level.\<close>

lemma passes_settle:
  assumes "cur \<le> participation_share ppm (depth_through_fill asks cur) lot \<or> marginal_index 0 asks cur < length ls"
  shows "participation_passes ls asks ppm lot cur
    \<le> participation_share ppm (depth_through_fill asks (participation_passes ls asks ppm lot cur)) lot"
  using assms
proof (induction ls arbitrary: cur)
  case (Cons l ls)
  let ?share = "\<lambda>s. participation_share ppm (depth_through_fill asks s) lot"
  show ?case
  proof (cases "cur \<le> ?share cur")
    case False
    with Cons.prems have idx: "marginal_index 0 asks cur < Suc (length ls)" by simp
    have "?share cur \<le> ?share (?share cur) \<or> marginal_index 0 asks (?share cur) < length ls"
    proof (rule disjCI)
      assume "\<not> marginal_index 0 asks (?share cur) < length ls"
      with idx marginal_index_mono [of "?share cur" cur 0 asks] False
      have "marginal_index 0 asks (?share cur) = marginal_index 0 asks cur" by linarith
      then show "?share cur \<le> ?share (?share cur)" by (simp add: depth_through_fill_def depth_from_index)
    qed
    then show ?thesis using Cons.IH False by (simp add: Let_def)
  qed (simp add: Let_def)
qed simp

lemma passes_le: "participation_passes ls asks ppm lot cur \<le> cur"
proof (induction ls arbitrary: cur)
  case (Cons l ls)
  show ?case using Cons.IH [of "participation_share ppm (depth_through_fill asks cur) lot"] by (simp add: Let_def)
qed simp

lemma passes_above:
  assumes "books_depth asks" and "0 \<le> ppm" and "s \<le> participation_share ppm (depth_through_fill asks s) lot" and "s \<le> cur"
  shows "s \<le> participation_passes ls asks ppm lot cur"
  using assms(4)
proof (induction ls arbitrary: cur)
  case (Cons l ls)
  have "s \<le> participation_share ppm (depth_through_fill asks cur) lot"
    using assms(3) participation_share_mono [OF assms(2) depth_mono [OF assms(1) Cons.prems], of lot] by linarith
  then show ?case using Cons by (simp add: Let_def)
qed simp

lemma passes_lot: "(lot \<longrightarrow> 100 dvd cur) \<Longrightarrow> lot \<longrightarrow> 100 dvd participation_passes ls asks ppm lot cur"
proof (induction ls arbitrary: cur)
  case (Cons l ls)
  have "lot \<longrightarrow> 100 dvd participation_share ppm (depth_through_fill asks cur) lot"
    by (simp add: participation_share_eq floor_lot_eq)
  with Cons show ?case by (simp add: Let_def)
qed simp

text \<open>The sizes the rule of the cap admits.\<close>

definition takeable :: "int \<Rightarrow> OrderBookLevel list \<Rightarrow> int \<Rightarrow> bool \<Rightarrow> int \<Rightarrow> bool" where
  "takeable n asks ppm lot s =
     (s \<le> n \<and> s \<le> participation_share ppm (depth_through_fill asks s) lot \<and> (lot \<longrightarrow> 100 dvd s))"

lemma participation_start:
  "participation_fixed_point n asks ppm lot = participation_passes asks asks ppm lot
     (if lot then floor_lot (min n (floor_div (ppm * resting_depth asks) 1000000)) else min n (floor_div (ppm * resting_depth asks) 1000000))"
  by (simp add: participation_fixed_point_def Let_def divide_int_def selector_constants resting_depth_def)

lemma fixed_point_takeable: "takeable n asks ppm lot (participation_fixed_point n asks ppm lot)"
proof -
  let ?c = "floor_div (ppm * resting_depth asks) 1000000"
  define cur where "cur = (if lot then floor_lot (min n ?c) else min n ?c)"
  have fp: "participation_fixed_point n asks ppm lot = participation_passes asks asks ppm lot cur"
    by (simp add: participation_start cur_def)
  have cur: "cur \<le> n" "cur \<le> participation_share ppm (resting_depth asks) lot" "lot \<longrightarrow> 100 dvd cur"
    using floor_lot_le [of "min n ?c"] floor_lot_mono [of "min n ?c" ?c]
    by (simp_all add: cur_def participation_share_eq floor_lot_eq)
  have "cur \<le> participation_share ppm (depth_through_fill asks cur) lot \<or> marginal_index 0 asks cur < length asks"
  proof (rule disjCI)
    assume "\<not> marginal_index 0 asks cur < length asks"
    then have "depth_through_fill asks cur = resting_depth asks"
      by (simp add: depth_through_fill_def depth_from_index)
    with cur(2) show "cur \<le> participation_share ppm (depth_through_fill asks cur) lot" by simp
  qed
  then show ?thesis
    unfolding takeable_def fp using passes_settle passes_le [of asks asks ppm lot cur] passes_lot [OF cur(3)] cur(1) by fastforce
qed

lemma fixed_point_greatest:
  assumes "books_depth asks" and "0 \<le> ppm" and "takeable n asks ppm lot s"
  shows "s \<le> participation_fixed_point n asks ppm lot"
proof -
  let ?c = "floor_div (ppm * resting_depth asks) 1000000"
  have "s \<le> participation_share ppm (resting_depth asks) lot"
    using assms(3) participation_share_mono [OF assms(2) depth_total [OF assms(1), of s], of lot] by (simp add: takeable_def)
  then have "s \<le> ?c" using floor_lot_le [of ?c] by (simp add: participation_share_eq split: if_splits)
  then have "s \<le> (if lot then floor_lot (min n ?c) else min n ?c)"
    using assms(3) floor_lot_greatest [of s "min n ?c"] by (simp add: takeable_def)
  then show ?thesis
    unfolding participation_start using assms by (intro passes_above) (simp_all add: takeable_def)
qed

subsection \<open>Pricing a fill\<close>

lemma walk_levels_bound:
  assumes "walk_levels ls rem cost m = (rem', cost', m')" and "0 \<le> rem" and "books_depth ls"
    and "\<forall>l \<in> set ls. val (lvl_price l) \<le> p"
  shows "0 \<le> rem' \<and> rem' \<le> rem \<and> cost' \<le> cost + p * (rem - rem') \<and>
    (\<forall>x. m' = Some x \<longrightarrow> m = Some x \<or> val x \<le> p)"
  using assms
proof (induction ls arbitrary: rem cost m)
  case (Cons l ls)
  show ?case
  proof (cases "rem \<le> 0")
    case False
    let ?t = "min rem (val (lvl_quantity l))"
    have t: "0 \<le> ?t" "0 \<le> rem - ?t" using False Cons.prems(3) by (auto simp: books_depth_def)
    have "val (lvl_price l) * ?t \<le> p * ?t" using t Cons.prems(4) by (intro mult_right_mono) simp_all
    moreover have "0 \<le> rem' \<and> rem' \<le> rem - ?t \<and> cost' \<le> cost + val (lvl_price l) * ?t + p * (rem - ?t - rem') \<and>
        (\<forall>x. m' = Some x \<longrightarrow> Some (lvl_price l) = Some x \<or> val x \<le> p)"
      using Cons.prems False t by (intro Cons.IH) (simp_all add: Let_def books_depth_def)
    ultimately show ?thesis using t Cons.prems(4) by (auto simp: algebra_simps)
  qed (use Cons.prems in auto)
qed auto

lemma walk_book_cost_bound:
  assumes "walk_book_cost asks n = Some (c, m)" and "0 \<le> n" and "books_depth asks" and "\<forall>l \<in> set asks. val (lvl_price l) \<le> p"
  shows "c \<le> p * n \<and> val m \<le> p"
proof -
  obtain rem' c' m' where w: "walk_levels asks n 0 None = (rem', c', m')" by (metis prod_cases3)
  from walk_levels_bound [OF w assms(2,3,4)] assms(1) w show ?thesis
    by (auto simp: walk_book_cost_def split: if_splits)
qed

lemma walk_book_cost_pos: "walk_book_cost asks n = Some r \<Longrightarrow> 0 < n"
proof (rule ccontr)
  assume w: "walk_book_cost asks n = Some r" and "\<not> 0 < n"
  then have "walk_levels asks n 0 None = (n, 0, None)" by (cases asks) simp_all
  with w show False by (simp add: walk_book_cost_def split: if_splits)
qed

lemma per_contract_ppm_Inr: "0 < n \<Longrightarrow> per_contract_ppm x n = Inr (ceil_div (x * 100) n)"
  by (simp add: per_contract_ppm_def divide_int_def selector_constants)

lemma edge_figures:
  assumes "compute_executable_edge book sz forecast fi slippage = Inr (Figures f)"
  obtains c m fee where "walk_book_cost (yes_asks book) (val sz) = Some (c, m)" "0 < val sz"
    "val (executable_price_pips f) = ceil_div c (val sz)" "executable_price_ppm f = ceil_div (c * 100) (val sz)"
    "0 < executable_price_ppm f" "0 < fr_forecast_horizon_hours forecast"
    "fee_micros fi (val (executable_price_pips f)) (val sz) = Inr fee"
    "net_edge_ppm f = fr_probability_ppm forecast - ceil_div (c * 100) (val sz) - ceil_div (fee * 100) (val sz)
       - sl_per_contract_buffer_ppm slippage"
    "val (executable_cost_micros f) = c" "marginal_price_pips f = m"
proof -
  from assms obtain c m where w: "walk_book_cost (yes_asks book) (val sz) = Some (c, m)"
    by (auto simp: compute_executable_edge_def split: option.splits)
  note n = walk_book_cost_pos [OF w]
  show ?thesis
    using assms n by (auto simp: compute_executable_edge_def w per_contract_ppm_Inr divide_int_def selector_constants
        is_annualizable_def res_bind_Inr_iff Let_def split: if_splits intro!: that [OF w n])
qed

text \<open>A net edge at or above a floor covers the price, the fee and the buffer of every contract.\<close>

lemma net_edge_covers:
  assumes "0 < n" and "q \<le> prob - ceil_div (c * 100) n - ceil_div (fee * 100) n - buffer"
  shows "100 * (c + fee) \<le> n * (prob - buffer - q)"
proof -
  have "c * 100 + fee * 100 \<le> n * ceil_div (c * 100) n + n * ceil_div (fee * 100) n"
    using cdiv.up_covers [OF assms(1), of "c * 100"] cdiv.up_covers [OF assms(1), of "fee * 100"] by linarith
  also have "\<dots> \<le> n * (prob - buffer - q)"
    using mult_left_mono [of "ceil_div (c * 100) n + ceil_div (fee * 100) n" "prob - buffer - q" n] assms
    by (simp add: algebra_simps)
  finally show ?thesis by (simp add: algebra_simps)
qed

subsection \<open>Clipping\<close>

lemma le_foldl_min: "(x :: int) \<le> foldl min a xs \<longleftrightarrow> x \<le> a \<and> (\<forall>y \<in> set xs. x \<le> y)"
  by (induction xs arbitrary: a) auto

lemma pct_ceiling_le: "1000000 * pct_ceiling_micros e ppm \<le> e * ppm"
  using cdiv.down_covered [of 1000000 "e * ppm"] by (simp add: pct_ceiling_micros_def divide_int_def selector_constants)

lemma headroom_room:
  assumes "headroom_cap_centis limit used (p * 100) = Inr h" and "0 < p" and "0 < n" and "n \<le> h"
  shows "used + p * n \<le> limit"
proof -
  have h: "h = floor_div (max 0 (limit - used) * 100) (p * 100)"
    using assms(1,2) by (simp add: headroom_cap_centis_def divide_int_def selector_constants)
  have "p * 100 * n \<le> p * 100 * h" using assms by simp
  also have "\<dots> \<le> max 0 (limit - used) * 100" unfolding h using assms(2) by (intro cdiv.down_covered) simp
  finally have "p * n \<le> max 0 (limit - used)" by simp
  moreover have "0 < p * n" using assms by simp
  ultimately show ?thesis by (simp add: max_def split: if_splits)
qed

lemma clip_size:
  assumes "notional_cap_limits positions risk price_ppm name = Inr caps"
    and "clip_to_caps raw price_ppm book risk positions name = Inr clip" and "val (cc_size clip) \<noteq> 0"
  shows "val (cc_size clip) = participation_fixed_point (foldl min (val raw) (map snd caps)) (yes_asks book) (rk_max_participation_ppm risk) True"
    and "100 \<le> val (cc_size clip)"
proof -
  let ?n = "participation_fixed_point (foldl min (val raw) (map snd caps)) (yes_asks book) (rk_max_participation_ppm risk) True"
  have "val (cc_size clip) = (if ?n < 100 then 0 else ?n)"
    using assms(2) unfolding clip_to_caps_def Let_def assms(1) res_bind_simps EXCHANGE_MIN_ORDER_CENTIS_def
    by (cases "?n < 100") auto
  with assms(3) show "val (cc_size clip) = ?n" "100 \<le> val (cc_size clip)" by (simp_all split: if_splits)
qed

lemma clip_within:
  assumes "clip_to_caps raw (p * 100) book risk positions name = Inr clip" and "val (cc_size clip) \<noteq> 0" and "0 < p"
  defines "n \<equiv> val (cc_size clip)" and "e \<equiv> val (pm_equity_micros positions)"
  shows "100 \<le> n" and "100 dvd n" and "n \<le> val raw"
    and "1000000 * (val (pm_market_exposure positions) + p * n) \<le> e * rk_max_pos_market_pct_ppm risk"
    and "1000000 * (val (pm_event_exposure positions) + p * n) \<le> e * rk_max_pos_event_pct_ppm risk"
    and "1000000 * (val (pm_bucket_exposure positions) + p * n) \<le> e * rk_max_pos_bucket_pct_ppm risk"
    and "val (pm_total_exposure positions) + p * n \<le> val (pm_total_deploy_cap_micros positions)"
    and "val (pm_notional_today positions) + p * n \<le> rk_max_notional_per_day_micros risk"
    and "1000000 * n \<le> rk_max_participation_ppm risk * depth_through_fill (yes_asks book) n"
proof -
  let ?cap = "\<lambda>pct used h. headroom_cap_centis (pct_ceiling_micros e pct) used (p * 100) = Inr h"
  let ?fp = "\<lambda>k. participation_fixed_point k (yes_asks book) (rk_max_participation_ppm risk) True"
  from assms(1) obtain h1 h2 h3 h4 h5 where
    h: "?cap (rk_max_pos_market_pct_ppm risk) (val (pm_market_exposure positions)) h1"
      "?cap (rk_max_pos_event_pct_ppm risk) (val (pm_event_exposure positions)) h2"
      "?cap (rk_max_pos_bucket_pct_ppm risk) (val (pm_bucket_exposure positions)) h3"
      "headroom_cap_centis (val (pm_total_deploy_cap_micros positions)) (val (pm_total_exposure positions)) (p * 100) = Inr h4"
      "headroom_cap_centis (rk_max_notional_per_day_micros risk) (val (pm_notional_today positions)) (p * 100) = Inr h5"
    and caps: "notional_cap_limits positions risk (p * 100) name =
      Inr [(''per_market'', h1), (''per_event'', h2), (name, h3), (''total_deployed'', h4), (''daily_notional'', h5)]"
    unfolding clip_to_caps_def Let_def notional_cap_limits_def e_def by (auto simp: res_bind_Inr_iff)
  let ?k = "foldl min (val raw) [h1, h2, h3, h4, h5]"
  have fin: "n = ?fp ?k" "100 \<le> n"
    using clip_size [OF caps assms(1,2)] unfolding n_def list.map snd_conv by blast+
  have t: "takeable ?k (yes_asks book) (rk_max_participation_ppm risk) True n"
    unfolding fin(1) by (rule fixed_point_takeable)
  then have "n \<le> ?k" by (simp add: takeable_def)
  then have k: "n \<le> val raw" "n \<le> h1" "n \<le> h2" "n \<le> h3" "n \<le> h4" "n \<le> h5" unfolding le_foldl_min by simp_all
  show n: "100 \<le> n" by (rule fin(2))
  then have pos: "0 < n" by simp
  show "100 dvd n" "n \<le> val raw" using t k by (simp_all add: takeable_def)
  have pct: "1000000 * (used + p * n) \<le> e * pct" if "?cap pct used h" "n \<le> h" for pct used h
    using headroom_room [OF that(1) assms(3) pos that(2)] pct_ceiling_le [of e pct] by simp
  show "1000000 * (val (pm_market_exposure positions) + p * n) \<le> e * rk_max_pos_market_pct_ppm risk" by (rule pct [OF h(1) k(2)])
  show "1000000 * (val (pm_event_exposure positions) + p * n) \<le> e * rk_max_pos_event_pct_ppm risk" by (rule pct [OF h(2) k(3)])
  show "1000000 * (val (pm_bucket_exposure positions) + p * n) \<le> e * rk_max_pos_bucket_pct_ppm risk" by (rule pct [OF h(3) k(4)])
  show "val (pm_total_exposure positions) + p * n \<le> val (pm_total_deploy_cap_micros positions)"
    by (rule headroom_room [OF h(4) assms(3) pos k(5)])
  show "val (pm_notional_today positions) + p * n \<le> rk_max_notional_per_day_micros risk"
    by (rule headroom_room [OF h(5) assms(3) pos k(6)])
  have "n \<le> participation_share (rk_max_participation_ppm risk) (depth_through_fill (yes_asks book) n) True"
    using t by (simp add: takeable_def)
  then show "1000000 * n \<le> rk_max_participation_ppm risk * depth_through_fill (yes_asks book) n"
    using participation_share_bound [of "rk_max_participation_ppm risk" "depth_through_fill (yes_asks book) n" True] by linarith
qed

subsection \<open>Buckets\<close>

lemma aggregate_max:
  fixes f :: "string \<Rightarrow> int"
  assumes "foldl (\<lambda>(t, b) x. if f x > t then (f x, Some x) else (t, b)) (t0, b0) xs = (t, b)"
  shows "t0 \<le> t \<and> (\<forall>x \<in> set xs. f x \<le> t) \<and> b = (if t = t0 then b0 else find (\<lambda>x. f x = t) xs)"
  using assms
proof (induction xs arbitrary: t0 b0)
  case (Cons x xs)
  show ?case
  proof (cases "f x > t0")
    case True
    then have "foldl (\<lambda>(t, b) x. if f x > t then (f x, Some x) else (t, b)) (f x, Some x) xs = (t, b)" using Cons.prems by simp
    from Cons.IH [OF this] True show ?thesis by auto
  next
    case False
    then have "foldl (\<lambda>(t, b) x. if f x > t then (f x, Some x) else (t, b)) (t0, b0) xs = (t, b)" using Cons.prems by simp
    from Cons.IH [OF this] False show ?thesis by auto
  qed
qed simp

lemma bucket_exposure_max:
  assumes "aggregate_bucket_exposure targets peers = (t, b)"
  shows "0 \<le> t" and "\<forall>x \<in> set targets. bucket_total peers x \<le> t"
    and "b = (if t = 0 then None else find (\<lambda>x. bucket_total peers x = t) (sort targets))"
  using aggregate_max [of "bucket_total peers" 0 None "sort targets" t b] assms
  by (simp_all add: aggregate_bucket_exposure_def)

subsection \<open>From the inputs to an intent\<close>

definition risk_of :: "SelectorInputs \<Rightarrow> RiskConfig" where "risk_of inp = rc_config (si_risk_config inp)"

lemma style_cases:
  assumes "decide_execution_style inp sz = Inr st" and "0 < val sz"
  obtains (cross) "st = cross_decision"
  | (rest) bid bids ask asks rest fee where "yes_bids (si_order_book inp) = bid # bids" "yes_asks (si_order_book inp) = ask # asks"
      "rest = val (lvl_price bid) + 100" "rest + 200 \<le> val (lvl_price ask)"
      "rk_min_open_price_pips (risk_of inp) \<le> rest" "rest \<le> rk_max_open_price_pips (risk_of inp)"
      "fee_micros (si_fee_model inp) rest (val sz) = Inr fee"
      "rk_min_net_edge_ppm (risk_of inp) \<le> fr_probability_ppm (si_forecast inp) - ceil_div (rest * val sz * 100) (val sz)
         - ceil_div (fee * 100) (val sz) - sl_per_contract_buffer_ppm (si_slippage_model inp)"
      "st = \<lparr>xs_style = ''rest_inside_spread'', xs_resting_price_pips = Some (IntUnit rest),
         xs_resting_ttl_seconds = Some (rk_resting_order_ttl_seconds (risk_of inp)),
         xs_cancel_on_move_ticks = Some (rk_cancel_on_move_ticks (risk_of inp))\<rparr>"
proof (cases "st = cross_decision")
  case False
  with assms(1) obtain bid bids ask asks where b: "yes_bids (si_order_book inp) = bid # bids" "yes_asks (si_order_book inp) = ask # asks"
    by (auto simp: decide_execution_style_def split: list.splits)
  have exact: "ceil_div (rest * val sz * 100) (val sz) = rest * 100" for rest
    using assms(2) ceil_div_dvd [of "val sz" "rest * val sz * 100"] by simp
  show ?thesis
    using assms False b
    by (auto simp: decide_execution_style_def Let_def spread_pips_def net_edge_at_price_ppm_def per_contract_ppm_Inr res_bind_Inr_iff
        WIDE_SPREAD_MIN_PIPS_def REST_IMPROVEMENT_PIPS_def PPM_PER_PIP_def exact risk_of_def split: if_splits
        intro!: that(2) [OF b refl])
qed

lemma build_intent_fields:
  assumes "build_intent sha inp fig sz st = Inr i"
  shows "price_and_notional inp fig sz st = Inr (price i, max_notional i)" and "order_size i = sz"
    and "execution_style i = xs_style st" and "action i = ACTION_BUY" and "intent_outcome i = OUTCOME_YES"
    and "market_ticker i = fr_market_ticker (si_forecast inp)"
    and "idempotency_key i = open_idempotency_key sha (fr_forecast_id (si_forecast inp)) (fr_market_ticker (si_forecast inp)) (val (price i)) (val sz)"
  using assms by (auto simp: build_intent_def Let_def res_bind_Inr_iff SelectorOrderIntent_new_def split: if_splits)

definition sizing_positions :: "SelectorInputs \<Rightarrow> PositionReadModelInput" where
  "sizing_positions inp = (si_positions inp)\<lparr>pm_bucket_exposure :=
     IntUnit (fst (aggregate_bucket_exposure (effective_buckets (si_correlation_tags inp)) (si_bucket_peers inp)))\<rparr>"

abbreviation price_fill :: "SelectorInputs \<Rightarrow> ContractCentis \<Rightarrow> num_error + edge_result" where
  "price_fill inp sz \<equiv> compute_executable_edge (si_order_book inp) sz (si_forecast inp) (si_fee_model inp) (si_slippage_model inp)"

lemma select_emits:
  assumes "select sha inp = Inr d" and "i \<in> set (sd_intents d)"
  obtains probe raw clip fig st name where "price_fill inp PROBE_SIZE_CENTIS = Inr (Figures probe)"
    "list_all ec_passed (evaluate_entry_conditions inp probe)"
    "clip_to_caps raw (cap_reference_price_ppm (si_order_book inp)) (si_order_book inp) (risk_of inp) (sizing_positions inp) name = Inr clip"
    "val (cc_size clip) \<noteq> 0" "price_fill inp (cc_size clip) = Inr (Figures fig)"
    "rk_min_net_edge_ppm (risk_of inp) \<le> net_edge_ppm fig" "decide_execution_style inp (cc_size clip) = Inr st"
    "build_intent sha inp fig (cc_size clip) st = Inr i" "sd_intents d = [i]"
proof -
  from assms(1) obtain r where r: "price_fill inp PROBE_SIZE_CENTIS = Inr r" by (auto simp: select_def res_bind_Inr_iff)
  have "\<exists>probe. r = Figures probe \<and> list_all ec_passed (evaluate_entry_conditions inp probe) \<and>
      size_and_emit sha inp probe (map render_check (evaluate_entry_conditions inp probe)) = Inr d"
    using assms by (cases r) (auto simp: select_def r sel_decision_def Let_def split: if_splits)
  then obtain probe where probe: "price_fill inp PROBE_SIZE_CENTIS = Inr (Figures probe)"
    and passed: "list_all ec_passed (evaluate_entry_conditions inp probe)"
    and emit: "size_and_emit sha inp probe (map render_check (evaluate_entry_conditions inp probe)) = Inr d" using r by blast
  obtain t b where agg: "aggregate_bucket_exposure (effective_buckets (si_correlation_tags inp)) (si_bucket_peers inp) = (t, b)"
    by (metis surj_pair)
  have pos: "(si_positions inp)\<lparr>pm_bucket_exposure := IntUnit t\<rparr> = sizing_positions inp"
    by (simp add: sizing_positions_def agg)
  define name where "name = (case b of None \<Rightarrow> ''per_bucket'' | Some b \<Rightarrow> ''per_bucket:'' @ b)"
  note emit = emit [unfolded size_and_emit_def Let_def agg prod.case pos risk_of_def [symmetric] name_def [symmetric]]
  from emit obtain raw clip g where clip: "clip_to_caps raw (cap_reference_price_ppm (si_order_book inp)) (si_order_book inp)
      (risk_of inp) (sizing_positions inp) name = Inr clip" and
    rest: "(if val (cc_size clip) = 0 then Inr (sel_decision inp [] (map render_check (evaluate_entry_conditions inp probe) @ [sizing_reason raw g clip]))
      else res_bind (price_fill inp (cc_size clip)) (\<lambda>final. case final of
          Shallow r \<Rightarrow> Inr (sel_decision inp [] (map render_check (evaluate_entry_conditions inp probe) @ [insufficient_reason r]))
        | NoReturn r \<Rightarrow> Inr (sel_decision inp [] (map render_check (evaluate_entry_conditions inp probe) @ [non_annualizable_reason r]))
        | Figures fig \<Rightarrow>
            (if net_edge_ppm fig < rk_min_net_edge_ppm (risk_of inp) then
               Inr (sel_decision inp [] (map render_check (evaluate_entry_conditions inp probe) @ [''fail:net_edge_at_final_size: net_edge_ppm='' @ show_int (net_edge_ppm fig) @
                 '' min_net_edge_ppm='' @ show_int (rk_min_net_edge_ppm (risk_of inp))]))
             else res_bind (decide_execution_style inp (cc_size clip)) (\<lambda>style.
               res_bind (build_intent sha inp fig (cc_size clip) style) (\<lambda>intent.
                 Inr (sel_decision inp [intent] (map render_check (evaluate_entry_conditions inp probe) @ [sizing_reason raw g clip]))))))) = Inr d"
    unfolding res_bind_Inr_iff by blast
  have nz: "val (cc_size clip) \<noteq> 0" using rest assms(2) by (auto simp: sel_decision_def)
  with rest obtain r2 where r2: "price_fill inp (cc_size clip) = Inr r2" by (auto simp: res_bind_Inr_iff)
  have "\<exists>fig st. r2 = Figures fig \<and> rk_min_net_edge_ppm (risk_of inp) \<le> net_edge_ppm fig \<and>
      decide_execution_style inp (cc_size clip) = Inr st \<and> build_intent sha inp fig (cc_size clip) st = Inr i \<and> sd_intents d = [i]"
    using rest nz assms(2) by (cases r2) (auto simp: r2 sel_decision_def res_bind_Inr_iff split: if_splits)
  then show ?thesis using that [OF probe passed clip nz] r2 by blast
qed

lemma sorted_last_max: "sorted (map f xs) \<Longrightarrow> x \<in> set xs \<Longrightarrow> f x \<le> f (last xs)"
  by (induction xs) (use last_in_set in force)+

lemma cap_price_pos:
  assumes "price_fill inp sz = Inr (Figures fig)" and "books_depth (yes_asks (si_order_book inp))"
    and "sorted (map (\<lambda>l. val (lvl_price l)) (yes_asks (si_order_book inp)))"
  defines "p \<equiv> val (lvl_price (last (yes_asks (si_order_book inp))))"
  shows "0 < p" and "\<forall>l \<in> set (yes_asks (si_order_book inp)). val (lvl_price l) \<le> p"
    and "yes_asks (si_order_book inp) \<noteq> []"
proof -
  let ?asks = "yes_asks (si_order_book inp)"
  obtain c m where w: "walk_book_cost ?asks (val sz) = Some (c, m)" "0 < val sz" "executable_price_ppm fig = ceil_div (c * 100) (val sz)"
    "0 < executable_price_ppm fig" by (rule edge_figures [OF assms(1)])
  show ne: "?asks \<noteq> []" using w(1,2) by (auto simp: walk_book_cost_def)
  show le: "\<forall>l \<in> set ?asks. val (lvl_price l) \<le> p"
    unfolding p_def using sorted_last_max [OF assms(3)] by blast
  show "0 < p"
  proof (rule ccontr)
    assume "\<not> 0 < p"
    then have "p * val sz \<le> 0" using w(2) by (simp add: mult_nonpos_nonneg)
    then have "c \<le> 0" using walk_book_cost_bound [OF w(1) _ assms(2) le] w(2) by linarith
    then have "ceil_div (c * 100) (val sz) \<le> 0" using w(2) by (intro cdiv.up_least) simp_all
    with w(3,4) show False by simp
  qed
qed

subsection \<open>Nothing raises on a well-formed book\<close>

definition book_ok :: "OrderBookSnapshot \<Rightarrow> bool" where
  "book_ok book = (books_depth (yes_asks book) \<and> sorted (map (\<lambda>l. val (lvl_price l)) (yes_asks book)) \<and>
     list_all (\<lambda>l. 0 \<le> val (lvl_price l) \<and> val (lvl_price l) \<le> MAX_PRICE_PIPS) (yes_asks book @ yes_bids book))"

lemma fee_micros_ok: "0 \<le> p \<Longrightarrow> p \<le> 10000 \<Longrightarrow> 0 < n \<Longrightarrow> \<exists>fee. fee_micros fi p n = Inr fee"
  by (simp add: fee_micros_def max_trading_fee_micros_def max_settlement_fee_micros_def require_price_pips_def
      require_positive_count_def require_non_bool_int_def fee_constants divide_int_def TRADING_CENT_DENOMINATOR_def
      SETTLEMENT_CENT_DENOMINATOR_def FEE_ROUNDING_def Let_def)

lemma walk_levels_nonneg:
  assumes "walk_levels ls rem cost m = (rem', cost', m')" and "books_depth ls" and "\<forall>l \<in> set ls. 0 \<le> val (lvl_price l)"
  shows "cost \<le> cost'"
  using assms
proof (induction ls arbitrary: rem cost m)
  case (Cons l ls)
  show ?case
  proof (cases "rem \<le> 0")
    case False
    let ?t = "min rem (val (lvl_quantity l))"
    have "walk_levels ls (rem - ?t) (cost + val (lvl_price l) * ?t) (Some (lvl_price l)) = (rem', cost', m')"
      using Cons.prems(1) False by (simp add: Let_def)
    then have "cost + val (lvl_price l) * ?t \<le> cost'" using Cons.prems(2,3) by (intro Cons.IH) (simp_all add: books_depth_def)
    moreover have "0 \<le> val (lvl_price l) * ?t" using False Cons.prems(2,3) by (simp add: books_depth_def)
    ultimately show ?thesis by linarith
  qed (use Cons.prems in simp)
qed simp

lemma price_fill_ok:
  assumes "book_ok (si_order_book inp)"
  shows "\<exists>r. price_fill inp sz = Inr r \<and> (\<forall>fig. r = Figures fig \<longrightarrow> 0 \<le> val (executable_price_pips fig) \<and> val (executable_price_pips fig) \<le> 10000)"
proof (cases "walk_book_cost (yes_asks (si_order_book inp)) (val sz)")
  case (Some cm)
  obtain c m where cm: "cm = (c, m)" by (cases cm)
  have n: "0 < val sz" by (rule walk_book_cost_pos [OF Some])
  have asks: "books_depth (yes_asks (si_order_book inp))" "\<forall>l \<in> set (yes_asks (si_order_book inp)). val (lvl_price l) \<le> 10000"
    "\<forall>l \<in> set (yes_asks (si_order_book inp)). 0 \<le> val (lvl_price l)"
    using assms by (auto simp: book_ok_def list_all_iff fee_constants)
  have "c \<le> 10000 * val sz" using walk_book_cost_bound [OF Some [unfolded cm] _ asks(1,2)] n by simp
  moreover obtain rem' c' m' where w: "walk_levels (yes_asks (si_order_book inp)) (val sz) 0 None = (rem', c', m')" by (metis prod_cases3)
  then have "0 \<le> c" using walk_levels_nonneg [OF w asks(1,3)] Some cm by (simp add: walk_book_cost_def split: if_splits)
  ultimately have price: "0 \<le> ceil_div c (val sz)" "ceil_div c (val sz) \<le> 10000"
    using n by (simp_all add: cdiv.up_nonneg cdiv.up_least mult.commute)
  obtain fee where fee: "fee_micros (si_fee_model inp) (ceil_div c (val sz)) (val sz) = Inr fee" using fee_micros_ok [OF price n] by blast
  show ?thesis
    using n price by (simp add: compute_executable_edge_def Some cm per_contract_ppm_Inr divide_int_def selector_constants fee
        annualize_def is_annualizable_def Let_def)
qed (simp add: compute_executable_edge_def)

lemma dispersion_scale_ok: "\<exists>g. dispersion_scale d c = Inr g"
  by (simp add: dispersion_scale_def divide_int_def selector_constants)

lemma kelly_size_ok: "\<exists>k. kelly_size e me p kf g cap = Inr k"
  by (simp add: kelly_size_def divide_int_def selector_constants Let_def)

lemma clip_ok:
  assumes "0 < p"
  shows "\<exists>clip. clip_to_caps raw p book risk positions name = Inr clip"
proof -
  obtain caps where caps: "notional_cap_limits positions risk p name = Inr caps"
    using assms by (simp add: notional_cap_limits_def headroom_cap_centis_def divide_int_def Let_def SZ_ROUNDING_def)
  show ?thesis unfolding clip_to_caps_def Let_def caps res_bind_simps if_distrib [of Inr, symmetric] by blast
qed

lemma style_ok:
  assumes "book_ok (si_order_book inp)" and "0 < val sz"
  shows "\<exists>st. decide_execution_style inp sz = Inr st"
proof (cases "yes_bids (si_order_book inp)")
  case (Cons bid bids)
  show ?thesis
  proof (cases "yes_asks (si_order_book inp)")
    case (Cons ask asks)
    let ?rest = "val (lvl_price bid) + 100"
    have b: "0 \<le> val (lvl_price bid)" "val (lvl_price ask) \<le> 10000"
      using assms(1) Cons \<open>yes_bids _ = _\<close> by (simp_all add: book_ok_def fee_constants)
    have "\<exists>fee. fee_micros (si_fee_model inp) ?rest (val sz) = Inr fee" if "\<not> val (lvl_price ask) - val (lvl_price bid) < 300"
      using that b by (intro fee_micros_ok assms(2)) linarith+
    then show ?thesis
      using \<open>yes_bids _ = _\<close> Cons per_contract_ppm_Inr [OF assms(2)]
      by (cases "val (lvl_price ask) - val (lvl_price bid) < 300")
        (auto simp: decide_execution_style_def Let_def spread_pips_def net_edge_at_price_ppm_def WIDE_SPREAD_MIN_PIPS_def REST_IMPROVEMENT_PIPS_def)
  qed (simp add: decide_execution_style_def Cons)
qed (simp add: decide_execution_style_def)

lemma build_ok:
  assumes "book_ok (si_order_book inp)" and "decide_execution_style inp sz = Inr st" and "price_fill inp sz = Inr (Figures fig)"
  shows "\<exists>i. build_intent sha inp fig sz st = Inr i"
proof -
  have n: "0 < val sz" by (rule edge_figures [OF assms(3)])
  obtain fee where fee: "fee_micros (si_fee_model inp) (val (executable_price_pips fig)) (val sz) = Inr fee"
    by (rule edge_figures [OF assms(3)])
  from assms(2) n show ?thesis
    by (cases rule: style_cases)
      (simp_all add: build_intent_def price_and_notional_def cross_decision_def SelectorOrderIntent_new_def Let_def fee)
qed

lemma size_and_emit_total:
  assumes "book_ok (si_order_book inp)" and "price_fill inp PROBE_SIZE_CENTIS = Inr (Figures probe)"
  shows "\<exists>d. size_and_emit sha inp probe why = Inr d \<and> sd_reasons d \<noteq> [] \<and> length (sd_intents d) \<le> 1 \<and>
    sd_forecast_id d = fr_forecast_id (si_forecast inp)"
proof -
  have p: "0 < cap_reference_price_ppm (si_order_book inp)"
    using cap_price_pos(1) [OF assms(2)] assms(1)
    by (simp add: book_ok_def cap_reference_price_ppm_def PPM_PER_PIP_def)
  obtain t b where agg: "aggregate_bucket_exposure (effective_buckets (si_correlation_tags inp)) (si_bucket_peers inp) = (t, b)"
    by (metis surj_pair)
  define name where "name = (case b of None \<Rightarrow> ''per_bucket'' | Some b \<Rightarrow> ''per_bucket:'' @ b)"
  obtain g where g: "dispersion_scale (fr_vote_dispersion_ppm (si_forecast inp)) (rk_dispersion_zero_ceiling_ppm (rc_config (si_risk_config inp))) = Inr g"
    using dispersion_scale_ok by blast
  obtain raw where raw: "kelly_size (net_edge_ppm probe) (rk_min_net_edge_ppm (rc_config (si_risk_config inp))) (executable_price_ppm probe)
      (rk_kelly_fraction_ppm (rc_config (si_risk_config inp))) g (pm_above_floor_capital_micros (si_positions inp)) = Inr raw"
    using kelly_size_ok by blast
  obtain clip where clip: "clip_to_caps raw (cap_reference_price_ppm (si_order_book inp)) (si_order_book inp) (rc_config (si_risk_config inp))
      ((si_positions inp)\<lparr>pm_bucket_exposure := IntUnit t\<rparr>) name = Inr clip" using clip_ok [OF p] by blast
  obtain r2 where r2: "price_fill inp (cc_size clip) = Inr r2" using price_fill_ok [OF assms(1)] by blast
  note steps = size_and_emit_def Let_def agg prod.case name_def [symmetric] g raw clip res_bind_simps r2
  show ?thesis
  proof (cases r2)
    case (Figures fig)
    have n: "0 < val (cc_size clip)" by (rule edge_figures [OF r2 [unfolded Figures]])
    obtain st where st: "decide_execution_style inp (cc_size clip) = Inr st" using style_ok [OF assms(1) n] by blast
    obtain i where i: "build_intent sha inp fig (cc_size clip) st = Inr i" using build_ok [OF assms(1) st r2 [unfolded Figures]] by blast
    show ?thesis unfolding steps Figures edge_result.case st i by (simp add: sel_decision_def)
  qed (unfold steps edge_result.case, simp_all add: sel_decision_def)
qed

subsection \<open>Texts\<close>

lemma payload_canon_eq:
  assumes "dict_wf a" and "dict_wf b"
  shows "json_canon (JObj a) = json_canon (JObj b) \<longleftrightarrow>
    (\<forall>k. map_option json_canon (dict_get a k) = map_option json_canon (dict_get b k))"
  using canonical_json_eq_iff [OF assms] canonical_json_canon [of a b] by (auto simp: canonical_json_def)

lemma intent_payload_wf: "dict_wf (sel_intent_to_payload i)"
  by (simp add: sel_intent_to_payload_def dict_wf_def)

lemma json_of_int_option_inj: "json_canon (json_of_int_option x) = json_canon (json_of_int_option y) \<longleftrightarrow> x = y"
  by (cases x; cases y) (simp_all add: json_of_int_option_def)

lemma intent_payload_inj:
  assumes "json_canon (JObj (sel_intent_to_payload i)) = json_canon (JObj (sel_intent_to_payload j))"
  shows "i = j"
proof -
  have get: "map_option json_canon (dict_get (sel_intent_to_payload i) k) = map_option json_canon (dict_get (sel_intent_to_payload j) k)" for k
    using assms payload_canon_eq [OF intent_payload_wf intent_payload_wf] by blast
  show ?thesis
    using get [of "''intent_id''"] get [of "''market_ticker''"] get [of "''outcome''"] get [of "''action''"] get [of "''price''"]
      get [of "''size''"] get [of "''max_notional''"] get [of "''implied_probability''"] get [of "''idempotency_key''"]
      get [of "''execution_style''"] get [of "''resting_ttl_seconds''"] get [of "''cancel_on_move_ticks''"]
    by (intro SelectorOrderIntent.equality OrderIntent.equality)
      (simp_all add: sel_intent_to_payload_def dict_get_def json_of_int_option_inj unit_eq_iff)
qed

lemma open_fields_inj:
  assumes "canonical_json (intent_fields f t p n) = canonical_json (intent_fields f' t' p' n')"
  shows "f = f' \<and> t = t' \<and> p = p' \<and> n = n'"
proof -
  have get: "map_option json_canon (dict_get (intent_fields f t p n) k) = map_option json_canon (dict_get (intent_fields f' t' p' n') k)" for k
    using assms canonical_json_eq_iff [of "intent_fields f t p n" "intent_fields f' t' p' n'"]
    by (simp add: intent_fields_def dict_wf_def)
  show ?thesis using get [of "''forecast_id''"] get [of "''market_ticker''"] get [of "''price''"] get [of "''size''"]
    by (simp add: intent_fields_def dict_get_def)
qed

lemma close_fields_inj:
  assumes "canonical_json (close_fields g t p n) = canonical_json (close_fields g' t' p' n')"
  shows "g = g' \<and> t = t' \<and> p = p' \<and> n = n'"
proof -
  have get: "map_option json_canon (dict_get (close_fields g t p n) k) = map_option json_canon (dict_get (close_fields g' t' p' n') k)" for k
    using assms canonical_json_eq_iff [of "close_fields g t p n" "close_fields g' t' p' n'"]
    by (simp add: close_fields_def dict_wf_def)
  have "close_trigger_value g = close_trigger_value g'" using get [of "''trigger''"] by (simp add: close_fields_def dict_get_def)
  then have "g = g'" by (cases g; cases g') simp_all
  then show ?thesis using get [of "''market_ticker''"] get [of "''price''"] get [of "''size''"]
    by (simp add: close_fields_def dict_get_def)
qed

lemma open_close_differ: "canonical_json (intent_fields f t p n) \<noteq> canonical_json (close_fields g t' p' n')"
proof
  assume "canonical_json (intent_fields f t p n) = canonical_json (close_fields g t' p' n')"
  then have "map_option json_canon (dict_get (intent_fields f t p n) ''trigger'') = map_option json_canon (dict_get (close_fields g t' p' n') ''trigger'')"
    by (subst (asm) canonical_json_eq_iff) (simp_all add: intent_fields_def close_fields_def dict_wf_def)
  then show False by (simp add: intent_fields_def close_fields_def dict_get_def)
qed

section \<open>A sample\<close>

definition sample_forecast :: ForecastRecord where
  "sample_forecast = \<lparr>fr_forecast_id = ''f1'', fr_market_ticker = ''KX'', fr_normalized_question_hash = ''h'', fr_probability_ppm = 600000,
     fr_ci_low_ppm = 550000, fr_ci_high_ppm = 650000, fr_model_votes = [], fr_vote_dispersion_ppm = 50000,
     fr_rationale_markdown = [],
     fr_citations = [\<lparr>ci_url = ''u'', ci_content_hash = ''c'', ci_quoted_text = ''q'', ci_publication_date = None, ci_source_type = ''news''\<rparr>],
     fr_source_quality_notes = [], fr_research_cost_micros = 3000000, fr_triage_stage = ''full'', fr_created_at = 1000000000,
     fr_forecast_horizon_hours = 240, fr_market_price_baseline_pips = 4000, fr_baseline_quote_snapshot_id = ''s'',
     fr_coherence_group_sum_ppm = None, fr_coherence_flag = False, fr_abstention_reason = None, fr_eligible_for_live = True\<rparr>"

definition sample_selector_book :: OrderBookSnapshot where
  "sample_selector_book = \<lparr>ob_ticker = ''KX'', yes_bids = [\<lparr>lvl_price = IntUnit 3950, lvl_quantity = IntUnit 9000\<rparr>],
     yes_asks = [\<lparr>lvl_price = IntUnit 4000, lvl_quantity = IntUnit 30000\<rparr>, \<lparr>lvl_price = IntUnit 4200, lvl_quantity = IntUnit 90000\<rparr>],
     ob_fetched_at = 1000000000\<rparr>"

definition sample_tag :: CorrelationTag where
  "sample_tag = \<lparr>ct_bucket_id = ''weather'', ct_source = ''human'', ct_tagged_at = 0\<rparr>"

definition sample_inputs :: SelectorInputs where
  "sample_inputs = \<lparr>si_forecast = sample_forecast, si_calibration_map_version = ''v1'', si_order_book = sample_selector_book,
     si_fee_model = \<lparr>fi_model = \<lparr>schedule_id = ''k'', maker_fee_ppm = 17500, taker_fee_ppm = 70000, settlement_fee_ppm = 0\<rparr>, fi_as_of = 1000000000\<rparr>,
     si_slippage_model = \<lparr>sl_model_id = ''m'', sl_per_contract_buffer_ppm = 5000\<rparr>,
     si_positions = \<lparr>pm_snapshot_id = ''p'', pm_equity_micros = IntUnit 10000000000, pm_above_floor_capital_micros = IntUnit 8000000000,
       pm_total_deploy_cap_micros = IntUnit 5000000000, pm_market_exposure = IntUnit 50000000, pm_event_exposure = IntUnit 50000000,
       pm_bucket_exposure = IntUnit 0, pm_total_exposure = IntUnit 100000000, pm_notional_today = IntUnit 0\<rparr>,
     si_risk_config = \<lparr>rc_config = RiskConfig_default, rc_config_hash = ''h''\<rparr>,
     si_correlation_tags = [sample_tag],
     si_bucket_peers = [\<lparr>be_market_ticker = ''KY'', be_exposure_micros = IntUnit 900000000, be_tags = [sample_tag]\<rparr>]\<rparr>"

lemma select_runs:
  assumes "price_fill inp PROBE_SIZE_CENTIS = Inr (Figures probe)" and "list_all ec_passed (evaluate_entry_conditions inp probe)"
    and "aggregate_bucket_exposure (effective_buckets (si_correlation_tags inp)) (si_bucket_peers inp) = (t, Some b)"
    and "dispersion_scale (fr_vote_dispersion_ppm (si_forecast inp)) (rk_dispersion_zero_ceiling_ppm (risk_of inp)) = Inr g"
    and "kelly_size (net_edge_ppm probe) (rk_min_net_edge_ppm (risk_of inp)) (executable_price_ppm probe)
      (rk_kelly_fraction_ppm (risk_of inp)) g (pm_above_floor_capital_micros (si_positions inp)) = Inr raw"
    and "clip_to_caps raw (cap_reference_price_ppm (si_order_book inp)) (si_order_book inp) (risk_of inp)
      ((si_positions inp)\<lparr>pm_bucket_exposure := IntUnit t\<rparr>) (''per_bucket:'' @ b) = Inr clip"
    and "val (cc_size clip) \<noteq> 0" and "price_fill inp (cc_size clip) = Inr (Figures fig)"
    and "rk_min_net_edge_ppm (risk_of inp) \<le> net_edge_ppm fig" and "decide_execution_style inp (cc_size clip) = Inr cross_decision"
    and "price_and_notional inp fig (cc_size clip) cross_decision = Inr (p, m)"
  shows "\<exists>d i. select sha inp = Inr d \<and> sd_intents d = [i] \<and> order_size i = cc_size clip \<and> price i = p \<and> max_notional i = m"
proof -
  have cross: "xs_style cross_decision = ''cross''" "xs_resting_ttl_seconds cross_decision = None" "xs_cancel_on_move_ticks cross_decision = None"
    by (simp_all add: cross_decision_def)
  obtain i where i: "build_intent sha inp fig (cc_size clip) cross_decision = Inr i" "order_size i = cc_size clip" "price i = p" "max_notional i = m"
    by (simp add: build_intent_def assms(11) SelectorOrderIntent_new_def Let_def cross)
  note steps = assms(3-6) [unfolded risk_of_def]
  show ?thesis
    unfolding select_def assms(1) res_bind_simps edge_result.case Let_def size_and_emit_def prod.case option.case steps
    using assms(2,7,9) by (simp add: assms(8,10) i sel_decision_def risk_of_def)
qed

lemmas entry_check_defs = evaluate_entry_conditions_def Let_def net_edge_min_def annualized_hurdle_def ci_straddles_executable_price_def
  quote_snapshot_fresh_def forecast_fresh_def fee_model_current_def market_coherent_def citation_support_def
  jurisdiction_eligible_def category_eligible_def price_within_bands_def forecast_live_eligible_def reference_instant_def

lemma sample_selected:
  "\<exists>d i. select sha sample_inputs = Inr d \<and> sd_intents d = [i] \<and> order_size i = IntUnit 7500 \<and> price i = IntUnit 4000 \<and>
     max_notional i = IntUnit 31260000"
proof -
  let ?probe = "\<lparr>gross_edge_ppm = 200000, fee_adjusted_edge_ppm = 180000, net_edge_ppm = 175000, annualized_expected_return_ppm = 15968750,
    executable_price_ppm = 400000, executable_price_pips = IntUnit 4000, executable_cost_micros = IntUnit 400000, marginal_price_pips = IntUnit 4000\<rparr>"
  let ?fig = "\<lparr>gross_edge_ppm = 200000, fee_adjusted_edge_ppm = 183200, net_edge_ppm = 178200, annualized_expected_return_ppm = 16260750,
    executable_price_ppm = 400000, executable_price_pips = IntUnit 4000, executable_cost_micros = IntUnit 30000000, marginal_price_pips = IntUnit 4000\<rparr>"
  let ?clip = "\<lparr>cc_size = IntUnit 7500, cc_binding_cap = Some ''participation''\<rparr>"
  have probe: "price_fill sample_inputs PROBE_SIZE_CENTIS = Inr (Figures ?probe)" by code_simp
  have checks: "list_all ec_passed (evaluate_entry_conditions sample_inputs ?probe)"
    by (simp add: entry_check_defs sample_inputs_def sample_forecast_def sample_selector_book_def RiskConfig_default_def FEE_MODEL_TTL_def)
  have sized: "aggregate_bucket_exposure (effective_buckets (si_correlation_tags sample_inputs)) (si_bucket_peers sample_inputs) = (900000000, Some ''weather'')"
    "dispersion_scale (fr_vote_dispersion_ppm (si_forecast sample_inputs)) (rk_dispersion_zero_ceiling_ppm (risk_of sample_inputs)) = Inr 750000"
    "kelly_size (net_edge_ppm ?probe) (rk_min_net_edge_ppm (risk_of sample_inputs)) (executable_price_ppm ?probe)
      (rk_kelly_fraction_ppm (risk_of sample_inputs)) 750000 (pm_above_floor_capital_micros (si_positions sample_inputs)) = Inr (IntUnit 43750)"
    "clip_to_caps (IntUnit 43750) (cap_reference_price_ppm (si_order_book sample_inputs)) (si_order_book sample_inputs) (risk_of sample_inputs)
      ((si_positions sample_inputs)\<lparr>pm_bucket_exposure := IntUnit 900000000\<rparr>) (''per_bucket:'' @ ''weather'') = Inr ?clip"
    "val (cc_size ?clip) \<noteq> 0" by code_simp+
  have priced: "price_fill sample_inputs (cc_size ?clip) = Inr (Figures ?fig)" "rk_min_net_edge_ppm (risk_of sample_inputs) \<le> net_edge_ppm ?fig"
    "decide_execution_style sample_inputs (cc_size ?clip) = Inr cross_decision"
    "price_and_notional sample_inputs ?fig (cc_size ?clip) cross_decision = Inr (IntUnit 4000, IntUnit 31260000)" by code_simp+
  from select_runs [OF probe checks sized priced, of sha] show ?thesis by simp
qed

section \<open>Properties\<close>

text \<open>C11. What the selector emits is within every cap it was given. The one intent a decision may carry has a whole number of
  contracts, and even if each of them is paid at the dearest resting ask, the exposure to the market, to its event, to
  every bucket it belongs to, the capital deployed and the day's notional stay within their limits; it takes at most
  its share of the depth at or better than its own marginal level; the walk of the book to that size pays no more than
  the dearest ask, and the price asked is no higher.\<close>

theorem selected_within_caps:
  assumes "select sha inp = Inr d" and "i \<in> set (sd_intents d)" and "books_depth (yes_asks (si_order_book inp))"
    and "sorted (map (\<lambda>l. val (lvl_price l)) (yes_asks (si_order_book inp)))"
    and "p = val (lvl_price (last (yes_asks (si_order_book inp))))" and "n = val (order_size i)"
    and "pos = si_positions inp" and "risk = rc_config (si_risk_config inp)"
  shows "sd_intents d = [i] \<and> 100 \<le> n \<and> 100 dvd n \<and>
    1000000 * (val (pm_market_exposure pos) + p * n) \<le> val (pm_equity_micros pos) * rk_max_pos_market_pct_ppm risk \<and>
    1000000 * (val (pm_event_exposure pos) + p * n) \<le> val (pm_equity_micros pos) * rk_max_pos_event_pct_ppm risk \<and>
    (\<forall>b \<in> set (effective_buckets (si_correlation_tags inp)).
       1000000 * (bucket_total (si_bucket_peers inp) b + p * n) \<le> val (pm_equity_micros pos) * rk_max_pos_bucket_pct_ppm risk) \<and>
    val (pm_total_exposure pos) + p * n \<le> val (pm_total_deploy_cap_micros pos) \<and>
    val (pm_notional_today pos) + p * n \<le> rk_max_notional_per_day_micros risk \<and>
    1000000 * n \<le> rk_max_participation_ppm risk * depth_through_fill (yes_asks (si_order_book inp)) n \<and>
    (\<exists>c m. walk_book_cost (yes_asks (si_order_book inp)) n = Some (c, m) \<and> c \<le> p * n) \<and> val (price i) \<le> p"
proof -
  obtain raw clip fig st name where
    clip: "clip_to_caps raw (cap_reference_price_ppm (si_order_book inp)) (si_order_book inp) (risk_of inp) (sizing_positions inp) name = Inr clip"
      "val (cc_size clip) \<noteq> 0" and
    fig: "price_fill inp (cc_size clip) = Inr (Figures fig)" and st: "decide_execution_style inp (cc_size clip) = Inr st" and
    i: "build_intent sha inp fig (cc_size clip) st = Inr i" "sd_intents d = [i]" by (rule select_emits [OF assms(1,2)])
  note p = cap_price_pos [OF fig assms(3,4), folded assms(5)]
  have n: "val (cc_size clip) = n" using build_intent_fields(2) [OF i(1)] assms(6) by simp
  have cap: "cap_reference_price_ppm (si_order_book inp) = p * 100" by (simp add: cap_reference_price_ppm_def PPM_PER_PIP_def assms(5))
  note w = clip_within [OF clip(1) [unfolded cap] clip(2) p(1), unfolded n]
  obtain c m where walk: "walk_book_cost (yes_asks (si_order_book inp)) n = Some (c, m)" "0 < n" "marginal_price_pips fig = m"
    by (rule edge_figures [OF fig, unfolded n])
  have cost: "c \<le> p * n" "val m \<le> p" using walk_book_cost_bound [OF walk(1) _ assms(3) p(2)] walk(2) by simp_all
  have pos: "0 < val (cc_size clip)" using walk(2) n by simp
  have "val (price i) \<le> p"
  proof (cases rule: style_cases [OF st pos])
    case 1
    then show ?thesis using build_intent_fields(1) [OF i(1)] walk(3) cost(2) by (auto simp: price_and_notional_def cross_decision_def res_bind_Inr_iff)
  next
    case (2 bid bids ask asks rest fee)
    then have "price i = IntUnit rest" using build_intent_fields(1) [OF i(1)] by (auto simp: price_and_notional_def)
    with 2 p(2) show ?thesis by auto
  qed
  moreover obtain t b where agg: "aggregate_bucket_exposure (effective_buckets (si_correlation_tags inp)) (si_bucket_peers inp) = (t, b)"
    by (metis surj_pair)
  moreover have "val (pm_bucket_exposure (sizing_positions inp)) = t" by (simp add: sizing_positions_def agg)
  ultimately show ?thesis
    using w i(2) walk(1) cost(1) bucket_exposure_max(2) [OF agg] by (fastforce simp: sizing_positions_def risk_of_def assms(7,8))
qed

theorem selected_within_caps_witness:
  "\<exists>d i. select (\<lambda>s. s) sample_inputs = Inr d \<and> sd_intents d = [i] \<and> val (order_size i) = 7500 \<and>
     50000000 + 4200 * val (order_size i) \<le> 200000000 \<and> 900000000 + 4200 * val (order_size i) \<le> 1000000000 \<and> val (price i) \<le> 4200"
proof -
  obtain d i where d: "select (\<lambda>s. s) sample_inputs = Inr d" "sd_intents d = [i]" "order_size i = IntUnit 7500" using sample_selected by blast
  have "books_depth (yes_asks (si_order_book sample_inputs))" "sorted (map (\<lambda>l. val (lvl_price l)) (yes_asks (si_order_book sample_inputs)))"
    "val (lvl_price (last (yes_asks (si_order_book sample_inputs)))) = 4200" by code_simp+
  with selected_within_caps [OF d(1) _ _ _ refl refl refl refl, of i] d show ?thesis by auto
qed

text \<open>C12. An emitted intent pays for itself. The most it may cost is the price of its fill, or of its resting order, with the
  worst-case fee; what the forecast says its contracts are worth, less the slippage buffer and the least net edge required,
  covers all of that. It is a buy on a forecast that is eligible for live orders, supported by a citation, not
  flagged as incoherent, and fresh against the newest of its own inputs.\<close>

theorem selected_intent_pays:
  assumes "select sha inp = Inr d" and "i \<in> set (sd_intents d)"
  shows "100 * val (max_notional i) \<le> val (order_size i) * (fr_probability_ppm (si_forecast inp)
      - sl_per_contract_buffer_ppm (si_slippage_model inp) - rk_min_net_edge_ppm (rc_config (si_risk_config inp))) \<and>
    (\<exists>cost fee. val (max_notional i) = cost + fee \<and>
      (if execution_style i = ''cross'' then \<exists>m. walk_book_cost (yes_asks (si_order_book inp)) (val (order_size i)) = Some (cost, m) \<and> price i = m \<and>
           fee_micros (si_fee_model inp) (ceil_div cost (val (order_size i))) (val (order_size i)) = Inr fee
       else cost = val (price i) * val (order_size i) \<and> fee_micros (si_fee_model inp) (val (price i)) (val (order_size i)) = Inr fee)) \<and>
    action i = ACTION_BUY \<and> intent_outcome i = OUTCOME_YES \<and> market_ticker i = fr_market_ticker (si_forecast inp) \<and>
    fr_eligible_for_live (si_forecast inp) \<and> fr_citations (si_forecast inp) \<noteq> [] \<and> \<not> fr_coherence_flag (si_forecast inp) \<and>
    reference_instant inp - ob_fetched_at (si_order_book inp) \<le> rk_quote_ttl_seconds (rc_config (si_risk_config inp)) * 1000000 \<and>
    reference_instant inp \<le> fr_created_at (si_forecast inp) + fr_forecast_horizon_hours (si_forecast inp) * 3600000000"
proof -
  obtain probe st fig and clip :: CapClipResult where checks: "list_all ec_passed (evaluate_entry_conditions inp probe)" and
    fig: "price_fill inp (cc_size clip) = Inr (Figures fig)" "rk_min_net_edge_ppm (risk_of inp) \<le> net_edge_ppm fig"
    and st: "decide_execution_style inp (cc_size clip) = Inr st"
    and i: "build_intent sha inp fig (cc_size clip) st = Inr i" by (rule select_emits [OF assms]) blast
  note f = build_intent_fields [OF i]
  let ?n = "val (cc_size clip)"
  obtain c m fee where e: "walk_book_cost (yes_asks (si_order_book inp)) ?n = Some (c, m)" "0 < ?n"
    "val (executable_price_pips fig) = ceil_div c ?n" "fee_micros (si_fee_model inp) (val (executable_price_pips fig)) ?n = Inr fee"
    "net_edge_ppm fig = fr_probability_ppm (si_forecast inp) - ceil_div (c * 100) ?n - ceil_div (fee * 100) ?n
       - sl_per_contract_buffer_ppm (si_slippage_model inp)"
    "val (executable_cost_micros fig) = c" "marginal_price_pips fig = m" by (rule edge_figures [OF fig(1)])
  have "100 * val (max_notional i) \<le> ?n * (fr_probability_ppm (si_forecast inp)
      - sl_per_contract_buffer_ppm (si_slippage_model inp) - rk_min_net_edge_ppm (risk_of inp)) \<and>
    (\<exists>cost fee. val (max_notional i) = cost + fee \<and>
      (if execution_style i = ''cross'' then \<exists>m. walk_book_cost (yes_asks (si_order_book inp)) ?n = Some (cost, m) \<and> price i = m \<and>
           fee_micros (si_fee_model inp) (ceil_div cost ?n) ?n = Inr fee
       else cost = val (price i) * ?n \<and> fee_micros (si_fee_model inp) (val (price i)) ?n = Inr fee))"
    using st e(2)
  proof (cases rule: style_cases)
    case cross
    then have "val (max_notional i) = c + fee" "price i = m" "execution_style i = ''cross''"
      using f(1) [symmetric] f(3) e(4,6,7) by (auto simp: price_and_notional_def cross_decision_def)
    with net_edge_covers [OF e(2) fig(2) [unfolded e(5)]] e(1) e(4) [unfolded e(3)] show ?thesis by auto
  next
    case (rest bid bids ask asks r fee')
    then have "max_notional i = IntUnit (r * ?n + fee')" "price i = IntUnit r" "execution_style i = ''rest_inside_spread''"
      using f(1) [symmetric] f(3) by (auto simp: price_and_notional_def)
    with net_edge_covers [OF e(2) rest(8)] rest(7) show ?thesis by auto
  qed
  moreover have "fr_eligible_for_live (si_forecast inp) \<and> fr_citations (si_forecast inp) \<noteq> [] \<and> \<not> fr_coherence_flag (si_forecast inp) \<and>
    reference_instant inp - ob_fetched_at (si_order_book inp) \<le> rk_quote_ttl_seconds (rc_config (si_risk_config inp)) * 1000000 \<and>
    reference_instant inp \<le> fr_created_at (si_forecast inp) + fr_forecast_horizon_hours (si_forecast inp) * 3600000000"
    using checks by (simp add: evaluate_entry_conditions_def Let_def quote_snapshot_fresh_def forecast_fresh_def market_coherent_def
        citation_support_def forecast_live_eligible_def)
  ultimately show ?thesis using f(4,5,6) unfolding f(2) risk_of_def by blast
qed

theorem selected_intent_pays_witness:
  "\<exists>d i. select (\<lambda>s. s) sample_inputs = Inr d \<and> sd_intents d = [i] \<and> 100 * val (max_notional i) \<le> val (order_size i) * 565000 \<and>
     val (order_size i) = 7500 \<and> val (max_notional i) = 31260000"
proof -
  obtain d i where d: "select (\<lambda>s. s) sample_inputs = Inr d" "sd_intents d = [i]" "order_size i = IntUnit 7500" "max_notional i = IntUnit 31260000"
    using sample_selected by blast
  have "fr_probability_ppm (si_forecast sample_inputs) - sl_per_contract_buffer_ppm (si_slippage_model sample_inputs)
      - rk_min_net_edge_ppm (rc_config (si_risk_config sample_inputs)) = 565000" by code_simp
  with selected_intent_pays [OF d(1), of i] d show ?thesis by auto
qed

text \<open>C33. The participation cap is what its rule says and no less. The bounded iteration over the levels of the book returns
  the greatest size, up to the one asked for, that takes at most the permitted share of the depth at or better than its own
  marginal level - in whole contracts when asked for those.\<close>

theorem participation_cap_greatest:
  assumes "books_depth asks" and "0 \<le> ppm"
  shows "takeable n asks ppm lot (participation_fixed_point n asks ppm lot) \<and>
    (\<forall>s. takeable n asks ppm lot s \<longrightarrow> s \<le> participation_fixed_point n asks ppm lot)"
  using fixed_point_takeable fixed_point_greatest [OF assms] by blast

theorem participation_cap_greatest_witness:
  "participation_fixed_point 9000 (yes_asks sample_selector_book) 250000 True = 7500 \<and>
   takeable 9000 (yes_asks sample_selector_book) 250000 True 7500 \<and> \<not> takeable 9000 (yes_asks sample_selector_book) 250000 True 7600"
proof -
  have ok: "books_depth (yes_asks sample_selector_book)" "(0 :: int) \<le> 250000"
    and v: "participation_fixed_point 9000 (yes_asks sample_selector_book) 250000 True = 7500" by code_simp+
  from participation_cap_greatest [OF ok, of 9000 True] v show ?thesis by fastforce
qed

text \<open>C35. Selection never raises on a book with sorted asks, sizes that are not negative and prices between nothing and a dollar,
  whatever the forecast, the configuration, the exposures and the fee schedule: it returns a decision with
  reasons, and with one intent at most.\<close>

theorem select_total:
  assumes "book_ok (si_order_book inp)"
  shows "\<exists>d. select sha inp = Inr d \<and> sd_reasons d \<noteq> [] \<and> length (sd_intents d) \<le> 1 \<and> sd_forecast_id d = fr_forecast_id (si_forecast inp)"
proof -
  obtain r where r: "price_fill inp PROBE_SIZE_CENTIS = Inr r" using price_fill_ok [OF assms] by blast
  show ?thesis
  proof (cases r)
    case (Figures probe)
    have "map render_check (evaluate_entry_conditions inp probe) \<noteq> []" by (simp add: evaluate_entry_conditions_def Let_def)
    then show ?thesis unfolding select_def r res_bind_simps Figures edge_result.case Let_def
      using size_and_emit_total [OF assms r [unfolded Figures]] by (simp add: sel_decision_def)
  qed (simp_all add: select_def r sel_decision_def)
qed

theorem select_total_witness:
  "book_ok (si_order_book sample_inputs) \<and> (\<exists>d. select (\<lambda>s. s) sample_inputs = Inr d \<and> length (sd_intents d) \<le> 1)"
proof -
  have "book_ok (si_order_book sample_inputs)" by code_simp
  with select_total [OF this] show ?thesis by blast
qed

text \<open>A close never opens. It is refused exactly when nothing is held or the size asked for is not positive; otherwise it asks
  for what was requested, at most for what is held, under an action the gateway treats as closing and at a size the gateway
  admits for that holding; and its key hashes a text that no other trigger, market, price or size and no opening order
  shares.\<close>

theorem close_is_reduce_only:
  "(case build_close_intent sha trigger pos close_price sz of
      Inl e \<Rightarrow> e = ValueError \<and> (val (pos_quantity pos) \<le> 0 \<or> (\<exists>c. sz = Some c \<and> val c \<le> 0))
    | Inr i \<Rightarrow> 0 < val (order_size i) \<and> is_close_admissible (val (order_size i)) (val (pos_quantity pos)) 0 \<and>
        val (order_size i) = min (case sz of None \<Rightarrow> val (pos_quantity pos) | Some c \<Rightarrow> val c) (val (pos_quantity pos)) \<and>
        is_closing_action (action i) \<and> execution_style i = ''cross'' \<and> market_ticker i = pos_ticker pos \<and>
        (\<exists>text. idempotency_key i = sha text \<and>
          (\<forall>g t p n. (text = canonical_json (close_fields g t p n)) =
             (g = trigger \<and> t = pos_ticker pos \<and> p = val close_price \<and> n = val (order_size i))) \<and>
          (\<forall>f t p n. text \<noteq> canonical_json (intent_fields f t p n))))"
proof (cases "val (pos_quantity pos) \<le> 0 \<or> (\<exists>c. sz = Some c \<and> val c \<le> 0)")
  case True
  then show ?thesis by (auto simp: build_close_intent_def split: option.splits)
next
  case False
  let ?n = "min (case sz of None \<Rightarrow> val (pos_quantity pos) | Some c \<Rightarrow> val c) (val (pos_quantity pos))"
  let ?text = "canonical_json (close_fields trigger (pos_ticker pos) (val close_price) ?n)"
  obtain i where i: "build_close_intent sha trigger pos close_price sz = Inr i" "order_size i = IntUnit ?n" "action i = ACTION_SELL_TO_CLOSE"
    "execution_style i = ''cross''" "market_ticker i = pos_ticker pos" "idempotency_key i = sha ?text"
    using False by (cases sz) (auto simp: build_close_intent_def SelectorOrderIntent_new_def Let_def close_idempotency_key_def)
  have "0 < ?n" using False by (cases sz) auto
  moreover have "is_close_admissible ?n (val (pos_quantity pos)) 0" by (simp add: is_close_admissible_def closeable_centis_def)
  moreover have "is_closing_action ACTION_SELL_TO_CLOSE"
    by (simp add: is_closing_action_def ACTION_SELL_TO_CLOSE_def Gateway.CLOSING_ACTIONS_def)
  moreover have "(?text = canonical_json (close_fields g t p n)) =
      (g = trigger \<and> t = pos_ticker pos \<and> p = val close_price \<and> n = ?n)" for g t p n
    using close_fields_inj [of trigger "pos_ticker pos" "val close_price" ?n g t p n] by auto
  moreover have "?text \<noteq> canonical_json (intent_fields f t p n)" for f t p n using open_close_differ by metis
  ultimately show ?thesis unfolding i(1) sum.case i(2-6) int_unit.sel by blast
qed

theorem close_is_reduce_only_witness:
  "\<exists>i. build_close_intent (\<lambda>s. s) KILL_PATH \<lparr>pos_ticker = ''KX'', pos_quantity = IntUnit 300, pos_average_price = IntUnit 4000\<rparr> (IntUnit 3900) (Some (IntUnit 500)) =
     Inr i \<and> val (order_size i) = 300 \<and> is_closing_action (action i)"
proof -
  let ?pos = "\<lparr>pos_ticker = ''KX'', pos_quantity = IntUnit 300, pos_average_price = IntUnit 4000\<rparr> :: Position"
  have "is_ok (build_close_intent (\<lambda>s. s) KILL_PATH ?pos (IntUnit 3900) (Some (IntUnit 500)))"
    by (simp add: build_close_intent_def SelectorOrderIntent_new_def Let_def)
  then obtain i where i: "build_close_intent (\<lambda>s. s) KILL_PATH ?pos (IntUnit 3900) (Some (IntUnit 500)) = Inr i" by blast
  have "val (order_size i) = min 500 300 \<and> is_closing_action (action i)"
    using close_is_reduce_only [where sha = "\<lambda>s. s" and trigger = KILL_PATH and pos = ?pos and close_price = "IntUnit 3900" and sz = "Some (IntUnit 500)"]
    unfolding i sum.case option.case int_unit.sel Position.simps by blast
  with i show ?thesis by auto
qed

text \<open>The ledgered text of a decision determines it: two decisions with the same canonical text are the same, intent by intent
  and reason by reason.\<close>

theorem decision_text_identifies: "serialize_decision d = serialize_decision d' \<longleftrightarrow> d = d'"
proof
  assume "serialize_decision d = serialize_decision d'"
  then have get: "map_option json_canon (dict_get (decision_payload d) k) = map_option json_canon (dict_get (decision_payload d') k)" for k
    using canonical_json_eq_iff [of "decision_payload d" "decision_payload d'"]
    by (simp add: serialize_decision_def decision_payload_def dict_wf_def)
  have "map (\<lambda>i. json_canon (JObj (sel_intent_to_payload i))) (sd_intents d) = map (\<lambda>i. json_canon (JObj (sel_intent_to_payload i))) (sd_intents d')"
    using get [of "''intents''"] by (simp add: decision_payload_def dict_get_def comp_def del: json_canon.simps(2))
  then have "sd_intents d = sd_intents d'" using intent_payload_inj by (metis (mono_tags, lifting) injI inj_map_eq_map)
  moreover have "sd_reasons d = sd_reasons d'"
    using get [of "''reasons''"] by (simp add: decision_payload_def dict_get_def comp_def) (metis injI inj_map_eq_map json.inject(2))
  ultimately show "d = d'"
    using get [of "''forecast_id''"] get [of "''market_ticker''"] get [of "''calibration_map_version''"]
    by (intro SelectorDecision.equality) (simp_all add: decision_payload_def dict_get_def)
qed simp

section \<open>What does not hold\<close>

text \<open>A stake can be negative: an account below its floor sizes a positive edge to a negative size. (Clipping then discards it.)\<close>

lemma kelly_size_negative:
  "kelly_size 50000 30000 400000 100000 1000000 (IntUnit (-1000000000)) = Inr (IntUnit (-2084))"
  by code_simp

text \<open>The fee of a fill is priced at the average price rounded up to a pip. Above half a dollar a dearer pip has a smaller
  fee, so for a large fill the notional of the intent is below the book cost and the fees of its own levels, by more than a cent.\<close>

lemma notional_below_level_fees:
  "(let fi = \<lparr>fi_model = \<lparr>schedule_id = ''k'', maker_fee_ppm = 70000, taker_fee_ppm = 70000, settlement_fee_ppm = 0\<rparr>, fi_as_of = 0\<rparr> in
     fee_micros fi (ceil_div (9000 * 10000000 + 9001 * 10000000) 20000000) 20000000 = Inr 1258880000 \<and>
     fee_micros fi 9000 10000000 = Inr 630000000 \<and> fee_micros fi 9001 10000000 = Inr 629440000)"
  by code_simp

text \<open>The price band is checked on the probe of one contract. The emitted price is the marginal level of the whole fill and
  can lie above the band.\<close>

definition banded_inputs :: SelectorInputs where
  "banded_inputs = sample_inputs\<lparr>si_forecast := sample_forecast\<lparr>fr_probability_ppm := 1000000, fr_ci_low_ppm := 990000, fr_ci_high_ppm := 1000000\<rparr>,
     si_order_book := sample_selector_book\<lparr>yes_asks := [\<lparr>lvl_price = IntUnit 9400, lvl_quantity = IntUnit 500\<rparr>, \<lparr>lvl_price = IntUnit 9510, lvl_quantity = IntUnit 90000\<rparr>],
       yes_bids := [\<lparr>lvl_price = IntUnit 9390, lvl_quantity = IntUnit 500\<rparr>]\<rparr>\<rparr>"

lemma emitted_price_above_band:
  "\<exists>d i. select sha banded_inputs = Inr d \<and> sd_intents d = [i] \<and> order_size i = IntUnit 10500 \<and> price i = IntUnit 9510 \<and>
     max_notional i = IntUnit 100150000 \<and> rk_max_open_price_pips (risk_of banded_inputs) = 9500"
proof -
  let ?probe = "\<lparr>gross_edge_ppm = 60000, fee_adjusted_edge_ppm = 50000, net_edge_ppm = 45000, annualized_expected_return_ppm = 1747340,
    executable_price_ppm = 940000, executable_price_pips = IntUnit 9400, executable_cost_micros = IntUnit 940000, marginal_price_pips = IntUnit 9400\<rparr>"
  let ?fig = "\<lparr>gross_edge_ppm = 49523, fee_adjusted_edge_ppm = 46189, net_edge_ppm = 41189, annualized_expected_return_ppm = 1581730,
    executable_price_ppm = 950477, executable_price_pips = IntUnit 9505, executable_cost_micros = IntUnit 99800000, marginal_price_pips = IntUnit 9510\<rparr>"
  let ?clip = "\<lparr>cc_size = IntUnit 10500, cc_binding_cap = Some ''per_bucket:weather''\<rparr>"
  have probe: "price_fill banded_inputs PROBE_SIZE_CENTIS = Inr (Figures ?probe)" by code_simp
  have checks: "list_all ec_passed (evaluate_entry_conditions banded_inputs ?probe)"
    by (simp add: entry_check_defs banded_inputs_def sample_inputs_def sample_forecast_def sample_selector_book_def RiskConfig_default_def FEE_MODEL_TTL_def)
  have sized: "aggregate_bucket_exposure (effective_buckets (si_correlation_tags banded_inputs)) (si_bucket_peers banded_inputs) = (900000000, Some ''weather'')"
    "dispersion_scale (fr_vote_dispersion_ppm (si_forecast banded_inputs)) (rk_dispersion_zero_ceiling_ppm (risk_of banded_inputs)) = Inr 750000"
    "kelly_size (net_edge_ppm ?probe) (rk_min_net_edge_ppm (risk_of banded_inputs)) (executable_price_ppm ?probe)
      (rk_kelly_fraction_ppm (risk_of banded_inputs)) 750000 (pm_above_floor_capital_micros (si_positions banded_inputs)) = Inr (IntUnit 47872)"
    "clip_to_caps (IntUnit 47872) (cap_reference_price_ppm (si_order_book banded_inputs)) (si_order_book banded_inputs) (risk_of banded_inputs)
      ((si_positions banded_inputs)\<lparr>pm_bucket_exposure := IntUnit 900000000\<rparr>) (''per_bucket:'' @ ''weather'') = Inr ?clip"
    "val (cc_size ?clip) \<noteq> 0" by code_simp+
  have priced: "price_fill banded_inputs (cc_size ?clip) = Inr (Figures ?fig)" "rk_min_net_edge_ppm (risk_of banded_inputs) \<le> net_edge_ppm ?fig"
    "decide_execution_style banded_inputs (cc_size ?clip) = Inr cross_decision"
    "price_and_notional banded_inputs ?fig (cc_size ?clip) cross_decision = Inr (IntUnit 9510, IntUnit 100150000)" by code_simp+
  have "rk_max_open_price_pips (risk_of banded_inputs) = 9500" by code_simp
  with select_runs [OF probe checks sized priced, of sha] show ?thesis by simp
qed

end
