(* ===== verification/GatePlan.thy ===== *)
theory GatePlan
  imports LedgerStore
begin

text \<open>
  Pre-registered gate plans (\<open>windbreak/evaluation/preregistration.py\<close>): the plan and its canonical form,
  its registration in the ledger with the paper clock, and reading the latest registration back, over the rows of
  \<open>LedgerStore\<close>. The two registration events are those of \<open>windbreak/ledger/events.py\<close>, the configuration the
  record of \<open>windbreak/config/schema.py\<close>. The fields of a plan are typed, so the type checks of its constructor
  are not repeated; what is read back from the ledger is untyped JSON, and every check of the reader is there.
  The metric catalogue of the registry is an argument of \<open>build_gate_plan\<close>.
\<close>

section \<open>Definitions\<close>

text \<open>What the readers and the constructor raise. \<open>GpKeyError\<close> is Python's own, from a plain \<open>mapping[key]\<close>; a text
  with a float literal or a wide code point is outside the model of JSON; \<open>GpAppendFailed\<close> is an append that raised.\<close>

datatype gp_error = GpValueError | GpTypeError | GpKeyError | GpOutsideModel | GpAppendFailed string

definition EXECUTABLE_PRICE_BASELINE_SCHEME :: string where
  "EXECUTABLE_PRICE_BASELINE_SCHEME = ''executable_price_at_baseline_snapshot''"
definition CORRELATION_GROUP_CLUSTERING_SCHEME :: string where "CORRELATION_GROUP_CLUSTERING_SCHEME = ''event_correlation_group''"
definition METRIC_WINDOWS_KEY :: string where "METRIC_WINDOWS_KEY = ''metric_windows''"
definition LIVE_ROLLING_WINDOW_SIZE :: int where "LIVE_ROLLING_WINDOW_SIZE = 100"

definition INT_FIELD_NAMES :: "string list" where
  "INT_FIELD_NAMES = [''min_resolved_for_calibration'', ''promotion_min_resolved'', ''promotion_min_independent_event_groups'',
     ''brier_skill_required_ppm'', ''bootstrap_confidence_ppm'', ''live_rolling_window_size'', ''live_slippage_ratio_limit_ppm'',
     ''live_brier_degradation_band_ppm'']"

definition STR_FIELD_NAMES :: "string list" where
  "STR_FIELD_NAMES = [''observation_window'', ''baseline_scheme'', ''clustering_scheme'', ''paper_fill_model_version'']"

definition LEGACY_LIVE_THRESHOLD_DEFAULTS :: "(string, int) pydict" where
  "LEGACY_LIVE_THRESHOLD_DEFAULTS = [(''live_rolling_window_size'', 100), (''live_slippage_ratio_limit_ppm'', 1500000),
     (''live_brier_degradation_band_ppm'', 50000)]"

definition CANONICAL_PLAN_KEYS :: "string list" where
  "CANONICAL_PLAN_KEYS = METRIC_WINDOWS_KEY # INT_FIELD_NAMES @ STR_FIELD_NAMES"

definition REGISTRATION_ONLY_KEYS :: "string list" where
  "REGISTRATION_ONLY_KEYS = [''plan_hash'', ''paper_clock_start'', ''previous_plan_hash'']"

definition REGISTRATION_EVENT_TYPES :: "string list" where
  "REGISTRATION_EVENT_TYPES = [''GatePlanRegistered'', ''GatePlanChanged'']"

subsection \<open>The plan\<close>

record GatePlan =
  gp_metric_windows :: "(string \<times> string) list"
  gp_min_resolved_for_calibration :: int
  gp_promotion_min_resolved :: int
  gp_promotion_min_independent_event_groups :: int
  gp_brier_skill_required_ppm :: int
  gp_bootstrap_confidence_ppm :: int
  gp_observation_window :: string
  gp_baseline_scheme :: string
  gp_clustering_scheme :: string
  gp_paper_fill_model_version :: string
  gp_live_rolling_window_size :: int
  gp_live_slippage_ratio_limit_ppm :: int
  gp_live_brier_degradation_band_ppm :: int

text \<open>The names being distinct once the duplicates are refused, sorting the pairs is sorting by name.\<close>

definition normalize_metric_windows :: "(string \<times> string) list \<Rightarrow> gp_error + (string \<times> string) list" where
  "normalize_metric_windows ws = (if distinct (map fst ws) then Inr (sort_key fst ws) else Inl GpValueError)"

definition GatePlan_new :: "GatePlan \<Rightarrow> gp_error + GatePlan" where
  "GatePlan_new p = res_bind (normalize_metric_windows (gp_metric_windows p)) (\<lambda>ws. Inr (p\<lparr>gp_metric_windows := ws\<rparr>))"

definition windows_json :: "(string \<times> string) list \<Rightarrow> json" where
  "windows_json ws = JList (map (\<lambda>(n, w). JList [JStr n, JStr w]) ws)"

definition canonical_dict :: "GatePlan \<Rightarrow> payload" where
  "canonical_dict p =
     [(METRIC_WINDOWS_KEY, windows_json (gp_metric_windows p)),
      (''min_resolved_for_calibration'', JInt (gp_min_resolved_for_calibration p)),
      (''promotion_min_resolved'', JInt (gp_promotion_min_resolved p)),
      (''promotion_min_independent_event_groups'', JInt (gp_promotion_min_independent_event_groups p)),
      (''brier_skill_required_ppm'', JInt (gp_brier_skill_required_ppm p)),
      (''bootstrap_confidence_ppm'', JInt (gp_bootstrap_confidence_ppm p)),
      (''observation_window'', JStr (gp_observation_window p)),
      (''baseline_scheme'', JStr (gp_baseline_scheme p)),
      (''clustering_scheme'', JStr (gp_clustering_scheme p)),
      (''paper_fill_model_version'', JStr (gp_paper_fill_model_version p)),
      (''live_rolling_window_size'', JInt (gp_live_rolling_window_size p)),
      (''live_slippage_ratio_limit_ppm'', JInt (gp_live_slippage_ratio_limit_ppm p)),
      (''live_brier_degradation_band_ppm'', JInt (gp_live_brier_degradation_band_ppm p))]"

definition canonical_json_str :: "GatePlan \<Rightarrow> string" where
  "canonical_json_str p = canonical_json (canonical_dict p)"

definition plan_hash :: "digest_fn \<Rightarrow> GatePlan \<Rightarrow> string" where
  "plan_hash sha p = sha (canonical_json_str p)"

subsection \<open>Reading a plan back\<close>

definition parse_metric_window_entry :: "json \<Rightarrow> gp_error + string \<times> string" where
  "parse_metric_window_entry j =
     (case j of JList [JStr n, JStr w] \<Rightarrow> Inr (n, w) | _ \<Rightarrow> Inl GpTypeError)"

fun parse_entries :: "json list \<Rightarrow> gp_error + (string \<times> string) list" where
  "parse_entries [] = Inr []"
| "parse_entries (j # js) = res_bind (parse_metric_window_entry j) (\<lambda>e. res_bind (parse_entries js) (\<lambda>es. Inr (e # es)))"

definition parse_metric_windows :: "json \<Rightarrow> gp_error + (string \<times> string) list" where
  "parse_metric_windows raw = (case raw of JList js \<Rightarrow> parse_entries js | _ \<Rightarrow> Inl GpTypeError)"

definition require_present :: "payload \<Rightarrow> string \<Rightarrow> gp_error + json" where
  "require_present m k = (case dict_get m k of None \<Rightarrow> Inl GpValueError | Some v \<Rightarrow> Inr v)"

definition require_mapping_int :: "payload \<Rightarrow> string \<Rightarrow> gp_error + int" where
  "require_mapping_int m k = res_bind (require_present m k) (\<lambda>v. case v of JInt i \<Rightarrow> Inr i | _ \<Rightarrow> Inl GpTypeError)"

definition mapping_int_or_legacy_default :: "payload \<Rightarrow> string \<Rightarrow> gp_error + int" where
  "mapping_int_or_legacy_default m k =
     (if dict_get m k = None then
        (case dict_get LEGACY_LIVE_THRESHOLD_DEFAULTS k of None \<Rightarrow> Inl GpKeyError | Some n \<Rightarrow> Inr n)
      else require_mapping_int m k)"

definition require_mapping_str :: "payload \<Rightarrow> string \<Rightarrow> gp_error + string" where
  "require_mapping_str m k = res_bind (require_present m k) (\<lambda>v. case v of JStr s \<Rightarrow> Inr s | _ \<Rightarrow> Inl GpTypeError)"

definition from_canonical :: "payload \<Rightarrow> gp_error + GatePlan" where
  "from_canonical m =
     (if \<not> list_all (\<lambda>(k, _). k \<in> set CANONICAL_PLAN_KEYS) m then Inl GpValueError
      else
        res_bind (case dict_get m METRIC_WINDOWS_KEY of None \<Rightarrow> Inl GpKeyError | Some v \<Rightarrow> parse_metric_windows v) (\<lambda>ws.
        res_bind (require_mapping_int m ''min_resolved_for_calibration'') (\<lambda>calibration.
        res_bind (require_mapping_int m ''promotion_min_resolved'') (\<lambda>resolved.
        res_bind (require_mapping_int m ''promotion_min_independent_event_groups'') (\<lambda>groups.
        res_bind (require_mapping_int m ''brier_skill_required_ppm'') (\<lambda>skill.
        res_bind (require_mapping_int m ''bootstrap_confidence_ppm'') (\<lambda>confidence.
        res_bind (require_mapping_str m ''observation_window'') (\<lambda>window.
        res_bind (require_mapping_str m ''baseline_scheme'') (\<lambda>baseline.
        res_bind (require_mapping_str m ''clustering_scheme'') (\<lambda>clustering.
        res_bind (require_mapping_str m ''paper_fill_model_version'') (\<lambda>version.
        res_bind (mapping_int_or_legacy_default m ''live_rolling_window_size'') (\<lambda>rolling.
        res_bind (mapping_int_or_legacy_default m ''live_slippage_ratio_limit_ppm'') (\<lambda>slippage.
        res_bind (mapping_int_or_legacy_default m ''live_brier_degradation_band_ppm'') (\<lambda>band.
          GatePlan_new \<lparr>gp_metric_windows = ws, gp_min_resolved_for_calibration = calibration, gp_promotion_min_resolved = resolved,
            gp_promotion_min_independent_event_groups = groups, gp_brier_skill_required_ppm = skill,
            gp_bootstrap_confidence_ppm = confidence, gp_observation_window = window, gp_baseline_scheme = baseline,
            gp_clustering_scheme = clustering, gp_paper_fill_model_version = version, gp_live_rolling_window_size = rolling,
            gp_live_slippage_ratio_limit_ppm = slippage, gp_live_brier_degradation_band_ppm = band\<rparr>))))))))))))))"

record EvaluationConfig =
  ev_min_resolved_for_calibration :: int
  ev_promotion_min_resolved :: int
  ev_promotion_min_independent_event_groups :: int
  ev_brier_skill_required_ppm :: int
  ev_bootstrap_confidence_ppm :: int
  ev_observation_window :: string
  ev_live_rolling_window_size :: int
  ev_live_slippage_ratio_limit_ppm :: int
  ev_live_brier_degradation_band_ppm :: int

definition EvaluationConfig_default :: EvaluationConfig where
  "EvaluationConfig_default = \<lparr>ev_min_resolved_for_calibration = 150, ev_promotion_min_resolved = 300,
     ev_promotion_min_independent_event_groups = 100, ev_brier_skill_required_ppm = 10000, ev_bootstrap_confidence_ppm = 950000,
     ev_observation_window = ''latest_before_close'', ev_live_rolling_window_size = 100,
     ev_live_slippage_ratio_limit_ppm = 1500000, ev_live_brier_degradation_band_ppm = 50000\<rparr>"

definition build_gate_plan :: "(string, string) pydict \<Rightarrow> EvaluationConfig \<Rightarrow> string \<Rightarrow> string \<Rightarrow> string \<Rightarrow> gp_error + GatePlan" where
  "build_gate_plan registered_windows ev version baseline clustering =
     (if ev_live_rolling_window_size ev \<noteq> LIVE_ROLLING_WINDOW_SIZE then Inl GpValueError
      else GatePlan_new \<lparr>gp_metric_windows = sort_key fst registered_windows,
        gp_min_resolved_for_calibration = ev_min_resolved_for_calibration ev, gp_promotion_min_resolved = ev_promotion_min_resolved ev,
        gp_promotion_min_independent_event_groups = ev_promotion_min_independent_event_groups ev,
        gp_brier_skill_required_ppm = ev_brier_skill_required_ppm ev, gp_bootstrap_confidence_ppm = ev_bootstrap_confidence_ppm ev,
        gp_observation_window = ev_observation_window ev, gp_baseline_scheme = baseline, gp_clustering_scheme = clustering,
        gp_paper_fill_model_version = version, gp_live_rolling_window_size = ev_live_rolling_window_size ev,
        gp_live_slippage_ratio_limit_ppm = ev_live_slippage_ratio_limit_ppm ev,
        gp_live_brier_degradation_band_ppm = ev_live_brier_degradation_band_ppm ev\<rparr>)"

subsection \<open>Registration\<close>

record GatePlanRegistration =
  gr_plan :: GatePlan
  gr_plan_hash :: string
  gr_paper_clock_start :: int
  gr_previous_plan_hash :: "string option"
  gr_event_type :: string

text \<open>The flat fields of a registration event are those of \<open>canonical_dict\<close>.\<close>

definition flat_plan_fields :: "GatePlan \<Rightarrow> payload" where
  "flat_plan_fields p = canonical_dict p"

definition GatePlanRegistered :: "string \<Rightarrow> payload \<Rightarrow> string \<Rightarrow> int \<Rightarrow> Event" where
  "GatePlanRegistered cmp flat hash epoch =
     derive_typed_event ''GatePlanRegistered'' cmp (flat @ [(''plan_hash'', JStr hash), (''paper_clock_start'', JInt epoch)]) SCHEMA_VERSION"

definition GatePlanChanged :: "string \<Rightarrow> payload \<Rightarrow> string \<Rightarrow> int \<Rightarrow> string \<Rightarrow> Event" where
  "GatePlanChanged cmp flat hash epoch previous =
     derive_typed_event ''GatePlanChanged'' cmp (flat @ [(''plan_hash'', JStr hash), (''paper_clock_start'', JInt epoch),
       (''previous_plan_hash'', JStr previous)]) SCHEMA_VERSION"

definition optional_str :: "json option \<Rightarrow> gp_error + string option" where
  "optional_str v = (case v of None \<Rightarrow> Inr None | Some JNull \<Rightarrow> Inr None | Some (JStr s) \<Rightarrow> Inr (Some s) | _ \<Rightarrow> Inl GpTypeError)"

definition plan_fields_of :: "payload \<Rightarrow> payload" where
  "plan_fields_of data = filter (\<lambda>(k, _). k \<notin> set REGISTRATION_ONLY_KEYS) data"

definition registration_from_data :: "digest_fn \<Rightarrow> string \<Rightarrow> payload \<Rightarrow> gp_error + GatePlanRegistration" where
  "registration_from_data sha etype data =
     (let plan_fields = plan_fields_of data in
      res_bind (require_mapping_str data ''plan_hash'') (\<lambda>stored_hash.
      if sha (canonical_json plan_fields) \<noteq> stored_hash then Inl GpValueError
      else res_bind (from_canonical plan_fields) (\<lambda>plan.
        res_bind (require_mapping_int data ''paper_clock_start'') (\<lambda>epoch.
        res_bind (optional_str (dict_get data ''previous_plan_hash'')) (\<lambda>previous.
          Inr \<lparr>gr_plan = plan, gr_plan_hash = stored_hash, gr_paper_clock_start = epoch, gr_previous_plan_hash = previous,
            gr_event_type = etype\<rparr>)))))"

definition registration_from_record :: "digest_fn \<Rightarrow> LedgerRecord \<Rightarrow> gp_error + GatePlanRegistration" where
  "registration_from_record sha r =
     (case json_loads (lr_payload_json r) of
        Inl e \<Rightarrow> Inl (if e = JSONDecodeError then GpValueError else GpOutsideModel)
      | Inr (JObj envelope) \<Rightarrow>
          res_bind (require_present envelope ''data'') (\<lambda>d.
            case d of JObj data \<Rightarrow> registration_from_data sha (lr_event_type r) data | _ \<Rightarrow> Inl GpTypeError)
      | Inr _ \<Rightarrow> Inl GpTypeError)"

text \<open>The store may offer the indexed lookup; otherwise the newest registration is found by a scan.\<close>

definition latest_registration_record :: "bool \<Rightarrow> table \<Rightarrow> LedgerRecord option" where
  "latest_registration_record indexed db =
     (if indexed then latest_record_of_types REGISTRATION_EVENT_TYPES db
      else foldl (\<lambda>latest r. if lr_event_type r \<in> set REGISTRATION_EVENT_TYPES then Some r else latest) None (read_all db))"

definition latest_gate_plan_registration :: "digest_fn \<Rightarrow> bool \<Rightarrow> table \<Rightarrow> gp_error + GatePlanRegistration option" where
  "latest_gate_plan_registration sha indexed db =
     (case latest_registration_record indexed db of None \<Rightarrow> Inr None
      | Some r \<Rightarrow> res_bind (registration_from_record sha r) (\<lambda>g. Inr (Some g)))"

definition append_registration ::
    "digest_fn \<Rightarrow> string option \<Rightarrow> string \<Rightarrow> Event \<Rightarrow> GatePlanRegistration \<Rightarrow> table \<Rightarrow> (gp_error + GatePlanRegistration) \<times> table" where
  "append_registration sha fault created_at e g db =
     (case append_event sha fault created_at e db of
        (Inl exc, db') \<Rightarrow> (Inl (GpAppendFailed exc), db')
      | (Inr _, db') \<Rightarrow> (Inr g, db'))"

definition append_first_registration ::
    "digest_fn \<Rightarrow> string option \<Rightarrow> string \<Rightarrow> string \<Rightarrow> int \<Rightarrow> GatePlan \<Rightarrow> table \<Rightarrow> (gp_error + GatePlanRegistration) \<times> table" where
  "append_first_registration sha fault created_at cmp epoch p db =
     append_registration sha fault created_at (GatePlanRegistered cmp (flat_plan_fields p) (plan_hash sha p) epoch)
       \<lparr>gr_plan = p, gr_plan_hash = plan_hash sha p, gr_paper_clock_start = epoch, gr_previous_plan_hash = None,
        gr_event_type = ''GatePlanRegistered''\<rparr> db"

definition append_changed_registration ::
    "digest_fn \<Rightarrow> string option \<Rightarrow> string \<Rightarrow> string \<Rightarrow> int \<Rightarrow> GatePlanRegistration \<Rightarrow> GatePlan \<Rightarrow> table \<Rightarrow>
     (gp_error + GatePlanRegistration) \<times> table" where
  "append_changed_registration sha fault created_at cmp new_epoch existing p db =
     (if new_epoch \<le> gr_paper_clock_start existing then (Inl GpValueError, db)
      else append_registration sha fault created_at
        (GatePlanChanged cmp (flat_plan_fields p) (plan_hash sha p) new_epoch (gr_plan_hash existing))
        \<lparr>gr_plan = p, gr_plan_hash = plan_hash sha p, gr_paper_clock_start = new_epoch,
         gr_previous_plan_hash = Some (gr_plan_hash existing), gr_event_type = ''GatePlanChanged''\<rparr> db)"

definition register_gate_plan ::
    "digest_fn \<Rightarrow> bool \<Rightarrow> string option \<Rightarrow> string \<Rightarrow> string \<Rightarrow> int \<Rightarrow> GatePlan \<Rightarrow> table \<Rightarrow> (gp_error + GatePlanRegistration) \<times> table" where
  "register_gate_plan sha indexed fault created_at cmp epoch p db =
     (case latest_gate_plan_registration sha indexed db of
        Inl e \<Rightarrow> (Inl e, db)
      | Inr None \<Rightarrow> append_first_registration sha fault created_at cmp epoch p db
      | Inr (Some existing) \<Rightarrow>
          (if gr_plan_hash existing = plan_hash sha p then (Inr existing, db)
           else append_changed_registration sha fault created_at cmp epoch existing p db))"

section \<open>Lemmas\<close>

subsection \<open>A registration reads back\<close>

text \<open>A plan the constructor returns.\<close>

definition plan_ok :: "GatePlan \<Rightarrow> bool" where
  "plan_ok p = (distinct (map fst (gp_metric_windows p)) \<and> sorted (map fst (gp_metric_windows p)))"

lemma GatePlan_new_ok: "GatePlan_new p = Inr q \<Longrightarrow> plan_ok q"
  by (auto simp: GatePlan_new_def normalize_metric_windows_def plan_ok_def res_bind_Inr_iff distinct_map_sort_key split: if_splits)

lemma GatePlan_new_id: "plan_ok p \<Longrightarrow> GatePlan_new p = Inr p"
  by (simp add: GatePlan_new_def normalize_metric_windows_def plan_ok_def sort_key_id_if_sorted)

lemma parse_windows_json [simp]: "parse_metric_windows (windows_json ws) = Inr ws"
proof -
  have "parse_entries (map (\<lambda>(n, w). JList [JStr n, JStr w]) ws) = Inr ws"
    by (induction ws) (auto simp: parse_metric_window_entry_def)
  then show ?thesis by (simp add: parse_metric_windows_def windows_json_def)
qed

lemma canon_windows_json [simp]: "json_canon (windows_json ws) = windows_json ws"
  by (simp add: windows_json_def case_prod_unfold)

lemma json_wf_windows [simp]: "json_wf (windows_json ws)"
  by (simp add: windows_json_def list_all_iff case_prod_unfold)

lemmas plan_key_defs = METRIC_WINDOWS_KEY_def CANONICAL_PLAN_KEYS_def INT_FIELD_NAMES_def STR_FIELD_NAMES_def REGISTRATION_ONLY_KEYS_def

lemma canonical_dict_wf: "dict_wf (canonical_dict p)"
  by (simp add: canonical_dict_def dict_wf_def plan_key_defs)

lemma canonical_dict_keys: "dict_get (canonical_dict p) k \<noteq> None \<longleftrightarrow> k \<in> set CANONICAL_PLAN_KEYS"
  by (auto simp: canonical_dict_def dict_get_def plan_key_defs)

lemma canonical_dict_json_wf: "json_wf (JObj (canonical_dict p))"
  using canonical_dict_wf [of p] by (simp add: canonical_dict_def)

lemma map_option_canon_canonical: "map_option json_canon (dict_get (canonical_dict p) k) = dict_get (canonical_dict p) k"
  by (simp add: canonical_dict_def dict_get_def)

lemma from_canonical_ext:
  assumes "\<And>k. dict_get m k = dict_get (canonical_dict p) k" and "dict_wf m" and "plan_ok p"
  shows "from_canonical m = Inr p"
proof -
  have "k \<in> set CANONICAL_PLAN_KEYS" if "(k, v) \<in> set m" for k v
    using dict_get_of_mem [OF assms(2) that] assms(1) canonical_dict_keys [of p k] by simp
  then have keys: "list_all (\<lambda>(k, _). k \<in> set CANONICAL_PLAN_KEYS) m" by (auto simp: list_all_iff)
  have eta: "\<lparr>gp_metric_windows = gp_metric_windows p, gp_min_resolved_for_calibration = gp_min_resolved_for_calibration p,
      gp_promotion_min_resolved = gp_promotion_min_resolved p,
      gp_promotion_min_independent_event_groups = gp_promotion_min_independent_event_groups p,
      gp_brier_skill_required_ppm = gp_brier_skill_required_ppm p, gp_bootstrap_confidence_ppm = gp_bootstrap_confidence_ppm p,
      gp_observation_window = gp_observation_window p, gp_baseline_scheme = gp_baseline_scheme p,
      gp_clustering_scheme = gp_clustering_scheme p, gp_paper_fill_model_version = gp_paper_fill_model_version p,
      gp_live_rolling_window_size = gp_live_rolling_window_size p, gp_live_slippage_ratio_limit_ppm = gp_live_slippage_ratio_limit_ppm p,
      gp_live_brier_degradation_band_ppm = gp_live_brier_degradation_band_ppm p\<rparr> = p" by simp
  show ?thesis
    using GatePlan_new_id [OF assms(3)]
    by (simp add: from_canonical_def keys require_mapping_int_def require_mapping_str_def mapping_int_or_legacy_default_def
        require_present_def assms(1), simp add: canonical_dict_def dict_get_def plan_key_defs, simp only: eta)
qed

lemma plan_fields_get: "dict_get (plan_fields_of d) k = (if k \<in> set REGISTRATION_ONLY_KEYS then None else dict_get d k)"
  by (induction d) (auto simp: plan_fields_of_def dict_get_def)

lemma plan_fields_wf: "dict_wf d \<Longrightarrow> dict_wf (plan_fields_of d)"
  by (simp add: plan_fields_of_def dict_wf_def distinct_map_filter)

text \<open>What an event of either kind holds.\<close>

definition registration_event :: "digest_fn \<Rightarrow> string \<Rightarrow> GatePlanRegistration \<Rightarrow> Event" where
  "registration_event sha cmp g =
     (case gr_previous_plan_hash g of
        None \<Rightarrow> GatePlanRegistered cmp (flat_plan_fields (gr_plan g)) (gr_plan_hash g) (gr_paper_clock_start g)
      | Some previous \<Rightarrow> GatePlanChanged cmp (flat_plan_fields (gr_plan g)) (gr_plan_hash g) (gr_paper_clock_start g) previous)"

text \<open>A registration as the code makes them.\<close>

definition registration_ok :: "digest_fn \<Rightarrow> GatePlanRegistration \<Rightarrow> bool" where
  "registration_ok sha g = (plan_ok (gr_plan g) \<and> gr_plan_hash g = plan_hash sha (gr_plan g) \<and>
     gr_event_type g = (if gr_previous_plan_hash g = None then ''GatePlanRegistered'' else ''GatePlanChanged''))"

lemma registration_event_type [simp]:
  "registration_ok sha g \<Longrightarrow> event_type (registration_event sha cmp g) = gr_event_type g"
  by (auto simp: registration_event_def registration_ok_def GatePlanRegistered_def GatePlanChanged_def derive_typed_event_def split: option.split)

lemma registration_payload:
  obtains extra where "payload (registration_event sha cmp g) = canonical_dict (gr_plan g) @ extra"
    "extra = [(''plan_hash'', JStr (gr_plan_hash g)), (''paper_clock_start'', JInt (gr_paper_clock_start g))] @
       (case gr_previous_plan_hash g of None \<Rightarrow> [] | Some h \<Rightarrow> [(''previous_plan_hash'', JStr h)])"
  by (auto simp: registration_event_def GatePlanRegistered_def GatePlanChanged_def derive_typed_event_def flat_plan_fields_def split: option.split)

lemma registration_payload_wf: "json_wf (JObj (payload (registration_event sha cmp g)))"
proof -
  obtain extra where e: "payload (registration_event sha cmp g) = canonical_dict (gr_plan g) @ extra"
    "extra = [(''plan_hash'', JStr (gr_plan_hash g)), (''paper_clock_start'', JInt (gr_paper_clock_start g))] @
       (case gr_previous_plan_hash g of None \<Rightarrow> [] | Some h \<Rightarrow> [(''previous_plan_hash'', JStr h)])"
    by (rule registration_payload)
  have "dict_wf (canonical_dict (gr_plan g) @ extra)"
    unfolding e(2) by (auto simp: dict_wf_def canonical_dict_def plan_key_defs split: option.split)
  moreover have "list_all (\<lambda>(_, v). json_wf v) (canonical_dict (gr_plan g) @ extra)"
    unfolding e(2) using canonical_dict_json_wf [of "gr_plan g"] by (auto split: option.split)
  ultimately show ?thesis unfolding e(1) by simp
qed

lemma registration_reads_back:
  assumes "registration_ok sha g" and "lr_payload_json r = envelope_json (registration_event sha cmp g)"
    and "lr_event_type r = gr_event_type g"
  shows "registration_from_record sha r = Inr g"
proof -
  let ?e = "registration_event sha cmp g" and ?c = "canonical_dict (gr_plan g)"
  let ?data = "payload (canon_event ?e)"
  note wf = registration_payload_wf [of sha cmp g]
  obtain env where env: "json_loads (envelope_json ?e) = Inr (JObj env)" "dict_get env ''data'' = Some (JObj ?data)"
    by (rule envelope_loads [OF wf]) blast
  obtain extra where pl: "payload ?e = ?c @ extra"
    "extra = [(''plan_hash'', JStr (gr_plan_hash g)), (''paper_clock_start'', JInt (gr_paper_clock_start g))] @
       (case gr_previous_plan_hash g of None \<Rightarrow> [] | Some h \<Rightarrow> [(''previous_plan_hash'', JStr h)])"
    by (rule registration_payload)
  have dwf: "dict_wf (payload ?e)" using wf by simp
  have get: "dict_get ?data k = map_option json_canon (dict_get (?c @ extra) k)" for k
    using dict_get_canon [OF dwf] by (simp add: canon_event_def pl)
  have data_wf: "dict_wf ?data"
    using dwf by (simp add: canon_event_def dict_wf_def distinct_map_sort_key comp_def case_prod_unfold)
  have plan: "dict_get (plan_fields_of ?data) k = dict_get ?c k" for k
  proof (cases "k \<in> set REGISTRATION_ONLY_KEYS")
    case True
    then have "dict_get ?c k = None" using canonical_dict_keys [of "gr_plan g" k] by (auto simp: plan_key_defs)
    with True show ?thesis by (simp add: plan_fields_get)
  next
    case False
    then have "dict_get (?c @ extra) k = dict_get ?c k"
      unfolding pl(2) by (auto simp: dict_get_def map_add_def REGISTRATION_ONLY_KEYS_def split: option.split)
    with False show ?thesis by (simp add: plan_fields_get get map_option_canon_canonical)
  qed
  have hash: "canonical_json (plan_fields_of ?data) = canonical_json_str (gr_plan g)"
    unfolding canonical_json_str_def
    using canonical_json_eq_iff [OF plan_fields_wf [OF data_wf] canonical_dict_wf] plan by simp
  have rest: "dict_get ?data ''plan_hash'' = Some (JStr (gr_plan_hash g))"
    "dict_get ?data ''paper_clock_start'' = Some (JInt (gr_paper_clock_start g))"
    "dict_get ?data ''previous_plan_hash'' = map_option JStr (gr_previous_plan_hash g)"
    unfolding get pl(2) by (auto simp: canonical_dict_def dict_get_def plan_key_defs split: option.split)
  have "optional_str (map_option JStr (gr_previous_plan_hash g)) = Inr (gr_previous_plan_hash g)"
    by (cases "gr_previous_plan_hash g") (simp_all add: optional_str_def)
  then show ?thesis
    using assms(1) from_canonical_ext [OF plan plan_fields_wf [OF data_wf]]
    by (simp add: registration_from_record_def assms(2,3) env require_present_def registration_from_data_def Let_def
        require_mapping_str_def require_mapping_int_def rest hash registration_ok_def plan_hash_def)
qed

subsection \<open>The latest registration\<close>

definition is_registration :: "LedgerRecord \<Rightarrow> bool" where
  "is_registration r = (lr_event_type r \<in> set REGISTRATION_EVENT_TYPES)"

lemma scan_last: "foldl (\<lambda>latest r. if P r then Some r else latest) a rs = (if filter P rs = [] then a else Some (last (filter P rs)))"
  by (induction rs arbitrary: a) auto

lemma find_rev_last: "find P (rev rs) = (if filter P rs = [] then None else Some (last (filter P rs)))"
  by (induction rs rule: rev_induct) auto

lemma latest_registration_last:
  assumes "store_ok sha db"
  shows "latest_registration_record indexed db = (if filter is_registration db = [] then None else Some (last (filter is_registration db)))"
proof -
  have "verify_chain sha db = Inr ()" "read_all db = db" using assms by (simp_all add: store_ok_def)
  then show ?thesis
    by (cases indexed) (simp_all add: latest_registration_record_def scan_last latest_lookup find_rev_last is_registration_def [abs_def])
qed

section \<open>Runs of registrations\<close>

text \<open>
  The ledger is shared: registrations alternate with appends of other components. \<open>gp_exec\<close> runs one command on
  the table, \<open>gp_abs\<close> the same command on what it stands for, the history of registrations.
\<close>

datatype gp_cmd =
    RegisterPlan bool "string option" string string int GatePlan
  | AppendOther "string option" string Event

fun gp_exec :: "digest_fn \<Rightarrow> table \<Rightarrow> gp_cmd \<Rightarrow> table" where
  "gp_exec sha db (RegisterPlan indexed fault t cmp epoch p) = snd (register_gate_plan sha indexed fault t cmp epoch p db)"
| "gp_exec sha db (AppendOther fault t e) = snd (append_event sha fault t e db)"

fun gp_cmd_ok :: "gp_cmd \<Rightarrow> bool" where
  "gp_cmd_ok (RegisterPlan _ _ _ _ _ p) = plan_ok p"
| "gp_cmd_ok (AppendOther _ _ e) = (event_type e \<notin> set REGISTRATION_EVENT_TYPES \<and> json_wf (JObj (payload e)))"

fun gp_abs :: "digest_fn \<Rightarrow> GatePlanRegistration list \<Rightarrow> gp_cmd \<Rightarrow> GatePlanRegistration list" where
  "gp_abs sha h (RegisterPlan _ (Some _) _ _ _ _) = h"
| "gp_abs sha h (RegisterPlan _ None _ _ epoch p) =
     (if h = [] then
        [\<lparr>gr_plan = p, gr_plan_hash = plan_hash sha p, gr_paper_clock_start = epoch, gr_previous_plan_hash = None,
          gr_event_type = ''GatePlanRegistered''\<rparr>]
      else if plan_hash sha p = gr_plan_hash (last h) \<or> epoch \<le> gr_paper_clock_start (last h) then h
      else h @ [\<lparr>gr_plan = p, gr_plan_hash = plan_hash sha p, gr_paper_clock_start = epoch,
                 gr_previous_plan_hash = Some (gr_plan_hash (last h)), gr_event_type = ''GatePlanChanged''\<rparr>])"
| "gp_abs sha h (AppendOther _ _ _) = h"

definition gp_rel :: "digest_fn \<Rightarrow> table \<Rightarrow> GatePlanRegistration list \<Rightarrow> bool" where
  "gp_rel sha db h = (store_ok sha db \<and> map (registration_from_record sha) (filter is_registration db) = map Inr h \<and>
     list_all (registration_ok sha) h)"

lemma gp_rel_append:
  assumes "gp_rel sha db h" and "registration_ok sha g"
    and "append_registration sha None t (registration_event sha cmp g) g db = (res, db')"
  shows "gp_rel sha db' (h @ [g])" and "res = Inr g"
proof -
  let ?e = "registration_event sha cmp g"
  obtain r n where r: "append_event sha (None :: string option) t ?e db = (Inr n, db @ [r])" "store_ok sha (db @ [r])"
    "lr_payload_json r = envelope_json ?e" "lr_event_type r = event_type ?e"
    using assms(1) by (auto simp: gp_rel_def intro: appended [OF _ registration_payload_wf])
  have "is_registration r" using assms(2) r(4) by (auto simp: is_registration_def REGISTRATION_EVENT_TYPES_def registration_ok_def)
  moreover have "registration_from_record sha r = Inr g"
    using registration_reads_back [OF assms(2) r(3)] r(4) assms(2) by simp
  ultimately show "gp_rel sha db' (h @ [g])" "res = Inr g"
    using assms r(1,2) by (auto simp: append_registration_def gp_rel_def)
qed

lemma gp_rel_latest:
  assumes "gp_rel sha db h"
  shows "latest_gate_plan_registration sha indexed db = Inr (if h = [] then None else Some (last h))"
proof -
  have st: "store_ok sha db" and rows: "map (registration_from_record sha) (filter is_registration db) = map Inr h"
    using assms by (simp_all add: gp_rel_def)
  show ?thesis
  proof (cases "h = []")
    case True
    then show ?thesis using rows by (simp add: latest_gate_plan_registration_def latest_registration_last [OF st])
  next
    case False
    then have "filter is_registration db \<noteq> []" using rows by auto
    moreover from this have "registration_from_record sha (last (filter is_registration db)) = Inr (last h)"
      using arg_cong [OF rows, of last] False by (simp add: last_map)
    ultimately show ?thesis using False by (simp add: latest_gate_plan_registration_def latest_registration_last [OF st])
  qed
qed

lemma gp_rel_other:
  assumes "gp_rel sha db h" and "event_type e \<notin> set REGISTRATION_EVENT_TYPES" and "json_wf (JObj (payload e))"
  shows "gp_rel sha (snd (append_event sha (fault :: string option) t e db)) h"
proof (cases fault)
  case None
  obtain r n where "append_event sha (None :: string option) t e db = (Inr n, db @ [r])" "store_ok sha (db @ [r])" "lr_event_type r = event_type e"
    using assms(1) by (auto simp: gp_rel_def intro: appended [OF _ assms(3)])
  then show ?thesis using assms(1,2) None by (simp add: gp_rel_def is_registration_def)
next
  case (Some x)
  then show ?thesis using assms(1) by (simp add: append_event_def)
qed

lemma append_registration_fault: "snd (append_registration sha (Some x) t e g db) = db"
  by (simp add: append_registration_def append_event_def)

lemma gp_rel_step:
  assumes "gp_rel sha db h" and "gp_cmd_ok c"
  shows "gp_rel sha (gp_exec sha db c) (gp_abs sha h c)"
proof (cases c)
  case (AppendOther fault t e)
  then show ?thesis using gp_rel_other assms by simp
next
  case (RegisterPlan indexed fault t cmp epoch p)
  note p = assms(2) [unfolded RegisterPlan gp_cmd_ok.simps]
  note latest = gp_rel_latest [OF assms(1), of indexed]
  let ?prev = "if h = [] then None else Some (gr_plan_hash (last h))"
  let ?g = "\<lparr>gr_plan = p, gr_plan_hash = plan_hash sha p, gr_paper_clock_start = epoch, gr_previous_plan_hash = ?prev,
        gr_event_type = if h = [] then ''GatePlanRegistered'' else ''GatePlanChanged''\<rparr>"
  let ?keep = "h \<noteq> [] \<and> (plan_hash sha p = gr_plan_hash (last h) \<or> epoch \<le> gr_paper_clock_start (last h))"
  have g: "registration_ok sha ?g" by (simp add: registration_ok_def p)
  have reg: "snd (register_gate_plan sha indexed fault t cmp epoch p db) =
      (if ?keep then db else snd (append_registration sha fault t (registration_event sha cmp ?g) ?g db))"
    by (auto simp: register_gate_plan_def latest append_first_registration_def append_changed_registration_def registration_event_def)
  have abs: "gp_abs sha h c = (if fault \<noteq> None \<or> ?keep then h else h @ [?g])"
    using RegisterPlan by (cases fault) auto
  obtain res db' where run: "append_registration sha None t (registration_event sha cmp ?g) ?g db = (res, db')" by (metis surj_pair)
  have exec: "gp_exec sha db c = snd (register_gate_plan sha indexed fault t cmp epoch p db)" by (simp add: RegisterPlan)
  show ?thesis
  proof (cases "fault \<noteq> None \<or> ?keep")
    case True
    then have "gp_exec sha db c = db" unfolding exec reg by (cases fault) (auto simp: append_registration_fault)
    with True assms(1) show ?thesis unfolding abs by simp
  next
    case False
    then have "gp_exec sha db c = db'" unfolding exec reg using run by auto
    with False gp_rel_append(1) [OF assms(1) g run] show ?thesis unfolding abs by auto
  qed
qed

interpretation plan_ledger: refining_machine "gp_exec sha" "gp_abs sha" "gp_rel sha" gp_cmd_ok for sha
  by unfold_locales (rule gp_rel_step)

lemma gp_rel_Nil [simp]: "gp_rel sha [] []"
  by (simp add: gp_rel_def)

text \<open>The history only ever grows by changes at a later time.\<close>

fun plan_chain :: "GatePlanRegistration option \<Rightarrow> GatePlanRegistration list \<Rightarrow> bool" where
  "plan_chain prev [] = True"
| "plan_chain prev (g # gs) =
     (gr_previous_plan_hash g = map_option gr_plan_hash prev \<and>
      (\<forall>q. prev = Some q \<longrightarrow> gr_plan_hash q \<noteq> gr_plan_hash g \<and> gr_paper_clock_start q < gr_paper_clock_start g) \<and>
      plan_chain (Some g) gs)"

lemma plan_chain_snoc:
  "plan_chain prev (gs @ [g]) \<longleftrightarrow> plan_chain prev gs \<and> plan_chain (if gs = [] then prev else Some (last gs)) [g]"
  by (induction gs arbitrary: prev) auto

lemma gp_abs_chain: "plan_chain None h \<Longrightarrow> plan_chain None (gp_abs sha h c)"
  by (cases "(sha, h, c)" rule: gp_abs.cases) (auto simp: plan_chain_snoc)

interpretation plan_history: invariant_machine "gp_abs sha" "plan_chain None" for sha
  by unfold_locales (rule gp_abs_chain)

subsection \<open>Plans and their texts\<close>

text \<open>Values without objects are their own canonical form.\<close>

fun objectless :: "json \<Rightarrow> bool" where
  "objectless (JObj _) = False"
| "objectless (JList xs) = list_all objectless xs"
| "objectless _ = True"

lemma canon_objectless: "objectless (json_canon v) \<Longrightarrow> json_canon v = v"
  by (induction v) (auto simp: list_all_iff intro: map_idI)

lemma objectless_canonical: "dict_get (canonical_dict p) k = Some v \<Longrightarrow> objectless v"
  by (auto simp: canonical_dict_def dict_get_def windows_json_def list_all_iff split: if_splits)

lemma same_text_same_plan:
  assumes "canonical_json m = canonical_json_str p" and "plan_ok p"
  shows "from_canonical m = Inr p"
proof -
  let ?canon = "map (\<lambda>(k, v). (k, json_canon v))"
  have "json_canon (JObj m) = json_canon (JObj (canonical_dict p))"
    by (rule json_dumps_inj) (use assms(1) in \<open>simp only: canonical_json_str_def canonical_json_def\<close>)
  then have "sort_key fst (?canon m) = sort_key fst (?canon (canonical_dict p))" by simp
  then have "distinct (map fst (?canon m)) = distinct (map fst (?canon (canonical_dict p)))" by (metis distinct_map_sort_key)
  then have wf: "dict_wf m" using canonical_dict_wf [of p] by (simp add: dict_wf_def comp_def case_prod_unfold)
  have "dict_get m k = dict_get (canonical_dict p) k" for k
  proof -
    have "map_option json_canon (dict_get m k) = dict_get (canonical_dict p) k"
      using assms(1) canonical_json_eq_iff [OF wf canonical_dict_wf] map_option_canon_canonical unfolding canonical_json_str_def by metis
    then show ?thesis using objectless_canonical [of p k] canon_objectless by (cases "dict_get m k") (simp_all, metis)
  qed
  then show ?thesis by (intro from_canonical_ext wf assms(2))
qed

section \<open>Properties\<close>

text \<open>C26. The ledger holds the history of gate plans exactly. Over any run of registrations and of appends by other components, with
  appends that fail in between, the chain verifies, the registration rows read back as the history the rules give, and the
  latest registration is its end, by the index or by the scan. The history starts with a registration and goes on by changes: each
  links to the hash of the plan before it, has a different hash, and starts a paper clock strictly later.\<close>

theorem registrations_are_the_history:
  assumes "list_all gp_cmd_ok cmds"
  shows "let db = foldl (gp_exec sha) [] cmds; h = foldl (gp_abs sha) [] cmds in
    verify_chain sha db = Inr () \<and>
    map (registration_from_record sha) (filter (\<lambda>r. lr_event_type r \<in> set REGISTRATION_EVENT_TYPES) (read_all db)) = map Inr h \<and>
    latest_gate_plan_registration sha indexed db = Inr (if h = [] then None else Some (last h)) \<and> plan_chain None h"
proof -
  let ?db = "foldl (gp_exec sha) [] cmds" and ?h = "foldl (gp_abs sha) [] cmds"
  have rel: "gp_rel sha ?db ?h" by (rule plan_ledger.run_refines [OF gp_rel_Nil assms])
  then have "verify_chain sha ?db = Inr ()" "read_all ?db = ?db"
    "map (registration_from_record sha) (filter is_registration ?db) = map Inr ?h" by (simp_all add: gp_rel_def store_ok_def)
  moreover have "plan_chain None ?h" by (rule plan_history.run_inv) simp
  ultimately show ?thesis using gp_rel_latest [OF rel] by (simp add: Let_def is_registration_def [abs_def])
qed

definition sample_plan :: "int \<Rightarrow> GatePlan" where
  "sample_plan required = \<lparr>gp_metric_windows = [(''brier'', ''latest_before_close'')], gp_min_resolved_for_calibration = 150,
     gp_promotion_min_resolved = 300, gp_promotion_min_independent_event_groups = 100, gp_brier_skill_required_ppm = required,
     gp_bootstrap_confidence_ppm = 950000, gp_observation_window = ''latest_before_close'',
     gp_baseline_scheme = EXECUTABLE_PRICE_BASELINE_SCHEME, gp_clustering_scheme = CORRELATION_GROUP_CLUSTERING_SCHEME,
     gp_paper_fill_model_version = ''v1'', gp_live_rolling_window_size = 100, gp_live_slippage_ratio_limit_ppm = 1500000,
     gp_live_brier_degradation_band_ppm = 50000\<rparr>"

definition sample_plan_cmds :: "gp_cmd list" where
  "sample_plan_cmds = [RegisterPlan True None ''t1'' ''evaluation'' 1000 (sample_plan 10000), AppendOther None ''t2'' (ModeHeartbeat ''riskkernel'' ''PAPER'' 1),
     RegisterPlan False None ''t3'' ''evaluation'' 2000 (sample_plan 10000), RegisterPlan True None ''t4'' ''evaluation'' 900 (sample_plan 5000),
     RegisterPlan True (Some ''disk full'') ''t5'' ''evaluation'' 3000 (sample_plan 5000), RegisterPlan True None ''t6'' ''evaluation'' 4000 (sample_plan 5000)]"

lemma sample_plan_text: "canonical_json_str (sample_plan 10000) \<noteq> canonical_json_str (sample_plan 5000)"
proof
  assume "canonical_json_str (sample_plan 10000) = canonical_json_str (sample_plan 5000)"
  then have "map_option json_canon (dict_get (canonical_dict (sample_plan 10000)) ''brier_skill_required_ppm'') =
      map_option json_canon (dict_get (canonical_dict (sample_plan 5000)) ''brier_skill_required_ppm'')"
    using canonical_json_eq_iff [OF canonical_dict_wf canonical_dict_wf] unfolding canonical_json_str_def by blast
  then show False by (simp add: canonical_dict_def sample_plan_def dict_get_def plan_key_defs)
qed

lemma sample_plan_cmds_ok: "list_all gp_cmd_ok sample_plan_cmds"
  by (simp add: sample_plan_cmds_def plan_ok_def sample_plan_def typed_event_defs dict_wf_def REGISTRATION_EVENT_TYPES_def)

lemma sample_plan_history:
  "foldl (gp_abs (\<lambda>s. s)) [] sample_plan_cmds =
     [\<lparr>gr_plan = sample_plan 10000, gr_plan_hash = canonical_json_str (sample_plan 10000), gr_paper_clock_start = 1000, gr_previous_plan_hash = None,
        gr_event_type = ''GatePlanRegistered''\<rparr>,
      \<lparr>gr_plan = sample_plan 5000, gr_plan_hash = canonical_json_str (sample_plan 5000), gr_paper_clock_start = 4000,
        gr_previous_plan_hash = Some (canonical_json_str (sample_plan 10000)), gr_event_type = ''GatePlanChanged''\<rparr>]"
  using sample_plan_text by (simp add: sample_plan_cmds_def plan_hash_def)

theorem registrations_are_the_history_witness:
  "\<exists>g. latest_gate_plan_registration (\<lambda>s. s) True (foldl (gp_exec (\<lambda>s. s)) [] sample_plan_cmds) = Inr (Some g) \<and>
     gr_plan g = sample_plan 5000 \<and> gr_paper_clock_start g = 4000 \<and>
     gr_previous_plan_hash g = Some (canonical_json_str (sample_plan 10000))"
  using registrations_are_the_history [OF sample_plan_cmds_ok, of "\<lambda>s. s" True] by (simp add: Let_def sample_plan_history)

text \<open>C29. A plan's hash pins the plan. A row that reads as a registration with the hash of a plan holds that very plan, unless the
  digest collides on two texts the row and the plan name.\<close>

theorem plan_hash_pins_plan:
  assumes "registration_from_record sha r = Inr g" and "GatePlan_new q = Inr p" and "gr_plan_hash g = plan_hash sha p"
  shows "gr_plan g = p \<or> (\<exists>envelope data. json_loads (lr_payload_json r) = Inr (JObj envelope) \<and>
    dict_get envelope ''data'' = Some (JObj data) \<and> collides sha (canonical_json (plan_fields_of data)) (canonical_json_str p))"
proof -
  obtain envelope where e: "json_loads (lr_payload_json r) = Inr (JObj envelope)"
    "res_bind (require_present envelope ''data'') (\<lambda>d. case d of JObj data \<Rightarrow> registration_from_data sha (lr_event_type r) data
       | _ \<Rightarrow> Inl GpTypeError) = Inr g"
    using assms(1) by (auto simp: registration_from_record_def split: sum.splits json.splits)
  then obtain d where "dict_get envelope ''data'' = Some d"
    "(case d of JObj data \<Rightarrow> registration_from_data sha (lr_event_type r) data | _ \<Rightarrow> Inl GpTypeError) = Inr g"
    by (cases "dict_get envelope ''data''") (simp_all add: require_present_def)
  with e(1) obtain data where d: "json_loads (lr_payload_json r) = Inr (JObj envelope)" "dict_get envelope ''data'' = Some (JObj data)"
    "registration_from_data sha (lr_event_type r) data = Inr g" by (cases d) auto
  have h: "sha (canonical_json (plan_fields_of data)) = gr_plan_hash g" "from_canonical (plan_fields_of data) = Inr (gr_plan g)"
    using d(3) by (auto simp: registration_from_data_def Let_def res_bind_Inr_iff split: if_splits)
  show ?thesis
  proof (cases "canonical_json (plan_fields_of data) = canonical_json_str p")
    case True
    from same_text_same_plan [OF this GatePlan_new_ok [OF assms(2)]] h(2) show ?thesis by simp
  next
    case False
    with d h(1) assms(3) show ?thesis by (auto simp: collides_def plan_hash_def)
  qed
qed

theorem plan_hash_pins_plan_witness:
  "\<exists>r g. r \<in> set (foldl (gp_exec (\<lambda>s. s)) [] (take 1 sample_plan_cmds)) \<and> registration_from_record (\<lambda>s. s) r = Inr g \<and>
     gr_plan g = sample_plan 10000"
proof -
  let ?sha = "\<lambda>s :: string. s" and ?db = "foldl (gp_exec (\<lambda>s. s)) [] (take 1 sample_plan_cmds)"
  let ?g = "\<lparr>gr_plan = sample_plan 10000, gr_plan_hash = plan_hash ?sha (sample_plan 10000), gr_paper_clock_start = 1000,
    gr_previous_plan_hash = None, gr_event_type = ''GatePlanRegistered''\<rparr>"
  have "list_all gp_cmd_ok (take 1 sample_plan_cmds)" by (simp add: sample_plan_cmds_def plan_ok_def sample_plan_def)
  then have "gp_rel ?sha ?db (foldl (gp_abs ?sha) [] (take 1 sample_plan_cmds))" by (rule plan_ledger.run_refines [OF gp_rel_Nil])
  moreover have "foldl (gp_abs ?sha) [] (take 1 sample_plan_cmds) = [?g]" by (simp add: sample_plan_cmds_def)
  ultimately have rows: "map (registration_from_record ?sha) (filter is_registration ?db) = [Inr ?g]" by (simp add: gp_rel_def)
  then obtain r where "filter is_registration ?db = [r]" and g: "registration_from_record ?sha r = Inr ?g" by auto
  then have mem: "r \<in> set ?db" by (metis filter_eq_ConsD in_set_conv_decomp)
  have "GatePlan_new (sample_plan 10000) = Inr (sample_plan 10000)" by (rule GatePlan_new_id) (simp add: plan_ok_def sample_plan_def)
  with plan_hash_pins_plan [OF g] mem g show ?thesis by (auto simp: collides_def)
qed

section \<open>What does not hold\<close>

text \<open>A registration without the metric catalogue, with the hash of what it does hold, raises \<open>KeyError\<close>, which is neither of
  the errors the reader documents and the kernel turns into its fail-closed refusal.\<close>

lemma missing_catalogue_is_key_error:
  "registration_from_data sha ''GatePlanRegistered'' [(''plan_hash'', JStr (sha ''{}'')), (''paper_clock_start'', JInt 0)] = Inl GpKeyError"
proof -
  have "canonical_json [] = ''{}''" by (simp add: canonical_json_def)
  then show ?thesis
    by (simp add: registration_from_data_def plan_fields_of_def REGISTRATION_ONLY_KEYS_def require_mapping_str_def require_present_def
        from_canonical_def dict_get_def)
qed

end
