(* ===== verification/Promotion.thy ===== *)
theory Promotion
  imports GatePlan Modes
begin

text \<open>
  Promotion gates (\<open>windbreak/riskkernel/promotion.py\<close>) and the anchoring of their evidence to the registered
  gate plan (\<open>windbreak/riskkernel/evidence.py\<close>). Evidence fields are read by name, as the code does with
  \<open>getattr\<close>; a name that is no field is \<open>AttributeError\<close>.
\<close>

section \<open>Gates\<close>

definition RESEARCH_MIN_FORECASTS :: int where "RESEARCH_MIN_FORECASTS = 50"
definition RESEARCH_MIN_ERROR_FREE_DAYS :: int where "RESEARCH_MIN_ERROR_FREE_DAYS = 14"
definition PAPER_MIN_WINDOW_DAYS :: int where "PAPER_MIN_WINDOW_DAYS = 90"
definition PAPER_MAX_DRAWDOWN_THRESHOLD_PPM :: int where "PAPER_MAX_DRAWDOWN_THRESHOLD_PPM = 300000"
definition CALIBRATION_SLOPE_LOW_PPM :: int where "CALIBRATION_SLOPE_LOW_PPM = 800000"
definition CALIBRATION_SLOPE_HIGH_PPM :: int where "CALIBRATION_SLOPE_HIGH_PPM = 1200000"
definition LIVE_MICRO_MIN_DAYS :: int where "LIVE_MICRO_MIN_DAYS = 60"
definition LIVE_SLIPPAGE_MAX_PPM :: int where "LIVE_SLIPPAGE_MAX_PPM = 50000"
definition LIVE_BRIER_DEGRADATION_MAX_PPM :: int where "LIVE_BRIER_DEGRADATION_MAX_PPM = 20000"
definition STRICT_POSITIVE_FLOOR :: int where "STRICT_POSITIVE_FLOOR = 0"
definition FORBIDDEN_COUNT :: int where "FORBIDDEN_COUNT = 0"
definition TRUTHY_THRESHOLD :: int where "TRUTHY_THRESHOLD = 1"

definition SIGNIFICANCE_OVERRIDE_ACK_PHRASE :: string where
  "SIGNIFICANCE_OVERRIDE_ACK_PHRASE = ''OVERRIDE SIGNIFICANCE GATE: I ACCEPT REDUCED STATISTICAL CONFIDENCE''"
definition OVERRIDE_CEILING :: Mode where "OVERRIDE_CEILING = LIVE_MICRO"
definition OVERRIDE_EVENT_TYPE :: string where "OVERRIDE_EVENT_TYPE = ''SignificanceOverrideApplied''"

datatype promotion_error = OverrideAcknowledgementError | GatePlanUnavailableError string | GatePlanReadError gp_error
  | PromotionModeError mode_error | EvidenceAttributeError

datatype Comparison = GE | GT | LE | LT | EQ | IS_TRUE

fun comparison_name :: "Comparison \<Rightarrow> string" where
  "comparison_name GE = ''GE''" | "comparison_name GT = ''GT''" | "comparison_name LE = ''LE''"
| "comparison_name LT = ''LT''" | "comparison_name EQ = ''EQ''" | "comparison_name IS_TRUE = ''IS_TRUE''"

fun COMPARATORS :: "Comparison \<Rightarrow> int \<Rightarrow> int \<Rightarrow> bool" where
  "COMPARATORS GE observed t = (observed \<ge> t)"
| "COMPARATORS GT observed t = (observed > t)"
| "COMPARATORS LE observed t = (observed \<le> t)"
| "COMPARATORS LT observed t = (observed < t)"
| "COMPARATORS EQ observed t = (observed = t)"
| "COMPARATORS IS_TRUE observed t = (observed \<ge> t)"

record GateEvidence =
  forecast_count :: int
  adversarial_suite_green :: bool
  days_without_unhandled_errors :: int
  ledger_rebuild_verified :: bool
  resolved_realtime_forecast_count :: int
  independent_event_group_count :: int
  brier_skill_ppm :: int
  brier_skill_ci_lower_ppm :: int
  brier_skill_ci_upper_ppm :: int
  paper_pnl_net_micro_usd :: int
  paper_window_days :: int
  paper_max_drawdown_ppm :: int
  calibration_slope_ppm :: int
  kernel_invariant_failure_count :: int
  live_micro_days :: int
  live_slippage_vs_paper_ppm :: int
  live_brier_degradation_ppm :: int
  reconciliation_halt_count :: int
  invariant_violation_count :: int
  operator_confirmation :: bool

definition evidence_to_payload :: "GateEvidence \<Rightarrow> payload" where
  "evidence_to_payload e =
     [(''forecast_count'', JInt (forecast_count e)), (''adversarial_suite_green'', JBool (adversarial_suite_green e)),
      (''days_without_unhandled_errors'', JInt (days_without_unhandled_errors e)),
      (''ledger_rebuild_verified'', JBool (ledger_rebuild_verified e)),
      (''resolved_realtime_forecast_count'', JInt (resolved_realtime_forecast_count e)),
      (''independent_event_group_count'', JInt (independent_event_group_count e)),
      (''brier_skill_ppm'', JInt (brier_skill_ppm e)), (''brier_skill_ci_lower_ppm'', JInt (brier_skill_ci_lower_ppm e)),
      (''brier_skill_ci_upper_ppm'', JInt (brier_skill_ci_upper_ppm e)),
      (''paper_pnl_net_micro_usd'', JInt (paper_pnl_net_micro_usd e)), (''paper_window_days'', JInt (paper_window_days e)),
      (''paper_max_drawdown_ppm'', JInt (paper_max_drawdown_ppm e)), (''calibration_slope_ppm'', JInt (calibration_slope_ppm e)),
      (''kernel_invariant_failure_count'', JInt (kernel_invariant_failure_count e)), (''live_micro_days'', JInt (live_micro_days e)),
      (''live_slippage_vs_paper_ppm'', JInt (live_slippage_vs_paper_ppm e)),
      (''live_brier_degradation_ppm'', JInt (live_brier_degradation_ppm e)),
      (''reconciliation_halt_count'', JInt (reconciliation_halt_count e)),
      (''invariant_violation_count'', JInt (invariant_violation_count e)), (''operator_confirmation'', JBool (operator_confirmation e))]"

record GateCriterion =
  gc_criterion_id :: string
  gc_evidence_field :: string
  gc_comparison :: Comparison
  gc_threshold :: int
  gc_description :: string
  gc_overridable :: bool

definition criterion_to_payload :: "GateCriterion \<Rightarrow> payload" where
  "criterion_to_payload c =
     [(''criterion_id'', JStr (gc_criterion_id c)), (''evidence_field'', JStr (gc_evidence_field c)),
      (''comparison'', JStr (comparison_name (gc_comparison c))), (''threshold'', JInt (gc_threshold c)),
      (''description'', JStr (gc_description c)), (''overridable'', JBool (gc_overridable c))]"

record PromotionGate =
  pg_source :: Mode
  pg_target :: Mode
  pg_criteria :: "GateCriterion list"

definition gate_to_payload :: "PromotionGate \<Rightarrow> payload" where
  "gate_to_payload g =
     [(''source'', JStr (mode_name (pg_source g))), (''target'', JStr (mode_name (pg_target g))),
      (''criteria'', JList (map (\<lambda>c. JObj (criterion_to_payload c)) (pg_criteria g)))]"

record CriterionResult =
  crr_criterion_id :: string
  crr_observed :: int
  crr_threshold :: int
  crr_comparison :: Comparison
  crr_passed :: bool

record PromotionDecision =
  pd_source :: Mode
  pd_target :: Mode
  pd_approved :: bool
  pd_results :: "CriterionResult list"

text \<open>A criterion as the code writes it, not overridable.\<close>

definition criterion :: "string \<Rightarrow> string \<Rightarrow> Comparison \<Rightarrow> int \<Rightarrow> string \<Rightarrow> GateCriterion" where
  "criterion cid field cmp t description =
     \<lparr>gc_criterion_id = cid, gc_evidence_field = field, gc_comparison = cmp, gc_threshold = t, gc_description = description,
      gc_overridable = False\<rparr>"

definition research_to_paper_gate :: PromotionGate where
  "research_to_paper_gate = \<lparr>pg_source = RESEARCH, pg_target = PAPER, pg_criteria =
     [criterion ''research_min_forecasts'' ''forecast_count'' GE RESEARCH_MIN_FORECASTS ''at least 50 resolved forecasts'',
      criterion ''research_error_free_days'' ''days_without_unhandled_errors'' GE RESEARCH_MIN_ERROR_FREE_DAYS
        ''at least 14 consecutive error-free days'',
      criterion ''research_adversarial_suite_green'' ''adversarial_suite_green'' IS_TRUE TRUTHY_THRESHOLD ''adversarial test suite is green'',
      criterion ''research_ledger_rebuild_verified'' ''ledger_rebuild_verified'' IS_TRUE TRUTHY_THRESHOLD
        ''ledger rebuild reproduced kernel state'']\<rparr>"

definition paper_gate_from_thresholds :: "int \<Rightarrow> int \<Rightarrow> int \<Rightarrow> PromotionGate" where
  "paper_gate_from_thresholds min_resolved min_groups brier_required = \<lparr>pg_source = PAPER, pg_target = LIVE_MICRO, pg_criteria =
     [criterion ''paper_resolved_forecasts'' ''resolved_realtime_forecast_count'' GE min_resolved ''enough resolved real-time forecasts'',
      criterion ''paper_independent_event_groups'' ''independent_event_group_count'' GE min_groups ''enough independent event groups'',
      criterion ''paper_brier_skill'' ''brier_skill_ppm'' GE brier_required ''Brier skill meets the required floor'',
      (criterion ''paper_brier_skill_significance'' ''brier_skill_ci_lower_ppm'' GT STRICT_POSITIVE_FLOOR
        ''Brier-skill confidence interval excludes zero'')\<lparr>gc_overridable := True\<rparr>,
      criterion ''paper_pnl_positive'' ''paper_pnl_net_micro_usd'' GT STRICT_POSITIVE_FLOOR ''net paper P&L is positive'',
      criterion ''paper_window_days'' ''paper_window_days'' GE PAPER_MIN_WINDOW_DAYS ''paper window is long enough'',
      criterion ''paper_max_drawdown'' ''paper_max_drawdown_ppm'' LT PAPER_MAX_DRAWDOWN_THRESHOLD_PPM
        ''paper max drawdown stays under the ceiling'',
      criterion ''paper_calibration_slope_low'' ''calibration_slope_ppm'' GE CALIBRATION_SLOPE_LOW_PPM
        (''calibration slope at or above the band'' @ [CHR 0x27] @ ''s low edge''),
      criterion ''paper_calibration_slope_high'' ''calibration_slope_ppm'' LE CALIBRATION_SLOPE_HIGH_PPM
        (''calibration slope at or below the band'' @ [CHR 0x27] @ ''s high edge''),
      criterion ''paper_kernel_invariant_failures'' ''kernel_invariant_failure_count'' EQ FORBIDDEN_COUNT
        ''no kernel invariant failures'']\<rparr>"

definition paper_to_live_micro_gate :: "EvaluationConfig \<Rightarrow> PromotionGate" where
  "paper_to_live_micro_gate ev = paper_gate_from_thresholds (ev_promotion_min_resolved ev)
     (ev_promotion_min_independent_event_groups ev) (ev_brier_skill_required_ppm ev)"

definition live_micro_to_live_gate :: PromotionGate where
  "live_micro_to_live_gate = \<lparr>pg_source = LIVE_MICRO, pg_target = LIVE, pg_criteria =
     [criterion ''live_micro_days'' ''live_micro_days'' GE LIVE_MICRO_MIN_DAYS ''enough days in live-micro mode'',
      criterion ''live_micro_slippage'' ''live_slippage_vs_paper_ppm'' LE LIVE_SLIPPAGE_MAX_PPM ''live-vs-paper slippage within tolerance'',
      criterion ''live_micro_brier_degradation'' ''live_brier_degradation_ppm'' LE LIVE_BRIER_DEGRADATION_MAX_PPM
        ''live Brier degradation within tolerance'',
      criterion ''live_micro_reconciliation_halts'' ''reconciliation_halt_count'' EQ FORBIDDEN_COUNT ''no reconciliation halts'',
      criterion ''live_micro_invariant_violations'' ''invariant_violation_count'' EQ FORBIDDEN_COUNT ''no invariant violations'',
      criterion ''live_micro_operator_confirmation'' ''operator_confirmation'' IS_TRUE TRUTHY_THRESHOLD
        ''operator confirmed the promotion'']\<rparr>"

definition build_promotion_gates :: "EvaluationConfig \<Rightarrow> (Mode, PromotionGate) pydict" where
  "build_promotion_gates ev = [(RESEARCH, research_to_paper_gate), (PAPER, paper_to_live_micro_gate ev), (LIVE_MICRO, live_micro_to_live_gate)]"

definition constant_promotion_gates :: "(Mode, PromotionGate) pydict" where
  "constant_promotion_gates = [(RESEARCH, research_to_paper_gate), (LIVE_MICRO, live_micro_to_live_gate)]"

section \<open>Evaluation\<close>

definition observed_value :: "GateEvidence \<Rightarrow> string \<Rightarrow> promotion_error + int" where
  "observed_value e field =
     (case dict_get (evidence_to_payload e) field of Some (JInt i) \<Rightarrow> Inr i | Some (JBool b) \<Rightarrow> Inr (if b then 1 else 0)
      | _ \<Rightarrow> Inl EvidenceAttributeError)"

definition evaluate_criterion :: "GateCriterion \<Rightarrow> GateEvidence \<Rightarrow> promotion_error + CriterionResult" where
  "evaluate_criterion c e =
     res_bind (observed_value e (gc_evidence_field c)) (\<lambda>observed.
       Inr \<lparr>crr_criterion_id = gc_criterion_id c, crr_observed = observed, crr_threshold = gc_threshold c,
            crr_comparison = gc_comparison c, crr_passed = COMPARATORS (gc_comparison c) observed (gc_threshold c)\<rparr>)"

fun evaluate_criteria :: "GateCriterion list \<Rightarrow> GateEvidence \<Rightarrow> promotion_error + CriterionResult list" where
  "evaluate_criteria [] e = Inr []"
| "evaluate_criteria (c # cs) e =
     res_bind (evaluate_criterion c e) (\<lambda>r. res_bind (evaluate_criteria cs e) (\<lambda>rs. Inr (r # rs)))"

definition evaluate_promotion :: "PromotionGate \<Rightarrow> GateEvidence \<Rightarrow> promotion_error + PromotionDecision" where
  "evaluate_promotion gate e =
     res_bind (evaluate_criteria (pg_criteria gate) e) (\<lambda>rs.
       Inr \<lparr>pd_source = pg_source gate, pd_target = pg_target gate, pd_approved = list_all crr_passed rs, pd_results = rs\<rparr>)"

definition effective_mode_ceiling :: "Mode \<Rightarrow> bool \<Rightarrow> mode_error + Mode" where
  "effective_mode_ceiling configured override =
     (if \<not> override then Inr configured
      else res_bind (rank_index configured) (\<lambda>c. res_bind (rank_index OVERRIDE_CEILING) (\<lambda>o'.
        Inr (if c \<le> o' then configured else OVERRIDE_CEILING))))"

definition override_applied_in :: "Event list \<Rightarrow> bool" where
  "override_applied_in events = list_ex (\<lambda>e. event_type e = OVERRIDE_EVENT_TYPE) events"

section \<open>Anchored evidence\<close>

definition SECONDS_PER_DAY :: int where "SECONDS_PER_DAY = 86400"

text \<open>\<open>ValueError\<close> and \<open>TypeError\<close> of the reader become the fail-closed error; nothing else is caught.\<close>

definition unreadable_plan :: "string \<Rightarrow> gp_error \<Rightarrow> promotion_error" where
  "unreadable_plan message e = (if e = GpValueError \<or> e = GpTypeError then GatePlanUnavailableError message else GatePlanReadError e)"

definition anchored_paper_window_days :: "digest_fn \<Rightarrow> bool \<Rightarrow> table option \<Rightarrow> int \<Rightarrow> promotion_error + int" where
  "anchored_paper_window_days sha indexed store now =
     (case store of
        None \<Rightarrow> Inl (GatePlanUnavailableError ''no gate plan store wired; promotion evidence cannot be anchored (fail-closed)'')
      | Some db \<Rightarrow>
          (case latest_gate_plan_registration sha indexed db of
             Inl e \<Rightarrow> Inl (unreadable_plan ''registered gate plan is unreadable; promotion evidence cannot be anchored (fail-closed)'' e)
           | Inr None \<Rightarrow> Inl (GatePlanUnavailableError ''no registered gate plan; promotion evidence cannot be anchored (fail-closed)'')
           | Inr (Some reg) \<Rightarrow>
               (let elapsed = now - gr_paper_clock_start reg in
                if elapsed < 0 then
                  Inl (GatePlanUnavailableError
                    ''clock is behind the registered paper_clock_start; promotion evidence cannot be anchored (fail-closed)'')
                else Inr (elapsed div SECONDS_PER_DAY))))"

definition anchor_gate_evidence :: "digest_fn \<Rightarrow> bool \<Rightarrow> table option \<Rightarrow> int \<Rightarrow> GateEvidence \<Rightarrow> promotion_error + GateEvidence" where
  "anchor_gate_evidence sha indexed store now e =
     res_bind (anchored_paper_window_days sha indexed store now) (\<lambda>days. Inr (e\<lparr>paper_window_days := days\<rparr>))"

end
