(* ===== verification/Kernel.thy ===== *)
theory Kernel
  imports Promotion Kill Verification
begin

text \<open>
  The risk kernel process (\<open>windbreak/riskkernel/process.py\<close>): promotion, demotion, the significance override, the
  verification cycle with its halt, the kill triggers, the heartbeat, and the ledgered evaluation of an intent. As in
  \<open>windbreak/main.py\<close> the kernel, the kill switch and the verifier share one mode machine and one ledger writer: the machine and
  the events are those of the kill switch in \<open>kn_switch\<close>, and a cycle of the verifier writes to the same events.
  Clock readings, the state directory and what the venue answers are arguments. An operation that raises after it changed the
  kernel returns both. The command line, the signal handlers and the logging writer are not modelled.
\<close>

section \<open>Definitions\<close>

definition KN_COMPONENT :: string where "KN_COMPONENT = ''riskkernel''"
definition INTENT_VETOED_EVENT :: string where "INTENT_VETOED_EVENT = ''IntentVetoed''"
definition KILLED_VETO_REASON :: string where "KILLED_VETO_REASON = ''KILLED''"
definition INTENT_APPROVED_EVENT :: string where "INTENT_APPROVED_EVENT = ''IntentApproved''"
definition VERIFICATION_MISMATCH_HALT_EVENT :: string where "VERIFICATION_MISMATCH_HALT_EVENT = ''VerificationMismatchHalt''"
definition PAYLOAD_SCHEMA_VERSION :: int where "PAYLOAD_SCHEMA_VERSION = 1"
definition DEFAULT_MODE_CEILING :: Mode where "DEFAULT_MODE_CEILING = PAPER"
definition PAPER_PROMOTION_TARGET :: Mode where "PAPER_PROMOTION_TARGET = LIVE_MICRO"
definition SAFETY_DESTINATIONS :: "Mode set" where "SAFETY_DESTINATIONS = {PAUSED, HALT, KILLED}"

datatype kernel_error = KernelPromotionError promotion_error | KernelModeError mode_error | KernelReplayError replay_error
  | KernelVerificationError vf_error

record KillIntegration =
  ki_watcher :: bool
  ki_monitor :: "ReconciliationMismatchMonitor option"

record 'f RiskKernel =
  kn_switch :: KillSwitch
  kn_integration :: "KillIntegration option"
  kn_verifier :: "'f ReadOnlyVerifier option"
  kn_latest_verification :: "VerificationSnapshot option"
  kn_override_applied :: bool
  kn_ledger_blocked_promotions :: bool

definition kn_machine :: "'f RiskKernel \<Rightarrow> ModeStateMachine" where "kn_machine k = ks_machine (kn_switch k)"
definition kn_mode :: "'f RiskKernel \<Rightarrow> Mode" where "kn_mode k = msm_mode (kn_machine k)"
definition kn_events :: "'f RiskKernel \<Rightarrow> event_log" where "kn_events k = ks_log (kn_switch k)"

definition kn_record :: "Event \<Rightarrow> 'f RiskKernel \<Rightarrow> 'f RiskKernel" where
  "kn_record e k = k\<lparr>kn_switch := ks_record e (kn_switch k)\<rparr>"

definition kn_set_machine :: "ModeStateMachine \<Rightarrow> 'f RiskKernel \<Rightarrow> 'f RiskKernel" where
  "kn_set_machine m k = k\<lparr>kn_switch := (kn_switch k)\<lparr>ks_machine := m\<rparr>\<rparr>"

definition RiskKernel_new :: "KillSwitch \<Rightarrow> KillIntegration option \<Rightarrow> 'f ReadOnlyVerifier option \<Rightarrow> bool \<Rightarrow> 'f RiskKernel" where
  "RiskKernel_new switch integration verifier blocked =
     \<lparr>kn_switch = switch, kn_integration = integration, kn_verifier = verifier, kn_latest_verification = None,
      kn_override_applied = False, kn_ledger_blocked_promotions = blocked\<rparr>"

definition RiskKernel_from_events ::
    "Event list \<Rightarrow> KillSwitch \<Rightarrow> KillIntegration option \<Rightarrow> 'f ReadOnlyVerifier option \<Rightarrow> bool \<Rightarrow> kernel_error + 'f RiskKernel" where
  "RiskKernel_from_events events switch integration verifier blocked =
     (let k = (RiskKernel_new switch integration verifier blocked)\<lparr>kn_override_applied := override_applied_in events\<rparr> in
      case kill_state_in events of
        Inl e \<Rightarrow> Inl (KernelReplayError e)
      | Inr st \<Rightarrow>
          (if rk_killed st \<and> kn_mode k \<noteq> KILLED then
             (case mode_transition (kn_machine k) KILLED of
                Inl e \<Rightarrow> Inl (KernelModeError e) | Inr m \<Rightarrow> Inr (kn_set_machine m k))
           else Inr k))"

definition mode_ceiling_effective :: "'f RiskKernel \<Rightarrow> mode_error + Mode" where
  "mode_ceiling_effective k = effective_mode_ceiling (msm_ceiling (kn_machine k)) (kn_override_applied k)"

subsection \<open>Promotion\<close>

definition result_payload :: "CriterionResult \<Rightarrow> json" where
  "result_payload r = JObj
     [(''criterion_id'', JStr (crr_criterion_id r)), (''observed'', JInt (crr_observed r)), (''threshold'', JInt (crr_threshold r)),
      (''comparison'', JStr (comparison_name (crr_comparison r))), (''passed'', JBool (crr_passed r))]"

definition override_promotes :: "PromotionGate \<Rightarrow> PromotionDecision \<Rightarrow> bool \<Rightarrow> bool" where
  "override_promotes gate d override_active =
     (let overridable_ids = gc_criterion_id ` {c \<in> set (pg_criteria gate). gc_overridable c};
          failures = filter (\<lambda>r. \<not> crr_passed r) (pd_results d) in
      override_active \<and> \<not> pd_approved d \<and> failures \<noteq> [] \<and> list_all (\<lambda>r. crr_criterion_id r \<in> overridable_ids) failures)"

definition paper_gate_from_registered_plan :: "digest_fn \<Rightarrow> bool \<Rightarrow> table option \<Rightarrow> promotion_error + PromotionGate" where
  "paper_gate_from_registered_plan sha indexed store =
     (case store of
        None \<Rightarrow> Inl (GatePlanUnavailableError ''no gate plan store wired; promotion blocked (fail-closed)'')
      | Some db \<Rightarrow>
          (case latest_gate_plan_registration sha indexed db of
             Inl e \<Rightarrow> Inl (unreadable_plan ''registered gate plan is unreadable; promotion blocked (fail-closed)'' e)
           | Inr None \<Rightarrow> Inl (GatePlanUnavailableError ''no registered gate plan; promotion blocked (fail-closed)'')
           | Inr (Some reg) \<Rightarrow> Inr (paper_gate_from_thresholds (gp_promotion_min_resolved (gr_plan reg))
               (gp_promotion_min_independent_event_groups (gr_plan reg)) (gp_brier_skill_required_ppm (gr_plan reg)))))"

definition gate_for :: "digest_fn \<Rightarrow> bool \<Rightarrow> table option \<Rightarrow> Mode \<Rightarrow> promotion_error + PromotionGate" where
  "gate_for sha indexed store current =
     (if current = PAPER then paper_gate_from_registered_plan sha indexed store
      else case dict_get constant_promotion_gates current of
          None \<Rightarrow> Inl (PromotionModeError IllegalModeTransitionError) | Some g \<Rightarrow> Inr g)"

definition record_promotion_blocked :: "string \<Rightarrow> string \<Rightarrow> 'f RiskKernel \<Rightarrow> 'f RiskKernel" where
  "record_promotion_blocked source_mode why k =
     kn_record (PromotionBlocked KN_COMPONENT source_mode (mode_name PAPER_PROMOTION_TARGET) why) k"

definition promotion_event :: "PromotionGate \<Rightarrow> PromotionDecision \<Rightarrow> bool \<Rightarrow> GateEvidence \<Rightarrow> Event" where
  "promotion_event gate d bypassed e =
     PromotionEvaluated KN_COMPONENT (mode_name (pg_source gate)) (mode_name (pg_target gate)) (pd_approved d) bypassed
       (evidence_to_payload e) (map result_payload (pd_results d))"

definition request_promotion ::
    "digest_fn \<Rightarrow> bool \<Rightarrow> table option \<Rightarrow> GateEvidence \<Rightarrow> 'f RiskKernel \<Rightarrow> (kernel_error + PromotionDecision) \<times> 'f RiskKernel" where
  "request_promotion sha indexed store e k =
     (case gate_for sha indexed store (kn_mode k) of
        Inl err \<Rightarrow>
          (Inl (KernelPromotionError err),
           case err of
             GatePlanUnavailableError why \<Rightarrow>
               (if kn_ledger_blocked_promotions k then record_promotion_blocked (mode_name (kn_mode k)) why k else k)
           | _ \<Rightarrow> k)
      | Inr gate \<Rightarrow>
          (case evaluate_promotion gate e of
             Inl err \<Rightarrow> (Inl (KernelPromotionError err), k)
           | Inr d \<Rightarrow>
               (let bypassed = override_promotes gate d (kn_override_applied k);
                    k1 = kn_record (promotion_event gate d bypassed e) k in
                if pd_approved d \<or> bypassed then
                  (case res_bind (mode_ceiling_effective k1) (promote_one_rung (kn_machine k1)) of
                     Inl err \<Rightarrow> (Inl (KernelModeError err), k1)
                   | Inr m \<Rightarrow> (Inr d, kn_set_machine m k1))
                else (Inr d, k1))))"

definition apply_ledgered_override :: "string \<Rightarrow> 'f RiskKernel \<Rightarrow> promotion_error + 'f RiskKernel" where
  "apply_ledgered_override operator_ack k =
     (if operator_ack \<noteq> SIGNIFICANCE_OVERRIDE_ACK_PHRASE then Inl OverrideAcknowledgementError
      else Inr ((kn_record (SignificanceOverrideApplied KN_COMPONENT operator_ack (mode_name OVERRIDE_CEILING)) k)\<lparr>kn_override_applied := True\<rparr>))"

subsection \<open>Demotion\<close>

fun demotion_trigger_name :: "DemotionTrigger \<Rightarrow> string" where
  "demotion_trigger_name DemotionTrigger.DAILY_LOSS_BREACH = ''DAILY_LOSS_BREACH''"
| "demotion_trigger_name DemotionTrigger.DRAWDOWN_BREACH = ''DRAWDOWN_BREACH''"
| "demotion_trigger_name DemotionTrigger.BALANCE_POSITION_MISMATCH = ''BALANCE_POSITION_MISMATCH''"
| "demotion_trigger_name DemotionTrigger.FLOOR_CHECK_FAILURE = ''FLOOR_CHECK_FAILURE''"
| "demotion_trigger_name DemotionTrigger.SCHEMA_ANOMALY = ''SCHEMA_ANOMALY''"
| "demotion_trigger_name DemotionTrigger.JURISDICTION_UNKNOWN = ''JURISDICTION_UNKNOWN''"
| "demotion_trigger_name DemotionTrigger.ROLLING_BRIER_DEGRADATION = ''ROLLING_BRIER_DEGRADATION''"
| "demotion_trigger_name DemotionTrigger.LIVE_PAPER_SLIPPAGE_DIVERGENCE = ''LIVE_PAPER_SLIPPAGE_DIVERGENCE''"
| "demotion_trigger_name DemotionTrigger.CLOCK_SKEW = ''CLOCK_SKEW''"
| "demotion_trigger_name DemotionTrigger.STALE_HEARTBEAT = ''STALE_HEARTBEAT''"
| "demotion_trigger_name DemotionTrigger.FEE_MODEL_UNAVAILABLE = ''FEE_MODEL_UNAVAILABLE''"
| "demotion_trigger_name DemotionTrigger.CANARY_DRIFT_UNACKNOWLEDGED = ''CANARY_DRIFT_UNACKNOWLEDGED''"
| "demotion_trigger_name DemotionTrigger.TOKEN_REPLAY_ATTEMPT = ''TOKEN_REPLAY_ATTEMPT''"
| "demotion_trigger_name DemotionTrigger.BACKUP_FAILURES_BEYOND_LIMIT = ''BACKUP_FAILURES_BEYOND_LIMIT''"
| "demotion_trigger_name DemotionTrigger.DISK_BELOW_THRESHOLD = ''DISK_BELOW_THRESHOLD''"
| "demotion_trigger_name DemotionTrigger.MANUAL_KILL = ''MANUAL_KILL''"

fun demotion_action_name :: "DemotionAction \<Rightarrow> string" where
  "demotion_action_name PAUSE_ACTION = ''PAUSE''"
| "demotion_action_name DEMOTE_ONE_MODE = ''DEMOTE_ONE_MODE''"
| "demotion_action_name HALT_ACTION = ''HALT''"
| "demotion_action_name KILL_ACTION = ''KILL''"

text \<open>\<open>_apply_demotion\<close> on the machine is \<open>Modes.apply_demotion\<close>.\<close>

definition fire_demotion_trigger :: "DemotionTrigger \<Rightarrow> 'f RiskKernel \<Rightarrow> (kernel_error + Mode option) \<times> 'f RiskKernel" where
  "fire_demotion_trigger trigger k =
     (let current = kn_mode k in
      case resolve_demotion current trigger of
        Inl e \<Rightarrow> (Inl (KernelModeError e), k)
      | Inr destination \<Rightarrow>
          (case (case destination of None \<Rightarrow> Inr k
                 | Some t \<Rightarrow> res_bind (apply_demotion (kn_machine k) t) (\<lambda>m. Inr (kn_set_machine m k))) of
             Inl e \<Rightarrow> (Inl (KernelModeError e), k)
           | Inr k1 \<Rightarrow>
               (Inr destination,
                kn_record (DemotionTriggerFired KN_COMPONENT (demotion_trigger_name trigger)
                  (demotion_action_name (TRIGGER_ACTIONS trigger)) (mode_name current)
                  (mode_name (case destination of None \<Rightarrow> current | Some t \<Rightarrow> t)) (destination \<noteq> None)) k1)))"

subsection \<open>Verification, heartbeat and kill triggers\<close>

definition feed_mismatch_monitor ::
    "kill_env \<Rightarrow> int \<Rightarrow> VerificationOutcome \<Rightarrow> 'f RiskKernel \<times> StateDir \<Rightarrow> kernel_error + ('f RiskKernel \<times> StateDir)" where
  "feed_mismatch_monitor env kill_clock oc st =
     (let (k, d) = st in
      case kn_integration k of
        None \<Rightarrow> Inr (k, d)
      | Some i \<Rightarrow>
          (case ki_monitor i of
             None \<Rightarrow> Inr (k, d)
           | Some mon \<Rightarrow>
               (case observe env kill_clock oc mon (kn_switch k) d of
                  Inl e \<Rightarrow> Inl (KernelModeError e)
                | Inr (mon', s', d') \<Rightarrow> Inr (k\<lparr>kn_switch := s', kn_integration := Some (i\<lparr>ki_monitor := Some mon'\<rparr>)\<rparr>, d'))))"

definition halt_on_breach :: "VerificationSnapshot \<Rightarrow> 'f RiskKernel \<Rightarrow> kernel_error + 'f RiskKernel" where
  "halt_on_breach s k =
     (if kn_mode k \<in> {HALT, KILLED} then Inr k
      else case mode_transition (kn_machine k) HALT of
          Inl e \<Rightarrow> Inl (KernelModeError e)
        | Inr m \<Rightarrow> Inr (kn_record \<lparr>event_type = VERIFICATION_MISMATCH_HALT_EVENT, component = KN_COMPONENT,
            payload_schema_version = PAYLOAD_SCHEMA_VERSION,
            payload = [(''cash_drift'', JInt (val (cash_drift s))), (''verified_at_epoch_s'', JInt (verified_at_epoch_s s))]\<rparr>
            (kn_set_machine m k)))"

definition run_verification_cycle ::
    "('f \<Rightarrow> (rebuild_error + Event list) \<times> 'f) \<Rightarrow> kill_env \<Rightarrow> venue_view \<Rightarrow> int \<Rightarrow> int \<Rightarrow> 'f RiskKernel \<times> StateDir \<Rightarrow>
     (kernel_error + unit) \<times> 'f RiskKernel \<times> StateDir" where
  "run_verification_cycle drain env v now kill_clock st =
     (let (k, d) = st in
      case kn_verifier k of
        None \<Rightarrow> (Inr (), k, d)
      | Some rv \<Rightarrow>
          (case run_cycle drain v now (rv\<lparr>rv_events := kn_events k\<rparr>) of (res, rv') \<Rightarrow>
            (let k1 = k\<lparr>kn_verifier := Some rv', kn_switch := (kn_switch k)\<lparr>ks_log := rv_events rv'\<rparr>\<rparr> in
             case res of
               Inl e \<Rightarrow> (Inl (KernelVerificationError e), k1, d)
             | Inr s \<Rightarrow>
                 (let k2 = k1\<lparr>kn_latest_verification := Some s\<rparr> in
                  case feed_mismatch_monitor env kill_clock (vs_outcome s) (k2, d) of
                    Inl e \<Rightarrow> (Inl e, k2, d)
                  | Inr (k3, d') \<Rightarrow>
                      (if vs_outcome s = BREACH then
                         (case halt_on_breach s k3 of Inl e \<Rightarrow> (Inl e, k3, d') | Inr k4 \<Rightarrow> (Inr (), k4, d'))
                       else (Inr (), k3, d'))))))"

definition emit_heartbeat :: "int \<Rightarrow> 'f RiskKernel \<Rightarrow> 'f RiskKernel" where
  "emit_heartbeat beat k = kn_record (ModeHeartbeat KN_COMPONENT (mode_name (kn_mode k)) beat) k"

definition poll_kill_triggers :: "kill_env \<Rightarrow> int \<Rightarrow> 'f RiskKernel \<times> StateDir \<Rightarrow> (kernel_error + unit) \<times> 'f RiskKernel \<times> StateDir" where
  "poll_kill_triggers env now st =
     (let (k, d) = st in
      case kn_integration k of
        None \<Rightarrow> (Inr (), k, d)
      | Some i \<Rightarrow>
          (if \<not> ki_watcher i then (Inr (), k, d)
           else case kill_poll_once env now (kn_switch k) d of
               Inl e \<Rightarrow> (Inl (KernelModeError e), k, d)
             | Inr (s', d') \<Rightarrow> (Inr (), k\<lparr>kn_switch := s'\<rparr>, d')))"

text \<open>The loop, over what the venue, the clocks and the directory give each beat; the list ends where the budget or the stop
  event ends the loop. The directory is the one the operator left before the beat.\<close>

record beat_input =
  bi_view :: venue_view
  bi_now :: int
  bi_kill_clock :: int
  bi_poll_now :: int
  bi_dir :: StateDir

fun run_beats ::
    "('f \<Rightarrow> (rebuild_error + Event list) \<times> 'f) \<Rightarrow> kill_env \<Rightarrow> int \<Rightarrow> beat_input list \<Rightarrow> 'f RiskKernel \<Rightarrow>
     (kernel_error + unit) \<times> 'f RiskKernel" where
  "run_beats drain env beat [] k = (Inr (), k)"
| "run_beats drain env beat (b # bs) k =
     (case run_verification_cycle drain env (bi_view b) (bi_now b) (bi_kill_clock b) (emit_heartbeat (beat + 1) k, bi_dir b) of
        (Inl e, k1, d) \<Rightarrow> (Inl e, k1)
      | (Inr _, k1, d) \<Rightarrow>
          (case poll_kill_triggers env (bi_poll_now b) (k1, d) of
             (Inl e, k2, d') \<Rightarrow> (Inl e, k2)
           | (Inr _, k2, d') \<Rightarrow> run_beats drain env (beat + 1) bs k2))"

subsection \<open>Evaluation\<close>

definition intent_event :: "string \<Rightarrow> OrderIntent \<Rightarrow> string list \<Rightarrow> Event" where
  "intent_event t i why = \<lparr>event_type = t, component = KN_COMPONENT, payload_schema_version = PAYLOAD_SCHEMA_VERSION,
     payload = [(''intent_id'', JStr (intent_id i)), (''reasons'', JList (map JStr why))]\<rparr>"

definition veto_killed :: "OrderIntent \<Rightarrow> 'f RiskKernel \<Rightarrow> Decision \<times> 'f RiskKernel" where
  "veto_killed i k =
     (\<lparr>dec_vetoed = True, reasons = [KILLED_VETO_REASON], ledgered = True\<rparr>,
      kn_record (intent_event INTENT_VETOED_EVENT i [KILLED_VETO_REASON]) k)"

definition stamp_verification :: "'f RiskKernel \<Rightarrow> EvaluationContext \<Rightarrow> EvaluationContext" where
  "stamp_verification k c =
     (case kn_latest_verification k of
        None \<Rightarrow> c\<lparr>verification := None\<rparr>
      | Some s \<Rightarrow> c\<lparr>verification := Some s,
          account := (account c)\<lparr>exchange_verified_available_cash := vs_exchange_verified_available_cash s,
            reconciliation_uncertainty_buffer := cash_drift s\<rparr>\<rparr>)"

definition kn_effective :: "'f RiskKernel \<Rightarrow> EvaluationContext \<Rightarrow> EvaluationContext" where
  "kn_effective k c =
     (let effective = c\<lparr>ctx_mode := kn_mode k\<rparr> in if kn_verifier k \<noteq> None then stamp_verification k effective else effective)"

definition kn_evaluate_intent :: "OrderIntent \<Rightarrow> EvaluationContext \<Rightarrow> 'f RiskKernel \<Rightarrow> Decision \<times> 'f RiskKernel" where
  "kn_evaluate_intent i c k =
     (if kn_mode k = KILLED then veto_killed i k
      else
        (let d = evaluate_intent i (kn_effective k c) DEFAULT_CHECKS in
         (\<lparr>dec_vetoed = dec_vetoed d, reasons = reasons d, ledgered = True\<rparr>,
          kn_record (intent_event (if dec_vetoed d then INTENT_VETOED_EVENT else INTENT_APPROVED_EVENT) i (reasons d)) k)))"

end
