(* ===== verification/KernelSafety.thy ===== *)
theory KernelSafety
  imports Kernel
begin

text \<open>
  What the risk kernel guarantees over any run of its operations: a stopped kernel never trades again, an approval
  rests on the kernel's own verification, a promotion on exactly the evidence its gate names and on the registered gate plan, and the
  durable state is what its events replay.
\<close>

section \<open>Runs\<close>

text \<open>What can happen to a kernel: its own operations, an operator's kill or re-arm, a kill or re-arm file. An operation that raises
  leaves what it changed before.\<close>

datatype kn_cmd =
    KnPromote bool "table option" GateEvidence
  | KnOverride string
  | KnDemote DemotionTrigger
  | KnVerify venue_view int int
  | KnPoll int
  | KnHeartbeat int
  | KnEvaluate OrderIntent EvaluationContext
  | KnKill KillTrigger int
  | KnRearm string
  | KnFiles StateDir

type_synonym 'f kn_state = "'f RiskKernel \<times> StateDir"

fun kn_exec :: "digest_fn \<Rightarrow> ('f \<Rightarrow> (rebuild_error + Event list) \<times> 'f) \<Rightarrow> kill_env \<Rightarrow> 'f kn_state \<Rightarrow> kn_cmd \<Rightarrow> 'f kn_state" where
  "kn_exec sha drain env (k, d) (KnPromote indexed store e) = (snd (request_promotion sha indexed store e k), d)"
| "kn_exec sha drain env (k, d) (KnOverride ack) = (case apply_ledgered_override ack k of Inl _ \<Rightarrow> (k, d) | Inr k' \<Rightarrow> (k', d))"
| "kn_exec sha drain env (k, d) (KnDemote trigger) = (snd (fire_demotion_trigger trigger k), d)"
| "kn_exec sha drain env (k, d) (KnVerify v now kill_clock) = snd (run_verification_cycle drain env v now kill_clock (k, d))"
| "kn_exec sha drain env (k, d) (KnPoll now) = snd (poll_kill_triggers env now (k, d))"
| "kn_exec sha drain env (k, d) (KnHeartbeat n) = (emit_heartbeat n k, d)"
| "kn_exec sha drain env (k, d) (KnEvaluate i c) = (snd (kn_evaluate_intent i c k), d)"
| "kn_exec sha drain env (k, d) (KnKill trigger now) =
     (case kill env trigger now (kn_switch k) d of Inl _ \<Rightarrow> (k, d) | Inr (s', d') \<Rightarrow> (k\<lparr>kn_switch := s'\<rparr>, d'))"
| "kn_exec sha drain env (k, d) (KnRearm phrase) =
     (case kill_rearm phrase (kn_switch k) of Inl _ \<Rightarrow> (k, d) | Inr s' \<Rightarrow> (k\<lparr>kn_switch := s'\<rparr>, d))"
| "kn_exec sha drain env (k, d) (KnFiles d') = (k, d')"

section \<open>Lemmas\<close>

subsection \<open>Effects\<close>

lemma kn_fields [simp]:
  "kn_mode (kn_record e k) = kn_mode k" "kn_machine (kn_record e k) = kn_machine k" "kn_events (kn_record e k) = kn_events k @ [e]"
  "kn_override_applied (kn_record e k) = kn_override_applied k" "kn_verifier (kn_record e k) = kn_verifier k"
  "kn_latest_verification (kn_record e k) = kn_latest_verification k"
  "kn_mode (kn_set_machine m k) = msm_mode m" "kn_machine (kn_set_machine m k) = m" "kn_events (kn_set_machine m k) = kn_events k"
  "kn_override_applied (kn_set_machine m k) = kn_override_applied k" "kn_verifier (kn_set_machine m k) = kn_verifier k"
  "kn_latest_verification (kn_set_machine m k) = kn_latest_verification k"
  by (simp_all add: kn_mode_def kn_machine_def kn_events_def kn_record_def ks_record_def log_record_def kn_set_machine_def)

text \<open>What an operation may do to the switch apart from a change of mode within the ladder and the safety modes: append quiet
  events, kill, or re-arm.\<close>

definition quiet :: "Event \<Rightarrow> bool" where
  "quiet e = (event_type e \<notin> {KILL_ENGAGED_EVENT_TYPE, KILL_REARMED_EVENT_TYPE, OVERRIDE_EVENT_TYPE})"

lemmas quiet_types = quiet_def KILL_ENGAGED_EVENT_TYPE_def KILL_REARMED_EVENT_TYPE_def OVERRIDE_EVENT_TYPE_def

lemma quiet_kernel_events [simp]:
  "quiet (promotion_event gate dec b e)" "quiet (PromotionBlocked c src t w)" "quiet (DemotionTriggerFired c t a f g b)"
  "quiet (ModeHeartbeat c m n)" "quiet (intent_event INTENT_VETOED_EVENT i why)" "quiet (intent_event INTENT_APPROVED_EVENT i why)"
  "quiet (snapshot_event s)"
  by (simp_all add: quiet_types promotion_event_def intent_event_def INTENT_VETOED_EVENT_def INTENT_APPROVED_EVENT_def snapshot_event_def)
    (cases "vs_outcome s"; simp)

lemma alert_tickers_events: "rv_events (snd (alert_tickers v ts rv)) = rv_events rv"
  by (induction ts arbitrary: rv) (auto simp: vf_dispatch_def split: sum.split)

lemma run_cycle_events:
  "\<exists>es. rv_events (snd (run_cycle drain v now rv)) = rv_events rv @ es \<and> list_all quiet es"
proof -
  have d: "rv_events (snd (dispatch_alerts v ps ords oc r)) = rv_events r" for ps ords oc r
    using alert_tickers_events [of v "sort (remdups (map pos_ticker ps @ map oo_ticker ords))" r]
    by (auto simp: dispatch_alerts_def alert_unknown_jurisdictions_def vf_dispatch_def split: prod.split sum.split)
  then have d': "rv_events r' = rv_events r" if "dispatch_alerts v ps ords oc r = (res, r')" for ps ords oc r res r'
    by (metis snd_conv that)
  have "rv_events (snd (run_cycle drain v now rv)) = rv_events rv \<or> (\<exists>s. rv_events (snd (run_cycle drain v now rv)) = rv_events rv @ [snapshot_event s])"
    by (auto simp: run_cycle_def unobservable_venue_breach_def vf_dispatch_def vf_record_def log_record_def Let_def dest!: d'
        split: prod.split sum.split)
  then show ?thesis
  proof
    assume "\<exists>s. rv_events (snd (run_cycle drain v now rv)) = rv_events rv @ [snapshot_event s]"
    then obtain s where "rv_events (snd (run_cycle drain v now rv)) = rv_events rv @ [snapshot_event s]" ..
    then show ?thesis by (intro exI [of _ "[snapshot_event s]"]) simp
  qed (intro exI [of _ "[]"], simp)
qed

subsection \<open>A stopped kernel\<close>

lemma feed_effect:
  assumes "feed_mismatch_monitor env kc oc (k, d) = Inr (k', d')"
  shows "kn_verifier k' = kn_verifier k \<and> kn_latest_verification k' = kn_latest_verification k \<and> kn_override_applied k' = kn_override_applied k \<and>
    (kn_switch k' = kn_switch k \<or> kill env AUTO_RECONCILIATION kc (kn_switch k) d = Inr (kn_switch k', d'))"
  using assms
  by (auto simp: feed_mismatch_monitor_def observe_def Let_def res_bind_Inr_iff split: option.splits sum.splits if_splits)

lemma feed_total: "\<exists>st. feed_mismatch_monitor env kc oc (k, d) = Inr st"
  by (auto simp: feed_mismatch_monitor_def observe_def Let_def kill_eq split: option.split prod.split)

lemma kill_mode: "kill env t c s d = Inr (s', d') \<Longrightarrow> msm_mode (ks_machine s') = KILLED"
  by (auto simp: kill_eq split: if_splits)

lemma halt_ok: "\<exists>k'. halt_on_breach s k = Inr k' \<and> kn_mode k' = (if kn_mode k \<in> {HALT, KILLED} then kn_mode k else HALT)"
  by (cases "kn_mode k") (simp_all add: halt_on_breach_def kn_mode_def [of k] mode_transition_safety kn_machine_def [symmetric])

lemma verification_effect:
  fixes k :: "'f RiskKernel"
  assumes "run_verification_cycle drain env v now kc (k, d) = (res, k', d')" and "kn_verifier k \<noteq> None"
  shows "(kn_mode k' = kn_mode k \<or> kn_mode k' \<in> {HALT, KILLED}) \<and>
    (res = Inr () \<longrightarrow> (\<exists>s. kn_latest_verification k' = Some s \<and> (vs_outcome s = BREACH \<longrightarrow> kn_mode k' \<in> {HALT, KILLED})))"
proof -
  obtain rv where rv: "kn_verifier k = Some rv" using assms(2) by auto
  obtain r rv' where run: "run_cycle drain v now (rv\<lparr>rv_events := kn_events k\<rparr>) = (r, rv')" by (metis surj_pair)
  let ?k1 = "k\<lparr>kn_verifier := Some rv', kn_switch := (kn_switch k)\<lparr>ks_log := rv_events rv'\<rparr>\<rparr>"
  show ?thesis
  proof (cases r)
    case (Inl e)
    then show ?thesis using assms(1) rv run by (auto simp: run_verification_cycle_def Let_def kn_mode_def kn_machine_def)
  next
    case (Inr s)
    let ?k2 = "?k1\<lparr>kn_latest_verification := Some s\<rparr>"
    obtain k3 d3 where feed: "feed_mismatch_monitor env kc (vs_outcome s) (?k2, d) = Inr (k3, d3)" using feed_total by (metis surj_pair)
    have k3: "kn_latest_verification k3 = Some s" "kn_mode k3 = kn_mode k \<or> kn_mode k3 = KILLED"
      using feed_effect [OF feed] kill_mode by (auto simp: kn_mode_def kn_machine_def)
    obtain k4 where k4: "halt_on_breach s k3 = Inr k4" "kn_mode k4 = (if kn_mode k3 \<in> {HALT, KILLED} then kn_mode k3 else HALT)"
      using halt_ok by blast
    have "kn_latest_verification k4 = Some s"
      using k4(1) k3(1) by (auto simp: halt_on_breach_def split: if_splits sum.splits)
    then show ?thesis
      using assms(1) rv run Inr feed k3 k4 by (auto simp: run_verification_cycle_def Let_def split: if_splits)
  qed
qed

lemma no_verifier: "kn_verifier k = None \<Longrightarrow> run_verification_cycle drain env v now kc (k, d) = (Inr (), k, d)"
  by (simp add: run_verification_cycle_def)

lemma promotion_leaves_ladder_only:
  "kn_mode k \<in> SAFETY_MODES \<Longrightarrow> kn_mode (snd (request_promotion sha indexed store e k)) = kn_mode k"
  by (cases "kn_mode k") (simp_all add: request_promotion_def gate_for_def constant_promotion_gates_def dict_get_def)

lemma demotion_keeps_safety: "kn_mode k \<in> SAFETY_MODES \<Longrightarrow> kn_mode (snd (fire_demotion_trigger t k)) \<in> SAFETY_MODES"
  by (cases "kn_mode k"; cases t)
    (simp_all add: fire_demotion_trigger_def resolve_demotion_def resolve_safety_action_def SAFETY_ACTION_TARGET_def
      resolve_demote_one_mode_def dict_get_def Let_def apply_demotion_def mode_transition_safety kn_mode_def [of k])

definition stopped :: "'f kn_state \<Rightarrow> bool" where "stopped st = (kn_mode (fst st) \<in> SAFETY_MODES)"

lemma poll_keeps_safety:
  assumes "kn_mode k \<in> SAFETY_MODES"
  shows "kn_mode (fst (snd (poll_kill_triggers env now (k, d)))) \<in> SAFETY_MODES"
  using assms
  by (auto simp: poll_kill_triggers_def Let_def kill_poll_once_def kill_eq consume_rearm_file_def attempt_rearm_def rearm_eq kn_mode_def
      kn_machine_def split: option.split sum.split prod.split)

lemma stopped_step: "stopped st \<Longrightarrow> stopped (kn_exec sha drain env st c)"
proof (cases st)
  case (Pair k d)
  assume stop: "stopped st"
  have m: "kn_mode k \<in> SAFETY_MODES" using stop Pair by (simp add: stopped_def)
  show ?thesis
  proof (cases c)
    case (KnPromote indexed store e)
    then show ?thesis using promotion_leaves_ladder_only [OF m] m by (simp add: Pair stopped_def)
  next
    case (KnDemote t)
    then show ?thesis using demotion_keeps_safety [OF m] by (simp add: Pair stopped_def)
  next
    case (KnVerify v now kc)
    obtain res k' d' where run: "run_verification_cycle drain env v now kc (k, d) = (res, k', d')" by (metis surj_pair)
    then have "kn_mode k' \<in> SAFETY_MODES"
      using verification_effect [OF run] no_verifier [of k drain env v now kc d] m by (cases "kn_verifier k = None") auto
    then show ?thesis by (simp add: Pair KnVerify stopped_def run)
  next
    case (KnPoll now)
    then show ?thesis using poll_keeps_safety [OF m] by (simp add: Pair stopped_def)
  next
    case (KnEvaluate i ctx)
    then show ?thesis using m by (simp add: Pair stopped_def kn_evaluate_intent_def veto_killed_def Let_def)
  next
    case (KnKill t now)
    then show ?thesis using m by (auto simp: Pair stopped_def kill_eq kn_mode_def kn_machine_def)
  next
    case (KnRearm phrase)
    then show ?thesis using m by (auto simp: Pair stopped_def rearm_eq kn_mode_def kn_machine_def)
  qed (use m in \<open>auto simp: Pair stopped_def apply_ledgered_override_def emit_heartbeat_def kn_mode_def kn_machine_def kn_record_def
      ks_record_def\<close>)
qed

interpretation stopping: invariant_machine "kn_exec sha drain env" stopped for sha drain env
  by unfold_locales (rule stopped_step)

lemma stopped_vetoes: "stopped (k, d) \<Longrightarrow> dec_vetoed (fst (kn_evaluate_intent i c k))"
proof -
  assume "stopped (k, d)"
  then have "\<not> may_trade (kn_mode k)" by (cases "kn_mode k") (simp_all add: stopped_def)
  then have "\<not> approves i (kn_effective k c)"
    by (auto simp: approves_iff mode_check kn_effective_def stamp_verification_def Let_def split: option.splits if_splits)
  then show ?thesis by (simp add: kn_evaluate_intent_def veto_killed_def Let_def approves_def)
qed

subsection \<open>What a restart recovers\<close>

definition replayable :: "'f kn_state \<Rightarrow> bool" where
  "replayable st = (replay_agrees (kn_switch (fst st), snd st) \<and> kn_override_applied (fst st) = override_applied_in (kn_events (fst st)))"

text \<open>A demotion by \<open>MANUAL_KILL\<close> kills without the event the replay looks for.\<close>

definition restart_safe :: "kn_cmd \<Rightarrow> bool" where "restart_safe c = (c \<noteq> KnDemote MANUAL_KILL)"

lemma override_in_append [simp]: "override_applied_in (xs @ ys) = (override_applied_in xs \<or> override_applied_in ys)"
  by (simp add: override_applied_in_def)

lemma quiet_no_override: "list_all quiet es \<Longrightarrow> \<not> override_applied_in es"
  by (auto simp: override_applied_in_def list_all_iff list_ex_iff quiet_def)

lemma absorb_quiet: "list_all quiet es \<Longrightarrow> absorb_kill_events st es = Inr st"
  by (induction es) (auto simp: quiet_def absorb_foreign)

lemma replayable_same:
  assumes "replayable (k, d)" and "kn_events k' = kn_events k @ es" and "list_all quiet es"
    and "(kn_mode k' = KILLED) = (kn_mode k = KILLED)" and "ks_sequence (kn_switch k') = ks_sequence (kn_switch k)"
    and "kn_override_applied k' = kn_override_applied k"
  shows "replayable (k', d')"
  using assms quiet_no_override [OF assms(3)]
  by (simp add: replayable_def replay_agrees_def kn_events_def kn_mode_def kn_machine_def kill_state_append absorb_quiet)

lemma ks_sequence_record [simp]: "ks_sequence (kn_switch (kn_record e k)) = ks_sequence (kn_switch k)"
  "ks_sequence (kn_switch (kn_set_machine m k)) = ks_sequence (kn_switch k)"
  by (simp_all add: kn_record_def ks_record_def kn_set_machine_def)

lemma kill_no_override: "\<not> override_applied_in (kill_events env t c n)"
  by (simp add: kill_events_def Let_def override_applied_in_def OVERRIDE_EVENT_TYPE_def)

lemma replayable_kill:
  assumes "replayable (k, d)" and "kill env t c (kn_switch k) d = Inr (s', d')" and "kn_switch k' = s'"
    and "kn_override_applied k' = kn_override_applied k"
  shows "replayable (k', d')"
proof -
  have "override_applied_in (ks_log s') = override_applied_in (kn_events k)"
    using assms(2) kill_no_override by (auto simp: kill_eq kn_events_def split: if_splits)
  with assms kill_agrees [of "kn_switch k" d env t c "(s', d')"] show ?thesis by (simp add: replayable_def kn_events_def)
qed

lemma replayable_rearm:
  assumes "replayable (k, d)" and "kill_rearm phrase (kn_switch k) = Inr s'"
  shows "replayable (k\<lparr>kn_switch := s'\<rparr>, d')"
proof -
  have "override_applied_in (ks_log s') = override_applied_in (kn_events k)"
    using assms(2) by (auto simp: rearm_eq kn_events_def override_applied_in_def OVERRIDE_EVENT_TYPE_def split: if_splits)
  with assms rearm_agrees [of "kn_switch k" d phrase s' d'] show ?thesis by (simp add: replayable_def kn_events_def)
qed

lemma replayable_poll:
  assumes "replayable (k, d)"
  shows "replayable (snd (poll_kill_triggers env now (k, d)))"
proof -
  have "replayable (k\<lparr>kn_switch := s'\<rparr>, d')" if "kill_poll_once env now (kn_switch k) d = Inr (s', d')" for s' d'
  proof (cases "msm_mode (ks_machine (kn_switch k)) = KILLED")
    case True
    then have c: "consume_rearm_file (kn_switch k) d = (s', d')" using that by (simp add: kill_poll_once_def)
    then show ?thesis
      using assms replayable_rearm [OF assms]
      by (auto simp: consume_rearm_file_def attempt_rearm_def Let_def split: option.splits sum.splits)
        (auto simp: replayable_def replay_agrees_def kn_events_def)
  next
    case False
    then show ?thesis
      using that assms replayable_kill [OF assms, of env KILL_FILE now s' d' "k\<lparr>kn_switch := s'\<rparr>"]
      by (auto simp: kill_poll_once_def split: if_splits)
  qed
  then show ?thesis using assms by (auto simp: poll_kill_triggers_def Let_def split: option.split sum.split)
qed

lemma replayable_verify:
  fixes k :: "'f RiskKernel"
  assumes "replayable (k, d)"
  shows "replayable (snd (run_verification_cycle drain env v now kc (k, d)))"
proof (cases "kn_verifier k")
  case None
  then show ?thesis using assms by (simp add: no_verifier)
next
  case (Some rv)
  obtain r rv' where run: "run_cycle drain v now (rv\<lparr>rv_events := kn_events k\<rparr>) = (r, rv')" by (metis surj_pair)
  obtain es where es: "rv_events rv' = kn_events k @ es" "list_all quiet es"
    using run_cycle_events [of drain v now "rv\<lparr>rv_events := kn_events k\<rparr>"] run by auto
  let ?k1 = "k\<lparr>kn_verifier := Some rv', kn_switch := (kn_switch k)\<lparr>ks_log := rv_events rv'\<rparr>\<rparr>"
  have k1: "replayable (?k1, d)"
    by (rule replayable_same [OF assms _ es(2)]) (simp_all add: kn_events_def es(1) kn_mode_def kn_machine_def)
  show ?thesis
  proof (cases r)
    case (Inl e)
    then show ?thesis using k1 Some run by (simp add: run_verification_cycle_def Let_def)
  next
    case (Inr s)
    let ?k2 = "?k1\<lparr>kn_latest_verification := Some s\<rparr>"
    obtain k3 d3 where feed: "feed_mismatch_monitor env kc (vs_outcome s) (?k2, d) = Inr (k3, d3)" using feed_total by (metis surj_pair)
    have k2: "replayable (?k2, d)" using k1 by (simp add: replayable_def kn_events_def)
    have k3: "replayable (k3, d3)"
    proof -
      from feed_effect [OF feed] consider "kn_switch k3 = kn_switch ?k2" | "kill env AUTO_RECONCILIATION kc (kn_switch ?k2) d = Inr (kn_switch k3, d3)"
        by blast
      then show ?thesis
        using k2 replayable_kill [OF k2, of env AUTO_RECONCILIATION kc "kn_switch k3" d3 k3] feed_effect [OF feed]
        by cases (auto simp: replayable_def replay_agrees_def kn_events_def)
    qed
    obtain k4 where k4: "halt_on_breach s k3 = Inr k4" using halt_ok by blast
    have "replayable (k4, d3)"
    proof (cases "kn_mode k3 \<in> {HALT, KILLED}")
      case True
      then show ?thesis using k3 k4 by (simp add: halt_on_breach_def)
    next
      case False
      then obtain m e where m: "mode_transition (kn_machine k3) HALT = Inr m" "k4 = kn_record e (kn_set_machine m k3)" "quiet e"
        using k4 by (auto simp: halt_on_breach_def quiet_types VERIFICATION_MISMATCH_HALT_EVENT_def split: sum.splits)
      show ?thesis unfolding m(2)
        by (rule replayable_same [OF k3, where es = "[e]"]) (use m(1,3) False in \<open>auto dest: mode_transition_Inr\<close>)
    qed
    then show ?thesis using Some run Inr feed k3 k4 by (auto simp: run_verification_cycle_def Let_def)
  qed
qed

lemma replayable_promote:
  assumes "replayable (k, d)"
  shows "replayable (snd (request_promotion sha indexed store e k), d)"
proof (cases "gate_for sha indexed store (kn_mode k)")
  case (Inl err)
  then show ?thesis
    using assms replayable_same [OF assms, of "record_promotion_blocked s w k" _ d for s w]
    by (auto simp: request_promotion_def record_promotion_blocked_def split: promotion_error.split)
next
  case (Inr gate)
  have rec: "replayable (kn_record (promotion_event gate dec b e) k, d)" for dec b by (rule replayable_same [OF assms], simp_all, simp)
  have set: "replayable (kn_set_machine m (kn_record (promotion_event gate dec b e) k), d)"
    if pr: "promote_one_rung (kn_machine k) ceil = Inr m" for m dec b ceil
  proof -
    obtain t where "next_rung (kn_mode k) = Some t" "msm_mode m = t"
      using promote_one_rung_Inr [OF pr] by (auto simp: kn_mode_def)
    then have "kn_mode k \<noteq> KILLED \<and> msm_mode m \<noteq> KILLED" by (cases "kn_mode k") auto
    then show ?thesis by (intro replayable_same [OF assms, where es = "[promotion_event gate dec b e]"]) simp_all
  qed
  show ?thesis
    using Inr assms rec set by (auto simp: request_promotion_def Let_def res_bind_Inr_iff split: sum.split)
qed

lemma replayable_demote:
  assumes "replayable (k, d)" and "trigger \<noteq> MANUAL_KILL"
  shows "replayable (snd (fire_demotion_trigger trigger k), d)"
proof (cases "resolve_demotion (kn_mode k) trigger")
  case (Inr dest)
  have killed: "kn_mode k \<noteq> KILLED \<and> t \<noteq> KILLED" if "dest = Some t" for t
    using Inr assms(2) that
    by (cases "kn_mode k"; cases trigger)
      (auto simp: resolve_demotion_def resolve_safety_action_def SAFETY_ACTION_TARGET_def resolve_demote_one_mode_def dict_get_def Let_def)
  have moved: "msm_mode m \<noteq> KILLED" if "apply_demotion (kn_machine k) t = Inr m" "t \<noteq> KILLED" for m t
    using that mode_transition_Inr demote_one_rung_Inr
    by (cases "msm_mode (kn_machine k)") (fastforce simp: apply_demotion_def split: if_splits)+
  show ?thesis
  proof (cases dest)
    case None
    then show ?thesis using Inr by (simp add: fire_demotion_trigger_def Let_def) (rule replayable_same [OF assms(1)], simp_all, simp)
  next
    case (Some t)
    show ?thesis
    proof (cases "apply_demotion (kn_machine k) t")
      case (Inl err)
      then show ?thesis using Inr Some assms(1) by (simp add: fire_demotion_trigger_def Let_def)
    next
      case (Inr m)
      then show ?thesis using \<open>resolve_demotion (kn_mode k) trigger = Inr dest\<close> Some killed [OF Some] moved [OF Inr]
        by (simp add: fire_demotion_trigger_def Let_def) (rule replayable_same [OF assms(1)], simp_all, simp)
    qed
  qed
qed (use assms in \<open>simp add: fire_demotion_trigger_def\<close>)

lemma replayable_step: "replayable st \<Longrightarrow> restart_safe c \<Longrightarrow> replayable (kn_exec sha drain env st c)"
proof (cases st)
  case (Pair k d)
  assume "replayable st" and safe: "restart_safe c"
  with Pair have inv: "replayable (k, d)" by simp
  show ?thesis
  proof (cases c)
    case (KnOverride ack)
    then show ?thesis using inv
      by (auto simp: Pair apply_ledgered_override_def replayable_def replay_agrees_def kn_record_def ks_record_def log_record_def kn_events_def
          kill_state_append absorb_foreign KILL_ENGAGED_EVENT_TYPE_def KILL_REARMED_EVENT_TYPE_def override_applied_in_def OVERRIDE_EVENT_TYPE_def)
  next
    case (KnKill t now)
    then show ?thesis using inv by (auto simp: Pair split: sum.split intro: replayable_kill [OF inv])
  next
    case (KnEvaluate i ctx)
    then show ?thesis
      by (auto simp: Pair kn_evaluate_intent_def veto_killed_def Let_def intro!: replayable_same [OF inv])
  next
    case (KnHeartbeat n)
    then show ?thesis by (auto simp: Pair emit_heartbeat_def intro!: replayable_same [OF inv])
  next
    case (KnFiles d')
    then show ?thesis using inv by (simp add: Pair replayable_def replay_agrees_def)
  qed (use inv safe in \<open>auto simp: Pair restart_safe_def intro: replayable_promote replayable_demote replayable_verify replayable_poll
      replayable_rearm split: sum.split\<close>)
qed

interpretation replaying: guarded_machine "kn_exec sha drain env" replayable restart_safe for sha drain env
  by unfold_locales (rule replayable_step)

subsection \<open>Promotion\<close>

text \<open>What the gates ask of the evidence, in plain terms.\<close>

definition ready_for_paper :: "GateEvidence \<Rightarrow> bool" where
  "ready_for_paper e = (50 \<le> forecast_count e \<and> 14 \<le> days_without_unhandled_errors e \<and> adversarial_suite_green e \<and> ledger_rebuild_verified e)"

definition ready_for_live_micro :: "GatePlan \<Rightarrow> bool \<Rightarrow> GateEvidence \<Rightarrow> bool" where
  "ready_for_live_micro p override e = (gp_promotion_min_resolved p \<le> resolved_realtime_forecast_count e \<and>
     gp_promotion_min_independent_event_groups p \<le> independent_event_group_count e \<and> gp_brier_skill_required_ppm p \<le> brier_skill_ppm e \<and>
     (0 < brier_skill_ci_lower_ppm e \<or> override) \<and> 0 < paper_pnl_net_micro_usd e \<and> 90 \<le> paper_window_days e \<and>
     paper_max_drawdown_ppm e < 300000 \<and> 800000 \<le> calibration_slope_ppm e \<and> calibration_slope_ppm e \<le> 1200000 \<and>
     kernel_invariant_failure_count e = 0)"

definition ready_for_live :: "GateEvidence \<Rightarrow> bool" where
  "ready_for_live e = (60 \<le> live_micro_days e \<and> live_slippage_vs_paper_ppm e \<le> 50000 \<and> live_brier_degradation_ppm e \<le> 20000 \<and>
     reconciliation_halt_count e = 0 \<and> invariant_violation_count e = 0 \<and> operator_confirmation e)"

lemma cleared_iff:
  assumes "pd_approved d = list_all crr_passed (pd_results d)"
  shows "(pd_approved d \<or> override_promotes gate d ov) \<longleftrightarrow>
    list_all (\<lambda>r. crr_passed r \<or> ov \<and> crr_criterion_id r \<in> gc_criterion_id ` {c \<in> set (pg_criteria gate). gc_overridable c}) (pd_results d)"
  using assms by (auto simp: override_promotes_def Let_def list_all_iff filter_empty_conv)

text \<open>Whether each criterion holds, or is overridable under an active override.\<close>

definition cleared :: "PromotionGate \<Rightarrow> bool \<Rightarrow> GateEvidence \<Rightarrow> bool" where
  "cleared gate ov e = list_all (\<lambda>c. (\<exists>n. observed_value e (gc_evidence_field c) = Inr n \<and> COMPARATORS (gc_comparison c) n (gc_threshold c)) \<or>
     ov \<and> gc_criterion_id c \<in> gc_criterion_id ` {c \<in> set (pg_criteria gate). gc_overridable c}) (pg_criteria gate)"

definition readable :: "PromotionGate \<Rightarrow> GateEvidence \<Rightarrow> bool" where
  "readable gate e = list_all (\<lambda>c. is_ok (observed_value e (gc_evidence_field c))) (pg_criteria gate)"

lemma evaluate_criteria_readable:
  assumes "list_all (\<lambda>c. is_ok (observed_value e (gc_evidence_field c))) cs"
  shows "\<exists>rs. evaluate_criteria cs e = Inr rs \<and> list_all2 (\<lambda>c r. crr_criterion_id r = gc_criterion_id c \<and>
    crr_passed r = (\<exists>n. observed_value e (gc_evidence_field c) = Inr n \<and> COMPARATORS (gc_comparison c) n (gc_threshold c))) cs rs"
  using assms by (induction cs) (auto simp: evaluate_criterion_def)

lemma evaluate_promotion_readable:
  assumes "readable gate e"
  obtains d where "evaluate_promotion gate e = Inr d" "(pd_approved d \<or> override_promotes gate d ov) = cleared gate ov e"
proof -
  obtain rs where rs: "evaluate_criteria (pg_criteria gate) e = Inr rs"
    "list_all2 (\<lambda>c r. crr_criterion_id r = gc_criterion_id c \<and>
      crr_passed r = (\<exists>n. observed_value e (gc_evidence_field c) = Inr n \<and> COMPARATORS (gc_comparison c) n (gc_threshold c))) (pg_criteria gate) rs"
    using evaluate_criteria_readable assms unfolding readable_def by blast
  let ?d = "\<lparr>pd_source = pg_source gate, pd_target = pg_target gate, pd_approved = list_all crr_passed rs, pd_results = rs\<rparr>"
  have "list_all (\<lambda>r. crr_passed r \<or> ov \<and> crr_criterion_id r \<in> I) rs =
    list_all (\<lambda>c. (\<exists>n. observed_value e (gc_evidence_field c) = Inr n \<and> COMPARATORS (gc_comparison c) n (gc_threshold c)) \<or>
      ov \<and> gc_criterion_id c \<in> I) (pg_criteria gate)" for I
    using rs(2) by (induction rule: list_all2_induct) auto
  with cleared_iff [of ?d gate ov] have "(pd_approved ?d \<or> override_promotes gate ?d ov) = cleared gate ov e" by (simp add: cleared_def)
  with rs(1) that [of ?d] show thesis by (simp add: evaluate_promotion_def)
qed

lemma observed_fields [simp]:
  "observed_value e ''forecast_count'' = Inr (forecast_count e)"
  "observed_value e ''days_without_unhandled_errors'' = Inr (days_without_unhandled_errors e)"
  "observed_value e ''adversarial_suite_green'' = Inr (if adversarial_suite_green e then 1 else 0)"
  "observed_value e ''ledger_rebuild_verified'' = Inr (if ledger_rebuild_verified e then 1 else 0)"
  "observed_value e ''resolved_realtime_forecast_count'' = Inr (resolved_realtime_forecast_count e)"
  "observed_value e ''independent_event_group_count'' = Inr (independent_event_group_count e)"
  "observed_value e ''brier_skill_ppm'' = Inr (brier_skill_ppm e)"
  "observed_value e ''brier_skill_ci_lower_ppm'' = Inr (brier_skill_ci_lower_ppm e)"
  "observed_value e ''paper_pnl_net_micro_usd'' = Inr (paper_pnl_net_micro_usd e)"
  "observed_value e ''paper_window_days'' = Inr (paper_window_days e)"
  "observed_value e ''paper_max_drawdown_ppm'' = Inr (paper_max_drawdown_ppm e)"
  "observed_value e ''calibration_slope_ppm'' = Inr (calibration_slope_ppm e)"
  "observed_value e ''kernel_invariant_failure_count'' = Inr (kernel_invariant_failure_count e)"
  "observed_value e ''live_micro_days'' = Inr (live_micro_days e)"
  "observed_value e ''live_slippage_vs_paper_ppm'' = Inr (live_slippage_vs_paper_ppm e)"
  "observed_value e ''live_brier_degradation_ppm'' = Inr (live_brier_degradation_ppm e)"
  "observed_value e ''reconciliation_halt_count'' = Inr (reconciliation_halt_count e)"
  "observed_value e ''invariant_violation_count'' = Inr (invariant_violation_count e)"
  "observed_value e ''operator_confirmation'' = Inr (if operator_confirmation e then 1 else 0)"
  by (simp_all add: observed_value_def evidence_to_payload_def dict_get_def)

lemmas gate_constants = RESEARCH_MIN_FORECASTS_def RESEARCH_MIN_ERROR_FREE_DAYS_def PAPER_MIN_WINDOW_DAYS_def PAPER_MAX_DRAWDOWN_THRESHOLD_PPM_def
  CALIBRATION_SLOPE_LOW_PPM_def CALIBRATION_SLOPE_HIGH_PPM_def LIVE_MICRO_MIN_DAYS_def LIVE_SLIPPAGE_MAX_PPM_def
  LIVE_BRIER_DEGRADATION_MAX_PPM_def STRICT_POSITIVE_FLOOR_def FORBIDDEN_COUNT_def TRUTHY_THRESHOLD_def criterion_def

lemma gate_ids:
  "gc_criterion_id ` {c \<in> set (pg_criteria research_to_paper_gate). gc_overridable c} = {}"
  "gc_criterion_id ` {c \<in> set (pg_criteria (paper_gate_from_thresholds a b s)). gc_overridable c} = {''paper_brier_skill_significance''}"
  "gc_criterion_id ` {c \<in> set (pg_criteria live_micro_to_live_gate). gc_overridable c} = {}"
  unfolding set_filter [symmetric]
  by (simp_all add: research_to_paper_gate_def paper_gate_from_thresholds_def live_micro_to_live_gate_def criterion_def)

lemma research_gate: "readable research_to_paper_gate e" "cleared research_to_paper_gate ov e = ready_for_paper e"
  "pg_target research_to_paper_gate = PAPER"
  unfolding readable_def cleared_def gate_ids
  by (auto simp: research_to_paper_gate_def gate_constants ready_for_paper_def)

lemma paper_gate: "readable (paper_gate_from_thresholds a b s) e"
  "cleared (paper_gate_from_thresholds (gp_promotion_min_resolved p) (gp_promotion_min_independent_event_groups p) (gp_brier_skill_required_ppm p)) ov e =
     ready_for_live_micro p ov e"
  "pg_target (paper_gate_from_thresholds a b s) = LIVE_MICRO"
  unfolding readable_def cleared_def gate_ids
  by (auto simp: paper_gate_from_thresholds_def gate_constants ready_for_live_micro_def)

lemma live_gate: "readable live_micro_to_live_gate e" "cleared live_micro_to_live_gate ov e = ready_for_live e"
  "pg_target live_micro_to_live_gate = LIVE"
  unfolding readable_def cleared_def gate_ids
  by (auto simp: live_micro_to_live_gate_def gate_constants ready_for_live_def)

lemma promoted_mode:
  assumes "gate_for sha indexed store (kn_mode k) = Inr gate" and "readable gate e" and "next_rung (kn_mode k) = Some target"
    and "ladder_rank (msm_ceiling (kn_machine k)) = Some cr" and "ladder_rank target = Some n"
  shows "kn_mode (snd (request_promotion sha indexed store e k)) =
    (if cleared gate (kn_override_applied k) e \<and> n \<le> cr \<and> (kn_override_applied k \<longrightarrow> n \<le> 2) then target else kn_mode k)"
proof -
  obtain d where d: "evaluate_promotion gate e = Inr d"
    "(pd_approved d \<or> override_promotes gate d (kn_override_applied k)) = cleared gate (kn_override_applied k) e"
    by (rule evaluate_promotion_readable [OF assms(2)])
  have eff: "mode_ceiling_effective (kn_record ev k) =
      Inr (if kn_override_applied k \<and> 2 < cr then LIVE_MICRO else msm_ceiling (kn_machine k))" for ev
    using assms(4) by (auto simp: mode_ceiling_effective_def effective_mode_ceiling_def OVERRIDE_CEILING_def rank_index_def)
  have promote: "promote_one_rung (kn_machine k) (if kn_override_applied k \<and> 2 < cr then LIVE_MICRO else msm_ceiling (kn_machine k)) =
      (if n \<le> cr \<and> (kn_override_applied k \<longrightarrow> n \<le> 2) then Inr ((kn_machine k)\<lparr>msm_mode := target\<rparr>) else Inl ModeCeilingExceededError)"
    using assms(3,4,5) by (auto simp: promote_one_rung_def rank_index_def kn_mode_def)
  show ?thesis using d(2) by (auto simp: request_promotion_def assms(1) d(1) Let_def eff promote)
qed

lemma promotion_mode:
  assumes "ladder_rank (msm_ceiling (kn_machine k)) = Some cr"
  shows "kn_mode (snd (request_promotion sha indexed store e k)) =
    (case kn_mode k of
       RESEARCH \<Rightarrow> if ready_for_paper e \<and> 1 \<le> cr then PAPER else RESEARCH
     | PAPER \<Rightarrow>
         (case map_option (latest_gate_plan_registration sha indexed) store of
            Some (Inr (Some reg)) \<Rightarrow> if ready_for_live_micro (gr_plan reg) (kn_override_applied k) e \<and> 2 \<le> cr then LIVE_MICRO else PAPER
          | _ \<Rightarrow> PAPER)
     | LIVE_MICRO \<Rightarrow> if ready_for_live e \<and> 3 \<le> cr \<and> \<not> kn_override_applied k then LIVE else LIVE_MICRO
     | m \<Rightarrow> m)"
proof (cases "kn_mode k")
  case RESEARCH
  then have g: "gate_for sha indexed store (kn_mode k) = Inr research_to_paper_gate"
    by (simp add: gate_for_def constant_promotion_gates_def dict_get_def)
  show ?thesis using promoted_mode [OF g research_gate(1) _ assms] RESEARCH by (simp add: research_gate)
next
  case LIVE_MICRO
  then have g: "gate_for sha indexed store (kn_mode k) = Inr live_micro_to_live_gate"
    by (simp add: gate_for_def constant_promotion_gates_def dict_get_def)
  show ?thesis using promoted_mode [OF g live_gate(1) _ assms] LIVE_MICRO by (auto simp: live_gate)
next
  case PAPER
  show ?thesis
  proof (cases "\<exists>reg. map_option (latest_gate_plan_registration sha indexed) store = Some (Inr (Some reg))")
    case True
    then obtain reg where reg: "map_option (latest_gate_plan_registration sha indexed) store = Some (Inr (Some reg))" ..
    then have g: "gate_for sha indexed store (kn_mode k) = Inr (paper_gate_from_thresholds (gp_promotion_min_resolved (gr_plan reg))
               (gp_promotion_min_independent_event_groups (gr_plan reg)) (gp_brier_skill_required_ppm (gr_plan reg)))"
      using PAPER by (auto simp: gate_for_def paper_gate_from_registered_plan_def)
    show ?thesis using promoted_mode [OF g paper_gate(1) _ assms] PAPER reg by (auto simp: paper_gate)
  next
    case False
    then have "\<exists>err. gate_for sha indexed store (kn_mode k) = Inl err"
      using PAPER by (auto simp: gate_for_def paper_gate_from_registered_plan_def split: option.splits sum.splits)
    then have "kn_mode (snd (request_promotion sha indexed store e k)) = PAPER"
      using PAPER by (auto simp: request_promotion_def record_promotion_blocked_def split: promotion_error.split)
    with False PAPER show ?thesis by (auto split: option.splits sum.splits)
  qed
qed (simp_all add: request_promotion_def gate_for_def constant_promotion_gates_def dict_get_def)

lemma promotion_events:
  "\<exists>es. kn_events (snd (request_promotion sha indexed store e k)) = kn_events k @ es \<and> length es \<le> 1 \<and>
     (kn_mode (snd (request_promotion sha indexed store e k)) \<noteq> kn_mode k \<longrightarrow> (\<exists>gate d b. es = [promotion_event gate d b e]))"
  by (auto simp: request_promotion_def record_promotion_blocked_def Let_def split: sum.split promotion_error.split)

lemma effective_fields:
  assumes "kn_verifier k \<noteq> None"
  shows "ctx_mode (kn_effective k c) = kn_mode k" "limits (kn_effective k c) = limits c" "fees (kn_effective k c) = fees c"
    "now_epoch_s (kn_effective k c) = now_epoch_s c" "verification (kn_effective k c) = kn_latest_verification k"
    "kn_latest_verification k = Some s \<Longrightarrow> account (kn_effective k c) = (account c)\<lparr>exchange_verified_available_cash := vs_exchange_verified_available_cash s,
       reconciliation_uncertainty_buffer := cash_drift s\<rparr>"
  using assms by (auto simp: kn_effective_def stamp_verification_def Let_def split: option.split)

lemma restart_of_replayable:
  assumes "replayable (k, d)"
  shows "\<exists>s k'. KillSwitch_from_events (kn_events k) m' evs' res' dir' = Inr s \<and> RiskKernel_from_events (kn_events k) s integration' verifier' blocked' = Inr k' \<and>
      ks_sequence (kn_switch k') = ks_sequence (kn_switch k) \<and> kn_override_applied k' = kn_override_applied k \<and>
      kn_mode k' = (if kn_mode k = KILLED then KILLED else msm_mode m')"
proof -
  have state: "kill_state_in (kn_events k) = Inr \<lparr>last_kill_sequence = ks_sequence (kn_switch k), rk_killed = (kn_mode k = KILLED)\<rparr>"
    and ov: "kn_override_applied k = override_applied_in (kn_events k)"
    using assms by (simp_all add: replayable_def replay_agrees_def kn_events_def kn_mode_def kn_machine_def)
  let ?s = "(KillSwitch_new m' evs' res' dir')\<lparr>ks_sequence := ks_sequence (kn_switch k)\<rparr>"
  have "KillSwitch_from_events (kn_events k) m' evs' res' dir' = Inr ?s" by (simp add: KillSwitch_from_events_def state)
  moreover have "\<exists>k'. RiskKernel_from_events (kn_events k) ?s integration' verifier' blocked' = Inr k' \<and>
      ks_sequence (kn_switch k') = ks_sequence (kn_switch k) \<and> kn_override_applied k' = kn_override_applied k \<and>
      kn_mode k' = (if kn_mode k = KILLED then KILLED else msm_mode m')"
  proof (cases "kn_mode k = KILLED \<and> msm_mode m' \<noteq> KILLED")
    case True
    then show ?thesis using kill_transition [of m']
      by (simp add: RiskKernel_from_events_def state ov Let_def, simp add: RiskKernel_new_def KillSwitch_new_def kn_machine_def kn_mode_def kn_set_machine_def)
  next
    case False
    then show ?thesis
      by (auto simp: RiskKernel_from_events_def state ov Let_def) (auto simp: RiskKernel_new_def KillSwitch_new_def kn_machine_def kn_mode_def)
  qed
  ultimately show ?thesis by blast
qed

section \<open>Properties\<close>

text \<open>C5. A kernel with a verifier approves on its own verification. Whatever mode, snapshot or cash the caller's context claims, an
  intent is approved only in a trading mode of the kernel, on the snapshot of the kernel's last cycle, which reconciled
  all three dimensions within its age limit, and with the floor kept by the cash that cycle observed less the drift
  it measured; and exactly one event records the approval.\<close>

theorem approval_rests_on_verification:
  assumes "kn_verifier k \<noteq> None" and "kn_evaluate_intent i c k = (dec, k')" and "\<not> dec_vetoed dec"
  shows "kn_mode k \<in> {PAPER, LIVE_MICRO, LIVE} \<and> kn_mode k' = kn_mode k \<and>
    kn_events k' = kn_events k @ [intent_event INTENT_APPROVED_EVENT i []] \<and>
    (\<exists>s t f. kn_latest_verification k = Some s \<and> balance_ok s \<and> position_ok s \<and> open_order_ok s \<and>
      (kn_mode k = PAPER \<or> semantics_fully_known s) \<and>
      verified_at_epoch_s s \<le> now_epoch_s c \<and> now_epoch_s c \<le> verified_at_epoch_s s + verification_ttl_seconds (limits c) \<and>
      max_trading_fee (fees c) = Some t \<and> max_settlement_fee (fees c) = Some f \<and>
      (let equity = val (vs_exchange_verified_available_cash s) + val (guaranteed_terminal_value_of_positions (account c))
             - val (pending_kernel_reservations (account c)) - val (unresolved_fee_upper_bounds (account c)) - val (cash_drift s);
           charges = val t + val f + val (rounding_buffer (limits c)) in
       action i = ''buy'' \<and> val (limits_floor (limits c)) \<le> equity - (val (price i) * val (order_size i) + charges) \<or>
       action i = ''sell_to_close'' \<and> val (limits_floor (limits c)) \<le> equity - charges))"
proof -
  let ?e = "kn_effective k c"
  note eff = effective_fields [OF assms(1), where c = c]
  have alive: "kn_mode k \<noteq> KILLED" using assms(2,3) by (auto simp: kn_evaluate_intent_def veto_killed_def)
  have approved: "approves i ?e" and k': "k' = kn_record (intent_event INTENT_APPROVED_EVENT i []) k"
    using assms(2,3) alive by (auto simp: kn_evaluate_intent_def approves_def Let_def evaluate_intent_def)
  from approved obtain s where s: "kn_latest_verification k = Some s" "balance_ok s" "position_ok s" "open_order_ok s"
    "\<not> is_stale (Some (verified_at_epoch_s s)) (now_epoch_s c) (verification_ttl_seconds (limits c))"
    "semantics_fully_known s \<or> kn_mode k \<notin> LIVE_TRADING_MODES"
    unfolding approves_iff eff(1-5) by blast
  have mode: "may_trade (kn_mode k)" using approved by (simp add: approves_iff mode_check eff(1))
  have floor: "fees_bounded ?e" "\<not> cr_vetoed (FloorInvariant i ?e)" using approved by (simp_all add: approves_iff)
  from floor(1) obtain t f where tf: "max_trading_fee (fees c) = Some t" "max_settlement_fee (fees c) = Some f"
    by (auto simp: fees_bounded_def eff(3))
  have "kn_mode k \<in> {PAPER, LIVE_MICRO, LIVE} \<and> (kn_mode k = PAPER \<or> semantics_fully_known s)"
    using mode s(6) by (cases "kn_mode k") (auto simp: LIVE_TRADING_MODES_def)
  moreover have "verified_at_epoch_s s \<le> now_epoch_s c \<and> now_epoch_s c \<le> verified_at_epoch_s s + verification_ttl_seconds (limits c)"
    using s(5) by (simp add: not_stale_iff)
  moreover have "action i = ''buy'' \<and> val (limits_floor (limits c)) \<le> val (equity_of (account ?e)) - order_cost_val i ?e \<or>
      action i = ''sell_to_close'' \<and> val (limits_floor (limits c)) \<le> val (equity_of (account ?e)) - (order_cost_val i ?e - val (price i) * val (order_size i))"
    using floor(2) by (simp add: floor_check eff(2))
  moreover have "val (equity_of (account ?e)) = val (vs_exchange_verified_available_cash s) + val (guaranteed_terminal_value_of_positions (account c))
             - val (pending_kernel_reservations (account c)) - val (unresolved_fee_upper_bounds (account c)) - val (cash_drift s)"
    by (simp add: equity_of_def eff(6) [OF s(1)])
  moreover have "order_cost_val i ?e = val (price i) * val (order_size i) + (val t + val f + val (rounding_buffer (limits c)))"
    by (simp add: order_cost_val_def eff(2,3) tf)
  ultimately show ?thesis using s(1-4) tf by (auto simp: k' Let_def)
qed

definition sample_kernel :: "unit RiskKernel" where
  "sample_kernel = (RiskKernel_new (KillSwitch_new \<lparr>msm_ceiling = LIVE, msm_mode = LIVE\<rparr> [] None True)
     (Some \<lparr>ki_watcher = True, ki_monitor = Some \<lparr>threshold = 3, consecutive_breaches = 0\<rparr>\<rparr>) (Some sample_verifier) True)
     \<lparr>kn_latest_verification := Some sample_snapshot\<rparr>"

theorem approval_rests_on_verification_witness:
  "\<exists>dec k'. kn_evaluate_intent sample_intent (sample_context\<lparr>ctx_mode := HALT, verification := None,
       account := sample_account\<lparr>exchange_verified_available_cash := IntUnit 0\<rparr>\<rparr>) sample_kernel = (dec, k') \<and> \<not> dec_vetoed dec \<and>
     kn_events k' = [intent_event INTENT_APPROVED_EVENT sample_intent []]"
proof -
  let ?c = "sample_context\<lparr>ctx_mode := HALT, verification := None, account := sample_account\<lparr>exchange_verified_available_cash := IntUnit 0\<rparr>\<rparr>"
  obtain dec k' where run: "kn_evaluate_intent sample_intent ?c sample_kernel = (dec, k')" by (metis surj_pair)
  have k: "kn_verifier sample_kernel \<noteq> None" "kn_mode sample_kernel = LIVE" "kn_events sample_kernel = []"
    by (simp_all add: sample_kernel_def RiskKernel_new_def kn_mode_def kn_machine_def KillSwitch_new_def kn_events_def)
  have "kn_effective sample_kernel ?c = sample_context"
    by (simp add: kn_effective_def stamp_verification_def Let_def k(2),
        simp add: sample_kernel_def RiskKernel_new_def sample_context_def sample_snapshot_def sample_account_def)
  then have "\<not> dec_vetoed dec" using run sample_approved k(2) by (auto simp: kn_evaluate_intent_def Let_def approves_def)
  with approval_rests_on_verification [OF k(1) run] run k(3) show ?thesis by auto
qed

text \<open>C6. A stopped kernel never trades again within its process. Once paused, halted or killed - by a demotion, a kill, a kill
  file, or a verification cycle that ends in a breach - no run of promotions, demotions, overrides, cycles, polls, kills and
  re-arms takes it out of the safety modes, and every intent is vetoed.\<close>

theorem stopped_for_good:
  assumes "kn_mode k \<in> SAFETY_MODES \<or>
    (kn_verifier k0 \<noteq> None \<and> run_verification_cycle drain0 env0 v now kc (k0, d0) = (Inr (), k, d) \<and>
     (\<exists>s. kn_latest_verification k = Some s \<and> vs_outcome s = BREACH))"
  shows "let k' = fst (foldl (kn_exec sha drain env) (k, d) cmds) in
    kn_mode k' \<in> SAFETY_MODES \<and> dec_vetoed (fst (kn_evaluate_intent i c k'))"
proof -
  have "stopped (k, d)" using assms
  proof
    assume a: "kn_verifier k0 \<noteq> None \<and> run_verification_cycle drain0 env0 v now kc (k0, d0) = (Inr (), k, d) \<and>
      (\<exists>s. kn_latest_verification k = Some s \<and> vs_outcome s = BREACH)"
    then have "kn_mode k \<in> {HALT, KILLED}" using verification_effect [of drain0 env0 v now kc k0 d0 "Inr ()" k d] by auto
    then show ?thesis by (auto simp: stopped_def)
  qed (simp add: stopped_def)
  then have "stopped (foldl (kn_exec sha drain env) (k, d) cmds)" by (rule stopping.run_inv)
  then show ?thesis using stopped_vetoes by (metis prod.collapse stopped_def)
qed

theorem stopped_for_good_witness:
  "let k = fst (foldl (kn_exec (\<lambda>s. s) (\<lambda>f. (Inr [], f)) sample_env) (kn_set_machine \<lparr>msm_ceiling = LIVE, msm_mode = HALT\<rparr> sample_kernel, \<lparr>kill_file = False, rearm_file = None\<rparr>)
     [KnKill CLI 5, KnRearm (expected_rearm_phrase 1), KnOverride SIGNIFICANCE_OVERRIDE_ACK_PHRASE]) in
   kn_mode k = PAUSED \<and> kn_override_applied k \<and> dec_vetoed (fst (kn_evaluate_intent sample_intent sample_context k))"
proof -
  let ?k = "kn_set_machine \<lparr>msm_ceiling = LIVE, msm_mode = HALT\<rparr> sample_kernel" and ?d = "\<lparr>kill_file = False, rearm_file = None\<rparr>"
  let ?cmds = "[KnKill CLI 5, KnRearm (expected_rearm_phrase 1), KnOverride SIGNIFICANCE_OVERRIDE_ACK_PHRASE]"
  have m: "kn_mode ?k \<in> SAFETY_MODES" by simp
  have "kn_mode (fst (foldl (kn_exec (\<lambda>s. s) (\<lambda>f. (Inr [], f)) sample_env) (?k, ?d) ?cmds)) = PAUSED \<and>
      kn_override_applied (fst (foldl (kn_exec (\<lambda>s. s) (\<lambda>f. (Inr [], f)) sample_env) (?k, ?d) ?cmds))"
    by (simp add: kill_eq rearm_eq apply_ledgered_override_def kn_set_machine_def sample_kernel_def RiskKernel_new_def KillSwitch_new_def
        NO_KILL_SEQUENCE_def kn_mode_def kn_machine_def kn_record_def ks_record_def)
  with stopped_for_good [OF disjI1 [OF m], of "\<lambda>s. s" "\<lambda>f. (Inr [], f)" sample_env ?d ?cmds sample_intent sample_context]
  show ?thesis unfolding Let_def by blast
qed

text \<open>C7. A promotion happens exactly on the evidence. One request moves the kernel one rung up, and only then, if the gate of
  its mode is met in every criterion - the paper gate by the thresholds of the latest registered plan, with the significance of the
  skill alone dispensable under the operator's override - and the ceiling allows the rung, which under the override is
  never the top one; at most one event is written, and for every move it is the one that records the evaluation.\<close>

theorem promotion_exact:
  assumes "ladder_rank (msm_ceiling (kn_machine k)) = Some cr"
  shows "let k' = snd (request_promotion sha indexed store e k) in
    kn_mode k' =
      (case kn_mode k of
         RESEARCH \<Rightarrow> if ready_for_paper e \<and> 1 \<le> cr then PAPER else RESEARCH
       | PAPER \<Rightarrow>
           (case map_option (latest_gate_plan_registration sha indexed) store of
              Some (Inr (Some reg)) \<Rightarrow> if ready_for_live_micro (gr_plan reg) (kn_override_applied k) e \<and> 2 \<le> cr then LIVE_MICRO else PAPER
            | _ \<Rightarrow> PAPER)
       | LIVE_MICRO \<Rightarrow> if ready_for_live e \<and> 3 \<le> cr \<and> \<not> kn_override_applied k then LIVE else LIVE_MICRO
       | m \<Rightarrow> m) \<and>
    (\<exists>es. kn_events k' = kn_events k @ es \<and> length es \<le> 1 \<and>
      (kn_mode k' \<noteq> kn_mode k \<longrightarrow> (\<exists>gate d b. es = [promotion_event gate d b e])))"
  using promotion_mode [OF assms, of sha indexed store e] promotion_events [of sha indexed store e k] unfolding Let_def by blast

definition sample_evidence :: GateEvidence where
  "sample_evidence = \<lparr>forecast_count = 400, adversarial_suite_green = True, days_without_unhandled_errors = 30, ledger_rebuild_verified = True,
     resolved_realtime_forecast_count = 320, independent_event_group_count = 120, brier_skill_ppm = 12000, brier_skill_ci_lower_ppm = 500,
     brier_skill_ci_upper_ppm = 20000, paper_pnl_net_micro_usd = 1000000, paper_window_days = 365, paper_max_drawdown_ppm = 100000,
     calibration_slope_ppm = 1000000, kernel_invariant_failure_count = 0, live_micro_days = 61, live_slippage_vs_paper_ppm = 10000,
     live_brier_degradation_ppm = 5000, reconciliation_halt_count = 0, invariant_violation_count = 0, operator_confirmation = True\<rparr>"

theorem promotion_exact_witness:
  "kn_mode (snd (request_promotion (\<lambda>s. s) True None sample_evidence (kn_set_machine \<lparr>msm_ceiling = LIVE, msm_mode = LIVE_MICRO\<rparr> sample_kernel))) = LIVE \<and>
   kn_mode (snd (request_promotion (\<lambda>s. s) True None sample_evidence (kn_set_machine \<lparr>msm_ceiling = LIVE_MICRO, msm_mode = LIVE_MICRO\<rparr> sample_kernel))) = LIVE_MICRO"
proof -
  have "ready_for_live sample_evidence" by (simp add: ready_for_live_def sample_evidence_def)
  moreover have "\<not> kn_override_applied sample_kernel" by (simp add: sample_kernel_def RiskKernel_new_def)
  moreover have "ladder_rank (msm_ceiling (kn_machine (kn_set_machine \<lparr>msm_ceiling = LIVE, msm_mode = LIVE_MICRO\<rparr> sample_kernel))) = Some 3"
    "ladder_rank (msm_ceiling (kn_machine (kn_set_machine \<lparr>msm_ceiling = LIVE_MICRO, msm_mode = LIVE_MICRO\<rparr> sample_kernel))) = Some 2" by simp_all
  ultimately show ?thesis
    using promotion_exact [of "kn_set_machine \<lparr>msm_ceiling = LIVE, msm_mode = LIVE_MICRO\<rparr> sample_kernel" 3 "\<lambda>s. s" True None sample_evidence]
      promotion_exact [of "kn_set_machine \<lparr>msm_ceiling = LIVE_MICRO, msm_mode = LIVE_MICRO\<rparr> sample_kernel" 2 "\<lambda>s. s" True None sample_evidence]
    by (simp add: Let_def)
qed

text \<open>C21. A change of the gate plan restarts the paper clock. On a ledger left by any run of registrations and other appends, a
  promotion out of PAPER on evidence anchored to that ledger happens only when a plan is registered, at least ninety days after the
  last change of plan, and by the thresholds of that last plan - under an override as well.\<close>

theorem promotion_waits_out_plan_change:
  assumes "list_all gp_cmd_ok cmds" and "anchor_gate_evidence sha indexed (Some (foldl (gp_exec sha) [] cmds)) now e = Inr anchored"
    and "kn_mode k = PAPER" and "ladder_rank (msm_ceiling (kn_machine k)) = Some cr"
    and "kn_mode (snd (request_promotion sha indexed' (Some (foldl (gp_exec sha) [] cmds)) anchored k)) \<noteq> PAPER"
  shows "let h = foldl (gp_abs sha) [] cmds in h \<noteq> [] \<and> gr_paper_clock_start (last h) + 90 * 86400 \<le> now \<and>
    ready_for_live_micro (gr_plan (last h)) (kn_override_applied k) (e\<lparr>paper_window_days := (now - gr_paper_clock_start (last h)) div 86400\<rparr>)"
proof -
  let ?db = "foldl (gp_exec sha) [] cmds" and ?h = "foldl (gp_abs sha) [] cmds"
  have latest: "latest_gate_plan_registration sha idx ?db = Inr (if ?h = [] then None else Some (last ?h))" for idx
    by (rule gp_rel_latest [OF plan_ledger.run_refines [OF gp_rel_Nil assms(1)]])
  have ne: "?h \<noteq> []" using assms(2) by (auto simp: anchor_gate_evidence_def anchored_paper_window_days_def latest)
  have anchored: "anchored = e\<lparr>paper_window_days := (now - gr_paper_clock_start (last ?h)) div 86400\<rparr>"
    using assms(2) ne by (auto simp: anchor_gate_evidence_def anchored_paper_window_days_def latest Let_def SECONDS_PER_DAY_def split: if_splits)
  have ready: "ready_for_live_micro (gr_plan (last ?h)) (kn_override_applied k) anchored"
    using promotion_mode [OF assms(4), of sha indexed' "Some ?db" anchored] assms(3,5) ne by (auto simp: latest split: if_splits)
  then have "90 \<le> (now - gr_paper_clock_start (last ?h)) div 86400" by (simp add: ready_for_live_micro_def anchored)
  then have "90 * 86400 \<le> now - gr_paper_clock_start (last ?h)" by linarith
  with ne ready anchored show ?thesis by (simp add: Let_def)
qed

theorem promotion_waits_out_plan_change_witness:
  "let db = foldl (gp_exec (\<lambda>s. s)) [] sample_plan_cmds; k = kn_set_machine \<lparr>msm_ceiling = LIVE, msm_mode = PAPER\<rparr> sample_kernel in
   \<exists>anchored. anchor_gate_evidence (\<lambda>s. s) True (Some db) 7780000 sample_evidence = Inr anchored \<and>
     kn_mode (snd (request_promotion (\<lambda>s. s) False (Some db) anchored k)) = LIVE_MICRO \<and>
     ready_for_live_micro (sample_plan 5000) False (sample_evidence\<lparr>paper_window_days := 90\<rparr>)"
proof -
  let ?sha = "\<lambda>s :: string. s" and ?k = "kn_set_machine \<lparr>msm_ceiling = LIVE, msm_mode = PAPER\<rparr> sample_kernel"
  let ?db = "foldl (gp_exec ?sha) [] sample_plan_cmds" and ?h = "foldl (gp_abs ?sha) [] sample_plan_cmds"
  let ?e = "sample_evidence\<lparr>paper_window_days := 90\<rparr>"
  have last: "?h \<noteq> []" "gr_plan (last ?h) = sample_plan 5000" "gr_paper_clock_start (last ?h) = 4000" by (simp_all add: sample_plan_history)
  have latest: "latest_gate_plan_registration ?sha idx ?db = Inr (Some (last ?h))" for idx
    using gp_rel_latest [OF plan_ledger.run_refines [OF gp_rel_Nil sample_plan_cmds_ok], of ?sha idx] last(1) by simp
  have anchor: "anchor_gate_evidence ?sha True (Some ?db) 7780000 sample_evidence = Inr ?e"
    by (simp add: anchor_gate_evidence_def anchored_paper_window_days_def latest last Let_def SECONDS_PER_DAY_def del: foldl_Cons)
  have cr: "ladder_rank (msm_ceiling (kn_machine ?k)) = Some 3" and mode: "kn_mode ?k = PAPER" by simp_all
  have ov: "kn_override_applied ?k = False" by (simp add: sample_kernel_def RiskKernel_new_def)
  have "ready_for_live_micro (sample_plan 5000) False ?e" by (simp add: ready_for_live_micro_def sample_plan_def sample_evidence_def)
  then have promoted: "kn_mode (snd (request_promotion ?sha False (Some ?db) ?e ?k)) = LIVE_MICRO"
    using promotion_mode [OF cr, of ?sha False "Some ?db" ?e] latest [of False] last(2) ov by simp
  then have "kn_mode (snd (request_promotion ?sha False (Some ?db) ?e ?k)) \<noteq> PAPER" by simp
  from promotion_waits_out_plan_change [OF sample_plan_cmds_ok anchor mode cr this] anchor promoted last ov
  show ?thesis by (simp add: Let_def del: foldl_Cons)
qed


definition sample_kernel_events :: event_log where
  "sample_kernel_events = [SignificanceOverrideApplied KN_COMPONENT SIGNIFICANCE_OVERRIDE_ACK_PHRASE (mode_name OVERRIDE_CEILING),
     ModeHeartbeat KN_COMPONENT ''PAPER'' 1, KillEngaged RISKKERNEL_COMPONENT (trigger_name CLI) 1 5,
     CancelAllDirective RISKKERNEL_COMPONENT CANCEL_ALL_SCOPE [] False,
     AlertEmitted RISKKERNEL_COMPONENT HALT_KILL_SEVERITY HALT_KILL_MESSAGE [] False]"


section \<open>What does not hold\<close>

text \<open>A demotion by \<open>MANUAL_KILL\<close> kills the kernel without the event of a kill, so a restart brings it back to its mode, and the kill
  counter stays where it was.\<close>

lemma manual_kill_not_replayed:
  "let k = RiskKernel_new (KillSwitch_new \<lparr>msm_ceiling = PAPER, msm_mode = PAPER\<rparr> [] None True) None (None :: unit ReadOnlyVerifier option) True;
       k' = snd (fire_demotion_trigger MANUAL_KILL k) in
   kn_mode k' = KILLED \<and> ks_sequence (kn_switch k') = 0 \<and>
   (\<exists>k''. RiskKernel_from_events (kn_events k') (kn_switch k) None (None :: unit ReadOnlyVerifier option) True = Inr k'' \<and> kn_mode k'' = PAPER)"
  by (simp add: fire_demotion_trigger_def RiskKernel_new_def KillSwitch_new_def kn_mode_def kn_machine_def Let_def resolve_demotion_def
      resolve_safety_action_def SAFETY_ACTION_TARGET_def dict_get_def apply_demotion_def mode_transition_safety kn_set_machine_def kn_record_def
      ks_record_def log_record_def kn_events_def NO_KILL_SEQUENCE_def RiskKernel_from_events_def kill_state_in_def absorb_foreign
      KILL_ENGAGED_EVENT_TYPE_def KILL_REARMED_EVENT_TYPE_def)

end
