(* ===== verification/Screening.thy ===== *)
theory Screening
  imports Venue Sanitize
begin

text \<open>
  The screener (\<open>windbreak/screener/filters.py\<close>, \<open>screener.py\<close>) and the walk of a tick over the venue's markets
  (\<open>windbreak/scheduler/screening.py\<close>). Instants are in microseconds; the text a timestamp is rendered to is not modelled. The writer of
  events is an argument: what it makes of its state for an event, or that it raises. The reading of the screener's clock at each market
  is an argument as well. A duration in seconds passes through a float in the code, which is exact below some 270 years.
\<close>

section \<open>Definitions\<close>

subsection \<open>The filters\<close>

definition CATEGORY_BLOCKLIST :: string where "CATEGORY_BLOCKLIST = ''category_blocklist''"
definition MIN_VOLUME_24H :: string where "MIN_VOLUME_24H = ''min_volume_24h_micros''"
definition MIN_DEPTH :: string where "MIN_DEPTH = ''min_depth_contract_centis''"
definition HORIZON_DAYS :: string where "HORIZON_DAYS = ''horizon_days''"
definition LEGALLY_RISKY_CATEGORIES :: "string set" where "LEGALLY_RISKY_CATEGORIES = {''sports''}"
definition SC_SECONDS_PER_DAY :: int where "SC_SECONDS_PER_DAY = 86400"

record BookStats =
  bs_volume_24h_micros :: MoneyMicros
  bs_depth_contract_centis :: ContractCentis

record FilterResult =
  fr_passed :: bool
  fr_measured :: int

definition category_filter :: "NormalizedMarket \<Rightarrow> string list \<Rightarrow> string list \<Rightarrow> FilterResult" where
  "category_filter m blocklist acknowledged =
     (let blocked = nm_category m \<in> set blocklist \<or> (nm_category m \<in> LEGALLY_RISKY_CATEGORIES \<and> nm_category m \<notin> set acknowledged) in
      \<lparr>fr_passed = \<not> blocked, fr_measured = (if blocked then 1 else 0)\<rparr>)"

definition min_volume_filter :: "BookStats \<Rightarrow> int \<Rightarrow> FilterResult" where
  "min_volume_filter stats t = (let measured = val (bs_volume_24h_micros stats) in \<lparr>fr_passed = t \<le> measured, fr_measured = measured\<rparr>)"

definition min_depth_filter :: "BookStats \<Rightarrow> int \<Rightarrow> FilterResult" where
  "min_depth_filter stats t = (let measured = val (bs_depth_contract_centis stats) in \<lparr>fr_passed = t \<le> measured, fr_measured = measured\<rparr>)"

text \<open>\<open>int\<close> of a float drops the fraction towards zero.\<close>

definition whole_seconds :: "int \<Rightarrow> int" where
  "whole_seconds micros = (if micros < 0 then - ((- micros) div 1000000) else micros div 1000000)"

definition horizon_filter :: "NormalizedMarket \<Rightarrow> int \<Rightarrow> int \<Rightarrow> int \<Rightarrow> FilterResult" where
  "horizon_filter m now min_days max_days =
     (let horizon = whole_seconds (nm_close_time m - now) div SC_SECONDS_PER_DAY in
      \<lparr>fr_passed = min_days \<le> horizon \<and> horizon \<le> max_days, fr_measured = horizon\<rparr>)"

subsection \<open>The screener\<close>

record ScreenerConfig =
  sc_category_blocklist :: "string list"
  sc_min_volume_24h_micros :: int
  sc_min_depth_contract_centis :: int
  sc_horizon_min :: int
  sc_horizon_max :: int
  sc_max_candidates_per_tick :: int

definition LEGAL_RISK_ACK_EVENT :: string where "LEGAL_RISK_ACK_EVENT = ''LEGAL_RISK_ACK''"
definition SCREEN_DECISION_EVENT :: string where "SCREEN_DECISION_EVENT = ''SCREEN_DECISION''"
definition CANONICAL_ORDER :: "string list" where "CANONICAL_ORDER = [CATEGORY_BLOCKLIST, MIN_VOLUME_24H, MIN_DEPTH, HORIZON_DAYS]"

record ConnectorEvent =
  ce_event_type :: string
  ce_payload :: payload
  ce_ts :: int

definition two_sided_min_depth :: "OrderBookSnapshot \<Rightarrow> int" where
  "two_sided_min_depth b =
     min (sum_list (map (\<lambda>l. val (lvl_quantity l)) (yes_bids b))) (sum_list (map (\<lambda>l. val (lvl_quantity l)) (yes_asks b)))"

record LegalRiskAcknowledgement =
  la_category :: string
  la_reason :: string

record ScreenResult =
  sr_ticker :: string
  sr_eligible :: bool
  sr_blocked_by :: "string list"
  sr_filters :: "(string, FilterResult) pydict"

record Screener =
  sn_config :: ScreenerConfig
  sn_acknowledged_categories :: "string list"

type_synonym 'w connector_writer = "ConnectorEvent \<Rightarrow> 'w \<Rightarrow> num_error + 'w"

fun emit_acknowledgements :: "'w connector_writer \<Rightarrow> (LegalRiskAcknowledgement \<times> int) list \<Rightarrow> 'w \<Rightarrow> num_error + 'w" where
  "emit_acknowledgements rec [] w = Inr w"
| "emit_acknowledgements rec ((a, now) # as) w =
     res_bind (rec \<lparr>ce_event_type = LEGAL_RISK_ACK_EVENT,
       ce_payload = [(''category'', JStr (la_category a)), (''reason'', JStr (la_reason a))], ce_ts = now\<rparr> w) (emit_acknowledgements rec as)"

definition Screener_new :: "'w connector_writer \<Rightarrow> ScreenerConfig \<Rightarrow> (LegalRiskAcknowledgement \<times> int) list \<Rightarrow> 'w \<Rightarrow> num_error + Screener \<times> 'w" where
  "Screener_new rec config acks w =
     res_bind (emit_acknowledgements rec acks w) (\<lambda>w'.
       Inr (\<lparr>sn_config = config, sn_acknowledged_categories = map (\<lambda>(a, _). la_category a) acks\<rparr>, w'))"

definition run_filters :: "Screener \<Rightarrow> NormalizedMarket \<Rightarrow> BookStats \<Rightarrow> int \<Rightarrow> (string, FilterResult) pydict" where
  "run_filters sc m stats now =
     [(CATEGORY_BLOCKLIST, category_filter m (sc_category_blocklist (sn_config sc)) (sn_acknowledged_categories sc)),
      (MIN_VOLUME_24H, min_volume_filter stats (sc_min_volume_24h_micros (sn_config sc))),
      (MIN_DEPTH, min_depth_filter stats (sc_min_depth_contract_centis (sn_config sc))),
      (HORIZON_DAYS, horizon_filter m now (sc_horizon_min (sn_config sc)) (sc_horizon_max (sn_config sc)))]"

definition decision_event :: "NormalizedMarket \<Rightarrow> bool \<Rightarrow> string list \<Rightarrow> (string, FilterResult) pydict \<Rightarrow> int \<Rightarrow> ConnectorEvent" where
  "decision_event m eligible blocked_by results now =
     \<lparr>ce_event_type = SCREEN_DECISION_EVENT,
      ce_payload = [(''ticker'', JStr (nm_ticker m)), (''eligible'', JBool eligible), (''blocked_by'', JList (map JStr blocked_by)),
        (''filters'', JObj (map (\<lambda>(n, r). (n, JObj [(''passed'', JBool (fr_passed r)), (''measured'', JInt (fr_measured r))])) results))],
      ce_ts = now\<rparr>"

definition screen :: "'w connector_writer \<Rightarrow> Screener \<Rightarrow> int \<Rightarrow> NormalizedMarket \<Rightarrow> BookStats \<Rightarrow> 'w \<Rightarrow> num_error + ScreenResult \<times> 'w" where
  "screen rec sc now m stats w =
     (let results = run_filters sc m stats now;
          blocked_by = filter (\<lambda>n. case dict_get results n of None \<Rightarrow> False | Some r \<Rightarrow> \<not> fr_passed r) CANONICAL_ORDER;
          eligible = (blocked_by = []) in
      res_bind (rec (decision_event m eligible blocked_by results now) w) (\<lambda>w'.
        Inr (\<lparr>sr_ticker = nm_ticker m, sr_eligible = eligible, sr_blocked_by = blocked_by, sr_filters = results\<rparr>, w')))"

definition screen_book :: "'w connector_writer \<Rightarrow> Screener \<Rightarrow> int \<Rightarrow> NormalizedMarket \<Rightarrow> OrderBookSnapshot \<Rightarrow> 'w \<Rightarrow> num_error + ScreenResult \<times> 'w" where
  "screen_book rec sc now m b w =
     screen rec sc now m \<lparr>bs_volume_24h_micros = IntUnit (nm_volume_24h_micros m), bs_depth_contract_centis = IntUnit (two_sided_min_depth b)\<rparr> w"

subsection \<open>The walk of a tick\<close>

definition ScreenDecisionRecorded :: "string \<Rightarrow> string \<Rightarrow> bool \<Rightarrow> json \<Rightarrow> Event" where
  "ScreenDecisionRecorded cmp ticker eligible blocked_by =
     derive_typed_event ''ScreenDecisionRecorded'' cmp
       [(''ticker'', JStr ticker), (''eligible'', JBool eligible), (''blocked_by'', blocked_by)] SCHEMA_VERSION"

text \<open>The adapter to the ledger; the values are cast unchecked, and are what \<open>decision_event\<close> put there.\<close>

definition screen_ledger_record :: "(string \<Rightarrow> string) \<Rightarrow> string \<Rightarrow> ConnectorEvent \<Rightarrow> Event list \<Rightarrow> num_error + Event list" where
  "screen_ledger_record sha256_hex cmp e store =
     (if ce_event_type e \<noteq> SCREEN_DECISION_EVENT then Inl ValueError
      else case (dict_get (ce_payload e) ''ticker'', dict_get (ce_payload e) ''eligible'', dict_get (ce_payload e) ''blocked_by'') of
          (Some (JStr ticker), Some (JBool eligible), Some blocked_by) \<Rightarrow>
            Inr (store @ [ScreenDecisionRecorded cmp (ledger_safe_ticker sha256_hex ticker) eligible blocked_by])
        | _ \<Rightarrow> Inl TypeError)"

record MarketCandidate =
  mc_market :: NormalizedMarket
  mc_order_book :: OrderBookSnapshot

definition require_candidate_bound :: "int \<Rightarrow> num_error + int" where
  "require_candidate_bound n = (if n < 1 then Inl ValueError else Inr n)"

fun screen_walk ::
    "'w connector_writer \<Rightarrow> Screener \<Rightarrow> int \<Rightarrow> (string \<Rightarrow> num_error + OrderBookSnapshot) \<Rightarrow> (NormalizedMarket \<times> int) list \<Rightarrow>
     MarketCandidate list \<Rightarrow> 'w \<Rightarrow> num_error + MarketCandidate list \<times> 'w" where
  "screen_walk rec sc n books [] acc w = Inr (acc, w)"
| "screen_walk rec sc n books ((m, now) # ms) acc w =
     res_bind (books (nm_ticker m)) (\<lambda>b.
     res_bind (screen_book rec sc now m b w) (\<lambda>(r, w').
       if sr_eligible r then
         (let acc' = acc @ [\<lparr>mc_market = m, mc_order_book = b\<rparr>] in
          if n \<le> int (length acc') then Inr (acc', w') else screen_walk rec sc n books ms acc' w')
       else screen_walk rec sc n books ms acc w'))"

definition screen_universe ::
    "'w connector_writer \<Rightarrow> Screener \<Rightarrow> int \<Rightarrow> (string \<Rightarrow> num_error + OrderBookSnapshot) \<Rightarrow> (nat \<Rightarrow> int) \<Rightarrow> NormalizedMarket list \<Rightarrow> 'w \<Rightarrow>
     num_error + MarketCandidate list \<times> 'w" where
  "screen_universe rec sc n books clock markets w =
     (let ms = sort_key nm_ticker markets in screen_walk rec sc n books (zip ms (map clock [0..<length ms])) [] w)"

section \<open>Lemmas\<close>

text \<open>The policy in plain terms.\<close>

definition tradable :: "Screener \<Rightarrow> int \<Rightarrow> NormalizedMarket \<Rightarrow> OrderBookSnapshot \<Rightarrow> bool" where
  "tradable sc now m b = (nm_category m \<notin> set (sc_category_blocklist (sn_config sc)) \<and>
     (nm_category m = ''sports'' \<longrightarrow> ''sports'' \<in> set (sn_acknowledged_categories sc)) \<and>
     sc_min_volume_24h_micros (sn_config sc) \<le> nm_volume_24h_micros m \<and>
     sc_min_depth_contract_centis (sn_config sc) \<le> sum_list (map (\<lambda>l. val (lvl_quantity l)) (yes_bids b)) \<and>
     sc_min_depth_contract_centis (sn_config sc) \<le> sum_list (map (\<lambda>l. val (lvl_quantity l)) (yes_asks b)) \<and>
     (let horizon = whole_seconds (nm_close_time m - now) div 86400 in
      sc_horizon_min (sn_config sc) \<le> horizon \<and> horizon \<le> sc_horizon_max (sn_config sc)))"

lemmas filter_defs = category_filter_def min_volume_filter_def min_depth_filter_def horizon_filter_def Let_def
lemmas filter_names = CATEGORY_BLOCKLIST_def MIN_VOLUME_24H_def MIN_DEPTH_def HORIZON_DAYS_def

text \<open>What a screening records on the ledger.\<close>

definition blocked_names :: "Screener \<Rightarrow> int \<Rightarrow> NormalizedMarket \<Rightarrow> OrderBookSnapshot \<Rightarrow> string list" where
  "blocked_names sc now m b =
     (let rs = run_filters sc m \<lparr>bs_volume_24h_micros = IntUnit (nm_volume_24h_micros m), bs_depth_contract_centis = IntUnit (two_sided_min_depth b)\<rparr> now in
      filter (\<lambda>n. case dict_get rs n of None \<Rightarrow> False | Some r \<Rightarrow> \<not> fr_passed r) CANONICAL_ORDER)"

lemma blocked_names_Nil: "blocked_names sc now m b = [] \<longleftrightarrow> tradable sc now m b"
  by (auto simp: blocked_names_def tradable_def run_filters_def CANONICAL_ORDER_def filter_names dict_get_def filter_defs
      two_sided_min_depth_def LEGALLY_RISKY_CATEGORIES_def SC_SECONDS_PER_DAY_def)

definition screen_row :: "(string \<Rightarrow> string) \<Rightarrow> string \<Rightarrow> Screener \<Rightarrow> int \<Rightarrow> NormalizedMarket \<Rightarrow> OrderBookSnapshot \<Rightarrow> Event" where
  "screen_row sha256_hex cmp sc now m b =
     ScreenDecisionRecorded cmp (ledger_safe_ticker sha256_hex (nm_ticker m)) (tradable sc now m b) (JList (map JStr (blocked_names sc now m b)))"

lemma screen_book_ledgered:
  "\<exists>r. screen_book (screen_ledger_record sha256_hex cmp) sc now m b store = Inr (r, store @ [screen_row sha256_hex cmp sc now m b]) \<and>
     sr_eligible r = tradable sc now m b \<and> sr_blocked_by r = blocked_names sc now m b"
  using blocked_names_Nil [of sc now m b]
  by (simp add: screen_book_def screen_def screen_ledger_record_def decision_event_def dict_get_def Let_def blocked_names_def screen_row_def)

text \<open>The markets a walk examines: up to the one that fills the last place.\<close>

fun examined :: "Screener \<Rightarrow> (string \<Rightarrow> OrderBookSnapshot) \<Rightarrow> nat \<Rightarrow> (NormalizedMarket \<times> int) list \<Rightarrow> (NormalizedMarket \<times> int) list" where
  "examined sc book 0 ms = []"
| "examined sc book (Suc n) [] = []"
| "examined sc book (Suc n) ((m, now) # ms) = (m, now) # examined sc book (if tradable sc now m (book (nm_ticker m)) then n else Suc n) ms"

lemma walk_exact:
  assumes "\<And>t. books t = Inr (book t)" and "int (length acc) + int n = k" and "0 < n"
  shows "screen_walk (screen_ledger_record sha256_hex cmp) sc k books ms acc store =
    Inr (acc @ take n (map (\<lambda>(m, now). \<lparr>mc_market = m, mc_order_book = book (nm_ticker m)\<rparr>)
           (filter (\<lambda>(m, now). tradable sc now m (book (nm_ticker m))) ms)),
         store @ map (\<lambda>(m, now). screen_row sha256_hex cmp sc now m (book (nm_ticker m))) (examined sc book n ms))"
  using assms(2,3)
proof (induction ms arbitrary: acc n store)
  case Nil
  then show ?case by (cases n) simp_all
next
  case (Cons p ms)
  obtain m now where p: "p = (m, now)" by (cases p)
  let ?b = "book (nm_ticker m)"
  obtain n' where n: "n = Suc n'" using Cons.prems(2) by (cases n) auto
  obtain r where r: "screen_book (screen_ledger_record sha256_hex cmp) sc now m ?b store = Inr (r, store @ [screen_row sha256_hex cmp sc now m ?b])"
    "sr_eligible r = tradable sc now m ?b" using screen_book_ledgered by blast
  show ?case
  proof (cases "tradable sc now m ?b \<and> 0 < n'")
    case True
    then have "int (length (acc @ [\<lparr>mc_market = m, mc_order_book = ?b\<rparr>])) + int n' = k" using Cons.prems(1) n by simp
    from Cons.IH [OF this] True r assms(1) Cons.prems(1) show ?thesis by (simp add: p n Let_def)
  next
    case False
    with Cons.IH [OF Cons.prems] r assms(1) Cons.prems(1) show ?thesis by (auto simp: p n Let_def)
  qed
qed

text \<open>What a walk examines and finds, by the policy alone.\<close>

definition walked :: "(nat \<Rightarrow> int) \<Rightarrow> NormalizedMarket list \<Rightarrow> (NormalizedMarket \<times> int) list" where
  "walked clock markets = (let ms = sort_key nm_ticker markets in zip ms (map clock [0..<length ms]))"

definition found :: "Screener \<Rightarrow> (string \<Rightarrow> OrderBookSnapshot) \<Rightarrow> (NormalizedMarket \<times> int) list \<Rightarrow> MarketCandidate list" where
  "found sc book ms = map (\<lambda>(m, now). \<lparr>mc_market = m, mc_order_book = book (nm_ticker m)\<rparr>)
     (filter (\<lambda>(m, now). tradable sc now m (book (nm_ticker m))) ms)"

lemma examined_prefix: "examined sc book n ms = take (length (examined sc book n ms)) ms"
  by (induction sc book n ms rule: examined.induct) auto

lemma examined_found: "take n (found sc book ms) = found sc book (examined sc book n ms)"
  by (induction sc book n ms rule: examined.induct) (auto simp: found_def)

lemma examined_all: "length (found sc book ms) < n \<Longrightarrow> examined sc book n ms = ms"
  by (induction sc book n ms rule: examined.induct) (auto simp: found_def split: if_splits)

lemma map_fst_walked: "map fst (walked clock markets) = sort_key nm_ticker markets"
  by (simp add: walked_def Let_def)

lemma sorted_found: "sorted (map (\<lambda>c. nm_ticker (mc_market c)) (found sc book (walked clock markets)))"
proof -
  let ?w = "walked clock markets"
  have "sorted (map (\<lambda>p. nm_ticker (fst p)) ?w)"
    using sorted_sort_key [of nm_ticker markets] unfolding map_fst_walked [of clock, symmetric] by (simp add: comp_def)
  then have "sorted (map (\<lambda>p. nm_ticker (fst p)) (filter (\<lambda>(m, now). tradable sc now m (book (nm_ticker m))) ?w))"
    by (rule sorted_filter)
  then show ?thesis by (simp add: found_def case_prod_beta comp_def)
qed

text \<open>A writer that was taught the decisions only refuses the acknowledgement of a legal risk: a screener over it cannot be made with one.\<close>

lemma ledger_writer_refuses_acknowledgement:
  "Screener_new (screen_ledger_record sha256_hex cmp) config ((a, now) # acks) store = Inl ValueError"
  by (simp add: Screener_new_def screen_ledger_record_def LEGAL_RISK_ACK_EVENT_def SCREEN_DECISION_EVENT_def)

section \<open>Properties\<close>

text \<open>
  C28. A tick's candidates are the first \<open>n\<close> markets, in ascending order of their tickers, that the screening policy admits, each
  with the very book it was admitted on; the ledger gains one decision for each market examined, with its verdict, and the
  markets examined are the ones up to the last candidate, or all of them when fewer than \<open>n\<close> are admitted.\<close>

theorem screen_universe_exact:
  assumes "\<And>t. books t = Inr (book t)" and "require_candidate_bound n = Inr n"
  shows "screen_universe (screen_ledger_record sha256_hex cmp) sc n books clock markets store =
      Inr (take (nat n) (found sc book (walked clock markets)),
           store @ map (\<lambda>(m, now). screen_row sha256_hex cmp sc now m (book (nm_ticker m))) (examined sc book (nat n) (walked clock markets))) \<and>
    sorted (map (\<lambda>c. nm_ticker (mc_market c)) (take (nat n) (found sc book (walked clock markets)))) \<and>
    prefix (examined sc book (nat n) (walked clock markets)) (walked clock markets) \<and>
    take (nat n) (found sc book (walked clock markets)) = found sc book (examined sc book (nat n) (walked clock markets)) \<and>
    (length (found sc book (walked clock markets)) < nat n \<longrightarrow> examined sc book (nat n) (walked clock markets) = walked clock markets)"
proof (intro conjI impI)
  have n: "0 < nat n" "int (length ([] :: MarketCandidate list)) + int (nat n) = n"
    using assms(2) by (simp_all add: require_candidate_bound_def split: if_splits)
  show "screen_universe (screen_ledger_record sha256_hex cmp) sc n books clock markets store =
      Inr (take (nat n) (found sc book (walked clock markets)),
           store @ map (\<lambda>(m, now). screen_row sha256_hex cmp sc now m (book (nm_ticker m))) (examined sc book (nat n) (walked clock markets)))"
    using walk_exact [where acc = "[]" and ms = "walked clock markets" and sha256_hex = sha256_hex and store = store and sc = sc and cmp = cmp, OF assms(1) n(2,1)]
    by (simp add: screen_universe_def walked_def found_def Let_def)
  show "sorted (map (\<lambda>c. nm_ticker (mc_market c)) (take (nat n) (found sc book (walked clock markets))))"
    unfolding take_map [symmetric] by (rule sorted_wrt_take [OF sorted_found])
  show "prefix (examined sc book (nat n) (walked clock markets)) (walked clock markets)"
    by (metis examined_prefix take_is_prefix)
qed (auto intro: examined_found examined_all)

definition sample_screener :: Screener where
  "sample_screener = \<lparr>sn_config = \<lparr>sc_category_blocklist = [''war''], sc_min_volume_24h_micros = 10, sc_min_depth_contract_centis = 5,
     sc_horizon_min = 0, sc_horizon_max = 30, sc_max_candidates_per_tick = 1\<rparr>, sn_acknowledged_categories = []\<rparr>"

definition sample_listing :: "string \<Rightarrow> string \<Rightarrow> NormalizedMarket" where
  "sample_listing t c = \<lparr>nm_exchange = ''x'', nm_ticker = t, nm_event_ticker = ''E'', nm_title = ''t'', nm_resolution_criteria = ''r'', nm_category = c,
     nm_close_time = 86400000000, nm_expected_resolution_time = None, nm_market_type = ''fully_collateralized_binary'', nm_price_tick_pips = 100,
     nm_min_order_contract_centis = 100, nm_fractional_trading_enabled = False, nm_mutually_exclusive_group_id = None,
     nm_jurisdiction_status = ''eligible'', nm_raw_exchange_payload_hash = ''h'', nm_volume_24h_micros = 20\<rparr>"

definition sample_listing_book :: "string \<Rightarrow> OrderBookSnapshot" where
  "sample_listing_book t = \<lparr>ob_ticker = t, yes_bids = [\<lparr>lvl_price = IntUnit 4000, lvl_quantity = IntUnit 5\<rparr>],
     yes_asks = [\<lparr>lvl_price = IntUnit 6000, lvl_quantity = IntUnit 7\<rparr>], ob_fetched_at = 0\<rparr>"

theorem screen_universe_exact_witness:
  "screen_universe (screen_ledger_record (\<lambda>_. []) ''screener'') sample_screener 1 (\<lambda>t. Inr (sample_listing_book t)) (\<lambda>_. 0)
       [sample_listing ''C'' ''elections'', sample_listing ''B'' ''elections'', sample_listing ''A'' ''sports''] [] =
     Inr ([\<lparr>mc_market = sample_listing ''B'' ''elections'', mc_order_book = sample_listing_book ''B''\<rparr>],
       [ScreenDecisionRecorded ''screener'' ''A'' False (JList [JStr ''category_blocklist'']), ScreenDecisionRecorded ''screener'' ''B'' True (JList [])])"
proof -
  let ?ms = "[sample_listing ''C'' ''elections'', sample_listing ''B'' ''elections'', sample_listing ''A'' ''sports'']"
  have "walked (\<lambda>_. 0) ?ms = [(sample_listing ''A'' ''sports'', 0), (sample_listing ''B'' ''elections'', 0), (sample_listing ''C'' ''elections'', 0)]"
    by code_simp
  moreover have "tradable sample_screener 0 (sample_listing t ''elections'') (sample_listing_book t')" for t t'
    by (simp add: tradable_def sample_screener_def sample_listing_def sample_listing_book_def whole_seconds_def)
  moreover have "\<not> tradable sample_screener 0 (sample_listing t ''sports'') b" for t b
    by (simp add: tradable_def sample_screener_def sample_listing_def)
  moreover have "nm_ticker (sample_listing t c) = t" for t c by (simp add: sample_listing_def)
  moreover have "blocked_names sample_screener 0 (sample_listing ''A'' ''sports'') (sample_listing_book ''A'') = [''category_blocklist'']"
    "blocked_names sample_screener 0 (sample_listing ''B'' ''elections'') (sample_listing_book ''B'') = []"
    "ledger_safe_ticker (\<lambda>_. []) ''A'' = ''A''" "ledger_safe_ticker (\<lambda>_. []) ''B'' = ''B''"
    by code_simp+
  ultimately show ?thesis
    using screen_universe_exact [of "\<lambda>t. Inr (sample_listing_book t)" sample_listing_book 1 "\<lambda>_. []" "''screener''" sample_screener "\<lambda>_. 0" ?ms "[]"]
    by (simp add: require_candidate_bound_def found_def screen_row_def)
qed

end
