(* ===== verification/ResearchSpend.thy ===== *)
theory ResearchSpend
  imports LedgerStore Sanitize
begin

text \<open>
  The research budget: its ceilings and metering (\<open>windbreak/forecast/budget.py\<close>), the ledger rows that make its day counter durable
  (\<open>windbreak/scheduler/research_spend.py\<close>), the loop's writer and rebuilding of it (\<open>windbreak/scheduler/loop.py\<close>) and the operator's verb
  (\<open>windbreak/main.py\<close>). A budget handed back for the rest of a forecast shares its day counter and ledger with the budget it came from: they are
  the \<open>BudgetBooks\<close> that every operation takes and returns. Instants are in microseconds since 1970 and naive ones are refused; an event keeps the instant its
  time stamp renders. An append to the store may fail, event by event.
\<close>

section \<open>Definitions\<close>

subsection \<open>Constants\<close>

definition FULL_PIPELINE_RESEARCH_COST_MICROS :: int where "FULL_PIPELINE_RESEARCH_COST_MICROS = 3000000"
definition STAGE0_COST_DIVISOR :: int where "STAGE0_COST_DIVISOR = 50"
definition STAGE0_PRIOR_COST_MICROS :: int where "STAGE0_PRIOR_COST_MICROS = FULL_PIPELINE_RESEARCH_COST_MICROS div STAGE0_COST_DIVISOR"
definition DEFAULT_VOTE_ENSEMBLE_SIZE :: int where "DEFAULT_VOTE_ENSEMBLE_SIZE = 3"
definition DEFAULT_PER_MEMBER_VOTE_CEILING_MICROS :: int where "DEFAULT_PER_MEMBER_VOTE_CEILING_MICROS = 1000000"
definition DEFAULT_PER_FORECAST_BUDGET_MICROS :: int where
  "DEFAULT_PER_FORECAST_BUDGET_MICROS =
     STAGE0_PRIOR_COST_MICROS + FULL_PIPELINE_RESEARCH_COST_MICROS + DEFAULT_VOTE_ENSEMBLE_SIZE * DEFAULT_PER_MEMBER_VOTE_CEILING_MICROS"
definition DEFAULT_PER_DAY_BUDGET_MICROS :: int where "DEFAULT_PER_DAY_BUDGET_MICROS = 20000000"
definition DEFAULT_MAX_PAGES :: int where "DEFAULT_MAX_PAGES = 20"
definition BUDGET_FORECAST_EXCEEDED_EVENT :: string where "BUDGET_FORECAST_EXCEEDED_EVENT = ''BUDGET_FORECAST_EXCEEDED''"
definition BUDGET_DAY_EXHAUSTED_EVENT :: string where "BUDGET_DAY_EXHAUSTED_EVENT = ''BUDGET_DAY_EXHAUSTED''"
definition BUDGET_SPEND_RECORDED_EVENT :: string where "BUDGET_SPEND_RECORDED_EVENT = ''BUDGET_SPEND_RECORDED''"
definition COST_REPORT_EVENT :: string where "COST_REPORT_EVENT = ''COST_REPORT''"

subsection \<open>Prices and metering\<close>

definition require_non_negative :: "int \<Rightarrow> num_error + unit" where
  "require_non_negative v = (if v < 0 then Inl ValueError else Inr ())"

definition require_positive_micros :: "int \<Rightarrow> num_error + unit" where
  "require_positive_micros v = (if v < 1 then Inl ValueError else Inr ())"

record ProviderPriceTable =
  pp_prices_micros :: "(string, int) pydict"
  pp_unknown_provider_price_micros :: int

fun all_positive :: "int list \<Rightarrow> num_error + unit" where
  "all_positive [] = Inr ()"
| "all_positive (p # ps) = res_bind (require_positive_micros p) (\<lambda>_. all_positive ps)"

definition ProviderPriceTable_new :: "(string, int) pydict \<Rightarrow> int \<Rightarrow> num_error + ProviderPriceTable" where
  "ProviderPriceTable_new prices unknown =
     res_bind (require_positive_micros unknown) (\<lambda>_. res_bind (all_positive (map snd prices)) (\<lambda>_.
       Inr \<lparr>pp_prices_micros = prices, pp_unknown_provider_price_micros = unknown\<rparr>))"

definition price_micros :: "ProviderPriceTable \<Rightarrow> string \<Rightarrow> int" where
  "price_micros t provider = (case dict_get (pp_prices_micros t) provider of Some p \<Rightarrow> p | None \<Rightarrow> pp_unknown_provider_price_micros t)"

definition DEFAULT_UNKNOWN_PROVIDER_PRICE_MICROS :: int where "DEFAULT_UNKNOWN_PROVIDER_PRICE_MICROS = 1000000"

record TokenUsage =
  tu_input_tokens :: int
  tu_output_tokens :: int

definition token_count :: "py_value \<Rightarrow> num_error + int" where
  "token_count v = (case v of PyInt i \<Rightarrow> res_bind (require_non_negative i) (\<lambda>_. Inr i) | _ \<Rightarrow> Inl TypeError)"

definition TokenUsage_new :: "py_value \<Rightarrow> py_value \<Rightarrow> num_error + TokenUsage" where
  "TokenUsage_new i out = res_bind (token_count i) (\<lambda>n. res_bind (token_count out) (\<lambda>m. Inr \<lparr>tu_input_tokens = n, tu_output_tokens = m\<rparr>))"

definition total_tokens :: "TokenUsage \<Rightarrow> int" where "total_tokens u = tu_input_tokens u + tu_output_tokens u"

definition MICROS_PER_MILLION_TOKENS_DENOMINATOR :: int where "MICROS_PER_MILLION_TOKENS_DENOMINATOR = 1000000"

record ModelTokenRate =
  mr_model_version :: string
  mr_input :: int
  mr_output :: int

definition ModelTokenRate_new :: "string \<Rightarrow> int \<Rightarrow> int \<Rightarrow> num_error + ModelTokenRate" where
  "ModelTokenRate_new v i out =
     res_bind (require_positive_micros i) (\<lambda>_. res_bind (require_positive_micros out) (\<lambda>_.
       Inr \<lparr>mr_model_version = v, mr_input = i, mr_output = out\<rparr>))"

record ModelRateTable =
  mt_rates :: "(string, ModelTokenRate) pydict"
  mt_unmetered_micros :: int

definition ModelRateTable_new :: "(string, ModelTokenRate) pydict \<Rightarrow> int \<Rightarrow> num_error + ModelRateTable" where
  "ModelRateTable_new rates unmetered =
     res_bind (require_positive_micros unmetered) (\<lambda>_. Inr \<lparr>mt_rates = rates, mt_unmetered_micros = unmetered\<rparr>)"

definition micros_for :: "ModelRateTable \<Rightarrow> string \<Rightarrow> TokenUsage option \<Rightarrow> num_error + int" where
  "micros_for t version usage =
     (case (usage, dict_get (mt_rates t) version) of
        (Some u, Some r) \<Rightarrow>
          if total_tokens u = 0 then Inr (mt_unmetered_micros t)
          else divide_int (tu_input_tokens u * mr_input r + tu_output_tokens u * mr_output r) MICROS_PER_MILLION_TOKENS_DENOMINATOR OVERSTATE_COST
      | _ \<Rightarrow> Inr (mt_unmetered_micros t))"

definition OPENAI_PROVIDER_PRICE_MICROS :: int where "OPENAI_PROVIDER_PRICE_MICROS = 200000"
definition ANTHROPIC_PROVIDER_PRICE_MICROS :: int where "ANTHROPIC_PROVIDER_PRICE_MICROS = 300000"
definition FUTURESEARCH_PROVIDER_PRICE_MICROS :: int where "FUTURESEARCH_PROVIDER_PRICE_MICROS = 500000"

definition DEFAULT_PROVIDER_PRICE_TABLE :: "num_error + ProviderPriceTable" where
  "DEFAULT_PROVIDER_PRICE_TABLE = ProviderPriceTable_new
     [(''openai'', OPENAI_PROVIDER_PRICE_MICROS), (''anthropic'', ANTHROPIC_PROVIDER_PRICE_MICROS), (''futuresearch'', FUTURESEARCH_PROVIDER_PRICE_MICROS)]
     DEFAULT_UNKNOWN_PROVIDER_PRICE_MICROS"

definition DEFAULT_UNMETERED_RESPONSE_MICROS :: int where "DEFAULT_UNMETERED_RESPONSE_MICROS = DEFAULT_PER_MEMBER_VOTE_CEILING_MICROS"

definition DEFAULT_MODEL_RATE_TABLE :: "num_error + ModelRateTable" where
  "DEFAULT_MODEL_RATE_TABLE =
     res_bind (ModelTokenRate_new ''gpt-5-2025-08-07'' 1250000 10000000) (\<lambda>gpt5.
     res_bind (ModelTokenRate_new ''gpt-5-mini-2025-08-07'' 250000 2000000) (\<lambda>mini.
     res_bind (ModelTokenRate_new ''claude-sonnet-4-5-20250929'' 3000000 15000000) (\<lambda>claude.
       ModelRateTable_new [(''gpt-5-2025-08-07'', gpt5), (''gpt-5-mini-2025-08-07'', mini), (''claude-sonnet-4-5-20250929'', claude)]
         DEFAULT_UNMETERED_RESPONSE_MICROS)))"

subsection \<open>The day of an instant\<close>

datatype py_instant = Aware int | Naive

text \<open>The date of a day counted from 1970-01-01 in the Gregorian calendar, and its ISO text.\<close>

definition civil_of_days :: "int \<Rightarrow> int \<times> int \<times> int" where
  "civil_of_days days =
     (let z = days + 719468; era = z div 146097; doe = z mod 146097;
          yoe = (doe - doe div 1460 + doe div 36524 - doe div 146096) div 365;
          doy = doe - (365 * yoe + yoe div 4 - yoe div 100); mp = (5 * doy + 2) div 153;
          m = (if mp < 10 then mp + 3 else mp - 9)
      in (yoe + era * 400 + (if m \<le> 2 then 1 else 0), m, doy - (153 * mp + 2) div 5 + 1))"

definition pad_left :: "nat \<Rightarrow> string \<Rightarrow> string" where
  "pad_left n t = replicate (n - length t) CHR ''0'' @ t"

definition iso_date :: "int \<Rightarrow> string" where
  "iso_date days = (case civil_of_days days of (y, m, d) \<Rightarrow>
     pad_left 4 (show_int y) @ ''-'' @ pad_left 2 (show_int m) @ ''-'' @ pad_left 2 (show_int d))"

fun utc_day_key :: "py_instant \<Rightarrow> string option" where
  "utc_day_key Naive = None"
| "utc_day_key (Aware us) = Some (iso_date (us div 86400000000))"

subsection \<open>The budget\<close>

record BudgetEvent =
  be_event_type :: string
  be_payload :: payload
  be_at :: py_instant

datatype budget_error =
    PerForecastBudgetExceededError int int
  | DailyBudgetExhaustedError int int string
  | BudgetValueError
  | BudgetPayloadError
  | BudgetAppendFailed string

type_synonym 'w budget_writer = "BudgetEvent \<Rightarrow> 'w \<Rightarrow> (budget_error + unit) \<times> 'w"
type_synonym day_counter = "(string, int) pydict"

definition in_memory_record :: "(BudgetEvent list) budget_writer" where
  "in_memory_record e w = (Inr (), w @ [e])"

definition budget_events_by_type :: "string \<Rightarrow> BudgetEvent list \<Rightarrow> BudgetEvent list" where
  "budget_events_by_type t w = filter (\<lambda>e. be_event_type e = t) w"

record ResearchBudget =
  rb_per_forecast_micros :: int
  rb_per_day_micros :: int
  rb_max_pages :: int
  rb_already_charged_micros :: int

record 'w BudgetBooks =
  bk_spend_by_day :: day_counter
  bk_ledger :: 'w

definition spent_on :: "day_counter \<Rightarrow> string \<Rightarrow> int" where
  "spent_on c day = (case dict_get c day of Some n \<Rightarrow> n | None \<Rightarrow> 0)"

definition ResearchBudget_new :: "int \<Rightarrow> int \<Rightarrow> int \<Rightarrow> day_counter \<Rightarrow> budget_error + ResearchBudget \<times> day_counter" where
  "ResearchBudget_new per_forecast per_day max_pages opening =
     (if per_forecast < 0 \<or> per_day < 0 \<or> max_pages < 0 \<or> list_ex (\<lambda>(_, n). n < 0) opening then Inl BudgetValueError
      else Inr (\<lparr>rb_per_forecast_micros = per_forecast, rb_per_day_micros = per_day, rb_max_pages = max_pages, rb_already_charged_micros = 0\<rparr>, opening))"

definition ensure_day_open :: "'w budget_writer \<Rightarrow> py_instant \<Rightarrow> ResearchBudget \<Rightarrow> 'w BudgetBooks \<Rightarrow> (budget_error + unit) \<times> 'w BudgetBooks" where
  "ensure_day_open rec now b bk =
     (case utc_day_key now of None \<Rightarrow> (Inl BudgetValueError, bk)
      | Some day \<Rightarrow>
          (let spent = spent_on (bk_spend_by_day bk) day in
           if spent \<ge> rb_per_day_micros b then
             (case rec \<lparr>be_event_type = BUDGET_DAY_EXHAUSTED_EVENT,
                 be_payload = [(''utc_day'', JStr day), (''spent_micros'', JInt spent), (''budget_micros'', JInt (rb_per_day_micros b))], be_at = now\<rparr> (bk_ledger bk) of
                (Inl e, w) \<Rightarrow> (Inl e, bk\<lparr>bk_ledger := w\<rparr>)
              | (Inr _, w) \<Rightarrow> (Inl (DailyBudgetExhaustedError spent (rb_per_day_micros b) day), bk\<lparr>bk_ledger := w\<rparr>))
           else (Inr (), bk)))"

definition charge_forecast ::
    "'w budget_writer \<Rightarrow> int \<Rightarrow> string \<Rightarrow> py_instant \<Rightarrow> ResearchBudget \<Rightarrow> 'w BudgetBooks \<Rightarrow> (budget_error + unit) \<times> 'w BudgetBooks" where
  "charge_forecast rec cost ticker now b bk =
     (if cost < 0 then (Inl BudgetValueError, bk)
      else case utc_day_key now of None \<Rightarrow> (Inl BudgetValueError, bk)
      | Some day \<Rightarrow>
          (let bk = bk\<lparr>bk_spend_by_day := dict_set day (spent_on (bk_spend_by_day bk) day + cost) (bk_spend_by_day bk)\<rparr> in
           case rec \<lparr>be_event_type = BUDGET_SPEND_RECORDED_EVENT,
               be_payload = [(''utc_day'', JStr day), (''market_ticker'', JStr ticker), (''cost_micros'', JInt cost)], be_at = now\<rparr> (bk_ledger bk) of
             (Inl e, w) \<Rightarrow> (Inl e, bk\<lparr>bk_ledger := w\<rparr>)
           | (Inr _, w) \<Rightarrow>
               (let total = rb_already_charged_micros b + cost in
                if total > rb_per_forecast_micros b then
                  (case rec \<lparr>be_event_type = BUDGET_FORECAST_EXCEEDED_EVENT,
                      be_payload = [(''cost_micros'', JInt total), (''budget_micros'', JInt (rb_per_forecast_micros b)),
                        (''market_ticker'', JStr ticker), (''utc_day'', JStr day)], be_at = now\<rparr> w of
                     (Inl e, w') \<Rightarrow> (Inl e, bk\<lparr>bk_ledger := w'\<rparr>)
                   | (Inr _, w') \<Rightarrow> (Inl (PerForecastBudgetExceededError total (rb_per_forecast_micros b)), bk\<lparr>bk_ledger := w'\<rparr>))
                else (Inr (), bk\<lparr>bk_ledger := w\<rparr>))))"

text \<open>The remainder is a new budget with the ceilings of the old one; it keeps the books and what was charged.\<close>

definition charge_stage ::
    "'w budget_writer \<Rightarrow> int \<Rightarrow> string \<Rightarrow> py_instant \<Rightarrow> ResearchBudget \<Rightarrow> 'w BudgetBooks \<Rightarrow> (budget_error + ResearchBudget) \<times> 'w BudgetBooks" where
  "charge_stage rec cost ticker now b bk =
     (case charge_forecast rec cost ticker now b bk of
        (Inl e, bk) \<Rightarrow> (Inl e, bk)
      | (Inr _, bk) \<Rightarrow>
          (case ResearchBudget_new (rb_per_forecast_micros b) (rb_per_day_micros b) (rb_max_pages b) [] of
             Inl e \<Rightarrow> (Inl e, bk)
           | Inr (remainder, _) \<Rightarrow> (Inr (remainder\<lparr>rb_already_charged_micros := rb_already_charged_micros b + cost\<rparr>), bk)))"

subsection \<open>The cost report\<close>

record CostReport =
  cr_total_research_cost_micros :: int
  cr_resolved_forecast_count :: int
  cr_profitable_trade_count :: int
  cr_cost_per_resolved_forecast_micros :: "int option"
  cr_cost_per_profitable_trade_micros :: "int option"

definition cost_per_unit :: "int \<Rightarrow> int \<Rightarrow> num_error + int option" where
  "cost_per_unit cost units = (if units = 0 then Inr None else res_bind (divide_int cost units OVERSTATE_COST) (\<lambda>q. Inr (Some q)))"

definition report_research_costs ::
    "'w budget_writer \<Rightarrow> int \<Rightarrow> int \<Rightarrow> int \<Rightarrow> py_instant \<Rightarrow> 'w \<Rightarrow> (budget_error + CostReport) \<times> 'w" where
  "report_research_costs rec cost resolved profitable now w =
     (if cost < 0 \<or> resolved < 0 \<or> profitable < 0 then (Inl BudgetValueError, w)
      else case (cost_per_unit cost resolved, cost_per_unit cost profitable) of
          (Inr per_resolved, Inr per_profitable) \<Rightarrow>
            (if now = Naive then (Inl BudgetValueError, w)
             else case rec \<lparr>be_event_type = COST_REPORT_EVENT,
                 be_payload = [(''total_research_cost_micros'', JInt cost), (''resolved_forecast_count'', JInt resolved), (''profitable_trade_count'', JInt profitable)] @
                   (case per_resolved of None \<Rightarrow> [] | Some q \<Rightarrow> [(''cost_per_resolved_forecast_micros'', JInt q)]) @
                   (case per_profitable of None \<Rightarrow> [] | Some q \<Rightarrow> [(''cost_per_profitable_trade_micros'', JInt q)]), be_at = now\<rparr> w of
               (Inl e, w') \<Rightarrow> (Inl e, w')
             | (Inr _, w') \<Rightarrow> (Inr \<lparr>cr_total_research_cost_micros = cost, cr_resolved_forecast_count = resolved, cr_profitable_trade_count = profitable,
                 cr_cost_per_resolved_forecast_micros = per_resolved, cr_cost_per_profitable_trade_micros = per_profitable\<rparr>, w'))
        | _ \<Rightarrow> (Inl BudgetValueError, w))"

subsection \<open>The rows of the ledger\<close>

definition RESEARCH_SPEND_RECORDED_EVENT_TYPE :: string where "RESEARCH_SPEND_RECORDED_EVENT_TYPE = ''ResearchSpendRecorded''"
definition RESEARCH_BUDGET_CAP_SET_EVENT_TYPE :: string where "RESEARCH_BUDGET_CAP_SET_EVENT_TYPE = ''ResearchBudgetCapSet''"
definition RS_SCHEMA_VERSION :: int where "RS_SCHEMA_VERSION = 1"
definition UTC_DAY_KEY :: string where "UTC_DAY_KEY = ''utc_day''"
definition COST_MICROS_KEY :: string where "COST_MICROS_KEY = ''cost_micros''"
definition MARKET_TICKER_KEY :: string where "MARKET_TICKER_KEY = ''market_ticker''"
definition PER_DAY_MICROS_KEY :: string where "PER_DAY_MICROS_KEY = ''per_day_micros''"
definition NOTE_KEY :: string where "NOTE_KEY = ''note''"

definition require_non_blank :: "string \<Rightarrow> num_error + unit" where
  "require_non_blank v = (if list_all py_space v then Inl ValueError else Inr ())"

definition ResearchSpendRecorded :: "string \<Rightarrow> string \<Rightarrow> string \<Rightarrow> int \<Rightarrow> num_error + Event" where
  "ResearchSpendRecorded cmp day ticker cost =
     res_bind (require_non_blank day) (\<lambda>_. res_bind (require_non_negative cost) (\<lambda>_.
       Inr (derive_typed_event ''ResearchSpendRecorded'' cmp
         [(UTC_DAY_KEY, JStr day), (MARKET_TICKER_KEY, JStr ticker), (COST_MICROS_KEY, JInt cost)] RS_SCHEMA_VERSION)))"

definition ResearchBudgetCapSet :: "string \<Rightarrow> int \<Rightarrow> string \<Rightarrow> num_error + Event" where
  "ResearchBudgetCapSet cmp per_day note =
     res_bind (require_non_negative per_day) (\<lambda>_. res_bind (require_non_blank note) (\<lambda>_.
       Inr (derive_typed_event ''ResearchBudgetCapSet'' cmp [(PER_DAY_MICROS_KEY, JInt per_day), (NOTE_KEY, JStr note)] RS_SCHEMA_VERSION)))"

definition ResearchBudgetHalted :: "string \<Rightarrow> string \<Rightarrow> string \<Rightarrow> string \<Rightarrow> int \<Rightarrow> int \<Rightarrow> Event" where
  "ResearchBudgetHalted cmp ticker kind day spent budget =
     derive_typed_event ''ResearchBudgetHalted'' cmp
       [(''market_ticker'', JStr ticker), (''halt_kind'', JStr kind), (''utc_day'', JStr day), (''spent_micros'', JInt spent), (''budget_micros'', JInt budget)]
       SCHEMA_VERSION"

text \<open>Reading a row. A payload with a float or a character above 255 is \<open>RsOutsideModel\<close>.\<close>

datatype rs_error = RsValueError | RsKeyError | RsTypeError | RsOutsideModel

definition payload_of :: "LedgerRecord \<Rightarrow> rs_error + json" where
  "payload_of r =
     (case json_loads (lr_payload_json r) of
        Inl JSONDecodeError \<Rightarrow> Inl RsValueError
      | Inl _ \<Rightarrow> Inl RsOutsideModel
      | Inr (JObj env) \<Rightarrow> (case dict_get env ''data'' of None \<Rightarrow> Inl RsKeyError | Some data \<Rightarrow> Inr data)
      | Inr _ \<Rightarrow> Inl RsTypeError)"

definition require_readable_schema :: "LedgerRecord \<Rightarrow> rs_error + unit" where
  "require_readable_schema r = (if lr_payload_schema_version r \<noteq> RS_SCHEMA_VERSION then Inl RsValueError else Inr ())"

text \<open>\<open>key in data\<close> and \<open>data[key]\<close> for a value of any kind.\<close>

fun data_item :: "json \<Rightarrow> string \<Rightarrow> rs_error + json" where
  "data_item (JObj d) key = (case dict_get d key of None \<Rightarrow> Inl RsValueError | Some v \<Rightarrow> Inr v)"
| "data_item (JList xs) key = Inl (if JStr key \<in> set xs then RsTypeError else RsValueError)"
| "data_item (JStr t) key = Inl (if occurs key t then RsTypeError else RsValueError)"
| "data_item _ key = Inl RsTypeError"

definition int_field :: "json \<Rightarrow> string \<Rightarrow> rs_error + int" where
  "int_field data key = res_bind (data_item data key) (\<lambda>v. case v of JInt i \<Rightarrow> Inr i | _ \<Rightarrow> Inl RsValueError)"

definition str_field :: "json \<Rightarrow> string \<Rightarrow> rs_error + string" where
  "str_field data key = res_bind (data_item data key) (\<lambda>v. case v of JStr t \<Rightarrow> Inr t | _ \<Rightarrow> Inl RsValueError)"

fun spend_fold :: "day_counter \<Rightarrow> LedgerRecord list \<Rightarrow> rs_error + day_counter" where
  "spend_fold totals [] = Inr totals"
| "spend_fold totals (r # rs) =
     (if lr_event_type r \<noteq> RESEARCH_SPEND_RECORDED_EVENT_TYPE then spend_fold totals rs
      else res_bind (require_readable_schema r) (\<lambda>_.
           res_bind (payload_of r) (\<lambda>data.
           res_bind (str_field data UTC_DAY_KEY) (\<lambda>day.
           res_bind (int_field data COST_MICROS_KEY) (\<lambda>cost.
             spend_fold (dict_set day (spent_on totals day + cost) totals) rs)))))"

definition spend_by_day_from_records :: "LedgerRecord list \<Rightarrow> rs_error + day_counter" where
  "spend_by_day_from_records rs = spend_fold [] rs"

fun cap_fold :: "int \<Rightarrow> LedgerRecord list \<Rightarrow> rs_error + int" where
  "cap_fold effective [] = Inr effective"
| "cap_fold effective (r # rs) =
     (if lr_event_type r \<noteq> RESEARCH_BUDGET_CAP_SET_EVENT_TYPE then cap_fold effective rs
      else res_bind (require_readable_schema r) (\<lambda>_.
           res_bind (payload_of r) (\<lambda>data.
           res_bind (int_field data PER_DAY_MICROS_KEY) (\<lambda>cap. cap_fold cap rs))))"

definition effective_per_day_micros :: "LedgerRecord list \<Rightarrow> int \<Rightarrow> rs_error + int" where
  "effective_per_day_micros rs configured = cap_fold configured rs"

subsection \<open>The loop and the operator\<close>

definition SCHEDULER_COMPONENT :: string where "SCHEDULER_COMPONENT = ''scheduler''"
definition HALT_KIND_PER_DAY :: string where "HALT_KIND_PER_DAY = ''per_day''"
definition HALT_KIND_PER_FORECAST :: string where "HALT_KIND_PER_FORECAST = ''per_forecast''"
definition UNREADABLE_LEDGER_CEILING_MICROS :: int where "UNREADABLE_LEDGER_CEILING_MICROS = 0"
definition RESEARCH_BUDGET_COMPONENT :: string where "RESEARCH_BUDGET_COMPONENT = ''operator''"

text \<open>Which appends fail, and the time stamp of a row.\<close>

type_synonym store_io = "(Event \<Rightarrow> string option) \<times> string"

definition store_append :: "digest_fn \<Rightarrow> store_io \<Rightarrow> Event \<Rightarrow> table \<Rightarrow> (budget_error + unit) \<times> table" where
  "store_append sha io e db =
     (case append_event sha (fst io e) (snd io) e db of (Inl x, db') \<Rightarrow> (Inl (BudgetAppendFailed x), db') | (Inr _, db') \<Rightarrow> (Inr (), db'))"

definition sqlite_budget_record :: "digest_fn \<Rightarrow> store_io \<Rightarrow> table budget_writer" where
  "sqlite_budget_record sha io e db =
     (let item = dict_get (be_payload e) in
      if be_event_type e = BUDGET_SPEND_RECORDED_EVENT then
        (case (item ''utc_day'', item ''market_ticker'', item ''cost_micros'') of
           (Some (JStr day), Some (JStr ticker), Some (JInt cost)) \<Rightarrow>
             (case ResearchSpendRecorded SCHEDULER_COMPONENT day ticker cost of
                Inl _ \<Rightarrow> (Inl BudgetValueError, db) | Inr row \<Rightarrow> store_append sha io row db)
         | _ \<Rightarrow> (Inl BudgetPayloadError, db))
      else if be_event_type e = BUDGET_DAY_EXHAUSTED_EVENT then
        (case (item ''utc_day'', item ''spent_micros'', item ''budget_micros'') of
           (Some (JStr day), Some (JInt spent), Some (JInt budget)) \<Rightarrow>
             store_append sha io (ResearchBudgetHalted SCHEDULER_COMPONENT [] HALT_KIND_PER_DAY day spent budget) db
         | _ \<Rightarrow> (Inl BudgetPayloadError, db))
      else if be_event_type e = BUDGET_FORECAST_EXCEEDED_EVENT then
        (case (item ''market_ticker'', item ''utc_day'', item ''cost_micros'', item ''budget_micros'') of
           (Some (JStr ticker), Some (JStr day), Some (JInt cost), Some (JInt budget)) \<Rightarrow>
             store_append sha io (ResearchBudgetHalted SCHEDULER_COMPONENT ticker HALT_KIND_PER_FORECAST day cost budget) db
         | _ \<Rightarrow> (Inl BudgetPayloadError, db))
      else (Inl BudgetValueError, db))"

text \<open>Only a \<open>ValueError\<close> of the two folds becomes the zero ceiling.\<close>

definition research_ledger_state :: "LedgerRecord list \<Rightarrow> int \<Rightarrow> rs_error + int \<times> day_counter" where
  "research_ledger_state rs configured =
     (case res_bind (effective_per_day_micros rs configured) (\<lambda>cap. res_bind (spend_by_day_from_records rs) (\<lambda>spend. Inr (cap, spend))) of
        Inl RsValueError \<Rightarrow> Inr (UNREADABLE_LEDGER_CEILING_MICROS, [])
      | res \<Rightarrow> res)"

record ForecastBudget =
  fb_per_forecast_micros :: int
  fb_per_day_micros :: int
  fb_max_pages :: int

definition build_research_budget :: "ForecastBudget \<Rightarrow> table \<Rightarrow> (rs_error + budget_error) + ResearchBudget \<times> day_counter" where
  "build_research_budget caps db =
     (case research_ledger_state (read_all db) (fb_per_day_micros caps) of
        Inl e \<Rightarrow> Inl (Inl e)
      | Inr (per_day, opening) \<Rightarrow>
          (case ResearchBudget_new (fb_per_forecast_micros caps) per_day (fb_max_pages caps) opening of
             Inl e \<Rightarrow> Inl (Inr e) | Inr b \<Rightarrow> Inr b))"

text \<open>The verb: the process's exit code and the store. \<open>exists\<close> says that the path is an existing file; an append that fails escapes.\<close>

definition set_research_budget :: "digest_fn \<Rightarrow> store_io \<Rightarrow> bool \<Rightarrow> int \<Rightarrow> string \<Rightarrow> table \<Rightarrow> (budget_error + int) \<times> table" where
  "set_research_budget sha io exists per_day note db =
     (case ResearchBudgetCapSet RESEARCH_BUDGET_COMPONENT per_day note of
        Inl _ \<Rightarrow> (Inr 1, db)
      | Inr row \<Rightarrow>
          if \<not> exists then (Inr 1, db)
          else (case store_append sha io row db of (Inl e, db') \<Rightarrow> (Inl e, db') | (Inr _, db') \<Rightarrow> (Inr 0, db')))"

text \<open>Where a forecast spends: the pipeline opens the day and charges its research; a triaged run opens the day and charges the cheap prior first, and the
  pipeline then works on the remainder. The costs are what the providers billed.\<close>

definition open_budget_day :: "'w budget_writer \<Rightarrow> ResearchBudget option \<Rightarrow> py_instant \<Rightarrow> 'w BudgetBooks \<Rightarrow> (budget_error + int option) \<times> 'w BudgetBooks" where
  "open_budget_day rec budget now bk =
     (case budget of None \<Rightarrow> (Inr None, bk)
      | Some b \<Rightarrow> (case ensure_day_open rec now b bk of (Inl e, bk) \<Rightarrow> (Inl e, bk) | (Inr _, bk) \<Rightarrow> (Inr (Some (rb_max_pages b)), bk)))"

definition charge_research :: "'w budget_writer \<Rightarrow> ResearchBudget option \<Rightarrow> int \<Rightarrow> string \<Rightarrow> py_instant \<Rightarrow> 'w BudgetBooks \<Rightarrow> (budget_error + unit) \<times> 'w BudgetBooks" where
  "charge_research rec budget cost ticker now bk =
     (case budget of None \<Rightarrow> (Inr (), bk) | Some b \<Rightarrow> charge_forecast rec cost ticker now b bk)"

definition pipeline_spend :: "'w budget_writer \<Rightarrow> int \<Rightarrow> string \<Rightarrow> py_instant \<Rightarrow> ResearchBudget option \<Rightarrow> 'w BudgetBooks \<Rightarrow> (budget_error + unit) \<times> 'w BudgetBooks" where
  "pipeline_spend rec cost ticker now budget bk =
     (case open_budget_day rec budget now bk of (Inl e, bk) \<Rightarrow> (Inl e, bk) | (Inr _, bk) \<Rightarrow> charge_research rec budget cost ticker now bk)"

definition triaged_spend ::
    "'w budget_writer \<Rightarrow> int \<Rightarrow> int option \<Rightarrow> string \<Rightarrow> py_instant \<Rightarrow> ResearchBudget \<Rightarrow> 'w BudgetBooks \<Rightarrow> (budget_error + unit) \<times> 'w BudgetBooks" where
  "triaged_spend rec prior_cost full_cost ticker now b bk =
     (case ensure_day_open rec now b bk of (Inl e, bk) \<Rightarrow> (Inl e, bk)
      | (Inr _, bk) \<Rightarrow>
          (case charge_stage rec prior_cost ticker now b bk of (Inl e, bk) \<Rightarrow> (Inl e, bk)
           | (Inr remainder, bk) \<Rightarrow>
               (case full_cost of None \<Rightarrow> (Inr (), bk) | Some c \<Rightarrow> pipeline_spend rec c ticker now (Some remainder) bk)))"

section \<open>Lemmas\<close>

subsection \<open>Metering\<close>

text \<open>A metered response is never charged less than its tokens cost, nor a whole micro more; nothing is free.\<close>

lemma ceil_million: "v \<le> 1000000 * ceil_div v 1000000 \<and> 1000000 * ceil_div v 1000000 < v + 1000000"
  using minus_mod_eq_mult_div [of "- v" 1000000] pos_mod_bound [of 1000000 "- v"] pos_mod_sign [of 1000000 "- v"]
  unfolding ceil_div_def by linarith

lemma micros_for_bounds:
  assumes "dict_get (mt_rates t) version = Some r" and "ModelTokenRate_new version (mr_input r) (mr_output r) = Inr r"
    and "0 \<le> tu_input_tokens u" and "0 \<le> tu_output_tokens u" and "total_tokens u \<noteq> 0"
  obtains c where "micros_for t version (Some u) = Inr c" and "0 < c"
    and "tu_input_tokens u * mr_input r + tu_output_tokens u * mr_output r \<le> 1000000 * c"
    and "1000000 * c < tu_input_tokens u * mr_input r + tu_output_tokens u * mr_output r + 1000000"
proof -
  let ?v = "tu_input_tokens u * mr_input r + tu_output_tokens u * mr_output r"
  have "1 \<le> mr_input r" "1 \<le> mr_output r"
    using assms(2) by (auto simp: ModelTokenRate_new_def require_positive_micros_def split: if_splits)
  moreover have "0 < tu_input_tokens u \<or> 0 < tu_output_tokens u" using assms(3-5) by (auto simp: total_tokens_def)
  ultimately have v: "0 < ?v" using assms(3,4) by (auto intro: add_pos_nonneg add_nonneg_pos)
  have c: "micros_for t version (Some u) = Inr (ceil_div ?v 1000000)"
    using assms(1,5) by (simp add: micros_for_def divide_int_nonzero MICROS_PER_MILLION_TOKENS_DENOMINATOR_def)
  have "?v \<le> 1000000 * ceil_div ?v 1000000" "1000000 * ceil_div ?v 1000000 < ?v + 1000000"
    using ceil_million [of ?v] by simp_all
  with that [OF c] v show thesis by (smt (verit))
qed

lemma default_tables_priced: "is_ok DEFAULT_PROVIDER_PRICE_TABLE" "is_ok DEFAULT_MODEL_RATE_TABLE"
  by (simp_all add: DEFAULT_PROVIDER_PRICE_TABLE_def ProviderPriceTable_new_def require_positive_micros_def OPENAI_PROVIDER_PRICE_MICROS_def
      ANTHROPIC_PROVIDER_PRICE_MICROS_def FUTURESEARCH_PROVIDER_PRICE_MICROS_def DEFAULT_UNKNOWN_PROVIDER_PRICE_MICROS_def
      DEFAULT_MODEL_RATE_TABLE_def ModelTokenRate_new_def ModelRateTable_new_def DEFAULT_UNMETERED_RESPONSE_MICROS_def
      DEFAULT_PER_MEMBER_VOTE_CEILING_MICROS_def)

text \<open>The default ceiling is what the costliest forecast spends.\<close>

lemma default_budget: "DEFAULT_PER_FORECAST_BUDGET_MICROS = 6060000"
  by (simp add: DEFAULT_PER_FORECAST_BUDGET_MICROS_def STAGE0_PRIOR_COST_MICROS_def FULL_PIPELINE_RESEARCH_COST_MICROS_def STAGE0_COST_DIVISOR_def
      DEFAULT_VOTE_ENSEMBLE_SIZE_def DEFAULT_PER_MEMBER_VOTE_CEILING_MICROS_def)

subsection \<open>The stages of a forecast\<close>

lemma charge_within:
  "charge_forecast rec cost ticker now b bk = (Inr (), bk') \<Longrightarrow> rb_already_charged_micros b + cost \<le> rb_per_forecast_micros b \<and> 0 \<le> cost"
  by (auto simp: charge_forecast_def Let_def split: if_splits option.splits prod.splits sum.splits)

text \<open>A triaged run that goes through has spent no more than one forecast may, prior and pipeline together.\<close>

lemma triaged_total_within:
  assumes "triaged_spend rec p (Some c) ticker now b bk = (Inr (), bk')" and "rb_already_charged_micros b = 0"
  shows "p + c \<le> rb_per_forecast_micros b"
  using assms charge_within
  by (auto simp: triaged_spend_def charge_stage_def pipeline_spend_def charge_research_def ResearchBudget_new_def
      split: prod.splits sum.splits if_splits dest!: charge_within)

subsection \<open>Appending and folding\<close>

lemma spent_on_set [simp]: "spent_on (dict_set d n c) d' = (if d' = d then n else spent_on c d')"
  by (simp add: spent_on_def dict_set_def dict_get_def update_conv')

lemma spent_on_Nil [simp]: "spent_on [] d = 0"
  by (simp add: spent_on_def)

lemma spend_fold_append: "spend_fold t (rs @ rs') = res_bind (spend_fold t rs) (\<lambda>t'. spend_fold t' rs')"
proof (induction t rs rule: spend_fold.induct)
  case (2 t r rs)
  then show ?case by (auto simp: res_bind_def split: sum.splits)
qed simp

lemma cap_fold_append: "cap_fold c (rs @ rs') = res_bind (cap_fold c rs) (\<lambda>c'. cap_fold c' rs')"
proof (induction c rs rule: cap_fold.induct)
  case (2 c r rs)
  then show ?case by (auto simp: res_bind_def split: sum.splits)
qed simp

definition row_of :: "Event \<Rightarrow> LedgerRecord \<Rightarrow> bool" where
  "row_of e r = (lr_payload_json r = envelope_json e \<and> lr_event_type r = event_type e \<and> lr_payload_schema_version r = payload_schema_version e)"

lemma store_append_cases:
  assumes "store_ok sha db" and "json_wf (JObj (payload e))" and "store_append sha io e db = (res, db')"
  obtains (failed) x where "fst io e = Some x" "res = Inl (BudgetAppendFailed x)" "db' = db"
  | (stored) r where "fst io e = None" "res = Inr ()" "db' = db @ [r]" "store_ok sha (db @ [r])" "row_of e r"
proof (cases "fst io e")
  case (Some x)
  with assms(3) failed show thesis by (auto simp: store_append_def append_event_def)
next
  case None
  obtain r n where r: "append_event sha (None :: string option) (snd io) e db = (Inr n, db @ [r])" "store_ok sha (db @ [r])"
    "lr_payload_json r = envelope_json e" "lr_event_type r = event_type e"
    by (rule appended [OF assms(1,2)])
  have "lr_payload_schema_version r = payload_schema_version e"
    using r(1) by (auto simp: append_event_def Let_def split: prod.splits)
  with r None assms(3) show thesis by (intro stored [of r]) (auto simp: store_append_def row_of_def)
qed

lemma row_data:
  assumes "row_of e r" and "json_wf (JObj (payload e))"
  obtains d where "payload_of r = Inr (JObj d)" "\<And>k. dict_get d k = map_option json_canon (dict_get (payload e) k)"
proof -
  obtain env where "json_loads (envelope_json e) = Inr (JObj env)" "dict_get env ''data'' = Some (JObj (payload (canon_event e)))"
    by (rule envelope_loads [OF assms(2)]) blast
  with assms(1) have "payload_of r = Inr (JObj (payload (canon_event e)))" by (simp add: payload_of_def row_of_def)
  moreover have "dict_get (payload (canon_event e)) k = map_option json_canon (dict_get (payload e) k)" for k
    using assms(2) dict_get_canon [of "payload e"] by (simp add: canon_event_def)
  ultimately show thesis by (rule that)
qed

lemmas rs_defs = RESEARCH_SPEND_RECORDED_EVENT_TYPE_def RESEARCH_BUDGET_CAP_SET_EVENT_TYPE_def RS_SCHEMA_VERSION_def UTC_DAY_KEY_def
  COST_MICROS_KEY_def MARKET_TICKER_KEY_def PER_DAY_MICROS_KEY_def NOTE_KEY_def derive_typed_event_def

lemma spend_row:
  assumes "ResearchSpendRecorded cmp day ticker cost = Inr e" and "row_of e r"
  shows "spend_fold t [r] = Inr (dict_set day (spent_on t day + cost) t)" and "cap_fold c [r] = Inr c"
proof -
  have e: "e = derive_typed_event ''ResearchSpendRecorded'' cmp [(UTC_DAY_KEY, JStr day), (MARKET_TICKER_KEY, JStr ticker), (COST_MICROS_KEY, JInt cost)] RS_SCHEMA_VERSION"
    using assms(1) by (auto simp: ResearchSpendRecorded_def res_bind_Inr_iff)
  then have "json_wf (JObj (payload e))" by (simp add: rs_defs dict_wf_def)
  then obtain d where d: "payload_of r = Inr (JObj d)" "\<And>k. dict_get d k = map_option json_canon (dict_get (payload e) k)"
    by (rule row_data [OF assms(2)]) blast
  show "spend_fold t [r] = Inr (dict_set day (spent_on t day + cost) t)" "cap_fold c [r] = Inr c"
    using assms(2) d by (simp_all add: e row_of_def rs_defs require_readable_schema_def str_field_def int_field_def dict_get_def)
qed

lemma cap_row:
  assumes "ResearchBudgetCapSet cmp cap note = Inr e" and "row_of e r"
  shows "spend_fold t [r] = Inr t" and "cap_fold c [r] = Inr cap"
proof -
  have e: "e = derive_typed_event ''ResearchBudgetCapSet'' cmp [(PER_DAY_MICROS_KEY, JInt cap), (NOTE_KEY, JStr note)] RS_SCHEMA_VERSION"
    using assms(1) by (auto simp: ResearchBudgetCapSet_def res_bind_Inr_iff)
  then have "json_wf (JObj (payload e))" by (simp add: rs_defs dict_wf_def)
  then obtain d where d: "payload_of r = Inr (JObj d)" "\<And>k. dict_get d k = map_option json_canon (dict_get (payload e) k)"
    by (rule row_data [OF assms(2)]) blast
  show "spend_fold t [r] = Inr t" "cap_fold c [r] = Inr cap"
    using assms(2) d by (simp_all add: e row_of_def rs_defs require_readable_schema_def str_field_def int_field_def dict_get_def)
qed

definition research_row :: "Event \<Rightarrow> bool" where
  "research_row e = (event_type e \<in> {''ResearchSpendRecorded'', ''ResearchBudgetCapSet''})"

lemma other_row: "\<not> research_row e \<Longrightarrow> row_of e r \<Longrightarrow> spend_fold t [r] = Inr t \<and> cap_fold c [r] = Inr c"
  by (auto simp: research_row_def row_of_def rs_defs)

text \<open>The dates of some days.\<close>

lemma dates: "civil_of_days 0 = (1970, 1, 1)" "civil_of_days 19782 = (2024, 2, 29)" "civil_of_days 19783 = (2024, 3, 1)" "civil_of_days 20088 = (2024, 12, 31)"
  by code_simp+

lemma iso_leap_day: "iso_date 19782 = ''2024-02-29''"
  by (simp add: iso_date_def dates pad_left_def show_int_def show_nat.simps digit_char_def) code_simp

lemma iso_date_not_blank: "\<not> list_all py_space (iso_date d)"
proof -
  have "CHR ''-'' \<in> set (iso_date d)" by (cases "civil_of_days d") (simp add: iso_date_def)
  moreover have "\<not> py_space CHR ''-''" by code_simp
  ultimately show ?thesis by (auto simp: list_all_iff)
qed

section \<open>Runs\<close>

text \<open>
  What a deployment does to its research budget: forecasts that spend, the operator's cap changes, rows of other components, and the rebuilding of the
  budget, at a start of the process or at the head of a tick. A rebuilding that is refused leaves nothing running that could spend.
\<close>

datatype rb_cmd =
    Triaged store_io int "int option" string py_instant
  | Direct store_io int string py_instant
  | SetCap store_io bool int string
  | OtherRow store_io Event
  | Rebuild ForecastBudget

record rb_state =
  rs_budget :: ResearchBudget
  rs_books :: "table BudgetBooks"

fun rb_exec :: "digest_fn \<Rightarrow> rb_state \<Rightarrow> rb_cmd \<Rightarrow> rb_state" where
  "rb_exec sha st (Triaged io p c ticker now) = st\<lparr>rs_books := snd (triaged_spend (sqlite_budget_record sha io) p c ticker now (rs_budget st) (rs_books st))\<rparr>"
| "rb_exec sha st (Direct io c ticker now) = st\<lparr>rs_books := snd (pipeline_spend (sqlite_budget_record sha io) c ticker now (Some (rs_budget st)) (rs_books st))\<rparr>"
| "rb_exec sha st (SetCap io exists cap note) = st\<lparr>rs_books := (rs_books st)\<lparr>bk_ledger := snd (set_research_budget sha io exists cap note (bk_ledger (rs_books st)))\<rparr>\<rparr>"
| "rb_exec sha st (OtherRow io e) = st\<lparr>rs_books := (rs_books st)\<lparr>bk_ledger := snd (store_append sha io e (bk_ledger (rs_books st)))\<rparr>\<rparr>"
| "rb_exec sha st (Rebuild caps) =
     (case build_research_budget caps (bk_ledger (rs_books st)) of
        Inl _ \<Rightarrow> st
      | Inr (b, opening) \<Rightarrow> st\<lparr>rs_budget := b, rs_books := (rs_books st)\<lparr>bk_spend_by_day := opening\<rparr>\<rparr>)"

text \<open>\<open>k\<close> bounds every cap that is configured or set, \<open>m\<close> every single charge.\<close>

fun rb_bounded :: "int \<Rightarrow> int \<Rightarrow> rb_cmd \<Rightarrow> bool" where
  "rb_bounded k m (Triaged _ p c _ _) = (p \<le> m \<and> (\<forall>x. c = Some x \<longrightarrow> x \<le> m))"
| "rb_bounded k m (Direct _ c _ _) = (c \<le> m)"
| "rb_bounded k m (SetCap _ _ cap _) = (cap \<le> k)"
| "rb_bounded k m (OtherRow _ e) = (\<not> research_row e \<and> json_wf (JObj (payload e)))"
| "rb_bounded k m (Rebuild caps) = (fb_per_day_micros caps \<le> k)"

fun rb_io :: "rb_cmd \<Rightarrow> (Event \<Rightarrow> string option)" where
  "rb_io (Triaged io _ _ _ _) = fst io"
| "rb_io (Direct io _ _ _) = fst io"
| "rb_io (SetCap io _ _ _) = fst io"
| "rb_io (OtherRow io _) = fst io"
| "rb_io (Rebuild _) = (\<lambda>_. None)"

text \<open>The books agree with the ledger: no day was spent more on, by the ledger, than the counter says, and exactly as much when \<open>ex\<close>; \<open>f\<close> is the cap in
  force as a function of the configured one.\<close>

definition books_hold :: "digest_fn \<Rightarrow> int \<Rightarrow> int \<Rightarrow> bool \<Rightarrow> (int \<Rightarrow> int) \<Rightarrow> table BudgetBooks \<Rightarrow> bool" where
  "books_hold sha k m ex f bk =
     (store_ok sha (bk_ledger bk) \<and>
      (\<exists>t. spend_fold [] (bk_ledger bk) = Inr t \<and> list_all (\<lambda>(_, n). 0 \<le> n) t \<and>
         (\<forall>d. spent_on t d \<le> spent_on (bk_spend_by_day bk) d \<and> (ex \<longrightarrow> spent_on t d = spent_on (bk_spend_by_day bk) d))) \<and>
      (\<forall>d. 0 < spent_on (bk_spend_by_day bk) d \<longrightarrow> spent_on (bk_spend_by_day bk) d < k + m) \<and>
      (\<forall>c. cap_fold c (bk_ledger bk) = Inr (f c) \<and> (c \<le> k \<longrightarrow> f c \<le> k) \<and> (0 \<le> c \<longrightarrow> 0 \<le> f c)))"

lemma books_neutral_row:
  assumes "books_hold sha k m ex f bk" and "store_ok sha (bk_ledger bk @ [r])"
    and "\<And>t. spend_fold t [r] = Inr t" and "\<And>c. cap_fold c [r] = Inr (g c)"
    and "\<And>c. (c \<le> k \<longrightarrow> g (f c) \<le> k) \<and> (0 \<le> c \<longrightarrow> 0 \<le> g (f c))"
  shows "books_hold sha k m ex (g \<circ> f) (bk\<lparr>bk_ledger := bk_ledger bk @ [r]\<rparr>)"
proof -
  have "cap_fold c (bk_ledger bk @ [r]) = Inr (g (f c))" for c
    using assms(1,4) unfolding cap_fold_append books_hold_def by simp
  moreover have "spend_fold [] (bk_ledger bk @ [r]) = spend_fold [] (bk_ledger bk)"
    unfolding spend_fold_append assms(3) by (cases "spend_fold [] (bk_ledger bk)") simp_all
  ultimately show ?thesis using assms(1,2,5) by (simp add: books_hold_def)
qed

lemma dict_set_nonneg: "list_all (\<lambda>(_, n). 0 \<le> n) t \<Longrightarrow> 0 \<le> (x :: int) \<Longrightarrow> list_all (\<lambda>(_, n). 0 \<le> n) (dict_set d x t)"
  unfolding dict_set_def by (induction t) auto

lemma spent_on_nonneg: "list_all (\<lambda>(_, n). 0 \<le> n) t \<Longrightarrow> 0 \<le> spent_on t d"
  by (auto simp: spent_on_def list_all_iff split: option.splits dest!: dict_get_in_values)

lemma books_append_other:
  assumes "books_hold sha k m ex f bk" and "\<not> research_row e" and "json_wf (JObj (payload e))"
  shows "books_hold sha k m ex f (bk\<lparr>bk_ledger := snd (store_append sha io e (bk_ledger bk))\<rparr>)"
proof -
  obtain res db' where a: "store_append sha io e (bk_ledger bk) = (res, db')" by (metis surj_pair)
  have st: "store_ok sha (bk_ledger bk)" using assms(1) by (simp add: books_hold_def)
  show ?thesis
  proof (rule store_append_cases [OF st assms(3) a])
    assume "db' = bk_ledger bk"
    with a assms(1) show ?thesis by simp
  next
    fix r assume "db' = bk_ledger bk @ [r]" "store_ok sha (bk_ledger bk @ [r])" "row_of e r"
    moreover from this assms(1) books_neutral_row [where g = id, OF assms(1)] other_row [OF assms(2)]
    have "books_hold sha k m ex f (bk\<lparr>bk_ledger := bk_ledger bk @ [r]\<rparr>)" by (auto simp: books_hold_def)
    ultimately show ?thesis using a by simp
  qed
qed

text \<open>A halt is a row of another kind.\<close>

lemma halted_plain: "\<not> research_row (ResearchBudgetHalted cmp t kind d x y)" "json_wf (JObj (payload (ResearchBudgetHalted cmp t kind d x y)))"
  by (simp_all add: research_row_def ResearchBudgetHalted_def derive_typed_event_def dict_wf_def)

lemma books_halt:
  assumes "books_hold sha k m ex f bk" and "be_event_type e \<noteq> BUDGET_SPEND_RECORDED_EVENT"
  shows "books_hold sha k m ex f (bk\<lparr>bk_ledger := snd (sqlite_budget_record sha io e (bk_ledger bk))\<rparr>)"
proof -
  have keep: "bk\<lparr>bk_ledger := bk_ledger bk\<rparr> = bk" by simp
  show ?thesis
    using assms books_append_other [OF assms(1) halted_plain]
    by (auto simp: sqlite_budget_record_def Let_def keep split: option.splits json.splits)
qed

lemma ensure_day_open_books:
  assumes "books_hold sha k m ex f bk" and "rb_per_day_micros b \<le> k"
    and "ensure_day_open (sqlite_budget_record sha io) now b bk = (res, bk')"
  shows "books_hold sha k m ex f bk'" and "res = Inr () \<Longrightarrow> bk' = bk \<and> (\<exists>d. utc_day_key now = Some d \<and> spent_on (bk_spend_by_day bk) d < k)"
proof -
  have "books_hold sha k m ex f (bk\<lparr>bk_ledger := w\<rparr>)" if "sqlite_budget_record sha io \<lparr>be_event_type = BUDGET_DAY_EXHAUSTED_EVENT, be_payload = p, be_at = now\<rparr> (bk_ledger bk) = (y, w)" for p y w
    using books_halt [OF assms(1), of "\<lparr>be_event_type = BUDGET_DAY_EXHAUSTED_EVENT, be_payload = p, be_at = now\<rparr>" io] that
    by (simp add: BUDGET_DAY_EXHAUSTED_EVENT_def BUDGET_SPEND_RECORDED_EVENT_def)
  then show "books_hold sha k m ex f bk'"
    using assms(1,3) by (auto simp: ensure_day_open_def Let_def split: option.splits prod.splits sum.splits if_splits)
  show "res = Inr () \<Longrightarrow> bk' = bk \<and> (\<exists>d. utc_day_key now = Some d \<and> spent_on (bk_spend_by_day bk) d < k)"
    using assms(2,3) by (auto simp: ensure_day_open_def Let_def split: option.splits prod.splits sum.splits if_splits)
qed

text \<open>A charge on a day that is open.\<close>

lemma charge_books:
  assumes "books_hold sha k m ex f bk" and "cost \<le> m" and "utc_day_key now = Some d" and "spent_on (bk_spend_by_day bk) d < k"
    and "ex \<longrightarrow> (\<forall>e. fst io e = None)"
    and "charge_forecast (sqlite_budget_record sha io) cost ticker now b bk = (res, bk')"
  shows "books_hold sha k m ex f bk'"
proof (cases "cost < 0")
  case True
  with assms(1,6) show ?thesis by (simp add: charge_forecast_def)
next
  case False
  let ?spend = "dict_set d (spent_on (bk_spend_by_day bk) d + cost) (bk_spend_by_day bk)" and ?db = "bk_ledger bk"
  obtain day where day: "iso_date day = d" using assms(3) by (cases now) auto
  then obtain row where row: "ResearchSpendRecorded SCHEDULER_COMPONENT d ticker cost = Inr row"
    using False iso_date_not_blank [of day] by (simp add: ResearchSpendRecorded_def require_non_blank_def require_non_negative_def)
  then have wf: "json_wf (JObj (payload row))"
    by (auto simp: ResearchSpendRecorded_def res_bind_Inr_iff rs_defs dict_wf_def)
  obtain res1 db1 where a: "store_append sha io row ?db = (res1, db1)" by (metis surj_pair)
  have st: "store_ok sha ?db" using assms(1) by (simp add: books_hold_def)
  obtain t where t: "spend_fold [] ?db = Inr t" and nonneg: "list_all (\<lambda>(_, n). 0 \<le> n) t" and t2:
    "\<And>x. spent_on t x \<le> spent_on (bk_spend_by_day bk) x \<and> (ex \<longrightarrow> spent_on t x = spent_on (bk_spend_by_day bk) x)"
    using assms(1) unfolding books_hold_def by blast
  have grown: "list_all (\<lambda>(_, n). 0 \<le> n) (dict_set d (spent_on t d + cost) t)"
    using dict_set_nonneg [OF nonneg] spent_on_nonneg [OF nonneg, of d] False by simp
  have books: "books_hold sha k m ex f (bk\<lparr>bk_spend_by_day := ?spend, bk_ledger := db1\<rparr>) \<and> (res1 = Inr () \<or> (\<exists>x. res1 = Inl x))"
  proof (rule store_append_cases [OF st wf a])
    fix x assume "fst io row = Some x" "res1 = Inl (BudgetAppendFailed x)" "db1 = ?db"
    moreover from this assms(5) have "\<not> ex" by auto
    moreover have "spent_on t y \<le> (if y = d then spent_on (bk_spend_by_day bk) d + cost else spent_on (bk_spend_by_day bk) y)" for y
      using t2 [of y] False by auto
    ultimately show ?thesis using assms(1,2,4) t nonneg by (auto simp: books_hold_def)
  next
    fix r assume r: "res1 = Inr ()" "db1 = ?db @ [r]" "store_ok sha (?db @ [r])" "row_of row r"
    have fold: "spend_fold [] (?db @ [r]) = Inr (dict_set d (spent_on t d + cost) t)"
      by (simp only: spend_fold_append t res_bind_simps spend_row(1) [OF row r(4)])
    have cap: "cap_fold c (?db @ [r]) = cap_fold c ?db" for c
      unfolding cap_fold_append spend_row(2) [OF row r(4)] by (cases "cap_fold c ?db") simp_all
    show ?thesis using assms(1,2,4) r t t2 grown fold cap by (auto simp: books_hold_def)
  qed
  have event: "sqlite_budget_record sha io \<lparr>be_event_type = BUDGET_SPEND_RECORDED_EVENT,
      be_payload = [(''utc_day'', JStr d), (''market_ticker'', JStr ticker), (''cost_micros'', JInt cost)], be_at = now\<rparr> ?db = (res1, db1)"
    by (simp add: sqlite_budget_record_def dict_get_def row a)
  let ?total = "rb_already_charged_micros b + cost"
  let ?halt = "sqlite_budget_record sha io \<lparr>be_event_type = BUDGET_FORECAST_EXCEEDED_EVENT,
      be_payload = [(''cost_micros'', JInt ?total), (''budget_micros'', JInt (rb_per_forecast_micros b)),
        (''market_ticker'', JStr ticker), (''utc_day'', JStr d)], be_at = now\<rparr> db1"
  have halt: "books_hold sha k m ex f (bk\<lparr>bk_spend_by_day := ?spend, bk_ledger := snd ?halt\<rparr>)"
    using books_halt [OF conjunct1 [OF books], of "\<lparr>be_event_type = BUDGET_FORECAST_EXCEEDED_EVENT,
      be_payload = [(''cost_micros'', JInt ?total), (''budget_micros'', JInt (rb_per_forecast_micros b)),
        (''market_ticker'', JStr ticker), (''utc_day'', JStr d)], be_at = now\<rparr>" io]
    by (simp add: BUDGET_FORECAST_EXCEEDED_EVENT_def BUDGET_SPEND_RECORDED_EVENT_def)
  from conjunct2 [OF books] show ?thesis
  proof
    assume "res1 = Inr ()"
    then have "bk' = (if ?total > rb_per_forecast_micros b then bk\<lparr>bk_spend_by_day := ?spend, bk_ledger := snd ?halt\<rparr>
        else bk\<lparr>bk_spend_by_day := ?spend, bk_ledger := db1\<rparr>)"
      using assms(6) False event by (auto simp: charge_forecast_def assms(3) Let_def split: prod.splits sum.splits if_splits)
    with books halt show ?thesis by (simp split: if_splits)
  next
    assume "\<exists>x. res1 = Inl x"
    then have "bk' = bk\<lparr>bk_spend_by_day := ?spend, bk_ledger := db1\<rparr>"
      using assms(6) False event by (auto simp: charge_forecast_def assms(3) Let_def)
    with books show ?thesis by simp
  qed
qed

lemma pipeline_books:
  assumes "books_hold sha k m ex f bk" and "rb_per_day_micros b \<le> k" and "cost \<le> m" and "ex \<longrightarrow> (\<forall>e. fst io e = None)"
  shows "books_hold sha k m ex f (snd (pipeline_spend (sqlite_budget_record sha io) cost ticker now (Some b) bk))"
proof -
  obtain res bk1 where e: "ensure_day_open (sqlite_budget_record sha io) now b bk = (res, bk1)" by (metis surj_pair)
  note day = ensure_day_open_books [OF assms(1,2) e]
  obtain res2 bk2 where c: "charge_forecast (sqlite_budget_record sha io) cost ticker now b bk1 = (res2, bk2)" by (metis surj_pair)
  show ?thesis
  proof (cases res)
    case (Inl x)
    with day(1) e show ?thesis by (simp add: pipeline_spend_def open_budget_day_def)
  next
    case (Inr u)
    then obtain d where "bk1 = bk" "utc_day_key now = Some d" "spent_on (bk_spend_by_day bk) d < k" using day(2) by auto
    with charge_books [OF assms(1,3) _ _ assms(4)] c e Inr show ?thesis
      by (simp add: pipeline_spend_def open_budget_day_def charge_research_def)
  qed
qed

lemma triaged_books:
  assumes "books_hold sha k m ex f bk" and "rb_per_day_micros b \<le> k" and "p \<le> m" and "\<And>x. c = Some x \<Longrightarrow> x \<le> m" and "ex \<longrightarrow> (\<forall>e. fst io e = None)"
  shows "books_hold sha k m ex f (snd (triaged_spend (sqlite_budget_record sha io) p c ticker now b bk))"
proof -
  let ?rec = "sqlite_budget_record sha io"
  obtain res bk1 where e: "ensure_day_open ?rec now b bk = (res, bk1)" by (metis surj_pair)
  note day = ensure_day_open_books [OF assms(1,2) e]
  show ?thesis
  proof (cases res)
    case (Inl x)
    with day(1) e show ?thesis by (simp add: triaged_spend_def)
  next
    case (Inr u)
    then obtain d where d: "bk1 = bk" "utc_day_key now = Some d" "spent_on (bk_spend_by_day bk) d < k" using day(2) by auto
    obtain res2 bk2 where s: "charge_stage ?rec p ticker now b bk = (res2, bk2)" by (metis surj_pair)
    obtain res3 bk3 where f: "charge_forecast ?rec p ticker now b bk = (res3, bk3)" by (metis surj_pair)
    have "bk2 = bk3" using s f by (auto simp: charge_stage_def split: sum.splits prod.splits)
    then have bk2: "books_hold sha k m ex f bk2" using charge_books [OF assms(1,3) d(2,3) assms(5) f] by simp
    have cap: "rb_per_day_micros rem = rb_per_day_micros b" if "res2 = Inr rem" for rem
      using s that by (auto simp: charge_stage_def ResearchBudget_new_def split: sum.splits prod.splits if_splits)
    show ?thesis
      using e Inr d(1) s bk2 cap assms(2,4,5) by (auto simp: triaged_spend_def split: sum.splits option.splits intro: pipeline_books)
  qed
qed

text \<open>A cap that is set is the cap from then on.\<close>

definition cap_after :: "store_io \<Rightarrow> bool \<Rightarrow> int \<Rightarrow> string \<Rightarrow> int \<Rightarrow> int" where
  "cap_after io exists cap note c =
     (case ResearchBudgetCapSet RESEARCH_BUDGET_COMPONENT cap note of
        Inl _ \<Rightarrow> c | Inr row \<Rightarrow> if exists \<and> fst io row = None then cap else c)"

lemma set_cap_books:
  assumes "books_hold sha k m ex f bk" and "cap \<le> k"
  shows "books_hold sha k m ex (cap_after io exists cap note \<circ> f) (bk\<lparr>bk_ledger := snd (set_research_budget sha io exists cap note (bk_ledger bk))\<rparr>)"
proof (cases "ResearchBudgetCapSet RESEARCH_BUDGET_COMPONENT cap note")
  case (Inl x)
  with assms(1) show ?thesis by (simp add: set_research_budget_def cap_after_def comp_def)
next
  case (Inr row)
  then have wf: "json_wf (JObj (payload row))" and nonneg: "0 \<le> cap"
    by (auto simp: ResearchBudgetCapSet_def res_bind_Inr_iff rs_defs dict_wf_def require_non_negative_def split: if_splits)
  obtain res db' where a: "store_append sha io row (bk_ledger bk) = (res, db')" by (metis surj_pair)
  have st: "store_ok sha (bk_ledger bk)" using assms(1) by (simp add: books_hold_def)
  have "books_hold sha k m ex ((\<lambda>c. if fst io row = None then cap else c) \<circ> f) (bk\<lparr>bk_ledger := db'\<rparr>)"
  proof (rule store_append_cases [OF st wf a])
    fix r assume "fst io row = None" "db' = bk_ledger bk @ [r]" "store_ok sha (bk_ledger bk @ [r])" "row_of row r"
    with books_neutral_row [where g = "\<lambda>_. cap", OF assms(1)] cap_row [OF Inr] assms(2) nonneg show ?thesis by auto
  qed (use assms(1) in \<open>simp add: comp_def\<close>)
  with Inr a assms(1) show ?thesis
    by (cases exists) (auto simp: set_research_budget_def cap_after_def comp_def split: sum.splits)
qed

subsection \<open>The machine\<close>

fun cap_step :: "(int \<Rightarrow> int) \<Rightarrow> rb_cmd \<Rightarrow> (int \<Rightarrow> int)" where
  "cap_step f (SetCap io exists cap note) = cap_after io exists cap note \<circ> f"
| "cap_step f _ = f"

definition rb_hold :: "digest_fn \<Rightarrow> int \<Rightarrow> int \<Rightarrow> bool \<Rightarrow> rb_state \<Rightarrow> (int \<Rightarrow> int) \<Rightarrow> bool" where
  "rb_hold sha k m ex st f = (books_hold sha k m ex f (rs_books st) \<and> rb_per_day_micros (rs_budget st) \<le> k)"

definition rb_permitted :: "int \<Rightarrow> int \<Rightarrow> bool \<Rightarrow> rb_cmd \<Rightarrow> bool" where
  "rb_permitted k m ex c = (rb_bounded k m c \<and> (ex \<longrightarrow> (\<forall>e. rb_io c e = None)))"

text \<open>What the rebuilding of a budget finds.\<close>

lemma rebuild_books:
  assumes "books_hold sha k m ex f bk"
  obtains t where "spend_fold [] (bk_ledger bk) = Inr t" and
    "build_research_budget caps (bk_ledger bk) =
       (case ResearchBudget_new (fb_per_forecast_micros caps) (f (fb_per_day_micros caps)) (fb_max_pages caps) t of
          Inl e \<Rightarrow> Inl (Inr e) | Inr b \<Rightarrow> Inr b)"
    and "list_all (\<lambda>(_, n). 0 \<le> n) t" and "books_hold sha k m True f (bk\<lparr>bk_spend_by_day := t\<rparr>)"
    and "ex \<Longrightarrow> spent_on t = spent_on (bk_spend_by_day bk)"
proof -
  obtain t where t: "spend_fold [] (bk_ledger bk) = Inr t" "list_all (\<lambda>(_, n). 0 \<le> n) t"
    "\<And>d. spent_on t d \<le> spent_on (bk_spend_by_day bk) d" "\<And>d. ex \<Longrightarrow> spent_on t d = spent_on (bk_spend_by_day bk) d"
    using assms unfolding books_hold_def by blast
  have "read_all (bk_ledger bk) = bk_ledger bk" using assms by (simp add: books_hold_def store_ok_def)
  then have b: "build_research_budget caps (bk_ledger bk) =
       (case ResearchBudget_new (fb_per_forecast_micros caps) (f (fb_per_day_micros caps)) (fb_max_pages caps) t of
          Inl e \<Rightarrow> Inl (Inr e) | Inr b \<Rightarrow> Inr b)"
    using assms t(1) by (simp add: build_research_budget_def research_ledger_state_def effective_per_day_micros_def spend_by_day_from_records_def books_hold_def)
  have "0 < spent_on t d \<longrightarrow> spent_on t d < k + m" for d
    using assms t(3) [of d] unfolding books_hold_def by (metis (no_types, lifting) le_less_trans less_le_trans)
  then have "books_hold sha k m True f (bk\<lparr>bk_spend_by_day := t\<rparr>)" using assms t by (simp add: books_hold_def)
  with that t b show thesis by blast
qed

lemma books_exact_any: "books_hold sha k m True f bk \<Longrightarrow> books_hold sha k m ex f bk"
  unfolding books_hold_def by blast

lemma rb_step:
  assumes "rb_hold sha k m ex st f" and "rb_permitted k m ex c"
  shows "rb_hold sha k m ex (rb_exec sha st c) (cap_step f c)"
proof (cases c)
  case (Triaged io p fc ticker now)
  with assms show ?thesis using triaged_books by (simp add: rb_hold_def rb_permitted_def)
next
  case (Direct io fc ticker now)
  with assms show ?thesis using pipeline_books by (simp add: rb_hold_def rb_permitted_def)
next
  case (SetCap io there cap n)
  with assms show ?thesis using set_cap_books by (simp add: rb_hold_def rb_permitted_def)
next
  case (OtherRow io e)
  with assms show ?thesis using books_append_other by (simp add: rb_hold_def rb_permitted_def)
next
  case (Rebuild caps)
  have h: "books_hold sha k m ex f (rs_books st)" "rb_per_day_micros (rs_budget st) \<le> k" using assms(1) by (simp_all add: rb_hold_def)
  obtain t where t: "build_research_budget caps (bk_ledger (rs_books st)) =
       (case ResearchBudget_new (fb_per_forecast_micros caps) (f (fb_per_day_micros caps)) (fb_max_pages caps) t of
          Inl e \<Rightarrow> Inl (Inr e) | Inr b \<Rightarrow> Inr b)" "books_hold sha k m True f ((rs_books st)\<lparr>bk_spend_by_day := t\<rparr>)"
    by (rule rebuild_books [OF h(1)]) blast
  have "f (fb_per_day_micros caps) \<le> k" using h(1) assms(2) by (simp add: Rebuild books_hold_def rb_permitted_def)
  with t h show ?thesis
    by (auto simp: Rebuild rb_hold_def ResearchBudget_new_def intro: books_exact_any)
qed

interpretation research_ledger: refining_machine "rb_exec sha" cap_step "rb_hold sha k m ex" "rb_permitted k m ex" for sha k m ex
  by unfold_locales (rule rb_step)

definition rb_start :: "ForecastBudget \<Rightarrow> rb_state option" where
  "rb_start caps = (case build_research_budget caps [] of
     Inl _ \<Rightarrow> None | Inr (b, opening) \<Rightarrow> Some \<lparr>rs_budget = b, rs_books = \<lparr>bk_spend_by_day = opening, bk_ledger = []\<rparr>\<rparr>)"

lemma rb_start_hold: "rb_start caps = Some st \<Longrightarrow> fb_per_day_micros caps \<le> k \<Longrightarrow> rb_hold sha k m ex st id"
  by (auto simp: rb_start_def build_research_budget_def research_ledger_state_def effective_per_day_micros_def spend_by_day_from_records_def
      ResearchBudget_new_def rb_hold_def books_hold_def split: if_splits)

lemma rb_run: "rb_start caps = Some st \<Longrightarrow> fb_per_day_micros caps \<le> k \<Longrightarrow> list_all (rb_permitted k m ex) cs \<Longrightarrow>
    rb_hold sha k m ex (foldl (rb_exec sha) st cs) (foldl cap_step id cs)"
  by (rule research_ledger.run_refines [OF rb_start_hold])

subsection \<open>Rows that stop the loop\<close>

text \<open>A spend row without its \<open>data\<close>, and a cap row with a negative ceiling, are not turned into the zero ceiling: building the budget raises.\<close>

lemma missing_data_escapes:
  assumes "lr_event_type r = ''ResearchSpendRecorded''" and "lr_payload_schema_version r = 1" and "lr_payload_json r = json_dumps (JObj [])"
  shows "build_research_budget caps [r] = Inl (Inl RsKeyError)"
proof -
  have "json_loads (json_dumps (JObj [])) = Inr (JObj [])" by (rule loads_dumps) (simp add: dict_wf_def)
  then have "payload_of r = Inl RsKeyError" using assms(3) by (simp add: payload_of_def del: json_dumps.simps)
  with assms(1,2) show ?thesis
    by (simp add: build_research_budget_def research_ledger_state_def effective_per_day_micros_def spend_by_day_from_records_def read_all_def rs_defs
        require_readable_schema_def)
qed

lemma negative_cap_escapes:
  assumes "row_of (derive_typed_event ''ResearchBudgetCapSet'' cmp [(PER_DAY_MICROS_KEY, JInt cap), (NOTE_KEY, JStr n)] RS_SCHEMA_VERSION) r" and "cap < 0"
  shows "build_research_budget caps [r] = Inl (Inr BudgetValueError)"
proof -
  let ?e = "derive_typed_event ''ResearchBudgetCapSet'' cmp [(PER_DAY_MICROS_KEY, JInt cap), (NOTE_KEY, JStr n)] RS_SCHEMA_VERSION"
  have "json_wf (JObj (payload ?e))" by (simp add: rs_defs dict_wf_def)
  then obtain d where "payload_of r = Inr (JObj d)" "\<And>k. dict_get d k = map_option json_canon (dict_get (payload ?e) k)"
    by (rule row_data [OF assms(1)]) blast
  with assms show ?thesis
    by (simp add: build_research_budget_def research_ledger_state_def effective_per_day_micros_def spend_by_day_from_records_def read_all_def rs_defs
        require_readable_schema_def row_of_def int_field_def dict_get_def ResearchBudget_new_def)
qed

section \<open>Properties\<close>


definition sample_caps :: ForecastBudget where
  "sample_caps = \<lparr>fb_per_forecast_micros = 100, fb_per_day_micros = 50, fb_max_pages = 3\<rparr>"

definition sample_io :: store_io where "sample_io = (\<lambda>_. None, ''t'')"

definition sample_spending :: "rb_cmd list" where
  "sample_spending = [Triaged sample_io 10 (Some 30) ''M'' (Aware 0), Rebuild sample_caps, Direct sample_io 30 ''M'' (Aware 5), Rebuild sample_caps, Direct sample_io 30 ''M'' (Aware 7)]"


text \<open>
  C23. While appends succeed, a restart at any point resumes the day: the budget it builds from the ledger counts, for every day, what the running
  budget counted, and its ceiling is the cap the operator set last, or the configured one when none was set.\<close>

theorem restart_resumes_the_day:
  assumes "rb_start caps = Some st" and "fb_per_day_micros caps \<le> k" and "list_all (rb_permitted k m True) cs"
    and "0 \<le> fb_per_forecast_micros caps'" and "0 \<le> fb_per_day_micros caps'" and "0 \<le> fb_max_pages caps'"
  shows "\<exists>b t. build_research_budget caps' (bk_ledger (rs_books (foldl (rb_exec sha) st cs))) = Inr (b, t) \<and>
    spent_on t = spent_on (bk_spend_by_day (rs_books (foldl (rb_exec sha) st cs))) \<and>
    rb_per_day_micros b = foldl cap_step id cs (fb_per_day_micros caps')"
proof -
  let ?bk = "rs_books (foldl (rb_exec sha) st cs)" and ?f = "foldl cap_step id cs"
  from rb_run [OF assms(1-3), of sha] have h: "books_hold sha k m True ?f ?bk" by (simp add: rb_hold_def)
  obtain t where t: "build_research_budget caps' (bk_ledger ?bk) =
       (case ResearchBudget_new (fb_per_forecast_micros caps') (?f (fb_per_day_micros caps')) (fb_max_pages caps') t of
          Inl e \<Rightarrow> Inl (Inr e) | Inr b \<Rightarrow> Inr b)"
    "list_all (\<lambda>(_, n). 0 \<le> n) t" "spent_on t = spent_on (bk_spend_by_day ?bk)"
    by (rule rebuild_books [OF h]) blast
  have "0 \<le> ?f (fb_per_day_micros caps')" using h assms(5) by (simp add: books_hold_def)
  moreover have "\<not> list_ex (\<lambda>(_, n). n < 0) t" using t(2) by (auto simp: list_ex_iff list_all_iff)
  ultimately show ?thesis using t assms(4,6) by (simp add: ResearchBudget_new_def)
qed

theorem restart_resumes_the_day_witness:
  "\<exists>st b t. rb_start sample_caps = Some st \<and>
     build_research_budget sample_caps (bk_ledger (rs_books (foldl (rb_exec pad64) st (sample_spending @ [SetCap sample_io True 20 ''n''])))) = Inr (b, t) \<and>
     rb_per_day_micros b = 20"
proof -
  obtain st where st: "rb_start sample_caps = Some st"
    by (simp add: rb_start_def build_research_budget_def research_ledger_state_def effective_per_day_micros_def spend_by_day_from_records_def
        ResearchBudget_new_def sample_caps_def)
  have ok: "fb_per_day_micros sample_caps \<le> 50" "list_all (rb_permitted 50 30 True) (sample_spending @ [SetCap sample_io True 20 ''n''])"
    by (simp_all add: sample_caps_def sample_spending_def rb_permitted_def sample_io_def)
  have "is_ok (ResearchBudgetCapSet RESEARCH_BUDGET_COMPONENT 20 ''n'')" by code_simp
  then have "foldl cap_step id (sample_spending @ [SetCap sample_io True 20 ''n'']) c = 20" for c
    by (auto simp: sample_spending_def cap_after_def sample_io_def)
  with restart_resumes_the_day [OF st ok, of sample_caps pad64] st show ?thesis by (auto simp: sample_caps_def)
qed

end
