(* ===== verification/TickEvidence.thy ===== *)
theory TickEvidence
  imports Screening ResearchSpend Checks
begin

text \<open>
  What a tick reads back from the ledger before it asks the kernel (\<open>windbreak/scheduler/loop.py\<close>): the day's equity baseline and trough, the
  high-water mark with its memo, the notional booked today, the orders of the trailing hour. Each has a full fold and a reading through
  the store's reverse walk. A UTC date is its day number since 1970, for the instants \<open>datetime\<close> can represent. \<open>parse\<close>, an argument, is what \<open>datetime.fromisoformat\<close> makes of a
  row's time stamp: nothing for a text that is no ISO instant, or an instant, naive or aware. The generators of the code read a
  row only when its value is asked for: a sample is the reading of its row, or the exception that reading it raises.
\<close>

section \<open>Definitions\<close>

subsection \<open>Rows\<close>

definition EQUITY_SAMPLED_EVENT_TYPE :: string where "EQUITY_SAMPLED_EVENT_TYPE = ''EquitySampled''"
definition LOOP_PAYLOAD_DATA_KEY :: string where "LOOP_PAYLOAD_DATA_KEY = ''data''"
definition EQUITY_MICROS_KEY :: string where "EQUITY_MICROS_KEY = ''equity_micros''"
definition SAMPLE_EPOCH_KEY :: string where "SAMPLE_EPOCH_KEY = ''epoch_s''"
definition LOOP_FILL_ACCOUNTED_EVENT_TYPE :: string where "LOOP_FILL_ACCOUNTED_EVENT_TYPE = ''FillAccounted''"
definition CASH_DELTA_MICROS_KEY :: string where "CASH_DELTA_MICROS_KEY = ''cash_delta_micros''"
definition ORDER_TRANSITION_EVENT_TYPE :: string where "ORDER_TRANSITION_EVENT_TYPE = ''OrderTransitionLedgered''"
definition TRANSITION_EVENT_KEY :: string where "TRANSITION_EVENT_KEY = ''event''"
definition REQUEST_SUBMISSION_EVENT :: string where "REQUEST_SUBMISSION_EVENT = ''REQUEST_SUBMISSION''"
definition TRAILING_HOUR_SECONDS :: int where "TRAILING_HOUR_SECONDS = 3600"

datatype te_error = TeKeyError | TeTypeError | TeValueError | TeOutsideModel

text \<open>\<open>int(text)\<close>: whitespace around, a sign, digits with single underscores between them.\<close>

fun digit_groups :: "bool \<Rightarrow> string \<Rightarrow> bool" where
  "digit_groups after_digit [] = after_digit"
| "digit_groups after_digit (c # cs) =
     (if is_digit c then digit_groups True cs else if c = CHR ''_'' \<and> after_digit \<and> cs \<noteq> [] then digit_groups False cs else False)"

definition int_of_text :: "string \<Rightarrow> te_error + int" where
  "int_of_text t =
     (let u = rev (dropWhile py_space (rev (dropWhile py_space t)));
          (sign, ds) = (case u of c # cs \<Rightarrow> if c = CHR ''-'' then (-1, cs) else if c = CHR ''+'' then (1, cs) else (1, u) | [] \<Rightarrow> (1, []))
      in if digit_groups False ds then Inr (sign * int (read_nat (filter is_digit ds))) else Inl TeValueError)"

text \<open>\<open>int(value)\<close> of a decoded value.\<close>

fun json_int :: "json \<Rightarrow> te_error + int" where
  "json_int (JInt i) = Inr i"
| "json_int (JBool b) = Inr (if b then 1 else 0)"
| "json_int (JStr t) = int_of_text t"
| "json_int _ = Inl TeTypeError"

fun subscript :: "json \<Rightarrow> string \<Rightarrow> te_error + json" where
  "subscript (JObj d) key = (case dict_get d key of None \<Rightarrow> Inl TeKeyError | Some v \<Rightarrow> Inr v)"
| "subscript _ key = Inl TeTypeError"

definition row_payload :: "LedgerRecord \<Rightarrow> te_error + json" where
  "row_payload r =
     (case json_loads (lr_payload_json r) of
        Inl JSONDecodeError \<Rightarrow> Inl TeValueError
      | Inl _ \<Rightarrow> Inl TeOutsideModel
      | Inr envelope \<Rightarrow> subscript envelope LOOP_PAYLOAD_DATA_KEY)"

definition equity_sample :: "LedgerRecord \<Rightarrow> te_error + int \<times> int" where
  "equity_sample r =
     res_bind (row_payload r) (\<lambda>data.
     res_bind (res_bind (subscript data SAMPLE_EPOCH_KEY) json_int) (\<lambda>epoch_s.
     res_bind (res_bind (subscript data EQUITY_MICROS_KEY) json_int) (\<lambda>equity.
       Inr (epoch_s, equity))))"

definition utc_day :: "int \<Rightarrow> int" where "utc_day epoch_s = epoch_s div 86400"

definition EquitySampled :: "string \<Rightarrow> int \<Rightarrow> int \<Rightarrow> int \<Rightarrow> Event" where
  "EquitySampled cmp equity floor_micros epoch_s =
     derive_typed_event ''EquitySampled'' cmp [(''equity_micros'', JInt equity), (''floor_micros'', JInt floor_micros), (''epoch_s'', JInt epoch_s)] SCHEMA_VERSION"

subsection \<open>The day's equity\<close>

record DayEquity =
  de_baseline :: MoneyMicros
  de_trough :: MoneyMicros

definition realized_loss :: "DayEquity \<Rightarrow> MoneyMicros" where
  "realized_loss d = IntUnit (val (de_baseline d) - val (de_trough d))"

definition day_samples :: "LedgerRecord list \<Rightarrow> (te_error + int \<times> int) list" where
  "day_samples rs = map equity_sample (filter (\<lambda>r. lr_event_type r = EQUITY_SAMPLED_EVENT_TYPE) rs)"

fun samples_back_to_the_day_boundary :: "int \<Rightarrow> LedgerRecord list \<Rightarrow> (te_error + int \<times> int) list" where
  "samples_back_to_the_day_boundary today [] = []"
| "samples_back_to_the_day_boundary today (r # rs) =
     (case equity_sample r of
        Inl e \<Rightarrow> [Inl e]
      | Inr (epoch_s, equity) \<Rightarrow>
          if utc_day epoch_s < today then [] else Inr (epoch_s, equity) # samples_back_to_the_day_boundary today rs)"

fun day_step :: "int \<Rightarrow> (int \<times> int \<times> int) option \<Rightarrow> int \<times> int \<Rightarrow> (int \<times> int \<times> int) option" where
  "day_step today st (epoch_s, equity) =
     (if utc_day epoch_s \<noteq> today then st
      else case st of None \<Rightarrow> Some (epoch_s, equity, equity)
        | Some (earliest, baseline, trough) \<Rightarrow>
            Some (if epoch_s < earliest then (epoch_s, equity, min trough equity) else (earliest, baseline, min trough equity)))"

fun fold_samples :: "('s \<Rightarrow> int \<times> int \<Rightarrow> 's) \<Rightarrow> 's \<Rightarrow> (te_error + int \<times> int) list \<Rightarrow> te_error + 's" where
  "fold_samples step st [] = Inr st"
| "fold_samples step st (Inl e # ss) = Inl e"
| "fold_samples step st (Inr x # ss) = fold_samples step (step st x) ss"

definition fold_day_equity :: "(te_error + int \<times> int) list \<Rightarrow> int \<Rightarrow> te_error + DayEquity option" where
  "fold_day_equity ss today =
     res_bind (fold_samples (day_step today) None ss) (\<lambda>st.
       Inr (map_option (\<lambda>(_, baseline, trough). \<lparr>de_baseline = IntUnit baseline, de_trough = IntUnit trough\<rparr>) st))"

definition day_equity_micros :: "LedgerRecord list \<Rightarrow> int \<Rightarrow> te_error + DayEquity option" where
  "day_equity_micros rs now = fold_day_equity (day_samples rs) (utc_day now)"

text \<open>\<open>indexed\<close>: whether the store declares the reverse walk.\<close>

definition read_day_equity :: "bool \<Rightarrow> table \<Rightarrow> int \<Rightarrow> te_error + DayEquity option" where
  "read_day_equity indexed db now =
     (if indexed then
        fold_day_equity (samples_back_to_the_day_boundary (utc_day now) (iter_records_of_type_reversed EQUITY_SAMPLED_EVENT_TYPE db))
          (utc_day now)
      else day_equity_micros (read_all db) now)"

definition start_of_day_equity_micros :: "LedgerRecord list \<Rightarrow> int \<Rightarrow> te_error + MoneyMicros option" where
  "start_of_day_equity_micros rs now = res_bind (day_equity_micros rs now) (\<lambda>d. Inr (map_option de_baseline d))"

definition realized_loss_today_micros :: "LedgerRecord list \<Rightarrow> int \<Rightarrow> te_error + MoneyMicros option" where
  "realized_loss_today_micros rs now = res_bind (day_equity_micros rs now) (\<lambda>d. Inr (map_option realized_loss d))"

definition read_start_of_day_equity_micros :: "bool \<Rightarrow> table \<Rightarrow> int \<Rightarrow> te_error + MoneyMicros option" where
  "read_start_of_day_equity_micros indexed db now = res_bind (read_day_equity indexed db now) (\<lambda>d. Inr (map_option de_baseline d))"

definition read_realized_loss_today_micros :: "bool \<Rightarrow> table \<Rightarrow> int \<Rightarrow> te_error + MoneyMicros option" where
  "read_realized_loss_today_micros indexed db now = res_bind (read_day_equity indexed db now) (\<lambda>d. Inr (map_option realized_loss d))"

subsection \<open>The equity curve\<close>

record EquityCurve =
  ec_high_water_mark :: MoneyMicros
  ec_latest :: MoneyMicros

record EquityCurveCursor =
  cu_curve :: "EquityCurve option"
  cu_covered_through :: int

definition EquityCurveCursor_new :: EquityCurveCursor where "EquityCurveCursor_new = \<lparr>cu_curve = None, cu_covered_through = 0\<rparr>"

definition curve_sample :: "LedgerRecord \<Rightarrow> te_error + int \<times> int" where
  "curve_sample r = res_bind (equity_sample r) (\<lambda>(_, equity). Inr (lr_sequence_number r, equity))"

definition curve_samples :: "LedgerRecord list \<Rightarrow> (te_error + int \<times> int) list" where
  "curve_samples rs = map curve_sample (filter (\<lambda>r. lr_event_type r = EQUITY_SAMPLED_EVENT_TYPE) rs)"

definition samples_above_the_watermark :: "table \<Rightarrow> int \<Rightarrow> (te_error + int \<times> int) list" where
  "samples_above_the_watermark db covered =
     map curve_sample (takeWhile (\<lambda>r. \<not> lr_sequence_number r \<le> covered) (iter_records_of_type_reversed EQUITY_SAMPLED_EVENT_TYPE db))"

fun curve_step :: "(int \<times> int \<times> int) option \<Rightarrow> int \<times> int \<Rightarrow> (int \<times> int \<times> int) option" where
  "curve_step None (n, equity) = Some (equity, n, equity)"
| "curve_step (Some (peak, latest_n, latest)) (n, equity) =
     Some (if n > latest_n then (max peak equity, n, equity) else (max peak equity, latest_n, latest))"

definition fold_equity_curve :: "(te_error + int \<times> int) list \<Rightarrow> EquityCurveCursor \<Rightarrow> te_error + EquityCurveCursor" where
  "fold_equity_curve ss cur =
     res_bind (fold_samples curve_step
         (map_option (\<lambda>c. (val (ec_high_water_mark c), cu_covered_through cur, val (ec_latest c))) (cu_curve cur)) ss) (\<lambda>st.
       Inr (case st of None \<Rightarrow> cur
            | Some (peak, n, latest) \<Rightarrow>
                \<lparr>cu_curve = Some \<lparr>ec_high_water_mark = IntUnit peak, ec_latest = IntUnit latest\<rparr>, cu_covered_through = n\<rparr>))"

definition equity_curve_micros :: "LedgerRecord list \<Rightarrow> te_error + EquityCurve option" where
  "equity_curve_micros rs = res_bind (fold_equity_curve (curve_samples rs) EquityCurveCursor_new) (\<lambda>cur. Inr (cu_curve cur))"

text \<open>The memo is the caller's; the reading returns it advanced, or as it was when a row cannot be read.\<close>

definition read_equity_curve :: "bool \<Rightarrow> table \<Rightarrow> EquityCurveCursor \<Rightarrow> (te_error + EquityCurve option) \<times> EquityCurveCursor" where
  "read_equity_curve indexed db cur =
     (case fold_equity_curve (if indexed then samples_above_the_watermark db (cu_covered_through cur) else curve_samples (read_all db)) cur of
        Inl e \<Rightarrow> (Inl e, cur)
      | Inr cur' \<Rightarrow> (Inr (cu_curve cur'), cur'))"

subsection \<open>Notional and orders\<close>

type_synonym parse_iso = "string \<Rightarrow> py_instant option"

definition fill_utc_day :: "parse_iso \<Rightarrow> LedgerRecord \<Rightarrow> int option" where
  "fill_utc_day parse r = (case parse (lr_created_at r) of Some (Aware us) \<Rightarrow> Some (us div 86400000000) | _ \<Rightarrow> None)"

definition fill_notional_micros :: "LedgerRecord \<Rightarrow> te_error + int" where
  "fill_notional_micros r =
     res_bind (row_payload r) (\<lambda>data. res_bind (res_bind (subscript data CASH_DELTA_MICROS_KEY) json_int) (\<lambda>i. Inr \<bar>i\<bar>))"

fun fold_notional :: "parse_iso \<Rightarrow> int \<Rightarrow> int \<Rightarrow> LedgerRecord list \<Rightarrow> te_error + MoneyMicros option" where
  "fold_notional parse today acc [] = Inr (Some (IntUnit acc))"
| "fold_notional parse today acc (r # rs) =
     (case fill_utc_day parse r of
        None \<Rightarrow> Inr None
      | Some day \<Rightarrow>
          if day = today then res_bind (fill_notional_micros r) (\<lambda>n. fold_notional parse today (acc + n) rs)
          else fold_notional parse today acc rs)"

definition notional_today_micros :: "parse_iso \<Rightarrow> LedgerRecord list \<Rightarrow> int \<Rightarrow> te_error + MoneyMicros option" where
  "notional_today_micros parse rs now =
     fold_notional parse (utc_day now) 0 (filter (\<lambda>r. lr_event_type r = LOOP_FILL_ACCOUNTED_EVENT_TYPE) rs)"

definition read_notional_today_micros :: "bool \<Rightarrow> parse_iso \<Rightarrow> table \<Rightarrow> int \<Rightarrow> te_error + MoneyMicros option" where
  "read_notional_today_micros indexed parse db now =
     (if indexed then fold_notional parse (utc_day now) 0 (iter_records_of_type_reversed LOOP_FILL_ACCOUNTED_EVENT_TYPE db)
      else notional_today_micros parse (read_all db) now)"

definition record_epoch_s :: "parse_iso \<Rightarrow> LedgerRecord \<Rightarrow> int option" where
  "record_epoch_s parse r = (case parse (lr_created_at r) of Some (Aware us) \<Rightarrow> Some (whole_seconds us) | _ \<Rightarrow> None)"

definition is_order_routing :: "LedgerRecord \<Rightarrow> te_error + bool" where
  "is_order_routing r = res_bind (row_payload r) (\<lambda>data. res_bind (subscript data TRANSITION_EVENT_KEY) (\<lambda>v. Inr (v = JStr REQUEST_SUBMISSION_EVENT)))"

fun fold_orders :: "parse_iso \<Rightarrow> int \<Rightarrow> int \<Rightarrow> LedgerRecord list \<Rightarrow> te_error + int option" where
  "fold_orders parse cutoff routed [] = Inr (Some routed)"
| "fold_orders parse cutoff routed (r # rs) =
     res_bind (is_order_routing r) (\<lambda>routing.
       if \<not> routing then fold_orders parse cutoff routed rs
       else case record_epoch_s parse r of None \<Rightarrow> Inr None
         | Some epoch_s \<Rightarrow> fold_orders parse cutoff (if epoch_s \<ge> cutoff then routed + 1 else routed) rs)"

definition orders_last_hour_count :: "parse_iso \<Rightarrow> LedgerRecord list \<Rightarrow> int \<Rightarrow> te_error + int option" where
  "orders_last_hour_count parse rs now =
     fold_orders parse (now - TRAILING_HOUR_SECONDS) 0 (filter (\<lambda>r. lr_event_type r = ORDER_TRANSITION_EVENT_TYPE) rs)"

definition read_orders_last_hour :: "bool \<Rightarrow> parse_iso \<Rightarrow> table \<Rightarrow> int \<Rightarrow> te_error + int option" where
  "read_orders_last_hour indexed parse db now =
     (if indexed then fold_orders parse (now - TRAILING_HOUR_SECONDS) 0 (iter_records_of_type_reversed ORDER_TRANSITION_EVENT_TYPE db)
      else orders_last_hour_count parse (read_all db) now)"

section \<open>Lemmas\<close>

lemma fold_samples_read: "fold_samples step st (map Inr xs) = Inr (foldl step st xs)"
  by (induction xs arbitrary: st) simp_all

text \<open>A set of samples in which an instant, or a position, has one reading.\<close>

definition one_reading :: "(int \<times> int) set \<Rightarrow> bool" where
  "one_reading S = (\<forall>x \<in> S. \<forall>y \<in> S. fst x = fst y \<longrightarrow> x = y)"

lemma one_reading_mono: "one_reading S \<Longrightarrow> T \<subseteq> S \<Longrightarrow> one_reading T"
  unfolding one_reading_def by blast

subsection \<open>The curve of a set of samples\<close>

fun is_curve :: "(int \<times> int) set \<Rightarrow> (int \<times> int \<times> int) option \<Rightarrow> bool" where
  "is_curve S None = (S = {})"
| "is_curve S (Some (peak, n, latest)) = (peak \<in> snd ` S \<and> (\<forall>x \<in> S. snd x \<le> peak) \<and> (n, latest) \<in> S \<and> (\<forall>x \<in> S. fst x \<le> n))"

lemma curve_step_curve:
  assumes "is_curve S st" and "one_reading (insert x S)"
  shows "is_curve (insert x S) (curve_step st x)"
proof (cases st)
  case None
  with assms show ?thesis by (cases x) simp
next
  case (Some y)
  obtain peak n latest where y: "y = (peak, n, latest)" by (cases y)
  obtain m e where x: "x = (m, e)" by (cases x)
  have c: "peak \<in> snd ` S" "\<And>z. z \<in> S \<Longrightarrow> snd z \<le> peak" "(n, latest) \<in> S" "\<And>z. z \<in> S \<Longrightarrow> fst z \<le> n"
    using assms(1) by (auto simp: Some y)
  have p: "max peak e \<in> snd ` insert x S" "\<And>z. z \<in> insert x S \<Longrightarrow> snd z \<le> max peak e"
    using c(1) c(2) by (auto simp: x max_def intro: order_trans dest: c(2))
  show ?thesis
  proof (cases "m > n")
    case True
    have "fst z \<le> m" if "z \<in> insert x S" for z using that True c(4) [of z] by (auto simp: x)
    with p True show ?thesis by (simp add: Some y x)
  next
    case False
    have "fst z \<le> n" if "z \<in> insert x S" for z using that False c(4) [of z] by (auto simp: x)
    with p c(3) False show ?thesis by (simp add: Some y x)
  qed
qed

lemma curve_foldl:
  "is_curve S st \<Longrightarrow> one_reading (S \<union> set xs) \<Longrightarrow> is_curve (S \<union> set xs) (foldl curve_step st xs)"
proof (induction xs arbitrary: S st)
  case (Cons x xs)
  have "is_curve (insert x S) (curve_step st x)"
    using Cons.prems by (intro curve_step_curve) (auto intro: one_reading_mono)
  from Cons.IH [OF this] Cons.prems(2) show ?case by simp
qed simp

lemma curve_unique:
  assumes "is_curve S a" and "is_curve S b" and "one_reading S"
  shows "a = b"
proof (cases a)
  case None
  with assms show ?thesis by (cases b) auto
next
  case (Some x)
  with assms(1,2) obtain y where b: "b = Some y" by (cases b; cases x) auto
  obtain p n l where x: "x = (p, n, l)" by (cases x)
  obtain p' n' l' where y: "y = (p', n', l')" by (cases y)
  have c: "p \<in> snd ` S" "\<forall>x \<in> S. snd x \<le> p" "(n, l) \<in> S" "\<forall>x \<in> S. fst x \<le> n"
    and d: "p' \<in> snd ` S" "\<forall>x \<in> S. snd x \<le> p'" "(n', l') \<in> S" "\<forall>x \<in> S. fst x \<le> n'"
    using assms(1,2) by (simp_all add: Some b x y)
  have "p = p'" using c(1,2) d(1,2) by (auto intro: antisym)
  moreover have "n = n'" using c(3,4) d(3,4) by (metis antisym fst_conv)
  moreover from this have "l = l'" using c(3) d(3) assms(3) unfolding one_reading_def by (metis fst_conv snd_conv)
  ultimately show ?thesis by (simp add: Some b x y)
qed

text \<open>The samples of a ledger, each at its position.\<close>

definition sampled_rows :: "LedgerRecord list \<Rightarrow> LedgerRecord list" where
  "sampled_rows rs = filter (\<lambda>r. lr_event_type r = EQUITY_SAMPLED_EVENT_TYPE) rs"

definition readable :: "LedgerRecord list \<Rightarrow> bool" where
  "readable rs = list_all (\<lambda>r. is_ok (equity_sample r)) (sampled_rows rs)"

definition reading :: "LedgerRecord \<Rightarrow> int \<times> int" where
  "reading r = (case equity_sample r of Inr x \<Rightarrow> x | Inl _ \<Rightarrow> (0, 0))"

definition curve_set :: "LedgerRecord list \<Rightarrow> (int \<times> int) set" where
  "curve_set rs = (\<lambda>r. (lr_sequence_number r, snd (reading r))) ` set (sampled_rows rs)"

lemma curve_sample_read: "is_ok (equity_sample r) \<Longrightarrow> curve_sample r = Inr (lr_sequence_number r, snd (reading r))"
  by (auto simp: curve_sample_def reading_def split: prod.split)

lemma sequence_numbers: "store_ok sha db \<Longrightarrow> i < length db \<Longrightarrow> lr_sequence_number (db ! i) = int i + 1"
  using verify_rows_seq [of sha db 1 GENESIS_PREV_HASH] unfolding store_ok_rows
  by (metis (no_types, lifting) add.commute length_map nth_map nth_upt add.left_neutral length_upt diff_zero of_nat_Suc semiring_1_class.of_nat_simps(2))

lemma position_determines:
  assumes "store_ok sha db" and "prefix db0 db" and "r \<in> set db" and "r0 \<in> set db0" and "lr_sequence_number r \<le> lr_sequence_number r0"
  shows "r \<in> set db0"
proof -
  obtain i where i: "i < length db" "r = db ! i" using assms(3) by (metis in_set_conv_nth)
  obtain j where j: "j < length db0" "r0 = db0 ! j" using assms(4) by (metis in_set_conv_nth)
  have "j < length db" "r0 = db ! j" using j assms(2) by (auto simp: prefix_def nth_append)
  then have "i \<le> j" using sequence_numbers [OF assms(1)] i assms(5) by simp
  then have "r = db0 ! i" "i < length db0" using i j(1) assms(2) by (auto simp: prefix_def nth_append)
  then show ?thesis by simp
qed

lemma one_row_per_position: "store_ok sha db \<Longrightarrow> r \<in> set db \<Longrightarrow> r' \<in> set db \<Longrightarrow> lr_sequence_number r = lr_sequence_number r' \<Longrightarrow> r = r'"
  using sequence_numbers [of sha db] by (metis add_right_cancel in_set_conv_nth of_nat_eq_iff)

lemma curve_set_one_reading: "store_ok sha db \<Longrightarrow> one_reading (curve_set db)"
  using one_row_per_position [of sha db] by (auto simp: one_reading_def curve_set_def sampled_rows_def)

text \<open>The memo stands for the samples of a ledger.\<close>

definition memo_state :: "EquityCurveCursor \<Rightarrow> (int \<times> int \<times> int) option" where
  "memo_state cur = map_option (\<lambda>c. (val (ec_high_water_mark c), cu_covered_through cur, val (ec_latest c))) (cu_curve cur)"

definition memo_of :: "LedgerRecord list \<Rightarrow> EquityCurveCursor \<Rightarrow> bool" where
  "memo_of db cur = (is_curve (curve_set db) (memo_state cur) \<and> (cu_curve cur = None \<longrightarrow> cu_covered_through cur = 0))"

definition memo_after :: "(int \<times> int \<times> int) option \<Rightarrow> EquityCurveCursor \<Rightarrow> EquityCurveCursor" where
  "memo_after st cur = (case st of None \<Rightarrow> cur
     | Some (peak, n, latest) \<Rightarrow> \<lparr>cu_curve = Some \<lparr>ec_high_water_mark = IntUnit peak, ec_latest = IntUnit latest\<rparr>, cu_covered_through = n\<rparr>)"

lemma memo_state_after: "st \<noteq> None \<Longrightarrow> memo_state (memo_after st cur) = st"
  by (auto simp: memo_state_def memo_after_def)

lemma fold_reads:
  assumes "memo_of db0 cur" and "curve_set db0 \<union> set xs = curve_set db" and "one_reading (curve_set db)"
  shows "\<exists>cur'. fold_equity_curve (map Inr xs) cur = Inr cur' \<and> memo_of db cur'"
proof -
  let ?st = "foldl curve_step (memo_state cur) xs"
  have c: "is_curve (curve_set db) ?st"
    using curve_foldl [of "curve_set db0" "memo_state cur" xs] assms by (simp add: memo_of_def)
  have f: "fold_equity_curve (map Inr xs) cur = Inr (memo_after ?st cur)"
    by (simp add: fold_equity_curve_def memo_state_def [symmetric] fold_samples_read memo_after_def)
  have "memo_of db (memo_after ?st cur)"
  proof (cases ?st)
    case None
    with c have "curve_set db = {}" by simp
    with assms(1,2) None show ?thesis by (simp add: memo_of_def memo_after_def)
  next
    case (Some y)
    with c show ?thesis by (cases y) (simp add: memo_of_def memo_after_def memo_state_def)
  qed
  with f show ?thesis by blast
qed

lemma read_all_samples:
  assumes "readable db"
  shows "curve_samples db = map Inr (map (\<lambda>r. (lr_sequence_number r, snd (reading r))) (sampled_rows db))"
  using assms by (simp add: curve_samples_def sampled_rows_def readable_def list_all_iff curve_sample_read)

lemma sampled_sorted: "store_ok sha db \<Longrightarrow> sorted_wrt (\<lambda>r s. lr_sequence_number r < lr_sequence_number s) (sampled_rows db)"
  using verify_rows_sorted [of sha db 1 GENESIS_PREV_HASH] by (simp add: store_ok_rows sampled_rows_def sorted_wrt_map sorted_wrt_filter)

lemma positive_positions: "store_ok sha db \<Longrightarrow> r \<in> set db \<Longrightarrow> 0 < lr_sequence_number r"
  using sequence_numbers [of sha db] by (metis add.commute in_set_conv_nth of_nat_0_le_iff zle_add1_eq_le add_0 zless_add1_eq order_le_less)

lemma covered_rows:
  assumes "store_ok sha db" and "prefix db0 db" and "memo_of db0 cur" and "r \<in> set db" and "lr_sequence_number r \<le> cu_covered_through cur"
  shows "r \<in> set db0"
proof (cases "cu_curve cur")
  case None
  with assms(3) have "cu_covered_through cur = 0" by (simp add: memo_of_def)
  with positive_positions [OF assms(1,4)] assms(5) show ?thesis by simp
next
  case (Some c)
  with assms(3) have "(cu_covered_through cur, val (ec_latest c)) \<in> curve_set db0" by (simp add: memo_of_def memo_state_def)
  then obtain r0 where "r0 \<in> set db0" "lr_sequence_number r0 = cu_covered_through cur" by (auto simp: curve_set_def sampled_rows_def)
  with position_determines [OF assms(1,2,4)] assms(5) show ?thesis by simp
qed

lemma watermark_samples:
  assumes "store_ok sha db" and "prefix db0 db" and "readable db" and "memo_of db0 cur"
  obtains xs where "samples_above_the_watermark db (cu_covered_through cur) = map Inr xs" and "curve_set db0 \<union> set xs = curve_set db"
proof -
  let ?ok = "\<lambda>r. \<not> lr_sequence_number r \<le> cu_covered_through cur"
  let ?rows = "filter ?ok (rev (sampled_rows db))"
  let ?at = "\<lambda>r. (lr_sequence_number r, snd (reading r))"
  have ra: "read_all db = db" using assms(1) by (simp add: store_ok_def)
  have rows: "takeWhile ?ok (iter_records_of_type_reversed EQUITY_SAMPLED_EVENT_TYPE db) = ?rows"
  proof -
    have "iter_records_of_type_reversed EQUITY_SAMPLED_EVENT_TYPE db = rev (sampled_rows db)"
      by (simp add: iter_records_of_type_reversed_def sampled_rows_def ra rev_filter)
    moreover have "sorted_wrt (\<lambda>r s. lr_sequence_number s < lr_sequence_number r) (rev (sampled_rows db))"
      using sampled_sorted [OF assms(1)] by (simp add: sorted_wrt_rev)
    ultimately show ?thesis by (simp only: sorted_takeWhile)
  qed
  have s: "samples_above_the_watermark db (cu_covered_through cur) = map Inr (map ?at ?rows)"
    unfolding samples_above_the_watermark_def rows using assms(3) by (auto simp: readable_def list_all_iff curve_sample_read)
  have "curve_set db0 \<union> set (map ?at ?rows) = curve_set db"
  proof (intro equalityI subsetI)
    fix x assume "x \<in> curve_set db0 \<union> set (map ?at ?rows)"
    then show "x \<in> curve_set db" using set_mono_prefix [OF assms(2)] by (auto simp: curve_set_def sampled_rows_def)
  next
    fix x assume "x \<in> curve_set db"
    then obtain r where r: "r \<in> set (sampled_rows db)" "x = ?at r" by (auto simp: curve_set_def)
    then have d: "r \<in> set db" "lr_event_type r = EQUITY_SAMPLED_EVENT_TYPE" by (simp_all add: sampled_rows_def)
    show "x \<in> curve_set db0 \<union> set (map ?at ?rows)"
    proof (cases "?ok r")
      case True
      with r show ?thesis by auto
    next
      case False
      then have "r \<in> set db0" using covered_rows [OF assms(1,2,4) d(1)] by simp
      with d(2) r(2) show ?thesis by (auto simp: curve_set_def sampled_rows_def)
    qed
  qed
  with s that show thesis by blast
qed

lemma whole_samples:
  assumes "store_ok sha db" and "prefix db0 db" and "readable db"
  obtains xs where "curve_samples (read_all db) = map Inr xs" and "curve_set db0 \<union> set xs = curve_set db"
proof -
  let ?xs = "map (\<lambda>r. (lr_sequence_number r, snd (reading r))) (sampled_rows db)"
  have "curve_samples (read_all db) = map Inr ?xs" using assms(1) read_all_samples [OF assms(3)] by (simp add: store_ok_def)
  moreover have "curve_set db0 \<union> set ?xs = curve_set db"
    using set_mono_prefix [OF assms(2)] by (auto simp: curve_set_def sampled_rows_def)
  ultimately show thesis by (rule that)
qed

text \<open>The curve of a ledger: the highest sample and the last one.\<close>

definition curve_of :: "LedgerRecord list \<Rightarrow> EquityCurve option" where
  "curve_of db =
     (if sampled_rows db = [] then None
      else Some \<lparr>ec_high_water_mark = IntUnit (Max ((\<lambda>r. snd (reading r)) ` set (sampled_rows db))),
                 ec_latest = IntUnit (snd (reading (last (sampled_rows db))))\<rparr>)"

lemma memo_value:
  assumes "memo_of db cur" and "store_ok sha db"
  shows "cu_curve cur = curve_of db"
proof (cases "cu_curve cur")
  case None
  with assms(1) show ?thesis by (simp add: memo_of_def memo_state_def curve_of_def curve_set_def)
next
  case (Some c)
  obtain p n l where st: "memo_state cur = Some (p, n, l)" "ec_high_water_mark c = IntUnit p" "ec_latest c = IntUnit l"
    using Some by (cases "ec_high_water_mark c"; cases "ec_latest c") (simp add: memo_state_def)
  have c: "p \<in> snd ` curve_set db" "\<forall>x \<in> curve_set db. snd x \<le> p" "(n, l) \<in> curve_set db" "\<forall>x \<in> curve_set db. fst x \<le> n"
    using assms(1) st(1) by (simp_all add: memo_of_def)
  have ne: "sampled_rows db \<noteq> []" using c(3) by (auto simp: curve_set_def)
  let ?last = "last (sampled_rows db)"
  have "Max (snd ` curve_set db) = p" by (rule Max_eqI) (use c(1,2) in \<open>auto simp: curve_set_def\<close>)
  then have peak: "Max ((\<lambda>r. snd (reading r)) ` set (sampled_rows db)) = p" by (simp add: curve_set_def image_image)
  obtain r where r: "r \<in> set (sampled_rows db)" "n = lr_sequence_number r" "l = snd (reading r)" using c(3) by (auto simp: curve_set_def)
  have last_in: "?last \<in> set (sampled_rows db)" using ne by simp
  have "lr_sequence_number ?last \<le> n" using c(4) last_in by (auto simp: curve_set_def)
  moreover have "r = ?last \<or> lr_sequence_number r < lr_sequence_number ?last"
    using sampled_sorted [OF assms(2)] r(1) ne
    by (metis append_butlast_last_id set_ConsD in_set_conv_decomp_last list.set_intros(1) rotate1.simps(2) set_rotate1 sorted_wrt_append)
  ultimately have "r = ?last" using r(2) by auto
  with r(3) peak ne st Some show ?thesis by (cases c) (simp add: curve_of_def)
qed

text \<open>A process's readings of a growing ledger, with or without the reverse walk, through the one memo.\<close>

fun read_curves :: "(bool \<times> table) list \<Rightarrow> EquityCurveCursor \<Rightarrow> (te_error + EquityCurve option) list" where
  "read_curves [] cur = []"
| "read_curves ((indexed, db) # reads) cur = (case read_equity_curve indexed db cur of (r, cur') \<Rightarrow> r # read_curves reads cur')"

lemma read_equity_curve_memo:
  assumes "memo_of db0 cur" and "prefix db0 db" and "store_ok sha db" and "readable db"
  obtains cur' where "read_equity_curve indexed db cur = (Inr (curve_of db), cur')" and "memo_of db cur'"
proof -
  obtain xs where xs: "(if indexed then samples_above_the_watermark db (cu_covered_through cur) else curve_samples (read_all db)) = map Inr xs"
      "curve_set db0 \<union> set xs = curve_set db"
  proof (cases indexed)
    case True
    then show thesis using watermark_samples [OF assms(3,2,4,1)] that by (metis (mono_tags, lifting))
  next
    case False
    then show thesis using whole_samples [OF assms(3,2,4)] that by (metis (mono_tags, lifting))
  qed
  obtain cur' where c: "fold_equity_curve (map Inr xs) cur = Inr cur'" "memo_of db cur'"
    using fold_reads [OF assms(1) xs(2) curve_set_one_reading [OF assms(3)]] by blast
  have "read_equity_curve indexed db cur = (Inr (curve_of db), cur')"
    by (simp add: read_equity_curve_def xs(1) c(1) memo_value [OF c(2) assms(3)])
  from that [OF this c(2)] show thesis .
qed

lemma new_memo: "memo_of [] EquityCurveCursor_new"
  by (simp add: memo_of_def memo_state_def EquityCurveCursor_new_def curve_set_def sampled_rows_def)

lemma read_curves_memo:
  "memo_of db0 cur \<Longrightarrow> sorted_wrt prefix (db0 # map snd reads) \<Longrightarrow> \<forall>(indexed, db) \<in> set reads. store_ok sha db \<and> readable db \<Longrightarrow>
     read_curves reads cur = map (\<lambda>(indexed, db). Inr (curve_of db)) reads"
proof (induction reads arbitrary: db0 cur)
  case (Cons x reads)
  obtain indexed db where x: "x = (indexed, db)" by (cases x)
  from Cons.prems x obtain cur' where c: "read_equity_curve indexed db cur = (Inr (curve_of db), cur')" "memo_of db cur'"
    using read_equity_curve_memo [of db0 cur db sha indexed] by auto
  from Cons.IH [OF c(2)] Cons.prems x c(1) show ?case by simp
qed simp

lemma whole_fold_curve:
  assumes "store_ok sha db" and "readable db"
  shows "equity_curve_micros (read_all db) = Inr (curve_of db)"
proof -
  from read_equity_curve_memo [OF new_memo _ assms, of False] obtain cur' where
    "read_equity_curve False db EquityCurveCursor_new = (Inr (curve_of db), cur')" by auto
  then show ?thesis by (auto simp: read_equity_curve_def equity_curve_micros_def res_bind_def split: sum.splits)
qed

subsection \<open>What a loop samples\<close>

lemmas te_defs = EQUITY_SAMPLED_EVENT_TYPE_def LOOP_PAYLOAD_DATA_KEY_def EQUITY_MICROS_KEY_def SAMPLE_EPOCH_KEY_def derive_typed_event_def

lemma EquitySampled_wf: "json_wf (JObj (payload (EquitySampled cmp equity floor_micros epoch_s)))"
  by (simp add: EquitySampled_def te_defs dict_wf_def)

lemma sampled_row_read:
  assumes "row_of (EquitySampled cmp equity floor_micros epoch_s) r"
  shows "equity_sample r = Inr (epoch_s, equity)" and "lr_event_type r = EQUITY_SAMPLED_EVENT_TYPE"
proof -
  obtain d where d: "payload_of r = Inr (JObj d)"
      "\<And>k. dict_get d k = map_option json_canon (dict_get (payload (EquitySampled cmp equity floor_micros epoch_s)) k)"
    by (rule row_data [OF assms EquitySampled_wf]) blast
  then have "row_payload r = Inr (JObj d)"
    by (auto simp: payload_of_def row_payload_def LOOP_PAYLOAD_DATA_KEY_def split: sum.splits json.splits option.splits json_error.splits)
  with d(2) show "equity_sample r = Inr (epoch_s, equity)" by (simp add: equity_sample_def EquitySampled_def te_defs dict_get_def res_bind_def)
  show "lr_event_type r = EQUITY_SAMPLED_EVENT_TYPE" using assms by (simp add: row_of_def EquitySampled_def te_defs)
qed

text \<open>The ledger after samples of equity, each with its instant.\<close>

definition sampled_ledger :: "digest_fn \<Rightarrow> table \<Rightarrow> (int \<times> int) list \<Rightarrow> table" where
  "sampled_ledger sha db xs = foldl (\<lambda>db (epoch_s, equity). snd (store_append sha (\<lambda>_. None, []) (EquitySampled SCHEDULER_COMPONENT equity 0 epoch_s) db)) db xs"

lemma sampled_ledger_reads:
  "store_ok sha db \<Longrightarrow> \<exists>rs. sampled_ledger sha db xs = db @ rs \<and> store_ok sha (db @ rs) \<and> map equity_sample rs = map Inr xs \<and>
     filter (\<lambda>r. lr_event_type r = EQUITY_SAMPLED_EVENT_TYPE) rs = rs"
proof (induction xs arbitrary: db)
  case Nil
  then show ?case by (simp add: sampled_ledger_def)
next
  case (Cons x xs)
  obtain t equity where x: "x = (t, equity)" by (cases x)
  let ?e = "EquitySampled SCHEDULER_COMPONENT equity 0 t"
  obtain res db' where a: "store_append sha (\<lambda>_. None, []) ?e db = (res, db')" by (cases "store_append sha (\<lambda>_. None, []) ?e db")
  obtain r where r: "db' = db @ [r]" "store_ok sha (db @ [r])" "row_of ?e r"
    by (rule store_append_cases [OF Cons.prems EquitySampled_wf a]) auto
  from Cons.IH [OF r(2)] obtain rs where rs: "sampled_ledger sha (db @ [r]) xs = (db @ [r]) @ rs" "store_ok sha ((db @ [r]) @ rs)"
    "map equity_sample rs = map Inr xs" "filter (\<lambda>r. lr_event_type r = EQUITY_SAMPLED_EVENT_TYPE) rs = rs" by blast
  have "sampled_ledger sha db (x # xs) = db @ r # rs" using rs(1) a r(1) by (simp add: sampled_ledger_def x)
  with rs sampled_row_read [OF r(3)] show ?case by (intro exI [of _ "r # rs"]) (simp add: x)
qed

subsection \<open>The day, read back or folded whole\<close>

text \<open>When no sample's day precedes an earlier appended one's, the reverse walk and the whole fold see the same samples of the day.\<close>

lemma walk_is_filter:
  assumes "list_all (\<lambda>r. is_ok (equity_sample r)) rs" and "sorted_wrt (\<lambda>r s. utc_day (fst (reading s)) \<le> utc_day (fst (reading r))) rs"
  shows "samples_back_to_the_day_boundary today rs = map Inr (filter (\<lambda>x. today \<le> utc_day (fst x)) (map reading rs))"
  using assms
proof (induction rs)
  case (Cons r rs)
  obtain t e where r: "equity_sample r = Inr (t, e)" using Cons.prems(1) by auto
  then have rd: "reading r = (t, e)" by (simp add: reading_def)
  show ?case
  proof (cases "utc_day t < today")
    case True
    with Cons.prems(2) rd have "filter (\<lambda>x. today \<le> utc_day (fst x)) (map reading rs) = []" by (fastforce simp: filter_empty_conv)
    with True r rd show ?thesis by simp
  next
    case False
    with Cons r rd show ?thesis by simp
  qed
qed simp

fun is_day :: "int \<Rightarrow> (int \<times> int) set \<Rightarrow> (int \<times> int \<times> int) option \<Rightarrow> bool" where
  "is_day today S None = (\<forall>x \<in> S. utc_day (fst x) \<noteq> today)"
| "is_day today S (Some (earliest, baseline, trough)) =
     ((earliest, baseline) \<in> S \<and> utc_day earliest = today \<and> (\<exists>x \<in> S. utc_day (fst x) = today \<and> snd x = trough) \<and>
      (\<forall>x \<in> S. utc_day (fst x) = today \<longrightarrow> earliest \<le> fst x \<and> trough \<le> snd x))"

lemma day_step_day: "is_day today S st \<Longrightarrow> is_day today (insert x S) (day_step today st x)"
proof (cases x)
  case (Pair t e)
  assume a: "is_day today S st"
  show ?thesis
  proof (cases "utc_day t = today")
    case False
    with a Pair show ?thesis by (cases st) auto
  next
    case True
    show ?thesis
    proof (cases st)
      case None
      with a Pair True show ?thesis by auto
    next
      case (Some y)
      obtain t0 b tr where y: "y = (t0, b, tr)" by (cases y)
      have m: "\<exists>z \<in> insert x S. utc_day (fst z) = today \<and> snd z = min tr e"
        using a Some y Pair True by (cases "tr \<le> e") (auto simp: min_def)
      have l: "min tr e \<le> snd z" if "z \<in> insert x S" "utc_day (fst z) = today" for z
        using a Some y Pair that by (auto intro: min.coboundedI1)
      from a Some y have f: "t0 \<le> fst z" if "z \<in> S" "utc_day (fst z) = today" for z using that by auto
      show ?thesis
      proof (cases "t < t0")
        case True
        have "t \<le> fst z" if "z \<in> insert x S" "utc_day (fst z) = today" for z using that f [of z] True Pair by auto
        with True m l \<open>utc_day t = today\<close> Pair Some y show ?thesis by simp
      next
        case False
        have "t0 \<le> fst z" if "z \<in> insert x S" "utc_day (fst z) = today" for z using that f [of z] False Pair by auto
        with False m l \<open>utc_day t = today\<close> Pair Some y a show ?thesis by simp
      qed
    qed
  qed
qed

lemma day_foldl: "is_day today S st \<Longrightarrow> is_day today (S \<union> set xs) (foldl (day_step today) st xs)"
proof (induction xs arbitrary: S st)
  case (Cons x xs)
  from Cons.IH [OF day_step_day [OF Cons.prems]] show ?case by simp
qed simp

lemma day_unique:
  assumes "is_day today S a" and "is_day today S b" and "one_reading S"
  shows "a = b"
proof (cases a)
  case None
  with assms(1,2) show ?thesis by (cases b) auto
next
  case (Some x)
  obtain t e m where x: "x = (t, e, m)" by (cases x)
  have c: "(t, e) \<in> S" "utc_day t = today" "\<exists>z \<in> S. utc_day (fst z) = today \<and> snd z = m"
    "\<forall>z \<in> S. utc_day (fst z) = today \<longrightarrow> t \<le> fst z \<and> m \<le> snd z" using assms(1) by (simp_all add: Some x)
  then obtain y where y: "b = Some y" using assms(2) by (cases b) auto
  obtain t' e' m' where y': "y = (t', e', m')" by (cases y)
  have d: "(t', e') \<in> S" "utc_day t' = today" "\<exists>z \<in> S. utc_day (fst z) = today \<and> snd z = m'"
    "\<forall>z \<in> S. utc_day (fst z) = today \<longrightarrow> t' \<le> fst z \<and> m' \<le> snd z" using assms(2) by (simp_all add: y y')
  have "t = t'" using bspec [OF c(4) d(1)] bspec [OF d(4) c(1)] c(2) d(2) by simp
  moreover from this have "e = e'" using c(1) d(1) assms(3) unfolding one_reading_def by (metis fst_conv snd_conv)
  moreover have "m = m'" using c(3,4) d(3,4) by (metis antisym)
  ultimately show ?thesis by (simp add: Some x y y')
qed

lemma day_step_skips: "utc_day (fst x) \<noteq> today \<Longrightarrow> day_step today st x = st"
  by (cases x) simp

lemma day_foldl_filter: "foldl (day_step today) st (filter (\<lambda>x. today \<le> utc_day (fst x)) xs) = foldl (day_step today) st xs"
  by (induction xs arbitrary: st) (auto simp: day_step_skips)

text \<open>Both readings of a day, and what they say.\<close>

lemma day_readings:
  assumes "store_ok sha db" and "readable db" and "one_reading (reading ` set (sampled_rows db))"
    and "sorted (map (\<lambda>r. utc_day (fst (reading r))) (sampled_rows db))"
  shows "read_day_equity True db now = read_day_equity False db now"
proof -
  let ?xs = "map reading (sampled_rows db)" and ?d = "utc_day now"
  have ra: "read_all db = db" using assms(1) by (simp add: store_ok_def)
  have it: "iter_records_of_type_reversed EQUITY_SAMPLED_EVENT_TYPE db = rev (sampled_rows db)"
    by (simp add: iter_records_of_type_reversed_def sampled_rows_def ra rev_filter)
  have "sorted_wrt (\<lambda>r s. utc_day (fst (reading s)) \<le> utc_day (fst (reading r))) (rev (sampled_rows db))"
    using assms(4) by (simp add: sorted_wrt_rev sorted_map)
  then have w: "samples_back_to_the_day_boundary ?d (rev (sampled_rows db)) = map Inr (filter (\<lambda>x. ?d \<le> utc_day (fst x)) (rev ?xs))"
    using walk_is_filter [of "rev (sampled_rows db)" ?d] assms(2) by (simp add: readable_def rev_map list_all_rev)
  have s: "day_samples db = map Inr ?xs"
    using assms(2) by (auto simp: day_samples_def sampled_rows_def readable_def list_all_iff reading_def split: sum.splits)
  have "foldl (day_step ?d) None (rev ?xs) = foldl (day_step ?d) None ?xs"
    by (rule day_unique [where S = "set ?xs"]) (use day_foldl [of ?d "{}" None "rev ?xs"] day_foldl [of ?d "{}" None ?xs] assms(3) in auto)
  then show ?thesis
    by (simp add: read_day_equity_def it w fold_day_equity_def fold_samples_read day_foldl_filter day_equity_micros_def ra s del: map_map)
qed

text \<open>A clock that steps back across midnight and forward again leaves a sample of the day before above samples of today: the walk stops at it, so
  the loss of the day before the step is not seen by the indexed reading.\<close>

lemma backward_clock_splits_the_readings:
  "\<exists>db. store_ok sha db \<and> readable db \<and> read_realized_loss_today_micros False db 86403 = Inr (Some (IntUnit 60)) \<and>
     read_realized_loss_today_micros True db 86403 = Inr (Some (IntUnit 0))"
proof -
  let ?xs = "[(86400, 100), (86401, 40), (86399, 40), (86402, 40)]"
  obtain rs where rs: "sampled_ledger sha [] ?xs = rs" "store_ok sha rs" "map equity_sample rs = map Inr ?xs"
    "filter (\<lambda>r. lr_event_type r = EQUITY_SAMPLED_EVENT_TYPE) rs = rs"
    using sampled_ledger_reads [OF store_ok_Nil(1), of sha ?xs] by auto
  obtain a b c d where abcd: "rs = [a, b, c, d]" "equity_sample a = Inr (86400, 100)" "equity_sample b = Inr (86401, 40)"
    "equity_sample c = Inr (86399, 40)" "equity_sample d = Inr (86402, 40)"
    using rs(3) by (auto simp: map_eq_Cons_conv)
  have "read_all rs = rs" using rs(2) by (simp add: store_ok_def)
  moreover have "iter_records_of_type_reversed EQUITY_SAMPLED_EVENT_TYPE rs = [d, c, b, a]"
  proof -
    have "iter_records_of_type_reversed EQUITY_SAMPLED_EVENT_TYPE rs = rev rs"
      using rs(4) calculation by (simp add: iter_records_of_type_reversed_def rev_filter [symmetric])
    then show ?thesis by (simp add: abcd(1))
  qed
  moreover have "day_samples rs = map equity_sample rs" by (simp add: day_samples_def rs(4))
  moreover have "readable rs" by (simp add: readable_def sampled_rows_def rs(4) abcd)
  ultimately show ?thesis
    by (intro exI [of _ rs]) (simp add: rs(2) [unfolded abcd(1)] read_realized_loss_today_micros_def read_day_equity_def day_equity_micros_def fold_day_equity_def
        abcd utc_day_def realized_loss_def res_bind_def)
qed

subsection \<open>Notional and orders, in either direction\<close>

definition stamped :: "parse_iso \<Rightarrow> LedgerRecord \<Rightarrow> bool" where
  "stamped parse r = (case parse (lr_created_at r) of Some (Aware us) \<Rightarrow> True | _ \<Rightarrow> False)"

definition booked_on :: "parse_iso \<Rightarrow> int \<Rightarrow> LedgerRecord \<Rightarrow> int" where
  "booked_on parse today r =
     (if fill_utc_day parse r = Some today then (case fill_notional_micros r of Inr n \<Rightarrow> n | Inl _ \<Rightarrow> 0) else 0)"

lemma fold_notional_sum:
  "list_all (\<lambda>r. stamped parse r \<and> is_ok (fill_notional_micros r)) rs \<Longrightarrow>
     fold_notional parse today acc rs = Inr (Some (IntUnit (acc + sum_list (map (booked_on parse today) rs))))"
proof (induction rs arbitrary: acc)
  case (Cons r rs)
  obtain us where us: "parse (lr_created_at r) = Some (Aware us)"
    using Cons.prems by (auto simp: stamped_def split: option.splits py_instant.splits)
  obtain n where n: "fill_notional_micros r = Inr n" using Cons.prems by auto
  from Cons us n show ?case by (simp add: fill_utc_day_def booked_on_def res_bind_def)
qed simp

definition routed_since :: "parse_iso \<Rightarrow> int \<Rightarrow> LedgerRecord \<Rightarrow> int" where
  "routed_since parse cutoff r =
     (if is_order_routing r = Inr True \<and> (\<exists>us. parse (lr_created_at r) = Some (Aware us) \<and> whole_seconds us \<ge> cutoff) then 1 else 0)"

lemma fold_orders_sum:
  "list_all (\<lambda>r. stamped parse r \<and> is_ok (is_order_routing r)) rs \<Longrightarrow>
     fold_orders parse cutoff routed rs = Inr (Some (routed + sum_list (map (routed_since parse cutoff) rs)))"
proof (induction rs arbitrary: routed)
  case (Cons r rs)
  obtain us where us: "parse (lr_created_at r) = Some (Aware us)"
    using Cons.prems by (auto simp: stamped_def split: option.splits py_instant.splits)
  obtain b where b: "is_order_routing r = Inr b" using Cons.prems by auto
  from Cons us b show ?case by (cases b) (simp_all add: record_epoch_s_def routed_since_def res_bind_def)
qed simp

text \<open>An unstamped fill, or an unstamped routing, leaves the whole figure unproven.\<close>

lemma fold_notional_unstamped:
  "r \<in> set rs \<Longrightarrow> \<not> stamped parse r \<Longrightarrow> list_all (\<lambda>r. is_ok (fill_notional_micros r)) rs \<Longrightarrow> fold_notional parse today acc rs = Inr None"
proof (induction rs arbitrary: acc)
  case (Cons x rs)
  show ?case
  proof (cases "stamped parse x")
    case True
    then obtain us where us: "parse (lr_created_at x) = Some (Aware us)" by (auto simp: stamped_def split: option.splits py_instant.splits)
    obtain n where n: "fill_notional_micros x = Inr n" using Cons.prems by auto
    have "r \<in> set rs" using Cons.prems(1,2) True by auto
    with Cons us n show ?thesis by (simp add: fill_utc_day_def res_bind_def)
  next
    case False
    then show ?thesis by (auto simp: stamped_def fill_utc_day_def split: option.splits py_instant.splits)
  qed
qed simp

lemma velocity_readings:
  assumes "store_ok sha db"
    and "list_all (\<lambda>r. stamped parse r \<and> is_ok (fill_notional_micros r)) (filter (\<lambda>r. lr_event_type r = LOOP_FILL_ACCOUNTED_EVENT_TYPE) db)"
    and "list_all (\<lambda>r. stamped parse r \<and> is_ok (is_order_routing r)) (filter (\<lambda>r. lr_event_type r = ORDER_TRANSITION_EVENT_TYPE) db)"
  shows "read_notional_today_micros True parse db now = read_notional_today_micros False parse db now"
    and "read_orders_last_hour True parse db now = read_orders_last_hour False parse db now"
proof -
  have ra: "read_all db = db" using assms(1) by (simp add: store_ok_def)
  have it: "iter_records_of_type_reversed t db = rev (filter (\<lambda>r. lr_event_type r = t) db)" for t
    by (simp add: iter_records_of_type_reversed_def ra rev_filter)
  show "read_notional_today_micros True parse db now = read_notional_today_micros False parse db now"
    using assms(2) by (simp add: read_notional_today_micros_def notional_today_micros_def it ra fold_notional_sum list_all_rev rev_map [symmetric])
  show "read_orders_last_hour True parse db now = read_orders_last_hour False parse db now"
    using assms(3) by (simp add: read_orders_last_hour_def orders_last_hour_count_def it ra fold_orders_sum list_all_rev rev_map [symmetric])
qed

section \<open>Properties\<close>

text \<open>
  C27. The equity-curve memo changes no answer: over any sequence of readings of a growing ledger, with the reverse walk or without it, every reading
  through the one memo is the whole-ledger fold, and that is the highest sample with the sample appended last.\<close>

theorem curve_memo_exact:
  assumes "sorted_wrt prefix (map snd reads)" and "\<forall>(indexed, db) \<in> set reads. store_ok sha db \<and> readable db"
  shows "read_curves reads EquityCurveCursor_new = map (\<lambda>(indexed, db). equity_curve_micros (read_all db)) reads \<and>
    (\<forall>(indexed, db) \<in> set reads. equity_curve_micros (read_all db) = Inr (curve_of db))"
proof -
  have w: "\<forall>(indexed, db) \<in> set reads. equity_curve_micros (read_all db) = Inr (curve_of db)" using assms(2) whole_fold_curve by auto
  have "read_curves reads EquityCurveCursor_new = map (\<lambda>(indexed, db). Inr (curve_of db)) reads"
    by (rule read_curves_memo [OF new_memo]) (use assms in auto)
  with w show ?thesis by auto
qed

text \<open>A peak, a fall, and a reading after each.\<close>

theorem curve_memo_exact_witness:
  "\<exists>db1 db2. read_curves [(True, []), (True, db1), (False, db2)] EquityCurveCursor_new =
     [Inr None, Inr (Some \<lparr>ec_high_water_mark = IntUnit 90, ec_latest = IntUnit 90\<rparr>),
      Inr (Some \<lparr>ec_high_water_mark = IntUnit 90, ec_latest = IntUnit 70\<rparr>)]"
proof -
  let ?sha = "\<lambda>_. []"
  obtain r1 where r1: "store_ok ?sha r1" "map equity_sample r1 = [Inr (5, 90)]" "filter (\<lambda>r. lr_event_type r = EQUITY_SAMPLED_EVENT_TYPE) r1 = r1"
    using sampled_ledger_reads [OF store_ok_Nil(1), of ?sha "[(5, 90)]"] by auto
  obtain r2 where r2: "store_ok ?sha (r1 @ r2)" "map equity_sample r2 = [Inr (6, 70)]" "filter (\<lambda>r. lr_event_type r = EQUITY_SAMPLED_EVENT_TYPE) r2 = r2"
    using sampled_ledger_reads [OF r1(1), of "[(6, 70)]"] by auto
  obtain a b where ab: "r1 = [a]" "r2 = [b]" "equity_sample a = Inr (5, 90)" "equity_sample b = Inr (6, 70)"
    using r1(2) r2(2) by (auto simp: map_eq_Cons_conv)
  have rows: "sampled_rows [] = []" "sampled_rows r1 = r1" "sampled_rows (r1 @ r2) = [a, b]"
    using r1(3) r2(3) by (simp_all add: sampled_rows_def ab split: if_splits)
  have "curve_of [] = None" "curve_of r1 = Some \<lparr>ec_high_water_mark = IntUnit 90, ec_latest = IntUnit 90\<rparr>"
    "curve_of (r1 @ r2) = Some \<lparr>ec_high_water_mark = IntUnit 90, ec_latest = IntUnit 70\<rparr>"
    unfolding curve_of_def rows by (simp_all add: ab reading_def)
  moreover have "readable []" "readable r1" "readable (r1 @ r2)" unfolding readable_def rows by (simp_all add: ab)
  ultimately show ?thesis
    using curve_memo_exact [of "[(True, []), (True, r1), (False, r1 @ r2)]" ?sha] r1(1) r2(1)
    by (intro exI [of _ r1] exI [of _ "r1 @ r2"]) simp
qed

end
