(* ===== verification/TickContext.thy ===== *)
theory TickContext
  imports TickEvidence Selector Paper Reservations
begin

text \<open>
  How a tick puts its evidence before the kernel: the projections of the venue's words onto the kernel's enums
  (\<open>windbreak/scheduler/eligibility.py\<close>), the exposure of the account's holdings (\<open>windbreak/scheduler/exposure.py\<close>), and the evaluation
  context composed from both and from what was read back from the ledger (\<open>windbreak/scheduler/loop.py\<close>). The configuration is cut to the sections
  these functions read. As in \<open>TickEvidence\<close>, \<open>parse\<close> reads an ISO instant.
\<close>

section \<open>Definitions\<close>

subsection \<open>Eligibility\<close>

definition JURISDICTION_BY_RAW :: "(string, JurisdictionStatus) pydict" where
  "JURISDICTION_BY_RAW = [(''eligible'', ELIGIBLE), (''ineligible'', INELIGIBLE)]"

definition PRODUCT_TYPE_BY_RAW :: "(string, ProductType) pydict" where
  "PRODUCT_TYPE_BY_RAW = [(''fully_collateralized_binary'', FULLY_COLLATERALIZED_BINARY)]"

definition EXCHANGE_STATUS_BY_RAW :: "(string, ExchangeTradingStatus) pydict" where
  "EXCHANGE_STATUS_BY_RAW = [(''open'', EXCHANGE_OPEN), (''paused'', EXCHANGE_PAUSED), (''closed'', EXCHANGE_CLOSED)]"

definition project_jurisdiction :: "string option \<Rightarrow> JurisdictionStatus option" where
  "project_jurisdiction st = (case st of None \<Rightarrow> None | Some raw \<Rightarrow> dict_get JURISDICTION_BY_RAW raw)"

definition project_product_type :: "string option \<Rightarrow> ProductType option" where
  "project_product_type t = (case t of None \<Rightarrow> None | Some raw \<Rightarrow> dict_get PRODUCT_TYPE_BY_RAW raw)"

definition project_exchange_status :: "string option \<Rightarrow> ExchangeTradingStatus option" where
  "project_exchange_status st = (case st of None \<Rightarrow> None | Some raw \<Rightarrow> dict_get EXCHANGE_STATUS_BY_RAW raw)"

subsection \<open>Exposure\<close>

record CorrelationTagConfig =
  tc_ticker :: string
  tc_bucket_ids :: "string list"
  tc_tagged_at :: string

type_synonym CorrelationConfig = "CorrelationTagConfig list"

record HeldMarket =
  hm_ticker :: string
  hm_event_ticker :: string
  hm_value_micros :: MoneyMicros

record ExposureProjection =
  ep_market_exposure :: MoneyMicros
  ep_event_exposure :: MoneyMicros
  ep_bucket_exposure :: MoneyMicros
  ep_total_exposure :: MoneyMicros
  ep_bucket_peers :: "BucketExposureEntry list"
  ep_target_tags :: "CorrelationTag list"

definition parse_tagged_at :: "parse_iso \<Rightarrow> string \<Rightarrow> num_error + int" where
  "parse_tagged_at parse raw = (case parse raw of Some (Aware us) \<Rightarrow> Inr us | _ \<Rightarrow> Inl ValueError)"

fun collect_results :: "('e + 'a) list \<Rightarrow> 'e + 'a list" where
  "collect_results [] = Inr []"
| "collect_results (r # rs) = res_bind r (\<lambda>x. res_bind (collect_results rs) (\<lambda>xs. Inr (x # xs)))"

definition declared_tag :: "parse_iso \<Rightarrow> CorrelationTagConfig \<Rightarrow> string \<Rightarrow> num_error + CorrelationTag" where
  "declared_tag parse entry bucket_id =
     res_bind (parse_tagged_at parse (tc_tagged_at entry)) (\<lambda>tagged_at.
       CorrelationTag_new \<lparr>ct_bucket_id = bucket_id, ct_source = ''human'', ct_tagged_at = tagged_at\<rparr>)"

definition declared_correlation_tags :: "parse_iso \<Rightarrow> CorrelationConfig \<Rightarrow> string \<Rightarrow> num_error + CorrelationTag list" where
  "declared_correlation_tags parse correlation ticker =
     collect_results (concat (map (\<lambda>entry. map (declared_tag parse entry) (tc_bucket_ids entry))
       (filter (\<lambda>entry. tc_ticker entry = ticker) correlation)))"

fun project_peers :: "parse_iso \<Rightarrow> CorrelationConfig \<Rightarrow> HeldMarket list \<Rightarrow> BucketExposureEntry list \<Rightarrow> num_error + BucketExposureEntry list option" where
  "project_peers parse correlation [] peers = Inr (Some peers)"
| "project_peers parse correlation (h # held) peers =
     res_bind (declared_correlation_tags parse correlation (hm_ticker h)) (\<lambda>tags.
       if tags = [] then Inr None
       else project_peers parse correlation held
         (peers @ [\<lparr>be_market_ticker = hm_ticker h, be_exposure_micros = hm_value_micros h, be_tags = tags\<rparr>]))"

definition held_value :: "(HeldMarket \<Rightarrow> bool) \<Rightarrow> HeldMarket list \<Rightarrow> MoneyMicros" where
  "held_value P held = IntUnit (\<Sum>h \<leftarrow> filter P held. val (hm_value_micros h))"

definition project_exposure ::
    "parse_iso \<Rightarrow> HeldMarket list \<Rightarrow> string \<Rightarrow> string \<Rightarrow> CorrelationConfig \<Rightarrow> num_error + ExposureProjection option" where
  "project_exposure parse held target target_event correlation =
     res_bind (declared_correlation_tags parse correlation target) (\<lambda>target_tags.
       if target_tags = [] then Inr None
       else res_bind (project_peers parse correlation held []) (\<lambda>peers.
         Inr (map_option (\<lambda>peers.
           \<lparr>ep_market_exposure = held_value (\<lambda>h. hm_ticker h = target) held,
            ep_event_exposure = held_value (\<lambda>h. hm_event_ticker h = target_event) held,
            ep_bucket_exposure = IntUnit (fst (aggregate_bucket_exposure (effective_buckets target_tags) peers)),
            ep_total_exposure = held_value (\<lambda>_. True) held,
            ep_bucket_peers = peers, ep_target_tags = target_tags\<rparr>) peers)))"

definition position_value_micros :: "Position \<Rightarrow> int" where
  "position_value_micros p =
     (let quantity = val (pos_quantity p) in
      if quantity \<ge> 0 then quantity * val (pos_average_price p) else - quantity * (COMPLEMENT_PIPS - val (pos_average_price p)))"

definition positions_value_micros :: "Position list \<Rightarrow> int" where
  "positions_value_micros ps = (\<Sum>p \<leftarrow> ps. position_value_micros p)"

text \<open>The venue's positions, each with its market; a position in both sides or an unknown market is no evidence, any other exception escapes.\<close>

fun resolve_held :: "(string \<Rightarrow> paper_error + NormalizedMarket) \<Rightarrow> Position list \<Rightarrow> HeldMarket list \<Rightarrow> paper_error + HeldMarket list option" where
  "resolve_held lookup [] held = Inr (Some held)"
| "resolve_held lookup (p # ps) held =
     (case lookup (pos_ticker p) of
        Inl (UnknownMarketError t) \<Rightarrow> Inr None
      | Inl e \<Rightarrow> Inl e
      | Inr m \<Rightarrow> resolve_held lookup ps
          (held @ [\<lparr>hm_ticker = pos_ticker p, hm_event_ticker = nm_event_ticker m, hm_value_micros = IntUnit (position_value_micros p)\<rparr>]))"

definition held_markets :: "PaperExchange \<Rightarrow> paper_error + HeldMarket list option" where
  "held_markets px =
     (case get_positions px of
        Inl (TwoSidedPositionError t) \<Rightarrow> Inr None
      | Inl e \<Rightarrow> Inl e
      | Inr ps \<Rightarrow> resolve_held (get_market px) ps [])"

definition read_candidate_exposure ::
    "parse_iso \<Rightarrow> PaperExchange \<Rightarrow> CorrelationConfig \<Rightarrow> MarketCandidate \<Rightarrow> paper_error + ExposureProjection option" where
  "read_candidate_exposure parse px correlation candidate =
     res_bind (held_markets px) (\<lambda>held.
       case held of None \<Rightarrow> Inr None
       | Some hs \<Rightarrow> num (project_exposure parse hs (nm_ticker (mc_market candidate)) (nm_event_ticker (mc_market candidate)) correlation))"

subsection \<open>What the venue says\<close>

definition visible_depth_centis :: "OrderBookSnapshot \<Rightarrow> ContractCentis" where
  "visible_depth_centis b =
     IntUnit (min (sum_list (map (\<lambda>l. val (lvl_quantity l)) (yes_bids b))) (sum_list (map (\<lambda>l. val (lvl_quantity l)) (yes_asks b))))"

definition read_open_position_centis :: "PaperExchange \<Rightarrow> string \<Rightarrow> paper_error + ContractCentis option" where
  "read_open_position_centis px ticker =
     (case get_positions px of
        Inl (TwoSidedPositionError t) \<Rightarrow> Inr None
      | Inl e \<Rightarrow> Inl e
      | Inr ps \<Rightarrow> Inr (Some (case find (\<lambda>p. pos_ticker p = ticker) ps of None \<Rightarrow> IntUnit 0 | Some p \<Rightarrow> pos_quantity p)))"

text \<open>The venue's clock is read at the instant \<open>now\<close> of the process.\<close>

definition read_exchange_clock_epoch_s :: "PaperExchange \<Rightarrow> int \<Rightarrow> paper_error + int option" where
  "read_exchange_clock_epoch_s px now =
     (case get_exchange_time px now of
        Inl (ReplayExhausted r) \<Rightarrow> Inr None
      | Inl e \<Rightarrow> Inl e
      | Inr us \<Rightarrow> Inr (Some (whole_seconds us)))"

subsection \<open>The context\<close>

record CapitalConfig =
  cc_floor_micros :: int
  cc_floor_ratchet_ppm_of_new_profits :: int
  cc_profit_sweep_threshold_micros :: int
  cc_max_deploy_pct_above_floor_ppm :: int
  cc_micro_cap_micros :: int

record WindbreakConfig =
  wc_capital :: CapitalConfig
  wc_risk :: RiskConfig
  wc_correlation :: CorrelationConfig

definition DEFAULT_FORECAST_TTL_SECONDS :: int where "DEFAULT_FORECAST_TTL_SECONDS = 3600"
definition DEFAULT_VERIFICATION_TTL_SECONDS :: int where "DEFAULT_VERIFICATION_TTL_SECONDS = 3600"
definition DEFAULT_EXCHANGE_STATUS_TTL_SECONDS :: int where "DEFAULT_EXCHANGE_STATUS_TTL_SECONDS = 30"
definition DEFAULT_PIPELINE_HEARTBEAT_TTL_SECONDS :: int where "DEFAULT_PIPELINE_HEARTBEAT_TTL_SECONDS = 60"

definition human_ack_micros :: "WindbreakConfig \<Rightarrow> MoneyMicros option" where
  "human_ack_micros config = map_option IntUnit (rk_require_human_ack_above_micros (wc_risk config))"

definition build_limits :: "WindbreakConfig \<Rightarrow> string set \<Rightarrow> bool \<Rightarrow> bool \<Rightarrow> bool \<Rightarrow> RiskLimits" where
  "build_limits config whitelist exposure_provable notional_provable orders_provable =
     (let risk = wc_risk config in
      \<lparr>limits_floor = IntUnit (cc_floor_micros (wc_capital config)),
       instrument_whitelist = whitelist,
       micro_cap = IntUnit (cc_micro_cap_micros (wc_capital config)),
       min_open_price = IntUnit (rk_min_open_price_pips risk),
       max_open_price = IntUnit (rk_max_open_price_pips risk),
       max_participation_ppm = rk_max_participation_ppm risk,
       max_pos_market_pct_ppm = (if exposure_provable then rk_max_pos_market_pct_ppm risk else 0),
       max_pos_event_pct_ppm = (if exposure_provable then rk_max_pos_event_pct_ppm risk else 0),
       max_pos_bucket_pct_ppm = (if exposure_provable then rk_max_pos_bucket_pct_ppm risk else 0),
       max_pos_total_pct_ppm = (if exposure_provable then rk_max_pos_total_pct_ppm risk else 0),
       daily_loss_limit_pct_ppm = rk_daily_loss_limit_pct_ppm risk,
       max_drawdown_pct_ppm = rk_max_drawdown_pct_ppm risk,
       max_orders_per_hour = (if orders_provable then rk_max_orders_per_hour risk else 0),
       max_notional_per_day = IntUnit (if notional_provable then rk_max_notional_per_day_micros risk else 0),
       quote_ttl_seconds = rk_quote_ttl_seconds risk,
       forecast_ttl_seconds = DEFAULT_FORECAST_TTL_SECONDS,
       clock_skew_max_seconds = rk_clock_skew_max_seconds risk,
       rounding_buffer = IntUnit 0,
       verification_ttl_seconds = DEFAULT_VERIFICATION_TTL_SECONDS,
       require_human_ack_above_micros = human_ack_micros config,
       exchange_status_ttl_seconds = DEFAULT_EXCHANGE_STATUS_TTL_SECONDS,
       pipeline_heartbeat_ttl_seconds = DEFAULT_PIPELINE_HEARTBEAT_TTL_SECONDS\<rparr>)"

definition exposure_terms :: "ExposureProjection option \<Rightarrow> MoneyMicros \<times> MoneyMicros \<times> MoneyMicros \<times> MoneyMicros" where
  "exposure_terms exposure =
     (case exposure of None \<Rightarrow> (IntUnit 0, IntUnit 0, IntUnit 0, IntUnit 0)
      | Some e \<Rightarrow> (ep_market_exposure e, ep_event_exposure e, ep_bucket_exposure e, ep_total_exposure e))"

definition or_zero :: "MoneyMicros option \<Rightarrow> MoneyMicros" where
  "or_zero m = (case m of None \<Rightarrow> IntUnit 0 | Some x \<Rightarrow> x)"

definition equity_terms :: "MoneyMicros option \<Rightarrow> MoneyMicros option \<Rightarrow> EquityCurve option \<Rightarrow> MoneyMicros \<times> MoneyMicros \<times> MoneyMicros \<times> MoneyMicros" where
  "equity_terms day_start loss curve =
     (or_zero day_start, or_zero loss, or_zero (map_option ec_high_water_mark curve), or_zero (map_option ec_latest curve))"

definition velocity_terms :: "int option \<Rightarrow> MoneyMicros option \<Rightarrow> int \<times> MoneyMicros" where
  "velocity_terms orders notional = ((case orders of None \<Rightarrow> 0 | Some n \<Rightarrow> n), or_zero notional)"

definition account_from_verification ::
    "VerificationSnapshot option \<Rightarrow> MoneyMicros option \<Rightarrow> MoneyMicros option \<Rightarrow> EquityCurve option \<Rightarrow> ExposureProjection option \<Rightarrow>
     MoneyMicros option \<Rightarrow> int option \<Rightarrow> AccountState" where
  "account_from_verification verified day_start loss curve exposure notional orders =
     (let (baseline, lost, mark, sampled) = equity_terms day_start loss curve;
          (in_market, in_event, in_bucket, in_total) = exposure_terms exposure;
          (routed, day_notional) = velocity_terms orders notional in
      \<lparr>exchange_verified_available_cash = or_zero (map_option vs_exchange_verified_available_cash verified),
       guaranteed_terminal_value_of_positions = IntUnit 0,
       pending_kernel_reservations = IntUnit 0,
       unresolved_fee_upper_bounds = IntUnit 0,
       reconciliation_uncertainty_buffer = or_zero (map_option cash_drift verified),
       equity_start_of_day = baseline, equity_high_water_mark = mark, sampled_equity = sampled, realized_loss_today = lost,
       market_exposure = in_market, event_exposure = in_event, bucket_exposure = in_bucket, total_exposure = in_total,
       orders_last_hour = routed, notional_today = day_notional\<rparr>)"

text \<open>The evidence of a tick, by the names of the parameters.\<close>

record TickInputs =
  ti_now :: int
  ti_verification :: "VerificationSnapshot option"
  ti_whitelist :: "string set"
  ti_market :: "NormalizedMarket option"
  ti_exchange_status :: "ExchangeTradingStatus option"
  ti_exchange_status_epoch_s :: "int option"
  ti_pipeline_heartbeat_epoch_s :: "int option"
  ti_quote_snapshot_epoch_s :: "int option"
  ti_exchange_clock_epoch_s :: "int option"
  ti_forecast_epoch_s :: "int option"
  ti_open_position :: "ContractCentis option"
  ti_equity_start_of_day :: "MoneyMicros option"
  ti_realized_loss_today :: "MoneyMicros option"
  ti_equity_curve :: "EquityCurve option"
  ti_visible_depth :: "ContractCentis option"
  ti_exposure :: "ExposureProjection option"
  ti_notional_today :: "MoneyMicros option"
  ti_orders_last_hour :: "int option"

definition build_evaluation_context :: "WindbreakConfig \<Rightarrow> TickInputs \<Rightarrow> EvaluationContext" where
  "build_evaluation_context config ti =
     \<lparr>ctx_mode = PAPER,
      limits = build_limits config (ti_whitelist ti) (ti_exposure ti \<noteq> None) (ti_notional_today ti \<noteq> None) (ti_orders_last_hour ti \<noteq> None),
      account = account_from_verification (ti_verification ti) (ti_equity_start_of_day ti) (ti_realized_loss_today ti) (ti_equity_curve ti)
        (ti_exposure ti) (ti_notional_today ti) (ti_orders_last_hour ti),
      market = \<lparr>quote_snapshot_epoch_s = ti_quote_snapshot_epoch_s ti, forecast_epoch_s = ti_forecast_epoch_s ti,
        visible_depth = ti_visible_depth ti, exchange_clock_epoch_s = ti_exchange_clock_epoch_s ti, open_position = ti_open_position ti,
        exchange_status = ti_exchange_status ti, exchange_status_epoch_s = ti_exchange_status_epoch_s ti,
        jurisdiction_status = project_jurisdiction (map_option nm_jurisdiction_status (ti_market ti)),
        product_type = project_product_type (map_option nm_market_type (ti_market ti))\<rparr>,
      fees = \<lparr>max_trading_fee = Some (IntUnit 0), max_settlement_fee = Some (IntUnit 0)\<rparr>,
      now_epoch_s = ti_now ti,
      used_intent_ids = {}, used_idempotency_keys = {},
      verification = ti_verification ti,
      acknowledged_intent_ids = {},
      pipeline_heartbeat_epoch_s = ti_pipeline_heartbeat_epoch_s ti\<rparr>"

definition ExchangeStatusObserved :: "string \<Rightarrow> string \<Rightarrow> int \<Rightarrow> Event" where
  "ExchangeStatusObserved cmp st epoch_s =
     derive_typed_event ''ExchangeStatusObserved'' cmp [(''status'', JStr st), (''observed_at_epoch_s'', JInt epoch_s)] SCHEMA_VERSION"

datatype tick_error = TickVenue paper_error | TickRow te_error | TickStore budget_error

text \<open>The context an approval stage composes for a candidate: the status is observed and ledgered, then every other term is read, in order.
  \<open>status_at\<close>, \<open>clock_s\<close> and \<open>venue_at\<close> are the instants at which the status, the loop's clock and the venue's clock are read.\<close>

definition approve_context ::
    "digest_fn \<Rightarrow> store_io \<Rightarrow> bool \<Rightarrow> parse_iso \<Rightarrow> WindbreakConfig \<Rightarrow> PaperExchange \<Rightarrow> VerificationSnapshot option \<Rightarrow> MarketCandidate \<Rightarrow> int \<Rightarrow>
     ForecastRecord \<Rightarrow> ExposureProjection option \<Rightarrow> int \<Rightarrow> int \<Rightarrow> int \<Rightarrow> table \<Rightarrow> EquityCurveCursor \<Rightarrow>
     (tick_error + EvaluationContext) \<times> table \<times> EquityCurveCursor" where
  "approve_context sha io indexed parse config px verified candidate heartbeat forecast exposure status_at clock_s venue_at db cursor =
     (let ticker = nm_ticker (mc_market candidate); book = mc_order_book candidate;
          found_market = (case get_market px ticker of Inl _ \<Rightarrow> None | Inr m \<Rightarrow> Some m);
          observed = get_exchange_status px status_at;
          status_epoch = whole_seconds (es_fetched_at observed)
      in case store_append sha io (ExchangeStatusObserved SCHEDULER_COMPONENT (es_status observed) status_epoch) db of
           (Inl e, db) \<Rightarrow> (Inl (TickStore e), db, cursor)
         | (Inr _, db) \<Rightarrow>
             (case (read_exchange_clock_epoch_s px venue_at, read_open_position_centis px ticker) of
                (Inr clock, Inr position) \<Rightarrow>
                  (case (read_start_of_day_equity_micros indexed db clock_s, read_realized_loss_today_micros indexed db clock_s) of
                     (Inr baseline, Inr loss) \<Rightarrow>
                       (case read_equity_curve indexed db cursor of
                          (Inl e, cursor) \<Rightarrow> (Inl (TickRow e), db, cursor)
                        | (Inr curve, cursor) \<Rightarrow>
                            (case (read_notional_today_micros indexed parse db clock_s, read_orders_last_hour indexed parse db clock_s) of
                               (Inr notional, Inr orders) \<Rightarrow>
                                 (Inr (build_evaluation_context config
                                    \<lparr>ti_now = clock_s, ti_verification = verified, ti_whitelist = {ticker}, ti_market = found_market,
                                     ti_exchange_status = project_exchange_status (Some (es_status observed)),
                                     ti_exchange_status_epoch_s = Some status_epoch,
                                     ti_pipeline_heartbeat_epoch_s = Some heartbeat,
                                     ti_quote_snapshot_epoch_s = Some (whole_seconds (ob_fetched_at book)),
                                     ti_exchange_clock_epoch_s = clock,
                                     ti_forecast_epoch_s = Some (whole_seconds (fr_created_at forecast)),
                                     ti_open_position = position, ti_equity_start_of_day = baseline, ti_realized_loss_today = loss,
                                     ti_equity_curve = curve, ti_visible_depth = Some (visible_depth_centis book), ti_exposure = exposure,
                                     ti_notional_today = notional, ti_orders_last_hour = orders\<rparr>), db, cursor)
                             | (Inl e, _) \<Rightarrow> (Inl (TickRow e), db, cursor)
                             | (_, Inl e) \<Rightarrow> (Inl (TickRow e), db, cursor)))
                   | (Inl e, _) \<Rightarrow> (Inl (TickRow e), db, cursor)
                   | (_, Inl e) \<Rightarrow> (Inl (TickRow e), db, cursor))
              | (Inl e, _) \<Rightarrow> (Inl (TickVenue e), db, cursor)
              | (_, Inl e) \<Rightarrow> (Inl (TickVenue e), db, cursor)))"

section \<open>Lemmas\<close>

lemmas raw_tables = JURISDICTION_BY_RAW_def PRODUCT_TYPE_BY_RAW_def EXCHANGE_STATUS_BY_RAW_def

text \<open>The allowlists: only the taught words project, and only the one word of each enum's admissible value does so to it.\<close>

lemma projections_exact:
  "project_jurisdiction st = Some ELIGIBLE \<longleftrightarrow> st = Some ''eligible''"
  "project_jurisdiction st = Some INELIGIBLE \<longleftrightarrow> st = Some ''ineligible''"
  "project_product_type t = Some FULLY_COLLATERALIZED_BINARY \<longleftrightarrow> t = Some ''fully_collateralized_binary''"
  "project_exchange_status st = Some EXCHANGE_OPEN \<longleftrightarrow> st = Some ''open''"
  "project_exchange_status st = Some EXCHANGE_PAUSED \<longleftrightarrow> st = Some ''paused''"
  "project_exchange_status st = Some EXCHANGE_CLOSED \<longleftrightarrow> st = Some ''closed''"
  by (cases st; cases t; auto simp: project_jurisdiction_def project_product_type_def project_exchange_status_def raw_tables dict_get_def)+

lemma context_parts [simp]:
  "ctx_mode (build_evaluation_context config ti) = PAPER"
  "now_epoch_s (build_evaluation_context config ti) = ti_now ti"
  "verification (build_evaluation_context config ti) = ti_verification ti"
  "used_intent_ids (build_evaluation_context config ti) = {}" "used_idempotency_keys (build_evaluation_context config ti) = {}"
  "fees (build_evaluation_context config ti) = \<lparr>max_trading_fee = Some (IntUnit 0), max_settlement_fee = Some (IntUnit 0)\<rparr>"
  "pipeline_heartbeat_epoch_s (build_evaluation_context config ti) = ti_pipeline_heartbeat_epoch_s ti"
  by (simp_all add: build_evaluation_context_def)

text \<open>What an approval stage read, when it composed a context.\<close>

lemma approve_context_reads:
  assumes "approve_context sha io indexed parse config px verified candidate heartbeat forecast exposure status_at clock_s venue_at db cursor =
     (Inr ctx, db', cursor')"
  obtains clock position baseline loss curve notional orders where
    "read_exchange_clock_epoch_s px venue_at = Inr clock"
    "read_start_of_day_equity_micros indexed db' clock_s = Inr baseline" "read_realized_loss_today_micros indexed db' clock_s = Inr loss"
    "read_equity_curve indexed db' cursor = (Inr curve, cursor')"
    "read_notional_today_micros indexed parse db' clock_s = Inr notional" "read_orders_last_hour indexed parse db' clock_s = Inr orders"
    "ctx = build_evaluation_context config
       \<lparr>ti_now = clock_s, ti_verification = verified, ti_whitelist = {nm_ticker (mc_market candidate)},
        ti_market = (case get_market px (nm_ticker (mc_market candidate)) of Inl _ \<Rightarrow> None | Inr m \<Rightarrow> Some m),
        ti_exchange_status = project_exchange_status (Some (es_status (get_exchange_status px status_at))),
        ti_exchange_status_epoch_s = Some (whole_seconds (es_fetched_at (get_exchange_status px status_at))),
        ti_pipeline_heartbeat_epoch_s = Some heartbeat,
        ti_quote_snapshot_epoch_s = Some (whole_seconds (ob_fetched_at (mc_order_book candidate))),
        ti_exchange_clock_epoch_s = clock, ti_forecast_epoch_s = Some (whole_seconds (fr_created_at forecast)),
        ti_open_position = position, ti_equity_start_of_day = baseline, ti_realized_loss_today = loss, ti_equity_curve = curve,
        ti_visible_depth = Some (visible_depth_centis (mc_order_book candidate)), ti_exposure = exposure,
        ti_notional_today = notional, ti_orders_last_hour = orders\<rparr>"
  using assms by (auto simp: approve_context_def Let_def split: sum.splits prod.splits)

text \<open>The kernel's checks on a composed context, after the approval pipeline has stamped its reservations into it.\<close>

definition fresh :: "int option \<Rightarrow> int \<Rightarrow> int \<Rightarrow> bool" where
  "fresh ts now ttl = (\<exists>t. ts = Some t \<and> t \<le> now \<and> now \<le> t + ttl)"

lemma fresh_iff: "\<not> is_stale ts now ttl \<longleftrightarrow> fresh ts now ttl"
  by (auto simp: not_stale_iff fresh_def)

lemma fresh_Some [simp]: "fresh (Some t) now ttl \<longleftrightarrow> t \<le> now \<and> now \<le> t + ttl"
  by (simp add: fresh_def)

lemmas context_defs = effective_context_def build_evaluation_context_def build_limits_def account_from_verification_def equity_terms_def
  exposure_terms_def velocity_terms_def Let_def

lemmas ttl_defs = DEFAULT_FORECAST_TTL_SECONDS_def DEFAULT_VERIFICATION_TTL_SECONDS_def DEFAULT_EXCHANGE_STATUS_TTL_SECONDS_def
  DEFAULT_PIPELINE_HEARTBEAT_TTL_SECONDS_def

lemma context_cost: "order_cost_val i (effective_context led (build_evaluation_context config ti)) = val (price i) * val (order_size i)"
  by (simp add: order_cost_val_def context_defs split: prod.splits)

lemma context_not_derisking: "action i = ''buy'' \<Longrightarrow> \<not> is_derisking_close i c"
  by (simp add: is_derisking_close_def CLOSING_ACTIONS_def)

text \<open>The worst-case equity the checks see: verified cash less its drift and what is reserved.\<close>

definition provable_equity :: "ReservationLedger \<Rightarrow> VerificationSnapshot \<Rightarrow> int" where
  "provable_equity led v = val (vs_exchange_verified_available_cash v) - val (total_reserved led) - val (cash_drift v)"

lemma context_equity:
  "ti_verification ti = Some v \<Longrightarrow>
     val (equity_of (account (effective_context led (build_evaluation_context config ti)))) = provable_equity led v"
  by (simp add: context_defs provable_equity_def equity_of_def or_zero_def worst_case_equity_def split: prod.splits)

text \<open>A buy the checks approved over a composed context, group by group.\<close>

lemma tick_evidence:
  assumes "approves i (effective_context led (build_evaluation_context config ti))"
  shows "market_ticker i \<in> ti_whitelist ti"
    and "\<exists>m. ti_market ti = Some m \<and> nm_jurisdiction_status m = ''eligible'' \<and> nm_market_type m = ''fully_collateralized_binary''"
    and "ti_exchange_status ti = Some EXCHANGE_OPEN" and "fresh (ti_exchange_status_epoch_s ti) (ti_now ti) 30"
    and "fresh (ti_pipeline_heartbeat_epoch_s ti) (ti_now ti) 60" and "fresh (ti_forecast_epoch_s ti) (ti_now ti) 3600"
    and "fresh (ti_quote_snapshot_epoch_s ti) (ti_now ti) (rk_quote_ttl_seconds (wc_risk config))"
    and "\<exists>t. ti_exchange_clock_epoch_s ti = Some t \<and> \<bar>ti_now ti - t\<bar> \<le> rk_clock_skew_max_seconds (wc_risk config)"
proof -
  let ?c = "effective_context led (build_evaluation_context config ti)"
  have ev: "market_ticker i \<in> instrument_whitelist (limits ?c)" "jurisdiction_status (market ?c) = Some ELIGIBLE"
    "product_type (market ?c) = Some FULLY_COLLATERALIZED_BINARY" "exchange_status (market ?c) = Some EXCHANGE_OPEN"
    "fresh (exchange_status_epoch_s (market ?c)) (now_epoch_s ?c) (exchange_status_ttl_seconds (limits ?c))"
    "fresh (pipeline_heartbeat_epoch_s ?c) (now_epoch_s ?c) (pipeline_heartbeat_ttl_seconds (limits ?c))"
    "fresh (forecast_epoch_s (market ?c)) (now_epoch_s ?c) (forecast_ttl_seconds (limits ?c))"
    "fresh (quote_snapshot_epoch_s (market ?c)) (now_epoch_s ?c) (quote_ttl_seconds (limits ?c))"
    "\<exists>t. exchange_clock_epoch_s (market ?c) = Some t \<and> \<bar>now_epoch_s ?c - t\<bar> \<le> clock_skew_max_seconds (limits ?c)"
    using assms unfolding approves_iff evidence_checks fresh_iff by blast+
  show "market_ticker i \<in> ti_whitelist ti" using ev(1) by (simp add: context_defs split: prod.splits)
  show "\<exists>m. ti_market ti = Some m \<and> nm_jurisdiction_status m = ''eligible'' \<and> nm_market_type m = ''fully_collateralized_binary''"
    using ev(2,3) by (auto simp: context_defs projections_exact split: prod.splits)
  show "ti_exchange_status ti = Some EXCHANGE_OPEN" "fresh (ti_exchange_status_epoch_s ti) (ti_now ti) 30"
    "fresh (ti_pipeline_heartbeat_epoch_s ti) (ti_now ti) 60" "fresh (ti_forecast_epoch_s ti) (ti_now ti) 3600"
    "fresh (ti_quote_snapshot_epoch_s ti) (ti_now ti) (rk_quote_ttl_seconds (wc_risk config))"
    "\<exists>t. ti_exchange_clock_epoch_s ti = Some t \<and> \<bar>ti_now ti - t\<bar> \<le> rk_clock_skew_max_seconds (wc_risk config)"
    using ev(4-9) by (simp_all add: context_defs ttl_defs split: prod.splits)
qed

lemma tick_verified:
  assumes "approves i (effective_context led (build_evaluation_context config ti))" and "action i = ''buy''"
  obtains v where "ti_verification ti = Some v" "fresh (Some (verified_at_epoch_s v)) (ti_now ti) 3600" "balance_ok v" "position_ok v" "open_order_ok v"
    and "cc_floor_micros (wc_capital config) \<le> provable_equity led v - val (price i) * val (order_size i)"
proof -
  let ?c = "effective_context led (build_evaluation_context config ti)"
  obtain v where v: "verification ?c = Some v" "fresh (Some (verified_at_epoch_s v)) (now_epoch_s ?c) (verification_ttl_seconds (limits ?c))"
    "balance_ok v" "position_ok v" "open_order_ok v" using assms(1) unfolding approves_iff fresh_iff by blast
  have tv: "ti_verification ti = Some v" using v(1) by (simp add: context_defs split: prod.splits)
  have "\<not> cr_vetoed (FloorInvariant i ?c)" using assms(1) unfolding approves_iff by blast
  then have "val (limits_floor (limits ?c)) \<le> val (equity_of (account ?c)) - order_cost_val i ?c"
    using assms(2) unfolding floor_check by auto
  then have "cc_floor_micros (wc_capital config) \<le> provable_equity led v - val (price i) * val (order_size i)"
    unfolding context_cost context_equity [OF tv] by (simp add: context_defs split: prod.splits)
  moreover have "fresh (Some (verified_at_epoch_s v)) (ti_now ti) 3600"
    using v(2) by (simp add: context_defs ttl_defs split: prod.splits)
  ultimately show thesis using that tv v(3-5) by blast
qed

lemma tick_exposed:
  fixes i ti
  defines "cost \<equiv> val (price i) * val (order_size i)"
  assumes "approves i (effective_context led (build_evaluation_context config ti))" and "action i = ''buy''" and "0 < cost" and "ti_verification ti = Some v"
  obtains e where "ti_exposure ti = Some e"
    "(val (ep_market_exposure e) + cost) * 1000000 \<le> provable_equity led v * rk_max_pos_market_pct_ppm (wc_risk config)"
    "(val (ep_event_exposure e) + cost) * 1000000 \<le> provable_equity led v * rk_max_pos_event_pct_ppm (wc_risk config)"
    "(val (ep_bucket_exposure e) + cost) * 1000000 \<le> provable_equity led v * rk_max_pos_bucket_pct_ppm (wc_risk config)"
    "(val (ep_total_exposure e) + cost) * 1000000 \<le> provable_equity led v * rk_max_pos_total_pct_ppm (wc_risk config)"
proof -
  let ?c = "effective_context led (build_evaluation_context config ti)"
  have "\<not> cr_vetoed (ConcentrationLimits i ?c)" using assms(2) unfolding approves_iff by blast
  then have conc: "(val (market_exposure (account ?c)) + cost) * 1000000 \<le> provable_equity led v * max_pos_market_pct_ppm (limits ?c)"
    "(val (event_exposure (account ?c)) + cost) * 1000000 \<le> provable_equity led v * max_pos_event_pct_ppm (limits ?c)"
    "(val (bucket_exposure (account ?c)) + cost) * 1000000 \<le> provable_equity led v * max_pos_bucket_pct_ppm (limits ?c)"
    "(val (total_exposure (account ?c)) + cost) * 1000000 \<le> provable_equity led v * max_pos_total_pct_ppm (limits ?c)"
    using context_not_derisking [OF assms(3), of ?c]
    unfolding concentration_check context_cost context_equity [OF assms(5)] cost_def by auto
  show thesis
  proof (cases "ti_exposure ti")
    case None
    with conc(1) assms(4) show ?thesis by (simp add: context_defs split: prod.splits)
  next
    case (Some e)
    from Some conc show ?thesis by (intro that [of e]) (simp_all add: context_defs split: prod.splits)
  qed
qed

lemma tick_losses:
  assumes "approves i (effective_context led (build_evaluation_context config ti))"
  shows "ti_equity_start_of_day ti = Some b \<Longrightarrow> ti_realized_loss_today ti = Some l \<Longrightarrow> val l * 1000000 < val b * rk_daily_loss_limit_pct_ppm (wc_risk config)"
    and "ti_realized_loss_today ti = None \<Longrightarrow> ti_equity_start_of_day ti \<noteq> None"
    and "\<exists>k. ti_equity_curve ti = Some k \<and>
      (val (ec_high_water_mark k) - val (ec_latest k)) * 1000000 < val (ec_high_water_mark k) * rk_max_drawdown_pct_ppm (wc_risk config)"
proof -
  let ?c = "effective_context led (build_evaluation_context config ti)"
  have "\<not> cr_vetoed (DailyLossLimit i ?c)" "\<not> cr_vetoed (TrailingDrawdownLimit i ?c)" using assms unfolding approves_iff by blast+
  then have loss: "(val (realized_loss_today (account ?c)) + 1) * 1000000 \<le> val (equity_start_of_day (account ?c)) * daily_loss_limit_pct_ppm (limits ?c)"
    "(val (equity_high_water_mark (account ?c)) - val (sampled_equity (account ?c)) + 1) * 1000000
       \<le> val (equity_high_water_mark (account ?c)) * max_drawdown_pct_ppm (limits ?c)"
    unfolding loss_checks .
  show "ti_equity_start_of_day ti = Some b \<Longrightarrow> ti_realized_loss_today ti = Some l \<Longrightarrow> val l * 1000000 < val b * rk_daily_loss_limit_pct_ppm (wc_risk config)"
    "ti_realized_loss_today ti = None \<Longrightarrow> ti_equity_start_of_day ti \<noteq> None"
    using loss(1) by (cases "ti_equity_start_of_day ti"; auto simp: context_defs or_zero_def split: prod.splits)+
  show "\<exists>k. ti_equity_curve ti = Some k \<and>
      (val (ec_high_water_mark k) - val (ec_latest k)) * 1000000 < val (ec_high_water_mark k) * rk_max_drawdown_pct_ppm (wc_risk config)"
    using loss(2) by (cases "ti_equity_curve ti") (auto simp: context_defs or_zero_def split: prod.splits)
qed

lemma tick_velocity:
  assumes "approves i (effective_context led (build_evaluation_context config ti))" and "action i = ''buy''" and "0 < val (price i) * val (order_size i)"
  shows "\<exists>n. ti_notional_today ti = Some n \<and> val n + val (price i) * val (order_size i) \<le> rk_max_notional_per_day_micros (wc_risk config)"
    and "\<exists>k. ti_orders_last_hour ti = Some k \<and> k < rk_max_orders_per_hour (wc_risk config)"
    and "\<exists>d. ti_visible_depth ti = Some d \<and> val (order_size i) * 1000000 \<le> val d * rk_max_participation_ppm (wc_risk config)"
proof -
  let ?c = "effective_context led (build_evaluation_context config ti)"
  have "\<not> cr_vetoed (VelocityLimits i ?c)" and p: "\<not> cr_vetoed (ParticipationCapCompliance i ?c)" using assms(1) unfolding approves_iff by blast+
  then have vel: "orders_last_hour (account ?c) < max_orders_per_hour (limits ?c)"
    "val (notional_today (account ?c)) + val (price i) * val (order_size i) \<le> val (max_notional_per_day (limits ?c))"
    using context_not_derisking [OF assms(2), of ?c] unfolding velocity_check context_cost by auto
  show "\<exists>n. ti_notional_today ti = Some n \<and> val n + val (price i) * val (order_size i) \<le> rk_max_notional_per_day_micros (wc_risk config)"
    using vel(2) assms(3) by (cases "ti_notional_today ti") (auto simp: context_defs or_zero_def split: prod.splits)
  show "\<exists>k. ti_orders_last_hour ti = Some k \<and> k < rk_max_orders_per_hour (wc_risk config)"
    using vel(1) by (cases "ti_orders_last_hour ti") (auto simp: context_defs or_zero_def split: prod.splits)
  show "\<exists>d. ti_visible_depth ti = Some d \<and> val (order_size i) * 1000000 \<le> val d * rk_max_participation_ppm (wc_risk config)"
    using p unfolding action_checks by (auto simp: context_defs split: prod.splits)
qed

section \<open>Properties\<close>

text \<open>
  C4. No buy of a tick is approved unless every term of its context was proven: the venue listed the market as an eligible, fully collateralized
  binary and said within 30 seconds that it is open, heartbeat, forecast, quote, verification and the venue's clock were fresh, the ledger held the
  day's baseline, the equity curve, the day's notional and the hour's orders, the exposure was known, and every limit holds of these very readings.\<close>

theorem tick_approval_needs_evidence:
  assumes "approve_context sha io indexed parse config px verified candidate heartbeat forecast exposure status_at clock_s venue_at db cursor =
      (Inr ctx, db', cursor')"
    and "approves i (effective_context led ctx)" and "action i = ''buy''" and "0 < val (price i) * val (order_size i)"
  shows "let risk = wc_risk config; cost = val (price i) * val (order_size i); ticker = nm_ticker (mc_market candidate);
      observed = get_exchange_status px status_at in
    market_ticker i = ticker \<and>
    (\<exists>m. get_market px ticker = Inr m \<and> nm_jurisdiction_status m = ''eligible'' \<and> nm_market_type m = ''fully_collateralized_binary'') \<and>
    es_status observed = ''open'' \<and> fresh (Some (whole_seconds (es_fetched_at observed))) clock_s 30 \<and> fresh (Some heartbeat) clock_s 60 \<and>
    fresh (Some (whole_seconds (fr_created_at forecast))) clock_s 3600 \<and>
    fresh (Some (whole_seconds (ob_fetched_at (mc_order_book candidate)))) clock_s (rk_quote_ttl_seconds risk) \<and>
    (\<exists>t. read_exchange_clock_epoch_s px venue_at = Inr (Some t) \<and> \<bar>clock_s - t\<bar> \<le> rk_clock_skew_max_seconds risk) \<and>
    (\<exists>v e. verified = Some v \<and> fresh (Some (verified_at_epoch_s v)) clock_s 3600 \<and> balance_ok v \<and> position_ok v \<and> open_order_ok v \<and>
      cc_floor_micros (wc_capital config) \<le> provable_equity led v - cost \<and> exposure = Some e \<and>
      (val (ep_market_exposure e) + cost) * 1000000 \<le> provable_equity led v * rk_max_pos_market_pct_ppm risk \<and>
      (val (ep_event_exposure e) + cost) * 1000000 \<le> provable_equity led v * rk_max_pos_event_pct_ppm risk \<and>
      (val (ep_bucket_exposure e) + cost) * 1000000 \<le> provable_equity led v * rk_max_pos_bucket_pct_ppm risk \<and>
      (val (ep_total_exposure e) + cost) * 1000000 \<le> provable_equity led v * rk_max_pos_total_pct_ppm risk) \<and>
    (\<exists>d. read_day_equity indexed db' clock_s = Inr (Some d) \<and>
      val (realized_loss d) * 1000000 < val (de_baseline d) * rk_daily_loss_limit_pct_ppm risk) \<and>
    (\<exists>k. fst (read_equity_curve indexed db' cursor) = Inr (Some k) \<and>
      (val (ec_high_water_mark k) - val (ec_latest k)) * 1000000 < val (ec_high_water_mark k) * rk_max_drawdown_pct_ppm risk) \<and>
    (\<exists>n. read_notional_today_micros indexed parse db' clock_s = Inr (Some n) \<and> val n + cost \<le> rk_max_notional_per_day_micros risk) \<and>
    (\<exists>k. read_orders_last_hour indexed parse db' clock_s = Inr (Some k) \<and> k < rk_max_orders_per_hour risk) \<and>
    val (order_size i) * 1000000 \<le> val (visible_depth_centis (mc_order_book candidate)) * rk_max_participation_ppm risk"
proof -
  obtain clock position baseline loss curve notional orders ti where r:
    "read_exchange_clock_epoch_s px venue_at = Inr clock"
    "read_start_of_day_equity_micros indexed db' clock_s = Inr baseline" "read_realized_loss_today_micros indexed db' clock_s = Inr loss"
    "read_equity_curve indexed db' cursor = (Inr curve, cursor')"
    "read_notional_today_micros indexed parse db' clock_s = Inr notional" "read_orders_last_hour indexed parse db' clock_s = Inr orders"
    and ctx: "ctx = build_evaluation_context config ti"
    and ti: "ti_now ti = clock_s" "ti_verification ti = verified" "ti_whitelist ti = {nm_ticker (mc_market candidate)}"
      "ti_market ti = (case get_market px (nm_ticker (mc_market candidate)) of Inl _ \<Rightarrow> None | Inr m \<Rightarrow> Some m)"
      "ti_exchange_status ti = project_exchange_status (Some (es_status (get_exchange_status px status_at)))"
      "ti_exchange_status_epoch_s ti = Some (whole_seconds (es_fetched_at (get_exchange_status px status_at)))"
      "ti_pipeline_heartbeat_epoch_s ti = Some heartbeat"
      "ti_quote_snapshot_epoch_s ti = Some (whole_seconds (ob_fetched_at (mc_order_book candidate)))"
      "ti_exchange_clock_epoch_s ti = clock" "ti_forecast_epoch_s ti = Some (whole_seconds (fr_created_at forecast))"
      "ti_equity_start_of_day ti = baseline" "ti_realized_loss_today ti = loss" "ti_equity_curve ti = curve"
      "ti_visible_depth ti = Some (visible_depth_centis (mc_order_book candidate))" "ti_exposure ti = exposure"
      "ti_notional_today ti = notional" "ti_orders_last_hour ti = orders"
    by (rule approve_context_reads [OF assms(1)], rule that, assumption+) simp_all
  note a = assms(2) [unfolded ctx]
  obtain d where d: "read_day_equity indexed db' clock_s = Inr d" "baseline = map_option de_baseline d" "loss = map_option realized_loss d"
    using r(2,3) by (auto simp: read_start_of_day_equity_micros_def read_realized_loss_today_micros_def res_bind_Inr_iff)
  then obtain y where y: "d = Some y" using tick_losses(2) [OF a] ti by (cases d) auto
  obtain v where v: "verified = Some v" "fresh (Some (verified_at_epoch_s v)) clock_s 3600" "balance_ok v" "position_ok v" "open_order_ok v"
    "cc_floor_micros (wc_capital config) \<le> provable_equity led v - val (price i) * val (order_size i)"
    by (rule tick_verified [OF a assms(3)]) (auto simp: ti)
  note e = tick_exposed [OF a assms(3,4), unfolded ti, OF v(1)]
  show ?thesis
    unfolding Let_def
    using tick_evidence [OF a, unfolded ti] v d y r tick_losses(1,3) [OF a, unfolded ti] tick_velocity [OF a assms(3,4), unfolded ti]
    by (intro conjI) (force simp: projections_exact split: sum.splits intro: e)+
qed

text \<open>A first order on a fresh ledger with one sample.\<close>

definition tick_config :: WindbreakConfig where
  "tick_config = \<lparr>wc_capital = \<lparr>cc_floor_micros = 1000000, cc_floor_ratchet_ppm_of_new_profits = 0, cc_profit_sweep_threshold_micros = 0,
     cc_max_deploy_pct_above_floor_ppm = 0, cc_micro_cap_micros = 0\<rparr>, wc_risk = RiskConfig_default, wc_correlation = []\<rparr>"

definition tick_book :: OrderBookSnapshot where
  "tick_book = (sample_listing_book ''A'')\<lparr>ob_fetched_at := 1000000000\<rparr>"

definition tick_exchange :: PaperExchange where
  "tick_exchange = \<lparr>px_markets = [(''A'', sample_listing ''A'' ''weather'')], px_sessions = [(''A'', [\<lparr>st_book = tick_book, st_trades = []\<rparr>])],
     px_exchange_status = \<lparr>es_status = ''open'', es_fetched_at = 0\<rparr>, px_exchange_time = 1004000000, px_substantiated_until = None,
     px_balances = \<lparr>bal_total = IntUnit 0, bal_available = IntUnit 0, bal_fetched_at = 0\<rparr>,
     px_balance_semantics = \<lparr>open_order_collateral_in_total = TOTAL_INCLUDED, open_order_collateral_in_available = DEDUCTED_FROM_AVAILABLE,
       fee_debit_timing = AT_EXECUTION, fee_rounding = FEE_EXACT, partial_fill_representation = PER_FILL_RECORDS,
       cancel_collateral_release = RELEASE_IMMEDIATE, unsettled_proceeds = EXCLUDED_UNTIL_CREDITED, halted_market_behavior = NEW_ORDERS_REJECTED\<rparr>,
     px_fee_models = [], px_haircut_ppm = 0, px_max_participation_ppm = 0, px_cursor = [(''A'', 0)],
     px_resting = [], px_rested = [], px_fills = [], px_order_seq = 0, px_fill_seq = 0\<rparr>"

definition tick_forecast :: ForecastRecord where
  "tick_forecast = \<lparr>fr_forecast_id = ''f1'', fr_market_ticker = ''A'', fr_normalized_question_hash = ''h'', fr_probability_ppm = 600000,
     fr_ci_low_ppm = 550000, fr_ci_high_ppm = 650000, fr_model_votes = [], fr_vote_dispersion_ppm = 50000, fr_rationale_markdown = [],
     fr_citations = [], fr_source_quality_notes = [], fr_research_cost_micros = 0, fr_triage_stage = ''full'', fr_created_at = 1000000000,
     fr_forecast_horizon_hours = 240, fr_market_price_baseline_pips = 4000, fr_baseline_quote_snapshot_id = ''s'',
     fr_coherence_group_sum_ppm = None, fr_coherence_flag = False, fr_abstention_reason = None, fr_eligible_for_live = True\<rparr>"

definition tick_exposure :: ExposureProjection where
  "tick_exposure = \<lparr>ep_market_exposure = IntUnit 0, ep_event_exposure = IntUnit 0, ep_bucket_exposure = IntUnit 0, ep_total_exposure = IntUnit 0,
     ep_bucket_peers = [], ep_target_tags = []\<rparr>"

definition tick_intent :: OrderIntent where
  "tick_intent = sample_intent\<lparr>market_ticker := ''A'', price := IntUnit 5000, order_size := IntUnit 1\<rparr>"

definition tick_context :: "table \<Rightarrow> (tick_error + EvaluationContext) \<times> table \<times> EquityCurveCursor" where
  "tick_context db = approve_context (\<lambda>_. []) (\<lambda>_. None, []) True (\<lambda>_. None) tick_config tick_exchange (Some sample_snapshot)
     \<lparr>mc_market = sample_listing ''A'' ''weather'', mc_order_book = tick_book\<rparr> 1000 tick_forecast (Some tick_exposure) 1004000000 1005 1004000000 db
     EquityCurveCursor_new"

lemma tick_context_approves:
  obtains db ctx db' cursor where "tick_context db = (Inr ctx, db', cursor)" "approves tick_intent (effective_context (ReservationLedger_new []) ctx)"
proof -
  let ?sha = "\<lambda>_. []" and ?e = "ExchangeStatusObserved SCHEDULER_COMPONENT ''open'' 1004"
  obtain db where db: "store_ok ?sha db" "map equity_sample db = [Inr (500, 100000000)]"
      "filter (\<lambda>r. lr_event_type r = EQUITY_SAMPLED_EVENT_TYPE) db = db"
    using sampled_ledger_reads [OF store_ok_Nil(1), of ?sha "[(500, 100000000)]"] by auto
  have wf: "json_wf (JObj (payload ?e))" by (simp add: ExchangeStatusObserved_def derive_typed_event_def dict_wf_def)
  obtain r where r: "store_append ?sha (\<lambda>_. None, []) ?e db = (Inr (), db @ [r])" "store_ok ?sha (db @ [r])" "row_of ?e r"
    by (cases "store_append ?sha (\<lambda>_. None, []) ?e db", rule store_append_cases [OF db(1) wf]) auto
  obtain a where a: "db = [a]" "equity_sample a = Inr (500, 100000000)" using db(2) by (auto simp: map_eq_Cons_conv)
  have at: "lr_event_type a = EQUITY_SAMPLED_EVENT_TYPE" using db(3) by (simp add: a(1) split: if_splits)
  have rt: "lr_event_type r = ''ExchangeStatusObserved''" using r(3) by (simp add: row_of_def ExchangeStatusObserved_def derive_typed_event_def)
  have ra: "read_all [a, r] = [a, r]" using r(2) by (simp add: a(1) store_ok_def)
  have seq: "lr_sequence_number a = 1" using sequence_numbers [OF r(2), of 0] by (simp add: a(1))
  have reads: "read_day_equity True [a, r] 1005 = Inr (Some \<lparr>de_baseline = IntUnit 100000000, de_trough = IntUnit 100000000\<rparr>)"
    "read_equity_curve True [a, r] EquityCurveCursor_new =
       (Inr (Some \<lparr>ec_high_water_mark = IntUnit 100000000, ec_latest = IntUnit 100000000\<rparr>),
        \<lparr>cu_curve = Some \<lparr>ec_high_water_mark = IntUnit 100000000, ec_latest = IntUnit 100000000\<rparr>, cu_covered_through = 1\<rparr>)"
    "read_notional_today_micros True p [a, r] 1005 = Inr (Some (IntUnit 0))" "read_orders_last_hour True p [a, r] 1005 = Inr (Some 0)" for p
    by (simp_all add: read_day_equity_def read_equity_curve_def read_notional_today_micros_def read_orders_last_hour_def
        iter_records_of_type_reversed_def ra rt at EQUITY_SAMPLED_EVENT_TYPE_def LOOP_FILL_ACCOUNTED_EVENT_TYPE_def ORDER_TRANSITION_EVENT_TYPE_def
        a(2) utc_day_def fold_day_equity_def fold_equity_curve_def samples_above_the_watermark_def curve_sample_def EquityCurveCursor_new_def
        res_bind_def seq)
  have venue: "get_exchange_status tick_exchange 1004000000 = \<lparr>es_status = ''open'', es_fetched_at = 1004000000\<rparr>" "whole_seconds 1004000000 = 1004"
    "read_exchange_clock_epoch_s tick_exchange 1004000000 = Inr (Some 1004)" "read_open_position_centis tick_exchange ''A'' = Inr (Some (IntUnit 0))"
    "get_market tick_exchange ''A'' = Inr (sample_listing ''A'' ''weather'')"
    by code_simp+
  obtain ctx where c: "tick_context db = (Inr ctx, [a, r], snd (read_equity_curve True [a, r] EquityCurveCursor_new))"
    "ctx = build_evaluation_context tick_config
       \<lparr>ti_now = 1005, ti_verification = Some sample_snapshot, ti_whitelist = {''A''}, ti_market = Some (sample_listing ''A'' ''weather''),
        ti_exchange_status = Some EXCHANGE_OPEN, ti_exchange_status_epoch_s = Some 1004, ti_pipeline_heartbeat_epoch_s = Some 1000,
        ti_quote_snapshot_epoch_s = Some 1000, ti_exchange_clock_epoch_s = Some 1004, ti_forecast_epoch_s = Some 1000,
        ti_open_position = Some (IntUnit 0), ti_equity_start_of_day = Some (IntUnit 100000000), ti_realized_loss_today = Some (IntUnit 0),
        ti_equity_curve = Some \<lparr>ec_high_water_mark = IntUnit 100000000, ec_latest = IntUnit 100000000\<rparr>,
        ti_visible_depth = Some (IntUnit 5), ti_exposure = Some tick_exposure, ti_notional_today = Some (IntUnit 0), ti_orders_last_hour = Some 0\<rparr>"
    using r(1) by (simp add: tick_context_def approve_context_def Let_def a(1) venue reads read_start_of_day_equity_micros_def
        read_realized_loss_today_micros_def realized_loss_def res_bind_def projections_exact project_exchange_status_def raw_tables dict_get_def
        sample_listing_def tick_book_def tick_forecast_def sample_listing_book_def visible_depth_centis_def whole_seconds_def)
  have "approves tick_intent (effective_context (ReservationLedger_new []) ctx)"
    unfolding c(2) tick_intent_def tick_exposure_def tick_config_def by code_simp
  with c(1) that show thesis by blast
qed

theorem tick_approval_needs_evidence_witness:
  "\<exists>db db'. db' = fst (snd (tick_context db)) \<and> (\<exists>k. read_orders_last_hour True (\<lambda>_. None) db' 1005 = Inr (Some k) \<and> k < 20) \<and>
     (\<exists>d. read_day_equity True db' 1005 = Inr (Some d))"
proof -
  obtain db ctx db' cursor where t: "tick_context db = (Inr ctx, db', cursor)" "approves tick_intent (effective_context (ReservationLedger_new []) ctx)"
    by (rule tick_context_approves)
  have i: "action tick_intent = ''buy''" "0 < val (price tick_intent) * val (order_size tick_intent)"
    by (simp_all add: tick_intent_def sample_intent_def)
  from tick_approval_needs_evidence [OF t(1) [unfolded tick_context_def] t(2) i] t(1)
  show ?thesis unfolding Let_def by (intro exI [of _ db] exI [of _ db']) (auto simp: tick_config_def RiskConfig_default_def)
qed

end
