(* ===== verification/Spec2Isabelle.thy ===== *)
theory Spec2Isabelle
  imports Numeric Fees Modes Events Checks Tokens Reservations HumanAck Kill Governance GatewayLimits Reconcile FillAccounting SelectorSafety
    KernelSafety TickContext
begin

text \<open>
  Verification of the trading-safety core of windbreak (\<open>src/windbreak\<close>).

  \<^bold>\<open>The program.\<close> Windbreak researches prediction markets and trades them under a risk kernel. A tick of the scheduler
  (\<open>scheduler/\<close>) screens the markets (\<open>screener/\<close>), buys forecasts within a research budget (\<open>forecast/\<close>), and puts what the selector
  proposes before the kernel with the evidence read back from the ledger. The
  selector (\<open>selector/\<close>) turns a forecast and an order book into a sized order intent or into reasons not to trade. The
  kernel (\<open>riskkernel/\<close>) is promoted mode by mode on evidence judged by a registered plan (\<open>evaluation/preregistration.py\<close>). It decides on each order intent with a fixed sequence of checks over an evaluation
  context, reserves the worst-case cost of what it approves and signs an approval token. The order gateway
  (\<open>order_gateway/\<close>) verifies the token, admits closes only within the held position, writes the intent to
  a write-ahead log, submits it and ledgers every transition of the order; after a crash it recovers from
  the ledger, the log and the venue. A reconciler, a sweeper and the consumer of the cancel-all directive
  work beside it. In paper trading the venue is a replay of a recorded market (\<open>connector/\<close>). The
  scheduler books its arrivals and fills to the ledger, and the kernel compares the venue, cycle by cycle, with the
  expectation it keeps from those entries. Every component appends typed events to a hash-chained ledger
  (\<open>ledger/\<close>) and raises alerts (\<open>alerts/\<close>). Humans act
  through acknowledgements, the kill switch, re-arming and the governance of the floor.

  \<^bold>\<open>Theories and sources.\<close>
  \<^item> \<open>Prelude\<close>: insertion-ordered dicts (an association list), results, decimal text, shared lemmas.
  \<^item> \<open>Numeric\<close> (\<open>numeric/rounding.py\<close>, \<open>numeric/types.py\<close>) and \<open>Fees\<close> (\<open>connector/fees.py\<close>):
    scaled integers, rounding, display text, fee bounds.
  \<^item> \<open>Modes\<close> (\<open>riskkernel/modes.py\<close>, \<open>demotion.py\<close>): the mode machine with its ceiling and demotion.
  \<^item> \<open>Events\<close> (\<open>ledger/events.py\<close>, \<open>ledger/directives.py\<close>): canonical JSON, events, deliveries.
  \<^item> \<open>Checks\<close> (\<open>riskkernel/context.py\<close>, \<open>floor.py\<close>, \<open>checks.py\<close>): the context, every check in its
    order, the fail-closed evaluation.
  \<^item> \<open>Tokens\<close> (\<open>tokens/verify.py\<close>, \<open>riskkernel/signing.py\<close>, \<open>riskkernel/tokens.py\<close>,
    \<open>order_gateway/tokens.py\<close>): claims, signing, verification, single use.
  \<^item> \<open>Reservations\<close> (\<open>riskkernel/reservations.py\<close>): the reservation ledger, the approval pipeline.
  \<^item> \<open>HumanAck\<close> (\<open>riskkernel/human_ack.py\<close>, \<open>ack_flow.py\<close>), \<open>Kill\<close> (\<open>riskkernel/kill.py\<close>) and
    \<open>Governance\<close> (\<open>riskkernel/governance.py\<close>): the operator's side.
  \<^item> \<open>Json\<close> and \<open>JsonPrefix\<close>: the decoder \<open>json.loads\<close> as the stores use it, that it inverts
    \<open>canonical_json\<close>, and how it treats a text cut short.
  \<^item> \<open>LedgerStore\<close> (\<open>ledger/store.py\<close>): the table of rows, appending, reads, verification, rebuilding.
  \<^item> \<open>OrderStates\<close> (\<open>order_gateway/state_machine.py\<close>) and \<open>Wal\<close> (\<open>order_gateway/wal.py\<close>,
    \<open>client_order_id.py\<close>): order life cycles, the journal.
  \<^item> \<open>Gateway\<close> (\<open>order_gateway/gateway.py\<close>, \<open>reduce_only.py\<close>, \<open>recovery.py\<close>,
    \<open>ledger_writer.py\<close>): the gateway's state and operations; \<open>GatewaySafety\<close> its invariants;
    \<open>GatewayLimits\<close> what does not hold, by concrete runs.
  \<^item> \<open>Reconcile\<close> (\<open>order_gateway/reconciler.py\<close>, \<open>sweeper.py\<close>, \<open>cancel_all.py\<close>): the workers,
    and the theorems on runs of calls, worker cycles, restarts and recoveries together.
  \<^item> \<open>Venue\<close> (\<open>connector/models.py\<close>, \<open>semantics.py\<close>): the venue's records. \<open>Fills\<close>
    (\<open>connector/fills.py\<close>): the paper fill model. \<open>Paper\<close> (\<open>connector/paper.py\<close>): the replay
    exchange; \<open>PaperAccount\<close> its account under any sequence of placements, cancels and steps.
  \<^item> \<open>Alerts\<close> (\<open>alerts/\<close>): the catalogue, the fan-out to the sinks and its record.
  \<^item> \<open>Verification\<close> (\<open>riskkernel/verification.py\<close>): the expectation and the cycle.
  \<^item> \<open>FillAccounting\<close> (\<open>scheduler/fill_accounting.py\<close>): the bookkeeper and the feed, and the theorem on
    the whole of it: paper exchange, bookkeeper, ledger, feed, expectation and cycle together.
  \<^item> \<open>Selector\<close> (\<open>selector/\<close>, with the records of \<open>forecast/records.py\<close> and \<open>config/schema.py\<close>
    it reads): edge, entry conditions, sizing, caps, execution style, intents, closes and the decision's text;
    \<open>SelectorSafety\<close> what it guarantees.
  \<^item> \<open>GatePlan\<close> (\<open>evaluation/preregistration.py\<close>): gate plans, their canonical form and hash, their registration.
    \<open>Promotion\<close> (\<open>riskkernel/promotion.py\<close>, \<open>evidence.py\<close>): gates, criteria, the override, anchored evidence.
    \<open>Kernel\<close> (\<open>riskkernel/process.py\<close>): the kernel's state and every operation on it; \<open>KernelSafety\<close> its guarantees.
  \<^item> \<open>Sanitize\<close> (\<open>forecast/sanitize.py\<close>): what of a page reaches a prompt, and what of an answer is a vote.
  \<^item> \<open>Screening\<close> (\<open>screener/\<close>, \<open>scheduler/screening.py\<close>): the filters, the screener, the walk of the universe.
  \<^item> \<open>ResearchSpend\<close> (\<open>forecast/budget.py\<close>, \<open>scheduler/research_spend.py\<close>, with the parts of \<open>scheduler/loop.py\<close>, \<open>main.py\<close>
    and \<open>forecast/pipeline.py\<close> that build, set and charge the budget).
  \<^item> \<open>TickEvidence\<close> (\<open>scheduler/loop.py\<close>): the folds over the ledger, each whole and through the reverse walk.
    \<open>TickContext\<close> (\<open>scheduler/eligibility.py\<close>, \<open>exposure.py\<close>, and of \<open>loop.py\<close> the limits, the account and the context).

  \<^bold>\<open>How the state corresponds.\<close> An object is a record of its attributes and an operation returns the
  updated record; a raise is the left side of a sum. Where the code has changed something before it raises,
  the operation returns the error and the changed state (\<open>'a gw\<close> in \<open>Gateway\<close>). Dicts keep insertion
  order. Amounts are unbounded integers wrapped with their unit, as in the code. Clocks, nonces and what a
  callback answers are arguments. HMAC-SHA-256 and SHA-256 are parameters, without hypotheses except where
  a theorem names one (the length of a digest). In \<open>Gateway\<close> every durable write may be made, be lost, or
  be made although the call raises, by an arbitrary function of the write; the submitter may raise with or
  without the order at the venue. \<open>gw_venue\<close> and \<open>gw_cancelled\<close> record what reached the venue and
  are not attributes of the code. A restart is a fresh gateway over the same journal, log and venue.

  \<^bold>\<open>Interfaces.\<close> Locales state what a client relies on: insertion-ordered dicts (\<open>py_dict\<close>), a conservative
  division (\<open>Numeric\<close>), the gate before trading (\<open>pretrade_gate\<close> in \<open>Checks\<close>), a single-use registry
  (\<open>Tokens\<close>), a durable log (\<open>LedgerStore\<close>), and machines: one whose every step keeps an invariant
  (\<open>invariant_machine\<close>), one that only grows (\<open>monotone_machine\<close>), one that keeps an invariant under
  steps of an allowed kind (\<open>guarded_machine\<close>), and one that refines an abstract machine (\<open>refining_machine\<close>; the registrations of
  \<open>GatePlan\<close> and the spending of \<open>ResearchSpend\<close> are such). The feed of accounting entries is
  \<open>accounting_feed\<close> in \<open>Verification\<close>, provided by the ledger's feed in \<open>FillAccounting\<close>. Each is interpreted on the model's own
  definitions.

  \<^bold>\<open>Fuel.\<close> \<open>scan_once\<close> recurses on fuel; \<open>json_loads\<close> starts it with twice the length of the text plus one,
  and \<open>scan_fuel_mono\<close> with the round trip shows that what a text needs is within that. No other loop has fuel:
  the demotion loop of a confirmed lowering terminates by the rung.

  \<^bold>\<open>What the lemmas show.\<close> The floor and the caps hold for everything that is approved, alone and jointly; no
  order is placed twice as long as acknowledgements are durable, none without authority, none before its intent
  is written; closes stay within the position; a halt is final in the process and across restarts; recovery
  opens the gate only over a venue it can account for; the ledger verifies after any appends, rebuilds exactly
  them, and shows any change of one column; the kill state and the floor are exactly what their events replay;
  the exact behaviour of the workers and the operator's operations on every branch. The paper account never fills an
  order twice over or past its size and neither loses nor makes up money; the kernel's expectation follows it, exactly
  in positions and orders, whenever it is read; a gap in the books freezes it. The selector never raises on a
  well-formed book, and what it emits is within every cap it was given and pays for itself after the worst-case fee.
  The kernel approves on its own verification only, leaves a safety mode only by a restart, climbs a rung exactly on the
  evidence, and recovers from its events. The research ceiling holds across restarts; a page cannot break out of its frame.
  A buy of a tick is approved only when every term of its context was proven, and the memo of the equity curve never changes it.

  \<^bold>\<open>What the model found.\<close> Lemmas that carry a counterexample: \<open>concentration_cap_not_joint\<close>,
  \<open>lapse_frees_live_reservation\<close>, \<open>initial_floor_not_replayed\<close>, \<open>column_shift_undetected\<close>,
  \<open>lost_ack_places_twice\<close>, \<open>same_token_places_twice\<close>, \<open>close_not_booked\<close>,
  \<open>violation_not_latched\<close>, \<open>unledgered_order_blocks_workers\<close>, \<open>reservation_gap_sample\<close>,
  \<open>kelly_size_negative\<close>, \<open>notional_below_level_fees\<close>, \<open>emitted_price_above_band\<close>,
  \<open>missing_catalogue_is_key_error\<close>, \<open>manual_kill_not_replayed\<close>, \<open>missing_data_escapes\<close>,
  \<open>negative_cap_escapes\<close>, \<open>backward_clock_splits_the_readings\<close>.

  \<^bold>\<open>Not modelled.\<close> The rest of the scheduler's loop and of the process entry points: stages that call what is modelled, wiring, clocks
  and waiting; the kernel's command line; the live connectors, the loading of recordings and the live-book variant of the paper exchange;
  the forecast pipeline and its providers, which drive external services; evaluation
  statistics over floating point and SQL; configuration over a third-party schema library, of which the sections read elsewhere are records; the
  tokeniser of HTML, an argument of \<open>Sanitize\<close>; ledger anchors and projections; network guards, the
  transports of the alert sinks, dashboard, reports, drills and preflight. SQLite's locking and opening sequence,
  fsync, logging, signal handling and the loops that wait between cycles are outside the modelled parts.
\<close>

end
